(* ===== verification/Lwip_Prelude.thy ===== *)
theory Lwip_Prelude
  imports Main "HOL-Library.Word" "HOL-Library.Monad_Syntax"
begin

text \<open>
  Shared types, automation and generic lemmas of the lwIP development: the fixed-width
  integer types of \<^verbatim>\<open>arch.h\<close>, the error codes of \<^verbatim>\<open>err.h\<close>, assertions in the
  option monad, byte buffers, and the word and list lemmas the component theories share.
\<close>

unbundle bit_operations_syntax

section \<open>Integer types and error codes\<close>

type_synonym u8 = "8 word"
type_synonym u16 = "16 word"
type_synonym u32 = "32 word"

datatype err_t = ERR_OK | ERR_MEM | ERR_BUF | ERR_TIMEOUT | ERR_RTE | ERR_INPROGRESS
  | ERR_VAL | ERR_WOULDBLOCK | ERR_USE | ERR_ALREADY | ERR_ISCONN | ERR_CONN | ERR_IF
  | ERR_ABRT | ERR_RST | ERR_CLSD | ERR_ARG

text \<open>
  The result type of every operation that can leave defined behaviour is an option:
  \<^term>\<open>None\<close> stands for a NULL or dangling dereference, an access outside a memory block, a
  failed \<^verbatim>\<open>LWIP_ASSERT\<close> or \<^verbatim>\<open>LWIP_ERROR\<close> (both abort in this configuration, see
  \<^verbatim>\<open>custom/arch/cc_others.h\<close>), or a loop that never ends.
\<close>

definition lwip_assert :: "bool \<Rightarrow> unit option" where
  "lwip_assert b = (if b then Some () else None)"

lemma lwip_assert_simps [simp]: "lwip_assert True = Some ()" "lwip_assert False = None"
  by (simp_all add: lwip_assert_def)

lemma lwip_assert_Some [simp]: "lwip_assert b = Some u \<longleftrightarrow> b"
  by (simp add: lwip_assert_def)

lemma lwip_assert_None [simp]: "lwip_assert b = None \<longleftrightarrow> \<not> b"
  by (simp add: lwip_assert_def)

named_theorems word_nat \<open>values of word operations as natural numbers\<close>

section \<open>Word lemmas\<close>

lemma unat_u8_less [simp]: "unat (x :: u8) < 256"
  using unsigned_less [of x, where ?'a = nat] by simp

lemma unat_u16_less [simp]: "unat (x :: u16) < 65536"
  using unsigned_less [of x, where ?'a = nat] by simp

lemma unat_u32_less [simp]: "unat (x :: u32) < 4294967296"
  using unsigned_less [of x, where ?'a = nat] by simp

lemma unat_u8_le [simp]: "unat (x :: u8) \<le> 255"
  using unat_u8_less [of x] by linarith

lemma unat_u16_le [simp]: "unat (x :: u16) \<le> 65535"
  using unat_u16_less [of x] by linarith

lemma unat_u32_le [simp]: "unat (x :: u32) \<le> 4294967295"
  using unat_u32_less [of x] by linarith

lemma unat_u16_div [simp]: "unat (x :: u16) div 256 < 256"
  using unat_u16_less [of x] by linarith

lemma unat_u32_div [simp]: "unat (x :: u32) div 65536 < 65536"
  using unat_u32_less [of x] by linarith

lemma unat_ucast_8_16 [word_nat, simp]: "unat (ucast (x :: u8) :: u16) = unat x"
  by (simp add: unsigned_ucast_eq take_bit_nat_eq_self_iff order.strict_trans [OF unat_u8_less])

lemma unat_ucast_8_32 [word_nat, simp]: "unat (ucast (x :: u8) :: u32) = unat x"
  by (simp add: unsigned_ucast_eq take_bit_nat_eq_self_iff order.strict_trans [OF unat_u8_less])

lemma unat_ucast_16_32 [word_nat, simp]: "unat (ucast (x :: u16) :: u32) = unat x"
  by (simp add: unsigned_ucast_eq take_bit_nat_eq_self_iff order.strict_trans [OF unat_u16_less])

lemma unat_ucast_32_16 [word_nat]: "unat (ucast (x :: u32) :: u16) = unat x mod 65536"
  by (simp add: unsigned_ucast_eq take_bit_eq_mod)

lemma unat_ucast_16_8 [word_nat]: "unat (ucast (x :: u16) :: u8) = unat x mod 256"
  by (simp add: unsigned_ucast_eq take_bit_eq_mod)

lemma unat_ucast_32_8 [word_nat]: "unat (ucast (x :: u32) :: u8) = unat x mod 256"
  by (simp add: unsigned_ucast_eq take_bit_eq_mod)

lemma unat_add_u16 [word_nat]: "unat ((a :: u16) + b) = (unat a + unat b) mod 65536"
  by (simp add: unat_word_ariths)

lemma unat_add_u32 [word_nat]: "unat ((a :: u32) + b) = (unat a + unat b) mod 4294967296"
  by (simp add: unat_word_ariths)

lemma unat_sub_u16: "b \<le> a \<Longrightarrow> unat ((a :: u16) - b) = unat a - unat b"
  by (rule unat_sub)

lemma unat_add_u16_small: "unat (a :: u16) + unat b < 65536 \<Longrightarrow> unat (a + b) = unat a + unat b"
  by (simp add: word_nat)

lemma unat_add_u32_small:
  "unat (a :: u32) + unat b < 4294967296 \<Longrightarrow> unat (a + b) = unat a + unat b"
  by (simp add: word_nat)

lemma unat_of_nat_u16: "n < 65536 \<Longrightarrow> unat (of_nat n :: u16) = n"
  by (simp add: unat_of_nat take_bit_nat_eq_self_iff)

lemma unat_and_mask: "unat (w AND mask n) = unat w mod 2 ^ n"
proof -
  have "w AND mask n = take_bit n w" by (simp add: take_bit_eq_mask)
  moreover have "unat (take_bit n w) = take_bit n (unat w)" by (rule unsigned_take_bit_eq)
  ultimately show ?thesis by (metis take_bit_eq_mod)
qed

lemma unat_and_ff_u16 [word_nat]: "unat ((w :: u16) AND 0xff) = unat w mod 256"
using unat_and_mask [of w 8] by (simp add: mask_numeral)

lemma unat_and_ff_u32 [word_nat]: "unat ((w :: u32) AND 0xff) = unat w mod 256"
using unat_and_mask [of w 8] by (simp add: mask_numeral)

lemma unat_and_ffff_u32 [word_nat]: "unat ((w :: u32) AND 0xffff) = unat w mod 65536"
using unat_and_mask [of w 16] by (simp add: mask_numeral)

lemma unat_drop_bit [word_nat]: "unat (drop_bit n w) = unat w div 2 ^ n"
  unfolding unat_drop_bit_eq by (rule drop_bit_eq_div)

lemma unat_push_bit_u16 [word_nat]: "unat (push_bit n (w :: u16)) = unat w * 2 ^ n mod 65536"
  unfolding unsigned_push_bit_eq by (simp add: push_bit_eq_mult take_bit_eq_mod)

lemma unat_push_bit_u32 [word_nat]: "unat (push_bit n (w :: u32)) = unat w * 2 ^ n mod 4294967296"
  unfolding unsigned_push_bit_eq by (simp add: push_bit_eq_mult take_bit_eq_mod)

text \<open>A disjunction of two numbers that share no bit is their sum.\<close>

lemma nat_or_disjoint: "a < 2 ^ n \<Longrightarrow> (a :: nat) OR b * 2 ^ n = a + b * 2 ^ n"
proof -
  assume less: "a < 2 ^ n"
  have "a AND push_bit n b = 0"
  proof (rule bit_eqI)
    fix m
    have "m < n" if "bit a m"
    proof (rule ccontr)
      assume "\<not> m < n"
      with less have "a < 2 ^ m" by (meson le_less_trans less_le_trans not_less one_le_numeral power_increasing)
      with that show False by (simp add: bit_nat_iff bit_iff_odd)
    qed
    then show "bit (a AND push_bit n b) m \<longleftrightarrow> bit (0 :: nat) m"
      by (auto simp: bit_simps)
  qed
  then show ?thesis
    by (simp add: push_bit_eq_mult flip: disjunctive_add_eq_or)
qed

text \<open>A disjunction with a multiple of a power of two acts on the high part alone.\<close>

lemma nat_or_double: "(n :: nat) OR (2 * m) = n mod 2 + 2 * (n div 2 OR m)"
  by (subst or_nat_rec) (simp add: mod_2_eq_odd)

lemma nat_or_power: "(n :: nat) OR (2 ^ k * m) = n mod 2 ^ k + 2 ^ k * (n div 2 ^ k OR m)"
proof (induction k arbitrary: n)
  case (Suc k)
  have "n OR (2 ^ Suc k * m) = n mod 2 + 2 * (n div 2 OR (2 ^ k * m))"
    using nat_or_double [of n "2 ^ k * m"] by (simp only: power_Suc mult.assoc)
  also have "\<dots> = n mod 2 + 2 * (n div 2 mod 2 ^ k) + 2 ^ Suc k * (n div 2 div 2 ^ k OR m)"
    by (simp only: Suc.IH) (simp add: algebra_simps)
  also have "n mod 2 + 2 * (n div 2 mod 2 ^ k) = n mod 2 ^ Suc k"
    by (simp add: mod_mult2_eq)
  finally show ?case by (simp add: div_mult2_eq)
qed simp

lemma nat_or_32: "(n :: nat) OR 32 = (if odd (n div 32) then n else n + 32)"
proof -
  have "n OR 32 = n mod 32 + 32 * (n div 32 OR 1)"
    using nat_or_power [of n 5 1] by simp
  also have "\<dots> = n mod 32 + 32 * (n div 32) + 32 * of_bool (even (n div 32))"
    by (simp only: or_one_eq) simp
  finally show ?thesis by simp
qed

text \<open>The little-endian bytes of a number.\<close>

fun bytes_le :: "nat \<Rightarrow> nat \<Rightarrow> nat list" where
  "bytes_le 0 n = []"
| "bytes_le (Suc k) n = n mod 256 # bytes_le k (n div 256)"

lemma length_bytes_le [simp]: "length (bytes_le k n) = k"
  by (induction k arbitrary: n) auto

lemma bytes_le_step: "a < 256 \<Longrightarrow> bytes_le (Suc k) (a + 256 * m) = a # bytes_le k m"
  by simp

lemma bytes_le_4:
  assumes "a < 256" "b < 256" "c < 256" "d < 256"
  shows "bytes_le 4 (a + 256 * (b + 256 * (c + 256 * d))) = [a, b, c, d]"
proof -
  have "bytes_le (Suc 0) d = [d]" using assms by simp
  then have "bytes_le (Suc (Suc (Suc (Suc 0)))) (a + 256 * (b + 256 * (c + 256 * d))) = [a, b, c, d]"
    by (simp only: bytes_le_step assms)
  moreover have "(4 :: nat) = Suc (Suc (Suc (Suc 0)))" by simp
  ultimately show ?thesis by (simp only:)
qed

lemma bytes_le_inject: "m < 256 ^ k \<Longrightarrow> n < 256 ^ k \<Longrightarrow> bytes_le k m = bytes_le k n \<Longrightarrow> m = n"
proof (induction k arbitrary: m n)
  case (Suc k)
  have "m div 256 < 256 ^ k" "n div 256 < 256 ^ k"
    using Suc.prems by (simp_all add: less_mult_imp_div_less mult.commute)
  then have "m div 256 = n div 256"
    using Suc.prems by (intro Suc.IH) simp_all
  moreover have "m mod 256 = n mod 256"
    using Suc.prems by simp
  ultimately show ?case
    by (metis div_mult_mod_eq)
qed simp

section \<open>Searches\<close>

lemma case_filter_find: "(case filter P xs of [] \<Rightarrow> None | x # _ \<Rightarrow> Some (f x)) = map_option f (List.find P xs)"
  by (induction xs) auto

lemma find_append: "List.find P (xs @ ys) = (case List.find P xs of None \<Rightarrow> List.find P ys | Some x \<Rightarrow> Some x)"
  by (induction xs) auto

section \<open>Byte buffers\<close>

text \<open>\<^verbatim>\<open>memcpy(buf + off, src, length src)\<close>, defined only inside the buffer.\<close>

definition buf_write :: "u8 list \<Rightarrow> nat \<Rightarrow> u8 list \<Rightarrow> u8 list option" where
  "buf_write buf off src =
     (if off + length src \<le> length buf
      then Some (take off buf @ src @ drop (off + length src) buf) else None)"

text \<open>The \<^verbatim>\<open>n\<close> bytes at \<^verbatim>\<open>off\<close>, defined only inside the buffer.\<close>

definition buf_read :: "u8 list \<Rightarrow> nat \<Rightarrow> nat \<Rightarrow> u8 list option" where
  "buf_read buf off n =
     (if off + n \<le> length buf then Some (take n (drop off buf)) else None)"

lemma take_split: "k \<le> n \<Longrightarrow> take n xs = take k xs @ take (n - k) (drop k xs)"
  by (metis le_add_diff_inverse take_add)

text \<open>A list with a part of it replaced.\<close>

definition patch :: "nat \<Rightarrow> 'a list \<Rightarrow> 'a list \<Rightarrow> 'a list" where
  "patch off src xs = take off xs @ src @ drop (off + length src) xs"

lemma patch_Nil [simp]: "patch off [] xs = xs"
  by (simp add: patch_def)

lemma length_patch [simp]: "off + length src \<le> length xs \<Longrightarrow> length (patch off src xs) = length xs"
  by (simp add: patch_def)

lemma patch_single: "off < length xs \<Longrightarrow> patch off [x] xs = xs[off := x]"
  by (simp add: patch_def upd_conv_take_nth_drop)

lemma patch_append_left:
  "off + length src \<le> length xs \<Longrightarrow> patch off src (xs @ ys) = patch off src xs @ ys"
  by (simp add: patch_def)

lemma patch_append_right: "patch (length xs + off) src (xs @ ys) = xs @ patch off src ys"
  by (simp add: patch_def add.assoc)

lemma patch_append_both:
  "length src1 = length xs - off \<Longrightarrow> off \<le> length xs \<Longrightarrow>
   patch off (src1 @ src2) (xs @ ys) = patch off src1 xs @ patch 0 src2 ys"
  by (simp add: patch_def)

lemma patch_patch:
  "off + length (src1 @ src2) \<le> length xs \<Longrightarrow>
   patch (off + length src1) src2 (patch off src1 xs) = patch off (src1 @ src2) xs"
  by (simp add: patch_def ac_simps)

lemma take_patch: "off + n \<le> length xs \<Longrightarrow> n = length src \<Longrightarrow> take n (drop off (patch off src xs)) = src"
  by (simp add: patch_def)

lemma take_drop_patch:
  assumes "off + length src \<le> n" "d + n \<le> length bs"
  shows "take n (drop d (patch (d + off) src bs)) = patch off src (take n (drop d bs))"
proof -
  obtain xs ys zs where bs: "bs = xs @ ys @ zs" "length xs = d" "length ys = n"
    using assms(2) by (metis (no_types, lifting) add_leD1 append_take_drop_id diff_add_inverse
      drop_drop le_add_diff_inverse length_drop length_take min.absorb2 add_le_imp_le_diff add.commute)
  have "patch (d + off) src bs = xs @ patch off src ys @ zs"
    using assms(1) bs patch_append_right [of xs off src "ys @ zs"] patch_append_left [of off src ys zs]
    by simp
  then show ?thesis using bs assms(1) by simp
qed

lemma buf_write_patch:
  "off + length src \<le> length buf \<Longrightarrow> buf_write buf off src = Some (patch off src buf)"
  by (simp add: buf_write_def patch_def)

lemma buf_write_length: "buf_write buf off src = Some buf' \<Longrightarrow> length buf' = length buf"
  by (auto simp: buf_write_def split: if_splits)

lemma buf_read_length: "buf_read buf off n = Some bs \<Longrightarrow> length bs = n"
  by (auto simp: buf_read_def split: if_splits)

lemma buf_read_write_same:
  "buf_write buf off src = Some buf' \<Longrightarrow> buf_read buf' off (length src) = Some src"
  by (auto simp: buf_write_def buf_read_def split: if_splits)

section \<open>C strings\<close>

text \<open>
  A C string is the list of its bytes without the terminator: reading at its end gives the
  terminating zero byte.
\<close>

definition chr0 :: "u8 list \<Rightarrow> u8" where
  "chr0 s = (case s of [] \<Rightarrow> 0 | c # _ \<Rightarrow> c)"

lemma chr0_simps [simp]: "chr0 [] = 0" "chr0 (c # s) = c"
  by (simp_all add: chr0_def)

text \<open>The string stored in a buffer: the bytes before its first zero byte.\<close>

definition cstr :: "u8 list \<Rightarrow> u8 list" where
  "cstr buf = takeWhile (\<lambda>c. c \<noteq> 0) buf"

lemma cstr_append_0: "0 \<notin> set s \<Longrightarrow> cstr (s @ 0 # rest) = s"
  by (induction s) (auto simp: cstr_def)

text \<open>Decimal digits of a number, the most significant first.\<close>

definition digit :: "nat \<Rightarrow> u8" where
  "digit d = 48 + of_nat d"

fun dec :: "nat \<Rightarrow> u8 list" where
  "dec n = (if n < 10 then [digit n] else dec (n div 10) @ [digit (n mod 10)])"

declare dec.simps [simp del]

lemma dec_small: "n < 10 \<Longrightarrow> dec n = [digit n]"
  by (subst dec.simps) simp

lemma dec_step: "10 \<le> n \<Longrightarrow> dec n = dec (n div 10) @ [digit (n mod 10)]"
  by (subst dec.simps) simp

lemma dec_not_Nil [simp]: "dec n \<noteq> []"
  by (subst dec.simps) simp

lemma unat_digit [simp]: "d < 10 \<Longrightarrow> unat (digit d) = 48 + d"
  by (simp add: digit_def unat_word_ariths unat_of_nat take_bit_nat_eq_self_iff)

lemma dec_digits: "c \<in> set (dec n) \<Longrightarrow> 48 \<le> unat c \<and> unat c \<le> 57"
proof (induction n rule: dec.induct)
  case (1 n)
  show ?case
  proof (cases "n < 10")
    case True
    with "1.prems" show ?thesis by (simp add: dec_small)
  next
    case False
    then have "c \<in> set (dec (n div 10)) \<or> c = digit (n mod 10)"
      using "1.prems" by (auto simp: dec_step)
    moreover have "unat (digit (n mod 10)) = 48 + n mod 10" by simp
    ultimately show ?thesis
      using "1.IH" [OF False] by auto
  qed
qed

lemma dec_no_zero: "0 \<notin> set (dec n)"
  using dec_digits [of 0 n] by auto

end
