(* ===== verification/Lwip_Def.thy ===== *)
theory Lwip_Def
  imports Lwip_Prelude
begin

text \<open>
  The common functions of \<^verbatim>\<open>core/c/core/def.c\<close>: byte-order conversion (the host is
  little-endian, \<^verbatim>\<open>custom/arch/cc_others.h\<close>), string search and comparison, and integer
  printing. Strings are lists of bytes (see \<^verbatim>\<open>Lwip_Prelude\<close>).
\<close>

section \<open>Byte order\<close>

definition lwip_htons :: "u16 \<Rightarrow> u16" where
  "lwip_htons n = push_bit 8 (n AND 0x00ff) OR drop_bit 8 (n AND 0xff00)"

definition lwip_htonl :: "u32 \<Rightarrow> u32" where
  "lwip_htonl n = push_bit 24 (n AND 0x000000ff) OR push_bit 8 (n AND 0x0000ff00)
     OR drop_bit 8 (n AND 0x00ff0000) OR drop_bit 24 (n AND 0xff000000)"

section \<open>Strings\<close>

text \<open>\<^verbatim>\<open>strncmp(s, t, n) == 0\<close>\<close>

fun strncmp_eq :: "u8 list \<Rightarrow> u8 list \<Rightarrow> nat \<Rightarrow> bool" where
  "strncmp_eq s t 0 = True"
| "strncmp_eq s t (Suc n) =
     (if chr0 s \<noteq> chr0 t then False
      else if chr0 s = 0 then True
      else strncmp_eq (tl s) (tl t) n)"

text \<open>The loop of \<^verbatim>\<open>lwip_strnstr\<close>: \<^verbatim>\<open>p\<close> is the rest of the buffer from index \<^verbatim>\<open>i\<close>.\<close>

fun lwip_strnstr_loop :: "u8 list \<Rightarrow> nat \<Rightarrow> u8 list \<Rightarrow> nat \<Rightarrow> nat option" where
  "lwip_strnstr_loop token n [] i = None"
| "lwip_strnstr_loop token n (c # p) i =
     (if c \<noteq> 0 \<and> i + length token \<le> n then
        if c = chr0 token \<and> strncmp_eq (c # p) token (length token) then Some i
        else lwip_strnstr_loop token n p (Suc i)
      else None)"

definition lwip_strnstr :: "u8 list \<Rightarrow> u8 list \<Rightarrow> nat \<Rightarrow> nat option" where
  "lwip_strnstr buffer token n =
     (if length token = 0 then Some 0 else lwip_strnstr_loop token n buffer 0)"

text \<open>
  The comparison of one pair of characters that \<^verbatim>\<open>lwip_stricmp\<close> and \<^verbatim>\<open>lwip_strnicmp\<close>
  share: \<^term>\<open>True\<close> lets the loop go on, \<^term>\<open>False\<close> returns 1.
\<close>

definition stricmp_same :: "u8 \<Rightarrow> u8 \<Rightarrow> bool" where
  "stricmp_same c1 c2 =
     (if c1 \<noteq> c2 then
        (let c1_upc = c1 OR 0x20 in
         if c1_upc \<ge> 97 \<and> c1_upc \<le> 122 then (let c2_upc = c2 OR 0x20 in c1_upc = c2_upc)
         else False)
      else True)"

function lwip_stricmp :: "u8 list \<Rightarrow> u8 list \<Rightarrow> int" where
  "lwip_stricmp str1 str2 =
     (let c1 = chr0 str1; c2 = chr0 str2 in
      if \<not> stricmp_same c1 c2 then 1
      else if c1 \<noteq> 0 then lwip_stricmp (tl str1) (tl str2)
      else 0)"
  by pat_completeness auto
termination
  by (relation "measure (\<lambda>(s, t). length s)") (auto simp: chr0_def split: list.splits)

text \<open>
  \<^verbatim>\<open>len--\<close> on a \<^verbatim>\<open>size_t\<close> wraps when \<^verbatim>\<open>len\<close> is 0 on entry: 64-bit \<^verbatim>\<open>size_t\<close>.
\<close>

function lwip_strnicmp :: "u8 list \<Rightarrow> u8 list \<Rightarrow> 64 word \<Rightarrow> int" where
  "lwip_strnicmp str1 str2 len =
     (let c1 = chr0 str1; c2 = chr0 str2 in
      if \<not> stricmp_same c1 c2 then 1
      else let len = len - 1 in
        if len \<noteq> 0 \<and> c1 \<noteq> 0 then lwip_strnicmp (tl str1) (tl str2) len
        else 0)"
  by pat_completeness auto
termination
  by (relation "measure (\<lambda>(s, t, n). length s)") (auto simp: chr0_def split: list.splits)

declare lwip_stricmp.simps [simp del] lwip_strnicmp.simps [simp del]

section \<open>Integer printing\<close>

text \<open>
  The digit loop of \<^verbatim>\<open>lwip_itoa\<close>: \<^verbatim>\<open>tmp\<close> moves down from the end of the buffer towards
  \<^verbatim>\<open>res\<close>; the loop ends when the number or the room is used up.
\<close>

function lwip_itoa_loop :: "u8 list \<Rightarrow> nat \<Rightarrow> nat \<Rightarrow> nat \<Rightarrow> u8 list \<times> nat \<times> nat" where
  "lwip_itoa_loop buf res tmp n =
     (if n \<noteq> 0 \<and> tmp > res then
        (let val = digit (n mod 10) in
         lwip_itoa_loop (buf[tmp - 1 := val]) res (tmp - 1) (n div 10))
      else (buf, tmp, n))"
  by pat_completeness auto
termination
  by (relation "measure (\<lambda>(buf, res, tmp, n). n)") auto

declare lwip_itoa_loop.simps [simp del]

text \<open>
  \<^verbatim>\<open>result\<close> is the buffer (its length is \<^verbatim>\<open>bufsize\<close>); the outcome is its new content.
  Negating the smallest \<^verbatim>\<open>int\<close> overflows, which C leaves undefined.
\<close>

definition lwip_itoa :: "u8 list \<Rightarrow> int \<Rightarrow> u8 list option" where
  "lwip_itoa result number =
     (let bufsize = length result in
      do {
        lwip_assert (number \<noteq> - 2147483648);
        let n = nat (if number \<ge> 0 then number else - number);
        if bufsize < 2 then Some (if bufsize = 1 then result[0 := 0] else result)
        else do {
          let (buf, res) = (if number < 0 then (result[0 := 45], 1) else (result, 0));
          let buf = buf[bufsize - 1 := 0];
          let (buf, tmp, n) = lwip_itoa_loop buf res (bufsize - 1) n;
          if n \<noteq> 0 then Some (buf[0 := 0])
          else if buf ! tmp = 0 then Some (buf[res := 48, res + 1 := 0])
          else Some (take res buf @ drop tmp buf @ drop (res + (bufsize - tmp)) buf)
        }
      })"

section \<open>Byte order: lemmas\<close>

lemma drop_and_16: "drop_bit 8 ((n :: u16) AND 0xff00) = drop_bit 8 n"
proof (rule word_unat_eq_iff [THEN iffD2])
  have "drop_bit 8 (n AND 0xff00) = drop_bit 8 n AND 0xff"
    by simp
  moreover have "unat (drop_bit 8 n AND 0xff) = unat n div 256 mod 256"
    by (simp only: word_nat) simp
  moreover have "unat (drop_bit 8 n) = unat n div 256"
    by (simp only: word_nat) simp
  ultimately show "unat (drop_bit 8 (n AND 0xff00)) = unat (drop_bit 8 n)"
    by simp
qed

lemma unat_lwip_htons [word_nat]: "unat (lwip_htons n) = unat n mod 256 * 256 + unat n div 256"
proof -
  have "unat (push_bit 8 (n AND 0x00ff)) = unat n mod 256 * 2 ^ 8"
    by (simp only: word_nat) simp
  moreover have "unat (drop_bit 8 (n AND 0xff00)) = unat n div 256"
    unfolding drop_and_16 by (simp only: word_nat) simp
  moreover have "unat n div 256 < 2 ^ 8"
    using unat_u16_div [of n] by (simp only: power_numeral) simp
  ultimately show ?thesis
    using nat_or_disjoint [of "unat n div 256" 8 "unat n mod 256"]
    by (simp add: lwip_htons_def unsigned_or_eq or.commute)
qed

lemma lwip_htons_htons [simp]: "lwip_htons (lwip_htons n) = n"
proof -
  have "unat n div 256 < 256" by simp
  then have "unat (lwip_htons (lwip_htons n)) = unat n div 256 * 256 + unat n mod 256"
    by (simp add: unat_lwip_htons)
  then show ?thesis by (simp add: word_unat_eq_iff)
qed

lemma and_field: "(n :: u32) AND push_bit k (mask m) = push_bit k (drop_bit k n AND mask m)"
  by (rule bit_word_eqI) (auto simp: bit_simps)

lemmas and_byte = and_field [where m = 8]

lemma unat_lwip_htonl:
  "unat (lwip_htonl n) = unat n mod 256 * 2 ^ 24 + unat n div 2 ^ 8 mod 256 * 2 ^ 16
     + unat n div 2 ^ 16 mod 256 * 2 ^ 8 + unat n div 2 ^ 24"
proof -
  let ?n = "unat n"
  let ?a = "push_bit 24 (n AND 0x000000ff)" and ?b = "push_bit 8 (n AND 0x0000ff00)"
    and ?c = "drop_bit 8 (n AND 0x00ff0000)" and ?d = "drop_bit 24 (n AND 0xff000000)"
  have b0: "n AND 0x0000ff00 = push_bit 8 (drop_bit 8 n AND 0xff)"
   and c0: "n AND 0x00ff0000 = push_bit 16 (drop_bit 16 n AND 0xff)"
   and d0: "n AND 0xff000000 = push_bit 24 (drop_bit 24 n AND 0xff)"
    using and_byte [of n 8] and_byte [of n 16] and_byte [of n 24]
    by (simp_all add: mask_numeral)
  have a: "unat ?a = ?n mod 256 * 2 ^ 24"
    by (simp only: word_nat) simp
  have b: "unat ?b = ?n div 2 ^ 8 mod 256 * 2 ^ 16"
    unfolding b0 by (simp only: word_nat) simp
  have c: "unat ?c = ?n div 2 ^ 16 mod 256 * 2 ^ 8"
    unfolding c0 by (simp only: word_nat) simp
  have less: "?n div 2 ^ 24 < 256" using unat_u32_less [of n] by (simp add: less_mult_imp_div_less)
  then have d: "unat ?d = ?n div 2 ^ 24"
    unfolding d0 by (simp only: word_nat) simp
  let ?D = "?n div 2 ^ 24" and ?C = "?n div 2 ^ 16 mod 256" and ?B = "?n div 2 ^ 8 mod 256"
  have dc: "?D OR ?C * 2 ^ 8 = ?D + ?C * 2 ^ 8"
    by (rule nat_or_disjoint) (use less in simp)
  have "?C * 2 ^ 8 \<le> 255 * 2 ^ 8" by (rule mult_le_mono1) simp
  then have dc_less: "?D + ?C * 2 ^ 8 < 2 ^ 16" using less by simp
  then have dcb: "(?D + ?C * 2 ^ 8) OR ?B * 2 ^ 16 = ?D + ?C * 2 ^ 8 + ?B * 2 ^ 16"
    by (rule nat_or_disjoint)
  have "?B * 2 ^ 16 \<le> 255 * 2 ^ 16" by (rule mult_le_mono1) simp
  then have "?D + ?C * 2 ^ 8 + ?B * 2 ^ 16 < 2 ^ 24" using dc_less by simp
  then have "(?D + ?C * 2 ^ 8 + ?B * 2 ^ 16) OR ?n mod 256 * 2 ^ 24
    = ?D + ?C * 2 ^ 8 + ?B * 2 ^ 16 + ?n mod 256 * 2 ^ 24"
    by (rule nat_or_disjoint)
  then have "unat (((?d OR ?c) OR ?b) OR ?a)
    = ?D + ?C * 2 ^ 8 + ?B * 2 ^ 16 + ?n mod 256 * 2 ^ 24"
    by (simp only: unsigned_or_eq a b c d dc dcb)
  moreover have "lwip_htonl n = ((?d OR ?c) OR ?b) OR ?a"
    by (simp only: lwip_htonl_def ac_simps)
  ultimately show ?thesis by (simp only: ac_simps)
qed

text \<open>\<^verbatim>\<open>lwip_htonl\<close> reverses the four bytes of a 32-bit integer, so that the bytes stored
  in memory by the little-endian host are in network order.\<close>

lemma lwip_htonl_bytes:
  "bytes_le 4 (unat (lwip_htonl n)) = rev (bytes_le 4 (unat n))"
proof -
  let ?b = "\<lambda>i. unat n div 256 ^ i mod 256"
  have top: "unat n div 256 ^ 3 mod 256 = unat n div 256 ^ 3"
    using unat_u32_less [of n] by (simp add: less_mult_imp_div_less)
  have "unat (lwip_htonl n) = ?b 3 + 256 * (?b 2 + 256 * (?b 1 + 256 * ?b 0))"
    unfolding top by (simp add: unat_lwip_htonl)
  then have "bytes_le 4 (unat (lwip_htonl n)) = [?b 3, ?b 2, ?b 1, ?b 0]"
    by (simp only: bytes_le_4 mod_less_divisor zero_less_numeral)
  moreover have "bytes_le 4 (unat n) = [?b 0, ?b 1, ?b 2, ?b 3]"
  proof -
    have "(4 :: nat) = Suc (Suc (Suc (Suc 0)))" by simp
    then show ?thesis by (simp only: bytes_le.simps) (simp flip: div_mult2_eq)
  qed
  ultimately show ?thesis by simp
qed

lemma lwip_htonl_htonl [simp]: "lwip_htonl (lwip_htonl n) = n"
proof -
  have "unat (lwip_htonl (lwip_htonl n)) = unat n"
    by (rule bytes_le_inject [where k = 4])
      (simp_all add: lwip_htonl_bytes order.strict_trans2 [OF unat_u32_less])
  then show ?thesis by (simp add: word_unat_eq_iff)
qed

section \<open>Strings: lemmas\<close>

lemma takeWhile_eq_strncmp: 
  assumes "0 \<notin> set t" "n \<le> length t"
  shows "strncmp_eq s t n \<longleftrightarrow> take n s = take n t"
  using assms
proof (induction n arbitrary: s t)
  case (Suc n)
  then obtain c t' where t: "t = c # t'" by (cases t) auto
  with Suc.prems have c: "c \<noteq> 0" by auto
  show ?case
  proof (cases s)
    case (Cons d s')
    then show ?thesis using Suc t c by auto
  qed (use t c in simp)
qed simp

lemma strnstr_loop_eq:
  assumes "token \<noteq> []" "0 \<notin> set token" "0 \<notin> set p"
  shows "lwip_strnstr_loop token n p i =
    (case filter (\<lambda>j. i + j + length token \<le> n \<and> take (length token) (drop j p) = token) [0..<length p] of
       [] \<Rightarrow> None | j # _ \<Rightarrow> Some (i + j))"
  using assms
proof (induction p arbitrary: i)
  case (Cons c p)
  let ?ok = "\<lambda>i p j. i + j + length token \<le> n \<and> take (length token) (drop j p) = token"
  have upt: "[0..<length (c # p)] = 0 # map Suc [0..<length p]"
    by (simp add: upt_conv_Cons map_Suc_upt del: upt_Suc)
  have shift: "filter (?ok i (c # p)) (map Suc [0..<length p]) = map Suc (filter (?ok (Suc i) p) [0..<length p])"
    by (simp add: filter_map comp_def)
  have match: "c = chr0 token \<and> strncmp_eq (c # p) token (length token) \<longleftrightarrow>
    take (length token) (c # p) = token"
    using Cons.prems takeWhile_eq_strncmp [of token "length token" "c # p"] by (cases token) auto
  have IH: "lwip_strnstr_loop token n p (Suc i) = (case filter (?ok (Suc i) p) [0..<length p] of
       [] \<Rightarrow> None | j # _ \<Rightarrow> Some (Suc i + j))"
    using Cons by simp
  show ?case
  proof (cases "i + length token \<le> n")
    case True
    then have loop: "lwip_strnstr_loop token n (c # p) i =
      (if take (length token) (c # p) = token then Some i else lwip_strnstr_loop token n p (Suc i))"
      using Cons.prems(3) match by simp
    have "filter (?ok i (c # p)) [0..<length (c # p)] =
      (if take (length token) (c # p) = token then [0] else []) @ map Suc (filter (?ok (Suc i) p) [0..<length p])"
      unfolding upt using True by (simp only: filter.simps shift) simp
    then show ?thesis
      unfolding loop IH by (simp split: list.split)
  next
    case False
    then have "filter (?ok i (c # p)) [0..<length (c # p)] = []"
      by (auto simp: filter_empty_conv)
    then show ?thesis using False by simp
  qed
qed simp

text \<open>\<^verbatim>\<open>lwip_strnstr\<close> returns the first position at which the token occurs within the
  first \<^verbatim>\<open>n\<close> bytes of the string, and NULL when there is none; an empty token occurs at the start.\<close>

theorem lwip_strnstr_first:
  assumes "0 \<notin> set buffer" "0 \<notin> set token"
  shows "lwip_strnstr buffer token n =
    List.find (\<lambda>i. i + length token \<le> n \<and> take (length token) (drop i buffer) = token)
      [0..<Suc (length buffer)]"
proof (cases "token = []")
  case True
  then show ?thesis by (cases n) (simp_all add: lwip_strnstr_def upt_conv_Cons del: upt_Suc)
next
  case False
  then show ?thesis
    using assms by (simp add: lwip_strnstr_def strnstr_loop_eq case_filter_find find_append option.map_ident split: option.split)
qed

theorem lwip_strnstr_first_witness:
  "lwip_strnstr [72, 84, 84, 80, 47, 49, 46, 49] [47, 49] 8 = Some 4 \<and>
   lwip_strnstr [72, 84, 84, 80, 47, 49, 46, 49] [47, 49] 5 = None"
  using lwip_strnstr_first [of "[72, 84, 84, 80, 47, 49, 46, 49]" "[47, 49]" 8]
    lwip_strnstr_first [of "[72, 84, 84, 80, 47, 49, 46, 49]" "[47, 49]" 5]
  by (simp add: upt_rec)

text \<open>ASCII lower case.\<close>

definition lower :: "u8 \<Rightarrow> u8" where
  "lower c = (if 65 \<le> c \<and> c \<le> 90 then c + 32 else c)"

lemma or_0x20: "unat ((c :: u8) OR 0x20) = (if odd (unat c div 32) then unat c else unat c + 32)"
  by (simp add: unsigned_or_eq nat_or_32)

definition is_lower :: "u8 \<Rightarrow> bool" where
  "is_lower c = (97 \<le> c \<and> c \<le> 122)"

lemma unat_lower: "unat (lower c) = (if 65 \<le> unat c \<and> unat c \<le> 90 then unat c + 32 else unat c)"
  by (auto simp: lower_def word_le_nat_alt unat_word_ariths)

lemma or_lower: "is_lower (c OR 0x20) \<longleftrightarrow> is_lower (lower c)" "is_lower (lower c) \<Longrightarrow> c OR 0x20 = lower c"
proof -
  let ?q = "unat c div 32"
  have "?q = 0 \<or> ?q = 1 \<or> ?q = 2 \<or> ?q = 3 \<or> ?q = 4 \<or> ?q = 5 \<or> ?q = 6 \<or> ?q = 7"
    using unat_u8_less [of c] by linarith
  moreover have "32 * ?q \<le> unat c" "unat c < 32 * ?q + 32" by simp_all
  ultimately have *: "odd (unat c div 32) \<longleftrightarrow> 32 \<le> unat c \<and> unat c < 64 \<or> 96 \<le> unat c \<and> unat c < 128
    \<or> 160 \<le> unat c \<and> unat c < 192 \<or> 224 \<le> unat c"
    by (elim disjE) simp_all
  show "is_lower (c OR 0x20) \<longleftrightarrow> is_lower (lower c)"
    unfolding is_lower_def word_le_nat_alt or_0x20 unat_lower * by auto
  show "is_lower (lower c) \<Longrightarrow> c OR 0x20 = lower c"
    unfolding is_lower_def word_le_nat_alt or_0x20 unat_lower * word_unat_eq_iff
    by (auto split: if_splits)
qed

lemma lower_id: "\<not> is_lower (lower c) \<Longrightarrow> lower c = c"
  by (auto simp: is_lower_def lower_def word_le_nat_alt unat_word_ariths)

lemma stricmp_same_iff: "stricmp_same c1 c2 \<longleftrightarrow> lower c1 = lower c2"
proof (cases "is_lower (lower c1)")
  case True
  then have "is_lower (c1 OR 0x20)" "c1 OR 0x20 = lower c1" by (simp_all add: or_lower)
  moreover have "c2 OR 0x20 = lower c1 \<longleftrightarrow> lower c2 = lower c1"
    using True or_lower by metis
  ultimately show ?thesis
    unfolding stricmp_same_def Let_def is_lower_def by (cases "c1 = c2") (simp_all add: eq_commute)
next
  case False
  then have "\<not> is_lower (c1 OR 0x20)" by (simp add: or_lower)
  moreover have "lower c1 = lower c2 \<longleftrightarrow> c1 = c2" using False lower_id by metis
  ultimately show ?thesis
    unfolding stricmp_same_def Let_def is_lower_def by (cases "c1 = c2") auto
qed

lemma lower_0 [simp]: "lower c = 0 \<longleftrightarrow> c = 0"
proof -
  have "unat (lower c) = 0 \<longleftrightarrow> unat c = 0" by (simp only: unat_lower) simp
  then show ?thesis by (simp only: unat_eq_0)
qed

lemma lower_eq_0 [simp]: "lower 0 = 0"
  by simp

text \<open>\<^verbatim>\<open>lwip_stricmp\<close> returns 0 exactly for strings that are equal up to the case of
  ASCII letters.\<close>

theorem lwip_stricmp_eq_0:
  "0 \<notin> set s \<Longrightarrow> 0 \<notin> set t \<Longrightarrow> lwip_stricmp s t = 0 \<longleftrightarrow> map lower s = map lower t"
proof (induction s arbitrary: t)
  case Nil
  then show ?case by (cases t) (auto simp: lwip_stricmp.simps stricmp_same_iff)
next
  case (Cons c s)
  have eq: "lwip_stricmp (c # s) t = (if lower c \<noteq> lower (chr0 t) then 1
      else if c \<noteq> 0 then lwip_stricmp s (tl t) else 0)"
    by (simp add: lwip_stricmp.simps [of "c # s" t] stricmp_same_iff)
  show ?case using Cons unfolding eq by (cases t) auto
qed

text \<open>\<^verbatim>\<open>lwip_strnicmp\<close> with a positive length returns 0 exactly for strings whose first
  \<^verbatim>\<open>len\<close> bytes are equal up to the case of ASCII letters.\<close>

theorem lwip_strnicmp_eq_0:
  "0 \<notin> set s \<Longrightarrow> 0 \<notin> set t \<Longrightarrow> n \<noteq> 0 \<Longrightarrow>
   lwip_strnicmp s t n = 0 \<longleftrightarrow> map lower (take (unat n) s) = map lower (take (unat n) t)"
proof (induction s arbitrary: t n)
  case Nil
  then show ?case 
    by (cases t) (auto simp: lwip_strnicmp.simps stricmp_same_iff Let_def take_Cons' unat_eq_0)
next
  case (Cons c s)
  have eq: "lwip_strnicmp (c # s) t n = (if lower c \<noteq> lower (chr0 t) then 1
      else if n - 1 \<noteq> 0 \<and> c \<noteq> 0 then lwip_strnicmp s (tl t) (n - 1) else 0)"
    by (simp add: lwip_strnicmp.simps [of "c # s" t] stricmp_same_iff)
  have n: "unat n = Suc (unat (n - 1))"
    using Cons.prems(3) by (metis Suc_pred' add_cancel_right_right unat_minus_one unat_gt_0)
  have z: "n - 1 = 0 \<longleftrightarrow> unat (n - 1) = 0" by (simp only: unat_eq_0)
  show ?case using Cons unfolding eq n by (cases t) (auto simp: z)
qed

section \<open>Integer printing: lemmas\<close>

text \<open>The digits the loop of \<^verbatim>\<open>lwip_itoa\<close> produces: none for zero.\<close>

definition digs :: "nat \<Rightarrow> u8 list" where
  "digs n = (if n = 0 then [] else dec n)"

lemma digs_0 [simp]: "digs 0 = []"
  by (simp add: digs_def)

lemma digs_pos: "0 < n \<Longrightarrow> digs n = digs (n div 10) @ [digit (n mod 10)]"
  using dec_small [of n] dec_step [of n] by (cases "n < 10") (auto simp: digs_def)

lemma digit_nonzero [simp]: "d < 10 \<Longrightarrow> digit d \<noteq> 0"
  using unat_digit [of d] by (metis add_is_0 unat_0 zero_neq_numeral)

lemma itoa_loop_fits:
  "\<lbrakk>tmp \<le> length buf; res + length (digs n) \<le> tmp\<rbrakk> \<Longrightarrow>
   lwip_itoa_loop buf res tmp n =
     (take (tmp - length (digs n)) buf @ digs n @ drop tmp buf, tmp - length (digs n), 0)"
proof (induction buf res tmp n rule: lwip_itoa_loop.induct)
  case (1 buf res tmp n)
  show ?case
  proof (cases "n = 0")
    case True
    then show ?thesis by (simp add: lwip_itoa_loop.simps)
  next
    case False
    then have digs: "digs n = digs (n div 10) @ [digit (n mod 10)]" by (simp add: digs_pos)
    with "1.prems" have room: "res < tmp" "res + length (digs (n div 10)) \<le> tmp - 1" by simp_all
    have step: "lwip_itoa_loop buf res tmp n =
      lwip_itoa_loop (buf[tmp - 1 := digit (n mod 10)]) res (tmp - 1) (n div 10)"
      using False room by (subst lwip_itoa_loop.simps) (simp add: Let_def)
    have drop: "drop (tmp - 1) (buf[tmp - 1 := digit (n mod 10)]) = digit (n mod 10) # drop tmp buf"
      using "1.prems" room by (cases tmp) (simp_all add: drop_update_swap Cons_nth_drop_Suc [symmetric])
    show ?thesis
      unfolding step
      using "1.IH" [OF _ refl] False room "1.prems" drop
      by (simp add: digs)
  qed
qed

lemma itoa_loop_full:
  "res + length (digs n) > tmp \<Longrightarrow> res \<le> tmp \<Longrightarrow>
   \<exists>buf' m. lwip_itoa_loop buf res tmp n = (buf', res, m) \<and> m \<noteq> 0 \<and> length buf' = length buf"
proof (induction buf res tmp n rule: lwip_itoa_loop.induct)
  case (1 buf res tmp n)
  have pos: "0 < n" using "1.prems" by (cases "n = 0") auto
  then have digs: "digs n = digs (n div 10) @ [digit (n mod 10)]" by (simp add: digs_pos)
  show ?case
  proof (cases "tmp > res")
    case True
    then have "lwip_itoa_loop buf res tmp n =
      lwip_itoa_loop (buf[tmp - 1 := digit (n mod 10)]) res (tmp - 1) (n div 10)"
      using pos by (subst lwip_itoa_loop.simps) (simp add: Let_def)
    then show ?thesis using "1.IH" [OF _ refl] "1.prems" pos True digs by fastforce
  next
    case False
    then show ?thesis using "1.prems" pos by (subst lwip_itoa_loop.simps) simp
  qed
qed

text \<open>The text of a number.\<close>

definition int_text :: "int \<Rightarrow> u8 list" where
  "int_text i = (if i < 0 then 45 # dec (nat (- i)) else dec (nat i))"

lemma int_text_no_zero: "0 \<notin> set (int_text i)"
  by (simp add: int_text_def dec_no_zero)

lemma take_take_append: "k \<le> j \<Longrightarrow> j \<le> length b \<Longrightarrow> take k (take j b @ c) = take k b"
  by (simp add: min_def)

lemma drop_last_update: "xs \<noteq> [] \<Longrightarrow> drop (length xs - 1) (xs[length xs - 1 := v]) = [v]"
  by (cases xs rule: rev_cases) simp_all

text \<open>For every \<^verbatim>\<open>int\<close> but the smallest and every non-empty buffer, \<^verbatim>\<open>lwip_itoa\<close> leaves a
  terminated string in the buffer: the decimal text of the number when it fits with its
  terminator, the empty string when it does not.\<close>

theorem lwip_itoa_correct:
  assumes "number \<noteq> - 2147483648" "result \<noteq> []"
  shows "\<exists>out. lwip_itoa result number = Some out \<and> length out = length result \<and>
    cstr out = (if length (int_text number) < length result then int_text number else [])"
proof (cases "length result = 1")
  case True
  then show ?thesis using assms
    by (auto simp: lwip_itoa_def Let_def length_Suc_conv cstr_def int_text_def)
next
  case False
  with assms have size: "2 \<le> length result" by (cases "length result") auto
  let ?n = "nat \<bar>number\<bar>" and ?res = "if number < 0 then 1 else 0 :: nat"
  let ?t = "length result - 1"
  define buf where "buf = (if number < 0 then result[0 := 45] else result)[?t := 0]"
  have len: "length buf = length result" by (simp add: buf_def)
  have last: "drop ?t buf = [0]"
  proof -
    let ?r = "if number < 0 then result[0 := 45] else result"
    have "length ?r = length result" "?r \<noteq> []" using assms(2) by simp_all
    then show ?thesis
      unfolding buf_def using drop_last_update [of ?r 0] by metis
  qed
  have first: "number < 0 \<Longrightarrow> take 1 buf = [45]"
    using size by (cases result) (auto simp: buf_def split: nat.splits)
  have n: "nat (if number \<ge> 0 then number else - number) = ?n" by simp
  obtain buf' tmp m where loop: "lwip_itoa_loop buf ?res ?t ?n = (buf', tmp, m)"
    by (metis prod_cases3)
  have itoa: "lwip_itoa result number =
    (if m \<noteq> 0 then Some (buf'[0 := 0])
     else if buf' ! tmp = 0 then Some (buf'[?res := 48, ?res + 1 := 0])
     else Some (take ?res buf' @ drop tmp buf' @ drop (?res + (length result - tmp)) buf'))"
    using assms size loop unfolding lwip_itoa_def n
    by (simp add: Let_def buf_def split: if_splits)
  have itext: "int_text number = (if number < 0 then [45] else []) @ (if ?n = 0 then [48] else digs ?n)"
    by (auto simp: int_text_def digs_def dec_small digit_def)
  consider (zero) "?n = 0" | (fits) "?n \<noteq> 0" "?res + length (digs ?n) \<le> ?t"
    | (full) "?n \<noteq> 0" "?t < ?res + length (digs ?n)" by linarith
  then show ?thesis
  proof cases
    case zero
    then have "buf' = buf" "tmp = ?t" "m = 0"
      using loop by (simp_all add: lwip_itoa_loop.simps)
    moreover have "buf ! ?t = 0" using size by (simp add: buf_def)
    ultimately have "lwip_itoa result number = Some (buf[0 := 48, 1 := 0])"
      using zero itoa by simp
    moreover have "buf[0 := 48, 1 := 0] = [48] @ 0 # drop 2 buf"
      using size len by (cases buf; cases "tl buf") auto
    ultimately show ?thesis
      using zero size len itext cstr_append_0 [of "[48]" "drop 2 buf"] by simp
  next
    case fits
    let ?L = "length (digs ?n)"
    obtain d ds where ds: "digs ?n = d # ds" "d \<noteq> 0"
      using fits(1) dec_no_zero [of ?n] by (cases "digs ?n") (auto simp: digs_def)
    have b: "buf' = take (?t - ?L) buf @ digs ?n @ [0]" "tmp = ?t - ?L" "m = 0"
      using loop itoa_loop_fits [of ?t buf ?res ?n] fits len last by simp_all
    have "buf' ! tmp = d" using ds len b by (simp add: nth_append)
    moreover have "drop tmp buf' = digs ?n @ [0]" using len b by simp
    moreover have "take ?res buf' = take ?res buf" 
      unfolding b(1) by (rule take_take_append) (use fits len in linarith)+
    moreover have "take ?res buf = (if number < 0 then [45] else [])" using first by simp
    ultimately have out: "lwip_itoa result number = Some (int_text number @ 0 # drop (?res + Suc ?L) buf')"
      using itoa ds b(2,3) fits itext len by (simp add: b(2) Suc_diff_le)
    have "length (int_text number) = ?res + ?L" using itext fits(1) by simp
    moreover have "length buf' = length result"
    proof -
      have "length buf' = (?t - ?L) + ?L + 1" using len by (simp add: b(1))
      then show ?thesis using fits size by linarith
    qed
    moreover have "?res + ?L < length result" using fits size by linarith
    ultimately show ?thesis
      using out cstr_append_0 [OF int_text_no_zero] by simp
  next
    case full
    have "?res \<le> ?t" using size by (auto; linarith)
    then have m: "m \<noteq> 0" "length buf' = length buf"
      using itoa_loop_full [of ?t ?res ?n buf] loop full by auto
    moreover have "cstr (buf'[0 := 0]) = []"
      using m len size by (cases buf') (auto simp: cstr_def)
    moreover have "length (int_text number) = ?res + length (digs ?n)" using itext full(1) by simp
    then have "\<not> length (int_text number) < length result" using full size by linarith
    ultimately show ?thesis
      using itoa len by simp
  qed
qed

theorem lwip_itoa_correct_witness:
  "\<exists>out. lwip_itoa [7, 7, 7, 7, 7] (- 42) = Some out \<and> cstr out = [45, 52, 50]"
  using lwip_itoa_correct [of "- 42" "[7, 7, 7, 7, 7]"]
  by (auto simp: int_text_def dec_step dec_small digit_def)

end
