(* ===== verification/Lwip_Ip_Addr.thy ===== *)
theory Lwip_Ip_Addr
  imports Lwip_Def
begin

text \<open>
  Address types and the macros on them (\<^verbatim>\<open>include/lwip/ip4_addr.h\<close>, \<^verbatim>\<open>ip6_addr.h\<close>, \<^verbatim>\<open>ip6_zone.h\<close>,
  \<^verbatim>\<open>ip_addr.h\<close>). An IPv4 address is its \<^verbatim>\<open>u32_t\<close> in network byte order; the generic
  \<^verbatim>\<open>ip_addr_t\<close> is a union whose IPv4 view is the first word of the IPv6 view.
\<close>

record ip6_addr_t =
  ip6_a0 :: u32
  ip6_a1 :: u32
  ip6_a2 :: u32
  ip6_a3 :: u32
  ip6_zone :: u8

definition ip6_words :: "ip6_addr_t \<Rightarrow> u32 list" where
  "ip6_words a = [ip6_a0 a, ip6_a1 a, ip6_a2 a, ip6_a3 a]"

datatype ip_addr_type = IPADDR_TYPE_V4 | IPADDR_TYPE_V6 | IPADDR_TYPE_ANY

record ip_addr_t =
  u_addr :: ip6_addr_t
  ip_type :: ip_addr_type

definition ip_2_ip6 :: "ip_addr_t \<Rightarrow> ip6_addr_t" where
  "ip_2_ip6 a = u_addr a"

definition ip_2_ip4 :: "ip_addr_t \<Rightarrow> u32" where
  "ip_2_ip4 a = ip6_a0 (u_addr a)"

definition IP_IS_V4 :: "ip_addr_t \<Rightarrow> bool" where
  "IP_IS_V4 a = (ip_type a = IPADDR_TYPE_V4)"

definition IP_IS_V6 :: "ip_addr_t \<Rightarrow> bool" where
  "IP_IS_V6 a = (ip_type a = IPADDR_TYPE_V6)"

definition IP_IS_ANY_TYPE_VAL :: "ip_addr_t \<Rightarrow> bool" where
  "IP_IS_ANY_TYPE_VAL a = (ip_type a = IPADDR_TYPE_ANY)"

section \<open>IPv4\<close>

definition ip4_addr_isany_val :: "u32 \<Rightarrow> bool" where
  "ip4_addr_isany_val a = (a = 0)"

definition ip4_addr_ismulticast :: "u32 \<Rightarrow> bool" where
  "ip4_addr_ismulticast a = (a AND lwip_htonl 0xf0000000 = lwip_htonl 0xe0000000)"

definition ip4_addr_netcmp :: "u32 \<Rightarrow> u32 \<Rightarrow> u32 \<Rightarrow> bool" where
  "ip4_addr_netcmp a1 a2 msk = (a1 AND msk = a2 AND msk)"

section \<open>IPv6\<close>

definition ip6_addr_cmp_zoneless :: "ip6_addr_t \<Rightarrow> ip6_addr_t \<Rightarrow> bool" where
  "ip6_addr_cmp_zoneless a b =
     (ip6_a0 a = ip6_a0 b \<and> ip6_a1 a = ip6_a1 b \<and> ip6_a2 a = ip6_a2 b \<and> ip6_a3 a = ip6_a3 b)"

definition ip6_addr_cmp :: "ip6_addr_t \<Rightarrow> ip6_addr_t \<Rightarrow> bool" where
  "ip6_addr_cmp a b = (ip6_addr_cmp_zoneless a b \<and> ip6_zone a = ip6_zone b)"

definition ip6_addr_isany_val :: "ip6_addr_t \<Rightarrow> bool" where
  "ip6_addr_isany_val a = (ip6_a0 a = 0 \<and> ip6_a1 a = 0 \<and> ip6_a2 a = 0 \<and> ip6_a3 a = 0)"

definition ip6_addr_set_zero :: "ip6_addr_t \<Rightarrow> ip6_addr_t" where
  "ip6_addr_set_zero a =
     a\<lparr>ip6_a0 := 0, ip6_a1 := 0, ip6_a2 := 0, ip6_a3 := 0, ip6_zone := 0\<rparr>"

definition ip6_addr_isipv4mappedipv6 :: "ip6_addr_t \<Rightarrow> bool" where
  "ip6_addr_isipv4mappedipv6 a =
     (ip6_a0 a = 0 \<and> ip6_a1 a = 0 \<and> ip6_a2 a = lwip_htonl 0x0000FFFF)"

definition ip6_addr_islinklocal :: "ip6_addr_t \<Rightarrow> bool" where
  "ip6_addr_islinklocal a = (ip6_a0 a AND lwip_htonl 0xffc00000 = lwip_htonl 0xfe800000)"

definition ip6_addr_ismulticast :: "ip6_addr_t \<Rightarrow> bool" where
  "ip6_addr_ismulticast a = (ip6_a0 a AND lwip_htonl 0xff000000 = lwip_htonl 0xff000000)"

section \<open>Generic addresses\<close>

definition ip_clear_no4 :: "ip_addr_t \<Rightarrow> ip_addr_t" where
  "ip_clear_no4 a = a\<lparr>u_addr := (u_addr a)\<lparr>ip6_a1 := 0, ip6_a2 := 0, ip6_a3 := 0, ip6_zone := 0\<rparr>\<rparr>"

text \<open>\<^verbatim>\<open>ip_addr_set\<close>, also \<^verbatim>\<open>ip_addr_copy\<close>: an IPv4 source leaves the other words zero.\<close>

definition ip_addr_set :: "ip_addr_t \<Rightarrow> ip_addr_t \<Rightarrow> ip_addr_t" where
  "ip_addr_set dest src =
     (let dest = dest\<lparr>ip_type := ip_type src\<rparr>
      in if IP_IS_V6 src then dest\<lparr>u_addr := u_addr src\<rparr>
         else ip_clear_no4 (dest\<lparr>u_addr := (u_addr dest)\<lparr>ip6_a0 := ip_2_ip4 src\<rparr>\<rparr>))"

definition ip_addr_set_any :: "bool \<Rightarrow> ip_addr_t \<Rightarrow> ip_addr_t" where
  "ip_addr_set_any is_ipv6 a =
     (if is_ipv6 then a\<lparr>u_addr := ip6_addr_set_zero (u_addr a), ip_type := IPADDR_TYPE_V6\<rparr>
      else ip_clear_no4 (a\<lparr>u_addr := (u_addr a)\<lparr>ip6_a0 := 0\<rparr>, ip_type := IPADDR_TYPE_V4\<rparr>))"

definition ip_addr_cmp :: "ip_addr_t \<Rightarrow> ip_addr_t \<Rightarrow> bool" where
  "ip_addr_cmp a b =
     (if ip_type a \<noteq> ip_type b then False
      else if IP_IS_V6 a then ip6_addr_cmp (ip_2_ip6 a) (ip_2_ip6 b)
      else ip_2_ip4 a = ip_2_ip4 b)"

definition ip_addr_isany :: "ip_addr_t \<Rightarrow> bool" where
  "ip_addr_isany a =
     (if IP_IS_V6 a then ip6_addr_isany_val (ip_2_ip6 a) else ip4_addr_isany_val (ip_2_ip4 a))"

definition ip_addr_ismulticast :: "ip_addr_t \<Rightarrow> bool" where
  "ip_addr_ismulticast a =
     (if IP_IS_V6 a then ip6_addr_ismulticast (ip_2_ip6 a) else ip4_addr_ismulticast (ip_2_ip4 a))"

text \<open>The comparison of addresses is reflexive, and it holds after a copy.\<close>

lemma ip_addr_cmp_refl [simp]: "ip_addr_cmp a a"
  by (simp add: ip_addr_cmp_def ip6_addr_cmp_def ip6_addr_cmp_zoneless_def)

lemma ip_addr_cmp_set [simp]: "ip_addr_cmp (ip_addr_set d s) s"
  by (auto simp: ip_addr_set_def ip_addr_cmp_def ip6_addr_cmp_def ip6_addr_cmp_zoneless_def
      IP_IS_V6_def ip_clear_no4_def ip_2_ip4_def ip_2_ip6_def Let_def)

lemma ip_addr_cmp_sym: "ip_addr_cmp a b \<Longrightarrow> ip_addr_cmp b a"
  by (auto simp: ip_addr_cmp_def ip6_addr_cmp_def ip6_addr_cmp_zoneless_def IP_IS_V6_def
      split: if_splits)

lemma ip_addr_cmp_trans: "ip_addr_cmp a b \<Longrightarrow> ip_addr_cmp b c \<Longrightarrow> ip_addr_cmp a c"
  by (auto simp: ip_addr_cmp_def ip6_addr_cmp_def ip6_addr_cmp_zoneless_def IP_IS_V6_def
      split: if_splits)

end
