(* ===== verification/Lwip_Chksum.thy ===== *)
theory Lwip_Chksum
  imports Lwip_Ip_Addr
begin

text \<open>
  The Internet checksum of \<^verbatim>\<open>core/c/core/inet_chksum.c\<close>: the three implementations of
  \<^verbatim>\<open>lwip_standard_chksum\<close> (one is chosen by \<^verbatim>\<open>LWIP_CHKSUM_ALGORITHM\<close>), the sums over pbuf
  chains with and without pseudo headers, and the specification they meet: the one's complement
  sum of the 16-bit words in memory order.
\<close>

section \<open>The code\<close>

text \<open>\<^verbatim>\<open>FOLD_U32T\<close> and \<^verbatim>\<open>SWAP_BYTES_IN_WORD\<close> of \<^verbatim>\<open>inet_chksum.h\<close>.\<close>

definition FOLD_U32T :: "u32 \<Rightarrow> u32" where
  "FOLD_U32T u = drop_bit 16 u + (u AND 0x0000ffff)"

definition SWAP_BYTES_IN_WORD :: "u32 \<Rightarrow> u32" where
  "SWAP_BYTES_IN_WORD w = push_bit 8 (w AND 0xff) OR drop_bit 8 (w AND 0xff00)"

text \<open>Version 1: words in network order, one byte at a time.\<close>

fun chksum_1_loop :: "u32 \<Rightarrow> u8 list \<Rightarrow> u32 \<times> u8 list" where
  "chksum_1_loop acc (b0 # b1 # bs) =
     (let src = push_bit 8 (ucast b0 :: u16);
          src = src OR ucast b1
      in chksum_1_loop (acc + ucast src) bs)"
| "chksum_1_loop acc bs = (acc, bs)"

definition lwip_standard_chksum_1 :: "u8 list \<Rightarrow> u16" where
  "lwip_standard_chksum_1 dataptr =
     (let (acc, octetptr) = chksum_1_loop 0 dataptr;
          acc = (case octetptr of [] \<Rightarrow> acc | b # _ \<Rightarrow> acc + ucast (push_bit 8 (ucast b :: u16)));
          acc = drop_bit 16 acc + (acc AND 0x0000ffff);
          acc = (if acc AND 0xffff0000 \<noteq> 0 then drop_bit 16 acc + (acc AND 0x0000ffff) else acc)
      in lwip_htons (ucast acc))"

text \<open>
  Loads of 16-bit and 32-bit integers from memory by the little-endian host. The address of
  \<^verbatim>\<open>dataptr\<close> is an argument, since versions 2 and 3 depend on its alignment.
\<close>

definition ld16 :: "u8 \<Rightarrow> u8 \<Rightarrow> u32" where
  "ld16 b0 b1 = ucast b0 + 256 * ucast b1"

definition ld32 :: "u8 \<Rightarrow> u8 \<Rightarrow> u8 \<Rightarrow> u8 \<Rightarrow> u32" where
  "ld32 b0 b1 b2 b3 = ld16 b0 b1 + 65536 * ld16 b2 b3"

text \<open>Version 2: two bytes at a time from an even address.\<close>

fun chksum_16_loop :: "u32 \<Rightarrow> u8 list \<Rightarrow> u32 \<times> u8 list" where
  "chksum_16_loop s (b0 # b1 # ps) = chksum_16_loop (s + ld16 b0 b1) ps"
| "chksum_16_loop s ps = (s, ps)"

definition lwip_standard_chksum_2 :: "nat \<Rightarrow> u8 list \<Rightarrow> u16" where
  "lwip_standard_chksum_2 addr dataptr =
     (let is_odd = odd addr;
          (t1, pb) = (if is_odd \<and> length dataptr > 0 then (hd dataptr, tl dataptr) else (0, dataptr));
          (sum, ps) = chksum_16_loop 0 pb;
          t0 = (if length ps > 0 then hd ps else 0);
          sum = sum + ld16 t0 t1;
          sum = FOLD_U32T sum;
          sum = FOLD_U32T sum;
          sum = (if is_odd then SWAP_BYTES_IN_WORD sum else sum)
      in ucast sum)"

text \<open>Version 3: eight bytes at a time from an address that is a multiple of four.\<close>

definition add_carry :: "u32 \<Rightarrow> u32 \<Rightarrow> u32" where
  "add_carry s x = (let tmp = s + x in if tmp < s then tmp + 1 else tmp)"

fun chksum_32_loop :: "u32 \<Rightarrow> u8 list \<Rightarrow> u32 \<times> u8 list" where
  "chksum_32_loop s (b0 # b1 # b2 # b3 # b4 # b5 # b6 # b7 # pl) =
     (let tmp = add_carry s (ld32 b0 b1 b2 b3);
          s = add_carry tmp (ld32 b4 b5 b6 b7)
      in chksum_32_loop s pl)"
| "chksum_32_loop s pl = (s, pl)"

definition lwip_standard_chksum_3 :: "nat \<Rightarrow> u8 list \<Rightarrow> u16" where
  "lwip_standard_chksum_3 addr dataptr =
     (let is_odd = odd addr;
          (t1, pb, addr) = (if is_odd \<and> length dataptr > 0 then (hd dataptr, tl dataptr, addr + 1)
             else (0, dataptr, addr));
          (sum, ps) = (if addr mod 4 \<noteq> 0 \<and> length pb > 1 then (ld16 (pb ! 0) (pb ! 1), drop 2 pb)
             else (0, pb));
          (sum, pl) = chksum_32_loop sum ps;
          sum = FOLD_U32T sum;
          (sum, ps) = chksum_16_loop sum pl;
          t0 = (if length ps > 0 then hd ps else 0);
          sum = sum + ld16 t0 t1;
          sum = FOLD_U32T sum;
          sum = FOLD_U32T sum;
          sum = (if is_odd then SWAP_BYTES_IN_WORD sum else sum)
      in ucast sum)"

text \<open>
  The sums over pbuf chains. \<^verbatim>\<open>LWIP_CHKSUM\<close> is a macro that names the checksum function, an
  argument here; a chain is the list of its segments, each the address of the payload and its
  \<^verbatim>\<open>len\<close> bytes.
\<close>

type_synonym chksum_fn = "nat \<Rightarrow> u8 list \<Rightarrow> u16"
type_synonym segment = "nat \<times> u8 list"

text \<open>
  The loop over the chain: its state is the sum and whether the sum is byte-swapped. The bytes
  that are summed can be fewer than the \<^verbatim>\<open>len\<close> whose parity decides the swap.
\<close>

definition chain_step :: "chksum_fn \<Rightarrow> nat \<Rightarrow> u8 list \<Rightarrow> nat \<Rightarrow> u32 \<times> bool \<Rightarrow> u32 \<times> bool" where
  "chain_step chk a bs len s =
     (let (acc, swapped) = s;
          acc = acc + ucast (chk a bs);
          acc = FOLD_U32T acc
      in if len mod 2 \<noteq> 0 then (SWAP_BYTES_IN_WORD acc, \<not> swapped) else (acc, swapped))"

fun chain_loop :: "chksum_fn \<Rightarrow> segment list \<Rightarrow> u32 \<times> bool \<Rightarrow> u32 \<times> bool" where
  "chain_loop chk [] s = s"
| "chain_loop chk ((a, bs) # q) s = chain_loop chk q (chain_step chk a bs (length bs) s)"

definition pseudo_finish :: "u8 \<Rightarrow> u16 \<Rightarrow> u32 \<times> bool \<Rightarrow> u16" where
  "pseudo_finish proto proto_len s =
     (let (acc, swapped) = s;
          acc = (if swapped then SWAP_BYTES_IN_WORD acc else acc);
          acc = acc + ucast (lwip_htons (ucast proto));
          acc = acc + ucast (lwip_htons proto_len);
          acc = FOLD_U32T acc;
          acc = FOLD_U32T acc
      in NOT (ucast (acc AND 0xffff)))"

definition inet_cksum_pseudo_base :: "chksum_fn \<Rightarrow> segment list \<Rightarrow> u8 \<Rightarrow> u16 \<Rightarrow> u32 \<Rightarrow> u16" where
  "inet_cksum_pseudo_base chk p proto proto_len acc =
     pseudo_finish proto proto_len (chain_loop chk p (acc, False))"

text \<open>The sum of the two halves of an address word, added to \<^verbatim>\<open>acc\<close>.\<close>

definition add_halves :: "u32 \<Rightarrow> u32 \<Rightarrow> u32" where
  "add_halves acc addr = (acc + (addr AND 0xffff)) + (drop_bit 16 addr AND 0xffff)"

definition inet_chksum_pseudo :: "chksum_fn \<Rightarrow> segment list \<Rightarrow> u8 \<Rightarrow> u16 \<Rightarrow> u32 \<Rightarrow> u32 \<Rightarrow> u16" where
  "inet_chksum_pseudo chk p proto proto_len src dest =
     (let acc = add_halves (add_halves 0 src) dest;
          acc = FOLD_U32T acc;
          acc = FOLD_U32T acc
      in inet_cksum_pseudo_base chk p proto proto_len acc)"

text \<open>The loop runs over both addresses at once.\<close>

fun ip6_halves :: "u32 \<Rightarrow> u32 list \<Rightarrow> u32 list \<Rightarrow> u32" where
  "ip6_halves acc (s # src) (d # dest) = ip6_halves (add_halves (add_halves acc s) d) src dest"
| "ip6_halves acc _ _ = acc"

definition ip6_chksum_pseudo ::
  "chksum_fn \<Rightarrow> segment list \<Rightarrow> u8 \<Rightarrow> u16 \<Rightarrow> ip6_addr_t \<Rightarrow> ip6_addr_t \<Rightarrow> u16" where
  "ip6_chksum_pseudo chk p proto proto_len src dest =
     (let acc = ip6_halves 0 (ip6_words src) (ip6_words dest);
          acc = FOLD_U32T acc;
          acc = FOLD_U32T acc
      in inet_cksum_pseudo_base chk p proto proto_len acc)"

text \<open>
  The partial sums stop after \<^verbatim>\<open>chksum_len\<close> bytes; their assertion aborts when 0x7fff or more
  bytes are left after a segment.
\<close>

fun partial_loop :: "chksum_fn \<Rightarrow> segment list \<Rightarrow> u16 \<Rightarrow> u32 \<times> bool \<Rightarrow> (u32 \<times> bool) option" where
  "partial_loop chk [] chksum_len s = Some s"
| "partial_loop chk ((a, bs) # q) chksum_len s =
     (if chksum_len > 0 then
        (let chklen = (if length bs > unat chksum_len then unat chksum_len else length bs);
             s = chain_step chk a (take chklen bs) (length bs) s;
             chksum_len = chksum_len - of_nat chklen
         in do { lwip_assert (chksum_len < 0x7fff); partial_loop chk q chksum_len s })
      else Some s)"

definition inet_cksum_pseudo_partial_base ::
  "chksum_fn \<Rightarrow> segment list \<Rightarrow> u8 \<Rightarrow> u16 \<Rightarrow> u16 \<Rightarrow> u32 \<Rightarrow> u16 option" where
  "inet_cksum_pseudo_partial_base chk p proto proto_len chksum_len acc =
     do {
       s \<leftarrow> partial_loop chk p chksum_len (acc, False);
       Some (pseudo_finish proto proto_len s)
     }"

definition inet_chksum_pseudo_partial ::
  "chksum_fn \<Rightarrow> segment list \<Rightarrow> u8 \<Rightarrow> u16 \<Rightarrow> u16 \<Rightarrow> u32 \<Rightarrow> u32 \<Rightarrow> u16 option" where
  "inet_chksum_pseudo_partial chk p proto proto_len chksum_len src dest =
     (let acc = add_halves (add_halves 0 src) dest;
          acc = FOLD_U32T acc;
          acc = FOLD_U32T acc
      in inet_cksum_pseudo_partial_base chk p proto proto_len chksum_len acc)"

definition ip6_chksum_pseudo_partial ::
  "chksum_fn \<Rightarrow> segment list \<Rightarrow> u8 \<Rightarrow> u16 \<Rightarrow> u16 \<Rightarrow> ip6_addr_t \<Rightarrow> ip6_addr_t \<Rightarrow> u16 option" where
  "ip6_chksum_pseudo_partial chk p proto proto_len chksum_len src dest =
     (let acc = ip6_halves 0 (ip6_words src) (ip6_words dest);
          acc = FOLD_U32T acc;
          acc = FOLD_U32T acc
      in inet_cksum_pseudo_partial_base chk p proto proto_len chksum_len acc)"

text \<open>The type of the destination decides which view of both addresses is summed.\<close>

definition ip_chksum_pseudo ::
  "chksum_fn \<Rightarrow> segment list \<Rightarrow> u8 \<Rightarrow> u16 \<Rightarrow> ip_addr_t \<Rightarrow> ip_addr_t \<Rightarrow> u16" where
  "ip_chksum_pseudo chk p proto proto_len src dest =
     (if IP_IS_V6 dest then ip6_chksum_pseudo chk p proto proto_len (ip_2_ip6 src) (ip_2_ip6 dest)
      else inet_chksum_pseudo chk p proto proto_len (ip_2_ip4 src) (ip_2_ip4 dest))"

definition ip_chksum_pseudo_partial ::
  "chksum_fn \<Rightarrow> segment list \<Rightarrow> u8 \<Rightarrow> u16 \<Rightarrow> u16 \<Rightarrow> ip_addr_t \<Rightarrow> ip_addr_t \<Rightarrow> u16 option" where
  "ip_chksum_pseudo_partial chk p proto proto_len chksum_len src dest =
     (if IP_IS_V6 dest
      then ip6_chksum_pseudo_partial chk p proto proto_len chksum_len (ip_2_ip6 src) (ip_2_ip6 dest)
      else inet_chksum_pseudo_partial chk p proto proto_len chksum_len (ip_2_ip4 src) (ip_2_ip4 dest))"

definition inet_chksum :: "chksum_fn \<Rightarrow> nat \<Rightarrow> u8 list \<Rightarrow> u16" where
  "inet_chksum chk addr dataptr = NOT (chk addr dataptr)"

definition inet_chksum_pbuf :: "chksum_fn \<Rightarrow> segment list \<Rightarrow> u16" where
  "inet_chksum_pbuf chk p =
     (let (acc, swapped) = chain_loop chk p (0, False);
          acc = (if swapped then SWAP_BYTES_IN_WORD acc else acc)
      in NOT (ucast (acc AND 0xffff)))"

text \<open>\<^verbatim>\<open>lwip_chksum_copy\<close> copies into a buffer and sums the copy.\<close>

definition lwip_chksum_copy ::
  "chksum_fn \<Rightarrow> nat \<Rightarrow> u8 list \<Rightarrow> nat \<Rightarrow> u8 list \<Rightarrow> (u16 \<times> u8 list) option" where
  "lwip_chksum_copy chk addr buf off src =
     do {
       buf \<leftarrow> buf_write buf off src;
       dst \<leftarrow> buf_read buf off (length src);
       Some (chk (addr + off) dst, buf)
     }"

section \<open>Specification\<close>

text \<open>
  The sum of the 16-bit words of a byte string in memory order, an odd last byte padded with
  zero, and its one's complement reduction to 16 bits, which is zero only for the sum zero.
\<close>

fun le_sum :: "u8 list \<Rightarrow> nat" where
  "le_sum (b0 # b1 # bs) = unat b0 + 256 * unat b1 + le_sum bs"
| "le_sum [b] = unat b"
| "le_sum [] = 0"

definition oc16 :: "nat \<Rightarrow> nat" where
  "oc16 n = (if n = 0 then 0 else (n - 1) mod 65535 + 1)"

text \<open>Two sums with the same reduction.\<close>

definition ceq :: "nat \<Rightarrow> nat \<Rightarrow> bool" where
  "ceq x y = ((x = 0 \<longleftrightarrow> y = 0) \<and> x mod 65535 = y mod 65535)"

named_theorems ceq_intros \<open>congruence of sums\<close>

lemma ceq_refl [simp]: "ceq x x"
  by (simp add: ceq_def)

lemma ceq_sym: "ceq x y \<Longrightarrow> ceq y x"
  by (simp add: ceq_def)

lemma ceq_trans [trans]: "ceq x y \<Longrightarrow> ceq y z \<Longrightarrow> ceq x z"
  by (simp add: ceq_def)

lemma ceq_add: "ceq x y \<Longrightarrow> ceq u v \<Longrightarrow> ceq (x + u) (y + v)"
  unfolding ceq_def by (auto intro: mod_add_cong)

lemma ceq_mult: "ceq x y \<Longrightarrow> ceq (k * x) (k * y)"
  unfolding ceq_def by (auto intro: mod_mult_cong)

lemma ceq_65536: "ceq (65536 * x) x"
proof -
  have "65536 * x = x + 65535 * x" by simp
  then have "65536 * x mod 65535 = x mod 65535" by (simp only: mod_mult_self2)
  then show ?thesis by (simp add: ceq_def)
qed

lemma ceq_fold: "ceq (n div 65536 + n mod 65536) n"
proof -
  have "ceq (n div 65536 + n mod 65536) (65536 * (n div 65536) + n mod 65536)"
    by (intro ceq_add ceq_sym [OF ceq_65536] ceq_refl)
  then show ?thesis by simp
qed

lemma ceq_swap: "ceq (256 * (n mod 256) + n div 256) (256 * n)"
proof -
  have "ceq (256 * (n mod 256) + n div 256) (256 * (n mod 256) + 65536 * (n div 256))"
    by (intro ceq_add ceq_sym [OF ceq_65536] ceq_refl)
  also have "256 * (n mod 256) + 65536 * (n div 256) = 256 * (n div 256 * 256 + n mod 256)"
    by (simp only: distrib_left)
  finally show ?thesis by simp
qed

lemma oc16_less [simp]: "oc16 n < 65536"
  by (simp add: oc16_def)

lemma ceq_oc16: "ceq (oc16 n) n"
proof (cases n)
  case (Suc m)
  have "(m mod 65535 + 1) mod 65535 = (m + 1) mod 65535" by (rule mod_add_left_eq)
  then show ?thesis using Suc by (simp add: ceq_def oc16_def)
qed (simp add: oc16_def)

lemma ceq_unique:
  assumes "ceq x y" "x < 65536" "y < 65536"
  shows "x = y"
proof -
  have small: "z = (if z = 0 then 0 else if z mod 65535 = 0 then 65535 else z mod 65535)"
    if "z < 65536" for z :: nat
  proof (cases "z = 65535")
    case False
    with that have "z < 65535" by simp
    then show ?thesis by simp
  qed simp
  show ?thesis
    using small [OF assms(2)] small [OF assms(3)] assms(1) unfolding ceq_def by metis
qed

lemma oc16_eqI: "ceq x n \<Longrightarrow> x < 65536 \<Longrightarrow> x = oc16 n"
  by (rule ceq_unique [OF ceq_trans [OF _ ceq_sym [OF ceq_oc16]]]) simp_all

lemma oc16_cong: "ceq x y \<Longrightarrow> oc16 x = oc16 y"
  by (metis ceq_oc16 ceq_trans oc16_eqI oc16_less)

lemma ceq_iff_oc16: "ceq x y \<longleftrightarrow> oc16 x = oc16 y"
  by (metis ceq_oc16 ceq_sym ceq_trans oc16_cong)

text \<open>The sum of a concatenation: the second part is swapped after an odd number of bytes.\<close>

lemma le_sum_Cons: "ceq (le_sum (b # bs)) (unat b + 256 * le_sum bs)"
proof (induction bs arbitrary: b)
  case (Cons b0 bs)
  have "ceq (256 * le_sum (b0 # bs)) (256 * (unat b0 + 256 * le_sum bs))"
    by (rule ceq_mult) (rule Cons.IH)
  also have "256 * (unat b0 + 256 * le_sum bs) = 256 * unat b0 + 65536 * le_sum bs" by simp
  also have "ceq \<dots> (256 * unat b0 + le_sum bs)"
    by (intro ceq_add ceq_refl ceq_65536)
  finally have "ceq (unat b + 256 * le_sum (b0 # bs)) (unat b + (256 * unat b0 + le_sum bs))"
    by (intro ceq_add ceq_refl)
  then show ?case by (simp add: ceq_sym add.assoc)
qed simp

lemma le_sum_append:
  "ceq (le_sum (xs @ ys)) (le_sum xs + (if even (length xs) then le_sum ys else 256 * le_sum ys))"
proof (induction xs rule: le_sum.induct)
  case (1 b0 b1 bs)
  have "ceq (unat b0 + 256 * unat b1 + le_sum (bs @ ys))
    (unat b0 + 256 * unat b1 + (le_sum bs + (if even (length bs) then le_sum ys else 256 * le_sum ys)))"
    by (intro ceq_add ceq_refl "1.IH")
  then show ?case by (simp add: add.assoc)
next
  case (2 b)
  then show ?case using le_sum_Cons [of b ys] by simp
qed simp

lemma le_sum_bound: "2 * le_sum bs + (if odd (length bs) then 65025 else 0) \<le> 65535 * length bs"
proof (induction bs rule: le_sum.induct)
  case (1 b0 b1 bs)
  have "unat b0 + 256 * unat b1 \<le> 65535"
    using unat_u8_le [of b0] unat_u8_le [of b1] by linarith
  then have "2 * (unat b0 + 256 * unat b1) \<le> 65535 * 2"
    unfolding mult.commute [of _ 2] by (rule mult_le_mono2)
  with 1 have "2 * (unat b0 + 256 * unat b1) + (2 * le_sum bs + (if odd (length bs) then 65025 else 0))
     \<le> 65535 * 2 + 65535 * length bs"
    by (rule add_le_mono [rotated])
  then show ?case by (simp add: algebra_simps)
next
  case (2 b)
  have "2 * unat b \<le> 2 * 255" by (rule mult_le_mono2) simp
  then have "2 * unat b + 65025 \<le> 65535" by linarith
  then show ?case by simp
qed simp

section \<open>The folding operations\<close>

lemma unat_FOLD: "unat (FOLD_U32T u) = unat u div 65536 + unat u mod 65536"
proof -
  have "unat u div 65536 + unat u mod 65536 < 4294967296"
    using unat_u32_div [of u] mod_less_divisor [of 65536 "unat u"] by linarith
  then show ?thesis
    by (simp add: FOLD_U32T_def unat_add_u32 unat_drop_bit unat_and_ffff_u32)
qed

lemma FOLD_ceq: "ceq (unat (FOLD_U32T u)) (unat u)"
  by (simp add: unat_FOLD ceq_fold)

lemma and_high_zero: "(u :: u32) AND 0xffff0000 = 0 \<longleftrightarrow> unat u < 65536"
proof -
  have "u AND 0xffff0000 = push_bit 16 (drop_bit 16 u AND 0xffff)"
    using and_field [of u 16 16] by (simp add: mask_numeral)
  then have "unat (u AND 0xffff0000) = unat u div 65536 mod 65536 * 65536 mod 4294967296"
    by (simp only: word_nat) simp
  also have "\<dots> = unat u div 65536 * 65536"
    using unat_u32_div [of u] unat_u32_less [of u] by simp
  finally have "unat (u AND 0xffff0000) = 0 \<longleftrightarrow> unat u < 65536" by (simp add: div_eq_0_iff)
  then show ?thesis by (simp only: unat_eq_0)
qed

lemma FOLD_id: "unat u < 65536 \<Longrightarrow> unat (FOLD_U32T u) = unat u"
  by (simp add: unat_FOLD)

lemma FOLD_less: "unat u \<le> 131070 \<Longrightarrow> unat (FOLD_U32T u) < 65536"
proof (cases "unat u < 65536")
  case False
  moreover assume "unat u \<le> 131070"
  ultimately have "unat u div 65536 = 1" by simp
  moreover have "unat u = unat u div 65536 * 65536 + unat u mod 65536" by simp
  ultimately show ?thesis using \<open>unat u \<le> 131070\<close> by (simp only: unat_FOLD)
qed (simp add: unat_FOLD)

lemma FOLD_FOLD_less: "unat (FOLD_U32T (FOLD_U32T u)) < 65536"
proof (rule FOLD_less)
  show "unat (FOLD_U32T u) \<le> 131070"
    using unat_u32_div [of u] mod_less_divisor [of 65536 "unat u"] unfolding unat_FOLD by linarith
qed

lemma unat_SWAP:
  "unat (SWAP_BYTES_IN_WORD u) = 256 * (unat u mod 256) + unat u div 256 mod 256"
proof -
  have "u AND 0xff00 = push_bit 8 (drop_bit 8 u AND 0xff)"
    using and_byte [of u 8] by (simp add: mask_numeral)
  then have "unat (drop_bit 8 (u AND 0xff00)) = unat u div 256 mod 256"
    by (simp only: word_nat) simp
  moreover have "unat (push_bit 8 (u AND 0xff)) = unat u mod 256 * 2 ^ 8"
    by (simp only: word_nat) simp
  moreover have "unat u div 256 mod 256 < 2 ^ 8" by simp
  ultimately show ?thesis
    using nat_or_disjoint [of "unat u div 256 mod 256" 8 "unat u mod 256"]
    by (simp add: SWAP_BYTES_IN_WORD_def unsigned_or_eq or.commute)
qed

lemma SWAP_ceq: "unat u < 65536 \<Longrightarrow> ceq (unat (SWAP_BYTES_IN_WORD u)) (256 * unat u)"
  using ceq_swap [of "unat u"] by (simp add: unat_SWAP)

lemma SWAP_less: "unat (SWAP_BYTES_IN_WORD u) < 65536"
  using mod_less_divisor [of 256 "unat u"] mod_less_divisor [of 256 "unat u div 256"]
  unfolding unat_SWAP by linarith

lemma SWAP_SWAP: "unat u < 65536 \<Longrightarrow> SWAP_BYTES_IN_WORD (SWAP_BYTES_IN_WORD u) = u"
  by (simp add: word_unat_eq_iff unat_SWAP)

section \<open>The three implementations\<close>

lemma unat_mult_u32_small:
  "unat (a :: u32) * unat b < 4294967296 \<Longrightarrow> unat (a * b) = unat a * unat b"
  by (simp add: unat_word_ariths)

lemma unat_ld16 [simp]: "unat (ld16 b0 b1) = unat b0 + 256 * unat b1"
proof -
  have "256 * unat b1 \<le> 256 * 255" by (rule mult_le_mono2) simp
  then have "unat (256 * ucast b1 :: u32) = 256 * unat b1"
    using unat_mult_u32_small [of 256 "ucast b1"] by (simp add: order.strict_trans [OF unat_u8_less])
  then show ?thesis
    unfolding ld16_def
  proof (subst unat_add_u32_small)
    show "unat (ucast b0 :: u32) + unat (256 * ucast b1 :: u32) < 4294967296"
      unfolding \<open>unat (256 * ucast b1 :: u32) = _\<close> unat_ucast_8_32
      using unat_u8_le [of b0] unat_u8_le [of b1] by linarith
  qed simp
qed

lemma ld16_less: "unat (ld16 b0 b1) < 65536"
  using unat_u8_le [of b0] unat_u8_le [of b1] unfolding unat_ld16 by linarith

lemma unat_ld32: "unat (ld32 b0 b1 b2 b3) = unat (ld16 b0 b1) + 65536 * unat (ld16 b2 b3)"
proof -
  have "65536 * unat (ld16 b2 b3) \<le> 65536 * 65535"
    by (rule mult_le_mono2) (use ld16_less [of b2 b3] in linarith)
  moreover from this have "unat (65536 * ld16 b2 b3) = 65536 * unat (ld16 b2 b3)"
    using unat_mult_u32_small [of 65536 "ld16 b2 b3"] by simp
  ultimately show ?thesis
    unfolding ld32_def using ld16_less [of b0 b1]
    by (subst unat_add_u32_small) (simp_all del: unat_ld16)
qed

lemma ld32_ceq: "ceq (unat (ld32 b0 b1 b2 b3)) (le_sum [b0, b1, b2, b3])"
proof -
  have "ceq (unat (ld16 b0 b1) + 65536 * unat (ld16 b2 b3)) (unat (ld16 b0 b1) + unat (ld16 b2 b3))"
    by (intro ceq_add ceq_refl ceq_65536)
  then show ?thesis by (simp add: unat_ld32)
qed

text \<open>The 16-bit loop is exact as long as the sum fits in 32 bits.\<close>

lemma chksum_16_loop_sum:
  assumes "chksum_16_loop s bs = (s', rest)" "unat s + le_sum bs < 4294967296"
  shows "unat s' + le_sum rest = unat s + le_sum bs \<and> length rest \<le> 1 \<and> (even (length bs) \<longleftrightarrow> rest = [])"
  using assms
proof (induction s bs rule: chksum_16_loop.induct)
  case (1 s b0 b1 ps)
  have "unat (s + ld16 b0 b1) = unat s + unat b0 + 256 * unat b1"
    using "1.prems" by (subst unat_add_u32_small) simp_all
  with 1 show ?case by simp
qed auto

text \<open>Addition with end-around carry is exact modulo 65535.\<close>

lemma add_carry_ceq: "ceq (unat (add_carry s x)) (unat s + unat x)"
proof (cases "unat s + unat x < 4294967296")
  case True
  then have "unat (s + x) = unat s + unat x" by (rule unat_add_u32_small)
  then show ?thesis by (simp add: add_carry_def Let_def word_less_nat_alt)
next
  case False
  have "unat s < 4294967296" "unat x < 4294967296" by simp_all
  then have wrap: "unat (s + x) = unat s + unat x - 4294967296" "unat (s + x) < unat s"
  proof -
    have "(unat s + unat x) mod 4294967296 = (unat s + unat x - 4294967296) mod 4294967296"
      by (rule le_mod_geq) (use False in linarith)
    also have "\<dots> = unat s + unat x - 4294967296"
      by (rule mod_less) (use \<open>unat s < _\<close> \<open>unat x < _\<close> in linarith)
    finally show "unat (s + x) = unat s + unat x - 4294967296" by (simp only: unat_add_u32)
    then show "unat (s + x) < unat s" using \<open>unat x < _\<close> False by linarith
  qed
  then have "unat (s + x + 1) = unat s + unat x - 4294967296 + 1"
  proof -
    have "unat (s + x) + unat (1 :: u32) < 4294967296"
      using wrap(2) \<open>unat s < _\<close> by (simp only: unsigned_1)
    then have "unat (s + x + 1) = unat (s + x) + unat (1 :: u32)" by (rule unat_add_u32_small)
    then show ?thesis using wrap(1) by simp
  qed
  then have res: "unat (add_carry s x) = unat s + unat x - 4294967295"
    using wrap False by (simp add: add_carry_def Let_def word_less_nat_alt)
  let ?d = "unat s + unat x - 4294967295"
  have d: "unat s + unat x = ?d + 65535 * 65537" "0 < ?d" using False by linarith+
  have "(?d + 65535 * 65537) mod 65535 = ?d mod 65535" by (rule mod_mult_self2)
  then have "(unat s + unat x) mod 65535 = ?d mod 65535" using d(1) by simp
  moreover have "unat s + unat x \<noteq> 0" "?d \<noteq> 0" using d by linarith+
  ultimately show ?thesis unfolding res ceq_def by (simp only:)
qed

lemma chksum_32_loop_sum:
  assumes "chksum_32_loop s bs = (s', rest)"
  shows "ceq (unat s' + le_sum rest) (unat s + le_sum bs) \<and> length rest \<le> 7 \<and>
    (even (length rest) \<longleftrightarrow> even (length bs))"
  using assms
proof (induction s bs rule: chksum_32_loop.induct)
  case (1 s b0 b1 b2 b3 b4 b5 b6 b7 pl)
  define t where "t = add_carry s (ld32 b0 b1 b2 b3)"
  define u where "u = add_carry t (ld32 b4 b5 b6 b7)"
  have "ceq (unat t) (unat s + unat (ld32 b0 b1 b2 b3))"
    unfolding t_def by (rule add_carry_ceq)
  also have "ceq \<dots> (unat s + le_sum [b0, b1, b2, b3])"
    by (intro ceq_add ceq_refl ld32_ceq)
  finally have t: "ceq (unat t) (unat s + le_sum [b0, b1, b2, b3])" .
  have "ceq (unat u) (unat t + unat (ld32 b4 b5 b6 b7))"
    unfolding u_def by (rule add_carry_ceq)
  also have "ceq \<dots> (unat s + le_sum [b0, b1, b2, b3] + le_sum [b4, b5, b6, b7])"
    by (intro ceq_add t ld32_ceq)
  finally have u: "ceq (unat u + le_sum pl)
    (unat s + le_sum [b0, b1, b2, b3] + le_sum [b4, b5, b6, b7] + le_sum pl)"
    by (intro ceq_add ceq_refl)
  have "chksum_32_loop u pl = (s', rest)"
    using "1.prems" by (simp add: t_def u_def)
  then have IH: "ceq (unat s' + le_sum rest) (unat u + le_sum pl)" "length rest \<le> 7"
     "even (length rest) \<longleftrightarrow> even (length pl)"
    using "1.IH" by (simp_all add: t_def u_def)
  from ceq_trans [OF IH(1) u] show ?case using IH(2,3) by (simp add: add.assoc)
qed auto

text \<open>
  The common end of versions 2 and 3: \<^verbatim>\<open>t\<close> holds the first byte of an odd block in its upper
  byte and the last byte of the rest in its lower byte.
\<close>

definition odd_sum :: "u8 list \<Rightarrow> nat" where
  "odd_sum bs = (case bs of [] \<Rightarrow> 0 | b # pb \<Rightarrow> 256 * unat b + le_sum pb)"

lemma odd_sum_ceq: "ceq (256 * odd_sum bs) (le_sum bs)"
proof (cases bs)
  case (Cons b pb)
  have "ceq (65536 * unat b + 256 * le_sum pb) (unat b + 256 * le_sum pb)"
    by (intro ceq_add ceq_refl ceq_65536)
  also have "ceq \<dots> (le_sum bs)" unfolding Cons by (rule ceq_sym [OF le_sum_Cons])
  finally show ?thesis using Cons by (simp add: odd_sum_def distrib_left)
qed (simp add: odd_sum_def)

lemma odd_sum_bound: "2 * odd_sum bs \<le> 65535 * length bs + 65025"
proof (cases bs)
  case (Cons b pb)
  have "2 * le_sum pb \<le> 65535 * length pb" using le_sum_bound [of pb] by linarith
  moreover have "512 * unat b \<le> 512 * 255" by (rule mult_le_mono2) simp
  ultimately have "512 * unat b + 2 * le_sum pb \<le> 65535 * length pb + 130560" by linarith
  then show ?thesis using Cons by (simp add: odd_sum_def)
qed (simp add: odd_sum_def)

lemma last_byte: "length ps \<le> 1 \<Longrightarrow> unat (if length ps > 0 then hd ps else 0) = le_sum ps"
  by (cases ps) auto

lemma chksum_finish:
  assumes sum: "ceq (unat s) (if is_odd then odd_sum bs else le_sum bs)"
  shows "unat (ucast (let sum = FOLD_U32T s; sum = FOLD_U32T sum in
     if is_odd then SWAP_BYTES_IN_WORD sum else sum) :: u16) = oc16 (le_sum bs)"
proof -
  let ?f = "FOLD_U32T (FOLD_U32T s)"
  have f: "ceq (unat ?f) (unat s)" by (rule ceq_trans [OF FOLD_ceq FOLD_ceq])
  have less: "unat ?f < 65536" by (rule FOLD_FOLD_less)
  let ?r = "if is_odd then SWAP_BYTES_IN_WORD ?f else ?f"
  have "ceq (unat ?r) (le_sum bs)"
  proof (cases is_odd)
    case True
    have "ceq (unat (SWAP_BYTES_IN_WORD ?f)) (256 * unat ?f)" by (rule SWAP_ceq [OF less])
    also have "ceq \<dots> (256 * odd_sum bs)"
      by (rule ceq_mult) (use ceq_trans [OF f sum] True in simp)
    also have "ceq \<dots> (le_sum bs)" by (rule odd_sum_ceq)
    finally show ?thesis using True by simp
  qed (use ceq_trans [OF f sum] in simp)
  moreover have "unat ?r < 65536" using less SWAP_less by simp
  ultimately show ?thesis
    by (simp add: Let_def unat_ucast_32_16 oc16_eqI)
qed

lemma chksum_2_correct:
  assumes "length bs \<le> 131072"
  shows "unat (lwip_standard_chksum_2 addr bs) = oc16 (le_sum bs)"
proof -
  define t1 pb where "t1 = (if odd addr \<and> bs \<noteq> [] then hd bs else 0)"
    and "pb = (if odd addr \<and> bs \<noteq> [] then tl bs else bs)"
  have start: "256 * unat t1 + le_sum pb = (if odd addr then odd_sum bs else le_sum bs)"
    by (cases bs) (simp_all add: t1_def pb_def odd_sum_def)
  have pair: "(if odd addr \<and> 0 < length bs then (hd bs, tl bs) else (0, bs)) = (t1, pb)"
    by (simp add: t1_def pb_def)
  obtain s ps where loop: "chksum_16_loop 0 pb = (s, ps)" by fastforce
  have bound: "256 * unat t1 + le_sum pb < 4294967296"
    using start odd_sum_bound [of bs] le_sum_bound [of bs] assms by (simp split: if_splits)
  then have sum: "unat s + le_sum ps = le_sum pb" "length ps \<le> 1"
    using chksum_16_loop_sum [OF loop] by simp_all
  let ?t0 = "if length ps > 0 then hd ps else 0"
  have t0: "unat ?t0 = le_sum ps" using last_byte [OF sum(2)] .
  have "unat (s + ld16 ?t0 t1) = unat s + (unat ?t0 + 256 * unat t1)"
  proof (subst unat_add_u32_small)
    show "unat s + unat (ld16 ?t0 t1) < 4294967296"
      unfolding unat_ld16 using t0 sum(1) bound by linarith
  qed (simp only: unat_ld16)
  also have "\<dots> = (if odd addr then odd_sum bs else le_sum bs)"
    using t0 sum start by linarith
  finally have "ceq (unat (s + ld16 ?t0 t1)) (if odd addr then odd_sum bs else le_sum bs)"
    by simp
  from chksum_finish [OF this] show ?thesis
    unfolding lwip_standard_chksum_2_def
    by (simp only: Let_def split loop pair)
qed

lemma chksum_3_correct:
  "unat (lwip_standard_chksum_3 addr bs) = oc16 (le_sum bs)"
proof -
  define t1 pb a where "t1 = (if odd addr \<and> bs \<noteq> [] then hd bs else 0)"
    and "pb = (if odd addr \<and> bs \<noteq> [] then tl bs else bs)"
    and "a = (if odd addr \<and> bs \<noteq> [] then addr + 1 else addr)"
  have start: "256 * unat t1 + le_sum pb = (if odd addr then odd_sum bs else le_sum bs)"
    by (cases bs) (simp_all add: t1_def pb_def odd_sum_def)
  define s0 ps where "s0 = (if a mod 4 \<noteq> 0 \<and> length pb > 1 then ld16 (pb ! 0) (pb ! 1) else 0)"
    and "ps = (if a mod 4 \<noteq> 0 \<and> length pb > 1 then drop 2 pb else pb)"
  have half: "unat s0 + le_sum ps = le_sum pb"
    by (cases pb rule: le_sum.cases) (auto simp: s0_def ps_def)
  have pair: "(if odd addr \<and> 0 < length bs then (hd bs, tl bs, addr + 1) else (0, bs, addr)) = (t1, pb, a)"
    by (simp add: t1_def pb_def a_def)
  have pair2: "(if a mod 4 \<noteq> 0 \<and> 1 < length pb then (ld16 (pb ! 0) (pb ! 1), drop 2 pb) else (0, pb)) = (s0, ps)"
    by (simp add: s0_def ps_def)
  obtain s1 pl where loop32: "chksum_32_loop s0 ps = (s1, pl)" by fastforce
  have s1: "ceq (unat s1 + le_sum pl) (le_sum pb)" "length pl \<le> 7"
    using chksum_32_loop_sum [OF loop32] half by simp_all
  have pl: "2 * le_sum pl \<le> 65535 * 7"
    using le_sum_bound [of pl] mult_le_mono2 [OF s1(2), of 65535] by linarith
  let ?s1 = "FOLD_U32T s1"
  have fold: "unat ?s1 \<le> 131070"
    using unat_u32_div [of s1] mod_less_divisor [of 65536 "unat s1"] unfolding unat_FOLD by linarith
  obtain s2 rest where loop16: "chksum_16_loop ?s1 pl = (s2, rest)" by fastforce
  have s2: "unat s2 + le_sum rest = unat ?s1 + le_sum pl" "length rest \<le> 1"
    using chksum_16_loop_sum [OF loop16] pl fold by simp_all
  let ?t0 = "if length rest > 0 then hd rest else 0"
  have t0: "unat ?t0 = le_sum rest" using last_byte [OF s2(2)] .
  have "unat (s2 + ld16 ?t0 t1) = unat s2 + (unat ?t0 + 256 * unat t1)"
  proof (subst unat_add_u32_small)
    show "unat s2 + unat (ld16 ?t0 t1) < 4294967296"
      using ld16_less [of ?t0 t1] s2(1) fold pl by linarith
  qed (simp only: unat_ld16)
  also have "\<dots> = unat ?s1 + le_sum pl + 256 * unat t1" using s2(1) t0 by linarith
  also have "ceq \<dots> (unat s1 + le_sum pl + 256 * unat t1)"
    by (intro ceq_add FOLD_ceq ceq_refl)
  also have "ceq \<dots> (le_sum pb + 256 * unat t1)"
    by (intro ceq_add s1(1) ceq_refl)
  also have "le_sum pb + 256 * unat t1 = (if odd addr then odd_sum bs else le_sum bs)"
    using start by linarith
  finally have "ceq (unat (s2 + ld16 ?t0 t1)) (if odd addr then odd_sum bs else le_sum bs)" .
  from chksum_finish [OF this] show ?thesis
    unfolding lwip_standard_chksum_3_def
    by (simp only: Let_def split loop32 loop16 pair pair2)
qed

lemma chksum_1_loop_sum:
  assumes "chksum_1_loop acc bs = (acc', rest)" "unat acc + 65535 * (length bs div 2) < 4294967296"
  shows "ceq (unat acc' + (case rest of [] \<Rightarrow> 0 | b # _ \<Rightarrow> 256 * unat b)) (unat acc + 256 * le_sum bs)
    \<and> unat acc' \<le> unat acc + 65535 * (length bs div 2)"
  using assms
proof (induction acc bs rule: chksum_1_loop.induct)
  case (1 acc b0 b1 bs)
  define src where "src = push_bit 8 (ucast b0 :: u16) OR ucast b1"
  have src: "unat src = 256 * unat b0 + unat b1"
  proof -
    have "unat (push_bit 8 (ucast b0 :: u16)) = unat b0 * 2 ^ 8"
      using unat_u8_le [of b0] by (simp only: unat_push_bit_u16 unat_ucast_8_16) simp
    then show ?thesis
      using nat_or_disjoint [of "unat b1" 8 "unat b0"] unat_u8_less [of b1]
      by (simp add: src_def unsigned_or_eq or.commute)
  qed
  have len: "65535 * (length (b0 # b1 # bs) div 2) = 65535 * (length bs div 2) + 65535" by simp
  have small: "unat acc + unat (ucast src :: u32) < 4294967296"
    using "1.prems"(2) unat_u16_le [of src] unfolding len unat_ucast_16_32 by linarith
  have acc: "unat (acc + ucast src) = unat acc + unat src"
    using unat_add_u32_small [OF small] by simp
  have IH: "ceq (unat acc' + (case rest of [] \<Rightarrow> 0 | b # _ \<Rightarrow> 256 * unat b))
      (unat (acc + ucast src) + 256 * le_sum bs)"
    "unat acc' \<le> unat (acc + ucast src) + 65535 * (length bs div 2)"
  proof -
    have "unat (acc + ucast src) + 65535 * (length bs div 2) < 4294967296"
      using "1.prems"(2) unat_u16_le [of src] unfolding acc len by linarith
    then show "ceq (unat acc' + (case rest of [] \<Rightarrow> 0 | b # _ \<Rightarrow> 256 * unat b))
      (unat (acc + ucast src) + 256 * le_sum bs)"
      "unat acc' \<le> unat (acc + ucast src) + 65535 * (length bs div 2)"
      using "1.IH" [OF refl refl] "1.prems"(1) by (simp_all add: src_def)
  qed
  have "ceq (unat (acc + ucast src) + 256 * le_sum bs) (unat acc + 256 * le_sum (b0 # b1 # bs))"
  proof -
    have "ceq (unat acc + (256 * unat b0 + unat b1) + 256 * le_sum bs)
      (unat acc + (256 * unat b0 + 65536 * unat b1) + 256 * le_sum bs)"
      by (intro ceq_add ceq_refl ceq_sym [OF ceq_65536])
    then show ?thesis unfolding acc src by (simp add: distrib_left add.assoc)
  qed
  then have "ceq (unat acc' + (case rest of [] \<Rightarrow> 0 | b # _ \<Rightarrow> 256 * unat b))
      (unat acc + 256 * le_sum (b0 # b1 # bs))" by (rule ceq_trans [OF IH(1)])
  moreover have "unat acc' \<le> unat acc + 65535 * (length (b0 # b1 # bs) div 2)"
    using IH(2) unat_u16_le [of src] unfolding acc len by linarith
  ultimately show ?case by (rule conjI)
qed auto

lemma chksum_1_loop_rest:
  "chksum_1_loop acc bs = (acc', rest) \<Longrightarrow> length rest \<le> 1 \<and> (rest = [] \<longleftrightarrow> even (length bs))"
  by (induction acc bs rule: chksum_1_loop.induct) (auto simp: Let_def)

lemma chksum_1_correct:
  assumes "length bs \<le> 131072"
  shows "unat (lwip_standard_chksum_1 bs) = oc16 (le_sum bs)"
proof -
  obtain acc rest where loop: "chksum_1_loop 0 bs = (acc, rest)" by fastforce
  define tail where "tail = (case rest of [] \<Rightarrow> 0 | b # _ \<Rightarrow> 256 * unat b)"
  define acc1 where
    "acc1 = (case rest of [] \<Rightarrow> acc | b # _ \<Rightarrow> acc + ucast (push_bit 8 (ucast b :: u16)))"
  have div: "65535 * (length bs div 2) \<le> 65535 * 65536" using assms by simp
  have acc: "ceq (unat acc + tail) (256 * le_sum bs)" "unat acc \<le> 65535 * (length bs div 2)"
    using chksum_1_loop_sum [OF loop] div unfolding tail_def by simp_all
  have acc1: "unat acc1 = unat acc + tail"
  proof (cases rest)
    case (Cons b r)
    then have "odd (length bs)" using chksum_1_loop_rest [OF loop] by auto
    then have "length bs div 2 \<le> 65535" using assms by presburger
    then have "unat acc \<le> 65535 * 65535"
      using acc(2) mult_le_mono2 [of "length bs div 2" 65535 65535] by linarith
    moreover have b: "unat (push_bit 8 (ucast b :: u16)) = 256 * unat b"
    proof -
      have "unat b * 2 ^ 8 < 65536" using unat_u8_less [of b] by simp
      then show ?thesis by (simp only: unat_push_bit_u16 unat_ucast_8_16) simp
    qed
    moreover have "256 * unat b \<le> 256 * 255" by (rule mult_le_mono2) simp
    ultimately have "unat acc + unat (ucast (push_bit 8 (ucast b :: u16)) :: u32) < 4294967296"
      unfolding unat_ucast_16_32 b by linarith
    from unat_add_u32_small [OF this] b show ?thesis
      unfolding acc1_def tail_def Cons by simp
  qed (simp add: acc1_def tail_def)
  let ?f = "FOLD_U32T acc1"
  define r where "r = (if ?f AND 0xffff0000 \<noteq> 0 then FOLD_U32T ?f else ?f)"
  have top: "?f AND 0xffff0000 = 0 \<longleftrightarrow> unat ?f < 65536"
    by (rule and_high_zero)
  have r: "ceq (unat r) (unat acc1)" "unat r < 65536"
    unfolding r_def using FOLD_ceq [of acc1] ceq_trans [OF FOLD_ceq FOLD_ceq] FOLD_FOLD_less [of acc1] top
    by (auto split: if_splits)
  have "ceq (unat (lwip_htons (ucast r))) (256 * unat r)"
    using ceq_swap [of "unat r"] r(2) by (simp add: unat_lwip_htons unat_ucast_32_16 mult.commute)
  also have "ceq \<dots> (256 * (256 * le_sum bs))"
    by (rule ceq_mult) (use ceq_trans [OF r(1)] acc acc1 in simp)
  also have "256 * (256 * le_sum bs) = 65536 * le_sum bs" by simp
  also have "ceq \<dots> (le_sum bs)" by (rule ceq_65536)
  finally have "unat (lwip_htons (ucast r)) = oc16 (le_sum bs)"
    by (rule oc16_eqI) simp
  then show ?thesis
    unfolding lwip_standard_chksum_1_def
    by (simp only: Let_def split loop acc1_def [symmetric] FOLD_U32T_def [symmetric] r_def [symmetric])
qed

section \<open>Chains\<close>

lemma unat_NOT_u16: "unat (NOT (w :: u16)) = 65535 - unat w"
proof -
  have "NOT w = - 1 - w" by (simp add: not_eq_complement)
  moreover have "unat (- 1 - w) = unat (- 1 :: u16) - unat w"
    by (rule unat_sub) simp
  ultimately show ?thesis by (simp add: unsigned_minus_1_eq_mask mask_eq_exp_minus_1)
qed

text \<open>The bytes of the pseudo headers, in memory order.\<close>

definition u32_bytes :: "u32 \<Rightarrow> u8 list" where
  "u32_bytes a = map of_nat (bytes_le 4 (unat a))"

definition be16 :: "u16 \<Rightarrow> u8 list" where
  "be16 n = [of_nat (unat n div 256), of_nat (unat n mod 256)]"

definition pseudo_header :: "u32 list \<Rightarrow> u32 list \<Rightarrow> u8 \<Rightarrow> u16 \<Rightarrow> u8 list" where
  "pseudo_header src dest proto proto_len =
     concat (map u32_bytes src) @ concat (map u32_bytes dest) @ [0, proto] @ be16 proto_len"

definition chain_data :: "segment list \<Rightarrow> u8 list" where
  "chain_data p = concat (map snd p)"

definition u16_segments :: "segment list \<Rightarrow> bool" where
  "u16_segments p = list_all (\<lambda>(a, bs). length bs \<le> 65535) p"

definition addr_words :: "ip_addr_t \<Rightarrow> ip_addr_t \<Rightarrow> u32 list" where
  "addr_words dest a = (if IP_IS_V6 dest then ip6_words (ip_2_ip6 a) else [ip_2_ip4 a])"

text \<open>A \<^verbatim>\<open>u16_t\<close> in the memory of the host.\<close>

definition store16 :: "u16 \<Rightarrow> u8 list" where
  "store16 c = [ucast c, ucast (drop_bit 8 c)]"

lemma le_sum_store16: "le_sum (store16 c) = unat c"
proof -
  have "unat (ucast c :: u8) = unat c mod 256" by (simp only: unat_ucast_16_8)
  moreover have "unat (ucast (drop_bit 8 c) :: u8) = unat c div 256"
    using unat_u16_div [of c] by (simp only: unat_ucast_16_8 unat_drop_bit) simp
  ultimately show ?thesis by (simp add: store16_def)
qed

lemma length_store16 [simp]: "length (store16 c) = 2"
  by (simp add: store16_def)

lemma length_u32_bytes [simp]: "length (u32_bytes a) = 4"
  by (simp add: u32_bytes_def)

lemma le_sum_append_even: "even (length xs) \<Longrightarrow> le_sum (xs @ ys) = le_sum xs + le_sum ys"
  by (induction xs rule: le_sum.induct) auto

lemma le_sum_u32_bytes: "le_sum (u32_bytes a) = unat a mod 65536 + unat a div 65536"
proof -
  have b: "unat (of_nat (n mod 256) :: u8) = n mod 256" for n
    by (simp add: unat_of_nat take_bit_nat_eq_self_iff)
  have eq: "bytes_le 4 n = [n mod 256, n div 256 mod 256, n div 65536 mod 256, n div 16777216 mod 256]"
    for n
  proof -
    have "(4 :: nat) = Suc (Suc (Suc (Suc 0)))" by simp
    then show ?thesis by (simp only: bytes_le.simps) (simp flip: div_mult2_eq)
  qed
  have "n mod 256 + 256 * (n div 256 mod 256) = n mod 65536" for n :: nat
    using mod_mult2_eq [of n 256 256] by simp
  moreover have "n div 65536 mod 256 + 256 * (n div 16777216 mod 256) = n div 65536 mod 65536" for n :: nat
    using mod_mult2_eq [of "n div 65536" 256 256] by (simp flip: div_mult2_eq)
  ultimately show ?thesis
    using unat_u32_div [of a] by (simp add: u32_bytes_def eq b)
qed

lemma le_sum_be16: "le_sum (be16 n) = unat (lwip_htons n)"
proof -
  have "unat (of_nat (unat n div 256) :: u8) = unat n div 256"
    by (simp add: unat_of_nat take_bit_nat_eq_self_iff)
  moreover have "unat (of_nat (unat n mod 256) :: u8) = unat n mod 256"
    by (simp add: unat_of_nat take_bit_nat_eq_self_iff)
  ultimately show ?thesis by (simp add: be16_def unat_lwip_htons)
qed

lemma unat_htons_proto: "unat (lwip_htons (ucast (proto :: u8))) = 256 * unat proto"
  by (simp add: unat_lwip_htons)

lemma unat_add_halves:
  "unat acc + 131070 < 4294967296 \<Longrightarrow> unat (add_halves acc a) = unat acc + le_sum (u32_bytes a)"
proof -
  assume small: "unat acc + 131070 < 4294967296"
  have hi: "unat (drop_bit 16 a AND 0xffff) = unat a div 65536"
    using unat_u32_div [of a] by (simp only: word_nat) simp
  have lo: "unat (a AND 0xffff) = unat a mod 65536" by (simp only: word_nat)
  have "unat a mod 65536 \<le> 65535" "unat a div 65536 \<le> 65535"
    using unat_u32_div [of a] mod_less_divisor [of 65536 "unat a"] by linarith+
  then show ?thesis
    unfolding add_halves_def using small hi lo
    by (simp add: unat_add_u32_small le_sum_u32_bytes)
qed

text \<open>
  The state of the loop over a chain stands for the sum \<^verbatim>\<open>S\<close>: it is that sum, or the swapped
  sum, below 65536.
\<close>

definition stands_for :: "u32 \<times> bool \<Rightarrow> nat \<Rightarrow> bool" where
  "stands_for s n = (unat (fst s) < 65536 \<and> ceq (unat (fst s)) (if snd s then 256 * n else n))"

lemma stands_for_ceq: "stands_for s m \<Longrightarrow> ceq m n \<Longrightarrow> stands_for s n"
  unfolding stands_for_def by (auto intro: ceq_trans ceq_mult)

lemma unswap:
  assumes "stands_for (acc, sw) m"
  shows "unat (if sw then SWAP_BYTES_IN_WORD acc else acc) < 65536"
    "ceq (unat (if sw then SWAP_BYTES_IN_WORD acc else acc)) m"
proof -
  have acc: "unat acc < 65536" "ceq (unat acc) (if sw then 256 * m else m)"
    using assms by (simp_all add: stands_for_def)
  then show "unat (if sw then SWAP_BYTES_IN_WORD acc else acc) < 65536"
    using SWAP_less by simp
  show "ceq (unat (if sw then SWAP_BYTES_IN_WORD acc else acc)) m"
  proof (cases sw)
    case True
    have "ceq (unat (SWAP_BYTES_IN_WORD acc)) (256 * unat acc)" by (rule SWAP_ceq [OF acc(1)])
    also have "ceq \<dots> (65536 * m)" using ceq_mult [OF acc(2), of 256] True by simp
    also have "ceq \<dots> m" by (rule ceq_65536)
    finally show ?thesis using True by simp
  qed (use acc(2) in simp)
qed

lemma le_sum_u32_bytes_le: "le_sum (u32_bytes a) \<le> 131070"
  using unat_u32_div [of a] mod_less_divisor [of 65536 "unat a"]
  unfolding le_sum_u32_bytes by linarith

lemma even_length_words [simp]: "even (length (concat (map u32_bytes ws)))"
  by (induction ws) auto

lemma ip6_halves_sum:
  "length src = length dest \<Longrightarrow> unat acc + 262140 * length src + 131070 < 4294967296 \<Longrightarrow>
   unat (ip6_halves acc src dest)
     = unat acc + le_sum (concat (map u32_bytes src)) + le_sum (concat (map u32_bytes dest))"
proof (induction src dest arbitrary: acc rule: list_induct2')
  case (4 s src d dest)
  have s: "unat (add_halves acc s) = unat acc + le_sum (u32_bytes s)"
    by (rule unat_add_halves) (use "4.prems" in simp)
  have d: "unat (add_halves (add_halves acc s) d) = unat acc + le_sum (u32_bytes s) + le_sum (u32_bytes d)"
    unfolding s [symmetric]
    by (rule unat_add_halves) (use "4.prems" s le_sum_u32_bytes_le [of s] in simp)
  have len: "262140 * length (s # src) = 262140 * length src + 262140" by simp
  have "unat (add_halves (add_halves acc s) d) + 262140 * length src + 131070 < 4294967296"
    using "4.prems"(2) le_sum_u32_bytes_le [of s] le_sum_u32_bytes_le [of d] unfolding d len by linarith
  with "4.IH" "4.prems"(1) d show ?case by (simp add: le_sum_append_even)
qed auto

lemma ip6_header:
  "unat (ip6_halves 0 (ip6_words src) (ip6_words dest))
    = le_sum (concat (map u32_bytes (ip6_words src)) @ concat (map u32_bytes (ip6_words dest)))"
  by (subst ip6_halves_sum) (simp_all add: ip6_words_def le_sum_append_even)

locale lwip_chksum =
  fixes chk :: chksum_fn
  assumes chk_correct: "length bs \<le> 65535 \<Longrightarrow> unat (chk a bs) = oc16 (le_sum bs)"
begin

lemma chain_step:
  assumes s: "stands_for s n" and len: "length bs \<le> 65535"
  shows "stands_for (chain_step chk a bs l s) (n + (if snd s then 256 * le_sum bs else le_sum bs)) \<and>
    snd (chain_step chk a bs l s) = (snd s \<noteq> odd l)"
proof -
  obtain acc sw where sw: "s = (acc, sw)" by (cases s)
  let ?n = "n + (if sw then 256 * le_sum bs else le_sum bs)"
  let ?v = "FOLD_U32T (acc + ucast (chk a bs))"
  have chk: "unat (chk a bs) = oc16 (le_sum bs)" by (rule chk_correct [OF len])
  have acc: "unat acc < 65536" "ceq (unat acc) (if sw then 256 * n else n)"
    using s by (simp_all add: sw stands_for_def)
  have sum: "unat (acc + ucast (chk a bs)) = unat acc + oc16 (le_sum bs)"
  proof (subst unat_add_u32_small)
    show "unat acc + unat (ucast (chk a bs) :: u32) < 4294967296"
      using acc(1) unat_u16_less [of "chk a bs"] unfolding unat_ucast_16_32 by linarith
  qed (simp add: chk)
  have less: "unat ?v < 65536"
    by (rule FOLD_less) (use acc(1) oc16_less [of "le_sum bs"] sum in linarith)
  have "ceq (unat ?v) (unat acc + oc16 (le_sum bs))"
    using FOLD_ceq [of "acc + ucast (chk a bs)"] by (simp only: sum)
  also have "ceq \<dots> ((if sw then 256 * n else n) + le_sum bs)"
    by (intro ceq_add acc(2) ceq_oc16)
  also have "ceq \<dots> (if sw then 256 * ?n else ?n)"
  proof (cases sw)
    case True
    have "ceq (256 * n + le_sum bs) (256 * n + 65536 * le_sum bs)"
      by (intro ceq_add ceq_refl ceq_sym [OF ceq_65536])
    then show ?thesis using True by (simp add: distrib_left)
  qed simp
  finally have v: "ceq (unat ?v) (if sw then 256 * ?n else ?n)" .
  show ?thesis
  proof (cases "odd l")
    case True
    have "ceq (unat (SWAP_BYTES_IN_WORD ?v)) (256 * unat ?v)" by (rule SWAP_ceq [OF less])
    also have "ceq \<dots> (256 * (if sw then 256 * ?n else ?n))" by (rule ceq_mult [OF v])
    also have "ceq \<dots> (if \<not> sw then 256 * ?n else ?n)"
      using ceq_65536 [of ?n] by (cases sw) (simp_all add: mult.assoc [symmetric] del: mult.assoc)
    finally show ?thesis
      using True SWAP_less by (simp add: sw chain_step_def stands_for_def Let_def odd_iff_mod_2_eq_one)
  next
    case False
    then show ?thesis
      using v less by (simp add: sw chain_step_def stands_for_def Let_def even_iff_mod_2_eq_zero)
  qed
qed

lemma chain_loop:
  assumes "u16_segments p" "stands_for s (n + le_sum xs)" "snd s = odd (length xs)"
  shows "\<exists>m. stands_for (chain_loop chk p s) m \<and> ceq m (n + le_sum (xs @ chain_data p))"
  using assms
proof (induction p arbitrary: s xs)
  case Nil
  then show ?case by (auto simp: chain_data_def)
next
  case (Cons seg p)
  obtain a bs where seg: "seg = (a, bs)" by (cases seg)
  let ?s = "chain_step chk a bs (length bs) s"
  have step: "stands_for ?s (n + le_sum xs + (if snd s then 256 * le_sum bs else le_sum bs))"
    "snd ?s = odd (length (xs @ bs))"
    using chain_step [OF Cons.prems(2), of bs a "length bs"] Cons.prems(1,3)
    by (auto simp: seg u16_segments_def)
  have ceq: "ceq (n + le_sum xs + (if snd s then 256 * le_sum bs else le_sum bs)) (n + le_sum (xs @ bs))"
    using ceq_add [OF ceq_refl [of n] ceq_sym [OF le_sum_append [of xs bs]]] Cons.prems(3)
    by (simp add: add.assoc split: if_splits)
  have "stands_for ?s (n + le_sum (xs @ bs))"
    by (rule stands_for_ceq [OF step(1) ceq])
  then show ?case
    using Cons.IH [of ?s "xs @ bs"] Cons.prems(1) step(2)
    by (simp add: seg u16_segments_def chain_data_def)
qed

lemma pseudo_finish:
  assumes "stands_for s m"
  shows "unat (pseudo_finish proto proto_len s)
    = 65535 - oc16 (m + (256 * unat proto + le_sum (be16 proto_len)))"
proof -
  obtain acc sw where sw: "s = (acc, sw)" by (cases s)
  define a where "a = (if sw then SWAP_BYTES_IN_WORD acc else acc)"
  have a: "unat a < 65536" and ceq_a: "ceq (unat a) m"
    using unswap assms unfolding sw a_def by simp_all
  let ?h = "ucast (lwip_htons (ucast proto)) :: u32" and ?l = "ucast (lwip_htons proto_len) :: u32"
  have h: "unat ?h < 65536" "unat ?l < 65536" by (simp_all only: unat_ucast_16_32 unat_u16_less)
  have "unat (a + ?h) = unat a + unat ?h"
    by (rule unat_add_u32_small) (use a h in linarith)
  moreover from this have "unat (a + ?h + ?l) = unat (a + ?h) + unat ?l"
    by (intro unat_add_u32_small) (use a h in linarith)
  ultimately have sum: "unat (a + ?h + ?l) = unat a + (256 * unat proto + le_sum (be16 proto_len))"
    by (simp add: unat_htons_proto le_sum_be16)
  let ?f = "FOLD_U32T (FOLD_U32T (a + ?h + ?l))"
  have "ceq (unat ?f) (unat (a + ?h + ?l))" by (rule ceq_trans [OF FOLD_ceq FOLD_ceq])
  also have "ceq \<dots> (m + (256 * unat proto + le_sum (be16 proto_len)))"
    unfolding sum by (intro ceq_add ceq_a ceq_refl)
  finally have f: "unat ?f = oc16 (m + (256 * unat proto + le_sum (be16 proto_len)))"
    by (rule oc16_eqI) (rule FOLD_FOLD_less)
  have "unat (ucast (?f AND 0xffff) :: u16) = unat ?f"
    using FOLD_FOLD_less [of "a + ?h + ?l"] by (simp only: word_nat) simp
  then show ?thesis
    using f by (simp add: pseudo_finish_def sw Let_def a_def [symmetric] unat_NOT_u16)
qed

lemma pseudo_base:
  assumes "u16_segments p" "unat acc < 65536" "ceq (unat acc) (le_sum hdr)" "even (length hdr)"
  shows "unat (inet_cksum_pseudo_base chk p proto proto_len acc)
    = 65535 - oc16 (le_sum (hdr @ [0, proto] @ be16 proto_len @ chain_data p))"
proof -
  have "stands_for (acc, False) (le_sum hdr + le_sum [])"
    using assms by (simp add: stands_for_def)
  from chain_loop [OF assms(1) this] obtain m where
    m: "stands_for (chain_loop chk p (acc, False)) m" "ceq m (le_sum hdr + le_sum (chain_data p))"
    by auto
  have "ceq (m + (256 * unat proto + le_sum (be16 proto_len)))
    (le_sum hdr + le_sum (chain_data p) + (256 * unat proto + le_sum (be16 proto_len)))"
    by (intro ceq_add m(2) ceq_refl)
  also have "\<dots> = le_sum (hdr @ [0, proto] @ be16 proto_len @ chain_data p)"
    using assms(4) by (simp add: le_sum_append_even be16_def)
  finally show ?thesis
    using pseudo_finish [OF m(1)] by (simp add: inet_cksum_pseudo_base_def oc16_cong)
qed

lemma fold_header:
  assumes "unat acc = le_sum hdr"
  shows "unat (FOLD_U32T (FOLD_U32T acc)) < 65536" "ceq (unat (FOLD_U32T (FOLD_U32T acc))) (le_sum hdr)"
  using FOLD_FOLD_less [of acc] ceq_trans [OF FOLD_ceq FOLD_ceq, of acc] assms by simp_all

lemma ip4_header:
  "unat (add_halves (add_halves 0 src) dest) = le_sum (u32_bytes src @ u32_bytes dest)"
proof -
  have "unat (add_halves 0 src) = le_sum (u32_bytes src)" by (simp add: unat_add_halves)
  moreover have "le_sum (u32_bytes src) \<le> 131070" by (rule le_sum_u32_bytes_le)
  ultimately show ?thesis by (simp add: unat_add_halves le_sum_append_even)
qed

lemma inet_chksum_pseudo:
  assumes "u16_segments p"
  shows "unat (inet_chksum_pseudo chk p proto proto_len src dest)
    = 65535 - oc16 (le_sum (pseudo_header [src] [dest] proto proto_len @ chain_data p))"
  using pseudo_base [OF assms fold_header [OF ip4_header]]
  by (simp add: inet_chksum_pseudo_def Let_def pseudo_header_def)

lemma inet_chksum_pbuf:
  assumes "u16_segments p"
  shows "unat (inet_chksum_pbuf chk p) = 65535 - oc16 (le_sum (chain_data p))"
proof -
  have "stands_for (0, False) (0 + le_sum [])" by (simp add: stands_for_def)
  from chain_loop [OF assms this] obtain m where
    m: "stands_for (chain_loop chk p (0, False)) m" "ceq m (le_sum (chain_data p))"
    by auto
  obtain acc sw where sw: "chain_loop chk p (0, False) = (acc, sw)" by fastforce
  have a: "unat (if sw then SWAP_BYTES_IN_WORD acc else acc) = oc16 (le_sum (chain_data p))"
    by (rule oc16_eqI [OF ceq_trans [OF unswap(2) m(2)] unswap(1)]) (use m(1) sw in simp_all)
  have "unat (ucast (w AND 0xffff) :: u16) = unat w mod 65536" for w :: u32
    by (simp only: word_nat) simp
  then show ?thesis
    by (simp only: inet_chksum_pbuf_def sw split Let_def unat_NOT_u16 a)
      (simp add: mod_less [OF oc16_less])
qed

lemma ip6_chksum_pseudo:
  assumes "u16_segments p"
  shows "unat (ip6_chksum_pseudo chk p proto proto_len src dest)
    = 65535 - oc16 (le_sum (pseudo_header (ip6_words src) (ip6_words dest) proto proto_len @ chain_data p))"
proof -
  have "unat (ip6_halves 0 (ip6_words src) (ip6_words dest))
    = le_sum (concat (map u32_bytes (ip6_words src)) @ concat (map u32_bytes (ip6_words dest)))"
    by (rule ip6_header)
  from pseudo_base [OF assms fold_header [OF this]] show ?thesis
    by (simp add: ip6_chksum_pseudo_def Let_def pseudo_header_def ip6_words_def)
qed

lemma partial_loop:
  assumes "u16_segments p" "stands_for s (n + le_sum xs)" "snd s = odd (length xs)"
    "unat len < 0x7fff"
  shows "\<exists>s' m. partial_loop chk p len s = Some s' \<and> stands_for s' m \<and>
    ceq m (n + le_sum (xs @ take (unat len) (chain_data p)))"
  using assms
proof (induction p arbitrary: s xs len)
  case Nil
  then show ?case by (auto simp: chain_data_def)
next
  case (Cons seg p)
  obtain a bs where seg: "seg = (a, bs)" by (cases seg)
  show ?case
  proof (cases "len = 0")
    case True
    then show ?thesis using Cons.prems by (auto simp: seg)
  next
    case False
    let ?k = "if length bs > unat len then unat len else length bs"
    let ?bs = "take ?k bs"
    let ?s = "chain_step chk a ?bs (length bs) s"
    have step: "stands_for ?s (n + le_sum xs + (if snd s then 256 * le_sum ?bs else le_sum ?bs))"
      "snd ?s = odd (length (xs @ bs))"
      using chain_step [OF Cons.prems(2), of ?bs a "length bs"] Cons.prems(1,3)
      by (auto simp: seg u16_segments_def)
    have "ceq (n + le_sum xs + (if snd s then 256 * le_sum ?bs else le_sum ?bs)) (n + le_sum (xs @ ?bs))"
      using ceq_add [OF ceq_refl [of n] ceq_sym [OF le_sum_append [of xs ?bs]]] Cons.prems(3)
      by (simp add: add.assoc split: if_splits)
    then have s': "stands_for ?s (n + le_sum (xs @ ?bs))"
      by (rule stands_for_ceq [OF step(1)])
    have "unat (of_nat ?k :: u16) = ?k"
    proof (rule unat_of_nat_u16)
      have "?k \<le> unat len" by simp
      then show "?k < 65536" using unat_u16_less [of len] by linarith
    qed
    then have rest: "unat (len - of_nat ?k) = unat len - ?k"
      by (subst unat_sub_u16) (simp_all add: word_le_nat_alt)
    then have less: "len - of_nat ?k < 0x7fff" "unat (len - of_nat ?k) < 0x7fff"
      using Cons.prems(4) by (simp_all add: word_less_nat_alt)
    have loop: "partial_loop chk (seg # p) len s = partial_loop chk p (len - of_nat ?k) ?s"
      using False less(1) by (simp add: seg Let_def word_neq_0_conv split del: if_split)
    show ?thesis
    proof (cases "unat len < length bs")
      case True
      then have "len - of_nat ?k = 0" using rest by (simp add: unat_eq_0 [symmetric] del: unat_eq_0)
      then have "partial_loop chk (seg # p) len s = Some ?s"
        unfolding loop by (cases p) auto
      then show ?thesis using True s' by (auto simp: seg chain_data_def)
    next
      case False
      then show ?thesis
        using Cons.IH [of ?s "xs @ bs" "len - of_nat ?k"] Cons.prems(1) step(2) s' rest less
        unfolding loop by (simp add: seg u16_segments_def chain_data_def)
    qed
  qed
qed

lemma pseudo_partial_base:
  assumes "u16_segments p" "unat acc < 65536" "ceq (unat acc) (le_sum hdr)" "even (length hdr)"
    "unat len < 0x7fff"
  shows "map_option unat (inet_cksum_pseudo_partial_base chk p proto proto_len len acc)
    = Some (65535 - oc16 (le_sum (hdr @ [0, proto] @ be16 proto_len @ take (unat len) (chain_data p))))"
proof -
  have "stands_for (acc, False) (le_sum hdr + le_sum [])"
    using assms by (simp add: stands_for_def)
  from partial_loop [OF assms(1) this _ assms(5)] obtain s m where
    m: "partial_loop chk p len (acc, False) = Some s" "stands_for s m"
      "ceq m (le_sum hdr + le_sum (take (unat len) (chain_data p)))"
    by auto
  have "ceq (m + (256 * unat proto + le_sum (be16 proto_len)))
    (le_sum hdr + le_sum (take (unat len) (chain_data p)) + (256 * unat proto + le_sum (be16 proto_len)))"
    by (intro ceq_add m(3) ceq_refl)
  also have "\<dots> = le_sum (hdr @ [0, proto] @ be16 proto_len @ take (unat len) (chain_data p))"
    using assms(4) by (simp add: le_sum_append_even be16_def)
  finally show ?thesis
    using pseudo_finish [OF m(2)] m(1) by (simp add: inet_cksum_pseudo_partial_base_def oc16_cong)
qed

lemma ip_chksum_pseudo:
  assumes "u16_segments p"
  shows "unat (ip_chksum_pseudo chk p proto proto_len src dest)
    = 65535 - oc16 (le_sum (pseudo_header (addr_words dest src) (addr_words dest dest) proto proto_len
        @ chain_data p))"
  using inet_chksum_pseudo [OF assms] ip6_chksum_pseudo [OF assms]
  by (simp add: ip_chksum_pseudo_def addr_words_def)

lemma ip_chksum_pseudo_partial:
  assumes "u16_segments p" "unat chksum_len < 0x7fff"
  shows "map_option unat (ip_chksum_pseudo_partial chk p proto proto_len chksum_len src dest)
    = Some (65535 - oc16 (le_sum (pseudo_header (addr_words dest src) (addr_words dest dest) proto proto_len
        @ take (unat chksum_len) (chain_data p))))"
  using pseudo_partial_base [OF assms(1) fold_header [OF ip4_header] _ assms(2)]
    pseudo_partial_base [OF assms(1) fold_header [OF ip6_header] _ assms(2)]
  by (simp add: ip_chksum_pseudo_partial_def addr_words_def inet_chksum_pseudo_partial_def
      ip6_chksum_pseudo_partial_def Let_def pseudo_header_def)

lemma inet_chksum:
  "length bs \<le> 65535 \<Longrightarrow> unat (inet_chksum chk a bs) = 65535 - oc16 (le_sum bs)"
  by (simp add: inet_chksum_def unat_NOT_u16 chk_correct)

lemma verifies:
  assumes "u16_segments p" "u16_segments q" "even (length xs)"
    and "chain_data p = xs @ [0, 0] @ ys"
    and "chain_data q = xs @ store16 (inet_chksum_pbuf chk p) @ ys"
  shows "inet_chksum_pbuf chk q = 0"
proof -
  let ?c = "inet_chksum_pbuf chk p"
  have c: "unat ?c = 65535 - oc16 (le_sum xs + le_sum ys)"
    using inet_chksum_pbuf [OF assms(1)] assms(3,4) by (simp add: le_sum_append_even)
  have "ceq (le_sum (chain_data q)) (le_sum xs + le_sum ys + unat ?c)"
    using assms(3,5) by (simp add: le_sum_append_even le_sum_store16 add_ac)
  also have "ceq \<dots> (oc16 (le_sum xs + le_sum ys) + unat ?c)"
    by (intro ceq_add ceq_sym [OF ceq_oc16] ceq_refl)
  also have "oc16 (le_sum xs + le_sum ys) + unat ?c = 65535"
    using c oc16_less [of "le_sum xs + le_sum ys"] by linarith
  finally have "oc16 (le_sum (chain_data q)) = 65535"
    by (intro oc16_eqI [symmetric]) (simp_all add: ceq_sym)
  then have "unat (inet_chksum_pbuf chk q) = 0"
    using inet_chksum_pbuf [OF assms(2)] by simp
  then show ?thesis by (simp only: unat_eq_0)
qed

end

text \<open>The three implementations meet the contract, with the configured one being version 2.\<close>

interpretation v1: lwip_chksum "\<lambda>_. lwip_standard_chksum_1"
  by unfold_locales (simp add: chksum_1_correct)

interpretation v2: lwip_chksum lwip_standard_chksum_2
  by unfold_locales (simp add: chksum_2_correct)

interpretation v3: lwip_chksum lwip_standard_chksum_3
  by unfold_locales (simp add: chksum_3_correct)

section \<open>Properties\<close>

text \<open>C10: the three implementations of \<^verbatim>\<open>lwip_standard_chksum\<close> compute the one's complement sum of
  the 16-bit words of the data, from every address and for every length up to the documented
  limit of 0x20000 bytes (version 3 for every length).\<close>

theorem lwip_standard_chksum_equiv:
  assumes "length bs \<le> 131072"
  shows "unat (lwip_standard_chksum_2 addr bs) = oc16 (le_sum bs)
    \<and> lwip_standard_chksum_1 bs = lwip_standard_chksum_2 addr bs
    \<and> lwip_standard_chksum_3 addr' bs = lwip_standard_chksum_2 addr bs"
  using assms by (simp add: word_unat_eq_iff chksum_1_correct chksum_2_correct chksum_3_correct)

theorem lwip_standard_chksum_equiv_witness:
  "unat (lwip_standard_chksum_2 1 [1, 2, 255]) = oc16 (le_sum [1, 2, 255])
    \<and> lwip_standard_chksum_1 [1, 2, 255] = lwip_standard_chksum_2 1 [1, 2, 255]
    \<and> lwip_standard_chksum_3 2 [1, 2, 255] = lwip_standard_chksum_2 1 [1, 2, 255]"
  by (rule lwip_standard_chksum_equiv) simp

text \<open>C9: the checksum of a pbuf chain with its IPv4 or IPv6 pseudo header is the complement of
  the one's complement sum of the pseudo header followed by all bytes of the chain, however the
  bytes are split into pbufs and wherever the payloads lie in memory.\<close>

theorem ip_chksum_pseudo_correct:
  assumes "u16_segments p"
  shows "unat (ip_chksum_pseudo lwip_standard_chksum_2 p proto proto_len src dest)
    = 65535 - oc16 (le_sum (pseudo_header (addr_words dest src) (addr_words dest dest) proto proto_len
        @ chain_data p))"
  by (rule v2.ip_chksum_pseudo [OF assms])

theorem ip_chksum_pseudo_correct_witness:
  "\<exists>src. unat (ip_chksum_pseudo lwip_standard_chksum_2 [(1, [1, 2, 3]), (6, [4])] 17 12 src src)
    = 65535 - oc16 (le_sum (pseudo_header (addr_words src src) (addr_words src src) 17 12
        @ [1, 2, 3, 4]))"
  using ip_chksum_pseudo_correct [of "[(1, [1, 2, 3]), (6, [4])]"]
  by (auto simp: u16_segments_def chain_data_def)

text \<open>C11: a packet verifies: when the checksum of a chain with a zero checksum field at an even
  offset is stored in that field, the checksum of the result is zero, whatever the chains are.\<close>

theorem inet_chksum_pbuf_verifies:
  assumes "u16_segments p" "u16_segments q" "even (length xs)"
    and "chain_data p = xs @ [0, 0] @ ys"
    and "chain_data q = xs @ store16 (inet_chksum_pbuf lwip_standard_chksum_2 p) @ ys"
  shows "inet_chksum_pbuf lwip_standard_chksum_2 q = 0"
  by (rule v2.verifies [OF assms])

theorem inet_chksum_pbuf_verifies_witness:
  "inet_chksum_pbuf lwip_standard_chksum_2
     [(0, [8, 7] @ store16 (inet_chksum_pbuf lwip_standard_chksum_2 [(1, [8]), (3, [7, 0, 0, 9])]) @ [9])] = 0"
  by (rule inet_chksum_pbuf_verifies [of "[(1, [8]), (3, [7, 0, 0, 9])]" _ "[8, 7]" "[9]"])
    (simp_all add: u16_segments_def chain_data_def store16_def)

text \<open>The partial pseudo checksum covers the first \<^verbatim>\<open>chksum_len\<close> bytes of the chain, when
  these are fewer than 0x7fff.\<close>

lemma ip_chksum_pseudo_partial_correct:
  assumes "u16_segments p" "unat chksum_len < 0x7fff"
  shows "map_option unat
      (ip_chksum_pseudo_partial lwip_standard_chksum_2 p proto proto_len chksum_len src dest)
    = Some (65535 - oc16 (le_sum (pseudo_header (addr_words dest src) (addr_words dest dest) proto proto_len
        @ take (unat chksum_len) (chain_data p))))"
  by (rule v2.ip_chksum_pseudo_partial [OF assms])

text \<open>C13: when 0x7fff or more of the bytes to sum lie behind the first pbuf (not merely when
  \<^verbatim>\<open>chksum_len\<close> is that large: with fewer bytes behind it the function returns), the leftover
  assertion of \<^verbatim>\<open>inet_cksum_pseudo_partial_base\<close> aborts.\<close>

theorem ip_chksum_pseudo_partial_aborts:
  assumes "unat chksum_len - length bs \<ge> 0x7fff"
  shows "ip_chksum_pseudo_partial lwip_standard_chksum_2 ((a, bs) # p) proto proto_len chksum_len src dest
    = None"
proof -
  have less: "length bs < unat chksum_len" using assms by linarith
  then have "unat (of_nat (length bs) :: u16) = length bs"
    using unat_u16_less [of chksum_len] by (intro unat_of_nat_u16) linarith
  then have "unat (chksum_len - of_nat (length bs)) = unat chksum_len - length bs"
    using less by (subst unat_sub_u16) (simp_all add: word_le_nat_alt)
  then have "\<not> chksum_len - of_nat (length bs) < 0x7fff"
    using assms by (simp add: word_less_nat_alt)
  moreover have "0 < chksum_len" using less by (simp add: word_less_nat_alt)
  ultimately have "partial_loop lwip_standard_chksum_2 ((a, bs) # p) chksum_len s = None" for s
    using less by (simp add: Let_def)
  then show ?thesis
    by (simp add: ip_chksum_pseudo_partial_def inet_chksum_pseudo_partial_def
        ip6_chksum_pseudo_partial_def inet_cksum_pseudo_partial_base_def Let_def)
qed

theorem ip_chksum_pseudo_partial_aborts_witness:
  "\<exists>src. ip_chksum_pseudo_partial lwip_standard_chksum_2 [(0, [1])] 17 12 0x8000 src src = None"
  using ip_chksum_pseudo_partial_aborts [where chksum_len = 32768 and bs = "[1]"] by simp

end
