(* ===== verification/Lwip_Heap.thy ===== *)
theory Lwip_Heap
  imports Lwip_Chksum
begin

text \<open>
  The memory the packet buffers live in. A pointer to a \<^verbatim>\<open>struct pbuf\<close> is the number of its
  allocation (0 is NULL); a data pointer is an allocation and an offset in it. Allocations are
  numbered by a counter and never reused; the environment decides which succeed
  (\<^verbatim>\<open>malloc_ok\<close>), what fresh memory holds (\<^verbatim>\<open>junk\<close>) and where it lies (\<^verbatim>\<open>base_addr\<close>): in this
  configuration \<^verbatim>\<open>mem_malloc\<close> and \<^verbatim>\<open>memp_malloc\<close> are the C library's \<^verbatim>\<open>malloc\<close>
  (\<^verbatim>\<open>MEM_LIBC_MALLOC\<close>, \<^verbatim>\<open>MEMP_MEM_MALLOC\<close>).
\<close>

section \<open>Data\<close>

datatype vptr = VNull | VPtr nat nat

text \<open>
  \<^verbatim>\<open>struct pbuf\<close>, with the fields of \<^verbatim>\<open>struct pbuf_custom\<close> and \<^verbatim>\<open>struct pbuf_custom_ref\<close> in
  one: \<^verbatim>\<open>pb_custom\<close> is \<^term>\<open>None\<close> for a NULL free function, and otherwise the \<^verbatim>\<open>original\<close> of the
  only custom free function of the stack, \<^verbatim>\<open>ipfrag_free_pbuf_custom\<close>.
\<close>

record pbuf =
  pb_next :: nat
  pb_payload :: vptr
  pb_tot_len :: u16
  pb_len :: u16
  pb_type_internal :: u8
  pb_flags :: u8
  pb_ref :: u8
  pb_if_idx :: u8
  pb_custom :: "nat option"

record heap =
  pbufs :: "nat \<Rightarrow> pbuf option"
  blocks :: "nat \<Rightarrow> u8 list option"
  nxt_addr :: nat
  malloc_ok :: "nat \<Rightarrow> bool"
  junk :: "nat \<Rightarrow> nat \<Rightarrow> u8"
  base_addr :: "nat \<Rightarrow> nat"
  ooseq_pending :: bool

definition SIZEOF_STRUCT_PBUF :: nat where
  "SIZEOF_STRUCT_PBUF = 24"

section \<open>Memory operations\<close>

text \<open>
  \<^verbatim>\<open>mem_malloc\<close> (and \<^verbatim>\<open>memp_malloc\<close>): a fresh allocation of \<^verbatim>\<open>sz\<close> bytes, or NULL. A failed
  allocation moves the counter, so that the next one asks the environment again.
\<close>

definition mem_malloc :: "heap \<Rightarrow> nat \<Rightarrow> nat \<times> heap" where
  "mem_malloc h sz =
     (let a = nxt_addr h; h = h\<lparr>nxt_addr := a + 1\<rparr>
      in if malloc_ok h a then (a, h\<lparr>blocks := (blocks h)(a := Some (map (junk h a) [0..<sz]))\<rparr>)
         else (0, h))"

text \<open>\<^verbatim>\<open>mem_free\<close> (and \<^verbatim>\<open>memp_free\<close>) of an allocation that holds a pbuf.\<close>

definition mem_free :: "heap \<Rightarrow> nat \<Rightarrow> heap" where
  "mem_free h a = h\<lparr>pbufs := (pbufs h)(a := None), blocks := (blocks h)(a := None)\<rparr>"

text \<open>\<^verbatim>\<open>mem_trim\<close> with the C library's \<^verbatim>\<open>malloc\<close>: does nothing.\<close>

definition mem_trim :: "nat \<Rightarrow> nat \<Rightarrow> nat" where
  "mem_trim mem new_size = mem"

definition put_pbuf :: "heap \<Rightarrow> nat \<Rightarrow> pbuf \<Rightarrow> heap" where
  "put_pbuf h p b = h\<lparr>pbufs := (pbufs h)(p := Some b)\<rparr>"

text \<open>Reading and writing through a data pointer; no byte is touched when none is asked for.\<close>

definition mem_read :: "heap \<Rightarrow> vptr \<Rightarrow> nat \<Rightarrow> nat \<Rightarrow> u8 list option" where
  "mem_read h v off n =
     (if n = 0 then Some []
      else case v of VNull \<Rightarrow> None
        | VPtr b d \<Rightarrow> do { bs \<leftarrow> blocks h b; buf_read bs (d + off) n })"

definition mem_write :: "heap \<Rightarrow> vptr \<Rightarrow> nat \<Rightarrow> u8 list \<Rightarrow> heap option" where
  "mem_write h v off src =
     (if src = [] then Some h
      else case v of VNull \<Rightarrow> None
        | VPtr b d \<Rightarrow> do {
            bs \<leftarrow> blocks h b;
            bs \<leftarrow> buf_write bs (d + off) src;
            Some (h\<lparr>blocks := (blocks h)(b := Some bs)\<rparr>) })"

definition vptr_address :: "heap \<Rightarrow> vptr \<Rightarrow> nat" where
  "vptr_address h v = (case v of VNull \<Rightarrow> 0 | VPtr b d \<Rightarrow> base_addr h b + d)"

section \<open>Pbuf constants\<close>

datatype pbuf_layer = PBUF_TRANSPORT | PBUF_IP | PBUF_LINK | PBUF_RAW_TX | PBUF_RAW

definition layer_offset :: "pbuf_layer \<Rightarrow> u16" where
  "layer_offset l =
     (let PBUF_LINK_ENCAPSULATION_HLEN = 0; PBUF_LINK_HLEN = 14; PBUF_IP_HLEN = 40;
          PBUF_TRANSPORT_HLEN = 20
      in case l of
           PBUF_TRANSPORT \<Rightarrow> PBUF_LINK_ENCAPSULATION_HLEN + PBUF_LINK_HLEN + PBUF_IP_HLEN + PBUF_TRANSPORT_HLEN
         | PBUF_IP \<Rightarrow> PBUF_LINK_ENCAPSULATION_HLEN + PBUF_LINK_HLEN + PBUF_IP_HLEN
         | PBUF_LINK \<Rightarrow> PBUF_LINK_ENCAPSULATION_HLEN + PBUF_LINK_HLEN
         | PBUF_RAW_TX \<Rightarrow> PBUF_LINK_ENCAPSULATION_HLEN
         | PBUF_RAW \<Rightarrow> 0)"

datatype pbuf_type = PBUF_RAM | PBUF_ROM | PBUF_REF | PBUF_POOL

definition PBUF_TYPE_FLAG_STRUCT_DATA_CONTIGUOUS :: u8 where
  "PBUF_TYPE_FLAG_STRUCT_DATA_CONTIGUOUS = 0x80"

definition PBUF_TYPE_ALLOC_SRC_MASK :: u8 where
  "PBUF_TYPE_ALLOC_SRC_MASK = 0x0F"

definition PBUF_FLAG_IS_CUSTOM :: u8 where
  "PBUF_FLAG_IS_CUSTOM = 0x02"

text \<open>The \<^verbatim>\<open>u8_t\<close> part of the type constants, all that \<^verbatim>\<open>type_internal\<close> keeps.\<close>

definition type_u8 :: "pbuf_type \<Rightarrow> u8" where
  "type_u8 t = (case t of PBUF_RAM \<Rightarrow> 0x80 | PBUF_ROM \<Rightarrow> 0x01 | PBUF_REF \<Rightarrow> 0x41 | PBUF_POOL \<Rightarrow> 0x82)"

definition pbuf_get_allocsrc :: "pbuf \<Rightarrow> u8" where
  "pbuf_get_allocsrc b = pb_type_internal b AND PBUF_TYPE_ALLOC_SRC_MASK"

definition pbuf_match_allocsrc :: "pbuf \<Rightarrow> u8 \<Rightarrow> bool" where
  "pbuf_match_allocsrc b t = (pbuf_get_allocsrc b = t)"

definition PBUF_POOL_BUFSIZE_ALIGNED :: nat where
  "PBUF_POOL_BUFSIZE_ALIGNED = 1514"

section \<open>Chains\<close>

text \<open>
  \<^term>\<open>lseg h p as q\<close>: following the \<^verbatim>\<open>next\<close> pointers from \<^verbatim>\<open>p\<close> visits the pbufs \<^verbatim>\<open>as\<close> and
  arrives at \<^verbatim>\<open>q\<close>. A chain ends at NULL.
\<close>

fun lseg :: "heap \<Rightarrow> nat \<Rightarrow> nat list \<Rightarrow> nat \<Rightarrow> bool" where
  "lseg h p [] q = (p = q)"
| "lseg h p (a # as) q =
     (p = a \<and> a \<noteq> 0 \<and> (case pbufs h a of None \<Rightarrow> False | Some b \<Rightarrow> lseg h (pb_next b) as q))"

abbreviation chain :: "heap \<Rightarrow> nat \<Rightarrow> nat list \<Rightarrow> bool" where
  "chain h p as \<equiv> lseg h p as 0"

text \<open>The data of a pbuf: \<^verbatim>\<open>len\<close> bytes at its payload. The content of a chain.\<close>

definition readable :: "heap \<Rightarrow> nat \<Rightarrow> bool" where
  "readable h a = (case pbufs h a of None \<Rightarrow> False
     | Some b \<Rightarrow> mem_read h (pb_payload b) 0 (unat (pb_len b)) \<noteq> None)"

definition pdata :: "heap \<Rightarrow> nat \<Rightarrow> u8 list" where
  "pdata h a = (case pbufs h a of None \<Rightarrow> []
     | Some b \<Rightarrow> (case mem_read h (pb_payload b) 0 (unat (pb_len b)) of None \<Rightarrow> [] | Some bs \<Rightarrow> bs))"

definition content :: "heap \<Rightarrow> nat list \<Rightarrow> u8 list" where
  "content h as = concat (map (pdata h) as)"

text \<open>The block a pbuf's payload lies in, and chains whose payloads do not overlap.\<close>

definition pblock :: "heap \<Rightarrow> nat \<Rightarrow> nat" where
  "pblock h a = (case pbufs h a of None \<Rightarrow> 0
     | Some b \<Rightarrow> (case pb_payload b of VNull \<Rightarrow> 0 | VPtr blk _ \<Rightarrow> blk))"

definition separate :: "heap \<Rightarrow> nat list \<Rightarrow> bool" where
  "separate h as = distinct (map (pblock h) as)"

text \<open>The invariant of \<^verbatim>\<open>tot_len\<close>, and chains that are one packet.\<close>

fun totals :: "heap \<Rightarrow> nat list \<Rightarrow> bool" where
  "totals h [] = True"
| "totals h (a # as) = ((case pbufs h a of None \<Rightarrow> False
     | Some b \<Rightarrow> unat (pb_tot_len b) = length (content h (a # as))) \<and> totals h as)"

definition packet :: "heap \<Rightarrow> nat \<Rightarrow> nat list \<Rightarrow> bool" where
  "packet h p as = (chain h p as \<and> list_all (readable h) as \<and> totals h as)"

subsection \<open>Walking\<close>

lemma lseg_Cons_iff:
  "lseg h p (a # as) q \<longleftrightarrow> p = a \<and> a \<noteq> 0 \<and> (\<exists>b. pbufs h a = Some b \<and> lseg h (pb_next b) as q)"
  by (auto split: option.splits)

lemma chain_0 [simp]: "chain h 0 as \<longleftrightarrow> as = []"
  by (cases as) auto

lemma chain_nonzero:
  assumes "chain h p as" "p \<noteq> 0"
  obtains b bs where "as = p # bs" "pbufs h p = Some b" "chain h (pb_next b) bs"
  using assms by (cases as) (auto split: option.splits)

lemma lseg_append: "lseg h p (xs @ ys) q \<longleftrightarrow> (\<exists>r. lseg h p xs r \<and> lseg h r ys q)"
  by (induction xs arbitrary: p) (auto split: option.splits)

lemma lseg_unique: "lseg h p xs 0 \<Longrightarrow> lseg h p ys 0 \<Longrightarrow> xs = ys"
proof (induction xs arbitrary: p ys)
  case Nil
  then show ?case by (cases ys) auto
next
  case (Cons a xs)
  then show ?case by (cases ys) (auto split: option.splits)
qed

lemma chain_not_0: "lseg h p as q \<Longrightarrow> 0 \<notin> set as"
  by (induction as arbitrary: p) (auto split: option.splits)

lemma chain_present: "lseg h p as q \<Longrightarrow> a \<in> set as \<Longrightarrow> \<exists>b. pbufs h a = Some b"
  by (induction as arbitrary: p) (auto split: option.splits)

lemma chain_distinct: "chain h p as \<Longrightarrow> distinct as"
proof (induction as arbitrary: p)
  case (Cons a as)
  then obtain b where b: "pbufs h a = Some b" "chain h (pb_next b) as" "p = a"
    by (auto split: option.splits)
  have "a \<notin> set as"
  proof
    assume "a \<in> set as"
    then obtain xs ys where "as = xs @ a # ys" by (meson split_list)
    then have "chain h a (a # ys)" using b by (auto simp: lseg_append)
    moreover have "chain h a (a # as)" using Cons.prems b by simp
    ultimately have "a # ys = a # as" by (rule lseg_unique)
    then have "length as = length xs + Suc (length as)"
      using \<open>as = xs @ a # ys\<close> by simp
    then show False by simp
  qed
  then show ?case using Cons.IH b by simp
qed simp

lemma lseg_cong:
  "(\<And>a. a \<in> set as \<Longrightarrow> map_option pb_next (pbufs h a) = map_option pb_next (pbufs h' a)) \<Longrightarrow>
   lseg h p as q = lseg h' p as q"
proof (induction as arbitrary: p)
  case (Cons a as)
  have "map_option pb_next (pbufs h a) = map_option pb_next (pbufs h' a)"
    by (rule Cons.prems) simp
  moreover have "lseg h p as q = lseg h' p as q" for p
    by (rule Cons.IH) (simp add: Cons.prems)
  ultimately show ?case by (cases "pbufs h a"; cases "pbufs h' a") simp_all
qed simp

subsection \<open>Reading\<close>

lemma mem_read_length: "mem_read h v off n = Some bs \<Longrightarrow> length bs = n"
  by (auto simp: mem_read_def buf_read_length split: if_splits vptr.splits bind_splits)

lemma length_pdata:
  "readable h a \<Longrightarrow> pbufs h a = Some b \<Longrightarrow> length (pdata h a) = unat (pb_len b)"
  by (auto simp: readable_def pdata_def dest: mem_read_length)

lemma content_Nil [simp]: "content h [] = []"
  by (simp add: content_def)

lemma content_Cons [simp]: "content h (a # as) = pdata h a @ content h as"
  by (simp add: content_def)

lemma content_append [simp]: "content h (as @ bs) = content h as @ content h bs"
  by (simp add: content_def)

text \<open>Reading inside the data of a pbuf.\<close>

lemma mem_read_pdata:
  assumes "readable h a" "pbufs h a = Some b" "off + n \<le> unat (pb_len b)"
  shows "mem_read h (pb_payload b) off n = Some (take n (drop off (pdata h a)))"
proof (cases "n = 0")
  case True
  then show ?thesis by (simp add: mem_read_def)
next
  case False
  then have "unat (pb_len b) \<noteq> 0" using assms(3) by linarith
  then obtain blk d bs where "pb_payload b = VPtr blk d" "blocks h blk = Some bs"
    "d + unat (pb_len b) \<le> length bs"
    using assms(1,2) by (auto simp: readable_def mem_read_def buf_read_def bind_eq_Some_conv
      split: vptr.splits if_splits)
  then show ?thesis
    using assms False by (simp add: mem_read_def buf_read_def pdata_def drop_take add.commute)
qed

subsection \<open>Writing\<close>

text \<open>A write changes the bytes of one block and nothing else.\<close>

definition same_shape :: "heap \<Rightarrow> heap \<Rightarrow> bool" where
  "same_shape h h' = (pbufs h' = pbufs h \<and> nxt_addr h' = nxt_addr h \<and> malloc_ok h' = malloc_ok h
     \<and> junk h' = junk h \<and> base_addr h' = base_addr h \<and> ooseq_pending h' = ooseq_pending h
     \<and> (\<forall>b. map_option length (blocks h' b) = map_option length (blocks h b)))"

lemma same_shape_refl [simp]: "same_shape h h"
  by (simp add: same_shape_def)

lemma same_shape_trans [trans]: "same_shape h h' \<Longrightarrow> same_shape h' h'' \<Longrightarrow> same_shape h h''"
  by (simp add: same_shape_def)

lemma same_shape_pbufs: "same_shape h h' \<Longrightarrow> pbufs h' = pbufs h"
  by (simp add: same_shape_def)

lemma mem_read_defined_cong:
  assumes "\<And>b. map_option length (blocks h' b) = map_option length (blocks h b)"
  shows "mem_read h' v off n = None \<longleftrightarrow> mem_read h v off n = None"
proof (cases v)
  case (VPtr b d)
  then show ?thesis using assms [of b]
    by (cases "blocks h b"; cases "blocks h' b") (auto simp: mem_read_def buf_read_def)
qed (simp add: mem_read_def)

lemma same_shape_readable:
  assumes "same_shape h h'"
  shows "readable h' a = readable h a"
proof -
  have "\<forall>b. map_option length (blocks h' b) = map_option length (blocks h b)"
    using assms by (simp add: same_shape_def)
  then show ?thesis
    using assms mem_read_defined_cong [of h' h] by (simp add: readable_def same_shape_def split: option.split)
qed

lemma same_shape_pblock: "same_shape h h' \<Longrightarrow> pblock h' = pblock h"
  by (simp add: pblock_def same_shape_def fun_eq_iff)

lemma same_shape_length_pdata:
  assumes "same_shape h h'" "readable h a"
  shows "length (pdata h' a) = length (pdata h a)"
proof -
  obtain b where b: "pbufs h a = Some b" using assms(2) by (auto simp: readable_def split: option.splits)
  have "readable h' a" "pbufs h' a = Some b"
    using assms b by (simp_all add: same_shape_readable [OF assms(1)] same_shape_pbufs [OF assms(1)])
  then show ?thesis using length_pdata [of h' a b] length_pdata [of h a b] assms(2) b by simp
qed

lemma same_shape_lseg: "same_shape h h' \<Longrightarrow> lseg h' p as q = lseg h p as q"
  by (rule lseg_cong) (simp add: same_shape_pbufs)

lemma same_shape_length_content:
  assumes "same_shape h h'" "list_all (readable h) as"
  shows "length (content h' as) = length (content h as)"
  using assms(2) by (induction as) (simp_all add: same_shape_length_pdata [OF assms(1)])

lemma same_shape_totals:
  assumes "same_shape h h'" "list_all (readable h) as"
  shows "totals h' as = totals h as"
  using assms(2)
  by (induction as) (simp_all add: same_shape_pbufs [OF assms(1)] same_shape_length_content [OF assms(1)]
      same_shape_length_pdata [OF assms(1)] split: option.split)

lemma same_shape_packet: "same_shape h h' \<Longrightarrow> packet h p as \<Longrightarrow> packet h' p as"
  using same_shape_readable [of h h']
  by (simp add: packet_def same_shape_lseg same_shape_totals list_all_iff)

lemma same_shape_separate: "same_shape h h' \<Longrightarrow> separate h' as = separate h as"
  by (simp add: separate_def same_shape_pblock [of h h'])

lemma mem_write_pdata:
  assumes "readable h a" "pbufs h a = Some b" "off + length src \<le> unat (pb_len b)"
  obtains h' where "mem_write h (pb_payload b) off src = Some h'" "same_shape h h'"
    "pdata h' a = patch off src (pdata h a)"
    "\<And>c. pblock h c \<noteq> pblock h a \<Longrightarrow> pdata h' c = pdata h c"
proof (cases "src = []")
  case True
  then show thesis using that [of h] by (simp add: mem_write_def)
next
  case False
  then have "0 < length src" by simp
  then have "unat (pb_len b) \<noteq> 0" using assms(3) by linarith
  then obtain blk d bs where v: "pb_payload b = VPtr blk d" "blocks h blk = Some bs"
    "d + unat (pb_len b) \<le> length bs"
    using assms(1,2) by (auto simp: readable_def mem_read_def buf_read_def bind_eq_Some_conv
      split: vptr.splits if_splits)
  let ?h = "h\<lparr>blocks := (blocks h)(blk := Some (patch (d + off) src bs))\<rparr>"
  have len: "d + off + length src \<le> length bs" using v(3) assms(3) by linarith
  have wr: "mem_write h (pb_payload b) off src = Some ?h"
    using False v len by (simp add: mem_write_def buf_write_patch)
  have shape: "same_shape h ?h"
    using v len by (simp add: same_shape_def)
  have "take (unat (pb_len b)) (drop d (patch (d + off) src bs))
    = patch off src (take (unat (pb_len b)) (drop d bs))"
    by (rule take_drop_patch) (use len assms(3) v(3) in linarith)+
  then have data: "pdata ?h a = patch off src (pdata h a)"
    using v assms(2) len \<open>unat (pb_len b) \<noteq> 0\<close> by (simp add: pdata_def mem_read_def buf_read_def)
  have other: "pdata ?h c = pdata h c" if "pblock h c \<noteq> pblock h a" for c
  proof -
    have "pblock h a = blk" using v assms(2) by (simp add: pblock_def)
    then show ?thesis using that
      by (auto simp: pdata_def pblock_def mem_read_def split: option.splits vptr.splits)
  qed
  show thesis by (rule that [OF wr shape data other])
qed

lemma content_other:
  "(\<And>c. c \<in> set as \<Longrightarrow> pdata h' c = pdata h c) \<Longrightarrow> content h' as = content h as"
  unfolding content_def by (metis (no_types, lifting) map_cong)

subsection \<open>Parts of a packet\<close>

lemma packet_0 [simp]: "packet h 0 as \<longleftrightarrow> as = []"
  by (auto simp: packet_def)

lemma packet_nonzero:
  assumes "packet h p as" "p \<noteq> 0"
  obtains b bs where "as = p # bs" "pbufs h p = Some b" "packet h (pb_next b) bs" "readable h p"
    "length (pdata h p) = unat (pb_len b)"
    "unat (pb_tot_len b) = unat (pb_len b) + length (content h bs)"
proof -
  from assms obtain b bs where *: "as = p # bs" "pbufs h p = Some b" "chain h (pb_next b) bs"
    unfolding packet_def by (auto elim: chain_nonzero)
  have "packet h (pb_next b) bs" "readable h p"
    using assms(1) * by (simp_all add: packet_def)
  moreover from this have "length (pdata h p) = unat (pb_len b)"
    using *(2) by (intro length_pdata)
  moreover from this have "unat (pb_tot_len b) = unat (pb_len b) + length (content h bs)"
    using assms(1) * by (simp add: packet_def)
  ultimately show thesis using * by (intro that)
qed

lemma packet_Cons:
  assumes "packet h p (a # as)"
  obtains b where "p = a" "a \<noteq> 0" "pbufs h a = Some b" "packet h (pb_next b) as" "readable h a"
    "length (pdata h a) = unat (pb_len b)"
    "unat (pb_tot_len b) = unat (pb_len b) + length (content h as)"
proof -
  have "p \<noteq> 0" using assms by (auto simp: packet_def split: option.splits)
  from packet_nonzero [OF assms this] show thesis using that \<open>p \<noteq> 0\<close> by auto
qed

lemma content_bound:
  assumes "packet h p as"
  shows "length (content h as) < 65536"
proof (cases "p = 0")
  case False
  obtain b bs where "as = p # bs" "pbufs h p = Some b" "packet h (pb_next b) bs" "readable h p"
    "length (pdata h p) = unat (pb_len b)"
    "unat (pb_tot_len b) = unat (pb_len b) + length (content h bs)"
    by (rule packet_nonzero [OF assms False])
  then have "length (content h as) = unat (pb_tot_len b)"
    by (simp only: content_Cons length_append)
  then show ?thesis by simp
qed (use assms in simp)

end
