(* ===== verification/Lwip_Pbuf.thy ===== *)
theory Lwip_Pbuf
  imports Lwip_Heap
begin

text \<open>
  The packet buffers of \<^verbatim>\<open>core/c/core/pbuf.c\<close>: every function of the file that this configuration
  compiles, over the explicit memory of \<^verbatim>\<open>Lwip_Heap\<close>. The result \<^term>\<open>None\<close> is a NULL or dangling
  dereference, an access outside a block, a failed assertion, or an endless walk along a cyclic
  chain.
\<close>

section \<open>Allocation\<close>

definition pbuf_init_alloced_pbuf ::
  "heap \<Rightarrow> nat \<Rightarrow> vptr \<Rightarrow> u16 \<Rightarrow> u16 \<Rightarrow> pbuf_type \<Rightarrow> u8 \<Rightarrow> heap" where
  "pbuf_init_alloced_pbuf h p payload tot_len len type flags =
     put_pbuf h p \<lparr>pb_next = 0, pb_payload = payload, pb_tot_len = tot_len, pb_len = len,
       pb_type_internal = type_u8 type, pb_flags = flags, pb_ref = 1, pb_if_idx = 0,
       pb_custom = (case pbufs h p of Some b \<Rightarrow> pb_custom b | None \<Rightarrow> None)\<rparr>"

text \<open>
  \<^verbatim>\<open>pbuf_free\<close>: the loop over the chain, with the number of freed pbufs in a \<^verbatim>\<open>u8_t\<close>. The free
  function of a custom pbuf drops its reference to the original pbuf with \<^verbatim>\<open>pbuf_free\<close>.
\<close>

partial_function (option) pbuf_free_loop :: "heap \<Rightarrow> nat \<Rightarrow> u8 \<Rightarrow> (u8 \<times> heap) option" where
  "pbuf_free_loop h p count =
     (if p \<noteq> 0 then do {
        b \<leftarrow> pbufs h p;
        lwip_assert (pb_ref b > 0);
        let ref = pb_ref b - 1;
        let h = put_pbuf h p (b\<lparr>pb_ref := ref\<rparr>);
        if ref = 0 then do {
          let q = pb_next b;
          let alloc_src = pbuf_get_allocsrc b;
          h \<leftarrow> (if pb_flags b AND PBUF_FLAG_IS_CUSTOM \<noteq> 0 then do {
                  original \<leftarrow> pb_custom b;
                  h \<leftarrow> (if original \<noteq> 0 then do {
                          (c, h) \<leftarrow> pbuf_free_loop h original 0;
                          Some h }
                        else Some h);
                  Some (mem_free h p) }
                else do {
                  lwip_assert (alloc_src = 2 \<or> alloc_src = 1 \<or> alloc_src = 0);
                  Some (mem_free h p) });
          pbuf_free_loop h q (count + 1)
        } else Some (count, h)
      } else Some (count, h))"

definition pbuf_free :: "heap \<Rightarrow> nat \<Rightarrow> (u8 \<times> heap) option" where
  "pbuf_free h p = do { lwip_assert (p \<noteq> 0); pbuf_free_loop h p 0 }"

definition pbuf_alloc_reference :: "heap \<Rightarrow> vptr \<Rightarrow> u16 \<Rightarrow> pbuf_type \<Rightarrow> (nat \<times> heap) option" where
  "pbuf_alloc_reference h payload len type =
     do {
       lwip_assert (type = PBUF_REF \<or> type = PBUF_ROM);
       let (p, h) = mem_malloc h SIZEOF_STRUCT_PBUF;
       if p = 0 then Some (0, h)
       else Some (p, pbuf_init_alloced_pbuf h p payload len len type 0)
     }"

lemma pool_rest:
  assumes "unat (offset :: u16) < 1514"
  shows "unat (1514 - offset :: u16) = 1514 - unat offset"
    "unat (rem - min rem (1514 - offset)) = unat rem - (1514 - unat offset)"
    "unat (min rem (1514 - offset)) = min (unat rem) (1514 - unat offset)"
proof -
  show sub: "unat (1514 - offset :: u16) = 1514 - unat offset"
    using assms by (subst unat_sub_u16) (simp_all add: word_le_nat_alt)
  show m: "unat (min rem (1514 - offset)) = min (unat rem) (1514 - unat offset)"
    using sub by (auto simp: min_def word_le_nat_alt)
  show "unat (rem - min rem (1514 - offset)) = unat rem - (1514 - unat offset)"
  proof (subst unat_sub_u16)
    show "unat rem - unat (min rem (1514 - offset)) = unat rem - (1514 - unat offset)"
      unfolding m by simp
  qed (rule min.cobounded1)
qed

lemma pool_rest_less:
  assumes "unat (offset :: u16) < 1514" "0 < rem - min rem (1514 - offset)"
  shows "unat (rem - min rem (1514 - offset)) < unat rem"
  using assms(2) unfolding word_less_nat_alt pool_rest(2) [OF assms(1)]
  using assms(1) by simp

text \<open>The allocation of a chain of pool pbufs: \<^verbatim>\<open>p\<close> is its head and \<^verbatim>\<open>last\<close> its last pbuf.\<close>

function pbuf_alloc_pool ::
  "heap \<Rightarrow> nat \<Rightarrow> nat \<Rightarrow> u16 \<Rightarrow> u16 \<Rightarrow> (nat \<times> heap) option" where
  "pbuf_alloc_pool h p last_p rem_len offset =
     (let (q, h) = mem_malloc h (SIZEOF_STRUCT_PBUF + PBUF_POOL_BUFSIZE_ALIGNED) in
      if q = 0 then do {
        let h = h\<lparr>ooseq_pending := True\<rparr>;
        h \<leftarrow> (if p \<noteq> 0 then do { (c, h) \<leftarrow> pbuf_free h p; Some h } else Some h);
        Some (0, h)
      } else do {
        let qlen = min rem_len (of_nat PBUF_POOL_BUFSIZE_ALIGNED - offset);
        let h = pbuf_init_alloced_pbuf h q (VPtr q (SIZEOF_STRUCT_PBUF + unat offset)) rem_len qlen PBUF_POOL 0;
        lwip_assert (PBUF_POOL_BUFSIZE_ALIGNED > unat offset);
        h \<leftarrow> (if p = 0 then Some h
              else do { l \<leftarrow> pbufs h last_p; Some (put_pbuf h last_p (l\<lparr>pb_next := q\<rparr>)) });
        let p = (if p = 0 then q else p);
        let rem_len = rem_len - qlen;
        if rem_len > 0 then pbuf_alloc_pool h p q rem_len 0 else Some (p, h)
      })"
  by pat_completeness auto
termination
proof (relation "measure (\<lambda>(h, p, last_p, rem_len, offset). unat rem_len)")
qed (simp_all add: PBUF_POOL_BUFSIZE_ALIGNED_def pool_rest_less)

definition pbuf_alloc :: "heap \<Rightarrow> pbuf_layer \<Rightarrow> u16 \<Rightarrow> pbuf_type \<Rightarrow> (nat \<times> heap) option" where
  "pbuf_alloc h layer len type =
     (let offset = layer_offset layer in
      case type of
        PBUF_REF \<Rightarrow> pbuf_alloc_reference h VNull len type
      | PBUF_ROM \<Rightarrow> pbuf_alloc_reference h VNull len type
      | PBUF_POOL \<Rightarrow> pbuf_alloc_pool h 0 0 len offset
      | PBUF_RAM \<Rightarrow>
          (let payload_len = offset + len;
               alloc_len = SIZEOF_STRUCT_PBUF + unat payload_len
           in if payload_len < len \<or> alloc_len < unat len then Some (0, h)
              else let (p, h) = mem_malloc h alloc_len in
                if p = 0 then Some (0, h)
                else Some (p, pbuf_init_alloced_pbuf h p (VPtr p (SIZEOF_STRUCT_PBUF + unat offset)) len len type 0)))"

definition pbuf_alloced_custom ::
  "heap \<Rightarrow> pbuf_layer \<Rightarrow> u16 \<Rightarrow> pbuf_type \<Rightarrow> nat \<Rightarrow> vptr \<Rightarrow> u16 \<Rightarrow> nat \<times> heap" where
  "pbuf_alloced_custom h l len type p payload_mem payload_mem_len =
     (let offset = layer_offset l in
      if unat offset + unat len > unat payload_mem_len then (0, h)
      else let payload = (case payload_mem of VPtr b d \<Rightarrow> VPtr b (d + unat offset) | VNull \<Rightarrow> VNull)
        in (p, pbuf_init_alloced_pbuf h p payload len len type PBUF_FLAG_IS_CUSTOM))"

section \<open>Lengths and headers\<close>

text \<open>The walk of \<^verbatim>\<open>pbuf_realloc\<close> to the pbuf that becomes the last one.\<close>

partial_function (option) realloc_walk :: "heap \<Rightarrow> nat \<Rightarrow> u16 \<Rightarrow> u16 \<Rightarrow> (nat \<times> u16 \<times> heap) option" where
  "realloc_walk h q rem_len shrink =
     do {
       b \<leftarrow> pbufs h q;
       if rem_len > pb_len b then do {
         let rem_len = rem_len - pb_len b;
         let h = put_pbuf h q (b\<lparr>pb_tot_len := pb_tot_len b - shrink\<rparr>);
         let q = pb_next b;
         lwip_assert (q \<noteq> 0);
         realloc_walk h q rem_len shrink
       } else Some (q, rem_len, h)
     }"

definition pbuf_realloc :: "heap \<Rightarrow> nat \<Rightarrow> u16 \<Rightarrow> heap option" where
  "pbuf_realloc h p new_len =
     do {
       lwip_assert (p \<noteq> 0);
       b \<leftarrow> pbufs h p;
       if new_len \<ge> pb_tot_len b then Some h
       else do {
         let shrink = pb_tot_len b - new_len;
         (q, rem_len, h) \<leftarrow> realloc_walk h p new_len shrink;
         b \<leftarrow> pbufs h q;
         let q = (if pbuf_match_allocsrc b 0 \<and> rem_len \<noteq> pb_len b \<and> pb_flags b AND PBUF_FLAG_IS_CUSTOM = 0
           then mem_trim q (case pb_payload b of VPtr _ d \<Rightarrow> d + unat rem_len | VNull \<Rightarrow> 0) else q);
         lwip_assert (q \<noteq> 0);
         let h = put_pbuf h q (b\<lparr>pb_len := rem_len, pb_tot_len := rem_len\<rparr>);
         h \<leftarrow> (if pb_next b \<noteq> 0 then do { (c, h) \<leftarrow> pbuf_free h (pb_next b); Some h } else Some h);
         b \<leftarrow> pbufs h q;
         Some (put_pbuf h q (b\<lparr>pb_next := 0\<rparr>))
       }
     }"

text \<open>
  The payload pointer of a pbuf whose data follow the struct may move down to the end of the
  struct; the comparison of the code is defined for pointers into the same allocation only.
\<close>

definition pbuf_add_header_impl :: "heap \<Rightarrow> nat \<Rightarrow> nat \<Rightarrow> bool \<Rightarrow> (u8 \<times> heap) option" where
  "pbuf_add_header_impl h p header_size_increment force =
     do {
       lwip_assert (p \<noteq> 0);
       if header_size_increment > 0xFFFF then Some (1, h)
       else if header_size_increment = 0 then Some (0, h)
       else do {
         b \<leftarrow> pbufs h p;
         let increment_magnitude = (of_nat header_size_increment :: u16);
         if increment_magnitude + pb_tot_len b < increment_magnitude then Some (1, h)
         else do {
           payload \<leftarrow>
             (if pb_type_internal b AND PBUF_TYPE_FLAG_STRUCT_DATA_CONTIGUOUS \<noteq> 0 then
                (case pb_payload b of VNull \<Rightarrow> None
                 | VPtr blk d \<Rightarrow>
                     if blk \<noteq> p then None
                     else if d < SIZEOF_STRUCT_PBUF + header_size_increment then Some None
                     else Some (Some (VPtr blk (d - header_size_increment))))
              else if force then
                (case pb_payload b of VNull \<Rightarrow> None
                 | VPtr blk d \<Rightarrow>
                     if d < header_size_increment then None
                     else Some (Some (VPtr blk (d - header_size_increment))))
              else Some None);
           (case payload of None \<Rightarrow> Some (1, h)
            | Some payload \<Rightarrow>
                Some (0, put_pbuf h p (b\<lparr>pb_payload := payload,
                  pb_len := pb_len b + increment_magnitude,
                  pb_tot_len := pb_tot_len b + increment_magnitude\<rparr>)))
         }
       }
     }"

definition pbuf_add_header :: "heap \<Rightarrow> nat \<Rightarrow> nat \<Rightarrow> (u8 \<times> heap) option" where
  "pbuf_add_header h p n = pbuf_add_header_impl h p n False"

definition pbuf_add_header_force :: "heap \<Rightarrow> nat \<Rightarrow> nat \<Rightarrow> (u8 \<times> heap) option" where
  "pbuf_add_header_force h p n = pbuf_add_header_impl h p n True"

definition pbuf_remove_header :: "heap \<Rightarrow> nat \<Rightarrow> nat \<Rightarrow> (u8 \<times> heap) option" where
  "pbuf_remove_header h p header_size_decrement =
     do {
       lwip_assert (p \<noteq> 0);
       if header_size_decrement > 0xFFFF then Some (1, h)
       else if header_size_decrement = 0 then Some (0, h)
       else do {
         b \<leftarrow> pbufs h p;
         let increment_magnitude = (of_nat header_size_decrement :: u16);
         lwip_assert (increment_magnitude \<le> pb_len b);
         payload \<leftarrow> (case pb_payload b of VNull \<Rightarrow> None
           | VPtr blk d \<Rightarrow> Some (VPtr blk (d + header_size_decrement)));
         Some (0, put_pbuf h p (b\<lparr>pb_payload := payload,
           pb_len := pb_len b - increment_magnitude,
           pb_tot_len := pb_tot_len b - increment_magnitude\<rparr>))
       }
     }"

definition pbuf_header_impl :: "heap \<Rightarrow> nat \<Rightarrow> u16 \<Rightarrow> bool \<Rightarrow> (u8 \<times> heap) option" where
  "pbuf_header_impl h p header_size_increment force =
     (if sint header_size_increment < 0
      then pbuf_remove_header h p (nat (- sint header_size_increment))
      else pbuf_add_header_impl h p (nat (sint header_size_increment)) force)"

definition pbuf_header :: "heap \<Rightarrow> nat \<Rightarrow> u16 \<Rightarrow> (u8 \<times> heap) option" where
  "pbuf_header h p n = pbuf_header_impl h p n False"

definition pbuf_header_force :: "heap \<Rightarrow> nat \<Rightarrow> u16 \<Rightarrow> (u8 \<times> heap) option" where
  "pbuf_header_force h p n = pbuf_header_impl h p n True"

partial_function (option) free_header_loop :: "heap \<Rightarrow> nat \<Rightarrow> u16 \<Rightarrow> (nat \<times> heap) option" where
  "free_header_loop h p free_left =
     (if free_left \<noteq> 0 \<and> p \<noteq> 0 then do {
        b \<leftarrow> pbufs h p;
        if free_left \<ge> pb_len b then do {
          let h = put_pbuf h p (b\<lparr>pb_next := 0\<rparr>);
          (c, h) \<leftarrow> pbuf_free h p;
          free_header_loop h (pb_next b) (free_left - pb_len b)
        } else do {
          (r, h) \<leftarrow> pbuf_remove_header h p (unat free_left);
          free_header_loop h p 0
        }
      } else Some (p, h))"

definition pbuf_free_header :: "heap \<Rightarrow> nat \<Rightarrow> u16 \<Rightarrow> (nat \<times> heap) option" where
  "pbuf_free_header h q n = free_header_loop h q n"

section \<open>Chains\<close>

partial_function (option) clen_loop :: "heap \<Rightarrow> nat \<Rightarrow> u16 \<Rightarrow> u16 option" where
  "clen_loop h p len =
     (if p \<noteq> 0 then do { b \<leftarrow> pbufs h p; clen_loop h (pb_next b) (len + 1) } else Some len)"

definition pbuf_clen :: "heap \<Rightarrow> nat \<Rightarrow> u16 option" where
  "pbuf_clen h p = clen_loop h p 0"

definition pbuf_ref :: "heap \<Rightarrow> nat \<Rightarrow> heap option" where
  "pbuf_ref h p =
     (if p \<noteq> 0 then do {
        b \<leftarrow> pbufs h p;
        let r = pb_ref b + 1;
        lwip_assert (r > 0);
        Some (put_pbuf h p (b\<lparr>pb_ref := r\<rparr>))
      } else Some h)"

partial_function (option) cat_walk :: "heap \<Rightarrow> nat \<Rightarrow> nat \<Rightarrow> (nat \<times> heap) option" where
  "cat_walk h p t =
     do {
       b \<leftarrow> pbufs h p;
       if pb_next b \<noteq> 0 then do {
         tb \<leftarrow> pbufs h t;
         cat_walk (put_pbuf h p (b\<lparr>pb_tot_len := pb_tot_len b + pb_tot_len tb\<rparr>)) (pb_next b) t
       } else Some (p, h)
     }"

definition pbuf_cat :: "heap \<Rightarrow> nat \<Rightarrow> nat \<Rightarrow> heap option" where
  "pbuf_cat h hd_p t =
     do {
       lwip_assert (hd_p \<noteq> 0 \<and> t \<noteq> 0);
       (p, h) \<leftarrow> cat_walk h hd_p t;
       b \<leftarrow> pbufs h p;
       lwip_assert (pb_tot_len b = pb_len b);
       lwip_assert (pb_next b = 0);
       tb \<leftarrow> pbufs h t;
       Some (put_pbuf h p (b\<lparr>pb_tot_len := pb_tot_len b + pb_tot_len tb, pb_next := t\<rparr>))
     }"

definition pbuf_chain :: "heap \<Rightarrow> nat \<Rightarrow> nat \<Rightarrow> heap option" where
  "pbuf_chain h hd_p t = do { h \<leftarrow> pbuf_cat h hd_p t; pbuf_ref h t }"

definition pbuf_dechain :: "heap \<Rightarrow> nat \<Rightarrow> (nat \<times> heap) option" where
  "pbuf_dechain h p =
     do {
       b \<leftarrow> pbufs h p;
       let q = pb_next b;
       (tail_gone, h) \<leftarrow>
         (if q \<noteq> 0 then do {
            qb \<leftarrow> pbufs h q;
            lwip_assert (unat (pb_tot_len qb) + unat (pb_len b) = unat (pb_tot_len b));
            let h = put_pbuf h q (qb\<lparr>pb_tot_len := pb_tot_len b - pb_len b\<rparr>);
            b \<leftarrow> pbufs h p;
            let h = put_pbuf h p (b\<lparr>pb_next := 0, pb_tot_len := pb_len b\<rparr>);
            pbuf_free h q
          } else Some (1, h));
       b \<leftarrow> pbufs h p;
       lwip_assert (pb_tot_len b = pb_len b);
       Some (if tail_gone > 0 then 0 else q, h)
     }"

end
