(* ===== verification/Lwip_Pbuf_Data.thy ===== *)
theory Lwip_Pbuf_Data
  imports Lwip_Pbuf
begin

text \<open>
  The functions of \<^verbatim>\<open>core/c/core/pbuf.c\<close> that read, write, compare and copy the data of a chain.
  A caller's buffer (\<^verbatim>\<open>dataptr\<close>) is a list of bytes of its own, apart from the heap.
\<close>

section \<open>Copying between chains and buffers\<close>

text \<open>
  \<^verbatim>\<open>pbuf_copy\<close>: \<^verbatim>\<open>LWIP_ERROR\<close> aborts, so the only result is \<^verbatim>\<open>ERR_OK\<close>.
\<close>

definition copy_len :: "pbuf \<Rightarrow> pbuf \<Rightarrow> nat \<Rightarrow> nat \<Rightarrow> nat" where
  "copy_len t f offset_to offset_from =
     (if unat (pb_len t) - offset_to \<ge> unat (pb_len f) - offset_from
      then unat (pb_len f) - offset_from else unat (pb_len t) - offset_to)"

text \<open>A queue of packets is refused: the last pbuf of a packet must be the last of the chain.\<close>

definition not_queue :: "heap \<Rightarrow> nat \<Rightarrow> unit option" where
  "not_queue h p =
     (if p \<noteq> 0 then do { b \<leftarrow> pbufs h p; lwip_assert (pb_len b = pb_tot_len b \<longrightarrow> pb_next b = 0) }
      else Some ())"

definition copy_advance ::
  "heap \<Rightarrow> pbuf \<Rightarrow> pbuf \<Rightarrow> nat \<Rightarrow> nat \<Rightarrow> nat \<Rightarrow> nat \<Rightarrow> (nat \<times> nat \<times> nat \<times> nat) option" where
  "copy_advance h t f p_to p_from offset_to offset_from =
     do {
       lwip_assert (offset_to \<le> unat (pb_len t));
       lwip_assert (offset_from \<le> unat (pb_len f));
       let (offset_from, p_from) =
         (if offset_from \<ge> unat (pb_len f) then (0, pb_next f) else (offset_from, p_from));
       (offset_to, p_to) \<leftarrow>
         (if offset_to = unat (pb_len t) then do {
            lwip_assert (pb_next t \<noteq> 0 \<or> p_from = 0);
            Some (0, pb_next t)
          } else Some (offset_to, p_to));
       not_queue h p_from;
       not_queue h p_to;
       Some (p_to, p_from, offset_to, offset_from)
     }"

partial_function (option) pbuf_copy_loop ::
  "heap \<Rightarrow> nat \<Rightarrow> nat \<Rightarrow> nat \<Rightarrow> nat \<Rightarrow> (err_t \<times> heap) option" where
  "pbuf_copy_loop h p_to p_from offset_to offset_from =
     do {
       t \<leftarrow> pbufs h p_to;
       f \<leftarrow> pbufs h p_from;
       let len = copy_len t f offset_to offset_from;
       src \<leftarrow> mem_read h (pb_payload f) offset_from len;
       h \<leftarrow> mem_write h (pb_payload t) offset_to src;
       (p_to, p_from, offset_to, offset_from) \<leftarrow>
         copy_advance h t f p_to p_from (offset_to + len) (offset_from + len);
       if p_from \<noteq> 0 then pbuf_copy_loop h p_to p_from offset_to offset_from
       else Some (ERR_OK, h)
     }"

definition pbuf_copy :: "heap \<Rightarrow> nat \<Rightarrow> nat \<Rightarrow> (err_t \<times> heap) option" where
  "pbuf_copy h p_to p_from =
     do {
       lwip_assert (p_to \<noteq> 0 \<and> p_from \<noteq> 0);
       t \<leftarrow> pbufs h p_to;
       f \<leftarrow> pbufs h p_from;
       lwip_assert (pb_tot_len t \<ge> pb_tot_len f);
       pbuf_copy_loop h p_to p_from 0 0
     }"

partial_function (option) copy_partial_loop ::
  "heap \<Rightarrow> nat \<Rightarrow> u8 list \<Rightarrow> u16 \<Rightarrow> u16 \<Rightarrow> u16 \<Rightarrow> u16 \<Rightarrow> (u16 \<times> u8 list) option" where
  "copy_partial_loop h p dataptr left_n len offset copied_total =
     (if len \<noteq> 0 \<and> p \<noteq> 0 then do {
        b \<leftarrow> pbufs h p;
        if offset \<noteq> 0 \<and> offset \<ge> pb_len b then
          copy_partial_loop h (pb_next b) dataptr left_n len (offset - pb_len b) copied_total
        else do {
          let buf_copy_len = pb_len b - offset;
          let buf_copy_len = (if buf_copy_len > len then len else buf_copy_len);
          src \<leftarrow> mem_read h (pb_payload b) (unat offset) (unat buf_copy_len);
          dataptr \<leftarrow> buf_write dataptr (unat left_n) src;
          copy_partial_loop h (pb_next b) dataptr (left_n + buf_copy_len) (len - buf_copy_len) 0
            (copied_total + buf_copy_len)
        }
      } else Some (copied_total, dataptr))"

definition pbuf_copy_partial ::
  "heap \<Rightarrow> nat \<Rightarrow> u8 list \<Rightarrow> u16 \<Rightarrow> u16 \<Rightarrow> (u16 \<times> u8 list) option" where
  "pbuf_copy_partial h buf dataptr len offset =
     do { lwip_assert (buf \<noteq> 0); copy_partial_loop h buf dataptr 0 len offset 0 }"

partial_function (option) pbuf_skip_const :: "heap \<Rightarrow> nat \<Rightarrow> u16 \<Rightarrow> (nat \<times> u16) option" where
  "pbuf_skip_const h q offset_left =
     (if q \<noteq> 0 then do {
        b \<leftarrow> pbufs h q;
        if pb_len b \<le> offset_left then pbuf_skip_const h (pb_next b) (offset_left - pb_len b)
        else Some (q, offset_left)
      } else Some (q, offset_left))"

definition pbuf_skip :: "heap \<Rightarrow> nat \<Rightarrow> u16 \<Rightarrow> (nat \<times> u16) option" where
  "pbuf_skip h p in_offset = pbuf_skip_const h p in_offset"

text \<open>The pointer \<^verbatim>\<open>pbuf_get_contiguous\<close> returns: NULL, into a pbuf, or the caller's buffer.\<close>

datatype contiguous = CNull | CPbuf vptr | CBuffer

definition pbuf_get_contiguous ::
  "heap \<Rightarrow> nat \<Rightarrow> u8 list \<Rightarrow> nat \<Rightarrow> u16 \<Rightarrow> u16 \<Rightarrow> (contiguous \<times> u8 list) option" where
  "pbuf_get_contiguous h p buffer bufsize len offset =
     do {
       lwip_assert (p \<noteq> 0);
       lwip_assert (bufsize \<ge> unat len);
       (q, out_offset) \<leftarrow> pbuf_skip_const h p offset;
       if q \<noteq> 0 then do {
         b \<leftarrow> pbufs h q;
         if unat (pb_len b) \<ge> unat out_offset + unat len then
           (case pb_payload b of VNull \<Rightarrow> None
            | VPtr blk d \<Rightarrow> Some (CPbuf (VPtr blk (d + unat out_offset)), buffer))
         else do {
           (n, buffer) \<leftarrow> pbuf_copy_partial h q buffer len out_offset;
           Some (if n \<noteq> len then CNull else CBuffer, buffer)
         }
       } else Some (CNull, buffer)
     }"

partial_function (option) take_loop ::
  "heap \<Rightarrow> nat \<Rightarrow> u8 list \<Rightarrow> nat \<Rightarrow> nat \<Rightarrow> (nat \<times> nat \<times> heap) option" where
  "take_loop h p dataptr total_copy_len copied_total =
     (if total_copy_len \<noteq> 0 then do {
        lwip_assert (p \<noteq> 0);
        b \<leftarrow> pbufs h p;
        let buf_copy_len = (if total_copy_len > unat (pb_len b) then unat (pb_len b) else total_copy_len);
        src \<leftarrow> buf_read dataptr copied_total buf_copy_len;
        h \<leftarrow> mem_write h (pb_payload b) 0 src;
        take_loop h (pb_next b) dataptr (total_copy_len - buf_copy_len) (copied_total + buf_copy_len)
      } else Some (total_copy_len, copied_total, h))"

definition pbuf_take :: "heap \<Rightarrow> nat \<Rightarrow> u8 list \<Rightarrow> u16 \<Rightarrow> (err_t \<times> heap) option" where
  "pbuf_take h buf dataptr len =
     do {
       lwip_assert (buf \<noteq> 0);
       b \<leftarrow> pbufs h buf;
       lwip_assert (pb_tot_len b \<ge> len);
       (total_copy_len, copied_total, h) \<leftarrow> take_loop h buf dataptr (unat len) 0;
       lwip_assert (total_copy_len = 0 \<and> copied_total = unat len);
       Some (ERR_OK, h)
     }"

definition pbuf_take_at :: "heap \<Rightarrow> nat \<Rightarrow> u8 list \<Rightarrow> u16 \<Rightarrow> u16 \<Rightarrow> (err_t \<times> heap) option" where
  "pbuf_take_at h buf dataptr len offset =
     do {
       (q, target_offset) \<leftarrow> pbuf_skip h buf offset;
       if q = 0 then Some (ERR_MEM, h)
       else do {
         b \<leftarrow> pbufs h q;
         if unat (pb_tot_len b) \<ge> unat target_offset + unat len then do {
           lwip_assert (target_offset < pb_len b);
           let first_copy_len = min (pb_len b - target_offset) len;
           src \<leftarrow> buf_read dataptr 0 (unat first_copy_len);
           h \<leftarrow> mem_write h (pb_payload b) (unat target_offset) src;
           let remaining_len = len - first_copy_len;
           if remaining_len > 0 then pbuf_take h (pb_next b) (drop (unat first_copy_len) dataptr) remaining_len
           else Some (ERR_OK, h)
         } else Some (ERR_MEM, h)
       }
     }"

section \<open>Cloning\<close>

definition pbuf_clone :: "heap \<Rightarrow> pbuf_layer \<Rightarrow> pbuf_type \<Rightarrow> nat \<Rightarrow> (nat \<times> heap) option" where
  "pbuf_clone h layer type p =
     do {
       b \<leftarrow> pbufs h p;
       (q, h) \<leftarrow> pbuf_alloc h layer (pb_tot_len b) type;
       if q = 0 then Some (0, h)
       else do {
         (err, h) \<leftarrow> pbuf_copy h q p;
         lwip_assert (err = ERR_OK);
         Some (q, h)
       }
     }"

definition pbuf_coalesce :: "heap \<Rightarrow> nat \<Rightarrow> pbuf_layer \<Rightarrow> (nat \<times> heap) option" where
  "pbuf_coalesce h p layer =
     do {
       b \<leftarrow> pbufs h p;
       if pb_next b = 0 then Some (p, h)
       else do {
         (q, h) \<leftarrow> pbuf_clone h layer PBUF_RAM p;
         if q = 0 then Some (p, h)
         else do { (c, h) \<leftarrow> pbuf_free h p; Some (q, h) }
       }
     }"

section \<open>Checksums\<close>

text \<open>\<^verbatim>\<open>LWIP_CHKSUM_COPY\<close> is \<^verbatim>\<open>lwip_chksum_copy\<close>: copy, then sum the copy.\<close>

definition pbuf_fill_chksum ::
  "heap \<Rightarrow> nat \<Rightarrow> u16 \<Rightarrow> u8 list \<Rightarrow> u16 \<Rightarrow> u16 \<Rightarrow> (err_t \<times> u16 \<times> heap) option" where
  "pbuf_fill_chksum h p start_offset dataptr len chksum =
     do {
       lwip_assert (p \<noteq> 0);
       lwip_assert (len \<noteq> 0);
       b \<leftarrow> pbufs h p;
       if start_offset \<ge> pb_len b \<or> unat start_offset + unat len > unat (pb_len b)
       then Some (ERR_ARG, chksum, h)
       else do {
         src \<leftarrow> buf_read dataptr 0 (unat len);
         h \<leftarrow> mem_write h (pb_payload b) (unat start_offset) src;
         dst \<leftarrow> mem_read h (pb_payload b) (unat start_offset) (unat len);
         let copy_chksum = lwip_standard_chksum_2 (vptr_address h (pb_payload b) + unat start_offset) dst;
         let copy_chksum = (if start_offset AND 1 \<noteq> 0
           then ucast (SWAP_BYTES_IN_WORD (ucast copy_chksum)) else copy_chksum);
         let acc = ucast chksum;
         let acc = acc + ucast copy_chksum;
         Some (ERR_OK, ucast (FOLD_U32T acc), h)
       }
     }"

section \<open>Single bytes, comparison and search\<close>

definition pbuf_try_get_at :: "heap \<Rightarrow> nat \<Rightarrow> u16 \<Rightarrow> int option" where
  "pbuf_try_get_at h p offset =
     do {
       (q, q_idx) \<leftarrow> pbuf_skip_const h p offset;
       if q = 0 then Some (- 1)
       else do {
         b \<leftarrow> pbufs h q;
         if pb_len b > q_idx then do {
           bs \<leftarrow> mem_read h (pb_payload b) (unat q_idx) 1;
           Some (uint (hd bs))
         } else Some (- 1)
       }
     }"

definition pbuf_get_at :: "heap \<Rightarrow> nat \<Rightarrow> u16 \<Rightarrow> u8 option" where
  "pbuf_get_at h p offset =
     do {
       ret \<leftarrow> pbuf_try_get_at h p offset;
       Some (if ret \<ge> 0 then word_of_int ret else 0)
     }"

definition pbuf_put_at :: "heap \<Rightarrow> nat \<Rightarrow> u16 \<Rightarrow> u8 \<Rightarrow> heap option" where
  "pbuf_put_at h p offset data =
     do {
       (q, q_idx) \<leftarrow> pbuf_skip h p offset;
       if q = 0 then Some h
       else do {
         b \<leftarrow> pbufs h q;
         if pb_len b > q_idx then mem_write h (pb_payload b) (unat q_idx) [data] else Some h
       }
     }"

text \<open>The comparison loop of \<^verbatim>\<open>pbuf_memcmp\<close>; the sum \<^verbatim>\<open>start + i\<close> is cut to 16 bits.\<close>

function memcmp_loop :: "heap \<Rightarrow> nat \<Rightarrow> u16 \<Rightarrow> u8 list \<Rightarrow> nat \<Rightarrow> nat \<Rightarrow> u16 option" where
  "memcmp_loop h q start s2 n i =
     (if i < n then do {
        a \<leftarrow> pbuf_get_at h q (start + of_nat i);
        b \<leftarrow> buf_read s2 i 1;
        if a \<noteq> hd b then Some (of_nat (min (i + 1) 0xFFFF))
        else memcmp_loop h q start s2 n (i + 1)
      } else Some 0)"
  by pat_completeness auto
termination
  by (relation "measure (\<lambda>(h, q, start, s2, n, i). n - i)") auto

declare memcmp_loop.simps [simp del]

definition pbuf_memcmp :: "heap \<Rightarrow> nat \<Rightarrow> u16 \<Rightarrow> u8 list \<Rightarrow> u16 \<Rightarrow> u16 option" where
  "pbuf_memcmp h p offset s2 n =
     do {
       b \<leftarrow> pbufs h p;
       if unat (pb_tot_len b) < unat offset + unat n then Some 0xffff
       else do {
         (q, start) \<leftarrow> pbuf_skip_const h p offset;
         memcmp_loop h q start s2 (unat n) 0
       }
     }"

text \<open>The search loop counts in a \<^verbatim>\<open>u16_t\<close>.\<close>

partial_function (option) memfind_loop ::
  "heap \<Rightarrow> nat \<Rightarrow> u8 list \<Rightarrow> u16 \<Rightarrow> u16 \<Rightarrow> u16 \<Rightarrow> u16 option" where
  "memfind_loop h p mem mem_len max_cmp_start i =
     (if i \<le> max_cmp_start then do {
        plus \<leftarrow> pbuf_memcmp h p i mem mem_len;
        if plus = 0 then Some i
        else memfind_loop h p mem mem_len max_cmp_start (i + 1)
      } else Some 0xFFFF)"

definition pbuf_memfind :: "heap \<Rightarrow> nat \<Rightarrow> u8 list \<Rightarrow> u16 \<Rightarrow> u16 \<Rightarrow> u16 option" where
  "pbuf_memfind h p mem mem_len start_offset =
     do {
       b \<leftarrow> pbufs h p;
       let max_cmp_start = pb_tot_len b - mem_len;
       if unat (pb_tot_len b) \<ge> unat mem_len + unat start_offset
       then memfind_loop h p mem mem_len max_cmp_start start_offset
       else Some 0xFFFF
     }"

text \<open>\<^verbatim>\<open>substr\<close> is a C string; \<^term>\<open>None\<close> as argument is NULL.\<close>

definition pbuf_strstr :: "heap \<Rightarrow> nat \<Rightarrow> u8 list option \<Rightarrow> u16 option" where
  "pbuf_strstr h p substr =
     (case substr of None \<Rightarrow> Some 0xFFFF
      | Some s \<Rightarrow>
          if chr0 s = 0 then Some 0xFFFF
          else do {
            b \<leftarrow> pbufs h p;
            if pb_tot_len b = 0xFFFF then Some 0xFFFF
            else if length s \<ge> 0xFFFF then Some 0xFFFF
            else pbuf_memfind h p s (of_nat (length s)) 0
          })"

section \<open>Lemmas: skipping and copying out\<close>

lemma skip_short:
  assumes "packet h p as" "length (content h as) \<le> unat off"
  shows "pbuf_skip_const h p off = Some (0, off - of_nat (length (content h as)))"
  using assms
proof (induction as arbitrary: p off)
  case Nil
  then have "p = 0" by (simp add: packet_def)
  then show ?case by (simp add: pbuf_skip_const.simps)
next
  case (Cons a as)
  obtain b where b: "p = a" "a \<noteq> 0" "pbufs h a = Some b" "packet h (pb_next b) as" "readable h a"
    "length (pdata h a) = unat (pb_len b)"
    "unat (pb_tot_len b) = unat (pb_len b) + length (content h as)"
    by (rule packet_Cons [OF Cons.prems(1)])
  have le: "pb_len b \<le> off" using Cons.prems(2) b(6) by (simp add: word_le_nat_alt)
  then have "unat (off - pb_len b) = unat off - unat (pb_len b)" by (rule unat_sub_u16)
  then have "length (content h as) \<le> unat (off - pb_len b)" using Cons.prems(2) b(6) by simp
  from Cons.IH [OF b(4) this] show ?case
    using b le by (simp add: pbuf_skip_const.simps [of h a] b(6) diff_diff_eq)
qed

lemma skip_found:
  assumes "packet h p as" "unat off < length (content h as)"
  obtains xs q ys off' b where "pbuf_skip_const h p off = Some (q, off')" "as = xs @ q # ys" "q \<noteq> 0"
    "unat off = length (content h xs) + unat off'" "pbufs h q = Some b" "off' < pb_len b"
    "readable h q" "length (pdata h q) = unat (pb_len b)" "packet h (pb_next b) ys"
    "unat (pb_tot_len b) = unat (pb_len b) + length (content h ys)"
  using assms
proof (induction as arbitrary: p off thesis)
  case (Cons a as)
  obtain b where b: "p = a" "a \<noteq> 0" "pbufs h a = Some b" "packet h (pb_next b) as" "readable h a"
    "length (pdata h a) = unat (pb_len b)"
    "unat (pb_tot_len b) = unat (pb_len b) + length (content h as)"
    by (rule packet_Cons [OF Cons.prems(2)])
  show ?case
  proof (cases "pb_len b \<le> off")
    case True
    then have sub: "unat (off - pb_len b) = unat off - unat (pb_len b)" by (rule unat_sub_u16)
    have le: "unat (pb_len b) \<le> unat off" using True by (simp add: word_le_nat_alt)
    then have "unat (off - pb_len b) < length (content h as)"
      using Cons.prems(3) b(6) sub by simp
    from Cons.IH [OF _ b(4) this] obtain xs q ys off' b' where
      "pbuf_skip_const h (pb_next b) (off - pb_len b) = Some (q, off')" "as = xs @ q # ys" "q \<noteq> 0"
      "unat (off - pb_len b) = length (content h xs) + unat off'" "pbufs h q = Some b'"
      "off' < pb_len b'" "readable h q" "length (pdata h q) = unat (pb_len b')" "packet h (pb_next b') ys"
      "unat (pb_tot_len b') = unat (pb_len b') + length (content h ys)"
      by this
    then show ?thesis
      using b True le sub by (intro Cons.prems(1) [of q off' "a # xs" ys b'])
        (simp_all add: pbuf_skip_const.simps [of h a])
  next
    case False
    then show ?thesis
      using b by (intro Cons.prems(1) [of a off "[]" as b]) (simp_all add: pbuf_skip_const.simps [of h a])
  qed
qed simp

lemma copy_partial_loop:
  assumes "packet h p as" "unat left_n + length src < 65536"
    and "src = take (unat len) (drop (unat off) (content h as))"
    and "unat left_n + length src \<le> length buf"
  shows "copy_partial_loop h p buf left_n len off copied
    = Some (copied + of_nat (length src), patch (unat left_n) src buf)"
  using assms
proof (induction as arbitrary: p left_n len off copied buf src)
  case Nil
  then have "p = 0" by (simp add: packet_def)
  with Nil show ?case by (simp add: copy_partial_loop.simps)
next
  case (Cons a as)
  obtain b where b: "p = a" "a \<noteq> 0" "pbufs h a = Some b" "packet h (pb_next b) as" "readable h a"
    "length (pdata h a) = unat (pb_len b)"
    "unat (pb_tot_len b) = unat (pb_len b) + length (content h as)"
    by (rule packet_Cons [OF Cons.prems(1)])
  show ?case
  proof (cases "len = 0")
    case True
    then show ?thesis using Cons.prems(3) by (simp add: copy_partial_loop.simps)
  next
    case len: False
    show ?thesis
    proof (cases "off \<noteq> 0 \<and> off \<ge> pb_len b")
      case True
      then have sub: "unat (off - pb_len b) = unat off - unat (pb_len b)" "unat (pb_len b) \<le> unat off"
        by (simp_all add: unat_sub_u16 word_le_nat_alt)
      then have "src = take (unat len) (drop (unat (off - pb_len b)) (content h as))"
        using Cons.prems(3) b(6) by simp
      from Cons.IH [OF b(4) Cons.prems(2) this Cons.prems(4)] show ?thesis
        using b len True by (simp add: copy_partial_loop.simps [of h a])
    next
      case False
      then have le: "off \<le> pb_len b" "unat off \<le> unat (pb_len b)"
        by (auto simp: word_le_nat_alt)
      define n where "n = (if pb_len b - off > len then len else pb_len b - off)"
      have n: "unat n = min (unat len) (unat (pb_len b) - unat off)"
        using unat_sub_u16 [OF le(1)] by (auto simp: n_def word_less_nat_alt)
      define src1 where "src1 = take (unat n) (drop (unat off) (pdata h a))"
      define src2 where "src2 = take (unat (len - n)) (content h as)"
      have len_n: "unat (len - n) = unat len - unat n"
        by (rule unat_sub_u16) (simp add: word_le_nat_alt n)
      have l1: "length src1 = unat n" using n b(6) by (simp add: src1_def)
      have src: "src = src1 @ src2"
      proof (cases "unat len \<le> unat (pb_len b) - unat off")
        case True
        then have "n = len" using n by (simp add: word_unat_eq_iff)
        then show ?thesis using True Cons.prems(3) b(6) by (simp add: src1_def src2_def)
      next
        case False
        then have "unat n = unat (pb_len b) - unat off" using n by simp
        then show ?thesis using False Cons.prems(3) b(6) le len_n by (simp add: src1_def src2_def)
      qed
      have read: "mem_read h (pb_payload b) (unat off) (unat n) = Some src1"
        unfolding src1_def by (rule mem_read_pdata [OF b(5,3)]) (use n le in simp)
      have room: "unat left_n + length src1 \<le> length buf"
        using Cons.prems(4) by (simp add: src)
      have left: "unat (left_n + n) = unat left_n + unat n"
        by (rule unat_add_u16_small) (use Cons.prems(2) src l1 in simp)
      have IH: "copy_partial_loop h (pb_next b) (patch (unat left_n) src1 buf) (left_n + n) (len - n) 0 (copied + n)
        = Some (copied + n + of_nat (length src2), patch (unat (left_n + n)) src2 (patch (unat left_n) src1 buf))"
        by (rule Cons.IH [OF b(4)]) (use Cons.prems(2,4) room left l1 in \<open>simp_all add: src src2_def\<close>)
      have step: "copy_partial_loop h p buf left_n len off copied =
        copy_partial_loop h (pb_next b) (patch (unat left_n) src1 buf) (left_n + n) (len - n) 0 (copied + n)"
        using b len False read room
        by (subst copy_partial_loop.simps) (auto simp: Let_def n_def [symmetric] buf_write_patch)
      have "patch (unat (left_n + n)) src2 (patch (unat left_n) src1 buf) = patch (unat left_n) src buf"
        unfolding src left l1 [symmetric] by (rule patch_patch) (use Cons.prems(4) src in simp)
      moreover have "of_nat (length src1) = n" using l1 by simp
      ultimately show ?thesis unfolding step IH src by (simp add: add.assoc)
    qed
  qed
qed


lemma take_loop:
  assumes "packet h p as" "separate h as" "n \<le> length (content h as)" "c + n \<le> length src"
  shows "\<exists>h'. take_loop h p src n c = Some (0, c + n, h') \<and> same_shape h h' \<and>
    content h' as = patch 0 (take n (drop c src)) (content h as) \<and>
    (\<forall>x. pblock h x \<notin> set (map (pblock h) as) \<longrightarrow> pdata h' x = pdata h x)"
  using assms
proof (induction as arbitrary: p n c h)
  case Nil
  then have "n = 0" by simp
  then show ?case by (simp add: take_loop.simps)
next
  case (Cons a as)
  obtain b where b: "p = a" "a \<noteq> 0" "pbufs h a = Some b" "packet h (pb_next b) as" "readable h a"
    "length (pdata h a) = unat (pb_len b)"
    "unat (pb_tot_len b) = unat (pb_len b) + length (content h as)"
    by (rule packet_Cons [OF Cons.prems(1)])
  show ?case
  proof (cases "n = 0")
    case True
    then show ?thesis by (auto simp: take_loop.simps intro!: exI [of _ h])
  next
    case False
    define k where "k = (if n > unat (pb_len b) then unat (pb_len b) else n)"
    have k: "k \<le> n" "k \<le> unat (pb_len b)" by (simp_all add: k_def)
    define s1 where "s1 = take k (drop c src)"
    have s1: "length s1 = k" using Cons.prems(4) k by (simp add: s1_def)
    have read: "buf_read src c k = Some s1"
      using Cons.prems(4) k by (simp add: buf_read_def s1_def)
    obtain h1 where h1: "mem_write h (pb_payload b) 0 s1 = Some h1" "same_shape h h1"
      "pdata h1 a = patch 0 s1 (pdata h a)" "\<And>x. pblock h x \<noteq> pblock h a \<Longrightarrow> pdata h1 x = pdata h x"
      using mem_write_pdata [OF b(5,3), of 0 s1] s1 k by auto
    have sep: "pblock h x \<noteq> pblock h a" if "x \<in> set as" for x
      using Cons.prems(2) that by (metis (no_types, lifting) distinct.simps(2) image_eqI list.set_map list.simps(9) separate_def)
    have c1: "content h1 as = content h as"
      by (rule content_other) (use h1(4) sep in auto)
    have p1: "packet h1 (pb_next b) as" by (rule same_shape_packet [OF h1(2) b(4)])
    have sep1: "separate h1 as"
      using Cons.prems(2) same_shape_separate [OF h1(2)] by (simp add: separate_def)
    have n1: "n - k \<le> length (content h1 as)"
    proof -
      have "n \<le> unat (pb_len b) + length (content h as)" using Cons.prems(3) b(6) by simp
      then show ?thesis unfolding c1 k_def by (simp split: if_split) linarith
    qed
    obtain h' where h': "take_loop h1 (pb_next b) src (n - k) (c + k) = Some (0, c + k + (n - k), h')"
      "same_shape h1 h'" "content h' as = patch 0 (take (n - k) (drop (c + k) src)) (content h1 as)"
      "\<forall>x. pblock h1 x \<notin> set (map (pblock h1) as) \<longrightarrow> pdata h' x = pdata h1 x"
      using Cons.IH [OF p1 sep1 n1, of "c + k"] Cons.prems(4) k by auto
    have step: "take_loop h p src n c = take_loop h1 (pb_next b) src (n - k) (c + k)"
      using False b read h1(1) by (subst take_loop.simps) (simp add: Let_def k_def [symmetric])
    have blk: "pblock h1 = pblock h" by (rule same_shape_pblock [OF h1(2)])
    have a: "pdata h' a = pdata h1 a"
      using h'(4) Cons.prems(2) by (simp add: blk separate_def)
    have src: "take n (drop c src) = s1 @ take (n - k) (drop (c + k) src)"
      using take_split [OF k(1), of "drop c src"] by (simp add: s1_def add.commute)
    have "content h' (a # as) = patch 0 (take n (drop c src)) (content h (a # as))"
    proof (cases "n > unat (pb_len b)")
      case True
      then have "k = unat (pb_len b)" by (simp add: k_def)
      then show ?thesis
        unfolding content_Cons src a h1(3) h'(3) c1
        by (intro patch_append_both [symmetric]) (use s1 b(6) in simp_all)
    next
      case False
      then have "k = n" by (simp add: k_def)
      then show ?thesis
        unfolding content_Cons src a h1(3) h'(3) c1
        using s1 b(6) False by (simp add: patch_append_left)
    qed
    moreover have "same_shape h h'" by (rule same_shape_trans [OF h1(2) h'(2)])
    moreover have "pdata h' x = pdata h x" if "pblock h x \<notin> set (map (pblock h) (a # as))" for x
      using that h'(4) h1(4) by (simp add: blk)
    ultimately show ?thesis using h'(1) k unfolding step by auto
  qed
qed


lemma pbuf_take_packet:
  assumes "packet h p as" "separate h as" "p \<noteq> 0" "unat len \<le> length (content h as)" "unat len \<le> length src"
  shows "\<exists>h'. pbuf_take h p src len = Some (ERR_OK, h') \<and> same_shape h h' \<and>
    content h' as = patch 0 (take (unat len) src) (content h as) \<and>
    (\<forall>x. pblock h x \<notin> set (map (pblock h) as) \<longrightarrow> pdata h' x = pdata h x)"
proof -
  obtain b bs where b: "as = p # bs" "pbufs h p = Some b" "packet h (pb_next b) bs" "readable h p"
    "length (pdata h p) = unat (pb_len b)"
    "unat (pb_tot_len b) = unat (pb_len b) + length (content h bs)"
    by (rule packet_nonzero [OF assms(1,3)])
  have "len \<le> pb_tot_len b" using assms(4) b by (simp add: word_le_nat_alt)
  then show ?thesis
    using take_loop [OF assms(1,2,4), of 0 src] assms b by (auto simp: pbuf_take_def)
qed

lemma separate_append:
  "separate h (xs @ ys) \<longleftrightarrow> separate h xs \<and> separate h ys \<and>
     (\<forall>x \<in> set xs. \<forall>y \<in> set ys. pblock h x \<noteq> pblock h y)"
  by (auto simp: separate_def image_iff)

lemma separate_Cons:
  "separate h (a # as) \<longleftrightarrow> separate h as \<and> (\<forall>y \<in> set as. pblock h y \<noteq> pblock h a)"
  by (auto simp: separate_def image_iff)

text \<open>Writing at an offset inside one pbuf of a packet.\<close>

lemma write_inside:
  assumes "separate h (xs @ q # ys)" "readable h q" "pbufs h q = Some b"
    "off + length src \<le> unat (pb_len b)" "length (pdata h q) = unat (pb_len b)"
  obtains h' where "mem_write h (pb_payload b) off src = Some h'" "same_shape h h'"
    "content h' (xs @ q # ys) = patch (length (content h xs) + off) src (content h (xs @ q # ys))"
    "content h' ys = content h ys" "content h' xs = content h xs"
    "pdata h' q = patch off src (pdata h q)"
    "\<forall>x. pblock h x \<noteq> pblock h q \<longrightarrow> pdata h' x = pdata h x"
proof -
  obtain h' where h': "mem_write h (pb_payload b) off src = Some h'" "same_shape h h'"
    "pdata h' q = patch off src (pdata h q)" "\<And>x. pblock h x \<noteq> pblock h q \<Longrightarrow> pdata h' x = pdata h x"
    using mem_write_pdata [OF assms(2-4)] by auto
  have xs: "content h' xs = content h xs" and ys: "content h' ys = content h ys"
    by (rule content_other, use h'(4) assms(1) in \<open>auto simp: separate_append separate_Cons\<close>)+
  have "content h' (xs @ q # ys) = patch (length (content h xs) + off) src (content h (xs @ q # ys))"
    using assms(4,5) by (simp add: xs ys h'(3) patch_append_right patch_append_left)
  then show thesis using h' xs ys by (intro that) auto
qed

lemma pbuf_take_at_packet:
  assumes "packet h p as" "separate h as" "unat off < length (content h as)"
    "unat off + unat len \<le> length (content h as)" "unat len \<le> length src"
  shows "\<exists>h'. pbuf_take_at h p src len off = Some (ERR_OK, h') \<and> same_shape h h' \<and>
    content h' as = patch (unat off) (take (unat len) src) (content h as)"
proof -
  obtain xs q ys off' b where q: "pbuf_skip_const h p off = Some (q, off')" "as = xs @ q # ys" "q \<noteq> 0"
    "unat off = length (content h xs) + unat off'" "pbufs h q = Some b" "off' < pb_len b"
    "readable h q" "length (pdata h q) = unat (pb_len b)" "packet h (pb_next b) ys"
    "unat (pb_tot_len b) = unat (pb_len b) + length (content h ys)"
    by (rule skip_found [OF assms(1,3)])
  define n where "n = min (pb_len b - off') len"
  have sub: "unat (pb_len b - off') = unat (pb_len b) - unat off'"
    using q(6) by (intro unat_sub_u16) simp
  have n: "unat n = min (unat (pb_len b) - unat off') (unat len)"
    using sub by (auto simp: n_def min_def word_le_nat_alt)
  have off': "unat off' < unat (pb_len b)" using q(6) by (simp add: word_less_nat_alt)
  have tot: "unat off' + unat len \<le> unat (pb_tot_len b)"
    using assms(4) q(2,4,8,10) by simp
  define s1 where "s1 = take (unat n) src"
  have s1: "length s1 = unat n" "buf_read src 0 (unat n) = Some s1"
    using assms(5) n by (simp_all add: s1_def buf_read_def)
  have fits: "unat off' + length s1 \<le> unat (pb_len b)" using s1 n off' by linarith
  obtain h1 where h1: "mem_write h (pb_payload b) (unat off') s1 = Some h1" "same_shape h h1"
    "content h1 (xs @ q # ys) = patch (length (content h xs) + unat off') s1 (content h (xs @ q # ys))"
    "content h1 ys = content h ys" "content h1 xs = content h xs"
    "pdata h1 q = patch (unat off') s1 (pdata h q)"
    "\<forall>x. pblock h x \<noteq> pblock h q \<longrightarrow> pdata h1 x = pdata h x"
    by (rule write_inside [OF assms(2) [unfolded q(2)] q(7,5) fits q(8)])
  have rem: "unat (len - n) = unat len - unat n"
    by (rule unat_sub_u16) (simp add: n_def)
  have step: "pbuf_take_at h p src len off =
    (if len - n > 0 then pbuf_take h1 (pb_next b) (drop (unat n) src) (len - n) else Some (ERR_OK, h1))"
    using q(1,3,5,6) tot s1(2) h1(1) by (simp add: pbuf_take_at_def pbuf_skip_def Let_def n_def [symmetric])
  show ?thesis
  proof (cases "len - n > 0")
    case False
    then have "len - n = 0" by (simp only: word_neq_0_conv [symmetric] not_not)
    then have "unat (len - n) = 0" by simp
    then have "unat n = unat len" using rem n by linarith
    then have "s1 = take (unat len) src" by (simp add: s1_def)
    then show ?thesis using step False h1(2,3) q(2,4) by simp
  next
    case True
    then have "unat n < unat len" using rem by (simp add: word_less_nat_alt)
    then have n_eq: "unat n = unat (pb_len b) - unat off'" using n by linarith
    have p1: "packet h1 (pb_next b) ys" by (rule same_shape_packet [OF h1(2) q(9)])
    have sep1: "separate h1 ys"
      using assms(2) q(2) by (simp add: same_shape_separate [OF h1(2)] separate_append separate_Cons)
    have len1: "unat (len - n) \<le> length (content h1 ys)"
      using rem n_eq tot q(10) h1(4) off' by simp
    have nz: "pb_next b \<noteq> 0"
    proof
      assume "pb_next b = 0"
      then have "ys = []" using q(9) by simp
      then show False using len1 \<open>unat n < unat len\<close> rem by simp
    qed
    obtain h' where
      h': "pbuf_take h1 (pb_next b) (drop (unat n) src) (len - n) = Some (ERR_OK, h')" "same_shape h1 h'"
        "content h' ys = patch 0 (take (unat (len - n)) (drop (unat n) src)) (content h1 ys)"
        "\<forall>x. pblock h1 x \<notin> set (map (pblock h1) ys) \<longrightarrow> pdata h' x = pdata h1 x"
    proof -
      have "unat (len - n) \<le> length (drop (unat n) src)" using rem assms(5) by simp
      from pbuf_take_packet [OF p1 sep1 nz len1 this] show thesis
        using that by auto
    qed
    have "content h' (xs @ [q]) = content h1 (xs @ [q])"
      by (rule content_other)
        (use h'(4) assms(2) q(2) same_shape_pblock [OF h1(2)] in \<open>auto simp: separate_append separate_Cons image_iff eq_commute [of "pblock h q"]\<close>)
    then have c: "content h' as = (content h xs @ patch (unat off') s1 (pdata h q))
        @ patch 0 (take (unat (len - n)) (drop (unat n) src)) (content h ys)"
      using h1(4-6) h'(3) q(2) by simp
    have src: "take (unat len) src = s1 @ take (unat (len - n)) (drop (unat n) src)"
      using take_split [of "unat n" "unat len" src] \<open>unat n < unat len\<close> by (simp add: s1_def rem)
    have "patch (unat off) (take (unat len) src) (content h as) = (content h xs @ patch (unat off') s1 (pdata h q))
        @ patch 0 (take (unat (len - n)) (drop (unat n) src)) (content h ys)"
      unfolding src q(2,4) content_append content_Cons
      using patch_append_both [of s1 "pdata h q" "unat off'" _ "content h ys"] s1(1) n_eq q(8) off'
      by (simp add: patch_append_right)
    with c have "content h' as = patch (unat off) (take (unat len) src) (content h as)" by simp
    then show ?thesis using step True h'(1) same_shape_trans [OF h1(2) h'(2)] by simp
  qed
qed

section \<open>Lemmas: bytes, comparison and search\<close>

lemma take_1_drop: "i < length xs \<Longrightarrow> take (Suc 0) (drop i xs) = [xs ! i]"
  by (simp add: take_Suc hd_drop_conv_nth)

lemma packet_tail:
  assumes "packet h p (xs @ q # ys)"
  shows "packet h q (q # ys)"
  using assms
proof (induction xs arbitrary: p)
  case Nil
  then show ?case by (auto simp: packet_def split: option.splits)
next
  case (Cons a xs)
  then show ?case by (auto elim: packet_Cons)
qed

lemma pbuf_try_get_at_packet:
  assumes "packet h p as"
  shows "pbuf_try_get_at h p off =
    Some (if unat off < length (content h as) then uint (content h as ! unat off) else - 1)"
proof (cases "unat off < length (content h as)")
  case False
  then show ?thesis using skip_short [OF assms] by (simp add: pbuf_try_get_at_def)
next
  case True
  obtain xs q ys off' b where q: "pbuf_skip_const h p off = Some (q, off')" "as = xs @ q # ys" "q \<noteq> 0"
    "unat off = length (content h xs) + unat off'" "pbufs h q = Some b" "off' < pb_len b"
    "readable h q" "length (pdata h q) = unat (pb_len b)" "packet h (pb_next b) ys"
    "unat (pb_tot_len b) = unat (pb_len b) + length (content h ys)"
    by (rule skip_found [OF assms True])
  have less: "unat off' < length (pdata h q)" using q(6,8) by (simp add: word_less_nat_alt)
  have "mem_read h (pb_payload b) (unat off') 1 = Some [pdata h q ! unat off']"
    using mem_read_pdata [OF q(7,5), of "unat off'" 1] less q(8) by (simp add: take_1_drop)
  then show ?thesis
    using q(1,3,5,6) True less by (simp add: pbuf_try_get_at_def q(2,4) nth_append)
qed

lemma pbuf_get_at_packet:
  assumes "packet h p as"
  shows "pbuf_get_at h p off =
    Some (if unat off < length (content h as) then content h as ! unat off else 0)"
  by (simp add: pbuf_get_at_def pbuf_try_get_at_packet [OF assms])

lemma pbuf_put_at_packet:
  assumes "packet h p as" "separate h as"
  shows "\<exists>h'. pbuf_put_at h p off x = Some h' \<and> same_shape h h' \<and>
    content h' as = (content h as)[unat off := x]"
proof (cases "unat off < length (content h as)")
  case False
  then have "length (content h as) \<le> unat off" by linarith
  then show ?thesis using skip_short [OF assms(1)] by (simp add: pbuf_put_at_def pbuf_skip_def list_update_beyond)
next
  case True
  obtain xs q ys off' b where q: "pbuf_skip_const h p off = Some (q, off')" "as = xs @ q # ys" "q \<noteq> 0"
    "unat off = length (content h xs) + unat off'" "pbufs h q = Some b" "off' < pb_len b"
    "readable h q" "length (pdata h q) = unat (pb_len b)" "packet h (pb_next b) ys"
    "unat (pb_tot_len b) = unat (pb_len b) + length (content h ys)"
    by (rule skip_found [OF assms(1) True])
  have fits: "unat off' + length [x] \<le> unat (pb_len b)"
    using q(6) by (simp add: word_less_nat_alt)
  obtain h1 where h1: "mem_write h (pb_payload b) (unat off') [x] = Some h1" "same_shape h h1"
    "content h1 (xs @ q # ys) = patch (length (content h xs) + unat off') [x] (content h (xs @ q # ys))"
    "content h1 ys = content h ys" "content h1 xs = content h xs"
    "pdata h1 q = patch (unat off') [x] (pdata h q)"
    "\<forall>y. pblock h y \<noteq> pblock h q \<longrightarrow> pdata h1 y = pdata h y"
    by (rule write_inside [OF assms(2) [unfolded q(2)] q(7,5) fits q(8)])
  have "content h1 as = (content h as)[unat off := x]"
    using h1(3) True patch_single [of "unat off" "content h as" x] q(4) by (simp add: q(2))
  then show ?thesis using q(1,3,5,6) h1(1,2) by (simp add: pbuf_put_at_def pbuf_skip_def)
qed

text \<open>Comparison: the position after the first difference.\<close>

lemma memcmp_loop_packet:
  assumes "packet h q as" "unat start + n \<le> length (content h as)" "n \<le> length s2" "i \<le> n"
  shows "memcmp_loop h q start s2 n i =
    Some (case List.find (\<lambda>j. content h as ! (unat start + j) \<noteq> s2 ! j) [i..<n] of
      None \<Rightarrow> 0 | Some j \<Rightarrow> of_nat (min (j + 1) 0xFFFF))"
  using assms(4)
proof (induction "n - i" arbitrary: i)
  case 0
  then show ?case by (subst memcmp_loop.simps) simp
next
  case (Suc m)
  then have i: "i < n" by simp
  have less: "unat start + n < 65536" using content_bound [OF assms(1)] assms(2) by simp
  then have "unat (start + of_nat i) = unat start + i"
    using i by (subst unat_add_u16_small) (simp_all add: unat_of_nat_u16)
  then have a: "pbuf_get_at h q (start + of_nat i) = Some (content h as ! (unat start + i))"
    using pbuf_get_at_packet [OF assms(1)] assms(2) i by simp
  have b: "buf_read s2 i 1 = Some [s2 ! i]"
    using i assms(3) by (simp add: buf_read_def take_1_drop)
  have upt: "[i..<n] = i # [Suc i..<n]" using i by (simp add: upt_conv_Cons)
  show ?case
    using Suc.hyps(1) [of "i + 1"] Suc.hyps(2) i a b
    by (subst memcmp_loop.simps) (simp add: upt)
qed

lemma pbuf_memcmp_packet:
  assumes "packet h p as" "p \<noteq> 0" "unat n \<le> length s2"
  shows "pbuf_memcmp h p off s2 n = Some
    (if length (content h as) < unat off + unat n then 0xffff
     else case List.find (\<lambda>j. content h as ! (unat off + j) \<noteq> s2 ! j) [0..<unat n] of
       None \<Rightarrow> 0 | Some j \<Rightarrow> of_nat (min (j + 1) 0xFFFF))"
proof -
  obtain b bs where b: "as = p # bs" "pbufs h p = Some b" "packet h (pb_next b) bs" "readable h p"
    "length (pdata h p) = unat (pb_len b)"
    "unat (pb_tot_len b) = unat (pb_len b) + length (content h bs)"
    by (rule packet_nonzero [OF assms(1,2)])
  have tot: "unat (pb_tot_len b) = length (content h as)" using b by simp
  show ?thesis
  proof (cases "length (content h as) < unat off + unat n")
    case True
    then show ?thesis using b(2) tot by (simp add: pbuf_memcmp_def)
  next
    case fits: False
    show ?thesis
    proof (cases "unat off < length (content h as)")
      case False
      then have "unat n = 0" using fits by linarith
      then show ?thesis
        using skip_short [OF assms(1), of off] False fits b(2) tot
        by (simp add: pbuf_memcmp_def memcmp_loop.simps)
    next
      case True
      obtain xs q ys off' b' where q: "pbuf_skip_const h p off = Some (q, off')" "as = xs @ q # ys" "q \<noteq> 0"
        "unat off = length (content h xs) + unat off'" "pbufs h q = Some b'" "off' < pb_len b'"
        "readable h q" "length (pdata h q) = unat (pb_len b')" "packet h (pb_next b') ys"
        "unat (pb_tot_len b') = unat (pb_len b') + length (content h ys)"
        by (rule skip_found [OF assms(1) True])
      have pq: "packet h q (q # ys)" using packet_tail assms(1) q(2) by simp
      have "unat off' + unat n \<le> length (content h (q # ys))"
        using fits by (simp add: q(2,4))
      from memcmp_loop_packet [OF pq this assms(3), of 0]
      have "memcmp_loop h q off' s2 (unat n) 0 =
        Some (case List.find (\<lambda>j. content h (q # ys) ! (unat off' + j) \<noteq> s2 ! j) [0..<unat n] of
          None \<Rightarrow> 0 | Some j \<Rightarrow> of_nat (min (j + 1) 0xFFFF))"
        by simp
      moreover have "content h as ! (unat off + j) = content h (q # ys) ! (unat off' + j)" for j
        by (simp add: q(2,4) nth_append)
      ultimately show ?thesis using q(1) fits b(2) tot by (simp add: pbuf_memcmp_def)
    qed
  qed
qed

lemma find_mismatch_None:
  "off + n \<le> length xs \<Longrightarrow> n \<le> length ys \<Longrightarrow>
   List.find (\<lambda>j. xs ! (off + j) \<noteq> ys ! j) [0..<n] = None \<longleftrightarrow> take n (drop off xs) = take n ys"
  by (auto simp: find_None_iff list_eq_iff_nth_eq)

lemma pbuf_memcmp_zero:
  assumes "packet h p as" "p \<noteq> 0" "unat n = length s2" "unat off \<le> length (content h as)"
  obtains r where "pbuf_memcmp h p off s2 n = Some r"
    "r = 0 \<longleftrightarrow> take (length s2) (drop (unat off) (content h as)) = s2"
proof -
  let ?f = "List.find (\<lambda>j. content h as ! (unat off + j) \<noteq> s2 ! j) [0..<unat n]"
  let ?r = "(if length (content h as) < unat off + unat n then 0xffff
     else case ?f of None \<Rightarrow> 0 | Some j \<Rightarrow> of_nat (min (j + 1) 0xFFFF)) :: u16"
  have "pbuf_memcmp h p off s2 n = Some ?r"
    by (rule pbuf_memcmp_packet [OF assms(1,2)]) (simp add: assms(3))
  moreover have "?r = 0 \<longleftrightarrow> take (length s2) (drop (unat off) (content h as)) = s2"
  proof (cases "length (content h as) < unat off + unat n")
    case True
    then have "length (take (length s2) (drop (unat off) (content h as))) \<noteq> length s2"
      using assms(3,4) by simp
    then have "take (length s2) (drop (unat off) (content h as)) \<noteq> s2" by metis
    then show ?thesis using True by simp
  next
    case False
    have nz: "(of_nat (min (j + 1) 0xFFFF) :: u16) \<noteq> 0" for j
    proof -
      have "unat (of_nat (min (j + 1) 0xFFFF) :: u16) = min (j + 1) 0xFFFF"
        by (rule unat_of_nat_u16) simp
      then show ?thesis by (metis add_is_0 min_def unat_0 zero_neq_numeral zero_neq_one)
    qed
    have "?f = None \<longleftrightarrow> take (unat n) (drop (unat off) (content h as)) = take (unat n) s2"
      by (rule find_mismatch_None) (use False assms(3) in simp_all)
    then show ?thesis using False nz assms(3) by (cases ?f) simp_all
  qed
  ultimately show thesis by (rule that)
qed


lemma upt_split: "i \<le> j \<Longrightarrow> j \<le> k \<Longrightarrow> [i..<k] = [i..<j] @ [j..<k]"
  by (metis le_add_diff_inverse upt_add_eq_append)

lemma memfind_loop_packet:
  assumes "packet h p as" "p \<noteq> 0" "unat mem_len = length mem"
    and "unat mx + length mem = length (content h as)" "unat i \<le> unat mx"
  shows "memfind_loop h p mem mem_len mx i =
    Some (case List.find (\<lambda>j. take (length mem) (drop j (content h as)) = mem) [unat i..<Suc (unat mx)] of
      None \<Rightarrow> 0xFFFF | Some j \<Rightarrow> of_nat j)"
  using assms(5)
proof (induction "unat mx - unat i" arbitrary: i)
  case less: 0
  then have eq: "unat i = unat mx" "i \<le> mx" "i = mx" by (simp_all add: word_le_nat_alt word_unat_eq_iff)
  have le: "unat i \<le> length (content h as)" using eq assms(4) by linarith
  obtain r where r: "pbuf_memcmp h p i mem mem_len = Some r"
    "r = 0 \<longleftrightarrow> take (length mem) (drop (unat i) (content h as)) = mem"
    by (rule pbuf_memcmp_zero [OF assms(1-3) le])
  have upt: "[unat i..<Suc (unat mx)] = [unat i]" by (simp add: eq)
  show ?case
  proof (cases "r = 0")
    case True
    then show ?thesis using r eq(2) unfolding upt
      by (subst memfind_loop.simps) (simp add: eq(3))
  next
    case False
    have "unat mx \<noteq> 65535"
    proof
      assume mx: "unat mx = 65535"
      then have "length mem = 0" using assms(4) content_bound [OF assms(1)] by linarith
      then show False using False r(2) by simp
    qed
    then have "unat (i + 1) = unat i + 1"
    proof -
      have "unat i + unat (1 :: u16) < 65536"
        using \<open>unat mx \<noteq> 65535\<close> unat_u16_less [of mx] eq(1) by (simp only: unsigned_1)
      from unat_add_u16_small [OF this] show ?thesis by simp
    qed
    then have "\<not> i + 1 \<le> mx" using eq(1) by (simp add: word_le_nat_alt)
    then show ?thesis using False r eq(2) unfolding upt
      by (subst memfind_loop.simps) (simp add: memfind_loop.simps [of h p mem mem_len mx "i + 1"])
  qed
next
  case (Suc m)
  then have lt: "unat i < unat mx" "i \<le> mx" by (simp_all add: word_le_nat_alt)
  have le: "unat i \<le> length (content h as)" using lt assms(4) by linarith
  obtain r where r: "pbuf_memcmp h p i mem mem_len = Some r"
    "r = 0 \<longleftrightarrow> take (length mem) (drop (unat i) (content h as)) = mem"
    by (rule pbuf_memcmp_zero [OF assms(1-3) le])
  have nxt: "unat (i + 1) = unat i + 1"
  proof -
    have "unat i + unat (1 :: u16) < 65536"
      using unat_u16_less [of mx] lt(1) unfolding unsigned_1 by linarith
    from unat_add_u16_small [OF this] show ?thesis by simp
  qed
  have upt: "[unat i..<Suc (unat mx)] = unat i # [unat (i + 1)..<Suc (unat mx)]"
    unfolding nxt using lt(1) by (simp add: upt_conv_Cons del: upt_Suc)
  have IH: "memfind_loop h p mem mem_len mx (i + 1) =
    Some (case List.find (\<lambda>j. take (length mem) (drop j (content h as)) = mem) [unat (i + 1)..<Suc (unat mx)] of
      None \<Rightarrow> 0xFFFF | Some j \<Rightarrow> of_nat j)"
    by (rule Suc.hyps(1)) (use Suc.hyps(2) lt nxt in simp_all)
  show ?case
    using r lt(2) IH unfolding upt
    by (subst memfind_loop.simps) (simp del: upt_Suc)
qed

lemma pbuf_memfind_packet:
  assumes "packet h p as" "p \<noteq> 0" "unat mem_len = length mem"
  shows "pbuf_memfind h p mem mem_len start =
    Some (case List.find (\<lambda>j. take (length mem) (drop j (content h as)) = mem)
        [unat start..<Suc (length (content h as))] of
      None \<Rightarrow> 0xFFFF | Some j \<Rightarrow> of_nat j)"
proof -
  obtain b bs where b: "as = p # bs" "pbufs h p = Some b" "packet h (pb_next b) bs" "readable h p"
    "length (pdata h p) = unat (pb_len b)"
    "unat (pb_tot_len b) = unat (pb_len b) + length (content h bs)"
    by (rule packet_nonzero [OF assms(1,2)])
  let ?P = "\<lambda>j. take (length mem) (drop j (content h as)) = mem"
  let ?n = "length (content h as)"
  have tot: "unat (pb_tot_len b) = ?n" using b by simp
  have short: "\<not> ?P j" if "?n < j + length mem" "j \<le> ?n" for j
  proof
    assume "?P j"
    then have "length (take (length mem) (drop j (content h as))) = length mem" by simp
    then show False using that by simp
  qed
  show ?thesis
  proof (cases "unat mem_len + unat start \<le> ?n")
    case True
    have mx: "unat (pb_tot_len b - mem_len) = ?n - length mem"
      using True assms(3) tot by (subst unat_sub_u16) (simp_all add: word_le_nat_alt)
    have "memfind_loop h p mem mem_len (pb_tot_len b - mem_len) start =
      Some (case List.find ?P [unat start..<Suc (?n - length mem)] of
        None \<Rightarrow> 0xFFFF | Some j \<Rightarrow> of_nat j)"
      using memfind_loop_packet [OF assms, of "pb_tot_len b - mem_len" start] mx True assms(3) by simp
    moreover have "[unat start..<Suc ?n] = [unat start..<Suc (?n - length mem)] @ [Suc (?n - length mem)..<Suc ?n]"
      using True assms(3) by (intro upt_split) simp_all
    moreover have "List.find ?P [Suc (?n - length mem)..<Suc ?n] = None"
      unfolding find_None_iff using short by auto
    ultimately show ?thesis
      using b(2) tot True by (simp add: pbuf_memfind_def find_append split: option.split del: upt_Suc)
  next
    case False
    have "List.find ?P [unat start..<Suc ?n] = None"
      unfolding find_None_iff using short False assms(3) by auto
    then show ?thesis
      using b(2) tot False by (simp add: pbuf_memfind_def del: upt_Suc)
  qed
qed

section \<open>Lemmas: copying chains\<close>

definition nonempty :: "heap \<Rightarrow> nat list \<Rightarrow> bool" where
  "nonempty h as = list_all (\<lambda>a. pdata h a \<noteq> []) as"

lemma nonempty_simps [simp]: "nonempty h []" "nonempty h (a # as) \<longleftrightarrow> pdata h a \<noteq> [] \<and> nonempty h as"
  by (simp_all add: nonempty_def)

lemma nonempty_content: "nonempty h as \<Longrightarrow> content h as = [] \<longleftrightarrow> as = []"
  by (cases as) auto

text \<open>In a packet without empty pbufs, \<^verbatim>\<open>len == tot_len\<close> marks the last pbuf.\<close>

lemma last_pbuf:
  assumes "packet h p as" "nonempty h as" "pbufs h p = Some b" "p \<noteq> 0" "pb_len b = pb_tot_len b"
  shows "pb_next b = 0"
proof -
  obtain b' bs where b: "as = p # bs" "pbufs h p = Some b'" "packet h (pb_next b') bs" "readable h p"
    "length (pdata h p) = unat (pb_len b')"
    "unat (pb_tot_len b') = unat (pb_len b') + length (content h bs)"
    by (rule packet_nonzero [OF assms(1,4)])
  have "b' = b" using b(2) assms(3) by simp
  then have "length (content h bs) = 0" using b(6) assms(5) by simp
  then have "bs = []" using assms(2) b(1) by (simp add: nonempty_content)
  then show ?thesis using b(2,3) assms(3) by (simp add: packet_def)
qed

lemma queue_check:
  assumes "packet h p as" "nonempty h as"
  shows "not_queue h p = Some ()"
proof (cases "p = 0")
  case False
  obtain b bs where b: "as = p # bs" "pbufs h p = Some b" "packet h (pb_next b) bs" "readable h p"
    "length (pdata h p) = unat (pb_len b)"
    "unat (pb_tot_len b) = unat (pb_len b) + length (content h bs)"
    by (rule packet_nonzero [OF assms(1) False])
  then show ?thesis using last_pbuf [OF assms b(2) False] by (simp add: not_queue_def)
qed (simp add: not_queue_def)

lemma same_shape_nonempty:
  assumes "same_shape h h'" "list_all (readable h) as"
  shows "nonempty h' as = nonempty h as"
  using assms(2)
proof (induction as)
  case (Cons a as)
  then have "length (pdata h' a) = length (pdata h a)"
    using same_shape_length_pdata [OF assms(1)] by simp
  then have "pdata h' a = [] \<longleftrightarrow> pdata h a = []" by (metis length_0_conv)
  then show ?case using Cons by simp
qed simp

lemma copy_loop:
  assumes "packet h p_to ts" "packet h p_from fs" "p_to \<noteq> 0" "p_from \<noteq> 0"
    and "nonempty h ts" "nonempty h fs" "separate h ts"
    and "\<forall>t \<in> set ts. \<forall>f \<in> set fs. pblock h t \<noteq> pblock h f"
    and "ot < length (pdata h p_to)" "off < length (pdata h p_from)"
    and "length (content h fs) - off \<le> length (content h ts) - ot"
  shows "\<exists>h'. pbuf_copy_loop h p_to p_from ot off = Some (ERR_OK, h') \<and> same_shape h h' \<and>
    content h' ts = patch ot (drop off (content h fs)) (content h ts) \<and>
    (\<forall>x. pblock h x \<notin> pblock h ` set ts \<longrightarrow> pdata h' x = pdata h x)"
  using assms
proof (induction "length ts + length fs" arbitrary: h p_to p_from ts fs ot off rule: less_induct)
  case less
  note prems = less.prems
  obtain t ts' where t: "ts = p_to # ts'" "pbufs h p_to = Some t" "packet h (pb_next t) ts'" "readable h p_to"
    "length (pdata h p_to) = unat (pb_len t)"
    "unat (pb_tot_len t) = unat (pb_len t) + length (content h ts')"
    by (rule packet_nonzero [OF prems(1,3)])
  obtain f fs' where f: "fs = p_from # fs'" "pbufs h p_from = Some f" "packet h (pb_next f) fs'" "readable h p_from"
    "length (pdata h p_from) = unat (pb_len f)"
    "unat (pb_tot_len f) = unat (pb_len f) + length (content h fs')"
    by (rule packet_nonzero [OF prems(2,4)])
  define k where "k = copy_len t f ot off"
  have k: "0 < k" "ot + k \<le> unat (pb_len t)" "off + k \<le> unat (pb_len f)"
    "ot + k = unat (pb_len t) \<or> off + k = unat (pb_len f)"
    using prems(9,10) t(5) f(5) by (auto simp: k_def copy_len_def)
  define s1 where "s1 = take k (drop off (pdata h p_from))"
  have s1: "length s1 = k" using k(3) f(5) by (simp add: s1_def)
  have read: "mem_read h (pb_payload f) off k = Some s1"
    unfolding s1_def by (rule mem_read_pdata [OF f(4,2) k(3)])
  have fits: "ot + length s1 \<le> unat (pb_len t)" using k(2) s1 by simp
  obtain h1 where h1: "mem_write h (pb_payload t) ot s1 = Some h1" "same_shape h h1"
    "content h1 ([] @ p_to # ts') = patch (length (content h []) + ot) s1 (content h ([] @ p_to # ts'))"
    "content h1 ts' = content h ts'" "content h1 [] = content h []"
    "pdata h1 p_to = patch ot s1 (pdata h p_to)"
    "\<forall>x. pblock h x \<noteq> pblock h p_to \<longrightarrow> pdata h1 x = pdata h x"
    by (rule write_inside [of h "[]" p_to ts', OF _ t(4,2) fits t(5)]) (use prems(7) t(1) in simp)
  note blk = same_shape_pblock [OF h1(2)]
  have from_data: "content h1 fs = content h fs" "content h1 fs' = content h fs'"
    "pdata h1 p_from = pdata h p_from"
    by (rule content_other, use h1(7) prems(8) t(1) f(1) in auto)
      (rule content_other, use h1(7) prems(8) t(1) f(1) in auto)+
  have packs: "packet h1 (pb_next t) ts'" "packet h1 (pb_next f) fs'" "packet h1 p_to ts" "packet h1 p_from fs"
    using same_shape_packet [OF h1(2)] prems(1,2) t(3) f(3) by simp_all
  have ne: "nonempty h1 fs" "nonempty h1 ts"
    using prems(1,2,5,6) same_shape_nonempty [OF h1(2), of ts] same_shape_nonempty [OF h1(2), of fs]
    by (simp_all add: packet_def)
  then have ne': "nonempty h1 ts'" "nonempty h1 fs'" by (simp_all add: t(1) f(1))
  define adv_f where "adv_f \<longleftrightarrow> off + k \<ge> unat (pb_len f)"
  define adv_t where "adv_t \<longleftrightarrow> ot + k = unat (pb_len t)"
  define fs2 p_from2 off2 where "fs2 = (if adv_f then fs' else fs)"
    and "p_from2 = (if adv_f then pb_next f else p_from)" and "off2 = (if adv_f then 0 else off + k)"
  define ts2 p_to2 ot2 where "ts2 = (if adv_t then ts' else ts)"
    and "p_to2 = (if adv_t then pb_next t else p_to)" and "ot2 = (if adv_t then 0 else ot + k)"
  let ?D = "drop off (content h fs)"
  have p2: "packet h1 p_from2 fs2" "packet h1 p_to2 ts2" "nonempty h1 fs2" "nonempty h1 ts2"
    using packs ne ne' by (simp_all add: p_from2_def fs2_def p_to2_def ts2_def)
  have rest: "drop off2 (content h1 fs2) = drop k ?D"
  proof (cases adv_f)
    case True
    then have "off + k = unat (pb_len f)" using k(3) by (simp add: adv_f_def)
    then show ?thesis using True f(5) by (simp add: fs2_def off2_def from_data f(1) add.commute)
  qed (simp add: fs2_def off2_def from_data add.commute)
  have s1_D: "s1 = take k ?D" using k(3) f(5) by (simp add: s1_def f(1))
  have len_D: "length ?D \<le> length (content h ts) - ot" using prems(11) by simp
  have nz: "pb_next t \<noteq> 0" if "adv_t" "p_from2 \<noteq> 0"
  proof -
    have "content h1 fs2 \<noteq> []" using that(2) p2(1,3) nonempty_content by (cases fs2) (auto simp: packet_def)
    moreover have "off2 < length (content h1 fs2)"
      using prems(10) calculation k(3) f(5) by (auto simp: off2_def fs2_def adv_f_def from_data f(1))
    ultimately have "drop k ?D \<noteq> []" using rest by (metis drop_eq_Nil not_le)
    then have "k < length ?D" by simp
    moreover have "length (content h ts) = unat (pb_len t) + length (content h ts')"
      using t(1,5) by simp
    ultimately have "0 < length (content h ts')"
      using len_D that(1) unfolding adv_t_def by linarith
    then show ?thesis using t(3) by (cases "pb_next t = 0") auto
  qed
  have step: "pbuf_copy_loop h p_to p_from ot off =
    (if p_from2 \<noteq> 0 then pbuf_copy_loop h1 p_to2 p_from2 ot2 off2 else Some (ERR_OK, h1))"
  proof -
    have "copy_advance h1 t f p_to p_from (ot + k) (off + k) = Some (p_to2, p_from2, ot2, off2)"
    proof -
      have asserts: "lwip_assert (ot + k \<le> unat (pb_len t)) = Some ()"
        "lwip_assert (off + k \<le> unat (pb_len f)) = Some ()"
        using k by simp_all
      have from2: "(if off + k \<ge> unat (pb_len f) then (0, pb_next f) else (off + k, p_from)) = (off2, p_from2)"
        by (simp add: off2_def p_from2_def adv_f_def)
      have "lwip_assert (pb_next t \<noteq> 0 \<or> p_from2 = 0) = Some ()" if "ot + k = unat (pb_len t)"
        using nz that by (cases "p_from2 = 0") (simp_all add: adv_t_def)
      then have to2: "(if ot + k = unat (pb_len t) then do {
          lwip_assert (pb_next t \<noteq> 0 \<or> p_from2 = 0); Some (0, pb_next t) } else Some (ot + k, p_to))
        = Some (ot2, p_to2)"
        by (auto simp: adv_t_def ot2_def p_to2_def simp del: lwip_assert_Some)
      show ?thesis
        using queue_check [OF p2(1,3)] queue_check [OF p2(2,4)]
        by (simp only: copy_advance_def asserts Option.bind.bind_lunit from2 Let_def split to2)
    qed
    then show ?thesis
      by (subst pbuf_copy_loop.simps) (simp add: t(2) f(2) k_def [symmetric] read h1(1))
  qed
  show ?case
  proof (cases "p_from2 = 0")
    case True
    then have "fs2 = []" using p2(1) by simp
    then have adv: "adv_f" "fs' = []" using f(1) by (auto simp: fs2_def split: if_splits)
    then have "drop k ?D = []" using k(3) f(1,5) by (simp add: adv_f_def)
    then have "s1 = ?D" unfolding s1_D by simp
    then have "content h1 ts = patch ot ?D (content h ts)" using h1(3) t(1) by simp
    moreover have "pdata h1 x = pdata h x" if "pblock h x \<notin> pblock h ` set ts" for x
      using that h1(7) t(1) by simp
    ultimately show ?thesis unfolding step using True h1(2) by simp
  next
    case False
    then have p_to2: "p_to2 \<noteq> 0" using nz prems(3) by (auto simp: p_to2_def)
    have size: "length ts2 + length fs2 < length ts + length fs"
      using k(3,4) t(1) f(1) by (auto simp: ts2_def fs2_def adv_t_def adv_f_def)
    have sub: "set ts2 \<subseteq> set ts" "set fs2 \<subseteq> set fs" using t(1) f(1) by (auto simp: ts2_def fs2_def)
    have sep: "separate h1 ts2" unfolding same_shape_separate [OF h1(2)]
      using prems(7) t(1) by (simp add: ts2_def separate_Cons)
    have dis: "\<forall>t \<in> set ts2. \<forall>f \<in> set fs2. pblock h1 t \<noteq> pblock h1 f"
      unfolding blk using prems(8) sub by blast
    have ot2: "ot2 < length (pdata h1 p_to2)"
    proof (cases adv_t)
      case True
      then show ?thesis using p2(2,4) p_to2
        by (cases ts2) (auto simp: ot2_def packet_def)
    next
      case False
      have "length (pdata h1 p_to) = unat (pb_len t)" using h1(6) fits t(5) by simp
      then show ?thesis using False k(2) by (simp add: ot2_def p_to2_def adv_t_def)
    qed
    have off2: "off2 < length (pdata h1 p_from2)"
    proof (cases adv_f)
      case True
      then show ?thesis using p2(1,3) \<open>p_from2 \<noteq> 0\<close>
        by (cases fs2) (auto simp: off2_def packet_def)
    next
      case False
      then show ?thesis using f(5) by (simp add: off2_def p_from2_def adv_f_def from_data)
    qed
    have len_ts: "length (content h ts) = unat (pb_len t) + length (content h ts')" using t(1,5) by simp
    have len_h1: "length (content h1 ts) = length (content h ts)"
      using h1(3) fits len_ts t(1) by simp
    have "length (content h1 ts2) - ot2 = length (content h ts) - ot - k"
      using len_h1 len_ts h1(4) by (auto simp: ts2_def ot2_def adv_t_def)
    moreover have "length (content h1 fs2) - off2 = length ?D - k"
      using arg_cong [OF rest, of length] by simp
    ultimately have room: "length (content h1 fs2) - off2 \<le> length (content h1 ts2) - ot2"
      using len_D by simp
    from less.hyps [OF size p2(2,1) p_to2 False p2(4,3) sep dis ot2 off2 room] obtain h' where
      h': "pbuf_copy_loop h1 p_to2 p_from2 ot2 off2 = Some (ERR_OK, h')" "same_shape h1 h'"
        "content h' ts2 = patch ot2 (drop k ?D) (content h1 ts2)"
        "\<forall>x. pblock h x \<notin> pblock h ` set ts2 \<longrightarrow> pdata h' x = pdata h1 x"
      unfolding rest blk by blast
    have D: "?D = s1 @ drop k ?D" unfolding s1_D by (simp only: append_take_drop_id)
    have "content h' ts = patch ot ?D (content h ts)"
    proof (cases adv_t)
      case True
      then have ts2: "ts2 = ts'" "ot2 = 0" by (simp_all add: ts2_def ot2_def)
      have "pblock h p_to \<notin> pblock h ` set ts'"
        using prems(7) t(1) by (auto simp: separate_Cons)
      then have "pdata h' p_to = patch ot s1 (pdata h p_to)" using h'(4) h1(6) ts2 by simp
      then have "content h' ts = patch ot s1 (pdata h p_to) @ patch 0 (drop k ?D) (content h ts')"
        using h'(3) h1(4) ts2 t(1) by simp
      also have "\<dots> = patch ot (s1 @ drop k ?D) (pdata h p_to @ content h ts')"
        by (rule patch_append_both [symmetric]) (use True s1 t(5) k(2) in \<open>simp_all add: adv_t_def\<close>)
      finally show ?thesis using D t(1) by simp
    next
      case False
      then have "content h' ts = patch (ot + k) (drop k ?D) (patch ot s1 (content h ts))"
        using h'(3) h1(3) t(1) by (simp add: ts2_def ot2_def)
      also have "\<dots> = patch ot (s1 @ drop k ?D) (content h ts)"
      proof -
        have "ot + length ?D \<le> length (content h ts)"
          using len_D prems(9) len_ts t(5) by linarith
        then have "ot + length (s1 @ drop k ?D) \<le> length (content h ts)"
          by (simp only: D [symmetric])
        from patch_patch [OF this] show ?thesis by (simp only: s1)
      qed
      finally show ?thesis using D by simp
    qed
    moreover have "pdata h' x = pdata h x" if "pblock h x \<notin> pblock h ` set ts" for x
    proof -
      have "pblock h x \<notin> pblock h ` set ts2" using that sub(1) by blast
      moreover have "pblock h x \<noteq> pblock h p_to" using that t(1) by auto
      ultimately show ?thesis using h'(4) h1(7) by simp
    qed
    moreover have "same_shape h h'" by (rule same_shape_trans [OF h1(2) h'(2)])
    ultimately show ?thesis unfolding step using False h'(1) by simp
  qed
qed

lemma pbuf_copy_packet:
  assumes "packet h p_to ts" "packet h p_from fs" "p_to \<noteq> 0" "p_from \<noteq> 0"
    and "nonempty h ts" "nonempty h fs" "separate h ts"
    and "\<forall>t \<in> set ts. \<forall>f \<in> set fs. pblock h t \<noteq> pblock h f"
    and "length (content h fs) \<le> length (content h ts)"
  shows "\<exists>h'. pbuf_copy h p_to p_from = Some (ERR_OK, h') \<and> same_shape h h' \<and>
    content h' ts = patch 0 (content h fs) (content h ts) \<and>
    (\<forall>x. pblock h x \<notin> pblock h ` set ts \<longrightarrow> pdata h' x = pdata h x)"
proof -
  obtain t ts' where t: "ts = p_to # ts'" "pbufs h p_to = Some t" "packet h (pb_next t) ts'" "readable h p_to"
    "length (pdata h p_to) = unat (pb_len t)"
    "unat (pb_tot_len t) = unat (pb_len t) + length (content h ts')"
    by (rule packet_nonzero [OF assms(1,3)])
  obtain f fs' where f: "fs = p_from # fs'" "pbufs h p_from = Some f" "packet h (pb_next f) fs'" "readable h p_from"
    "length (pdata h p_from) = unat (pb_len f)"
    "unat (pb_tot_len f) = unat (pb_len f) + length (content h fs')"
    by (rule packet_nonzero [OF assms(2,4)])
  have "pb_tot_len f \<le> pb_tot_len t" using assms(9) t f by (simp add: word_le_nat_alt)
  moreover have "0 < length (pdata h p_to)" "0 < length (pdata h p_from)"
    using assms(5,6) t(1) f(1) by simp_all
  ultimately show ?thesis
    using copy_loop [OF assms(1-8), of 0 0] assms(3,4,9) t(2) f(2) by (simp add: pbuf_copy_def)
qed

end
