(* ===== verification/Lwip_Pbuf_Chain.thy ===== *)
theory Lwip_Pbuf_Chain
  imports Lwip_Pbuf
begin

text \<open>
  The functions of \<^verbatim>\<open>pbuf.c\<close> that change the structure of chains: their effect on the heap, for
  chains of pbufs that are not custom and have a valid reference count.
\<close>

section \<open>Heaps that agree on a pbuf\<close>

lemma put_pbuf_simps [simp]:
  "pbufs (put_pbuf h p b) = (pbufs h)(p := Some b)" "blocks (put_pbuf h p b) = blocks h"
  "nxt_addr (put_pbuf h p b) = nxt_addr h" "malloc_ok (put_pbuf h p b) = malloc_ok h"
  "junk (put_pbuf h p b) = junk h"
  by (simp_all add: put_pbuf_def)

lemma mem_free_simps [simp]:
  "pbufs (mem_free h p) = (pbufs h)(p := None)" "blocks (mem_free h p) = (blocks h)(p := None)"
  "nxt_addr (mem_free h p) = nxt_addr h" "malloc_ok (mem_free h p) = malloc_ok h"
  "junk (mem_free h p) = junk h" "base_addr (mem_free h p) = base_addr h"
  "ooseq_pending (mem_free h p) = ooseq_pending h" "heap.more (mem_free h p) = heap.more h"
  by (simp_all add: mem_free_def)

lemma put_pbuf_same: "pbufs h p = Some b \<Longrightarrow> put_pbuf h p b = h"
  by (simp add: put_pbuf_def fun_upd_idem)

lemma put_put [simp]: "put_pbuf (put_pbuf h p b) p c = put_pbuf h p c"
  by (simp add: put_pbuf_def)

lemma lseg_put: "a \<notin> set as \<Longrightarrow> lseg (put_pbuf h a b) p as q = lseg h p as q"
  by (rule lseg_cong) auto

text \<open>Two heaps give a pbuf the same data.\<close>

definition same_data :: "heap \<Rightarrow> heap \<Rightarrow> nat \<Rightarrow> bool" where
  "same_data h h' a =
     (map_option (\<lambda>b. (pb_payload b, pb_len b)) (pbufs h' a) = map_option (\<lambda>b. (pb_payload b, pb_len b)) (pbufs h a)
      \<and> blocks h' (pblock h a) = blocks h (pblock h a))"

lemma same_data_mem_read:
  assumes "same_data h h' a" "pbufs h a = Some b"
  shows "mem_read h' (pb_payload b) off n = mem_read h (pb_payload b) off n"
  using assms by (auto simp: same_data_def mem_read_def pblock_def split: vptr.splits)

lemma same_data_D:
  assumes "same_data h h' a"
  shows "readable h' a = readable h a" "pdata h' a = pdata h a" "pblock h' a = pblock h a"
proof -
  consider (none) "pbufs h a = None" "pbufs h' a = None"
    | (some) b b' where "pbufs h a = Some b" "pbufs h' a = Some b'"
        "pb_payload b' = pb_payload b" "pb_len b' = pb_len b"
    using assms by (cases "pbufs h a"; cases "pbufs h' a") (auto simp: same_data_def)
  then have "readable h' a = readable h a \<and> pdata h' a = pdata h a \<and> pblock h' a = pblock h a"
  proof cases
    case some
    then show ?thesis using same_data_mem_read [OF assms some(1)]
      by (simp add: readable_def pdata_def pblock_def)
  qed (simp add: readable_def pdata_def pblock_def)
  then show "readable h' a = readable h a" "pdata h' a = pdata h a" "pblock h' a = pblock h a"
    by simp_all
qed

lemma same_data_content:
  "(\<And>a. a \<in> set as \<Longrightarrow> same_data h h' a) \<Longrightarrow> content h' as = content h as"
  by (rule content_other) (simp add: same_data_D)

lemma same_data_readable:
  "(\<And>a. a \<in> set as \<Longrightarrow> same_data h h' a) \<Longrightarrow> list_all (readable h') as = list_all (readable h) as"
  using same_data_D(1) [of h h'] by (auto simp: list_all_iff)

lemma totals_cong:
  assumes "\<And>a. a \<in> set as \<Longrightarrow> same_data h h' a"
    and "\<And>a. a \<in> set as \<Longrightarrow> map_option pb_tot_len (pbufs h' a) = map_option pb_tot_len (pbufs h a)"
  shows "totals h' as = totals h as"
  using assms
proof (induction as)
  case (Cons a as)
  have "content h' (a # as) = content h (a # as)"
    by (rule same_data_content) (simp add: Cons.prems)
  moreover have "map_option pb_tot_len (pbufs h' a) = map_option pb_tot_len (pbufs h a)"
    by (simp add: Cons.prems)
  moreover have "totals h' as = totals h as" by (rule Cons.IH) (simp_all add: Cons.prems)
  ultimately show ?case by (cases "pbufs h a"; cases "pbufs h' a") simp_all
qed simp

text \<open>Two heaps agree on the pbufs of a list: fields that shape the packet and data.\<close>

definition agree :: "heap \<Rightarrow> heap \<Rightarrow> nat \<Rightarrow> bool" where
  "agree h h' a = (map_option (\<lambda>b. (pb_next b, pb_payload b, pb_tot_len b, pb_len b)) (pbufs h' a)
       = map_option (\<lambda>b. (pb_next b, pb_payload b, pb_tot_len b, pb_len b)) (pbufs h a)
     \<and> blocks h' (pblock h a) = blocks h (pblock h a))"

lemma agree_D:
  assumes "agree h h' a"
  shows "same_data h h' a" "map_option pb_next (pbufs h' a) = map_option pb_next (pbufs h a)"
    "map_option pb_tot_len (pbufs h' a) = map_option pb_tot_len (pbufs h a)"
  using assms by (cases "pbufs h a"; cases "pbufs h' a"; simp add: agree_def same_data_def)+

lemma agree_packet:
  assumes "\<And>a. a \<in> set as \<Longrightarrow> agree h h' a" "packet h p as"
  shows "packet h' p as" "content h' as = content h as"
proof -
  have "lseg h p as 0 = lseg h' p as 0"
    by (rule lseg_cong) (simp add: agree_D(2) [OF assms(1)])
  moreover have "totals h' as = totals h as"
    by (rule totals_cong) (simp_all add: agree_D [OF assms(1)])
  moreover have "list_all (readable h') as = list_all (readable h) as"
    by (rule same_data_readable) (simp add: agree_D [OF assms(1)])
  ultimately show "packet h' p as" using assms(2) by (simp add: packet_def)
  show "content h' as = content h as"
    by (rule same_data_content) (simp add: agree_D [OF assms(1)])
qed

lemma packet_distinct: "packet h p as \<Longrightarrow> distinct as"
  unfolding packet_def using chain_distinct by blast

lemma agree_put [simp]: "a \<noteq> p \<Longrightarrow> agree h (put_pbuf h p b) a"
  by (simp add: agree_def)

section \<open>Freeing\<close>

text \<open>A pbuf that \<^verbatim>\<open>pbuf_free\<close> accepts and frees itself.\<close>

definition owned :: "heap \<Rightarrow> nat \<Rightarrow> bool" where
  "owned h a = (case pbufs h a of None \<Rightarrow> False
     | Some b \<Rightarrow> pb_ref b > 0 \<and> pb_flags b AND PBUF_FLAG_IS_CUSTOM = 0 \<and>
         (pbuf_get_allocsrc b = 0 \<or> pbuf_get_allocsrc b = 1 \<or> pbuf_get_allocsrc b = 2))"

definition ref_is :: "heap \<Rightarrow> nat \<Rightarrow> u8 \<Rightarrow> bool" where
  "ref_is h a r = (map_option pb_ref (pbufs h a) = Some r)"

text \<open>
  What dropping the reference to a chain means: the longest prefix of pbufs with the single
  reference 1 disappears and the pbuf after it, if any, loses one reference.
\<close>

definition sole :: "heap \<Rightarrow> nat list \<Rightarrow> nat list" where
  "sole h as = takeWhile (\<lambda>a. ref_is h a 1) as"

definition release :: "heap \<Rightarrow> nat list \<Rightarrow> heap" where
  "release h as =
     h\<lparr>pbufs := (\<lambda>x. if x \<in> set (sole h as) then None
         else if length (sole h as) < length as \<and> x = as ! length (sole h as)
           then map_option (\<lambda>b. b\<lparr>pb_ref := pb_ref b - 1\<rparr>) (pbufs h x)
         else pbufs h x),
       blocks := (\<lambda>x. if x \<in> set (sole h as) then None else blocks h x)\<rparr>"

lemma release_Nil [simp]: "release h [] = h"
  by (simp add: release_def sole_def)

lemma sole_cong:
  "(\<And>a. a \<in> set as \<Longrightarrow> pbufs h' a = pbufs h a) \<Longrightarrow> sole h' as = sole h as"
  unfolding sole_def by (rule takeWhile_cong) (simp_all add: ref_is_def)

lemma set_sole_subset: "set (sole h as) \<subseteq> set as"
  unfolding sole_def by (auto dest: set_takeWhileD)

lemma release_Cons_sole:
  assumes "ref_is h a 1" "a \<notin> set as"
  shows "release h (a # as) = release (mem_free h a) as"
proof -
  have s: "sole (mem_free h a) as = sole h as"
    by (rule sole_cong) (use assms(2) in auto)
  have "sole h (a # as) = a # sole h as" using assms(1) by (simp add: sole_def)
  then show ?thesis
    using assms(2) set_sole_subset [of h as]
    by (intro heap.equality) (auto simp: release_def s fun_eq_iff)
qed

lemma release_Cons_shared:
  assumes "\<not> ref_is h a 1" "pbufs h a = Some b"
  shows "release h (a # as) = put_pbuf h a (b\<lparr>pb_ref := pb_ref b - 1\<rparr>)"
proof -
  have "sole h (a # as) = []" using assms(1) by (simp add: sole_def)
  then show ?thesis using assms(2) by (auto simp: release_def put_pbuf_def fun_eq_iff)
qed

lemma pbuf_free_loop_release:
  assumes "chain h p as" "list_all (owned h) as"
  shows "pbuf_free_loop h p c = Some (c + of_nat (length (sole h as)), release h as)"
  using assms
proof (induction as arbitrary: h p c)
  case Nil
  then show ?case by (simp add: pbuf_free_loop.simps sole_def)
next
  case (Cons a as)
  then obtain b where b: "p = a" "a \<noteq> 0" "pbufs h a = Some b" "chain h (pb_next b) as"
    by (auto split: option.splits)
  have notin: "a \<notin> set as" using chain_distinct [OF Cons.prems(1)] by simp
  have own: "pb_ref b > 0" "pb_flags b AND PBUF_FLAG_IS_CUSTOM = 0"
    "pbuf_get_allocsrc b = 2 \<or> pbuf_get_allocsrc b = 1 \<or> pbuf_get_allocsrc b = 0"
    using Cons.prems(2) b(3) by (auto simp: owned_def)
  show ?case
  proof (cases "pb_ref b = 1")
    case True
    let ?h = "mem_free (put_pbuf h a (b\<lparr>pb_ref := 0\<rparr>)) a"
    have h: "?h = mem_free h a" by (simp add: mem_free_def put_pbuf_def del: mem_free_simps)
    have pb: "pbufs (mem_free h a) x = pbufs h x" if "x \<in> set as" for x
      using that notin by auto
    have "chain (mem_free h a) (pb_next b) as"
      using b(4) lseg_cong [of as h "mem_free h a"] pb by simp
    moreover have "list_all (owned (mem_free h a)) as"
      using Cons.prems(2) pb by (simp add: list_all_iff owned_def)
    ultimately have IH: "pbuf_free_loop (mem_free h a) (pb_next b) (c + 1)
      = Some (c + 1 + of_nat (length (sole (mem_free h a) as)), release (mem_free h a) as)"
      by (rule Cons.IH)
    have s: "sole (mem_free h a) as = sole h as" by (rule sole_cong) (rule pb)
    have "pbuf_free_loop h p c = pbuf_free_loop (mem_free h a) (pb_next b) (c + 1)"
      using b(1-3) own True by (subst pbuf_free_loop.simps) (simp add: Let_def h)
    moreover have "ref_is h a 1" using True b(3) by (simp add: ref_is_def)
    ultimately show ?thesis
      using IH release_Cons_sole [OF _ notin] by (simp add: s) (simp add: sole_def)
  next
    case False
    then have "\<not> ref_is h a 1" using b(3) by (simp add: ref_is_def)
    moreover have "pb_ref b - 1 \<noteq> 0" using False by simp
    ultimately show ?thesis
      using release_Cons_shared [of h a b as] b(1-3) own False
      by (subst pbuf_free_loop.simps) (simp add: Let_def sole_def)
  qed
qed

lemma pbuf_free_release:
  "chain h p as \<Longrightarrow> list_all (owned h) as \<Longrightarrow> p \<noteq> 0 \<Longrightarrow>
   pbuf_free h p = Some (of_nat (length (sole h as)), release h as)"
  by (simp add: pbuf_free_def pbuf_free_loop_release)

section \<open>Concatenation\<close>

text \<open>The walk adds the length of the second chain to every pbuf but the last.\<close>

definition bump :: "heap \<Rightarrow> nat list \<Rightarrow> u16 \<Rightarrow> heap" where
  "bump h as d = h\<lparr>pbufs := (\<lambda>x. if x \<in> set as
     then map_option (\<lambda>b. b\<lparr>pb_tot_len := pb_tot_len b + d\<rparr>) (pbufs h x) else pbufs h x)\<rparr>"

lemma bump_simps [simp]:
  "pbufs (bump h as d) x = (if x \<in> set as
     then map_option (\<lambda>b. b\<lparr>pb_tot_len := pb_tot_len b + d\<rparr>) (pbufs h x) else pbufs h x)"
  "blocks (bump h as d) = blocks h"
  by (simp_all add: bump_def)

lemma bump_Nil [simp]: "bump h [] d = h"
  by (simp add: bump_def)

lemma bump_Cons:
  "pbufs h a = Some b \<Longrightarrow> a \<notin> set as \<Longrightarrow>
   bump (put_pbuf h a (b\<lparr>pb_tot_len := pb_tot_len b + d\<rparr>)) as d = bump h (a # as) d"
  by (rule heap.equality) (auto simp: bump_def put_pbuf_def fun_eq_iff)

lemma cat_walk_bump:
  assumes "chain h p as" "as \<noteq> []" "t \<notin> set as" "pbufs h t = Some tb"
  shows "cat_walk h p t = Some (last as, bump h (butlast as) (pb_tot_len tb))"
  using assms
proof (induction as arbitrary: h p)
  case (Cons a as)
  then obtain b where b: "p = a" "a \<noteq> 0" "pbufs h a = Some b" "chain h (pb_next b) as"
    by (auto split: option.splits)
  have notin: "a \<notin> set as" using chain_distinct [OF Cons.prems(1)] by simp
  show ?case
  proof (cases "as = []")
    case True
    then show ?thesis using b by (subst cat_walk.simps) simp
  next
    case False
    then have "pb_next b \<noteq> 0" using b(4) by (cases as) (auto split: option.splits)
    let ?h = "put_pbuf h a (b\<lparr>pb_tot_len := pb_tot_len b + pb_tot_len tb\<rparr>)"
    have "chain ?h (pb_next b) as"
      using b(4) notin by (simp add: lseg_put)
    moreover have "pbufs ?h t = Some tb" using Cons.prems(3,4) by simp
    ultimately have "cat_walk ?h (pb_next b) t = Some (last as, bump ?h (butlast as) (pb_tot_len tb))"
      using Cons.IH False Cons.prems(3) by simp
    moreover have "a \<notin> set (butlast as)" using notin in_set_butlastD by metis
    ultimately show ?thesis
      using b False \<open>pb_next b \<noteq> 0\<close> Cons.prems(4)
      by (subst cat_walk.simps) (simp add: bump_Cons)
  qed
qed simp

lemma packet_append:
  assumes "packet h p (as @ bs)"
  obtains r where "lseg h p as r" "packet h r bs" "list_all (readable h) as"
  using assms
proof (induction as arbitrary: p thesis)
  case (Cons a as)
  obtain b where b: "p = a" "a \<noteq> 0" "pbufs h a = Some b" "packet h (pb_next b) (as @ bs)" "readable h a"
    "length (pdata h a) = unat (pb_len b)"
    "unat (pb_tot_len b) = unat (pb_len b) + length (content h (as @ bs))"
    using Cons.prems(2) packet_Cons by (metis append_Cons)
  obtain r where "lseg h (pb_next b) as r" "packet h r bs" "list_all (readable h) as"
    by (rule Cons.IH [OF _ b(4)])
  then show ?case using b by (intro Cons.prems(1)) simp_all
qed simp

text \<open>A packet put together from a list segment and a packet.\<close>

lemma totals_appendI:
  assumes "totals h bs"
    and "\<And>xs a ys. as = xs @ a # ys \<Longrightarrow> \<exists>b. pbufs h a = Some b \<and>
      unat (pb_tot_len b) = length (content h (a # ys)) + length (content h bs)"
  shows "totals h (as @ bs)"
  using assms(2)
proof (induction as)
  case (Cons a as)
  have "totals h (as @ bs)"
    by (rule Cons.IH) (metis Cons.prems append_Cons)
  moreover obtain b where "pbufs h a = Some b"
    "unat (pb_tot_len b) = length (content h (a # as)) + length (content h bs)"
    using Cons.prems [of "[]" a as] by auto
  ultimately show ?case by simp
qed (simp add: assms(1))

lemma totals_at:
  "totals h (xs @ a # ys) \<Longrightarrow> \<exists>b. pbufs h a = Some b \<and> unat (pb_tot_len b) = length (content h (a # ys))"
  by (induction xs) (auto split: option.splits)

definition cat_heap :: "heap \<Rightarrow> nat list \<Rightarrow> nat \<Rightarrow> u16 \<Rightarrow> heap" where
  "cat_heap h as t d = h\<lparr>pbufs := (\<lambda>x. if x \<in> set as
     then map_option (\<lambda>b. b\<lparr>pb_tot_len := pb_tot_len b + d, pb_next := if x = last as then t else pb_next b\<rparr>)
       (pbufs h x) else pbufs h x)\<rparr>"

lemma pbuf_cat_heap:
  assumes "packet h p as" "p \<noteq> 0" "t \<noteq> 0" "t \<notin> set as" "pbufs h t = Some tb"
  shows "pbuf_cat h p t = Some (cat_heap h as t (pb_tot_len tb))"
proof -
  have c: "chain h p as" "as \<noteq> []" using assms(1,2) by (auto simp: packet_def)
  then obtain xs l where as: "as = xs @ [l]" by (cases as rule: rev_cases) auto
  obtain b where b: "pbufs h l = Some b" "unat (pb_tot_len b) = length (content h [l])"
    using assms(1) totals_at [of h xs l "[]"] by (auto simp: packet_def as)
  have "readable h l" using assms(1) by (simp add: packet_def as)
  then have len: "pb_tot_len b = pb_len b"
    using b length_pdata [of h l b] by (simp add: word_unat_eq_iff)
  have "chain h l [l]" using c(1) by (auto simp: as lseg_append split: option.splits)
  then have next0: "pb_next b = 0" using b(1) by simp
  have l: "l \<notin> set xs" using chain_distinct [OF c(1)] by (simp add: as)
  have walk: "cat_walk h p t = Some (l, bump h xs (pb_tot_len tb))"
    using cat_walk_bump [OF c assms(4,5)] by (simp add: as)
  have "t \<notin> set xs" "t \<noteq> l" using assms(4) by (simp_all add: as)
  then have "pbuf_cat h p t = Some (put_pbuf (bump h xs (pb_tot_len tb)) l
    (b\<lparr>pb_tot_len := pb_tot_len b + pb_tot_len tb, pb_next := t\<rparr>))"
    using assms(2,3,5) walk b(1) len next0 l by (simp add: pbuf_cat_def)
  also have "put_pbuf (bump h xs (pb_tot_len tb)) l (b\<lparr>pb_tot_len := pb_tot_len b + pb_tot_len tb, pb_next := t\<rparr>)
    = cat_heap h as t (pb_tot_len tb)"
  proof -
    have "map_option (\<lambda>b. b\<lparr>pb_tot_len := pb_tot_len b + pb_tot_len tb\<rparr>) (pbufs h x)
      = map_option (\<lambda>b. b\<lparr>pb_tot_len := pb_tot_len b + pb_tot_len tb, pb_next := pb_next b\<rparr>) (pbufs h x)" for x
      by (rule option.map_cong) simp_all
    then show ?thesis using b(1) l
      by (intro heap.equality) (auto simp: cat_heap_def bump_def put_pbuf_def as fun_eq_iff)
  qed
  finally show ?thesis .
qed

lemma pbuf_cat_packet:
  assumes "packet h p as" "packet h t bs" "p \<noteq> 0" "t \<noteq> 0" "set as \<inter> set bs = {}"
    and "length (content h as) + length (content h bs) < 65536"
  obtains tb where "pbufs h t = Some tb" "pbuf_cat h p t = Some (cat_heap h as t (pb_tot_len tb))"
    "packet (cat_heap h as t (pb_tot_len tb)) p (as @ bs)"
    "content (cat_heap h as t (pb_tot_len tb)) (as @ bs) = content h as @ content h bs"
proof -
  obtain tb bs' where tb: "bs = t # bs'" "pbufs h t = Some tb" "packet h (pb_next tb) bs'" "readable h t"
    "length (pdata h t) = unat (pb_len tb)"
    "unat (pb_tot_len tb) = unat (pb_len tb) + length (content h bs')"
    by (rule packet_nonzero [OF assms(2,4)])
  let ?d = "pb_tot_len tb"
  let ?h = "cat_heap h as t ?d"
  have tnot: "t \<notin> set as" using assms(5) tb(1) by auto
  have d: "unat ?d = length (content h bs)" using tb by simp
  have cat: "pbuf_cat h p t = Some ?h"
    by (rule pbuf_cat_heap [OF assms(1,3,4) tnot tb(2)])
  have sd: "same_data h ?h x" for x
    by (cases "pbufs h x") (simp_all add: same_data_def cat_heap_def)
  have c: "content ?h xs = content h xs" for xs by (rule same_data_content) (rule sd)
  have "agree h ?h x" if "x \<in> set bs" for x
    using that assms(5) by (auto simp: agree_def cat_heap_def)
  then have pt: "packet ?h t bs" by (rule agree_packet(1)) (use assms(2) in auto)
  have tot: "totals ?h (as @ bs)"
  proof (rule totals_appendI)
    show "totals ?h bs" using pt by (simp add: packet_def)
    fix xs a ys assume as: "as = xs @ a # ys"
    obtain b where b: "pbufs h a = Some b" "unat (pb_tot_len b) = length (content h (a # ys))"
      using assms(1) totals_at [of h xs a ys] by (auto simp: packet_def as)
    have "unat (pb_tot_len b) + unat ?d < 65536"
      using b(2) d assms(6) by (simp add: as)
    then have "unat (pb_tot_len b + ?d) = unat (pb_tot_len b) + unat ?d" by (rule unat_add_u16_small)
    then show "\<exists>b. pbufs ?h a = Some b \<and>
      unat (pb_tot_len b) = length (content ?h (a # ys)) + length (content ?h bs)"
      using b d unfolding c by (auto simp: cat_heap_def as)
  qed
  have seg: "lseg ?h p as t"
  proof -
    have as: "as \<noteq> []" using assms(1,3) by (auto simp: packet_def)
    then obtain xs l where as: "as = xs @ [l]" by (cases as rule: rev_cases) auto
    have c0: "chain h p (xs @ [l])" using assms(1) by (simp add: packet_def as)
    then have l: "l \<notin> set xs" using chain_distinct by force
    have "lseg h p xs l" using c0 by (auto simp: lseg_append split: option.splits)
    moreover have "lseg h p xs l = lseg ?h p xs l"
    proof (rule lseg_cong)
      fix x assume "x \<in> set xs"
      then show "map_option pb_next (pbufs h x) = map_option pb_next (pbufs ?h x)"
        using l by (cases "pbufs h x") (auto simp: cat_heap_def as)
    qed
    moreover obtain b where "pbufs h l = Some b" "l \<noteq> 0"
      using c0 by (auto simp: lseg_append split: option.splits)
    ultimately show ?thesis by (auto simp: as lseg_append cat_heap_def)
  qed
  have "list_all (readable ?h) (as @ bs)"
    using assms(1,2) same_data_readable [of as h ?h, OF sd] same_data_readable [of bs h ?h, OF sd]
    by (simp add: packet_def)
  then have "packet ?h p (as @ bs)"
    using seg pt tot unfolding packet_def by (auto simp: lseg_append)
  have "content ?h (as @ bs) = content h as @ content h bs" by (simp only: content_append c)
  then show thesis using tb(2) cat \<open>packet ?h p (as @ bs)\<close> by (intro that)
qed

section \<open>Chaining and dechaining\<close>

lemma pbuf_dechain_chain:
  assumes "packet h p [p]" "packet h t bs" "t \<noteq> 0" "p \<notin> set bs"
    and "pbufs h t = Some tb" "pb_ref tb > 0" "pb_ref tb < 255"
    and "length (content h [p]) + length (content h bs) < 65536"
  shows "\<exists>h'. pbuf_chain h p t = Some h' \<and> packet h' p (p # bs) \<and>
    content h' (p # bs) = content h [p] @ content h bs \<and> pbuf_dechain h' p = Some (t, h)"
proof -
  have p0: "p \<noteq> 0" using assms(1) by (auto simp: packet_def split: option.splits)
  obtain b where b: "p = p" "p \<noteq> 0" "pbufs h p = Some b" "packet h (pb_next b) []" "readable h p"
    "length (pdata h p) = unat (pb_len b)"
    "unat (pb_tot_len b) = unat (pb_len b) + length (content h [])"
    by (rule packet_Cons [OF assms(1)])
  have next0: "pb_next b = 0" and len: "pb_tot_len b = pb_len b"
    using b(4,7) by (simp_all add: packet_def word_unat_eq_iff)
  have pt: "p \<noteq> t" using assms(2-4) by (auto elim: packet_nonzero)
  let ?d = "pb_tot_len tb"
  let ?h1 = "cat_heap h [p] t ?d"
  have cat: "pbuf_cat h p t = Some ?h1" "packet ?h1 p ([p] @ bs)"
    "content ?h1 ([p] @ bs) = content h [p] @ content h bs"
    using pbuf_cat_packet [OF assms(1,2) p0 assms(3) _ assms(8)] assms(4,5) by auto
  have t1: "pbufs ?h1 t = Some tb" using assms(5) pt by (simp add: cat_heap_def)
  let ?tb = "tb\<lparr>pb_ref := pb_ref tb + 1\<rparr>"
  let ?h2 = "put_pbuf ?h1 t ?tb"
  have r: "unat (pb_ref tb) + unat (1 :: u8) < 256"
    using assms(7) by (simp add: word_less_nat_alt)
  then have ref: "pb_ref tb + 1 > 0" "pb_ref tb + 1 - 1 = pb_ref tb"
    by (simp_all add: word_less_nat_alt unat_word_ariths)
  have chain: "pbuf_chain h p t = Some ?h2"
    using cat(1) assms(3) t1 ref(1) by (simp add: pbuf_chain_def pbuf_ref_def)
  have agree: "agree ?h1 ?h2 x" for x
    using t1 by (cases "x = t") (simp_all add: agree_def)
  have p2: "packet ?h2 p (p # bs)" "content ?h2 (p # bs) = content h [p] @ content h bs"
    using agree_packet [of "[p] @ bs" ?h1 ?h2 p, OF agree cat(2)] cat(3) by simp_all
  have tot: "unat (pb_tot_len b + ?d) = unat (pb_tot_len b) + unat ?d"
  proof (rule unat_add_u16_small)
    obtain bs' where "unat ?d = unat (pb_len tb) + length (content h bs')" "bs = t # bs'"
      "length (pdata h t) = unat (pb_len tb)"
      using packet_nonzero [OF assms(2,3)] assms(5) by (metis option.inject)
    then show "unat (pb_tot_len b) + unat ?d < 65536" using assms(8) b(6) len by simp
  qed
  let ?b1 = "b\<lparr>pb_tot_len := pb_tot_len b + ?d, pb_next := t\<rparr>"
  have h2: "pbufs ?h2 p = Some ?b1" "pbufs ?h2 t = Some ?tb"
    using b(3) pt by (simp_all add: cat_heap_def)
  have d: "pb_tot_len b + ?d - pb_len b = ?d" by (simp add: len)
  let ?h3 = "put_pbuf (put_pbuf ?h2 t (?tb\<lparr>pb_tot_len := ?d\<rparr>)) p (?b1\<lparr>pb_next := 0, pb_tot_len := pb_len b\<rparr>)"
  have h3: "pbufs ?h3 t = Some ?tb" using pt by simp
  have "pbuf_free ?h3 t = Some (0, put_pbuf ?h3 t (?tb\<lparr>pb_ref := pb_ref tb\<rparr>))"
    unfolding pbuf_free_def using assms(3,6) ref h3
    by (subst pbuf_free_loop.simps) (simp add: word_gt_0 Let_def del: put_pbuf_simps)
  moreover have "put_pbuf ?h3 t (?tb\<lparr>pb_ref := pb_ref tb\<rparr>) = h"
    using b(3) assms(5) next0 len pt
    by (intro heap.equality) (auto simp: cat_heap_def put_pbuf_def fun_eq_iff)
  ultimately have free: "pbuf_free ?h3 t = Some (0, h)" by simp
  have "pbuf_dechain ?h2 p = Some (t, h)"
    unfolding pbuf_dechain_def
    using h2 assms(3) pt tot len d free b(3)
    by (simp del: put_put add: Let_def)
  then show ?thesis using chain p2 by blast
qed

section \<open>Headers\<close>

text \<open>Hiding a header: the first bytes of the packet disappear.\<close>

lemma drop_payload:
  assumes "pb_payload b = VPtr blk d" "n \<le> unat (pb_len b)" "readable h a" "pbufs h a = Some b"
    and "h' = put_pbuf h a (b\<lparr>pb_payload := VPtr blk (d + n), pb_len := pb_len b - of_nat n, pb_tot_len := t\<rparr>)"
  shows "readable h' a" "pdata h' a = drop n (pdata h a)" "unat (pb_len b - of_nat n) = unat (pb_len b) - n"
proof -
  have "n < 65536" using assms(2) unat_u16_less [of "pb_len b"] by linarith
  then have n: "unat (of_nat n :: u16) = n" by (rule unat_of_nat_u16)
  then show len: "unat (pb_len b - of_nat n) = unat (pb_len b) - n"
    using assms(2) by (subst unat_sub_u16) (simp_all add: word_le_nat_alt)
  have rd: "mem_read h' (VPtr blk (d + n)) 0 (unat (pb_len b) - n) = Some (drop n (pdata h a))"
  proof (cases "unat (pb_len b) - n = 0")
    case True
    then have "drop n (pdata h a) = []" using length_pdata [OF assms(3,4)] by simp
    then show ?thesis using True by (simp add: mem_read_def)
  next
    case False
    then obtain bs where "blocks h blk = Some bs" "d + unat (pb_len b) \<le> length bs"
      using assms(1,3,4) by (auto simp: readable_def mem_read_def buf_read_def bind_eq_Some_conv split: if_splits)
    then show ?thesis using False assms(1,4,5)
      by (simp add: mem_read_def buf_read_def pdata_def drop_take add.commute)
  qed
  then show "readable h' a" "pdata h' a = drop n (pdata h a)"
    using assms(5) by (simp_all add: readable_def pdata_def len)
qed

lemma pbuf_remove_header_packet:
  assumes "packet h p as" "p \<noteq> 0" "pbufs h p = Some b" "n \<le> unat (pb_len b)"
  shows "\<exists>h'. pbuf_remove_header h p n = Some (0, h') \<and> packet h' p as \<and> content h' as = drop n (content h as)
     \<and> (\<exists>b'. h' = put_pbuf h p b' \<and> pb_ref b' = pb_ref b \<and> pb_flags b' = pb_flags b \<and>
          pb_type_internal b' = pb_type_internal b)"
proof (cases "n = 0")
  case True
  then show ?thesis using assms(1-3) put_pbuf_same [OF assms(3)]
    by (auto simp: pbuf_remove_header_def intro!: exI [of _ b])
next
  case False
  obtain b0 bs where b0: "as = p # bs" "pbufs h p = Some b0" "packet h (pb_next b0) bs" "readable h p"
    "length (pdata h p) = unat (pb_len b0)"
    "unat (pb_tot_len b0) = unat (pb_len b0) + length (content h bs)"
    by (rule packet_nonzero [OF assms(1,2)])
  then have [simp]: "b0 = b" using assms(3) by simp
  have "n < 65536" using assms(4) unat_u16_less [of "pb_len b"] by linarith
  then have n: "unat (of_nat n :: u16) = n" "\<not> n > 0xFFFF" by (simp_all add: unat_of_nat_u16)
  then have le: "(of_nat n :: u16) \<le> pb_len b" using assms(4) by (simp add: word_le_nat_alt)
  obtain blk d where v: "pb_payload b = VPtr blk d"
    using b0(4) assms(3,4) False by (auto simp: readable_def mem_read_def split: vptr.splits if_splits)
  let ?b = "b\<lparr>pb_payload := VPtr blk (d + n), pb_len := pb_len b - of_nat n, pb_tot_len := pb_tot_len b - of_nat n\<rparr>"
  let ?h = "put_pbuf h p ?b"
  have run: "pbuf_remove_header h p n = Some (0, ?h)"
    using assms(2,3) False n le v by (simp add: pbuf_remove_header_def Let_def)
  note dp = drop_payload [where t = "pb_tot_len b - of_nat n", OF v assms(4) b0(4) assms(3) refl]
  have notin: "p \<notin> set bs" using packet_distinct [OF assms(1)] b0(1) by simp
  have ag: "agree h ?h x" if "x \<in> set bs" for x using that notin by (intro agree_put) auto
  have bs: "packet ?h (pb_next b) bs" "content ?h bs = content h bs"
    using agree_packet [of bs h ?h, OF ag] b0(3) by simp_all
  have tot: "unat (pb_tot_len b - of_nat n) = unat (pb_tot_len b) - n"
    using b0(6) assms(4) n by (subst unat_sub_u16) (simp_all add: word_le_nat_alt)
  have "packet ?h p as"
    using bs dp assms(2,4) b0(1,5,6) tot unfolding packet_def by simp
  moreover have "content ?h as = drop n (content h as)"
    using bs dp b0(1,5) assms(4) by simp
  ultimately show ?thesis using run by (intro exI [of _ ?h] conjI exI [of _ ?b]) simp_all
qed

text \<open>Revealing a hidden header again restores the heap.\<close>

lemma pbuf_add_header_remove:
  assumes "pbufs h p = Some b" "p \<noteq> 0" "pb_payload b = VPtr p d" "SIZEOF_STRUCT_PBUF \<le> d"
    and "pb_type_internal b AND PBUF_TYPE_FLAG_STRUCT_DATA_CONTIGUOUS \<noteq> 0"
    and "n \<le> unat (pb_len b)" "pb_len b \<le> pb_tot_len b"
  shows "\<exists>h'. pbuf_remove_header h p n = Some (0, h') \<and> pbuf_add_header h' p n = Some (0, h)"
proof (cases "n = 0")
  case True
  then show ?thesis using assms(2)
    by (simp add: pbuf_remove_header_def pbuf_add_header_def pbuf_add_header_impl_def)
next
  case False
  have "n < 65536" using assms(6) unat_u16_less [of "pb_len b"] by linarith
  then have n: "unat (of_nat n :: u16) = n" "\<not> n > 0xFFFF" by (simp_all add: unat_of_nat_u16)
  then have le: "(of_nat n :: u16) \<le> pb_len b" using assms(6) by (simp add: word_le_nat_alt)
  let ?b = "b\<lparr>pb_payload := VPtr p (d + n), pb_len := pb_len b - of_nat n, pb_tot_len := pb_tot_len b - of_nat n\<rparr>"
  have rem: "pbuf_remove_header h p n = Some (0, put_pbuf h p ?b)"
    using assms(1-3) False n le by (simp add: pbuf_remove_header_def Let_def)
  have "of_nat n + (pb_tot_len b - of_nat n) = pb_tot_len b" by simp
  moreover have "\<not> pb_tot_len b < of_nat n" using le assms(7) by simp
  ultimately have "pbuf_add_header (put_pbuf h p ?b) p n = Some (0, put_pbuf h p b)"
    using assms(2-5) False n
    by (simp add: pbuf_add_header_def pbuf_add_header_impl_def Let_def)
      (rule arg_cong [where f = "put_pbuf h p"], rule pbuf.equality; simp)
  then show ?thesis using rem put_pbuf_same [OF assms(1)] by simp
qed

section \<open>Shrinking\<close>

text \<open>The data of a pbuf do not lie in the allocation of another pbuf of the list.\<close>

definition own_data :: "heap \<Rightarrow> nat list \<Rightarrow> bool" where
  "own_data h as = list_all (\<lambda>a. pblock h a = a \<or> pblock h a \<notin> set as) as"

lemma release_other:
  assumes "x \<notin> set as"
  shows "pbufs (release h as) x = pbufs h x" "blocks (release h as) x = blocks h x"
proof -
  have "x \<notin> set (sole h as)" using assms set_sole_subset by blast
  moreover have "x \<noteq> as ! length (sole h as)" if "length (sole h as) < length as"
    using assms that nth_mem by blast
  ultimately show "pbufs (release h as) x = pbufs h x" "blocks (release h as) x = blocks h x"
    by (auto simp: release_def)
qed

lemma agree_release:
  assumes "x \<notin> set as" "pblock h x \<notin> set as"
  shows "agree h (release h as) x"
  using assms by (simp add: agree_def release_other)

text \<open>The walk subtracts \<^verbatim>\<open>shrink\<close> from the pbufs before the new last one.\<close>

lemma realloc_walk_bump:
  assumes "packet h p as" "p \<noteq> 0" "unat r \<le> length (content h as)"
  obtains xs q ys r' b where "as = xs @ q # ys" "q \<noteq> 0"
    "realloc_walk h p r s = Some (q, r', bump h xs (- s))"
    "unat r = length (content h xs) + unat r'" "r' \<le> pb_len b" "pbufs h q = Some b"
    "packet h (pb_next b) ys"
  using assms
proof (induction as arbitrary: h p r thesis)
  case Nil
  then show ?case by (simp add: packet_def)
next
  case (Cons a as)
  obtain b where b: "p = a" "a \<noteq> 0" "pbufs h a = Some b" "packet h (pb_next b) as" "readable h a"
    "length (pdata h a) = unat (pb_len b)"
    "unat (pb_tot_len b) = unat (pb_len b) + length (content h as)"
    by (rule packet_Cons [OF Cons.prems(2)])
  have notin: "a \<notin> set as" using packet_distinct [OF Cons.prems(2)] by simp
  show ?case
  proof (cases "r > pb_len b")
    case False
    then have "realloc_walk h p r s = Some (a, r, bump h [] (- s))"
      using b(1,3) by (subst realloc_walk.simps) simp
    then show ?thesis
      using b False by (intro Cons.prems(1) [of "[]" a as r b]) simp_all
  next
    case True
    let ?h = "put_pbuf h a (b\<lparr>pb_tot_len := pb_tot_len b - s\<rparr>)"
    have sub: "unat (r - pb_len b) = unat r - unat (pb_len b)" "unat (pb_len b) < unat r"
      using True by (simp_all add: unat_sub_u16 less_imp_le flip: word_less_nat_alt)
    have ag: "agree h ?h x" if "x \<in> set as" for x using that notin by (intro agree_put) auto
    have p1: "packet ?h (pb_next b) as" "content ?h as = content h as"
      using agree_packet [of as h ?h, OF ag b(4)] by simp_all
    have len1: "unat (r - pb_len b) \<le> length (content ?h as)"
      using Cons.prems(4) b(6) sub p1(2) by simp
    have nz: "pb_next b \<noteq> 0"
    proof
      assume "pb_next b = 0"
      then have "as = []" using b(4) by simp
      then show False using Cons.prems(4) b(6) sub by simp
    qed
    obtain xs q ys r' b' where IH: "as = xs @ q # ys" "q \<noteq> 0"
      "realloc_walk ?h (pb_next b) (r - pb_len b) s = Some (q, r', bump ?h xs (- s))"
      "unat (r - pb_len b) = length (content ?h xs) + unat r'" "r' \<le> pb_len b'"
      "pbufs ?h q = Some b'" "packet ?h (pb_next b') ys"
      by (rule Cons.IH [OF _ p1(1) nz len1])
    have step: "realloc_walk h p r s = Some (q, r', bump h (a # xs) (- s))"
      using b(1,3) True nz IH(3) bump_Cons [of h a b xs "- s"] notin IH(1)
      by (subst realloc_walk.simps) simp
    have xs: "content ?h xs = content h xs"
      by (rule content_other, rule same_data_D(2), rule agree_D(1), rule ag) (simp add: IH(1))
    have "q \<noteq> a" using notin IH(1) by auto
    moreover have "packet h (pb_next b') ys"
    proof -
      have "agree ?h h x" if "x \<in> set ys" for x
        using that notin IH(1) by (auto simp: agree_def)
      then show ?thesis by (rule agree_packet(1)) (use IH(7) in auto)
    qed
    ultimately show ?thesis
      using IH b(6) sub xs step by (intro Cons.prems(1) [of "a # xs" q ys r' b']) simp_all
  qed
qed

lemma pbuf_realloc_packet:
  assumes "packet h p as" "p \<noteq> 0" "list_all (owned h) as" "own_data h as"
    and "unat new_len \<le> length (content h as)"
  shows "\<exists>h' bs cs. pbuf_realloc h p new_len = Some h' \<and> as = bs @ cs \<and> packet h' p bs \<and>
    content h' bs = take (unat new_len) (content h as) \<and>
    (\<forall>x. x \<notin> set as \<longrightarrow> pbufs h' x = pbufs h x \<and> blocks h' x = blocks h x)"
proof -
  obtain b0 bs where b0: "as = p # bs" "pbufs h p = Some b0" "packet h (pb_next b0) bs" "readable h p"
    "length (pdata h p) = unat (pb_len b0)"
    "unat (pb_tot_len b0) = unat (pb_len b0) + length (content h bs)"
    by (rule packet_nonzero [OF assms(1,2)])
  have tot: "unat (pb_tot_len b0) = length (content h as)" using b0 by simp
  show ?thesis
  proof (cases "new_len \<ge> pb_tot_len b0")
    case True
    then have "unat new_len = length (content h as)"
      using assms(5) tot by (simp add: word_le_nat_alt)
    then show ?thesis using True assms(1,2) b0(2)
      by (intro exI [of _ h] exI [of _ as] exI [of _ "[]"]) (simp add: pbuf_realloc_def)
  next
    case False
    define s where "s = pb_tot_len b0 - new_len"
    have s: "unat s = length (content h as) - unat new_len"
      using False tot unfolding s_def by (subst unat_sub_u16) simp_all
    obtain xs q ys r b where w: "as = xs @ q # ys" "q \<noteq> 0"
      "realloc_walk h p new_len s = Some (q, r, bump h xs (- s))"
      "unat new_len = length (content h xs) + unat r" "r \<le> pb_len b" "pbufs h q = Some b"
      "packet h (pb_next b) ys"
      by (rule realloc_walk_bump [OF assms(1,2,5)])
    have dist: "q \<notin> set xs" "q \<notin> set ys" "set xs \<inter> set ys = {}"
      using packet_distinct [OF assms(1)] by (auto simp: w(1))
    let ?h1 = "bump h xs (- s)"
    let ?h2 = "put_pbuf ?h1 q (b\<lparr>pb_len := r, pb_tot_len := r\<rparr>)"
    let ?h3 = "release ?h2 ys"
    let ?b4 = "b\<lparr>pb_len := r, pb_tot_len := r, pb_next := 0\<rparr>"
    let ?h4 = "put_pbuf ?h3 q ?b4"
    have pb2: "pbufs ?h2 x = pbufs h x" if "x \<in> set ys" for x using that dist by auto
    have "chain ?h2 (pb_next b) ys"
      using w(7) lseg_cong [of ys h ?h2] pb2 by (simp add: packet_def)
    have "list_all (owned ?h2) ys"
      using assms(3) pb2 by (simp add: w(1) list_all_iff owned_def)
    have q3: "pbufs ?h3 q = Some (b\<lparr>pb_len := r, pb_tot_len := r\<rparr>)"
      using dist by (simp add: release_other)
    have run: "pbuf_realloc h p new_len = Some ?h4"
    proof (cases "pb_next b = 0")
      case True
      then have "ys = []" using w(7) by (simp add: packet_def)
      then show ?thesis using assms(2) b0(2) False w(2,3,6) dist(1) True
        by (simp add: pbuf_realloc_def s_def [symmetric] Let_def mem_trim_def)
    next
      case nx: False
      then have "pbuf_free ?h2 (pb_next b) = Some (of_nat (length (sole ?h2 ys)), ?h3)"
        using \<open>chain ?h2 (pb_next b) ys\<close> \<open>list_all (owned ?h2) ys\<close> pbuf_free_release [of ?h2 "pb_next b" ys] by simp
      then show ?thesis using assms(2) b0(2) False w(2,3,6) dist(1) nx q3
        by (simp add: pbuf_realloc_def s_def [symmetric] Let_def mem_trim_def)
    qed
    have pb4: "pbufs ?h4 x = map_option (\<lambda>b. b\<lparr>pb_tot_len := pb_tot_len b + - s\<rparr>) (pbufs h x)" if "x \<in> set xs" for x
    proof -
      have "x \<notin> set ys" "x \<noteq> q" using that dist by auto
      then show ?thesis using that by (simp add: release_other)
    qed
    have blk4: "blocks ?h4 (pblock h x) = blocks h (pblock h x)" if "x \<in> set (xs @ [q])" for x
    proof -
      have "pblock h x = x \<or> pblock h x \<notin> set as"
        using assms(4) that by (auto simp: own_data_def list_all_iff w(1))
      then have "pblock h x \<notin> set ys" using that dist by (auto simp: w(1))
      then show ?thesis by (simp add: release_other)
    qed
    have sd: "same_data h ?h4 x" if "x \<in> set xs" for x
      using that pb4 [OF that] blk4 [of x] by (cases "pbufs h x") (simp_all add: same_data_def)
    have c_xs: "content ?h4 xs = content h xs" by (rule same_data_content) (rule sd)
    have rq: "readable h q" using assms(1) by (simp add: packet_def w(1))
    have r_le: "unat r \<le> unat (pb_len b)" using w(5) by (simp add: word_le_nat_alt)
    have "mem_read ?h4 (pb_payload b) 0 (unat r) = mem_read h (pb_payload b) 0 (unat r)"
      using blk4 [of q] w(6) by (auto simp: mem_read_def pblock_def split: vptr.splits)
    also have "\<dots> = Some (take (unat r) (pdata h q))"
      using mem_read_pdata [OF rq w(6), of 0 "unat r"] r_le by simp
    finally have q4: "readable ?h4 q" "pdata ?h4 q = take (unat r) (pdata h q)"
      by (simp_all add: readable_def pdata_def)
    have len_q: "length (pdata h q) = unat (pb_len b)" by (rule length_pdata [OF rq w(6)])
    have "content ?h4 (xs @ [q]) = take (unat new_len) (content h as)"
      using q4(2) c_xs w(4) len_q r_le by (simp add: w(1))
    moreover have "packet ?h4 p (xs @ [q])"
      unfolding packet_def
    proof (intro conjI)
      have "lseg h p xs q" using assms(1) by (auto simp: packet_def w(1) lseg_append split: option.splits)
      moreover have "lseg h p xs q = lseg ?h4 p xs q"
      proof (rule lseg_cong)
        fix x assume "x \<in> set xs"
        then show "map_option pb_next (pbufs h x) = map_option pb_next (pbufs ?h4 x)"
          unfolding pb4 [OF \<open>x \<in> set xs\<close>] by (cases "pbufs h x") simp_all
      qed
      ultimately show "chain ?h4 p (xs @ [q])"
        using w(2) by (auto simp: lseg_append)
      have "list_all (readable h) xs" using assms(1) by (simp add: packet_def w(1))
      then show "list_all (readable ?h4) (xs @ [q])"
        using q4(1) same_data_readable [of xs h ?h4, OF sd] by simp
      show "totals ?h4 (xs @ [q])"
      proof (rule totals_appendI)
        show "totals ?h4 [q]" using q4(2) len_q r_le by simp
        fix us a vs assume xs: "xs = us @ a # vs"
        obtain ba where ba: "pbufs h a = Some ba"
          "unat (pb_tot_len ba) = length (content h (a # vs @ q # ys))"
          using assms(1) totals_at [of h us a "vs @ q # ys"] by (auto simp: packet_def w(1) xs)
        have le: "unat s + (length (content h (a # vs)) + unat r) = unat (pb_tot_len ba)"
          using s w(4) assms(5) len_q r_le ba(2) unfolding w(1) xs by simp
        then have "unat (pb_tot_len ba + - s) = length (content h (a # vs)) + unat r"
          using unat_sub_u16 [of s "pb_tot_len ba"] by (simp add: word_le_nat_alt)
        moreover have "content ?h4 (a # vs) = content h (a # vs)"
          by (rule same_data_content, rule sd) (auto simp: xs)
        moreover have "length (content ?h4 [q]) = unat r" using q4(2) len_q r_le by simp
        moreover have "pbufs ?h4 a = Some (ba\<lparr>pb_tot_len := pb_tot_len ba + - s\<rparr>)"
          using pb4 [of a] ba(1) by (simp add: xs del: put_pbuf_simps)
        ultimately show "\<exists>b. pbufs ?h4 a = Some b \<and>
          unat (pb_tot_len b) = length (content ?h4 (a # vs)) + length (content ?h4 [q])"
          by (simp del: put_pbuf_simps content_Cons)
      qed
    qed
    moreover have "pbufs ?h4 x = pbufs h x \<and> blocks ?h4 x = blocks h x" if "x \<notin> set as" for x
      using that by (simp add: w(1) release_other)
    ultimately show ?thesis
      using run w(1) by (intro exI [of _ ?h4] exI [of _ "xs @ [q]"] exI [of _ ys]) simp
  qed
qed

end
