(* ===== verification/Lwip_Ip4_Addr.thy ===== *)
theory Lwip_Ip4_Addr
  imports Lwip_Ip_Addr
begin

text \<open>
  IPv4 addresses (\<^verbatim>\<open>core/ipv4/ip4_addr.c\<close>): broadcast and netmask tests, and the conversion
  between addresses and their dotted text. The character classes are the macros of \<^verbatim>\<open>arch.h\<close>.
\<close>

section \<open>Network interfaces\<close>

text \<open>The fields of \<^verbatim>\<open>struct netif\<close> that the modelled code reads.\<close>

record netif =
  netif_ip_addr :: ip_addr_t
  netif_netmask :: ip_addr_t
  netif_ip6_addr :: "ip_addr_t list"
  netif_mtu :: u16
  netif_flags :: u8
  netif_num :: u8
  netif_ip6_addr_state :: "u8 list"
  netif_mtu6 :: u16

definition NETIF_FLAG_BROADCAST :: u8 where
  "NETIF_FLAG_BROADCAST = 0x02"

definition netif_ip4_addr :: "netif \<Rightarrow> u32" where
  "netif_ip4_addr netif = ip_2_ip4 (netif_ip_addr netif)"

definition netif_ip4_netmask :: "netif \<Rightarrow> u32" where
  "netif_ip4_netmask netif = ip_2_ip4 (netif_netmask netif)"

definition netif_get_index :: "netif \<Rightarrow> u8" where
  "netif_get_index netif = netif_num netif + 1"

section \<open>Broadcast addresses and netmasks\<close>

definition ip4_addr_isbroadcast_u32 :: "u32 \<Rightarrow> netif \<Rightarrow> bool" where
  "ip4_addr_isbroadcast_u32 addr netif =
     (if NOT addr = 0 \<or> addr = 0 then True
      else if netif_flags netif AND NETIF_FLAG_BROADCAST = 0 then False
      else if addr = netif_ip4_addr netif then False
      else if ip4_addr_netcmp addr (netif_ip4_addr netif) (netif_ip4_netmask netif)
        \<and> addr AND NOT (netif_ip4_netmask netif) = 0xffffffff AND NOT (netif_ip4_netmask netif)
      then True
      else False)"

text \<open>The two loops of \<^verbatim>\<open>ip4_addr_netmask_valid\<close>: \<^verbatim>\<open>m\<close> is the C variable \<^verbatim>\<open>mask\<close>.\<close>

lemma drop_bit_less: "(m :: u32) \<noteq> 0 \<Longrightarrow> unat (drop_bit 1 m) < unat m"
  by (simp add: word_nat unat_gt_0)

function netmask_ones :: "u32 \<Rightarrow> u32 \<Rightarrow> u32" where
  "netmask_ones nm_hostorder m =
     (if m \<noteq> 0 then
        if nm_hostorder AND m = 0 then m else netmask_ones nm_hostorder (drop_bit 1 m)
      else m)"
  by pat_completeness auto
termination by (relation "measure (\<lambda>(nm, m). unat m)") (simp_all add: drop_bit_less [simplified])

function netmask_zeros :: "u32 \<Rightarrow> u32 \<Rightarrow> bool" where
  "netmask_zeros nm_hostorder m =
     (if m \<noteq> 0 then
        if nm_hostorder AND m \<noteq> 0 then False else netmask_zeros nm_hostorder (drop_bit 1 m)
      else True)"
  by pat_completeness auto
termination by (relation "measure (\<lambda>(nm, m). unat m)") (simp_all add: drop_bit_less [simplified])

declare netmask_ones.simps [simp del] netmask_zeros.simps [simp del]

definition ip4_addr_netmask_valid :: "u32 \<Rightarrow> bool" where
  "ip4_addr_netmask_valid netmask =
     (let nm_hostorder = lwip_htonl netmask;
          m = netmask_ones nm_hostorder (push_bit 31 1)
      in netmask_zeros nm_hostorder m)"

section \<open>Reading an address\<close>

definition lwip_in_range :: "u8 \<Rightarrow> u8 \<Rightarrow> u8 \<Rightarrow> bool" where
  "lwip_in_range c lo up = (c \<ge> lo \<and> c \<le> up)"

definition lwip_isdigit :: "u8 \<Rightarrow> bool" where
  "lwip_isdigit c = lwip_in_range c 48 57"

definition lwip_isxdigit :: "u8 \<Rightarrow> bool" where
  "lwip_isxdigit c = (lwip_isdigit c \<or> lwip_in_range c 97 102 \<or> lwip_in_range c 65 70)"

definition lwip_islower :: "u8 \<Rightarrow> bool" where
  "lwip_islower c = lwip_in_range c 97 122"

definition lwip_isspace :: "u8 \<Rightarrow> bool" where
  "lwip_isspace c = (c = 32 \<or> c = 12 \<or> c = 10 \<or> c = 13 \<or> c = 9 \<or> c = 11)"

text \<open>The inner loop of \<^verbatim>\<open>ip4addr_aton\<close>: the digits of one part.\<close>

fun aton_digits :: "u32 \<Rightarrow> u32 \<Rightarrow> u8 list \<Rightarrow> u32 \<times> u8 list" where
  "aton_digits base val [] = (val, [])"
| "aton_digits base val (c # cp) =
     (if lwip_isdigit c then aton_digits base (val * base + ucast (c - 48)) cp
      else if base = 16 \<and> lwip_isxdigit c then
        aton_digits base (push_bit 4 val OR ucast (c + 10 - (if lwip_islower c then 97 else 65))) cp
      else (val, c # cp))"

lemma aton_digits_length: "length (snd (aton_digits base val cp)) \<le> length cp"
  by (induction base val cp rule: aton_digits.induct) auto

definition aton_base :: "u8 list \<Rightarrow> u32 \<times> u8 list" where
  "aton_base cp =
     (if chr0 cp = 48 then
        (if chr0 (tl cp) = 120 \<or> chr0 (tl cp) = 88 then (16, tl (tl cp)) else (8, tl cp))
      else (10, cp))"

text \<open>
  The outer loop: \<^verbatim>\<open>parts\<close> are the values stored so far. It returns all parts but the
  last, the last one, and the rest of the text; \<^term>\<open>None\<close> is a return of 0.
\<close>

function aton_parts :: "u8 list \<Rightarrow> u32 list \<Rightarrow> (u32 list \<times> u32 \<times> u8 list) option" where
  "aton_parts cp parts =
     (if \<not> lwip_isdigit (chr0 cp) then None
      else let (base, cp) = aton_base cp;
               (val, cp) = aton_digits base 0 cp
        in if chr0 cp = 46 then
             (if length parts \<ge> 3 then None else aton_parts (tl cp) (parts @ [val]))
           else Some (parts, val, cp))"
  by pat_completeness auto
termination
proof (relation "measure (\<lambda>(cp, parts). length cp)")
  fix cp :: "u8 list" and parts :: "u32 list" and bc base cp1 vc val cp2
  assume "\<not> \<not> lwip_isdigit (chr0 cp)" and b: "bc = aton_base cp" "(base, cp1) = bc"
    and v: "vc = aton_digits base 0 cp1" "(val, cp2) = vc" and dot: "chr0 cp2 = 46"
  then have "cp \<noteq> []" by (auto simp: lwip_isdigit_def lwip_in_range_def)
  moreover have "length cp1 \<le> length cp" using b by (auto simp: aton_base_def split: if_splits)
  moreover have "length cp2 \<le> length cp1" using v aton_digits_length [of base 0 cp1] by (metis snd_conv)
  moreover have "cp2 \<noteq> []" using dot by auto
  ultimately have "length (tl cp2) < length cp" by (cases cp2) auto
  then show "((tl cp2, parts @ [val]), cp, parts) \<in> measure (\<lambda>(cp, parts). length cp)" by simp
qed simp

declare aton_parts.simps [simp del]

text \<open>
  The result: \<^term>\<open>None\<close> if the assertion of the \<^verbatim>\<open>default\<close> case failed, \<^term>\<open>Some None\<close> for a
  return of 0, and otherwise the address stored, in network order.
\<close>

definition ip4addr_aton :: "u8 list \<Rightarrow> u32 option option" where
  "ip4addr_aton cp =
     (case aton_parts cp [] of
        None \<Rightarrow> Some None
      | Some (parts, val, cp) \<Rightarrow>
          if chr0 cp \<noteq> 0 \<and> \<not> lwip_isspace (chr0 cp) then Some None
          else (case parts of
              [] \<Rightarrow> Some (Some (lwip_htonl val))
            | [p0] \<Rightarrow>
                if val > 0xffffff then Some None
                else if p0 > 0xff then Some None
                else Some (Some (lwip_htonl (val OR push_bit 24 p0)))
            | [p0, p1] \<Rightarrow>
                if val > 0xffff then Some None
                else if p0 > 0xff \<or> p1 > 0xff then Some None
                else Some (Some (lwip_htonl (val OR (push_bit 24 p0 OR push_bit 16 p1))))
            | [p0, p1, p2] \<Rightarrow>
                if val > 0xff then Some None
                else if p0 > 0xff \<or> p1 > 0xff \<or> p2 > 0xff then Some None
                else Some (Some (lwip_htonl (val OR (push_bit 24 p0 OR push_bit 16 p1 OR push_bit 8 p2))))
            | _ \<Rightarrow> None))"

definition ipaddr_addr :: "u8 list \<Rightarrow> u32 option" where
  "ipaddr_addr cp =
     (case ip4addr_aton cp of None \<Rightarrow> None
      | Some None \<Rightarrow> Some 0xffffffff
      | Some (Some val) \<Rightarrow> Some val)"

section \<open>Writing an address\<close>

text \<open>The digits of a byte, the last one first (the array \<^verbatim>\<open>inv\<close> of the code).\<close>

fun ntoa_inv :: "nat \<Rightarrow> u8 list \<Rightarrow> u8 list" where
  "ntoa_inv ap ds =
     (let rem = ap mod 10; ap' = ap div 10; ds' = ds @ [48 + of_nat rem]
      in if ap' \<noteq> 0 then ntoa_inv ap' ds' else ds')"

declare ntoa_inv.simps [simp del]

text \<open>\<^verbatim>\<open>*rp++ = c\<close> guarded by \<^verbatim>\<open>len++ >= buflen\<close>: \<^verbatim>\<open>rp\<close> is always \<^verbatim>\<open>buf + len\<close>.\<close>

fun ntoa_put :: "u8 list \<Rightarrow> nat \<Rightarrow> u8 list \<Rightarrow> bool \<times> u8 list \<times> nat" where
  "ntoa_put buf len [] = (True, buf, len)"
| "ntoa_put buf len (c # cs) =
     (if len \<ge> length buf then (False, buf, len + 1)
      else ntoa_put (buf[len := c]) (len + 1) cs)"

fun ntoa_bytes :: "u8 list \<Rightarrow> nat \<Rightarrow> nat list \<Rightarrow> bool \<times> u8 list \<times> nat" where
  "ntoa_bytes buf len [] = (True, buf, len)"
| "ntoa_bytes buf len (ap # aps) =
     (let (ok, buf, len) = ntoa_put buf len (rev (ntoa_inv ap []))
      in if \<not> ok then (False, buf, len)
         else if len \<ge> length buf then (False, buf, len + 1)
         else ntoa_bytes (buf[len := 46]) (len + 1) aps)"

text \<open>The length of \<^verbatim>\<open>buf\<close> is \<^verbatim>\<open>buflen\<close>; the flag is \<^term>\<open>False\<close> for a return of NULL.\<close>

definition ip4addr_ntoa_r :: "u32 \<Rightarrow> u8 list \<Rightarrow> bool \<times> u8 list" where
  "ip4addr_ntoa_r addr buf =
     (let (ok, buf, len) = ntoa_bytes buf 0 (bytes_le 4 (unat addr))
      in if \<not> ok then (False, buf) else (True, buf[len - 1 := 0]))"

definition ip4addr_ntoa :: "u32 \<Rightarrow> u8 list \<Rightarrow> bool \<times> u8 list" where
  "ip4addr_ntoa addr str = ip4addr_ntoa_r addr (take 16 str)"


section \<open>Netmasks: lemmas\<close>

lemma word_bit_iff: "(a :: 'a::len word) = b \<longleftrightarrow> (\<forall>n < LENGTH('a). bit a n = bit b n)"
  by (auto intro: bit_word_eqI)

lemma drop_bit_power: "drop_bit 1 (push_bit (Suc k) 1 :: u32) = (if k < 31 then push_bit k 1 else 0)"
  by (rule bit_word_eqI) (auto simp: bit_simps)

lemma and_power: "(n :: 'a::len word) AND push_bit k 1 = 0 \<longleftrightarrow> k < LENGTH('a) \<longrightarrow> \<not> bit n k"
  by (auto simp: word_bit_iff bit_simps)

lemma power_not_0: "k < 32 \<Longrightarrow> (push_bit k 1 :: u32) \<noteq> 0"
  by (auto simp: word_bit_iff bit_simps)

lemma drop_bit_1: "drop_bit 1 (1 :: u32) = 0"
  by simp

lemma netmask_zeros_bits:
  "k < 32 \<Longrightarrow> netmask_zeros n (push_bit k 1) \<longleftrightarrow> (\<forall>i\<le>k. \<not> bit n i)"
proof (induction k)
  case 0
  then show ?case using and_power [of n 0] by (subst netmask_zeros.simps) (simp add: netmask_zeros.simps)
next
  case (Suc k)
  then show ?case
    using and_power [of n "Suc k"] power_not_0 [of "Suc k"] drop_bit_power [of k]
    by (subst netmask_zeros.simps) (auto simp: le_Suc_eq)
qed

lemma netmask_ones_zeros:
  "k < 32 \<Longrightarrow> netmask_zeros n (netmask_ones n (push_bit k 1)) \<longleftrightarrow>
     (\<exists>j\<le>Suc k. \<forall>i\<le>k. bit n i \<longleftrightarrow> j \<le> i)"
proof (induction k)
  case 0
  show ?case
  proof (cases "bit n 0")
    case True
    then show ?thesis using and_power [of n 0]
      by (subst netmask_ones.simps) (auto simp: netmask_ones.simps netmask_zeros.simps intro!: exI [of _ 0])
  next
    case False
    then show ?thesis using and_power [of n 0] netmask_zeros_bits [of 0 n]
      by (subst netmask_ones.simps) (auto intro!: exI [of _ 1])
  qed
next
  case (Suc k)
  have k: "push_bit (Suc k) 1 \<noteq> (0 :: u32)" "drop_bit 1 (push_bit (Suc k) 1 :: u32) = push_bit k 1"
    using Suc.prems power_not_0 [of "Suc k"] drop_bit_power [of k] by auto
  show ?case
  proof (cases "bit n (Suc k)")
    case True
    then have "netmask_ones n (push_bit (Suc k) 1) = netmask_ones n (push_bit k 1)"
      using Suc.prems and_power [of n "Suc k"] k by (subst netmask_ones.simps) simp
    moreover have "(\<exists>j\<le>Suc (Suc k). \<forall>i\<le>Suc k. bit n i \<longleftrightarrow> j \<le> i) \<longleftrightarrow> (\<exists>j\<le>Suc k. \<forall>i\<le>k. bit n i \<longleftrightarrow> j \<le> i)"
      using True by (auto simp: le_Suc_eq) 
    ultimately show ?thesis using Suc by simp
  next
    case False
    then have "netmask_ones n (push_bit (Suc k) 1) = push_bit (Suc k) 1"
      using Suc.prems and_power [of n "Suc k"] k by (subst netmask_ones.simps) simp
    moreover have "(\<exists>j\<le>Suc (Suc k). \<forall>i\<le>Suc k. bit n i \<longleftrightarrow> j \<le> i) \<longleftrightarrow> (\<forall>i\<le>Suc k. \<not> bit n i)"
      using False by (auto intro!: exI [of _ "Suc (Suc k)"]) 
    ultimately show ?thesis using netmask_zeros_bits [OF Suc.prems] by simp
  qed
qed

text \<open>\<^verbatim>\<open>ip4_addr_netmask_valid\<close> accepts exactly the masks that, read in host order, are a
  run of ones followed by a run of zeros: the masks of the prefix lengths 0 to 32.\<close>

theorem ip4_addr_netmask_valid_prefix:
  "ip4_addr_netmask_valid netmask \<longleftrightarrow>
     (\<exists>len\<le>32. lwip_htonl netmask = push_bit (32 - len) (mask len))"
proof -
  let ?n = "lwip_htonl netmask"
  have "ip4_addr_netmask_valid netmask \<longleftrightarrow> (\<exists>j\<le>32. \<forall>i\<le>31. bit ?n i \<longleftrightarrow> j \<le> i)"
    using netmask_ones_zeros [of 31 ?n] by (simp add: ip4_addr_netmask_valid_def Let_def)
  also have "\<dots> \<longleftrightarrow> (\<exists>j\<le>32. ?n = push_bit j (mask (32 - j)))"
    by (intro ex_cong1 conj_cong refl) (auto simp: word_bit_iff bit_simps)
  also have "\<dots> \<longleftrightarrow> (\<exists>len\<le>32. ?n = push_bit (32 - len) (mask len))"
    by (metis diff_diff_cancel diff_le_self)
  finally show ?thesis .
qed

text \<open>An address is a broadcast address on an interface iff it is all zeros or all ones,
  or the interface supports broadcasts and the address is that of its subnet with all host
  bits set, unless this is the interface's own address.\<close>

theorem ip4_addr_isbroadcast_subnet:
  "ip4_addr_isbroadcast_u32 addr netif \<longleftrightarrow>
     addr = 0 \<or> addr = - 1 \<or>
     (bit (netif_flags netif) 1 \<and> addr \<noteq> netif_ip4_addr netif \<and>
      addr = netif_ip4_addr netif OR NOT (netif_ip4_netmask netif))"
proof -
  let ?a = "netif_ip4_addr netif" and ?m = "netif_ip4_netmask netif"
  have flag: "netif_flags netif AND NETIF_FLAG_BROADCAST = 0 \<longleftrightarrow> \<not> bit (netif_flags netif) 1"
  proof -
    have "NETIF_FLAG_BROADCAST = push_bit 1 1" by (simp add: NETIF_FLAG_BROADCAST_def)
    then show ?thesis using and_power [of "netif_flags netif" 1] by (simp only:) simp
  qed
  have ones: "NOT addr = 0 \<longleftrightarrow> addr = - 1"
    by (metis bit.double_compl bit.compl_zero)
  have full: "(0xffffffff :: u32) = - 1" by simp
  have "ip4_addr_netcmp addr ?a ?m \<and> addr AND NOT ?m = 0xffffffff AND NOT ?m \<longleftrightarrow> addr = ?a OR NOT ?m"
    unfolding full by (auto simp: ip4_addr_netcmp_def word_bit_iff bit_simps)
  then show ?thesis
    by (auto simp: ip4_addr_isbroadcast_u32_def flag ones)
qed


section \<open>Text: lemmas\<close>

text \<open>The dotted text of a list of numbers.\<close>

fun dotted :: "nat list \<Rightarrow> u8 list" where
  "dotted [] = []"
| "dotted [a] = dec a"
| "dotted (a # b # as) = dec a @ 46 # dotted (b # as)"

lemma ntoa_inv_dec: "ntoa_inv n ds = ds @ rev (dec n)"
proof (induction n ds rule: ntoa_inv.induct)
  case (1 n ds)
  show ?case
  proof (cases "n < 10")
    case True
    then show ?thesis by (subst ntoa_inv.simps) (simp add: dec_small digit_def)
  next
    case False
    then have "n div 10 \<noteq> 0" by auto
    then show ?thesis using "1.IH" False by (subst ntoa_inv.simps) (simp add: dec_step digit_def Let_def)
  qed
qed

lemma ntoa_put_fits:
  "len + length cs \<le> length buf \<Longrightarrow> ntoa_put buf len cs = (True, patch len cs buf, len + length cs)"
proof (induction cs arbitrary: buf len)
  case (Cons c cs)
  then have "ntoa_put buf len (c # cs) = (True, patch (len + length [c]) cs (patch len [c] buf), len + length (c # cs))"
    by (simp add: patch_single)
  then show ?case using Cons.prems patch_patch [of len "[c]" cs buf] by simp
qed simp

lemma ntoa_put_full:
  "length buf < len + length cs \<Longrightarrow> len \<le> length buf \<Longrightarrow> \<not> fst (ntoa_put buf len cs)"
  by (induction cs arbitrary: buf len) auto

lemma ntoa_put_length: "length (fst (snd (ntoa_put buf len cs))) = length buf"
  by (induction buf len cs rule: ntoa_put.induct) auto

definition dotted_bytes :: "nat list \<Rightarrow> u8 list" where
  "dotted_bytes as = concat (map (\<lambda>a. dec a @ [46]) as)"

lemma dotted_bytes_dotted: "as \<noteq> [] \<Longrightarrow> dotted_bytes as = dotted as @ [46]"
  by (induction as rule: dotted.induct) (simp_all add: dotted_bytes_def)

lemma ntoa_bytes_fits:
  "len + length (dotted_bytes as) \<le> length buf \<Longrightarrow>
   ntoa_bytes buf len as = (True, patch len (dotted_bytes as) buf, len + length (dotted_bytes as))"
proof (induction as arbitrary: buf len)
  case (Cons a as)
  let ?buf = "patch len (dec a @ [46]) buf" and ?len = "len + length (dec a @ [46])"
  have len: "len + length (dec a) < length buf" "?len + length (dotted_bytes as) \<le> length buf"
    using Cons.prems by (simp_all add: dotted_bytes_def)
  have "?buf = patch (len + length (dec a)) [46] (patch len (dec a) buf)"
    using len by (subst patch_patch) simp_all
  then have "?buf = (patch len (dec a) buf)[len + length (dec a) := 46]"
    using len by (simp add: patch_single)
  then have "ntoa_bytes buf len (a # as) = ntoa_bytes ?buf ?len as"
    using len by (simp add: ntoa_put_fits ntoa_inv_dec)
  also have "\<dots> = (True, patch ?len (dotted_bytes as) ?buf, ?len + length (dotted_bytes as))"
    using len by (intro Cons.IH) (simp del: length_append)
  also have "patch ?len (dotted_bytes as) ?buf = patch len (dotted_bytes (a # as)) buf"
    using len patch_patch [of len "dec a @ [46]" "dotted_bytes as" buf] by (simp add: dotted_bytes_def)
  finally show ?case by (simp add: dotted_bytes_def)
qed (simp add: dotted_bytes_def)

lemma ntoa_bytes_full:
  "length buf < len + length (dotted_bytes as) \<Longrightarrow> len \<le> length buf \<Longrightarrow> \<not> fst (ntoa_bytes buf len as)"
proof (induction as arbitrary: buf len)
  case (Cons a as)
  show ?case
  proof (cases "len + length (dec a) \<le> length buf")
    case True
    show ?thesis
    proof (cases "len + length (dec a) = length buf")
      case False
      then show ?thesis using True Cons.prems
        Cons.IH [of "(patch len (dec a) buf)[len + length (dec a) := 46]" "len + length (dec a) + 1"]
        by (simp add: ntoa_put_fits ntoa_inv_dec dotted_bytes_def)
    qed (use True in \<open>simp add: ntoa_put_fits ntoa_inv_dec\<close>)
  next
    case False
    then show ?thesis using ntoa_put_full [of buf len "dec a"] Cons.prems
      by (cases "ntoa_put buf len (dec a)") (simp add: ntoa_inv_dec)
  qed
qed (simp add: dotted_bytes_def)

lemma dotted_no_zero: "0 \<notin> set (dotted as)"
  by (induction as rule: dotted.induct) (simp_all add: dec_no_zero)

lemma ntoa_r_fits:
  assumes "length (dotted (bytes_le 4 (unat addr))) < length buf"
  shows "\<exists>out. ip4addr_ntoa_r addr buf = (True, out) \<and> length out = length buf \<and>
    cstr out = dotted (bytes_le 4 (unat addr))"
proof -
  let ?as = "bytes_le 4 (unat addr)"
  let ?T = "dotted ?as"
  have ne: "?as \<noteq> []" using length_bytes_le [of 4 "unat addr"] by (metis list.size(3) zero_neq_numeral)
  have T: "dotted_bytes ?as = ?T @ [46]" by (rule dotted_bytes_dotted [OF ne])
  have "ntoa_bytes buf 0 ?as = (True, patch 0 (?T @ [46]) buf, length ?T + 1)"
    using ntoa_bytes_fits [of 0 ?as buf] assms by (simp add: T)
  then have out: "ip4addr_ntoa_r addr buf = (True, (patch 0 (?T @ [46]) buf)[length ?T := 0])"
    by (simp add: ip4addr_ntoa_r_def)
  have eq: "(patch 0 (?T @ [46]) buf)[length ?T := 0] = ?T @ 0 # drop (Suc (length ?T)) buf"
    by (simp add: patch_def)
  have "length ((patch 0 (?T @ [46]) buf)[length ?T := 0]) = length buf"
    using assms by simp
  moreover have "cstr ((patch 0 (?T @ [46]) buf)[length ?T := 0]) = ?T"
    unfolding eq by (rule cstr_append_0 [OF dotted_no_zero])
  ultimately show ?thesis using out by simp
qed

text \<open>\<^verbatim>\<open>ip4addr_ntoa_r\<close> leaves the dotted decimal text of the four address bytes, with its
  terminator, in the buffer if it has room for both, and returns NULL otherwise; it never
  writes behind the end of the buffer.\<close>

theorem ip4addr_ntoa_r_text:
  "let dotted_text = dotted (bytes_le 4 (unat addr)) in
   if length dotted_text < length buf
   then \<exists>out. ip4addr_ntoa_r addr buf = (True, out) \<and> length out = length buf \<and> cstr out = dotted_text
   else \<not> fst (ip4addr_ntoa_r addr buf)"
proof (cases "length (dotted (bytes_le 4 (unat addr))) < length buf")
  case True
  then show ?thesis using ntoa_r_fits [of addr buf] by (simp add: Let_def)
next
  case False
  have "bytes_le 4 (unat addr) \<noteq> []"
    using length_bytes_le [of 4 "unat addr"] by (metis list.size(3) zero_neq_numeral)
  then have "\<not> fst (ntoa_bytes buf 0 (bytes_le 4 (unat addr)))"
    using False by (intro ntoa_bytes_full) (simp_all add: dotted_bytes_dotted)
  then show ?thesis using False by (auto simp: ip4addr_ntoa_r_def Let_def split: prod.split)
qed

subsection \<open>Reading back\<close>

lemma isdigit_iff: "lwip_isdigit c \<longleftrightarrow> 48 \<le> unat c \<and> unat c \<le> 57"
  by (simp add: lwip_isdigit_def lwip_in_range_def word_le_nat_alt)

lemma dec_isdigit: "c \<in> set (dec n) \<Longrightarrow> lwip_isdigit c"
  using dec_digits [of c n] by (simp add: isdigit_iff)

lemma aton_digits_append:
  "list_all lwip_isdigit ds \<Longrightarrow> \<not> lwip_isdigit (chr0 r) \<Longrightarrow>
   aton_digits 10 v (ds @ r) = (foldl (\<lambda>v c. v * 10 + ucast (c - 48)) v ds, r)"
proof (induction ds arbitrary: v)
  case Nil
  then show ?case by (cases r) simp_all
qed simp

lemma ucast_digit: "d < 10 \<Longrightarrow> (ucast (digit d - 48) :: u32) = of_nat d"
proof -
  assume "d < 10"
  then have "unat (of_nat d :: u8) = d" by (simp add: unat_of_nat take_bit_nat_eq_self_iff)
  moreover have "(ucast (of_nat d :: u8) :: u32) = of_nat (unat (of_nat d :: u8))"
    by (simp add: word_unat_eq_iff unat_of_nat take_bit_nat_eq_self_iff order.strict_trans [OF unat_u8_less])
  ultimately show ?thesis by (simp add: digit_def)
qed

lemma foldl_dec: "foldl (\<lambda>v c. v * 10 + ucast (c - 48)) 0 (dec n) = (of_nat n :: u32)"
proof (induction n rule: dec.induct)
  case (1 n)
  show ?case
  proof (cases "n < 10")
    case True
    then show ?thesis by (simp add: dec_small ucast_digit)
  next
    case False
    have "of_nat n = (of_nat (n div 10 * 10 + n mod 10) :: u32)" by simp
    also have "\<dots> = of_nat (n div 10) * 10 + of_nat (n mod 10)" by (simp only: of_nat_add of_nat_mult) simp
    finally show ?thesis using 1 [OF False] False by (simp add: dec_step ucast_digit)
  qed
qed

lemma dec_first: "0 < n \<Longrightarrow> hd (dec n) \<noteq> 48"
proof (induction n rule: dec.induct)
  case (1 n)
  show ?case
  proof (cases "n < 10")
    case True
    have "unat (digit n) \<noteq> 48" using True 1 by simp
    then have "digit n \<noteq> 48" by auto
    then show ?thesis using True by (simp add: dec_small)
  next
    case False
    then have "0 < n div 10" by auto
    then show ?thesis using 1 False by (simp add: dec_step)
  qed
qed

text \<open>The reader consumes one decimal number.\<close>

lemma aton_number:
  assumes "\<not> lwip_isdigit (chr0 r)" "chr0 r \<noteq> 120" "chr0 r \<noteq> 88"
  shows "(let (base, cp) = aton_base (dec n @ r) in aton_digits base 0 cp) = (of_nat n, r)"
proof (cases "n = 0")
  case True
  then have "dec n = [48]" by (simp add: dec_small digit_def)
  then show ?thesis using assms True by (cases r) (simp_all add: aton_base_def)
next
  case False
  then have "chr0 (dec n @ r) \<noteq> 48" using dec_first [of n] by (cases "dec n") simp_all
  then have "aton_base (dec n @ r) = (10, dec n @ r)" by (simp add: aton_base_def)
  moreover have "list_all lwip_isdigit (dec n)" by (simp add: list_all_iff dec_isdigit)
  ultimately show ?thesis
    using assms aton_digits_append [of "dec n" r 0] by (simp add: foldl_dec)
qed

lemma aton_parts_step:
  assumes "\<not> lwip_isdigit (chr0 r)" "chr0 r \<noteq> 120" "chr0 r \<noteq> 88"
  shows "aton_parts (dec n @ r) ps =
    (if chr0 r = 46 then if length ps \<ge> 3 then None else aton_parts (tl r) (ps @ [of_nat n])
     else Some (ps, of_nat n, r))"
proof -
  have "lwip_isdigit (chr0 (dec n @ r))" using dec_isdigit [of "chr0 (dec n @ r)" n] by (cases "dec n") simp_all
  then show ?thesis using aton_number [OF assms, of n]
    by (subst aton_parts.simps) (simp add: split_beta Let_def)
qed

lemma aton_parts_dotted:
  "aton_parts (dotted [a, b, c, d]) [] = Some ([of_nat a, of_nat b, of_nat c], of_nat d, [])"
  using aton_parts_step [of "[]" d "[of_nat a, of_nat b, of_nat c]"]
  by (simp add: aton_parts_step isdigit_iff)

lemma lwip_htonl_or:
  "lwip_htonl a = (drop_bit 24 a AND 0xff) OR (push_bit 24 (a AND 0xff) OR push_bit 16 (drop_bit 8 a AND 0xff)
     OR push_bit 8 (drop_bit 16 a AND 0xff))"
proof -
  have m: "(0xff :: u32) = mask 8" "(0xff00 :: u32) = push_bit 8 (mask 8)"
    "(0xff0000 :: u32) = push_bit 16 (mask 8)" "(0xff000000 :: u32) = push_bit 24 (mask 8)"
    by (simp_all add: mask_numeral)
  have d: "drop_bit 8 (push_bit 16 (w AND mask 8)) = push_bit 8 (w AND mask 8)"
    "drop_bit 24 (push_bit 24 (w AND mask 8)) = w AND mask 8" for w :: u32
    by (rule bit_word_eqI; auto simp: bit_simps)+
  show ?thesis unfolding lwip_htonl_def m and_byte d
    by (simp only: push_bit_push_bit ac_simps) simp
qed

lemma bytes_le_4_eq: "bytes_le 4 n = [n mod 256, n div 2 ^ 8 mod 256, n div 2 ^ 16 mod 256, n div 2 ^ 24 mod 256]"
proof -
  have "(4 :: nat) = Suc (Suc (Suc (Suc 0)))" by simp
  then show ?thesis by (simp only: bytes_le.simps) (simp flip: div_mult2_eq)
qed

lemma of_nat_byte: "(of_nat (unat (a :: u32) div 2 ^ k mod 256) :: u32) = drop_bit k a AND 0xff"
proof -
  have "unat (drop_bit k a AND 0xff) = unat a div 2 ^ k mod 256" by (simp only: word_nat)
  then show ?thesis by (metis of_nat_unat ucast_id)
qed

lemma length_dec_256: "n < 256 \<Longrightarrow> length (dec n) \<le> 3"
  using dec_small [of "n div 10 div 10"] by (cases "n < 10"; cases "n div 10 < 10"; simp add: dec_small dec_step)

lemma length_dotted_4:
  assumes "a < 256" "b < 256" "c < 256" "d < 256"
  shows "length (dotted [a, b, c, d]) \<le> 15"
proof -
  have "length (dotted [a, b, c, d]) = length (dec a) + length (dec b) + length (dec c) + length (dec d) + 3"
    by simp
  then show ?thesis using assms [THEN length_dec_256] by linarith
qed

lemma unat_byte_mask: "unat ((w :: u32) AND 0xff) \<le> 255"
  by (simp only: unat_and_ff_u32)

lemma aton_dotted_bytes: "ip4addr_aton (dotted (bytes_le 4 (unat addr))) = Some (Some addr)"
proof -
  let ?p = "\<lambda>k. drop_bit k addr AND 0xff"
  have p: "(of_nat (unat addr mod 256) :: u32) = ?p 0" using of_nat_byte [of addr 0] by simp
  have le: "\<not> ?p k > 0xff" for k
    using unat_byte_mask [of "drop_bit k addr"] by (simp add: word_less_nat_alt)
  have "aton_parts (dotted (bytes_le 4 (unat addr))) [] = Some ([?p 0, ?p 8, ?p 16], ?p 24, [])"
    unfolding bytes_le_4_eq aton_parts_dotted by (simp only: p of_nat_byte)
  moreover have "lwip_htonl (?p 24 OR (push_bit 24 (?p 0) OR push_bit 16 (?p 8) OR push_bit 8 (?p 16))) = addr"
    using lwip_htonl_or [of addr] lwip_htonl_htonl [of addr] by simp
  ultimately show ?thesis unfolding ip4addr_aton_def using le by (simp del: drop_bit_0)
qed

text \<open>C34: the text that \<^verbatim>\<open>ip4addr_ntoa_r\<close> writes for an address is read back by
  \<^verbatim>\<open>ip4addr_aton\<close> as the same address; a buffer of 16 bytes is always enough.\<close>

theorem ip4addr_aton_ntoa:
  assumes "16 \<le> length buf"
  shows "\<exists>out. ip4addr_ntoa_r addr buf = (True, out) \<and> ip4addr_aton (cstr out) = Some (Some addr)"
proof -
  have "length (dotted (bytes_le 4 (unat addr))) \<le> 15"
    unfolding bytes_le_4_eq by (rule length_dotted_4) simp_all
  then obtain out where "ip4addr_ntoa_r addr buf = (True, out)" "cstr out = dotted (bytes_le 4 (unat addr))"
    using ntoa_r_fits [of addr buf] assms by auto
  then show ?thesis using aton_dotted_bytes by metis
qed

theorem ip4addr_aton_ntoa_witness:
  "\<exists>out. ip4addr_ntoa_r 0x0100007f (replicate 16 0) = (True, out) \<and> ip4addr_aton (cstr out) = Some (Some 0x0100007f)"
  using ip4addr_aton_ntoa [of "replicate 16 0" "0x0100007f"] by simp

lemma aton_parts_few: "aton_parts cp ps = Some (qs, val, r) \<Longrightarrow> length ps \<le> 3 \<Longrightarrow> length qs \<le> 3"
proof (induction cp ps arbitrary: qs val r rule: aton_parts.induct)
  case (1 cp ps)
  obtain base cp1 where b: "aton_base cp = (base, cp1)" by fastforce
  obtain v cp2 where v: "aton_digits base 0 cp1 = (v, cp2)" by fastforce
  show ?case
    using "1.prems" "1.IH" b v
    by (subst (asm) aton_parts.simps) (fastforce split: if_splits)
qed

text \<open>\<^verbatim>\<open>ip4addr_aton\<close> is total: on no string does it reach the assertion that follows its
  case distinction on the number of parts.\<close>

lemma ip4addr_aton_total: "ip4addr_aton cp \<noteq> None"
proof (cases "aton_parts cp []")
  case (Some x)
  then obtain qs val r where x: "aton_parts cp [] = Some (qs, val, r)" by (cases x) auto
  have "length qs \<le> 3" using aton_parts_few [OF x] by simp
  then show ?thesis unfolding ip4addr_aton_def x
    by (cases qs; cases "tl qs"; cases "tl (tl qs)"; cases "tl (tl (tl qs))") auto
qed (simp add: ip4addr_aton_def)

end
