(* ===== verification/Lwip_Ip6_Addr.thy ===== *)
theory Lwip_Ip6_Addr
  imports Lwip_Ip4_Addr
begin

text \<open>
  The text of IPv6 addresses (\<^verbatim>\<open>core/ipv6/ip6_addr.c\<close>): the parser \<^verbatim>\<open>ip6addr_aton\<close> and the
  printer \<^verbatim>\<open>ip6addr_ntoa_r\<close>. The four words of the address are a list while the code indexes
  them; an access outside the array is \<^term>\<open>None\<close>. Block and word indices stay below 9 and are
  natural numbers; \<^verbatim>\<open>zero_blocks\<close> can wrap and is a word.
\<close>

section \<open>Words of an address\<close>

definition ip6_of_words :: "u32 list \<Rightarrow> u8 \<Rightarrow> ip6_addr_t" where
  "ip6_of_words ws zone = \<lparr>ip6_a0 = ws ! 0, ip6_a1 = ws ! 1, ip6_a2 = ws ! 2, ip6_a3 = ws ! 3, ip6_zone = zone\<rparr>"

definition word_at :: "u32 list \<Rightarrow> nat \<Rightarrow> u32 option" where
  "word_at ws i = (if i < length ws then Some (ws ! i) else None)"

definition set_word :: "u32 list \<Rightarrow> nat \<Rightarrow> u32 \<Rightarrow> u32 list option" where
  "set_word ws i w = (if i < length ws then Some (ws[i := w]) else None)"

section \<open>Parsing\<close>

text \<open>
  The first loop of \<^verbatim>\<open>ip6addr_aton\<close> counts the colons; it yields \<^verbatim>\<open>zero_blocks\<close> and
  \<^verbatim>\<open>check_ipv4_mapped\<close>, or \<^term>\<open>None\<close> for a return of 0.
\<close>

fun aton6_count :: "u8 list \<Rightarrow> u32 \<Rightarrow> (u32 \<times> bool) option" where
  "aton6_count [] zero_blocks = Some (zero_blocks, False)"
| "aton6_count (c # s) zero_blocks =
     (if c = 58 then aton6_count s (zero_blocks - 1)
      else if c = 46 then
        (if zero_blocks = 5 \<or> zero_blocks = 2 then Some (zero_blocks - 1, True) else None)
      else if \<not> lwip_isxdigit c then Some (zero_blocks, False)
      else aton6_count s zero_blocks)"

text \<open>
  How the second loop ends: with a return of 0 (the address as it was left), with a jump to
  the conversion to network order, or normally.
\<close>

datatype aton6_end =
    Aton6_fail "u32 list"
  | Aton6_fix "u32 list" nat
  | Aton6_end "u32 list" nat nat u32

text \<open>Storing a finished block: the index of the next word and the words.\<close>

definition aton6_block :: "u32 list \<Rightarrow> nat \<Rightarrow> nat \<Rightarrow> u32 \<Rightarrow> (nat \<times> u32 list) option" where
  "aton6_block addr addr_index current_block_index current_block_value =
     (if odd current_block_index then do {
        w \<leftarrow> word_at addr addr_index;
        addr \<leftarrow> set_word addr addr_index (w OR current_block_value);
        Some (addr_index + 1, addr)
      } else do {
        addr \<leftarrow> set_word addr addr_index (push_bit 16 current_block_value);
        Some (addr_index, addr)
      })"

lemma u32_dec_less: "0 < (z :: u32) \<Longrightarrow> unat (z - 1) < unat z"
  by (metis measure_unat word_not_simps(1))

text \<open>The loop over the zero blocks of a \<^verbatim>\<open>::\<close>; \<^term>\<open>Inl\<close> is a return of 0.\<close>

function aton6_zeros ::
  "u32 list \<Rightarrow> nat \<Rightarrow> nat \<Rightarrow> u32 \<Rightarrow> (u32 list + (u32 list \<times> nat \<times> nat \<times> u32)) option" where
  "aton6_zeros addr addr_index current_block_index zero_blocks =
     (if zero_blocks > 0 then do {
        let zero_blocks = zero_blocks - 1;
        (addr_index, addr) \<leftarrow>
          (if odd current_block_index then Some (addr_index + 1, addr)
           else do { addr \<leftarrow> set_word addr addr_index 0; Some (addr_index, addr) });
        let current_block_index = current_block_index + 1;
        if current_block_index > 7 then Some (Inl addr)
        else aton6_zeros addr addr_index current_block_index zero_blocks
      } else Some (Inr (addr, addr_index, current_block_index, zero_blocks)))"
  by pat_completeness auto
termination
  by (relation "measure (\<lambda>(a, i, c, z). unat z)") (simp_all add: u32_dec_less)

declare aton6_zeros.simps [simp del]

definition hex_value :: "u8 \<Rightarrow> u32" where
  "hex_value c = (if lwip_isdigit c then ucast (c - 48)
     else ucast (10 + (if lwip_islower c then c - 97 else c - 65)))"

fun aton6_loop :: "bool \<Rightarrow> u8 list \<Rightarrow> u32 list \<Rightarrow> nat \<Rightarrow> nat \<Rightarrow> u32 \<Rightarrow> u32 \<Rightarrow> aton6_end option" where
  "aton6_loop check_ipv4_mapped s addr addr_index cbi cbv zero_blocks =
     (case s of
        [] \<Rightarrow> Some (Aton6_end addr addr_index cbi cbv)
      | c # s \<Rightarrow>
          if c = 58 then do {
            (addr_index, addr) \<leftarrow> aton6_block addr addr_index cbi cbv;
            let cbi = cbi + 1;
            ip4 \<leftarrow> (if check_ipv4_mapped \<and> cbi = 6 then ip4addr_aton s else Some None);
            (case ip4 of
               Some ip4 \<Rightarrow> do { addr \<leftarrow> set_word addr 3 (lwip_htonl ip4); Some (Aton6_fix addr (cbi + 1)) }
             | None \<Rightarrow>
                 if cbi > 7 then Some (Aton6_fail addr)
                 else if chr0 s = 58 then
                   if chr0 (tl s) = 58 then Some (Aton6_fail addr)
                   else do {
                     r \<leftarrow> aton6_zeros addr addr_index cbi zero_blocks;
                     (case r of
                        Inl addr \<Rightarrow> Some (Aton6_fail addr)
                      | Inr (addr, addr_index, cbi, zero_blocks) \<Rightarrow>
                          aton6_loop check_ipv4_mapped (tl s) addr addr_index cbi 0 zero_blocks)
                   }
                 else aton6_loop check_ipv4_mapped s addr addr_index cbi 0 zero_blocks)
          } else if lwip_isxdigit c then
            aton6_loop check_ipv4_mapped s addr addr_index cbi (push_bit 4 cbv + hex_value c) zero_blocks
          else Some (Aton6_end addr addr_index cbi cbv))"

declare aton6_loop.simps [simp del]

text \<open>
  \<^verbatim>\<open>ip6addr_aton\<close> for a non-NULL \<^verbatim>\<open>addr\<close>: the flag it returns and what it leaves in the
  address.
\<close>

definition ip6addr_aton :: "u8 list \<Rightarrow> ip6_addr_t \<Rightarrow> (bool \<times> ip6_addr_t) option" where
  "ip6addr_aton cp addr =
     (case aton6_count cp 8 of
        None \<Rightarrow> Some (False, addr)
      | Some (zero_blocks, check_ipv4_mapped) \<Rightarrow> do {
          r \<leftarrow> aton6_loop check_ipv4_mapped cp (ip6_words addr) 0 0 0 zero_blocks;
          (case r of
             Aton6_fail ws \<Rightarrow> Some (False, ip6_of_words ws (ip6_zone addr))
           | Aton6_fix ws cbi \<Rightarrow> Some (cbi = 7, ip6_of_words (map lwip_htonl ws) 0)
           | Aton6_end ws addr_index cbi cbv \<Rightarrow> do {
               (addr_index, ws) \<leftarrow> aton6_block ws addr_index cbi cbv;
               Some (cbi = 7, ip6_of_words (map lwip_htonl ws) 0) })
        })"

section \<open>Printing\<close>

definition lwip_xchar :: "u32 \<Rightarrow> u8" where
  "lwip_xchar i = ucast (if i < 10 then 48 + i else 65 + i - 10)"

text \<open>
  \<^verbatim>\<open>buf[i++] = c; if (i >= buflen) return NULL;\<close> for a row of characters: the flag is
  \<^term>\<open>False\<close> for a return of NULL. The first write of a row needs room.
\<close>

fun ntoa6_put :: "u8 list \<Rightarrow> nat \<Rightarrow> u8 list \<Rightarrow> (bool \<times> u8 list \<times> nat) option" where
  "ntoa6_put buf i [] = Some (True, buf, i)"
| "ntoa6_put buf i (c # cs) =
     (if i \<ge> length buf then None
      else if i + 1 \<ge> length buf then Some (False, buf[i := c], i + 1)
      else ntoa6_put (buf[i := c]) (i + 1) cs)"

text \<open>The 16-bit block \<^verbatim>\<open>idx\<close> of the address.\<close>

definition ntoa6_block :: "u32 list \<Rightarrow> nat \<Rightarrow> u32 option" where
  "ntoa6_block addr idx = do {
     w \<leftarrow> word_at addr (idx div 2);
     let v = lwip_htonl w;
     let v = (if even idx then drop_bit 16 v else v);
     Some (v AND 0xffff) }"

text \<open>The digits of a block, without leading zeros.\<close>

definition ntoa6_digits :: "u32 \<Rightarrow> u8 list" where
  "ntoa6_digits v =
     (let (d3, zero_flag) = (if v AND 0xf000 = 0 then ([], True) else ([lwip_xchar (drop_bit 12 (v AND 0xf000))], False));
          (d2, zero_flag) = (if v AND 0xf00 = 0 \<and> zero_flag then ([], zero_flag) else ([lwip_xchar (drop_bit 8 (v AND 0xf00))], False));
          (d1, zero_flag) = (if v AND 0xf0 = 0 \<and> zero_flag then ([], zero_flag) else ([lwip_xchar (drop_bit 4 (v AND 0xf0))], False))
      in d3 @ d2 @ d1 @ [lwip_xchar (v AND 0xf)])"

text \<open>
  The separator and the digits of a block (\<^verbatim>\<open>ntoa6_emit\<close>), and
  the loop over the blocks, from \<^verbatim>\<open>idx\<close> on, \<^verbatim>\<open>k\<close> of them. What remains after the loop
  (\<^verbatim>\<open>buf[i] = 0\<close>) is done by \<^verbatim>\<open>ntoa6_finish\<close>.
\<close>

definition ntoa6_finish :: "u8 list \<Rightarrow> nat \<Rightarrow> (bool \<times> u8 list) option" where
  "ntoa6_finish buf i = (if i < length buf then Some (True, buf[i := 0]) else None)"

definition ntoa6_emit :: "nat \<Rightarrow> u32 \<Rightarrow> u8 list \<Rightarrow> nat \<Rightarrow> (bool \<times> u8 list \<times> nat) option" where
  "ntoa6_emit idx v buf i =
     do {
       (ok, buf, i) \<leftarrow> ntoa6_put buf i (if idx > 0 then [58] else []);
       if \<not> ok then Some (False, buf, i) else ntoa6_put buf i (ntoa6_digits v)
     }"

fun ntoa6_loop :: "u32 list \<Rightarrow> nat \<Rightarrow> nat \<Rightarrow> u8 \<Rightarrow> u8 list \<Rightarrow> nat \<Rightarrow> (bool \<times> u8 list) option" where
  "ntoa6_loop addr 0 idx empty_block_flag buf i = ntoa6_finish buf i"
| "ntoa6_loop addr (Suc k) idx empty_block_flag buf i =
     do {
       v \<leftarrow> ntoa6_block addr idx;
       let rest = (\<lambda>flag. do {
         (ok, buf, i) \<leftarrow> ntoa6_emit idx v buf i;
         if \<not> ok then Some (False, buf) else ntoa6_loop addr k (idx + 1) flag buf i });
       if v = 0 then
         if idx = 7 \<and> empty_block_flag = 1 then do {
           (ok, buf, i) \<leftarrow> ntoa6_put buf i [58];
           if \<not> ok then Some (False, buf) else ntoa6_finish buf i
         } else if empty_block_flag = 0 then do {
           next_block_value \<leftarrow> ntoa6_block addr (idx + 1);
           if next_block_value = 0 then do {
             (ok, buf, i) \<leftarrow> ntoa6_put buf i [58];
             if \<not> ok then Some (False, buf) else ntoa6_loop addr k (idx + 1) 1 buf i
           } else rest empty_block_flag
         } else if empty_block_flag = 1 then ntoa6_loop addr k (idx + 1) 1 buf i
         else rest empty_block_flag
       else rest (if empty_block_flag = 1 then 2 else empty_block_flag)
     }"

declare ntoa6_loop.simps [simp del]

definition ip6addr_ntoa_r :: "ip6_addr_t \<Rightarrow> u8 list \<Rightarrow> (bool \<times> u8 list) option" where
  "ip6addr_ntoa_r addr buf =
     (if ip6_addr_isipv4mappedipv6 addr then
        (let hdr = [58, 58, 70, 70, 70, 70, 58, 0]
         in if length buf < length hdr then Some (False, buf)
            else let buf = patch 0 hdr buf;
                     (ok, tail) = ip4addr_ntoa_r (ip6_a3 addr) (drop 7 buf)
                 in Some (ok, take 7 buf @ tail))
      else ntoa6_loop (ip6_words addr) 8 0 0 buf 0)"

definition ip6addr_ntoa :: "ip6_addr_t \<Rightarrow> u8 list \<Rightarrow> (bool \<times> u8 list) option" where
  "ip6addr_ntoa addr str = ip6addr_ntoa_r addr (take 40 str)"

section \<open>Parsing: lemmas\<close>

text \<open>The state of the parser between two characters: the current word is that of the
  current block.\<close>

definition aton6_ok :: "u32 list \<Rightarrow> nat \<Rightarrow> nat \<Rightarrow> bool" where
  "aton6_ok addr addr_index cbi = (length addr = 4 \<and> addr_index = cbi div 2 \<and> cbi \<le> 7)"

lemma aton6_block_ok:
  assumes "aton6_ok addr ai cbi"
  obtains addr' where "aton6_block addr ai cbi v = Some ((cbi + 1) div 2, addr')" "length addr' = 4"
proof -
  have len: "length addr = 4" "cbi div 2 < 4" and ai: "ai = cbi div 2" using assms by (auto simp: aton6_ok_def)
  show thesis
  proof (cases "odd cbi")
    case True
    then have "(cbi + 1) div 2 = cbi div 2 + 1" by (simp add: odd_succ_div_two)
    then show thesis using True len
      by (intro that [of "addr[ai := addr ! ai OR v]"]) (simp_all add: aton6_block_def word_at_def set_word_def ai)
  next
    case False
    then show thesis using len
      by (intro that [of "addr[ai := push_bit 16 v]"]) (simp_all add: aton6_block_def set_word_def ai)
  qed
qed

lemma aton6_zeros_ok:
  "aton6_ok addr ai cbi \<Longrightarrow>
   (\<exists>addr'. aton6_zeros addr ai cbi zb = Some (Inl addr')) \<or>
   (\<exists>addr' ai' cbi' zb'. aton6_zeros addr ai cbi zb = Some (Inr (addr', ai', cbi', zb')) \<and> aton6_ok addr' ai' cbi')"
proof (induction addr ai cbi zb rule: aton6_zeros.induct)
  case (1 addr ai cbi zb)
  show ?case
  proof (cases "zb > 0")
    case True
    let ?a = "if odd cbi then addr else addr[ai := 0]"
    have next_state: "(if odd cbi then Some (ai + 1, addr)
        else do { addr \<leftarrow> set_word addr ai 0; Some (ai, addr) }) = Some ((cbi + 1) div 2, ?a)" "length ?a = 4"
      using "1.prems" by (auto simp: aton6_ok_def set_word_def)
    show ?thesis
    proof (cases "cbi + 1 > 7")
      case False
      then have "aton6_ok ?a ((cbi + 1) div 2) (cbi + 1)" using next_state(2) by (simp add: aton6_ok_def)
      then show ?thesis
        using "1.IH" [OF True refl next_state(1) refl refl False] True False next_state(1)
        by (subst (1 2) aton6_zeros.simps) (simp del: bind_eq_Some_conv)
    qed (use True next_state(1) in \<open>subst aton6_zeros.simps, simp\<close>)
  qed (use "1.prems" in \<open>subst (1 2) aton6_zeros.simps, simp\<close>)
qed

lemma aton6_loop_ok:
  "aton6_ok addr ai cbi \<Longrightarrow>
   \<exists>r. aton6_loop chk s addr ai cbi cbv zb = Some r \<and>
     (\<forall>ws ai cbi v. r = Aton6_end ws ai cbi v \<longrightarrow> aton6_ok ws ai cbi)"
proof (induction "length s" arbitrary: s addr ai cbi cbv zb rule: less_induct)
  case less
  show ?case
  proof (cases s)
    case Nil
    then show ?thesis using less.prems by (subst aton6_loop.simps) simp
  next
    case (Cons c t)
    obtain addr' where b: "aton6_block addr ai cbi cbv = Some ((cbi + 1) div 2, addr')" "length addr' = 4"
      by (rule aton6_block_ok [OF less.prems])
    consider (colon) "c = 58" | (digit) "c \<noteq> 58" "lwip_isxdigit c" | (other) "c \<noteq> 58" "\<not> lwip_isxdigit c" by blast
    then show ?thesis
    proof cases
      case colon
      have IH: "length u < length s \<Longrightarrow> aton6_ok ws i cb \<Longrightarrow> \<exists>r. aton6_loop chk u ws i cb 0 z = Some r \<and>
        (\<forall>ws ai cbi v. r = Aton6_end ws ai cbi v \<longrightarrow> aton6_ok ws ai cbi)" for u ws i cb z
        by (rule less.hyps)
      obtain ip4 where ip4: "(if chk \<and> cbi + 1 = 6 then ip4addr_aton t else Some None) = Some ip4"
        using ip4addr_aton_total [of t] by fastforce
      show ?thesis
      proof (cases ip4)
        case (Some a)
        then show ?thesis using b ip4 colon Cons
          by (subst aton6_loop.simps) (simp add: set_word_def)
      next
        case None
        show ?thesis
        proof (cases "cbi + 1 > 7")
          case True
          then show ?thesis using b ip4 colon Cons None by (subst aton6_loop.simps) simp
        next
          case False
          then have ok: "aton6_ok addr' ((cbi + 1) div 2) (cbi + 1)" using b(2) by (simp add: aton6_ok_def)
          have tl: "length (tl t) < length s" "length t < length s" using Cons by simp_all
          show ?thesis
            using b ip4 colon Cons None False aton6_zeros_ok [OF ok, of zb] IH [OF tl(2) ok] IH [OF tl(1)]
            by (subst aton6_loop.simps) (fastforce simp del: ip4addr_aton_total)
        qed
      qed
    next
      case digit
      then show ?thesis using Cons
        less.hyps [OF _ less.prems, of t "push_bit 4 cbv + hex_value c" zb]
        by (subst aton6_loop.simps) simp
    next
      case other
      then show ?thesis using Cons less.prems by (subst aton6_loop.simps) simp
    qed
  qed
qed

text \<open>C35: \<^verbatim>\<open>ip6addr_aton\<close> never accesses the address words out of bounds and always returns,
  whatever the string.\<close>

theorem ip6addr_aton_safe: "ip6addr_aton cp addr \<noteq> None"
proof (cases "aton6_count cp 8")
  case (Some x)
  obtain zb chk where x: "x = (zb, chk)" by fastforce
  have "aton6_ok (ip6_words addr) 0 0" by (simp add: aton6_ok_def ip6_words_def)
  then obtain r where r: "aton6_loop chk cp (ip6_words addr) 0 0 0 zb = Some r"
    "\<forall>ws ai cbi v. r = Aton6_end ws ai cbi v \<longrightarrow> aton6_ok ws ai cbi"
    using aton6_loop_ok by blast
  show ?thesis
  proof (cases r)
    case (Aton6_end ws ai cbi v)
    then have "aton6_ok ws ai cbi" using r(2) by simp
    then obtain ws' where "aton6_block ws ai cbi v = Some ((cbi + 1) div 2, ws')"
      by (rule aton6_block_ok)
    then show ?thesis using Some x r(1) Aton6_end by (simp add: ip6addr_aton_def)
  qed (use Some x r(1) in \<open>simp_all add: ip6addr_aton_def\<close>)
qed (simp add: ip6addr_aton_def)

section \<open>Printing: lemmas\<close>

lemma ntoa6_put_room:
  "i + length cs < length buf \<Longrightarrow> \<exists>buf'. ntoa6_put buf i cs = Some (True, buf', i + length cs) \<and> length buf' = length buf"
proof (induction cs arbitrary: buf i)
  case (Cons c cs)
  then show ?case using Cons.IH [of "i + 1" "buf[i := c]"] by simp
qed simp

lemma ntoa6_put_safe:
  "i < length buf \<Longrightarrow> \<exists>ok buf' i'. ntoa6_put buf i cs = Some (ok, buf', i') \<and> length buf' = length buf \<and> (ok \<longrightarrow> i' < length buf)"
proof (induction cs arbitrary: buf i)
  case (Cons c cs)
  then show ?case using Cons.IH [of "i + 1" "buf[i := c]"] by auto
qed (simp, blast)

lemma ntoa6_digits_length: "length (ntoa6_digits v) \<le> 4"
  by (simp add: ntoa6_digits_def)

text \<open>The zero blocks that the loop still has to find when it has seen no pair of them.\<close>

definition last_alone :: "u32 list \<Rightarrow> nat \<Rightarrow> bool" where
  "last_alone addr idx = (idx \<le> 7 \<and> ntoa6_block addr 7 = Some 0 \<and>
     (\<forall>j. idx \<le> j \<and> j < 7 \<longrightarrow> \<not> (ntoa6_block addr j = Some 0 \<and> ntoa6_block addr (j + 1) = Some 0)))"

lemma ntoa6_block_Some: "length addr = 4 \<Longrightarrow> idx < 8 \<Longrightarrow> \<exists>v. ntoa6_block addr idx = Some v"
  by (simp add: ntoa6_block_def word_at_def Let_def)

lemma ntoa6_block_8: "length addr = 4 \<Longrightarrow> ntoa6_block addr 8 = None"
  by (simp add: ntoa6_block_def word_at_def)

lemma last_alone_7: "last_alone addr 7 \<longleftrightarrow> ntoa6_block addr 7 = Some 0"
  by (auto simp: last_alone_def)

lemma last_alone_step:
  "idx < 7 \<Longrightarrow> last_alone addr idx \<longleftrightarrow>
     last_alone addr (idx + 1) \<and> \<not> (ntoa6_block addr idx = Some 0 \<and> ntoa6_block addr (idx + 1) = Some 0)"
  unfolding last_alone_def by (metis Suc_eq_plus1 Suc_leD Suc_leI le_antisym not_less_eq_eq order_refl)

lemma ntoa6_emit_safe:
  "i < length buf \<Longrightarrow> \<exists>ok buf' i'. ntoa6_emit idx v buf i = Some (ok, buf', i') \<and> length buf' = length buf \<and> (ok \<longrightarrow> i' < length buf)"
proof -
  let ?sep = "if idx > 0 then [58] else [] :: u8 list"
  assume "i < length buf"
  then obtain ok b j where b: "ntoa6_put buf i ?sep = Some (ok, b, j)" "length b = length buf" "ok \<longrightarrow> j < length buf"
    using ntoa6_put_safe by blast
  show ?thesis
  proof (cases ok)
    case True
    then have "j < length b" using b by simp
    then show ?thesis using b True ntoa6_put_safe [of j b "ntoa6_digits v"] by (simp add: ntoa6_emit_def)
  qed (use b in \<open>auto simp: ntoa6_emit_def\<close>)
qed

lemma ntoa6_emit_room:
  assumes "i + (if idx > 0 then 5 else 4) < length buf"
  shows "\<exists>buf' i'. ntoa6_emit idx v buf i = Some (True, buf', i') \<and> length buf' = length buf \<and>
    i' \<le> i + (if idx > 0 then 5 else 4)"
proof -
  let ?sep = "if idx > 0 then [58] else [] :: u8 list"
  have "i + length ?sep < length buf" using assms by (auto split: if_splits)
  then obtain b where b: "ntoa6_put buf i ?sep = Some (True, b, i + length ?sep)" "length b = length buf"
    using ntoa6_put_room [of i ?sep buf] by blast
  have "i + length ?sep + length (ntoa6_digits v) < length b"
    using assms b(2) ntoa6_digits_length [of v] by (auto split: if_splits)
  then obtain c where "ntoa6_put b (i + length ?sep) (ntoa6_digits v)
      = Some (True, c, i + length ?sep + length (ntoa6_digits v))" "length c = length b"
    using ntoa6_put_room by blast
  then show ?thesis using b ntoa6_digits_length [of v] by (auto simp: ntoa6_emit_def)
qed

text \<open>What the loop does with one block.\<close>

lemma ntoa6_loop_cases:
  assumes "length addr = 4" "idx + Suc k = 8"
  obtains
    (last) "idx = 7" "flag = 1"
      "ntoa6_loop addr (Suc k) idx flag buf i = do {
         (ok, buf, i) \<leftarrow> ntoa6_put buf i [58];
         if \<not> ok then Some (False, buf) else ntoa6_finish buf i }"
  | (missing) "flag = 0" "last_alone addr idx" "ntoa6_loop addr (Suc k) idx flag buf i = None"
  | (colon) "flag = 0" "\<not> last_alone addr idx"
      "ntoa6_loop addr (Suc k) idx flag buf i = do {
         (ok, buf, i) \<leftarrow> ntoa6_put buf i [58];
         if \<not> ok then Some (False, buf) else ntoa6_loop addr k (idx + 1) 1 buf i }"
  | (skip) "flag = 1" "ntoa6_loop addr (Suc k) idx flag buf i = ntoa6_loop addr k (idx + 1) 1 buf i"
  | (emit) v flag' where "flag' = 0 \<longleftrightarrow> flag = 0" "flag = 0 \<Longrightarrow> last_alone addr idx = last_alone addr (idx + 1)"
      "ntoa6_loop addr (Suc k) idx flag buf i = do {
         (ok, buf, i) \<leftarrow> ntoa6_emit idx v buf i;
         if \<not> ok then Some (False, buf) else ntoa6_loop addr k (idx + 1) flag' buf i }"
proof -
  obtain v where v: "ntoa6_block addr idx = Some v" using ntoa6_block_Some assms by fastforce
  consider (nz) "v \<noteq> 0" | (z0) "v = 0" "flag = 0" | (z1) "v = 0" "flag = 1" | (z2) "v = 0" "flag \<noteq> 0" "flag \<noteq> 1" by blast
  then show thesis
  proof cases
    case nz
    have "last_alone addr idx = last_alone addr (idx + 1)"
    proof (cases "idx = 7")
      case True
      then show ?thesis using nz v by (simp add: last_alone_def)
    next
      case False
      then show ?thesis using assms nz v last_alone_step [of idx addr] by simp
    qed
    then show thesis
      using nz v by (intro emit [of "if flag = 1 then 2 else flag" v]) (simp_all add: ntoa6_loop.simps)
  next
    case z0
    show thesis
    proof (cases "idx = 7")
      case True
      then show thesis using v z0 assms ntoa6_block_8 [OF assms(1)]
        by (intro missing) (simp_all add: last_alone_7 ntoa6_loop.simps)
    next
      case False
      then have "idx + 1 < 8" using assms by simp
      then obtain w where w: "ntoa6_block addr (idx + 1) = Some w" using ntoa6_block_Some assms(1) by blast
      show thesis
      proof (cases "w = 0")
        case True
        then show thesis using v w z0 assms False last_alone_step [of idx addr]
          by (intro colon) (simp_all add: ntoa6_loop.simps)
      next
        case nz: False
        then show thesis using v w z0 assms False last_alone_step [of idx addr]
          by (intro emit [of 0 0]) (simp_all add: Let_def ntoa6_loop.simps)
      qed
    qed
  next
    case z1
    then show thesis
    proof (cases "idx = 7")
      case True
      then show thesis using v z1 by (intro last) (simp_all add: ntoa6_loop.simps)
    next
      case False
      then show thesis using v z1 by (intro skip) (simp_all add: ntoa6_loop.simps)
    qed
  next
    case z2
    then show thesis using v by (intro emit [of flag 0]) (simp_all add: Let_def ntoa6_loop.simps)
  qed
qed

text \<open>With an unused part of the buffer, only the missing word is accessed out of bounds.\<close>

lemma ntoa6_loop_safe:
  "length addr = 4 \<Longrightarrow> i < length buf \<Longrightarrow> idx + k = 8 \<Longrightarrow> ntoa6_loop addr k idx flag buf i = None \<Longrightarrow>
   flag = 0 \<and> last_alone addr idx"
proof (induction k arbitrary: idx flag buf i)
  case 0
  then show ?case by (simp add: ntoa6_finish_def ntoa6_loop.simps)
next
  case (Suc k)
  have IH: "f = 0 \<and> last_alone addr (idx + 1)"
    if "ntoa6_loop addr k (idx + 1) f b j = None" "j < length b" for f b j
    using Suc.IH [of j b "idx + 1" f] that Suc.prems by simp
  obtain ok2 buf2 i2 where p: "ntoa6_put buf i [58] = Some (ok2, buf2, i2)" "length buf2 = length buf" "ok2 \<longrightarrow> i2 < length buf"
    using ntoa6_put_safe [OF Suc.prems(2)] by blast
  from Suc.prems(1,3) show ?case
  proof (cases rule: ntoa6_loop_cases [where flag = flag and buf = buf and i = i])
    case last
    then show ?thesis using Suc.prems(4) p by (simp add: ntoa6_finish_def del: ntoa6_put.simps split: if_splits)
  next
    case colon
    then have "ok2" "ntoa6_loop addr k (idx + 1) 1 buf2 i2 = None"
      using Suc.prems(4) p by (simp_all  del: ntoa6_put.simps split: if_splits)
    then show ?thesis using IH [of 1 buf2 i2] p by simp
  next
    case skip
    then show ?thesis using IH [of 1 buf i] Suc.prems(2,4) by simp
  next
    case (emit v flag')
    obtain ok b j where e: "ntoa6_emit idx v buf i = Some (ok, b, j)" "length b = length buf" "ok \<longrightarrow> j < length buf"
      using ntoa6_emit_safe [OF Suc.prems(2)] by blast
    then have "ok" "ntoa6_loop addr k (idx + 1) flag' b j = None"
      using Suc.prems(4) emit(3) by (simp_all split: if_splits)
    then show ?thesis using IH [of flag' b j] e emit by simp
  qed simp
qed

lemma ntoa6_loop_room:
  "length addr = 4 \<Longrightarrow> i + 5 * k < length buf + (if idx = 0 then 1 else 0) \<Longrightarrow> idx + k = 8 \<Longrightarrow>
   if flag = 0 \<and> last_alone addr idx then ntoa6_loop addr k idx flag buf i = None
    else \<exists>out. ntoa6_loop addr k idx flag buf i = Some (True, out)"
proof (induction k arbitrary: idx flag buf i)
  case 0
  then show ?case by (simp add: ntoa6_finish_def last_alone_def ntoa6_loop.simps)
next
  case (Suc k)
  have IH: "if f = 0 \<and> last_alone addr (idx + 1) then ntoa6_loop addr k (idx + 1) f b j = None
    else \<exists>out. ntoa6_loop addr k (idx + 1) f b j = Some (True, out)"
    if "length b = length buf" "j \<le> i + (if idx > 0 then 5 else 4)" for f b j
    using Suc.IH [of j b "idx + 1" f] that Suc.prems by (auto split: if_splits)
  have "i + length [58 :: u8] < length buf" using Suc.prems by (auto split: if_splits)
  then obtain buf2 where p: "ntoa6_put buf i [58] = Some (True, buf2, i + 1)" "length buf2 = length buf"
    using ntoa6_put_room [of i "[58]" buf] by auto
  from Suc.prems(1,3) show ?case
  proof (cases rule: ntoa6_loop_cases [where flag = flag and buf = buf and i = i])
    case last
    then show ?thesis using p Suc.prems by (simp add: ntoa6_finish_def del: ntoa6_put.simps)
  next
    case colon
    then show ?thesis using p IH [of buf2 "i + 1" 1] by (simp  del: ntoa6_put.simps split: if_splits)
  next
    case skip
    then show ?thesis using IH [of buf i 1] by simp
  next
    case (emit v flag')
    have "i + (if idx > 0 then 5 else 4) < length buf" using Suc.prems by (auto split: if_splits)
    then obtain b j where e: "ntoa6_emit idx v buf i = Some (True, b, j)" "length b = length buf"
      "j \<le> i + (if idx > 0 then 5 else 4)"
      using ntoa6_emit_room by blast
    then show ?thesis using IH [OF e(2,3), of flag'] emit by (cases "flag = 0") (simp_all split: if_splits)
  qed simp
qed

text \<open>C36: in a buffer of at least 40 bytes \<^verbatim>\<open>ip6addr_ntoa_r\<close> always finds room for the text, but
  it reads the address word behind the last one exactly when the last block of the address is
  zero and no two zero blocks are adjacent (an IPv4-mapped address is printed another way).\<close>

theorem ip6addr_ntoa_r_out_of_bounds:
  assumes "40 \<le> length buf"
  shows "if \<not> ip6_addr_isipv4mappedipv6 addr \<and> ntoa6_block (ip6_words addr) 7 = Some 0 \<and>
      (\<forall>j < 7. \<not> (ntoa6_block (ip6_words addr) j = Some 0 \<and> ntoa6_block (ip6_words addr) (j + 1) = Some 0))
    then ip6addr_ntoa_r addr buf = None
    else \<exists>out. ip6addr_ntoa_r addr buf = Some (True, out)"
proof (cases "ip6_addr_isipv4mappedipv6 addr")
  case True
  let ?buf = "drop 7 (patch 0 [58, 58, 70, 70, 70, 70, 58, 0] buf)"
  have "length (dotted (bytes_le 4 (unat (ip6_a3 addr)))) \<le> 15"
    unfolding bytes_le_4_eq by (rule length_dotted_4) simp_all
  moreover have "33 \<le> length ?buf" using assms by simp
  ultimately obtain out where "ip4addr_ntoa_r (ip6_a3 addr) ?buf = (True, out)"
    using ntoa_r_fits [of "ip6_a3 addr" ?buf] by auto
  then show ?thesis using True assms by (simp add: ip6addr_ntoa_r_def Let_def)
next
  case False
  have "last_alone (ip6_words addr) 0 \<longleftrightarrow> ntoa6_block (ip6_words addr) 7 = Some 0 \<and>
      (\<forall>j < 7. \<not> (ntoa6_block (ip6_words addr) j = Some 0 \<and> ntoa6_block (ip6_words addr) (j + 1) = Some 0))"
    by (simp add: last_alone_def)
  moreover have "length (ip6_words addr) = 4" by (simp add: ip6_words_def)
  ultimately show ?thesis using False assms ntoa6_loop_room [of "ip6_words addr" 0 8 buf 0 0]
    by (simp add: ip6addr_ntoa_r_def)
qed

theorem ip6addr_ntoa_r_out_of_bounds_witness:
  "ip6addr_ntoa_r \<lparr>ip6_a0 = 0x02000100, ip6_a1 = 0x04000300, ip6_a2 = 0x06000500, ip6_a3 = 0x00000700, ip6_zone = 0\<rparr>
     (replicate 40 0) = None"
proof -
  let ?a = "\<lparr>ip6_a0 = 0x02000100, ip6_a1 = 0x04000300, ip6_a2 = 0x06000500, ip6_a3 = 0x00000700, ip6_zone = 0\<rparr> :: ip6_addr_t"
  have "ntoa6_block (ip6_words ?a) 7 = Some 0"
    by (simp add: ntoa6_block_def word_at_def ip6_words_def lwip_htonl_def)
  moreover have "ntoa6_block (ip6_words ?a) j \<noteq> Some 0" if "j < 7" for j
  proof -
    have "j = 0 \<or> j = 1 \<or> j = 2 \<or> j = 3 \<or> j = 4 \<or> j = 5 \<or> j = 6" using that by linarith
    then show ?thesis
      by (elim disjE) (simp_all add: ntoa6_block_def word_at_def ip6_words_def lwip_htonl_def)
  qed
  moreover have "\<not> ip6_addr_isipv4mappedipv6 ?a" by (simp add: ip6_addr_isipv4mappedipv6_def)
  ultimately show ?thesis using ip6addr_ntoa_r_out_of_bounds [of "replicate 40 0" ?a] by simp
qed

end
