(* ===== verification/Lwip_Seq.thy ===== *)
theory Lwip_Seq
  imports Lwip_Prelude "HOL-Library.Multiset"
begin

text \<open>
  Comparison of 32-bit numbers that wrap around: the clock of \<^verbatim>\<open>core/timeouts.c\<close>
  (\<^verbatim>\<open>TIME_LESS_THAN\<close>) and the TCP sequence numbers (\<^verbatim>\<open>TCP_SEQ_LT\<close> and its companions in
  \<^verbatim>\<open>include/lwip/priv/tcp_priv.h\<close>). In any window of half the number space the comparison is
  the order of the distances from the start of the window; the locale \<^verbatim>\<open>window_order\<close> states
  this contract, and lists kept sorted by such a comparison are studied in it once.
\<close>

definition TIME_LESS_THAN :: "u32 \<Rightarrow> u32 \<Rightarrow> bool" where
  "TIME_LESS_THAN t compare_to = (t - compare_to > 0x7fffffff)"

definition TCP_SEQ_LT :: "u32 \<Rightarrow> u32 \<Rightarrow> bool" where
  "TCP_SEQ_LT a b = (sint (a - b) < 0)"

definition TCP_SEQ_LEQ :: "u32 \<Rightarrow> u32 \<Rightarrow> bool" where
  "TCP_SEQ_LEQ a b = (sint (a - b) \<le> 0)"

definition TCP_SEQ_GT :: "u32 \<Rightarrow> u32 \<Rightarrow> bool" where
  "TCP_SEQ_GT a b = (sint (a - b) > 0)"

definition TCP_SEQ_GEQ :: "u32 \<Rightarrow> u32 \<Rightarrow> bool" where
  "TCP_SEQ_GEQ a b = (sint (a - b) \<ge> 0)"

definition TCP_SEQ_BETWEEN :: "u32 \<Rightarrow> u32 \<Rightarrow> u32 \<Rightarrow> bool" where
  "TCP_SEQ_BETWEEN a b c = (TCP_SEQ_GEQ a b \<and> TCP_SEQ_LEQ a c)"

section \<open>Windows\<close>

text \<open>The distance of a number from a base, and the window of half the space behind it.\<close>

definition dist :: "u32 \<Rightarrow> u32 \<Rightarrow> nat" where
  "dist b t = unat (t - b)"

definition in_window :: "u32 \<Rightarrow> u32 \<Rightarrow> bool" where
  "in_window b t = (dist b t < 2 ^ 31)"

lemma dist_self [simp]: "dist b b = 0"
  by (simp add: dist_def)

lemma in_window_self [simp]: "in_window b b"
  by (simp add: in_window_def)

lemma dist_less [simp]: "dist b t < 4294967296"
  by (simp add: dist_def)

lemma dist_inject: "dist b s = dist b t \<longleftrightarrow> s = t"
  by (simp add: dist_def word_unat_eq_iff [symmetric])

lemma unat_minus:
  "unat (x - y :: u32) = (if unat y \<le> unat x then unat x - unat y else unat x + 4294967296 - unat y)"
  using unat_sub_if' [of x y] by simp

lemma unat_diff:
  "unat (a - c :: u32) = (if dist b c \<le> dist b a then dist b a - dist b c else dist b a + 4294967296 - dist b c)"
proof -
  have e: "a - c = (a - b) - (c - b)" by simp
  have "unat ((a - b) - (c - b)) = (if unat (c - b) \<le> unat (a - b) then unat (a - b) - unat (c - b)
      else unat (a - b) + 4294967296 - unat (c - b))"
    by (rule unat_minus)
  then show ?thesis unfolding e [symmetric] dist_def .
qed

lemma dist_add: "dist b t + unat d < 4294967296 \<Longrightarrow> dist b (t + d) = dist b t + unat d"
proof -
  assume "dist b t + unat d < 4294967296"
  then have "unat ((t - b) + d) = unat (t - b) + unat d"
    unfolding dist_def by (rule unat_add_u32_small)
  then show ?thesis by (simp add: dist_def add_diff_eq diff_add_eq)
qed

lemma TIME_LESS_THAN_window:
  assumes "in_window b s" "in_window b t"
  shows "TIME_LESS_THAN s t \<longleftrightarrow> dist b s < dist b t"
proof -
  have "dist b s < 2147483648" "dist b t < 2147483648" using assms by (simp_all add: in_window_def)
  then show ?thesis
    unfolding TIME_LESS_THAN_def word_less_nat_alt unat_diff [of s t b] by simp linarith
qed

lemma sint_u32: "sint (w :: u32) = (if unat w < 2147483648 then int (unat w) else int (unat w) - 4294967296)"
proof -
  have m: "int (unat w) = sint w mod 4294967296"
    using uint_sint [of w] by (simp add: take_bit_eq_mod)
  have b: "- 2147483648 \<le> sint w" "sint w < 2147483648"
    using sint_ge [of w] sint_lt [of w] by simp_all
  show ?thesis
  proof (cases "0 \<le> sint w")
    case True
    then have "int (unat w) = sint w" using m b by simp
    then have "unat w < 2147483648" using b by linarith
    then show ?thesis using \<open>int (unat w) = sint w\<close> by simp
  next
    case False
    then have "int (unat w) = sint w + 4294967296"
      using m b mod_pos_pos_trivial [of "sint w + 4294967296" 4294967296] by simp
    moreover from this have "\<not> unat w < 2147483648" using b by linarith
    ultimately show ?thesis by simp
  qed
qed

lemma TCP_SEQ_LT_time: "TCP_SEQ_LT a b = TIME_LESS_THAN a b"
proof -
  have "int (unat (a - b)) < 4294967296" using unat_u32_less [of "a - b"] by linarith
  moreover have "a - b > 0x7fffffff \<longleftrightarrow> \<not> unat (a - b) < 2147483648" by (simp add: word_less_nat_alt) linarith
  ultimately show ?thesis unfolding TCP_SEQ_LT_def TIME_LESS_THAN_def sint_u32 by (simp del: of_nat_unat)
qed

lemma TCP_SEQ_LEQ_iff: "TCP_SEQ_LEQ a b \<longleftrightarrow> TCP_SEQ_LT a b \<or> a = b"
proof -
  have "sint (a - b) = 0 \<longleftrightarrow> a = b"
    by (metis eq_iff_diff_eq_0 signed_0 signed_word_eqI)
  then show ?thesis by (auto simp: TCP_SEQ_LT_def TCP_SEQ_LEQ_def order_le_less)
qed

lemma TCP_SEQ_GEQ_iff: "TCP_SEQ_GEQ a b \<longleftrightarrow> \<not> TCP_SEQ_LT a b"
  by (auto simp: TCP_SEQ_LT_def TCP_SEQ_GEQ_def)

lemma TCP_SEQ_GT_iff: "TCP_SEQ_GT a b \<longleftrightarrow> \<not> TCP_SEQ_LEQ a b"
  by (auto simp: TCP_SEQ_LEQ_def TCP_SEQ_GT_def)

section \<open>Lists in the order of a window\<close>

text \<open>Insertion of an element before the first one that is later.\<close>

definition insert_before :: "('a \<Rightarrow> bool) \<Rightarrow> 'a \<Rightarrow> 'a list \<Rightarrow> 'a list" where
  "insert_before later x xs = takeWhile (\<lambda>y. \<not> later y) xs @ x # dropWhile (\<lambda>y. \<not> later y) xs"

lemma mset_insert_before: "mset (insert_before P x xs) = add_mset x (mset xs)"
proof -
  have "mset xs = mset (takeWhile (\<lambda>y. \<not> P y) xs) + mset (dropWhile (\<lambda>y. \<not> P y) xs)"
    by (metis mset_append takeWhile_dropWhile_id)
  then show ?thesis by (simp add: insert_before_def)
qed

lemma set_insert_before: "set (insert_before P x xs) = insert x (set xs)"
  by (metis mset_insert_before set_mset_add_mset_insert set_mset_mset)

locale window_order =
  fixes lt :: "'t \<Rightarrow> 't \<Rightarrow> bool" and key :: "'t \<Rightarrow> nat" and inside :: "'t \<Rightarrow> bool"
  assumes lt_key: "inside s \<Longrightarrow> inside t \<Longrightarrow> lt s t \<longleftrightarrow> key s < key t"
begin

text \<open>A list whose elements carry times of the window, in ascending order.\<close>

definition ordered :: "('a \<Rightarrow> 't) \<Rightarrow> 'a list \<Rightarrow> bool" where
  "ordered f xs \<longleftrightarrow> list_all (\<lambda>x. inside (f x)) xs \<and> sorted (map (\<lambda>x. key (f x)) xs)"

lemma ordered_Nil [simp]: "ordered f []"
  by (simp add: ordered_def)

lemma ordered_Cons:
  "ordered f (x # xs) \<longleftrightarrow> inside (f x) \<and> (\<forall>y \<in> set xs. key (f x) \<le> key (f y)) \<and> ordered f xs"
  by (auto simp: ordered_def)

lemma ordered_insert_before:
  assumes "ordered f xs" "inside (f x)"
  shows "ordered f (insert_before (\<lambda>y. lt (f x) (f y)) x xs)"
  using assms(1)
proof (induction xs)
  case Nil
  then show ?case using assms(2) by (simp add: insert_before_def ordered_Cons)
next
  case (Cons y ys)
  show ?case
  proof (cases "lt (f x) (f y)")
    case True
    then have "key (f x) < key (f y)" using lt_key assms(2) Cons.prems by (simp add: ordered_Cons)
    then show ?thesis using True Cons.prems assms(2)
      by (auto simp: insert_before_def ordered_Cons intro: order.trans [OF less_imp_le])
  next
    case False
    then have "key (f y) \<le> key (f x)" using lt_key assms(2) Cons.prems by (auto simp: ordered_Cons)
    moreover have "insert_before (\<lambda>y. lt (f x) (f y)) x (y # ys) = y # insert_before (\<lambda>y. lt (f x) (f y)) x ys"
      using False by (simp add: insert_before_def)
    ultimately show ?thesis using Cons by (auto simp: ordered_Cons set_insert_before)
  qed
qed

lemma ordered_append:
  "ordered f (xs @ ys) \<longleftrightarrow> ordered f xs \<and> ordered f ys \<and> (\<forall>x \<in> set xs. \<forall>y \<in> set ys. key (f x) \<le> key (f y))"
  by (auto simp: ordered_def sorted_append)

lemma ordered_remove: "ordered f (xs @ y # zs) \<Longrightarrow> ordered f (xs @ zs)"
  by (auto simp: ordered_def sorted_append)

lemma ordered_head:
  assumes "ordered f (x # xs)" "inside t" "lt t (f x)" "y \<in> set (x # xs)"
  shows "key t < key (f y)"
proof -
  have "key t < key (f x)" using assms by (simp add: lt_key ordered_Cons)
  then show ?thesis using assms(1,4) by (auto simp: ordered_Cons)
qed

end

interpretation clock: window_order TIME_LESS_THAN "dist b" "in_window b" for b
  by unfold_locales (rule TIME_LESS_THAN_window)

interpretation seqno: window_order TCP_SEQ_LT "dist b" "in_window b" for b
  by unfold_locales (simp add: TCP_SEQ_LT_time TIME_LESS_THAN_window)

end
