(* ===== verification/Lwip_Timeouts.thy ===== *)
theory Lwip_Timeouts
  imports Lwip_Seq
begin

text \<open>
  The timer module (\<^verbatim>\<open>core/timeouts.c\<close>): a list of timeouts sorted by due time, the cyclic
  timers that re-arm themselves, and \<^verbatim>\<open>sys_check_timeouts\<close>, which the Go side calls
  periodically. The list is private to the module, so its nodes are list elements. The clock
  \<^verbatim>\<open>sys_now\<close> and the allocator answer from sequences chosen by the environment. The functions
  the timers call belong to other components: they are parameters (\<^verbatim>\<open>callbacks\<close>) acting on the
  whole state, whose remaining part is the type variable.
\<close>

section \<open>State\<close>

datatype timeout_handler = H_tcpip_tcp_timer | H_lwip_cyclic_timer | H_client nat

record sys_timeo =
  tmo_time :: u32
  tmo_h :: "timeout_handler option"
  tmo_arg :: nat

record 'w timers =
  next_timeout :: "sys_timeo list"
  current_timeout_due_time :: u32
  tcpip_tcp_timer_active :: bool
  sys_clock :: "nat \<Rightarrow> u32"
  clock_reads :: nat
  memp_ok :: "nat \<Rightarrow> bool"
  memp_calls :: nat
  tm_world :: 'w

datatype cyclic_handler = Tcp_tmr | Ip_reass_tmr | Nd6_tmr | Ip6_reass_tmr

definition TCP_TMR_INTERVAL :: u32 where "TCP_TMR_INTERVAL = 250"
definition IP_TMR_INTERVAL :: u32 where "IP_TMR_INTERVAL = 1000"
definition ND6_TMR_INTERVAL :: u32 where "ND6_TMR_INTERVAL = 1000"
definition IP6_REASS_TMR_INTERVAL :: u32 where "IP6_REASS_TMR_INTERVAL = 1000"

definition lwip_cyclic_timers :: "(u32 \<times> cyclic_handler) list" where
  "lwip_cyclic_timers =
     [(TCP_TMR_INTERVAL, Tcp_tmr), (IP_TMR_INTERVAL, Ip_reass_tmr), (ND6_TMR_INTERVAL, Nd6_tmr),
      (IP6_REASS_TMR_INTERVAL, Ip6_reass_tmr)]"

text \<open>
  What the timers call: the cyclic handlers, the handlers of other modules, the test for TCP
  PCBs in the active or time-wait lists, and \<^verbatim>\<open>PBUF_CHECK_FREE_OOSEQ\<close>.
\<close>

record 'w callbacks =
  cb_cyclic :: "cyclic_handler \<Rightarrow> 'w timers \<Rightarrow> 'w timers option"
  cb_client :: "nat \<Rightarrow> nat \<Rightarrow> 'w timers \<Rightarrow> 'w timers option"
  cb_tcp_pcbs :: "'w \<Rightarrow> bool"
  cb_check_free_ooseq :: "'w timers \<Rightarrow> 'w timers option"

definition sys_now :: "'w timers \<Rightarrow> u32 \<times> 'w timers" where
  "sys_now s = (sys_clock s (clock_reads s), s\<lparr>clock_reads := clock_reads s + 1\<rparr>)"

definition memp_malloc_timeout :: "'w timers \<Rightarrow> bool \<times> 'w timers" where
  "memp_malloc_timeout s = (memp_ok s (memp_calls s), s\<lparr>memp_calls := memp_calls s + 1\<rparr>)"

section \<open>Operations\<close>

text \<open>The loop of \<^verbatim>\<open>sys_timeout_abs\<close>: \<^verbatim>\<open>t\<close> is the head of the rest of the list.\<close>

fun timeout_insert :: "sys_timeo \<Rightarrow> sys_timeo list \<Rightarrow> sys_timeo list" where
  "timeout_insert timeout [] = []"
| "timeout_insert timeout [t] = [t, timeout]"
| "timeout_insert timeout (t # t' # ts) =
     (if TIME_LESS_THAN (tmo_time timeout) (tmo_time t') then t # timeout # t' # ts
      else t # timeout_insert timeout (t' # ts))"

definition sys_timeout_abs :: "u32 \<Rightarrow> timeout_handler option \<Rightarrow> nat \<Rightarrow> 'w timers \<Rightarrow> 'w timers option" where
  "sys_timeout_abs abs_time handler arg s =
     do {
       let (ok, s) = memp_malloc_timeout s;
       lwip_assert ok;
       let timeout = \<lparr>tmo_time = abs_time, tmo_h = handler, tmo_arg = arg\<rparr>;
       (case next_timeout s of
          [] \<Rightarrow> Some (s\<lparr>next_timeout := [timeout]\<rparr>)
        | t # ts \<Rightarrow>
            if TIME_LESS_THAN (tmo_time timeout) (tmo_time t)
            then Some (s\<lparr>next_timeout := timeout # t # ts\<rparr>)
            else Some (s\<lparr>next_timeout := timeout_insert timeout (t # ts)\<rparr>))
     }"

definition sys_timeout :: "u32 \<Rightarrow> timeout_handler option \<Rightarrow> nat \<Rightarrow> 'w timers \<Rightarrow> 'w timers option" where
  "sys_timeout msecs handler arg s =
     do {
       lwip_assert (msecs \<le> 0xffffffff div 4);
       let (now, s) = sys_now s;
       let next_timeout_time = now + msecs;
       sys_timeout_abs next_timeout_time handler arg s
     }"

definition tcpip_tcp_timer :: "'w callbacks \<Rightarrow> 'w timers \<Rightarrow> 'w timers option" where
  "tcpip_tcp_timer cb s =
     do {
       s \<leftarrow> cb_cyclic cb Tcp_tmr s;
       if cb_tcp_pcbs cb (tm_world s) then sys_timeout TCP_TMR_INTERVAL (Some H_tcpip_tcp_timer) 0 s
       else Some (s\<lparr>tcpip_tcp_timer_active := False\<rparr>)
     }"

definition tcp_timer_needed :: "'w callbacks \<Rightarrow> 'w timers \<Rightarrow> 'w timers option" where
  "tcp_timer_needed cb s =
     (if \<not> tcpip_tcp_timer_active s \<and> cb_tcp_pcbs cb (tm_world s) then
        sys_timeout TCP_TMR_INTERVAL (Some H_tcpip_tcp_timer) 0 (s\<lparr>tcpip_tcp_timer_active := True\<rparr>)
      else Some s)"

text \<open>The argument of a cyclic timer is its place in the table.\<close>

definition lwip_cyclic_timer :: "'w callbacks \<Rightarrow> nat \<Rightarrow> 'w timers \<Rightarrow> 'w timers option" where
  "lwip_cyclic_timer cb arg s =
     (if arg \<ge> length lwip_cyclic_timers then None
      else let (interval_ms, handler) = lwip_cyclic_timers ! arg in
        do {
          s \<leftarrow> cb_cyclic cb handler s;
          let (now, s) = sys_now s;
          let next_timeout_time = current_timeout_due_time s + interval_ms;
          if TIME_LESS_THAN next_timeout_time now
          then sys_timeout_abs (now + interval_ms) (Some H_lwip_cyclic_timer) arg s
          else sys_timeout_abs next_timeout_time (Some H_lwip_cyclic_timer) arg s
        })"

fun timeouts_init_loop :: "nat list \<Rightarrow> 'w timers \<Rightarrow> 'w timers option" where
  "timeouts_init_loop [] s = Some s"
| "timeouts_init_loop (i # is) s =
     do {
       s \<leftarrow> sys_timeout (fst (lwip_cyclic_timers ! i)) (Some H_lwip_cyclic_timer) i s;
       timeouts_init_loop is s
     }"

definition sys_timeouts_init :: "'w timers \<Rightarrow> 'w timers option" where
  "sys_timeouts_init s = timeouts_init_loop [1..<length lwip_cyclic_timers] s"

fun untimeout_loop :: "timeout_handler option \<Rightarrow> nat \<Rightarrow> sys_timeo list \<Rightarrow> sys_timeo list" where
  "untimeout_loop handler arg [] = []"
| "untimeout_loop handler arg (t # ts) =
     (if tmo_h t = handler \<and> tmo_arg t = arg then ts else t # untimeout_loop handler arg ts)"

definition sys_untimeout :: "timeout_handler option \<Rightarrow> nat \<Rightarrow> 'w timers \<Rightarrow> 'w timers" where
  "sys_untimeout handler arg s = s\<lparr>next_timeout := untimeout_loop handler arg (next_timeout s)\<rparr>"

definition call_handler :: "'w callbacks \<Rightarrow> timeout_handler \<Rightarrow> nat \<Rightarrow> 'w timers \<Rightarrow> 'w timers option" where
  "call_handler cb h arg s =
     (case h of
        H_tcpip_tcp_timer \<Rightarrow> tcpip_tcp_timer cb s
      | H_lwip_cyclic_timer \<Rightarrow> lwip_cyclic_timer cb arg s
      | H_client n \<Rightarrow> cb_client cb n arg s)"

text \<open>
  One round of the loop of \<^verbatim>\<open>sys_check_timeouts\<close>; the flag is \<^term>\<open>False\<close> when the function
  returns.
\<close>

definition check_round :: "'w callbacks \<Rightarrow> u32 \<Rightarrow> 'w timers \<Rightarrow> (bool \<times> 'w timers) option" where
  "check_round cb now s =
     do {
       s \<leftarrow> cb_check_free_ooseq cb s;
       (case next_timeout s of
          [] \<Rightarrow> Some (False, s)
        | t # ts \<Rightarrow>
            if TIME_LESS_THAN now (tmo_time t) then Some (False, s)
            else do {
              let s = s\<lparr>next_timeout := ts, current_timeout_due_time := tmo_time t\<rparr>;
              s \<leftarrow> (case tmo_h t of None \<Rightarrow> Some s | Some h \<Rightarrow> call_handler cb h (tmo_arg t) s);
              Some (True, s)
            })
     }"

partial_function (option) check_loop :: "'w callbacks \<Rightarrow> u32 \<Rightarrow> 'w timers \<Rightarrow> 'w timers option" where
  "check_loop cb now s =
     do {
       (again, s) \<leftarrow> check_round cb now s;
       if again then check_loop cb now s else Some s
     }"

definition sys_check_timeouts :: "'w callbacks \<Rightarrow> 'w timers \<Rightarrow> 'w timers option" where
  "sys_check_timeouts cb s = (let (now, s) = sys_now s in check_loop cb now s)"

definition sys_restart_timeouts :: "'w timers \<Rightarrow> 'w timers" where
  "sys_restart_timeouts s =
     (case next_timeout s of
        [] \<Rightarrow> s
      | t # ts \<Rightarrow>
          let (now, s) = sys_now s; base = tmo_time t
          in s\<lparr>next_timeout := map (\<lambda>t. t\<lparr>tmo_time := (tmo_time t - base) + now\<rparr>) (t # ts)\<rparr>)"

definition sys_timeouts_sleeptime :: "'w timers \<Rightarrow> (u32 \<times> 'w timers) option" where
  "sys_timeouts_sleeptime s =
     (case next_timeout s of
        [] \<Rightarrow> Some (0xFFFFFFFF, s)
      | t # ts \<Rightarrow>
          let (now, s) = sys_now s in
          if TIME_LESS_THAN (tmo_time t) now then Some (0, s)
          else do {
            let r = tmo_time t - now;
            lwip_assert (r \<le> 0x7fffffff);
            Some (r, s)
          })"

section \<open>The queue\<close>

text \<open>
  The queue is in order when all its times lie in one window of half the clock's range and
  they ascend there.
\<close>

definition queue_ok :: "u32 \<Rightarrow> sys_timeo list \<Rightarrow> bool" where
  "queue_ok b q = clock.ordered b tmo_time q"

lemma timeout_insert_before:
  "\<not> TIME_LESS_THAN (tmo_time x) (tmo_time t) \<Longrightarrow>
   timeout_insert x (t # ts) = insert_before (\<lambda>y. TIME_LESS_THAN (tmo_time x) (tmo_time y)) x (t # ts)"
proof (induction ts arbitrary: t)
  case (Cons t' ts)
  then show ?case by (simp add: insert_before_def)
qed (simp add: insert_before_def)

text \<open>\<^verbatim>\<open>sys_timeout_abs\<close> inserts behind every timeout that is not later.\<close>

lemma sys_timeout_abs_queue:
  assumes "memp_ok s (memp_calls s)"
  shows "sys_timeout_abs tm h a s = Some (s\<lparr>memp_calls := memp_calls s + 1,
    next_timeout := insert_before (\<lambda>y. TIME_LESS_THAN tm (tmo_time y)) \<lparr>tmo_time = tm, tmo_h = h, tmo_arg = a\<rparr>
      (next_timeout s)\<rparr>)"
  using assms timeout_insert_before [of "\<lparr>tmo_time = tm, tmo_h = h, tmo_arg = a\<rparr>"]
  by (auto simp: sys_timeout_abs_def memp_malloc_timeout_def Let_def insert_before_def split: list.split)

text \<open>C39: on a queue in order, \<^verbatim>\<open>sys_timeout\<close> puts the new timeout behind all timeouts that are
  due no later and in front of the later ones, and the queue stays in order.\<close>

theorem sys_timeout_ordered:
  assumes "queue_ok b (next_timeout s)" "memp_ok s (memp_calls s)" "msecs \<le> 0x3fffffff"
    and "in_window b (sys_clock s (clock_reads s) + msecs)"
  shows "\<exists>s'. sys_timeout msecs h a s = Some s' \<and> queue_ok b (next_timeout s') \<and>
    (\<exists>xs ys. next_timeout s = xs @ ys \<and>
      next_timeout s' = xs @ \<lparr>tmo_time = sys_clock s (clock_reads s) + msecs, tmo_h = h, tmo_arg = a\<rparr> # ys \<and>
      (\<forall>t \<in> set xs. dist b (tmo_time t) \<le> dist b (sys_clock s (clock_reads s) + msecs)) \<and>
      (\<forall>t \<in> set ys. dist b (sys_clock s (clock_reads s) + msecs) < dist b (tmo_time t)))"
proof -
  let ?tm = "sys_clock s (clock_reads s) + msecs"
  let ?x = "\<lparr>tmo_time = ?tm, tmo_h = h, tmo_arg = a\<rparr>"
  let ?later = "\<lambda>y. TIME_LESS_THAN ?tm (tmo_time y)"
  let ?q = "next_timeout s"
  let ?xs = "takeWhile (\<lambda>y. \<not> ?later y) ?q" and ?ys = "dropWhile (\<lambda>y. \<not> ?later y) ?q"
  have run: "sys_timeout msecs h a s = Some (s\<lparr>clock_reads := clock_reads s + 1, memp_calls := memp_calls s + 1,
      next_timeout := insert_before ?later ?x ?q\<rparr>)"
    using assms(2,3) by (simp add: sys_timeout_def sys_now_def Let_def sys_timeout_abs_queue)
  have ord: "queue_ok b (insert_before ?later ?x ?q)"
    using clock.ordered_insert_before [of b tmo_time ?q ?x] assms(1,4) by (simp add: queue_ok_def)
  have win: "in_window b (tmo_time t)" if "t \<in> set ?q" for t
    using assms(1) that by (auto simp: queue_ok_def clock.ordered_def list_all_iff)
  have early: "dist b (tmo_time t) \<le> dist b ?tm" if "t \<in> set ?xs" for t
    using set_takeWhileD [OF that] win [of t] TIME_LESS_THAN_window [of b ?tm "tmo_time t"] assms(4) by auto
  have late: "dist b ?tm < dist b (tmo_time t)" if "t \<in> set ?ys" for t
  proof -
    have "clock.ordered b tmo_time (?xs @ ?ys)" using assms(1) by (simp add: queue_ok_def)
    then have "clock.ordered b tmo_time ?ys" unfolding clock.ordered_append by blast
    moreover have "?ys \<noteq> []" using length_pos_if_in_set [OF that] unfolding length_greater_0_conv .
    then obtain y zs where y: "?ys = y # zs" unfolding neq_Nil_conv by blast
    moreover have "?later y" using y by (metis dropWhile_eq_Cons_conv)
    ultimately show ?thesis
      using clock.ordered_head [of b tmo_time y zs ?tm t] that assms(4) by simp
  qed
  have "?q = ?xs @ ?ys" "insert_before ?later ?x ?q = ?xs @ ?x # ?ys"
    by (simp_all add: insert_before_def)
  then have "\<exists>xs ys. ?q = xs @ ys \<and> insert_before ?later ?x ?q = xs @ ?x # ys \<and>
    (\<forall>t \<in> set xs. dist b (tmo_time t) \<le> dist b ?tm) \<and> (\<forall>t \<in> set ys. dist b ?tm < dist b (tmo_time t))"
    using early late by blast
  then show ?thesis unfolding run using ord by simp
qed

section \<open>Expired timers\<close>

text \<open>Callbacks that leave the timer module alone.\<close>

definition keeps_timers :: "'w timers \<Rightarrow> 'w timers \<Rightarrow> bool" where
  "keeps_timers s s' = (next_timeout s' = next_timeout s \<and>
     current_timeout_due_time s' = current_timeout_due_time s \<and> sys_clock s' = sys_clock s \<and>
     memp_ok s' = memp_ok s \<and> tcpip_tcp_timer_active s' = tcpip_tcp_timer_active s)"

definition quiet :: "'w callbacks \<Rightarrow> bool" where
  "quiet cb = (\<forall>s. (\<forall>c. \<exists>s'. cb_cyclic cb c s = Some s' \<and> keeps_timers s s') \<and>
     (\<forall>n a. \<exists>s'. cb_client cb n a s = Some s' \<and> keeps_timers s s') \<and>
     (\<exists>s'. cb_check_free_ooseq cb s = Some s' \<and> keeps_timers s s'))"

text \<open>
  The situation while the timers due at \<^verbatim>\<open>now\<close> are called: memory suffices, no reading of the
  clock is more than 2^29 ms ahead of \<^verbatim>\<open>now\<close>, and the queue is in order in the window that
  reaches from 2^30 ms before \<^verbatim>\<open>now\<close> to 2^30 ms behind it.
\<close>

definition past :: "u32 \<Rightarrow> u32" where
  "past now = now - 1073741824"

definition check_inv :: "u32 \<Rightarrow> 'w timers \<Rightarrow> bool" where
  "check_inv now s = ((\<forall>k. memp_ok s k) \<and> (\<forall>k. unat (sys_clock s k - now) < 536870912) \<and>
     queue_ok (past now) (next_timeout s) \<and>
     (\<forall>t \<in> set (next_timeout s). tmo_h t = Some H_lwip_cyclic_timer \<longrightarrow> tmo_arg t < length lwip_cyclic_timers))"

lemma check_inv_keeps: "keeps_timers s s' \<Longrightarrow> check_inv now s \<Longrightarrow> check_inv now s'"
  by (simp add: keeps_timers_def check_inv_def)

text \<open>The cyclic timers of a queue, and what is left to do until all its times are behind \<^verbatim>\<open>now\<close>.\<close>

definition cyclic_args :: "sys_timeo list \<Rightarrow> nat multiset" where
  "cyclic_args q = image_mset tmo_arg (filter_mset (\<lambda>t. tmo_h t = Some H_lwip_cyclic_timer) (mset q))"

definition overdue :: "u32 \<Rightarrow> u32 \<Rightarrow> nat" where
  "overdue now t = 1073741825 - dist (past now) t"

definition work :: "u32 \<Rightarrow> sys_timeo list \<Rightarrow> nat" where
  "work now q = sum_mset (image_mset (\<lambda>t. overdue now (tmo_time t)) (mset q))"

lemma work_Cons [simp]: "work now (t # ts) = overdue now (tmo_time t) + work now ts"
  by (simp add: work_def)

lemma work_insert_before [simp]: "work now (insert_before P x xs) = overdue now (tmo_time x) + work now xs"
  by (simp add: work_def mset_insert_before)

lemma cyclic_args_Cons [simp]:
  "cyclic_args (t # ts) = (if tmo_h t = Some H_lwip_cyclic_timer then {#tmo_arg t#} else {#}) + cyclic_args ts"
  by (simp add: cyclic_args_def)

lemma cyclic_args_insert_before [simp]:
  "cyclic_args (insert_before P x xs) = (if tmo_h x = Some H_lwip_cyclic_timer then {#tmo_arg x#} else {#}) + cyclic_args xs"
  by (simp add: cyclic_args_def mset_insert_before)

lemma dist_now: "dist (past now) now = 1073741824"
  by (simp add: dist_def past_def)

lemma dist_later: "unat (t - now) < 2147483648 \<Longrightarrow> dist (past now) t = 1073741824 + unat (t - now)"
  using dist_add [of "past now" now "t - now"] unfolding dist_now by simp

lemma intervals:
  assumes "arg < length lwip_cyclic_timers"
  shows "1 \<le> unat (fst (lwip_cyclic_timers ! arg))" "unat (fst (lwip_cyclic_timers ! arg)) \<le> 1000"
proof -
  have "arg = 0 \<or> arg = 1 \<or> arg = 2 \<or> arg = 3" using assms by (auto simp: lwip_cyclic_timers_def)
  then show "1 \<le> unat (fst (lwip_cyclic_timers ! arg))" "unat (fst (lwip_cyclic_timers ! arg)) \<le> 1000"
    by (elim disjE; simp add: lwip_cyclic_timers_def TCP_TMR_INTERVAL_def IP_TMR_INTERVAL_def
      ND6_TMR_INTERVAL_def IP6_REASS_TMR_INTERVAL_def)+
qed

text \<open>Arming a timer while the loop runs.\<close>

lemma rearm:
  assumes "check_inv now s" "in_window (past now) tm" "h = Some H_lwip_cyclic_timer \<Longrightarrow> a < length lwip_cyclic_timers"
  obtains s' where "sys_timeout_abs tm h a s = Some s'" "check_inv now s'"
    "work now (next_timeout s') = overdue now tm + work now (next_timeout s)"
    "cyclic_args (next_timeout s') = (if h = Some H_lwip_cyclic_timer then {#a#} else {#}) + cyclic_args (next_timeout s)"
proof -
  let ?x = "\<lparr>tmo_time = tm, tmo_h = h, tmo_arg = a\<rparr>"
  let ?q = "insert_before (\<lambda>y. TIME_LESS_THAN tm (tmo_time y)) ?x (next_timeout s)"
  let ?s = "s\<lparr>memp_calls := memp_calls s + 1, next_timeout := ?q\<rparr>"
  have run: "sys_timeout_abs tm h a s = Some ?s"
    using assms(1) by (intro sys_timeout_abs_queue) (simp add: check_inv_def)
  have "queue_ok (past now) ?q"
    using clock.ordered_insert_before [of "past now" tmo_time "next_timeout s" ?x] assms(1,2)
    by (simp add: check_inv_def queue_ok_def)
  then have "check_inv now ?s"
    using assms(1,3) by (auto simp: check_inv_def set_insert_before)
  then show thesis by (rule that [OF run]) simp_all
qed

text \<open>One handler called for a due timer that has been taken off the queue.\<close>

lemma call_handler_due:
  assumes "quiet cb" "check_inv now s" "dist (past now) (current_timeout_due_time s) \<le> 1073741824"
    and "h = H_lwip_cyclic_timer \<Longrightarrow> arg < length lwip_cyclic_timers"
  obtains s' where "call_handler cb h arg s = Some s'" "check_inv now s'"
    "work now (next_timeout s') < overdue now (current_timeout_due_time s) + work now (next_timeout s)"
    "cyclic_args (next_timeout s') =
       (if h = H_lwip_cyclic_timer then {#arg#} else {#}) + cyclic_args (next_timeout s)"
proof -
  let ?due = "current_timeout_due_time s"
  have pos: "0 < overdue now ?due" using assms(3) by (simp add: overdue_def)
  show thesis
  proof (cases h)
    case (H_client n)
    obtain s1 where s1: "cb_client cb n arg s = Some s1" "keeps_timers s s1"
      using assms(1) unfolding quiet_def by blast
    then show thesis using check_inv_keeps [OF s1(2) assms(2)] pos H_client
      by (intro that [of s1]) (simp_all add: call_handler_def keeps_timers_def)
  next
    case H_tcpip_tcp_timer
    obtain s1 where s1: "cb_cyclic cb Tcp_tmr s = Some s1" "keeps_timers s s1"
      using assms(1) unfolding quiet_def by blast
    have inv1: "check_inv now s1" by (rule check_inv_keeps [OF s1(2) assms(2)])
    show thesis
    proof (cases "cb_tcp_pcbs cb (tm_world s1)")
      case False
      then show thesis using inv1 s1 pos H_tcpip_tcp_timer
        by (intro that [of "s1\<lparr>tcpip_tcp_timer_active := False\<rparr>"])
          (simp_all add: call_handler_def tcpip_tcp_timer_def keeps_timers_def check_inv_def)
    next
      case True
      let ?now = "sys_clock s1 (clock_reads s1)" and ?s2 = "s1\<lparr>clock_reads := clock_reads s1 + 1\<rparr>"
      have inv2: "check_inv now ?s2" using inv1 by (simp add: check_inv_def)
      have near: "unat (?now - now) < 536870912" using inv1 by (simp add: check_inv_def)
      have "unat ((?now - now) + 250) = unat (?now - now) + 250"
        using unat_add_u32_small [of "?now - now" 250] near by simp
      then have u: "unat (?now + 250 - now) = unat (?now - now) + 250"
        by (simp add: diff_add_eq)
      then have d: "dist (past now) (?now + 250) = 1073741824 + (unat (?now - now) + 250)"
        using dist_later [of "?now + 250" now] near by simp
      then have "in_window (past now) (?now + 250)" "overdue now (?now + 250) = 0"
        using near by (simp_all add: in_window_def overdue_def)
      then obtain s3 where s3: "sys_timeout_abs (?now + 250) (Some H_tcpip_tcp_timer) 0 ?s2 = Some s3" "check_inv now s3"
        "work now (next_timeout s3) = work now (next_timeout ?s2)" "cyclic_args (next_timeout s3) = cyclic_args (next_timeout ?s2)"
        by (rule_tac rearm [OF inv2, of "?now + 250" "Some H_tcpip_tcp_timer" 0]) simp_all
      moreover have "call_handler cb h arg s = Some s3"
        using s1 s3(1) True H_tcpip_tcp_timer
        by (simp add: call_handler_def tcpip_tcp_timer_def sys_timeout_def sys_now_def TCP_TMR_INTERVAL_def)
      ultimately show thesis using s1(2) pos H_tcpip_tcp_timer
        by (intro that [of s3]) (simp_all add: keeps_timers_def)
    qed
  next
    case H_lwip_cyclic_timer
    have arg: "arg < length lwip_cyclic_timers" using assms(4) H_lwip_cyclic_timer by simp
    obtain ms c where ms: "lwip_cyclic_timers ! arg = (ms, c)" by fastforce
    then have iv: "1 \<le> unat ms" "unat ms \<le> 1000" using intervals [OF arg] by simp_all
    obtain s1 where s1: "cb_cyclic cb c s = Some s1" "keeps_timers s s1"
      using assms(1) unfolding quiet_def by blast
    have inv1: "check_inv now s1" by (rule check_inv_keeps [OF s1(2) assms(2)])
    let ?now = "sys_clock s1 (clock_reads s1)" and ?s2 = "s1\<lparr>clock_reads := clock_reads s1 + 1\<rparr>"
    let ?tm = "if TIME_LESS_THAN (?due + ms) ?now then ?now + ms else ?due + ms"
    have inv2: "check_inv now ?s2" using inv1 by (simp add: check_inv_def)
    have near: "unat (?now - now) < 536870912" using inv1 by (simp add: check_inv_def)
    have d_due: "dist (past now) (?due + ms) = dist (past now) ?due + unat ms"
      using assms(3) iv by (intro dist_add) simp
    have d_now: "dist (past now) ?now = 1073741824 + unat (?now - now)"
      using dist_later [of ?now now] near by simp
    have d_now_ms: "dist (past now) (?now + ms) = dist (past now) ?now + unat ms"
      using near iv d_now by (intro dist_add) simp
    have cmp: "TIME_LESS_THAN (?due + ms) ?now \<longleftrightarrow> dist (past now) (?due + ms) < dist (past now) ?now"
      using d_due d_now near iv assms(3) by (intro TIME_LESS_THAN_window) (simp_all add: in_window_def)
    have tm: "in_window (past now) ?tm" "overdue now ?tm < overdue now ?due"
      using cmp d_due d_now d_now_ms near iv assms(3) by (auto simp: in_window_def overdue_def)
    obtain s3 where s3: "sys_timeout_abs ?tm (Some H_lwip_cyclic_timer) arg ?s2 = Some s3" "check_inv now s3"
      "work now (next_timeout s3) = overdue now ?tm + work now (next_timeout ?s2)"
      "cyclic_args (next_timeout s3) = {#arg#} + cyclic_args (next_timeout ?s2)"
      by (rule rearm [OF inv2 tm(1), of "Some H_lwip_cyclic_timer" arg]) (use arg in simp_all)
    moreover have "call_handler cb h arg s = Some s3"
      using s1 s3(1) H_lwip_cyclic_timer arg ms
      by (simp add: call_handler_def lwip_cyclic_timer_def sys_now_def Let_def keeps_timers_def split: if_splits)
    ultimately show thesis using s1(2) tm(2) H_lwip_cyclic_timer
      by (intro that [of s3]) (simp_all add: keeps_timers_def)
  qed
qed

lemma check_round_due:
  assumes "quiet cb" "check_inv now s"
  obtains (stop) s' where "check_round cb now s = Some (False, s')" "next_timeout s' = next_timeout s"
      "\<forall>t \<in> set (next_timeout s'). TIME_LESS_THAN now (tmo_time t)"
  | (again) s' where "check_round cb now s = Some (True, s')" "check_inv now s'"
      "work now (next_timeout s') < work now (next_timeout s)"
      "cyclic_args (next_timeout s') = cyclic_args (next_timeout s)"
proof -
  obtain s1 where s1: "cb_check_free_ooseq cb s = Some s1" "keeps_timers s s1"
    using assms(1) unfolding quiet_def by blast
  have inv1: "check_inv now s1" by (rule check_inv_keeps [OF s1(2) assms(2)])
  have q: "next_timeout s1 = next_timeout s" using s1(2) by (simp add: keeps_timers_def)
  show thesis
  proof (cases "next_timeout s")
    case Nil
    then show thesis using s1(1) q by (intro stop [of s1]) (simp_all add: check_round_def)
  next
    case (Cons t ts)
    have ord: "clock.ordered (past now) tmo_time (t # ts)"
      using inv1 q Cons by (simp add: check_inv_def queue_ok_def)
    have inw: "in_window (past now) (tmo_time y)" if "y \<in> set (t # ts)" for y
      using ord that by (auto simp: clock.ordered_def list_all_iff)
    have now: "in_window (past now) now" by (simp add: in_window_def dist_now)
    have lt: "TIME_LESS_THAN now (tmo_time y) \<longleftrightarrow> 1073741824 < dist (past now) (tmo_time y)" if "y \<in> set (t # ts)" for y
      using TIME_LESS_THAN_window [OF now inw [OF that]] by (simp add: dist_now)
    show thesis
    proof (cases "TIME_LESS_THAN now (tmo_time t)")
      case True
      have "\<forall>y \<in> set (t # ts). TIME_LESS_THAN now (tmo_time y)"
        using clock.ordered_head [OF ord now True] lt by (simp add: dist_now)
      then show thesis using s1(1) q Cons True by (intro stop [of s1]) (simp_all add: check_round_def)
    next
      case False
      let ?s2 = "s1\<lparr>next_timeout := ts, current_timeout_due_time := tmo_time t\<rparr>"
      have due: "dist (past now) (tmo_time t) \<le> 1073741824" using False lt [of t] by simp
      have inv2: "check_inv now ?s2"
        using inv1 ord q Cons by (auto simp: check_inv_def queue_ok_def clock.ordered_Cons)
      show thesis
      proof (cases "tmo_h t")
        case None
        then show thesis using s1(1) q Cons False inv2 due
          by (intro again [of ?s2]) (simp_all add: check_round_def Let_def overdue_def)
      next
        case (Some h)
        have arg: "tmo_arg t < length lwip_cyclic_timers" if "h = H_lwip_cyclic_timer"
          using inv1 q Cons Some that by (simp add: check_inv_def)
        obtain s3 where s3: "call_handler cb h (tmo_arg t) ?s2 = Some s3" "check_inv now s3"
          "work now (next_timeout s3) < overdue now (current_timeout_due_time ?s2) + work now (next_timeout ?s2)"
          "cyclic_args (next_timeout s3) =
             (if h = H_lwip_cyclic_timer then {#tmo_arg t#} else {#}) + cyclic_args (next_timeout ?s2)"
          by (rule call_handler_due [OF assms(1) inv2, of h "tmo_arg t"]) (use due arg in simp_all)
        then show thesis using s1(1) q Cons False Some
          by (intro again [of s3]) (simp_all add: check_round_def Let_def)
      qed
    qed
  qed
qed

lemma check_loop_ends:
  assumes "quiet cb" "check_inv now s"
  shows "\<exists>s'. check_loop cb now s = Some s' \<and> cyclic_args (next_timeout s') = cyclic_args (next_timeout s) \<and>
    (\<forall>t \<in> set (next_timeout s'). TIME_LESS_THAN now (tmo_time t))"
  using assms(2)
proof (induction "work now (next_timeout s)" arbitrary: s rule: less_induct)
  case less
  from assms(1) less.prems show ?case
  proof (cases rule: check_round_due)
    case (stop s')
    then show ?thesis by (subst check_loop.simps) simp
  next
    case (again s')
    then show ?thesis using less.hyps [OF again(3,2)] by (subst check_loop.simps) simp
  qed
qed

text \<open>C37: if the functions the timers call leave the timer module alone, the allocator does not
  run dry and the clock does not advance by more than 2^29 ms meanwhile,
  \<^verbatim>\<open>sys_check_timeouts\<close> returns, no timeout that was due when it started is left in the queue,
  and every cyclic timer that was queued still is, exactly as often.\<close>

theorem sys_check_timeouts_returns:
  assumes "quiet cb" "\<forall>k. memp_ok s k"
    and "\<forall>k. unat (sys_clock s k - sys_clock s (clock_reads s)) < 536870912"
    and "queue_ok (past (sys_clock s (clock_reads s))) (next_timeout s)"
    and "\<forall>t \<in> set (next_timeout s). tmo_h t = Some H_lwip_cyclic_timer \<longrightarrow> tmo_arg t < length lwip_cyclic_timers"
  shows "\<exists>s'. sys_check_timeouts cb s = Some s' \<and>
    cyclic_args (next_timeout s') = cyclic_args (next_timeout s) \<and>
    (\<forall>t \<in> set (next_timeout s'). TIME_LESS_THAN (sys_clock s (clock_reads s)) (tmo_time t))"
proof -
  have "check_inv (sys_clock s (clock_reads s)) (s\<lparr>clock_reads := clock_reads s + 1\<rparr>)"
    using assms(2-5) by (simp add: check_inv_def)
  from check_loop_ends [OF assms(1) this] show ?thesis
    by (simp add: sys_check_timeouts_def sys_now_def)
qed

text \<open>A concrete stack of callbacks and a state just after start, in which the clock has advanced
  by 1000 ms: the three cyclic timers are due.\<close>

definition idle_callbacks :: "nat callbacks" where
  "idle_callbacks = \<lparr>cb_cyclic = (\<lambda>c s. Some (s\<lparr>tm_world := tm_world s + 1\<rparr>)), cb_client = (\<lambda>n a s. Some s),
     cb_tcp_pcbs = (\<lambda>w. False), cb_check_free_ooseq = Some\<rparr>"

definition started :: "nat timers" where
  "started = \<lparr>next_timeout = map (\<lambda>i. \<lparr>tmo_time = 500, tmo_h = Some H_lwip_cyclic_timer, tmo_arg = i\<rparr>) [1, 2, 3],
     current_timeout_due_time = 0, tcpip_tcp_timer_active = False, sys_clock = (\<lambda>k. 1500), clock_reads = 0,
     memp_ok = (\<lambda>k. True), memp_calls = 0, tm_world = 0\<rparr>"

lemma quiet_idle: "quiet idle_callbacks"
  by (simp add: quiet_def idle_callbacks_def keeps_timers_def)

lemma dist_past_1500: "dist (past 1500) 500 = 1073740824"
  by (simp add: dist_def past_def)

theorem sys_check_timeouts_returns_witness:
  "\<exists>s'. sys_check_timeouts idle_callbacks started = Some s' \<and> cyclic_args (next_timeout s') = {#1, 2, 3#} \<and>
    (\<forall>t \<in> set (next_timeout s'). TIME_LESS_THAN 1500 (tmo_time t))"
proof -
  have "queue_ok (past (sys_clock started (clock_reads started))) (next_timeout started)"
    by (simp add: started_def queue_ok_def clock.ordered_def in_window_def dist_past_1500)
  moreover have "cyclic_args (next_timeout started) = {#1, 2, 3#}"
    by (simp add: started_def cyclic_args_def)
  moreover have "\<forall>k. sys_clock started k = 1500" "\<forall>k. memp_ok started k" by (simp_all add: started_def)
  moreover have "\<forall>t \<in> set (next_timeout started). tmo_h t = Some H_lwip_cyclic_timer \<longrightarrow> tmo_arg t < length lwip_cyclic_timers"
    by (simp add: started_def lwip_cyclic_timers_def)
  ultimately show ?thesis
    using sys_check_timeouts_returns [OF quiet_idle, of started] by simp
qed

theorem sys_timeout_ordered_witness:
  "\<exists>s'. sys_timeout 250 (Some (H_client 0)) 0 started = Some s' \<and> queue_ok (past 1500) (next_timeout s')"
proof -
  have "queue_ok (past 1500) (next_timeout started)"
    by (simp add: started_def queue_ok_def clock.ordered_def in_window_def dist_past_1500)
  moreover have "in_window (past 1500) (1500 + 250)"
    by (simp add: in_window_def dist_def past_def)
  moreover have "sys_clock started (clock_reads started) = 1500" "memp_ok started (memp_calls started)"
    by (simp_all add: started_def)
  ultimately show ?thesis
    using sys_timeout_ordered [of "past 1500" started 250 "Some (H_client 0)" 0] by auto
qed

section \<open>Cyclic timers\<close>

text \<open>A cyclic timer called with a delay of less than 2^30 ms re-arms itself for a time at most
  one interval ahead; called less than an interval late, it keeps to its grid: the next time is
  the old due time plus the interval, so that delays do not add up.\<close>

theorem lwip_cyclic_timer_no_drift:
  assumes "arg < length lwip_cyclic_timers" "lwip_cyclic_timers ! arg = (ms, c)"
    and "cb_cyclic cb c s = Some s1" "memp_ok s1 (memp_calls s1)"
    and "unat (sys_clock s1 (clock_reads s1) - current_timeout_due_time s1) < 1073741824"
  shows "\<exists>s' t. lwip_cyclic_timer cb arg s = Some s' \<and>
    mset (next_timeout s') = add_mset t (mset (next_timeout s1)) \<and>
    tmo_h t = Some H_lwip_cyclic_timer \<and> tmo_arg t = arg \<and>
    unat (tmo_time t - sys_clock s1 (clock_reads s1)) \<le> unat ms \<and>
    (sys_clock s1 (clock_reads s1) - current_timeout_due_time s1 \<le> ms \<longrightarrow> tmo_time t = current_timeout_due_time s1 + ms)"
proof -
  let ?due = "current_timeout_due_time s1" and ?now = "sys_clock s1 (clock_reads s1)"
  define tm where "tm = (if TIME_LESS_THAN (?due + ms) ?now then ?now + ms else ?due + ms)"
  have iv: "1 \<le> unat ms" "unat ms \<le> 1000" using intervals [OF assms(1)] assms(2) by simp_all
  have now: "dist ?due ?now < 1073741824" using assms(5) by (simp add: dist_def)
  have next_due: "dist ?due (?due + ms) = unat ms" by (simp add: dist_def)
  have lt: "TIME_LESS_THAN (?due + ms) ?now \<longleftrightarrow> unat ms < dist ?due ?now"
    using TIME_LESS_THAN_window [of ?due "?due + ms" ?now] next_due now iv by (simp add: in_window_def)
  have le: "?now - ?due \<le> ms \<longleftrightarrow> dist ?due ?now \<le> unat ms" by (simp add: dist_def word_le_nat_alt)
  have late: "unat (tm - ?now) \<le> unat ms"
  proof (cases "TIME_LESS_THAN (?due + ms) ?now")
    case False
    then have "dist ?due ?now \<le> dist ?due (?due + ms)" using lt next_due by simp
    then show ?thesis using False unat_diff [of "?due + ms" ?now ?due] next_due by (simp add: tm_def)
  qed (simp add: tm_def)
  have grid: "?now - ?due \<le> ms \<longrightarrow> tm = ?due + ms" using lt le by (simp add: tm_def)
  let ?x = "\<lparr>tmo_time = tm, tmo_h = Some H_lwip_cyclic_timer, tmo_arg = arg\<rparr>"
  let ?s2 = "s1\<lparr>clock_reads := clock_reads s1 + 1\<rparr>"
  have "lwip_cyclic_timer cb arg s = sys_timeout_abs tm (Some H_lwip_cyclic_timer) arg ?s2"
    using assms(1-3) by (simp add: lwip_cyclic_timer_def sys_now_def Let_def tm_def)
  also have "\<dots> = Some (?s2\<lparr>memp_calls := memp_calls ?s2 + 1,
      next_timeout := insert_before (\<lambda>y. TIME_LESS_THAN tm (tmo_time y)) ?x (next_timeout ?s2)\<rparr>)"
    using assms(4) by (intro sys_timeout_abs_queue) simp
  finally show ?thesis using late grid
    by (simp add: mset_insert_before)
qed

theorem lwip_cyclic_timer_no_drift_witness:
  "\<exists>s' t. lwip_cyclic_timer idle_callbacks 1 (started\<lparr>current_timeout_due_time := 600\<rparr>) = Some s' \<and>
    tmo_arg t = 1 \<and> mset (next_timeout s') = add_mset t (mset (next_timeout started)) \<and> tmo_time t = 1600"
  using lwip_cyclic_timer_no_drift [of 1 1000 Ip_reass_tmr idle_callbacks "started\<lparr>current_timeout_due_time := 600\<rparr>"
      "started\<lparr>current_timeout_due_time := 600, tm_world := 1\<rparr>"]
  by (auto simp: lwip_cyclic_timers_def IP_TMR_INTERVAL_def idle_callbacks_def started_def)

section \<open>Restart and sleep\<close>

text \<open>\<^verbatim>\<open>sys_restart_timeouts\<close> makes the first timeout due now and keeps all distances between
  the timeouts, so that the queue stays in order.\<close>

theorem sys_restart_timeouts_rebases:
  assumes "next_timeout s = t # ts" "queue_ok (tmo_time t) (next_timeout s)"
  shows "queue_ok (sys_clock s (clock_reads s)) (next_timeout (sys_restart_timeouts s)) \<and>
    map (\<lambda>x. dist (sys_clock s (clock_reads s)) (tmo_time x)) (next_timeout (sys_restart_timeouts s)) =
      map (\<lambda>x. dist (tmo_time t) (tmo_time x)) (next_timeout s) \<and>
    tmo_time (hd (next_timeout (sys_restart_timeouts s))) = sys_clock s (clock_reads s)"
proof -
  let ?now = "sys_clock s (clock_reads s)"
  have q: "next_timeout (sys_restart_timeouts s) = map (\<lambda>x. x\<lparr>tmo_time := (tmo_time x - tmo_time t) + ?now\<rparr>) (t # ts)"
    using assms(1) by (simp add: sys_restart_timeouts_def sys_now_def Let_def)
  have d: "dist ?now ((x - tmo_time t) + ?now) = dist (tmo_time t) x" for x
    by (simp add: dist_def)
  show ?thesis
    using assms unfolding q queue_ok_def clock.ordered_def
    by (simp add: d in_window_def list_all_iff comp_def)
qed

theorem sys_restart_timeouts_rebases_witness:
  "queue_ok 1500 (next_timeout (sys_restart_timeouts started))"
proof -
  have "next_timeout started = \<lparr>tmo_time = 500, tmo_h = Some H_lwip_cyclic_timer, tmo_arg = 1\<rparr> # tl (next_timeout started)"
    by (simp add: started_def)
  moreover have "queue_ok 500 (next_timeout started)"
    by (simp add: started_def queue_ok_def clock.ordered_def)
  ultimately show ?thesis
    using sys_restart_timeouts_rebases [of started "\<lparr>tmo_time = 500, tmo_h = Some H_lwip_cyclic_timer, tmo_arg = 1\<rparr>" "tl (next_timeout started)"]
    by (simp add: started_def)
qed

text \<open>C40: \<^verbatim>\<open>sys_timeouts_sleeptime\<close> never fails its assertion; on a queue in order, and with the
  clock in its window, no timeout is due before the time it returns has passed, and the first one
  is due then (or is overdue).\<close>

theorem sys_timeouts_sleeptime_safe:
  assumes "queue_ok b (next_timeout s)" "in_window b (sys_clock s (clock_reads s))"
  shows "\<exists>r s'. sys_timeouts_sleeptime s = Some (r, s') \<and>
    (if next_timeout s = [] then r = 0xFFFFFFFF
     else (\<forall>t \<in> set (next_timeout s). dist b (sys_clock s (clock_reads s)) + unat r \<le> dist b (tmo_time t) \<or> r = 0) \<and>
       (tmo_time (hd (next_timeout s)) = sys_clock s (clock_reads s) + r \<or>
        r = 0 \<and> dist b (tmo_time (hd (next_timeout s))) < dist b (sys_clock s (clock_reads s))))"
proof (cases "next_timeout s")
  case Nil
  then show ?thesis by (simp add: sys_timeouts_sleeptime_def)
next
  case (Cons t ts)
  let ?now = "sys_clock s (clock_reads s)"
  have ord: "clock.ordered b tmo_time (t # ts)" using assms(1) Cons by (simp add: queue_ok_def)
  then have win: "in_window b (tmo_time t)" by (simp add: clock.ordered_Cons)
  have lt: "TIME_LESS_THAN (tmo_time t) ?now \<longleftrightarrow> dist b (tmo_time t) < dist b ?now"
    by (rule TIME_LESS_THAN_window [OF win assms(2)])
  show ?thesis
  proof (cases "TIME_LESS_THAN (tmo_time t) ?now")
    case True
    then show ?thesis using Cons lt by (simp add: sys_timeouts_sleeptime_def sys_now_def)
  next
    case False
    let ?r = "tmo_time t - ?now"
    have r: "unat ?r = dist b (tmo_time t) - dist b ?now" "dist b ?now \<le> dist b (tmo_time t)"
      using False lt unat_diff [of "tmo_time t" ?now b] by simp_all
    then have "?r \<le> 0x7fffffff" using win by (simp add: word_le_nat_alt in_window_def)
    then have "sys_timeouts_sleeptime s = Some (?r, s\<lparr>clock_reads := clock_reads s + 1\<rparr>)"
      using Cons False by (simp add: sys_timeouts_sleeptime_def sys_now_def Let_def)
    moreover have "\<forall>y \<in> set (t # ts). dist b ?now + unat ?r \<le> dist b (tmo_time y)"
      using ord r by (auto simp: clock.ordered_Cons)
    ultimately show ?thesis using Cons by simp
  qed
qed

theorem sys_timeouts_sleeptime_safe_witness:
  "\<exists>r s'. sys_timeouts_sleeptime (started\<lparr>sys_clock := (\<lambda>k. 100)\<rparr>) = Some (r, s') \<and> 500 = 100 + r"
proof -
  have "queue_ok 0 (next_timeout (started\<lparr>sys_clock := (\<lambda>k. 100)\<rparr>))"
    by (simp add: started_def queue_ok_def clock.ordered_def in_window_def dist_def)
  moreover have "in_window 0 100" by (simp add: in_window_def dist_def)
  ultimately show ?thesis
    using sys_timeouts_sleeptime_safe [of 0 "started\<lparr>sys_clock := (\<lambda>k. 100)\<rparr>"]
    by (simp add: started_def dist_def)
qed

section \<open>The TCP timer\<close>

text \<open>
  What other modules may do to the timers: arm and cancel timeouts other than the TCP timer, ask
  for the TCP timer (\<^verbatim>\<open>TCP_REG\<close>), and change their own state.
\<close>

inductive client_step :: "'w callbacks \<Rightarrow> 'w timers \<Rightarrow> 'w timers \<Rightarrow> bool" for cb where
  arm: "sys_timeout ms h a s = Some s' \<Longrightarrow> h \<noteq> Some H_tcpip_tcp_timer \<Longrightarrow> client_step cb s s'"
| cancel: "h \<noteq> Some H_tcpip_tcp_timer \<Longrightarrow> client_step cb s (sys_untimeout h a s)"
| needed: "tcp_timer_needed cb s = Some s' \<Longrightarrow> client_step cb s s'"
| world: "client_step cb s (s\<lparr>tm_world := w\<rparr>)"

text \<open>Callbacks restrict themselves to such steps.\<close>

definition disciplined :: "'w callbacks \<Rightarrow> bool" where
  "disciplined cb = (\<forall>s s'.
     (\<forall>c. cb_cyclic cb c s = Some s' \<longrightarrow> (client_step cb)\<^sup>*\<^sup>* s s') \<and>
     (\<forall>n a. cb_client cb n a s = Some s' \<longrightarrow> (client_step cb)\<^sup>*\<^sup>* s s') \<and>
     (cb_check_free_ooseq cb s = Some s' \<longrightarrow> (client_step cb)\<^sup>*\<^sup>* s s'))"

inductive reachable :: "'w callbacks \<Rightarrow> 'w timers \<Rightarrow> bool" for cb where
  init: "next_timeout s = [] \<Longrightarrow> \<not> tcpip_tcp_timer_active s \<Longrightarrow> sys_timeouts_init s = Some s' \<Longrightarrow> reachable cb s'"
| client: "reachable cb s \<Longrightarrow> client_step cb s s' \<Longrightarrow> reachable cb s'"
| round: "reachable cb s \<Longrightarrow> check_round cb now s = Some (r, s') \<Longrightarrow> reachable cb s'"
| restart: "reachable cb s \<Longrightarrow> reachable cb (sys_restart_timeouts s)"

definition tcp_entries :: "sys_timeo list \<Rightarrow> nat" where
  "tcp_entries q = length (filter (\<lambda>t. tmo_h t = Some H_tcpip_tcp_timer) q)"

text \<open>
  The TCP timer is in the queue or, with \<^verbatim>\<open>d = 1\<close>, its handler is running, exactly if the flag is
  set.
\<close>

definition tcp_inv :: "nat \<Rightarrow> 'w timers \<Rightarrow> bool" where
  "tcp_inv d s = (tcp_entries (next_timeout s) + d = (if tcpip_tcp_timer_active s then 1 else 0))"

lemma tcp_entries_simps [simp]:
  "tcp_entries [] = 0"
  "tcp_entries (t # q) = (if tmo_h t = Some H_tcpip_tcp_timer then 1 else 0) + tcp_entries q"
  by (simp_all add: tcp_entries_def)

lemma tcp_entries_insert_before [simp]: "tcp_entries (insert_before P x q) = tcp_entries (x # q)"
proof -
  have "mset (filter (\<lambda>t. tmo_h t = Some H_tcpip_tcp_timer) (insert_before P x q)) =
    mset (filter (\<lambda>t. tmo_h t = Some H_tcpip_tcp_timer) (x # q))"
    by (simp add: mset_insert_before)
  then show ?thesis unfolding tcp_entries_def by (rule mset_eq_length)
qed

lemma tcp_entries_untimeout:
  "h \<noteq> Some H_tcpip_tcp_timer \<Longrightarrow> tcp_entries (untimeout_loop h a q) = tcp_entries q"
  by (induction q) auto

lemma sys_timeout_abs_tcp:
  assumes "sys_timeout_abs tm h a s = Some s'"
  shows "tcp_entries (next_timeout s') = (if h = Some H_tcpip_tcp_timer then 1 else 0) + tcp_entries (next_timeout s)"
    "tcpip_tcp_timer_active s' = tcpip_tcp_timer_active s"
proof -
  have "memp_ok s (memp_calls s)"
    using assms by (auto simp: sys_timeout_abs_def memp_malloc_timeout_def Let_def bind_eq_Some_conv)
  from sys_timeout_abs_queue [OF this, of tm h a] assms
  show "tcp_entries (next_timeout s') = (if h = Some H_tcpip_tcp_timer then 1 else 0) + tcp_entries (next_timeout s)"
    "tcpip_tcp_timer_active s' = tcpip_tcp_timer_active s" by auto
qed

lemma sys_timeout_tcp:
  assumes "sys_timeout ms h a s = Some s'"
  shows "tcp_entries (next_timeout s') = (if h = Some H_tcpip_tcp_timer then 1 else 0) + tcp_entries (next_timeout s)"
    "tcpip_tcp_timer_active s' = tcpip_tcp_timer_active s"
  using assms by (auto simp: sys_timeout_def sys_now_def Let_def bind_eq_Some_conv dest: sys_timeout_abs_tcp)

lemma client_step_tcp: "client_step cb s s' \<Longrightarrow> tcp_inv d s \<Longrightarrow> tcp_inv d s'"
proof (induction rule: client_step.induct)
  case (needed s s')
  then show ?case
    by (auto simp: tcp_timer_needed_def tcp_inv_def dest: sys_timeout_tcp split: if_splits)
next
  case (arm ms h a s s')
  then show ?case using sys_timeout_tcp [OF arm(1)] by (simp add: tcp_inv_def)
qed (auto simp: tcp_inv_def sys_untimeout_def tcp_entries_untimeout)

lemma client_steps_tcp: "(client_step cb)\<^sup>*\<^sup>* s s' \<Longrightarrow> tcp_inv d s \<Longrightarrow> tcp_inv d s'"
  by (induction rule: rtranclp_induct) (auto intro: client_step_tcp)

lemma callbacks_tcp:
  assumes "disciplined cb" "tcp_inv d s"
  shows "cb_cyclic cb c s = Some s' \<Longrightarrow> tcp_inv d s'" "cb_client cb n a s = Some s' \<Longrightarrow> tcp_inv d s'"
    "cb_check_free_ooseq cb s = Some s' \<Longrightarrow> tcp_inv d s'"
  using assms client_steps_tcp unfolding disciplined_def by blast+

lemma lwip_cyclic_timer_tcp:
  assumes "disciplined cb" "tcp_inv d s" "lwip_cyclic_timer cb arg s = Some s'"
  shows "tcp_inv d s'"
proof -
  obtain ms c where c: "lwip_cyclic_timers ! arg = (ms, c)" by fastforce
  then obtain s1 where s1: "cb_cyclic cb c s = Some s1"
    using assms(3) by (auto simp: lwip_cyclic_timer_def Let_def bind_eq_Some_conv split: if_splits)
  then have "tcp_inv d s1" using callbacks_tcp assms by blast
  then show ?thesis
    using assms(3) c s1
    by (auto simp: lwip_cyclic_timer_def sys_now_def Let_def tcp_inv_def dest: sys_timeout_abs_tcp split: if_splits)
qed

lemma tcpip_tcp_timer_tcp:
  assumes "disciplined cb" "tcp_inv 1 s" "tcpip_tcp_timer cb s = Some s'"
  shows "tcp_inv 0 s'"
proof -
  obtain s1 where s1: "cb_cyclic cb Tcp_tmr s = Some s1"
    using assms(3) by (auto simp: tcpip_tcp_timer_def bind_eq_Some_conv)
  then have "tcp_inv 1 s1" using callbacks_tcp assms by blast
  then show ?thesis
    using assms(3) s1
    by (auto simp: tcpip_tcp_timer_def tcp_inv_def dest: sys_timeout_tcp split: if_splits)
qed

lemma check_round_tcp:
  assumes "disciplined cb" "tcp_inv 0 s" "check_round cb now s = Some (r, s')"
  shows "tcp_inv 0 s'"
proof -
  obtain s1 where s1: "cb_check_free_ooseq cb s = Some s1"
    using assms(3) by (auto simp: check_round_def bind_eq_Some_conv)
  then have inv1: "tcp_inv 0 s1" using callbacks_tcp assms by blast
  show ?thesis
  proof (cases "next_timeout s1")
    case Nil
    then show ?thesis using assms(3) s1 inv1 by (simp add: check_round_def)
  next
    case (Cons t ts)
    let ?s2 = "s1\<lparr>next_timeout := ts, current_timeout_due_time := tmo_time t\<rparr>"
    show ?thesis
    proof (cases "TIME_LESS_THAN now (tmo_time t) \<or> tmo_h t = None")
      case True
      then show ?thesis using assms(3) s1 inv1 Cons
        by (auto simp: check_round_def tcp_inv_def Let_def split: if_splits)
    next
      case False
      then obtain h where h: "tmo_h t = Some h" by auto
      have call: "call_handler cb h (tmo_arg t) ?s2 = Some s'"
        using assms(3) s1 Cons False h by (auto simp: check_round_def Let_def bind_eq_Some_conv)
      show ?thesis
      proof (cases h)
        case H_tcpip_tcp_timer
        then have "tcp_inv 1 ?s2" using inv1 Cons h by (simp add: tcp_inv_def)
        then show ?thesis using tcpip_tcp_timer_tcp [OF assms(1)] call H_tcpip_tcp_timer
          by (simp add: call_handler_def)
      next
        case H_lwip_cyclic_timer
        then have "tcp_inv 0 ?s2" using inv1 Cons h by (simp add: tcp_inv_def)
        then show ?thesis using lwip_cyclic_timer_tcp [OF assms(1)] call H_lwip_cyclic_timer
          by (simp add: call_handler_def)
      next
        case (H_client n)
        then have "tcp_inv 0 ?s2" using inv1 Cons h by (simp add: tcp_inv_def)
        then show ?thesis using callbacks_tcp(2) [OF assms(1)] call H_client
          by (simp add: call_handler_def)
      qed
    qed
  qed
qed

lemma init_loop_tcp: "timeouts_init_loop is s = Some s' \<Longrightarrow> tcp_inv d s \<Longrightarrow> tcp_inv d s'"
proof (induction "is" arbitrary: s)
  case (Cons i "is")
  then obtain s1 where s1: "sys_timeout (fst (lwip_cyclic_timers ! i)) (Some H_lwip_cyclic_timer) i s = Some s1"
    "timeouts_init_loop is s1 = Some s'" by (auto simp: bind_eq_Some_conv)
  then show ?case using Cons sys_timeout_tcp [OF s1(1)] by (simp add: tcp_inv_def)
qed simp

text \<open>C38: as long as the functions the timers call only arm and cancel timeouts of their own and
  ask for the TCP timer through \<^verbatim>\<open>tcp_timer_needed\<close>, the TCP timer is in the queue once if the flag
  \<^verbatim>\<open>tcpip_tcp_timer_active\<close> is set, and not at all otherwise, in every reachable state.\<close>

theorem tcp_timer_queued_once:
  assumes "disciplined cb" "reachable cb s"
  shows "tcp_entries (next_timeout s) = (if tcpip_tcp_timer_active s then 1 else 0)"
proof -
  have "tcp_inv 0 s"
    using assms(2)
  proof (induction rule: reachable.induct)
    case (init s s')
    then have "tcp_inv 0 s" by (simp add: tcp_inv_def)
    then show ?case using init(3) unfolding sys_timeouts_init_def by (rule init_loop_tcp [rotated])
  next
    case (client s s')
    then show ?case by (blast intro: client_step_tcp)
  next
    case (round s now r s')
    then show ?case by (blast intro: check_round_tcp [OF assms(1)])
  next
    case (restart s)
    then show ?case
      by (cases "next_timeout s") (auto simp: sys_restart_timeouts_def sys_now_def Let_def tcp_inv_def tcp_entries_def filter_map comp_def split: if_splits)
  qed
  then show ?thesis by (simp add: tcp_inv_def)
qed

definition busy_callbacks :: "nat callbacks" where
  "busy_callbacks = idle_callbacks\<lparr>cb_tcp_pcbs := (\<lambda>w. True)\<rparr>"

definition empty_timers :: "nat timers" where
  "empty_timers = \<lparr>next_timeout = [], current_timeout_due_time = 0, tcpip_tcp_timer_active = False,
     sys_clock = (\<lambda>k. 0), clock_reads = 0, memp_ok = (\<lambda>k. True), memp_calls = 0, tm_world = 0\<rparr>"

theorem tcp_timer_queued_once_witness:
  "\<exists>s. reachable busy_callbacks s \<and> tcpip_tcp_timer_active s \<and> tcp_entries (next_timeout s) = 1"
proof -
  obtain s1 where s1: "sys_timeouts_init empty_timers = Some s1" "\<not> tcpip_tcp_timer_active s1" "memp_ok s1 = (\<lambda>k. True)"
    by (simp add: sys_timeouts_init_def lwip_cyclic_timers_def upt_rec sys_timeout_def sys_now_def Let_def
        sys_timeout_abs_queue empty_timers_def IP_TMR_INTERVAL_def ND6_TMR_INTERVAL_def IP6_REASS_TMR_INTERVAL_def)
  then have r1: "reachable busy_callbacks s1"
    by (intro reachable.init [of empty_timers]) (simp_all add: empty_timers_def)
  obtain s2 where s2: "tcp_timer_needed busy_callbacks s1 = Some s2" "tcpip_tcp_timer_active s2"
    using s1 by (simp add: tcp_timer_needed_def busy_callbacks_def sys_timeout_def sys_now_def Let_def
        sys_timeout_abs_queue TCP_TMR_INTERVAL_def)
  then have "reachable busy_callbacks s2"
    by (intro reachable.client [OF r1] client_step.needed)
  moreover have "disciplined busy_callbacks"
    by (auto simp: disciplined_def busy_callbacks_def idle_callbacks_def intro: client_step.world)
  ultimately show ?thesis using tcp_timer_queued_once s2(2) by fastforce
qed

end
