(* ===== verification/Lwip_Pbuf_Alloc.thy ===== *)
theory Lwip_Pbuf_Alloc
  imports Lwip_Pbuf_Chain Lwip_Pbuf_Data
begin

text \<open>
  \<^verbatim>\<open>pbuf_alloc\<close>: what a successful allocation yields and that a failed one leaks nothing.
\<close>

declare pbuf_alloc_pool.simps [simp del]

text \<open>The environment has not handed out the addresses from the counter on.\<close>

definition fresh :: "heap \<Rightarrow> bool" where
  "fresh h = (0 < nxt_addr h \<and> (\<forall>x \<ge> nxt_addr h. pbufs h x = None \<and> blocks h x = None))"

text \<open>A pbuf of the caller alone, with its data behind the struct, in its own allocation.\<close>

definition new_pbuf :: "heap \<Rightarrow> nat \<Rightarrow> bool" where
  "new_pbuf h a = (owned h a \<and> ref_is h a 1 \<and> readable h a \<and> pblock h a = a)"

text \<open>Everything outside a list of pbufs is as before.\<close>

definition unchanged :: "heap \<Rightarrow> heap \<Rightarrow> nat list \<Rightarrow> bool" where
  "unchanged h0 h as = (\<forall>x. x \<notin> set as \<longrightarrow> pbufs h x = pbufs h0 x \<and> blocks h x = blocks h0 x)"

text \<open>\<^verbatim>\<open>tot_len\<close> of an unfinished chain: \<^verbatim>\<open>r\<close> bytes are still to come.\<close>

fun totals_plus :: "heap \<Rightarrow> nat \<Rightarrow> nat list \<Rightarrow> bool" where
  "totals_plus h r [] = True"
| "totals_plus h r (a # as) = ((case pbufs h a of None \<Rightarrow> False
     | Some b \<Rightarrow> unat (pb_tot_len b) = length (content h (a # as)) + r) \<and> totals_plus h r as)"

lemma totals_plus_0: "totals_plus h 0 as = totals h as"
  by (induction as) (simp_all split: option.split)

lemma totals_plus_snoc:
  assumes "totals_plus h (length (content h [q]) + r) as" "totals_plus h r [q]"
  shows "totals_plus h r (as @ [q])"
  using assms by (induction as) (auto split: option.splits)

lemma totals_plus_cong:
  assumes "\<And>a. a \<in> set as \<Longrightarrow> same_data h h' a"
    and "\<And>a. a \<in> set as \<Longrightarrow> map_option pb_tot_len (pbufs h' a) = map_option pb_tot_len (pbufs h a)"
  shows "totals_plus h' r as = totals_plus h r as"
  using assms
proof (induction as)
  case (Cons a as)
  have "content h' (a # as) = content h (a # as)"
    by (rule same_data_content) (simp add: Cons.prems)
  moreover have "map_option pb_tot_len (pbufs h' a) = map_option pb_tot_len (pbufs h a)"
    by (simp add: Cons.prems)
  moreover have "totals_plus h' r as = totals_plus h r as" by (rule Cons.IH) (simp_all add: Cons.prems)
  ultimately show ?case by (cases "pbufs h a"; cases "pbufs h' a") simp_all
qed simp

text \<open>The state of the allocation loop.\<close>

definition built :: "heap \<Rightarrow> heap \<Rightarrow> nat list \<Rightarrow> nat \<Rightarrow> bool" where
  "built h0 h as r = (nxt_addr h0 \<le> nxt_addr h \<and> fresh h \<and> unchanged h0 h as \<and>
     (\<forall>a \<in> set as. nxt_addr h0 \<le> a \<and> a < nxt_addr h) \<and> list_all (new_pbuf h) as \<and> totals_plus h r as)"

text \<open>Freeing what has been built restores the heap.\<close>

lemma free_built:
  assumes "built h0 h as r" "chain h p as" "p \<noteq> 0" "fresh h0"
  obtains c h' where "pbuf_free h p = Some (c, h')" "pbufs h' = pbufs h0" "blocks h' = blocks h0"
    "ooseq_pending h' = ooseq_pending h"
proof -
  have "list_all (\<lambda>a. ref_is h a 1) as" "list_all (owned h) as"
    using assms(1) by (simp_all add: built_def new_pbuf_def list_all_iff)
  then have sole: "sole h as = as" by (simp add: sole_def list_all_iff takeWhile_eq_all_conv)
  have none: "pbufs h0 x = None \<and> blocks h0 x = None" if "x \<in> set as" for x
    using assms(1,4) that by (simp add: built_def fresh_def)
  have run: "pbuf_free h p = Some (of_nat (length (sole h as)), release h as)"
    using pbuf_free_release assms(2,3) \<open>list_all (owned h) as\<close> by blast
  have old: "pbufs (release h as) = pbufs h0" "blocks (release h as) = blocks h0"
    using assms(1) none by (auto simp: release_def sole built_def unchanged_def fun_eq_iff)
  have "ooseq_pending (release h as) = ooseq_pending h" by (simp add: release_def)
  with run old show thesis by (rule that)
qed

text \<open>Linking a new pbuf behind the last one.\<close>

lemma chain_link:
  assumes "chain h p as" "as \<noteq> []" "pbufs h (last as) = Some l" "q \<notin> set as" "q \<noteq> 0"
    and "pbufs h q = Some b" "pb_next b = 0"
  shows "chain (put_pbuf h (last as) (l\<lparr>pb_next := q\<rparr>)) p (as @ [q])"
proof -
  obtain xs z where as: "as = xs @ [z]" using assms(2) by (meson rev_exhaust)
  have "z \<notin> set xs" using chain_distinct [OF assms(1)] as by simp
  then show ?thesis
    using assms by (auto simp: as lseg_append lseg_put split: option.splits)
qed

text \<open>The allocation of one pool pbuf.\<close>

lemma new_pool_pbuf:
  assumes "built h0 h as (unat r)" "mem_malloc h (SIZEOF_STRUCT_PBUF + PBUF_POOL_BUFSIZE_ALIGNED) = (q, h1)" "q \<noteq> 0"
    and "unat off < 1514"
  defines "n \<equiv> min r (of_nat PBUF_POOL_BUFSIZE_ALIGNED - off)"
  defines "h2 \<equiv> pbuf_init_alloced_pbuf h1 q (VPtr q (SIZEOF_STRUCT_PBUF + unat off)) r n PBUF_POOL 0"
  shows "built h0 h2 (as @ [q]) (unat (r - n))" "q \<notin> set as" "\<exists>b. pbufs h2 q = Some b \<and> pb_next b = 0"
    "\<And>x. x \<in> set as \<Longrightarrow> pbufs h2 x = pbufs h x"
    "unat r = unat n + unat (r - n)" "content h2 as = content h as" "length (pdata h2 q) = unat n"
    "malloc_ok h2 = malloc_ok h"
proof -
  let ?sz = "SIZEOF_STRUCT_PBUF + PBUF_POOL_BUFSIZE_ALIGNED"
  have q: "q = nxt_addr h" and h1: "h1 = h\<lparr>nxt_addr := q + 1, blocks := (blocks h)(q := Some (map (junk h q) [0..<?sz]))\<rparr>"
    using assms(2,3) by (auto simp: mem_malloc_def Let_def split: if_splits)
  have n: "unat n = min (unat r) (1514 - unat off)" "n \<le> r"
    using pool_rest(3) [OF assms(4), of r] by (simp_all add: n_def PBUF_POOL_BUFSIZE_ALIGNED_def)
  then show split: "unat r = unat n + unat (r - n)" by (simp add: unat_sub_u16)
  show notin: "q \<notin> set as" using assms(1) q by (auto simp: built_def)
  let ?b = "\<lparr>pb_next = 0, pb_payload = VPtr q (SIZEOF_STRUCT_PBUF + unat off), pb_tot_len = r, pb_len = n,
      pb_type_internal = type_u8 PBUF_POOL, pb_flags = 0, pb_ref = 1, pb_if_idx = 0, pb_custom = None\<rparr>"
  have none: "pbufs h q = None" using assms(1) q by (simp add: built_def fresh_def)
  then have h2: "pbufs h2 = (pbufs h)(q := Some ?b)" "blocks h2 = (blocks h)(q := Some (map (junk h q) [0..<?sz]))"
    "nxt_addr h2 = q + 1"
    by (simp_all add: h2_def pbuf_init_alloced_pbuf_def h1)
  then show "\<exists>b. pbufs h2 q = Some b \<and> pb_next b = 0" by simp
  show same: "\<And>x. x \<in> set as \<Longrightarrow> pbufs h2 x = pbufs h x" using notin h2(1) by auto
  have room: "SIZEOF_STRUCT_PBUF + unat off + unat n \<le> ?sz"
    using n assms(4) by (simp add: PBUF_POOL_BUFSIZE_ALIGNED_def)
  have read_q: "readable h2 q" "length (pdata h2 q) = unat n"
    using room by (simp_all add: readable_def pdata_def mem_read_def buf_read_def h2)
  have "owned h2 q"
    by (simp add: owned_def h2 pbuf_get_allocsrc_def type_u8_def PBUF_TYPE_ALLOC_SRC_MASK_def)
  then have new_q: "new_pbuf h2 q"
    using read_q by (simp add: new_pbuf_def ref_is_def pblock_def h2)
  have sd: "same_data h h2 a" if "a \<in> set as" for a
  proof -
    have "pblock h a = a" using assms(1) that by (simp add: built_def new_pbuf_def list_all_iff)
    then show ?thesis using that notin h2 by (auto simp: same_data_def)
  qed
  show "content h2 as = content h as" by (rule same_data_content) (rule sd)
  show "length (pdata h2 q) = unat n" by (rule read_q(2))
  show "malloc_ok h2 = malloc_ok h" by (simp add: h2_def pbuf_init_alloced_pbuf_def h1)
  have old: "new_pbuf h2 a" if "a \<in> set as" for a
    using assms(1) that same [OF that] same_data_D [OF sd [OF that]]
    by (simp add: built_def new_pbuf_def list_all_iff owned_def ref_is_def)
  have "totals_plus h2 (unat r) as"
    using totals_plus_cong [of as h h2 "unat r", OF sd] same assms(1) by (simp add: built_def)
  then have tot: "totals_plus h2 (unat (r - n)) (as @ [q])"
    using read_q(2) split by (intro totals_plus_snoc) (simp_all add: h2)
  show "built h0 h2 (as @ [q]) (unat (r - n))"
    unfolding built_def using assms(1) q h2 new_q old tot
    by (auto simp: built_def fresh_def unchanged_def list_all_iff)
qed

text \<open>Changing only \<^verbatim>\<open>next\<close> pointers keeps what has been built.\<close>

lemma built_link:
  assumes "built h0 h as r" "a \<in> set as" "pbufs h a = Some l"
  shows "built h0 (put_pbuf h a (l\<lparr>pb_next := q\<rparr>)) as r"
proof -
  let ?h = "put_pbuf h a (l\<lparr>pb_next := q\<rparr>)"
  have sd: "same_data h ?h x" for x using assms(3) by (simp add: same_data_def)
  have "new_pbuf ?h x = new_pbuf h x" for x
    using assms(3) same_data_D [OF sd, of x] by (auto simp: new_pbuf_def owned_def ref_is_def pbuf_get_allocsrc_def)
  moreover have "totals_plus ?h r as = totals_plus h r as"
    by (rule totals_plus_cong) (use sd assms(3) in auto)
  moreover have "fresh ?h" using assms by (auto simp: built_def fresh_def)
  ultimately show ?thesis using assms(1,2) by (auto simp: built_def unchanged_def list_all_iff)
qed

lemma built_same:
  assumes "built h0 h as r" "pbufs h' = pbufs h" "blocks h' = blocks h" "nxt_addr h \<le> nxt_addr h'"
  shows "built h0 h' as r"
proof -
  have sd: "same_data h h' x" for x using assms(2,3) by (simp add: same_data_def)
  have "new_pbuf h' x = new_pbuf h x" for x
    using assms(2) same_data_D [OF sd, of x] by (simp add: new_pbuf_def owned_def ref_is_def)
  moreover have "totals_plus h' r as = totals_plus h r as"
    by (rule totals_plus_cong) (use sd assms(2) in auto)
  ultimately show ?thesis using assms by (auto simp: built_def fresh_def unchanged_def list_all_iff)
qed

text \<open>A successful allocation.\<close>

definition allocated :: "heap \<Rightarrow> heap \<Rightarrow> nat \<Rightarrow> nat list \<Rightarrow> nat \<Rightarrow> bool" where
  "allocated h0 h p as n = (packet h p as \<and> length (content h as) = n \<and> list_all (new_pbuf h) as \<and>
     unchanged h0 h as \<and> fresh h \<and> (\<forall>a \<in> set as. nxt_addr h0 \<le> a))"

lemma built_done:
  assumes "built h0 h as 0" "chain h p as" "as \<noteq> []"
  shows "allocated h0 h p as (length (content h as))"
  using assms by (auto simp: allocated_def built_def packet_def new_pbuf_def list_all_iff totals_plus_0)

lemma alloc_pool_loop:
  assumes "fresh h0" "built h0 h as (unat r)" "chain h p as" "p = 0 \<longleftrightarrow> as = []" "as \<noteq> [] \<Longrightarrow> lp = last as"
    and "unat off < 1514"
  shows "\<exists>p' h'. pbuf_alloc_pool h p lp r off = Some (p', h') \<and>
    (if p' = 0 then pbufs h' = pbufs h0 \<and> blocks h' = blocks h0 \<and> ooseq_pending h' \<and> \<not> (\<forall>a. malloc_ok h a)
     else \<exists>bs. allocated h0 h' p' bs (length (content h as) + unat r))"
  using assms
proof (induction "unat r" arbitrary: h p lp r off as rule: less_induct)
  case (less r h p lp off as)
  let ?sz = "SIZEOF_STRUCT_PBUF + PBUF_POOL_BUFSIZE_ALIGNED"
  obtain q h1 where m: "mem_malloc h ?sz = (q, h1)" by fastforce
  show ?case
  proof (cases "q = 0")
    case True
    let ?h2 = "h1\<lparr>ooseq_pending := True\<rparr>"
    have h1: "pbufs h1 = pbufs h" "blocks h1 = blocks h" "nxt_addr h1 = nxt_addr h + 1" "\<not> malloc_ok h (nxt_addr h)"
      using m True less.prems(2) by (auto simp: mem_malloc_def Let_def built_def fresh_def split: if_splits)
    show ?thesis
    proof (cases "p = 0")
      case p0: True
      then have "as = []" using less.prems(4) by simp
      then have "pbufs h = pbufs h0" "blocks h = blocks h0"
        using less.prems(2) by (auto simp: built_def unchanged_def)
      then show ?thesis using m True p0 h1
        by (subst pbuf_alloc_pool.simps) auto
    next
      case False
      have "built h0 ?h2 as (unat r)"
        by (rule built_same [OF less.prems(2)]) (simp_all add: h1)
      moreover have "chain ?h2 p as"
        using less.prems(3) lseg_cong [of as h ?h2] h1 by simp
      ultimately obtain c h' where f: "pbuf_free ?h2 p = Some (c, h')" "pbufs h' = pbufs h0" "blocks h' = blocks h0"
        "ooseq_pending h' = ooseq_pending ?h2"
        using free_built False less.prems(1) by blast
      then show ?thesis using m True False h1(4)
        by (subst pbuf_alloc_pool.simps) auto
    qed
  next
    case False
    let ?n = "min r (of_nat PBUF_POOL_BUFSIZE_ALIGNED - off)"
    let ?h2 = "pbuf_init_alloced_pbuf h1 q (VPtr q (SIZEOF_STRUCT_PBUF + unat off)) r ?n PBUF_POOL 0"
    note new = new_pool_pbuf [OF less.prems(2) m False less.prems(6)]
    obtain b where b: "pbufs ?h2 q = Some b" "pb_next b = 0" using new(3) by blast
    have ch2: "chain ?h2 p as"
      using less.prems(3) lseg_cong [of as h ?h2] new(4) by simp
    let ?p = "if p = 0 then q else p"
    have "\<exists>h3. (if p = 0 then Some ?h2 else do { l \<leftarrow> pbufs ?h2 lp; Some (put_pbuf ?h2 lp (l\<lparr>pb_next := q\<rparr>)) }) = Some h3 \<and>
      built h0 h3 (as @ [q]) (unat (r - ?n)) \<and> chain h3 ?p (as @ [q]) \<and> malloc_ok h3 = malloc_ok h \<and>
      length (content h3 (as @ [q])) = length (content h as) + unat ?n"
    proof (cases "p = 0")
      case True
      then have "as = []" using less.prems(4) by simp
      then show ?thesis using True new b \<open>q \<noteq> 0\<close> by simp
    next
      case False
      then have ne: "as \<noteq> []" using less.prems(4) by simp
      then have lp: "lp = last as" "lp \<in> set as" using less.prems(5) by simp_all
      then have "new_pbuf h lp" using less.prems(2) by (simp add: built_def list_all_iff)
      then obtain l where l: "pbufs ?h2 lp = Some l"
        using new(4) [OF lp(2)] by (auto simp: new_pbuf_def ref_is_def)
      let ?h3 = "put_pbuf ?h2 lp (l\<lparr>pb_next := q\<rparr>)"
      have sd: "same_data ?h2 ?h3 x" for x using l by (simp add: same_data_def)
      have "built h0 ?h3 (as @ [q]) (unat (r - ?n))"
        by (rule built_link [OF new(1) _ l]) (use lp in simp)
      moreover have "chain ?h3 p (as @ [q])"
        using chain_link [OF ch2 ne, of l q b] l lp new(2) b \<open>q \<noteq> 0\<close> by simp
      moreover have c: "content ?h3 (as @ [q]) = content ?h2 (as @ [q])"
        by (rule same_data_content) (rule sd)
      have "length (content ?h3 (as @ [q])) = length (content h as) + unat ?n"
        unfolding c using new(6,7) by simp
      ultimately show ?thesis using False l new(8) by (simp del: content_append)
    qed
    then obtain h3 where link: "(if p = 0 then Some ?h2 else do { l \<leftarrow> pbufs ?h2 lp; Some (put_pbuf ?h2 lp (l\<lparr>pb_next := q\<rparr>)) }) = Some h3"
      and h3: "built h0 h3 (as @ [q]) (unat (r - ?n))" "chain h3 ?p (as @ [q])" "malloc_ok h3 = malloc_ok h"
      "length (content h3 (as @ [q])) = length (content h as) + unat ?n" by blast
    have room: "unat off < PBUF_POOL_BUFSIZE_ALIGNED" using less.prems(6) by (simp add: PBUF_POOL_BUFSIZE_ALIGNED_def)
    have step: "pbuf_alloc_pool h p lp r off =
      (if r - ?n > 0 then pbuf_alloc_pool h3 ?p q (r - ?n) 0 else Some (?p, h3))"
      using m \<open>q \<noteq> 0\<close> link room
      by (subst pbuf_alloc_pool.simps) (simp add: Let_def split del: if_split)
    show ?thesis
    proof (cases "r - ?n > 0")
      case True
      have tot: "length (content h3 (as @ [q])) + unat (r - ?n) = length (content h as) + unat r"
        using h3(4) new(5) by linarith
      have "\<exists>p' h'. pbuf_alloc_pool h3 ?p q (r - ?n) 0 = Some (p', h') \<and>
        (if p' = 0 then pbufs h' = pbufs h0 \<and> blocks h' = blocks h0 \<and> ooseq_pending h' \<and> \<not> (\<forall>a. malloc_ok h3 a)
         else \<exists>bs. allocated h0 h' p' bs (length (content h3 (as @ [q])) + unat (r - ?n)))"
      proof (rule less.hyps)
        show "unat (r - ?n) < unat r"
          using True pool_rest_less [OF less.prems(6), of r] by (simp add: PBUF_POOL_BUFSIZE_ALIGNED_def)
      qed (use h3 \<open>q \<noteq> 0\<close> less.prems(1,4) in auto)
      then show ?thesis unfolding tot h3(3) by (simp only: step True if_True)
    next
      case False
      then have "unat (r - ?n) = 0" by (simp add: word_less_nat_alt)
      then have fin: "built h0 h3 (as @ [q]) 0" using h3(1) by simp
      have tot: "length (content h3 (as @ [q])) = length (content h as) + unat r"
        using h3(4) new(5) \<open>unat (r - ?n) = 0\<close> by linarith
      have "allocated h0 h3 ?p (as @ [q]) (length (content h as) + unat r)"
        using built_done [OF fin h3(2)] unfolding tot by blast
      moreover have "?p \<noteq> 0" using \<open>q \<noteq> 0\<close> by simp
      moreover have "pbuf_alloc_pool h p lp r off = Some (?p, h3)" using step False by simp
      moreover define pp where "pp = ?p"
      ultimately have "pp \<noteq> 0" "pbuf_alloc_pool h p lp r off = Some (pp, h3)"
        "allocated h0 h3 pp (as @ [q]) (length (content h as) + unat r)" by blast+
      then show ?thesis by auto
    qed
  qed
qed

text \<open>The allocation of a pbuf whose data follow its struct.\<close>

lemma alloc_ram:
  assumes "fresh h" "pbuf_alloc h layer len PBUF_RAM = Some (p, h')" "p \<noteq> 0"
  shows "allocated h h' p [p] (unat len)"
proof -
  let ?off = "layer_offset layer"
  let ?pl = "?off + len"
  let ?n = "SIZEOF_STRUCT_PBUF + unat ?pl"
  have pl: "\<not> ?pl < len" using assms(2,3) by (auto simp: pbuf_alloc_def Let_def split: if_splits)
  have "len \<le> len + ?off" using pl by (simp add: not_less add.commute)
  then have "unat (len + ?off) = unat len + unat ?off" by (simp only: unat_plus_simple)
  then have split: "unat ?pl = unat ?off + unat len" by (simp only: add.commute)
  have p: "p = nxt_addr h" and h': "h' = pbuf_init_alloced_pbuf (h\<lparr>nxt_addr := p + 1,
      blocks := (blocks h)(p := Some (map (junk h p) [0..<?n]))\<rparr>) p (VPtr p (SIZEOF_STRUCT_PBUF + unat ?off)) len len PBUF_RAM 0"
    using assms(2,3) pl by (auto simp: pbuf_alloc_def mem_malloc_def Let_def split: if_splits)
  have none: "pbufs h p = None" using assms(1) p by (simp add: fresh_def)
  have nz: "p \<noteq> 0" by (rule assms(3))
  have rd: "readable h' p" "length (pdata h' p) = unat len"
    using none split by (simp_all add: readable_def pdata_def mem_read_def buf_read_def h' pbuf_init_alloced_pbuf_def)
  have "owned h' p" by (simp add: owned_def h' pbuf_init_alloced_pbuf_def pbuf_get_allocsrc_def type_u8_def PBUF_TYPE_ALLOC_SRC_MASK_def)
  then have "new_pbuf h' p" using rd by (simp add: new_pbuf_def ref_is_def pblock_def h' pbuf_init_alloced_pbuf_def)
  moreover have "packet h' p [p]" using rd nz by (simp add: packet_def) (simp add: h' pbuf_init_alloced_pbuf_def)
  ultimately show ?thesis
    using rd assms(1) p by (auto simp: allocated_def fresh_def unchanged_def h' pbuf_init_alloced_pbuf_def)
qed

lemma layer_offset_small: "unat (layer_offset l) < 1514"
  by (cases l) (simp_all add: layer_offset_def)

text \<open>C29: \<^verbatim>\<open>pbuf_alloc\<close> for a RAM or pool pbuf always returns. If it returns a chain, this is a
  packet of exactly the requested length made of new pbufs with one reference each, and
  nothing else has changed; if it returns NULL, every pbuf allocated on the way has been freed
  again. With enough memory a pool allocation succeeds.\<close>

theorem pbuf_alloc_correct:
  assumes "fresh h" "t = PBUF_RAM \<or> t = PBUF_POOL"
  shows "\<exists>p h'. pbuf_alloc h layer len t = Some (p, h') \<and>
    (if p = 0 then pbufs h' = pbufs h \<and> blocks h' = blocks h \<and> (t = PBUF_POOL \<longrightarrow> \<not> (\<forall>a. malloc_ok h a))
     else \<exists>as. allocated h h' p as (unat len))"
proof (cases t)
  case PBUF_RAM
  obtain p h' where r: "pbuf_alloc h layer len PBUF_RAM = Some (p, h')"
    by (cases "pbuf_alloc h layer len PBUF_RAM") (auto simp: pbuf_alloc_def Let_def split: prod.splits if_splits)
  show ?thesis
  proof (cases "p = 0")
    case True
    then have "pbufs h' = pbufs h \<and> blocks h' = blocks h"
      using r assms(1) by (auto simp: pbuf_alloc_def mem_malloc_def Let_def fresh_def split: if_splits)
    then show ?thesis using r True PBUF_RAM by simp
  qed (use alloc_ram [OF assms(1) r] r PBUF_RAM in auto)
next
  case PBUF_POOL
  have "built h h [] (unat len)" using assms(1) by (simp add: built_def unchanged_def)
  then obtain p h' where r: "pbuf_alloc_pool h 0 0 len (layer_offset layer) = Some (p, h')"
    "if p = 0 then pbufs h' = pbufs h \<and> blocks h' = blocks h \<and> ooseq_pending h' \<and> \<not> (\<forall>a. malloc_ok h a)
     else \<exists>bs. allocated h h' p bs (length (content h []) + unat len)"
    using alloc_pool_loop [of h h "[]" len 0 0 "layer_offset layer"] assms(1) layer_offset_small [of layer] by auto
  moreover have "pbuf_alloc h layer len t = pbuf_alloc_pool h 0 0 len (layer_offset layer)"
    using PBUF_POOL by (simp add: pbuf_alloc_def)
  ultimately show ?thesis using PBUF_POOL by (intro exI [of _ p] exI [of _ h']) (cases "p = 0"; simp)
qed (use assms(2) in simp_all)

definition new_heap :: "(nat \<Rightarrow> bool) \<Rightarrow> heap" where
  "new_heap ok = \<lparr>pbufs = (\<lambda>a. None), blocks = (\<lambda>a. None), nxt_addr = 1, malloc_ok = ok, junk = (\<lambda>a i. 0),
     base_addr = (\<lambda>a. 0), ooseq_pending = False\<rparr>"

lemma fresh_new_heap: "fresh (new_heap ok)"
  by (simp add: fresh_def new_heap_def)

theorem pbuf_alloc_correct_witness:
  "\<exists>p h' as. pbuf_alloc (new_heap (\<lambda>a. True)) PBUF_RAW 2000 PBUF_POOL = Some (p, h') \<and> p \<noteq> 0 \<and>
    packet h' p as \<and> length (content h' as) = 2000"
proof -
  have "\<forall>a. malloc_ok (new_heap (\<lambda>a. True)) a" by (simp add: new_heap_def)
  then show ?thesis
    using pbuf_alloc_correct [OF fresh_new_heap, of PBUF_POOL "\<lambda>a. True" PBUF_RAW 2000]
    by (auto simp: allocated_def split: if_splits)
qed

end
