(* ===== verification/Lwip_Pbuf_Props.thy ===== *)
theory Lwip_Pbuf_Props
  imports Lwip_Pbuf_Alloc
begin

text \<open>
  What the packet buffers promise to their clients, stated over the content of a packet: the
  bytes its chain of pbufs carries. A heap with a packet of five bytes in two pbufs serves the
  witnesses.
\<close>

section \<open>A packet of two pbufs\<close>

definition demo :: heap where
  "demo = \<lparr>pbufs = [1 \<mapsto> \<lparr>pb_next = 2, pb_payload = VPtr 1 24, pb_tot_len = 5, pb_len = 3,
        pb_type_internal = 0x80, pb_flags = 0, pb_ref = 1, pb_if_idx = 0, pb_custom = None\<rparr>,
      2 \<mapsto> \<lparr>pb_next = 0, pb_payload = VPtr 2 24, pb_tot_len = 2, pb_len = 2,
        pb_type_internal = 0x80, pb_flags = 0, pb_ref = 1, pb_if_idx = 0, pb_custom = None\<rparr>,
      3 \<mapsto> \<lparr>pb_next = 0, pb_payload = VPtr 3 24, pb_tot_len = 1, pb_len = 1,
        pb_type_internal = 0x80, pb_flags = 0, pb_ref = 1, pb_if_idx = 0, pb_custom = None\<rparr>],
     blocks = [1 \<mapsto> replicate 24 0 @ [10, 20, 30], 2 \<mapsto> replicate 24 0 @ [40, 50], 3 \<mapsto> replicate 24 0 @ [60]],
     nxt_addr = 4, malloc_ok = (\<lambda>a. True), junk = (\<lambda>a i. 0), base_addr = (\<lambda>a. 0), ooseq_pending = False\<rparr>"

lemma demo_pdata: "pdata demo 1 = [10, 20, 30]" "pdata demo 2 = [40, 50]" "pdata demo 3 = [60]"
  by (simp_all add: demo_def pdata_def mem_read_def buf_read_def)

lemma demo_content: "content demo [1, 2] = [10, 20, 30, 40, 50]" "content demo [3] = [60]"
  by (simp_all add: demo_pdata [simplified])

lemma demo_readable: "readable demo 1" "readable demo 2" "readable demo 3"
  by (simp_all add: demo_def readable_def mem_read_def buf_read_def)

lemma demo_pbufs: "\<exists>b. pbufs demo 1 = Some b \<and> pb_next b = 2 \<and> pb_tot_len b = 5"
    "\<exists>b. pbufs demo 2 = Some b \<and> pb_next b = 0 \<and> pb_tot_len b = 2"
    "\<exists>b. pbufs demo 3 = Some b \<and> pb_next b = 0 \<and> pb_tot_len b = 1"
  by (simp_all add: demo_def)

lemma demo_packet: "packet demo 1 [1, 2]" "packet demo 3 [3]"
  using demo_pbufs demo_readable demo_pdata
  by (auto simp: packet_def)

lemma demo_separate: "separate demo [1, 2]"
  by (simp add: separate_def pblock_def demo_def)

lemma demo_owned: "list_all (owned demo) [1, 2]"
  by (simp add: owned_def demo_def pbuf_get_allocsrc_def PBUF_TYPE_ALLOC_SRC_MASK_def)

lemma demo_own_data: "own_data demo [1, 2]"
  by (simp add: own_data_def pblock_def demo_def)

section \<open>Reading and writing\<close>

lemma copy_partial_packet:
  assumes "packet h p as" "p \<noteq> 0" "unat len \<le> length buf"
  shows "pbuf_copy_partial h p buf len off =
    Some (of_nat (length (take (unat len) (drop (unat off) (content h as)))),
      take (unat len) (drop (unat off) (content h as)) @ drop (length (take (unat len) (drop (unat off) (content h as)))) buf)"
proof -
  let ?s = "take (unat len) (drop (unat off) (content h as))"
  have len: "length ?s \<le> unat len" by simp
  then have "length ?s < 65536" using unat_u16_less by (rule le_less_trans)
  moreover have "length ?s \<le> length buf" using len assms(3) by (rule le_trans)
  ultimately have "unat (0 :: u16) + length ?s < 65536" "unat (0 :: u16) + length ?s \<le> length buf"
    by (simp_all only: unat_0 add_0)
  from copy_partial_loop [OF assms(1) this(1) refl this(2)]
  have "copy_partial_loop h p buf 0 len off 0 = Some (0 + of_nat (length ?s), patch (unat (0 :: u16)) ?s buf)" .
  then show ?thesis
    using assms(2) by (simp add: pbuf_copy_partial_def Let_def patch_def)
qed

text \<open>\<^verbatim>\<open>pbuf_copy_partial\<close> copies the requested slice of the packet, cut at its end, to the
  start of the buffer, leaves the rest of the buffer alone and returns the number of bytes.\<close>

theorem pbuf_copy_partial_slice:
  assumes "packet h p as" "p \<noteq> 0" "unat len \<le> length buf"
  shows "pbuf_copy_partial h p buf len off =
    (let slice = take (unat len) (drop (unat off) (content h as))
     in Some (of_nat (length slice), slice @ drop (length slice) buf))"
  unfolding Let_def by (rule copy_partial_packet [OF assms])

theorem pbuf_copy_partial_slice_witness:
  "pbuf_copy_partial demo 1 [0, 0, 0, 9] 3 2 = Some (3, [30, 40, 50, 9])"
  using pbuf_copy_partial_slice [OF demo_packet(1), of 3 "[0, 0, 0, 9]" 2]
  unfolding demo_content by (simp add: Let_def)

text \<open>C32: bytes written into a packet with \<^verbatim>\<open>pbuf_take_at\<close> are the bytes \<^verbatim>\<open>pbuf_copy_partial\<close> reads
  back from the same place, and the other bytes of the packet are unchanged.\<close>

theorem pbuf_take_at_copy_partial:
  assumes "packet h p as" "separate h as" "unat off < length (content h as)"
    and "unat off + length src \<le> length (content h as)" "length src \<le> length buf" "unat len = length src"
  shows "\<exists>h'. pbuf_take_at h p src len off = Some (ERR_OK, h') \<and>
    pbuf_copy_partial h' p buf len off = Some (len, src @ drop (length src) buf) \<and>
    take (unat off) (content h' as) = take (unat off) (content h as) \<and>
    drop (unat off + length src) (content h' as) = drop (unat off + length src) (content h as)"
proof -
  obtain h' where h': "pbuf_take_at h p src len off = Some (ERR_OK, h')" "same_shape h h'"
    "content h' as = patch (unat off) src (content h as)"
    using pbuf_take_at_packet [OF assms(1-3), of len src] assms(4,6) by auto
  have "packet h' p as" by (rule same_shape_packet [OF h'(2) assms(1)])
  moreover have "p \<noteq> 0"
  proof
    assume "p = 0"
    then show False using assms(1,3) by simp
  qed
  moreover have "take (length src) (drop (unat off) (content h' as)) = src"
    unfolding h'(3) using assms(4) by (intro take_patch) simp_all
  moreover have "of_nat (length src) = len" using assms(6) by (metis of_nat_unat ucast_id)
  ultimately have "pbuf_copy_partial h' p buf len off = Some (len, src @ drop (length src) buf)"
    using copy_partial_packet [of h' p as len buf off] assms(5,6) by simp
  then show ?thesis using h' assms(4) by (auto simp: patch_def)
qed

theorem pbuf_take_at_copy_partial_witness:
  "\<exists>h'. pbuf_take_at demo 1 [7, 8] 2 2 = Some (ERR_OK, h') \<and>
    pbuf_copy_partial h' 1 [0, 0] 2 2 = Some (2, [7, 8])"
  using pbuf_take_at_copy_partial [OF demo_packet(1) demo_separate, of 2 "[7, 8]" "[0, 0]" 2]
  unfolding demo_content by auto

text \<open>\<^verbatim>\<open>pbuf_put_at\<close> replaces one byte of the packet (none behind its end), and
  \<^verbatim>\<open>pbuf_get_at\<close> reads any byte of the result, 0 behind the end.\<close>

theorem pbuf_get_put_at:
  assumes "packet h p as" "separate h as"
  shows "\<exists>h'. pbuf_put_at h p off x = Some h' \<and>
    (\<forall>i. pbuf_get_at h' p i = Some (if unat i < length (content h as)
       then (content h as)[unat off := x] ! unat i else 0))"
proof -
  obtain h' where h': "pbuf_put_at h p off x = Some h'" "same_shape h h'"
    "content h' as = (content h as)[unat off := x]"
    using pbuf_put_at_packet [OF assms] by blast
  have "pbuf_get_at h' p i = Some (if unat i < length (content h as)
       then (content h as)[unat off := x] ! unat i else 0)" for i
    using pbuf_get_at_packet [OF same_shape_packet [OF h'(2) assms(1)], of i] h'(3) by simp
  then show ?thesis using h'(1) by blast
qed

theorem pbuf_get_put_at_witness:
  "\<exists>h'. pbuf_put_at demo 1 3 9 = Some h' \<and> pbuf_get_at h' 1 3 = Some 9 \<and> pbuf_get_at h' 1 4 = Some 50"
proof -
  obtain h' where h': "pbuf_put_at demo 1 3 9 = Some h'"
    "\<forall>i. pbuf_get_at h' 1 i = Some (if unat i < length (content demo [1, 2])
       then (content demo [1, 2])[unat (3 :: u16) := 9] ! unat i else 0)"
    using pbuf_get_put_at [OF demo_packet(1) demo_separate] by blast
  show ?thesis using h'(1) spec [OF h'(2), of 3] spec [OF h'(2), of 4] unfolding demo_content by simp
qed

text \<open>\<^verbatim>\<open>pbuf_memfind\<close> returns the first position, from the start offset on, at which the
  memory block occurs in the packet, even across pbufs, and 0xFFFF if there is none.\<close>

theorem pbuf_memfind_first:
  assumes "packet h p as" "p \<noteq> 0" "unat mem_len = length mem"
  shows "pbuf_memfind h p mem mem_len start =
    Some (case List.find (\<lambda>j. take (length mem) (drop j (content h as)) = mem)
        [unat start..<Suc (length (content h as))] of
      None \<Rightarrow> 0xFFFF | Some j \<Rightarrow> of_nat j)"
  by (rule pbuf_memfind_packet [OF assms])

theorem pbuf_memfind_first_witness: "pbuf_memfind demo 1 [30, 40] 2 1 = Some 2"
  using pbuf_memfind_first [OF demo_packet(1), of 2 "[30, 40]" 1]
  unfolding demo_content by (simp add: upt_rec)

text \<open>C33: \<^verbatim>\<open>pbuf_copy\<close> of a packet into one that is at least as long, with other memory, puts the
  source's bytes at the start of the target, however the two are split into pbufs, and changes
  no other data.\<close>

theorem pbuf_copy_content:
  assumes "packet h p_to ts" "packet h p_from fs" "p_to \<noteq> 0" "p_from \<noteq> 0"
    and "nonempty h ts" "nonempty h fs" "separate h ts"
    and "\<forall>t \<in> set ts. \<forall>f \<in> set fs. pblock h t \<noteq> pblock h f"
    and "length (content h fs) \<le> length (content h ts)"
  shows "\<exists>h'. pbuf_copy h p_to p_from = Some (ERR_OK, h') \<and>
    content h' ts = content h fs @ drop (length (content h fs)) (content h ts) \<and>
    content h' fs = content h fs \<and>
    (\<forall>x. pblock h x \<notin> pblock h ` set ts \<longrightarrow> pdata h' x = pdata h x)"
proof -
  obtain h' where h': "pbuf_copy h p_to p_from = Some (ERR_OK, h')"
    "content h' ts = patch 0 (content h fs) (content h ts)"
    "\<forall>x. pblock h x \<notin> pblock h ` set ts \<longrightarrow> pdata h' x = pdata h x"
    using pbuf_copy_packet [OF assms] by blast
  have "content h' fs = content h fs"
  proof (rule content_other)
    fix c assume "c \<in> set fs"
    then have "pblock h c \<notin> pblock h ` set ts" using assms(8) by fastforce
    then show "pdata h' c = pdata h c" using h'(3) by blast
  qed
  then show ?thesis using h' by (simp add: patch_def)
qed

theorem pbuf_copy_content_witness:
  "\<exists>h'. pbuf_copy demo 1 3 = Some (ERR_OK, h') \<and> content h' [1, 2] = [60, 20, 30, 40, 50]"
proof -
  have "nonempty demo [1, 2]" "nonempty demo [3]" using demo_pdata by simp_all
  moreover have "\<forall>t \<in> set [1, 2]. \<forall>f \<in> set [3]. pblock demo t \<noteq> pblock demo f"
    by (simp add: pblock_def demo_def)
  ultimately show ?thesis
    using pbuf_copy_content [OF demo_packet] demo_separate
    unfolding demo_content by auto
qed

section \<open>Structure\<close>

text \<open>C30: \<^verbatim>\<open>pbuf_free\<close> frees the pbufs at the head of the chain that nobody else refers to, takes one
  reference from the first pbuf that is shared, returns the number of freed pbufs (modulo 256)
  and touches nothing else.\<close>

theorem pbuf_free_counts:
  assumes "chain h p (xs @ ys)" "list_all (owned h) (xs @ ys)" "p \<noteq> 0"
    and "list_all (\<lambda>a. ref_is h a 1) xs" "ys = [] \<or> \<not> ref_is h (hd ys) 1"
  shows "\<exists>h'. pbuf_free h p = Some (of_nat (length xs), h') \<and>
    (\<forall>a \<in> set xs. pbufs h' a = None \<and> blocks h' a = None) \<and>
    (\<forall>a. a \<notin> set xs \<longrightarrow> blocks h' a = blocks h a \<and>
       pbufs h' a = (if ys \<noteq> [] \<and> a = hd ys then map_option (\<lambda>b. b\<lparr>pb_ref := pb_ref b - 1\<rparr>) (pbufs h a) else pbufs h a))"
proof -
  have sole: "sole h (xs @ ys) = xs"
    using assms(4,5) unfolding sole_def by (cases ys) (simp_all add: list_all_iff takeWhile_append)
  have "pbuf_free h p = Some (of_nat (length (sole h (xs @ ys))), release h (xs @ ys))"
    using pbuf_free_release assms(1-3) by blast
  moreover have "ys \<noteq> [] \<Longrightarrow> (xs @ ys) ! length xs = hd ys" by (simp add: hd_conv_nth nth_append)
  ultimately show ?thesis by (auto simp: sole release_def)
qed

theorem pbuf_free_counts_witness:
  "\<exists>h'. pbuf_free demo 1 = Some (2, h') \<and> pbufs h' 1 = None \<and> pbufs h' 2 = None"
proof -
  have "chain demo 1 ([1, 2] @ [])" using demo_packet(1) by (simp add: packet_def)
  moreover have "list_all (\<lambda>a. ref_is demo a 1) [1, 2]" by (simp add: ref_is_def demo_def)
  ultimately show ?thesis
    using pbuf_free_counts [of demo 1 "[1, 2]" "[]"] demo_owned by auto
qed

text \<open>\<^verbatim>\<open>pbuf_cat\<close> of two packets is one packet with the bytes of the first followed by those of
  the second; its chain is the concatenation of the two chains.\<close>

theorem pbuf_cat_content:
  assumes "packet h p as" "packet h t bs" "p \<noteq> 0" "t \<noteq> 0" "set as \<inter> set bs = {}"
    and "length (content h as) + length (content h bs) < 65536"
  shows "\<exists>h'. pbuf_cat h p t = Some h' \<and> packet h' p (as @ bs) \<and>
    content h' (as @ bs) = content h as @ content h bs"
  using pbuf_cat_packet [OF assms] by metis

theorem pbuf_cat_content_witness:
  "\<exists>h'. pbuf_cat demo 1 3 = Some h' \<and> content h' [1, 2, 3] = [10, 20, 30, 40, 50, 60]"
  using pbuf_cat_content [OF demo_packet] unfolding demo_content by auto

text \<open>Chaining a packet behind a pbuf and dechaining it again gives back the second packet and
  the heap as it was.\<close>

theorem pbuf_dechain_undoes_chain:
  assumes "packet h p [p]" "packet h t bs" "t \<noteq> 0" "p \<notin> set bs"
    and "pbufs h t = Some tb" "pb_ref tb > 0" "pb_ref tb < 255"
    and "length (content h [p]) + length (content h bs) < 65536"
  shows "\<exists>h'. pbuf_chain h p t = Some h' \<and> packet h' p (p # bs) \<and>
    content h' (p # bs) = content h [p] @ content h bs \<and> pbuf_dechain h' p = Some (t, h)"
  by (rule pbuf_dechain_chain [OF assms])

theorem pbuf_dechain_undoes_chain_witness:
  "\<exists>h'. pbuf_chain demo 3 1 = Some h' \<and> pbuf_dechain h' 3 = Some (1, demo)"
proof -
  obtain b where b: "pbufs demo 1 = Some b" "pb_ref b = 1" by (simp add: demo_def)
  then show ?thesis
    using pbuf_dechain_undoes_chain [OF demo_packet(2,1), of b] unfolding demo_content by auto
qed

text \<open>C31: \<^verbatim>\<open>pbuf_realloc\<close> to a shorter length leaves a packet with exactly the first bytes of the
  old one, on a prefix of its chain, and changes no pbuf outside the chain.\<close>

theorem pbuf_realloc_prefix:
  assumes "packet h p as" "p \<noteq> 0" "list_all (owned h) as" "own_data h as"
    and "unat new_len \<le> length (content h as)"
  shows "\<exists>h' bs cs. pbuf_realloc h p new_len = Some h' \<and> as = bs @ cs \<and> packet h' p bs \<and>
    content h' bs = take (unat new_len) (content h as) \<and>
    (\<forall>x. x \<notin> set as \<longrightarrow> pbufs h' x = pbufs h x \<and> blocks h' x = blocks h x)"
  by (rule pbuf_realloc_packet [OF assms])

theorem pbuf_realloc_prefix_witness:
  "\<exists>h' bs. pbuf_realloc demo 1 2 = Some h' \<and> packet h' 1 bs \<and> content h' bs = [10, 20]"
  using pbuf_realloc_prefix [OF demo_packet(1) _ demo_owned demo_own_data, of 2] unfolding demo_content by auto

text \<open>Removing a header hides the first bytes of the packet; adding one of the same size to a
  pbuf whose data follow its struct reveals them again and restores the heap.\<close>

theorem pbuf_header_roundtrip:
  assumes "packet h p as" "p \<noteq> 0" "pbufs h p = Some b" "n \<le> unat (pb_len b)"
    and "pb_payload b = VPtr p d" "SIZEOF_STRUCT_PBUF \<le> d"
    and "pb_type_internal b AND PBUF_TYPE_FLAG_STRUCT_DATA_CONTIGUOUS \<noteq> 0"
  shows "\<exists>h'. pbuf_remove_header h p n = Some (0, h') \<and> packet h' p as \<and> content h' as = drop n (content h as) \<and>
    pbuf_add_header h' p n = Some (0, h)"
proof -
  obtain b0 bs where b0: "as = p # bs" "pbufs h p = Some b0" "packet h (pb_next b0) bs" "readable h p"
    "length (pdata h p) = unat (pb_len b0)" "unat (pb_tot_len b0) = unat (pb_len b0) + length (content h bs)"
    by (rule packet_nonzero [OF assms(1,2)])
  then have "pb_len b \<le> pb_tot_len b" using assms(3) by (simp add: word_le_nat_alt)
  then obtain h1 where "pbuf_remove_header h p n = Some (0, h1)" "pbuf_add_header h1 p n = Some (0, h)"
    using pbuf_add_header_remove [OF assms(3,2,5,6,7,4)] by blast
  then show ?thesis using pbuf_remove_header_packet [OF assms(1-4)] by auto
qed

theorem pbuf_header_roundtrip_witness:
  "\<exists>h'. pbuf_remove_header demo 1 2 = Some (0, h') \<and> content h' [1, 2] = [30, 40, 50] \<and>
    pbuf_add_header h' 1 2 = Some (0, demo)"
proof -
  obtain b where b: "pbufs demo 1 = Some b" "pb_len b = 3" "pb_payload b = VPtr 1 24" "pb_type_internal b = 0x80"
    by (simp add: demo_def)
  then show ?thesis
    using pbuf_header_roundtrip [OF demo_packet(1) _ b(1), of 2 24] unfolding demo_content
    by (simp add: PBUF_TYPE_FLAG_STRUCT_DATA_CONTIGUOUS_def SIZEOF_STRUCT_PBUF_def) blast
qed

end
