(* ===== verification/Lwip_List.thy ===== *)
theory Lwip_List
  imports Lwip_Prelude
begin

text \<open>
  Singly linked lists of control blocks. A store maps the address of a block (0 is NULL) to its
  contents, and the blocks carry their \<^verbatim>\<open>next\<close> pointer themselves, as in the C code. The loops over
  such a list are instances of \<^verbatim>\<open>find_node\<close>; the locale \<open>linked\<close> states what a block type with a
  \<^verbatim>\<open>next\<close> field promises and derives how the code's pushes and unlinks act on the list.
\<close>

section \<open>Loops\<close>

text \<open>
  \<^verbatim>\<open>for (p = list; p != NULL; p = p->next) if (cond) break;\<close> - the first node that satisfies the
  condition, 0 when the loop runs to the end of the list.
\<close>

partial_function (option) find_node ::
  "(nat \<Rightarrow> 'b option) \<Rightarrow> ('b \<Rightarrow> nat) \<Rightarrow> (nat \<Rightarrow> 'b \<Rightarrow> bool) \<Rightarrow> nat \<Rightarrow> nat option" where
  "find_node mem nx P p =
     (if p = 0 then Some 0
      else do { b \<leftarrow> mem p; if P p b then Some p else find_node mem nx P (nx b) })"

section \<open>The list a pointer stands for\<close>

fun nodes :: "(nat \<Rightarrow> 'b option) \<Rightarrow> ('b \<Rightarrow> nat) \<Rightarrow> nat \<Rightarrow> nat list \<Rightarrow> nat \<Rightarrow> bool" where
  "nodes mem nx p [] q = (p = q)"
| "nodes mem nx p (a # as) q =
     (p = a \<and> a \<noteq> 0 \<and> (case mem a of None \<Rightarrow> False | Some b \<Rightarrow> nodes mem nx (nx b) as q))"

abbreviation node_list :: "(nat \<Rightarrow> 'b option) \<Rightarrow> ('b \<Rightarrow> nat) \<Rightarrow> nat \<Rightarrow> nat list \<Rightarrow> bool" where
  "node_list mem nx p as \<equiv> nodes mem nx p as 0"

lemma node_list_0 [simp]: "node_list mem nx 0 as \<longleftrightarrow> as = []"
  by (cases as) auto

lemma nodes_append: "nodes mem nx p (xs @ ys) q \<longleftrightarrow> (\<exists>r. nodes mem nx p xs r \<and> nodes mem nx r ys q)"
  by (induction xs arbitrary: p) (auto split: option.splits)

lemma nodes_present: "nodes mem nx p as q \<Longrightarrow> a \<in> set as \<Longrightarrow> \<exists>b. mem a = Some b"
  by (induction as arbitrary: p) (auto split: option.splits)

lemma nodes_not_0: "nodes mem nx p as q \<Longrightarrow> 0 \<notin> set as"
  by (induction as arbitrary: p) (auto split: option.splits)

lemma node_list_unique: "node_list mem nx p xs \<Longrightarrow> node_list mem nx p ys \<Longrightarrow> xs = ys"
proof (induction xs arbitrary: p ys)
  case Nil
  then show ?case by (cases ys) auto
next
  case (Cons a xs)
  then show ?case by (cases ys) (auto split: option.splits)
qed

lemma node_list_distinct: "node_list mem nx p as \<Longrightarrow> distinct as"
proof (induction as arbitrary: p)
  case (Cons a as)
  then obtain b where b: "mem a = Some b" "node_list mem nx (nx b) as" "p = a"
    by (auto split: option.splits)
  have "a \<notin> set as"
  proof
    assume "a \<in> set as"
    then obtain xs ys where as: "as = xs @ a # ys" by (meson split_list)
    then have "node_list mem nx a (a # ys)" using b(2) by (auto simp: nodes_append)
    moreover have "node_list mem nx a (a # as)" using Cons.prems b(3) by simp
    ultimately have "a # ys = a # as" by (rule node_list_unique)
    then have "length as = length xs + Suc (length as)" using as by simp
    then show False by simp
  qed
  then show ?case using Cons.IH b(2) by simp
qed simp

text \<open>The list depends on the \<^verbatim>\<open>next\<close> fields of its nodes only.\<close>

lemma nodes_cong:
  "(\<And>a. a \<in> set as \<Longrightarrow> map_option nx (mem a) = map_option nx (mem' a)) \<Longrightarrow>
   nodes mem nx p as q = nodes mem' nx p as q"
proof (induction as arbitrary: p)
  case (Cons a as)
  have "map_option nx (mem a) = map_option nx (mem' a)" by (rule Cons.prems) simp
  moreover have "nodes mem nx p as q = nodes mem' nx p as q" for p
    by (rule Cons.IH) (simp add: Cons.prems)
  ultimately show ?case by (cases "mem a"; cases "mem' a") simp_all
qed simp

lemma nodes_upd_other [simp]: "a \<notin> set as \<Longrightarrow> nodes (mem(a := x)) nx p as q = nodes mem nx p as q"
  by (rule nodes_cong) auto

lemma nodes_upd_same:
  "mem a = Some b \<Longrightarrow> nx b' = nx b \<Longrightarrow> nodes (mem(a := Some b')) nx p as q = nodes mem nx p as q"
  by (rule nodes_cong) auto

text \<open>The loop computes \<^term>\<open>List.find\<close> on the list and always ends.\<close>

lemma find_node_list:
  assumes "node_list mem nx p as"
  shows "find_node mem nx P p =
    Some (case find (\<lambda>a. P a (the (mem a))) as of None \<Rightarrow> 0 | Some a \<Rightarrow> a)"
  using assms
proof (induction as arbitrary: p)
  case Nil
  then show ?case by (subst find_node.simps) simp
next
  case (Cons a as)
  then obtain b where b: "mem a = Some b" "node_list mem nx (nx b) as" "p = a" "a \<noteq> 0"
    by (auto split: option.splits)
  then show ?case using Cons.IH [OF b(2)] by (subst find_node.simps) simp
qed

lemma find_node_eq_0:
  assumes "node_list mem nx p as"
  shows "find_node mem nx P p = Some 0 \<longleftrightarrow> (\<forall>a \<in> set as. \<not> P a (the (mem a)))"
proof (cases "find (\<lambda>a. P a (the (mem a))) as")
  case None
  moreover from this have "\<forall>a \<in> set as. \<not> P a (the (mem a))" by (simp add: find_None_iff)
  ultimately show ?thesis by (simp add: find_node_list [OF assms])
next
  case (Some a)
  then have "a \<in> set as" "P a (the (mem a))" by (auto simp: find_Some_iff)
  moreover have "a \<noteq> 0" using nodes_not_0 [OF assms] \<open>a \<in> set as\<close> by metis
  ultimately show ?thesis using Some by (auto simp: find_node_list [OF assms])
qed

lemma find_node_in_list:
  assumes "node_list mem nx p as"
  shows "find_node mem nx (\<lambda>a b. a = x) p = Some (if x \<in> set as then x else 0)"
proof -
  have "find (\<lambda>a. a = x) as = (if x \<in> set as then Some x else None)"
    by (induction as) auto
  then show ?thesis using find_node_list [OF assms, of "\<lambda>a b. a = x"] by simp
qed

section \<open>Blocks with a next field\<close>

locale linked =
  fixes nx :: "'b \<Rightarrow> nat" and set_nx :: "nat \<Rightarrow> 'b \<Rightarrow> 'b"
  assumes nx_set_nx [simp]: "nx (set_nx q b) = q"
begin

text \<open>Pushing a block in front of a list.\<close>

lemma push:
  assumes "node_list mem nx p as" "a \<notin> set as" "a \<noteq> 0"
  shows "node_list (mem(a := Some (set_nx p b))) nx a (a # as)"
  using assms by simp

text \<open>The loop that looks for the predecessor of a block, and unlinking the block there.\<close>

lemma find_pred:
  assumes "node_list mem nx p (xs @ y # a # ys)"
  shows "find_node mem nx (\<lambda>c b. nx b \<noteq> 0 \<and> nx b = a) p = Some y"
  using assms
proof (induction xs arbitrary: p)
  case Nil
  then show ?case by (subst find_node.simps) (auto split: option.splits)
next
  case (Cons x xs)
  from Cons.prems obtain b where b: "mem x = Some b" "p = x" "x \<noteq> 0"
    "node_list mem nx (nx b) (xs @ y # a # ys)"
    by (auto split: option.splits)
  have "nx b \<noteq> a"
  proof
    assume "nx b = a"
    with b(4) have "hd (xs @ y # a # ys) = a" by (cases xs) auto
    moreover have "distinct (xs @ y # a # ys)" by (rule node_list_distinct [OF b(4)])
    ultimately show False by (cases xs) auto
  qed
  then show ?case using Cons.IH [OF b(4)] b by (subst find_node.simps) simp
qed

lemma no_pred:
  assumes "node_list mem nx p as" "a \<notin> set (tl as)" "a \<noteq> 0"
  shows "find_node mem nx (\<lambda>c b. nx b \<noteq> 0 \<and> nx b = a) p = Some 0"
  using assms
proof (induction as arbitrary: p)
  case Nil
  then show ?case by (subst find_node.simps) simp
next
  case (Cons x as)
  then obtain b where b: "mem x = Some b" "p = x" "x \<noteq> 0" "node_list mem nx (nx b) as"
    by (auto split: option.splits)
  have "nx b \<noteq> a" using b(4) Cons.prems(2,3) by (cases as) auto
  moreover have "a \<notin> set (tl as)" using Cons.prems(2) by (cases as) auto
  ultimately show ?case using Cons.IH [OF b(4)] Cons.prems(3) b by (subst find_node.simps) simp
qed

lemma unlink:
  assumes "node_list mem nx p (xs @ y # a # ys)" "mem y = Some b" "mem a = Some c"
  shows "node_list (mem(y := Some (set_nx (nx c) b))) nx p (xs @ y # ys)"
proof -
  have d: "distinct (xs @ y # a # ys)" by (rule node_list_distinct [OF assms(1)])
  then have "y \<notin> set xs" "y \<notin> set ys" by auto
  moreover obtain r where "nodes mem nx p xs r" "node_list mem nx r (y # a # ys)"
    using assms(1) by (auto simp: nodes_append)
  ultimately show ?thesis using assms(2,3) by (auto simp: nodes_append)
qed

end

end
