(* ===== verification/Lwip_Ip.thy ===== *)
theory Lwip_Ip
  imports Lwip_Pbuf_Props Lwip_Ip4_Addr Lwip_List
begin

text \<open>
  What the protocols above and below IP share: the state of the IP layer, the functions it calls
  through pointers, the fields of the IPv4 header in a packet, and routing (\<^verbatim>\<open>core/ipv4/ip4.c\<close>,
  \<^verbatim>\<open>core/ipv6/ip6.c\<close>, \<^verbatim>\<open>netif.c\<close>, \<^verbatim>\<open>ip6_zone.h\<close>). The protocols extend the state record with
  their own fields.
\<close>

section \<open>State\<close>

text \<open>\<^verbatim>\<open>struct ip_globals\<close>: the packet being processed; a header pointer is NULL or a data pointer.\<close>

record ip_globals =
  current_netif :: "netif option"
  current_input_netif :: "netif option"
  current_ip4_header :: vptr
  current_ip6_header :: vptr
  current_ip_header_tot_len :: u16
  current_iphdr_src :: ip_addr_t
  current_iphdr_dest :: ip_addr_t

record ip_state =
  ip_heap :: heap
  netif_list :: "netif list"
  ip_id :: u16
  ip6_identification :: u32
  ip_data :: ip_globals

text \<open>
  Functions the modelled code calls through a pointer or in a module that is not modelled, each
  acting on the whole state: \<^verbatim>\<open>netif->output\<close>, which the Go side installs; \<^verbatim>\<open>netif_loop_output\<close>;
  the IPv6 output; the ICMP error messages (with the code of the message); the input functions of
  the other protocols; and the receive functions of UDP PCBs, by number.
\<close>

record 's ip_env =
  env_output :: "netif \<Rightarrow> nat \<Rightarrow> u32 \<Rightarrow> 's \<Rightarrow> (err_t \<times> 's) option"
  env_loop_output :: "netif \<Rightarrow> nat \<Rightarrow> 's \<Rightarrow> (err_t \<times> 's) option"
  env_output6 :: "nat \<Rightarrow> ip6_addr_t \<Rightarrow> ip6_addr_t \<Rightarrow> u8 \<Rightarrow> u8 \<Rightarrow> u8 \<Rightarrow> netif \<Rightarrow> 's \<Rightarrow> (err_t \<times> 's) option"
  env_dest_unreach :: "nat \<Rightarrow> u8 \<Rightarrow> 's \<Rightarrow> 's option"
  env_dest_unreach6 :: "nat \<Rightarrow> u8 \<Rightarrow> 's \<Rightarrow> 's option"
  env_time_exceeded :: "nat \<Rightarrow> u8 \<Rightarrow> 's \<Rightarrow> 's option"
  env_raw_input :: "nat \<Rightarrow> netif \<Rightarrow> 's \<Rightarrow> (nat \<times> 's) option"
  env_tcp_input :: "nat \<Rightarrow> netif \<Rightarrow> 's \<Rightarrow> 's option"
  env_icmp_input :: "nat \<Rightarrow> netif \<Rightarrow> 's \<Rightarrow> 's option"
  env_udp_recv :: "nat \<Rightarrow> nat \<Rightarrow> nat \<Rightarrow> nat \<Rightarrow> ip_addr_t \<Rightarrow> u16 \<Rightarrow> ip_addr_t \<Rightarrow> u16 \<Rightarrow> 's \<Rightarrow> 's option"

definition LWIP_CHKSUM :: chksum_fn where
  "LWIP_CHKSUM = lwip_standard_chksum_2"

definition ip_current_is_v6 :: "'a ip_state_scheme \<Rightarrow> bool" where
  "ip_current_is_v6 s = (current_ip6_header (ip_data s) \<noteq> VNull)"

section \<open>Interfaces and routing\<close>

definition netif_is_up :: "netif \<Rightarrow> bool" where
  "netif_is_up netif = (netif_flags netif AND 0x01 \<noteq> 0)"

text \<open>\<^verbatim>\<open>netif_get_by_index\<close>; index 0 is \<^verbatim>\<open>NETIF_NO_INDEX\<close>.\<close>

definition NETIF_NO_INDEX :: u8 where "NETIF_NO_INDEX = 0"

definition netif_get_by_index :: "u8 \<Rightarrow> 'a ip_state_scheme \<Rightarrow> netif option" where
  "netif_get_by_index idx s =
     (if idx \<noteq> NETIF_NO_INDEX then find (\<lambda>netif. idx = netif_get_index netif) (netif_list s) else None)"

text \<open>With \<^verbatim>\<open>TUN2SOCKS\<close> there is no routing: the first interface, the loop interface, takes all.\<close>

definition ip4_route :: "u32 \<Rightarrow> 'a ip_state_scheme \<Rightarrow> netif option" where
  "ip4_route dest s = (case netif_list s of [] \<Rightarrow> None | netif # _ \<Rightarrow> Some netif)"

definition ip6_route :: "ip6_addr_t \<Rightarrow> ip6_addr_t \<Rightarrow> 'a ip_state_scheme \<Rightarrow> netif option" where
  "ip6_route src dest s = (case netif_list s of [] \<Rightarrow> None | netif # _ \<Rightarrow> Some netif)"

definition ip_route :: "ip_addr_t \<Rightarrow> ip_addr_t \<Rightarrow> 'a ip_state_scheme \<Rightarrow> netif option" where
  "ip_route src dest s =
     (if IP_IS_V6 dest then ip6_route (ip_2_ip6 src) (ip_2_ip6 dest) s else ip4_route (ip_2_ip4 dest) s)"

definition ip_addr_isbroadcast :: "ip_addr_t \<Rightarrow> netif \<Rightarrow> bool" where
  "ip_addr_isbroadcast addr netif =
     (if IP_IS_V6 addr then False else ip4_addr_isbroadcast_u32 (ip_2_ip4 addr) netif)"

subsection \<open>Zones of IPv6 addresses\<close>

definition ip6_addr_ismulticast_iflocal :: "ip6_addr_t \<Rightarrow> bool" where
  "ip6_addr_ismulticast_iflocal a = (ip6_a0 a AND lwip_htonl 0xff8f0000 = lwip_htonl 0xff010000)"

definition ip6_addr_ismulticast_linklocal :: "ip6_addr_t \<Rightarrow> bool" where
  "ip6_addr_ismulticast_linklocal a = (ip6_a0 a AND lwip_htonl 0xff8f0000 = lwip_htonl 0xff020000)"

text \<open>What the caller knows of an address\<close>

datatype lwip_ipv6_scope_type = IP6_UNKNOWN | IP6_UNICAST | IP6_MULTICAST

definition ip6_addr_has_scope :: "ip6_addr_t \<Rightarrow> lwip_ipv6_scope_type \<Rightarrow> bool" where
  "ip6_addr_has_scope a type =
     (ip6_addr_islinklocal a \<or>
      (type \<noteq> IP6_UNICAST \<and> (ip6_addr_ismulticast_iflocal a \<or> ip6_addr_ismulticast_linklocal a)))"

definition ip6_addr_lacks_zone :: "ip6_addr_t \<Rightarrow> lwip_ipv6_scope_type \<Rightarrow> bool" where
  "ip6_addr_lacks_zone a type = (\<not> ip6_zone a \<noteq> 0 \<and> ip6_addr_has_scope a type)"

definition ip6_addr_assign_zone :: "ip6_addr_t \<Rightarrow> lwip_ipv6_scope_type \<Rightarrow> netif \<Rightarrow> ip6_addr_t" where
  "ip6_addr_assign_zone a type netif =
     a\<lparr>ip6_zone := (if ip6_addr_has_scope a type then netif_get_index netif else 0)\<rparr>"

definition ip6_addr_select_zone :: "ip6_addr_t \<Rightarrow> ip6_addr_t \<Rightarrow> 'a ip_state_scheme \<Rightarrow> ip6_addr_t" where
  "ip6_addr_select_zone dest src s =
     (case ip6_route src dest s of None \<Rightarrow> dest | Some netif \<Rightarrow> ip6_addr_assign_zone dest IP6_UNKNOWN netif)"

section \<open>Header fields\<close>

text \<open>16-bit and 32-bit fields of packed structs, by byte offset, as the little-endian host sees them.\<close>

definition ldf16 :: "u8 list \<Rightarrow> nat \<Rightarrow> u16" where
  "ldf16 hdr i = ucast (hdr ! i) OR push_bit 8 (ucast (hdr ! (i + 1)))"

definition stf16 :: "nat \<Rightarrow> u16 \<Rightarrow> u8 list \<Rightarrow> u8 list" where
  "stf16 i v hdr = hdr[i := ucast v, i + 1 := ucast (drop_bit 8 v)]"

definition ldf32 :: "u8 list \<Rightarrow> nat \<Rightarrow> u32" where
  "ldf32 hdr i = ucast (ldf16 hdr i) OR push_bit 16 (ucast (ldf16 hdr (i + 2)))"

definition IP_HLEN :: nat where "IP_HLEN = 20"
definition IP_MF :: u16 where "IP_MF = 0x2000"
definition IP_OFFMASK :: u16 where "IP_OFFMASK = 0x1fff"

definition IPH_V :: "u8 list \<Rightarrow> u8" where "IPH_V hdr = drop_bit 4 (hdr ! 0)"
definition IPH_HL_BYTES :: "u8 list \<Rightarrow> u8" where "IPH_HL_BYTES hdr = (hdr ! 0 AND 0x0f) * 4"
definition IPH_LEN :: "u8 list \<Rightarrow> u16" where "IPH_LEN hdr = ldf16 hdr 2"
definition IPH_ID :: "u8 list \<Rightarrow> u16" where "IPH_ID hdr = ldf16 hdr 4"
definition IPH_OFFSET :: "u8 list \<Rightarrow> u16" where "IPH_OFFSET hdr = ldf16 hdr 6"
definition IPH_PROTO :: "u8 list \<Rightarrow> u8" where "IPH_PROTO hdr = hdr ! 9"
definition IPH_SRC :: "u8 list \<Rightarrow> u32" where "IPH_SRC hdr = ldf32 hdr 12"
definition IPH_DEST :: "u8 list \<Rightarrow> u32" where "IPH_DEST hdr = ldf32 hdr 16"

definition IPH_OFFSET_BYTES :: "u8 list \<Rightarrow> u16" where
  "IPH_OFFSET_BYTES hdr = (lwip_htons (IPH_OFFSET hdr) AND IP_OFFMASK) * 8"

definition IP_PROTO_ICMP :: u8 where "IP_PROTO_ICMP = 1"
definition IP_PROTO_TCP :: u8 where "IP_PROTO_TCP = 6"
definition IP_PROTO_UDP :: u8 where "IP_PROTO_UDP = 17"

text \<open>The header at the payload of a pbuf, and writing it.\<close>

definition read_payload :: "heap \<Rightarrow> nat \<Rightarrow> nat \<Rightarrow> nat \<Rightarrow> u8 list option" where
  "read_payload h p off n = do { b \<leftarrow> pbufs h p; mem_read h (pb_payload b) off n }"

definition write_payload :: "heap \<Rightarrow> nat \<Rightarrow> nat \<Rightarrow> u8 list \<Rightarrow> heap option" where
  "write_payload h p off bs = do { b \<leftarrow> pbufs h p; mem_write h (pb_payload b) off bs }"

text \<open>\<^verbatim>\<open>ip_addr_copy_from_ip4\<close>\<close>

definition ip_addr_copy_from_ip4 :: "ip_addr_t \<Rightarrow> u32 \<Rightarrow> ip_addr_t" where
  "ip_addr_copy_from_ip4 dest src =
     ip_clear_no4 (dest\<lparr>u_addr := (u_addr dest)\<lparr>ip6_a0 := src\<rparr>, ip_type := IPADDR_TYPE_V4\<rparr>)"

text \<open>The segments of a pbuf chain, as the checksum functions walk it.\<close>

partial_function (option) pbuf_segments :: "heap \<Rightarrow> nat \<Rightarrow> segment list option" where
  "pbuf_segments h p =
     (if p = 0 then Some []
      else do {
        b \<leftarrow> pbufs h p;
        bs \<leftarrow> mem_read h (pb_payload b) 0 (unat (pb_len b));
        rest \<leftarrow> pbuf_segments h (pb_next b);
        Some ((vptr_address h (pb_payload b), bs) # rest)
      })"

end
