(* ===== verification/Lwip_Ip4_Output.thy ===== *)
theory Lwip_Ip4_Output
  imports Lwip_Ip
begin

text \<open>
  Sending IPv4 packets: the header that \<^verbatim>\<open>ip4_output_if_src\<close> builds in front of the payload
  (\<^verbatim>\<open>core/ipv4/ip4.c\<close>) and the fragmentation of packets larger than the MTU (\<^verbatim>\<open>ip4_frag\<close> of
  \<^verbatim>\<open>core/ipv4/ip4_frag.c\<close>).
\<close>

section \<open>Fragmentation\<close>

definition SIZEOF_PBUF_CUSTOM_REF :: nat where
  "SIZEOF_PBUF_CUSTOM_REF = 40"

definition ip_frag_alloc_pbuf_custom_ref :: "heap \<Rightarrow> nat \<times> heap" where
  "ip_frag_alloc_pbuf_custom_ref h = mem_malloc h SIZEOF_PBUF_CUSTOM_REF"

definition ip_frag_free_pbuf_custom_ref :: "heap \<Rightarrow> nat \<Rightarrow> heap option" where
  "ip_frag_free_pbuf_custom_ref h p = do { lwip_assert (p \<noteq> 0); Some (mem_free h p) }"

definition vptr_add :: "vptr \<Rightarrow> nat \<Rightarrow> vptr" where
  "vptr_add v n = (case v of VNull \<Rightarrow> VNull | VPtr b d \<Rightarrow> VPtr b (d + n))"

text \<open>
  The chain of references to \<^verbatim>\<open>left_to_copy\<close> bytes of the packet from offset \<^verbatim>\<open>poff\<close> in \<^verbatim>\<open>p\<close>,
  added to \<^verbatim>\<open>rambuf\<close>. The result is \<^term>\<open>Inl\<close> with the memory after the jump to \<^verbatim>\<open>memerr\<close>, and
  \<^term>\<open>Inr\<close> with \<^verbatim>\<open>p\<close>, \<^verbatim>\<open>poff\<close>, \<^verbatim>\<open>newpbuflen\<close> and the memory at the end of the loop.
\<close>

partial_function (option) frag_refs ::
  "heap \<Rightarrow> nat \<Rightarrow> nat \<Rightarrow> u16 \<Rightarrow> u16 \<Rightarrow> u16 \<Rightarrow> (heap + nat \<times> u16 \<times> u16 \<times> heap) option" where
  "frag_refs h rambuf p poff left_to_copy newpbuflen =
     (if left_to_copy = 0 then Some (Inr (p, poff, newpbuflen, h))
      else do {
        b \<leftarrow> pbufs h p;
        let plen = pb_len b - poff;
        lwip_assert (pb_len b \<ge> poff);
        let newpbuflen = min left_to_copy plen;
        if newpbuflen = 0 then frag_refs h rambuf (pb_next b) 0 left_to_copy newpbuflen
        else do {
          let (pcr, h) = ip_frag_alloc_pbuf_custom_ref h;
          if pcr = 0 then do { (c, h) \<leftarrow> pbuf_free h rambuf; Some (Inl h) }
          else do {
            let (newpbuf, h) = pbuf_alloced_custom h PBUF_RAW newpbuflen PBUF_REF pcr
              (vptr_add (pb_payload b) (unat poff)) newpbuflen;
            if newpbuf = 0 then do {
              h \<leftarrow> ip_frag_free_pbuf_custom_ref h pcr;
              (c, h) \<leftarrow> pbuf_free h rambuf;
              Some (Inl h)
            } else do {
              h \<leftarrow> pbuf_ref h p;
              c \<leftarrow> pbufs h pcr;
              let h = put_pbuf h pcr (c\<lparr>pb_custom := Some p\<rparr>);
              h \<leftarrow> pbuf_cat h rambuf newpbuf;
              let left_to_copy = left_to_copy - newpbuflen;
              if left_to_copy \<noteq> 0 then do {
                b \<leftarrow> pbufs h p;
                frag_refs h rambuf (pb_next b) 0 left_to_copy newpbuflen
              } else frag_refs h rambuf p poff left_to_copy newpbuflen
            }
          }
        }
      })"

text \<open>
  The header of one fragment: a copy of the original header with a new offset field, length and
  checksum. The division in \<^verbatim>\<open>nfb\<close> is the one of C on \<^verbatim>\<open>int\<close>.
\<close>

definition frag_nfb :: "u16 \<Rightarrow> u16" where
  "frag_nfb mtu =
     (let d = int (unat mtu) - 20 in of_int (if d \<ge> 0 then d div 8 else - ((- d) div 8)))"

definition frag_header :: "nat \<Rightarrow> u8 list \<Rightarrow> u16 \<Rightarrow> bool \<Rightarrow> u16 \<Rightarrow> u8 list" where
  "frag_header addr original_iphdr ofo mf fragsize =
     (let tmp = IP_OFFMASK AND ofo;
          tmp = (if mf then tmp OR IP_MF else tmp);
          iphdr = stf16 6 (lwip_htons tmp) original_iphdr;
          iphdr = stf16 2 (lwip_htons (fragsize + 20)) iphdr;
          iphdr = stf16 10 0 iphdr
      in stf16 10 (inet_chksum LWIP_CHKSUM addr iphdr) iphdr)"

partial_function (option) frag_loop ::
  "'a ip_state_scheme ip_env \<Rightarrow> netif \<Rightarrow> u32 \<Rightarrow> vptr \<Rightarrow> bool \<Rightarrow> nat \<Rightarrow> u16 \<Rightarrow> u16 \<Rightarrow> u16 \<Rightarrow>
   'a ip_state_scheme \<Rightarrow> (err_t \<times> 'a ip_state_scheme) option" where
  "frag_loop env netif dest original_iphdr mf_set p poff left ofo s =
     (if left = 0 then Some (ERR_OK, s)
      else do {
        let nfb = frag_nfb (netif_mtu netif);
        let fragsize = min left (nfb * 8);
        (rambuf, h) \<leftarrow> pbuf_alloc (ip_heap s) PBUF_LINK (of_nat IP_HLEN) PBUF_RAM;
        if rambuf = 0 then Some (ERR_MEM, s\<lparr>ip_heap := h\<rparr>)
        else do {
          r \<leftarrow> pbufs h rambuf;
          lwip_assert (unat (pb_len r) \<ge> IP_HLEN);
          hdr \<leftarrow> mem_read h original_iphdr 0 IP_HLEN;
          res \<leftarrow> frag_refs h rambuf p poff fragsize 0;
          (case res of
             Inl h \<Rightarrow> Some (ERR_MEM, s\<lparr>ip_heap := h\<rparr>)
           | Inr (p, poff, newpbuflen, h) \<Rightarrow> do {
               let poff = poff + newpbuflen;
               let last_frag = (int (unat left) \<le> int (unat (netif_mtu netif)) - int IP_HLEN);
               let hdr = frag_header (vptr_address h (pb_payload r)) hdr ofo (\<not> last_frag \<or> mf_set) fragsize;
               h \<leftarrow> mem_write h (pb_payload r) 0 hdr;
               (e, s) \<leftarrow> env_output env netif rambuf dest (s\<lparr>ip_heap := h\<rparr>);
               (c, h) \<leftarrow> pbuf_free (ip_heap s) rambuf;
               frag_loop env netif dest original_iphdr mf_set p poff (left - fragsize) (ofo + nfb) (s\<lparr>ip_heap := h\<rparr>)
             })
        }
      })"

definition ip4_frag ::
  "'a ip_state_scheme ip_env \<Rightarrow> nat \<Rightarrow> netif \<Rightarrow> u32 \<Rightarrow> 'a ip_state_scheme \<Rightarrow>
   (err_t \<times> 'a ip_state_scheme) option" where
  "ip4_frag env p netif dest s =
     do {
       b \<leftarrow> pbufs (ip_heap s) p;
       v \<leftarrow> mem_read (ip_heap s) (pb_payload b) 0 1;
       if unat (IPH_HL_BYTES v) \<noteq> IP_HLEN then Some (ERR_VAL, s)
       else do {
         lwip_assert (unat (pb_len b) \<ge> IP_HLEN);
         iphdr \<leftarrow> mem_read (ip_heap s) (pb_payload b) 0 IP_HLEN;
         let tmp = lwip_htons (IPH_OFFSET iphdr);
         let ofo = tmp AND IP_OFFMASK;
         let mf_set = (tmp AND IP_MF \<noteq> 0);
         let left = pb_tot_len b - of_nat IP_HLEN;
         frag_loop env netif dest (pb_payload b) mf_set p (of_nat IP_HLEN) left ofo s
       }
     }"

section \<open>Output\<close>

text \<open>
  The header that is written field by field while \<^verbatim>\<open>chk_sum\<close> adds up its words
  (\<^verbatim>\<open>CHECKSUM_GEN_IP_INLINE\<close>); \<^verbatim>\<open>ip_hlen\<close> is 20, since no options are sent.
\<close>

definition ip4_hdr_chksum :: "u8 \<Rightarrow> u8 \<Rightarrow> u8 \<Rightarrow> u16 \<Rightarrow> u16 \<Rightarrow> u32 \<Rightarrow> u32 \<Rightarrow> u16" where
  "ip4_hdr_chksum ttl tos proto len_n id_n src dest =
     (let v_hl = 0x45 :: u8;
          chk_sum = 0 :: u32;
          chk_sum = chk_sum + ucast (lwip_htons (ucast proto OR push_bit 8 (ucast ttl)));
          chk_sum = chk_sum + (dest AND 0xFFFF);
          chk_sum = chk_sum + drop_bit 16 dest;
          chk_sum = chk_sum + ucast (lwip_htons (ucast tos OR push_bit 8 (ucast v_hl)));
          chk_sum = chk_sum + ucast len_n;
          chk_sum = chk_sum + ucast id_n;
          chk_sum = chk_sum + (src AND 0xFFFF);
          chk_sum = chk_sum + drop_bit 16 src;
          chk_sum = drop_bit 16 chk_sum + (chk_sum AND 0xFFFF);
          chk_sum = drop_bit 16 chk_sum + chk_sum
      in ucast (NOT chk_sum))"

definition ip4_hdr :: "u8 \<Rightarrow> u8 \<Rightarrow> u8 \<Rightarrow> u16 \<Rightarrow> u16 \<Rightarrow> u32 \<Rightarrow> u32 \<Rightarrow> u8 list" where
  "ip4_hdr ttl tos proto len_n id_n src dest =
     [0x45, tos] @ store16 len_n @ store16 id_n @ store16 0 @ [ttl, proto]
       @ store16 (ip4_hdr_chksum ttl tos proto len_n id_n src dest) @ u32_bytes src @ u32_bytes dest"

text \<open>The end of \<^verbatim>\<open>ip4_output_if_src\<close>: packets to the interface's own address are looped back
  (\<^verbatim>\<open>ENABLE_LOOPBACK\<close>), large ones are fragmented.\<close>

definition ip4_send ::
  "'a ip_state_scheme ip_env \<Rightarrow> nat \<Rightarrow> u32 \<Rightarrow> netif \<Rightarrow> 'a ip_state_scheme \<Rightarrow>
   (err_t \<times> 'a ip_state_scheme) option" where
  "ip4_send env p dest netif s =
     (if dest = netif_ip4_addr netif then env_loop_output env netif p s
      else do {
        b \<leftarrow> pbufs (ip_heap s) p;
        if netif_mtu netif \<noteq> 0 \<and> pb_tot_len b > netif_mtu netif then ip4_frag env p netif dest s
        else env_output env netif p dest s
      })"

text \<open>A NULL source is the address 0; a NULL destination (\<^verbatim>\<open>LWIP_IP_HDRINCL\<close>) stands for a packet
  that already has its header.\<close>

definition ip4_output_if_src ::
  "'a ip_state_scheme ip_env \<Rightarrow> nat \<Rightarrow> u32 option \<Rightarrow> u32 option \<Rightarrow> u8 \<Rightarrow> u8 \<Rightarrow> u8 \<Rightarrow> netif \<Rightarrow>
   'a ip_state_scheme \<Rightarrow> (err_t \<times> 'a ip_state_scheme) option" where
  "ip4_output_if_src env p src dest ttl tos proto netif s =
     do {
       b \<leftarrow> pbufs (ip_heap s) p;
       lwip_assert (pb_ref b = 1);
       (case dest of
          Some dest \<Rightarrow> do {
            (r, h) \<leftarrow> pbuf_add_header (ip_heap s) p IP_HLEN;
            if r \<noteq> 0 then Some (ERR_BUF, s\<lparr>ip_heap := h\<rparr>)
            else do {
              b \<leftarrow> pbufs h p;
              lwip_assert (unat (pb_len b) \<ge> IP_HLEN);
              let src = (case src of None \<Rightarrow> 0 | Some a \<Rightarrow> a);
              let hdr = ip4_hdr ttl tos proto (lwip_htons (pb_tot_len b)) (lwip_htons (ip_id s)) src dest;
              h \<leftarrow> mem_write h (pb_payload b) 0 hdr;
              ip4_send env p dest netif (s\<lparr>ip_heap := h, ip_id := ip_id s + 1\<rparr>)
            }
          }
        | None \<Rightarrow>
            if unat (pb_len b) < IP_HLEN then Some (ERR_BUF, s)
            else do {
              iphdr \<leftarrow> mem_read (ip_heap s) (pb_payload b) 0 IP_HLEN;
              ip4_send env p (IPH_DEST iphdr) netif s
            })
     }"

definition ip4_output_if ::
  "'a ip_state_scheme ip_env \<Rightarrow> nat \<Rightarrow> u32 option \<Rightarrow> u32 option \<Rightarrow> u8 \<Rightarrow> u8 \<Rightarrow> u8 \<Rightarrow> netif \<Rightarrow>
   'a ip_state_scheme \<Rightarrow> (err_t \<times> 'a ip_state_scheme) option" where
  "ip4_output_if env p src dest ttl tos proto netif s =
     (let src_used = (if dest \<noteq> None \<and> (src = None \<or> src = Some 0)
                      then Some (netif_ip4_addr netif) else src)
      in ip4_output_if_src env p src_used dest ttl tos proto netif s)"

definition ip4_output ::
  "'a ip_state_scheme ip_env \<Rightarrow> nat \<Rightarrow> u32 option \<Rightarrow> u32 option \<Rightarrow> u8 \<Rightarrow> u8 \<Rightarrow> u8 \<Rightarrow>
   'a ip_state_scheme \<Rightarrow> (err_t \<times> 'a ip_state_scheme) option" where
  "ip4_output env p src dest ttl tos proto s =
     do {
       b \<leftarrow> pbufs (ip_heap s) p;
       lwip_assert (pb_ref b = 1);
       (case ip4_route (case dest of None \<Rightarrow> 0 | Some d \<Rightarrow> d) s of
          None \<Rightarrow> Some (ERR_RTE, s)
        | Some netif \<Rightarrow> ip4_output_if env p src dest ttl tos proto netif s)
     }"

text \<open>\<^verbatim>\<open>ip_output_if_src\<close> of \<^verbatim>\<open>ip.h\<close>\<close>

definition ip_output_if_src ::
  "'a ip_state_scheme ip_env \<Rightarrow> nat \<Rightarrow> ip_addr_t \<Rightarrow> ip_addr_t \<Rightarrow> u8 \<Rightarrow> u8 \<Rightarrow> u8 \<Rightarrow> netif \<Rightarrow>
   'a ip_state_scheme \<Rightarrow> (err_t \<times> 'a ip_state_scheme) option" where
  "ip_output_if_src env p src dest ttl tos proto netif s =
     (if IP_IS_V6 dest then env_output6 env p (ip_2_ip6 src) (ip_2_ip6 dest) ttl tos proto netif s
      else ip4_output_if_src env p (Some (ip_2_ip4 src)) (Some (ip_2_ip4 dest)) ttl tos proto netif s)"

end
