(* ===== verification/Lwip_Udp.thy ===== *)
theory Lwip_Udp
  imports Lwip_Ip4_Output
begin

text \<open>
  UDP (\<^verbatim>\<open>core/c/core/udp.c\<close>): the list of control blocks (PCBs) with binding, connecting and
  removal, the delivery of datagrams and sending them. Dual-stack build, no UDP-Lite, no
  \<^verbatim>\<open>SO_REUSE\<close>, no checksum verification on input, and the go-tun2socks changes: the first PCB
  receives every datagram, and the sender gives the source address and port.
\<close>

section \<open>State\<close>

record udp_pcb =
  up_local_ip :: ip_addr_t
  up_remote_ip :: ip_addr_t
  up_netif_idx :: u8
  up_so_options :: u8
  up_tos :: u8
  up_ttl :: u8
  up_next :: nat
  up_flags :: u8
  up_local_port :: u16
  up_remote_port :: u16
  up_recv :: "nat option"
  up_recv_arg :: nat

text \<open>
  The PCBs by address, the list \<^verbatim>\<open>udp_pcbs\<close> as the address of its first PCB, and the last local
  port. PCB addresses come from a counter; the environment decides which allocations succeed.
\<close>

record udp_state = ip_state +
  udp_mem :: "nat \<Rightarrow> udp_pcb option"
  udp_pcbs :: nat
  udp_port :: u16
  udp_nxt :: nat
  udp_malloc_ok :: "nat \<Rightarrow> bool"

definition put_udp :: "nat \<Rightarrow> udp_pcb \<Rightarrow> 'a udp_state_scheme \<Rightarrow> 'a udp_state_scheme" where
  "put_udp p b s = s\<lparr>udp_mem := (udp_mem s)(p := Some b)\<rparr>"

definition UDP_FLAGS_NOCHKSUM :: u8 where "UDP_FLAGS_NOCHKSUM = 0x01"
definition UDP_FLAGS_CONNECTED :: u8 where "UDP_FLAGS_CONNECTED = 0x04"
definition UDP_TTL :: u8 where "UDP_TTL = 64"
definition UDP_HLEN :: nat where "UDP_HLEN = 8"
definition UDP_LOCAL_PORT_RANGE_START :: u16 where "UDP_LOCAL_PORT_RANGE_START = 0xc000"
definition UDP_LOCAL_PORT_RANGE_END :: u16 where "UDP_LOCAL_PORT_RANGE_END = 0xffff"

definition UDP_ENSURE_LOCAL_PORT_RANGE :: "u16 \<Rightarrow> u16" where
  "UDP_ENSURE_LOCAL_PORT_RANGE port =
     (port AND NOT UDP_LOCAL_PORT_RANGE_START) + UDP_LOCAL_PORT_RANGE_START"

section \<open>Ports\<close>

text \<open>\<^verbatim>\<open>LWIP_RAND()\<close> is an argument.\<close>

definition udp_init :: "u32 \<Rightarrow> 'a udp_state_scheme \<Rightarrow> 'a udp_state_scheme" where
  "udp_init rand s = s\<lparr>udp_port := UDP_ENSURE_LOCAL_PORT_RANGE (ucast rand)\<rparr>"

partial_function (option) udp_port_again ::
  "'a udp_state_scheme \<Rightarrow> u16 \<Rightarrow> (u16 \<times> 'a udp_state_scheme) option" where
  "udp_port_again s n =
     do {
       let s = (if udp_port s = UDP_LOCAL_PORT_RANGE_END then s\<lparr>udp_port := UDP_LOCAL_PORT_RANGE_START\<rparr>
                else s\<lparr>udp_port := udp_port s + 1\<rparr>);
       pcb \<leftarrow> find_node (udp_mem s) up_next (\<lambda>a b. up_local_port b = udp_port s) (udp_pcbs s);
       if pcb \<noteq> 0 then do {
         let n = n + 1;
         if n > UDP_LOCAL_PORT_RANGE_END - UDP_LOCAL_PORT_RANGE_START then Some (0, s)
         else udp_port_again s n
       } else Some (udp_port s, s)
     }"

definition udp_new_port :: "'a udp_state_scheme \<Rightarrow> (u16 \<times> 'a udp_state_scheme) option" where
  "udp_new_port s = udp_port_again s 0"

section \<open>PCBs\<close>

definition ip_addr_any :: ip_addr_t where
  "ip_addr_any = \<lparr>u_addr = \<lparr>ip6_a0 = 0, ip6_a1 = 0, ip6_a2 = 0, ip6_a3 = 0, ip6_zone = 0\<rparr>, ip_type = IPADDR_TYPE_V4\<rparr>"

definition ip_addr_any_type :: ip_addr_t where
  "ip_addr_any_type = ip_addr_any\<lparr>ip_type := IPADDR_TYPE_ANY\<rparr>"

definition udp_new :: "'a udp_state_scheme \<Rightarrow> nat \<times> 'a udp_state_scheme" where
  "udp_new s =
     (let a = udp_nxt s; s = s\<lparr>udp_nxt := a + 1\<rparr>
      in if udp_malloc_ok s a then
           (a, put_udp a \<lparr>up_local_ip = ip_addr_any, up_remote_ip = ip_addr_any, up_netif_idx = 0,
              up_so_options = 0, up_tos = 0, up_ttl = UDP_TTL, up_next = 0, up_flags = 0,
              up_local_port = 0, up_remote_port = 0, up_recv = None, up_recv_arg = 0\<rparr> s)
         else (0, s))"

definition udp_new_ip_type :: "ip_addr_type \<Rightarrow> 'a udp_state_scheme \<Rightarrow> (nat \<times> 'a udp_state_scheme) option" where
  "udp_new_ip_type type s =
     (let (pcb, s) = udp_new s in
      if pcb \<noteq> 0 then do {
        b \<leftarrow> udp_mem s pcb;
        Some (pcb, put_udp pcb (b\<lparr>up_local_ip := (up_local_ip b)\<lparr>ip_type := type\<rparr>,
                                  up_remote_ip := (up_remote_ip b)\<lparr>ip_type := type\<rparr>\<rparr>) s)
      } else Some (pcb, s))"

text \<open>The tail of \<^verbatim>\<open>udp_bind\<close>: the address and port are set, and the PCB joins the list.\<close>

definition udp_bind_set ::
  "nat \<Rightarrow> ip_addr_t \<Rightarrow> u16 \<Rightarrow> bool \<Rightarrow> 'a udp_state_scheme \<Rightarrow> (err_t \<times> 'a udp_state_scheme) option" where
  "udp_bind_set pcb ipaddr port rebind s =
     do {
       b \<leftarrow> udp_mem s pcb;
       let s = put_udp pcb (b\<lparr>up_local_ip := ip_addr_set (up_local_ip b) ipaddr, up_local_port := port,
                              up_next := (if rebind then up_next b else udp_pcbs s)\<rparr>) s;
       Some (ERR_OK, if rebind then s else s\<lparr>udp_pcbs := pcb\<rparr>)
     }"

text \<open>Another PCB is bound to the port, and the addresses are equal or one of them is any.\<close>

definition udp_bind_conflict :: "nat \<Rightarrow> ip_addr_t \<Rightarrow> u16 \<Rightarrow> nat \<Rightarrow> udp_pcb \<Rightarrow> bool" where
  "udp_bind_conflict pcb ipaddr port ipcb b =
     (pcb \<noteq> ipcb \<and> up_local_port b = port \<and>
      (ip_addr_cmp (up_local_ip b) ipaddr \<or> ip_addr_isany ipaddr \<or> ip_addr_isany (up_local_ip b)))"

definition udp_bind ::
  "nat \<Rightarrow> ip_addr_t option \<Rightarrow> u16 \<Rightarrow> 'a udp_state_scheme \<Rightarrow> (err_t \<times> 'a udp_state_scheme) option" where
  "udp_bind pcb ipaddr port s =
     do {
       let ipaddr = (case ipaddr of None \<Rightarrow> ip_addr_any | Some a \<Rightarrow> a);
       lwip_assert (pcb \<noteq> 0);
       ipcb \<leftarrow> find_node (udp_mem s) up_next (\<lambda>a b. pcb = a) (udp_pcbs s);
       let rebind = (ipcb \<noteq> 0);
       let ipaddr = (if IP_IS_V6 ipaddr \<and> ip6_addr_lacks_zone (ip_2_ip6 ipaddr) IP6_UNKNOWN
         then ipaddr\<lparr>u_addr := ip6_addr_select_zone (ip_2_ip6 ipaddr) (ip_2_ip6 ipaddr) s\<rparr> else ipaddr);
       if port = 0 then do {
         (port, s) \<leftarrow> udp_new_port s;
         if port = 0 then Some (ERR_USE, s) else udp_bind_set pcb ipaddr port rebind s
       } else do {
         ipcb \<leftarrow> find_node (udp_mem s) up_next (udp_bind_conflict pcb ipaddr port) (udp_pcbs s);
         if ipcb \<noteq> 0 then Some (ERR_USE, s) else udp_bind_set pcb ipaddr port rebind s
       }
     }"

definition udp_bind_netif :: "nat \<Rightarrow> netif option \<Rightarrow> 'a udp_state_scheme \<Rightarrow> 'a udp_state_scheme option" where
  "udp_bind_netif pcb netif s =
     do {
       b \<leftarrow> udp_mem s pcb;
       Some (put_udp pcb (b\<lparr>up_netif_idx := (case netif of Some n \<Rightarrow> netif_get_index n | None \<Rightarrow> NETIF_NO_INDEX)\<rparr>) s)
     }"

definition udp_connect ::
  "nat \<Rightarrow> ip_addr_t \<Rightarrow> u16 \<Rightarrow> 'a udp_state_scheme \<Rightarrow> (err_t \<times> 'a udp_state_scheme) option" where
  "udp_connect pcb ipaddr port s =
     do {
       lwip_assert (pcb \<noteq> 0);
       b \<leftarrow> udp_mem s pcb;
       (err, s) \<leftarrow> (if up_local_port b = 0 then udp_bind pcb (Some (up_local_ip b)) (up_local_port b) s
                    else Some (ERR_OK, s));
       if err \<noteq> ERR_OK then Some (err, s)
       else do {
         b \<leftarrow> udp_mem s pcb;
         let remote_ip = ip_addr_set (up_remote_ip b) ipaddr;
         let remote_ip = (if IP_IS_V6 remote_ip \<and> ip6_addr_lacks_zone (ip_2_ip6 remote_ip) IP6_UNKNOWN
           then remote_ip\<lparr>u_addr := ip6_addr_select_zone (ip_2_ip6 remote_ip) (ip_2_ip6 (up_local_ip b)) s\<rparr>
           else remote_ip);
         let b = b\<lparr>up_remote_ip := remote_ip, up_remote_port := port,
                   up_flags := up_flags b OR UDP_FLAGS_CONNECTED\<rparr>;
         let s = put_udp pcb b s;
         ipcb \<leftarrow> find_node (udp_mem s) up_next (\<lambda>a b. pcb = a) (udp_pcbs s);
         if ipcb \<noteq> 0 then Some (ERR_OK, s)
         else Some (ERR_OK, (put_udp pcb (b\<lparr>up_next := udp_pcbs s\<rparr>) s)\<lparr>udp_pcbs := pcb\<rparr>)
       }
     }"

definition udp_disconnect :: "nat \<Rightarrow> 'a udp_state_scheme \<Rightarrow> 'a udp_state_scheme option" where
  "udp_disconnect pcb s =
     do {
       lwip_assert (pcb \<noteq> 0);
       b \<leftarrow> udp_mem s pcb;
       let remote_ip = (if IP_IS_ANY_TYPE_VAL (up_local_ip b) then ip_addr_set (up_remote_ip b) ip_addr_any_type
         else ip_addr_set_any (IP_IS_V6 (up_remote_ip b)) (up_remote_ip b));
       Some (put_udp pcb (b\<lparr>up_remote_ip := remote_ip, up_remote_port := 0, up_netif_idx := NETIF_NO_INDEX,
                            up_flags := up_flags b AND NOT UDP_FLAGS_CONNECTED\<rparr>) s)
     }"

definition udp_recv :: "nat \<Rightarrow> nat option \<Rightarrow> nat \<Rightarrow> 'a udp_state_scheme \<Rightarrow> 'a udp_state_scheme option" where
  "udp_recv pcb recv recv_arg s =
     do {
       lwip_assert (pcb \<noteq> 0);
       b \<leftarrow> udp_mem s pcb;
       Some (put_udp pcb (b\<lparr>up_recv := recv, up_recv_arg := recv_arg\<rparr>) s)
     }"

definition udp_remove :: "nat \<Rightarrow> 'a udp_state_scheme \<Rightarrow> 'a udp_state_scheme option" where
  "udp_remove pcb s =
     do {
       lwip_assert (pcb \<noteq> 0);
       s \<leftarrow> (if udp_pcbs s = pcb then do {
               b \<leftarrow> udp_mem s pcb;
               Some (s\<lparr>udp_pcbs := up_next b\<rparr>)
             } else do {
               pcb2 \<leftarrow> find_node (udp_mem s) up_next (\<lambda>a b. up_next b \<noteq> 0 \<and> up_next b = pcb) (udp_pcbs s);
               if pcb2 \<noteq> 0 then do {
                 b \<leftarrow> udp_mem s pcb;
                 b2 \<leftarrow> udp_mem s pcb2;
                 Some (put_udp pcb2 (b2\<lparr>up_next := up_next b\<rparr>) s)
               } else Some s
             });
       Some (s\<lparr>udp_mem := (udp_mem s)(pcb := None)\<rparr>)
     }"

partial_function (option) udp_readdress ::
  "(nat \<Rightarrow> udp_pcb option) \<Rightarrow> ip_addr_t \<Rightarrow> ip_addr_t \<Rightarrow> nat \<Rightarrow> (nat \<Rightarrow> udp_pcb option) option" where
  "udp_readdress mem old_addr new_addr upcb =
     (if upcb = 0 then Some mem
      else do {
        b \<leftarrow> mem upcb;
        let b = (if ip_addr_cmp (up_local_ip b) old_addr
                 then b\<lparr>up_local_ip := ip_addr_set (up_local_ip b) new_addr\<rparr> else b);
        udp_readdress (mem(upcb := Some b)) old_addr new_addr (up_next b)
      })"

text \<open>A NULL address counts as any.\<close>

definition udp_netif_ip_addr_changed ::
  "ip_addr_t option \<Rightarrow> ip_addr_t option \<Rightarrow> 'a udp_state_scheme \<Rightarrow> 'a udp_state_scheme option" where
  "udp_netif_ip_addr_changed old_addr new_addr s =
     (case (old_addr, new_addr) of
        (Some old_a, Some new_a) \<Rightarrow>
          if \<not> ip_addr_isany old_a \<and> \<not> ip_addr_isany new_a then do {
            mem \<leftarrow> udp_readdress (udp_mem s) old_a new_a (udp_pcbs s);
            Some (s\<lparr>udp_mem := mem\<rparr>)
          } else Some s
      | _ \<Rightarrow> Some s)"

end
