(* ===== verification/Lwip_Udp_Io.thy ===== *)
theory Lwip_Udp_Io
  imports Lwip_Udp
begin

text \<open>
  UDP datagrams (\<^verbatim>\<open>core/c/core/udp.c\<close>): the choice of the PCB that receives a datagram and the
  call of its receive function, and the construction of outgoing datagrams.
\<close>

section \<open>Input\<close>

text \<open>\<^verbatim>\<open>TUN2SOCKS\<close> is defined in \<^verbatim>\<open>lwipopts.h\<close>.\<close>

definition TUN2SOCKS :: bool where "TUN2SOCKS = True"

definition udp_input_local_match :: "udp_pcb \<Rightarrow> netif \<Rightarrow> bool \<Rightarrow> 'a udp_state_scheme \<Rightarrow> bool option" where
  "udp_input_local_match pcb inp broadcast s =
     do {
       other_netif \<leftarrow> (if up_netif_idx pcb \<noteq> NETIF_NO_INDEX then do {
           n \<leftarrow> current_input_netif (ip_data s);
           Some (up_netif_idx pcb \<noteq> netif_get_index n)
         } else Some False);
       let dest = current_iphdr_dest (ip_data s);
       Some (if other_netif then False
         else if IP_IS_ANY_TYPE_VAL (up_local_ip pcb) then True
         else if ip_type (up_local_ip pcb) = ip_type dest then
           (if broadcast then
              ip4_addr_isany_val (ip_2_ip4 (up_local_ip pcb)) \<or> ip_2_ip4 dest = 0xffffffff
                \<or> ip4_addr_netcmp (ip_2_ip4 (up_local_ip pcb)) (ip_2_ip4 dest) (netif_ip4_netmask inp)
            else ip_addr_isany (up_local_ip pcb) \<or> ip_addr_cmp (up_local_ip pcb) dest)
         else False)
     }"

text \<open>
  One step of the choice of \<^verbatim>\<open>uncon_pcb\<close>, for an unconnected PCB that matches: the first one, or
  a better one for a global broadcast.
\<close>

definition udp_better_uncon ::
  "nat \<Rightarrow> udp_pcb \<Rightarrow> netif \<Rightarrow> bool \<Rightarrow> nat \<Rightarrow> 'a udp_state_scheme \<Rightarrow> nat option" where
  "udp_better_uncon pcb b inp broadcast uncon_pcb s =
     (if uncon_pcb = 0 then Some pcb
      else if broadcast \<and> ip_2_ip4 (current_iphdr_dest (ip_data s)) = 0xffffffff then do {
        u \<leftarrow> udp_mem s uncon_pcb;
        Some (if (\<not> IP_IS_V4 (up_local_ip u) \<or> ip_2_ip4 (up_local_ip u) \<noteq> netif_ip4_addr inp)
                 \<and> IP_IS_V4 (up_local_ip b) \<and> ip_2_ip4 (up_local_ip b) = netif_ip4_addr inp
              then pcb else uncon_pcb)
      } else Some uncon_pcb)"

text \<open>
  The loop over the PCBs, with \<^verbatim>\<open>TUN2SOCKS\<close> as its first argument: the fully matching PCB, which
  moves to the front of the list, and the unconnected one.
\<close>

partial_function (option) udp_input_search ::
  "bool \<Rightarrow> netif \<Rightarrow> bool \<Rightarrow> u16 \<Rightarrow> u16 \<Rightarrow> nat \<Rightarrow> nat \<Rightarrow> nat \<Rightarrow> 'a udp_state_scheme \<Rightarrow>
   (nat \<times> nat \<times> 'a udp_state_scheme) option" where
  "udp_input_search tun2socks inp broadcast src dest pcb prev uncon_pcb s =
     (if pcb = 0 then Some (0, uncon_pcb, s)
      else if tun2socks then Some (pcb, uncon_pcb, s)
      else do {
        b \<leftarrow> udp_mem s pcb;
        match \<leftarrow> (if up_local_port b = dest then udp_input_local_match b inp broadcast s else Some False);
        if match then do {
          uncon_pcb \<leftarrow> (if up_flags b AND UDP_FLAGS_CONNECTED = 0
            then udp_better_uncon pcb b inp broadcast uncon_pcb s else Some uncon_pcb);
          if up_remote_port b = src \<and>
             (ip_addr_isany (up_remote_ip b) \<or> ip_addr_cmp (up_remote_ip b) (current_iphdr_src (ip_data s)))
          then do {
            s \<leftarrow> (if prev \<noteq> 0 then do {
                    pb \<leftarrow> udp_mem s prev;
                    let s = put_udp prev (pb\<lparr>up_next := up_next b\<rparr>) s;
                    Some ((put_udp pcb (b\<lparr>up_next := udp_pcbs s\<rparr>) s)\<lparr>udp_pcbs := pcb\<rparr>)
                  } else Some s);
            Some (pcb, uncon_pcb, s)
          } else udp_input_search tun2socks inp broadcast src dest (up_next b) pcb uncon_pcb s
        } else udp_input_search tun2socks inp broadcast src dest (up_next b) pcb uncon_pcb s
      })"

definition udp_free_pbuf :: "nat \<Rightarrow> 'a udp_state_scheme \<Rightarrow> 'a udp_state_scheme option" where
  "udp_free_pbuf p s = do { (c, h) \<leftarrow> pbuf_free (ip_heap s) p; Some (s\<lparr>ip_heap := h\<rparr>) }"

text \<open>\<^verbatim>\<open>netif_get_ip6_addr_match(inp, ip6addr) >= 0\<close> is an argument of the type of the test.\<close>

definition udp_deliver ::
  "'a udp_state_scheme ip_env \<Rightarrow> (netif \<Rightarrow> ip6_addr_t \<Rightarrow> bool) \<Rightarrow> nat \<Rightarrow> nat \<Rightarrow> netif \<Rightarrow> bool \<Rightarrow> u16 \<Rightarrow> u16 \<Rightarrow>
   'a udp_state_scheme \<Rightarrow> 'a udp_state_scheme option" where
  "udp_deliver env ip6_match p pcb inp broadcast src dest s =
     (let g = ip_data s;
          for_us = (if pcb \<noteq> 0 then True
                    else if ip_current_is_v6 s then ip6_match inp (ip_2_ip6 (current_iphdr_dest g))
                    else netif_ip4_addr inp = ip_2_ip4 (current_iphdr_dest g))
      in if for_us then do {
           (r, h) \<leftarrow> pbuf_remove_header (ip_heap s) p UDP_HLEN;
           lwip_assert (r = 0);
           let s = s\<lparr>ip_heap := h\<rparr>;
           if pcb \<noteq> 0 then do {
             b \<leftarrow> udp_mem s pcb;
             (case up_recv b of
                Some recv \<Rightarrow>
                  env_udp_recv env recv (up_recv_arg b) pcb p (current_iphdr_src g) src (current_iphdr_dest g) dest s
              | None \<Rightarrow> udp_free_pbuf p s)
           } else do {
             s \<leftarrow> (if \<not> broadcast \<and> \<not> ip_addr_ismulticast (current_iphdr_dest g) then do {
                     (r, h) \<leftarrow> pbuf_header_force (ip_heap s) p (current_ip_header_tot_len g + of_nat UDP_HLEN);
                     let s = s\<lparr>ip_heap := h\<rparr>;
                     if ip_current_is_v6 s then env_dest_unreach6 env p 4 s else env_dest_unreach env p 3 s
                   } else Some s);
             udp_free_pbuf p s
           }
         } else udp_free_pbuf p s)"

definition udp_input ::
  "'a udp_state_scheme ip_env \<Rightarrow> (netif \<Rightarrow> ip6_addr_t \<Rightarrow> bool) \<Rightarrow> nat \<Rightarrow> netif \<Rightarrow>
   'a udp_state_scheme \<Rightarrow> 'a udp_state_scheme option" where
  "udp_input env ip6_match p inp s =
     do {
       lwip_assert (p \<noteq> 0);
       b \<leftarrow> pbufs (ip_heap s) p;
       if unat (pb_len b) < UDP_HLEN then udp_free_pbuf p s
       else do {
         udphdr \<leftarrow> mem_read (ip_heap s) (pb_payload b) 0 UDP_HLEN;
         broadcast \<leftarrow> (if IP_IS_V6 (current_iphdr_dest (ip_data s)) then Some False
           else do { n \<leftarrow> current_netif (ip_data s); Some (ip_addr_isbroadcast (current_iphdr_dest (ip_data s)) n) });
         let src = lwip_htons (ldf16 udphdr 0);
         let dest = lwip_htons (ldf16 udphdr 2);
         (pcb, uncon_pcb, s) \<leftarrow> udp_input_search TUN2SOCKS inp broadcast src dest (udp_pcbs s) 0 0 s;
         let pcb = (if pcb = 0 then uncon_pcb else pcb);
         udp_deliver env ip6_match p pcb inp broadcast src dest s
       }
     }"

section \<open>Output\<close>

text \<open>\<^verbatim>\<open>udp_send\<close> and \<^verbatim>\<open>udp_send_chksum\<close> send nothing with \<^verbatim>\<open>TUN2SOCKS\<close>.\<close>

definition udp_send :: "nat \<Rightarrow> nat \<Rightarrow> 'a udp_state_scheme \<Rightarrow> (err_t \<times> 'a udp_state_scheme) option" where
  "udp_send pcb p s =
     do {
       lwip_assert (pcb \<noteq> 0);
       lwip_assert (p \<noteq> 0);
       b \<leftarrow> udp_mem s pcb;
       if IP_IS_ANY_TYPE_VAL (up_remote_ip b) then Some (ERR_VAL, s) else Some (ERR_OK, s)
     }"

definition udp_send_chksum ::
  "nat \<Rightarrow> nat \<Rightarrow> bool \<Rightarrow> u16 \<Rightarrow> 'a udp_state_scheme \<Rightarrow> (err_t \<times> 'a udp_state_scheme) option" where
  "udp_send_chksum pcb p have_chksum chksum s =
     do {
       lwip_assert (pcb \<noteq> 0);
       lwip_assert (p \<noteq> 0);
       b \<leftarrow> udp_mem s pcb;
       if IP_IS_ANY_TYPE_VAL (up_remote_ip b) then Some (ERR_VAL, s) else Some (ERR_OK, s)
     }"

definition IP_ADDR_PCB_VERSION_MATCH :: "udp_pcb \<Rightarrow> ip_addr_t \<Rightarrow> bool" where
  "IP_ADDR_PCB_VERSION_MATCH b ipaddr =
     (IP_IS_ANY_TYPE_VAL (up_local_ip b) \<or> ip_type (up_local_ip b) = ip_type ipaddr)"

text \<open>The checksum field: 0 unless a checksum is due, and never 0 when it is.\<close>

definition udp_hdr_chksum ::
  "heap \<Rightarrow> nat \<Rightarrow> u16 \<Rightarrow> udp_pcb \<Rightarrow> bool \<Rightarrow> u16 \<Rightarrow> ip_addr_t \<Rightarrow> ip_addr_t \<Rightarrow> u16 option" where
  "udp_hdr_chksum h q tot_len b have_chksum chksum src_ip dst_ip =
     (if IP_IS_V6 dst_ip \<or> up_flags b AND UDP_FLAGS_NOCHKSUM = 0 then do {
        segs \<leftarrow> pbuf_segments h q;
        udpchksum \<leftarrow> (if have_chksum then do {
            udpchksum \<leftarrow> ip_chksum_pseudo_partial LWIP_CHKSUM segs IP_PROTO_UDP tot_len (of_nat UDP_HLEN) src_ip dst_ip;
            let acc = (ucast udpchksum :: u32) + ucast (NOT chksum);
            Some (ucast (FOLD_U32T acc))
          } else Some (ip_chksum_pseudo LWIP_CHKSUM segs IP_PROTO_UDP tot_len src_ip dst_ip));
        Some (if udpchksum = 0 then 0xffff else udpchksum)
      } else Some 0)"

text \<open>
  The first half of the work: the header, in \<^verbatim>\<open>p\<close> itself or in a pbuf of its own in front of
  it. The result is \<^term>\<open>Inl\<close> with an error or \<^term>\<open>Inr\<close> with the first pbuf of the packet.
\<close>

definition udp_add_header :: "nat \<Rightarrow> heap \<Rightarrow> ((err_t + nat) \<times> heap) option" where
  "udp_add_header p h =
     do {
       b \<leftarrow> pbufs h p;
       if pb_tot_len b + of_nat UDP_HLEN < pb_tot_len b then Some (Inl ERR_MEM, h)
       else do {
         (r, h) \<leftarrow> pbuf_add_header h p UDP_HLEN;
         if r \<noteq> 0 then do {
           (q, h) \<leftarrow> pbuf_alloc h PBUF_IP (of_nat UDP_HLEN) PBUF_RAM;
           if q = 0 then Some (Inl ERR_MEM, h)
           else do {
             b \<leftarrow> pbufs h p;
             h \<leftarrow> (if pb_tot_len b \<noteq> 0 then pbuf_chain h q p else Some h);
             Some (Inr q, h)
           }
         } else Some (Inr p, h)
       }
     }"

definition udp_sendto_if_src_chksum ::
  "'a udp_state_scheme ip_env \<Rightarrow> nat \<Rightarrow> nat \<Rightarrow> ip_addr_t \<Rightarrow> u16 \<Rightarrow> netif \<Rightarrow> bool \<Rightarrow> u16 \<Rightarrow> ip_addr_t \<Rightarrow> u16 \<Rightarrow>
   'a udp_state_scheme \<Rightarrow> (err_t \<times> 'a udp_state_scheme) option" where
  "udp_sendto_if_src_chksum env pcb p dst_ip dst_port netif have_chksum chksum src_ip src_port s =
     do {
       lwip_assert (pcb \<noteq> 0);
       lwip_assert (p \<noteq> 0);
       b \<leftarrow> udp_mem s pcb;
       if \<not> IP_ADDR_PCB_VERSION_MATCH b src_ip \<or> \<not> IP_ADDR_PCB_VERSION_MATCH b dst_ip then Some (ERR_VAL, s)
       else do {
         (err, s) \<leftarrow> (if up_local_port b = 0 then udp_bind pcb (Some (up_local_ip b)) (up_local_port b) s
                      else Some (ERR_OK, s));
         if err \<noteq> ERR_OK then Some (err, s)
         else do {
           (res, h) \<leftarrow> udp_add_header p (ip_heap s);
           (case res of
              Inl err \<Rightarrow> Some (err, s\<lparr>ip_heap := h\<rparr>)
            | Inr q \<Rightarrow> do {
                qb \<leftarrow> pbufs h q;
                lwip_assert (unat (pb_len qb) \<ge> UDP_HLEN);
                h \<leftarrow> mem_write h (pb_payload qb) 0 (store16 (lwip_htons src_port) @ store16 (lwip_htons dst_port)
                       @ store16 (lwip_htons (pb_tot_len qb)) @ store16 0);
                udpchksum \<leftarrow> udp_hdr_chksum h q (pb_tot_len qb) b have_chksum chksum src_ip dst_ip;
                h \<leftarrow> mem_write h (pb_payload qb) 6 (store16 udpchksum);
                (err, s) \<leftarrow> ip_output_if_src env q src_ip dst_ip (up_ttl b) (up_tos b) IP_PROTO_UDP netif
                  (s\<lparr>ip_heap := h\<rparr>);
                s \<leftarrow> (if q \<noteq> p then udp_free_pbuf q s else Some s);
                Some (err, s)
              })
         }
       }
     }"

definition udp_sendto_if_src ::
  "'a udp_state_scheme ip_env \<Rightarrow> nat \<Rightarrow> nat \<Rightarrow> ip_addr_t \<Rightarrow> u16 \<Rightarrow> netif \<Rightarrow> ip_addr_t \<Rightarrow> u16 \<Rightarrow>
   'a udp_state_scheme \<Rightarrow> (err_t \<times> 'a udp_state_scheme) option" where
  "udp_sendto_if_src env pcb p dst_ip dst_port netif src_ip src_port s =
     udp_sendto_if_src_chksum env pcb p dst_ip dst_port netif False 0 src_ip src_port s"

definition udp_sendto_if_chksum ::
  "'a udp_state_scheme ip_env \<Rightarrow> nat \<Rightarrow> nat \<Rightarrow> ip_addr_t \<Rightarrow> u16 \<Rightarrow> netif \<Rightarrow> bool \<Rightarrow> u16 \<Rightarrow> ip_addr_t \<Rightarrow> u16 \<Rightarrow>
   'a udp_state_scheme \<Rightarrow> (err_t \<times> 'a udp_state_scheme) option" where
  "udp_sendto_if_chksum env pcb p dst_ip dst_port netif have_chksum chksum src_ip src_port s =
     do {
       lwip_assert (pcb \<noteq> 0);
       lwip_assert (p \<noteq> 0);
       b \<leftarrow> udp_mem s pcb;
       if \<not> IP_ADDR_PCB_VERSION_MATCH b dst_ip then Some (ERR_VAL, s)
       else udp_sendto_if_src_chksum env pcb p dst_ip dst_port netif have_chksum chksum src_ip src_port s
     }"

definition udp_sendto_if ::
  "'a udp_state_scheme ip_env \<Rightarrow> nat \<Rightarrow> nat \<Rightarrow> ip_addr_t \<Rightarrow> u16 \<Rightarrow> netif \<Rightarrow> ip_addr_t \<Rightarrow> u16 \<Rightarrow>
   'a udp_state_scheme \<Rightarrow> (err_t \<times> 'a udp_state_scheme) option" where
  "udp_sendto_if env pcb p dst_ip dst_port netif src_ip src_port s =
     udp_sendto_if_chksum env pcb p dst_ip dst_port netif False 0 src_ip src_port s"

definition udp_sendto_chksum ::
  "'a udp_state_scheme ip_env \<Rightarrow> nat \<Rightarrow> nat \<Rightarrow> ip_addr_t \<Rightarrow> u16 \<Rightarrow> bool \<Rightarrow> u16 \<Rightarrow> ip_addr_t \<Rightarrow> u16 \<Rightarrow>
   'a udp_state_scheme \<Rightarrow> (err_t \<times> 'a udp_state_scheme) option" where
  "udp_sendto_chksum env pcb p dst_ip dst_port have_chksum chksum src_ip src_port s =
     do {
       lwip_assert (pcb \<noteq> 0);
       lwip_assert (p \<noteq> 0);
       b \<leftarrow> udp_mem s pcb;
       if \<not> IP_ADDR_PCB_VERSION_MATCH b dst_ip then Some (ERR_VAL, s)
       else (case (if up_netif_idx b \<noteq> NETIF_NO_INDEX then netif_get_by_index (up_netif_idx b) s
                   else ip_route (up_local_ip b) dst_ip s) of
               None \<Rightarrow> Some (ERR_RTE, s)
             | Some netif \<Rightarrow>
                 udp_sendto_if_chksum env pcb p dst_ip dst_port netif have_chksum chksum src_ip src_port s)
     }"

definition udp_sendto ::
  "'a udp_state_scheme ip_env \<Rightarrow> nat \<Rightarrow> nat \<Rightarrow> ip_addr_t \<Rightarrow> u16 \<Rightarrow> ip_addr_t \<Rightarrow> u16 \<Rightarrow>
   'a udp_state_scheme \<Rightarrow> (err_t \<times> 'a udp_state_scheme) option" where
  "udp_sendto env pcb p dst_ip dst_port src_ip src_port s =
     udp_sendto_chksum env pcb p dst_ip dst_port False 0 src_ip src_port s"

end
