(* ===== verification/Lwip_Udp_List.thy ===== *)
theory Lwip_Udp_List
  imports Lwip_Udp
begin

text \<open>
  Properties of the UDP control blocks: the list of PCBs as an interpretation of the interface
  \<open>linked\<close>, the choice of local ports, and the contract of every list operation.
\<close>

interpretation udp_list: linked up_next "\<lambda>q b. b\<lparr>up_next := q\<rparr>"
  by unfold_locales simp

abbreviation udp_nodes :: "'a udp_state_scheme \<Rightarrow> nat list \<Rightarrow> bool" where
  "udp_nodes s as \<equiv> node_list (udp_mem s) up_next (udp_pcbs s) as"

definition upcb :: "'a udp_state_scheme \<Rightarrow> nat \<Rightarrow> udp_pcb" where
  "upcb s a = the (udp_mem s a)"

section \<open>Choosing a local port\<close>

text \<open>The k-th port of the local range, counted cyclically.\<close>

definition range_port :: "nat \<Rightarrow> u16" where
  "range_port k = of_nat (49152 + k mod 16384)"

lemma unat_range_port: "unat (range_port k) = 49152 + k mod 16384"
proof -
  have "k mod 16384 < 16384" by simp
  then have "49152 + k mod 16384 < 65536" by linarith
  then show ?thesis unfolding range_port_def by (rule unat_of_nat_u16)
qed

lemma range_port_Suc:
  "(if range_port k = 0xffff then 0xc000 else range_port k + 1) = range_port (Suc k)"
proof (cases "k mod 16384 = 16383")
  case True
  then have "Suc k mod 16384 = 0" by (simp add: mod_Suc)
  with True show ?thesis by (simp add: range_port_def)
next
  case False
  have "k mod 16384 < 16384" by simp
  with False have less: "49152 + k mod 16384 < 65535" by linarith
  then have "Suc k mod 16384 = Suc (k mod 16384)" using False by (simp add: mod_Suc)
  moreover have "range_port k \<noteq> 0xffff"
  proof
    assume "range_port k = 0xffff"
    then have "unat (range_port k) = unat (0xffff :: u16)" by (rule arg_cong)
    then show False using less by (simp add: unat_range_port)
  qed
  ultimately show ?thesis by (simp add: range_port_def)
qed

lemma range_port_cover:
  assumes "49152 \<le> unat p" obtains k where "p = range_port k" "k < 16384"
proof -
  have "unat p - 49152 < 16384" using unat_u16_less [of p] assms by linarith
  moreover have "p = range_port (unat p - 49152)"
    using calculation assms unat_range_port [of "unat p - 49152"]
    by (simp add: word_unat_eq_iff)
  ultimately show thesis using that by blast
qed

lemma range_port_mod: "range_port (k mod 16384) = range_port k"
  by (simp add: range_port_def)

definition port_taken :: "'a udp_state_scheme \<Rightarrow> nat list \<Rightarrow> u16 \<Rightarrow> bool" where
  "port_taken s as p = (\<exists>a \<in> set as. up_local_port (upcb s a) = p)"

lemma port_taken_udp_port [simp]: "port_taken (s\<lparr>udp_port := q\<rparr>) as p = port_taken s as p"
  by (simp add: port_taken_def upcb_def)

lemma udp_port_again_result:
  assumes "udp_nodes s as" "udp_port s = range_port (k + unat n)" "unat n \<le> 16383"
    and "\<forall>i. 0 < i \<and> i \<le> unat n \<longrightarrow> port_taken s as (range_port (k + i))"
  shows "\<exists>port q. udp_port_again s n = Some (port, s\<lparr>udp_port := q\<rparr>) \<and> 49152 \<le> unat q \<and>
    (if port = 0 then \<forall>i. 0 < i \<and> i \<le> 16384 \<longrightarrow> port_taken s as (range_port (k + i))
     else port = q \<and> \<not> port_taken s as port)"
  using assms
proof (induction "16384 - unat n" arbitrary: s n rule: less_induct)
  case less
  let ?q = "range_port (k + Suc (unat n))"
  let ?s = "s\<lparr>udp_port := ?q\<rparr>"
  have next_port: "(if udp_port s = UDP_LOCAL_PORT_RANGE_END then s\<lparr>udp_port := UDP_LOCAL_PORT_RANGE_START\<rparr>
      else s\<lparr>udp_port := udp_port s + 1\<rparr>) = ?s"
    using range_port_Suc [of "k + unat n"] less.prems(2)
    by (auto simp: UDP_LOCAL_PORT_RANGE_END_def UDP_LOCAL_PORT_RANGE_START_def split: if_splits)
  have nodes: "udp_nodes ?s as" using less.prems(1) by simp
  have taken: "find_node (udp_mem ?s) up_next (\<lambda>a b. up_local_port b = udp_port ?s) (udp_pcbs ?s) = Some 0
      \<longleftrightarrow> \<not> port_taken s as ?q"
    using find_node_eq_0 [OF nodes] by (simp add: port_taken_def upcb_def)
  obtain pcb where pcb: "find_node (udp_mem ?s) up_next (\<lambda>a b. up_local_port b = udp_port ?s) (udp_pcbs ?s) = Some pcb"
    using find_node_list [OF nodes] by blast
  have ge: "49152 \<le> unat ?q" by (simp add: unat_range_port)
  show ?case
  proof (cases "pcb = 0")
    case True
    have "?q \<noteq> 0" using ge by auto
    moreover have "\<not> port_taken s as ?q" using taken pcb True by simp
    moreover have "udp_port_again s n = Some (?q, ?s)"
      using pcb True by (subst udp_port_again.simps) (simp only: next_port Let_def, simp)
    ultimately show ?thesis using ge by auto
  next
    case False
    then have tk: "port_taken s as ?q" using taken pcb by simp
    have n1: "unat (n + 1) = Suc (unat n)"
      using less.prems(3) by (subst unat_add_u16_small) simp_all
    have all: "\<forall>i. 0 < i \<and> i \<le> Suc (unat n) \<longrightarrow> port_taken s as (range_port (k + i))"
      using less.prems(4) tk by (auto simp: le_Suc_eq)
    have lim: "n + 1 > UDP_LOCAL_PORT_RANGE_END - UDP_LOCAL_PORT_RANGE_START \<longleftrightarrow> 16383 < Suc (unat n)"
      by (simp add: UDP_LOCAL_PORT_RANGE_END_def UDP_LOCAL_PORT_RANGE_START_def word_less_nat_alt n1)
    show ?thesis
    proof (cases "16383 < Suc (unat n)")
      case True
      then have "Suc (unat n) = 16384" using less.prems(3) by linarith
      then have "\<forall>i. 0 < i \<and> i \<le> 16384 \<longrightarrow> port_taken s as (range_port (k + i))" using all by simp
      moreover have "udp_port_again s n = Some (0, ?s)"
        using pcb False lim True by (subst udp_port_again.simps) (simp only: next_port Let_def, simp)
      ultimately show ?thesis using ge by auto
    next
      case False
      have step: "udp_port_again s n = udp_port_again ?s (n + 1)"
        using pcb \<open>pcb \<noteq> 0\<close> lim False by (subst udp_port_again.simps) (simp only: next_port Let_def, simp)
      have "16384 - unat (n + 1) < 16384 - unat n" using n1 False by linarith
      from less.hyps [OF this nodes] n1 False all
      have "\<exists>port q. udp_port_again ?s (n + 1) = Some (port, ?s\<lparr>udp_port := q\<rparr>) \<and> 49152 \<le> unat q \<and>
        (if port = 0 then \<forall>i. 0 < i \<and> i \<le> 16384 \<longrightarrow> port_taken s as (range_port (k + i))
         else port = q \<and> \<not> port_taken s as port)"
        by (simp cong: if_cong)
      then show ?thesis by (simp add: step)
    qed
  qed
qed

lemma udp_new_port_unused:
  assumes "udp_nodes s as" "49152 \<le> unat (udp_port s)"
  shows "\<exists>port q. udp_new_port s = Some (port, s\<lparr>udp_port := q\<rparr>) \<and> 49152 \<le> unat q \<and>
    (if port = 0 then \<forall>p. 49152 \<le> unat p \<longrightarrow> port_taken s as p
     else port = q \<and> \<not> port_taken s as port)"
proof -
  obtain k where k: "udp_port s = range_port k" using range_port_cover [OF assms(2)] by blast
  have all: "\<forall>p. 49152 \<le> unat p \<longrightarrow> port_taken s as p"
    if taken: "\<forall>i. 0 < i \<and> i \<le> 16384 \<longrightarrow> port_taken s as (range_port (k + i))"
  proof (intro allI impI)
    fix p :: u16 assume "49152 \<le> unat p"
    then obtain j where j: "p = range_port j" "j < 16384" by (rule range_port_cover)
    define m d where "m = k mod 16384" and "d = k div 16384"
    then have m: "m < 16384" "k = m + 16384 * d" by simp_all
    obtain i where i: "i \<le> 16384" "0 < i" "(k + i) mod 16384 = j"
    proof (cases "m < j")
      case True
      then have "k + (j - m) = j + 16384 * d" using m(2) by linarith
      then have "(k + (j - m)) mod 16384 = j" using j(2) by simp
      then show thesis using that [of "j - m"] True j(2) by linarith
    next
      case False
      have "k + (16384 + j - m) = j + 16384 * (d + 1)" using m by (simp add: algebra_simps)
      then have "(k + (16384 + j - m)) mod 16384 = (j + 16384 * (d + 1)) mod 16384" by (rule arg_cong)
      also have "\<dots> = j" using j(2) by (simp only: mod_mult_self2) simp
      finally show thesis using that [of "16384 + j - m"] False m(1) by linarith
    qed
    then have "range_port (k + i) = p" using j(1) range_port_mod [of "k + i"] by simp
    then show "port_taken s as p" using taken i(1,2) by auto
  qed
  obtain port q where r: "udp_port_again s 0 = Some (port, s\<lparr>udp_port := q\<rparr>)" "49152 \<le> unat q"
    "if port = 0 then \<forall>i. 0 < i \<and> i \<le> 16384 \<longrightarrow> port_taken s as (range_port (k + i))
     else port = q \<and> \<not> port_taken s as port"
    using udp_port_again_result [OF assms(1), of k 0] k by auto
  show ?thesis
  proof (intro exI conjI)
    show "udp_new_port s = Some (port, s\<lparr>udp_port := q\<rparr>)" using r(1) by (simp add: udp_new_port_def)
    show "if port = 0 then \<forall>p. 49152 \<le> unat p \<longrightarrow> port_taken s as p else port = q \<and> \<not> port_taken s as port"
      using r(3) all by (auto split: if_splits)
  qed (rule r(2))
qed

text \<open>C25: \<^verbatim>\<open>udp_new_port\<close> ends. It returns a port of the range 49152 to 65535 that no PCB in the list
  is bound to, and 0 only if every port of the range is taken.\<close>

theorem udp_new_port_free:
  assumes "udp_nodes s as" "49152 \<le> unat (udp_port s)"
  shows "\<exists>port q. udp_new_port s = Some (port, s\<lparr>udp_port := q\<rparr>) \<and> 49152 \<le> unat q \<and>
    (if port = 0 then \<forall>p. 49152 \<le> unat p \<longrightarrow> port_taken s as p
     else port = q \<and> \<not> port_taken s as port)"
  by (rule udp_new_port_unused [OF assms])

section \<open>The list of PCBs\<close>

text \<open>Two addresses overlap when a datagram could match both.\<close>

definition udp_overlap :: "ip_addr_t \<Rightarrow> ip_addr_t \<Rightarrow> bool" where
  "udp_overlap x y = (ip_addr_cmp x y \<or> ip_addr_isany x \<or> ip_addr_isany y)"

lemma udp_overlap_sym: "udp_overlap x y \<Longrightarrow> udp_overlap y x"
  by (auto simp: udp_overlap_def dest: ip_addr_cmp_sym)

lemma ip_addr_isany_set [simp]: "ip_addr_isany (ip_addr_set d x) = ip_addr_isany x"
  by (auto simp: ip_addr_isany_def ip_addr_set_def IP_IS_V6_def ip_clear_no4_def ip_2_ip6_def ip_2_ip4_def
      ip6_addr_isany_val_def ip4_addr_isany_val_def Let_def)

lemma udp_overlap_set [simp]: "udp_overlap (ip_addr_set d x) y = udp_overlap x y"
proof -
  have "ip_addr_cmp (ip_addr_set d x) x" "ip_addr_cmp x (ip_addr_set d x)"
    by (simp, rule ip_addr_cmp_sym) simp
  then have "ip_addr_cmp (ip_addr_set d x) y = ip_addr_cmp x y" by (blast intro: ip_addr_cmp_trans)
  then show ?thesis by (simp add: udp_overlap_def)
qed

lemma udp_overlap_set_right [simp]: "udp_overlap y (ip_addr_set d x) = udp_overlap y x"
  using udp_overlap_set [of d x y] by (blast dest: udp_overlap_sym)

lemma udp_bind_conflict_overlap:
  "udp_bind_conflict pcb x port a b \<longleftrightarrow> pcb \<noteq> a \<and> up_local_port b = port \<and> udp_overlap (up_local_ip b) x"
  by (auto simp: udp_bind_conflict_def udp_overlap_def)

text \<open>
  The invariant of the module: the list is well formed, its PCBs are those with a local port, no
  two of them share a port and overlap in their address, and new addresses are fresh.
\<close>

definition udp_wf :: "'a udp_state_scheme \<Rightarrow> nat list \<Rightarrow> bool" where
  "udp_wf s as = (udp_nodes s as \<and> 49152 \<le> unat (udp_port s) \<and>
     (udp_mem s 0 = None \<and> 0 < udp_nxt s \<and> (\<forall>a \<ge> udp_nxt s. udp_mem s a = None)) \<and>
     (\<forall>a b. udp_mem s a = Some b \<longrightarrow> (a \<in> set as \<longleftrightarrow> up_local_port b \<noteq> 0)) \<and>
     (\<forall>a \<in> set as. \<forall>c \<in> set as. a \<noteq> c \<longrightarrow> up_local_port (upcb s a) = up_local_port (upcb s c) \<longrightarrow>
        \<not> udp_overlap (up_local_ip (upcb s a)) (up_local_ip (upcb s c))))"

lemma udp_wf_nodes: "udp_wf s as \<Longrightarrow> udp_nodes s as"
  by (simp add: udp_wf_def)

lemma upcb_put [simp]: "upcb (put_udp p b s) a = (if a = p then b else upcb s a)"
  by (simp add: upcb_def put_udp_def)

lemma put_udp_simps [simp]:
  "udp_mem (put_udp p b s) = (udp_mem s)(p := Some b)" "udp_pcbs (put_udp p b s) = udp_pcbs s"
  "udp_port (put_udp p b s) = udp_port s" "udp_nxt (put_udp p b s) = udp_nxt s"
  "udp_malloc_ok (put_udp p b s) = udp_malloc_ok s" "netif_list (put_udp p b s) = netif_list s"
  "ip_heap (put_udp p b s) = ip_heap s" "ip_data (put_udp p b s) = ip_data s"
  by (simp_all add: put_udp_def)

lemma upcb_udp_port [simp]: "upcb (s\<lparr>udp_port := q\<rparr>) a = upcb s a"
  by (simp add: upcb_def)

lemma upcb_udp_pcbs [simp]: "upcb (s\<lparr>udp_pcbs := q\<rparr>) a = upcb s a"
  by (simp add: upcb_def)

lemma udp_wf_port: "udp_wf s as \<Longrightarrow> 49152 \<le> unat q \<Longrightarrow> udp_wf (s\<lparr>udp_port := q\<rparr>) as"
  unfolding udp_wf_def by simp

lemma udp_wf_present:
  assumes "udp_wf s as" "udp_mem s p = Some b"
  shows "p \<noteq> 0" "p < udp_nxt s"
proof -
  have "udp_mem s 0 = None" "\<forall>a \<ge> udp_nxt s. udp_mem s a = None"
    using assms(1) by (simp_all add: udp_wf_def)
  then show "p \<noteq> 0" "p < udp_nxt s"
    using assms(2) by (metis option.distinct(1), metis not_less option.distinct(1))
qed

lemma udp_nodes_put:
  assumes "udp_mem s p = Some b" "up_next b' = up_next b"
  shows "udp_nodes (put_udp p b' s) as = udp_nodes s as"
  unfolding put_udp_simps by (rule nodes_upd_same) (fact assms)+

text \<open>Changing a PCB without touching its link and local binding.\<close>

lemma udp_wf_put:
  assumes "udp_wf s as" "udp_mem s p = Some b" "up_next b' = up_next b"
    and "up_local_port b' = up_local_port b" "up_local_ip b' = up_local_ip b"
  shows "udp_wf (put_udp p b' s) as"
proof -
  have u: "upcb s p = b" using assms(2) by (simp add: upcb_def)
  have "udp_nodes (put_udp p b' s) as"
    using udp_wf_nodes [OF assms(1)] udp_nodes_put [OF assms(2,3)] by simp
  moreover note udp_wf_present [OF assms(1,2)]
  ultimately show ?thesis
    using assms u unfolding udp_wf_def by (auto split: if_splits)
qed

text \<open>Giving a PCB a local binding that conflicts with no other.\<close>

lemma udp_bind_set_wf:
  assumes wf: "udp_wf s as" and b: "udp_mem s pcb = Some b" and port: "port \<noteq> 0"
    and free: "\<forall>a \<in> set as. \<not> udp_bind_conflict pcb x port a (upcb s a)"
    and rebind: "rebind = (pcb \<in> set as)"
  shows "\<exists>s'. udp_bind_set pcb x port rebind s = Some (ERR_OK, s') \<and>
    udp_wf s' (if pcb \<in> set as then as else pcb # as) \<and>
    udp_mem s' = (udp_mem s)(pcb := Some (b\<lparr>up_local_ip := ip_addr_set (up_local_ip b) x,
      up_local_port := port, up_next := (if pcb \<in> set as then up_next b else udp_pcbs s)\<rparr>))"
proof -
  let ?b = "b\<lparr>up_local_ip := ip_addr_set (up_local_ip b) x, up_local_port := port,
              up_next := (if pcb \<in> set as then up_next b else udp_pcbs s)\<rparr>"
  let ?s = "put_udp pcb ?b s"
  let ?s' = "if pcb \<in> set as then ?s else ?s\<lparr>udp_pcbs := pcb\<rparr>"
  let ?as = "if pcb \<in> set as then as else pcb # as"
  note pcb = udp_wf_present [OF wf b]
  have run: "udp_bind_set pcb x port rebind s = Some (ERR_OK, ?s')"
    using b rebind by (simp add: udp_bind_set_def)
  have mem: "udp_mem ?s' = (udp_mem s)(pcb := Some ?b)" "udp_port ?s' = udp_port s" "udp_nxt ?s' = udp_nxt s"
    by simp_all
  have u: "upcb ?s' a = (if a = pcb then ?b else upcb s a)" for a by simp
  have nodes: "udp_nodes ?s' ?as"
  proof (cases "pcb \<in> set as")
    case True
    then show ?thesis
      using udp_wf_nodes [OF wf] udp_nodes_put [OF b, of ?b] by simp
  next
    case False
    then show ?thesis using udp_wf_nodes [OF wf] pcb(1) by simp
  qed
  have listed: "a \<in> set ?as \<longleftrightarrow> up_local_port c \<noteq> 0" if "udp_mem ?s' a = Some c" for a c
  proof (cases "a = pcb")
    case True
    then show ?thesis using that port mem(1) by auto
  next
    case False
    then have "udp_mem s a = Some c" using that mem(1) by simp
    then show ?thesis using wf False unfolding udp_wf_def by auto
  qed
  have other: "\<not> udp_overlap (up_local_ip (upcb s a)) x"
    if "a \<in> set ?as" "a \<noteq> pcb" "up_local_port (upcb s a) = port" for a
    using free that by (auto simp: udp_bind_conflict_overlap split: if_splits)
  have apart: "\<not> udp_overlap (up_local_ip (upcb ?s' a)) (up_local_ip (upcb ?s' c))"
    if "a \<in> set ?as" "c \<in> set ?as" "a \<noteq> c" "up_local_port (upcb ?s' a) = up_local_port (upcb ?s' c)" for a c
  proof -
    consider "a = pcb" | "c = pcb" | "a \<noteq> pcb" "c \<noteq> pcb" by blast
    then show ?thesis
    proof cases
      case 1
      then show ?thesis using that other [of c] unfolding u by (auto dest: udp_overlap_sym)
    next
      case 2
      then show ?thesis using that other [of a] unfolding u by (auto dest: udp_overlap_sym)
    next
      case 3
      then have "a \<in> set as" "c \<in> set as" using that(1,2) by (auto split: if_splits)
      then show ?thesis using wf that(3,4) 3 unfolding udp_wf_def u by simp
    qed
  qed
  have "udp_wf ?s' ?as"
    unfolding udp_wf_def
  proof (intro conjI)
    show "udp_nodes ?s' ?as" by (rule nodes)
    show "49152 \<le> unat (udp_port ?s')" "0 < udp_nxt ?s'" "udp_mem ?s' 0 = None"
      using wf pcb unfolding mem by (simp_all add: udp_wf_def)
    show "\<forall>a \<ge> udp_nxt ?s'. udp_mem ?s' a = None" using wf pcb unfolding mem by (auto simp: udp_wf_def)
    show "\<forall>a c. udp_mem ?s' a = Some c \<longrightarrow> (a \<in> set ?as \<longleftrightarrow> up_local_port c \<noteq> 0)" using listed by blast
    show "\<forall>a \<in> set ?as. \<forall>c \<in> set ?as. a \<noteq> c \<longrightarrow> up_local_port (upcb ?s' a) = up_local_port (upcb ?s' c) \<longrightarrow>
        \<not> udp_overlap (up_local_ip (upcb ?s' a)) (up_local_ip (upcb ?s' c))" using apart by blast
  qed
  then show ?thesis using run mem(1) by blast
qed

text \<open>The address that is bound: an IPv6 address that lacks its zone gets one.\<close>

definition udp_bound_ip :: "'a udp_state_scheme \<Rightarrow> ip_addr_t option \<Rightarrow> ip_addr_t" where
  "udp_bound_ip s ipaddr = (let ipaddr = (case ipaddr of None \<Rightarrow> ip_addr_any | Some a \<Rightarrow> a)
     in if IP_IS_V6 ipaddr \<and> ip6_addr_lacks_zone (ip_2_ip6 ipaddr) IP6_UNKNOWN
        then ipaddr\<lparr>u_addr := ip6_addr_select_zone (ip_2_ip6 ipaddr) (ip_2_ip6 ipaddr) s\<rparr> else ipaddr)"

lemma udp_in_list:
  assumes "udp_nodes s as"
  shows "find_node (udp_mem s) up_next (\<lambda>a b. pcb = a) (udp_pcbs s) = Some (if pcb \<in> set as then pcb else 0)"
  using find_node_in_list [OF assms, of pcb] by (simp add: eq_commute)

lemma udp_conflict_found:
  assumes "udp_nodes s as"
  obtains c where "find_node (udp_mem s) up_next (udp_bind_conflict pcb x port) (udp_pcbs s) = Some c"
    "c = 0 \<longleftrightarrow> (\<forall>a \<in> set as. \<not> udp_bind_conflict pcb x port a (upcb s a))"
proof -
  obtain c where c: "find_node (udp_mem s) up_next (udp_bind_conflict pcb x port) (udp_pcbs s) = Some c"
    unfolding find_node_list [OF assms] by blast
  moreover have "c = 0 \<longleftrightarrow> (\<forall>a \<in> set as. \<not> udp_bind_conflict pcb x port a (upcb s a))"
    using find_node_eq_0 [OF assms, of "udp_bind_conflict pcb x port"] c by (simp add: upcb_def)
  ultimately show thesis by (rule that)
qed

lemma udp_bind_ok:
  assumes wf: "udp_wf s as" and b: "udp_mem s pcb = Some b"
  shows "\<exists>err s'. udp_bind pcb ipaddr port s = Some (err, s') \<and>
    (if port = 0 then (err = ERR_OK) = (\<exists>p. 49152 \<le> unat p \<and> \<not> port_taken s as p)
     else (err = ERR_OK) = (\<forall>a \<in> set as. a \<noteq> pcb \<longrightarrow> up_local_port (upcb s a) = port \<longrightarrow>
            \<not> udp_overlap (up_local_ip (upcb s a)) (udp_bound_ip s ipaddr))) \<and>
    (if err = ERR_OK then
       udp_wf s' (if pcb \<in> set as then as else pcb # as) \<and>
       up_local_port (upcb s' pcb) = (if port = 0 then udp_port s' else port) \<and>
       ip_addr_cmp (up_local_ip (upcb s' pcb)) (udp_bound_ip s ipaddr) \<and>
       (\<forall>a. a \<noteq> pcb \<longrightarrow> udp_mem s' a = udp_mem s a)
     else err = ERR_USE \<and> udp_wf s' as \<and> udp_mem s' = udp_mem s)"
proof -
  let ?x = "udp_bound_ip s ipaddr"
  let ?rebind = "pcb \<in> set as"
  have pcb: "pcb \<noteq> 0" by (rule udp_wf_present [OF wf b])
  note nodes = udp_wf_nodes [OF wf]
  have reb: "((if pcb \<in> set as then pcb else 0) \<noteq> 0) = (pcb \<in> set as)" using pcb by simp
  have bind: "udp_bind pcb ipaddr port s =
     (if port = 0 then do {
        (port, s) \<leftarrow> udp_new_port s;
        if port = 0 then Some (ERR_USE, s) else udp_bind_set pcb ?x port ?rebind s
      } else do {
        ipcb \<leftarrow> find_node (udp_mem s) up_next (udp_bind_conflict pcb ?x port) (udp_pcbs s);
        if ipcb \<noteq> 0 then Some (ERR_USE, s) else udp_bind_set pcb ?x port ?rebind s
      })"
    using pcb unfolding udp_bind_def udp_in_list [OF nodes] udp_bound_ip_def Let_def bind.bind_lunit reb by simp
  have free: "\<not> port_taken s as p \<Longrightarrow> \<forall>a \<in> set as. \<not> udp_bind_conflict pcb ?x p a (upcb s a)" for p
    by (auto simp: port_taken_def udp_bind_conflict_def)
  show ?thesis
  proof (cases "port = 0")
    case True
    from udp_new_port_unused [OF nodes] wf obtain p q where
      np: "udp_new_port s = Some (p, s\<lparr>udp_port := q\<rparr>)" "49152 \<le> unat q"
        "if p = 0 then \<forall>p. 49152 \<le> unat p \<longrightarrow> port_taken s as p else p = q \<and> \<not> port_taken s as p"
      unfolding udp_wf_def by blast
    let ?s = "s\<lparr>udp_port := q\<rparr>"
    have wf': "udp_wf ?s as" by (rule udp_wf_port [OF wf np(2)])
    show ?thesis
    proof (cases "p = 0")
      case True
      then have "udp_bind pcb ipaddr port s = Some (ERR_USE, ?s)" using bind np(1) \<open>port = 0\<close> by simp
      then show ?thesis using np(3) True \<open>port = 0\<close> wf' by auto
    next
      case False
      then have pq: "p = q" "\<not> port_taken s as p" using np(3) unfolding if_not_P [OF False] by blast+
      have "\<exists>s'. udp_bind_set pcb ?x p ?rebind ?s = Some (ERR_OK, s') \<and>
          udp_wf s' (if pcb \<in> set as then as else pcb # as) \<and>
          udp_mem s' = (udp_mem ?s)(pcb := Some (b\<lparr>up_local_ip := ip_addr_set (up_local_ip b) ?x,
            up_local_port := p, up_next := (if pcb \<in> set as then up_next b else udp_pcbs ?s)\<rparr>))"
        by (rule udp_bind_set_wf [OF wf' _ False]) (use b free [OF pq(2)] in simp_all)
      then obtain s' where s': "udp_bind_set pcb ?x p ?rebind ?s = Some (ERR_OK, s')"
        "udp_wf s' (if pcb \<in> set as then as else pcb # as)"
        "udp_mem s' = (udp_mem s)(pcb := Some (b\<lparr>up_local_ip := ip_addr_set (up_local_ip b) ?x,
          up_local_port := p, up_next := (if pcb \<in> set as then up_next b else udp_pcbs s)\<rparr>))" by auto
      have "udp_port s' = q" using s'(1) b by (auto simp: udp_bind_set_def Let_def split: if_splits)
      moreover have "udp_bind pcb ipaddr port s = Some (ERR_OK, s')" using bind np(1) \<open>port = 0\<close> False s'(1) by simp
      ultimately show ?thesis using s'(2,3) pq np(2) \<open>port = 0\<close> by (auto simp: upcb_def)
    qed
  next
    case False
    obtain c where c: "find_node (udp_mem s) up_next (udp_bind_conflict pcb ?x port) (udp_pcbs s) = Some c"
      "c = 0 \<longleftrightarrow> (\<forall>a \<in> set as. \<not> udp_bind_conflict pcb ?x port a (upcb s a))"
      using udp_conflict_found [OF nodes] .
    show ?thesis
    proof (cases "c = 0")
      case True
      from udp_bind_set_wf [OF wf b False] c(2) True obtain s' where
        s': "udp_bind_set pcb ?x port ?rebind s = Some (ERR_OK, s')"
        "udp_wf s' (if pcb \<in> set as then as else pcb # as)"
        "udp_mem s' = (udp_mem s)(pcb := Some (b\<lparr>up_local_ip := ip_addr_set (up_local_ip b) ?x,
          up_local_port := port, up_next := (if pcb \<in> set as then up_next b else udp_pcbs s)\<rparr>))" by blast
      have "udp_bind pcb ipaddr port s = Some (ERR_OK, s')" using bind c(1) True False s'(1) by simp
      then show ?thesis
        using s'(2,3) c(2) True False by (auto simp: udp_bind_conflict_overlap upcb_def)
    next
      case nz: False
      have "udp_bind pcb ipaddr port s = Some (ERR_USE, s)" using bind c(1) nz False by simp
      moreover have "\<exists>a \<in> set as. a \<noteq> pcb \<and> up_local_port (upcb s a) = port \<and> udp_overlap (up_local_ip (upcb s a)) ?x"
        using c(2) nz by (auto simp: udp_bind_conflict_overlap)
      ultimately show ?thesis using False wf by auto
    qed
  qed
qed

text \<open>C24: Binding a PCB to a port succeeds exactly when no other PCB in the list is bound to that port
  with an overlapping address, and binding to port 0 exactly when some port of the local range is
  free. Afterwards the PCB is in the list once, with the address and the port, the invariant of the
  list holds again and the other PCBs are untouched; a failed bind changes no PCB.\<close>

theorem udp_bind_correct:
  assumes wf: "udp_wf s as" and b: "udp_mem s pcb = Some b"
  shows "\<exists>err s'. udp_bind pcb ipaddr port s = Some (err, s') \<and>
    (if port = 0 then (err = ERR_OK) = (\<exists>p. 49152 \<le> unat p \<and> \<not> port_taken s as p)
     else (err = ERR_OK) = (\<forall>a \<in> set as. a \<noteq> pcb \<longrightarrow> up_local_port (upcb s a) = port \<longrightarrow>
            \<not> udp_overlap (up_local_ip (upcb s a)) (udp_bound_ip s ipaddr))) \<and>
    (if err = ERR_OK then
       udp_wf s' (if pcb \<in> set as then as else pcb # as) \<and>
       up_local_port (upcb s' pcb) = (if port = 0 then udp_port s' else port) \<and>
       ip_addr_cmp (up_local_ip (upcb s' pcb)) (udp_bound_ip s ipaddr) \<and>
       (\<forall>a. a \<noteq> pcb \<longrightarrow> udp_mem s' a = udp_mem s a)
     else err = ERR_USE \<and> udp_wf s' as \<and> udp_mem s' = udp_mem s)"
  by (rule udp_bind_ok [OF assms])

section \<open>Removing and connecting\<close>

lemma udp_wf_distinct: "udp_wf s as \<Longrightarrow> distinct as"
  using node_list_distinct udp_wf_nodes by blast

lemma udp_new_wf:
  assumes "udp_wf s as"
  shows "udp_wf (snd (udp_new s)) as"
proof -
  let ?a = "udp_nxt s"
  have none: "udp_mem s ?a = None" "0 < ?a" using assms by (simp_all add: udp_wf_def)
  then have fresh: "?a \<notin> set as"
    using nodes_present [OF udp_wf_nodes [OF assms]] by fastforce
  let ?b = "\<lparr>up_local_ip = ip_addr_any, up_remote_ip = ip_addr_any, up_netif_idx = 0,
              up_so_options = 0, up_tos = 0, up_ttl = UDP_TTL, up_next = 0, up_flags = 0,
              up_local_port = 0, up_remote_port = 0, up_recv = None, up_recv_arg = 0\<rparr>"
  have u: "upcb (put_udp ?a ?b (s\<lparr>udp_nxt := ?a + 1\<rparr>)) c = upcb s c" if "c \<in> set as" for c
    using that fresh by (auto simp: upcb_def)
  show ?thesis
  proof (cases "udp_malloc_ok s ?a")
    case True
    have "udp_nodes (put_udp ?a ?b (s\<lparr>udp_nxt := ?a + 1\<rparr>)) as"
      using udp_wf_nodes [OF assms] fresh by simp
    then have "udp_wf (put_udp ?a ?b (s\<lparr>udp_nxt := ?a + 1\<rparr>)) as"
      using assms fresh none u unfolding udp_wf_def by auto
    then show ?thesis using True by (simp add: udp_new_def Let_def)
  next
    case False
    have "udp_wf (s\<lparr>udp_nxt := ?a + 1\<rparr>) as"
      using assms none unfolding udp_wf_def by (simp add: upcb_def)
    then show ?thesis using False by (simp add: udp_new_def Let_def)
  qed
qed

text \<open>Unlinking a PCB changes only \<^verbatim>\<open>next\<close> fields of the others.\<close>

lemma udp_remove_list:
  assumes nodes: "udp_nodes s as" and b: "udp_mem s pcb = Some b" and pcb: "pcb \<noteq> 0"
  obtains s' where "udp_remove pcb s = Some s'" "udp_nodes s' (remove1 pcb as)" "udp_mem s' pcb = None"
    "\<And>a. a \<noteq> pcb \<Longrightarrow> map_option (\<lambda>c. c\<lparr>up_next := 0\<rparr>) (udp_mem s' a) = map_option (\<lambda>c. c\<lparr>up_next := 0\<rparr>) (udp_mem s a)"
    "udp_port s' = udp_port s" "udp_nxt s' = udp_nxt s"
proof -
  have d: "distinct as" by (rule node_list_distinct [OF nodes])
  show thesis
  proof (cases "pcb \<in> set as")
    case False
    then have "udp_pcbs s \<noteq> pcb" using nodes pcb by (cases as) auto
    moreover have "find_node (udp_mem s) up_next (\<lambda>a b. up_next b \<noteq> 0 \<and> up_next b = pcb) (udp_pcbs s) = Some 0"
      by (rule udp_list.no_pred [OF nodes _ pcb]) (use False in \<open>cases as; simp\<close>)
    ultimately have "udp_remove pcb s = Some (s\<lparr>udp_mem := (udp_mem s)(pcb := None)\<rparr>)"
      using pcb by (simp add: udp_remove_def)
    then show thesis using that False nodes by (simp add: remove1_idem)
  next
    case True
    then obtain xs ys where as: "as = xs @ pcb # ys" by (meson split_list)
    show thesis
    proof (cases xs rule: rev_cases)
      case Nil
      then have nx: "udp_pcbs s = pcb" "node_list (udp_mem s) up_next (up_next b) ys" using nodes as b by auto
      have "udp_remove pcb s = Some (s\<lparr>udp_pcbs := up_next b, udp_mem := (udp_mem s)(pcb := None)\<rparr>)"
        using pcb nx(1) b by (simp add: udp_remove_def)
      then show thesis using that nx(2) d as Nil by simp
    next
      case (snoc zs y)
      then have as': "as = zs @ y # pcb # ys" using as by simp
      obtain c where c: "udp_mem s y = Some c" using nodes_present [OF nodes, of y] as' by auto
      have "udp_pcbs s \<noteq> pcb"
      proof
        assume "udp_pcbs s = pcb"
        then have "hd as = pcb" using nodes as' by (cases zs) auto
        then show False using d as' by (cases zs) auto
      qed
      then have run: "udp_remove pcb s =
          Some (put_udp y (c\<lparr>up_next := up_next b\<rparr>) s\<lparr>udp_mem := (udp_mem (put_udp y (c\<lparr>up_next := up_next b\<rparr>) s))(pcb := None)\<rparr>)"
        using udp_list.find_pred [OF nodes [unfolded as']] b c pcb nodes_not_0 [OF nodes] as'
        by (auto simp: udp_remove_def)
      have "node_list ((udp_mem s)(y := Some (c\<lparr>up_next := up_next b\<rparr>))) up_next (udp_pcbs s) (zs @ y # ys)"
        by (rule udp_list.unlink [OF nodes [unfolded as'] c b])
      moreover have "pcb \<notin> set (zs @ y # ys)" "remove1 pcb as = zs @ y # ys" "y \<noteq> pcb"
        using d as' by (auto simp: remove1_append)
      ultimately show thesis
        by (intro that [OF run]) (simp_all add: c)
    qed
  qed
qed

lemma upcb_same_but_next:
  assumes "map_option (\<lambda>c. c\<lparr>up_next := 0\<rparr>) (udp_mem s' a) = map_option (\<lambda>c. c\<lparr>up_next := 0\<rparr>) (udp_mem s a)"
    and "udp_mem s a = Some b"
  obtains b' where "udp_mem s' a = Some b'" "b'\<lparr>up_next := 0\<rparr> = b\<lparr>up_next := 0\<rparr>"
    "up_local_port b' = up_local_port b" "up_local_ip b' = up_local_ip b"
proof -
  obtain b' where b': "udp_mem s' a = Some b'" "b'\<lparr>up_next := 0\<rparr> = b\<lparr>up_next := 0\<rparr>"
    using assms by (cases "udp_mem s' a") auto
  have "up_local_port b' = up_local_port b" "up_local_ip b' = up_local_ip b"
    using arg_cong [OF b'(2), of up_local_port] arg_cong [OF b'(2), of up_local_ip] by simp_all
  then show thesis using that b' by blast
qed

lemma udp_remove_ok:
  assumes wf: "udp_wf s as" and b: "udp_mem s pcb = Some b"
  shows "\<exists>s'. udp_remove pcb s = Some s' \<and> udp_wf s' (remove1 pcb as) \<and> udp_mem s' pcb = None \<and>
    (\<forall>a. a \<noteq> pcb \<longrightarrow> map_option (\<lambda>c. c\<lparr>up_next := 0\<rparr>) (udp_mem s' a) = map_option (\<lambda>c. c\<lparr>up_next := 0\<rparr>) (udp_mem s a))"
proof -
  obtain s' where s': "udp_remove pcb s = Some s'" "udp_nodes s' (remove1 pcb as)" "udp_mem s' pcb = None"
    "\<And>a. a \<noteq> pcb \<Longrightarrow> map_option (\<lambda>c. c\<lparr>up_next := 0\<rparr>) (udp_mem s' a) = map_option (\<lambda>c. c\<lparr>up_next := 0\<rparr>) (udp_mem s a)"
    "udp_port s' = udp_port s" "udp_nxt s' = udp_nxt s"
    using udp_remove_list [OF udp_wf_nodes [OF wf] b udp_wf_present(1) [OF wf b]] by blast
  have d: "distinct as" by (rule udp_wf_distinct [OF wf])
  have gone: "udp_mem s' a = None" if "udp_mem s a = None" for a
    using s'(3) s'(4) [of a] that by (cases "a = pcb") simp_all
  have kept: "\<exists>c. udp_mem s a = Some c \<and> a \<noteq> pcb \<and> up_local_port c' = up_local_port c \<and> up_local_ip c' = up_local_ip c"
    if here: "udp_mem s' a = Some c'" for a c'
  proof -
    have ne: "a \<noteq> pcb" using here s'(3) by auto
    obtain c where c: "udp_mem s a = Some c" using gone [of a] here by (cases "udp_mem s a") auto
    then show ?thesis using upcb_same_but_next [OF s'(4) [OF ne] c] here ne by auto
  qed
  have "udp_wf s' (remove1 pcb as)"
    unfolding udp_wf_def
  proof (intro conjI)
    show "udp_nodes s' (remove1 pcb as)" by (rule s'(2))
    show "49152 \<le> unat (udp_port s')" "0 < udp_nxt s'" "udp_mem s' 0 = None" "\<forall>a \<ge> udp_nxt s'. udp_mem s' a = None"
      using wf gone s'(5,6) by (auto simp: udp_wf_def)
    show "\<forall>a c. udp_mem s' a = Some c \<longrightarrow> (a \<in> set (remove1 pcb as) \<longleftrightarrow> up_local_port c \<noteq> 0)"
    proof (intro allI impI)
      fix a c' assume "udp_mem s' a = Some c'"
      from kept [OF this] obtain c where "udp_mem s a = Some c" "a \<noteq> pcb" "up_local_port c' = up_local_port c" by blast
      then show "a \<in> set (remove1 pcb as) \<longleftrightarrow> up_local_port c' \<noteq> 0" using wf by (simp add: udp_wf_def)
    qed
    show "\<forall>a \<in> set (remove1 pcb as). \<forall>c \<in> set (remove1 pcb as). a \<noteq> c \<longrightarrow>
        up_local_port (upcb s' a) = up_local_port (upcb s' c) \<longrightarrow>
        \<not> udp_overlap (up_local_ip (upcb s' a)) (up_local_ip (upcb s' c))"
    proof (intro ballI impI)
      fix a c
      assume ac: "a \<in> set (remove1 pcb as)" "c \<in> set (remove1 pcb as)" "a \<noteq> c"
        "up_local_port (upcb s' a) = up_local_port (upcb s' c)"
      have same: "x \<in> set as \<and> up_local_port (upcb s' x) = up_local_port (upcb s x) \<and> up_local_ip (upcb s' x) = up_local_ip (upcb s x)"
        if x: "x \<in> set (remove1 pcb as)" for x
      proof -
        obtain y where "udp_mem s' x = Some y" using nodes_present [OF s'(2) x] by blast
        from kept [OF this] this show ?thesis using x d by (auto simp: upcb_def)
      qed
      show "\<not> udp_overlap (up_local_ip (upcb s' a)) (up_local_ip (upcb s' c))"
        using wf ac same [OF ac(1)] same [OF ac(2)] unfolding udp_wf_def by simp
    qed
  qed
  then show ?thesis using s' by blast
qed

text \<open>C26: \<^verbatim>\<open>udp_remove\<close> takes the PCB out of the list and frees it; the list keeps its order and its
  invariant, and of the other PCBs only the links change.\<close>

theorem udp_remove_correct:
  assumes wf: "udp_wf s as" and b: "udp_mem s pcb = Some b"
  shows "\<exists>s'. udp_remove pcb s = Some s' \<and> udp_wf s' (remove1 pcb as) \<and> udp_mem s' pcb = None \<and>
    (\<forall>a. a \<noteq> pcb \<longrightarrow> map_option (\<lambda>c. c\<lparr>up_next := 0\<rparr>) (udp_mem s' a) = map_option (\<lambda>c. c\<lparr>up_next := 0\<rparr>) (udp_mem s a))"
  by (rule udp_remove_ok [OF assms])

lemma udp_connect_wf:
  assumes wf: "udp_wf s as" and b: "udp_mem s pcb = Some b"
  shows "\<exists>err s' as'. udp_connect pcb ipaddr port s = Some (err, s') \<and> udp_wf s' as' \<and>
    (err = ERR_OK \<longrightarrow> pcb \<in> set as' \<and> up_remote_port (upcb s' pcb) = port \<and>
       up_flags (upcb s' pcb) AND UDP_FLAGS_CONNECTED \<noteq> 0 \<and>
       as' = (if pcb \<in> set as then as else pcb # as))"
proof -
  have pcb: "pcb \<noteq> 0" by (rule udp_wf_present [OF wf b])
  have flag: "(f OR UDP_FLAGS_CONNECTED) AND UDP_FLAGS_CONNECTED \<noteq> 0" for f
    by (simp add: UDP_FLAGS_CONNECTED_def word_bw_assocs word_ao_dist)
  obtain err s1 where s1: "(if up_local_port b = 0 then udp_bind pcb (Some (up_local_ip b)) (up_local_port b) s
      else Some (ERR_OK, s)) = Some (err, s1)"
    "err \<noteq> ERR_OK \<longrightarrow> udp_wf s1 as"
    "err = ERR_OK \<longrightarrow> udp_wf s1 (if pcb \<in> set as then as else pcb # as)"
  proof (cases "up_local_port b = 0")
    case True
    show thesis using udp_bind_ok [OF wf b, of "Some (up_local_ip b)" 0] that True
      by (auto split: if_splits)
  next
    case False
    then have "pcb \<in> set as" using wf b by (auto simp: udp_wf_def)
    then show thesis using that False wf by simp
  qed
  show ?thesis
  proof (cases "err = ERR_OK")
    case False
    then show ?thesis using s1 pcb b by (auto simp: udp_connect_def)
  next
    case True
    let ?as = "if pcb \<in> set as then as else pcb # as"
    have wf1: "udp_wf s1 ?as" and mem: "pcb \<in> set ?as" using s1(3) True by simp_all
    obtain b1 where b1: "udp_mem s1 pcb = Some b1"
      using nodes_present [OF udp_wf_nodes [OF wf1] mem] by blast
    define r where "r = (let r = ip_addr_set (up_remote_ip b1) ipaddr in
      if IP_IS_V6 r \<and> ip6_addr_lacks_zone (ip_2_ip6 r) IP6_UNKNOWN
      then r\<lparr>u_addr := ip6_addr_select_zone (ip_2_ip6 r) (ip_2_ip6 (up_local_ip b1)) s1\<rparr> else r)"
    let ?b = "b1\<lparr>up_remote_ip := r, up_remote_port := port, up_flags := up_flags b1 OR UDP_FLAGS_CONNECTED\<rparr>"
    have wf2: "udp_wf (put_udp pcb ?b s1) ?as" by (rule udp_wf_put [OF wf1 b1]) simp_all
    have "find_node (udp_mem (put_udp pcb ?b s1)) up_next (\<lambda>a b. pcb = a) (udp_pcbs (put_udp pcb ?b s1)) = Some pcb"
      unfolding udp_in_list [OF udp_wf_nodes [OF wf2]] using mem by simp
    then have "udp_connect pcb ipaddr port s = Some (ERR_OK, put_udp pcb ?b s1)"
      using s1(1) True pcb b b1 unfolding udp_connect_def r_def by (simp add: Let_def)
    then show ?thesis using wf2 mem flag by fastforce
  qed
qed

section \<open>Instances\<close>

definition demo_udp :: udp_state where
  "demo_udp = \<lparr>ip_heap = new_heap (\<lambda>a. True), netif_list = [], ip_id = 0, ip6_identification = 0,
     ip_data = \<lparr>current_netif = None, current_input_netif = None, current_ip4_header = VNull,
       current_ip6_header = VNull, current_ip_header_tot_len = 0, current_iphdr_src = ip_addr_any,
       current_iphdr_dest = ip_addr_any\<rparr>,
     udp_mem = (\<lambda>_. None), udp_pcbs = 0, udp_port = 0xc000, udp_nxt = 1, udp_malloc_ok = (\<lambda>_. True)\<rparr>"

lemma demo_udp_wf: "udp_wf demo_udp []"
  by (simp add: udp_wf_def demo_udp_def)

lemma demo_udp_new_wf: "udp_wf (snd (udp_new demo_udp)) []"
  by (rule udp_new_wf [OF demo_udp_wf])

lemma demo_udp_new: "\<exists>b. udp_mem (snd (udp_new demo_udp)) 1 = Some b \<and> up_local_port b = 0"
  by (simp add: udp_new_def demo_udp_def Let_def)

theorem udp_new_port_free_witness:
  "\<exists>port q. udp_new_port demo_udp = Some (port, demo_udp\<lparr>udp_port := q\<rparr>) \<and> 49152 \<le> unat port"
  using udp_new_port_free [OF udp_wf_nodes [OF demo_udp_wf]]
  by (auto simp: demo_udp_def port_taken_def split: if_splits)

theorem udp_bind_correct_witness:
  "\<exists>s'. udp_bind 1 None 53 (snd (udp_new demo_udp)) = Some (ERR_OK, s') \<and> udp_wf s' [1] \<and>
    up_local_port (upcb s' 1) = 53"
proof -
  obtain b where "udp_mem (snd (udp_new demo_udp)) 1 = Some b" using demo_udp_new by blast
  from udp_bind_correct [OF demo_udp_new_wf this, of None 53] show ?thesis by (auto split: if_splits)
qed

theorem udp_remove_correct_witness:
  "\<exists>s'. udp_remove 1 (snd (udp_new demo_udp)) = Some s' \<and> udp_wf s' [] \<and> udp_mem s' 1 = None"
proof -
  obtain b where "udp_mem (snd (udp_new demo_udp)) 1 = Some b" using demo_udp_new by blast
  from udp_remove_correct [OF demo_udp_new_wf this] show ?thesis by auto
qed

end
