(* ===== verification/Lwip_Udp_Props.thy ===== *)
theory Lwip_Udp_Props
  imports Lwip_Udp_Io Lwip_Udp_List
begin

text \<open>
  Properties of UDP datagrams: what the receive function of the first PCB is called with, and
  what \<^verbatim>\<open>udp_sendto\<close> hands to IP.
\<close>

section \<open>Checksums of chains and of datagrams\<close>

lemma pbuf_segments_packet:
  assumes "packet h p as"
  obtains segs where "pbuf_segments h p = Some segs" "chain_data segs = content h as" "u16_segments segs"
  using assms
proof (induction as arbitrary: p thesis)
  case Nil
  then have "p = 0" by (simp add: packet_def)
  then have "pbuf_segments h p = Some []" by (subst pbuf_segments.simps) simp
  then show ?case using Nil.prems(1) by (simp add: chain_data_def u16_segments_def)
next
  case (Cons a as)
  obtain b where b: "p = a" "a \<noteq> 0" "pbufs h a = Some b" "packet h (pb_next b) as" "readable h a"
    "length (pdata h a) = unat (pb_len b)" by (rule packet_Cons [OF Cons.prems(2)])
  obtain segs where segs: "pbuf_segments h (pb_next b) = Some segs" "chain_data segs = content h as"
    "u16_segments segs" using Cons.IH [OF _ b(4)] by blast
  have "mem_read h (pb_payload b) 0 (unat (pb_len b)) = Some (pdata h a)"
    using mem_read_pdata [OF b(5,3), of 0 "unat (pb_len b)"] b(6) by simp
  then have "pbuf_segments h p = Some ((vptr_address h (pb_payload b), pdata h a) # segs)"
    using b segs(1) by (subst pbuf_segments.simps) simp
  then show ?case
    using Cons.prems(1) segs b(6) by (simp add: chain_data_def u16_segments_def)
qed

text \<open>A stored checksum verifies, also when 0 is replaced by 0xffff.\<close>

definition nonzero_chksum :: "u16 \<Rightarrow> u16" where
  "nonzero_chksum c = (if c = 0 then 0xffff else c)"

lemma stored_chksum_verifies:
  assumes "even (length xs)" "unat c = 65535 - oc16 (le_sum (xs @ [0, 0] @ ys))"
  shows "oc16 (le_sum (xs @ store16 (nonzero_chksum c) @ ys)) = 65535"
proof -
  let ?S = "le_sum xs + le_sum ys"
  have S: "le_sum (xs @ [0, 0] @ ys) = ?S" using assms(1) by (simp add: le_sum_append_even)
  have "le_sum (xs @ store16 (nonzero_chksum c) @ ys) = ?S + unat (nonzero_chksum c)"
    using assms(1) by (simp add: le_sum_append_even le_sum_store16)
  moreover have "ceq (?S + unat (nonzero_chksum c)) 65535"
  proof (cases "c = 0")
    case True
    then have "unat c = 0" by simp
    then have "oc16 ?S = 65535" using assms(2) oc16_less [of ?S] unfolding S by linarith
    then have "ceq ?S 65535" by (metis ceq_oc16 ceq_sym)
    then have "ceq (?S + 65535) (65535 + 65535)" by (intro ceq_add ceq_refl)
    then show ?thesis using True by (simp add: nonzero_chksum_def ceq_def)
  next
    case False
    have "ceq (?S + unat c) (oc16 ?S + unat c)" by (intro ceq_add ceq_sym [OF ceq_oc16] ceq_refl)
    also have "oc16 ?S + unat c = 65535" using assms(2) oc16_less [of ?S] unfolding S by linarith
    finally show ?thesis using False by (simp add: nonzero_chksum_def)
  qed
  ultimately show ?thesis by (intro oc16_eqI [symmetric]) (simp_all add: ceq_sym)
qed

section \<open>The header of an outgoing datagram\<close>

text \<open>
  A pbuf that refers to memory elsewhere, as the ones the Go side sends, has no room in front
  of its data: the header goes into a new pbuf.
\<close>

lemma pbuf_add_header_no_room:
  assumes "pbufs h p = Some b" "p \<noteq> 0"
    and "pb_type_internal b AND PBUF_TYPE_FLAG_STRUCT_DATA_CONTIGUOUS = 0"
  shows "pbuf_add_header h p UDP_HLEN = Some (1, h)"
  using assms by (simp add: pbuf_add_header_def pbuf_add_header_impl_def UDP_HLEN_def Let_def)

lemma pbuf_chain_run:
  assumes "pbuf_cat h p t = Some h'" "pbufs h' t = Some tb" "t \<noteq> 0" "pb_ref tb < 255"
  shows "pbuf_chain h p t = Some (put_pbuf h' t (tb\<lparr>pb_ref := pb_ref tb + 1\<rparr>))"
proof -
  have "unat (pb_ref tb) + unat (1 :: u8) < 256" using assms(4) by (simp add: word_less_nat_alt)
  then have "pb_ref tb + 1 > 0" by (simp add: word_less_nat_alt unat_word_ariths)
  then show ?thesis using assms by (simp add: pbuf_chain_def pbuf_ref_def)
qed

lemma udp_header_pbuf:
  assumes pkt: "packet h p as" and p: "p \<noteq> 0" and b: "pbufs h p = Some b"
    and room: "pb_type_internal b AND PBUF_TYPE_FLAG_STRUCT_DATA_CONTIGUOUS = 0"
    and data: "content h as \<noteq> []" and len: "length (content h as) + 8 < 65536"
    and ref: "pb_ref b < 255" and fresh: "fresh h" "malloc_ok h (nxt_addr h)"
    and old: "\<forall>x \<in> set as. pblock h x < nxt_addr h"
  shows "\<exists>h' qb. udp_add_header p h = Some (Inr (nxt_addr h), h') \<and> pbufs h' (nxt_addr h) = Some qb \<and>
    pb_len qb = 8 \<and> unat (pb_tot_len qb) = 8 + length (content h as) \<and> pb_ref qb = 1 \<and>
    packet h' (nxt_addr h) (nxt_addr h # as) \<and> content h' as = content h as \<and>
    (\<forall>x \<in> set as. pblock h' x \<noteq> nxt_addr h) \<and> pblock h' (nxt_addr h) = nxt_addr h"
proof -
  let ?q = "nxt_addr h"
  have q: "?q \<noteq> 0" using fresh(1) by (simp add: fresh_def)
  have small: "unat (layer_offset PBUF_IP + 8) = 62" "\<not> layer_offset PBUF_IP + 8 < 8"
    by (simp_all add: layer_offset_def)
  obtain h1 where al: "pbuf_alloc h PBUF_IP 8 PBUF_RAM = Some (?q, h1)"
    using fresh(2) q small by (simp add: pbuf_alloc_def mem_malloc_def Let_def SIZEOF_STRUCT_PBUF_def)
  have a: "allocated h h1 ?q [?q] 8" using alloc_ram [OF fresh(1) al q] by simp
  have qn: "?q \<notin> set as"
  proof
    assume "?q \<in> set as"
    then obtain c where "pbufs h ?q = Some c" using pkt chain_present unfolding packet_def by blast
    then show False using fresh(1) by (simp add: fresh_def)
  qed
  have same: "pbufs h1 x = pbufs h x" "blocks h1 x = blocks h x" if "x \<noteq> ?q" for x
    using a that by (simp_all add: allocated_def unchanged_def)
  have ag: "agree h h1 x" if x: "x \<in> set as" for x
  proof -
    have "x \<noteq> ?q" "pblock h x \<noteq> ?q" using x qn old by (metis, metis less_irrefl)
    then show ?thesis using same by (simp add: agree_def)
  qed
  have pkt1: "packet h1 p as" "content h1 as = content h as" using agree_packet [OF ag pkt] by simp_all
  have qpkt: "packet h1 ?q [?q]" "length (content h1 [?q]) = 8" using a by (simp_all add: allocated_def)
  have pq: "p \<noteq> ?q" using packet_nonzero [OF pkt p] qn by (metis list.set_intros(1))
  then have b1: "pbufs h1 p = Some b" using same b by simp
  obtain tb where tb: "pbufs h1 p = Some tb" "pbuf_cat h1 ?q p = Some (cat_heap h1 [?q] p (pb_tot_len tb))"
    "packet (cat_heap h1 [?q] p (pb_tot_len tb)) ?q ([?q] @ as)"
    "content (cat_heap h1 [?q] p (pb_tot_len tb)) ([?q] @ as) = content h1 [?q] @ content h1 as"
    using pbuf_cat_packet [OF qpkt(1) pkt1(1) q p] qn qpkt(2) pkt1(2) len by auto
  let ?h2 = "cat_heap h1 [?q] p (pb_tot_len tb)"
  let ?h3 = "put_pbuf ?h2 p (b\<lparr>pb_ref := pb_ref b + 1\<rparr>)"
  have b2: "pbufs ?h2 p = Some b" using pq b1 by (simp add: cat_heap_def)
  have ch: "pbuf_chain h1 ?q p = Some ?h3" by (rule pbuf_chain_run [OF tb(2) b2 p ref])
  have ag3: "agree ?h2 ?h3 x" for x using b2 by (cases "x = p") (simp_all add: agree_def)
  have pkt3: "packet ?h3 ?q (?q # as)" "content ?h3 (?q # as) = content h1 [?q] @ content h as"
    using agree_packet [OF ag3 tb(3)] tb(4) pkt1(2) by simp_all
  obtain qb where qb: "pbufs ?h3 ?q = Some qb" "packet ?h3 (pb_next qb) as"
    "length (pdata ?h3 ?q) = unat (pb_len qb)" "unat (pb_tot_len qb) = unat (pb_len qb) + length (content ?h3 as)"
    by (rule packet_Cons [OF pkt3(1)])
  obtain qb1 where qb1: "pbufs h1 ?q = Some qb1" "length (pdata h1 ?q) = unat (pb_len qb1)"
    by (rule packet_Cons [OF qpkt(1)])
  have qb_eq: "qb = qb1\<lparr>pb_tot_len := pb_tot_len qb1 + pb_tot_len tb, pb_next := p\<rparr>"
    using qb(1) qb1(1) pq by (simp add: cat_heap_def)
  have l8: "unat (pb_len qb) = 8" using qb1(2) qpkt(2) qb_eq by simp
  have asc: "content ?h3 as = content h as"
  proof -
    have "length (pdata ?h3 ?q) = length (content h1 [?q])" using l8 qb(3) qpkt(2) by simp
    then show ?thesis using pkt3(2) by simp
  qed
  have "pb_ref qb1 = 1" "pblock h1 ?q = ?q"
    using a qb1(1) by (simp_all add: allocated_def new_pbuf_def ref_is_def)
  then have qr: "pb_ref qb = 1" "pblock ?h3 ?q = ?q"
    using qb_eq qb(1) qb1(1) by (simp_all add: pblock_def)
  have blk: "pblock ?h3 x \<noteq> ?q" if x: "x \<in> set as" for x
  proof -
    have "pblock ?h3 x = pblock h x"
      using x qn b b2 same(1) [of x] by (auto simp: pblock_def cat_heap_def)
    then show ?thesis using old x by auto
  qed
  have tl: "pb_tot_len b \<noteq> 0" "\<not> pb_tot_len b + 8 < pb_tot_len b"
  proof -
    have u: "unat (pb_tot_len b) = length (content h as)"
      using packet_nonzero [OF pkt p] b by (metis content_Cons length_append option.inject)
    then show "pb_tot_len b \<noteq> 0" using data by auto
    have "unat (pb_tot_len b + 8) = unat (pb_tot_len b) + 8"
      using unat_add_u16_small [of "pb_tot_len b" 8] u len by simp
    then show "\<not> pb_tot_len b + 8 < pb_tot_len b" by (simp add: word_less_nat_alt)
  qed
  have "udp_add_header p h = Some (Inr ?q, ?h3)"
    unfolding udp_add_header_def
    using b tl pbuf_add_header_no_room [OF b p room] al q b1 ch by (simp add: UDP_HLEN_def)
  then show ?thesis
    using qb(1,4) l8 pkt3(1) asc qr blk by (auto simp: word_unat_eq_iff)
qed

section \<open>Sending\<close>

lemma store16_htons: "store16 (lwip_htons n) = be16 n"
proof -
  have n: "unat n div 256 < 256" "unat n mod 256 < 256" by simp_all
  have v: "unat (lwip_htons n) = 256 * (unat n mod 256) + unat n div 256" by (simp add: unat_lwip_htons)
  have "unat (ucast (lwip_htons n) :: u8) = unat n div 256"
    unfolding unat_ucast_16_8 v using n by simp
  moreover have "unat (ucast (drop_bit 8 (lwip_htons n)) :: u8) = unat n mod 256"
    unfolding unat_ucast_16_8 unat_drop_bit v using n by simp
  ultimately show ?thesis
    by (simp add: store16_def be16_def word_unat_eq_iff unat_of_nat take_bit_eq_mod)
qed

lemma store16_0: "store16 0 = [0, 0]"
  by (simp add: store16_def)

lemma even_pseudo_header: "even (length (pseudo_header src dest proto n))"
  by (simp add: pseudo_header_def be16_def)

lemma length_be16 [simp]: "length (be16 n) = 2"
  by (simp add: be16_def)

text \<open>Writing into a first pbuf that shares its block with no other pbuf of the packet.\<close>

lemma write_first_pbuf:
  assumes "packet h q (q # as)" "pbufs h q = Some qb" "\<forall>x \<in> set as. pblock h x \<noteq> pblock h q"
    and "off + length src \<le> unat (pb_len qb)"
  obtains h' where "mem_write h (pb_payload qb) off src = Some h'" "same_shape h h'"
    "packet h' q (q # as)" "pdata h' q = patch off src (pdata h q)" "content h' as = content h as"
    "\<forall>x \<in> set as. pblock h' x \<noteq> pblock h' q" "pbufs h' q = Some qb"
proof -
  have rd: "readable h q" using assms(1) by (rule packet_Cons)
  obtain h' where h': "mem_write h (pb_payload qb) off src = Some h'" "same_shape h h'"
    "pdata h' q = patch off src (pdata h q)" "\<And>c. pblock h c \<noteq> pblock h q \<Longrightarrow> pdata h' c = pdata h c"
    using mem_write_pdata [OF rd assms(2,4)] by blast
  show thesis
    by (rule that [OF h'(1,2) same_shape_packet [OF h'(2) assms(1)] h'(3)])
      (use assms(2,3) h'(4) in \<open>auto simp: same_shape_pblock [OF h'(2)] same_shape_pbufs [OF h'(2)] intro: content_other\<close>)
qed

lemma udp_sendto_packet:
  assumes pcb: "pcb \<noteq> 0" "udp_mem s pcb = Some ub" "up_local_port ub \<noteq> 0"
    and match: "IP_ADDR_PCB_VERSION_MATCH ub src_ip" "IP_ADDR_PCB_VERSION_MATCH ub dst_ip"
    and route: "up_netif_idx ub = NETIF_NO_INDEX" "netif_list s = netif # netifs"
    and chk: "up_flags ub AND UDP_FLAGS_NOCHKSUM = 0"
    and pkt: "packet (ip_heap s) p as" "p \<noteq> 0" "pbufs (ip_heap s) p = Some b"
    and room: "pb_type_internal b AND PBUF_TYPE_FLAG_STRUCT_DATA_CONTIGUOUS = 0"
    and data: "content (ip_heap s) as \<noteq> []" and len: "length (content (ip_heap s) as) + 8 < 65536"
    and ref: "pb_ref b < 255" and fresh: "fresh (ip_heap s)" "malloc_ok (ip_heap s) (nxt_addr (ip_heap s))"
    and old: "\<forall>x \<in> set as. pblock (ip_heap s) x < nxt_addr (ip_heap s)"
  defines "q \<equiv> nxt_addr (ip_heap s)"
  defines "n \<equiv> of_nat (8 + length (content (ip_heap s) as)) :: u16"
  shows "\<exists>h' c. udp_sendto env pcb p dst_ip dst_port src_ip src_port s =
      do {
        (err, s') \<leftarrow> ip_output_if_src env q src_ip dst_ip (up_ttl ub) (up_tos ub) IP_PROTO_UDP netif (s\<lparr>ip_heap := h'\<rparr>);
        s' \<leftarrow> udp_free_pbuf q s';
        Some (err, s')
      } \<and> packet h' q (q # as) \<and> c \<noteq> 0 \<and> map_option pb_len (pbufs h' q) = Some 8 \<and>
    content h' (q # as) = be16 src_port @ be16 dst_port @ be16 n @ store16 c @ content (ip_heap s) as \<and>
    oc16 (le_sum (pseudo_header (addr_words dst_ip src_ip) (addr_words dst_ip dst_ip) IP_PROTO_UDP n
      @ content h' (q # as))) = 65535"
proof -
  let ?h = "ip_heap s"
  obtain h1 qb where h1: "udp_add_header p ?h = Some (Inr q, h1)" "pbufs h1 q = Some qb" "pb_len qb = 8"
    "unat (pb_tot_len qb) = 8 + length (content ?h as)" "packet h1 q (q # as)" "content h1 as = content ?h as"
    "\<forall>x \<in> set as. pblock h1 x \<noteq> pblock h1 q"
    using udp_header_pbuf [OF pkt room data len ref fresh old] unfolding q_def by auto
  have n: "pb_tot_len qb = n"
    using h1(4) len unfolding n_def by (metis unat_of_nat_u16 word_unat_eq_iff add.commute)
  have d8: "length (pdata h1 q) = 8"
  proof -
    obtain b' where "pbufs h1 q = Some b'" "length (pdata h1 q) = unat (pb_len b')"
      by (rule packet_Cons [OF h1(5)])
    then show ?thesis using h1(2,3) by simp
  qed
  let ?hdr = "be16 src_port @ be16 dst_port @ be16 n"
  obtain h2 where h2: "mem_write h1 (pb_payload qb) 0 (?hdr @ [0, 0]) = Some h2" "packet h2 q (q # as)"
    "pdata h2 q = patch 0 (?hdr @ [0, 0]) (pdata h1 q)" "content h2 as = content h1 as"
    "\<forall>x \<in> set as. pblock h2 x \<noteq> pblock h2 q" "pbufs h2 q = Some qb"
    using write_first_pbuf [OF h1(5,2,7), of 0 "?hdr @ [0, 0]"] h1(3) by auto
  have p2: "pdata h2 q = ?hdr @ [0, 0]" using h2(3) d8 by (simp add: patch_def)
  obtain segs where segs: "pbuf_segments h2 q = Some segs" "chain_data segs = content h2 (q # as)" "u16_segments segs"
    by (rule pbuf_segments_packet [OF h2(2)])
  define c where "c = ip_chksum_pseudo LWIP_CHKSUM segs IP_PROTO_UDP n src_ip dst_ip"
  let ?ph = "pseudo_header (addr_words dst_ip src_ip) (addr_words dst_ip dst_ip) IP_PROTO_UDP n"
  have c: "unat c = 65535 - oc16 (le_sum ((?ph @ ?hdr) @ [0, 0] @ content ?h as))"
    using v2.ip_chksum_pseudo [OF segs(3), of IP_PROTO_UDP n src_ip dst_ip] segs(2) p2 h2(4) h1(6)
    by (simp add: c_def LWIP_CHKSUM_def)
  obtain h3 where h3: "mem_write h2 (pb_payload qb) 6 (store16 (nonzero_chksum c)) = Some h3" "packet h3 q (q # as)"
    "pdata h3 q = patch 6 (store16 (nonzero_chksum c)) (pdata h2 q)" "content h3 as = content h2 as" "pbufs h3 q = Some qb"
    using write_first_pbuf [OF h2(2,6,5), of 6 "store16 (nonzero_chksum c)"] h1(3) by auto
  have p3: "pdata h3 q = ?hdr @ store16 (nonzero_chksum c)"
    using h3(3) p2 by (simp add: patch_def be16_def)
  have ct: "content h3 (q # as) = ?hdr @ store16 (nonzero_chksum c) @ content ?h as"
    using p3 h3(4) h2(4) h1(6) by simp
  have ok: "oc16 (le_sum (?ph @ content h3 (q # as))) = 65535"
    using stored_chksum_verifies [OF _ c] even_pseudo_header unfolding ct by simp
  have nz: "nonzero_chksum c \<noteq> 0" by (simp add: nonzero_chksum_def)
  have ck: "udp_hdr_chksum h2 q (pb_tot_len qb) ub False 0 src_ip dst_ip = Some (nonzero_chksum c)"
    using segs(1) chk by (simp add: udp_hdr_chksum_def n c_def nonzero_chksum_def)
  have h2w: "mem_write h1 (pb_payload qb) 0 (be16 src_port @ be16 dst_port @ be16 (pb_tot_len qb) @ [0, 0]) = Some h2"
    using h2(1) unfolding n by simp
  have qp: "q \<noteq> p"
    using fresh(1) pkt(3) unfolding q_def fresh_def by (metis option.distinct(1) order_refl)
  have "ip_route (up_local_ip ub) dst_ip s = Some netif"
    using route(2) by (simp add: ip_route_def ip4_route_def ip6_route_def)
  then have "udp_sendto env pcb p dst_ip dst_port src_ip src_port s =
     udp_sendto_if_src_chksum env pcb p dst_ip dst_port netif False 0 src_ip src_port s"
    using pcb pkt(2) match route(1)
    by (simp add: udp_sendto_def udp_sendto_chksum_def udp_sendto_if_chksum_def)
  also have "\<dots> = do {
        (err, s') \<leftarrow> ip_output_if_src env q src_ip dst_ip (up_ttl ub) (up_tos ub) IP_PROTO_UDP netif (s\<lparr>ip_heap := h3\<rparr>);
        s' \<leftarrow> udp_free_pbuf q s';
        Some (err, s')
      }"
    unfolding udp_sendto_if_src_chksum_def
    by (simp add: UDP_HLEN_def store16_htons store16_0 pcb pkt(2) match h1(1-3) h2w ck h3(1) qp)
  finally show ?thesis
    by (intro exI [of _ h3] exI [of _ "nonzero_chksum c"] conjI) (use h3(2,5) h1(3) nz ct ok in simp_all)
qed

text \<open>C20: \<^verbatim>\<open>udp_sendto\<close> with data that carry no header space, as the ones of the Go side, hands to IP a
  packet that consists of the source and destination port, the length, a nonzero checksum and the
  data, with the pseudo header checksum correct; afterwards it frees the header pbuf. Source
  address and port are the arguments, whatever the PCB is bound to.\<close>

theorem udp_sendto_datagram:
  assumes pcb: "pcb \<noteq> 0" "udp_mem s pcb = Some ub" "up_local_port ub \<noteq> 0"
    and match: "IP_ADDR_PCB_VERSION_MATCH ub src_ip" "IP_ADDR_PCB_VERSION_MATCH ub dst_ip"
    and route: "up_netif_idx ub = NETIF_NO_INDEX" "netif_list s = netif # netifs"
    and chk: "up_flags ub AND UDP_FLAGS_NOCHKSUM = 0"
    and pkt: "packet (ip_heap s) p as" "p \<noteq> 0" "pbufs (ip_heap s) p = Some b"
    and room: "pb_type_internal b AND PBUF_TYPE_FLAG_STRUCT_DATA_CONTIGUOUS = 0"
    and data: "content (ip_heap s) as \<noteq> []" and len: "length (content (ip_heap s) as) + 8 < 65536"
    and ref: "pb_ref b < 255" and fresh: "fresh (ip_heap s)" "malloc_ok (ip_heap s) (nxt_addr (ip_heap s))"
    and old: "\<forall>x \<in> set as. pblock (ip_heap s) x < nxt_addr (ip_heap s)"
  defines "q \<equiv> nxt_addr (ip_heap s)"
  defines "n \<equiv> of_nat (8 + length (content (ip_heap s) as)) :: u16"
  shows "\<exists>h' c. udp_sendto env pcb p dst_ip dst_port src_ip src_port s =
      do {
        (err, s') \<leftarrow> ip_output_if_src env q src_ip dst_ip (up_ttl ub) (up_tos ub) IP_PROTO_UDP netif (s\<lparr>ip_heap := h'\<rparr>);
        s' \<leftarrow> udp_free_pbuf q s';
        Some (err, s')
      } \<and> packet h' q (q # as) \<and> c \<noteq> 0 \<and> map_option pb_len (pbufs h' q) = Some 8 \<and>
    content h' (q # as) = be16 src_port @ be16 dst_port @ be16 n @ store16 c @ content (ip_heap s) as \<and>
    oc16 (le_sum (pseudo_header (addr_words dst_ip src_ip) (addr_words dst_ip dst_ip) IP_PROTO_UDP n
      @ content h' (q # as))) = 65535"
  unfolding q_def n_def by (rule udp_sendto_packet [OF assms(1-18)])

section \<open>Receiving\<close>

lemma htons_htons: "lwip_htons (lwip_htons n) = n"
proof -
  have "unat n < 65536" by simp
  then show ?thesis by (simp add: word_unat_eq_iff unat_lwip_htons)
qed

lemma store16_ldf16: "store16 (ldf16 hdr i) = [hdr ! i, hdr ! (i + 1)]"
  by (simp add: store16_def ldf16_def) (intro conjI bit_word_eqI; auto simp: bit_simps dest: bit_imp_le_length)

lemma be16_ldf16: "be16 (lwip_htons (ldf16 hdr i)) = [hdr ! i, hdr ! (i + 1)]"
  using store16_htons [of "lwip_htons (ldf16 hdr i)"] store16_ldf16 [of hdr i] by (simp add: htons_htons)

lemma be16_inject [simp]: "be16 a = be16 b \<longleftrightarrow> a = b"
proof
  assume "be16 a = be16 b"
  then have "le_sum (be16 a) = le_sum (be16 b)" by simp
  then have "lwip_htons a = lwip_htons b" unfolding le_sum_be16 by (simp add: word_unat_eq_iff)
  then have "lwip_htons (lwip_htons a) = lwip_htons (lwip_htons b)" by simp
  then show "a = b" by (simp only: htons_htons)
qed simp

lemma udp_input_packet:
  assumes "udp_pcbs s = pcb" "pcb \<noteq> 0" "udp_mem s pcb = Some ub"
    and "packet (ip_heap s) p as" "p \<noteq> 0" "pbufs (ip_heap s) p = Some b" "8 \<le> unat (pb_len b)"
    and "IP_IS_V6 (current_iphdr_dest (ip_data s)) \<or> current_netif (ip_data s) \<noteq> None"
  shows "\<exists>h' src dest rest. packet h' p as \<and> content (ip_heap s) as = be16 src @ be16 dest @ rest \<and>
    content h' as = drop 8 (content (ip_heap s) as) \<and>
    udp_input env ip6_match p inp s = (case up_recv ub of
        Some f \<Rightarrow> env_udp_recv env f (up_recv_arg ub) pcb p (current_iphdr_src (ip_data s)) src
          (current_iphdr_dest (ip_data s)) dest (s\<lparr>ip_heap := h'\<rparr>)
      | None \<Rightarrow> udp_free_pbuf p (s\<lparr>ip_heap := h'\<rparr>))"
proof -
  let ?h = "ip_heap s"
  obtain h' where h': "pbuf_remove_header ?h p UDP_HLEN = Some (0, h')" "packet h' p as"
    "content h' as = drop 8 (content ?h as)"
    using pbuf_remove_header_packet [OF assms(4-6), of 8] assms(7) by (auto simp: UDP_HLEN_def)
  obtain b0 bs where b0: "as = p # bs" "pbufs ?h p = Some b0" "readable ?h p" "length (pdata ?h p) = unat (pb_len b0)"
    by (rule packet_nonzero [OF assms(4,5)])
  then have [simp]: "b0 = b" using assms(6) by simp
  let ?hdr = "take 8 (pdata ?h p)"
  have rd: "mem_read ?h (pb_payload b) 0 UDP_HLEN = Some ?hdr"
    using mem_read_pdata [OF b0(3) assms(6), of 0 8] assms(7) by (simp add: UDP_HLEN_def)
  let ?src = "lwip_htons (ldf16 ?hdr 0)" and ?dest = "lwip_htons (ldf16 ?hdr 2)"
  have "pdata ?h p = ?hdr @ drop 8 (pdata ?h p)" by simp
  moreover have "?hdr = be16 ?src @ be16 ?dest @ drop 4 ?hdr"
    unfolding be16_ldf16 by (rule nth_equalityI)
      (use b0(4) assms(7) in \<open>auto simp: nth_Cons nth_append less_Suc_eq numeral_eq_Suc split: nat.split\<close>)
  ultimately have ct: "content ?h as = be16 ?src @ be16 ?dest @ drop 4 ?hdr @ drop 8 (pdata ?h p) @ content ?h bs"
    using b0(1) by (metis append_assoc content_Cons)
  obtain broadcast where br: "(if IP_IS_V6 (current_iphdr_dest (ip_data s)) then Some False
      else do { n \<leftarrow> current_netif (ip_data s); Some (ip_addr_isbroadcast (current_iphdr_dest (ip_data s)) n) }) = Some broadcast"
    using assms(8) by (cases "IP_IS_V6 (current_iphdr_dest (ip_data s))"; cases "current_netif (ip_data s)") auto
  have search: "udp_input_search TUN2SOCKS inp broadcast ?src ?dest pcb 0 0 s = Some (pcb, 0, s)"
    using assms(2) by (subst udp_input_search.simps) (simp add: TUN2SOCKS_def)
  have "udp_input env ip6_match p inp s = udp_deliver env ip6_match p pcb inp broadcast ?src ?dest s"
    using assms(1,2,5-7) rd br search by (simp add: udp_input_def UDP_HLEN_def)
  also have "\<dots> = (case up_recv ub of
        Some f \<Rightarrow> env_udp_recv env f (up_recv_arg ub) pcb p (current_iphdr_src (ip_data s)) ?src
          (current_iphdr_dest (ip_data s)) ?dest (s\<lparr>ip_heap := h'\<rparr>)
      | None \<Rightarrow> udp_free_pbuf p (s\<lparr>ip_heap := h'\<rparr>))"
    using assms(2,3) h'(1) by (simp add: udp_deliver_def Let_def)
  finally show ?thesis using h'(2,3) ct by blast
qed

text \<open>C22: With a PCB in the list, \<^verbatim>\<open>udp_input\<close> strips the header of every datagram whose first pbuf
  holds at least the eight bytes of the header, and calls the receive function of the first PCB, whatever that PCB is bound or connected to,
  with the source and the original destination of the packet; without a receive function the
  packet is freed. A packet whose first pbuf is shorter than the header is freed, whatever its total
  length.\<close>

theorem udp_input_first_pcb:
  assumes "udp_pcbs s = pcb" "pcb \<noteq> 0" "udp_mem s pcb = Some ub"
    and "packet (ip_heap s) p as" "p \<noteq> 0" "pbufs (ip_heap s) p = Some b"
    and "IP_IS_V6 (current_iphdr_dest (ip_data s)) \<or> current_netif (ip_data s) \<noteq> None"
  shows "if 8 \<le> unat (pb_len b) then
      \<exists>h' src dest rest. packet h' p as \<and> content (ip_heap s) as = be16 src @ be16 dest @ rest \<and>
        content h' as = drop 8 (content (ip_heap s) as) \<and>
        udp_input env ip6_match p inp s = (case up_recv ub of
            Some f \<Rightarrow> env_udp_recv env f (up_recv_arg ub) pcb p (current_iphdr_src (ip_data s)) src
              (current_iphdr_dest (ip_data s)) dest (s\<lparr>ip_heap := h'\<rparr>)
          | None \<Rightarrow> udp_free_pbuf p (s\<lparr>ip_heap := h'\<rparr>))
    else udp_input env ip6_match p inp s = udp_free_pbuf p s"
proof (cases "8 \<le> unat (pb_len b)")
  case True
  from udp_input_packet [OF assms(1-6) True assms(7)] show ?thesis unfolding if_P [OF True] .
next
  case False
  then show ?thesis using assms(5,6) by (simp add: udp_input_def UDP_HLEN_def)
qed

text \<open>C21: A datagram comes back: the packet that \<^verbatim>\<open>udp_sendto\<close> hands to IP, given to \<^verbatim>\<open>udp_input\<close> of a
  stack whose first PCB has a receive function, calls that function with the same ports and the
  same data.\<close>

theorem udp_sendto_input_roundtrip:
  assumes pcb: "pcb \<noteq> 0" "udp_mem s pcb = Some ub" "up_local_port ub \<noteq> 0"
    and match: "IP_ADDR_PCB_VERSION_MATCH ub src_ip" "IP_ADDR_PCB_VERSION_MATCH ub dst_ip"
    and route: "up_netif_idx ub = NETIF_NO_INDEX" "netif_list s = netif # netifs"
    and chk: "up_flags ub AND UDP_FLAGS_NOCHKSUM = 0"
    and pkt: "packet (ip_heap s) p as" "p \<noteq> 0" "pbufs (ip_heap s) p = Some b"
    and room: "pb_type_internal b AND PBUF_TYPE_FLAG_STRUCT_DATA_CONTIGUOUS = 0"
    and data: "content (ip_heap s) as \<noteq> []" and len: "length (content (ip_heap s) as) + 8 < 65536"
    and ref: "pb_ref b < 255" and fresh: "fresh (ip_heap s)" "malloc_ok (ip_heap s) (nxt_addr (ip_heap s))"
    and old: "\<forall>x \<in> set as. pblock (ip_heap s) x < nxt_addr (ip_heap s)"
    and receiver: "udp_pcbs r = rpcb" "rpcb \<noteq> 0" "udp_mem r rpcb = Some rb" "up_recv rb = Some f"
      "IP_IS_V6 (current_iphdr_dest (ip_data r)) \<or> current_netif (ip_data r) \<noteq> None"
  defines "q \<equiv> nxt_addr (ip_heap s)"
  shows "\<exists>h' h''. udp_sendto env pcb p dst_ip dst_port src_ip src_port s =
      do {
        (err, s') \<leftarrow> ip_output_if_src env q src_ip dst_ip (up_ttl ub) (up_tos ub) IP_PROTO_UDP netif (s\<lparr>ip_heap := h'\<rparr>);
        s' \<leftarrow> udp_free_pbuf q s';
        Some (err, s')
      } \<and>
    udp_input renv ip6_match q inp (r\<lparr>ip_heap := h'\<rparr>) =
      env_udp_recv renv f (up_recv_arg rb) rpcb q (current_iphdr_src (ip_data r)) src_port
        (current_iphdr_dest (ip_data r)) dst_port (r\<lparr>ip_heap := h''\<rparr>) \<and>
    packet h'' q (q # as) \<and> content h'' (q # as) = content (ip_heap s) as"
proof -
  let ?data = "content (ip_heap s) as"
  obtain h' c where h': "udp_sendto env pcb p dst_ip dst_port src_ip src_port s =
      do {
        (err, s') \<leftarrow> ip_output_if_src env q src_ip dst_ip (up_ttl ub) (up_tos ub) IP_PROTO_UDP netif (s\<lparr>ip_heap := h'\<rparr>);
        s' \<leftarrow> udp_free_pbuf q s';
        Some (err, s')
      }" "packet h' q (q # as)" "map_option pb_len (pbufs h' q) = Some 8"
    "content h' (q # as) = be16 src_port @ be16 dst_port @ be16 (of_nat (8 + length ?data)) @ store16 c @ ?data"
    using udp_sendto_packet [OF assms(1-18), of env dst_port src_port] unfolding q_def by metis
  obtain qb where qb: "pbufs h' q = Some qb" "8 \<le> unat (pb_len qb)" using h'(3) by auto
  have q: "q \<noteq> 0" using fresh(1) by (simp add: q_def fresh_def)
  let ?r = "r\<lparr>ip_heap := h'\<rparr>"
  have "\<exists>h'' src dest rest. packet h'' q (q # as) \<and> content (ip_heap ?r) (q # as) = be16 src @ be16 dest @ rest \<and>
    content h'' (q # as) = drop 8 (content (ip_heap ?r) (q # as)) \<and>
    udp_input renv ip6_match q inp ?r = (case up_recv rb of
        Some f \<Rightarrow> env_udp_recv renv f (up_recv_arg rb) rpcb q (current_iphdr_src (ip_data ?r)) src
          (current_iphdr_dest (ip_data ?r)) dest (?r\<lparr>ip_heap := h''\<rparr>)
      | None \<Rightarrow> udp_free_pbuf q (?r\<lparr>ip_heap := h''\<rparr>))"
    by (rule udp_input_packet [where b = qb]) (use receiver h'(2) qb q in simp_all)
  then have "\<exists>h'' src dest rest. packet h'' q (q # as) \<and> content h' (q # as) = be16 src @ be16 dest @ rest \<and>
    content h'' (q # as) = drop 8 (content h' (q # as)) \<and>
    udp_input renv ip6_match q inp ?r = env_udp_recv renv f (up_recv_arg rb) rpcb q (current_iphdr_src (ip_data r)) src
       (current_iphdr_dest (ip_data r)) dest (r\<lparr>ip_heap := h''\<rparr>)"
    using receiver(4) by (simp del: content_Cons)
  then obtain h'' src dest rest where h'': "packet h'' q (q # as)"
    "content h' (q # as) = be16 src @ be16 dest @ rest" "content h'' (q # as) = drop 8 (content h' (q # as))"
    and run: "udp_input renv ip6_match q inp ?r = env_udp_recv renv f (up_recv_arg rb) rpcb q (current_iphdr_src (ip_data r)) src
       (current_iphdr_dest (ip_data r)) dest (r\<lparr>ip_heap := h''\<rparr>)"
    by blast
  have "be16 src @ be16 dest @ rest = be16 src_port @ be16 dst_port @ be16 (of_nat (8 + length ?data)) @ store16 c @ ?data"
    using h''(2) h'(4) by (rule trans [OF sym])
  then have "be16 src = be16 src_port" "be16 dest = be16 dst_port" by (simp_all add: append_eq_append_conv)
  then have ports: "src = src_port" "dest = dst_port" by simp_all
  have "content h'' (q # as) = ?data" unfolding h''(3) h'(4) by (simp del: content_Cons)
  then show ?thesis using h'(1) h''(1) run ports by (intro exI [of _ h'] exI [of _ h'']) simp
qed

section \<open>The PCB of the Go side\<close>

text \<open>C27: The stack creates its UDP PCB with \<^verbatim>\<open>udp_new\<close> and binds it to \<^verbatim>\<open>IP_ADDR_ANY\<close>, so the PCB is
  an IPv4 one: \<^verbatim>\<open>udp_sendto\<close> refuses every IPv6 destination with \<^verbatim>\<open>ERR_VAL\<close> and sends nothing,
  although \<^verbatim>\<open>udp_input\<close> hands IPv6 datagrams to that PCB.\<close>

theorem udp_default_pcb_rejects_ip6:
  assumes "udp_wf s as" "udp_new s = (pcb, s1)" "pcb \<noteq> 0"
    and "udp_bind pcb (Some ip_addr_any) 0 s1 = Some (ERR_OK, s2)"
    and "IP_IS_V6 dst_ip" "p \<noteq> 0"
  shows "udp_sendto env pcb p dst_ip dst_port src_ip src_port s2 = Some (ERR_VAL, s2)"
proof -
  have wf: "udp_wf s1 as" using udp_new_wf [OF assms(1)] assms(2) by simp
  obtain b where "udp_mem s1 pcb = Some b"
    using assms(2,3) by (auto simp: udp_new_def Let_def split: if_splits)
  from udp_bind_ok [OF wf this, of "Some ip_addr_any" 0] assms(4)
  have cmp: "ip_addr_cmp (up_local_ip (upcb s2 pcb)) (udp_bound_ip s1 (Some ip_addr_any))"
    and wf2: "udp_wf s2 (if pcb \<in> set as then as else pcb # as)" by auto
  have "udp_bound_ip s1 (Some ip_addr_any) = ip_addr_any"
    by (simp add: udp_bound_ip_def ip_addr_any_def IP_IS_V6_def)
  then have v4: "ip_type (up_local_ip (upcb s2 pcb)) = IPADDR_TYPE_V4"
    using cmp by (simp add: ip_addr_cmp_def ip_addr_any_def split: if_splits)
  have "pcb \<in> set (if pcb \<in> set as then as else pcb # as)" by simp
  then obtain b2 where b2: "udp_mem s2 pcb = Some b2"
    using nodes_present [OF udp_wf_nodes [OF wf2]] by blast
  then have "\<not> IP_ADDR_PCB_VERSION_MATCH b2 dst_ip"
    using v4 assms(5) by (simp add: IP_ADDR_PCB_VERSION_MATCH_def IP_IS_ANY_TYPE_VAL_def IP_IS_V6_def upcb_def)
  then show ?thesis
    using assms(3,6) b2 by (simp add: udp_sendto_def udp_sendto_chksum_def)
qed

section \<open>Instances\<close>

text \<open>A heap with three bytes of data behind a reference pbuf, as the Go side sends them, and with a
  received datagram of eleven bytes in one pbuf; one interface and one bound PCB. The functions of
  the environment consume nothing.\<close>

definition demo_dgram :: heap where
  "demo_dgram = \<lparr>pbufs = [1 \<mapsto> \<lparr>pb_next = 0, pb_payload = VPtr 2 0, pb_tot_len = 3, pb_len = 3,
        pb_type_internal = 0x41, pb_flags = 0, pb_ref = 1, pb_if_idx = 0, pb_custom = None\<rparr>,
      3 \<mapsto> \<lparr>pb_next = 0, pb_payload = VPtr 3 24, pb_tot_len = 11, pb_len = 11,
        pb_type_internal = 0x80, pb_flags = 0, pb_ref = 1, pb_if_idx = 0, pb_custom = None\<rparr>],
     blocks = [1 \<mapsto> replicate 24 0, 2 \<mapsto> [10, 20, 30],
       3 \<mapsto> replicate 24 0 @ [0, 53, 4, 0, 0, 11, 0, 0, 10, 20, 30]],
     nxt_addr = 4, malloc_ok = (\<lambda>a. True), junk = (\<lambda>a i. 0), base_addr = (\<lambda>a. 0), ooseq_pending = False\<rparr>"

definition demo_pcb :: udp_pcb where
  "demo_pcb = \<lparr>up_local_ip = ip_addr_any, up_remote_ip = ip_addr_any, up_netif_idx = 0, up_so_options = 0,
     up_tos = 0, up_ttl = 64, up_next = 0, up_flags = 0, up_local_port = 53, up_remote_port = 0,
     up_recv = Some 7, up_recv_arg = 9\<rparr>"

definition demo_netif :: netif where
  "demo_netif = \<lparr>netif_ip_addr = ip_addr_any, netif_netmask = ip_addr_any, netif_ip6_addr = [], netif_mtu = 1500,
     netif_flags = 5, netif_num = 0, netif_ip6_addr_state = [], netif_mtu6 = 1500\<rparr>"

definition demo_host :: udp_state where
  "demo_host = demo_udp\<lparr>ip_heap := demo_dgram, netif_list := [demo_netif],
     ip_data := (ip_data demo_udp)\<lparr>current_netif := Some demo_netif\<rparr>,
     udp_mem := [1 \<mapsto> demo_pcb], udp_pcbs := 1, udp_nxt := 2\<rparr>"

definition demo_env :: "'s ip_env" where
  "demo_env = \<lparr>env_output = \<lambda>_ _ _ s. Some (ERR_OK, s), env_loop_output = \<lambda>_ _ s. Some (ERR_OK, s),
     env_output6 = \<lambda>_ _ _ _ _ _ _ s. Some (ERR_OK, s), env_dest_unreach = \<lambda>_ _. Some,
     env_dest_unreach6 = \<lambda>_ _. Some, env_time_exceeded = \<lambda>_ _. Some, env_raw_input = \<lambda>_ _ s. Some (0, s),
     env_tcp_input = \<lambda>_ _. Some, env_icmp_input = \<lambda>_ _. Some, env_udp_recv = \<lambda>_ _ _ _ _ _ _ _. Some\<rparr>"

lemma demo_host_simps [simp]: "ip_heap demo_host = demo_dgram" "netif_list demo_host = [demo_netif]"
  "udp_mem demo_host 1 = Some demo_pcb" "udp_pcbs demo_host = 1" "udp_mem demo_host = [1 \<mapsto> demo_pcb]"
  "current_netif (ip_data demo_host) = Some demo_netif"
  by (simp_all add: demo_host_def)

lemma demo_pcb_simps [simp]: "up_local_port demo_pcb = 53" "up_netif_idx demo_pcb = 0" "up_flags demo_pcb = 0"
  "up_local_ip demo_pcb = ip_addr_any" "up_recv demo_pcb = Some 7" "up_recv_arg demo_pcb = 9"
  "up_ttl demo_pcb = 64" "up_tos demo_pcb = 0"
  by (simp_all add: demo_pcb_def)

lemma demo_dgram_pbufs: "\<exists>b. pbufs demo_dgram 1 = Some b \<and> pb_type_internal b = 0x41 \<and> pb_ref b = 1"
    "\<exists>b. pbufs demo_dgram 3 = Some b \<and> pb_len b = 11"
  by (simp_all add: demo_dgram_def)

lemma demo_dgram_content: "content demo_dgram [1] = [10, 20, 30]"
  "content demo_dgram [3] = be16 53 @ be16 1024 @ [0, 11, 0, 0, 10, 20, 30]"
  by (simp_all add: demo_dgram_def pdata_def mem_read_def buf_read_def be16_def)

lemma demo_dgram_packet: "packet demo_dgram 1 [1]" "packet demo_dgram 3 [3]"
  by (simp_all add: packet_def demo_dgram_def pdata_def readable_def mem_read_def buf_read_def)

lemma demo_dgram_fresh: "fresh demo_dgram" "nxt_addr demo_dgram = 4" "malloc_ok demo_dgram a"
  "pblock demo_dgram 1 = 2"
  by (simp_all add: fresh_def demo_dgram_def pblock_def)


theorem udp_sendto_datagram_witness:
  "\<exists>h' c. udp_sendto demo_env 1 1 ip_addr_any 53 ip_addr_any 1024 demo_host =
      do {
        (err, s') \<leftarrow> ip_output_if_src demo_env 4 ip_addr_any ip_addr_any 64 0 IP_PROTO_UDP demo_netif
          (demo_host\<lparr>ip_heap := h'\<rparr>);
        s' \<leftarrow> udp_free_pbuf 4 s';
        Some (err, s')
      } \<and> packet h' 4 [4, 1] \<and> content h' [4, 1] = be16 1024 @ be16 53 @ be16 11 @ store16 c @ [10, 20, 30]"
proof -
  obtain b where b: "pbufs demo_dgram 1 = Some b" "pb_type_internal b = 0x41" "pb_ref b = 1"
    using demo_dgram_pbufs by blast
  have "\<exists>h' c. udp_sendto demo_env 1 1 ip_addr_any 53 ip_addr_any 1024 demo_host =
      do {
        (err, s') \<leftarrow> ip_output_if_src demo_env (nxt_addr (ip_heap demo_host)) ip_addr_any ip_addr_any (up_ttl demo_pcb)
          (up_tos demo_pcb) IP_PROTO_UDP demo_netif (demo_host\<lparr>ip_heap := h'\<rparr>);
        s' \<leftarrow> udp_free_pbuf (nxt_addr (ip_heap demo_host)) s';
        Some (err, s')
      } \<and> packet h' (nxt_addr (ip_heap demo_host)) (nxt_addr (ip_heap demo_host) # [1]) \<and> c \<noteq> 0 \<and>
    map_option pb_len (pbufs h' (nxt_addr (ip_heap demo_host))) = Some 8 \<and>
    content h' (nxt_addr (ip_heap demo_host) # [1]) = be16 1024 @ be16 53 @
      be16 (of_nat (8 + length (content (ip_heap demo_host) [1]))) @ store16 c @ content (ip_heap demo_host) [1] \<and>
    oc16 (le_sum (pseudo_header (addr_words ip_addr_any ip_addr_any) (addr_words ip_addr_any ip_addr_any)
      IP_PROTO_UDP (of_nat (8 + length (content (ip_heap demo_host) [1])))
      @ content h' (nxt_addr (ip_heap demo_host) # [1]))) = 65535"
    by (rule udp_sendto_datagram [where b = b and netifs = "[]"])
      (use b in \<open>simp_all add: demo_dgram_packet [simplified] demo_dgram_fresh [simplified] demo_dgram_content [simplified] NETIF_NO_INDEX_def
        IP_ADDR_PCB_VERSION_MATCH_def ip_addr_any_def IP_IS_ANY_TYPE_VAL_def PBUF_TYPE_FLAG_STRUCT_DATA_CONTIGUOUS_def\<close>)
  then show ?thesis
    unfolding demo_host_simps demo_dgram_fresh demo_dgram_content demo_pcb_simps by (simp del: content_Cons) blast
qed

theorem udp_input_first_pcb_witness:
  "\<exists>h'. content h' [3] = [10, 20, 30] \<and> udp_input demo_env (\<lambda>_ _. False) 3 demo_netif demo_host =
    env_udp_recv demo_env 7 9 1 3 ip_addr_any 53 ip_addr_any 1024 (demo_host\<lparr>ip_heap := h'\<rparr>)"
proof -
  obtain b where b: "pbufs demo_dgram 3 = Some b" "pb_len b = 11"
    using demo_dgram_pbufs by blast
  then have long: "8 \<le> unat (pb_len b)" by simp
  have "\<exists>h' src dest rest. packet h' 3 [3] \<and> content (ip_heap demo_host) [3] = be16 src @ be16 dest @ rest \<and>
    content h' [3] = drop 8 (content (ip_heap demo_host) [3]) \<and>
    udp_input demo_env (\<lambda>_ _. False) 3 demo_netif demo_host = (case up_recv demo_pcb of
        Some f \<Rightarrow> env_udp_recv demo_env f (up_recv_arg demo_pcb) 1 3 (current_iphdr_src (ip_data demo_host)) src
          (current_iphdr_dest (ip_data demo_host)) dest (demo_host\<lparr>ip_heap := h'\<rparr>)
      | None \<Rightarrow> udp_free_pbuf 3 (demo_host\<lparr>ip_heap := h'\<rparr>))"
    by (rule udp_input_first_pcb [where b = b, unfolded if_P [OF long]]) (use b in \<open>simp_all add: demo_dgram_packet\<close>)
  then obtain h' src dest rest where h': "be16 53 @ be16 1024 @ [0, 11, 0, 0, 10, 20, 30] = be16 src @ be16 dest @ rest"
    "content h' [3] = drop 8 (be16 53 @ be16 1024 @ [0, 11, 0, 0, 10, 20, 30])"
    "udp_input demo_env (\<lambda>_ _. False) 3 demo_netif demo_host =
        env_udp_recv demo_env 7 9 1 3 (current_iphdr_src (ip_data demo_host)) src
          (current_iphdr_dest (ip_data demo_host)) dest (demo_host\<lparr>ip_heap := h'\<rparr>)"
    unfolding demo_host_simps demo_dgram_content demo_pcb_simps by auto
  have "be16 53 = be16 src" "be16 1024 = be16 dest" using h'(1) by (simp_all add: append_eq_append_conv)
  then have "src = 53" "dest = 1024" by (metis be16_inject)+
  then show ?thesis using h'(2,3)
    by (intro exI [of _ h']) (simp add: be16_def demo_host_def demo_udp_def)
qed


theorem udp_sendto_input_roundtrip_witness:
  "\<exists>h' h''. udp_input demo_env (\<lambda>_ _. False) 4 demo_netif (demo_host\<lparr>ip_heap := h'\<rparr>) =
      env_udp_recv demo_env 7 9 1 4 ip_addr_any 1024 ip_addr_any 53 (demo_host\<lparr>ip_heap := h''\<rparr>) \<and>
    content h'' [4, 1] = [10, 20, 30]"
proof -
  obtain b where b: "pbufs demo_dgram 1 = Some b" "pb_type_internal b = 0x41" "pb_ref b = 1"
    using demo_dgram_pbufs by blast
  have "\<exists>h' h''. udp_sendto demo_env 1 1 ip_addr_any 53 ip_addr_any 1024 demo_host =
      do {
        (err, s') \<leftarrow> ip_output_if_src demo_env (nxt_addr (ip_heap demo_host)) ip_addr_any ip_addr_any (up_ttl demo_pcb)
          (up_tos demo_pcb) IP_PROTO_UDP demo_netif (demo_host\<lparr>ip_heap := h'\<rparr>);
        s' \<leftarrow> udp_free_pbuf (nxt_addr (ip_heap demo_host)) s';
        Some (err, s')
      } \<and>
    udp_input demo_env (\<lambda>_ _. False) (nxt_addr (ip_heap demo_host)) demo_netif (demo_host\<lparr>ip_heap := h'\<rparr>) =
      env_udp_recv demo_env 7 (up_recv_arg demo_pcb) 1 (nxt_addr (ip_heap demo_host))
        (current_iphdr_src (ip_data demo_host)) 1024 (current_iphdr_dest (ip_data demo_host)) 53
        (demo_host\<lparr>ip_heap := h''\<rparr>) \<and>
    packet h'' (nxt_addr (ip_heap demo_host)) (nxt_addr (ip_heap demo_host) # [1]) \<and>
    content h'' (nxt_addr (ip_heap demo_host) # [1]) = content (ip_heap demo_host) [1]"
    by (rule udp_sendto_input_roundtrip [where b = b and netifs = "[]"])
      (use b in \<open>simp_all add: demo_dgram_packet [simplified] demo_dgram_fresh [simplified] demo_dgram_content [simplified]
        NETIF_NO_INDEX_def IP_ADDR_PCB_VERSION_MATCH_def ip_addr_any_def IP_IS_ANY_TYPE_VAL_def
        PBUF_TYPE_FLAG_STRUCT_DATA_CONTIGUOUS_def\<close>)
  then obtain h' h'' where h: "udp_input demo_env (\<lambda>_ _. False) 4 demo_netif (demo_host\<lparr>ip_heap := h'\<rparr>) =
      env_udp_recv demo_env 7 9 1 4 (current_iphdr_src (ip_data demo_host)) 1024
        (current_iphdr_dest (ip_data demo_host)) 53 (demo_host\<lparr>ip_heap := h''\<rparr>)"
    "content h'' [4, 1] = [10, 20, 30]"
    unfolding demo_host_simps demo_dgram_fresh demo_dgram_content demo_pcb_simps by blast
  show ?thesis using h by (intro exI [of _ h'] exI [of _ h'']) (simp add: demo_host_def demo_udp_def)
qed

theorem udp_default_pcb_rejects_ip6_witness:
  "\<exists>s2. udp_bind 1 (Some ip_addr_any) 0 (snd (udp_new demo_udp)) = Some (ERR_OK, s2) \<and>
    udp_sendto demo_env 1 7 (ip_addr_any\<lparr>ip_type := IPADDR_TYPE_V6\<rparr>) 53 ip_addr_any 1024 s2 = Some (ERR_VAL, s2)"
proof -
  let ?s1 = "snd (udp_new demo_udp)"
  obtain b where b: "udp_mem ?s1 1 = Some b" using demo_udp_new by blast
  have "\<exists>p :: u16. 49152 \<le> unat p \<and> \<not> port_taken ?s1 [] p"
    by (intro exI [of _ 50000]) (simp add: port_taken_def)
  then obtain s2 where s2: "udp_bind 1 (Some ip_addr_any) 0 ?s1 = Some (ERR_OK, s2)"
    using udp_bind_ok [OF demo_udp_new_wf b, of "Some ip_addr_any" 0] by auto
  have "udp_sendto demo_env 1 7 (ip_addr_any\<lparr>ip_type := IPADDR_TYPE_V6\<rparr>) 53 ip_addr_any 1024 s2 = Some (ERR_VAL, s2)"
    by (rule udp_default_pcb_rejects_ip6 [OF demo_udp_wf _ _ s2])
      (simp_all add: udp_new_def demo_udp_def Let_def IP_IS_V6_def)
  then show ?thesis using s2 by blast
qed


end
