(* ===== verification/Lwip_Reass.thy ===== *)
theory Lwip_Reass
  imports Lwip_Udp_Io
begin

text \<open>
  Reassembly of IPv4 fragments (\<^verbatim>\<open>core/ipv4/ip4_frag.c\<close>, \<^verbatim>\<open>IP_REASSEMBLY\<close>): the list of datagrams
  under construction, the chain of fragments of each of them, which runs through the helper struct
  that replaces the IP header in the fragment's own memory, and the limits on memory and time.
  Overlap is checked and the oldest datagram is freed when there is no room.
\<close>

section \<open>State\<close>

record ip_reassdata =
  rd_next :: nat
  rd_p :: nat
  rd_iphdr :: "u8 list"
  rd_datagram_len :: u16
  rd_flags :: u8
  rd_timer :: u8

text \<open>
  Datagrams by address and \<^verbatim>\<open>reassdatagrams\<close>, the first of the list. Addresses come from a counter;
  the environment decides which allocations succeed.
\<close>

record reass_state = udp_state +
  rd_mem :: "nat \<Rightarrow> ip_reassdata option"
  reassdatagrams :: nat
  ip_reass_pbufcount :: u16
  rd_nxt :: nat
  rd_malloc_ok :: "nat \<Rightarrow> bool"

definition put_rd :: "nat \<Rightarrow> ip_reassdata \<Rightarrow> 'a reass_state_scheme \<Rightarrow> 'a reass_state_scheme" where
  "put_rd r d s = s\<lparr>rd_mem := (rd_mem s)(r := Some d)\<rparr>"

definition IP_REASS_MAXAGE :: u8 where "IP_REASS_MAXAGE = 15"
definition IP_REASS_MAX_PBUFS :: nat where "IP_REASS_MAX_PBUFS = 10"
definition IP_REASS_FLAG_LASTFRAG :: u8 where "IP_REASS_FLAG_LASTFRAG = 0x01"
definition ICMP_TE_FRAG :: u8 where "ICMP_TE_FRAG = 1"

datatype reass_validate =
    IP_REASS_VALIDATE_TELEGRAM_FINISHED
  | IP_REASS_VALIDATE_PBUF_QUEUED
  | IP_REASS_VALIDATE_PBUF_DROPPED

definition IP_ADDRESSES_AND_ID_MATCH :: "u8 list \<Rightarrow> u8 list \<Rightarrow> bool" where
  "IP_ADDRESSES_AND_ID_MATCH iphdrA iphdrB =
     (IPH_SRC iphdrA = IPH_SRC iphdrB \<and> IPH_DEST iphdrA = IPH_DEST iphdrB \<and> IPH_ID iphdrA = IPH_ID iphdrB)"

section \<open>The helper in the memory of a fragment\<close>

text \<open>
  \<^verbatim>\<open>struct ip_reass_helper\<close> has a pointer of eight bytes, the start and the end. A pointer in
  memory is the number of the pbuf, so it survives the round trip for the first \<open>2 ^ 64\<close> pbufs.
\<close>

definition store_ptr :: "nat \<Rightarrow> u8 list" where
  "store_ptr p = map (\<lambda>i. of_nat (p div 256 ^ i)) [0..<8]"

definition load_ptr :: "u8 list \<Rightarrow> nat" where
  "load_ptr bs = (\<Sum>i<8. unat (bs ! i) * 256 ^ i)"

text \<open>The fields of a helper at a data pointer.\<close>

definition iprh_next_pbuf :: "heap \<Rightarrow> vptr \<Rightarrow> nat option" where
  "iprh_next_pbuf h v = map_option load_ptr (mem_read h v 0 8)"

definition iprh_start :: "heap \<Rightarrow> vptr \<Rightarrow> u16 option" where
  "iprh_start h v = map_option (\<lambda>bs. ldf16 bs 0) (mem_read h v 8 2)"

definition iprh_end :: "heap \<Rightarrow> vptr \<Rightarrow> u16 option" where
  "iprh_end h v = map_option (\<lambda>bs. ldf16 bs 0) (mem_read h v 10 2)"

definition set_iprh_next_pbuf :: "heap \<Rightarrow> vptr \<Rightarrow> nat \<Rightarrow> heap option" where
  "set_iprh_next_pbuf h v p = mem_write h v 0 (store_ptr p)"

definition payload_of :: "heap \<Rightarrow> nat \<Rightarrow> vptr option" where
  "payload_of h p = map_option pb_payload (pbufs h p)"

section \<open>Removing datagrams\<close>

definition ip_reass_dequeue_datagram ::
  "nat \<Rightarrow> nat \<Rightarrow> 'a reass_state_scheme \<Rightarrow> 'a reass_state_scheme option" where
  "ip_reass_dequeue_datagram ipr prev s =
     do {
       d \<leftarrow> rd_mem s ipr;
       s \<leftarrow> (if reassdatagrams s = ipr then Some (s\<lparr>reassdatagrams := rd_next d\<rparr>)
             else do {
               lwip_assert (prev \<noteq> 0);
               e \<leftarrow> rd_mem s prev;
               Some (put_rd prev (e\<lparr>rd_next := rd_next d\<rparr>) s)
             });
       Some (s\<lparr>rd_mem := (rd_mem s)(ipr := None)\<rparr>)
     }"

text \<open>The loop that frees the fragments of a datagram; the count is the \<^verbatim>\<open>u16_t\<close> of the code.\<close>

partial_function (option) free_fragments :: "heap \<Rightarrow> nat \<Rightarrow> u16 \<Rightarrow> (u16 \<times> heap) option" where
  "free_fragments h p pbufs_freed =
     (if p = 0 then Some (pbufs_freed, h)
      else do {
        v \<leftarrow> payload_of h p;
        n \<leftarrow> iprh_next_pbuf h v;
        clen \<leftarrow> pbuf_clen h p;
        lwip_assert (unat pbufs_freed + unat clen \<le> 0xffff);
        (c, h) \<leftarrow> pbuf_free h p;
        free_fragments h n (pbufs_freed + clen)
      })"

definition ip_reass_free_complete_datagram ::
  "'a reass_state_scheme ip_env \<Rightarrow> nat \<Rightarrow> nat \<Rightarrow> 'a reass_state_scheme \<Rightarrow>
   (nat \<times> 'a reass_state_scheme) option" where
  "ip_reass_free_complete_datagram env ipr prev s =
     do {
       lwip_assert (prev \<noteq> ipr);
       (if prev \<noteq> 0 then do { e \<leftarrow> rd_mem s prev; lwip_assert (rd_next e = ipr) } else Some ());
       d \<leftarrow> rd_mem s ipr;
       v \<leftarrow> payload_of (ip_heap s) (rd_p d);
       start \<leftarrow> iprh_start (ip_heap s) v;
       (pbufs_freed, s) \<leftarrow> (if start = 0 then do {
           let p = rd_p d;
           n \<leftarrow> iprh_next_pbuf (ip_heap s) v;
           let s = put_rd ipr (d\<lparr>rd_p := n\<rparr>) s;
           h \<leftarrow> mem_write (ip_heap s) v 0 (take IP_HLEN (rd_iphdr d));
           s \<leftarrow> env_time_exceeded env p ICMP_TE_FRAG (s\<lparr>ip_heap := h\<rparr>);
           clen \<leftarrow> pbuf_clen (ip_heap s) p;
           (c, h) \<leftarrow> pbuf_free (ip_heap s) p;
           Some (0 + clen, s\<lparr>ip_heap := h\<rparr>)
         } else Some (0, s));
       d \<leftarrow> rd_mem s ipr;
       (pbufs_freed, h) \<leftarrow> free_fragments (ip_heap s) (rd_p d) pbufs_freed;
       s \<leftarrow> ip_reass_dequeue_datagram ipr prev (s\<lparr>ip_heap := h\<rparr>);
       lwip_assert (ip_reass_pbufcount s \<ge> pbufs_freed);
       Some (unat pbufs_freed, s\<lparr>ip_reass_pbufcount := ip_reass_pbufcount s - pbufs_freed\<rparr>)
     }"

partial_function (option) reass_tmr_loop ::
  "'a reass_state_scheme ip_env \<Rightarrow> nat \<Rightarrow> nat \<Rightarrow> 'a reass_state_scheme \<Rightarrow> 'a reass_state_scheme option" where
  "reass_tmr_loop env r prev s =
     (if r = 0 then Some s
      else do {
        d \<leftarrow> rd_mem s r;
        if rd_timer d > 0
        then reass_tmr_loop env (rd_next d) r (put_rd r (d\<lparr>rd_timer := rd_timer d - 1\<rparr>) s)
        else do {
          (n, s) \<leftarrow> ip_reass_free_complete_datagram env r prev s;
          reass_tmr_loop env (rd_next d) prev s
        }
      })"

definition ip_reass_tmr ::
  "'a reass_state_scheme ip_env \<Rightarrow> 'a reass_state_scheme \<Rightarrow> 'a reass_state_scheme option" where
  "ip_reass_tmr env s = reass_tmr_loop env (reassdatagrams s) 0 s"

text \<open>
  The search for the oldest datagram that \<^verbatim>\<open>fraghdr\<close> does not belong to: the result is \<^verbatim>\<open>oldest\<close>,
  \<^verbatim>\<open>oldest_prev\<close> and \<^verbatim>\<open>other_datagrams\<close>.
\<close>

partial_function (option) oldest_loop ::
  "'a reass_state_scheme \<Rightarrow> u8 list \<Rightarrow> nat \<Rightarrow> nat \<Rightarrow> nat \<Rightarrow> nat \<Rightarrow> nat \<Rightarrow> (nat \<times> nat \<times> nat) option" where
  "oldest_loop s fraghdr r prev oldest oldest_prev other =
     (if r = 0 then Some (oldest, oldest_prev, other)
      else do {
        d \<leftarrow> rd_mem s r;
        (oldest, oldest_prev, other) \<leftarrow>
          (if \<not> IP_ADDRESSES_AND_ID_MATCH (rd_iphdr d) fraghdr then
             if oldest = 0 then Some (r, prev, other + 1)
             else do {
               o' \<leftarrow> rd_mem s oldest;
               if rd_timer d \<le> rd_timer o' then Some (r, prev, other + 1)
               else Some (oldest, oldest_prev, other + 1)
             }
           else Some (oldest, oldest_prev, other));
        let prev = (if rd_next d \<noteq> 0 then r else prev);
        oldest_loop s fraghdr (rd_next d) prev oldest oldest_prev other
      })"

partial_function (option) remove_oldest_loop ::
  "'a reass_state_scheme ip_env \<Rightarrow> u8 list \<Rightarrow> nat \<Rightarrow> nat \<Rightarrow> 'a reass_state_scheme \<Rightarrow>
   (nat \<times> 'a reass_state_scheme) option" where
  "remove_oldest_loop env fraghdr pbufs_needed pbufs_freed s =
     do {
       (oldest, oldest_prev, other) \<leftarrow> oldest_loop s fraghdr (reassdatagrams s) 0 0 0 0;
       (pbufs_freed, s) \<leftarrow> (if oldest \<noteq> 0 then do {
           (n, s) \<leftarrow> ip_reass_free_complete_datagram env oldest oldest_prev s;
           Some (pbufs_freed + n, s)
         } else Some (pbufs_freed, s));
       if pbufs_freed < pbufs_needed \<and> other > 1
       then remove_oldest_loop env fraghdr pbufs_needed pbufs_freed s
       else Some (pbufs_freed, s)
     }"

definition ip_reass_remove_oldest_datagram ::
  "'a reass_state_scheme ip_env \<Rightarrow> u8 list \<Rightarrow> nat \<Rightarrow> 'a reass_state_scheme \<Rightarrow>
   (nat \<times> 'a reass_state_scheme) option" where
  "ip_reass_remove_oldest_datagram env fraghdr pbufs_needed s =
     remove_oldest_loop env fraghdr pbufs_needed 0 s"

section \<open>Adding fragments\<close>

text \<open>\<^verbatim>\<open>memp_malloc(MEMP_REASSDATA)\<close>\<close>

definition memp_malloc_reassdata :: "'a reass_state_scheme \<Rightarrow> nat \<times> 'a reass_state_scheme" where
  "memp_malloc_reassdata s =
     (if rd_malloc_ok s (rd_nxt s) then (rd_nxt s, s\<lparr>rd_nxt := rd_nxt s + 1\<rparr>)
      else (0, s\<lparr>rd_nxt := rd_nxt s + 1\<rparr>))"

definition ip_reass_enqueue_new_datagram ::
  "'a reass_state_scheme ip_env \<Rightarrow> u8 list \<Rightarrow> nat \<Rightarrow> 'a reass_state_scheme \<Rightarrow>
   (nat \<times> 'a reass_state_scheme) option" where
  "ip_reass_enqueue_new_datagram env fraghdr clen s =
     do {
       let (ipr, s) = memp_malloc_reassdata s;
       (ipr, s) \<leftarrow> (if ipr = 0 then do {
           (n, s) \<leftarrow> ip_reass_remove_oldest_datagram env fraghdr clen s;
           if n \<ge> clen then Some (memp_malloc_reassdata s) else Some (0, s)
         } else Some (ipr, s));
       if ipr = 0 then Some (0, s)
       else let d = \<lparr>rd_next = reassdatagrams s, rd_p = 0, rd_iphdr = take IP_HLEN fraghdr,
                      rd_datagram_len = 0, rd_flags = 0, rd_timer = IP_REASS_MAXAGE\<rparr>
            in Some (ipr, (put_rd ipr d s)\<lparr>reassdatagrams := ipr\<rparr>)
     }"

text \<open>
  The walk to the place of a fragment with helper \<^verbatim>\<open>iprh\<close> at \<^verbatim>\<open>v\<close>, from fragment \<^verbatim>\<open>q\<close> on, with the
  helper \<^verbatim>\<open>iprh_prev\<close> (\<^term>\<open>None\<close> for NULL). The result is \<^term>\<open>Inl\<close> with the memory when the fragment
  is dropped, otherwise \<^verbatim>\<open>q\<close>, \<^verbatim>\<open>iprh_prev\<close>, \<^verbatim>\<open>valid\<close>, the new \<^verbatim>\<open>ipr->p\<close> and the memory.
\<close>

partial_function (option) chain_frag_loop ::
  "heap \<Rightarrow> nat \<Rightarrow> vptr \<Rightarrow> u16 \<Rightarrow> u16 \<Rightarrow> nat \<Rightarrow> nat \<Rightarrow> vptr option \<Rightarrow> bool \<Rightarrow>
   (heap + nat \<times> vptr option \<times> bool \<times> nat \<times> heap) option" where
  "chain_frag_loop h new_p v start end' ipr_p q iprh_prev valid =
     (if q = 0 then Some (Inr (q, iprh_prev, valid, ipr_p, h))
      else do {
        t \<leftarrow> payload_of h q;
        t_start \<leftarrow> iprh_start h t;
        t_end \<leftarrow> iprh_end h t;
        if start < t_start then do {
          h \<leftarrow> set_iprh_next_pbuf h v q;
          (case iprh_prev of
             Some pv \<Rightarrow> do {
               p_end \<leftarrow> iprh_end h pv;
               if start < p_end \<or> end' > t_start then Some (Inl h)
               else do {
                 h \<leftarrow> set_iprh_next_pbuf h pv new_p;
                 Some (Inr (q, iprh_prev, valid \<and> p_end = start, ipr_p, h))
               }
             }
           | None \<Rightarrow>
               if end' > t_start then Some (Inl h)
               else Some (Inr (q, iprh_prev, valid, new_p, h)))
        }
        else if start = t_start then Some (Inl h)
        else if start < t_end then Some (Inl h)
        else do {
          valid \<leftarrow> (case iprh_prev of
              Some pv \<Rightarrow> do { p_end \<leftarrow> iprh_end h pv; Some (valid \<and> p_end = t_start) }
            | None \<Rightarrow> Some valid);
          n \<leftarrow> iprh_next_pbuf h t;
          chain_frag_loop h new_p v start end' ipr_p n (Some t) valid
        }
      })"

text \<open>The walk from \<^verbatim>\<open>ipr->p\<close> and the case of a fragment at the end: \<^verbatim>\<open>valid\<close>, \<^verbatim>\<open>ipr->p\<close> and the memory.\<close>

definition chain_frag ::
  "heap \<Rightarrow> nat \<Rightarrow> vptr \<Rightarrow> u16 \<Rightarrow> u16 \<Rightarrow> nat \<Rightarrow> (heap + bool \<times> nat \<times> heap) option" where
  "chain_frag h new_p v start end' ipr_p =
     do {
       res \<leftarrow> chain_frag_loop h new_p v start end' ipr_p ipr_p None True;
       (case res of
          Inl h \<Rightarrow> Some (Inl h)
        | Inr (q, iprh_prev, valid, ipr_p, h) \<Rightarrow>
            if q = 0 then
              (case iprh_prev of
                 Some pv \<Rightarrow> do {
                   p_end \<leftarrow> iprh_end h pv;
                   lwip_assert (p_end \<le> start);
                   h \<leftarrow> set_iprh_next_pbuf h pv new_p;
                   Some (Inr (valid \<and> p_end = start, ipr_p, h))
                 }
               | None \<Rightarrow> do { lwip_assert (ipr_p = 0); Some (Inr (valid, new_p, h)) })
            else Some (Inr (valid, ipr_p, h)))
     }"

text \<open>The check for holes behind the new fragment: \<^verbatim>\<open>valid\<close> and the last helper that was reached.\<close>

partial_function (option) holes_loop :: "heap \<Rightarrow> vptr \<Rightarrow> nat \<Rightarrow> (bool \<times> vptr) option" where
  "holes_loop h iprh_prev q =
     (if q = 0 then Some (True, iprh_prev)
      else do {
        iprh \<leftarrow> payload_of h q;
        p_end \<leftarrow> iprh_end h iprh_prev;
        start \<leftarrow> iprh_start h iprh;
        if p_end \<noteq> start then Some (False, iprh)
        else do { n \<leftarrow> iprh_next_pbuf h iprh; holes_loop h iprh n }
      })"

text \<open>The end of the function: is the datagram complete? The result carries the memory and \<^verbatim>\<open>ipr->p\<close>.\<close>

definition reass_complete :: "heap \<Rightarrow> vptr \<Rightarrow> nat \<Rightarrow> bool \<Rightarrow> bool option" where
  "reass_complete h iprh ipr_p valid =
     (if \<not> valid then Some False
      else if ipr_p = 0 then Some False
      else do {
        fv \<leftarrow> payload_of h ipr_p;
        fstart \<leftarrow> iprh_start h fv;
        if fstart \<noteq> 0 then Some False
        else do {
          q \<leftarrow> iprh_next_pbuf h iprh;
          (valid, lv) \<leftarrow> holes_loop h iprh q;
          if valid then do {
            lwip_assert (fv \<noteq> lv);
            n \<leftarrow> iprh_next_pbuf h lv;
            lwip_assert (n = 0);
            Some True
          } else Some False
        }
      })"

definition ip_reass_chain_frag_into_datagram_and_validate ::
  "nat \<Rightarrow> nat \<Rightarrow> bool \<Rightarrow> 'a reass_state_scheme \<Rightarrow> (reass_validate \<times> 'a reass_state_scheme) option" where
  "ip_reass_chain_frag_into_datagram_and_validate ipr new_p is_last s =
     do {
       d \<leftarrow> rd_mem s ipr;
       v \<leftarrow> payload_of (ip_heap s) new_p;
       fraghdr \<leftarrow> mem_read (ip_heap s) v 0 IP_HLEN;
       let len = lwip_htons (IPH_LEN fraghdr);
       let hlen = IPH_HL_BYTES fraghdr;
       if ucast hlen > len then Some (IP_REASS_VALIDATE_PBUF_DROPPED, s)
       else do {
         let len = len - ucast hlen;
         let offset = IPH_OFFSET_BYTES fraghdr;
         let end' = offset + len;
         h \<leftarrow> mem_write (ip_heap s) v 0 (store_ptr 0 @ store16 offset @ store16 end');
         if end' < offset then Some (IP_REASS_VALIDATE_PBUF_DROPPED, s\<lparr>ip_heap := h\<rparr>)
         else do {
           res \<leftarrow> chain_frag h new_p v offset end' (rd_p d);
           (case res of
              Inl h \<Rightarrow> Some (IP_REASS_VALIDATE_PBUF_DROPPED, s\<lparr>ip_heap := h\<rparr>)
            | Inr (valid, ipr_p, h) \<Rightarrow> do {
                let s = put_rd ipr (d\<lparr>rd_p := ipr_p\<rparr>) (s\<lparr>ip_heap := h\<rparr>);
                if is_last \<or> rd_flags d AND IP_REASS_FLAG_LASTFRAG \<noteq> 0 then do {
                  c \<leftarrow> reass_complete h v ipr_p valid;
                  Some (if c then IP_REASS_VALIDATE_TELEGRAM_FINISHED else IP_REASS_VALIDATE_PBUF_QUEUED, s)
                } else Some (IP_REASS_VALIDATE_PBUF_QUEUED, s)
              })
         }
       }
     }"

section \<open>Reassembly\<close>

text \<open>The loop that chains the fragments behind the first one, their headers hidden.\<close>

partial_function (option) reass_chain :: "heap \<Rightarrow> nat \<Rightarrow> nat \<Rightarrow> heap option" where
  "reass_chain h p r =
     (if r = 0 then Some h
      else do {
        iprh \<leftarrow> payload_of h r;
        (x, h) \<leftarrow> pbuf_remove_header h r IP_HLEN;
        h \<leftarrow> pbuf_cat h p r;
        r \<leftarrow> iprh_next_pbuf h iprh;
        reass_chain h p r
      })"

text \<open>The complete datagram: the header of the first fragment with the new length, no offset and a
  new checksum comes back to the front.\<close>

definition reass_header :: "nat \<Rightarrow> u8 list \<Rightarrow> u16 \<Rightarrow> u8 list" where
  "reass_header addr iphdr datagram_len =
     (let hdr = stf16 2 (lwip_htons datagram_len) iphdr;
          hdr = stf16 6 0 hdr;
          hdr = stf16 10 0 hdr
      in stf16 10 (inet_chksum LWIP_CHKSUM addr hdr) hdr)"

definition reass_finish :: "nat \<Rightarrow> 'a reass_state_scheme \<Rightarrow> (nat \<times> 'a reass_state_scheme) option" where
  "reass_finish ipr s =
     do {
       d \<leftarrow> rd_mem s ipr;
       let datagram_len = rd_datagram_len d + of_nat IP_HLEN;
       v \<leftarrow> payload_of (ip_heap s) (rd_p d);
       r \<leftarrow> iprh_next_pbuf (ip_heap s) v;
       h \<leftarrow> mem_write (ip_heap s) v 0 (reass_header (vptr_address (ip_heap s) v) (rd_iphdr d) datagram_len);
       let p = rd_p d;
       h \<leftarrow> reass_chain h p r;
       let s = s\<lparr>ip_heap := h\<rparr>;
       ipr_prev \<leftarrow> (if ipr = reassdatagrams s then Some 0
                    else find_node (rd_mem s) rd_next (\<lambda>a b. rd_next b = ipr) (reassdatagrams s));
       s \<leftarrow> ip_reass_dequeue_datagram ipr ipr_prev s;
       clen \<leftarrow> pbuf_clen (ip_heap s) p;
       lwip_assert (ip_reass_pbufcount s \<ge> clen);
       Some (p, s\<lparr>ip_reass_pbufcount := ip_reass_pbufcount s - clen\<rparr>)
     }"

text \<open>The two error exits: the fragment is freed, and the datagram too if it has no fragment.\<close>

definition reass_nullreturn :: "nat \<Rightarrow> 'a reass_state_scheme \<Rightarrow> (nat \<times> 'a reass_state_scheme) option" where
  "reass_nullreturn p s = do { (c, h) \<leftarrow> pbuf_free (ip_heap s) p; Some (0, s\<lparr>ip_heap := h\<rparr>) }"

definition reass_nullreturn_ipr ::
  "nat \<Rightarrow> nat \<Rightarrow> 'a reass_state_scheme \<Rightarrow> (nat \<times> 'a reass_state_scheme) option" where
  "reass_nullreturn_ipr ipr p s =
     do {
       d \<leftarrow> rd_mem s ipr;
       s \<leftarrow> (if rd_p d = 0 then do {
               lwip_assert (ipr = reassdatagrams s);
               ip_reass_dequeue_datagram ipr 0 s
             } else Some s);
       reass_nullreturn p s
     }"

text \<open>Is there room for \<^verbatim>\<open>clen\<close> more pbufs, if need be after removing old datagrams?\<close>

definition reass_make_room ::
  "'a reass_state_scheme ip_env \<Rightarrow> u8 list \<Rightarrow> nat \<Rightarrow> 'a reass_state_scheme \<Rightarrow>
   (bool \<times> 'a reass_state_scheme) option" where
  "reass_make_room env fraghdr clen s =
     (if unat (ip_reass_pbufcount s) + clen > IP_REASS_MAX_PBUFS then do {
        (n, s) \<leftarrow> ip_reass_remove_oldest_datagram env fraghdr clen s;
        Some (\<not> (n = 0 \<or> unat (ip_reass_pbufcount s) + clen > IP_REASS_MAX_PBUFS), s)
      } else Some (True, s))"

text \<open>The datagram a fragment belongs to, a new one if there is none; 0 when there is no memory. A
  fragment at offset 0 gives the datagram its header.\<close>

definition reass_lookup ::
  "'a reass_state_scheme ip_env \<Rightarrow> u8 list \<Rightarrow> nat \<Rightarrow> 'a reass_state_scheme \<Rightarrow>
   (nat \<times> 'a reass_state_scheme) option" where
  "reass_lookup env fraghdr clen s =
     do {
       ipr \<leftarrow> find_node (rd_mem s) rd_next (\<lambda>a d. IP_ADDRESSES_AND_ID_MATCH (rd_iphdr d) fraghdr)
               (reassdatagrams s);
       if ipr = 0 then ip_reass_enqueue_new_datagram env fraghdr clen s
       else do {
         d \<leftarrow> rd_mem s ipr;
         if lwip_htons (IPH_OFFSET fraghdr) AND IP_OFFMASK = 0 \<and>
            lwip_htons (IPH_OFFSET (rd_iphdr d)) AND IP_OFFMASK \<noteq> 0
         then Some (ipr, put_rd ipr (d\<lparr>rd_iphdr := take IP_HLEN fraghdr\<rparr>) s)
         else Some (ipr, s)
       }
     }"

text \<open>Enqueueing the fragment, and the end of the datagram when it is complete.\<close>

definition reass_enter ::
  "nat \<Rightarrow> nat \<Rightarrow> bool \<Rightarrow> u16 \<Rightarrow> u16 \<Rightarrow> 'a reass_state_scheme \<Rightarrow> (nat \<times> 'a reass_state_scheme) option" where
  "reass_enter ipr p is_last datagram_len clen s =
     do {
       (valid, s) \<leftarrow> ip_reass_chain_frag_into_datagram_and_validate ipr p is_last s;
       if valid = IP_REASS_VALIDATE_PBUF_DROPPED then reass_nullreturn_ipr ipr p s
       else do {
         let s = s\<lparr>ip_reass_pbufcount := ip_reass_pbufcount s + clen\<rparr>;
         d \<leftarrow> rd_mem s ipr;
         let s = (if is_last then put_rd ipr (d\<lparr>rd_datagram_len := datagram_len,
                        rd_flags := rd_flags d OR IP_REASS_FLAG_LASTFRAG\<rparr>) s else s);
         if valid = IP_REASS_VALIDATE_TELEGRAM_FINISHED then reass_finish ipr s
         else Some (0, s)
       }
     }"

definition ip4_reass ::
  "'a reass_state_scheme ip_env \<Rightarrow> nat \<Rightarrow> 'a reass_state_scheme \<Rightarrow>
   (nat \<times> 'a reass_state_scheme) option" where
  "ip4_reass env p s =
     do {
       fraghdr \<leftarrow> read_payload (ip_heap s) p 0 IP_HLEN;
       if unat (IPH_HL_BYTES fraghdr) \<noteq> IP_HLEN then reass_nullreturn p s
       else do {
         let offset = IPH_OFFSET_BYTES fraghdr;
         let len = lwip_htons (IPH_LEN fraghdr);
         let hlen = IPH_HL_BYTES fraghdr;
         if ucast hlen > len then reass_nullreturn p s
         else do {
           let len = len - ucast hlen;
           clen \<leftarrow> pbuf_clen (ip_heap s) p;
           (ok, s) \<leftarrow> reass_make_room env fraghdr (unat clen) s;
           if \<not> ok then reass_nullreturn p s
           else do {
             (ipr, s) \<leftarrow> reass_lookup env fraghdr (unat clen) s;
             if ipr = 0 then reass_nullreturn p s
             else do {
               let is_last = (IPH_OFFSET fraghdr AND lwip_htons IP_MF = 0);
               let datagram_len = offset + len;
               if is_last \<and> (datagram_len < offset \<or> unat datagram_len > 0xFFFF - IP_HLEN)
               then reass_nullreturn_ipr ipr p s
               else reass_enter ipr p is_last datagram_len clen s
             }
           }
         }
       }
     }"

end
