(* ===== verification/Lwip_Reass_Props.thy ===== *)
theory Lwip_Reass_Props
  imports Lwip_Reass Lwip_Udp_Props
begin

text \<open>
  What the reassembly promises: adding a fragment is insertion into a list of fragments that is
  sorted by offset and free of overlaps, a datagram is complete when its fragments cover it
  without holes, and the completed packet carries the payloads in the order of their offsets.
\<close>

section \<open>Helpers in memory\<close>

definition ptr_ok :: "nat \<Rightarrow> bool" where
  "ptr_ok p = (p < 256 ^ 8)"

lemma length_store_ptr [simp]: "length (store_ptr p) = 8"
  by (simp add: store_ptr_def)

lemma base256_sum: "p < 256 ^ n \<Longrightarrow> (\<Sum>i<n. p div 256 ^ i mod 256 * 256 ^ i) = (p :: nat)"
proof (induction n arbitrary: p)
  case (Suc n)
  have "(\<Sum>i<Suc n. p div 256 ^ i mod 256 * 256 ^ i)
      = p mod 256 + 256 * (\<Sum>i<n. p div 256 div 256 ^ i mod 256 * 256 ^ i)"
    by (simp add: sum.lessThan_Suc_shift sum_distrib_left div_mult2_eq mult_ac del: sum.lessThan_Suc)
  also have "\<dots> = p mod 256 + 256 * (p div 256)"
    using Suc.IH [of "p div 256"] Suc.prems by (simp add: less_mult_imp_div_less)
  finally show ?case by simp
qed simp

lemma load_store_ptr [simp]:
  assumes "ptr_ok p"
  shows "load_ptr (store_ptr p) = p"
proof -
  have "load_ptr (store_ptr p) = (\<Sum>i<8. p div 256 ^ i mod 256 * 256 ^ i)"
    by (simp add: load_ptr_def store_ptr_def unat_of_nat take_bit_eq_mod)
  also have "\<dots> = p" by (rule base256_sum) (use assms in \<open>simp add: ptr_ok_def\<close>)
  finally show ?thesis .
qed

lemma ldf16_store16 [simp]: "ldf16 (store16 x) 0 = x"
  by (simp add: ldf16_def store16_def) (intro bit_word_eqI; auto simp: bit_simps dest: bit_imp_le_length)

text \<open>A pbuf that holds a fragment: its first twelve bytes are the helper.\<close>

definition frag :: "heap \<Rightarrow> nat \<Rightarrow> nat \<Rightarrow> u16 \<Rightarrow> u16 \<Rightarrow> bool" where
  "frag h a n s e =
     (readable h a \<and> 20 \<le> length (pdata h a) \<and> take 12 (pdata h a) = store_ptr n @ store16 s @ store16 e \<and> ptr_ok n)"

type_synonym fragment = "nat \<times> u16 \<times> u16"

fun frag_seg :: "heap \<Rightarrow> nat \<Rightarrow> fragment list \<Rightarrow> nat \<Rightarrow> bool" where
  "frag_seg h p [] q = (p = q)"
| "frag_seg h p ((a, s, e) # fs) q = (p = a \<and> a \<noteq> 0 \<and> (\<exists>n. frag h a n s e \<and> frag_seg h n fs q))"

lemma frag_seg_append: "frag_seg h p (xs @ ys) q \<longleftrightarrow> (\<exists>r. frag_seg h p xs r \<and> frag_seg h r ys q)"
  by (induction xs arbitrary: p) (force)+

lemma frag_at:
  assumes "frag h a n s e"
  obtains b v where "pbufs h a = Some b" "v = pb_payload b" "payload_of h a = Some v"
    "iprh_next_pbuf h v = Some n" "iprh_start h v = Some s" "iprh_end h v = Some e"
    "unat (pb_len b) = length (pdata h a)"
proof -
  from assms obtain b where b: "pbufs h a = Some b" "readable h a"
    by (auto simp: frag_def readable_def split: option.splits)
  have len: "unat (pb_len b) = length (pdata h a)" by (rule length_pdata [OF b(2,1), symmetric])
  let ?d = "pdata h a"
  have d: "20 \<le> length ?d" "take 12 ?d = store_ptr n @ store16 s @ store16 e" "ptr_ok n"
    using assms by (simp_all add: frag_def)
  have rd: "mem_read h (pb_payload b) off m = Some (take m (drop off (take 12 ?d)))" if "off + m \<le> 12" for off m
    using mem_read_pdata [OF b(2,1), of off m] that d(1) len by (simp add: drop_take)
  have "length (store16 x) = 2" for x by (simp add: store16_def)
  then have "mem_read h (pb_payload b) 0 8 = Some (store_ptr n)" "mem_read h (pb_payload b) 8 2 = Some (store16 s)"
    "mem_read h (pb_payload b) 10 2 = Some (store16 e)"
    using rd [of 0 8] rd [of 8 2] rd [of 10 2] unfolding d(2) by simp_all
  then show thesis
    by (intro that [OF b(1) refl])
      (simp_all add: payload_of_def b(1) iprh_next_pbuf_def iprh_start_def iprh_end_def d(3) len)
qed

lemma frag_other:
  "same_shape h h' \<Longrightarrow> pdata h' c = pdata h c \<Longrightarrow> frag h' c n s e = frag h c n s e"
  by (simp add: frag_def same_shape_readable)

lemma frag_seg_other:
  assumes "same_shape h h'" "\<And>c. c \<in> fst ` set fs \<Longrightarrow> pdata h' c = pdata h c"
  shows "frag_seg h' p fs q = frag_seg h p fs q"
  using assms(2)
proof (induction fs arbitrary: p)
  case (Cons f fs)
  obtain a s e where [simp]: "f = (a, s, e)" by (cases f)
  have "frag h' a n s e = frag h a n s e" for n
    by (rule frag_other [OF assms(1)]) (simp add: Cons.prems)
  moreover have "frag_seg h' n fs q = frag_seg h n fs q" for n
    by (rule Cons.IH) (simp add: Cons.prems)
  ultimately show ?case by simp
qed simp

lemma set_next:
  assumes "frag h a n s e" "payload_of h a = Some v" "ptr_ok m"
  obtains h' where "set_iprh_next_pbuf h v m = Some h'" "same_shape h h'" "frag h' a m s e"
    "drop 12 (pdata h' a) = drop 12 (pdata h a)" "\<And>c. pblock h c \<noteq> pblock h a \<Longrightarrow> pdata h' c = pdata h c"
proof -
  obtain b where b: "pbufs h a = Some b" "v = pb_payload b" "unat (pb_len b) = length (pdata h a)"
    using frag_at [OF assms(1)] assms(2) by (metis option.inject)
  have d: "readable h a" "20 \<le> length (pdata h a)" "take 12 (pdata h a) = store_ptr n @ store16 s @ store16 e"
    using assms(1) by (simp_all add: frag_def)
  obtain h' where h': "mem_write h (pb_payload b) 0 (store_ptr m) = Some h'" "same_shape h h'"
    "pdata h' a = patch 0 (store_ptr m) (pdata h a)" "\<And>c. pblock h c \<noteq> pblock h a \<Longrightarrow> pdata h' c = pdata h c"
    using mem_write_pdata [OF d(1) b(1), of 0 "store_ptr m"] b(3) d(2) by auto
  have p: "pdata h' a = store_ptr m @ drop 8 (pdata h a)" using h'(3) by (simp add: patch_def)
  have "take 4 (drop 8 (pdata h a)) = drop 8 (take 12 (pdata h a))" by (simp add: drop_take)
  then have "take 12 (pdata h' a) = store_ptr m @ store16 s @ store16 e" using p d(3) by simp
  then have "frag h' a m s e"
    using d(1,2) p assms(3) by (simp add: frag_def same_shape_readable [OF h'(2)])
  moreover have "set_iprh_next_pbuf h v m = Some h'" using h'(1) b(2) by (simp add: set_iprh_next_pbuf_def)
  ultimately show thesis by (intro that [of h']) (simp_all add: h'(1,2,4) p)
qed

section \<open>Fragment lists\<close>

definition below :: "u16 \<Rightarrow> fragment \<Rightarrow> bool" where
  "below st f = (case f of (a, s, e) \<Rightarrow> s < st \<and> e \<le> st)"

definition above :: "u16 \<Rightarrow> u16 \<Rightarrow> fragment \<Rightarrow> bool" where
  "above st en f = (case f of (a, s, e) \<Rightarrow> st < s \<and> en \<le> s)"

definition frag_start :: "fragment \<Rightarrow> u16" where "frag_start f = fst (snd f)"
definition frag_end :: "fragment \<Rightarrow> u16" where "frag_end f = snd (snd f)"

definition sorted_frags :: "fragment list \<Rightarrow> bool" where
  "sorted_frags fs = (sorted_wrt (\<lambda>f g. frag_start f < frag_start g \<and> frag_end f \<le> frag_start g) fs \<and>
     (\<forall>f \<in> set fs. frag_start f \<le> frag_end f))"

text \<open>No hole between neighbours, and before the first one when the end of its predecessor is given.\<close>

fun contig :: "u16 option \<Rightarrow> fragment list \<Rightarrow> bool" where
  "contig pe [] = True"
| "contig pe ((a, s, e) # fs) = ((case pe of None \<Rightarrow> True | Some n \<Rightarrow> n = s) \<and> contig (Some e) fs)"

definition complete :: "fragment list \<Rightarrow> bool" where
  "complete fs = (fs \<noteq> [] \<and> contig (Some 0) fs)"

definition last_end :: "u16 option \<Rightarrow> fragment list \<Rightarrow> u16 option" where
  "last_end pe fs = (if fs = [] then pe else Some (frag_end (last fs)))"

lemma last_end_simps [simp]: "last_end pe [] = pe" "last_end pe ((a, s, e) # fs) = last_end (Some e) fs"
  by (simp_all add: last_end_def frag_end_def)

lemma contig_append: "contig pe (xs @ ys) \<longleftrightarrow> contig pe xs \<and> contig (last_end pe xs) ys"
  by (induction pe xs rule: contig.induct) auto

lemma insort_between:
  assumes "\<forall>f \<in> set pre. frag_start f < frag_start x" "post = [] \<or> frag_start x < frag_start (hd post)"
  shows "insort_key frag_start x (pre @ post) = pre @ x # post"
  using assms by (induction pre) (cases post; auto)+

lemma split_frags:
  obtains pre post where "fs = pre @ post" "\<forall>f \<in> set pre. below st f" "post = [] \<or> \<not> below st (hd post)"
proof
  show "fs = takeWhile (below st) fs @ dropWhile (below st) fs" by simp
  show "\<forall>f \<in> set (takeWhile (below st) fs). below st f" by (metis set_takeWhileD)
  show "dropWhile (below st) fs = [] \<or> \<not> below st (hd (dropWhile (below st) fs))" by (metis hd_dropWhile)
qed

section \<open>The walk to the place of a fragment\<close>

definition prev_end :: "heap \<Rightarrow> vptr option \<Rightarrow> u16 option \<Rightarrow> bool" where
  "prev_end h prev pe = (case prev of None \<Rightarrow> pe = None | Some pv \<Rightarrow> iprh_end h pv = pe \<and> pe \<noteq> None)"

lemma chain_walk:
  assumes "frag_seg h q pre r" "\<forall>f \<in> set pre. below st f" "prev_end h prev pe"
  shows "\<exists>prev'. chain_frag_loop h new_p v st en P q prev valid
      = chain_frag_loop h new_p v st en P r prev' (valid \<and> contig pe pre) \<and>
    prev_end h prev' (last_end pe pre) \<and>
    prev' = (if pre = [] then prev else payload_of h (fst (last pre)))"
  using assms
proof (induction pre arbitrary: q prev pe valid)
  case (Cons f pre)
  obtain a s e where [simp]: "f = (a, s, e)" by (cases f)
  obtain n where n: "q = a" "a \<noteq> 0" "frag h a n s e" "frag_seg h n pre r" using Cons.prems(1) by auto
  obtain b w where w: "payload_of h a = Some w" "iprh_next_pbuf h w = Some n" "iprh_start h w = Some s"
    "iprh_end h w = Some e"
    by (rule frag_at [OF n(3)])
  have lt: "s < st" "e \<le> st" using Cons.prems(2) by (simp_all add: below_def)
  then have "\<not> st < s" "st \<noteq> s" "\<not> st < e" by auto
  then have step: "chain_frag_loop h new_p v st en P q prev valid
      = chain_frag_loop h new_p v st en P n (Some w) (valid \<and> (case pe of None \<Rightarrow> True | Some x \<Rightarrow> x = s))"
    using n(1,2) w Cons.prems(3)
    by (subst chain_frag_loop.simps) (auto simp: prev_end_def split: option.splits)
  have "prev_end h (Some w) (Some e)" using w(4) by (simp add: prev_end_def)
  from Cons.IH [OF n(4) _ this, of "valid \<and> (case pe of None \<Rightarrow> True | Some x \<Rightarrow> x = s)"] Cons.prems(2)
  obtain prev' where "chain_frag_loop h new_p v st en P n (Some w) (valid \<and> (case pe of None \<Rightarrow> True | Some x \<Rightarrow> x = s))
      = chain_frag_loop h new_p v st en P r prev' ((valid \<and> (case pe of None \<Rightarrow> True | Some x \<Rightarrow> x = s)) \<and> contig (Some e) pre)"
    "prev_end h prev' (last_end (Some e) pre)" "prev' = (if pre = [] then Some w else payload_of h (fst (last pre)))"
    by auto
  then show ?case using step w(1) by (intro exI [of _ prev']) (auto simp: conj_assoc)
qed auto

lemma separate_ne:
  "separate h (xs @ a # ys) \<Longrightarrow> c \<in> set xs \<union> set ys \<Longrightarrow> pblock h c \<noteq> pblock h a"
  by (auto simp: separate_def) (metis imageI)+

lemma relink:
  assumes "frag_seg h p (pre @ [(a, s, e)]) r" "payload_of h a = Some v" "ptr_ok m"
    and "separate h (map fst pre @ a # zs)"
  obtains h' where "set_iprh_next_pbuf h v m = Some h'" "same_shape h h'" "frag_seg h' p (pre @ [(a, s, e)]) m"
    "drop 12 (pdata h' a) = drop 12 (pdata h a)" "\<And>c. pblock h c \<noteq> pblock h a \<Longrightarrow> pdata h' c = pdata h c"
proof -
  obtain n where n: "frag_seg h p pre a" "a \<noteq> 0" "frag h a n s e"
    using assms(1) by (auto simp: frag_seg_append)
  obtain h' where h': "set_iprh_next_pbuf h v m = Some h'" "same_shape h h'" "frag h' a m s e"
    "drop 12 (pdata h' a) = drop 12 (pdata h a)" "\<And>c. pblock h c \<noteq> pblock h a \<Longrightarrow> pdata h' c = pdata h c"
    by (rule set_next [OF n(3) assms(2,3)]) blast
  have "pdata h' c = pdata h c" if "c \<in> fst ` set pre" for c
    using that by (intro h'(5) separate_ne [OF assms(4)]) simp
  then have "frag_seg h' p pre a" using n(1) frag_seg_other [OF h'(2)] by blast
  then have "frag_seg h' p (pre @ [(a, s, e)]) m" using n(2) h'(3) by (auto simp: frag_seg_append)
  then show thesis using h' by (intro that)
qed

lemma last_triple: "xs \<noteq> [] \<Longrightarrow> \<exists>ys a s e. xs = ys @ [(a, s, e)]"
  by (metis append_butlast_last_id prod_cases3)

text \<open>Linking a new fragment, whose helper points to \<open>r\<close> already, behind \<open>pre\<close>.\<close>

lemma link_behind:
  assumes "frag_seg h p pre r0" "pre \<noteq> []" "frag h x r st en" "x \<noteq> 0" "ptr_ok x" "frag_seg h r post 0"
    and sep: "separate h (x # map fst (pre @ post))"
    and "payload_of h (fst (last pre)) = Some pv"
  obtains h' where "set_iprh_next_pbuf h pv x = Some h'" "same_shape h h'"
    "frag_seg h' p (pre @ (x, st, en) # post) 0"
    "\<And>c. c \<in> insert x (fst ` set (pre @ post)) \<Longrightarrow> drop 12 (pdata h' c) = drop 12 (pdata h c)"
    "\<And>c. pblock h c \<notin> pblock h ` fst ` set pre \<Longrightarrow> pdata h' c = pdata h c"
proof -
  obtain ys a s e where pre: "pre = ys @ [(a, s, e)]" using last_triple [OF assms(2)] by blast
  have sep': "separate h ((x # map fst ys) @ a # map fst post)" using sep pre by simp
  have "separate h (map fst ys @ a # map fst post)" using sep' by (simp add: separate_def)
  then obtain h' where h': "set_iprh_next_pbuf h pv x = Some h'" "same_shape h h'" "frag_seg h' p pre x"
    "drop 12 (pdata h' a) = drop 12 (pdata h a)" "\<And>c. pblock h c \<noteq> pblock h a \<Longrightarrow> pdata h' c = pdata h c"
    using relink [of h p ys a s e r0 pv x "map fst post"] assms(1,5,8) pre by auto
  have same: "pdata h' c = pdata h c" if "c = x \<or> c \<in> fst ` set ys \<or> c \<in> fst ` set post" for c
    using that by (intro h'(5) separate_ne [OF sep']) auto
  have "frag h' x r st en" using frag_other [OF h'(2) same] assms(3) by simp
  moreover have "frag_seg h' r post 0" using frag_seg_other [OF h'(2) same] assms(6) by simp
  ultimately have "frag_seg h' p (pre @ (x, st, en) # post) 0"
    using h'(3) assms(4) by (auto simp: frag_seg_append)
  moreover have "drop 12 (pdata h' c) = drop 12 (pdata h c)" if c: "c \<in> insert x (fst ` set (pre @ post))" for c
  proof (cases "c = a")
    case False
    then have "c = x \<or> c \<in> fst ` set ys \<or> c \<in> fst ` set post" using c pre by auto
    then show ?thesis by (simp add: same)
  qed (simp add: h'(4))
  moreover have "pdata h' c = pdata h c" if "pblock h c \<notin> pblock h ` fst ` set pre" for c
    using that pre by (intro h'(5)) auto
  ultimately show thesis by (intro that [OF h'(1,2)])
qed

section \<open>Insertion\<close>

lemma sorted_frags_append:
  "sorted_frags (xs @ ys) \<longleftrightarrow> sorted_frags xs \<and> sorted_frags ys \<and>
    (\<forall>f \<in> set xs. \<forall>g \<in> set ys. frag_start f < frag_start g \<and> frag_end f \<le> frag_start g)"
  by (auto simp: sorted_frags_def sorted_wrt_append)

definition fits :: "u16 \<Rightarrow> u16 \<Rightarrow> fragment \<Rightarrow> bool" where
  "fits st en f = (below st f \<or> above st en f)"

text \<open>
  The state of a walk: a new fragment \<open>x\<close> in its own memory, and the list split where it stops.
\<close>

lemma walk_split:
  assumes fs: "frag_seg h p fs 0"
  obtains pre post r prev where "fs = pre @ post" "\<forall>f \<in> set pre. below st f" "post = [] \<or> \<not> below st (hd post)"
    "frag_seg h p pre r" "frag_seg h r post 0"
    "chain_frag_loop h x v st en p p None True = chain_frag_loop h x v st en p r prev (contig None pre)"
    "prev = (if pre = [] then None else payload_of h (fst (last pre)))"
    "pre \<noteq> [] \<longrightarrow> (\<exists>pv. prev = Some pv \<and> iprh_end h pv = Some (frag_end (last pre)) \<and> frag_end (last pre) \<le> st)"
proof -
  obtain pre post where split: "fs = pre @ post" "\<forall>f \<in> set pre. below st f" "post = [] \<or> \<not> below st (hd post)"
    by (rule split_frags [of fs st])
  obtain r where r: "frag_seg h p pre r" "frag_seg h r post 0"
    using fs(1) split(1) by (auto simp: frag_seg_append)
  have "prev_end h None None" by (simp add: prev_end_def)
  from chain_walk [OF r(1) split(2) this, of x v en p True] obtain prev where walk:
    "chain_frag_loop h x v st en p p None True = chain_frag_loop h x v st en p r prev (contig None pre)"
    "prev_end h prev (last_end None pre)" "prev = (if pre = [] then None else payload_of h (fst (last pre)))"
    by auto
  have "frag_end (last pre) \<le> st" if "pre \<noteq> []"
    using split(2) last_in_set [OF that] by (fastforce simp: below_def frag_end_def)
  then have "pre \<noteq> [] \<longrightarrow> (\<exists>pv. prev = Some pv \<and> iprh_end h pv = Some (frag_end (last pre)) \<and> frag_end (last pre) \<le> st)"
    using walk(2) by (cases prev) (auto simp: prev_end_def last_end_def split: if_splits)
  then show thesis by (intro that [OF split r walk(1,3)])
qed

text \<open>
  A fragment that overlaps no other one: the list is the sorted one with the new fragment, and the
  flag says whether there is no hole up to it.
\<close>

lemma chain_frag_fits:
  assumes fs: "frag_seg h p fs 0" and x: "frag h x 0 st en" "x \<noteq> 0"
    and ptrs: "ptr_ok x" "\<forall>f \<in> set fs. ptr_ok (fst f)"
    and sep: "separate h (x # map fst fs)" and v: "payload_of h x = Some v"
    and fit: "\<forall>f \<in> set fs. fits st en f"
  obtains p' h' pre post where "chain_frag h x v st en p = Some (Inr (contig None (pre @ [(x, st, en)]), p', h'))"
    "fs = pre @ post" "insort_key frag_start (x, st, en) fs = pre @ (x, st, en) # post"
    "same_shape h h'" "frag_seg h' p' (pre @ (x, st, en) # post) 0"
    "\<And>c. c \<in> insert x (fst ` set fs) \<Longrightarrow> drop 12 (pdata h' c) = drop 12 (pdata h c)"
    "\<And>c. pblock h c \<notin> pblock h ` insert x (fst ` set fs) \<Longrightarrow> pdata h' c = pdata h c"
proof -
  obtain pre post r prev where split: "fs = pre @ post" "\<forall>f \<in> set pre. below st f" "post = [] \<or> \<not> below st (hd post)"
    and r: "frag_seg h p pre r" "frag_seg h r post 0"
    and walk: "chain_frag_loop h x v st en p p None True = chain_frag_loop h x v st en p r prev (contig None pre)"
      "prev = (if pre = [] then None else payload_of h (fst (last pre)))"
    and prev: "pre \<noteq> [] \<longrightarrow> (\<exists>pv. prev = Some pv \<and> iprh_end h pv = Some (frag_end (last pre)) \<and> frag_end (last pre) \<le> st)"
    by (rule walk_split [OF fs, of st x v en])
  have starts: "\<forall>f \<in> set pre. frag_start f < frag_start (x, st, en)"
    using split(2) by (auto simp: below_def frag_start_def)
  have "above st en (hd post)" if "post \<noteq> []"
    using fit split(1,3) that by (auto simp: fits_def)
  then have "post = [] \<or> frag_start (x, st, en) < frag_start (hd post)"
    by (cases "post = []") (auto simp: above_def frag_start_def split: prod.splits)
  then have ins: "insort_key frag_start (x, st, en) fs = pre @ (x, st, en) # post"
    using insort_between [OF starts] split(1) by simp
  have hole: "contig None (pre @ [(x, st, en)]) = (contig None pre \<and> (pre = [] \<or> frag_end (last pre) = st))"
    by (simp add: contig_append last_end_def)
  show thesis
  proof (cases post)
    case Nil
    then have r0: "r = 0" using r(2) by simp
    show ?thesis
    proof (cases "pre = []")
      case True
      then have "p = 0" using r(1) r0 by simp
      then have run: "chain_frag h x v st en p = Some (Inr (contig None (pre @ [(x, st, en)]), x, h))"
        using True by (simp add: chain_frag_def chain_frag_loop.simps [of h x v st en 0 0])
      show ?thesis by (rule that [OF run split(1) ins]) (use True Nil x(1,2) in auto)
    next
      case False
      obtain pv where pv: "prev = Some pv" "iprh_end h pv = Some (frag_end (last pre))" "frag_end (last pre) \<le> st"
        using prev False by blast
      obtain h' where h': "set_iprh_next_pbuf h pv x = Some h'" "same_shape h h'"
        "frag_seg h' p (pre @ (x, st, en) # []) 0"
        "\<And>c. c \<in> insert x (fst ` set (pre @ [])) \<Longrightarrow> drop 12 (pdata h' c) = drop 12 (pdata h c)"
        "\<And>c. pblock h c \<notin> pblock h ` fst ` set pre \<Longrightarrow> pdata h' c = pdata h c"
        by (rule link_behind [OF r(1) False x(1,2) ptrs(1), of "[]" pv]) (use sep split(1) Nil pv walk(2) False in auto)
      have run: "chain_frag h x v st en p = Some (Inr (contig None (pre @ [(x, st, en)]), p, h'))"
        using walk(1) pv r0 h'(1) False by (simp add: chain_frag_def chain_frag_loop.simps [of h x v st en p 0] hole)
      show ?thesis by (rule that [OF run split(1) ins]) (use h' split(1) Nil in auto)
    qed
  next
    case (Cons f post')
    obtain b t u where f: "f = (b, t, u)" by (cases f)
    obtain n where n: "r = b" "b \<noteq> 0" "frag h b n t u" "frag_seg h n post' 0" using r(2) Cons f by auto
    obtain w where w: "payload_of h b = Some w" "iprh_start h w = Some t" "iprh_end h w = Some u"
      by (rule frag_at [OF n(3)])
    have lt: "st < t" "en \<le> t"
      using fit split(1,3) Cons f by (auto simp: fits_def above_def)
    have "separate h ([] @ x # map fst fs)" using sep by simp
    note ne = separate_ne [OF this]
    have "ptr_ok b" using ptrs(2) split(1) Cons f by simp
    then obtain h1 where h1: "set_iprh_next_pbuf h v b = Some h1" "same_shape h h1" "frag h1 x b st en"
      "drop 12 (pdata h1 x) = drop 12 (pdata h x)" "\<And>c. pblock h c \<noteq> pblock h x \<Longrightarrow> pdata h1 c = pdata h c"
      using set_next [OF x(1) v] by metis
    have same: "pdata h1 c = pdata h c" if "c \<in> fst ` set fs" for c
      using that by (intro h1(5) ne) auto
    have seg1: "frag_seg h1 p pre b" "frag_seg h1 b post 0"
      using r n(1) frag_seg_other [OF h1(2) same] split(1) by auto
    show ?thesis
    proof (cases "pre = []")
      case True
      have run: "chain_frag h x v st en p = Some (Inr (contig None (pre @ [(x, st, en)]), x, h1))"
        using walk True n(1,2) w h1(1) lt
        by (simp add: chain_frag_def chain_frag_loop.simps [of h x v st en p b])
      have "drop 12 (pdata h1 c) = drop 12 (pdata h c)" if "c \<in> insert x (fst ` set fs)" for c
        using h1(4) same [of c] that by (cases "c = x") simp_all
      moreover have "frag_seg h1 x (pre @ (x, st, en) # post) 0"
        using True x(2) seg1 h1(3) by auto
      ultimately show ?thesis by (intro that [OF run split(1) ins h1(2)]) (use h1(5) in auto)
    next
      case False
      obtain pv where pv: "prev = Some pv" "iprh_end h pv = Some (frag_end (last pre))" "frag_end (last pre) \<le> st"
        using prev False by blast
      have pl: "payload_of h1 = payload_of h" by (simp add: payload_of_def same_shape_pbufs [OF h1(2)] fun_eq_iff)
      obtain ys a s e where last: "pre = ys @ [(a, s, e)]" using last_triple [OF False] by blast
      have "\<exists>m. frag h1 a m s e" using seg1(1) last by (auto simp: frag_seg_append)
      then have pend: "iprh_end h1 pv = Some (frag_end (last pre))"
        using pv(1) walk(2) last pl by (auto simp: frag_end_def elim!: frag_at)
      have sep1: "separate h1 (x # map fst (pre @ post))"
        using sep split(1) by (simp add: same_shape_separate [OF h1(2)])
      have at: "payload_of h1 (fst (last pre)) = Some pv" using pl pv(1) walk(2) False by simp
      obtain h' where h': "set_iprh_next_pbuf h1 pv x = Some h'" "same_shape h1 h'"
        "frag_seg h' p (pre @ (x, st, en) # post) 0"
        "\<And>c. c \<in> insert x (fst ` set (pre @ post)) \<Longrightarrow> drop 12 (pdata h' c) = drop 12 (pdata h1 c)"
        "\<And>c. pblock h1 c \<notin> pblock h1 ` fst ` set pre \<Longrightarrow> pdata h' c = pdata h1 c"
        by (rule link_behind [OF seg1(1) False h1(3) x(2) ptrs(1) seg1(2) sep1 at]) blast
      have run: "chain_frag h x v st en p = Some (Inr (contig None (pre @ [(x, st, en)]), p, h'))"
        using walk(1) pv n(1,2) w h1(1) h'(1) lt pend False leD [OF lt(2)] leD [OF pv(3)]
        by (simp add: chain_frag_def chain_frag_loop.simps [of h x v st en p b] hole)
      show ?thesis
      proof (rule that [OF run split(1) ins same_shape_trans [OF h1(2) h'(2)] h'(3)])
        fix c assume "c \<in> insert x (fst ` set fs)"
        then show "drop 12 (pdata h' c) = drop 12 (pdata h c)"
          using h'(4) [of c] h1(4) same [of c] split(1) by (cases "c = x") auto
      next
        fix c assume "pblock h c \<notin> pblock h ` insert x (fst ` set fs)"
        then show "pdata h' c = pdata h c"
          using h'(5) [of c] h1(5) [of c] split(1) by (simp add: same_shape_pblock [OF h1(2)] image_Un)
      qed
    qed
  qed
qed

text \<open>A fragment that overlaps another one, or starts like it, is dropped; the list stays.\<close>

lemma sorted_above:
  assumes "sorted_frags (f # fs)" "above st en f" "g \<in> set fs"
  shows "above st en g"
proof -
  have "frag_start f < frag_start g" using assms(1,3) by (simp add: sorted_frags_def)
  then show ?thesis using assms(2) by (cases f; cases g) (auto simp: above_def frag_start_def)
qed

lemma chain_frag_drops:
  assumes fs: "frag_seg h p fs 0" "sorted_frags fs" and x: "frag h x 0 st en"
    and ptrs: "\<forall>f \<in> set fs. ptr_ok (fst f)"
    and sep: "separate h (x # map fst fs)" and v: "payload_of h x = Some v"
    and fit: "\<not> (\<forall>f \<in> set fs. fits st en f)"
  obtains h' where "chain_frag h x v st en p = Some (Inl h')" "same_shape h h'" "frag_seg h' p fs 0"
    "\<And>c. pblock h c \<noteq> pblock h x \<Longrightarrow> pdata h' c = pdata h c"
proof -
  obtain pre post r prev where split: "fs = pre @ post" "\<forall>f \<in> set pre. below st f" "post = [] \<or> \<not> below st (hd post)"
    and r: "frag_seg h p pre r" "frag_seg h r post 0"
    and walk: "chain_frag_loop h x v st en p p None True = chain_frag_loop h x v st en p r prev (contig None pre)"
      "prev = (if pre = [] then None else payload_of h (fst (last pre)))"
    and prev: "pre \<noteq> [] \<longrightarrow> (\<exists>pv. prev = Some pv \<and> iprh_end h pv = Some (frag_end (last pre)) \<and> frag_end (last pre) \<le> st)"
    by (rule walk_split [OF fs(1), of st x v en])
  have "post \<noteq> []" using fit split(1,2) by (auto simp: fits_def)
  then obtain b t u post' where post: "post = (b, t, u) # post'" by (metis list.exhaust prod_cases3)
  obtain n where n: "r = b" "b \<noteq> 0" "frag h b n t u" using r(2) post by auto
  obtain w where w: "payload_of h b = Some w" "iprh_start h w = Some t" "iprh_end h w = Some u"
    by (rule frag_at [OF n(3)])
  have "\<not> above st en (b, t, u)"
  proof
    assume "above st en (b, t, u)"
    then have "\<forall>f \<in> set post. above st en f"
      using sorted_above [of "(b, t, u)" post'] fs(2) split(1) post by (auto simp: sorted_frags_append)
    then show False using fit split(1,2) by (auto simp: fits_def)
  qed
  then have bad: "\<not> (st < t \<and> en \<le> t)" "\<not> (t < st \<and> u \<le> st)"
    using split(3) post by (simp_all add: above_def below_def)
  show thesis
  proof (cases "st < t")
    case False
    then have "st = t \<or> st < u" using bad(2) by auto
    then have "chain_frag h x v st en p = Some (Inl h)"
      using walk(1) n(1,2) w False by (auto simp: chain_frag_def chain_frag_loop.simps [of h x v st en p b])
    then show thesis by (rule that) (simp_all add: fs(1))
  next
    case True
    have "ptr_ok b" using ptrs split(1) post by simp
    then obtain h1 where h1: "set_iprh_next_pbuf h v b = Some h1" "same_shape h h1"
      "\<And>c. pblock h c \<noteq> pblock h x \<Longrightarrow> pdata h1 c = pdata h c"
      using set_next [OF x v] by metis
    have "separate h ([] @ x # map fst fs)" using sep by simp
    note ne = separate_ne [OF this]
    have same: "pdata h1 c = pdata h c" if "c \<in> fst ` set fs" for c
      using that by (intro h1(3) ne) auto
    have pend: "iprh_end h1 pv = Some (frag_end (last pre))" if "prev = Some pv" and "pre \<noteq> []" for pv
    proof -
      obtain ys a s e where last: "pre = ys @ [(a, s, e)]" using last_triple [OF \<open>pre \<noteq> []\<close>] by blast
      have "frag_seg h1 p pre r" using r(1) frag_seg_other [OF h1(2) same] split(1) by auto
      then have "\<exists>m. frag h1 a m s e" using last by (auto simp: frag_seg_append)
      moreover have "payload_of h1 a = Some pv"
        using \<open>prev = Some pv\<close> walk(2) last by (simp add: payload_of_def same_shape_pbufs [OF h1(2)])
      ultimately show ?thesis using last by (auto simp: frag_end_def elim!: frag_at)
    qed
    have "chain_frag h x v st en p = Some (Inl h1)"
      using walk n(1,2) w h1(1) True bad(1) pend prev
      by (cases "pre = []") (auto simp: chain_frag_def chain_frag_loop.simps [of h x v st en p b])
    then show thesis
      using frag_seg_other [OF h1(2) same] fs(1) by (intro that [OF _ h1(2)]) (auto simp: h1(3))
  qed
qed

section \<open>Completeness\<close>

lemma holes_loop:
  assumes "frag_seg h q fs 0" "iprh_end h v = Some e" "iprh_next_pbuf h v = Some q"
  shows "\<exists>lv. holes_loop h v q = Some (contig (Some e) fs, lv) \<and>
    (contig (Some e) fs \<longrightarrow> iprh_next_pbuf h lv = Some 0 \<and>
       (if fs = [] then lv = v else payload_of h (fst (last fs)) = Some lv))"
  using assms
proof (induction fs arbitrary: q v e)
  case Nil
  then show ?case by (simp add: holes_loop.simps [of h v 0])
next
  case (Cons f fs)
  obtain a s u where f: "f = (a, s, u)" by (cases f)
  obtain n where n: "q = a" "a \<noteq> 0" "frag h a n s u" "frag_seg h n fs 0" using Cons.prems(1) f by auto
  obtain w where w: "payload_of h a = Some w" "iprh_next_pbuf h w = Some n" "iprh_start h w = Some s"
    "iprh_end h w = Some u"
    by (rule frag_at [OF n(3)])
  show ?case
  proof (cases "e = s")
    case True
    then have "holes_loop h v q = holes_loop h w n"
      using n(1,2) w Cons.prems(2) by (simp add: holes_loop.simps [of h v a])
    then show ?thesis using Cons.IH [OF n(4) w(4,2)] True f w(1) by auto
  next
    case False
    then have "holes_loop h v q = Some (False, w)"
      using n(1,2) w Cons.prems(2) by (simp add: holes_loop.simps [of h v a])
    then show ?thesis using False f by simp
  qed
qed

lemma payload_separate:
  assumes "separate h as" "a \<in> set as" "c \<in> set as" "a \<noteq> c"
    and "payload_of h a = Some v" "payload_of h c = Some w" "readable h a" "pdata h a \<noteq> []"
  shows "v \<noteq> w"
proof
  assume "v = w"
  then have "pblock h a = pblock h c" using assms(5,6) by (auto simp: payload_of_def pblock_def)
  then show False using assms(1-4) by (auto simp: separate_def distinct_map dest: inj_onD)
qed

text \<open>The check at the end: without the assertion failing when the list has more than one fragment.\<close>

lemma reass_complete_iff:
  assumes "frag_seg h p (pre @ (x, st, en) # post) 0" "payload_of h x = Some v"
    and "separate h (map fst (pre @ (x, st, en) # post))" "pre @ post \<noteq> [] \<or> st \<noteq> 0"
  shows "reass_complete h v p (contig None (pre @ [(x, st, en)])) = Some (complete (pre @ (x, st, en) # post))"
proof (cases "contig None (pre @ [(x, st, en)])")
  case False
  have "contig (Some 0) fs \<Longrightarrow> contig None fs" for fs by (cases fs) auto
  then have "\<not> complete (pre @ (x, st, en) # post)"
    using False contig_append [of None "pre @ [(x, st, en)]" post] by (auto simp: complete_def)
  then show ?thesis using False by (simp add: reass_complete_def)
next
  case True
  let ?fs = "pre @ (x, st, en) # post"
  obtain b t u fs' where fs: "?fs = (b, t, u) # fs'" by (metis append_is_Nil_conv list.exhaust prod_cases3 list.simps(3))
  obtain m where m: "p = b" "b \<noteq> 0" "frag h b m t u" using assms(1) unfolding fs by auto
  obtain w where w: "payload_of h b = Some w" "iprh_start h w = Some t" by (rule frag_at [OF m(3)])
  obtain n where n: "frag h x n st en" "frag_seg h n post 0" using assms(1) by (auto simp: frag_seg_append)
  have v: "iprh_next_pbuf h v = Some n" "iprh_end h v = Some en"
    using frag_at [OF n(1)] assms(2) by (metis option.inject)+
  obtain lv where lv: "holes_loop h v n = Some (contig (Some en) post, lv)"
    "contig (Some en) post \<longrightarrow> iprh_next_pbuf h lv = Some 0 \<and>
       (if post = [] then lv = v else payload_of h (fst (last post)) = Some lv)"
    using holes_loop [OF n(2) v(2,1)] by blast
  have comp: "complete ?fs = (t = 0 \<and> contig (Some en) post)"
  proof -
    have "contig None ?fs = contig (Some en) post"
      using True contig_append [of None "pre @ [(x, st, en)]" post] by (simp add: last_end_def frag_end_def)
    then show ?thesis unfolding fs by (auto simp: complete_def)
  qed
  show ?thesis
  proof (cases "t = 0 \<and> contig (Some en) post")
    case False
    then show ?thesis using True m(1,2) w v lv(1) comp by (auto simp: reass_complete_def)
  next
    case all: True
    define l where "l = (if post = [] then x else fst (last post))"
    have l: "payload_of h l = Some lv" using lv(2) all assms(2) by (auto simp: l_def)
    have "l \<in> set (map fst ?fs)" by (auto simp: l_def)
    moreover have "l \<noteq> b"
    proof
      assume "l = b"
      moreover have "distinct (map fst ?fs)" using assms(3) unfolding separate_def by (simp only: distinct_map)
      then have "distinct (map fst ((b, t, u) # fs'))" unfolding fs .
      moreover have "l \<in> set (map fst fs')"
      proof (cases pre)
        case Nil
        then show ?thesis using assms(4) fs all by (auto simp: l_def)
      next
        case (Cons a list)
        then show ?thesis using fs by (auto simp: l_def)
      qed
      ultimately show False by auto
    qed
    moreover have "b \<in> set (map fst ?fs)" unfolding fs by simp
    moreover have "readable h b" "pdata h b \<noteq> []" using m(3) by (auto simp: frag_def)
    ultimately have "w \<noteq> lv" using payload_separate [OF assms(3)] w(1) l by metis
    then show ?thesis using True m(1,2) w v lv all comp by (simp add: reass_complete_def)
  qed
qed

text \<open>
  The whole function on a fragment \<open>x\<close> whose header gives the range from \<open>st\<close> to \<open>en\<close>. A last
  fragment at offset 0 is a whole packet, which is never given to the reassembly.
\<close>

lemma reass_insert:
  assumes d: "rd_mem s ipr = Some d" and fs: "frag_seg (ip_heap s) (rd_p d) fs 0" "sorted_frags fs"
    and x: "x \<noteq> 0" "readable (ip_heap s) x" "20 \<le> length (pdata (ip_heap s) x)"
    and ptrs: "ptr_ok x" "\<forall>f \<in> set fs. ptr_ok (fst f)"
    and sep: "separate (ip_heap s) (x # map fst fs)"
    and hdr: "hdr = take 20 (pdata (ip_heap s) x)" "ucast (IPH_HL_BYTES hdr) \<le> lwip_htons (IPH_LEN hdr)"
    and range: "st = IPH_OFFSET_BYTES hdr" "en = st + (lwip_htons (IPH_LEN hdr) - ucast (IPH_HL_BYTES hdr))" "st \<le> en"
    and is_last: "is_last \<longrightarrow> st \<noteq> 0"
      "rd_flags d AND IP_REASS_FLAG_LASTFRAG \<noteq> 0 \<longrightarrow> (\<exists>f \<in> set fs. frag_start f \<noteq> 0)"
  defines "fs' \<equiv> insort_key frag_start (x, st, en) fs"
  shows "\<exists>h'. same_shape (ip_heap s) h' \<and>
    (if \<forall>f \<in> set fs. fits st en f then
       \<exists>p'. ip_reass_chain_frag_into_datagram_and_validate ipr x is_last s =
          Some (if (is_last \<or> rd_flags d AND IP_REASS_FLAG_LASTFRAG \<noteq> 0) \<and> complete fs'
                then IP_REASS_VALIDATE_TELEGRAM_FINISHED else IP_REASS_VALIDATE_PBUF_QUEUED,
            put_rd ipr (d\<lparr>rd_p := p'\<rparr>) (s\<lparr>ip_heap := h'\<rparr>)) \<and>
          frag_seg h' p' fs' 0 \<and>
          (\<forall>c \<in> insert x (fst ` set fs). drop 12 (pdata h' c) = drop 12 (pdata (ip_heap s) c)) \<and>
          (\<forall>c. pblock (ip_heap s) c \<notin> pblock (ip_heap s) ` insert x (fst ` set fs) \<longrightarrow> pdata h' c = pdata (ip_heap s) c)
     else ip_reass_chain_frag_into_datagram_and_validate ipr x is_last s =
            Some (IP_REASS_VALIDATE_PBUF_DROPPED, s\<lparr>ip_heap := h'\<rparr>) \<and>
          frag_seg h' (rd_p d) fs 0 \<and>
          (\<forall>c. pblock (ip_heap s) c \<noteq> pblock (ip_heap s) x \<longrightarrow> pdata h' c = pdata (ip_heap s) c))"
proof -
  let ?h = "ip_heap s"
  obtain b where b: "pbufs ?h x = Some b" using x(2) by (auto simp: readable_def split: option.splits)
  have len: "unat (pb_len b) = length (pdata ?h x)" by (rule length_pdata [OF x(2) b, symmetric])
  let ?v = "pb_payload b"
  have rd: "mem_read ?h ?v 0 IP_HLEN = Some hdr"
    using mem_read_pdata [OF x(2) b, of 0 20] x(3) len hdr(1) by (simp add: IP_HLEN_def)
  have l12: "length (store_ptr 0 @ store16 st @ store16 en) = 12" by (simp add: store16_def)
  obtain h1 where h1: "mem_write ?h ?v 0 (store_ptr 0 @ store16 st @ store16 en) = Some h1" "same_shape ?h h1"
    "pdata h1 x = patch 0 (store_ptr 0 @ store16 st @ store16 en) (pdata ?h x)"
    "\<And>c. pblock ?h c \<noteq> pblock ?h x \<Longrightarrow> pdata h1 c = pdata ?h c"
    using mem_write_pdata [OF x(2) b, of 0 "store_ptr 0 @ store16 st @ store16 en"] x(3) len l12 by auto
  have p1: "pdata h1 x = (store_ptr 0 @ store16 st @ store16 en) @ drop 12 (pdata ?h x)"
    using h1(3) l12 by (simp add: patch_def)
  have fx: "frag h1 x 0 st en"
    using p1 l12 x(2,3) by (simp add: frag_def same_shape_readable [OF h1(2)] ptr_ok_def)
  have "separate ?h ([] @ x # map fst fs)" using sep by simp
  note ne = separate_ne [OF this]
  have same: "pdata h1 c = pdata ?h c" if "c \<in> fst ` set fs" for c
    using that by (intro h1(4) ne) auto
  have d12: "drop 12 (pdata h1 c) = drop 12 (pdata ?h c)" if "c \<in> insert x (fst ` set fs)" for c
    using that p1 l12 same [of c] by (cases "c = x") simp_all
  have seg1: "frag_seg h1 (rd_p d) fs 0" using frag_seg_other [OF h1(2) same] fs(1) by simp
  have sep1: "separate h1 (x # map fst fs)" using sep by (simp add: same_shape_separate [OF h1(2)])
  have v1: "payload_of h1 x = Some ?v" using b by (simp add: payload_of_def same_shape_pbufs [OF h1(2)])
  have run: "ip_reass_chain_frag_into_datagram_and_validate ipr x is_last s = do {
           res \<leftarrow> chain_frag h1 x ?v st en (rd_p d);
           (case res of
              Inl h \<Rightarrow> Some (IP_REASS_VALIDATE_PBUF_DROPPED, s\<lparr>ip_heap := h\<rparr>)
            | Inr (valid, ipr_p, h) \<Rightarrow> do {
                let s = put_rd ipr (d\<lparr>rd_p := ipr_p\<rparr>) (s\<lparr>ip_heap := h\<rparr>);
                if is_last \<or> rd_flags d AND IP_REASS_FLAG_LASTFRAG \<noteq> 0 then do {
                  c \<leftarrow> reass_complete h ?v ipr_p valid;
                  Some (if c then IP_REASS_VALIDATE_TELEGRAM_FINISHED else IP_REASS_VALIDATE_PBUF_QUEUED, s)
                } else Some (IP_REASS_VALIDATE_PBUF_QUEUED, s)
              }) }"
    using d b rd hdr(2) h1(1) leD [OF range(3)]
    unfolding ip_reass_chain_frag_into_datagram_and_validate_def range(1,2) [symmetric] Let_def
    by (simp add: payload_of_def range(1,2) [symmetric] leD)
  show ?thesis
  proof (cases "\<forall>f \<in> set fs. fits st en f")
    case True
    obtain p' h' pre post where ins: "chain_frag h1 x ?v st en (rd_p d) = Some (Inr (contig None (pre @ [(x, st, en)]), p', h'))"
      "fs = pre @ post" "insort_key frag_start (x, st, en) fs = pre @ (x, st, en) # post"
      "same_shape h1 h'" "frag_seg h' p' (pre @ (x, st, en) # post) 0"
      "\<And>c. c \<in> insert x (fst ` set fs) \<Longrightarrow> drop 12 (pdata h' c) = drop 12 (pdata h1 c)"
      "\<And>c. pblock h1 c \<notin> pblock h1 ` insert x (fst ` set fs) \<Longrightarrow> pdata h' c = pdata h1 c"
      by (rule chain_frag_fits [OF seg1 fx x(1) ptrs sep1 v1 True]) blast
    have v': "payload_of h' x = Some ?v" using v1 by (simp add: payload_of_def same_shape_pbufs [OF ins(4)])
    have "separate h' (map fst (pre @ (x, st, en) # post))"
      using sep1 ins(2) by (simp add: same_shape_separate [OF ins(4)]) (auto simp: separate_def)
    note ready = reass_complete_iff [OF ins(5) v' this]
    have "reass_complete h' ?v p' (contig None (pre @ [(x, st, en)])) = Some (complete fs')"
      if "is_last \<or> rd_flags d AND IP_REASS_FLAG_LASTFRAG \<noteq> 0"
    proof -
      have "pre @ post \<noteq> [] \<or> st \<noteq> 0" using that is_last unfolding ins(2) [symmetric] by (cases fs) auto
      then show ?thesis using ready unfolding fs'_def ins(3) by simp
    qed
    then have "ip_reass_chain_frag_into_datagram_and_validate ipr x is_last s =
        Some (if (is_last \<or> rd_flags d AND IP_REASS_FLAG_LASTFRAG \<noteq> 0) \<and> complete fs'
              then IP_REASS_VALIDATE_TELEGRAM_FINISHED else IP_REASS_VALIDATE_PBUF_QUEUED,
          put_rd ipr (d\<lparr>rd_p := p'\<rparr>) (s\<lparr>ip_heap := h'\<rparr>))"
      unfolding run ins(1) by (auto simp: Let_def)
    moreover have "frag_seg h' p' fs' 0" using ins(5) unfolding fs'_def ins(3) .
    moreover have "pdata h' c = pdata ?h c" if "pblock ?h c \<notin> pblock ?h ` insert x (fst ` set fs)" for c
      using that ins(7) [of c] h1(4) [of c] by (simp add: same_shape_pblock [OF h1(2)])
    ultimately show ?thesis
      using True same_shape_trans [OF h1(2) ins(4)] ins(6) d12 by (intro exI [of _ h']) auto
  next
    case False
    obtain h' where h': "chain_frag h1 x ?v st en (rd_p d) = Some (Inl h')" "same_shape h1 h'"
      "frag_seg h' (rd_p d) fs 0" "\<And>c. pblock h1 c \<noteq> pblock h1 x \<Longrightarrow> pdata h' c = pdata h1 c"
      by (rule chain_frag_drops [OF seg1 fs(2) fx ptrs(2) sep1 v1 False]) blast
    have "ip_reass_chain_frag_into_datagram_and_validate ipr x is_last s =
        Some (IP_REASS_VALIDATE_PBUF_DROPPED, s\<lparr>ip_heap := h'\<rparr>)"
      unfolding run h'(1) by simp
    moreover have "pdata h' c = pdata ?h c" if "pblock ?h c \<noteq> pblock ?h x" for c
      using that h'(4) [of c] h1(4) [of c] by (simp add: same_shape_pblock [OF h1(2)])
    ultimately show ?thesis
      using False same_shape_trans [OF h1(2) h'(2)] h'(3) by (intro exI [of _ h']) (simp only: if_False, auto)
  qed
qed

end
