(* ===== verification/Lwip_Reass_Done.thy ===== *)
theory Lwip_Reass_Done
  imports Lwip_Reass_Props "HOL-Library.Multiset"
begin

text \<open>
  Completed datagrams: chaining the fragments, and taking the datagram out of the list.
\<close>

section \<open>The list of datagrams\<close>

interpretation rd_list: linked rd_next "\<lambda>q d. d\<lparr>rd_next := q\<rparr>"
  by unfold_locales simp

abbreviation rd_nodes :: "'a reass_state_scheme \<Rightarrow> nat list \<Rightarrow> bool" where
  "rd_nodes s rs \<equiv> node_list (rd_mem s) rd_next (reassdatagrams s) rs"

lemma rd_first:
  assumes "rd_nodes s (xs @ ipr # ys)"
  shows "ipr = reassdatagrams s \<longleftrightarrow> xs = []"
proof (cases xs)
  case Nil
  then show ?thesis using assms by (auto split: option.splits)
next
  case (Cons x xs')
  then have "reassdatagrams s = x" using assms by (auto split: option.splits)
  moreover have "distinct (xs @ ipr # ys)" by (rule node_list_distinct [OF assms])
  ultimately show ?thesis using Cons by auto
qed

lemma rd_pred:
  assumes "rd_nodes s (xs @ ipr # ys)"
  shows "(if ipr = reassdatagrams s then Some 0
      else find_node (rd_mem s) rd_next (\<lambda>a b. rd_next b = ipr) (reassdatagrams s))
    = Some (if xs = [] then 0 else last xs)"
proof (cases xs rule: rev_cases)
  case Nil
  then show ?thesis using rd_first [OF assms] by simp
next
  case (snoc zs y)
  have "ipr \<noteq> 0" using nodes_not_0 [OF assms] by auto
  then have pred: "(\<lambda>a b. rd_next b = ipr) = (\<lambda>(a :: nat) b. rd_next b \<noteq> 0 \<and> rd_next b = ipr)" by auto
  have "rd_nodes s (zs @ y # ipr # ys)" using assms snoc by simp
  from rd_list.find_pred [OF this] have "find_node (rd_mem s) rd_next (\<lambda>a b. rd_next b = ipr) (reassdatagrams s) = Some y"
    unfolding pred .
  then show ?thesis using rd_first [OF assms] snoc by simp
qed

lemma dequeue_list:
  assumes nodes: "rd_nodes s (xs @ ipr # ys)" and prev: "xs \<noteq> [] \<longrightarrow> prev = last xs"
  obtains s' where "ip_reass_dequeue_datagram ipr prev s = Some s'" "rd_nodes s' (xs @ ys)" "rd_mem s' ipr = None"
    "ip_heap s' = ip_heap s" "ip_reass_pbufcount s' = ip_reass_pbufcount s"
    "\<And>a. a \<noteq> ipr \<Longrightarrow> map_option (\<lambda>d. d\<lparr>rd_next := 0\<rparr>) (rd_mem s' a) = map_option (\<lambda>d. d\<lparr>rd_next := 0\<rparr>) (rd_mem s a)"
proof -
  obtain d where d: "rd_mem s ipr = Some d" using nodes_present [OF nodes] by auto
  have dist: "distinct (xs @ ipr # ys)" by (rule node_list_distinct [OF nodes])
  show thesis
  proof (cases xs rule: rev_cases)
    case Nil
    then have first: "reassdatagrams s = ipr" "node_list (rd_mem s) rd_next (rd_next d) ys"
      using nodes d by auto
    have run: "ip_reass_dequeue_datagram ipr prev s
        = Some (s\<lparr>reassdatagrams := rd_next d, rd_mem := (rd_mem s)(ipr := None)\<rparr>)"
      using d first by (simp add: ip_reass_dequeue_datagram_def)
    show thesis by (intro that [OF run]) (use Nil first(2) dist in simp_all)
  next
    case (snoc zs y)
    then have nodes': "rd_nodes s (zs @ y # ipr # ys)" using nodes by simp
    obtain e where e: "rd_mem s y = Some e" using nodes_present [OF nodes', of y] by auto
    have y: "y \<noteq> 0" "prev = y" using nodes_not_0 [OF nodes'] prev snoc by auto
    have "reassdatagrams s \<noteq> ipr" using rd_first [OF nodes] snoc by auto
    then have run: "ip_reass_dequeue_datagram ipr prev s =
        Some ((put_rd y (e\<lparr>rd_next := rd_next d\<rparr>) s)\<lparr>rd_mem := (rd_mem (put_rd y (e\<lparr>rd_next := rd_next d\<rparr>) s))(ipr := None)\<rparr>)"
      using d e y by (simp add: ip_reass_dequeue_datagram_def)
    have "node_list ((rd_mem s)(y := Some (e\<lparr>rd_next := rd_next d\<rparr>))) rd_next (reassdatagrams s) (zs @ y # ys)"
      by (rule rd_list.unlink [OF nodes' e d])
    moreover have "ipr \<notin> set (zs @ y # ys)" "y \<noteq> ipr" using dist snoc by auto
    ultimately show thesis
      by (intro that [OF run])
        (simp_all add: put_rd_def e snoc)
  qed
qed

section \<open>Chaining the fragments\<close>

lemma pbuf_clen_chain:
  assumes "chain h p as"
  shows "pbuf_clen h p = Some (of_nat (length as))"
proof -
  have "clen_loop h p n = Some (n + of_nat (length as))" for n
    using assms by (induction as arbitrary: p n) (auto simp: clen_loop.simps [of h] split: option.splits)
  then show ?thesis by (simp add: pbuf_clen_def)
qed

text \<open>The fragments that wait, each a packet with its chain of pbufs.\<close>

fun frag_list :: "heap \<Rightarrow> nat \<Rightarrow> (nat \<times> nat list) list \<Rightarrow> bool" where
  "frag_list h r [] = (r = 0)"
| "frag_list h r ((a, as) # rs) =
     (r = a \<and> a \<noteq> 0 \<and> packet h a as \<and> (\<exists>n s e. frag h a n s e \<and> frag_list h n rs))"

definition frag_pbufs :: "(nat \<times> nat list) list \<Rightarrow> nat list" where
  "frag_pbufs rs = concat (map snd rs)"

definition frag_data :: "heap \<Rightarrow> (nat \<times> nat list) list \<Rightarrow> u8 list" where
  "frag_data h rs = concat (map (\<lambda>r. drop 20 (content h (snd r))) rs)"

lemma frag_pbufs_simps [simp]: "frag_pbufs [] = []" "frag_pbufs ((a, as) # rs) = as @ frag_pbufs rs"
  by (simp_all add: frag_pbufs_def)

lemma frag_data_simps [simp]: "frag_data h [] = []" "frag_data h ((a, as) # rs) = drop 20 (content h as) @ frag_data h rs"
  by (simp_all add: frag_data_def)

lemma packet_head: "packet h a as \<Longrightarrow> a \<noteq> 0 \<Longrightarrow> a \<in> set as"
  by (erule packet_nonzero) auto

lemma same_data_frag: "same_data h h' a \<Longrightarrow> frag h a n s e \<Longrightarrow> frag h' a n s e"
  using same_data_D [of h h' a] by (simp add: frag_def)

lemma agree_frag_list:
  assumes "\<And>x. x \<in> set (frag_pbufs rs) \<Longrightarrow> agree h h' x" "frag_list h r rs"
  shows "frag_list h' r rs \<and> frag_data h' rs = frag_data h rs"
  using assms
proof (induction rs arbitrary: r)
  case (Cons f rs)
  obtain a as where f: "f = (a, as)" by (cases f)
  obtain n s e where n: "r = a" "a \<noteq> 0" "packet h a as" "frag h a n s e" "frag_list h n rs"
    using Cons.prems(2) f by auto
  have ag: "agree h h' x" if "x \<in> set as" for x using Cons.prems(1) f that by simp
  note p = agree_packet [of as h h', OF ag n(3)]
  have "agree h h' a" by (rule ag) (rule packet_head [OF n(3,2)])
  then have "frag h' a n s e" using same_data_frag [OF agree_D(1) n(4)] by simp
  then show ?case using Cons.IH [OF _ n(5)] Cons.prems(1) p n(1,2) f by auto
qed simp

lemma reass_chain_packet:
  assumes "packet h p acc" "p \<noteq> 0" "frag_list h r rs" "distinct (acc @ frag_pbufs rs)"
    and "length (content h acc) + length (frag_data h rs) < 65536"
  shows "\<exists>h'. reass_chain h p r = Some h' \<and> packet h' p (acc @ frag_pbufs rs) \<and>
    content h' (acc @ frag_pbufs rs) = content h acc @ frag_data h rs"
  using assms
proof (induction rs arbitrary: h r acc)
  case Nil
  then show ?case by (simp add: reass_chain.simps [of h p 0])
next
  case (Cons f rs)
  obtain a as where f: "f = (a, as)" by (cases f)
  obtain n s e where n: "r = a" "a \<noteq> 0" "packet h a as" "frag h a n s e" "frag_list h n rs"
    using Cons.prems(3) f by auto
  obtain b v where b: "pbufs h a = Some b" "v = pb_payload b" "payload_of h a = Some v"
    "iprh_next_pbuf h v = Some n" "unat (pb_len b) = length (pdata h a)"
    by (rule frag_at [OF n(4)])
  have "20 \<le> unat (pb_len b)" using n(4) b(5) by (simp add: frag_def)
  then obtain h1 b' where h1: "pbuf_remove_header h a 20 = Some (0, h1)" "packet h1 a as"
    "content h1 as = drop 20 (content h as)" "h1 = put_pbuf h a b'"
    using pbuf_remove_header_packet [OF n(3,2) b(1), of 20] by auto
  have a: "a \<in> set as" by (rule packet_head [OF n(3,2)])
  have disj: "set acc \<inter> set as = {}" "set acc \<inter> set (frag_pbufs rs) = {}" "set as \<inter> set (frag_pbufs rs) = {}"
    using Cons.prems(4) f by auto
  have ag_acc: "agree h h1 x" if "x \<in> set acc" for x
    using that disj(1) a unfolding h1(4) by (intro agree_put) auto
  have acc1: "packet h1 p acc" "content h1 acc = content h acc"
    using agree_packet [OF ag_acc Cons.prems(1)] by simp_all
  have ag_rs: "agree h h1 x" if "x \<in> set (frag_pbufs rs)" for x
    using that disj(3) a unfolding h1(4) by (intro agree_put) auto
  have rs1: "frag_list h1 n rs" "frag_data h1 rs = frag_data h rs"
    using agree_frag_list [OF ag_rs n(5)] by simp_all
  have len: "length (content h1 acc) + length (content h1 as) + length (frag_data h1 rs) < 65536"
    using Cons.prems(5) f acc1(2) h1(3) rs1(2) by simp
  then have len2: "length (content h1 acc) + length (content h1 as) < 65536" by simp
  obtain tb where "pbufs h1 a = Some tb" and cat: "pbuf_cat h1 p a = Some (cat_heap h1 acc a (pb_tot_len tb))"
    "packet (cat_heap h1 acc a (pb_tot_len tb)) p (acc @ as)"
    "content (cat_heap h1 acc a (pb_tot_len tb)) (acc @ as) = content h1 acc @ content h1 as"
    by (rule pbuf_cat_packet [OF acc1(1) h1(2) Cons.prems(2) n(2) disj(1) len2])
  let ?h = "cat_heap h1 acc a (pb_tot_len tb)"
  have ag2: "agree h1 ?h x" if "x \<in> set (frag_pbufs rs)" for x
    using that disj(2) by (auto simp: agree_def cat_heap_def)
  have rs2: "frag_list ?h n rs" "frag_data ?h rs = frag_data h1 rs"
    using agree_frag_list [OF ag2 rs1(1)] by simp_all
  have "blocks ?h = blocks h" using h1(4) by (simp add: cat_heap_def)
  then have "iprh_next_pbuf ?h v = Some n"
    using b(4) by (simp add: iprh_next_pbuf_def mem_read_def cong: vptr.case_cong)
  then have step: "reass_chain h p r = reass_chain ?h p n"
    using n(1,2) b(3) h1(1) cat(1) by (simp add: reass_chain.simps [of h p a] IP_HLEN_def)
  have "distinct ((acc @ as) @ frag_pbufs rs)" using Cons.prems(4) f by simp
  moreover have "length (content ?h (acc @ as)) + length (frag_data ?h rs) < 65536"
    unfolding cat(3) rs2(2) using len by simp
  ultimately obtain h' where "reass_chain ?h p n = Some h'" "packet h' p ((acc @ as) @ frag_pbufs rs)"
    "content h' ((acc @ as) @ frag_pbufs rs) = content ?h (acc @ as) @ frag_data ?h rs"
    using Cons.IH [OF cat(2) Cons.prems(2) rs2(1)] by blast
  then show ?case unfolding step cat(3) rs2(2) rs1(2) acc1(2) h1(3) f by simp
qed

section \<open>The completed datagram\<close>

lemma same_shape_frag_list:
  assumes "same_shape h h'" "\<And>x. x \<in> set (frag_pbufs rs) \<Longrightarrow> pdata h' x = pdata h x" "frag_list h r rs"
  shows "frag_list h' r rs \<and> frag_data h' rs = frag_data h rs"
  using assms(2,3)
proof (induction rs arbitrary: r)
  case (Cons f rs)
  obtain a as where f: "f = (a, as)" by (cases f)
  obtain n s e where n: "r = a" "a \<noteq> 0" "packet h a as" "frag h a n s e" "frag_list h n rs"
    using Cons.prems(2) f by auto
  have same: "pdata h' x = pdata h x" if "x \<in> set as" for x using Cons.prems(1) f that by simp
  have "frag h' a n s e"
    using frag_other [OF assms(1) same [OF packet_head [OF n(3,2)]]] n(4) by simp
  moreover have "packet h' a as" by (rule same_shape_packet [OF assms(1) n(3)])
  moreover have "content h' as = content h as" by (rule content_other) (rule same)
  moreover have "frag_list h' n rs \<and> frag_data h' rs = frag_data h rs"
    by (rule Cons.IH [OF _ n(5)]) (simp add: Cons.prems(1) f)
  ultimately show ?case using n(1,2) f by auto
qed simp

lemma length_stf16 [simp]: "length (stf16 i v hdr) = length hdr"
  by (simp add: stf16_def)

lemma length_reass_header [simp]: "length (reass_header addr iphdr len) = length iphdr"
  by (simp add: reass_header_def Let_def)

lemma reass_finish_ok:
  assumes d: "rd_mem s ipr = Some d" and nodes: "rd_nodes s (xs @ ipr # ys)"
    and frags: "frag_list (ip_heap s) (rd_p d) ((a, as) # rs)" and dist: "distinct (as @ frag_pbufs rs)"
    and block: "\<forall>x \<in> set (as @ frag_pbufs rs). x \<noteq> a \<longrightarrow> pblock (ip_heap s) x \<noteq> pblock (ip_heap s) a"
    and iphdr: "length (rd_iphdr d) = 20" and len: "20 + length (frag_data (ip_heap s) ((a, as) # rs)) < 65536"
    and count: "length (as @ frag_pbufs rs) \<le> unat (ip_reass_pbufcount s)"
  shows "\<exists>s' v. reass_finish ipr s = Some (a, s') \<and> payload_of (ip_heap s) a = Some v \<and>
    packet (ip_heap s') a (as @ frag_pbufs rs) \<and>
    content (ip_heap s') (as @ frag_pbufs rs) =
      reass_header (vptr_address (ip_heap s) v) (rd_iphdr d) (rd_datagram_len d + 20) @ frag_data (ip_heap s) ((a, as) # rs) \<and>
    rd_nodes s' (xs @ ys) \<and> rd_mem s' ipr = None \<and>
    unat (ip_reass_pbufcount s') = unat (ip_reass_pbufcount s) - length (as @ frag_pbufs rs)"
proof -
  let ?h = "ip_heap s"
  obtain n st e where n: "rd_p d = a" "a \<noteq> 0" "packet ?h a as" "frag ?h a n st e" "frag_list ?h n rs"
    using frags by auto
  obtain b v where b: "pbufs ?h a = Some b" "v = pb_payload b" "payload_of ?h a = Some v"
    "iprh_next_pbuf ?h v = Some n" "unat (pb_len b) = length (pdata ?h a)"
    by (rule frag_at [OF n(4)])
  have fr: "readable ?h a" "20 \<le> length (pdata ?h a)" using n(4) by (simp_all add: frag_def)
  let ?hdr = "reass_header (vptr_address ?h v) (rd_iphdr d) (rd_datagram_len d + 20)"
  have lh: "length ?hdr = 20" using iphdr by simp
  obtain h1 where h1: "mem_write ?h v 0 ?hdr = Some h1" "same_shape ?h h1" "pdata h1 a = patch 0 ?hdr (pdata ?h a)"
    "\<And>c. pblock ?h c \<noteq> pblock ?h a \<Longrightarrow> pdata h1 c = pdata ?h c"
    using mem_write_pdata [OF fr(1) b(1), of 0 ?hdr] fr(2) b(2,5) lh by auto
  have same: "pdata h1 x = pdata ?h x" if "x \<in> set (as @ frag_pbufs rs)" "x \<noteq> a" for x
    using block that by (intro h1(4)) simp
  obtain as' where as: "as = a # as'" by (rule packet_nonzero [OF n(3,2)])
  have "content h1 as' = content ?h as'"
    by (rule content_other) (use dist as in \<open>auto intro!: same\<close>)
  then have c1: "content h1 as = ?hdr @ drop 20 (content ?h as)"
    using h1(3) lh fr(2) as by (simp add: patch_def)
  have rs1: "frag_list h1 n rs" "frag_data h1 rs = frag_data ?h rs"
  proof -
    have "pdata h1 x = pdata ?h x" if "x \<in> set (frag_pbufs rs)" for x
      using that dist as by (intro same) auto
    then show "frag_list h1 n rs" "frag_data h1 rs = frag_data ?h rs"
      using same_shape_frag_list [OF h1(2) _ n(5)] by simp_all
  qed
  have "length (content h1 as) + length (frag_data h1 rs) < 65536"
    using len lh c1 rs1(2) by simp
  then obtain h2 where h2: "reass_chain h1 a n = Some h2" "packet h2 a (as @ frag_pbufs rs)"
    "content h2 (as @ frag_pbufs rs) = content h1 as @ frag_data h1 rs"
    using reass_chain_packet [OF same_shape_packet [OF h1(2) n(3)] n(2) rs1(1) dist] by blast
  let ?s2 = "s\<lparr>ip_heap := h2\<rparr>"
  have nodes2: "rd_nodes ?s2 (xs @ ipr # ys)" using nodes by simp
  obtain s' where s': "ip_reass_dequeue_datagram ipr (if xs = [] then 0 else last xs) ?s2 = Some s'"
    "rd_nodes s' (xs @ ys)" "rd_mem s' ipr = None" "ip_heap s' = ip_heap ?s2"
    "ip_reass_pbufcount s' = ip_reass_pbufcount ?s2"
    by (rule dequeue_list [OF nodes2, of "if xs = [] then 0 else last xs"]) auto
  have clen: "pbuf_clen (ip_heap s') a = Some (of_nat (length (as @ frag_pbufs rs)))"
    using h2(2) s'(4) by (intro pbuf_clen_chain) (simp add: packet_def)
  have small: "length (as @ frag_pbufs rs) < 65536"
    using count unat_u16_less [of "ip_reass_pbufcount s"] by linarith
  then have un: "unat (of_nat (length (as @ frag_pbufs rs)) :: u16) = length (as @ frag_pbufs rs)"
    by (rule unat_of_nat_u16)
  then have le: "(of_nat (length (as @ frag_pbufs rs)) :: u16) \<le> ip_reass_pbufcount s'"
    using count s'(5) by (simp add: word_le_nat_alt)
  have "reass_finish ipr s
      = Some (a, s'\<lparr>ip_reass_pbufcount := ip_reass_pbufcount s' - of_nat (length (as @ frag_pbufs rs))\<rparr>)"
    using d n(1) b(3,4) h1(1) h2(1) rd_pred [OF nodes2] s'(1) clen le
    by (simp add: reass_finish_def IP_HLEN_def Let_def)
  moreover have "unat (ip_reass_pbufcount s' - of_nat (length (as @ frag_pbufs rs)))
      = unat (ip_reass_pbufcount s) - length (as @ frag_pbufs rs)"
    using le un s'(5) by (subst unat_sub_u16) simp_all
  ultimately show ?thesis
    using b(3) h2(2,3) s'(2-4) c1 rs1(2)
    by (intro exI [of _ "s'\<lparr>ip_reass_pbufcount := ip_reass_pbufcount s' - of_nat (length (as @ frag_pbufs rs))\<rparr>"] exI [of _ v])
      (simp del: content_append)
qed

section \<open>One fragment of a known datagram\<close>

text \<open>
  A datagram and its fragments: the fragment pbufs, each with its chain, are packets with disjoint
  pbufs, and the memory of a fragment's head is its own.
\<close>

definition all_pbufs :: "(nat \<Rightarrow> nat list) \<Rightarrow> fragment list \<Rightarrow> nat list" where
  "all_pbufs ch fs = concat (map (\<lambda>f. ch (fst f)) fs)"

definition frags_ok :: "heap \<Rightarrow> (nat \<Rightarrow> nat list) \<Rightarrow> fragment list \<Rightarrow> bool" where
  "frags_ok h ch fs =
     ((\<forall>f \<in> set fs. fst f \<noteq> 0 \<and> ptr_ok (fst f) \<and> packet h (fst f) (ch (fst f))) \<and>
      distinct (all_pbufs ch fs) \<and>
      (\<forall>f \<in> set fs. \<forall>z \<in> set (all_pbufs ch fs). z \<noteq> fst f \<longrightarrow> pblock h z \<noteq> pblock h (fst f)))"

definition datagram ::
  "'a reass_state_scheme \<Rightarrow> nat \<Rightarrow> ip_reassdata \<Rightarrow> (nat \<Rightarrow> nat list) \<Rightarrow> fragment list \<Rightarrow> bool" where
  "datagram s ipr d ch fs =
     (rd_mem s ipr = Some d \<and> length (rd_iphdr d) = 20 \<and> frag_seg (ip_heap s) (rd_p d) fs 0 \<and>
      sorted_frags fs \<and> frags_ok (ip_heap s) ch fs \<and>
      (rd_flags d AND IP_REASS_FLAG_LASTFRAG \<noteq> 0 \<longrightarrow> (\<exists>f \<in> set fs. frag_start f \<noteq> 0)))"

definition payloads :: "heap \<Rightarrow> (nat \<Rightarrow> nat list) \<Rightarrow> fragment list \<Rightarrow> u8 list" where
  "payloads h ch fs = concat (map (\<lambda>f. drop 20 (content h (ch (fst f)))) fs)"

lemma mset_all_pbufs:
  assumes "mset fs = mset gs"
  shows "mset (all_pbufs ch fs) = mset (all_pbufs ch gs)"
proof -
  have "mset (all_pbufs ch xs) = (\<Sum>f \<in># mset xs. mset (ch (fst f)))" for xs :: "fragment list"
    by (induction xs) (simp_all add: all_pbufs_def)
  then show ?thesis using assms by simp
qed

lemma chains_disjoint:
  assumes "distinct (all_pbufs ch fs)" "f \<in> set fs" "g \<in> set fs" "f \<noteq> g"
  shows "set (ch (fst f)) \<inter> set (ch (fst g)) = {}"
  using assms
proof (induction fs)
  case (Cons a fs)
  have sub: "set (ch (fst x)) \<subseteq> set (all_pbufs ch fs)" if "x \<in> set fs" for x
    using that by (auto simp: all_pbufs_def)
  have d: "set (ch (fst a)) \<inter> set (all_pbufs ch fs) = {}" "distinct (all_pbufs ch fs)"
    using Cons.prems(1) by (auto simp: all_pbufs_def)
  consider "f = a" "g \<in> set fs" | "g = a" "f \<in> set fs" | "f \<in> set fs" "g \<in> set fs"
    using Cons.prems(2-4) by auto
  then show ?case
  proof cases
    case 3
    then show ?thesis using Cons.IH [OF d(2)] Cons.prems(4) by simp
  qed (use d sub in blast)+
qed simp

lemma frags_ok_mset:
  assumes "mset fs = mset gs" "frags_ok h ch fs"
  shows "frags_ok h ch gs"
proof -
  have "mset (all_pbufs ch fs) = mset (all_pbufs ch gs)" by (rule mset_all_pbufs [OF assms(1)])
  then have "distinct (all_pbufs ch fs) = distinct (all_pbufs ch gs)" "set (all_pbufs ch fs) = set (all_pbufs ch gs)"
    by (rule mset_eq_imp_distinct_iff, rule mset_eq_setD)
  moreover have "set fs = set gs" by (rule mset_eq_setD [OF assms(1)])
  ultimately show ?thesis using assms(2) by (simp add: frags_ok_def)
qed

lemma frags_ok_shape: "same_shape h h' \<Longrightarrow> frags_ok h ch fs \<Longrightarrow> frags_ok h' ch fs"
  using same_shape_packet [of h h'] by (simp add: frags_ok_def same_shape_pblock)

lemma frags_ok_Cons:
  assumes "frags_ok h ch (f # fs)"
  shows "frags_ok h ch fs" "fst f \<noteq> 0" "ptr_ok (fst f)" "packet h (fst f) (ch (fst f))"
    "\<forall>g \<in> set fs. ptr_ok (fst g)"
    "\<And>z. z \<in> set (all_pbufs ch (f # fs)) \<Longrightarrow> z \<noteq> fst f \<Longrightarrow> pblock h z \<noteq> pblock h (fst f)"
  using assms by (auto simp: frags_ok_def all_pbufs_def)

lemma head_in_chain: "frags_ok h ch fs \<Longrightarrow> f \<in> set fs \<Longrightarrow> fst f \<in> set (ch (fst f))"
  by (auto simp: frags_ok_def intro: packet_head)

lemma frags_ok_separate: "frags_ok h ch fs \<Longrightarrow> separate h (map fst fs)"
proof (induction fs)
  case (Cons f fs)
  note ok = frags_ok_Cons [OF Cons.prems]
  have "pblock h (fst g) \<noteq> pblock h (fst f)" if g: "g \<in> set fs" for g
  proof -
    have "fst g \<in> set (ch (fst g))" "fst f \<in> set (ch (fst f))"
      using head_in_chain [OF Cons.prems] g by auto
    then have "fst g \<in> set (all_pbufs ch fs)" using g by (auto simp: all_pbufs_def)
    moreover have "fst f \<notin> set (all_pbufs ch fs)"
      using Cons.prems \<open>fst f \<in> set (ch (fst f))\<close> by (auto simp: frags_ok_def all_pbufs_def)
    ultimately have "fst g \<noteq> fst f" "fst g \<in> set (all_pbufs ch (f # fs))" by (auto simp: all_pbufs_def)
    then show ?thesis using ok(6) by blast
  qed
  then have "pblock h (fst f) \<notin> pblock h ` set (map fst fs)" by fastforce
  then show ?case using Cons.IH [OF ok(1)] by (simp only: separate_def list.map distinct.simps set_map) simp
qed (simp add: separate_def)

lemma frag_seg_list:
  assumes "frag_seg h p fs 0" "\<forall>f \<in> set fs. packet h (fst f) (ch (fst f))"
  shows "frag_list h p (map (\<lambda>f. (fst f, ch (fst f))) fs)"
  using assms
proof (induction fs arbitrary: p)
  case (Cons f fs)
  then show ?case by (cases f) auto
qed simp

lemma frag_pbufs_map: "frag_pbufs (map (\<lambda>f. (fst f, ch (fst f))) fs) = all_pbufs ch fs"
  by (simp add: frag_pbufs_def all_pbufs_def comp_def)

lemma frag_data_map: "frag_data h (map (\<lambda>f. (fst f, ch (fst f))) fs) = payloads h ch fs"
  by (simp add: frag_data_def payloads_def comp_def)

text \<open>Writing helpers changes no payload.\<close>

lemma chain_payload:
  assumes "frags_ok h ch fs" "f \<in> set fs" "same_shape h h'"
    and "drop 12 (pdata h' (fst f)) = drop 12 (pdata h (fst f))" "20 \<le> length (pdata h (fst f))"
    and "\<And>c. pblock h c \<notin> pblock h ` fst ` set fs \<Longrightarrow> pdata h' c = pdata h c"
  shows "drop 20 (content h' (ch (fst f))) = drop 20 (content h (ch (fst f)))"
proof -
  have p: "packet h (fst f) (ch (fst f))" "fst f \<noteq> 0" using assms(1,2) by (auto simp: frags_ok_def)
  obtain b cs where cs: "ch (fst f) = fst f # cs" "readable h (fst f)"
    by (rule packet_nonzero [OF p]) blast
  have d: "distinct (fst f # cs)" using packet_distinct [OF p(1)] cs(1) by simp
  have tail: "pdata h' c = pdata h c" if c: "c \<in> set cs" for c
  proof (rule assms(6))
    show "pblock h c \<notin> pblock h ` fst ` set fs"
    proof
      assume "pblock h c \<in> pblock h ` fst ` set fs"
      then obtain g where g: "g \<in> set fs" "pblock h c = pblock h (fst g)" by auto
      have "c \<in> set (all_pbufs ch fs)" using assms(2) cs(1) c by (force simp: all_pbufs_def)
      then have "c = fst g" using assms(1) g by (auto simp: frags_ok_def)
      moreover have "g \<noteq> f" using d c calculation by auto
      moreover have "fst g \<in> set (ch (fst g))" by (rule head_in_chain [OF assms(1) g(1)])
      ultimately show False
        using chains_disjoint [of ch fs f g] assms(1,2) g(1) cs(1) c by (auto simp: frags_ok_def)
    qed
  qed
  have "content h' cs = content h cs" by (rule content_other) (rule tail)
  moreover have "length (pdata h' (fst f)) = length (pdata h (fst f))"
    by (rule same_shape_length_pdata [OF assms(3) cs(2)])
  moreover have "drop 20 (pdata h' (fst f)) = drop 20 (pdata h (fst f))"
    using arg_cong [OF assms(4), of "drop 8"] by simp
  ultimately show ?thesis using assms(5) cs(1) by simp
qed

text \<open>
  The header that decides: the one of the first fragment as soon as it is there. A fragment at
  offset 0 replaces the header of a datagram that started with another fragment.
\<close>

definition new_iphdr :: "u8 list \<Rightarrow> ip_reassdata \<Rightarrow> u8 list" where
  "new_iphdr hdr d =
     (if lwip_htons (IPH_OFFSET hdr) AND IP_OFFMASK = 0 \<and> lwip_htons (IPH_OFFSET (rd_iphdr d)) AND IP_OFFMASK \<noteq> 0
      then hdr else rd_iphdr d)"

lemma find_datagram:
  assumes "rd_nodes s (us @ ipr # vs)" "rd_mem s ipr = Some d" "P d" "\<forall>u \<in> set us. \<not> P (the (rd_mem s u))"
  shows "find_node (rd_mem s) rd_next (\<lambda>a. P) (reassdatagrams s) = Some ipr"
proof -
  have "find (\<lambda>a. P (the (rd_mem s a))) (us @ ipr # vs) = Some ipr"
    using assms(2-4) by (induction us) simp_all
  then show ?thesis using find_node_list [OF assms(1), of "\<lambda>a. P"] by simp
qed

lemma rd_nodes_put:
  assumes "rd_mem s ipr = Some d" "rd_next d' = rd_next d"
  shows "rd_nodes (put_rd ipr d' s) rs = rd_nodes s rs"
  by (simp add: put_rd_def nodes_upd_same [where mem = "rd_mem s" and nx = rd_next] assms)

lemma frag_seg_frag:
  "frag_seg h p fs q \<Longrightarrow> f \<in> set fs \<Longrightarrow> \<exists>n. frag h (fst f) n (frag_start f) (frag_end f)"
  by (induction fs arbitrary: p) (auto simp: frag_start_def frag_end_def)

lemma sorted_frags_insert:
  assumes "sorted_frags fs" "\<forall>f \<in> set fs. fits st en f" "st \<le> en"
  shows "sorted_frags (insort_key frag_start (x, st, en) fs)"
  using assms
proof (induction fs)
  case Nil
  then show ?case by (simp add: sorted_frags_def frag_start_def frag_end_def)
next
  case (Cons f fs)
  let ?x = "(x, st, en)"
  have IH: "sorted_frags (insort_key frag_start ?x fs)"
    using Cons by (simp add: sorted_frags_def)
  have f: "frag_start f \<le> frag_end f" "\<forall>g \<in> set fs. frag_start f < frag_start g \<and> frag_end f \<le> frag_start g"
    using Cons.prems(1) by (auto simp: sorted_frags_def)
  show ?case
  proof (cases "frag_start ?x \<le> frag_start f")
    case True
    then have "above st en f" using Cons.prems(2) by (auto simp: fits_def below_def frag_start_def)
    then have "st < frag_start f \<and> en \<le> frag_start f" by (auto simp: above_def frag_start_def)
    moreover from this f(2) have "\<forall>g \<in> set fs. st < frag_start g \<and> en \<le> frag_start g"
      by (meson less_trans order.strict_implies_order order_trans)
    ultimately show ?thesis
      using True Cons.prems(1,3) by (auto simp: sorted_frags_def frag_start_def frag_end_def)
  next
    case False
    then have "below st f" using Cons.prems(2) by (auto simp: fits_def above_def frag_start_def)
    then have "frag_start f < st \<and> frag_end f \<le> st" by (auto simp: below_def frag_start_def frag_end_def)
    moreover have "frag_start ?x = st" "frag_end ?x = en" by (simp_all add: frag_start_def frag_end_def)
    ultimately show ?thesis
      using False IH f by (simp add: sorted_frags_def set_insort_key)
  qed
qed

lemma ip4_reass_step:
  assumes dg: "datagram s ipr d ch fs" and nodes: "rd_nodes s (us @ ipr # vs)"
    and ok: "frags_ok (ip_heap s) ch ((x, st, en) # fs)" and room20: "20 \<le> length (pdata (ip_heap s) x)"
  defines "hdr \<equiv> take 20 (pdata (ip_heap s) x)"
  defines "is_last \<equiv> IPH_OFFSET hdr AND lwip_htons IP_MF = 0"
  defines "d1 \<equiv> d\<lparr>rd_iphdr := new_iphdr hdr d\<rparr>"
  defines "flag \<equiv> is_last \<or> rd_flags d AND IP_REASS_FLAG_LASTFRAG \<noteq> 0"
  defines "fs' \<equiv> insort_key frag_start (x, st, en) fs"
  defines "dlen \<equiv> if is_last then en else rd_datagram_len d"
  assumes hl: "IPH_HL_BYTES hdr = 20" "20 \<le> lwip_htons (IPH_LEN hdr)"
    and range: "st = IPH_OFFSET_BYTES hdr" "en = st + (lwip_htons (IPH_LEN hdr) - 20)" "st \<le> en"
    and at_end: "is_last \<longrightarrow> st \<noteq> 0 \<and> unat en \<le> 0xFFFF - 20"
    and key: "IP_ADDRESSES_AND_ID_MATCH (rd_iphdr d) hdr"
      "\<forall>u \<in> set us. \<not> IP_ADDRESSES_AND_ID_MATCH (rd_iphdr (the (rd_mem s u))) hdr"
    and room: "unat (ip_reass_pbufcount s) + length (ch x) \<le> 10"
    and count: "length (all_pbufs ch fs) \<le> unat (ip_reass_pbufcount s)"
    and total: "20 + length (payloads (ip_heap s) ch fs') < 65536"
  shows "if \<not> (\<forall>f \<in> set fs. fits st en f) then
      \<exists>h'. ip4_reass env x s = do { (c, h) \<leftarrow> pbuf_free h' x; Some (0, (put_rd ipr d1 s)\<lparr>ip_heap := h\<rparr>) } \<and>
        datagram ((put_rd ipr d1 s)\<lparr>ip_heap := h'\<rparr>) ipr d1 ch fs
    else if flag \<and> complete fs' then
      \<exists>p s' addr. ip4_reass env x s = Some (p, s') \<and> packet (ip_heap s') p (all_pbufs ch fs') \<and>
        content (ip_heap s') (all_pbufs ch fs') =
          reass_header addr (new_iphdr hdr d) (dlen + 20) @ payloads (ip_heap s) ch fs' \<and>
        rd_nodes s' (us @ vs)
    else
      \<exists>s' d'. ip4_reass env x s = Some (0, s') \<and> datagram s' ipr d' ch fs' \<and> rd_nodes s' (us @ ipr # vs) \<and>
        payloads (ip_heap s') ch fs' = payloads (ip_heap s) ch fs' \<and>
        (rd_flags d' AND IP_REASS_FLAG_LASTFRAG \<noteq> 0) = flag \<and> rd_datagram_len d' = dlen \<and>
        rd_iphdr d' = new_iphdr hdr d \<and>
        unat (ip_reass_pbufcount s') = unat (ip_reass_pbufcount s) + length (ch x)"
proof -
  let ?h = "ip_heap s"
  have d: "rd_mem s ipr = Some d" "length (rd_iphdr d) = 20" "frag_seg ?h (rd_p d) fs 0" "sorted_frags fs"
    "rd_flags d AND IP_REASS_FLAG_LASTFRAG \<noteq> 0 \<longrightarrow> (\<exists>f \<in> set fs. frag_start f \<noteq> 0)"
    using dg by (simp_all add: datagram_def)
  have okx: "frags_ok ?h ch fs" "x \<noteq> 0" "ptr_ok x" "packet ?h x (ch x)" "\<forall>f \<in> set fs. ptr_ok (fst f)"
    using frags_ok_Cons [OF ok] by simp_all
  have sep: "separate ?h (x # map fst fs)" using frags_ok_separate [OF ok] by simp
  obtain b xs where b: "ch x = x # xs" "pbufs ?h x = Some b" "readable ?h x" "length (pdata ?h x) = unat (pb_len b)"
    by (rule packet_nonzero [OF okx(4,2)])
  have rd: "read_payload ?h x 0 IP_HLEN = Some hdr"
    using mem_read_pdata [OF b(3,2), of 0 20] room20 b(2,4)
    by (simp add: read_payload_def hdr_def IP_HLEN_def)
  have clen: "pbuf_clen ?h x = Some (of_nat (length (ch x)))"
    using okx(4) by (intro pbuf_clen_chain) (simp add: packet_def)
  have uclen: "unat (of_nat (length (ch x)) :: u16) = length (ch x)"
    using room by (intro unat_of_nat_u16) linarith
  define s1 where "s1 = put_rd ipr d1 s"
  have lh: "length hdr = 20" using room20 by (simp add: hdr_def)
  then have l1: "length (new_iphdr hdr d) = 20" using d(2) by (simp add: new_iphdr_def)
  have ipr: "ipr \<noteq> 0" using nodes_not_0 [OF nodes] by auto
  have same_s: "s1 = s" if "new_iphdr hdr d = rd_iphdr d"
    using that d(1) by (simp add: s1_def d1_def put_rd_def fun_upd_idem)
  have "find_node (rd_mem s) rd_next (\<lambda>a d. IP_ADDRESSES_AND_ID_MATCH (rd_iphdr d) hdr) (reassdatagrams s) = Some ipr"
    by (rule find_datagram [OF nodes d(1)]) (use key in auto)
  then have lookup: "reass_lookup env hdr clen s = Some (ipr, s1)" for clen
    using d(1) ipr same_s lh by (auto simp: reass_lookup_def s1_def d1_def new_iphdr_def IP_HLEN_def)
  have not_over: "\<not> (is_last \<and> (en < st \<or> unat en > 0xFFFF - IP_HLEN))"
    using at_end range(3) by (auto simp: IP_HLEN_def)
  have step: "ip4_reass env x s = reass_enter ipr x is_last en (of_nat (length (ch x))) s1"
  proof -
    have "\<not> unat (ip_reass_pbufcount s) + unat (of_nat (length (ch x)) :: u16) > IP_REASS_MAX_PBUFS"
      using room uclen by (simp add: IP_REASS_MAX_PBUFS_def)
    then have "reass_make_room env hdr (unat (of_nat (length (ch x)) :: u16)) s = Some (True, s)"
      by (simp add: reass_make_room_def)
    moreover have "\<not> ucast (IPH_HL_BYTES hdr) > lwip_htons (IPH_LEN hdr)" using hl by simp
    moreover have "ucast (IPH_HL_BYTES hdr) = (20 :: u16)" "unat (IPH_HL_BYTES hdr) = IP_HLEN"
      using hl(1) by (simp_all add: IP_HLEN_def)
    ultimately show ?thesis
      using rd clen lookup not_over ipr
      by (auto simp: ip4_reass_def Let_def range(1,2) [symmetric] is_last_def [symmetric])
  qed
  have s1: "rd_mem s1 ipr = Some d1" "ip_heap s1 = ?h" "ip_reass_pbufcount s1 = ip_reass_pbufcount s"
    and d1: "rd_p d1 = rd_p d" "rd_flags d1 = rd_flags d" "rd_next d1 = rd_next d"
      "rd_datagram_len d1 = rd_datagram_len d" "rd_iphdr d1 = new_iphdr hdr d"
    by (simp_all add: s1_def d1_def put_rd_def)
  have hl': "ucast (IPH_HL_BYTES hdr) = (20 :: u16)" using hl(1) by simp
  have late: "is_last \<longrightarrow> st \<noteq> 0" using at_end by blast
  have "\<exists>h'. same_shape ?h h' \<and>
    (if \<forall>f \<in> set fs. fits st en f then
       \<exists>p'. ip_reass_chain_frag_into_datagram_and_validate ipr x is_last s1 =
          Some (if flag \<and> complete fs' then IP_REASS_VALIDATE_TELEGRAM_FINISHED else IP_REASS_VALIDATE_PBUF_QUEUED,
            put_rd ipr (d1\<lparr>rd_p := p'\<rparr>) (s1\<lparr>ip_heap := h'\<rparr>)) \<and>
          frag_seg h' p' fs' 0 \<and>
          (\<forall>c \<in> insert x (fst ` set fs). drop 12 (pdata h' c) = drop 12 (pdata ?h c)) \<and>
          (\<forall>c. pblock ?h c \<notin> pblock ?h ` insert x (fst ` set fs) \<longrightarrow> pdata h' c = pdata ?h c)
     else ip_reass_chain_frag_into_datagram_and_validate ipr x is_last s1 =
            Some (IP_REASS_VALIDATE_PBUF_DROPPED, s1\<lparr>ip_heap := h'\<rparr>) \<and>
          frag_seg h' (rd_p d) fs 0 \<and>
          (\<forall>c. pblock ?h c \<noteq> pblock ?h x \<longrightarrow> pdata h' c = pdata ?h c))"
    unfolding fs'_def flag_def
    by (rule reass_insert [OF s1(1), where hdr = hdr, unfolded s1(2) d1(1,2)])
      (use d okx room20 sep b(3) hl(2) hl' range hdr_def late in simp_all)
  then obtain h' where ins: "same_shape ?h h'"
    "if \<forall>f \<in> set fs. fits st en f then
       \<exists>p'. ip_reass_chain_frag_into_datagram_and_validate ipr x is_last s1 =
          Some (if flag \<and> complete fs' then IP_REASS_VALIDATE_TELEGRAM_FINISHED else IP_REASS_VALIDATE_PBUF_QUEUED,
            put_rd ipr (d1\<lparr>rd_p := p'\<rparr>) (s1\<lparr>ip_heap := h'\<rparr>)) \<and>
          frag_seg h' p' fs' 0 \<and>
          (\<forall>c \<in> insert x (fst ` set fs). drop 12 (pdata h' c) = drop 12 (pdata ?h c)) \<and>
          (\<forall>c. pblock ?h c \<notin> pblock ?h ` insert x (fst ` set fs) \<longrightarrow> pdata h' c = pdata ?h c)
     else ip_reass_chain_frag_into_datagram_and_validate ipr x is_last s1 =
            Some (IP_REASS_VALIDATE_PBUF_DROPPED, s1\<lparr>ip_heap := h'\<rparr>) \<and>
          frag_seg h' (rd_p d) fs 0 \<and>
          (\<forall>c. pblock ?h c \<noteq> pblock ?h x \<longrightarrow> pdata h' c = pdata ?h c)"
    by blast
  show ?thesis
  proof (cases "\<forall>f \<in> set fs. fits st en f")
    case False
    then have no: "ip_reass_chain_frag_into_datagram_and_validate ipr x is_last s1 =
        Some (IP_REASS_VALIDATE_PBUF_DROPPED, s1\<lparr>ip_heap := h'\<rparr>)" "frag_seg h' (rd_p d) fs 0"
      using ins(2) by simp_all
    have "rd_p d \<noteq> 0" using d(3) False by (cases fs) auto
    then have "ip4_reass env x s = do { (c, h) \<leftarrow> pbuf_free h' x; Some (0, (put_rd ipr d1 s)\<lparr>ip_heap := h\<rparr>) }"
      unfolding step reass_enter_def no(1)
      by (simp add: reass_nullreturn_ipr_def reass_nullreturn_def s1(1) d1(1)) (simp add: s1_def)
    moreover have "datagram ((put_rd ipr d1 s)\<lparr>ip_heap := h'\<rparr>) ipr d1 ch fs"
      using no(2) d(4,5) frags_ok_shape [OF ins(1) okx(1)] d1(1,2,5) l1 by (simp add: datagram_def put_rd_def)
    ultimately show ?thesis using False by auto
  next
    case True
    then obtain p' where yes: "ip_reass_chain_frag_into_datagram_and_validate ipr x is_last s1 =
          Some (if flag \<and> complete fs' then IP_REASS_VALIDATE_TELEGRAM_FINISHED else IP_REASS_VALIDATE_PBUF_QUEUED,
            put_rd ipr (d1\<lparr>rd_p := p'\<rparr>) (s1\<lparr>ip_heap := h'\<rparr>))"
      "frag_seg h' p' fs' 0" "\<forall>c \<in> insert x (fst ` set fs). drop 12 (pdata h' c) = drop 12 (pdata ?h c)"
      "\<forall>c. pblock ?h c \<notin> pblock ?h ` insert x (fst ` set fs) \<longrightarrow> pdata h' c = pdata ?h c"
      using ins(2) by auto
    have ms: "mset ((x, st, en) # fs) = mset fs'" by (simp add: fs'_def)
    have set': "set fs' = insert (x, st, en) (set fs)" by (simp add: fs'_def set_insort_key)
    have okfs: "frags_ok ?h ch fs'" by (rule frags_ok_mset [OF ms ok])
    have pay: "payloads h' ch fs' = payloads ?h ch fs'"
    proof -
      have "drop 20 (content h' (ch (fst f))) = drop 20 (content ?h (ch (fst f)))" if "f \<in> set fs'" for f
      proof (rule chain_payload [OF okfs that ins(1)])
        show "drop 12 (pdata h' (fst f)) = drop 12 (pdata ?h (fst f))" using yes(3) that set' by auto
        show "20 \<le> length (pdata ?h (fst f))"
        proof (cases "f = (x, st, en)")
          case False
          then have "f \<in> set fs" using that set' by simp
          then show ?thesis using frag_seg_frag [OF d(3)] by (auto simp: frag_def)
        qed (use room20 in simp)
        show "pdata h' c = pdata ?h c" if "pblock ?h c \<notin> pblock ?h ` fst ` set fs'" for c
          using yes(4) that set' by simp
      qed
      then show ?thesis by (simp add: payloads_def cong: map_cong)
    qed
    define d2 where "d2 = (if is_last then d1\<lparr>rd_p := p', rd_datagram_len := en,
        rd_flags := rd_flags d1 OR IP_REASS_FLAG_LASTFRAG\<rparr> else d1\<lparr>rd_p := p'\<rparr>)"
    define t where "t = (put_rd ipr (d1\<lparr>rd_p := p'\<rparr>) (s1\<lparr>ip_heap := h'\<rparr>))
      \<lparr>ip_reass_pbufcount := ip_reass_pbufcount s + of_nat (length (ch x))\<rparr>"
    define s2 where "s2 = (if is_last then put_rd ipr d2 t else t)"
    have enter: "ip4_reass env x s = (if flag \<and> complete fs' then reass_finish ipr s2 else Some (0, s2))"
      unfolding step reass_enter_def yes(1) by (simp add: Let_def s1(3) s2_def t_def d2_def put_rd_def)
    have d2: "rd_p d2 = p'" "rd_datagram_len d2 = dlen" "rd_iphdr d2 = new_iphdr hdr d" "rd_next d2 = rd_next d"
      by (simp_all add: d2_def dlen_def d1)
    have flag2: "(rd_flags d2 AND IP_REASS_FLAG_LASTFRAG \<noteq> 0) = flag"
      by (simp add: d2_def flag_def d1 IP_REASS_FLAG_LASTFRAG_def)
    have s2: "rd_mem s2 ipr = Some d2" "ip_heap s2 = h'" "rd_nodes s2 (us @ ipr # vs)"
      "unat (ip_reass_pbufcount s2) = unat (ip_reass_pbufcount s) + length (ch x)"
    proof -
      have mem: "rd_mem s2 = (rd_mem s)(ipr \<mapsto> d2)" "reassdatagrams s2 = reassdatagrams s"
        "ip_reass_pbufcount s2 = ip_reass_pbufcount s + of_nat (length (ch x))" "ip_heap s2 = h'"
        by (simp_all add: s2_def t_def s1_def put_rd_def d2_def)
      then show "rd_mem s2 ipr = Some d2" "ip_heap s2 = h'" by simp_all
      show "rd_nodes s2 (us @ ipr # vs)"
        using rd_nodes_put [OF d(1) d2(4)] nodes mem(1,2) by (simp add: put_rd_def)
      have "unat (ip_reass_pbufcount s) + unat (of_nat (length (ch x)) :: u16) < 65536" using room uclen by simp
      then show "unat (ip_reass_pbufcount s2) = unat (ip_reass_pbufcount s) + length (ch x)"
        unfolding mem(3) by (subst unat_add_u16_small) (simp_all add: uclen)
    qed
    show ?thesis
    proof (cases "flag \<and> complete fs'")
      case False
      have "sorted_frags fs'" unfolding fs'_def by (rule sorted_frags_insert [OF d(4) True range(3)])
      moreover have "flag \<longrightarrow> (\<exists>f \<in> set fs'. frag_start f \<noteq> 0)"
        using at_end d(5) set' by (auto simp: flag_def frag_start_def)
      ultimately have "datagram s2 ipr d2 ch fs'"
        using s2(1,2) d2 yes(2) frags_ok_shape [OF ins(1) okfs] l1 flag2 by (simp add: datagram_def)
      then show ?thesis
        using True False enter s2 pay flag2 d2(2,3) by (auto intro!: exI [of _ s2] exI [of _ d2])
    next
      case fin: True
      have "fs' \<noteq> []" using set' by auto
      then obtain f gs where fg: "fs' = f # gs" by (cases fs') auto
      have ok': "frags_ok h' ch (f # gs)" using frags_ok_shape [OF ins(1) okfs] fg by simp
      have "frag_list h' p' (map (\<lambda>f. (fst f, ch (fst f))) fs')"
        by (rule frag_seg_list [OF yes(2)]) (use frags_ok_shape [OF ins(1) okfs] in \<open>simp add: frags_ok_def\<close>)
      then have fl: "frag_list (ip_heap s2) (rd_p d2) ((fst f, ch (fst f)) # map (\<lambda>f. (fst f, ch (fst f))) gs)"
        using fg s2(2) d2(1) by simp
      have pb: "ch (fst f) @ frag_pbufs (map (\<lambda>f. (fst f, ch (fst f))) gs) = all_pbufs ch fs'"
        by (simp add: frag_pbufs_map fg all_pbufs_def)
      have fd: "frag_data h' ((fst f, ch (fst f)) # map (\<lambda>f. (fst f, ch (fst f))) gs) = payloads ?h ch fs'"
        using pay by (simp add: frag_data_map fg payloads_def)
      have "length (all_pbufs ch fs') = length (all_pbufs ch ((x, st, en) # fs))"
        using mset_all_pbufs [OF ms] by (metis size_mset)
      then have "length (all_pbufs ch fs') = length (ch x) + length (all_pbufs ch fs)"
        by (simp add: all_pbufs_def)
      then have "length (all_pbufs ch fs') \<le> unat (ip_reass_pbufcount s2)" using count s2(4) by linarith
      moreover have "distinct (all_pbufs ch fs')"
        "\<forall>z \<in> set (all_pbufs ch fs'). z \<noteq> fst f \<longrightarrow> pblock h' z \<noteq> pblock h' (fst f)"
        using frags_ok_shape [OF ins(1) okfs] fg by (simp_all add: frags_ok_def)
      moreover have "length (rd_iphdr d2) = 20" using l1 d2(3) by simp
      ultimately have "\<exists>s' v. reass_finish ipr s2 = Some (fst f, s') \<and> payload_of (ip_heap s2) (fst f) = Some v \<and>
        packet (ip_heap s') (fst f) (all_pbufs ch fs') \<and>
        content (ip_heap s') (all_pbufs ch fs') =
          reass_header (vptr_address (ip_heap s2) v) (rd_iphdr d2) (rd_datagram_len d2 + 20) @ payloads ?h ch fs' \<and>
        rd_nodes s' (us @ vs) \<and> rd_mem s' ipr = None \<and>
        unat (ip_reass_pbufcount s') = unat (ip_reass_pbufcount s2) - length (all_pbufs ch fs')"
        using reass_finish_ok [OF s2(1,3) fl] total unfolding pb s2(2) fd by blast
      then obtain s' v where "reass_finish ipr s2 = Some (fst f, s')"
        "packet (ip_heap s') (fst f) (all_pbufs ch fs')"
        "content (ip_heap s') (all_pbufs ch fs') =
          reass_header (vptr_address (ip_heap s2) v) (rd_iphdr d2) (rd_datagram_len d2 + 20) @ payloads ?h ch fs'"
        "rd_nodes s' (us @ vs)" by blast
      then show ?thesis using True fin enter d2(2,3) by auto
    qed
  qed
qed

text \<open>C28: A fragment of a known datagram, with room for its pbufs, is inserted into the fragments
  of the datagram, which stay sorted by offset and free of overlaps. It is freed when it overlaps
  another one. When the last fragment has been seen and the fragments cover the datagram from
  offset 0 without a hole, the result is one packet with the header of the first fragment and the
  payloads in the order of their offsets, and the datagram leaves the list; otherwise nothing is
  returned and the datagram stays well formed.\<close>

theorem ip4_reass_correct:
  assumes dg: "datagram s ipr d ch fs" and nodes: "rd_nodes s (us @ ipr # vs)"
    and ok: "frags_ok (ip_heap s) ch ((x, st, en) # fs)" and room20: "20 \<le> length (pdata (ip_heap s) x)"
  defines "hdr \<equiv> take 20 (pdata (ip_heap s) x)"
  defines "is_last \<equiv> IPH_OFFSET hdr AND lwip_htons IP_MF = 0"
  defines "d1 \<equiv> d\<lparr>rd_iphdr := new_iphdr hdr d\<rparr>"
  defines "flag \<equiv> is_last \<or> rd_flags d AND IP_REASS_FLAG_LASTFRAG \<noteq> 0"
  defines "fs' \<equiv> insort_key frag_start (x, st, en) fs"
  defines "dlen \<equiv> if is_last then en else rd_datagram_len d"
  assumes hl: "IPH_HL_BYTES hdr = 20" "20 \<le> lwip_htons (IPH_LEN hdr)"
    and range: "st = IPH_OFFSET_BYTES hdr" "en = st + (lwip_htons (IPH_LEN hdr) - 20)" "st \<le> en"
    and at_end: "is_last \<longrightarrow> st \<noteq> 0 \<and> unat en \<le> 0xFFFF - 20"
    and key: "IP_ADDRESSES_AND_ID_MATCH (rd_iphdr d) hdr"
      "\<forall>u \<in> set us. \<not> IP_ADDRESSES_AND_ID_MATCH (rd_iphdr (the (rd_mem s u))) hdr"
    and room: "unat (ip_reass_pbufcount s) + length (ch x) \<le> 10"
    and count: "length (all_pbufs ch fs) \<le> unat (ip_reass_pbufcount s)"
    and total: "20 + length (payloads (ip_heap s) ch fs') < 65536"
  shows "if \<not> (\<forall>f \<in> set fs. fits st en f) then
      \<exists>h'. ip4_reass env x s = do { (c, h) \<leftarrow> pbuf_free h' x; Some (0, (put_rd ipr d1 s)\<lparr>ip_heap := h\<rparr>) } \<and>
        datagram ((put_rd ipr d1 s)\<lparr>ip_heap := h'\<rparr>) ipr d1 ch fs
    else if flag \<and> complete fs' then
      \<exists>p s' addr. ip4_reass env x s = Some (p, s') \<and> packet (ip_heap s') p (all_pbufs ch fs') \<and>
        content (ip_heap s') (all_pbufs ch fs') =
          reass_header addr (new_iphdr hdr d) (dlen + 20) @ payloads (ip_heap s) ch fs' \<and>
        rd_nodes s' (us @ vs)
    else
      \<exists>s' d'. ip4_reass env x s = Some (0, s') \<and> datagram s' ipr d' ch fs' \<and> rd_nodes s' (us @ ipr # vs) \<and>
        payloads (ip_heap s') ch fs' = payloads (ip_heap s) ch fs' \<and>
        (rd_flags d' AND IP_REASS_FLAG_LASTFRAG \<noteq> 0) = flag \<and> rd_datagram_len d' = dlen \<and>
        rd_iphdr d' = new_iphdr hdr d \<and>
        unat (ip_reass_pbufcount s') = unat (ip_reass_pbufcount s) + length (ch x)"
  unfolding hdr_def is_last_def d1_def flag_def fs'_def dlen_def
  by (rule ip4_reass_step [OF assms(1-4) hl [unfolded hdr_def] range [unfolded hdr_def] at_end [unfolded is_last_def hdr_def]
    key [unfolded hdr_def] room count total [unfolded fs'_def]])

section \<open>An instance\<close>

text \<open>
  A datagram with the fragments from 0 to 8 and from 16 to 24, the latter without the flag for more
  fragments; a fragment from 8 to 16 that also claims to be the last one arrives.
\<close>

definition demo_hdr :: "u8 \<Rightarrow> u8 \<Rightarrow> u8 list" where
  "demo_hdr hi lo = [0x45, 0, 0, 28, 0, 7, hi, lo, 64, 17, 0, 0, 10, 0, 0, 1, 10, 0, 0, 2]"

definition demo_frag :: "nat \<Rightarrow> pbuf" where
  "demo_frag a = \<lparr>pb_next = 0, pb_payload = VPtr a 24, pb_tot_len = 28, pb_len = 28,
     pb_type_internal = 0x80, pb_flags = 0, pb_ref = 1, pb_if_idx = 0, pb_custom = None\<rparr>"

definition demo_reass_heap :: heap where
  "demo_reass_heap = demo_dgram\<lparr>
     pbufs := [1 \<mapsto> demo_frag 1, 2 \<mapsto> demo_frag 2, 3 \<mapsto> demo_frag 3],
     blocks := [1 \<mapsto> replicate 24 0 @ [3, 0, 0, 0, 0, 0, 0, 0, 0, 0, 8, 0] @ replicate 8 0 @ [1, 2, 3, 4, 5, 6, 7, 8],
       2 \<mapsto> replicate 24 0 @ demo_hdr 0 1 @ [9, 10, 11, 12, 13, 14, 15, 16],
       3 \<mapsto> replicate 24 0 @ [0, 0, 0, 0, 0, 0, 0, 0, 16, 0, 24, 0] @ replicate 8 0 @ [17, 18, 19, 20, 21, 22, 23, 24]]\<rparr>"

definition demo_rd :: ip_reassdata where
  "demo_rd = \<lparr>rd_next = 0, rd_p = 1, rd_iphdr = demo_hdr 0x20 0, rd_datagram_len = 24, rd_flags = 1, rd_timer = 15\<rparr>"

definition demo_reass :: reass_state where
  "demo_reass = \<lparr>ip_heap = demo_reass_heap, netif_list = [demo_netif], ip_id = 0, ip6_identification = 0, ip_data = ip_data demo_udp,
     udp_mem = (\<lambda>_. None), udp_pcbs = 0, udp_port = 0xc000, udp_nxt = 1, udp_malloc_ok = (\<lambda>_. True),
     rd_mem = [1 \<mapsto> demo_rd], reassdatagrams = 1, ip_reass_pbufcount = 2, rd_nxt = 2, rd_malloc_ok = (\<lambda>_. True)\<rparr>"

lemma demo_reass_pdata:
  "pdata demo_reass_heap 1 = [3, 0, 0, 0, 0, 0, 0, 0, 0, 0, 8, 0] @ replicate 8 0 @ [1, 2, 3, 4, 5, 6, 7, 8]"
  "pdata demo_reass_heap 2 = demo_hdr 0 1 @ [9, 10, 11, 12, 13, 14, 15, 16]"
  "pdata demo_reass_heap 3 = [0, 0, 0, 0, 0, 0, 0, 0, 16, 0, 24, 0] @ replicate 8 0 @ [17, 18, 19, 20, 21, 22, 23, 24]"
  by (simp_all add: demo_reass_heap_def demo_frag_def pdata_def mem_read_def buf_read_def demo_hdr_def)

lemma demo_reass_readable: "readable demo_reass_heap 1" "readable demo_reass_heap 2" "readable demo_reass_heap 3"
  by (simp_all add: demo_reass_heap_def demo_frag_def readable_def mem_read_def buf_read_def demo_hdr_def)

lemma demo_reass_pbufs: "pbufs demo_reass_heap 1 = Some (demo_frag 1)" "pbufs demo_reass_heap 2 = Some (demo_frag 2)"
  "pbufs demo_reass_heap 3 = Some (demo_frag 3)"
  by (simp_all add: demo_reass_heap_def)

lemma demo_reass_packet: "packet demo_reass_heap 1 [1]" "packet demo_reass_heap 2 [2]" "packet demo_reass_heap 3 [3]"
  using demo_reass_readable demo_reass_pbufs
  by (simp_all add: packet_def demo_reass_pdata [simplified] demo_frag_def demo_hdr_def)

lemma demo_reass_pblock: "pblock demo_reass_heap 1 = 1" "pblock demo_reass_heap 2 = 2" "pblock demo_reass_heap 3 = 3"
  using demo_reass_pbufs by (simp_all add: pblock_def demo_frag_def)

lemma demo_reass_frag: "frag demo_reass_heap 1 3 0 8" "frag demo_reass_heap 3 0 16 24"
  using demo_reass_readable
  by (simp_all add: frag_def demo_reass_pdata [simplified] ptr_ok_def store_ptr_def store16_def upt_rec)

abbreviation demo_frags :: "fragment list" where
  "demo_frags \<equiv> [(1, 0, 8), (3, 16, 24)]"

lemma demo_hdr_fields: "IPH_OFFSET (demo_hdr 0 1) = 0x100" "IPH_LEN (demo_hdr 0 1) = 0x1c00" "IPH_HL_BYTES (demo_hdr 0 1) = 20"
  "IPH_OFFSET_BYTES (demo_hdr 0 1) = 8" "lwip_htons 0x1c00 = 28" "lwip_htons 0x100 = 1" "lwip_htons 0x2000 = 0x20"
  by (simp_all add: demo_hdr_def IPH_OFFSET_def IPH_LEN_def IPH_HL_BYTES_def IPH_OFFSET_BYTES_def ldf16_def
    lwip_htons_def IP_OFFMASK_def)

lemma demo_hdr_key: "IP_ADDRESSES_AND_ID_MATCH (demo_hdr 0x20 0) (demo_hdr 0 1)"
  by (simp add: demo_hdr_def IP_ADDRESSES_AND_ID_MATCH_def IPH_SRC_def IPH_DEST_def IPH_ID_def ldf32_def ldf16_def)

lemma demo_new_hdr: "new_iphdr (demo_hdr 0 1) demo_rd = demo_hdr 0x20 0"
  by (simp add: new_iphdr_def demo_rd_def demo_hdr_fields IP_OFFMASK_def)

lemma demo_reass_ok: "frags_ok demo_reass_heap (\<lambda>a. [a]) [(2, 8, 16), (1, 0, 8), (3, 16, 24)]"
  using demo_reass_packet by (simp add: frags_ok_def all_pbufs_def ptr_ok_def demo_reass_pblock [simplified])

lemma demo_datagram: "datagram demo_reass 1 demo_rd (\<lambda>a. [a]) demo_frags"
  using demo_reass_frag frags_ok_Cons(1) [OF demo_reass_ok]
  by (simp add: datagram_def demo_reass_def demo_rd_def demo_hdr_def sorted_frags_def frag_start_def frag_end_def
    IP_REASS_FLAG_LASTFRAG_def)

lemma demo_insort: "insort_key frag_start (2, 8, 16) demo_frags = [(1, 0, 8), (2, 8, 16), (3, 16, 24)]"
  by (simp add: frag_start_def)

lemma demo_total: "payloads demo_reass_heap (\<lambda>a. [a]) [(1, 0, 8), (2, 8, 16), (3, 16, 24)] =
    [1, 2, 3, 4, 5, 6, 7, 8, 9, 10, 11, 12, 13, 14, 15, 16, 17, 18, 19, 20, 21, 22, 23, 24]"
  by (simp add: payloads_def demo_reass_pdata [simplified] demo_hdr_def)

lemmas demo_reass_simps = demo_reass_pdata demo_hdr_fields demo_hdr_key demo_insort demo_total

lemma demo_take: "take 20 (pdata demo_reass_heap 2) = demo_hdr 0 1"
  by (simp add: demo_reass_pdata demo_hdr_def)

lemma demo_reass_fields: "ip_heap demo_reass = demo_reass_heap" "ip_reass_pbufcount demo_reass = 2"
  "rd_mem demo_reass = [1 \<mapsto> demo_rd]" "reassdatagrams demo_reass = 1"
  by (simp_all add: demo_reass_def)

lemma demo_rd_nodes: "rd_nodes demo_reass ([] @ 1 # [])"
  by (simp add: demo_reass_fields demo_rd_def)

theorem ip4_reass_correct_witness:
  "\<exists>p s' addr. ip4_reass demo_env 2 demo_reass = Some (p, s') \<and>
    content (ip_heap s') [1, 2, 3] = reass_header addr (demo_hdr 0x20 0) 36 @
      [1, 2, 3, 4, 5, 6, 7, 8, 9, 10, 11, 12, 13, 14, 15, 16, 17, 18, 19, 20, 21, 22, 23, 24]"
proof -
  have fit: "\<forall>f \<in> set demo_frags. fits 8 16 f" by (simp add: fits_def below_def above_def)
  have comp: "complete (insort_key frag_start (2, 8, 16) demo_frags)"
    by (simp only: demo_insort) (simp add: complete_def)
  have fin: "IPH_OFFSET (demo_hdr 0 1) AND lwip_htons IP_MF = 0"
    by (simp add: demo_hdr_fields IP_MF_def)
  have all: "all_pbufs (\<lambda>a. [a]) [(1, 0, 8), (2, 8, 16), (3, 16, 24)] = [1, 2, 3]"
    by (simp add: all_pbufs_def)
  note step = ip4_reass_correct [where x = 2 and st = 8 and en = 16 and env = demo_env, OF demo_datagram demo_rd_nodes,
     unfolded demo_reass_fields demo_take, OF demo_reass_ok]
  have "20 \<le> length (pdata demo_reass_heap 2)" by (simp add: demo_reass_pdata demo_hdr_def)
  note step = step [OF this]
  have "IPH_HL_BYTES (demo_hdr 0 1) = 20" by (rule demo_hdr_fields)
  note step = step [OF this]
  have "20 \<le> lwip_htons (IPH_LEN (demo_hdr 0 1))" by (simp add: demo_hdr_fields)
  note step = step [OF this]
  have "(8 :: u16) = IPH_OFFSET_BYTES (demo_hdr 0 1)" by (simp add: demo_hdr_fields)
  note step = step [OF this]
  have "(16 :: u16) = 8 + (lwip_htons (IPH_LEN (demo_hdr 0 1)) - 20)" by (simp add: demo_hdr_fields)
  note step = step [OF this]
  have "(8 :: u16) \<le> 16" by simp
  note step = step [OF this]
  have "IPH_OFFSET (demo_hdr 0 1) AND lwip_htons IP_MF = 0 \<longrightarrow> (8 :: u16) \<noteq> 0 \<and> unat (16 :: u16) \<le> 65535 - 20" by simp
  note step = step [OF this]
  have "IP_ADDRESSES_AND_ID_MATCH (rd_iphdr demo_rd) (demo_hdr 0 1)" by (simp add: demo_rd_def demo_hdr_key)
  note step = step [OF this]
  have "\<forall>u \<in> set []. \<not> IP_ADDRESSES_AND_ID_MATCH (rd_iphdr (the ([1 \<mapsto> demo_rd] u))) (demo_hdr 0 1)" by simp
  note step = step [OF this]
  have "unat (2 :: u16) + length [2 :: nat] \<le> 10" by simp
  note step = step [OF this]
  have "length (all_pbufs (\<lambda>a. [a]) demo_frags) \<le> unat (2 :: u16)" by (simp add: all_pbufs_def)
  note step = step [OF this]
  have "20 + length (payloads demo_reass_heap (\<lambda>a. [a]) (insort_key frag_start (2, 8, 16) demo_frags)) < 65536"
    by (simp only: demo_insort demo_total) simp
  note step = step [OF this]
  from step fit comp fin have "\<exists>p s' addr. ip4_reass demo_env 2 demo_reass = Some (p, s') \<and>
     content (ip_heap s') [1, 2, 3] = reass_header addr (demo_hdr 0x20 0) (16 + 20) @
       payloads demo_reass_heap (\<lambda>a. [a]) [(1, 0, 8), (2, 8, 16), (3, 16, 24)]"
    unfolding demo_insort demo_new_hdr all by (auto simp del: content_Cons)
  then show ?thesis unfolding demo_total by simp
qed
end
