(* ===== verification/Lwip_Ip4_Input.thy ===== *)
theory Lwip_Ip4_Input
  imports Lwip_Reass
begin

text \<open>
  Receiving IPv4 packets (\<^verbatim>\<open>ip4_input\<close> of \<^verbatim>\<open>core/ipv4/ip4.c\<close>): header checks, trimming, the
  choice of the interface, reassembly and the dispatch to the protocols. No forwarding, no IGMP, no
  DHCP; the raw PCBs, TCP and ICMP are functions of the environment.
\<close>

definition ip4_addr_isloopback :: "u32 \<Rightarrow> bool" where
  "ip4_addr_isloopback ipaddr = (ipaddr AND lwip_htonl 0xff000000 = lwip_htonl 0x7f000000)"

text \<open>With \<^verbatim>\<open>TUN2SOCKS\<close> every interface accepts every packet.\<close>

definition ip4_input_accept :: "netif \<Rightarrow> 'a reass_state_scheme \<Rightarrow> bool" where
  "ip4_input_accept netif s =
     (if TUN2SOCKS then True
      else netif_is_up netif \<and> netif_ip4_addr netif \<noteq> 0 \<and>
        (ip_2_ip4 (current_iphdr_dest (ip_data s)) = netif_ip4_addr netif \<or>
         ip4_addr_isbroadcast_u32 (ip_2_ip4 (current_iphdr_dest (ip_data s))) netif))"

text \<open>The interface a packet is for. Interfaces are told apart by their number.\<close>

definition ip4_input_netif :: "netif \<Rightarrow> 'a reass_state_scheme \<Rightarrow> netif option" where
  "ip4_input_netif inp s =
     (let dest = ip_2_ip4 (current_iphdr_dest (ip_data s)) in
      if ip4_addr_ismulticast dest then
        (if netif_is_up inp \<and> netif_ip4_addr inp \<noteq> 0 then Some inp else None)
      else if ip4_input_accept inp s then Some inp
      else if \<not> ip4_addr_isloopback dest then
        find (\<lambda>netif. netif_num netif \<noteq> netif_num inp \<and> ip4_input_accept netif s) (netif_list s)
      else None)"

text \<open>Results of \<^verbatim>\<open>raw_input\<close>\<close>

definition RAW_INPUT_EATEN :: nat where "RAW_INPUT_EATEN = 1"
definition RAW_INPUT_DELIVERED :: nat where "RAW_INPUT_DELIVERED = 2"
definition ICMP_DUR_PROTO :: u8 where "ICMP_DUR_PROTO = 2"

text \<open>The upper layers, with the header at \<^verbatim>\<open>iphdr\<close>; then the globals of the packet are cleared.\<close>

definition ip4_deliver ::
  "'a reass_state_scheme ip_env \<Rightarrow> (netif \<Rightarrow> ip6_addr_t \<Rightarrow> bool) \<Rightarrow> nat \<Rightarrow> netif \<Rightarrow> netif \<Rightarrow> vptr \<Rightarrow> u16 \<Rightarrow>
   'a reass_state_scheme \<Rightarrow> 'a reass_state_scheme option" where
  "ip4_deliver env ip6_match p netif inp iphdr iphdr_hlen s =
     do {
       (raw_status, s) \<leftarrow> env_raw_input env p inp s;
       if raw_status \<noteq> RAW_INPUT_EATEN then do {
         (x, h) \<leftarrow> pbuf_remove_header (ip_heap s) p (unat iphdr_hlen);
         let s = s\<lparr>ip_heap := h\<rparr>;
         bs \<leftarrow> mem_read h iphdr 9 1;
         let proto = hd bs;
         if proto = IP_PROTO_UDP then udp_input env ip6_match p inp s
         else if proto = IP_PROTO_TCP then env_tcp_input env p inp s
         else if proto = IP_PROTO_ICMP then env_icmp_input env p inp s
         else do {
           s \<leftarrow> (if raw_status = RAW_INPUT_DELIVERED then Some s
                 else let dest = ip_2_ip4 (current_iphdr_dest (ip_data s)) in
                   if \<not> ip4_addr_isbroadcast_u32 dest netif \<and> \<not> ip4_addr_ismulticast dest then do {
                     (x, h) \<leftarrow> pbuf_header_force (ip_heap s) p iphdr_hlen;
                     env_dest_unreach env p ICMP_DUR_PROTO (s\<lparr>ip_heap := h\<rparr>)
                   } else Some s);
           udp_free_pbuf p s
         }
       } else Some s
     }"

definition ip4_set_any :: "ip_addr_t \<Rightarrow> ip_addr_t" where
  "ip4_set_any a = a\<lparr>u_addr := (u_addr a)\<lparr>ip6_a0 := 0\<rparr>\<rparr>"

definition ip4_input_done :: "'a reass_state_scheme \<Rightarrow> 'a reass_state_scheme" where
  "ip4_input_done s =
     s\<lparr>ip_data := (ip_data s)\<lparr>current_netif := None, current_input_netif := None,
        current_ip4_header := VNull, current_ip_header_tot_len := 0,
        current_iphdr_src := ip4_set_any (current_iphdr_src (ip_data s)),
        current_iphdr_dest := ip4_set_any (current_iphdr_dest (ip_data s))\<rparr>\<rparr>"

definition ip4_input ::
  "'a reass_state_scheme ip_env \<Rightarrow> (netif \<Rightarrow> ip6_addr_t \<Rightarrow> bool) \<Rightarrow> nat \<Rightarrow> netif \<Rightarrow>
   'a reass_state_scheme \<Rightarrow> (err_t \<times> 'a reass_state_scheme) option" where
  "ip4_input env ip6_match p inp s =
     do {
       iphdr \<leftarrow> payload_of (ip_heap s) p;
       v \<leftarrow> mem_read (ip_heap s) iphdr 0 1;
       if IPH_V v \<noteq> 4 then do { s \<leftarrow> udp_free_pbuf p s; Some (ERR_OK, s) }
       else do {
         hdr \<leftarrow> mem_read (ip_heap s) iphdr 0 4;
         let iphdr_hlen = (ucast (IPH_HL_BYTES hdr) :: u16);
         let iphdr_len = lwip_htons (IPH_LEN hdr);
         b \<leftarrow> pbufs (ip_heap s) p;
         h \<leftarrow> (if iphdr_len < pb_tot_len b then pbuf_realloc (ip_heap s) p iphdr_len else Some (ip_heap s));
         let s = s\<lparr>ip_heap := h\<rparr>;
         b \<leftarrow> pbufs h p;
         if iphdr_hlen > pb_len b \<or> iphdr_len > pb_tot_len b \<or> unat iphdr_hlen < IP_HLEN
         then do { s \<leftarrow> udp_free_pbuf p s; Some (ERR_OK, s) }
         else do {
           hdr \<leftarrow> mem_read h iphdr 0 IP_HLEN;
           let g = (ip_data s)\<lparr>
             current_iphdr_dest := ip_addr_copy_from_ip4 (current_iphdr_dest (ip_data s)) (IPH_DEST hdr),
             current_iphdr_src := ip_addr_copy_from_ip4 (current_iphdr_src (ip_data s)) (IPH_SRC hdr)\<rparr>;
           let s = s\<lparr>ip_data := g\<rparr>;
           let netif = ip4_input_netif inp s;
           let src = ip_2_ip4 (current_iphdr_src g);
           if ip4_addr_isbroadcast_u32 src inp \<or> ip4_addr_ismulticast src
           then do { s \<leftarrow> udp_free_pbuf p s; Some (ERR_OK, s) }
           else (case netif of
             None \<Rightarrow> do { s \<leftarrow> udp_free_pbuf p s; Some (ERR_OK, s) }
           | Some netif \<Rightarrow> do {
               (p, s) \<leftarrow> (if IPH_OFFSET hdr AND lwip_htons (IP_OFFMASK OR IP_MF) \<noteq> 0 then ip4_reass env p s
                          else Some (p, s));
               if p = 0 then Some (ERR_OK, s)
               else do {
                 iphdr \<leftarrow> payload_of (ip_heap s) p;
                 v \<leftarrow> mem_read (ip_heap s) iphdr 0 1;
                 let s = s\<lparr>ip_data := (ip_data s)\<lparr>current_netif := Some netif, current_input_netif := Some inp,
                   current_ip4_header := iphdr, current_ip_header_tot_len := ucast (IPH_HL_BYTES v)\<rparr>\<rparr>;
                 s \<leftarrow> ip4_deliver env ip6_match p netif inp iphdr iphdr_hlen s;
                 Some (ERR_OK, ip4_input_done s)
               }
             })
         }
       }
     }"

end
