(* ===== verification/Lwip_Tcp.thy ===== *)
theory Lwip_Tcp
  imports Lwip_Reass Lwip_Seq
begin

text \<open>
  The data of TCP (\<^verbatim>\<open>include/lwip/tcp.h\<close>, \<^verbatim>\<open>include/lwip/priv/tcp_priv.h\<close>,
  \<^verbatim>\<open>include/lwip/prot/tcp.h\<close>): states, segments, control blocks (PCBs), the global variables of
  the module, the fields of the TCP header in memory, and the lists of PCBs. This configuration has
  the callback API, no listen backlog, no window scaling, no selective acknowledgements, no
  timestamps, and checksums of the data that are computed while it is copied.
\<close>

section \<open>States\<close>

datatype tcp_pstate = CLOSED | LISTEN | SYN_SENT | SYN_RCVD | ESTABLISHED | FIN_WAIT_1 | FIN_WAIT_2
  | CLOSE_WAIT | CLOSING | LAST_ACK | TIME_WAIT

text \<open>The values of \<^verbatim>\<open>enum tcp_state\<close>; the code compares them.\<close>

fun tcp_state_num :: "tcp_pstate \<Rightarrow> nat" where
  "tcp_state_num CLOSED = 0"
| "tcp_state_num LISTEN = 1"
| "tcp_state_num SYN_SENT = 2"
| "tcp_state_num SYN_RCVD = 3"
| "tcp_state_num ESTABLISHED = 4"
| "tcp_state_num FIN_WAIT_1 = 5"
| "tcp_state_num FIN_WAIT_2 = 6"
| "tcp_state_num CLOSE_WAIT = 7"
| "tcp_state_num CLOSING = 8"
| "tcp_state_num LAST_ACK = 9"
| "tcp_state_num TIME_WAIT = 10"

lemma tcp_state_num_inject: "tcp_state_num a = tcp_state_num b \<longleftrightarrow> a = b"
  by (cases a; cases b) simp_all

instantiation tcp_pstate :: linorder
begin

definition less_eq_tcp_pstate :: "tcp_pstate \<Rightarrow> tcp_pstate \<Rightarrow> bool" where
  "less_eq_tcp_pstate a b = (tcp_state_num a \<le> tcp_state_num b)"

definition less_tcp_pstate :: "tcp_pstate \<Rightarrow> tcp_pstate \<Rightarrow> bool" where
  "less_tcp_pstate a b = (tcp_state_num a < tcp_state_num b)"

instance
  by standard (auto simp: less_eq_tcp_pstate_def less_tcp_pstate_def tcp_state_num_inject)

end

lemmas tcp_pstate_order [simp] = less_eq_tcp_pstate_def less_tcp_pstate_def

section \<open>Constants\<close>

definition TCP_FIN :: u8 where "TCP_FIN = 0x01"
definition TCP_SYN :: u8 where "TCP_SYN = 0x02"
definition TCP_RST :: u8 where "TCP_RST = 0x04"
definition TCP_PSH :: u8 where "TCP_PSH = 0x08"
definition TCP_ACK :: u8 where "TCP_ACK = 0x10"
definition TCP_FLAGS :: u16 where "TCP_FLAGS = 0x3f"
definition TCP_HLEN :: nat where "TCP_HLEN = 20"

definition TF_ACK_DELAY :: u16 where "TF_ACK_DELAY = 0x01"
definition TF_ACK_NOW :: u16 where "TF_ACK_NOW = 0x02"
definition TF_INFR :: u16 where "TF_INFR = 0x04"
definition TF_CLOSEPEND :: u16 where "TF_CLOSEPEND = 0x08"
definition TF_RXCLOSED :: u16 where "TF_RXCLOSED = 0x10"
definition TF_FIN :: u16 where "TF_FIN = 0x20"
definition TF_NODELAY :: u16 where "TF_NODELAY = 0x40"
definition TF_NAGLEMEMERR :: u16 where "TF_NAGLEMEMERR = 0x80"
definition TF_RTO :: u16 where "TF_RTO = 0x0800"

definition TF_RESET :: u8 where "TF_RESET = 0x08"
definition TF_CLOSED :: u8 where "TF_CLOSED = 0x10"
definition TF_GOT_FIN :: u8 where "TF_GOT_FIN = 0x20"

definition TF_SEG_OPTS_MSS :: u8 where "TF_SEG_OPTS_MSS = 0x01"
definition TF_SEG_DATA_CHECKSUMMED :: u8 where "TF_SEG_DATA_CHECKSUMMED = 0x04"

text \<open>\<^verbatim>\<open>lwipopts.h\<close> and \<^verbatim>\<open>opt.h\<close>; \<^verbatim>\<open>TCP_SND_QUEUELEN\<close> is \<^verbatim>\<open>(4 * TCP_SND_BUF + (TCP_MSS - 1)) / TCP_MSS\<close>.\<close>

definition TCP_MSS :: u16 where "TCP_MSS = 1460"
definition TCP_WND :: u16 where "TCP_WND = 32768"
definition TCP_SND_BUF :: u16 where "TCP_SND_BUF = TCP_WND"
definition TCP_SND_QUEUELEN :: u16 where "TCP_SND_QUEUELEN = of_nat ((4 * 32768 + (1460 - 1)) div 1460)"
definition TCP_SNDQUEUELEN_OVERFLOW :: u16 where "TCP_SNDQUEUELEN_OVERFLOW = 0xffff - 3"
definition TCP_OVERSIZE :: u16 where "TCP_OVERSIZE = TCP_MSS"
definition TCP_WND_UPDATE_THRESHOLD :: u32 where "TCP_WND_UPDATE_THRESHOLD = min (32768 div 4) (1460 * 4)"
definition TCP_TTL :: u8 where "TCP_TTL = 64"
definition TCP_MAXRTX :: u8 where "TCP_MAXRTX = 12"
definition TCP_SYNMAXRTX :: u8 where "TCP_SYNMAXRTX = 6"
definition INITIAL_MSS :: u16 where "INITIAL_MSS = 536"

definition TCP_PRIO_NORMAL :: u8 where "TCP_PRIO_NORMAL = 64"
definition TCP_PRIO_MAX :: u8 where "TCP_PRIO_MAX = 127"
definition SOF_KEEPALIVE :: u8 where "SOF_KEEPALIVE = 0x08"
definition SOF_INHERITED :: u8 where "SOF_INHERITED = 0x04 OR SOF_KEEPALIVE"
definition TCP_LOCAL_PORT_RANGE_START :: u16 where "TCP_LOCAL_PORT_RANGE_START = 0xc000"
definition TCP_LOCAL_PORT_RANGE_END :: u16 where "TCP_LOCAL_PORT_RANGE_END = 0xffff"

text \<open>Milliseconds; the slow timer runs every \<^verbatim>\<open>TCP_SLOW_INTERVAL\<close>.\<close>

definition TCP_SLOW_INTERVAL :: u32 where "TCP_SLOW_INTERVAL = 2 * 250"
definition TCP_FIN_WAIT_TIMEOUT :: u32 where "TCP_FIN_WAIT_TIMEOUT = 20000"
definition TCP_SYN_RCVD_TIMEOUT :: u32 where "TCP_SYN_RCVD_TIMEOUT = 20000"
definition TCP_OOSEQ_TIMEOUT :: u32 where "TCP_OOSEQ_TIMEOUT = 6"
definition TCP_MSL :: u32 where "TCP_MSL = 60000"
definition TCP_KEEPIDLE_DEFAULT :: u32 where "TCP_KEEPIDLE_DEFAULT = 7200000"
definition TCP_KEEPINTVL_DEFAULT :: u32 where "TCP_KEEPINTVL_DEFAULT = 75000"
definition TCP_MAXIDLE :: u32 where "TCP_MAXIDLE = 9 * TCP_KEEPINTVL_DEFAULT"

section \<open>Segments and control blocks\<close>

text \<open>
  \<^verbatim>\<open>struct tcp_seg\<close>. The queues \<^verbatim>\<open>unsent\<close>, \<^verbatim>\<open>unacked\<close> and \<^verbatim>\<open>ooseq\<close> are owned by one PCB and
  are lists of segments here: \<^verbatim>\<open>next\<close> is the rest of the list. A segment's header is where its
  \<^verbatim>\<open>tcphdr\<close> points, in the memory of its pbuf.
\<close>

record tcp_seg =
  sg_p :: nat
  sg_len :: u16
  sg_oversize_left :: u16
  sg_chksum :: u16
  sg_chksum_swapped :: u8
  sg_flags :: u8
  sg_tcphdr :: vptr

text \<open>A function pointer of a PCB: NULL, the built-in function, or one of the application's.\<close>

datatype tcp_fn = FnNull | FnBuiltin | FnUser nat

text \<open>
  \<^verbatim>\<open>struct tcp_pcb\<close> and \<^verbatim>\<open>struct tcp_pcb_listen\<close> in one: a listening PCB has the fields up to
  \<^verbatim>\<open>tp_local_port\<close> and \<^verbatim>\<open>tp_accept\<close> only. The signed fields \<^verbatim>\<open>rtime\<close>, \<^verbatim>\<open>sa\<close>, \<^verbatim>\<open>sv\<close> and
  \<^verbatim>\<open>rto\<close> are words that are read with \<^const>\<open>sint\<close>.
\<close>

record tcp_pcb =
  tp_local_ip :: ip_addr_t
  tp_remote_ip :: ip_addr_t
  tp_netif_idx :: u8
  tp_so_options :: u8
  tp_tos :: u8
  tp_ttl :: u8
  tp_next :: nat
  tp_callback_arg :: nat
  tp_state :: tcp_pstate
  tp_prio :: u8
  tp_local_port :: u16
  tp_accept :: tcp_fn
  tp_remote_port :: u16
  tp_flags :: u16
  tp_polltmr :: u8
  tp_pollinterval :: u8
  tp_last_timer :: u8
  tp_tmr :: u32
  tp_rcv_nxt :: u32
  tp_rcv_wnd :: u16
  tp_rcv_ann_wnd :: u16
  tp_rcv_ann_right_edge :: u32
  tp_rtime :: u16
  tp_mss :: u16
  tp_rttest :: u32
  tp_rtseq :: u32
  tp_sa :: u16
  tp_sv :: u16
  tp_rto :: u16
  tp_nrtx :: u8
  tp_dupacks :: u8
  tp_lastack :: u32
  tp_cwnd :: u16
  tp_ssthresh :: u16
  tp_rto_end :: u32
  tp_snd_nxt :: u32
  tp_snd_wl1 :: u32
  tp_snd_wl2 :: u32
  tp_snd_lbb :: u32
  tp_snd_wnd :: u16
  tp_snd_wnd_max :: u16
  tp_snd_buf :: u16
  tp_snd_queuelen :: u16
  tp_unsent_oversize :: u16
  tp_bytes_acked :: u16
  tp_unsent :: "tcp_seg list"
  tp_unacked :: "tcp_seg list"
  tp_ooseq :: "tcp_seg list"
  tp_refused_data :: nat
  tp_listener :: nat
  tp_sent :: tcp_fn
  tp_recv :: tcp_fn
  tp_connected :: tcp_fn
  tp_poll :: tcp_fn
  tp_errf :: tcp_fn
  tp_keep_idle :: u32
  tp_persist_cnt :: u8
  tp_persist_backoff :: u8
  tp_persist_probe :: u8
  tp_keep_cnt_sent :: u8

text \<open>
  The global variables of \<^verbatim>\<open>tcp.c\<close> and \<^verbatim>\<open>tcp_in.c\<close>; \<^verbatim>\<open>tcp_iss\<close> is the static variable of
  \<^verbatim>\<open>tcp_next_iss\<close>. PCB addresses come from a counter, and the environment decides which
  allocations of PCBs and segments succeed.
\<close>

record tcp_state = reass_state +
  tcp_mem :: "nat \<Rightarrow> tcp_pcb option"
  tcp_nxt :: nat
  tcp_malloc_ok :: "nat \<Rightarrow> bool"
  tcp_bound_pcbs :: nat
  tcp_listen_pcbs :: nat
  tcp_active_pcbs :: nat
  tcp_tw_pcbs :: nat
  tcp_active_pcbs_changed :: bool
  tcp_port :: u16
  tcp_ticks :: u32
  tcp_timer :: u8
  tcp_timer_ctr :: u8
  tcp_iss :: u32
  tcp_input_pcb :: nat
  ti_inseg :: tcp_seg
  ti_tcphdr :: vptr
  ti_optlen :: u16
  ti_opt1len :: u16
  ti_opt2 :: vptr
  ti_optidx :: u16
  ti_seqno :: u32
  ti_ackno :: u32
  ti_recv_acked :: u16
  ti_tcplen :: u16
  ti_flags :: u8
  ti_recv_flags :: u8
  ti_recv_data :: nat

text \<open>
  What TCP calls and this development does not define over this state: the functions of the IP
  layer's environment, \<^verbatim>\<open>tcp_timer_needed\<close> (see \<^verbatim>\<open>Lwip_Timeouts\<close>), the neighbour cache,
  source address selection and output (\<^verbatim>\<open>ip6_output_if\<close>) of IPv6, and the functions the application has registered, by number,
  with their \<^verbatim>\<open>callback_arg\<close>. All act on the whole state: an application function may call TCP.
\<close>

record 's tcp_env =
  te_ip :: "'s ip_env"
  te_timer_needed :: "'s \<Rightarrow> 's option"
  te_nd6_mtu :: "ip6_addr_t \<Rightarrow> netif option \<Rightarrow> 's \<Rightarrow> u16"
  te_nd6_hint :: "ip6_addr_t \<Rightarrow> 's \<Rightarrow> 's"
  te_output6 :: "nat \<Rightarrow> ip6_addr_t \<Rightarrow> ip6_addr_t \<Rightarrow> u8 \<Rightarrow> u8 \<Rightarrow> u8 \<Rightarrow> netif \<Rightarrow> 's \<Rightarrow> (err_t \<times> 's) option"
  te_select_src6 :: "netif \<Rightarrow> ip6_addr_t \<Rightarrow> 's \<Rightarrow> ip_addr_t option"
  te_accept :: "nat \<Rightarrow> nat \<Rightarrow> nat \<Rightarrow> err_t \<Rightarrow> 's \<Rightarrow> (err_t \<times> 's) option"
  te_recv :: "nat \<Rightarrow> nat \<Rightarrow> nat \<Rightarrow> nat \<Rightarrow> err_t \<Rightarrow> 's \<Rightarrow> (err_t \<times> 's) option"
  te_sent :: "nat \<Rightarrow> nat \<Rightarrow> nat \<Rightarrow> u16 \<Rightarrow> 's \<Rightarrow> (err_t \<times> 's) option"
  te_connected :: "nat \<Rightarrow> nat \<Rightarrow> nat \<Rightarrow> err_t \<Rightarrow> 's \<Rightarrow> (err_t \<times> 's) option"
  te_poll :: "nat \<Rightarrow> nat \<Rightarrow> nat \<Rightarrow> 's \<Rightarrow> (err_t \<times> 's) option"
  te_err :: "nat \<Rightarrow> nat \<Rightarrow> err_t \<Rightarrow> 's \<Rightarrow> 's option"

definition put_tcp :: "nat \<Rightarrow> tcp_pcb \<Rightarrow> 'a tcp_state_scheme \<Rightarrow> 'a tcp_state_scheme" where
  "put_tcp p b s = s\<lparr>tcp_mem := (tcp_mem s)(p := Some b)\<rparr>"

definition upd_tcp :: "nat \<Rightarrow> (tcp_pcb \<Rightarrow> tcp_pcb) \<Rightarrow> 'a tcp_state_scheme \<Rightarrow> 'a tcp_state_scheme option" where
  "upd_tcp p f s = do { b \<leftarrow> tcp_mem s p; Some (put_tcp p (f b) s) }"

text \<open>\<^verbatim>\<open>memp_malloc\<close> of a PCB or a segment\<close>

definition tcp_memp_malloc :: "'a tcp_state_scheme \<Rightarrow> nat \<times> 'a tcp_state_scheme" where
  "tcp_memp_malloc s =
     (let a = tcp_nxt s; s = s\<lparr>tcp_nxt := a + 1\<rparr> in (if tcp_malloc_ok s a then a else 0, s))"

section \<open>Flags of a PCB\<close>

definition tcp_set_flags :: "u16 \<Rightarrow> tcp_pcb \<Rightarrow> tcp_pcb" where
  "tcp_set_flags set_flags b = b\<lparr>tp_flags := tp_flags b OR set_flags\<rparr>"

definition tcp_clear_flags :: "u16 \<Rightarrow> tcp_pcb \<Rightarrow> tcp_pcb" where
  "tcp_clear_flags clr_flags b = b\<lparr>tp_flags := tp_flags b AND NOT clr_flags\<rparr>"

definition tcp_is_flag_set :: "tcp_pcb \<Rightarrow> u16 \<Rightarrow> bool" where
  "tcp_is_flag_set b flag = (tp_flags b AND flag \<noteq> 0)"

definition tcp_ack_now :: "tcp_pcb \<Rightarrow> tcp_pcb" where
  "tcp_ack_now b = tcp_set_flags TF_ACK_NOW b"

definition tcp_ack :: "tcp_pcb \<Rightarrow> tcp_pcb" where
  "tcp_ack b = (if tcp_is_flag_set b TF_ACK_DELAY then tcp_ack_now (tcp_clear_flags TF_ACK_DELAY b)
     else tcp_set_flags TF_ACK_DELAY b)"

text \<open>\<^verbatim>\<open>TCP_WND_INC\<close>: the sum, or the maximum when it wraps around.\<close>

definition TCP_WND_INC :: "u16 \<Rightarrow> u16 \<Rightarrow> u16" where
  "TCP_WND_INC wnd inc = (if wnd + inc \<ge> wnd then wnd + inc else 0xffff)"

section \<open>The TCP header in memory\<close>

definition hdr16 :: "heap \<Rightarrow> vptr \<Rightarrow> nat \<Rightarrow> u16 option" where
  "hdr16 h v off = do { bs \<leftarrow> mem_read h v off 2; Some (ldf16 bs 0) }"

definition hdr32 :: "heap \<Rightarrow> vptr \<Rightarrow> nat \<Rightarrow> u32 option" where
  "hdr32 h v off = do { bs \<leftarrow> mem_read h v off 4; Some (ldf32 bs 0) }"

definition set_hdr16 :: "heap \<Rightarrow> vptr \<Rightarrow> nat \<Rightarrow> u16 \<Rightarrow> heap option" where
  "set_hdr16 h v off x = mem_write h v off (store16 x)"

definition set_hdr32 :: "heap \<Rightarrow> vptr \<Rightarrow> nat \<Rightarrow> u32 \<Rightarrow> heap option" where
  "set_hdr32 h v off x = mem_write h v off (u32_bytes x)"

definition th_seqno :: "heap \<Rightarrow> vptr \<Rightarrow> u32 option" where
  "th_seqno h v = hdr32 h v 4"

definition TCPH_HDRLEN :: "heap \<Rightarrow> vptr \<Rightarrow> u16 option" where
  "TCPH_HDRLEN h v = do { w \<leftarrow> hdr16 h v 12; Some (drop_bit 12 (lwip_htons w)) }"

definition TCPH_HDRLEN_BYTES :: "heap \<Rightarrow> vptr \<Rightarrow> u8 option" where
  "TCPH_HDRLEN_BYTES h v = do { n \<leftarrow> TCPH_HDRLEN h v; Some (ucast (push_bit 2 n)) }"

definition TCPH_FLAGS :: "heap \<Rightarrow> vptr \<Rightarrow> u8 option" where
  "TCPH_FLAGS h v = do { w \<leftarrow> hdr16 h v 12; Some (ucast (lwip_htons w AND TCP_FLAGS)) }"

definition TCPH_FLAGS_SET :: "heap \<Rightarrow> vptr \<Rightarrow> u8 \<Rightarrow> heap option" where
  "TCPH_FLAGS_SET h v flags =
     do { w \<leftarrow> hdr16 h v 12; set_hdr16 h v 12 ((w AND lwip_htons (NOT TCP_FLAGS)) OR lwip_htons (ucast flags)) }"

definition TCPH_SET_FLAG :: "heap \<Rightarrow> vptr \<Rightarrow> u8 \<Rightarrow> heap option" where
  "TCPH_SET_FLAG h v flags = do { w \<leftarrow> hdr16 h v 12; set_hdr16 h v 12 (w OR lwip_htons (ucast flags)) }"

definition TCPH_HDRLEN_FLAGS_SET :: "heap \<Rightarrow> vptr \<Rightarrow> u16 \<Rightarrow> u8 \<Rightarrow> heap option" where
  "TCPH_HDRLEN_FLAGS_SET h v len flags = set_hdr16 h v 12 (lwip_htons (push_bit 12 len OR ucast flags))"

text \<open>The length of a segment in sequence space\<close>

definition TCP_TCPLEN :: "heap \<Rightarrow> tcp_seg \<Rightarrow> u32 option" where
  "TCP_TCPLEN h seg =
     do {
       fl \<leftarrow> TCPH_FLAGS h (sg_tcphdr seg);
       Some (ucast (sg_len seg) + (if fl AND (TCP_FIN OR TCP_SYN) \<noteq> 0 then 1 else 0))
     }"

text \<open>The length of the options for outgoing segments: \<^verbatim>\<open>TF_SEG_OPTS_MSS\<close> is the only option.\<close>

definition LWIP_TCP_OPT_LENGTH :: "u8 \<Rightarrow> u8" where
  "LWIP_TCP_OPT_LENGTH flags = (if flags AND TF_SEG_OPTS_MSS \<noteq> 0 then 4 else 0)"

definition TCP_BUILD_MSS_OPTION :: "u16 \<Rightarrow> u32" where
  "TCP_BUILD_MSS_OPTION mss = lwip_htonl (0x02040000 OR (ucast mss AND 0xFFFF))"

section \<open>Lists of PCBs\<close>

datatype tcp_list = L_listen | L_bound | L_active | L_tw

definition tcp_list_head :: "tcp_list \<Rightarrow> 'a tcp_state_scheme \<Rightarrow> nat" where
  "tcp_list_head l s = (case l of L_listen \<Rightarrow> tcp_listen_pcbs s | L_bound \<Rightarrow> tcp_bound_pcbs s
     | L_active \<Rightarrow> tcp_active_pcbs s | L_tw \<Rightarrow> tcp_tw_pcbs s)"

definition set_tcp_list :: "tcp_list \<Rightarrow> nat \<Rightarrow> 'a tcp_state_scheme \<Rightarrow> 'a tcp_state_scheme" where
  "set_tcp_list l p s = (case l of L_listen \<Rightarrow> s\<lparr>tcp_listen_pcbs := p\<rparr> | L_bound \<Rightarrow> s\<lparr>tcp_bound_pcbs := p\<rparr>
     | L_active \<Rightarrow> s\<lparr>tcp_active_pcbs := p\<rparr> | L_tw \<Rightarrow> s\<lparr>tcp_tw_pcbs := p\<rparr>)"

definition tcp_pcb_lists :: "tcp_list list" where
  "tcp_pcb_lists = [L_listen, L_bound, L_active, L_tw]"

definition TCP_REG ::
  "'a tcp_state_scheme tcp_env \<Rightarrow> tcp_list \<Rightarrow> nat \<Rightarrow> 'a tcp_state_scheme \<Rightarrow> 'a tcp_state_scheme option" where
  "TCP_REG env l npcb s =
     do {
       s \<leftarrow> upd_tcp npcb (\<lambda>b. b\<lparr>tp_next := tcp_list_head l s\<rparr>) s;
       te_timer_needed env (set_tcp_list l npcb s)
     }"

definition TCP_RMV :: "tcp_list \<Rightarrow> nat \<Rightarrow> 'a tcp_state_scheme \<Rightarrow> 'a tcp_state_scheme option" where
  "TCP_RMV l npcb s =
     do {
       s \<leftarrow> (if tcp_list_head l s = npcb then do {
               b \<leftarrow> tcp_mem s npcb;
               Some (set_tcp_list l (tp_next b) s)
             } else do {
               tmp \<leftarrow> find_node (tcp_mem s) tp_next (\<lambda>a b. tp_next b = npcb) (tcp_list_head l s);
               if tmp \<noteq> 0 then do {
                 b \<leftarrow> tcp_mem s npcb;
                 upd_tcp tmp (\<lambda>t. t\<lparr>tp_next := tp_next b\<rparr>) s
               } else Some s
             });
       upd_tcp npcb (\<lambda>b. b\<lparr>tp_next := 0\<rparr>) s
     }"

definition TCP_REG_ACTIVE ::
  "'a tcp_state_scheme tcp_env \<Rightarrow> nat \<Rightarrow> 'a tcp_state_scheme \<Rightarrow> 'a tcp_state_scheme option" where
  "TCP_REG_ACTIVE env npcb s =
     do { s \<leftarrow> TCP_REG env L_active npcb s; Some (s\<lparr>tcp_active_pcbs_changed := True\<rparr>) }"

definition TCP_RMV_ACTIVE :: "nat \<Rightarrow> 'a tcp_state_scheme \<Rightarrow> 'a tcp_state_scheme option" where
  "TCP_RMV_ACTIVE npcb s = do { s \<leftarrow> TCP_RMV L_active npcb s; Some (s\<lparr>tcp_active_pcbs_changed := True\<rparr>) }"

text \<open>\<^verbatim>\<open>tcp_pcbs_sane\<close>: the assertions about the states of the PCBs on two of the lists.\<close>

definition tcp_active_state :: "tcp_pstate \<Rightarrow> bool" where
  "tcp_active_state st = (st \<noteq> CLOSED \<and> st \<noteq> LISTEN \<and> st \<noteq> TIME_WAIT)"

definition tcp_pcbs_sane :: "'a tcp_state_scheme \<Rightarrow> bool option" where
  "tcp_pcbs_sane s =
     do {
       bad \<leftarrow> find_node (tcp_mem s) tp_next (\<lambda>a b. \<not> tcp_active_state (tp_state b)) (tcp_active_pcbs s);
       lwip_assert (bad = 0);
       bad \<leftarrow> find_node (tcp_mem s) tp_next (\<lambda>a b. tp_state b \<noteq> TIME_WAIT) (tcp_tw_pcbs s);
       lwip_assert (bad = 0);
       Some True
     }"

section \<open>Freeing segments\<close>

definition tcp_free_pbuf :: "nat \<Rightarrow> 'a tcp_state_scheme \<Rightarrow> 'a tcp_state_scheme option" where
  "tcp_free_pbuf p s = do { (c, h) \<leftarrow> pbuf_free (ip_heap s) p; Some (s\<lparr>ip_heap := h\<rparr>) }"

definition tcp_seg_free :: "tcp_seg \<Rightarrow> 'a tcp_state_scheme \<Rightarrow> 'a tcp_state_scheme option" where
  "tcp_seg_free seg s = (if sg_p seg \<noteq> 0 then tcp_free_pbuf (sg_p seg) s else Some s)"

fun tcp_segs_free :: "tcp_seg list \<Rightarrow> 'a tcp_state_scheme \<Rightarrow> 'a tcp_state_scheme option" where
  "tcp_segs_free [] s = Some s"
| "tcp_segs_free (seg # segs) s = do { s \<leftarrow> tcp_seg_free seg s; tcp_segs_free segs s }"

definition tcp_seg_copy :: "tcp_seg \<Rightarrow> 'a tcp_state_scheme \<Rightarrow> (tcp_seg option \<times> 'a tcp_state_scheme) option" where
  "tcp_seg_copy seg s =
     (let (a, s) = tcp_memp_malloc s in
      if a = 0 then Some (None, s)
      else do { h \<leftarrow> pbuf_ref (ip_heap s) (sg_p seg); Some (Some seg, s\<lparr>ip_heap := h\<rparr>) })"

definition tcp_free_ooseq :: "nat \<Rightarrow> 'a tcp_state_scheme \<Rightarrow> 'a tcp_state_scheme option" where
  "tcp_free_ooseq pcb s =
     do {
       b \<leftarrow> tcp_mem s pcb;
       if tp_ooseq b \<noteq> [] then do {
         s \<leftarrow> tcp_segs_free (tp_ooseq b) s;
         upd_tcp pcb (\<lambda>b. b\<lparr>tp_ooseq := []\<rparr>) s
       } else Some s
     }"

section \<open>Events\<close>

definition TCP_EVENT_SENT ::
  "'a tcp_state_scheme tcp_env \<Rightarrow> nat \<Rightarrow> u16 \<Rightarrow> 'a tcp_state_scheme \<Rightarrow> (err_t \<times> 'a tcp_state_scheme) option" where
  "TCP_EVENT_SENT env pcb space s =
     do {
       b \<leftarrow> tcp_mem s pcb;
       (case tp_sent b of FnUser f \<Rightarrow> te_sent env f (tp_callback_arg b) pcb space s | _ \<Rightarrow> Some (ERR_OK, s))
     }"

definition TCP_EVENT_CONNECTED ::
  "'a tcp_state_scheme tcp_env \<Rightarrow> nat \<Rightarrow> err_t \<Rightarrow> 'a tcp_state_scheme \<Rightarrow> (err_t \<times> 'a tcp_state_scheme) option" where
  "TCP_EVENT_CONNECTED env pcb err s =
     do {
       b \<leftarrow> tcp_mem s pcb;
       (case tp_connected b of FnUser f \<Rightarrow> te_connected env f (tp_callback_arg b) pcb err s | _ \<Rightarrow> Some (ERR_OK, s))
     }"

definition TCP_EVENT_POLL ::
  "'a tcp_state_scheme tcp_env \<Rightarrow> nat \<Rightarrow> 'a tcp_state_scheme \<Rightarrow> (err_t \<times> 'a tcp_state_scheme) option" where
  "TCP_EVENT_POLL env pcb s =
     do {
       b \<leftarrow> tcp_mem s pcb;
       (case tp_poll b of FnUser f \<Rightarrow> te_poll env f (tp_callback_arg b) pcb s | _ \<Rightarrow> Some (ERR_OK, s))
     }"

definition TCP_EVENT_ERR ::
  "'a tcp_state_scheme tcp_env \<Rightarrow> tcp_fn \<Rightarrow> nat \<Rightarrow> err_t \<Rightarrow> 'a tcp_state_scheme \<Rightarrow> 'a tcp_state_scheme option" where
  "TCP_EVENT_ERR env errf arg err s = (case errf of FnUser f \<Rightarrow> te_err env f arg err s | _ \<Rightarrow> Some s)"

end
