(* ===== verification/Lwip_Tcp_Out.thy ===== *)
theory Lwip_Tcp_Out
  imports Lwip_Tcp
begin

text \<open>
  TCP output (\<^verbatim>\<open>core/c/core/tcp_out.c\<close>): building segments and control packets, the queues of
  unsent and unacknowledged segments, sending what the windows allow, and retransmission. The
  function \<^verbatim>\<open>tcp_write\<close> is in \<^verbatim>\<open>Lwip_Tcp_Write\<close>.
\<close>

section \<open>Helpers\<close>

text \<open>A PCB is an address, 0 for NULL.\<close>

definition tcp_route :: "nat \<Rightarrow> ip_addr_t \<Rightarrow> ip_addr_t \<Rightarrow> 'a tcp_state_scheme \<Rightarrow> netif option option" where
  "tcp_route pcb src dst s =
     (if pcb \<noteq> 0 then do {
        b \<leftarrow> tcp_mem s pcb;
        Some (if tp_netif_idx b \<noteq> NETIF_NO_INDEX then netif_get_by_index (tp_netif_idx b) s
              else ip_route src dst s)
      } else Some (ip_route src dst s))"

definition ip_netif_get_local_ip ::
  "'a tcp_state_scheme tcp_env \<Rightarrow> netif \<Rightarrow> ip_addr_t \<Rightarrow> 'a tcp_state_scheme \<Rightarrow> ip_addr_t option" where
  "ip_netif_get_local_ip env netif dest s =
     (if IP_IS_V6 dest then te_select_src6 env netif (ip_2_ip6 dest) s else Some (netif_ip_addr netif))"

definition ip_output_if ::
  "'a tcp_state_scheme tcp_env \<Rightarrow> nat \<Rightarrow> ip_addr_t \<Rightarrow> ip_addr_t \<Rightarrow> u8 \<Rightarrow> u8 \<Rightarrow> u8 \<Rightarrow> netif \<Rightarrow>
   'a tcp_state_scheme \<Rightarrow> (err_t \<times> 'a tcp_state_scheme) option" where
  "ip_output_if env p src dest ttl tos proto netif s =
     (if IP_IS_V6 dest then te_output6 env p (ip_2_ip6 src) (ip_2_ip6 dest) ttl tos proto netif s
      else ip4_output_if (te_ip env) p (Some (ip_2_ip4 src)) (Some (ip_2_ip4 dest)) ttl tos proto netif s)"

text \<open>\<^verbatim>\<open>tcp_eff_send_mss_netif\<close> of \<^verbatim>\<open>tcp.c\<close>\<close>

definition tcp_limit_mss :: "u16 \<Rightarrow> u16 \<Rightarrow> bool \<Rightarrow> u16" where
  "tcp_limit_mss sendmss mtu v6 =
     (if mtu \<noteq> 0 then
        (let offset = (if v6 then 40 + 20 else 20 + 20);
             mss_s = (if mtu > offset then mtu - offset else 0)
         in min sendmss mss_s)
      else sendmss)"

definition tcp_eff_send_mss_netif ::
  "'a tcp_state_scheme tcp_env \<Rightarrow> u16 \<Rightarrow> netif option \<Rightarrow> ip_addr_t \<Rightarrow> 'a tcp_state_scheme \<Rightarrow> u16" where
  "tcp_eff_send_mss_netif env sendmss outif dest s =
     (if IP_IS_V6 dest then tcp_limit_mss sendmss (te_nd6_mtu env (ip_2_ip6 dest) outif s) True
      else case outif of None \<Rightarrow> sendmss | Some netif \<Rightarrow> tcp_limit_mss sendmss (netif_mtu netif) False)"

section \<open>Segments\<close>

text \<open>The header of a new segment: \<^verbatim>\<open>ackno\<close>, \<^verbatim>\<open>wnd\<close> and \<^verbatim>\<open>chksum\<close> are left as they are.\<close>

definition tcp_write_header :: "heap \<Rightarrow> vptr \<Rightarrow> u16 \<Rightarrow> u16 \<Rightarrow> u32 \<Rightarrow> u16 \<Rightarrow> u8 \<Rightarrow> heap option" where
  "tcp_write_header h v src dest seqno len flags =
     do {
       h \<leftarrow> set_hdr16 h v 0 (lwip_htons src);
       h \<leftarrow> set_hdr16 h v 2 (lwip_htons dest);
       h \<leftarrow> set_hdr32 h v 4 (lwip_htonl seqno);
       h \<leftarrow> TCPH_HDRLEN_FLAGS_SET h v len flags;
       set_hdr16 h v 18 0
     }"

definition tcp_create_segment ::
  "nat \<Rightarrow> nat \<Rightarrow> u8 \<Rightarrow> u32 \<Rightarrow> u8 \<Rightarrow> 'a tcp_state_scheme \<Rightarrow> (tcp_seg option \<times> 'a tcp_state_scheme) option" where
  "tcp_create_segment pcb p hdrflags seqno optflags s =
     do {
       lwip_assert (p \<noteq> 0);
       b \<leftarrow> tcp_mem s pcb;
       let optlen = LWIP_TCP_OPT_LENGTH optflags;
       let (a, s) = tcp_memp_malloc s;
       if a = 0 then do { s \<leftarrow> tcp_free_pbuf p s; Some (None, s) }
       else do {
         pb \<leftarrow> pbufs (ip_heap s) p;
         lwip_assert (pb_tot_len pb \<ge> ucast optlen);
         lwip_assert (optflags AND TF_SEG_DATA_CHECKSUMMED = 0);
         let len = pb_tot_len pb - ucast optlen;
         (r, h) \<leftarrow> pbuf_add_header (ip_heap s) p TCP_HLEN;
         let s = s\<lparr>ip_heap := h\<rparr>;
         if r \<noteq> 0 then do { s \<leftarrow> tcp_free_pbuf p s; Some (None, s) }
         else do {
           pb \<leftarrow> pbufs h p;
           h \<leftarrow> tcp_write_header h (pb_payload pb) (tp_local_port b) (tp_remote_port b) seqno
                  (5 + ucast optlen div 4) hdrflags;
           Some (Some \<lparr>sg_p = p, sg_len = len, sg_oversize_left = 0, sg_chksum = 0, sg_chksum_swapped = 0,
                   sg_flags = optflags, sg_tcphdr = pb_payload pb\<rparr>, s\<lparr>ip_heap := h\<rparr>)
         }
       }
     }"

text \<open>Adding the checksum of further data to a checksum, and whether that sum is byte-swapped.\<close>

definition tcp_seg_add_chksum :: "u16 \<Rightarrow> u16 \<Rightarrow> u16 \<times> u8 \<Rightarrow> u16 \<times> u8" where
  "tcp_seg_add_chksum chksum len seg =
     (let (seg_chksum, seg_chksum_swapped) = seg;
          helper = ucast chksum + ucast seg_chksum :: u32;
          chksum = ucast (FOLD_U32T helper) :: u16
      in if len AND 1 \<noteq> 0 then (ucast (SWAP_BYTES_IN_WORD (ucast chksum)), 1 - seg_chksum_swapped)
         else (chksum, seg_chksum_swapped))"

definition seg_chksum_of :: "tcp_seg \<Rightarrow> u16 \<times> u8" where
  "seg_chksum_of seg = (sg_chksum seg, sg_chksum_swapped seg)"

definition set_seg_chksum :: "u16 \<times> u8 \<Rightarrow> tcp_seg \<Rightarrow> tcp_seg" where
  "set_seg_chksum c seg = seg\<lparr>sg_chksum := fst c, sg_chksum_swapped := snd c,
     sg_flags := sg_flags seg OR TF_SEG_DATA_CHECKSUMMED\<rparr>"

text \<open>The sequence number in the header of a queued segment, in host order.\<close>

definition seg_seqno :: "heap \<Rightarrow> tcp_seg \<Rightarrow> u32 option" where
  "seg_seqno h seg = do { x \<leftarrow> th_seqno h (sg_tcphdr seg); Some (lwip_htonl x) }"

text \<open>The walk to the place of a segment in a queue: in front of the first one that is not before it.\<close>

fun tcp_seq_insert :: "heap \<Rightarrow> u32 \<Rightarrow> tcp_seg \<Rightarrow> tcp_seg list \<Rightarrow> tcp_seg list option" where
  "tcp_seq_insert h seqno seg [] = Some [seg]"
| "tcp_seq_insert h seqno seg (cur # segs) =
     do {
       x \<leftarrow> seg_seqno h cur;
       if TCP_SEQ_LT x seqno then do { segs \<leftarrow> tcp_seq_insert h seqno seg segs; Some (cur # segs) }
       else Some (seg # cur # segs)
     }"

definition tcp_enqueue_flags ::
  "nat \<Rightarrow> u8 \<Rightarrow> 'a tcp_state_scheme \<Rightarrow> (err_t \<times> 'a tcp_state_scheme) option" where
  "tcp_enqueue_flags pcb flags s =
     do {
       lwip_assert (flags AND (TCP_SYN OR TCP_FIN) \<noteq> 0);
       b \<leftarrow> tcp_mem s pcb;
       let optflags = (if flags AND TCP_SYN \<noteq> 0 then TF_SEG_OPTS_MSS else 0);
       let optlen = LWIP_TCP_OPT_LENGTH optflags;
       (p, h) \<leftarrow> pbuf_alloc (ip_heap s) PBUF_TRANSPORT (ucast optlen) PBUF_RAM;
       let s = s\<lparr>ip_heap := h\<rparr>;
       if p = 0 then do { s \<leftarrow> upd_tcp pcb (tcp_set_flags TF_NAGLEMEMERR) s; Some (ERR_MEM, s) }
       else do {
         pb \<leftarrow> pbufs h p;
         lwip_assert (pb_len pb \<ge> ucast optlen);
         (seg, s) \<leftarrow> tcp_create_segment pcb p flags (tp_snd_lbb b) optflags s;
         (case seg of
            None \<Rightarrow> do { s \<leftarrow> upd_tcp pcb (tcp_set_flags TF_NAGLEMEMERR) s; Some (ERR_MEM, s) }
          | Some seg \<Rightarrow> do {
              lwip_assert (sg_len seg = 0);
              b \<leftarrow> tcp_mem s pcb;
              let b = b\<lparr>tp_unsent := tp_unsent b @ [seg], tp_unsent_oversize := 0\<rparr>;
              let b = (if flags AND TCP_SYN \<noteq> 0 \<or> flags AND TCP_FIN \<noteq> 0
                       then b\<lparr>tp_snd_lbb := tp_snd_lbb b + 1\<rparr> else b);
              let b = (if flags AND TCP_FIN \<noteq> 0 then tcp_set_flags TF_FIN b else b);
              clen \<leftarrow> pbuf_clen (ip_heap s) (sg_p seg);
              let b = b\<lparr>tp_snd_queuelen := tp_snd_queuelen b + clen\<rparr>;
              lwip_assert (tp_snd_queuelen b \<noteq> 0 \<longrightarrow> tp_unacked b \<noteq> [] \<or> tp_unsent b \<noteq> []);
              Some (ERR_OK, put_tcp pcb b s)
            })
       }
     }"

definition tcp_send_fin :: "nat \<Rightarrow> 'a tcp_state_scheme \<Rightarrow> (err_t \<times> 'a tcp_state_scheme) option" where
  "tcp_send_fin pcb s =
     do {
       b \<leftarrow> tcp_mem s pcb;
       add \<leftarrow> (if tp_unsent b \<noteq> [] then do {
                 fl \<leftarrow> TCPH_FLAGS (ip_heap s) (sg_tcphdr (last (tp_unsent b)));
                 Some (fl AND (TCP_SYN OR TCP_FIN OR TCP_RST) = 0)
               } else Some False);
       if add then do {
         h \<leftarrow> TCPH_SET_FLAG (ip_heap s) (sg_tcphdr (last (tp_unsent b))) TCP_FIN;
         s \<leftarrow> upd_tcp pcb (tcp_set_flags TF_FIN) (s\<lparr>ip_heap := h\<rparr>);
         Some (ERR_OK, s)
       } else tcp_enqueue_flags pcb TCP_FIN s
     }"

section \<open>Splitting a segment\<close>

text \<open>The checksum of the data of a segment, computed anew from its pbufs.\<close>

partial_function (option) split_skip :: "heap \<Rightarrow> nat \<Rightarrow> u16 \<Rightarrow> (nat \<times> u16) option" where
  "split_skip h q offset =
     (if q \<noteq> 0 then do {
        b \<leftarrow> pbufs h q;
        if offset > pb_len b then split_skip h (pb_next b) (offset - pb_len b) else Some (q, offset)
      } else Some (q, offset))"

partial_function (option) split_chksum :: "heap \<Rightarrow> nat \<Rightarrow> u16 \<Rightarrow> u16 \<times> u8 \<Rightarrow> (u16 \<times> u8) option" where
  "split_chksum h q offset c =
     (if q \<noteq> 0 then do {
        b \<leftarrow> pbufs h q;
        bs \<leftarrow> mem_read h (pb_payload b) (unat offset) (unat (pb_len b - offset));
        let c = tcp_seg_add_chksum
          (NOT (inet_chksum LWIP_CHKSUM (vptr_address h (pb_payload b) + unat offset) bs)) (pb_len b - offset) c;
        split_chksum h (pb_next b) 0 c
      } else Some c)"

text \<open>The label \<^verbatim>\<open>memerr\<close>, with the pbuf \<^verbatim>\<open>p\<close> that was allocated for the rest.\<close>

definition split_memerr :: "nat \<Rightarrow> 'a tcp_state_scheme \<Rightarrow> (err_t \<times> 'a tcp_state_scheme) option" where
  "split_memerr p s = do { s \<leftarrow> (if p \<noteq> 0 then tcp_free_pbuf p s else Some s); Some (ERR_MEM, s) }"

text \<open>The first segment is cut: its new length, flags and checksum, and the number of its pbufs.\<close>

definition split_head ::
  "tcp_seg \<Rightarrow> u16 \<Rightarrow> u8 \<Rightarrow> u16 \<Rightarrow> 'a tcp_state_scheme \<Rightarrow> (tcp_seg \<times> u16 \<times> 'a tcp_state_scheme) option" where
  "split_head useg remainder split_flags snd_queuelen s =
     do {
       clen \<leftarrow> pbuf_clen (ip_heap s) (sg_p useg);
       let snd_queuelen = snd_queuelen - clen;
       ub \<leftarrow> pbufs (ip_heap s) (sg_p useg);
       h \<leftarrow> pbuf_realloc (ip_heap s) (sg_p useg) (pb_tot_len ub - remainder);
       let useg = useg\<lparr>sg_len := sg_len useg - remainder\<rparr>;
       h \<leftarrow> TCPH_SET_FLAG h (sg_tcphdr useg) split_flags;
       let useg = useg\<lparr>sg_oversize_left := 0\<rparr>;
       clen \<leftarrow> pbuf_clen h (sg_p useg);
       let snd_queuelen = snd_queuelen + clen;
       ub \<leftarrow> pbufs h (sg_p useg);
       (q, offset) \<leftarrow> split_skip h (sg_p useg) (pb_tot_len ub - sg_len useg);
       lwip_assert (q \<noteq> 0);
       (chksum, swapped) \<leftarrow> split_chksum h q offset (0, 0);
       Some (useg\<lparr>sg_chksum := chksum, sg_chksum_swapped := swapped\<rparr>, snd_queuelen, s\<lparr>ip_heap := h\<rparr>)
     }"

definition tcp_split_unsent_seg ::
  "nat \<Rightarrow> u16 \<Rightarrow> 'a tcp_state_scheme \<Rightarrow> (err_t \<times> 'a tcp_state_scheme) option" where
  "tcp_split_unsent_seg pcb split s =
     do {
       b \<leftarrow> tcp_mem s pcb;
       (case tp_unsent b of
          [] \<Rightarrow> Some (ERR_MEM, s)
        | useg # segs \<Rightarrow> do {
            lwip_assert (split \<noteq> 0);
            if sg_len useg \<le> split then Some (ERR_OK, s)
            else do {
              lwip_assert (split \<le> tp_mss b);
              lwip_assert (sg_len useg > 0);
              let optflags = sg_flags useg AND NOT TF_SEG_DATA_CHECKSUMMED;
              let optlen = LWIP_TCP_OPT_LENGTH optflags;
              let remainder = sg_len useg - split;
              (p, h) \<leftarrow> pbuf_alloc (ip_heap s) PBUF_TRANSPORT (remainder + ucast optlen) PBUF_RAM;
              let s = s\<lparr>ip_heap := h\<rparr>;
              if p = 0 then split_memerr p s
              else do {
                ub \<leftarrow> pbufs h (sg_p useg);
                pb \<leftarrow> pbufs h p;
                let offset = pb_tot_len ub - sg_len useg + split;
                buf \<leftarrow> mem_read h (pb_payload pb) (unat optlen) (unat remainder);
                (n, buf) \<leftarrow> pbuf_copy_partial h (sg_p useg) buf remainder offset;
                h \<leftarrow> mem_write h (pb_payload pb) (unat optlen) buf;
                let s = s\<lparr>ip_heap := h\<rparr>;
                if n \<noteq> remainder then split_memerr p s
                else do {
                  let c = tcp_seg_add_chksum
                    (NOT (inet_chksum LWIP_CHKSUM (vptr_address h (pb_payload pb) + unat optlen) buf)) remainder (0, 0);
                  flags \<leftarrow> TCPH_FLAGS h (sg_tcphdr useg);
                  let split_flags = flags AND NOT (TCP_PSH OR TCP_FIN);
                  let remainder_flags = flags AND (TCP_PSH OR TCP_FIN);
                  seqno \<leftarrow> seg_seqno h useg;
                  (seg, s) \<leftarrow> tcp_create_segment pcb p remainder_flags (seqno + ucast split) optflags s;
                  (case seg of
                     None \<Rightarrow> split_memerr p s
                   | Some seg \<Rightarrow> do {
                       let seg = set_seg_chksum c seg;
                       b \<leftarrow> tcp_mem s pcb;
                       (useg, snd_queuelen, s) \<leftarrow> split_head useg remainder split_flags (tp_snd_queuelen b) s;
                       clen \<leftarrow> pbuf_clen (ip_heap s) (sg_p seg);
                       let b = b\<lparr>tp_snd_queuelen := snd_queuelen + clen, tp_unsent := useg # seg # segs,
                                 tp_unsent_oversize := (if segs = [] then 0 else tp_unsent_oversize b)\<rparr>;
                       Some (ERR_OK, put_tcp pcb b s)
                     })
                }
              }
            }
          })
     }"

section \<open>Control segments\<close>

definition tcp_output_alloc_header_common ::
  "u32 \<Rightarrow> u16 \<Rightarrow> u16 \<Rightarrow> u32 \<Rightarrow> u16 \<Rightarrow> u16 \<Rightarrow> u8 \<Rightarrow> u16 \<Rightarrow> heap \<Rightarrow> (nat \<times> heap) option" where
  "tcp_output_alloc_header_common ackno optlen datalen seqno_be src_port dst_port flags wnd h =
     do {
       (p, h) \<leftarrow> pbuf_alloc h PBUF_IP (of_nat TCP_HLEN + optlen + datalen) PBUF_RAM;
       if p \<noteq> 0 then do {
         pb \<leftarrow> pbufs h p;
         lwip_assert (unat (pb_len pb) \<ge> TCP_HLEN + unat optlen);
         h \<leftarrow> mem_write h (pb_payload pb) 0
           (store16 (lwip_htons src_port) @ store16 (lwip_htons dst_port) @ u32_bytes seqno_be
            @ u32_bytes (lwip_htonl ackno)
            @ store16 (lwip_htons (push_bit 12 (5 + optlen div 4) OR ucast flags))
            @ store16 (lwip_htons wnd) @ store16 0 @ store16 0);
         Some (p, h)
       } else Some (p, h)
     }"

definition tcp_output_alloc_header ::
  "nat \<Rightarrow> u16 \<Rightarrow> u16 \<Rightarrow> u32 \<Rightarrow> 'a tcp_state_scheme \<Rightarrow> (nat \<times> 'a tcp_state_scheme) option" where
  "tcp_output_alloc_header pcb optlen datalen seqno_be s =
     do {
       b \<leftarrow> tcp_mem s pcb;
       (p, h) \<leftarrow> tcp_output_alloc_header_common (tp_rcv_nxt b) optlen datalen seqno_be
         (tp_local_port b) (tp_remote_port b) TCP_ACK (tp_rcv_ann_wnd b) (ip_heap s);
       let s = s\<lparr>ip_heap := h\<rparr>;
       Some (p, if p \<noteq> 0
         then put_tcp pcb (b\<lparr>tp_rcv_ann_right_edge := tp_rcv_nxt b + ucast (tp_rcv_ann_wnd b)\<rparr>) s else s)
     }"

text \<open>No option is ever filled in; what remains of \<^verbatim>\<open>tcp_output_fill_options\<close> is its assertion.\<close>

definition tcp_output_fill_options :: "u8 \<Rightarrow> unit option" where
  "tcp_output_fill_options optflags = lwip_assert (LWIP_TCP_OPT_LENGTH optflags = 0)"

definition tcp_output_control_segment ::
  "'a tcp_state_scheme tcp_env \<Rightarrow> nat \<Rightarrow> nat \<Rightarrow> ip_addr_t \<Rightarrow> ip_addr_t \<Rightarrow> 'a tcp_state_scheme \<Rightarrow>
   (err_t \<times> 'a tcp_state_scheme) option" where
  "tcp_output_control_segment env pcb p src dst s =
     do {
       lwip_assert (p \<noteq> 0);
       netif \<leftarrow> tcp_route pcb src dst s;
       (err, s) \<leftarrow> (case netif of
           None \<Rightarrow> Some (ERR_RTE, s)
         | Some netif \<Rightarrow> do {
             pb \<leftarrow> pbufs (ip_heap s) p;
             segs \<leftarrow> pbuf_segments (ip_heap s) p;
             h \<leftarrow> set_hdr16 (ip_heap s) (pb_payload pb) 16
                    (ip_chksum_pseudo LWIP_CHKSUM segs IP_PROTO_TCP (pb_tot_len pb) src dst);
             (ttl, tos) \<leftarrow> (if pcb \<noteq> 0 then do { b \<leftarrow> tcp_mem s pcb; Some (tp_ttl b, tp_tos b) }
                           else Some (TCP_TTL, 0));
             ip_output_if env p src dst ttl tos IP_PROTO_TCP netif (s\<lparr>ip_heap := h\<rparr>)
           });
       s \<leftarrow> tcp_free_pbuf p s;
       Some (err, s)
     }"

text \<open>The window argument is \<^verbatim>\<open>PP_HTONS(TCP_WND)\<close>, which is converted again when it is stored.\<close>

definition tcp_rst ::
  "'a tcp_state_scheme tcp_env \<Rightarrow> nat \<Rightarrow> u32 \<Rightarrow> u32 \<Rightarrow> ip_addr_t \<Rightarrow> ip_addr_t \<Rightarrow> u16 \<Rightarrow> u16 \<Rightarrow>
   'a tcp_state_scheme \<Rightarrow> 'a tcp_state_scheme option" where
  "tcp_rst env pcb seqno ackno local_ip remote_ip local_port remote_port s =
     do {
       let optlen = LWIP_TCP_OPT_LENGTH 0;
       let wnd = lwip_htons TCP_WND;
       (p, h) \<leftarrow> tcp_output_alloc_header_common ackno (ucast optlen) 0 (lwip_htonl seqno) local_port
                  remote_port (TCP_RST OR TCP_ACK) wnd (ip_heap s);
       let s = s\<lparr>ip_heap := h\<rparr>;
       if p = 0 then Some s
       else do {
         u \<leftarrow> tcp_output_fill_options 0;
         (err, s) \<leftarrow> tcp_output_control_segment env pcb p local_ip remote_ip s;
         Some s
       }
     }"

definition tcp_send_empty_ack ::
  "'a tcp_state_scheme tcp_env \<Rightarrow> nat \<Rightarrow> 'a tcp_state_scheme \<Rightarrow> (err_t \<times> 'a tcp_state_scheme) option" where
  "tcp_send_empty_ack env pcb s =
     do {
       b \<leftarrow> tcp_mem s pcb;
       let optflags = 0;
       let optlen = LWIP_TCP_OPT_LENGTH optflags;
       (p, s) \<leftarrow> tcp_output_alloc_header pcb (ucast optlen) 0 (lwip_htonl (tp_snd_nxt b)) s;
       if p = 0 then do {
         s \<leftarrow> upd_tcp pcb (tcp_set_flags (TF_ACK_DELAY OR TF_ACK_NOW)) s;
         Some (ERR_BUF, s)
       } else do {
         u \<leftarrow> tcp_output_fill_options optflags;
         (err, s) \<leftarrow> tcp_output_control_segment env pcb p (tp_local_ip b) (tp_remote_ip b) s;
         s \<leftarrow> (if err \<noteq> ERR_OK then upd_tcp pcb (tcp_set_flags (TF_ACK_DELAY OR TF_ACK_NOW)) s
               else upd_tcp pcb (tcp_clear_flags (TF_ACK_DELAY OR TF_ACK_NOW)) s);
         Some (err, s)
       }
     }"

definition tcp_keepalive ::
  "'a tcp_state_scheme tcp_env \<Rightarrow> nat \<Rightarrow> 'a tcp_state_scheme \<Rightarrow> (err_t \<times> 'a tcp_state_scheme) option" where
  "tcp_keepalive env pcb s =
     do {
       b \<leftarrow> tcp_mem s pcb;
       let optlen = LWIP_TCP_OPT_LENGTH 0;
       (p, s) \<leftarrow> tcp_output_alloc_header pcb (ucast optlen) 0 (lwip_htonl (tp_snd_nxt b - 1)) s;
       if p = 0 then Some (ERR_MEM, s)
       else do {
         u \<leftarrow> tcp_output_fill_options 0;
         tcp_output_control_segment env pcb p (tp_local_ip b) (tp_remote_ip b) s
       }
     }"

definition tcp_zero_window_probe ::
  "'a tcp_state_scheme tcp_env \<Rightarrow> nat \<Rightarrow> 'a tcp_state_scheme \<Rightarrow> (err_t \<times> 'a tcp_state_scheme) option" where
  "tcp_zero_window_probe env pcb s =
     do {
       b \<leftarrow> tcp_mem s pcb;
       let optlen = LWIP_TCP_OPT_LENGTH 0;
       (case tp_unsent b of
          [] \<Rightarrow> Some (ERR_OK, s)
        | seg # segs \<Rightarrow> do {
            let s = (if tp_persist_probe b < 0xFF
                     then put_tcp pcb (b\<lparr>tp_persist_probe := tp_persist_probe b + 1\<rparr>) s else s);
            fl \<leftarrow> TCPH_FLAGS (ip_heap s) (sg_tcphdr seg);
            let is_fin = (fl AND TCP_FIN \<noteq> 0 \<and> sg_len seg = 0);
            let len = (if is_fin then 0 else 1);
            seqno_be \<leftarrow> th_seqno (ip_heap s) (sg_tcphdr seg);
            (p, s) \<leftarrow> tcp_output_alloc_header pcb (ucast optlen) len seqno_be s;
            if p = 0 then Some (ERR_MEM, s)
            else do {
              pb \<leftarrow> pbufs (ip_heap s) p;
              h \<leftarrow> (if is_fin then TCPH_FLAGS_SET (ip_heap s) (pb_payload pb) (TCP_ACK OR TCP_FIN)
                    else do {
                      sb \<leftarrow> pbufs (ip_heap s) (sg_p seg);
                      d \<leftarrow> mem_read (ip_heap s) (pb_payload pb) TCP_HLEN 1;
                      (n, d) \<leftarrow> pbuf_copy_partial (ip_heap s) (sg_p seg) d 1 (pb_tot_len sb - sg_len seg);
                      mem_write (ip_heap s) (pb_payload pb) TCP_HLEN d
                    });
              let s = s\<lparr>ip_heap := h\<rparr>;
              let snd_nxt = lwip_htonl seqno_be + 1;
              s \<leftarrow> upd_tcp pcb (\<lambda>b. if TCP_SEQ_LT (tp_snd_nxt b) snd_nxt then b\<lparr>tp_snd_nxt := snd_nxt\<rparr> else b) s;
              u \<leftarrow> tcp_output_fill_options 0;
              tcp_output_control_segment env pcb p (tp_local_ip b) (tp_remote_ip b) s
            }
          })
     }"

section \<open>Sending segments\<close>

definition tcp_output_segment_busy :: "heap \<Rightarrow> tcp_seg \<Rightarrow> bool option" where
  "tcp_output_segment_busy h seg = do { b \<leftarrow> pbufs h (sg_p seg); Some (pb_ref b \<noteq> 1) }"

text \<open>The fields of the header and of the PCB that are set when a segment leaves.\<close>

definition tcp_output_segment_fields ::
  "'a tcp_state_scheme tcp_env \<Rightarrow> tcp_seg \<Rightarrow> nat \<Rightarrow> netif \<Rightarrow> 'a tcp_state_scheme \<Rightarrow> 'a tcp_state_scheme option" where
  "tcp_output_segment_fields env seg pcb netif s =
     do {
       b \<leftarrow> tcp_mem s pcb;
       h \<leftarrow> set_hdr32 (ip_heap s) (sg_tcphdr seg) 8 (lwip_htonl (tp_rcv_nxt b));
       h \<leftarrow> set_hdr16 h (sg_tcphdr seg) 14 (lwip_htons (tp_rcv_ann_wnd b));
       let b = b\<lparr>tp_rcv_ann_right_edge := tp_rcv_nxt b + ucast (tp_rcv_ann_wnd b)\<rparr>;
       h \<leftarrow> (if sg_flags seg AND TF_SEG_OPTS_MSS \<noteq> 0 then
               set_hdr32 h (sg_tcphdr seg) TCP_HLEN
                 (TCP_BUILD_MSS_OPTION (tcp_eff_send_mss_netif env TCP_MSS (Some netif) (tp_remote_ip b) s))
             else Some h);
       let b = (if sint (tp_rtime b) < 0 then b\<lparr>tp_rtime := 0\<rparr> else b);
       seqno \<leftarrow> seg_seqno h seg;
       let b = (if tp_rttest b = 0 then b\<lparr>tp_rttest := tcp_ticks s, tp_rtseq := seqno\<rparr> else b);
       Some (put_tcp pcb b (s\<lparr>ip_heap := h\<rparr>))
     }"

text \<open>The packet begins at the TCP header again: what lower layers have put in front is dropped.\<close>

definition tcp_unwrap_segment :: "tcp_seg \<Rightarrow> heap \<Rightarrow> heap option" where
  "tcp_unwrap_segment seg h =
     do {
       pb \<leftarrow> pbufs h (sg_p seg);
       len \<leftarrow> (case (sg_tcphdr seg, pb_payload pb) of
           (VPtr a d, VPtr a' d') \<Rightarrow> (if a = a' then Some (of_nat d - of_nat d' :: u16) else None)
         | _ \<Rightarrow> None);
       Some (put_pbuf h (sg_p seg) (pb\<lparr>pb_len := pb_len pb - len, pb_tot_len := pb_tot_len pb - len,
         pb_payload := sg_tcphdr seg\<rparr>))
     }"

text \<open>The checksum: the header is summed anew, the sum of the data is kept in the segment.\<close>

definition tcp_segment_chksum ::
  "heap \<Rightarrow> tcp_seg \<Rightarrow> ip_addr_t \<Rightarrow> ip_addr_t \<Rightarrow> u16 option" where
  "tcp_segment_chksum h seg local_ip remote_ip =
     do {
       pb \<leftarrow> pbufs h (sg_p seg);
       hdrlen \<leftarrow> TCPH_HDRLEN_BYTES h (sg_tcphdr seg);
       lwip_assert (sg_flags seg AND TF_SEG_DATA_CHECKSUMMED = 0 \<longrightarrow> pb_tot_len pb = ucast hdrlen);
       segs \<leftarrow> pbuf_segments h (sg_p seg);
       acc \<leftarrow> ip_chksum_pseudo_partial LWIP_CHKSUM segs IP_PROTO_TCP (pb_tot_len pb) (ucast hdrlen)
               local_ip remote_ip;
       let chksum = (if sg_chksum_swapped seg \<noteq> 0
                     then ucast (SWAP_BYTES_IN_WORD (ucast (sg_chksum seg))) else sg_chksum seg);
       let acc = (ucast (NOT acc) :: u32) + ucast chksum;
       Some (NOT (ucast (FOLD_U32T acc)))
     }"

text \<open>\<^verbatim>\<open>tcp_output_segment\<close>; a swapped checksum of the segment is swapped back at the end, as it was.\<close>

definition tcp_output_segment ::
  "'a tcp_state_scheme tcp_env \<Rightarrow> tcp_seg \<Rightarrow> nat \<Rightarrow> netif \<Rightarrow> 'a tcp_state_scheme \<Rightarrow>
   (err_t \<times> 'a tcp_state_scheme) option" where
  "tcp_output_segment env seg pcb netif s =
     do {
       busy \<leftarrow> tcp_output_segment_busy (ip_heap s) seg;
       if busy then Some (ERR_OK, s)
       else do {
         s \<leftarrow> tcp_output_segment_fields env seg pcb netif s;
         h \<leftarrow> tcp_unwrap_segment seg (ip_heap s);
         h \<leftarrow> set_hdr16 h (sg_tcphdr seg) 16 0;
         b \<leftarrow> tcp_mem s pcb;
         chksum \<leftarrow> tcp_segment_chksum h seg (tp_local_ip b) (tp_remote_ip b);
         h \<leftarrow> set_hdr16 h (sg_tcphdr seg) 16 chksum;
         ip_output_if env (sg_p seg) (tp_local_ip b) (tp_remote_ip b) (tp_ttl b) (tp_tos b) IP_PROTO_TCP
           netif (s\<lparr>ip_heap := h\<rparr>)
       }
     }"

text \<open>The Nagle algorithm\<close>

definition tcp_do_output_nagle :: "tcp_pcb \<Rightarrow> bool" where
  "tcp_do_output_nagle b =
     (tp_unacked b = [] \<or> tp_flags b AND (TF_NODELAY OR TF_INFR) \<noteq> 0 \<or>
      (case tp_unsent b of [] \<Rightarrow> False | seg # segs \<Rightarrow> segs \<noteq> [] \<or> sg_len seg \<ge> tp_mss b) \<or>
      tp_snd_buf b = 0 \<or> tp_snd_queuelen b \<ge> TCP_SND_QUEUELEN)"

text \<open>A segment that has been sent joins the unacknowledged ones, which stay in order.\<close>

definition tcp_put_unacked :: "heap \<Rightarrow> tcp_seg \<Rightarrow> tcp_seg list \<Rightarrow> tcp_seg list option" where
  "tcp_put_unacked h seg unacked =
     (if unacked = [] then Some [seg]
      else do {
        seqno \<leftarrow> seg_seqno h seg;
        useqno \<leftarrow> seg_seqno h (last unacked);
        if TCP_SEQ_LT seqno useqno then tcp_seq_insert h seqno seg unacked else Some (unacked @ [seg])
      })"

text \<open>What follows the sending of the first unsent segment.\<close>

definition tcp_segment_sent :: "tcp_seg \<Rightarrow> nat \<Rightarrow> 'a tcp_state_scheme \<Rightarrow> 'a tcp_state_scheme option" where
  "tcp_segment_sent seg pcb s =
     do {
       b \<leftarrow> tcp_mem s pcb;
       let seg = seg\<lparr>sg_oversize_left := 0\<rparr>;
       let b = b\<lparr>tp_unsent := tl (tp_unsent b)\<rparr>;
       let b = (if tp_state b \<noteq> SYN_SENT then tcp_clear_flags (TF_ACK_DELAY OR TF_ACK_NOW) b else b);
       seqno \<leftarrow> seg_seqno (ip_heap s) seg;
       tcplen \<leftarrow> TCP_TCPLEN (ip_heap s) seg;
       let snd_nxt = seqno + tcplen;
       let b = (if TCP_SEQ_LT (tp_snd_nxt b) snd_nxt then b\<lparr>tp_snd_nxt := snd_nxt\<rparr> else b);
       if tcplen > 0 then do {
         unacked \<leftarrow> tcp_put_unacked (ip_heap s) seg (tp_unacked b);
         Some (put_tcp pcb (b\<lparr>tp_unacked := unacked\<rparr>) s)
       } else tcp_seg_free seg (put_tcp pcb b s)
     }"

text \<open>The loop that sends the segments the window admits.\<close>

partial_function (option) tcp_output_loop ::
  "'a tcp_state_scheme tcp_env \<Rightarrow> nat \<Rightarrow> netif \<Rightarrow> u32 \<Rightarrow> 'a tcp_state_scheme \<Rightarrow>
   (err_t \<times> 'a tcp_state_scheme) option" where
  "tcp_output_loop env pcb netif wnd s =
     do {
       b \<leftarrow> tcp_mem s pcb;
       (case tp_unsent b of
          [] \<Rightarrow> Some (ERR_OK, s)
        | seg # segs \<Rightarrow> do {
            seqno \<leftarrow> seg_seqno (ip_heap s) seg;
            if seqno - tp_lastack b + ucast (sg_len seg) \<le> wnd then do {
              fl \<leftarrow> TCPH_FLAGS (ip_heap s) (sg_tcphdr seg);
              lwip_assert (fl AND TCP_RST = 0);
              if \<not> tcp_do_output_nagle b \<and> tp_flags b AND (TF_NAGLEMEMERR OR TF_FIN) = 0 then Some (ERR_OK, s)
              else do {
                h \<leftarrow> (if tp_state b \<noteq> SYN_SENT then TCPH_SET_FLAG (ip_heap s) (sg_tcphdr seg) TCP_ACK
                      else Some (ip_heap s));
                (err, s) \<leftarrow> tcp_output_segment env seg pcb netif (s\<lparr>ip_heap := h\<rparr>);
                if err \<noteq> ERR_OK then do {
                  s \<leftarrow> upd_tcp pcb (tcp_set_flags TF_NAGLEMEMERR) s;
                  Some (err, s)
                } else do {
                  s \<leftarrow> tcp_segment_sent seg pcb s;
                  tcp_output_loop env pcb netif wnd s
                }
              }
            } else Some (ERR_OK, s)
          })
     }"

text \<open>The label \<^verbatim>\<open>output_done\<close>\<close>

definition tcp_output_done :: "nat \<Rightarrow> 'a tcp_state_scheme \<Rightarrow> (err_t \<times> 'a tcp_state_scheme) option" where
  "tcp_output_done pcb s = do { s \<leftarrow> upd_tcp pcb (tcp_clear_flags TF_NAGLEMEMERR) s; Some (ERR_OK, s) }"

text \<open>The persist timer starts when the first segment does not fit into the peer's window.\<close>

definition tcp_start_persist :: "u32 \<Rightarrow> tcp_pcb \<Rightarrow> tcp_pcb" where
  "tcp_start_persist wnd b =
     (if wnd = ucast (tp_snd_wnd b) \<and> tp_unacked b = [] \<and> tp_persist_backoff b = 0
      then b\<lparr>tp_persist_cnt := 0, tp_persist_backoff := 1, tp_persist_probe := 0\<rparr> else b)"

definition tcp_output ::
  "'a tcp_state_scheme tcp_env \<Rightarrow> nat \<Rightarrow> 'a tcp_state_scheme \<Rightarrow> (err_t \<times> 'a tcp_state_scheme) option" where
  "tcp_output env pcb s =
     do {
       b \<leftarrow> tcp_mem s pcb;
       lwip_assert (tp_state b \<noteq> LISTEN);
       if tcp_input_pcb s = pcb then Some (ERR_OK, s)
       else do {
         let wnd = ucast (min (tp_snd_wnd b) (tp_cwnd b));
         (case tp_unsent b of
            [] \<Rightarrow> (if tcp_is_flag_set b TF_ACK_NOW then tcp_send_empty_ack env pcb s else tcp_output_done pcb s)
          | seg # segs \<Rightarrow> do {
              netif \<leftarrow> tcp_route pcb (tp_local_ip b) (tp_remote_ip b) s;
              (case netif of
                 None \<Rightarrow> Some (ERR_RTE, s)
               | Some netif \<Rightarrow>
                   (case (if ip_addr_isany (tp_local_ip b) then ip_netif_get_local_ip env netif (tp_remote_ip b) s
                          else Some (tp_local_ip b)) of
                      None \<Rightarrow> Some (ERR_RTE, s)
                    | Some local_ip \<Rightarrow> do {
                        let b = b\<lparr>tp_local_ip := local_ip\<rparr>;
                        seqno \<leftarrow> seg_seqno (ip_heap s) seg;
                        if seqno - tp_lastack b + ucast (sg_len seg) > wnd then do {
                          let s = put_tcp pcb (tcp_start_persist wnd b) s;
                          if tcp_is_flag_set b TF_ACK_NOW then tcp_send_empty_ack env pcb s
                          else tcp_output_done pcb s
                        } else do {
                          let s = put_tcp pcb (b\<lparr>tp_persist_backoff := 0\<rparr>) s;
                          (err, s) \<leftarrow> tcp_output_loop env pcb netif wnd s;
                          if err \<noteq> ERR_OK then Some (err, s)
                          else do {
                            s \<leftarrow> upd_tcp pcb (\<lambda>b. if tp_unsent b = [] then b\<lparr>tp_unsent_oversize := 0\<rparr> else b) s;
                            tcp_output_done pcb s
                          }
                        }
                      }))
            })
       }
     }"

section \<open>Retransmission\<close>

fun tcp_any_busy :: "heap \<Rightarrow> tcp_seg list \<Rightarrow> bool option" where
  "tcp_any_busy h [] = Some False"
| "tcp_any_busy h (seg # segs) =
     do { busy \<leftarrow> tcp_output_segment_busy h seg; if busy then Some True else tcp_any_busy h segs }"

definition tcp_rexmit_rto_prepare :: "nat \<Rightarrow> 'a tcp_state_scheme \<Rightarrow> (err_t \<times> 'a tcp_state_scheme) option" where
  "tcp_rexmit_rto_prepare pcb s =
     do {
       b \<leftarrow> tcp_mem s pcb;
       if tp_unacked b = [] then Some (ERR_VAL, s)
       else do {
         busy \<leftarrow> tcp_any_busy (ip_heap s) (tp_unacked b);
         if busy then Some (ERR_VAL, s)
         else do {
           let seg = last (tp_unacked b);
           let b = b\<lparr>tp_unsent_oversize := (if tp_unsent b = [] then sg_oversize_left seg else tp_unsent_oversize b)\<rparr>;
           let b = b\<lparr>tp_unsent := tp_unacked b @ tp_unsent b, tp_unacked := []\<rparr>;
           let b = tcp_set_flags TF_RTO b;
           seqno \<leftarrow> seg_seqno (ip_heap s) seg;
           tcplen \<leftarrow> TCP_TCPLEN (ip_heap s) seg;
           Some (ERR_OK, put_tcp pcb (b\<lparr>tp_rto_end := seqno + tcplen, tp_rttest := 0\<rparr>) s)
         }
       }
     }"

definition tcp_rexmit_rto_commit ::
  "'a tcp_state_scheme tcp_env \<Rightarrow> nat \<Rightarrow> 'a tcp_state_scheme \<Rightarrow> 'a tcp_state_scheme option" where
  "tcp_rexmit_rto_commit env pcb s =
     do {
       s \<leftarrow> upd_tcp pcb (\<lambda>b. if tp_nrtx b < 0xFF then b\<lparr>tp_nrtx := tp_nrtx b + 1\<rparr> else b) s;
       (err, s) \<leftarrow> tcp_output env pcb s;
       Some s
     }"

definition tcp_rexmit_rto ::
  "'a tcp_state_scheme tcp_env \<Rightarrow> nat \<Rightarrow> 'a tcp_state_scheme \<Rightarrow> 'a tcp_state_scheme option" where
  "tcp_rexmit_rto env pcb s =
     do {
       (err, s) \<leftarrow> tcp_rexmit_rto_prepare pcb s;
       if err = ERR_OK then tcp_rexmit_rto_commit env pcb s else Some s
     }"

text \<open>The first unacknowledged segment goes back to the unsent ones, which stay in order.\<close>

definition tcp_rexmit :: "nat \<Rightarrow> 'a tcp_state_scheme \<Rightarrow> (err_t \<times> 'a tcp_state_scheme) option" where
  "tcp_rexmit pcb s =
     do {
       b \<leftarrow> tcp_mem s pcb;
       (case tp_unacked b of
          [] \<Rightarrow> Some (ERR_VAL, s)
        | seg # segs \<Rightarrow> do {
            busy \<leftarrow> tcp_output_segment_busy (ip_heap s) seg;
            if busy then Some (ERR_VAL, s)
            else do {
              seqno \<leftarrow> seg_seqno (ip_heap s) seg;
              unsent \<leftarrow> tcp_seq_insert (ip_heap s) seqno seg (tp_unsent b);
              let b = b\<lparr>tp_unacked := segs, tp_unsent := unsent,
                tp_unsent_oversize := (if unsent = tp_unsent b @ [seg] then 0 else tp_unsent_oversize b)\<rparr>;
              let b = (if tp_nrtx b < 0xFF then b\<lparr>tp_nrtx := tp_nrtx b + 1\<rparr> else b);
              Some (ERR_OK, put_tcp pcb (b\<lparr>tp_rttest := 0\<rparr>) s)
            }
          })
     }"

definition tcp_rexmit_fast :: "nat \<Rightarrow> 'a tcp_state_scheme \<Rightarrow> 'a tcp_state_scheme option" where
  "tcp_rexmit_fast pcb s =
     do {
       b \<leftarrow> tcp_mem s pcb;
       if tp_unacked b \<noteq> [] \<and> \<not> tcp_is_flag_set b TF_INFR then do {
         (err, s) \<leftarrow> tcp_rexmit pcb s;
         if err = ERR_OK then upd_tcp pcb (\<lambda>b.
           let b = b\<lparr>tp_ssthresh := min (tp_cwnd b) (tp_snd_wnd b) div 2\<rparr>;
               b = (if unat (tp_ssthresh b) < 2 * unat (tp_mss b) then b\<lparr>tp_ssthresh := 2 * tp_mss b\<rparr> else b);
               b = b\<lparr>tp_cwnd := tp_ssthresh b + 3 * tp_mss b\<rparr>;
               b = tcp_set_flags TF_INFR b
           in b\<lparr>tp_rtime := 0\<rparr>) s
         else Some s
       } else Some s
     }"

end
