(* ===== verification/Lwip_Tcp_Write.thy ===== *)
theory Lwip_Tcp_Write
  imports Lwip_Tcp_Out
begin

text \<open>
  \<^verbatim>\<open>tcp_write\<close> of \<^verbatim>\<open>core/c/core/tcp_out.c\<close>: data of the application become segments of the
  \<^verbatim>\<open>unsent\<close> queue, in three phases: filling the spare room of the last unsent segment's last pbuf,
  extending that segment by a pbuf, and new segments. Nothing of the PCB changes before all phases
  have succeeded.
\<close>

section \<open>Pbufs for outgoing data\<close>

definition TCP_WRITE_FLAG_COPY :: u8 where "TCP_WRITE_FLAG_COPY = 0x01"
definition TCP_WRITE_FLAG_MORE :: u8 where "TCP_WRITE_FLAG_MORE = 0x02"
definition PBUF_TYPE_FLAG_DATA_VOLATILE :: u8 where "PBUF_TYPE_FLAG_DATA_VOLATILE = 0x40"

text \<open>The result is the pbuf (0 when there is no memory) and the room it has beyond \<^verbatim>\<open>length\<close>.\<close>

definition tcp_pbuf_prealloc ::
  "pbuf_layer \<Rightarrow> u16 \<Rightarrow> u16 \<Rightarrow> tcp_pcb \<Rightarrow> u8 \<Rightarrow> bool \<Rightarrow> heap \<Rightarrow> (nat \<times> u16 \<times> heap) option" where
  "tcp_pbuf_prealloc layer len max_length b apiflags first_seg h =
     do {
       let alloc = (if len < max_length \<and>
           (apiflags AND TCP_WRITE_FLAG_MORE \<noteq> 0 \<or>
            (tp_flags b AND TF_NODELAY = 0 \<and> (\<not> first_seg \<or> tp_unsent b \<noteq> [] \<or> tp_unacked b \<noteq> [])))
         then of_nat (min (unat max_length) (unat len + unat TCP_OVERSIZE)) else len);
       (p, h) \<leftarrow> pbuf_alloc h layer alloc PBUF_RAM;
       if p = 0 then Some (0, 0, h)
       else do {
         pb \<leftarrow> pbufs h p;
         lwip_assert (pb_next pb = 0);
         Some (p, pb_len pb - len, put_pbuf h p (pb\<lparr>pb_len := len, pb_tot_len := len\<rparr>))
       }
     }"

text \<open>\<^verbatim>\<open>TCP_DATA_COPY2\<close>: copying data and adding their checksum.\<close>

definition TCP_DATA_COPY2 ::
  "heap \<Rightarrow> vptr \<Rightarrow> nat \<Rightarrow> u8 list \<Rightarrow> u16 \<times> u8 \<Rightarrow> ((u16 \<times> u8) \<times> heap) option" where
  "TCP_DATA_COPY2 h dst off src c =
     do {
       h \<leftarrow> mem_write h dst off src;
       bs \<leftarrow> mem_read h dst off (length src);
       Some (tcp_seg_add_chksum (LWIP_CHKSUM (vptr_address h dst + off) bs) (of_nat (length src)) c, h)
     }"

partial_function (option) pbuf_last :: "heap \<Rightarrow> nat \<Rightarrow> nat option" where
  "pbuf_last h p = do { b \<leftarrow> pbufs h p; if pb_next b = 0 then Some p else pbuf_last h (pb_next b) }"

text \<open>The walk that adds \<^verbatim>\<open>n\<close> to the total length of every pbuf of a chain; it ends at the last one.\<close>

partial_function (option) pbuf_grow :: "heap \<Rightarrow> nat \<Rightarrow> u16 \<Rightarrow> (nat \<times> heap) option" where
  "pbuf_grow h p n =
     do {
       b \<leftarrow> pbufs h p;
       let h = put_pbuf h p (b\<lparr>pb_tot_len := pb_tot_len b + n\<rparr>);
       if pb_next b = 0 then Some (p, h) else pbuf_grow h (pb_next b) n
     }"

section \<open>Checks\<close>

definition tcp_write_checks :: "tcp_pcb \<Rightarrow> u16 \<Rightarrow> (err_t \<times> tcp_pcb) option" where
  "tcp_write_checks b len =
     (if tp_state b \<noteq> ESTABLISHED \<and> tp_state b \<noteq> CLOSE_WAIT \<and> tp_state b \<noteq> SYN_SENT \<and> tp_state b \<noteq> SYN_RCVD
      then Some (ERR_CONN, b)
      else if len = 0 then Some (ERR_OK, b)
      else if len > tp_snd_buf b then Some (ERR_MEM, tcp_set_flags TF_NAGLEMEMERR b)
      else if tp_snd_queuelen b \<ge> min TCP_SND_QUEUELEN (TCP_SNDQUEUELEN_OVERFLOW + 1)
      then Some (ERR_MEM, tcp_set_flags TF_NAGLEMEMERR b)
      else do {
        lwip_assert (if tp_snd_queuelen b \<noteq> 0 then tp_unacked b \<noteq> [] \<or> tp_unsent b \<noteq> []
                     else tp_unacked b = [] \<and> tp_unsent b = []);
        Some (ERR_OK, b)
      })"

section \<open>The phases\<close>

text \<open>
  The local variables of \<^verbatim>\<open>tcp_write\<close>. \<^verbatim>\<open>tw_tail\<close> says that \<^verbatim>\<open>seg\<close> has been set to the last
  unsent segment; a segment of phase 3 replaces it.
\<close>

record tcp_write_vars =
  tw_pos :: u16
  tw_queuelen :: u16
  tw_oversize :: u16
  tw_oversize_used :: u16
  tw_oversize_add :: u16
  tw_extendlen :: u16
  tw_concat_p :: nat
  tw_concat :: "u16 \<times> u8"
  tw_concat_chksummed :: u16
  tw_queue :: "tcp_seg list"
  tw_tail :: bool

definition tcp_write_init :: "tcp_pcb \<Rightarrow> tcp_write_vars" where
  "tcp_write_init b = \<lparr>tw_pos = 0, tw_queuelen = tp_snd_queuelen b, tw_oversize = 0, tw_oversize_used = 0,
     tw_oversize_add = 0, tw_extendlen = 0, tw_concat_p = 0, tw_concat = (0, 0), tw_concat_chksummed = 0,
     tw_queue = [], tw_tail = False\<rparr>"

text \<open>Phase 1: how much goes into the spare room at the end of the last unsent segment.\<close>

definition tcp_write_phase1 ::
  "tcp_pcb \<Rightarrow> tcp_seg \<Rightarrow> u16 \<Rightarrow> u16 \<Rightarrow> tcp_write_vars \<Rightarrow> (u16 \<times> tcp_write_vars) option" where
  "tcp_write_phase1 b last_unsent mss_local len v =
     do {
       let unsent_optlen = LWIP_TCP_OPT_LENGTH (sg_flags last_unsent);
       lwip_assert (unat mss_local \<ge> unat (sg_len last_unsent) + unat unsent_optlen);
       let space = mss_local - (sg_len last_unsent + ucast unsent_optlen);
       lwip_assert (tp_unsent_oversize b = sg_oversize_left last_unsent);
       let oversize = tp_unsent_oversize b;
       (space, v) \<leftarrow> (if oversize > 0 then do {
           lwip_assert (oversize \<le> space);
           let used = min space (min oversize len);
           Some (space - used, v\<lparr>tw_pos := tw_pos v + used, tw_oversize := oversize - used,
             tw_oversize_used := used, tw_tail := True\<rparr>)
         } else Some (space, v\<lparr>tw_oversize := oversize\<rparr>));
       lwip_assert (tw_oversize v = 0 \<or> tw_pos v = len);
       Some (space, v)
     }"

text \<open>
  Phase 2: a pbuf with a copy or a reference, to be chained to the last unsent segment, or more
  bytes of the memory the segment already refers to. The error is \<^verbatim>\<open>goto memerr\<close>.
\<close>

definition tcp_write_phase2 ::
  "tcp_pcb \<Rightarrow> tcp_seg \<Rightarrow> vptr \<Rightarrow> u16 \<Rightarrow> u8 \<Rightarrow> u16 \<Rightarrow> tcp_write_vars \<Rightarrow> heap \<Rightarrow>
   (err_t \<times> tcp_write_vars \<times> heap) option" where
  "tcp_write_phase2 b last_unsent arg len apiflags space v h =
     (if tw_pos v < len \<and> space > 0 \<and> sg_len last_unsent > 0 then do {
        let seglen = min space (len - tw_pos v);
        let v = v\<lparr>tw_tail := True\<rparr>;
        src \<leftarrow> mem_read h arg (unat (tw_pos v)) (unat seglen);
        if apiflags AND TCP_WRITE_FLAG_COPY \<noteq> 0 then do {
          (concat_p, oversize, h) \<leftarrow> tcp_pbuf_prealloc PBUF_RAW seglen space b apiflags True h;
          if concat_p = 0 then Some (ERR_MEM, v, h)
          else do {
            pb \<leftarrow> pbufs h concat_p;
            (c, h) \<leftarrow> TCP_DATA_COPY2 h (pb_payload pb) 0 src (tw_concat v);
            clen \<leftarrow> pbuf_clen h concat_p;
            Some (ERR_OK, v\<lparr>tw_concat_p := concat_p, tw_oversize := oversize, tw_oversize_add := oversize,
              tw_concat := c, tw_concat_chksummed := tw_concat_chksummed v + seglen,
              tw_queuelen := tw_queuelen v + clen, tw_pos := tw_pos v + seglen\<rparr>, h)
          }
        } else do {
          p \<leftarrow> pbuf_last h (sg_p last_unsent);
          pb \<leftarrow> pbufs h p;
          let c = tcp_seg_add_chksum
            (NOT (inet_chksum LWIP_CHKSUM (vptr_address h arg + unat (tw_pos v)) src)) seglen (tw_concat v);
          if pb_type_internal pb AND (PBUF_TYPE_FLAG_STRUCT_DATA_CONTIGUOUS OR PBUF_TYPE_FLAG_DATA_VOLATILE) = 0
             \<and> vptr_address h (pb_payload pb) + unat (pb_len pb) = vptr_address h arg
          then do {
            lwip_assert (tw_pos v = 0);
            Some (ERR_OK, v\<lparr>tw_extendlen := seglen, tw_concat := c,
              tw_concat_chksummed := tw_concat_chksummed v + seglen, tw_pos := tw_pos v + seglen\<rparr>, h)
          } else do {
            (concat_p, h) \<leftarrow> pbuf_alloc h PBUF_RAW seglen PBUF_ROM;
            if concat_p = 0 then Some (ERR_MEM, v, h)
            else do {
              cb \<leftarrow> pbufs h concat_p;
              let h = put_pbuf h concat_p (cb\<lparr>pb_payload := vptr_add arg (unat (tw_pos v))\<rparr>);
              clen \<leftarrow> pbuf_clen h concat_p;
              Some (ERR_OK, v\<lparr>tw_concat_p := concat_p, tw_queuelen := tw_queuelen v + clen, tw_concat := c,
                tw_concat_chksummed := tw_concat_chksummed v + seglen, tw_pos := tw_pos v + seglen\<rparr>, h)
            }
          }
        }
      } else Some (ERR_OK, v, h))"

text \<open>
  The pbuf for a segment of phase 3, with the checksum of its data: one pbuf with a copy, or a pbuf
  for the header in front of one that refers to the data. \<^verbatim>\<open>optlen\<close> is 0.
\<close>

definition tcp_write_seg_pbuf ::
  "tcp_pcb \<Rightarrow> vptr \<Rightarrow> u16 \<Rightarrow> u8 \<Rightarrow> u16 \<Rightarrow> tcp_write_vars \<Rightarrow> heap \<Rightarrow>
   (nat \<times> (u16 \<times> u8) \<times> tcp_write_vars \<times> heap) option" where
  "tcp_write_seg_pbuf b arg seglen apiflags mss_local v h =
     do {
       src \<leftarrow> mem_read h arg (unat (tw_pos v)) (unat seglen);
       if apiflags AND TCP_WRITE_FLAG_COPY \<noteq> 0 then do {
         (p, oversize, h) \<leftarrow> tcp_pbuf_prealloc PBUF_TRANSPORT seglen mss_local b apiflags (tw_queue v = []) h;
         if p = 0 then Some (0, (0, 0), v, h)
         else do {
           pb \<leftarrow> pbufs h p;
           lwip_assert (pb_len pb \<ge> seglen);
           (c, h) \<leftarrow> TCP_DATA_COPY2 h (pb_payload pb) 0 src (0, 0);
           Some (p, c, v\<lparr>tw_oversize := oversize\<rparr>, h)
         }
       } else do {
         lwip_assert (tw_oversize v = 0);
         (p2, h) \<leftarrow> pbuf_alloc h PBUF_TRANSPORT seglen PBUF_ROM;
         if p2 = 0 then Some (0, (0, 0), v, h)
         else do {
           let chksum = NOT (inet_chksum LWIP_CHKSUM (vptr_address h arg + unat (tw_pos v)) src);
           let c = (if seglen AND 1 \<noteq> 0 then (ucast (SWAP_BYTES_IN_WORD (ucast chksum)), 1) else (chksum, 0));
           pb2 \<leftarrow> pbufs h p2;
           let h = put_pbuf h p2 (pb2\<lparr>pb_payload := vptr_add arg (unat (tw_pos v))\<rparr>);
           (p, h) \<leftarrow> pbuf_alloc h PBUF_TRANSPORT 0 PBUF_RAM;
           if p = 0 then do { (n, h) \<leftarrow> pbuf_free h p2; Some (0, (0, 0), v, h) }
           else do { h \<leftarrow> pbuf_cat h p p2; Some (p, c, v, h) }
         }
       }
     }"

text \<open>Phase 3: the loop that makes new segments.\<close>

partial_function (option) tcp_write_phase3 ::
  "nat \<Rightarrow> vptr \<Rightarrow> u16 \<Rightarrow> u8 \<Rightarrow> u16 \<Rightarrow> tcp_write_vars \<Rightarrow> 'a tcp_state_scheme \<Rightarrow>
   (err_t \<times> tcp_write_vars \<times> 'a tcp_state_scheme) option" where
  "tcp_write_phase3 pcb arg len apiflags mss_local v s =
     (if tw_pos v < len then do {
        b \<leftarrow> tcp_mem s pcb;
        let seglen = min (len - tw_pos v) mss_local;
        (p, (chksum, chksum_swapped), v, h) \<leftarrow> tcp_write_seg_pbuf b arg seglen apiflags mss_local v (ip_heap s);
        let s = s\<lparr>ip_heap := h\<rparr>;
        if p = 0 then Some (ERR_MEM, v, s)
        else do {
          clen \<leftarrow> pbuf_clen h p;
          let v = v\<lparr>tw_queuelen := tw_queuelen v + clen\<rparr>;
          if tw_queuelen v > min TCP_SND_QUEUELEN TCP_SNDQUEUELEN_OVERFLOW then do {
            s \<leftarrow> tcp_free_pbuf p s;
            Some (ERR_MEM, v, s)
          } else do {
            (seg, s) \<leftarrow> tcp_create_segment pcb p 0 (tp_snd_lbb b + ucast (tw_pos v)) 0 s;
            (case seg of
               None \<Rightarrow> Some (ERR_MEM, v, s)
             | Some seg \<Rightarrow>
                 let seg = seg\<lparr>sg_oversize_left := tw_oversize v, sg_chksum := chksum,
                   sg_chksum_swapped := chksum_swapped, sg_flags := sg_flags seg OR TF_SEG_DATA_CHECKSUMMED\<rparr>
                 in tcp_write_phase3 pcb arg len apiflags mss_local
                      (v\<lparr>tw_queue := tw_queue v @ [seg], tw_pos := tw_pos v + seglen\<rparr>) s)
          }
        }
      } else Some (ERR_OK, v, s))"

section \<open>Commit\<close>

text \<open>What phases 1 and 2 have planned is done to the last unsent segment.\<close>

definition tcp_commit_oversize ::
  "vptr \<Rightarrow> tcp_write_vars \<Rightarrow> tcp_seg \<Rightarrow> heap \<Rightarrow> (tcp_seg \<times> heap) option" where
  "tcp_commit_oversize arg v last_unsent h =
     (if tw_oversize_used v > 0 then do {
        (p, h) \<leftarrow> pbuf_grow h (sg_p last_unsent) (tw_oversize_used v);
        pb \<leftarrow> pbufs h p;
        src \<leftarrow> mem_read h arg 0 (unat (tw_oversize_used v));
        (c, h) \<leftarrow> TCP_DATA_COPY2 h (pb_payload pb) (unat (pb_len pb)) src (seg_chksum_of last_unsent);
        let h = put_pbuf h p (pb\<lparr>pb_len := pb_len pb + tw_oversize_used v\<rparr>);
        let seg = set_seg_chksum c last_unsent;
        let seg = seg\<lparr>sg_len := sg_len seg + tw_oversize_used v\<rparr>;
        lwip_assert (sg_oversize_left seg \<ge> tw_oversize_used v);
        Some (seg\<lparr>sg_oversize_left := sg_oversize_left seg - tw_oversize_used v\<rparr>, h)
      } else Some (last_unsent, h))"

definition tcp_commit_concat :: "tcp_write_vars \<Rightarrow> tcp_seg \<Rightarrow> heap \<Rightarrow> (tcp_seg \<times> heap) option" where
  "tcp_commit_concat v last_unsent h =
     (if tw_concat_p v \<noteq> 0 then do {
        h \<leftarrow> pbuf_cat h (sg_p last_unsent) (tw_concat_p v);
        cb \<leftarrow> pbufs h (tw_concat_p v);
        Some (last_unsent\<lparr>sg_len := sg_len last_unsent + pb_tot_len cb\<rparr>, h)
      } else if tw_extendlen v > 0 then do {
        lwip_assert (sg_p last_unsent \<noteq> 0);
        (p, h) \<leftarrow> pbuf_grow h (sg_p last_unsent) (tw_extendlen v);
        pb \<leftarrow> pbufs h p;
        Some (last_unsent\<lparr>sg_len := sg_len last_unsent + tw_extendlen v\<rparr>,
          put_pbuf h p (pb\<lparr>pb_len := pb_len pb + tw_extendlen v\<rparr>))
      } else Some (last_unsent, h))"

definition tcp_commit_chksum :: "tcp_write_vars \<Rightarrow> tcp_seg \<Rightarrow> tcp_seg option" where
  "tcp_commit_chksum v last_unsent =
     (if tw_concat_chksummed v \<noteq> 0 then do {
        lwip_assert (tw_concat_p v \<noteq> 0 \<or> tw_extendlen v > 0);
        let (chksum, swapped) = tw_concat v;
        let chksum = (if swapped \<noteq> 0 then ucast (SWAP_BYTES_IN_WORD (ucast chksum)) else chksum);
        Some (set_seg_chksum (tcp_seg_add_chksum chksum (tw_concat_chksummed v) (seg_chksum_of last_unsent))
          last_unsent)
      } else Some last_unsent)"

definition tcp_commit_tail ::
  "vptr \<Rightarrow> tcp_write_vars \<Rightarrow> tcp_seg \<Rightarrow> heap \<Rightarrow> (tcp_seg \<times> heap) option" where
  "tcp_commit_tail arg v last_unsent h =
     do {
       let seg = last_unsent\<lparr>sg_oversize_left := sg_oversize_left last_unsent + tw_oversize_add v\<rparr>;
       (seg, h) \<leftarrow> tcp_commit_oversize arg v seg h;
       (seg, h) \<leftarrow> tcp_commit_concat v seg h;
       seg \<leftarrow> tcp_commit_chksum v seg;
       Some (seg, h)
     }"

text \<open>The end of \<^verbatim>\<open>tcp_write\<close>: the PCB gets the new queue, and the last segment the PSH flag.\<close>

definition tcp_write_commit ::
  "nat \<Rightarrow> vptr \<Rightarrow> u16 \<Rightarrow> u8 \<Rightarrow> tcp_write_vars \<Rightarrow> 'a tcp_state_scheme \<Rightarrow>
   (err_t \<times> 'a tcp_state_scheme) option" where
  "tcp_write_commit pcb arg len apiflags v s =
     do {
       b \<leftarrow> tcp_mem s pcb;
       (unsent, h) \<leftarrow> (if tp_unsent b = [] then Some ([], ip_heap s)
         else do {
           (seg, h) \<leftarrow> tcp_commit_tail arg v (last (tp_unsent b)) (ip_heap s);
           Some (butlast (tp_unsent b) @ [seg], h)
         });
       lwip_assert (tw_concat_p v = 0 \<or> tp_unsent b \<noteq> []);
       let b = b\<lparr>tp_unsent_oversize := tw_oversize v, tp_unsent := unsent @ tw_queue v,
         tp_snd_lbb := tp_snd_lbb b + ucast len, tp_snd_buf := tp_snd_buf b - len,
         tp_snd_queuelen := tw_queuelen v\<rparr>;
       lwip_assert (tp_snd_queuelen b \<noteq> 0 \<longrightarrow> tp_unacked b \<noteq> [] \<or> tp_unsent b \<noteq> []);
       h \<leftarrow> (if (tw_queue v \<noteq> [] \<or> tw_tail v) \<and> sg_tcphdr (last (tp_unsent b)) \<noteq> VNull
                \<and> apiflags AND TCP_WRITE_FLAG_MORE = 0
             then TCPH_SET_FLAG h (sg_tcphdr (last (tp_unsent b))) TCP_PSH else Some h);
       Some (ERR_OK, put_tcp pcb b (s\<lparr>ip_heap := h\<rparr>))
     }"

text \<open>The label \<^verbatim>\<open>memerr\<close>\<close>

definition tcp_write_memerr ::
  "nat \<Rightarrow> tcp_write_vars \<Rightarrow> 'a tcp_state_scheme \<Rightarrow> (err_t \<times> 'a tcp_state_scheme) option" where
  "tcp_write_memerr pcb v s =
     do {
       s \<leftarrow> upd_tcp pcb (tcp_set_flags TF_NAGLEMEMERR) s;
       s \<leftarrow> (if tw_concat_p v \<noteq> 0 then tcp_free_pbuf (tw_concat_p v) s else Some s);
       s \<leftarrow> tcp_segs_free (tw_queue v) s;
       b \<leftarrow> tcp_mem s pcb;
       lwip_assert (tp_snd_queuelen b \<noteq> 0 \<longrightarrow> tp_unacked b \<noteq> [] \<or> tp_unsent b \<noteq> []);
       Some (ERR_MEM, s)
     }"

text \<open>Segments are not larger than half the largest window the peer has announced.\<close>

definition tcp_mss_local :: "tcp_pcb \<Rightarrow> u16" where
  "tcp_mss_local b =
     (let mss_local = min (tp_mss b) (tp_snd_wnd_max b div 2) in if mss_local \<noteq> 0 then mss_local else tp_mss b)"

definition tcp_write ::
  "nat \<Rightarrow> vptr \<Rightarrow> u16 \<Rightarrow> u8 \<Rightarrow> 'a tcp_state_scheme \<Rightarrow> (err_t \<times> 'a tcp_state_scheme) option" where
  "tcp_write pcb arg len apiflags s =
     do {
       lwip_assert (pcb \<noteq> 0);
       b \<leftarrow> tcp_mem s pcb;
       let mss_local = tcp_mss_local b;
       lwip_assert (arg \<noteq> VNull);
       (err, b) \<leftarrow> tcp_write_checks b len;
       let s = put_tcp pcb b s;
       if err \<noteq> ERR_OK then Some (err, s)
       else do {
         let v = tcp_write_init b;
         (err, v, h) \<leftarrow> (if tp_unsent b \<noteq> [] then do {
             (space, v) \<leftarrow> tcp_write_phase1 b (last (tp_unsent b)) mss_local len v;
             tcp_write_phase2 b (last (tp_unsent b)) arg len apiflags space v (ip_heap s)
           } else do {
             lwip_assert (tp_unsent_oversize b = 0);
             Some (ERR_OK, v, ip_heap s)
           });
         let s = s\<lparr>ip_heap := h\<rparr>;
         if err \<noteq> ERR_OK then tcp_write_memerr pcb v s
         else do {
           (err, v, s) \<leftarrow> tcp_write_phase3 pcb arg len apiflags mss_local v s;
           if err \<noteq> ERR_OK then tcp_write_memerr pcb v s
           else tcp_write_commit pcb arg len apiflags v s
         }
       }
     }"

end
