(* ===== verification/Lwip_Tcp_Pcb.thy ===== *)
theory Lwip_Tcp_Pcb
  imports Lwip_Tcp_Write Lwip_Udp
begin

text \<open>
  The control blocks of TCP (\<^verbatim>\<open>core/c/core/tcp.c\<close>): allocation, binding, listening, connecting,
  the receive window, closing and aborting, and what the application registers. The timers are in
  \<^verbatim>\<open>Lwip_Tcp_Tmr\<close>. Dual-stack build, no \<^verbatim>\<open>SO_REUSE\<close>, no listen backlog, no keepalive settings
  per PCB; \<^verbatim>\<open>LWIP_ERROR\<close> stops the program like a failed assertion.
\<close>

section \<open>Freeing\<close>

definition tcp_init :: "u32 \<Rightarrow> 'a tcp_state_scheme \<Rightarrow> 'a tcp_state_scheme" where
  "tcp_init rand s =
     s\<lparr>tcp_port := (ucast rand AND NOT TCP_LOCAL_PORT_RANGE_START) + TCP_LOCAL_PORT_RANGE_START\<rparr>"

definition tcp_free :: "nat \<Rightarrow> 'a tcp_state_scheme \<Rightarrow> 'a tcp_state_scheme option" where
  "tcp_free pcb s =
     do {
       b \<leftarrow> tcp_mem s pcb;
       lwip_assert (tp_state b \<noteq> LISTEN);
       Some (s\<lparr>tcp_mem := (tcp_mem s)(pcb := None)\<rparr>)
     }"

definition tcp_free_listen :: "nat \<Rightarrow> 'a tcp_state_scheme \<Rightarrow> 'a tcp_state_scheme option" where
  "tcp_free_listen pcb s =
     do {
       b \<leftarrow> tcp_mem s pcb;
       lwip_assert (tp_state b \<noteq> LISTEN);
       Some (s\<lparr>tcp_mem := (tcp_mem s)(pcb := None)\<rparr>)
     }"

partial_function (option) tcp_remove_listener ::
  "nat \<Rightarrow> nat \<Rightarrow> 'a tcp_state_scheme \<Rightarrow> 'a tcp_state_scheme option" where
  "tcp_remove_listener pcb lpcb s =
     (if pcb = 0 then Some s
      else do {
        b \<leftarrow> tcp_mem s pcb;
        let s = (if tp_listener b = lpcb then put_tcp pcb (b\<lparr>tp_listener := 0\<rparr>) s else s);
        tcp_remove_listener (tp_next b) lpcb s
      })"

definition tcp_listen_closed :: "nat \<Rightarrow> 'a tcp_state_scheme \<Rightarrow> 'a tcp_state_scheme option" where
  "tcp_listen_closed pcb s =
     do {
       lwip_assert (pcb \<noteq> 0);
       b \<leftarrow> tcp_mem s pcb;
       lwip_assert (tp_state b = LISTEN);
       s \<leftarrow> tcp_remove_listener (tcp_list_head L_bound s) pcb s;
       s \<leftarrow> tcp_remove_listener (tcp_list_head L_active s) pcb s;
       tcp_remove_listener (tcp_list_head L_tw s) pcb s
     }"

definition tcp_pcb_purge :: "nat \<Rightarrow> 'a tcp_state_scheme \<Rightarrow> 'a tcp_state_scheme option" where
  "tcp_pcb_purge pcb s =
     do {
       lwip_assert (pcb \<noteq> 0);
       b \<leftarrow> tcp_mem s pcb;
       if tp_state b \<noteq> CLOSED \<and> tp_state b \<noteq> TIME_WAIT \<and> tp_state b \<noteq> LISTEN then do {
         s \<leftarrow> (if tp_refused_data b \<noteq> 0 then do {
                 s \<leftarrow> tcp_free_pbuf (tp_refused_data b) s;
                 upd_tcp pcb (\<lambda>b. b\<lparr>tp_refused_data := 0\<rparr>) s
               } else Some s);
         s \<leftarrow> tcp_free_ooseq pcb s;
         s \<leftarrow> tcp_segs_free (tp_unsent b) s;
         s \<leftarrow> tcp_segs_free (tp_unacked b) s;
         upd_tcp pcb (\<lambda>b. b\<lparr>tp_rtime := - 1, tp_unsent := [], tp_unacked := [], tp_unsent_oversize := 0\<rparr>) s
       } else Some s
     }"

definition tcp_pcb_remove ::
  "'a tcp_state_scheme tcp_env \<Rightarrow> tcp_list \<Rightarrow> nat \<Rightarrow> 'a tcp_state_scheme \<Rightarrow> 'a tcp_state_scheme option" where
  "tcp_pcb_remove env l pcb s =
     do {
       lwip_assert (pcb \<noteq> 0);
       s \<leftarrow> TCP_RMV l pcb s;
       s \<leftarrow> tcp_pcb_purge pcb s;
       b \<leftarrow> tcp_mem s pcb;
       s \<leftarrow> (if tp_state b \<noteq> TIME_WAIT \<and> tp_state b \<noteq> LISTEN \<and> tcp_is_flag_set b TF_ACK_DELAY then do {
               s \<leftarrow> upd_tcp pcb tcp_ack_now s;
               (err, s) \<leftarrow> tcp_output env pcb s;
               Some s
             } else Some s);
       b \<leftarrow> tcp_mem s pcb;
       lwip_assert (tp_state b \<noteq> LISTEN \<longrightarrow> tp_unsent b = [] \<and> tp_unacked b = [] \<and> tp_ooseq b = []);
       let s = put_tcp pcb (b\<lparr>tp_state := CLOSED, tp_local_port := 0\<rparr>) s;
       sane \<leftarrow> tcp_pcbs_sane s;
       Some s
     }"

definition TCP_PCB_REMOVE_ACTIVE ::
  "'a tcp_state_scheme tcp_env \<Rightarrow> nat \<Rightarrow> 'a tcp_state_scheme \<Rightarrow> 'a tcp_state_scheme option" where
  "TCP_PCB_REMOVE_ACTIVE env pcb s =
     do { s \<leftarrow> tcp_pcb_remove env L_active pcb s; Some (s\<lparr>tcp_active_pcbs_changed := True\<rparr>) }"

section \<open>Closing\<close>

definition tcp_trigger_input_pcb_close :: "'a tcp_state_scheme \<Rightarrow> 'a tcp_state_scheme" where
  "tcp_trigger_input_pcb_close s = s\<lparr>ti_recv_flags := ti_recv_flags s OR TF_CLOSED\<rparr>"

definition tcp_close_shutdown_fin ::
  "'a tcp_state_scheme tcp_env \<Rightarrow> nat \<Rightarrow> 'a tcp_state_scheme \<Rightarrow> (err_t \<times> 'a tcp_state_scheme) option" where
  "tcp_close_shutdown_fin env pcb s =
     do {
       b \<leftarrow> tcp_mem s pcb;
       if tp_state b = SYN_RCVD \<or> tp_state b = ESTABLISHED \<or> tp_state b = CLOSE_WAIT then do {
         (err, s) \<leftarrow> tcp_send_fin pcb s;
         if err = ERR_OK then do {
           s \<leftarrow> upd_tcp pcb (\<lambda>b. b\<lparr>tp_state := (if tp_state b = CLOSE_WAIT then LAST_ACK else FIN_WAIT_1)\<rparr>) s;
           (e, s) \<leftarrow> tcp_output env pcb s;
           Some (err, s)
         } else if err = ERR_MEM then do {
           s \<leftarrow> upd_tcp pcb (tcp_set_flags TF_CLOSEPEND) s;
           Some (ERR_OK, s)
         } else Some (err, s)
       } else Some (ERR_OK, s)
     }"

definition tcp_close_shutdown ::
  "'a tcp_state_scheme tcp_env \<Rightarrow> nat \<Rightarrow> bool \<Rightarrow> 'a tcp_state_scheme \<Rightarrow> (err_t \<times> 'a tcp_state_scheme) option" where
  "tcp_close_shutdown env pcb rst_on_unacked_data s =
     do {
       lwip_assert (pcb \<noteq> 0);
       b \<leftarrow> tcp_mem s pcb;
       if rst_on_unacked_data \<and> (tp_state b = ESTABLISHED \<or> tp_state b = CLOSE_WAIT) \<and>
          (tp_refused_data b \<noteq> 0 \<or> tp_rcv_wnd b \<noteq> TCP_WND) then do {
         lwip_assert (tcp_is_flag_set b TF_RXCLOSED);
         s \<leftarrow> tcp_rst env pcb (tp_snd_nxt b) (tp_rcv_nxt b) (tp_local_ip b) (tp_remote_ip b)
                (tp_local_port b) (tp_remote_port b) s;
         s \<leftarrow> tcp_pcb_purge pcb s;
         s \<leftarrow> TCP_RMV_ACTIVE pcb s;
         s \<leftarrow> (if tcp_input_pcb s = pcb then Some (tcp_trigger_input_pcb_close s) else tcp_free pcb s);
         Some (ERR_OK, s)
       } else (case tp_state b of
           CLOSED \<Rightarrow> do {
             s \<leftarrow> (if tp_local_port b \<noteq> 0 then TCP_RMV L_bound pcb s else Some s);
             s \<leftarrow> tcp_free pcb s;
             Some (ERR_OK, s)
           }
         | LISTEN \<Rightarrow> do {
             s \<leftarrow> tcp_listen_closed pcb s;
             s \<leftarrow> tcp_pcb_remove env L_listen pcb s;
             s \<leftarrow> tcp_free_listen pcb s;
             Some (ERR_OK, s)
           }
         | SYN_SENT \<Rightarrow> do {
             s \<leftarrow> TCP_PCB_REMOVE_ACTIVE env pcb s;
             s \<leftarrow> tcp_free pcb s;
             Some (ERR_OK, s)
           }
         | _ \<Rightarrow> tcp_close_shutdown_fin env pcb s)
     }"

definition tcp_close ::
  "'a tcp_state_scheme tcp_env \<Rightarrow> nat \<Rightarrow> 'a tcp_state_scheme \<Rightarrow> (err_t \<times> 'a tcp_state_scheme) option" where
  "tcp_close env pcb s =
     do {
       lwip_assert (pcb \<noteq> 0);
       b \<leftarrow> tcp_mem s pcb;
       let s = (if tp_state b \<noteq> LISTEN then put_tcp pcb (tcp_set_flags TF_RXCLOSED b) s else s);
       tcp_close_shutdown env pcb True s
     }"

definition tcp_shutdown ::
  "'a tcp_state_scheme tcp_env \<Rightarrow> nat \<Rightarrow> bool \<Rightarrow> bool \<Rightarrow> 'a tcp_state_scheme \<Rightarrow>
   (err_t \<times> 'a tcp_state_scheme) option" where
  "tcp_shutdown env pcb shut_rx shut_tx s =
     do {
       lwip_assert (pcb \<noteq> 0);
       b \<leftarrow> tcp_mem s pcb;
       if tp_state b = LISTEN then Some (ERR_CONN, s)
       else do {
         let s = (if shut_rx then put_tcp pcb (tcp_set_flags TF_RXCLOSED b) s else s);
         if shut_rx \<and> shut_tx then tcp_close_shutdown env pcb True s
         else do {
           s \<leftarrow> (if shut_rx \<and> tp_refused_data b \<noteq> 0 then do {
                   s \<leftarrow> tcp_free_pbuf (tp_refused_data b) s;
                   upd_tcp pcb (\<lambda>b. b\<lparr>tp_refused_data := 0\<rparr>) s
                 } else Some s);
           if shut_tx then
             (if tp_state b = SYN_RCVD \<or> tp_state b = ESTABLISHED \<or> tp_state b = CLOSE_WAIT
              then tcp_close_shutdown env pcb shut_rx s else Some (ERR_CONN, s))
           else Some (ERR_OK, s)
         }
       }
     }"

definition tcp_abandon ::
  "'a tcp_state_scheme tcp_env \<Rightarrow> nat \<Rightarrow> bool \<Rightarrow> 'a tcp_state_scheme \<Rightarrow> 'a tcp_state_scheme option" where
  "tcp_abandon env pcb reset s =
     do {
       lwip_assert (pcb \<noteq> 0);
       b \<leftarrow> tcp_mem s pcb;
       lwip_assert (tp_state b \<noteq> LISTEN);
       if tp_state b = TIME_WAIT then do {
         s \<leftarrow> tcp_pcb_remove env L_tw pcb s;
         tcp_free pcb s
       } else do {
         let seqno = tp_snd_nxt b;
         let ackno = tp_rcv_nxt b;
         let errf = tp_errf b;
         let errf_arg = tp_callback_arg b;
         let send_rst = (tp_state b \<noteq> CLOSED \<and> reset);
         let local_port = (if tp_state b = CLOSED then 0 else tp_local_port b);
         s \<leftarrow> (if tp_state b = CLOSED
               then (if tp_local_port b \<noteq> 0 then TCP_RMV L_bound pcb s else Some s)
               else TCP_PCB_REMOVE_ACTIVE env pcb s);
         b \<leftarrow> tcp_mem s pcb;
         s \<leftarrow> tcp_segs_free (tp_unacked b) s;
         s \<leftarrow> tcp_segs_free (tp_unsent b) s;
         s \<leftarrow> tcp_segs_free (tp_ooseq b) s;
         s \<leftarrow> (if send_rst
               then tcp_rst env pcb seqno ackno (tp_local_ip b) (tp_remote_ip b) local_port (tp_remote_port b) s
               else Some s);
         s \<leftarrow> tcp_free pcb s;
         TCP_EVENT_ERR env errf errf_arg ERR_ABRT s
       }
     }"

definition tcp_abort ::
  "'a tcp_state_scheme tcp_env \<Rightarrow> nat \<Rightarrow> 'a tcp_state_scheme \<Rightarrow> 'a tcp_state_scheme option" where
  "tcp_abort env pcb s = tcp_abandon env pcb True s"

section \<open>Binding and listening\<close>

text \<open>The loop over all lists of PCBs: the first PCB that satisfies the condition, or 0.\<close>

fun tcp_find_pcb ::
  "(tcp_pcb \<Rightarrow> bool) \<Rightarrow> tcp_list list \<Rightarrow> 'a tcp_state_scheme \<Rightarrow> nat option" where
  "tcp_find_pcb P [] s = Some 0"
| "tcp_find_pcb P (l # ls) s =
     do {
       cpcb \<leftarrow> find_node (tcp_mem s) tp_next (\<lambda>a b. P b) (tcp_list_head l s);
       if cpcb \<noteq> 0 then Some cpcb else tcp_find_pcb P ls s
     }"

partial_function (option) tcp_port_again ::
  "'a tcp_state_scheme \<Rightarrow> u16 \<Rightarrow> (u16 \<times> 'a tcp_state_scheme) option" where
  "tcp_port_again s n =
     do {
       let s = s\<lparr>tcp_port := tcp_port s + 1\<rparr>;
       let s = (if tcp_port s = TCP_LOCAL_PORT_RANGE_END then s\<lparr>tcp_port := TCP_LOCAL_PORT_RANGE_START\<rparr> else s);
       pcb \<leftarrow> tcp_find_pcb (\<lambda>b. tp_local_port b = tcp_port s) tcp_pcb_lists s;
       if pcb \<noteq> 0 then do {
         let n = n + 1;
         if n > TCP_LOCAL_PORT_RANGE_END - TCP_LOCAL_PORT_RANGE_START then Some (0, s)
         else tcp_port_again s n
       } else Some (tcp_port s, s)
     }"

definition tcp_new_port :: "'a tcp_state_scheme \<Rightarrow> (u16 \<times> 'a tcp_state_scheme) option" where
  "tcp_new_port s = tcp_port_again s 0"

definition tcp_bind_conflict :: "ip_addr_t \<Rightarrow> u16 \<Rightarrow> tcp_pcb \<Rightarrow> bool" where
  "tcp_bind_conflict ipaddr port c =
     (tp_local_port c = port \<and> IP_IS_V6 ipaddr = IP_IS_V6 (tp_local_ip c) \<and>
      (ip_addr_isany (tp_local_ip c) \<or> ip_addr_isany ipaddr \<or> ip_addr_cmp (tp_local_ip c) ipaddr))"

definition tcp_bind_set ::
  "'a tcp_state_scheme tcp_env \<Rightarrow> nat \<Rightarrow> ip_addr_t \<Rightarrow> u16 \<Rightarrow> 'a tcp_state_scheme \<Rightarrow>
   (err_t \<times> 'a tcp_state_scheme) option" where
  "tcp_bind_set env pcb ipaddr port s =
     do {
       b \<leftarrow> tcp_mem s pcb;
       let b = (if \<not> ip_addr_isany ipaddr \<or> ip_type ipaddr \<noteq> ip_type (tp_local_ip b)
         then b\<lparr>tp_local_ip := ip_addr_set (tp_local_ip b) ipaddr\<rparr> else b);
       s \<leftarrow> TCP_REG env L_bound pcb (put_tcp pcb (b\<lparr>tp_local_port := port\<rparr>) s);
       Some (ERR_OK, s)
     }"

definition tcp_bind ::
  "'a tcp_state_scheme tcp_env \<Rightarrow> nat \<Rightarrow> ip_addr_t option \<Rightarrow> u16 \<Rightarrow> 'a tcp_state_scheme \<Rightarrow>
   (err_t \<times> 'a tcp_state_scheme) option" where
  "tcp_bind env pcb ipaddr port s =
     do {
       let ipaddr = (case ipaddr of None \<Rightarrow> ip_addr_any | Some a \<Rightarrow> a);
       lwip_assert (pcb \<noteq> 0);
       b \<leftarrow> tcp_mem s pcb;
       lwip_assert (tp_state b = CLOSED);
       let ipaddr = (if IP_IS_V6 ipaddr \<and> ip6_addr_lacks_zone (ip_2_ip6 ipaddr) IP6_UNICAST
         then ipaddr\<lparr>u_addr := ip6_addr_select_zone (ip_2_ip6 ipaddr) (ip_2_ip6 ipaddr) s\<rparr> else ipaddr);
       if port = 0 then do {
         (port, s) \<leftarrow> tcp_new_port s;
         if port = 0 then Some (ERR_BUF, s) else tcp_bind_set env pcb ipaddr port s
       } else do {
         cpcb \<leftarrow> tcp_find_pcb (tcp_bind_conflict ipaddr port) tcp_pcb_lists s;
         if cpcb \<noteq> 0 then Some (ERR_USE, s) else tcp_bind_set env pcb ipaddr port s
       }
     }"

definition tcp_bind_netif :: "nat \<Rightarrow> netif option \<Rightarrow> 'a tcp_state_scheme \<Rightarrow> 'a tcp_state_scheme option" where
  "tcp_bind_netif pcb netif s =
     upd_tcp pcb (\<lambda>b. b\<lparr>tp_netif_idx := (case netif of Some n \<Rightarrow> netif_get_index n | None \<Rightarrow> NETIF_NO_INDEX)\<rparr>) s"

definition tcp_accept_null ::
  "'a tcp_state_scheme tcp_env \<Rightarrow> nat \<Rightarrow> 'a tcp_state_scheme \<Rightarrow> (err_t \<times> 'a tcp_state_scheme) option" where
  "tcp_accept_null env pcb s =
     do { lwip_assert (pcb \<noteq> 0); s \<leftarrow> tcp_abort env pcb s; Some (ERR_ABRT, s) }"

definition TCP_EVENT_ACCEPT ::
  "'a tcp_state_scheme tcp_env \<Rightarrow> nat \<Rightarrow> nat \<Rightarrow> nat \<Rightarrow> err_t \<Rightarrow> 'a tcp_state_scheme \<Rightarrow>
   (err_t \<times> 'a tcp_state_scheme) option" where
  "TCP_EVENT_ACCEPT env lpcb pcb arg err s =
     do {
       l \<leftarrow> tcp_mem s lpcb;
       (case tp_accept l of
          FnUser f \<Rightarrow> te_accept env f arg pcb err s
        | FnBuiltin \<Rightarrow> tcp_accept_null env pcb s
        | FnNull \<Rightarrow> Some (ERR_ARG, s))
     }"

text \<open>
  The result is the listening PCB, or 0, and \<^verbatim>\<open>*err\<close>. The fields a listening PCB does not have
  keep the values of the PCB it replaces; they are never read.
\<close>

definition tcp_listen_with_backlog_and_err ::
  "'a tcp_state_scheme tcp_env \<Rightarrow> nat \<Rightarrow> u8 \<Rightarrow> 'a tcp_state_scheme \<Rightarrow>
   (nat \<times> err_t \<times> 'a tcp_state_scheme) option" where
  "tcp_listen_with_backlog_and_err env pcb backlog s =
     do {
       lwip_assert (pcb \<noteq> 0);
       b \<leftarrow> tcp_mem s pcb;
       lwip_assert (tp_state b = CLOSED);
       if tp_state b = LISTEN then Some (pcb, ERR_ALREADY, s)
       else do {
         let (lpcb, s) = tcp_memp_malloc s;
         if lpcb = 0 then Some (0, ERR_MEM, s)
         else do {
           let s = put_tcp lpcb (b\<lparr>tp_state := LISTEN, tp_netif_idx := NETIF_NO_INDEX,
             tp_remote_ip := (tp_remote_ip b)\<lparr>ip_type := ip_type (tp_local_ip b)\<rparr>, tp_accept := FnBuiltin\<rparr>) s;
           s \<leftarrow> (if tp_local_port b \<noteq> 0 then TCP_RMV L_bound pcb s else Some s);
           s \<leftarrow> tcp_free pcb s;
           s \<leftarrow> TCP_REG env L_listen lpcb s;
           Some (lpcb, ERR_OK, s)
         }
       }
     }"

definition tcp_listen_with_backlog ::
  "'a tcp_state_scheme tcp_env \<Rightarrow> nat \<Rightarrow> u8 \<Rightarrow> 'a tcp_state_scheme \<Rightarrow> (nat \<times> 'a tcp_state_scheme) option" where
  "tcp_listen_with_backlog env pcb backlog s =
     do { (lpcb, err, s) \<leftarrow> tcp_listen_with_backlog_and_err env pcb backlog s; Some (lpcb, s) }"

section \<open>The receive window\<close>

text \<open>The result is the growth of the announced window.\<close>

definition tcp_update_rcv_ann_wnd :: "tcp_pcb \<Rightarrow> (u32 \<times> tcp_pcb) option" where
  "tcp_update_rcv_ann_wnd b =
     (let new_right_edge = tp_rcv_nxt b + ucast (tp_rcv_wnd b) in
      if TCP_SEQ_GEQ new_right_edge (tp_rcv_ann_right_edge b + ucast (min (TCP_WND div 2) (tp_mss b)))
      then Some (new_right_edge - tp_rcv_ann_right_edge b, b\<lparr>tp_rcv_ann_wnd := tp_rcv_wnd b\<rparr>)
      else if TCP_SEQ_GT (tp_rcv_nxt b) (tp_rcv_ann_right_edge b)
      then Some (0, b\<lparr>tp_rcv_ann_wnd := 0\<rparr>)
      else do {
        let new_rcv_ann_wnd = tp_rcv_ann_right_edge b - tp_rcv_nxt b;
        lwip_assert (new_rcv_ann_wnd \<le> 0xffff);
        Some (0, b\<lparr>tp_rcv_ann_wnd := ucast new_rcv_ann_wnd\<rparr>)
      })"

definition tcp_recved_wnd :: "tcp_pcb \<Rightarrow> u16 \<Rightarrow> u16" where
  "tcp_recved_wnd b len =
     (let rcv_wnd = tp_rcv_wnd b + len in
      if rcv_wnd > TCP_WND \<or> rcv_wnd < tp_rcv_wnd b then TCP_WND else rcv_wnd)"

definition tcp_recved ::
  "'a tcp_state_scheme tcp_env \<Rightarrow> nat \<Rightarrow> u16 \<Rightarrow> 'a tcp_state_scheme \<Rightarrow> 'a tcp_state_scheme option" where
  "tcp_recved env pcb len s =
     do {
       lwip_assert (pcb \<noteq> 0);
       b \<leftarrow> tcp_mem s pcb;
       lwip_assert (tp_state b \<noteq> LISTEN);
       (wnd_inflation, b) \<leftarrow> tcp_update_rcv_ann_wnd (b\<lparr>tp_rcv_wnd := tcp_recved_wnd b len\<rparr>);
       let s = put_tcp pcb b s;
       if wnd_inflation \<ge> TCP_WND_UPDATE_THRESHOLD then do {
         s \<leftarrow> upd_tcp pcb tcp_ack_now s;
         (err, s) \<leftarrow> tcp_output env pcb s;
         Some s
       } else Some s
     }"

section \<open>Connecting\<close>

definition tcp_next_iss :: "'a tcp_state_scheme \<Rightarrow> u32 \<times> 'a tcp_state_scheme" where
  "tcp_next_iss s = (let iss = tcp_iss s + tcp_ticks s in (iss, s\<lparr>tcp_iss := iss\<rparr>))"

text \<open>The variables of a new connection.\<close>

definition tcp_connect_init ::
  "'a tcp_state_scheme tcp_env \<Rightarrow> netif \<Rightarrow> u32 \<Rightarrow> tcp_fn \<Rightarrow> tcp_pcb \<Rightarrow> 'a tcp_state_scheme \<Rightarrow> tcp_pcb" where
  "tcp_connect_init env netif iss connected b s =
     b\<lparr>tp_rcv_nxt := 0, tp_snd_nxt := iss, tp_lastack := iss - 1, tp_snd_wl2 := iss - 1, tp_snd_lbb := iss - 1,
       tp_rcv_wnd := TCP_WND, tp_rcv_ann_wnd := TCP_WND, tp_rcv_ann_right_edge := 0, tp_snd_wnd := TCP_WND,
       tp_mss := tcp_eff_send_mss_netif env INITIAL_MSS (Some netif) (tp_remote_ip b) s,
       tp_cwnd := 1, tp_connected := connected\<rparr>"

definition tcp_connect ::
  "'a tcp_state_scheme tcp_env \<Rightarrow> nat \<Rightarrow> ip_addr_t \<Rightarrow> u16 \<Rightarrow> tcp_fn \<Rightarrow> 'a tcp_state_scheme \<Rightarrow>
   (err_t \<times> 'a tcp_state_scheme) option" where
  "tcp_connect env pcb ipaddr port connected s =
     do {
       lwip_assert (pcb \<noteq> 0);
       b \<leftarrow> tcp_mem s pcb;
       lwip_assert (tp_state b = CLOSED);
       let b = b\<lparr>tp_remote_ip := ip_addr_set (tp_remote_ip b) ipaddr, tp_remote_port := port\<rparr>;
       let s = put_tcp pcb b s;
       (case (if tp_netif_idx b \<noteq> NETIF_NO_INDEX then netif_get_by_index (tp_netif_idx b) s
              else ip_route (tp_local_ip b) (tp_remote_ip b) s) of
          None \<Rightarrow> Some (ERR_RTE, s)
        | Some netif \<Rightarrow>
            (case (if ip_addr_isany (tp_local_ip b) then ip_netif_get_local_ip env netif ipaddr s
                   else Some (tp_local_ip b)) of
               None \<Rightarrow> Some (ERR_RTE, s)
             | Some local_ip \<Rightarrow> do {
                 let b = b\<lparr>tp_local_ip := local_ip\<rparr>;
                 let b = (if IP_IS_V6 (tp_remote_ip b) \<and> ip6_addr_lacks_zone (ip_2_ip6 (tp_remote_ip b)) IP6_UNICAST
                   then b\<lparr>tp_remote_ip := (tp_remote_ip b)\<lparr>u_addr :=
                     ip6_addr_assign_zone (ip_2_ip6 (tp_remote_ip b)) IP6_UNICAST netif\<rparr>\<rparr> else b);
                 let s = put_tcp pcb b s;
                 let old_local_port = tp_local_port b;
                 (port, s) \<leftarrow> (if old_local_port = 0 then tcp_new_port s else Some (old_local_port, s));
                 let b = b\<lparr>tp_local_port := port\<rparr>;
                 let s = put_tcp pcb b s;
                 if port = 0 then Some (ERR_BUF, s)
                 else do {
                   let (iss, s) = tcp_next_iss s;
                   let s = put_tcp pcb (tcp_connect_init env netif iss connected b s) s;
                   (ret, s) \<leftarrow> tcp_enqueue_flags pcb TCP_SYN s;
                   if ret = ERR_OK then do {
                     s \<leftarrow> upd_tcp pcb (\<lambda>b. b\<lparr>tp_state := SYN_SENT\<rparr>) s;
                     s \<leftarrow> (if old_local_port \<noteq> 0 then TCP_RMV L_bound pcb s else Some s);
                     s \<leftarrow> TCP_REG_ACTIVE env pcb s;
                     (err, s) \<leftarrow> tcp_output env pcb s;
                     Some (ret, s)
                   } else Some (ret, s)
                 }
               }))
     }"

section \<open>Received data\<close>

definition tcp_recv_null ::
  "'a tcp_state_scheme tcp_env \<Rightarrow> nat \<Rightarrow> nat \<Rightarrow> err_t \<Rightarrow> 'a tcp_state_scheme \<Rightarrow>
   (err_t \<times> 'a tcp_state_scheme) option" where
  "tcp_recv_null env pcb p err s =
     do {
       lwip_assert (pcb \<noteq> 0);
       if p \<noteq> 0 then do {
         pb \<leftarrow> pbufs (ip_heap s) p;
         s \<leftarrow> tcp_recved env pcb (pb_tot_len pb) s;
         s \<leftarrow> tcp_free_pbuf p s;
         Some (ERR_OK, s)
       } else if err = ERR_OK then tcp_close env pcb s
       else Some (ERR_OK, s)
     }"

definition TCP_EVENT_RECV ::
  "'a tcp_state_scheme tcp_env \<Rightarrow> nat \<Rightarrow> nat \<Rightarrow> err_t \<Rightarrow> 'a tcp_state_scheme \<Rightarrow>
   (err_t \<times> 'a tcp_state_scheme) option" where
  "TCP_EVENT_RECV env pcb p err s =
     do {
       b \<leftarrow> tcp_mem s pcb;
       (case tp_recv b of
          FnUser f \<Rightarrow> te_recv env f (tp_callback_arg b) pcb p err s
        | _ \<Rightarrow> tcp_recv_null env pcb p err s)
     }"

definition TCP_EVENT_CLOSED ::
  "'a tcp_state_scheme tcp_env \<Rightarrow> nat \<Rightarrow> 'a tcp_state_scheme \<Rightarrow> (err_t \<times> 'a tcp_state_scheme) option" where
  "TCP_EVENT_CLOSED env pcb s =
     do {
       b \<leftarrow> tcp_mem s pcb;
       (case tp_recv b of
          FnUser f \<Rightarrow> te_recv env f (tp_callback_arg b) pcb 0 ERR_OK s
        | FnBuiltin \<Rightarrow> tcp_recv_null env pcb 0 ERR_OK s
        | FnNull \<Rightarrow> Some (ERR_OK, s))
     }"

definition PBUF_FLAG_PUSH :: u8 where "PBUF_FLAG_PUSH = 0x01"
definition PBUF_FLAG_TCP_FIN :: u8 where "PBUF_FLAG_TCP_FIN = 0x20"

text \<open>The window grows by the sequence number of the FIN, which the application will not report.\<close>

definition tcp_fin_rcv_wnd :: "tcp_pcb \<Rightarrow> tcp_pcb" where
  "tcp_fin_rcv_wnd b = (if tp_rcv_wnd b \<noteq> TCP_WND then b\<lparr>tp_rcv_wnd := tp_rcv_wnd b + 1\<rparr> else b)"

definition tcp_process_refused_data ::
  "'a tcp_state_scheme tcp_env \<Rightarrow> nat \<Rightarrow> 'a tcp_state_scheme \<Rightarrow> (err_t \<times> 'a tcp_state_scheme) option" where
  "tcp_process_refused_data env pcb s =
     do {
       lwip_assert (pcb \<noteq> 0);
       b \<leftarrow> tcp_mem s pcb;
       let refused_data = tp_refused_data b;
       rb \<leftarrow> pbufs (ip_heap s) refused_data;
       let refused_flags = pb_flags rb;
       (err, s) \<leftarrow> TCP_EVENT_RECV env pcb refused_data ERR_OK (put_tcp pcb (b\<lparr>tp_refused_data := 0\<rparr>) s);
       if err = ERR_OK then
         (if refused_flags AND PBUF_FLAG_TCP_FIN \<noteq> 0 then do {
            s \<leftarrow> upd_tcp pcb tcp_fin_rcv_wnd s;
            (err, s) \<leftarrow> TCP_EVENT_CLOSED env pcb s;
            Some (if err = ERR_ABRT then ERR_ABRT else ERR_OK, s)
          } else Some (ERR_OK, s))
       else if err = ERR_ABRT then Some (ERR_ABRT, s)
       else do {
         s \<leftarrow> upd_tcp pcb (\<lambda>b. b\<lparr>tp_refused_data := refused_data\<rparr>) s;
         Some (ERR_INPROGRESS, s)
       }
     }"

section \<open>Allocation\<close>

text \<open>
  The loops that choose a PCB to give up: the longest inactive one among those with the lowest
  priority, the longest inactive one in a state, the longest inactive one of the list.
\<close>

partial_function (option) kill_prio_loop ::
  "'a tcp_state_scheme \<Rightarrow> nat \<Rightarrow> u8 \<Rightarrow> u32 \<Rightarrow> nat \<Rightarrow> nat option" where
  "kill_prio_loop s pcb mprio inactivity inactive =
     (if pcb = 0 then Some inactive
      else do {
        b \<leftarrow> tcp_mem s pcb;
        if tp_prio b < mprio \<or> (tp_prio b = mprio \<and> tcp_ticks s - tp_tmr b \<ge> inactivity)
        then kill_prio_loop s (tp_next b) (tp_prio b) (tcp_ticks s - tp_tmr b) pcb
        else kill_prio_loop s (tp_next b) mprio inactivity inactive
      })"

partial_function (option) kill_oldest_loop ::
  "'a tcp_state_scheme \<Rightarrow> (tcp_pstate \<Rightarrow> bool) \<Rightarrow> nat \<Rightarrow> u32 \<Rightarrow> nat \<Rightarrow> nat option" where
  "kill_oldest_loop s P pcb inactivity inactive =
     (if pcb = 0 then Some inactive
      else do {
        b \<leftarrow> tcp_mem s pcb;
        if P (tp_state b) \<and> tcp_ticks s - tp_tmr b \<ge> inactivity
        then kill_oldest_loop s P (tp_next b) (tcp_ticks s - tp_tmr b) pcb
        else kill_oldest_loop s P (tp_next b) inactivity inactive
      })"

definition tcp_kill_prio ::
  "'a tcp_state_scheme tcp_env \<Rightarrow> u8 \<Rightarrow> 'a tcp_state_scheme \<Rightarrow> 'a tcp_state_scheme option" where
  "tcp_kill_prio env prio s =
     (let mprio = min TCP_PRIO_MAX prio in
      if mprio = 0 then Some s
      else do {
        inactive \<leftarrow> kill_prio_loop s (tcp_active_pcbs s) (mprio - 1) 0 0;
        if inactive \<noteq> 0 then tcp_abort env inactive s else Some s
      })"

definition tcp_kill_state ::
  "'a tcp_state_scheme tcp_env \<Rightarrow> tcp_pstate \<Rightarrow> 'a tcp_state_scheme \<Rightarrow> 'a tcp_state_scheme option" where
  "tcp_kill_state env state s =
     do {
       lwip_assert (state = CLOSING \<or> state = LAST_ACK);
       inactive \<leftarrow> kill_oldest_loop s (\<lambda>st. st = state) (tcp_active_pcbs s) 0 0;
       if inactive \<noteq> 0 then tcp_abandon env inactive False s else Some s
     }"

definition tcp_kill_timewait ::
  "'a tcp_state_scheme tcp_env \<Rightarrow> 'a tcp_state_scheme \<Rightarrow> 'a tcp_state_scheme option" where
  "tcp_kill_timewait env s =
     do {
       inactive \<leftarrow> kill_oldest_loop s (\<lambda>st. True) (tcp_tw_pcbs s) 0 0;
       if inactive \<noteq> 0 then tcp_abort env inactive s else Some s
     }"

partial_function (option) handle_closepend_loop ::
  "'a tcp_state_scheme tcp_env \<Rightarrow> nat \<Rightarrow> 'a tcp_state_scheme \<Rightarrow> 'a tcp_state_scheme option" where
  "handle_closepend_loop env pcb s =
     (if pcb = 0 then Some s
      else do {
        b \<leftarrow> tcp_mem s pcb;
        s \<leftarrow> (if tcp_is_flag_set b TF_CLOSEPEND then do {
                (err, s) \<leftarrow> tcp_close_shutdown_fin env pcb (put_tcp pcb (tcp_clear_flags TF_CLOSEPEND b) s);
                Some s
              } else Some s);
        handle_closepend_loop env (tp_next b) s
      })"

definition tcp_handle_closepend ::
  "'a tcp_state_scheme tcp_env \<Rightarrow> 'a tcp_state_scheme \<Rightarrow> 'a tcp_state_scheme option" where
  "tcp_handle_closepend env s = handle_closepend_loop env (tcp_active_pcbs s) s"

text \<open>The PCB after \<^verbatim>\<open>memset\<close>\<close>

definition tcp_pcb_zero :: tcp_pcb where
  "tcp_pcb_zero = \<lparr>tp_local_ip = ip_addr_any, tp_remote_ip = ip_addr_any, tp_netif_idx = 0, tp_so_options = 0,
     tp_tos = 0, tp_ttl = 0, tp_next = 0, tp_callback_arg = 0, tp_state = CLOSED, tp_prio = 0,
     tp_local_port = 0, tp_accept = FnNull, tp_remote_port = 0, tp_flags = 0, tp_polltmr = 0,
     tp_pollinterval = 0, tp_last_timer = 0, tp_tmr = 0, tp_rcv_nxt = 0, tp_rcv_wnd = 0,
     tp_rcv_ann_wnd = 0, tp_rcv_ann_right_edge = 0, tp_rtime = 0, tp_mss = 0, tp_rttest = 0,
     tp_rtseq = 0, tp_sa = 0, tp_sv = 0, tp_rto = 0, tp_nrtx = 0, tp_dupacks = 0, tp_lastack = 0,
     tp_cwnd = 0, tp_ssthresh = 0, tp_rto_end = 0, tp_snd_nxt = 0, tp_snd_wl1 = 0, tp_snd_wl2 = 0,
     tp_snd_lbb = 0, tp_snd_wnd = 0, tp_snd_wnd_max = 0, tp_snd_buf = 0, tp_snd_queuelen = 0,
     tp_unsent_oversize = 0, tp_bytes_acked = 0, tp_unsent = [], tp_unacked = [], tp_ooseq = [],
     tp_refused_data = 0, tp_listener = 0, tp_sent = FnNull, tp_recv = FnNull, tp_connected = FnNull,
     tp_poll = FnNull, tp_errf = FnNull, tp_keep_idle = 0, tp_persist_cnt = 0, tp_persist_backoff = 0,
     tp_persist_probe = 0, tp_keep_cnt_sent = 0\<rparr>"

definition tcp_pcb_init :: "u8 \<Rightarrow> 'a tcp_state_scheme \<Rightarrow> tcp_pcb" where
  "tcp_pcb_init prio s =
     tcp_pcb_zero\<lparr>tp_prio := prio, tp_snd_buf := TCP_SND_BUF, tp_rcv_wnd := TCP_WND, tp_rcv_ann_wnd := TCP_WND,
       tp_ttl := TCP_TTL, tp_mss := INITIAL_MSS, tp_rto := 3000 div 500, tp_sv := 3000 div 500,
       tp_rtime := - 1, tp_cwnd := 1, tp_tmr := tcp_ticks s, tp_last_timer := tcp_timer_ctr s,
       tp_ssthresh := TCP_SND_BUF, tp_recv := FnBuiltin, tp_keep_idle := TCP_KEEPIDLE_DEFAULT\<rparr>"

text \<open>One more try, after something has been given up.\<close>

definition tcp_alloc_retry ::
  "('a tcp_state_scheme \<Rightarrow> 'a tcp_state_scheme option) \<Rightarrow> nat \<times> 'a tcp_state_scheme \<Rightarrow>
   (nat \<times> 'a tcp_state_scheme) option" where
  "tcp_alloc_retry kill r =
     (case r of (pcb, s) \<Rightarrow>
        if pcb \<noteq> 0 then Some (pcb, s) else do { s \<leftarrow> kill s; Some (tcp_memp_malloc s) })"

definition tcp_alloc ::
  "'a tcp_state_scheme tcp_env \<Rightarrow> u8 \<Rightarrow> 'a tcp_state_scheme \<Rightarrow> (nat \<times> 'a tcp_state_scheme) option" where
  "tcp_alloc env prio s =
     do {
       r \<leftarrow> tcp_alloc_retry (\<lambda>s. do { s \<leftarrow> tcp_handle_closepend env s; tcp_kill_timewait env s }) (tcp_memp_malloc s);
       r \<leftarrow> tcp_alloc_retry (tcp_kill_state env LAST_ACK) r;
       r \<leftarrow> tcp_alloc_retry (tcp_kill_state env CLOSING) r;
       (pcb, s) \<leftarrow> tcp_alloc_retry (tcp_kill_prio env prio) r;
       Some (pcb, if pcb \<noteq> 0 then put_tcp pcb (tcp_pcb_init prio s) s else s)
     }"

definition tcp_new ::
  "'a tcp_state_scheme tcp_env \<Rightarrow> 'a tcp_state_scheme \<Rightarrow> (nat \<times> 'a tcp_state_scheme) option" where
  "tcp_new env s = tcp_alloc env TCP_PRIO_NORMAL s"

definition tcp_new_ip_type ::
  "'a tcp_state_scheme tcp_env \<Rightarrow> ip_addr_type \<Rightarrow> 'a tcp_state_scheme \<Rightarrow>
   (nat \<times> 'a tcp_state_scheme) option" where
  "tcp_new_ip_type env type s =
     do {
       (pcb, s) \<leftarrow> tcp_alloc env TCP_PRIO_NORMAL s;
       if pcb \<noteq> 0 then do {
         s \<leftarrow> upd_tcp pcb (\<lambda>b. b\<lparr>tp_local_ip := (tp_local_ip b)\<lparr>ip_type := type\<rparr>,
                                 tp_remote_ip := (tp_remote_ip b)\<lparr>ip_type := type\<rparr>\<rparr>) s;
         Some (pcb, s)
       } else Some (pcb, s)
     }"

section \<open>What the application sets\<close>

definition tcp_setprio :: "nat \<Rightarrow> u8 \<Rightarrow> 'a tcp_state_scheme \<Rightarrow> 'a tcp_state_scheme option" where
  "tcp_setprio pcb prio s = do { lwip_assert (pcb \<noteq> 0); upd_tcp pcb (\<lambda>b. b\<lparr>tp_prio := prio\<rparr>) s }"

definition tcp_arg :: "nat \<Rightarrow> nat \<Rightarrow> 'a tcp_state_scheme \<Rightarrow> 'a tcp_state_scheme option" where
  "tcp_arg pcb arg s = (if pcb \<noteq> 0 then upd_tcp pcb (\<lambda>b. b\<lparr>tp_callback_arg := arg\<rparr>) s else Some s)"

definition tcp_set_fn ::
  "nat \<Rightarrow> (tcp_pcb \<Rightarrow> tcp_pcb) \<Rightarrow> 'a tcp_state_scheme \<Rightarrow> 'a tcp_state_scheme option" where
  "tcp_set_fn pcb f s =
     (if pcb \<noteq> 0 then do {
        b \<leftarrow> tcp_mem s pcb;
        lwip_assert (tp_state b \<noteq> LISTEN);
        Some (put_tcp pcb (f b) s)
      } else Some s)"

definition tcp_recv :: "nat \<Rightarrow> tcp_fn \<Rightarrow> 'a tcp_state_scheme \<Rightarrow> 'a tcp_state_scheme option" where
  "tcp_recv pcb recv s = tcp_set_fn pcb (\<lambda>b. b\<lparr>tp_recv := recv\<rparr>) s"

definition tcp_sent :: "nat \<Rightarrow> tcp_fn \<Rightarrow> 'a tcp_state_scheme \<Rightarrow> 'a tcp_state_scheme option" where
  "tcp_sent pcb sent s = tcp_set_fn pcb (\<lambda>b. b\<lparr>tp_sent := sent\<rparr>) s"

definition tcp_err :: "nat \<Rightarrow> tcp_fn \<Rightarrow> 'a tcp_state_scheme \<Rightarrow> 'a tcp_state_scheme option" where
  "tcp_err pcb err s = tcp_set_fn pcb (\<lambda>b. b\<lparr>tp_errf := err\<rparr>) s"

definition tcp_accept :: "nat \<Rightarrow> tcp_fn \<Rightarrow> 'a tcp_state_scheme \<Rightarrow> 'a tcp_state_scheme option" where
  "tcp_accept pcb accept s =
     (if pcb \<noteq> 0 then upd_tcp pcb (\<lambda>b. if tp_state b = LISTEN then b\<lparr>tp_accept := accept\<rparr> else b) s else Some s)"

definition tcp_poll :: "nat \<Rightarrow> tcp_fn \<Rightarrow> u8 \<Rightarrow> 'a tcp_state_scheme \<Rightarrow> 'a tcp_state_scheme option" where
  "tcp_poll pcb poll interval s =
     do {
       lwip_assert (pcb \<noteq> 0);
       b \<leftarrow> tcp_mem s pcb;
       lwip_assert (tp_state b \<noteq> LISTEN);
       Some (put_tcp pcb (b\<lparr>tp_poll := poll, tp_pollinterval := interval\<rparr>) s)
     }"

definition tcp_tcp_get_tcp_addrinfo ::
  "nat \<Rightarrow> bool \<Rightarrow> 'a tcp_state_scheme \<Rightarrow> (err_t \<times> (ip_addr_t \<times> u16) option) option" where
  "tcp_tcp_get_tcp_addrinfo pcb local s =
     (if pcb \<noteq> 0 then do {
        b \<leftarrow> tcp_mem s pcb;
        Some (ERR_OK, Some (if local then (tp_local_ip b, tp_local_port b) else (tp_remote_ip b, tp_remote_port b)))
      } else Some (ERR_VAL, None))"

definition tcp_debug_state_str :: "tcp_pstate \<Rightarrow> string" where
  "tcp_debug_state_str st =
     [''CLOSED'', ''LISTEN'', ''SYN_SENT'', ''SYN_RCVD'', ''ESTABLISHED'', ''FIN_WAIT_1'', ''FIN_WAIT_2'',
      ''CLOSE_WAIT'', ''CLOSING'', ''LAST_ACK'', ''TIME_WAIT''] ! tcp_state_num st"

section \<open>Changed addresses\<close>

partial_function (option) ip_addr_changed_pcblist ::
  "'a tcp_state_scheme tcp_env \<Rightarrow> ip_addr_t \<Rightarrow> nat \<Rightarrow> 'a tcp_state_scheme \<Rightarrow> 'a tcp_state_scheme option" where
  "ip_addr_changed_pcblist env old_addr pcb s =
     (if pcb = 0 then Some s
      else do {
        b \<leftarrow> tcp_mem s pcb;
        s \<leftarrow> (if ip_addr_cmp (tp_local_ip b) old_addr then tcp_abort env pcb s else Some s);
        ip_addr_changed_pcblist env old_addr (tp_next b) s
      })"

partial_function (option) tcp_readdress ::
  "ip_addr_t \<Rightarrow> ip_addr_t \<Rightarrow> nat \<Rightarrow> 'a tcp_state_scheme \<Rightarrow> 'a tcp_state_scheme option" where
  "tcp_readdress old_addr new_addr lpcb s =
     (if lpcb = 0 then Some s
      else do {
        b \<leftarrow> tcp_mem s lpcb;
        let s = (if ip_addr_cmp (tp_local_ip b) old_addr then put_tcp lpcb (b\<lparr>tp_local_ip := new_addr\<rparr>) s else s);
        tcp_readdress old_addr new_addr (tp_next b) s
      })"

text \<open>A NULL address counts as any.\<close>

definition tcp_netif_ip_addr_changed ::
  "'a tcp_state_scheme tcp_env \<Rightarrow> ip_addr_t option \<Rightarrow> ip_addr_t option \<Rightarrow> 'a tcp_state_scheme \<Rightarrow>
   'a tcp_state_scheme option" where
  "tcp_netif_ip_addr_changed env old_addr new_addr s =
     (case old_addr of
        Some old_a \<Rightarrow>
          if \<not> ip_addr_isany old_a then do {
            s \<leftarrow> ip_addr_changed_pcblist env old_a (tcp_active_pcbs s) s;
            s \<leftarrow> ip_addr_changed_pcblist env old_a (tcp_bound_pcbs s) s;
            (case new_addr of
               Some new_a \<Rightarrow>
                 if \<not> ip_addr_isany new_a then tcp_readdress old_a new_a (tcp_listen_pcbs s) s else Some s
             | None \<Rightarrow> Some s)
          } else Some s
      | None \<Rightarrow> Some s)"

partial_function (option) txnow_loop ::
  "'a tcp_state_scheme tcp_env \<Rightarrow> nat \<Rightarrow> 'a tcp_state_scheme \<Rightarrow> 'a tcp_state_scheme option" where
  "txnow_loop env pcb s =
     (if pcb = 0 then Some s
      else do {
        b \<leftarrow> tcp_mem s pcb;
        s \<leftarrow> (if tcp_is_flag_set b TF_NAGLEMEMERR then do { (err, s) \<leftarrow> tcp_output env pcb s; Some s } else Some s);
        b \<leftarrow> tcp_mem s pcb;
        txnow_loop env (tp_next b) s
      })"

definition tcp_txnow ::
  "'a tcp_state_scheme tcp_env \<Rightarrow> 'a tcp_state_scheme \<Rightarrow> 'a tcp_state_scheme option" where
  "tcp_txnow env s = txnow_loop env (tcp_active_pcbs s) s"

end
