(* ===== verification/Lwip_Tcp_Tmr.thy ===== *)
theory Lwip_Tcp_Tmr
  imports Lwip_Tcp_Pcb
begin

text \<open>
  The timers of TCP (\<^verbatim>\<open>tcp_tmr\<close>, \<^verbatim>\<open>tcp_fasttmr\<close> and \<^verbatim>\<open>tcp_slowtmr\<close> of
  \<^verbatim>\<open>core/c/core/tcp.c\<close>): delayed acknowledgements and pending FINs every 250 milliseconds;
  retransmission, zero window probes, keepalive, the timeouts of the states and polling the
  application every 500.
\<close>

section \<open>Retransmission\<close>

definition tcp_backoff :: "nat list" where
  "tcp_backoff = [1, 2, 3, 4, 5, 6, 7, 7, 7, 7, 7, 7, 7]"

definition tcp_persist_backoff :: "u8 list" where
  "tcp_persist_backoff = [3, 6, 12, 24, 48, 96, 120]"

text \<open>
  The persist timer, with no data in flight; the result says whether the PCB has to go. An index
  outside the table is an access outside an array.
\<close>

definition slow_persist ::
  "'a tcp_state_scheme tcp_env \<Rightarrow> nat \<Rightarrow> 'a tcp_state_scheme \<Rightarrow> (bool \<times> 'a tcp_state_scheme) option" where
  "slow_persist env pcb s =
     do {
       b \<leftarrow> tcp_mem s pcb;
       lwip_assert (tp_unacked b = []);
       lwip_assert (tp_unsent b \<noteq> []);
       if tp_persist_probe b \<ge> TCP_MAXRTX then Some (True, s)
       else do {
         let i = unat (tp_persist_backoff b - 1);
         lwip_assert (i < length tcp_persist_backoff);
         let backoff_cnt = tcp_persist_backoff ! i;
         let b = (if tp_persist_cnt b < backoff_cnt then b\<lparr>tp_persist_cnt := tp_persist_cnt b + 1\<rparr> else b);
         let s = put_tcp pcb b s;
         if tp_persist_cnt b \<ge> backoff_cnt then do {
           (next_slot, s) \<leftarrow> (if tp_snd_wnd b = 0 then do {
               (err, s) \<leftarrow> tcp_zero_window_probe env pcb s;
               Some (err = ERR_OK, s)
             } else do {
               (err, s) \<leftarrow> tcp_split_unsent_seg pcb (tp_snd_wnd b) s;
               if err = ERR_OK then do {
                 (err, s) \<leftarrow> tcp_output env pcb s;
                 Some (err \<noteq> ERR_OK, s)
               } else Some (True, s)
             });
           s \<leftarrow> (if next_slot then upd_tcp pcb (\<lambda>b.
                   let b = b\<lparr>tp_persist_cnt := 0\<rparr>
                   in if unat (tp_persist_backoff b) < length tcp_persist_backoff
                      then b\<lparr>tp_persist_backoff := tp_persist_backoff b + 1\<rparr> else b) s
                 else Some s);
           Some (False, s)
         } else Some (False, s)
       }
     }"

text \<open>The back-off of the retransmission timer and of the congestion window.\<close>

definition slow_rto_backoff :: "tcp_pcb \<Rightarrow> tcp_pcb" where
  "slow_rto_backoff b =
     (let b = (if tp_state b \<noteq> SYN_SENT then
            (let backoff_idx = min (unat (tp_nrtx b)) (length tcp_backoff - 1);
                 calc_rto = (sint (tp_sa b) div 8 + sint (tp_sv b)) * 2 ^ (tcp_backoff ! backoff_idx)
             in b\<lparr>tp_rto := word_of_int (min calc_rto 0x7FFF)\<rparr>)
          else b);
          b = b\<lparr>tp_rtime := 0\<rparr>;
          eff_wnd = min (tp_cwnd b) (tp_snd_wnd b);
          b = b\<lparr>tp_ssthresh := drop_bit 1 eff_wnd\<rparr>;
          b = (if tp_ssthresh b < push_bit 1 (tp_mss b) then b\<lparr>tp_ssthresh := push_bit 1 (tp_mss b)\<rparr> else b)
      in b\<lparr>tp_cwnd := tp_mss b, tp_bytes_acked := 0\<rparr>)"

definition slow_rto ::
  "'a tcp_state_scheme tcp_env \<Rightarrow> nat \<Rightarrow> 'a tcp_state_scheme \<Rightarrow> 'a tcp_state_scheme option" where
  "slow_rto env pcb s =
     do {
       b \<leftarrow> tcp_mem s pcb;
       let b = (if sint (tp_rtime b) \<ge> 0 \<and> sint (tp_rtime b) < 0x7FFF
                then b\<lparr>tp_rtime := tp_rtime b + 1\<rparr> else b);
       let s = put_tcp pcb b s;
       if sint (tp_rtime b) \<ge> sint (tp_rto b) then do {
         (err, s) \<leftarrow> tcp_rexmit_rto_prepare pcb s;
         b \<leftarrow> tcp_mem s pcb;
         if err = ERR_OK \<or> (tp_unacked b = [] \<and> tp_unsent b \<noteq> []) then
           tcp_rexmit_rto_commit env pcb (put_tcp pcb (slow_rto_backoff b) s)
         else Some s
       } else Some s
     }"

definition slow_retransmit ::
  "'a tcp_state_scheme tcp_env \<Rightarrow> nat \<Rightarrow> 'a tcp_state_scheme \<Rightarrow> (bool \<times> 'a tcp_state_scheme) option" where
  "slow_retransmit env pcb s =
     do {
       b \<leftarrow> tcp_mem s pcb;
       if tp_state b = SYN_SENT \<and> tp_nrtx b \<ge> TCP_SYNMAXRTX then Some (True, s)
       else if tp_nrtx b \<ge> TCP_MAXRTX then Some (True, s)
       else if tp_persist_backoff b > 0 then slow_persist env pcb s
       else do { s \<leftarrow> slow_rto env pcb s; Some (False, s) }
     }"

section \<open>Timeouts of a PCB\<close>

text \<open>Keepalive: the result says whether the connection is given up.\<close>

definition slow_keepalive ::
  "'a tcp_state_scheme tcp_env \<Rightarrow> nat \<Rightarrow> 'a tcp_state_scheme \<Rightarrow> (bool \<times> 'a tcp_state_scheme) option" where
  "slow_keepalive env pcb s =
     do {
       b \<leftarrow> tcp_mem s pcb;
       let age = unat (tcp_ticks s - tp_tmr b);
       if tp_so_options b AND SOF_KEEPALIVE \<noteq> 0 \<and> (tp_state b = ESTABLISHED \<or> tp_state b = CLOSE_WAIT) then
         (if age > (unat (tp_keep_idle b) + unat TCP_MAXIDLE) div unat TCP_SLOW_INTERVAL then Some (True, s)
          else if age > (unat (tp_keep_idle b) + unat (tp_keep_cnt_sent b) * unat TCP_KEEPINTVL_DEFAULT)
                        div unat TCP_SLOW_INTERVAL
          then do {
            (err, s) \<leftarrow> tcp_keepalive env pcb s;
            s \<leftarrow> (if err = ERR_OK then upd_tcp pcb (\<lambda>b. b\<lparr>tp_keep_cnt_sent := tp_keep_cnt_sent b + 1\<rparr>) s
                  else Some s);
            Some (False, s)
          } else Some (False, s))
       else Some (False, s)
     }"

text \<open>A PCB has stayed too long in its state.\<close>

definition slow_expired :: "u32 \<Rightarrow> tcp_pcb \<Rightarrow> bool" where
  "slow_expired ticks b =
     ((tp_state b = SYN_RCVD \<and> ticks - tp_tmr b > TCP_SYN_RCVD_TIMEOUT div TCP_SLOW_INTERVAL) \<or>
      (tp_state b = LAST_ACK \<and> ticks - tp_tmr b > 2 * TCP_MSL div TCP_SLOW_INTERVAL))"

definition slow_fin_wait_2 :: "u32 \<Rightarrow> tcp_pcb \<Rightarrow> bool" where
  "slow_fin_wait_2 ticks b =
     (tp_state b = FIN_WAIT_2 \<and> tcp_is_flag_set b TF_RXCLOSED \<and>
      ticks - tp_tmr b > TCP_FIN_WAIT_TIMEOUT div TCP_SLOW_INTERVAL)"

definition slow_ooseq_old :: "u32 \<Rightarrow> tcp_pcb \<Rightarrow> bool" where
  "slow_ooseq_old ticks b =
     (tp_ooseq b \<noteq> [] \<and> ticks - tp_tmr b \<ge> scast (tp_rto b) * TCP_OOSEQ_TIMEOUT)"

text \<open>All that is done for one active PCB before it is removed or polled: \<^verbatim>\<open>pcb_remove\<close>, \<^verbatim>\<open>pcb_reset\<close>.\<close>

definition slow_check ::
  "'a tcp_state_scheme tcp_env \<Rightarrow> nat \<Rightarrow> 'a tcp_state_scheme \<Rightarrow> (bool \<times> bool \<times> 'a tcp_state_scheme) option" where
  "slow_check env pcb s =
     do {
       (remove1, s) \<leftarrow> slow_retransmit env pcb s;
       b \<leftarrow> tcp_mem s pcb;
       let remove2 = slow_fin_wait_2 (tcp_ticks s) b;
       (reset, s) \<leftarrow> slow_keepalive env pcb s;
       b \<leftarrow> tcp_mem s pcb;
       s \<leftarrow> (if slow_ooseq_old (tcp_ticks s) b then tcp_free_ooseq pcb s else Some s);
       b \<leftarrow> tcp_mem s pcb;
       Some (remove1 \<or> remove2 \<or> reset \<or> slow_expired (tcp_ticks s) b, reset, s)
     }"

section \<open>The slow timer\<close>

text \<open>Unlinking the PCB behind \<^verbatim>\<open>prev\<close>, or the first one, from a list.\<close>

definition slow_unlink ::
  "tcp_list \<Rightarrow> nat \<Rightarrow> nat \<Rightarrow> 'a tcp_state_scheme \<Rightarrow> 'a tcp_state_scheme option" where
  "slow_unlink l prev pcb s =
     do {
       b \<leftarrow> tcp_mem s pcb;
       if prev \<noteq> 0 then do {
         lwip_assert (pcb \<noteq> tcp_list_head l s);
         upd_tcp prev (\<lambda>p. p\<lparr>tp_next := tp_next b\<rparr>) s
       } else do {
         lwip_assert (tcp_list_head l s = pcb);
         Some (set_tcp_list l (tp_next b) s)
       }
     }"

text \<open>Removal of an active PCB; the result is the next PCB.\<close>

definition slow_remove ::
  "'a tcp_state_scheme tcp_env \<Rightarrow> nat \<Rightarrow> nat \<Rightarrow> bool \<Rightarrow> 'a tcp_state_scheme \<Rightarrow>
   (nat \<times> 'a tcp_state_scheme) option" where
  "slow_remove env prev pcb reset s =
     do {
       b \<leftarrow> tcp_mem s pcb;
       let err_fn = tp_errf b;
       s \<leftarrow> tcp_pcb_purge pcb s;
       s \<leftarrow> slow_unlink L_active prev pcb s;
       b \<leftarrow> tcp_mem s pcb;
       s \<leftarrow> (if reset then tcp_rst env pcb (tp_snd_nxt b) (tp_rcv_nxt b) (tp_local_ip b) (tp_remote_ip b)
                             (tp_local_port b) (tp_remote_port b) s
             else Some s);
       b \<leftarrow> tcp_mem s pcb;
       let err_arg = tp_callback_arg b;
       s \<leftarrow> tcp_free pcb s;
       s \<leftarrow> TCP_EVENT_ERR env err_fn err_arg ERR_ABRT (s\<lparr>tcp_active_pcbs_changed := False\<rparr>);
       Some (tp_next b, s)
     }"

text \<open>
  Polling the application; the result says whether the loop over the PCBs starts again, since the
  application has changed the list.
\<close>

definition slow_poll ::
  "'a tcp_state_scheme tcp_env \<Rightarrow> nat \<Rightarrow> 'a tcp_state_scheme \<Rightarrow> (bool \<times> 'a tcp_state_scheme) option" where
  "slow_poll env pcb s =
     do {
       b \<leftarrow> tcp_mem s pcb;
       let b = b\<lparr>tp_polltmr := tp_polltmr b + 1\<rparr>;
       let s = put_tcp pcb b s;
       if tp_polltmr b \<ge> tp_pollinterval b then do {
         (err, s) \<leftarrow> TCP_EVENT_POLL env pcb
            ((put_tcp pcb (b\<lparr>tp_polltmr := 0\<rparr>) s)\<lparr>tcp_active_pcbs_changed := False\<rparr>);
         if tcp_active_pcbs_changed s then Some (True, s)
         else do {
           s \<leftarrow> (if err = ERR_OK then do { (e, s) \<leftarrow> tcp_output env pcb s; Some s } else Some s);
           Some (False, s)
         }
       } else Some (False, s)
     }"

partial_function (option) slow_active_loop ::
  "'a tcp_state_scheme tcp_env \<Rightarrow> nat \<Rightarrow> nat \<Rightarrow> 'a tcp_state_scheme \<Rightarrow> 'a tcp_state_scheme option" where
  "slow_active_loop env prev pcb s =
     (if pcb = 0 then Some s
      else do {
        b \<leftarrow> tcp_mem s pcb;
        lwip_assert (tcp_active_state (tp_state b));
        if tp_last_timer b = tcp_timer_ctr s then slow_active_loop env pcb (tp_next b) s
        else do {
          (remove, reset, s) \<leftarrow> slow_check env pcb (put_tcp pcb (b\<lparr>tp_last_timer := tcp_timer_ctr s\<rparr>) s);
          if remove then do {
            (pcb, s) \<leftarrow> slow_remove env prev pcb reset s;
            if tcp_active_pcbs_changed s then slow_active_loop env 0 (tcp_active_pcbs s) s
            else slow_active_loop env prev pcb s
          } else do {
            b \<leftarrow> tcp_mem s pcb;
            (again, s) \<leftarrow> slow_poll env pcb s;
            if again then slow_active_loop env 0 (tcp_active_pcbs s) s
            else slow_active_loop env pcb (tp_next b) s
          }
        }
      })"

partial_function (option) slow_tw_loop :: "nat \<Rightarrow> nat \<Rightarrow> 'a tcp_state_scheme \<Rightarrow> 'a tcp_state_scheme option" where
  "slow_tw_loop prev pcb s =
     (if pcb = 0 then Some s
      else do {
        b \<leftarrow> tcp_mem s pcb;
        lwip_assert (tp_state b = TIME_WAIT);
        if tcp_ticks s - tp_tmr b > 2 * TCP_MSL div TCP_SLOW_INTERVAL then do {
          s \<leftarrow> tcp_pcb_purge pcb s;
          s \<leftarrow> slow_unlink L_tw prev pcb s;
          s \<leftarrow> tcp_free pcb s;
          slow_tw_loop prev (tp_next b) s
        } else slow_tw_loop pcb (tp_next b) s
      })"

definition tcp_slowtmr ::
  "'a tcp_state_scheme tcp_env \<Rightarrow> 'a tcp_state_scheme \<Rightarrow> 'a tcp_state_scheme option" where
  "tcp_slowtmr env s =
     do {
       let s = s\<lparr>tcp_ticks := tcp_ticks s + 1, tcp_timer_ctr := tcp_timer_ctr s + 1\<rparr>;
       s \<leftarrow> slow_active_loop env 0 (tcp_active_pcbs s) s;
       slow_tw_loop 0 (tcp_tw_pcbs s) s
     }"

section \<open>The fast timer\<close>

text \<open>What is sent for one PCB: a delayed acknowledgement and a pending FIN.\<close>

definition fast_send ::
  "'a tcp_state_scheme tcp_env \<Rightarrow> nat \<Rightarrow> 'a tcp_state_scheme \<Rightarrow> 'a tcp_state_scheme option" where
  "fast_send env pcb s =
     do {
       b \<leftarrow> tcp_mem s pcb;
       s \<leftarrow> (if tcp_is_flag_set b TF_ACK_DELAY then do {
               s \<leftarrow> upd_tcp pcb tcp_ack_now s;
               (err, s) \<leftarrow> tcp_output env pcb s;
               upd_tcp pcb (tcp_clear_flags (TF_ACK_DELAY OR TF_ACK_NOW)) s
             } else Some s);
       b \<leftarrow> tcp_mem s pcb;
       if tcp_is_flag_set b TF_CLOSEPEND then do {
         (err, s) \<leftarrow> tcp_close_shutdown_fin env pcb (put_tcp pcb (tcp_clear_flags TF_CLOSEPEND b) s);
         Some s
       } else Some s
     }"

partial_function (option) fast_loop ::
  "'a tcp_state_scheme tcp_env \<Rightarrow> nat \<Rightarrow> 'a tcp_state_scheme \<Rightarrow> 'a tcp_state_scheme option" where
  "fast_loop env pcb s =
     (if pcb = 0 then Some s
      else do {
        b \<leftarrow> tcp_mem s pcb;
        if tp_last_timer b \<noteq> tcp_timer_ctr s then do {
          s \<leftarrow> fast_send env pcb (put_tcp pcb (b\<lparr>tp_last_timer := tcp_timer_ctr s\<rparr>) s);
          b \<leftarrow> tcp_mem s pcb;
          if tp_refused_data b \<noteq> 0 then do {
            (err, s) \<leftarrow> tcp_process_refused_data env pcb (s\<lparr>tcp_active_pcbs_changed := False\<rparr>);
            if tcp_active_pcbs_changed s then fast_loop env (tcp_active_pcbs s) s
            else fast_loop env (tp_next b) s
          } else fast_loop env (tp_next b) s
        } else fast_loop env (tp_next b) s
      })"

definition tcp_fasttmr ::
  "'a tcp_state_scheme tcp_env \<Rightarrow> 'a tcp_state_scheme \<Rightarrow> 'a tcp_state_scheme option" where
  "tcp_fasttmr env s =
     (let s = s\<lparr>tcp_timer_ctr := tcp_timer_ctr s + 1\<rparr> in fast_loop env (tcp_active_pcbs s) s)"

definition tcp_tmr ::
  "'a tcp_state_scheme tcp_env \<Rightarrow> 'a tcp_state_scheme \<Rightarrow> 'a tcp_state_scheme option" where
  "tcp_tmr env s =
     do {
       s \<leftarrow> tcp_fasttmr env s;
       let s = s\<lparr>tcp_timer := tcp_timer s + 1\<rparr>;
       if tcp_timer s AND 1 \<noteq> 0 then tcp_slowtmr env s else Some s
     }"

end
