(* ===== verification/Lwip_Tcp_Receive.thy ===== *)
theory Lwip_Tcp_Receive
  imports Lwip_Tcp_Pcb
begin

text \<open>
  What a segment does to the connection it belongs to (\<^verbatim>\<open>tcp_receive\<close> and its helpers in
  \<^verbatim>\<open>core/c/core/tcp_in.c\<close>): acknowledgements with the windows and the round-trip time, data in
  order, and the queue of segments that arrive out of order.
\<close>

section \<open>Options\<close>

definition tcp_get_next_optbyte :: "'a tcp_state_scheme \<Rightarrow> (u8 \<times> 'a tcp_state_scheme) option" where
  "tcp_get_next_optbyte s =
     do {
       let optidx = ti_optidx s;
       let s = s\<lparr>ti_optidx := optidx + 1\<rparr>;
       bs \<leftarrow> (if ti_opt2 s = VNull \<or> optidx < ti_opt1len s
             then mem_read (ip_heap s) (ti_tcphdr s) (TCP_HLEN + unat optidx) 1
             else mem_read (ip_heap s) (ti_opt2 s) (unat (ucast (optidx - ti_opt1len s) :: u8)) 1);
       Some (hd bs, s)
     }"

definition tcp_opt_mss :: "u8 \<Rightarrow> u8 \<Rightarrow> u16" where
  "tcp_opt_mss b0 b1 =
     (let mss = push_bit 8 (ucast b0) OR ucast b1 in if mss > TCP_MSS \<or> mss = 0 then TCP_MSS else mss)"

text \<open>End of options 0, no operation 1, maximum segment size 2; all others are skipped by their length.\<close>

partial_function (option) tcp_parseopt_loop :: "nat \<Rightarrow> 'a tcp_state_scheme \<Rightarrow> 'a tcp_state_scheme option" where
  "tcp_parseopt_loop pcb s =
     (if ti_optidx s < ti_optlen s then do {
        (opt, s) \<leftarrow> tcp_get_next_optbyte s;
        if opt = 0 then Some s
        else if opt = 1 then tcp_parseopt_loop pcb s
        else if opt = 2 then do {
          (len, s) \<leftarrow> tcp_get_next_optbyte s;
          if len \<noteq> 4 \<or> int (unat (ti_optidx s)) - 2 + 4 > int (unat (ti_optlen s)) then Some s
          else do {
            (b0, s) \<leftarrow> tcp_get_next_optbyte s;
            (b1, s) \<leftarrow> tcp_get_next_optbyte s;
            s \<leftarrow> upd_tcp pcb (\<lambda>b. b\<lparr>tp_mss := tcp_opt_mss b0 b1\<rparr>) s;
            tcp_parseopt_loop pcb s
          }
        } else do {
          (data, s) \<leftarrow> tcp_get_next_optbyte s;
          if data < 2 then Some s
          else tcp_parseopt_loop pcb (s\<lparr>ti_optidx := ti_optidx s + ucast (data - 2)\<rparr>)
        }
      } else Some s)"

definition tcp_parseopt :: "nat \<Rightarrow> 'a tcp_state_scheme \<Rightarrow> 'a tcp_state_scheme option" where
  "tcp_parseopt pcb s =
     do {
       lwip_assert (pcb \<noteq> 0);
       if ti_optlen s \<noteq> 0 then tcp_parseopt_loop pcb (s\<lparr>ti_optidx := 0\<rparr>) else Some s
     }"

section \<open>Acknowledgements\<close>

text \<open>The update of the send window; \<^verbatim>\<open>wnd\<close> is the window of the segment.\<close>

definition tcp_receive_wnd :: "u32 \<Rightarrow> u32 \<Rightarrow> u16 \<Rightarrow> tcp_pcb \<Rightarrow> tcp_pcb" where
  "tcp_receive_wnd seqno ackno wnd b =
     (if TCP_SEQ_LT (tp_snd_wl1 b) seqno \<or> (tp_snd_wl1 b = seqno \<and> TCP_SEQ_LT (tp_snd_wl2 b) ackno) \<or>
         (tp_snd_wl2 b = ackno \<and> wnd > tp_snd_wnd b)
      then b\<lparr>tp_snd_wnd := wnd, tp_snd_wnd_max := (if tp_snd_wnd_max b < wnd then wnd else tp_snd_wnd_max b),
             tp_snd_wl1 := seqno, tp_snd_wl2 := ackno\<rparr>
      else b)"

text \<open>An acknowledgement that acknowledges nothing new: it may be a duplicate.\<close>

definition tcp_found_dupack :: "u32 \<Rightarrow> u32 \<Rightarrow> u16 \<Rightarrow> tcp_pcb \<Rightarrow> bool" where
  "tcp_found_dupack right_wnd_edge ackno tcplen b =
     (tcplen = 0 \<and> tp_snd_wl2 b + ucast (tp_snd_wnd b) = right_wnd_edge \<and> sint (tp_rtime b) \<ge> 0 \<and>
      tp_lastack b = ackno)"

definition tcp_receive_dupack ::
  "nat \<Rightarrow> u32 \<Rightarrow> 'a tcp_state_scheme \<Rightarrow> 'a tcp_state_scheme option" where
  "tcp_receive_dupack pcb right_wnd_edge s =
     do {
       b \<leftarrow> tcp_mem s pcb;
       if tcp_found_dupack right_wnd_edge (ti_ackno s) (ti_tcplen s) b then do {
         let b = (if tp_dupacks b + 1 > tp_dupacks b then b\<lparr>tp_dupacks := tp_dupacks b + 1\<rparr> else b);
         let b = (if tp_dupacks b > 3 then b\<lparr>tp_cwnd := TCP_WND_INC (tp_cwnd b) (tp_mss b)\<rparr> else b);
         let s = put_tcp pcb b s;
         if tp_dupacks b \<ge> 3 then tcp_rexmit_fast pcb s else Some s
       } else Some (put_tcp pcb (b\<lparr>tp_dupacks := 0\<rparr>) s)
     }"

text \<open>Slow start and congestion avoidance\<close>

definition tcp_receive_cwnd :: "u16 \<Rightarrow> tcp_pcb \<Rightarrow> tcp_pcb" where
  "tcp_receive_cwnd acked b =
     (if tp_state b \<ge> ESTABLISHED then
        (if tp_cwnd b < tp_ssthresh b then
           (let num_seg = (if tp_flags b AND TF_RTO \<noteq> 0 then 1 else 2);
                increase = min acked (num_seg * tp_mss b)
            in b\<lparr>tp_cwnd := TCP_WND_INC (tp_cwnd b) increase\<rparr>)
         else
           (let b = b\<lparr>tp_bytes_acked := TCP_WND_INC (tp_bytes_acked b) acked\<rparr>
            in if tp_bytes_acked b \<ge> tp_cwnd b
               then b\<lparr>tp_bytes_acked := tp_bytes_acked b - tp_cwnd b,
                      tp_cwnd := TCP_WND_INC (tp_cwnd b) (tp_mss b)\<rparr>
               else b))
      else b)"

text \<open>The variables of a PCB when new data are acknowledged, up to the queues.\<close>

definition tcp_receive_acked :: "u32 \<Rightarrow> tcp_pcb \<Rightarrow> tcp_pcb" where
  "tcp_receive_acked ackno b =
     (let b = (if tcp_is_flag_set b TF_INFR
               then (tcp_clear_flags TF_INFR b)\<lparr>tp_cwnd := tp_ssthresh b, tp_bytes_acked := 0\<rparr> else b);
          b = b\<lparr>tp_nrtx := 0, tp_rto := signed_drop_bit 3 (tp_sa b) + tp_sv b\<rparr>;
          acked = ucast (ackno - tp_lastack b);
          b = b\<lparr>tp_dupacks := 0, tp_lastack := ackno\<rparr>
      in tcp_receive_cwnd acked b)"

text \<open>The segments at the front of a queue that \<^verbatim>\<open>ackno\<close> covers are freed.\<close>

fun tcp_free_acked_segments ::
  "nat \<Rightarrow> tcp_seg list \<Rightarrow> tcp_seg list \<Rightarrow> 'a tcp_state_scheme \<Rightarrow> (tcp_seg list \<times> 'a tcp_state_scheme) option" where
  "tcp_free_acked_segments pcb [] other s = Some ([], s)"
| "tcp_free_acked_segments pcb (seg # segs) other s =
     do {
       seqno \<leftarrow> seg_seqno (ip_heap s) seg;
       tcplen \<leftarrow> TCP_TCPLEN (ip_heap s) seg;
       if TCP_SEQ_LEQ (seqno + tcplen) (ti_ackno s) then do {
         clen \<leftarrow> pbuf_clen (ip_heap s) (sg_p seg);
         b \<leftarrow> tcp_mem s pcb;
         lwip_assert (tp_snd_queuelen b \<ge> clen);
         let s = put_tcp pcb (b\<lparr>tp_snd_queuelen := tp_snd_queuelen b - clen\<rparr>) s;
         s \<leftarrow> tcp_seg_free seg (s\<lparr>ti_recv_acked := ti_recv_acked s + sg_len seg\<rparr>);
         lwip_assert (tp_snd_queuelen b - clen \<noteq> 0 \<longrightarrow> segs \<noteq> [] \<or> other \<noteq> []);
         tcp_free_acked_segments pcb segs other s
       } else Some (seg # segs, s)
     }"

text \<open>The retransmission after a timeout is over when its segments have left the queues.\<close>

definition tcp_rto_done :: "heap \<Rightarrow> tcp_pcb \<Rightarrow> bool option" where
  "tcp_rto_done h b =
     (case tp_unacked b of
        [] \<Rightarrow> (case tp_unsent b of
                 [] \<Rightarrow> Some True
               | seg # segs \<Rightarrow> do { x \<leftarrow> seg_seqno h seg; Some (TCP_SEQ_LEQ (tp_rto_end b) x) })
      | seg # segs \<Rightarrow> do { x \<leftarrow> seg_seqno h seg; Some (TCP_SEQ_LEQ (tp_rto_end b) x) })"

definition tcp_receive_new_ack ::
  "'a tcp_state_scheme tcp_env \<Rightarrow> nat \<Rightarrow> 'a tcp_state_scheme \<Rightarrow> 'a tcp_state_scheme option" where
  "tcp_receive_new_ack env pcb s =
     do {
       s \<leftarrow> upd_tcp pcb (tcp_receive_acked (ti_ackno s)) s;
       b \<leftarrow> tcp_mem s pcb;
       (unacked, s) \<leftarrow> tcp_free_acked_segments pcb (tp_unacked b) (tp_unsent b) s;
       s \<leftarrow> upd_tcp pcb (\<lambda>b. b\<lparr>tp_unacked := unacked\<rparr>) s;
       (unsent, s) \<leftarrow> tcp_free_acked_segments pcb (tp_unsent b) unacked s;
       s \<leftarrow> upd_tcp pcb (\<lambda>b. b\<lparr>tp_unsent := unsent, tp_rtime := (if unacked = [] then - 1 else 0),
              tp_polltmr := 0, tp_unsent_oversize := (if unsent = [] then 0 else tp_unsent_oversize b)\<rparr>) s;
       let s = (if ip_current_is_v6 s then te_nd6_hint env (ip_2_ip6 (current_iphdr_src (ip_data s))) s else s);
       s \<leftarrow> upd_tcp pcb (\<lambda>b. b\<lparr>tp_snd_buf := tp_snd_buf b + ti_recv_acked s\<rparr>) s;
       b \<leftarrow> tcp_mem s pcb;
       if tcp_is_flag_set b TF_RTO then do {
         over \<leftarrow> tcp_rto_done (ip_heap s) b;
         Some (if over then put_tcp pcb (tcp_clear_flags TF_RTO b) s else s)
       } else Some s
     }"

text \<open>The estimation of the round-trip time, in 16-bit two's complement.\<close>

definition tcp_receive_rtt :: "u32 \<Rightarrow> u32 \<Rightarrow> tcp_pcb \<Rightarrow> tcp_pcb" where
  "tcp_receive_rtt ticks ackno b =
     (if tp_rttest b \<noteq> 0 \<and> TCP_SEQ_LT (tp_rtseq b) ackno then
        (let m = ucast (ticks - tp_rttest b) :: u16;
             m = m - signed_drop_bit 3 (tp_sa b);
             b = b\<lparr>tp_sa := tp_sa b + m\<rparr>;
             m = (if sint m < 0 then - m else m);
             m = m - signed_drop_bit 2 (tp_sv b);
             b = b\<lparr>tp_sv := tp_sv b + m\<rparr>
         in b\<lparr>tp_rto := signed_drop_bit 3 (tp_sa b) + tp_sv b, tp_rttest := 0\<rparr>)
      else b)"

definition tcp_receive_ack ::
  "'a tcp_state_scheme tcp_env \<Rightarrow> nat \<Rightarrow> 'a tcp_state_scheme \<Rightarrow> 'a tcp_state_scheme option" where
  "tcp_receive_ack env pcb s =
     do {
       b \<leftarrow> tcp_mem s pcb;
       let right_wnd_edge = ucast (tp_snd_wnd b) + tp_snd_wl2 b;
       wnd \<leftarrow> hdr16 (ip_heap s) (ti_tcphdr s) 14;
       let b = tcp_receive_wnd (ti_seqno s) (ti_ackno s) wnd b;
       let s = put_tcp pcb b s;
       s \<leftarrow> (if TCP_SEQ_LEQ (ti_ackno s) (tp_lastack b) then tcp_receive_dupack pcb right_wnd_edge s
             else if TCP_SEQ_BETWEEN (ti_ackno s) (tp_lastack b + 1) (tp_snd_nxt b)
             then tcp_receive_new_ack env pcb s
             else do { (err, s) \<leftarrow> tcp_send_empty_ack env pcb s; Some s });
       upd_tcp pcb (tcp_receive_rtt (tcp_ticks s) (ti_ackno s)) s
     }"

section \<open>Data in order\<close>

text \<open>
  The part of a segment that has been received before is cut off: the walk over the pbufs that
  become empty, and the whole operation on \<^verbatim>\<open>inseg\<close>.
\<close>

partial_function (option) trim_front_loop :: "heap \<Rightarrow> nat \<Rightarrow> u16 \<Rightarrow> u16 \<Rightarrow> (nat \<times> u16 \<times> heap) option" where
  "trim_front_loop h p off new_tot_len =
     do {
       b \<leftarrow> pbufs h p;
       if pb_len b < off then
         trim_front_loop (put_pbuf h p (b\<lparr>pb_tot_len := new_tot_len, pb_len := 0\<rparr>)) (pb_next b)
           (off - pb_len b) new_tot_len
       else Some (p, off, h)
     }"

definition tcp_trim_front :: "u32 \<Rightarrow> 'a tcp_state_scheme \<Rightarrow> 'a tcp_state_scheme option" where
  "tcp_trim_front rcv_nxt s =
     do {
       let inseg = ti_inseg s;
       let p = sg_p inseg;
       let off32 = rcv_nxt - ti_seqno s;
       lwip_assert (p \<noteq> 0);
       lwip_assert (off32 < 0xffff);
       let off = ucast off32;
       pb \<leftarrow> pbufs (ip_heap s) p;
       lwip_assert (pb_tot_len pb \<ge> off);
       (q, off', h) \<leftarrow> trim_front_loop (ip_heap s) p off (pb_tot_len pb - off);
       (r, h) \<leftarrow> pbuf_remove_header h q (unat off');
       h \<leftarrow> set_hdr32 h (sg_tcphdr inseg) 4 rcv_nxt;
       Some (s\<lparr>ip_heap := h, ti_inseg := inseg\<lparr>sg_len := sg_len inseg - off\<rparr>, ti_seqno := rcv_nxt\<rparr>)
     }"

definition tcp_receive_trim :: "nat \<Rightarrow> 'a tcp_state_scheme \<Rightarrow> 'a tcp_state_scheme option" where
  "tcp_receive_trim pcb s =
     do {
       b \<leftarrow> tcp_mem s pcb;
       if TCP_SEQ_BETWEEN (tp_rcv_nxt b) (ti_seqno s + 1) (ti_seqno s + ucast (ti_tcplen s) - 1)
       then tcp_trim_front (tp_rcv_nxt b) s
       else if TCP_SEQ_LT (ti_seqno s) (tp_rcv_nxt b) then upd_tcp pcb tcp_ack_now s
       else Some s
     }"

text \<open>A length of \<^verbatim>\<open>inseg\<close> in sequence space, in the \<^verbatim>\<open>u16_t\<close> variable \<^verbatim>\<open>tcplen\<close>.\<close>

definition inseg_tcplen :: "'a tcp_state_scheme \<Rightarrow> u16 option" where
  "inseg_tcplen s = do { n \<leftarrow> TCP_TCPLEN (ip_heap s) (ti_inseg s); Some (ucast n) }"

text \<open>\<^verbatim>\<open>inseg\<close> is cut to \<^verbatim>\<open>len\<close> bytes of sequence space, one less of data when it has a SYN.\<close>

definition tcp_trim_inseg :: "u16 \<Rightarrow> 'a tcp_state_scheme \<Rightarrow> 'a tcp_state_scheme option" where
  "tcp_trim_inseg len s =
     do {
       fl \<leftarrow> TCPH_FLAGS (ip_heap s) (sg_tcphdr (ti_inseg s));
       let inseg = (ti_inseg s)\<lparr>sg_len := (if fl AND TCP_SYN \<noteq> 0 then len - 1 else len)\<rparr>;
       h \<leftarrow> pbuf_realloc (ip_heap s) (sg_p inseg) (sg_len inseg);
       let s = s\<lparr>ip_heap := h, ti_inseg := inseg\<rparr>;
       n \<leftarrow> inseg_tcplen s;
       Some (s\<lparr>ti_tcplen := n\<rparr>)
     }"

text \<open>The segment is cut at the right edge of the receive window.\<close>

definition tcp_trim_to_wnd :: "nat \<Rightarrow> 'a tcp_state_scheme \<Rightarrow> 'a tcp_state_scheme option" where
  "tcp_trim_to_wnd pcb s =
     do {
       b \<leftarrow> tcp_mem s pcb;
       if ti_tcplen s > tp_rcv_wnd b then do {
         fl \<leftarrow> TCPH_FLAGS (ip_heap s) (sg_tcphdr (ti_inseg s));
         h \<leftarrow> (if fl AND TCP_FIN \<noteq> 0 then TCPH_FLAGS_SET (ip_heap s) (sg_tcphdr (ti_inseg s)) (fl AND NOT TCP_FIN)
               else Some (ip_heap s));
         s \<leftarrow> tcp_trim_inseg (tp_rcv_wnd b) (s\<lparr>ip_heap := h\<rparr>);
         lwip_assert (ti_seqno s + ucast (ti_tcplen s) = tp_rcv_nxt b + ucast (tp_rcv_wnd b));
         Some s
       } else Some s
     }"

text \<open>
  The out-of-order segments that \<^verbatim>\<open>inseg\<close> covers are freed; a FIN of theirs moves to \<^verbatim>\<open>inseg\<close>.
\<close>

fun tcp_drop_covered :: "tcp_seg list \<Rightarrow> 'a tcp_state_scheme \<Rightarrow> (tcp_seg list \<times> 'a tcp_state_scheme) option" where
  "tcp_drop_covered [] s = Some ([], s)"
| "tcp_drop_covered (seg # segs) s =
     do {
       x \<leftarrow> th_seqno (ip_heap s) (sg_tcphdr seg);
       if TCP_SEQ_GEQ (ti_seqno s + ucast (ti_tcplen s)) (x + ucast (sg_len seg)) then do {
         nfl \<leftarrow> TCPH_FLAGS (ip_heap s) (sg_tcphdr seg);
         ifl \<leftarrow> TCPH_FLAGS (ip_heap s) (sg_tcphdr (ti_inseg s));
         s \<leftarrow> (if nfl AND TCP_FIN \<noteq> 0 \<and> ifl AND TCP_SYN = 0 then do {
                 h \<leftarrow> TCPH_SET_FLAG (ip_heap s) (sg_tcphdr (ti_inseg s)) TCP_FIN;
                 let s = s\<lparr>ip_heap := h\<rparr>;
                 n \<leftarrow> inseg_tcplen s;
                 Some (s\<lparr>ti_tcplen := n\<rparr>)
               } else Some s);
         s \<leftarrow> tcp_seg_free seg s;
         tcp_drop_covered segs s
       } else Some (seg # segs, s)
     }"

definition tcp_receive_ooseq_overlap :: "nat \<Rightarrow> 'a tcp_state_scheme \<Rightarrow> 'a tcp_state_scheme option" where
  "tcp_receive_ooseq_overlap pcb s =
     do {
       b \<leftarrow> tcp_mem s pcb;
       if tp_ooseq b = [] then Some s
       else do {
         fl \<leftarrow> TCPH_FLAGS (ip_heap s) (sg_tcphdr (ti_inseg s));
         if fl AND TCP_FIN \<noteq> 0 then do {
           s \<leftarrow> tcp_segs_free (tp_ooseq b) s;
           upd_tcp pcb (\<lambda>b. b\<lparr>tp_ooseq := []\<rparr>) s
         } else do {
           (segs, s) \<leftarrow> tcp_drop_covered (tp_ooseq b) s;
           s \<leftarrow> (case segs of
               [] \<Rightarrow> Some s
             | seg # _ \<Rightarrow> do {
                 x \<leftarrow> th_seqno (ip_heap s) (sg_tcphdr seg);
                 if TCP_SEQ_GT (ti_seqno s + ucast (ti_tcplen s)) x then do {
                   s \<leftarrow> tcp_trim_inseg (ucast (x - ti_seqno s)) s;
                   lwip_assert (ti_seqno s + ucast (ti_tcplen s) = x);
                   Some s
                 } else Some s
               });
           upd_tcp pcb (\<lambda>b. b\<lparr>tp_ooseq := segs\<rparr>) s
         }
       }
     }"

text \<open>\<^verbatim>\<open>n\<close> bytes of sequence space have been received.\<close>

definition tcp_advance_rcv :: "u32 \<Rightarrow> u16 \<Rightarrow> tcp_pcb \<Rightarrow> tcp_pcb option" where
  "tcp_advance_rcv rcv_nxt n b =
     do {
       lwip_assert (tp_rcv_wnd b \<ge> n);
       (infl, b) \<leftarrow> tcp_update_rcv_ann_wnd (b\<lparr>tp_rcv_nxt := rcv_nxt, tp_rcv_wnd := tp_rcv_wnd b - n\<rparr>);
       Some b
     }"

text \<open>\<^verbatim>\<open>inseg\<close> is received: its pbuf is handed to \<^verbatim>\<open>recv_data\<close>.\<close>

definition tcp_receive_inseg :: "nat \<Rightarrow> 'a tcp_state_scheme \<Rightarrow> 'a tcp_state_scheme option" where
  "tcp_receive_inseg pcb s =
     do {
       b \<leftarrow> tcp_mem s pcb;
       b \<leftarrow> tcp_advance_rcv (ti_seqno s + ucast (ti_tcplen s)) (ti_tcplen s) b;
       let s = put_tcp pcb b s;
       pb \<leftarrow> pbufs (ip_heap s) (sg_p (ti_inseg s));
       let s = (if pb_tot_len pb > 0
         then s\<lparr>ti_recv_data := sg_p (ti_inseg s), ti_inseg := (ti_inseg s)\<lparr>sg_p := 0\<rparr>\<rparr> else s);
       fl \<leftarrow> TCPH_FLAGS (ip_heap s) (sg_tcphdr (ti_inseg s));
       Some (if fl AND TCP_FIN \<noteq> 0 then s\<lparr>ti_recv_flags := ti_recv_flags s OR TF_GOT_FIN\<rparr> else s)
     }"

text \<open>The data of an out-of-order segment go behind the data received before.\<close>

definition tcp_take_ooseq_data ::
  "tcp_seg \<Rightarrow> 'a tcp_state_scheme \<Rightarrow> (tcp_seg \<times> 'a tcp_state_scheme) option" where
  "tcp_take_ooseq_data cseg s =
     do {
       cb \<leftarrow> pbufs (ip_heap s) (sg_p cseg);
       if pb_tot_len cb > 0 then do {
         s \<leftarrow> (if ti_recv_data s \<noteq> 0 then do {
                 h \<leftarrow> pbuf_cat (ip_heap s) (ti_recv_data s) (sg_p cseg);
                 Some (s\<lparr>ip_heap := h\<rparr>)
               } else Some (s\<lparr>ti_recv_data := sg_p cseg\<rparr>));
         Some (cseg\<lparr>sg_p := 0\<rparr>, s)
       } else Some (cseg, s)
     }"

text \<open>The first out-of-order segment has become the next one in order.\<close>

definition tcp_dequeue_ooseq ::
  "nat \<Rightarrow> tcp_seg \<Rightarrow> tcp_seg list \<Rightarrow> u32 \<Rightarrow> 'a tcp_state_scheme \<Rightarrow> 'a tcp_state_scheme option" where
  "tcp_dequeue_ooseq pcb cseg segs x s =
     do {
       let s = s\<lparr>ti_seqno := x\<rparr>;
       b \<leftarrow> tcp_mem s pcb;
       n \<leftarrow> TCP_TCPLEN (ip_heap s) cseg;
       lwip_assert (ucast (tp_rcv_wnd b) \<ge> n);
       b \<leftarrow> tcp_advance_rcv (tp_rcv_nxt b + n) (ucast n) b;
       (cseg, s) \<leftarrow> tcp_take_ooseq_data cseg s;
       fl \<leftarrow> TCPH_FLAGS (ip_heap s) (sg_tcphdr cseg);
       let s = (if fl AND TCP_FIN \<noteq> 0 then s\<lparr>ti_recv_flags := ti_recv_flags s OR TF_GOT_FIN\<rparr> else s);
       let b = (if fl AND TCP_FIN \<noteq> 0 \<and> tp_state b = ESTABLISHED then b\<lparr>tp_state := CLOSE_WAIT\<rparr> else b);
       tcp_seg_free cseg (put_tcp pcb (b\<lparr>tp_ooseq := segs\<rparr>) s)
     }"

fun tcp_dequeue_loop :: "nat \<Rightarrow> tcp_seg list \<Rightarrow> 'a tcp_state_scheme \<Rightarrow> 'a tcp_state_scheme option" where
  "tcp_dequeue_loop pcb [] s = Some s"
| "tcp_dequeue_loop pcb (cseg # segs) s =
     do {
       b \<leftarrow> tcp_mem s pcb;
       x \<leftarrow> th_seqno (ip_heap s) (sg_tcphdr cseg);
       if x = tp_rcv_nxt b then do {
         s \<leftarrow> tcp_dequeue_ooseq pcb cseg segs x s;
         tcp_dequeue_loop pcb segs s
       } else Some s
     }"

definition tcp_receive_in_order ::
  "'a tcp_state_scheme tcp_env \<Rightarrow> nat \<Rightarrow> 'a tcp_state_scheme \<Rightarrow> 'a tcp_state_scheme option" where
  "tcp_receive_in_order env pcb s =
     do {
       n \<leftarrow> inseg_tcplen s;
       s \<leftarrow> tcp_trim_to_wnd pcb (s\<lparr>ti_tcplen := n\<rparr>);
       s \<leftarrow> tcp_receive_ooseq_overlap pcb s;
       s \<leftarrow> tcp_receive_inseg pcb s;
       b \<leftarrow> tcp_mem s pcb;
       s \<leftarrow> tcp_dequeue_loop pcb (tp_ooseq b) s;
       s \<leftarrow> upd_tcp pcb tcp_ack s;
       Some (if ip_current_is_v6 s then te_nd6_hint env (ip_2_ip6 (current_iphdr_src (ip_data s))) s else s)
     }"

section \<open>Data out of order\<close>

text \<open>\<^verbatim>\<open>tcp_oos_insert_segment\<close>: the queue from the new segment \<^verbatim>\<open>cseg\<close> on.\<close>

fun oos_drop_covered ::
  "tcp_seg \<Rightarrow> tcp_seg list \<Rightarrow> 'a tcp_state_scheme \<Rightarrow> (tcp_seg list \<times> 'a tcp_state_scheme) option" where
  "oos_drop_covered cseg [] s = Some ([], s)"
| "oos_drop_covered cseg (seg # segs) s =
     do {
       x \<leftarrow> th_seqno (ip_heap s) (sg_tcphdr seg);
       if TCP_SEQ_GEQ (ti_seqno s + ucast (sg_len cseg)) (x + ucast (sg_len seg)) then do {
         fl \<leftarrow> TCPH_FLAGS (ip_heap s) (sg_tcphdr seg);
         h \<leftarrow> (if fl AND TCP_FIN \<noteq> 0 then TCPH_SET_FLAG (ip_heap s) (sg_tcphdr cseg) TCP_FIN
               else Some (ip_heap s));
         s \<leftarrow> tcp_seg_free seg (s\<lparr>ip_heap := h\<rparr>);
         oos_drop_covered cseg segs s
       } else Some (seg # segs, s)
     }"

definition tcp_oos_insert_segment ::
  "tcp_seg \<Rightarrow> tcp_seg list \<Rightarrow> 'a tcp_state_scheme \<Rightarrow> (tcp_seg list \<times> 'a tcp_state_scheme) option" where
  "tcp_oos_insert_segment cseg segs s =
     do {
       fl \<leftarrow> TCPH_FLAGS (ip_heap s) (sg_tcphdr cseg);
       if fl AND TCP_FIN \<noteq> 0 then do { s \<leftarrow> tcp_segs_free segs s; Some ([cseg], s) }
       else do {
         (segs, s) \<leftarrow> oos_drop_covered cseg segs s;
         (case segs of
            [] \<Rightarrow> Some ([cseg], s)
          | seg # _ \<Rightarrow> do {
              x \<leftarrow> th_seqno (ip_heap s) (sg_tcphdr seg);
              if TCP_SEQ_GT (ti_seqno s + ucast (sg_len cseg)) x then do {
                let cseg = cseg\<lparr>sg_len := ucast (x - ti_seqno s)\<rparr>;
                h \<leftarrow> pbuf_realloc (ip_heap s) (sg_p cseg) (sg_len cseg);
                Some (cseg # segs, s\<lparr>ip_heap := h\<rparr>)
              } else Some (cseg # segs, s)
            })
       }
     }"

text \<open>A queued segment ends where the new one begins.\<close>

definition oos_trim_tail :: "tcp_seg \<Rightarrow> u32 \<Rightarrow> 'a tcp_state_scheme \<Rightarrow> (tcp_seg \<times> 'a tcp_state_scheme) option" where
  "oos_trim_tail seg x s =
     (if TCP_SEQ_GT (x + ucast (sg_len seg)) (ti_seqno s) then do {
        let seg = seg\<lparr>sg_len := ucast (ti_seqno s - x)\<rparr>;
        h \<leftarrow> pbuf_realloc (ip_heap s) (sg_p seg) (sg_len seg);
        Some (seg, s\<lparr>ip_heap := h\<rparr>)
      } else Some (seg, s))"

text \<open>A copy of \<^verbatim>\<open>inseg\<close> at the end of the queue is cut at the right edge of the window.\<close>

definition oos_trim_wnd :: "nat \<Rightarrow> tcp_seg \<Rightarrow> 'a tcp_state_scheme \<Rightarrow> (tcp_seg \<times> 'a tcp_state_scheme) option" where
  "oos_trim_wnd pcb cseg s =
     do {
       b \<leftarrow> tcp_mem s pcb;
       let edge = tp_rcv_nxt b + ucast (tp_rcv_wnd b);
       if TCP_SEQ_GT (ucast (ti_tcplen s) + ti_seqno s) edge then do {
         fl \<leftarrow> TCPH_FLAGS (ip_heap s) (sg_tcphdr cseg);
         h \<leftarrow> (if fl AND TCP_FIN \<noteq> 0 then TCPH_FLAGS_SET (ip_heap s) (sg_tcphdr cseg) (fl AND NOT TCP_FIN)
               else Some (ip_heap s));
         let cseg = cseg\<lparr>sg_len := ucast (edge - ti_seqno s)\<rparr>;
         h \<leftarrow> pbuf_realloc h (sg_p cseg) (sg_len cseg);
         n \<leftarrow> TCP_TCPLEN h cseg;
         let s = s\<lparr>ip_heap := h, ti_tcplen := ucast n\<rparr>;
         lwip_assert (ti_seqno s + ucast (ti_tcplen s) = edge);
         Some (cseg, s)
       } else Some (cseg, s)
     }"

text \<open>The last segment of the queue is before the new one, which goes behind it.\<close>

definition oos_append ::
  "nat \<Rightarrow> tcp_seg \<Rightarrow> u32 \<Rightarrow> 'a tcp_state_scheme \<Rightarrow> (tcp_seg list \<times> 'a tcp_state_scheme) option" where
  "oos_append pcb seg x s =
     do {
       fl \<leftarrow> TCPH_FLAGS (ip_heap s) (sg_tcphdr seg);
       if fl AND TCP_FIN \<noteq> 0 then Some ([seg], s)
       else do {
         (cseg, s) \<leftarrow> tcp_seg_copy (ti_inseg s) s;
         (case cseg of
            None \<Rightarrow> Some ([seg], s)
          | Some cseg \<Rightarrow> do {
              (seg, s) \<leftarrow> oos_trim_tail seg x s;
              (cseg, s) \<leftarrow> oos_trim_wnd pcb cseg s;
              Some ([seg, cseg], s)
            })
       }
     }"

text \<open>
  The walk to the place of \<^verbatim>\<open>inseg\<close>; the result is the queue from \<^verbatim>\<open>prev\<close> on, the segment that
  has been passed last.
\<close>

fun oos_walk ::
  "nat \<Rightarrow> tcp_seg option \<Rightarrow> tcp_seg list \<Rightarrow> 'a tcp_state_scheme \<Rightarrow> (tcp_seg list \<times> 'a tcp_state_scheme) option" where
  "oos_walk pcb prev [] s = Some (case prev of None \<Rightarrow> [] | Some p \<Rightarrow> [p], s)"
| "oos_walk pcb prev (seg # segs) s =
     do {
       let front = (case prev of None \<Rightarrow> [] | Some p \<Rightarrow> [p]);
       x \<leftarrow> th_seqno (ip_heap s) (sg_tcphdr seg);
       if ti_seqno s = x then
         (if sg_len (ti_inseg s) > sg_len seg then do {
            (cseg, s) \<leftarrow> tcp_seg_copy (ti_inseg s) s;
            (case cseg of
               None \<Rightarrow> Some (front @ seg # segs, s)
             | Some cseg \<Rightarrow> do {
                 (q, s) \<leftarrow> tcp_oos_insert_segment cseg (seg # segs) s;
                 Some (front @ q, s)
               })
          } else Some (front @ seg # segs, s))
       else do {
         here \<leftarrow> (case prev of
             None \<Rightarrow> Some (TCP_SEQ_LT (ti_seqno s) x)
           | Some p \<Rightarrow> do { y \<leftarrow> th_seqno (ip_heap s) (sg_tcphdr p); Some (TCP_SEQ_BETWEEN (ti_seqno s) (y + 1) (x - 1)) });
         if here then do {
           (cseg, s) \<leftarrow> tcp_seg_copy (ti_inseg s) s;
           (case cseg of
              None \<Rightarrow> Some (front @ seg # segs, s)
            | Some cseg \<Rightarrow> do {
                (front, s) \<leftarrow> (case prev of
                    None \<Rightarrow> Some ([], s)
                  | Some p \<Rightarrow> do {
                      y \<leftarrow> th_seqno (ip_heap s) (sg_tcphdr p);
                      (p, s) \<leftarrow> oos_trim_tail p y s;
                      Some ([p], s)
                    });
                (q, s) \<leftarrow> tcp_oos_insert_segment cseg (seg # segs) s;
                Some (front @ q, s)
              })
         } else if segs = [] \<and> TCP_SEQ_GT (ti_seqno s) x then do {
           (q, s) \<leftarrow> oos_append pcb seg x s;
           Some (front @ q, s)
         } else do {
           (q, s) \<leftarrow> oos_walk pcb (Some seg) segs s;
           Some (front @ q, s)
         }
       }
     }"

definition tcp_receive_out_of_order ::
  "'a tcp_state_scheme tcp_env \<Rightarrow> nat \<Rightarrow> 'a tcp_state_scheme \<Rightarrow> 'a tcp_state_scheme option" where
  "tcp_receive_out_of_order env pcb s =
     do {
       b \<leftarrow> tcp_mem s pcb;
       (q, s) \<leftarrow> (if tp_ooseq b = [] then do {
           (cseg, s) \<leftarrow> tcp_seg_copy (ti_inseg s) s;
           Some (case cseg of None \<Rightarrow> [] | Some cseg \<Rightarrow> [cseg], s)
         } else oos_walk pcb None (tp_ooseq b) s);
       s \<leftarrow> upd_tcp pcb (\<lambda>b. b\<lparr>tp_ooseq := q\<rparr>) s;
       (err, s) \<leftarrow> tcp_send_empty_ack env pcb s;
       Some s
     }"

section \<open>Receiving a segment\<close>

definition tcp_receive_data ::
  "'a tcp_state_scheme tcp_env \<Rightarrow> nat \<Rightarrow> 'a tcp_state_scheme \<Rightarrow> 'a tcp_state_scheme option" where
  "tcp_receive_data env pcb s =
     do {
       s \<leftarrow> tcp_receive_trim pcb s;
       b \<leftarrow> tcp_mem s pcb;
       if TCP_SEQ_BETWEEN (ti_seqno s) (tp_rcv_nxt b) (tp_rcv_nxt b + ucast (tp_rcv_wnd b) - 1) then
         (if tp_rcv_nxt b = ti_seqno s then tcp_receive_in_order env pcb s
          else tcp_receive_out_of_order env pcb s)
       else do { (err, s) \<leftarrow> tcp_send_empty_ack env pcb s; Some s }
     }"

definition tcp_receive ::
  "'a tcp_state_scheme tcp_env \<Rightarrow> nat \<Rightarrow> 'a tcp_state_scheme \<Rightarrow> 'a tcp_state_scheme option" where
  "tcp_receive env pcb s =
     do {
       lwip_assert (pcb \<noteq> 0);
       b \<leftarrow> tcp_mem s pcb;
       lwip_assert (tp_state b \<ge> ESTABLISHED);
       s \<leftarrow> (if ti_flags s AND TCP_ACK \<noteq> 0 then tcp_receive_ack env pcb s else Some s);
       b \<leftarrow> tcp_mem s pcb;
       if ti_tcplen s > 0 \<and> tp_state b < CLOSE_WAIT then tcp_receive_data env pcb s
       else if \<not> TCP_SEQ_BETWEEN (ti_seqno s) (tp_rcv_nxt b) (tp_rcv_nxt b + ucast (tp_rcv_wnd b) - 1)
       then upd_tcp pcb tcp_ack_now s
       else Some s
     }"

end
