(* ===== verification/Lwip_Tcp_In.thy ===== *)
theory Lwip_Tcp_In
  imports Lwip_Tcp_Receive
begin

text \<open>
  TCP input (\<^verbatim>\<open>core/c/core/tcp_in.c\<close>): the checks of the header, the choice of the PCB, the state
  machine of a connection, and the calls of the application. With \<^verbatim>\<open>TUN2SOCKS\<close> the first
  listening PCB accepts every connection attempt. Incoming checksums are not checked.
\<close>

section \<open>The state machine\<close>

definition tcp_cur_src :: "'a tcp_state_scheme \<Rightarrow> ip_addr_t" where
  "tcp_cur_src s = current_iphdr_src (ip_data s)"

definition tcp_cur_dest :: "'a tcp_state_scheme \<Rightarrow> ip_addr_t" where
  "tcp_cur_dest s = current_iphdr_dest (ip_data s)"

text \<open>A reset in answer to the current segment, as several branches send it.\<close>

definition tcp_rst_input ::
  "'a tcp_state_scheme tcp_env \<Rightarrow> nat \<Rightarrow> 'a tcp_state_scheme \<Rightarrow> 'a tcp_state_scheme option" where
  "tcp_rst_input env pcb s =
     do {
       src \<leftarrow> hdr16 (ip_heap s) (ti_tcphdr s) 0;
       dest \<leftarrow> hdr16 (ip_heap s) (ti_tcphdr s) 2;
       tcp_rst env pcb (ti_ackno s) (ti_seqno s + ucast (ti_tcplen s)) (tcp_cur_dest s) (tcp_cur_src s) dest src s
     }"

definition tcp_process_rst :: "nat \<Rightarrow> 'a tcp_state_scheme \<Rightarrow> (err_t \<times> 'a tcp_state_scheme) option" where
  "tcp_process_rst pcb s =
     do {
       b \<leftarrow> tcp_mem s pcb;
       if (if tp_state b = SYN_SENT then ti_ackno s = tp_snd_nxt b else ti_seqno s = tp_rcv_nxt b) then do {
         lwip_assert (tp_state b \<noteq> CLOSED);
         Some (ERR_RST, put_tcp pcb (tcp_clear_flags TF_ACK_DELAY b)
           (s\<lparr>ti_recv_flags := ti_recv_flags s OR TF_RESET\<rparr>))
       } else if tp_state b \<noteq> SYN_SENT \<and>
           TCP_SEQ_BETWEEN (ti_seqno s) (tp_rcv_nxt b) (tp_rcv_nxt b + ucast (tp_rcv_wnd b))
         then Some (ERR_OK, put_tcp pcb (tcp_ack_now b) s)
       else Some (ERR_OK, s)
     }"

definition LWIP_TCP_CALC_INITIAL_CWND :: "u16 \<Rightarrow> u16" where
  "LWIP_TCP_CALC_INITIAL_CWND mss = of_nat (min (4 * unat mss) (max (2 * unat mss) 4380))"

text \<open>The answer to our SYN: the connection is established and the SYN leaves the queue.\<close>

definition tcp_syn_sent_established ::
  "'a tcp_state_scheme tcp_env \<Rightarrow> nat \<Rightarrow> 'a tcp_state_scheme \<Rightarrow> (err_t \<times> 'a tcp_state_scheme) option" where
  "tcp_syn_sent_established env pcb s =
     do {
       b \<leftarrow> tcp_mem s pcb;
       wnd \<leftarrow> hdr16 (ip_heap s) (ti_tcphdr s) 14;
       let b = b\<lparr>tp_rcv_nxt := ti_seqno s + 1, tp_rcv_ann_right_edge := ti_seqno s + 1, tp_lastack := ti_ackno s,
                 tp_snd_wnd := wnd, tp_snd_wnd_max := wnd, tp_snd_wl1 := ti_seqno s - 1, tp_state := ESTABLISHED\<rparr>;
       let b = b\<lparr>tp_mss := tcp_eff_send_mss_netif env (tp_mss b)
                  (ip_route (tp_local_ip b) (tp_remote_ip b) s) (tp_remote_ip b) s\<rparr>;
       let b = b\<lparr>tp_cwnd := LWIP_TCP_CALC_INITIAL_CWND (tp_mss b)\<rparr>;
       lwip_assert (tp_snd_queuelen b > 0);
       let b = b\<lparr>tp_snd_queuelen := tp_snd_queuelen b - 1\<rparr>;
       (rseg, b) \<leftarrow> (case tp_unacked b of
           rseg # segs \<Rightarrow> Some (rseg, b\<lparr>tp_unacked := segs\<rparr>)
         | [] \<Rightarrow> (case tp_unsent b of
             rseg # segs \<Rightarrow> Some (rseg, b\<lparr>tp_unsent := segs\<rparr>)
           | [] \<Rightarrow> None));
       s \<leftarrow> tcp_seg_free rseg s;
       let b = (if tp_unacked b = [] then b\<lparr>tp_rtime := - 1\<rparr> else b\<lparr>tp_rtime := 0, tp_nrtx := 0\<rparr>);
       (err, s) \<leftarrow> TCP_EVENT_CONNECTED env pcb ERR_OK (put_tcp pcb b s);
       if err = ERR_ABRT then Some (ERR_ABRT, s)
       else do { s \<leftarrow> upd_tcp pcb tcp_ack_now s; Some (ERR_OK, s) }
     }"

definition tcp_process_syn_sent ::
  "'a tcp_state_scheme tcp_env \<Rightarrow> nat \<Rightarrow> 'a tcp_state_scheme \<Rightarrow> (err_t \<times> 'a tcp_state_scheme) option" where
  "tcp_process_syn_sent env pcb s =
     do {
       b \<leftarrow> tcp_mem s pcb;
       if ti_flags s AND TCP_ACK \<noteq> 0 \<and> ti_flags s AND TCP_SYN \<noteq> 0 \<and> ti_ackno s = tp_lastack b + 1
       then tcp_syn_sent_established env pcb s
       else if ti_flags s AND TCP_ACK \<noteq> 0 then do {
         s \<leftarrow> tcp_rst_input env pcb s;
         b \<leftarrow> tcp_mem s pcb;
         s \<leftarrow> (if tp_nrtx b < TCP_SYNMAXRTX
               then tcp_rexmit_rto env pcb (put_tcp pcb (b\<lparr>tp_rtime := 0\<rparr>) s) else Some s);
         Some (ERR_OK, s)
       } else Some (ERR_OK, s)
     }"

text \<open>The acknowledgement of our SYN-ACK: the application may refuse the connection.\<close>

definition tcp_syn_rcvd_accept ::
  "'a tcp_state_scheme tcp_env \<Rightarrow> nat \<Rightarrow> 'a tcp_state_scheme \<Rightarrow> (err_t \<times> 'a tcp_state_scheme) option" where
  "tcp_syn_rcvd_accept env pcb s =
     do {
       b \<leftarrow> tcp_mem s pcb;
       let s = put_tcp pcb (b\<lparr>tp_state := ESTABLISHED\<rparr>) s;
       if tp_listener b = 0 then Some (ERR_VAL, s)
       else do {
         l \<leftarrow> tcp_mem s (tp_listener b);
         lwip_assert (tp_accept l \<noteq> FnNull);
         TCP_EVENT_ACCEPT env (tp_listener b) pcb (tp_callback_arg b) ERR_OK s
       }
     }"

definition tcp_process_syn_rcvd ::
  "'a tcp_state_scheme tcp_env \<Rightarrow> nat \<Rightarrow> 'a tcp_state_scheme \<Rightarrow> (err_t \<times> 'a tcp_state_scheme) option" where
  "tcp_process_syn_rcvd env pcb s =
     do {
       b \<leftarrow> tcp_mem s pcb;
       if ti_flags s AND TCP_ACK \<noteq> 0 then
         (if TCP_SEQ_BETWEEN (ti_ackno s) (tp_lastack b + 1) (tp_snd_nxt b) then do {
            (err, s) \<leftarrow> tcp_syn_rcvd_accept env pcb s;
            if err \<noteq> ERR_OK then do {
              s \<leftarrow> (if err \<noteq> ERR_ABRT then tcp_abort env pcb s else Some s);
              Some (ERR_ABRT, s)
            } else do {
              s \<leftarrow> tcp_receive env pcb s;
              let s = (if ti_recv_acked s \<noteq> 0 then s\<lparr>ti_recv_acked := ti_recv_acked s - 1\<rparr> else s);
              s \<leftarrow> upd_tcp pcb (\<lambda>b. b\<lparr>tp_cwnd := LWIP_TCP_CALC_INITIAL_CWND (tp_mss b)\<rparr>) s;
              s \<leftarrow> (if ti_recv_flags s AND TF_GOT_FIN \<noteq> 0
                    then upd_tcp pcb (\<lambda>b. (tcp_ack_now b)\<lparr>tp_state := CLOSE_WAIT\<rparr>) s else Some s);
              Some (ERR_OK, s)
            }
          } else do { s \<leftarrow> tcp_rst_input env pcb s; Some (ERR_OK, s) })
       else if ti_flags s AND TCP_SYN \<noteq> 0 \<and> ti_seqno s = tp_rcv_nxt b - 1 then do {
         (err, s) \<leftarrow> tcp_rexmit pcb s;
         Some (ERR_OK, s)
       } else Some (ERR_OK, s)
     }"

text \<open>The end of the active life of a PCB.\<close>

definition tcp_enter_time_wait ::
  "'a tcp_state_scheme tcp_env \<Rightarrow> nat \<Rightarrow> 'a tcp_state_scheme \<Rightarrow> 'a tcp_state_scheme option" where
  "tcp_enter_time_wait env pcb s =
     do {
       s \<leftarrow> tcp_pcb_purge pcb s;
       s \<leftarrow> TCP_RMV_ACTIVE pcb s;
       s \<leftarrow> upd_tcp pcb (\<lambda>b. b\<lparr>tp_state := TIME_WAIT\<rparr>) s;
       TCP_REG env L_tw pcb s
     }"

text \<open>All we have sent, our FIN included, is acknowledged.\<close>

definition tcp_fin_acked :: "tcp_pcb \<Rightarrow> 'a tcp_state_scheme \<Rightarrow> bool" where
  "tcp_fin_acked b s = (ti_flags s AND TCP_ACK \<noteq> 0 \<and> ti_ackno s = tp_snd_nxt b \<and> tp_unsent b = [])"

text \<open>The states that receive data; each case after \<^verbatim>\<open>tcp_receive\<close>.\<close>

definition tcp_process_received ::
  "'a tcp_state_scheme tcp_env \<Rightarrow> nat \<Rightarrow> tcp_pstate \<Rightarrow> 'a tcp_state_scheme \<Rightarrow> 'a tcp_state_scheme option" where
  "tcp_process_received env pcb state s =
     do {
       b \<leftarrow> tcp_mem s pcb;
       let got_fin = (ti_recv_flags s AND TF_GOT_FIN \<noteq> 0);
       (case state of
          FIN_WAIT_1 \<Rightarrow>
            (if got_fin then
               (if tcp_fin_acked b s then tcp_enter_time_wait env pcb (put_tcp pcb (tcp_ack_now b) s)
                else Some (put_tcp pcb ((tcp_ack_now b)\<lparr>tp_state := CLOSING\<rparr>) s))
             else if tcp_fin_acked b s then Some (put_tcp pcb (b\<lparr>tp_state := FIN_WAIT_2\<rparr>) s)
             else Some s)
        | FIN_WAIT_2 \<Rightarrow>
            (if got_fin then tcp_enter_time_wait env pcb (put_tcp pcb (tcp_ack_now b) s) else Some s)
        | CLOSING \<Rightarrow> (if tcp_fin_acked b s then tcp_enter_time_wait env pcb s else Some s)
        | LAST_ACK \<Rightarrow>
            (if tcp_fin_acked b s then Some (s\<lparr>ti_recv_flags := ti_recv_flags s OR TF_CLOSED\<rparr>) else Some s)
        | _ \<Rightarrow> (if got_fin then Some (put_tcp pcb ((tcp_ack_now b)\<lparr>tp_state := CLOSE_WAIT\<rparr>) s) else Some s))
     }"

definition tcp_process_state ::
  "'a tcp_state_scheme tcp_env \<Rightarrow> nat \<Rightarrow> 'a tcp_state_scheme \<Rightarrow> (err_t \<times> 'a tcp_state_scheme) option" where
  "tcp_process_state env pcb s =
     do {
       b \<leftarrow> tcp_mem s pcb;
       (case tp_state b of
          SYN_SENT \<Rightarrow> tcp_process_syn_sent env pcb s
        | SYN_RCVD \<Rightarrow> tcp_process_syn_rcvd env pcb s
        | CLOSED \<Rightarrow> Some (ERR_OK, s)
        | LISTEN \<Rightarrow> Some (ERR_OK, s)
        | TIME_WAIT \<Rightarrow> Some (ERR_OK, s)
        | state \<Rightarrow> do {
            s \<leftarrow> tcp_receive env pcb s;
            s \<leftarrow> tcp_process_received env pcb state s;
            Some (ERR_OK, s)
          })
     }"

definition tcp_process ::
  "'a tcp_state_scheme tcp_env \<Rightarrow> nat \<Rightarrow> 'a tcp_state_scheme \<Rightarrow> (err_t \<times> 'a tcp_state_scheme) option" where
  "tcp_process env pcb s =
     do {
       lwip_assert (pcb \<noteq> 0);
       if ti_flags s AND TCP_RST \<noteq> 0 then tcp_process_rst pcb s
       else do {
         b \<leftarrow> tcp_mem s pcb;
         if ti_flags s AND TCP_SYN \<noteq> 0 \<and> tp_state b \<noteq> SYN_SENT \<and> tp_state b \<noteq> SYN_RCVD
         then Some (ERR_OK, put_tcp pcb (tcp_ack_now b) s)
         else do {
           let b = (if tp_flags b AND TF_RXCLOSED = 0 then b\<lparr>tp_tmr := tcp_ticks s\<rparr> else b);
           let b = b\<lparr>tp_keep_cnt_sent := 0, tp_persist_probe := 0\<rparr>;
           s \<leftarrow> tcp_parseopt pcb (put_tcp pcb b s);
           tcp_process_state env pcb s
         }
       }
     }"

section \<open>Listening and TIME-WAIT\<close>

text \<open>The PCB of a new connection.\<close>

definition tcp_listen_init ::
  "tcp_pcb \<Rightarrow> nat \<Rightarrow> u16 \<Rightarrow> u16 \<Rightarrow> u32 \<Rightarrow> tcp_pcb \<Rightarrow> 'a tcp_state_scheme \<Rightarrow> tcp_pcb" where
  "tcp_listen_init l lpcb src dest iss n s =
     n\<lparr>tp_local_ip := tcp_cur_dest s, tp_remote_ip := tcp_cur_src s, tp_local_port := dest, tp_remote_port := src,
       tp_state := SYN_RCVD, tp_rcv_nxt := ti_seqno s + 1, tp_rcv_ann_right_edge := ti_seqno s + 1,
       tp_snd_wl2 := iss, tp_snd_nxt := iss, tp_lastack := iss, tp_snd_lbb := iss,
       tp_snd_wl1 := ti_seqno s - 1, tp_callback_arg := tp_callback_arg l, tp_listener := lpcb,
       tp_so_options := tp_so_options l AND SOF_INHERITED, tp_netif_idx := tp_netif_idx l\<rparr>"

definition tcp_listen_syn ::
  "'a tcp_state_scheme tcp_env \<Rightarrow> nat \<Rightarrow> nat \<Rightarrow> 'a tcp_state_scheme \<Rightarrow> 'a tcp_state_scheme option" where
  "tcp_listen_syn env lpcb npcb s =
     do {
       l \<leftarrow> tcp_mem s lpcb;
       n \<leftarrow> tcp_mem s npcb;
       src \<leftarrow> hdr16 (ip_heap s) (ti_tcphdr s) 0;
       dest \<leftarrow> hdr16 (ip_heap s) (ti_tcphdr s) 2;
       let (iss, s) = tcp_next_iss s;
       s \<leftarrow> TCP_REG_ACTIVE env npcb (put_tcp npcb (tcp_listen_init l lpcb src dest iss n s) s);
       s \<leftarrow> tcp_parseopt npcb s;
       wnd \<leftarrow> hdr16 (ip_heap s) (ti_tcphdr s) 14;
       s \<leftarrow> upd_tcp npcb (\<lambda>n. n\<lparr>tp_snd_wnd := wnd, tp_snd_wnd_max := wnd,
              tp_mss := tcp_eff_send_mss_netif env (tp_mss n)
                (ip_route (tp_local_ip n) (tp_remote_ip n) s) (tp_remote_ip n) s\<rparr>) s;
       (rc, s) \<leftarrow> tcp_enqueue_flags npcb (TCP_SYN OR TCP_ACK) s;
       if rc \<noteq> ERR_OK then tcp_abandon env npcb False s
       else do { (err, s) \<leftarrow> tcp_output env npcb s; Some s }
     }"

definition tcp_listen_input ::
  "'a tcp_state_scheme tcp_env \<Rightarrow> nat \<Rightarrow> 'a tcp_state_scheme \<Rightarrow> 'a tcp_state_scheme option" where
  "tcp_listen_input env lpcb s =
     (if ti_flags s AND TCP_RST \<noteq> 0 then Some s
      else do {
        lwip_assert (lpcb \<noteq> 0);
        if ti_flags s AND TCP_ACK \<noteq> 0 then tcp_rst_input env lpcb s
        else if ti_flags s AND TCP_SYN \<noteq> 0 then do {
          l \<leftarrow> tcp_mem s lpcb;
          (npcb, s) \<leftarrow> tcp_alloc env (tp_prio l) s;
          if npcb = 0 then do {
            l \<leftarrow> tcp_mem s lpcb;
            (err, s) \<leftarrow> TCP_EVENT_ACCEPT env lpcb 0 (tp_callback_arg l) ERR_MEM s;
            Some s
          } else tcp_listen_syn env lpcb npcb s
        } else Some s
      })"

definition tcp_timewait_input ::
  "'a tcp_state_scheme tcp_env \<Rightarrow> nat \<Rightarrow> 'a tcp_state_scheme \<Rightarrow> 'a tcp_state_scheme option" where
  "tcp_timewait_input env pcb s =
     (if ti_flags s AND TCP_RST \<noteq> 0 then Some s
      else do {
        lwip_assert (pcb \<noteq> 0);
        b \<leftarrow> tcp_mem s pcb;
        if ti_flags s AND TCP_SYN \<noteq> 0 \<and>
           TCP_SEQ_BETWEEN (ti_seqno s) (tp_rcv_nxt b) (tp_rcv_nxt b + ucast (tp_rcv_wnd b))
        then tcp_rst_input env pcb s
        else do {
          let s = (if ti_flags s AND TCP_SYN = 0 \<and> ti_flags s AND TCP_FIN \<noteq> 0
                   then put_tcp pcb (b\<lparr>tp_tmr := tcp_ticks s\<rparr>) s else s);
          if ti_tcplen s > 0 then do {
            s \<leftarrow> upd_tcp pcb tcp_ack_now s;
            (err, s) \<leftarrow> tcp_output env pcb s;
            Some s
          } else Some s
        }
      })"

section \<open>The header\<close>

text \<open>The options, in the first pbuf or in two; the result is false for a packet to be dropped.\<close>

definition tcp_input_options :: "nat \<Rightarrow> u8 \<Rightarrow> 'a tcp_state_scheme \<Rightarrow> (bool \<times> 'a tcp_state_scheme) option" where
  "tcp_input_options p hdrlen_bytes s =
     do {
       let optlen = (ucast hdrlen_bytes :: u16) - of_nat TCP_HLEN;
       let s = s\<lparr>ti_optlen := optlen, ti_opt2 := VNull\<rparr>;
       pb \<leftarrow> pbufs (ip_heap s) p;
       if pb_len pb \<ge> ucast hdrlen_bytes then do {
         (r, h) \<leftarrow> pbuf_remove_header (ip_heap s) p (unat hdrlen_bytes);
         Some (True, s\<lparr>ti_opt1len := optlen, ip_heap := h\<rparr>)
       } else do {
         lwip_assert (pb_next pb \<noteq> 0);
         (r, h) \<leftarrow> pbuf_remove_header (ip_heap s) p TCP_HLEN;
         pb \<leftarrow> pbufs h p;
         let opt1len = pb_len pb;
         let opt2len = optlen - opt1len;
         (r, h) \<leftarrow> pbuf_remove_header h p (unat opt1len);
         let s = s\<lparr>ti_opt1len := opt1len, ip_heap := h\<rparr>;
         nb \<leftarrow> pbufs h (pb_next pb);
         if opt2len > pb_len nb then Some (False, s)
         else do {
           (r, h) \<leftarrow> pbuf_remove_header h (pb_next pb) (unat opt2len);
           pb \<leftarrow> pbufs h p;
           let pb = pb\<lparr>pb_tot_len := pb_tot_len pb - opt2len\<rparr>;
           let h = put_pbuf h p pb;
           lwip_assert (pb_len pb = 0);
           nb' \<leftarrow> pbufs h (pb_next pb);
           lwip_assert (pb_tot_len pb = pb_tot_len nb');
           Some (True, s\<lparr>ti_opt2 := pb_payload nb, ip_heap := h\<rparr>)
         }
       }
     }"

text \<open>The fields are converted to host byte order in place; false when the length overflows.\<close>

definition tcp_input_fields :: "nat \<Rightarrow> 'a tcp_state_scheme \<Rightarrow> (bool \<times> 'a tcp_state_scheme) option" where
  "tcp_input_fields p s =
     do {
       let v = ti_tcphdr s;
       let h = ip_heap s;
       src \<leftarrow> hdr16 h v 0;
       h \<leftarrow> set_hdr16 h v 0 (lwip_htons src);
       dest \<leftarrow> hdr16 h v 2;
       h \<leftarrow> set_hdr16 h v 2 (lwip_htons dest);
       seqno \<leftarrow> hdr32 h v 4;
       h \<leftarrow> set_hdr32 h v 4 (lwip_htonl seqno);
       ackno \<leftarrow> hdr32 h v 8;
       h \<leftarrow> set_hdr32 h v 8 (lwip_htonl ackno);
       wnd \<leftarrow> hdr16 h v 14;
       h \<leftarrow> set_hdr16 h v 14 (lwip_htons wnd);
       flags \<leftarrow> TCPH_FLAGS h v;
       pb \<leftarrow> pbufs h p;
       let tcplen = (if flags AND (TCP_FIN OR TCP_SYN) \<noteq> 0 then pb_tot_len pb + 1 else pb_tot_len pb);
       Some (\<not> tcplen < pb_tot_len pb, s\<lparr>ip_heap := h, ti_seqno := lwip_htonl seqno, ti_ackno := lwip_htonl ackno,
         ti_flags := flags, ti_tcplen := tcplen\<rparr>)
     }"

section \<open>The choice of the PCB\<close>

text \<open>The PCB is not bound to another interface than the one the segment came through.\<close>

definition tcp_netif_match :: "tcp_pcb \<Rightarrow> 'a tcp_state_scheme \<Rightarrow> bool option" where
  "tcp_netif_match b s =
     (if tp_netif_idx b \<noteq> NETIF_NO_INDEX then do {
        n \<leftarrow> current_input_netif (ip_data s);
        Some (tp_netif_idx b = netif_get_index n)
      } else Some True)"

definition tcp_conn_match :: "tcp_pcb \<Rightarrow> u16 \<Rightarrow> u16 \<Rightarrow> 'a tcp_state_scheme \<Rightarrow> bool" where
  "tcp_conn_match b src dest s =
     (tp_remote_port b = src \<and> tp_local_port b = dest \<and> ip_addr_cmp (tp_remote_ip b) (tcp_cur_src s) \<and>
      ip_addr_cmp (tp_local_ip b) (tcp_cur_dest s))"

text \<open>The active PCBs; the one that matches moves to the front of the list.\<close>

partial_function (option) tcp_input_active ::
  "u16 \<Rightarrow> u16 \<Rightarrow> nat \<Rightarrow> nat \<Rightarrow> 'a tcp_state_scheme \<Rightarrow> (nat \<times> 'a tcp_state_scheme) option" where
  "tcp_input_active src dest prev pcb s =
     (if pcb = 0 then Some (0, s)
      else do {
        b \<leftarrow> tcp_mem s pcb;
        lwip_assert (tcp_active_state (tp_state b));
        ok \<leftarrow> tcp_netif_match b s;
        if ok \<and> tcp_conn_match b src dest s then do {
          lwip_assert (tp_next b \<noteq> pcb);
          s \<leftarrow> (if prev \<noteq> 0 then do {
                  s \<leftarrow> upd_tcp prev (\<lambda>p. p\<lparr>tp_next := tp_next b\<rparr>) s;
                  s \<leftarrow> upd_tcp pcb (\<lambda>b. b\<lparr>tp_next := tcp_active_pcbs s\<rparr>) s;
                  Some (s\<lparr>tcp_active_pcbs := pcb\<rparr>)
                } else Some s);
          b \<leftarrow> tcp_mem s pcb;
          lwip_assert (tp_next b \<noteq> pcb);
          Some (pcb, s)
        } else tcp_input_active src dest pcb (tp_next b) s
      })"

partial_function (option) tcp_input_tw :: "u16 \<Rightarrow> u16 \<Rightarrow> nat \<Rightarrow> 'a tcp_state_scheme \<Rightarrow> nat option" where
  "tcp_input_tw src dest pcb s =
     (if pcb = 0 then Some 0
      else do {
        b \<leftarrow> tcp_mem s pcb;
        lwip_assert (tp_state b = TIME_WAIT);
        ok \<leftarrow> tcp_netif_match b s;
        if ok \<and> tcp_conn_match b src dest s then Some pcb else tcp_input_tw src dest (tp_next b) s
      })"

text \<open>The listening PCBs, with \<^verbatim>\<open>TUN2SOCKS\<close> as the first argument: the PCB and the one before it.\<close>

definition tcp_listen_match :: "tcp_pcb \<Rightarrow> u16 \<Rightarrow> 'a tcp_state_scheme \<Rightarrow> bool" where
  "tcp_listen_match l dest s =
     (tp_local_port l = dest \<and>
      (IP_IS_ANY_TYPE_VAL (tp_local_ip l) \<or>
       (ip_type (tp_local_ip l) = ip_type (tcp_cur_dest s) \<and>
        (ip_addr_cmp (tp_local_ip l) (tcp_cur_dest s) \<or> ip_addr_isany (tp_local_ip l)))))"

partial_function (option) tcp_input_listen ::
  "bool \<Rightarrow> u16 \<Rightarrow> nat \<Rightarrow> nat \<Rightarrow> 'a tcp_state_scheme \<Rightarrow> (nat \<times> nat) option" where
  "tcp_input_listen tun2socks dest prev lpcb s =
     (if lpcb = 0 then Some (0, prev)
      else if tun2socks then Some (lpcb, prev)
      else do {
        l \<leftarrow> tcp_mem s lpcb;
        ok \<leftarrow> tcp_netif_match l s;
        if ok \<and> tcp_listen_match l dest s then Some (lpcb, prev)
        else tcp_input_listen tun2socks dest lpcb (tp_next l) s
      })"

definition tcp_listen_to_front :: "nat \<Rightarrow> nat \<Rightarrow> 'a tcp_state_scheme \<Rightarrow> 'a tcp_state_scheme option" where
  "tcp_listen_to_front lpcb prev s =
     (if prev \<noteq> 0 then do {
        l \<leftarrow> tcp_mem s lpcb;
        s \<leftarrow> upd_tcp prev (\<lambda>p. p\<lparr>tp_next := tp_next l\<rparr>) s;
        s \<leftarrow> upd_tcp lpcb (\<lambda>l. l\<lparr>tp_next := tcp_listen_pcbs s\<rparr>) s;
        Some (s\<lparr>tcp_listen_pcbs := lpcb\<rparr>)
      } else Some s)"

section \<open>A segment of a connection\<close>

definition tcp_input_delayed_close ::
  "'a tcp_state_scheme tcp_env \<Rightarrow> nat \<Rightarrow> 'a tcp_state_scheme \<Rightarrow> (bool \<times> 'a tcp_state_scheme) option" where
  "tcp_input_delayed_close env pcb s =
     do {
       lwip_assert (pcb \<noteq> 0);
       if ti_recv_flags s AND TF_CLOSED \<noteq> 0 then do {
         b \<leftarrow> tcp_mem s pcb;
         s \<leftarrow> (if \<not> tcp_is_flag_set b TF_RXCLOSED
               then TCP_EVENT_ERR env (tp_errf b) (tp_callback_arg b) ERR_CLSD s else Some s);
         s \<leftarrow> tcp_pcb_remove env L_active pcb s;
         s \<leftarrow> tcp_free pcb s;
         Some (True, s)
       } else Some (False, s)
     }"

text \<open>
  The parts of the delivery to the application. Each result says whether \<^verbatim>\<open>goto aborted\<close> has
  been reached: the PCB may be gone.
\<close>

definition tcp_input_refused ::
  "'a tcp_state_scheme tcp_env \<Rightarrow> nat \<Rightarrow> 'a tcp_state_scheme \<Rightarrow> (bool \<times> 'a tcp_state_scheme) option" where
  "tcp_input_refused env pcb s =
     do {
       b \<leftarrow> tcp_mem s pcb;
       if tp_refused_data b \<noteq> 0 then do {
         (err, s) \<leftarrow> tcp_process_refused_data env pcb s;
         drop \<leftarrow> (if err = ERR_ABRT then Some True
                  else do { b \<leftarrow> tcp_mem s pcb; Some (tp_refused_data b \<noteq> 0 \<and> ti_tcplen s > 0) });
         if drop then do {
           b \<leftarrow> tcp_mem s pcb;
           s \<leftarrow> (if tp_rcv_ann_wnd b = 0 then do { (err, s) \<leftarrow> tcp_send_empty_ack env pcb s; Some s } else Some s);
           Some (True, s)
         } else Some (False, s)
       } else Some (False, s)
     }"

definition tcp_input_sent ::
  "'a tcp_state_scheme tcp_env \<Rightarrow> nat \<Rightarrow> 'a tcp_state_scheme \<Rightarrow> (bool \<times> 'a tcp_state_scheme) option" where
  "tcp_input_sent env pcb s =
     (if ti_recv_acked s > 0 then do {
        (err, s) \<leftarrow> TCP_EVENT_SENT env pcb (ti_recv_acked s) s;
        if err = ERR_ABRT then Some (True, s) else Some (False, s\<lparr>ti_recv_acked := 0\<rparr>)
      } else Some (False, s))"

definition tcp_input_data ::
  "'a tcp_state_scheme tcp_env \<Rightarrow> nat \<Rightarrow> 'a tcp_state_scheme \<Rightarrow> (bool \<times> 'a tcp_state_scheme) option" where
  "tcp_input_data env pcb s =
     (if ti_recv_data s \<noteq> 0 then do {
        b \<leftarrow> tcp_mem s pcb;
        lwip_assert (tp_refused_data b = 0);
        if tcp_is_flag_set b TF_RXCLOSED then do {
          s \<leftarrow> tcp_free_pbuf (ti_recv_data s) s;
          s \<leftarrow> tcp_abort env pcb s;
          Some (True, s)
        } else do {
          let recv_data = ti_recv_data s;
          (err, s) \<leftarrow> TCP_EVENT_RECV env pcb recv_data ERR_OK s;
          if err = ERR_ABRT then Some (True, s)
          else if err \<noteq> ERR_OK then do {
            s \<leftarrow> upd_tcp pcb (\<lambda>b. b\<lparr>tp_refused_data := ti_recv_data s\<rparr>) s;
            Some (False, s)
          } else Some (False, s)
        }
      } else Some (False, s))"

definition tcp_input_fin ::
  "'a tcp_state_scheme tcp_env \<Rightarrow> nat \<Rightarrow> 'a tcp_state_scheme \<Rightarrow> (bool \<times> 'a tcp_state_scheme) option" where
  "tcp_input_fin env pcb s =
     (if ti_recv_flags s AND TF_GOT_FIN \<noteq> 0 then do {
        b \<leftarrow> tcp_mem s pcb;
        if tp_refused_data b \<noteq> 0 then do {
          rb \<leftarrow> pbufs (ip_heap s) (tp_refused_data b);
          Some (False, s\<lparr>ip_heap := put_pbuf (ip_heap s) (tp_refused_data b)
            (rb\<lparr>pb_flags := pb_flags rb OR PBUF_FLAG_TCP_FIN\<rparr>)\<rparr>)
        } else do {
          (err, s) \<leftarrow> TCP_EVENT_CLOSED env pcb (put_tcp pcb (tcp_fin_rcv_wnd b) s);
          Some (err = ERR_ABRT, s)
        }
      } else Some (False, s))"

definition tcp_input_finish ::
  "'a tcp_state_scheme tcp_env \<Rightarrow> nat \<Rightarrow> 'a tcp_state_scheme \<Rightarrow> (bool \<times> 'a tcp_state_scheme) option" where
  "tcp_input_finish env pcb s =
     do {
       (closed, s) \<leftarrow> tcp_input_delayed_close env pcb (s\<lparr>tcp_input_pcb := 0\<rparr>);
       if closed then Some (True, s)
       else do { (err, s) \<leftarrow> tcp_output env pcb s; Some (False, s) }
     }"

text \<open>The steps in order, until one has reached \<^verbatim>\<open>aborted\<close>.\<close>

fun until_aborted :: "('s \<Rightarrow> (bool \<times> 's) option) list \<Rightarrow> 's \<Rightarrow> 's option" where
  "until_aborted [] s = Some s"
| "until_aborted (f # fs) s = do { (aborted, s) \<leftarrow> f s; if aborted then Some s else until_aborted fs s }"

definition tcp_input_reset ::
  "'a tcp_state_scheme tcp_env \<Rightarrow> nat \<Rightarrow> 'a tcp_state_scheme \<Rightarrow> 'a tcp_state_scheme option" where
  "tcp_input_reset env pcb s =
     do {
       b \<leftarrow> tcp_mem s pcb;
       s \<leftarrow> TCP_EVENT_ERR env (tp_errf b) (tp_callback_arg b) ERR_RST s;
       s \<leftarrow> tcp_pcb_remove env L_active pcb s;
       tcp_free pcb s
     }"

definition tcp_input_processed ::
  "'a tcp_state_scheme tcp_env \<Rightarrow> nat \<Rightarrow> 'a tcp_state_scheme \<Rightarrow> 'a tcp_state_scheme option" where
  "tcp_input_processed env pcb s =
     (if ti_recv_flags s AND TF_RESET \<noteq> 0 then tcp_input_reset env pcb s
      else until_aborted [tcp_input_sent env pcb, tcp_input_delayed_close env pcb, tcp_input_data env pcb,
             tcp_input_fin env pcb, tcp_input_finish env pcb] s)"

definition tcp_input_conn ::
  "'a tcp_state_scheme tcp_env \<Rightarrow> nat \<Rightarrow> nat \<Rightarrow> 'a tcp_state_scheme \<Rightarrow> 'a tcp_state_scheme option" where
  "tcp_input_conn env p pcb s =
     do {
       pb \<leftarrow> pbufs (ip_heap s) p;
       let s = s\<lparr>ti_inseg := (ti_inseg s)\<lparr>sg_len := pb_tot_len pb, sg_p := p, sg_tcphdr := ti_tcphdr s\<rparr>,
         ti_recv_data := 0, ti_recv_flags := 0, ti_recv_acked := 0\<rparr>;
       let s = (if ti_flags s AND TCP_PSH \<noteq> 0
         then s\<lparr>ip_heap := put_pbuf (ip_heap s) p (pb\<lparr>pb_flags := pb_flags pb OR PBUF_FLAG_PUSH\<rparr>)\<rparr> else s);
       (aborted, s) \<leftarrow> tcp_input_refused env pcb s;
       s \<leftarrow> (if aborted then Some s
             else do {
               (err, s) \<leftarrow> tcp_process env pcb (s\<lparr>tcp_input_pcb := pcb\<rparr>);
               if err \<noteq> ERR_ABRT then tcp_input_processed env pcb s else Some s
             });
       let s = s\<lparr>tcp_input_pcb := 0, ti_recv_data := 0\<rparr>;
       if sg_p (ti_inseg s) \<noteq> 0 then do {
         s \<leftarrow> tcp_free_pbuf (sg_p (ti_inseg s)) s;
         Some (s\<lparr>ti_inseg := (ti_inseg s)\<lparr>sg_p := 0\<rparr>\<rparr>)
       } else Some s
     }"

section \<open>Input\<close>

text \<open>The segment, once its header has been checked, goes to a PCB or is answered with a reset.\<close>

definition tcp_input_demux ::
  "'a tcp_state_scheme tcp_env \<Rightarrow> nat \<Rightarrow> 'a tcp_state_scheme \<Rightarrow> 'a tcp_state_scheme option" where
  "tcp_input_demux env p s =
     do {
       src \<leftarrow> hdr16 (ip_heap s) (ti_tcphdr s) 0;
       dest \<leftarrow> hdr16 (ip_heap s) (ti_tcphdr s) 2;
       (pcb, s) \<leftarrow> tcp_input_active src dest 0 (tcp_active_pcbs s) s;
       if pcb \<noteq> 0 then do {
         s \<leftarrow> tcp_input_conn env p pcb s;
         sane \<leftarrow> tcp_pcbs_sane s;
         Some s
       } else do {
         pcb \<leftarrow> tcp_input_tw src dest (tcp_tw_pcbs s) s;
         if pcb \<noteq> 0 then do { s \<leftarrow> tcp_timewait_input env pcb s; tcp_free_pbuf p s }
         else do {
           (lpcb, prev) \<leftarrow> tcp_input_listen TUN2SOCKS dest 0 (tcp_listen_pcbs s) s;
           if lpcb \<noteq> 0 then do {
             s \<leftarrow> tcp_listen_to_front lpcb prev s;
             s \<leftarrow> tcp_listen_input env lpcb s;
             tcp_free_pbuf p s
           } else do {
             fl \<leftarrow> TCPH_FLAGS (ip_heap s) (ti_tcphdr s);
             s \<leftarrow> (if fl AND TCP_RST = 0 then tcp_rst_input env 0 s else Some s);
             s \<leftarrow> tcp_free_pbuf p s;
             sane \<leftarrow> tcp_pcbs_sane s;
             Some s
           }
         }
       }
     }"

text \<open>\<^verbatim>\<open>tcp_debug_print\<close>, which is compiled in, reads the flags before any check.\<close>

definition tcp_input ::
  "'a tcp_state_scheme tcp_env \<Rightarrow> nat \<Rightarrow> netif \<Rightarrow> 'a tcp_state_scheme \<Rightarrow> 'a tcp_state_scheme option" where
  "tcp_input env p inp s =
     do {
       lwip_assert (p \<noteq> 0);
       pb \<leftarrow> pbufs (ip_heap s) p;
       let s = s\<lparr>ti_tcphdr := pb_payload pb\<rparr>;
       debug_flags \<leftarrow> TCPH_FLAGS (ip_heap s) (ti_tcphdr s);
       if unat (pb_len pb) < TCP_HLEN then tcp_free_pbuf p s
       else do {
         broadcast \<leftarrow> (if IP_IS_V6 (tcp_cur_dest s) then Some False
           else do { n \<leftarrow> current_netif (ip_data s); Some (ip_addr_isbroadcast (tcp_cur_dest s) n) });
         if broadcast \<or> ip_addr_ismulticast (tcp_cur_dest s) then tcp_free_pbuf p s
         else do {
           hdrlen_bytes \<leftarrow> TCPH_HDRLEN_BYTES (ip_heap s) (ti_tcphdr s);
           if unat hdrlen_bytes < TCP_HLEN \<or> ucast hdrlen_bytes > pb_tot_len pb then tcp_free_pbuf p s
           else do {
             (ok, s) \<leftarrow> tcp_input_options p hdrlen_bytes s;
             if \<not> ok then tcp_free_pbuf p s
             else do {
               (ok, s) \<leftarrow> tcp_input_fields p s;
               if \<not> ok then tcp_free_pbuf p s else tcp_input_demux env p s
             }
           }
         }
       }
     }"

end
