(* ===== verification/Lwip_Tcp_Demo.thy ===== *)
theory Lwip_Tcp_Demo
  imports Lwip_Tcp_In Lwip_Tcp_Tmr Lwip_Udp_Props
begin

text \<open>
  A small host on which the properties of TCP are instantiated: one interface, one established
  connection (the PCB 5, from 10.0.0.1:1024 to 10.0.0.2:80), and one pbuf (the pbuf 1) with a TCP
  header and three bytes of data. The witnesses change what they need.
\<close>

definition demo_ip4 :: "u32 \<Rightarrow> ip_addr_t" where
  "demo_ip4 a = \<lparr>u_addr = \<lparr>ip6_a0 = a, ip6_a1 = 0, ip6_a2 = 0, ip6_a3 = 0, ip6_zone = 0\<rparr>, ip_type = IPADDR_TYPE_V4\<rparr>"

definition demo_conn :: tcp_pcb where
  "demo_conn = tcp_pcb_zero\<lparr>tp_local_ip := demo_ip4 0x0200000a, tp_remote_ip := demo_ip4 0x0100000a,
     tp_ttl := 64, tp_state := ESTABLISHED, tp_prio := 64, tp_local_port := 80, tp_remote_port := 1024,
     tp_rcv_nxt := 1000, tp_rcv_wnd := TCP_WND, tp_rcv_ann_wnd := TCP_WND, tp_rcv_ann_right_edge := 33768,
     tp_rtime := - 1, tp_mss := 1460, tp_sv := 6, tp_rto := 6, tp_lastack := 5000, tp_cwnd := 4380,
     tp_ssthresh := TCP_SND_BUF, tp_snd_nxt := 5000, tp_snd_wl1 := 1000, tp_snd_wl2 := 5000, tp_snd_lbb := 5000,
     tp_snd_wnd := 8192, tp_snd_wnd_max := 8192, tp_snd_buf := TCP_SND_BUF, tp_recv := FnUser 1, tp_sent := FnUser 2,
     tp_errf := FnUser 3, tp_keep_idle := TCP_KEEPIDLE_DEFAULT\<rparr>"

text \<open>In host byte order, as \<^verbatim>\<open>tcp_input\<close> leaves it: ports, numbers, length and flags, window.\<close>

definition demo_tcphdr :: "u8 list" where
  "demo_tcphdr = [0, 4, 80, 0, 0xe8, 3, 0, 0, 0x88, 0x13, 0, 0, 0x50, 0x18, 0, 0x20, 0, 0, 0, 0]"

definition demo_seg_pbuf :: pbuf where
  "demo_seg_pbuf = \<lparr>pb_next = 0, pb_payload = VPtr 1 44, pb_tot_len = 3, pb_len = 3,
     pb_type_internal = 0x80, pb_flags = 0, pb_ref = 1, pb_if_idx = 0, pb_custom = None\<rparr>"

definition demo_tcp_heap :: heap where
  "demo_tcp_heap = \<lparr>pbufs = [1 \<mapsto> demo_seg_pbuf], blocks = [1 \<mapsto> replicate 24 0 @ demo_tcphdr @ [7, 8, 9]],
     nxt_addr = 4, malloc_ok = (\<lambda>a. True), junk = (\<lambda>a i. 0), base_addr = (\<lambda>a. 0), ooseq_pending = False\<rparr>"

definition demo_inseg :: tcp_seg where
  "demo_inseg = \<lparr>sg_p = 1, sg_len = 3, sg_oversize_left = 0, sg_chksum = 0, sg_chksum_swapped = 0, sg_flags = 0,
     sg_tcphdr = VPtr 1 24\<rparr>"

definition demo_tcp :: tcp_state where
  "demo_tcp = \<lparr>ip_heap = demo_tcp_heap, netif_list = [demo_netif], ip_id = 0, ip6_identification = 0,
     ip_data = \<lparr>current_netif = Some demo_netif, current_input_netif = Some demo_netif, current_ip4_header = VNull,
       current_ip6_header = VNull, current_ip_header_tot_len = 20, current_iphdr_src = demo_ip4 0x0100000a,
       current_iphdr_dest = demo_ip4 0x0200000a\<rparr>,
     udp_mem = (\<lambda>_. None), udp_pcbs = 0, udp_port = 0xc000, udp_nxt = 1, udp_malloc_ok = (\<lambda>_. True),
     rd_mem = (\<lambda>_. None), reassdatagrams = 0, ip_reass_pbufcount = 0, rd_nxt = 1, rd_malloc_ok = (\<lambda>_. True),
     tcp_mem = [5 \<mapsto> demo_conn], tcp_nxt = 10, tcp_malloc_ok = (\<lambda>_. True), tcp_bound_pcbs = 0,
     tcp_listen_pcbs = 0, tcp_active_pcbs = 5, tcp_tw_pcbs = 0, tcp_active_pcbs_changed = False,
     tcp_port = 0xc000, tcp_ticks = 7, tcp_timer = 0, tcp_timer_ctr = 0, tcp_iss = 6510, tcp_input_pcb = 0,
     ti_inseg = demo_inseg, ti_tcphdr = VPtr 1 24, ti_optlen = 0, ti_opt1len = 0, ti_opt2 = VNull, ti_optidx = 0,
     ti_seqno = 1000, ti_ackno = 5000, ti_recv_acked = 0, ti_tcplen = 3, ti_flags = 0x18, ti_recv_flags = 0,
     ti_recv_data = 0\<rparr>"

definition demo_tcp_env :: "'s tcp_env" where
  "demo_tcp_env = \<lparr>te_ip = demo_env, te_timer_needed = Some, te_nd6_mtu = (\<lambda>_ _ _. 0), te_nd6_hint = (\<lambda>_ s. s),
     te_output6 = (\<lambda>_ _ _ _ _ _ _ s. Some (ERR_OK, s)), te_select_src6 = (\<lambda>_ _ _. None),
     te_accept = (\<lambda>_ _ _ _ s. Some (ERR_OK, s)), te_recv = (\<lambda>_ _ _ _ _ s. Some (ERR_OK, s)),
     te_sent = (\<lambda>_ _ _ _ s. Some (ERR_OK, s)), te_connected = (\<lambda>_ _ _ _ s. Some (ERR_OK, s)),
     te_poll = (\<lambda>_ _ _ s. Some (ERR_OK, s)), te_err = (\<lambda>_ _ _. Some)\<rparr>"

lemmas demo_tcp_defs = demo_tcp_def demo_conn_def tcp_pcb_zero_def demo_inseg_def demo_tcp_heap_def
  demo_seg_pbuf_def demo_tcphdr_def

lemmas demo_tcp_consts = TCP_WND_def TCP_MSS_def TCP_FIN_def TCP_SYN_def TCP_RST_def TCP_PSH_def TCP_ACK_def
  TCP_HLEN_def TCP_FLAGS_def

end
