(* ===== verification/Lwip_Tcp_Opt.thy ===== *)
theory Lwip_Tcp_Opt
  imports Lwip_Tcp_Demo
begin

text \<open>
  TCP options (\<^verbatim>\<open>tcp_parseopt\<close>): the loop ends and stays in the options for any contents, and
  finds what an encoder has written. The options may lie in one pbuf or in two.
\<close>

section \<open>The bytes of the options\<close>

definition opt_byte :: "'a tcp_state_scheme \<Rightarrow> nat \<Rightarrow> u8 option" where
  "opt_byte s i =
     map_option hd (if ti_opt2 s = VNull \<or> i < unat (ti_opt1len s)
       then mem_read (ip_heap s) (ti_tcphdr s) (TCP_HLEN + i) 1
       else mem_read (ip_heap s) (ti_opt2 s) ((i - unat (ti_opt1len s)) mod 256) 1)"

lemma opt_byte_cong [simp]:
  "opt_byte (s\<lparr>ti_optidx := i\<rparr>) = opt_byte s" "opt_byte (s\<lparr>tcp_mem := m\<rparr>) = opt_byte s"
  by (simp_all add: opt_byte_def fun_eq_iff)

lemma next_optbyte:
  assumes "opt_byte s (unat (ti_optidx s)) = Some x"
  shows "tcp_get_next_optbyte s = Some (x, s\<lparr>ti_optidx := ti_optidx s + 1\<rparr>)"
proof (cases "ti_opt2 s = VNull \<or> ti_optidx s < ti_opt1len s")
  case True
  then show ?thesis using assms by (auto simp: tcp_get_next_optbyte_def opt_byte_def word_less_nat_alt)
next
  case False
  then have "unat (ucast (ti_optidx s - ti_opt1len s) :: u8) = (unat (ti_optidx s) - unat (ti_opt1len s)) mod 256"
    by (simp add: unat_ucast_16_8 unat_sub_u16 not_less)
  then show ?thesis using False assms
    by (auto simp: tcp_get_next_optbyte_def opt_byte_def word_less_nat_alt)
qed

lemma next_optbyte_None:
  assumes "opt_byte s (unat (ti_optidx s)) = None"
  shows "tcp_get_next_optbyte s = None"
proof (cases "ti_opt2 s = VNull \<or> ti_optidx s < ti_opt1len s")
  case True
  then show ?thesis using assms by (auto simp: tcp_get_next_optbyte_def opt_byte_def word_less_nat_alt)
next
  case False
  then have "unat (ucast (ti_optidx s - ti_opt1len s) :: u8) = (unat (ti_optidx s) - unat (ti_opt1len s)) mod 256"
    by (simp add: unat_ucast_16_8 unat_sub_u16 not_less)
  then show ?thesis using False assms
    by (auto simp: tcp_get_next_optbyte_def opt_byte_def word_less_nat_alt)
qed

section \<open>The loop\<close>

text \<open>The state with another segment size and another position in the options.\<close>

definition put_mss :: "nat \<Rightarrow> tcp_pcb \<Rightarrow> u16 \<Rightarrow> u16 \<Rightarrow> 'a tcp_state_scheme \<Rightarrow> 'a tcp_state_scheme" where
  "put_mss pcb b m i s = s\<lparr>tcp_mem := (tcp_mem s)(pcb \<mapsto> b\<lparr>tp_mss := m\<rparr>), ti_optidx := i\<rparr>"

lemma put_mss_simps [simp]:
  "ti_optidx (put_mss pcb b m i s) = i" "ti_optlen (put_mss pcb b m i s) = ti_optlen s"
  "opt_byte (put_mss pcb b m i s) = opt_byte s" "(put_mss pcb b m i s)\<lparr>ti_optidx := j\<rparr> = put_mss pcb b m j s"
  "upd_tcp pcb (\<lambda>b. b\<lparr>tp_mss := m'\<rparr>) (put_mss pcb b m i s) = Some (put_mss pcb b m' i s)"
  by (simp_all add: put_mss_def opt_byte_def fun_eq_iff upd_tcp_def put_tcp_def)

lemma put_mss_id: "tcp_mem s pcb = Some b \<Longrightarrow> s\<lparr>ti_optidx := i\<rparr> = put_mss pcb b (tp_mss b) i s"
  by (simp add: put_mss_def fun_upd_idem)

lemma unat_idx: "unat (i :: u16) + n < 65536 \<Longrightarrow> unat (i + of_nat n) = unat i + n"
  by (simp add: unat_add_u16_small unat_of_nat_u16)

text \<open>One turn of the loop for each kind of option.\<close>

lemma parseopt_end: "\<not> ti_optidx s < ti_optlen s \<Longrightarrow> tcp_parseopt_loop pcb s = Some s"
  by (subst tcp_parseopt_loop.simps) simp

lemma parseopt_kind:
  assumes "ti_optidx s < ti_optlen s" "opt_byte s (unat (ti_optidx s)) = Some x"
  shows "tcp_parseopt_loop pcb s =
     (let s = s\<lparr>ti_optidx := ti_optidx s + 1\<rparr> in
      if x = 0 then Some s
      else if x = 1 then tcp_parseopt_loop pcb s
      else if x = 2 then do {
          (len, s) \<leftarrow> tcp_get_next_optbyte s;
          if len \<noteq> 4 \<or> int (unat (ti_optidx s)) - 2 + 4 > int (unat (ti_optlen s)) then Some s
          else do {
            (b0, s) \<leftarrow> tcp_get_next_optbyte s;
            (b1, s) \<leftarrow> tcp_get_next_optbyte s;
            s \<leftarrow> upd_tcp pcb (\<lambda>b. b\<lparr>tp_mss := tcp_opt_mss b0 b1\<rparr>) s;
            tcp_parseopt_loop pcb s
          }
        } else do {
          (data, s) \<leftarrow> tcp_get_next_optbyte s;
          if data < 2 then Some s
          else tcp_parseopt_loop pcb (s\<lparr>ti_optidx := ti_optidx s + ucast (data - 2)\<rparr>)
        })"
  using assms next_optbyte [of s x]
  by (subst tcp_parseopt_loop.simps) (simp add: Let_def cong: if_cong)

lemma tcp_opt_mss_bounds: "1 \<le> tcp_opt_mss b0 b1 \<and> tcp_opt_mss b0 b1 \<le> TCP_MSS"
  by (auto simp: tcp_opt_mss_def Let_def TCP_MSS_def not_less word_le_nat_alt Suc_le_eq unat_gt_0)

text \<open>
  The loop over any bytes: it ends, having read no further than the byte behind the options, and
  the segment size is a legal one.
\<close>

lemma parseopt_loop_any:
  assumes "unat (ti_optlen s) \<le> 40" "\<forall>i \<le> unat (ti_optlen s). opt_byte s i \<noteq> None" "unat i \<le> 400"
  shows "\<exists>m j. tcp_parseopt_loop pcb (put_mss pcb b m0 i s) = Some (put_mss pcb b m j s) \<and>
    (m = m0 \<or> (1 \<le> m \<and> m \<le> TCP_MSS))"
  using assms(3)
proof (induction "40 - unat i" arbitrary: i m0 rule: less_induct)
  case less
  let ?s = "put_mss pcb b m0 i s"
  show ?case
  proof (cases "i < ti_optlen s")
    case False
    then show ?thesis by (auto simp: parseopt_end)
  next
    case True
    then have i: "unat i < unat (ti_optlen s)" by (simp add: word_less_nat_alt)
    then obtain x where x: "opt_byte s (unat i) = Some x" using assms(2) by (meson less_imp_le not_None_eq)
    have i1: "unat (i + 1) = unat i + 1" using unat_idx [of i 1] i assms(1) by simp
    then obtain y where y: "opt_byte s (unat (i + 1)) = Some y" using assms(2) i by fastforce
    have n1: "tcp_get_next_optbyte (put_mss pcb b m (i + 1) s) = Some (y, put_mss pcb b m (i + 1 + 1) s)" for m
      using next_optbyte [of "put_mss pcb b m (i + 1) s" y] y by simp
    have i2: "unat (i + 1 + 1) = unat i + 2" using unat_idx [of "i + 1" 1] i1 i assms(1) by simp
    note step = parseopt_kind [of ?s x pcb]
    have rec: "\<exists>m j. tcp_parseopt_loop pcb (put_mss pcb b m' k s) = Some (put_mss pcb b m j s) \<and>
        (m = m' \<or> (1 \<le> m \<and> m \<le> TCP_MSS))" if "unat i < unat k" "unat k \<le> 400" for m' k
      using less.hyps [of k m'] that i assms(1) by simp
    consider "x = 0" | "x = 1" | "x = 2" | "x \<noteq> 0" "x \<noteq> 1" "x \<noteq> 2" by blast
    then show ?thesis
    proof cases
      case 1
      then show ?thesis using step True x by (auto simp: Let_def)
    next
      case 2
      then show ?thesis using step True x rec [of "i + 1" m0] i1 i assms(1) by (simp add: Let_def)
    next
      case 3
      show ?thesis
      proof (cases "y \<noteq> 4 \<or> int (unat (i + 1 + 1)) - 2 + 4 > int (unat (ti_optlen s))")
        case True
        then show ?thesis using step \<open>i < ti_optlen s\<close> x 3 by (auto simp: Let_def n1)
      next
        case False
        then have le: "unat i + 4 \<le> unat (ti_optlen s)" using i2 by linarith
        have i3: "unat (i + 1 + 1 + 1) = unat i + 3" "unat (i + 1 + 1 + 1 + 1) = unat i + 4"
          using unat_idx [of "i + 1 + 1" 1] unat_idx [of "i + 1 + 1 + 1" 1] i2 i assms(1) by simp_all
        obtain b0 b1 where "opt_byte s (unat (i + 1 + 1)) = Some b0" "opt_byte s (unat (i + 1 + 1 + 1)) = Some b1"
          using assms(2) le i2 i3 by fastforce
        then have n: "tcp_get_next_optbyte (put_mss pcb b m0 (i + 1 + 1) s) = Some (b0, put_mss pcb b m0 (i + 1 + 1 + 1) s)"
          "tcp_get_next_optbyte (put_mss pcb b m0 (i + 1 + 1 + 1) s) = Some (b1, put_mss pcb b m0 (i + 1 + 1 + 1 + 1) s)"
          using next_optbyte [of "put_mss pcb b m0 (i + 1 + 1) s" b0]
            next_optbyte [of "put_mss pcb b m0 (i + 1 + 1 + 1) s" b1] by simp_all
        have "tcp_parseopt_loop pcb ?s =
            tcp_parseopt_loop pcb (put_mss pcb b (tcp_opt_mss b0 b1) (i + 1 + 1 + 1 + 1) s)"
          using step \<open>i < ti_optlen s\<close> x 3 False by (simp add: Let_def n1 n [simplified])
        then show ?thesis using rec [of "i + 1 + 1 + 1 + 1" "tcp_opt_mss b0 b1"] i3 i assms(1)
          tcp_opt_mss_bounds [of b0 b1] by auto
      qed
    next
      case 4
      show ?thesis
      proof (cases "y < 2")
        case True
        then show ?thesis using step \<open>i < ti_optlen s\<close> x 4 by (auto simp: Let_def n1)
      next
        case False
        have "unat (i + 1 + 1) + unat (ucast (y - 2) :: u16) < 65536"
          using i2 i assms(1) unat_u8_less [of "y - 2"] unat_ucast_8_16 [of "y - 2"] by linarith
        then have k: "unat (i + 1 + 1 + ucast (y - 2)) = unat i + 2 + unat (y - 2)"
          using i2 by (subst unat_add_u16_small) simp_all
        have "unat (i + 1 + 1 + ucast (y - 2)) \<le> 400" using k i assms(1) unat_u8_less [of "y - 2"] by linarith
        then show ?thesis using step \<open>i < ti_optlen s\<close> x 4 False k rec [of "i + 1 + 1 + ucast (y - 2)" m0]
          by (simp add: Let_def n1)
      qed
    qed
  qed
qed


section \<open>What an encoder has written\<close>

datatype tcp_option = Opt_nop | Opt_mss u16 | Opt_other u8 "u8 list"

text \<open>The bytes of an option; the kind and the length of the others are the sender's.\<close>

fun encode_option :: "tcp_option \<Rightarrow> u8 list" where
  "encode_option Opt_nop = [1]"
| "encode_option (Opt_mss m) = [2, 4, ucast (drop_bit 8 m), ucast m]"
| "encode_option (Opt_other k data) = k # of_nat (length data + 2) # data"

fun option_ok :: "tcp_option \<Rightarrow> bool" where
  "option_ok (Opt_other k data) = (k \<noteq> 0 \<and> k \<noteq> 1 \<and> k \<noteq> 2 \<and> length data < 254)"
| "option_ok _ = True"

text \<open>The last announced segment size counts; it is limited to ours, and 0 is no limit at all.\<close>

fun options_mss :: "tcp_option list \<Rightarrow> u16 \<Rightarrow> u16" where
  "options_mss [] m = m"
| "options_mss (Opt_mss k # opts) m = options_mss opts (if k > TCP_MSS \<or> k = 0 then TCP_MSS else k)"
| "options_mss (_ # opts) m = options_mss opts m"

text \<open>The end of the option list: padding of which only the first byte is looked at.\<close>

definition padding_ok :: "u8 list \<Rightarrow> bool" where
  "padding_ok pad \<longleftrightarrow> pad = [] \<or> hd pad = 0"

definition options_at :: "'a tcp_state_scheme \<Rightarrow> nat \<Rightarrow> u8 list \<Rightarrow> bool" where
  "options_at s i bs \<longleftrightarrow> unat (ti_optlen s) = i + length bs \<and>
     (\<forall>k < length bs. opt_byte s (i + k) = Some (bs ! k))"

lemma options_at_drop:
  "options_at s i (xs @ ys) \<Longrightarrow> options_at s (i + length xs) ys"
  by (auto simp: options_at_def nth_append add.assoc dest: spec [where x = "length xs + k" for k])

lemma options_at_nth: "options_at s i bs \<Longrightarrow> k < length bs \<Longrightarrow> opt_byte s (i + k) = Some (bs ! k)"
  by (simp add: options_at_def)

lemma tcp_opt_mss_bytes:
  "tcp_opt_mss (ucast (drop_bit 8 k)) (ucast k) = (if k > TCP_MSS \<or> k = 0 then TCP_MSS else k)"
proof -
  have "push_bit 8 (ucast (ucast (drop_bit 8 k) :: u8)) OR ucast (ucast k :: u8) = (k :: u16)"
    by (rule bit_word_eqI) (auto simp: bit_simps)
  then show ?thesis by (simp add: tcp_opt_mss_def)
qed

text \<open>The loop has gone over the options that an encoder has written.\<close>

lemma parseopt_options:
  assumes "unat (ti_optlen s) \<le> 40" "list_all option_ok opts"
    "options_at s (unat i) (concat (map encode_option opts) @ pad)"
  shows "tcp_parseopt_loop pcb (put_mss pcb b m i s) =
    tcp_parseopt_loop pcb (put_mss pcb b (options_mss opts m)
      (i + of_nat (length (concat (map encode_option opts)))) s)"
  using assms(2,3)
proof (induction opts arbitrary: i m)
  case Nil
  then show ?case by simp
next
  case (Cons opt opts)
  let ?rest = "concat (map encode_option opts) @ pad"
  have at: "options_at s (unat i) (encode_option opt @ ?rest)" using Cons.prems(2) by simp
  have len: "unat i + length (encode_option opt) \<le> 40" using at assms(1) by (simp add: options_at_def)
  have less: "i < ti_optlen s" using at by (cases opt) (simp_all add: options_at_def word_less_nat_alt)
  have byte: "opt_byte s (unat i + k) = Some (encode_option opt ! k)" if "k < length (encode_option opt)" for k
    using options_at_nth [OF at, of k] that by (simp add: nth_append)
  have idx: "unat (i + of_nat k) = unat i + k" if "k \<le> length (encode_option opt)" for k
    using that len by (intro unat_idx) simp
  have rest: "options_at s (unat (i + of_nat (length (encode_option opt)))) ?rest"
    using options_at_drop [OF at] by (simp add: idx)
  have get: "tcp_get_next_optbyte (put_mss pcb b m (i + of_nat k) s)
      = Some (encode_option opt ! k, put_mss pcb b m (i + of_nat (Suc k)) s)" if "k < length (encode_option opt)" for k m
    using next_optbyte [of "put_mss pcb b m (i + of_nat k) s"] byte [OF that] that idx [of k] by (simp add: ac_simps)
  note IH = Cons.IH [OF _ rest]
  note step = parseopt_kind [of "put_mss pcb b m i s" "encode_option opt ! 0" pcb]
  have b0: "opt_byte s (unat i) = Some (encode_option opt ! 0)" using byte [of 0] by (cases opt) auto
  have ok: "list_all option_ok opts" using Cons.prems(1) by simp
  show ?case
  proof (cases opt)
    case Opt_nop
    then show ?thesis using step less b0 IH [OF ok, of m] by (simp add: Let_def ac_simps)
  next
    case (Opt_mss k)
    have n: "int (unat (i + 2)) - 2 + 4 \<le> int (unat (ti_optlen s))"
      using idx [of 2] Opt_mss at by (simp add: options_at_def)
    have "tcp_parseopt_loop pcb (put_mss pcb b m i s)
        = tcp_parseopt_loop pcb (put_mss pcb b (tcp_opt_mss (ucast (drop_bit 8 k)) (ucast k)) (i + 4) s)"
      using step less b0 n get [of 1 m] get [of 2 m] get [of 3 m] Opt_mss
      by (simp add: Let_def numeral_eq_Suc)
    then show ?thesis using IH [OF ok] Opt_mss by (simp add: tcp_opt_mss_bytes ac_simps)
  next
    case (Opt_other k data)
    define n :: u8 where "n = of_nat (length data + 2)"
    have n: "unat n = length data + 2"
      unfolding n_def using Cons.prems(1) Opt_other by (subst unat_of_nat) (simp add: take_bit_nat_eq_self_iff)
    then have d: "\<not> n < 2" "unat (n - 2) = length data"
      by (simp_all add: word_less_nat_alt unat_sub word_le_nat_alt)
    have "(ucast (n - 2) :: u16) = of_nat (unat (n - 2))" by (simp add: word_unat_eq_iff unat_of_nat_u16 order.strict_trans [OF unat_u8_less])
    then have skip: "i + 2 + ucast (n - 2) = i + of_nat (length (encode_option opt))"
      using d(2) Opt_other by simp
    have enc: "encode_option opt ! 0 = k" "encode_option opt ! 1 = n" using Opt_other by (simp_all add: n_def)
    have "tcp_get_next_optbyte (put_mss pcb b m (i + 1) s) = Some (n, put_mss pcb b m (i + 2) s)"
      using get [of 1 m] Opt_other enc(2) by (simp add: numeral_2_eq_2)
    then have "tcp_parseopt_loop pcb (put_mss pcb b m i s)
        = tcp_parseopt_loop pcb (put_mss pcb b m (i + 2 + ucast (n - 2)) s)"
      using step less b0 Opt_other Cons.prems(1) d(1) unfolding enc(1) by (simp add: Let_def)
    then have "tcp_parseopt_loop pcb (put_mss pcb b m i s)
        = tcp_parseopt_loop pcb (put_mss pcb b m (i + of_nat (length (encode_option opt))) s)"
      unfolding skip .
    then show ?thesis using IH [OF ok, of m] Opt_other by (simp add: ac_simps)
  qed
qed

section \<open>The properties\<close>

text \<open>C7: The option parser returns for any bytes of the options, provided that the byte behind them can
  be read too: it looks at no byte beyond that one, it changes nothing but the segment size and its position, and the segment size is the old
  one or lies between 1 and \<^verbatim>\<open>TCP_MSS\<close>.\<close>

theorem tcp_parseopt_safe:
  assumes "pcb \<noteq> 0" "tcp_mem s pcb = Some b" "unat (ti_optlen s) \<le> 40"
    "\<forall>i \<le> unat (ti_optlen s). opt_byte s i \<noteq> None"
  shows "\<exists>m j. tcp_parseopt pcb s = Some (s\<lparr>tcp_mem := (tcp_mem s)(pcb \<mapsto> b\<lparr>tp_mss := m\<rparr>), ti_optidx := j\<rparr>) \<and>
    (m = tp_mss b \<or> 1 \<le> m \<and> m \<le> TCP_MSS)"
proof (cases "ti_optlen s = 0")
  case True
  then show ?thesis using assms(1,2)
    by (intro exI [of _ "tp_mss b"] exI [of _ "ti_optidx s"]) (simp add: tcp_parseopt_def fun_upd_idem)
next
  case False
  then have "tcp_parseopt pcb s = tcp_parseopt_loop pcb (put_mss pcb b (tp_mss b) 0 s)"
    using assms(1) by (simp add: tcp_parseopt_def put_mss_id [OF assms(2)])
  then show ?thesis
    using parseopt_loop_any [OF assms(3,4), of 0 pcb b "tp_mss b"] by (simp add: put_mss_def)
qed

text \<open>A header with eight bytes of options, and one with two that end the memory block.\<close>

definition demo_opts :: tcp_state where
  "demo_opts = demo_tcp\<lparr>ti_optlen := 8, ti_opt1len := 8, ip_heap := demo_tcp_heap\<lparr>blocks :=
     [1 \<mapsto> replicate 24 0 @ demo_tcphdr @ [1, 2, 4, 3, 0xe8, 0, 0, 0, 7, 8, 9]]\<rparr>\<rparr>"

definition demo_opts_cut :: tcp_state where
  "demo_opts_cut = demo_tcp\<lparr>ti_optlen := 2, ti_opt1len := 2, ip_heap := demo_tcp_heap\<lparr>blocks :=
     [1 \<mapsto> replicate 24 0 @ demo_tcphdr @ [1, 8]]\<rparr>\<rparr>"

lemma options_at_list: "options_at s i bs \<longleftrightarrow> unat (ti_optlen s) = i + length bs \<and>
    map (\<lambda>k. opt_byte s (i + k)) [0..<length bs] = map Some bs"
  unfolding options_at_def by (rule conj_cong [OF refl]) (subst list_eq_iff_nth_eq, simp)

lemma read_byte: "map_option hd (mem_read h (VPtr a d) off 1) =
    (case blocks h a of None \<Rightarrow> None | Some bs \<Rightarrow> if d + off < length bs then Some (bs ! (d + off)) else None)"
proof (cases "blocks h a")
  case None
  then show ?thesis by (simp add: mem_read_def)
next
  case (Some bs)
  have "hd (take 1 (drop (d + off) bs)) = bs ! (d + off)" if "d + off < length bs"
    using that by (simp add: hd_drop_conv_nth del: One_nat_def)
  then show ?thesis using Some by (auto simp: mem_read_def buf_read_def Suc_le_eq)
qed

lemma opt_byte_one:
  assumes "ti_opt2 s = VNull" "ti_tcphdr s = VPtr a d" "blocks (ip_heap s) a = Some (xs @ ys)" "length xs = d + 20"
  shows "opt_byte s i = (if i < length ys then Some (ys ! i) else None)"
  using assms by (simp add: opt_byte_def read_byte TCP_HLEN_def nth_append del: One_nat_def)

lemma opt_byte_demo: "opt_byte demo_opts i =
    (if i < 11 then Some ([1, 2, 4, 3, 0xe8, 0, 0, 0, 7, 8, 9] ! i) else None)"
  by (subst opt_byte_one [of demo_opts 1 24 "replicate 24 0 @ demo_tcphdr" "[1, 2, 4, 3, 0xe8, 0, 0, 0, 7, 8, 9]"])
    (simp_all add: demo_opts_def demo_tcp_def demo_tcp_heap_def demo_tcphdr_def)

lemma opt_byte_demo_cut: "opt_byte demo_opts_cut i = (if i < 2 then Some ([1, 8] ! i) else None)"
  by (subst opt_byte_one [of demo_opts_cut 1 24 "replicate 24 0 @ demo_tcphdr" "[1, 8]"])
    (simp_all add: demo_opts_cut_def demo_tcp_def demo_tcp_heap_def demo_tcphdr_def)

lemma demo_opts_simps: "tcp_mem demo_opts 5 = Some demo_conn" "ti_optlen demo_opts = 8"
  "tcp_mem demo_opts_cut 5 = Some demo_conn" "ti_optlen demo_opts_cut = 2"
  by (simp_all add: demo_opts_def demo_opts_cut_def demo_tcp_def)

theorem tcp_parseopt_safe_witness: "\<exists>s'. tcp_parseopt 5 demo_opts = Some s'"
proof -
  have "\<forall>i \<le> unat (ti_optlen demo_opts). opt_byte demo_opts i \<noteq> None"
    by (simp add: opt_byte_demo demo_opts_simps)
  then show ?thesis using tcp_parseopt_safe [of 5 demo_opts demo_conn] by (auto simp: demo_opts_simps)
qed

text \<open>C6: What any encoder writes is read back: over a list of options with correct lengths, ended by the
  end-of-list option or by the end of the header, the parser finds the last announced segment size,
  limited to ours, and keeps the old one when there is none - in one pbuf or split over two.\<close>

theorem tcp_parseopt_decodes:
  assumes "pcb \<noteq> 0" "tcp_mem s pcb = Some b" "unat (ti_optlen s) \<le> 40"
    "list_all option_ok opts" "padding_ok pad"
    "options_at s 0 (concat (map encode_option opts) @ pad)"
  shows "\<exists>j. tcp_parseopt pcb s =
    Some (s\<lparr>tcp_mem := (tcp_mem s)(pcb \<mapsto> b\<lparr>tp_mss := options_mss opts (tp_mss b)\<rparr>), ti_optidx := j\<rparr>)"
proof (cases "ti_optlen s = 0")
  case True
  then have "concat (map encode_option opts) = []" using assms(6) by (simp add: options_at_def)
  moreover have "encode_option opt \<noteq> []" for opt by (cases opt) simp_all
  ultimately have "opts = []" by (cases opts) simp_all
  with True show ?thesis using assms(1,2)
    by (intro exI [of _ "ti_optidx s"]) (simp add: tcp_parseopt_def fun_upd_idem)
next
  case False
  let ?k = "length (concat (map encode_option opts))" and ?m = "options_mss opts (tp_mss b)"
  have start: "tcp_parseopt pcb s = tcp_parseopt_loop pcb (put_mss pcb b ?m (of_nat ?k) s)"
    using parseopt_options [OF assms(3,4), of 0 pad pcb b "tp_mss b"] assms(1,6) False
    by (simp add: tcp_parseopt_def put_mss_id [OF assms(2)])
  have k: "unat (of_nat ?k :: u16) = ?k" using assms(3,6)
    by (intro unat_of_nat_u16) (simp add: options_at_def)
  show ?thesis
  proof (cases pad)
    case Nil
    then have "\<not> (of_nat ?k :: u16) < ti_optlen s" using assms(6) k by (simp add: options_at_def word_less_nat_alt)
    then show ?thesis unfolding start by (auto simp: parseopt_end put_mss_def)
  next
    case (Cons x xs)
    then have "(of_nat ?k :: u16) < ti_optlen s" "opt_byte s ?k = Some 0"
      using assms(5,6) k options_at_nth [OF options_at_drop [OF assms(6)], of 0]
      by (auto simp: options_at_def word_less_nat_alt padding_ok_def)
    then show ?thesis using parseopt_kind [of "put_mss pcb b ?m (of_nat ?k) s" 0 pcb] k
      unfolding start by (auto simp: Let_def put_mss_def)
  qed
qed

theorem tcp_parseopt_decodes_witness:
  "\<exists>s'. tcp_parseopt 5 demo_opts = Some s' \<and> map_option tp_mss (tcp_mem s' 5) = Some 1000"
proof -
  have "options_at demo_opts 0 (concat (map encode_option [Opt_nop, Opt_mss 1000]) @ [0, 0, 0])"
    by (simp add: options_at_list opt_byte_demo demo_opts_simps upt_rec nth_Cons')
  then show ?thesis
    using tcp_parseopt_decodes [of 5 demo_opts demo_conn "[Opt_nop, Opt_mss 1000]" "[0, 0, 0]"]
    by (auto simp: demo_opts_simps padding_ok_def TCP_MSS_def)
qed

text \<open>C8: When the last byte of the options is the kind of an option that should have a length, the parser
  reads the length behind the options; if the memory ends there the access is out of bounds, although
  all bytes of the header are there.\<close>

theorem tcp_parseopt_reads_behind:
  assumes "pcb \<noteq> 0" "tcp_mem s pcb = Some b" "unat (ti_optlen s) \<le> 40"
    "list_all option_ok opts" "k \<noteq> 0" "k \<noteq> 1"
    "options_at s 0 (concat (map encode_option opts) @ [k])" "opt_byte s (unat (ti_optlen s)) = None"
  shows "tcp_parseopt pcb s = None"
proof -
  let ?n = "length (concat (map encode_option opts))" and ?m = "options_mss opts (tp_mss b)"
  have len: "unat (ti_optlen s) = ?n + 1" using assms(7) by (simp add: options_at_def)
  then have n: "unat (of_nat ?n :: u16) = ?n" "unat (of_nat ?n + 1 :: u16) = ?n + 1"
    using assms(3) unat_of_nat_u16 [of "?n + 1"] by (simp_all add: unat_of_nat_u16 add.commute)
  have "tcp_parseopt pcb s = tcp_parseopt_loop pcb (put_mss pcb b ?m (of_nat ?n) s)"
    using parseopt_options [OF assms(3,4), of 0 "[k]" pcb b "tp_mss b"] assms(1,7) len
    by (auto simp: tcp_parseopt_def put_mss_id [OF assms(2)])
  moreover have "(of_nat ?n :: u16) < ti_optlen s" by (simp add: word_less_nat_alt len n)
  moreover have "opt_byte s ?n = Some k" using options_at_nth [OF assms(7), of ?n] by simp
  moreover have "tcp_get_next_optbyte (put_mss pcb b ?m (of_nat ?n + 1) s) = None"
    using next_optbyte_None [of "put_mss pcb b ?m (of_nat ?n + 1) s"] assms(8) len n by simp
  ultimately show ?thesis
    using parseopt_kind [of "put_mss pcb b ?m (of_nat ?n) s" k pcb] assms(5,6) n
    by (simp add: Let_def)
qed

theorem tcp_parseopt_reads_behind_witness: "tcp_parseopt 5 demo_opts_cut = None"
proof -
  have "options_at demo_opts_cut 0 (concat (map encode_option [Opt_nop]) @ [8])"
    by (simp add: options_at_list opt_byte_demo_cut demo_opts_simps upt_rec nth_Cons')
  then show ?thesis
    using tcp_parseopt_reads_behind [of 5 demo_opts_cut demo_conn "[Opt_nop]" 8]
    by (simp add: demo_opts_simps opt_byte_demo_cut)
qed

end
