(* ===== verification/Lwip_Tcp_Wnd.thy ===== *)
theory Lwip_Tcp_Wnd
  imports Lwip_Tcp_Demo
begin

text \<open>
  The receive window of a connection: what \<^verbatim>\<open>tcp_update_rcv_ann_wnd\<close> announces, and the invariant
  of all histories of receiving, acknowledging and announcing. The window the peer knows never
  moves back, and the assertions of the code never fail.
\<close>

section \<open>Signed distances\<close>

text \<open>How far a sequence number is ahead of another one; negative when it is behind.\<close>

definition seq_diff :: "u32 \<Rightarrow> u32 \<Rightarrow> int" where
  "seq_diff a b = sint (a - b)"

lemma seq_order [simp]:
  "TCP_SEQ_LT a b \<longleftrightarrow> seq_diff a b < 0" "TCP_SEQ_LEQ a b \<longleftrightarrow> seq_diff a b \<le> 0"
  "TCP_SEQ_GT a b \<longleftrightarrow> seq_diff a b > 0" "TCP_SEQ_GEQ a b \<longleftrightarrow> seq_diff a b \<ge> 0"
  by (simp_all add: TCP_SEQ_LT_def TCP_SEQ_LEQ_def TCP_SEQ_GT_def TCP_SEQ_GEQ_def seq_diff_def)

lemma seq_diff_bounds: "- 2147483648 \<le> seq_diff a b" "seq_diff a b < 2147483648"
  using sint_ge [of "a - b"] sint_lt [of "a - b"] by (simp_all add: seq_diff_def)

lemma sint_mod_u32: "sint (w :: u32) mod 4294967296 = int (unat w)"
  using uint_sint [of w] by (simp add: take_bit_eq_mod)

lemma sint_unique_u32:
  assumes "- 2147483648 \<le> x" "x < 2147483648" "x mod 4294967296 = int (unat (w :: u32))"
  shows "sint w = x"
proof (cases "0 \<le> x")
  case True
  then have "x = int (unat w)" using assms by simp
  then show ?thesis using assms(2) by (simp add: sint_u32 del: of_nat_unat)
next
  case False
  then have "x + 4294967296 = int (unat w)"
    using assms mod_pos_pos_trivial [of "x + 4294967296" 4294967296] by simp
  then show ?thesis using assms(1) False by (simp add: sint_u32 del: of_nat_unat)
qed

lemma seq_diff_of_nat: "seq_diff (a + of_nat n) a = int n" if "n < 2147483648"
  using that unfolding seq_diff_def by (intro sint_unique_u32) (simp_all add: unat_of_nat take_bit_eq_mod)

text \<open>Distances add up as long as they stay within half the number space.\<close>

lemma seq_diff_add:
  assumes "- 2147483648 \<le> seq_diff a b + seq_diff b c" "seq_diff a b + seq_diff b c < 2147483648"
  shows "seq_diff a c = seq_diff a b + seq_diff b c"
proof -
  have "(sint (a - b) + sint (b - c)) mod 4294967296
      = (int (unat (a - b)) + int (unat (b - c))) mod 4294967296"
    by (metis mod_add_eq sint_mod_u32)
  also have "\<dots> = int (unat ((a - b) + (b - c)))"
    by (simp only: unat_add_u32 of_nat_add of_nat_mod) simp
  finally show ?thesis
    using assms unfolding seq_diff_def by (intro sint_unique_u32) simp_all
qed

lemma seq_diff_self [simp]: "seq_diff a a = 0"
  by (simp add: seq_diff_def)

lemma seq_diff_swap: "seq_diff a b \<noteq> - 2147483648 \<Longrightarrow> seq_diff b a = - seq_diff a b"
proof -
  assume "seq_diff a b \<noteq> - 2147483648"
  then have "- 2147483648 \<le> - seq_diff a b" "- seq_diff a b < 2147483648"
    using seq_diff_bounds [of a b] by linarith+
  moreover have "(- sint (a - b)) mod 4294967296 = int (unat (b - a))"
  proof -
    have "(- sint (a - b)) mod 4294967296 = (- int (unat (a - b))) mod 4294967296"
      by (metis mod_minus_eq sint_mod_u32)
    also have "\<dots> = int (unat (- (a - b)))"
      using uint_word_arith_bintrs(4) [of "a - b"] by (simp add: take_bit_eq_mod)
    finally show ?thesis by simp
  qed
  ultimately show ?thesis unfolding seq_diff_def by (intro sint_unique_u32)
qed

lemma seq_diff_u16 [simp]: "seq_diff (a + ucast (n :: u16)) a = int (unat n)"
proof -
  have "ucast n = (of_nat (unat n) :: u32)" by (simp add: word_unat_eq_iff unat_of_nat take_bit_nat_eq_self_iff order.strict_trans [OF unat_u16_less])
  then show ?thesis using seq_diff_of_nat [of "unat n" a] unat_u16_less [of n] by simp
qed

lemma seq_diff_u16_add: "- 2147483648 \<le> int (unat (n :: u16)) + seq_diff a b \<Longrightarrow> int (unat n) + seq_diff a b < 2147483648
   \<Longrightarrow> seq_diff (a + ucast n) b = int (unat n) + seq_diff a b"
  using seq_diff_add [of "a + ucast n" a b] by simp


lemma ucast_of_int_u16: "(ucast (of_int x :: u32) :: u16) = of_int x"
  by transfer (simp add: take_bit_eq_mod mod_mod_cancel)

section \<open>What is announced\<close>

text \<open>How much of the window the peer knows is left; negative when more has been received.\<close>

definition ann_edge :: "tcp_pcb \<Rightarrow> int" where
  "ann_edge b = seq_diff (tp_rcv_ann_right_edge b) (tp_rcv_nxt b)"

lemma ann_edge_upd [simp]:
  "ann_edge (b\<lparr>tp_rcv_wnd := w\<rparr>) = ann_edge b" "ann_edge (b\<lparr>tp_rcv_ann_wnd := w\<rparr>) = ann_edge b"
  by (simp_all add: ann_edge_def)

text \<open>
  The window is announced anew when that moves its right edge by half the window or a segment;
  otherwise the edge stays where it is, or the window is closed when it has been overrun.
\<close>

lemma tcp_update_rcv_ann_wnd_eq:
  assumes "- 1073741824 \<le> ann_edge b" "ann_edge b \<le> 65535"
  shows "tcp_update_rcv_ann_wnd b =
    (let grow = int (unat (tp_rcv_wnd b)) - ann_edge b in
     Some (if grow \<ge> int (min 16384 (unat (tp_mss b)))
           then (of_int grow, b\<lparr>tp_rcv_ann_wnd := tp_rcv_wnd b\<rparr>)
           else (0, b\<lparr>tp_rcv_ann_wnd := of_int (max 0 (ann_edge b))\<rparr>)))"
proof -
  let ?r = "tp_rcv_ann_right_edge b" and ?n = "tp_rcv_nxt b" and ?w = "tp_rcv_wnd b"
  let ?m = "min (TCP_WND div 2) (tp_mss b)"
  have m: "unat ?m = min 16384 (unat (tp_mss b))"
    by (simp add: min_def TCP_WND_def word_le_nat_alt unat_div)
  have swap: "seq_diff ?n ?r = - ann_edge b"
    using assms seq_diff_swap [of ?r ?n] by (simp add: ann_edge_def)
  have w: "int (unat ?w) \<le> 65535" using unat_u16_le [of ?w] by linarith
  have mb: "int (unat ?m) \<le> 65535" using unat_u16_le [of ?m] by linarith
  have grow: "seq_diff (?n + ucast ?w) ?r = int (unat ?w) - ann_edge b"
    using seq_diff_u16_add [of ?w ?n ?r] assms w swap by linarith
  have swap_m: "seq_diff ?r (?r + ucast ?m) = - int (unat ?m)"
    using mb seq_diff_swap [of "?r + ucast ?m" ?r] seq_diff_u16 [of ?r ?m] by linarith
  have lim: "seq_diff (?n + ucast ?w) (?r + ucast ?m) = int (unat ?w) - ann_edge b - int (unat ?m)"
    using assms w mb grow swap_m seq_diff_add [of "?n + ucast ?w" ?r "?r + ucast ?m"] by linarith
  have of: "?r - ?n = of_int (ann_edge b)"
    by (simp add: ann_edge_def seq_diff_def)
  have of2: "?n + ucast ?w - ?r = of_int (int (unat ?w) - ann_edge b)"
    unfolding grow [symmetric] seq_diff_def by (simp only: of_int_sint scast_id)
  have small: "\<not> ann_edge b < 0 \<Longrightarrow> ?r - ?n \<le> 0xffff"
    using assms(2) unat_u32_less [of "?r - ?n"]
    by (simp add: word_le_nat_alt ann_edge_def seq_diff_def sint_u32 del: of_nat_unat unat_u32_less split: if_splits)
  have cast: "ucast (?r - ?n) = (of_int (ann_edge b) :: u16)"
    unfolding of by (rule ucast_of_int_u16)
  show ?thesis
    unfolding tcp_update_rcv_ann_wnd_def Let_def seq_order lim swap of2 m [symmetric]
    using small cast by (auto simp: max_def not_less simp del: of_nat_unat)
qed

section \<open>Histories of the window\<close>

definition rcv_wnd_ok :: "tcp_pcb \<Rightarrow> bool" where
  "rcv_wnd_ok b \<longleftrightarrow> ann_edge b \<le> int (unat (tp_rcv_ann_wnd b)) \<and> tp_rcv_ann_wnd b \<le> tp_rcv_wnd b \<and>
     tp_rcv_wnd b \<le> TCP_WND"

text \<open>
  What happens to the window of a connection: data in order (or a FIN) within the window, data
  taken by the application, a FIN that has been delivered, and a segment that leaves with the
  window in its header. Between two announcements at most half a gigabyte is received.
\<close>

inductive rcv_step :: "tcp_pcb \<Rightarrow> tcp_pcb \<Rightarrow> bool" where
  receive: "n \<le> tp_rcv_wnd b \<Longrightarrow> - 536870912 \<le> ann_edge b \<Longrightarrow>
     tcp_advance_rcv (tp_rcv_nxt b + ucast n) n b = Some b' \<Longrightarrow> rcv_step b b'"
| recved: "- 536870912 \<le> ann_edge b \<Longrightarrow>
     tcp_update_rcv_ann_wnd (b\<lparr>tp_rcv_wnd := tcp_recved_wnd b len\<rparr>) = Some (infl, b') \<Longrightarrow> rcv_step b b'"
| fin: "rcv_step b (tcp_fin_rcv_wnd b)"
| announce: "rcv_step b (b\<lparr>tp_rcv_ann_right_edge := tp_rcv_nxt b + ucast (tp_rcv_ann_wnd b)\<rparr>)"

inductive rcv_reachable :: "tcp_pcb \<Rightarrow> bool" where
  listen: "rcv_reachable (tcp_listen_init l lpcb src dest iss (tcp_pcb_init prio (s0 :: tcp_state)) (s :: tcp_state))"
| step: "rcv_reachable b \<Longrightarrow> rcv_step b b' \<Longrightarrow> rcv_reachable b'"

inductive_cases rcv_stepE: "rcv_step b b'"

lemma wnd_ok_bound: "rcv_wnd_ok b \<Longrightarrow> ann_edge b \<le> int (unat (tp_rcv_wnd b)) \<and> ann_edge b \<le> 32768"
  by (auto simp: rcv_wnd_ok_def word_le_nat_alt TCP_WND_def simp del: of_nat_unat)

text \<open>The update keeps the invariant whenever the edge has not passed the window.\<close>

lemma update_rcv_ann_wnd_ok:
  assumes "- 1073741824 \<le> ann_edge b" "ann_edge b \<le> int (unat (tp_rcv_wnd b))" "tp_rcv_wnd b \<le> TCP_WND"
  shows "\<exists>infl b'. tcp_update_rcv_ann_wnd b = Some (infl, b') \<and> rcv_wnd_ok b'"
proof -
  have w: "unat (tp_rcv_wnd b) \<le> 32768" using assms(3) by (simp add: word_le_nat_alt TCP_WND_def)
  then have e: "ann_edge b \<le> 65535" using assms(2) by linarith
  have u: "int (unat (of_int (max 0 (ann_edge b)) :: u16)) = max 0 (ann_edge b)"
    using e by (simp add: unsigned_of_int take_bit_eq_mod del: of_nat_unat)
  have ok1: "rcv_wnd_ok (b\<lparr>tp_rcv_ann_wnd := tp_rcv_wnd b\<rparr>)"
    using assms by (simp add: rcv_wnd_ok_def del: of_nat_unat)
  have "int (unat (of_int (max 0 (ann_edge b)) :: u16)) \<le> int (unat (tp_rcv_wnd b))"
    using assms(2) unfolding u by simp
  then have le: "(of_int (max 0 (ann_edge b)) :: u16) \<le> tp_rcv_wnd b"
    unfolding word_le_nat_alt by linarith
  have ok2: "rcv_wnd_ok (b\<lparr>tp_rcv_ann_wnd := of_int (max 0 (ann_edge b))\<rparr>)"
    unfolding rcv_wnd_ok_def ann_edge_upd using u le assms(3) by (simp del: of_nat_unat)
  show ?thesis
    using tcp_update_rcv_ann_wnd_eq [OF assms(1) e] ok1 ok2 by (simp add: Let_def)
qed

lemma tcp_recved_wnd_le: "tcp_recved_wnd b len \<le> TCP_WND"
  by (simp add: tcp_recved_wnd_def Let_def not_less)

lemma tcp_recved_wnd_ge: "tp_rcv_wnd b \<le> TCP_WND \<Longrightarrow> tp_rcv_wnd b \<le> tcp_recved_wnd b len"
  by (simp add: tcp_recved_wnd_def Let_def not_less)

lemma tcp_advance_rcv_ok:
  assumes "rcv_wnd_ok b" "n \<le> tp_rcv_wnd b" "- 536870912 \<le> ann_edge b"
  shows "\<exists>b'. tcp_advance_rcv (tp_rcv_nxt b + ucast n) n b = Some b' \<and> rcv_wnd_ok b'"
proof -
  let ?b = "b\<lparr>tp_rcv_nxt := tp_rcv_nxt b + ucast n, tp_rcv_wnd := tp_rcv_wnd b - n\<rparr>"
  have n: "unat n \<le> 65535" by simp
  have diff: "seq_diff (tp_rcv_nxt b) (tp_rcv_nxt b + ucast n) = - int (unat n)"
    using n seq_diff_swap [of "tp_rcv_nxt b + ucast n" "tp_rcv_nxt b"] seq_diff_u16 [of "tp_rcv_nxt b" n] by linarith
  have "seq_diff (tp_rcv_ann_right_edge b) (tp_rcv_nxt b + ucast n) = ann_edge b - int (unat n)"
    using n diff assms(3) wnd_ok_bound [OF assms(1)]
      seq_diff_add [of "tp_rcv_ann_right_edge b" "tp_rcv_nxt b" "tp_rcv_nxt b + ucast n"]
    unfolding ann_edge_def by linarith
  then have e: "ann_edge ?b = ann_edge b - int (unat n)" by (simp add: ann_edge_def del: of_nat_unat)
  have w: "int (unat (tp_rcv_wnd ?b)) = int (unat (tp_rcv_wnd b)) - int (unat n)"
    using assms(2) by (simp add: unat_sub word_le_nat_alt of_nat_diff del: of_nat_unat)
  have "- 1073741824 \<le> ann_edge ?b" using e n assms(3) by linarith
  moreover have "ann_edge ?b \<le> int (unat (tp_rcv_wnd ?b))"
    unfolding e w using wnd_ok_bound [OF assms(1)] by linarith
  moreover have "tp_rcv_wnd ?b \<le> TCP_WND"
    using assms(1) w unfolding rcv_wnd_ok_def word_le_nat_alt by linarith
  ultimately obtain infl b' where "tcp_update_rcv_ann_wnd ?b = Some (infl, b')" "rcv_wnd_ok b'"
    using update_rcv_ann_wnd_ok by blast
  then show ?thesis using assms(2) by (simp add: tcp_advance_rcv_def)
qed

lemma tcp_update_rcv_ann_wnd_fields:
  "tcp_update_rcv_ann_wnd b = Some (infl, b') \<Longrightarrow> \<exists>w. b' = b\<lparr>tp_rcv_ann_wnd := w\<rparr>"
  by (auto simp: tcp_update_rcv_ann_wnd_def Let_def split: if_splits bind_splits)

lemma tcp_advance_rcv_fields:
  "tcp_advance_rcv nxt n b = Some b' \<Longrightarrow> tp_rcv_nxt b' = nxt \<and> tp_rcv_wnd b' = tp_rcv_wnd b - n"
  by (auto simp: tcp_advance_rcv_def split: bind_splits prod.splits dest!: tcp_update_rcv_ann_wnd_fields)

lemma tcp_recved_ok:
  assumes "rcv_wnd_ok b" "- 536870912 \<le> ann_edge b"
  shows "\<exists>infl b'. tcp_update_rcv_ann_wnd (b\<lparr>tp_rcv_wnd := tcp_recved_wnd b len\<rparr>) = Some (infl, b') \<and>
    rcv_wnd_ok b'"
proof (rule update_rcv_ann_wnd_ok)
  have "tp_rcv_wnd b \<le> tcp_recved_wnd b len"
    using assms(1) by (intro tcp_recved_wnd_ge) (simp add: rcv_wnd_ok_def)
  then show "ann_edge (b\<lparr>tp_rcv_wnd := tcp_recved_wnd b len\<rparr>) \<le> int (unat (tp_rcv_wnd (b\<lparr>tp_rcv_wnd := tcp_recved_wnd b len\<rparr>)))"
    using wnd_ok_bound [OF assms(1)] by (simp add: word_le_nat_alt del: of_nat_unat)
qed (use assms(2) in \<open>simp_all add: tcp_recved_wnd_le\<close>)

lemma tcp_fin_rcv_wnd_ok: "rcv_wnd_ok b \<Longrightarrow> rcv_wnd_ok (tcp_fin_rcv_wnd b)"
proof -
  assume ok: "rcv_wnd_ok b"
  show ?thesis
  proof (cases "tp_rcv_wnd b = TCP_WND")
    case True
    then show ?thesis using ok by (simp add: tcp_fin_rcv_wnd_def)
  next
    case False
    then have less: "unat (tp_rcv_wnd b) < 32768"
      using ok by (simp add: rcv_wnd_ok_def word_le_nat_alt TCP_WND_def word_unat_eq_iff)
    then have "unat (tp_rcv_wnd b + 1) = unat (tp_rcv_wnd b) + 1"
      by (subst unat_add_u16_small) simp_all
    then show ?thesis using ok False less
      by (simp add: tcp_fin_rcv_wnd_def rcv_wnd_ok_def word_le_nat_alt TCP_WND_def del: of_nat_unat)
  qed
qed

lemma announce_ok:
  "rcv_wnd_ok b \<Longrightarrow> rcv_wnd_ok (b\<lparr>tp_rcv_ann_right_edge := tp_rcv_nxt b + ucast (tp_rcv_ann_wnd b)\<rparr>)"
  by (simp add: rcv_wnd_ok_def ann_edge_def)

lemma rcv_step_ok: "rcv_step b b' \<Longrightarrow> rcv_wnd_ok b \<Longrightarrow> rcv_wnd_ok b'"
proof (erule rcv_stepE, goal_cases)
  case (1 n)
  then show ?case using tcp_advance_rcv_ok [of b n] by auto
next
  case (2 len infl)
  then show ?case using tcp_recved_ok [of b len] by auto
qed (auto simp: tcp_fin_rcv_wnd_ok announce_ok)

lemma rcv_reachable_ok: "rcv_reachable b \<Longrightarrow> rcv_wnd_ok b"
proof (induction rule: rcv_reachable.induct)
  case (listen l lpcb src dest iss prio s0 s)
  then show ?case
    by (simp add: rcv_wnd_ok_def ann_edge_def tcp_listen_init_def tcp_pcb_init_def tcp_pcb_zero_def TCP_WND_def)
next
  case (step b b')
  then show ?case by (simp add: rcv_step_ok)
qed

section \<open>The properties\<close>

text \<open>C2: In every state a connection of the listener reaches, the announced window is part of the
  receive window, which is at most \<^verbatim>\<open>TCP_WND\<close>; a segment that leaves never takes back window that has
  been announced; and neither data within the window nor \<^verbatim>\<open>tcp_recved\<close> with any length can fail an
  assertion of the window code.\<close>

theorem tcp_rcv_window_invariant:
  assumes "rcv_reachable b" "- 536870912 \<le> ann_edge b"
  shows "tp_rcv_ann_wnd b \<le> tp_rcv_wnd b \<and> tp_rcv_wnd b \<le> TCP_WND \<and>
    \<not> TCP_SEQ_LT (tp_rcv_nxt b + ucast (tp_rcv_ann_wnd b)) (tp_rcv_ann_right_edge b) \<and>
    (\<forall>n. n \<le> tp_rcv_wnd b \<longrightarrow> (\<exists>b'. tcp_advance_rcv (tp_rcv_nxt b + ucast n) n b = Some b' \<and>
      tp_rcv_nxt b' = tp_rcv_nxt b + ucast n \<and> tp_rcv_wnd b' = tp_rcv_wnd b - n)) \<and>
    (\<forall>len. tcp_update_rcv_ann_wnd (b\<lparr>tp_rcv_wnd := tcp_recved_wnd b len\<rparr>) \<noteq> None)"
proof -
  have ok: "rcv_wnd_ok b" by (rule rcv_reachable_ok [OF assms(1)])
  have "seq_diff (tp_rcv_nxt b) (tp_rcv_ann_right_edge b) = - ann_edge b"
    using assms(2) seq_diff_swap [of "tp_rcv_ann_right_edge b" "tp_rcv_nxt b"] by (simp add: ann_edge_def)
  then have "seq_diff (tp_rcv_nxt b + ucast (tp_rcv_ann_wnd b)) (tp_rcv_ann_right_edge b)
      = int (unat (tp_rcv_ann_wnd b)) - ann_edge b"
    using seq_diff_u16_add [of "tp_rcv_ann_wnd b" "tp_rcv_nxt b" "tp_rcv_ann_right_edge b"] assms(2)
      wnd_ok_bound [OF ok] unat_u16_le [of "tp_rcv_ann_wnd b"] ok unfolding rcv_wnd_ok_def by linarith
  then have "\<not> TCP_SEQ_LT (tp_rcv_nxt b + ucast (tp_rcv_ann_wnd b)) (tp_rcv_ann_right_edge b)"
    using ok by (simp add: rcv_wnd_ok_def del: of_nat_unat)
  moreover have "\<exists>b'. tcp_advance_rcv (tp_rcv_nxt b + ucast n) n b = Some b' \<and>
      tp_rcv_nxt b' = tp_rcv_nxt b + ucast n \<and> tp_rcv_wnd b' = tp_rcv_wnd b - n" if "n \<le> tp_rcv_wnd b" for n
    using tcp_advance_rcv_ok [OF ok that assms(2)] tcp_advance_rcv_fields by blast
  moreover have "tcp_update_rcv_ann_wnd (b\<lparr>tp_rcv_wnd := tcp_recved_wnd b len\<rparr>) \<noteq> None" for len
    using tcp_recved_ok [OF ok assms(2), of len] by auto
  ultimately show ?thesis using ok by (simp add: rcv_wnd_ok_def)
qed

lemma demo_rcv_reachable:
  "\<exists>b. rcv_reachable b \<and> ann_edge b = 32768 \<and> tp_rcv_wnd b = 32768"
proof -
  let ?b0 = "tcp_listen_init demo_conn 3 1024 80 6510 (tcp_pcb_init 64 demo_tcp) demo_tcp"
  let ?b = "?b0\<lparr>tp_rcv_ann_right_edge := tp_rcv_nxt ?b0 + ucast (tp_rcv_ann_wnd ?b0)\<rparr>"
  have "rcv_reachable ?b"
    by (rule rcv_reachable.step [OF rcv_reachable.listen rcv_step.announce])
  moreover have w: "tp_rcv_ann_wnd ?b0 = 32768" "tp_rcv_wnd ?b = 32768"
    by (simp_all add: tcp_listen_init_def tcp_pcb_init_def TCP_WND_def)
  moreover have "ann_edge ?b = int (unat (tp_rcv_ann_wnd ?b0))" by (simp add: ann_edge_def del: of_nat_unat)
  then have "ann_edge ?b = 32768" unfolding w(1) by simp
  ultimately show ?thesis by blast
qed

theorem tcp_rcv_window_invariant_witness:
  "\<exists>b b'. rcv_step b b' \<and> rcv_reachable b \<and> ann_edge b = 32768 \<and>
    tcp_advance_rcv (tp_rcv_nxt b + 1000) 1000 b = Some b' \<and> tp_rcv_wnd b' = 31768"
proof -
  obtain b where b: "rcv_reachable b" "ann_edge b = 32768" "tp_rcv_wnd b = 32768"
    using demo_rcv_reachable by blast
  have "- 536870912 \<le> ann_edge b" "1000 \<le> tp_rcv_wnd b" using b by simp_all
  with tcp_rcv_window_invariant [OF b(1)] obtain b' where
    b': "tcp_advance_rcv (tp_rcv_nxt b + ucast (1000 :: u16)) 1000 b = Some b'" "tp_rcv_wnd b' = tp_rcv_wnd b - 1000"
    by blast
  have "rcv_step b b'" by (rule rcv_step.receive [OF _ _ b'(1)]) (simp_all add: b)
  then show ?thesis using b b' by (intro exI [of _ b] exI [of _ b']) simp
qed

end
