(* ===== verification/Lwip_Tcp_Frame.thy ===== *)
theory Lwip_Tcp_Frame
  imports Lwip_Tcp_Demo
begin

text \<open>
  What the operations of one connection leave alone. A view of the PCBs is kept when it does not
  see changes of one PCB other than those of its state, and when the functions outside this
  development keep it; then every operation of TCP that sends or receives a segment of this PCB
  keeps it. The states of the PCBs are such a view, and so are all PCBs but this one.
\<close>

named_theorems keeps \<open>operations that keep a view\<close>

text \<open>A run of a program in the option monad, one step at a time.\<close>

lemma if_eq_Some: "((if c then x else y) = Some z) \<longleftrightarrow> (c \<and> x = Some z) \<or> (\<not> c \<and> y = Some z)"
  by simp

lemma list_case_eq_Some: "(case xs of [] \<Rightarrow> a | y # ys \<Rightarrow> f y ys) = Some z \<longleftrightarrow>
    (xs = [] \<and> a = Some z) \<or> (\<exists>y ys. xs = y # ys \<and> f y ys = Some z)"
  by (cases xs) auto

lemma option_case_eq_Some: "(case x of None \<Rightarrow> a | Some y \<Rightarrow> f y) = Some z \<longleftrightarrow>
    (x = None \<and> a = Some z) \<or> (\<exists>y. x = Some y \<and> f y = Some z)"
  by (cases x) auto

lemma prod_case_eq_Some: "(case x of (a, b) \<Rightarrow> f a b) = Some z \<longleftrightarrow> (\<exists>a b. x = (a, b) \<and> f a b = Some z)"
  by (cases x) auto

lemmas run = bind_eq_Some_conv if_eq_Some list_case_eq_Some option_case_eq_Some prod_case_eq_Some Let_def

section \<open>The IP layer\<close>

definition ip_keeps :: "('a ip_state_scheme \<Rightarrow> 'v) \<Rightarrow> 'a ip_state_scheme ip_env \<Rightarrow> bool" where
  "ip_keeps v env \<longleftrightarrow> (\<forall>s h. v (s\<lparr>ip_heap := h\<rparr>) = v s) \<and> (\<forall>s i. v (s\<lparr>ip_id := i\<rparr>) = v s) \<and>
     (\<forall>n p d s e s'. env_output env n p d s = Some (e, s') \<longrightarrow> v s' = v s) \<and>
     (\<forall>n p s e s'. env_loop_output env n p s = Some (e, s') \<longrightarrow> v s' = v s)"

lemma ip_keeps_simps:
  assumes "ip_keeps v env"
  shows "v (s\<lparr>ip_heap := h\<rparr>) = v s" "v (s\<lparr>ip_id := i\<rparr>) = v s"
    "env_output env n p d s = Some r \<Longrightarrow> v (snd r) = v s"
    "env_loop_output env n p s = Some r \<Longrightarrow> v (snd r) = v s"
  using assms by (cases r; auto simp: ip_keeps_def)+

lemma frag_loop_keeps:
  assumes "frag_loop env netif dest hdr mf p poff left ofo s = Some r" "ip_keeps v env"
  shows "v (snd r) = v s"
proof -
  have "ip_keeps v env \<longrightarrow> v (snd r) = v s"
  proof (rule frag_loop.raw_induct [where
      P = "\<lambda>env netif dest hdr mf p poff left ofo s r. ip_keeps v env \<longrightarrow> v (snd r) = v s", OF _ assms(1)],
      goal_cases)
    case (1 f env netif dest hdr mf p poff left ofo s r)
    show ?case
    proof
      assume k: "ip_keeps v env"
      from 1(2) show "v (snd r) = v s"
        by (auto simp: Let_def ip_keeps_simps [OF k] split: if_splits bind_splits prod.splits sum.splits
            dest!: 1(1) [THEN mp, OF _ k] ip_keeps_simps(3) [OF k])
    qed
  qed
  then show ?thesis using assms(2) by simp
qed

lemma ip4_send_keeps:
  assumes "ip4_send env p dest netif s = Some r" "ip_keeps v env"
  shows "v (snd r) = v s"
  using assms by (auto simp: ip4_send_def ip4_frag_def Let_def ip_keeps_simps frag_loop_keeps
      split: if_splits bind_splits)

lemma ip4_output_if_keeps:
  assumes "ip4_output_if env p src dest ttl tos proto netif s = Some r" "ip_keeps v env"
  shows "v (snd r) = v s"
  using assms by (auto simp: ip4_output_if_def ip4_output_if_src_def Let_def ip_keeps_simps
      split: if_splits bind_splits option.splits prod.splits dest!: ip4_send_keeps)

section \<open>Views of the PCBs\<close>

type_synonym 'v tcp_view = "(nat \<Rightarrow> tcp_pcb option) \<Rightarrow> u8 \<Rightarrow> u32 \<Rightarrow> u8 \<Rightarrow> 'v"

text \<open>A view looks at the PCBs, and at the flags, the acknowledgement and the findings of the segment.\<close>

abbreviation view :: "'v tcp_view \<Rightarrow> 'a tcp_state_scheme \<Rightarrow> 'v" where
  "view w s \<equiv> w (tcp_mem s) (ti_flags s) (ti_ackno s) (ti_recv_flags s)"

abbreviation same_pcbs :: "'a tcp_state_scheme \<Rightarrow> 'a tcp_state_scheme \<Rightarrow> bool" where
  "same_pcbs s s' \<equiv> tcp_mem s' = tcp_mem s \<and> ti_flags s' = ti_flags s \<and> ti_ackno s' = ti_ackno s \<and>
     ti_recv_flags s' = ti_recv_flags s"

definition tcp_keeps :: "'v tcp_view \<Rightarrow> 'a tcp_state_scheme tcp_env \<Rightarrow> nat \<Rightarrow> bool" where
  "tcp_keeps w env pcb \<longleftrightarrow>
     (\<forall>m b b' f a r. m pcb = Some b \<and> tp_state b' = tp_state b \<longrightarrow> w (m(pcb \<mapsto> b')) f a r = w m f a r) \<and>
     ip_keeps (\<lambda>s. view w s) (te_ip env) \<and>
     (\<forall>p src dest ttl tos proto n s e s'. te_output6 env p src dest ttl tos proto n s = Some (e, s') \<longrightarrow>
        view w s' = view w s) \<and>
     (\<forall>a s. view w (te_nd6_hint env a s) = view w s)"

lemma tcp_keepsD:
  assumes "tcp_keeps w env pcb"
  shows "m pcb = Some b \<Longrightarrow> tp_state b' = tp_state b \<Longrightarrow> w (m(pcb \<mapsto> b')) fl k x = w m fl k x"
    "ip_keeps (\<lambda>s. view w s) (te_ip env)"
    "te_output6 env p src dest ttl tos proto n s = Some r \<Longrightarrow> view w (snd r) = view w s"
    "view w (te_nd6_hint env a s) = view w s"
  using assms by (cases r; auto simp: tcp_keeps_def)+

lemma tcp_free_pbuf_mem [simp]: "tcp_free_pbuf p s = Some s' \<Longrightarrow> same_pcbs s s'"
  by (auto simp: tcp_free_pbuf_def split: bind_splits)

lemma tcp_seg_free_mem [simp]: "tcp_seg_free seg s = Some s' \<Longrightarrow> same_pcbs s s'"
  by (auto simp: tcp_seg_free_def split: if_splits)

lemma tcp_segs_free_mem [simp]: "tcp_segs_free segs s = Some s' \<Longrightarrow> same_pcbs s s'"
  by (induction segs arbitrary: s) (auto split: bind_splits)

lemma tcp_memp_malloc_mem [simp]:
  "tcp_memp_malloc s = (a, s') \<Longrightarrow>
   same_pcbs s s'"
  by (auto simp: tcp_memp_malloc_def Let_def)

lemma tcp_seg_copy_mem [simp]: "tcp_seg_copy seg s = Some (c, s') \<Longrightarrow> same_pcbs s s'"
  by (auto simp: tcp_seg_copy_def split: bind_splits if_splits prod.splits)

lemma tcp_create_segment_mem [simp]:
  "tcp_create_segment pcb p hf sq opt s = Some (seg, s') \<Longrightarrow> same_pcbs s s'"
  by (auto simp: tcp_create_segment_def Let_def split: bind_splits if_splits prod.splits)


lemma upd_tcp_keeps [keeps]:
  "upd_tcp pcb f s = Some s' \<Longrightarrow> tcp_keeps w env pcb \<Longrightarrow> (\<And>b. tp_state (f b) = tp_state b) \<Longrightarrow>
   view w s' = view w s"
  by (auto simp: upd_tcp_def put_tcp_def tcp_keepsD(1) split: bind_splits)

lemma put_tcp_keeps [keeps]:
  "tcp_keeps w env pcb \<Longrightarrow> tcp_mem s pcb = Some b \<Longrightarrow> tp_state b' = tp_state b \<Longrightarrow>
   view w (put_tcp pcb b' s) = view w s"
  by (simp add: put_tcp_def tcp_keepsD(1))

lemma flags_state [simp]: "tp_state (tcp_set_flags f b) = tp_state b" "tp_state (tcp_clear_flags f b) = tp_state b"
  "tp_state (tcp_ack_now b) = tp_state b" "tp_state (tcp_ack b) = tp_state b"
  by (simp_all add: tcp_set_flags_def tcp_clear_flags_def tcp_ack_now_def tcp_ack_def)

section \<open>Output\<close>

lemma ip_output_if_keeps [keeps]:
  "ip_output_if env p src dest ttl tos proto netif s = Some r \<Longrightarrow> tcp_keeps w env pcb \<Longrightarrow>
   view w (snd r) = view w s"
  by (auto simp: ip_output_if_def tcp_keepsD dest: ip4_output_if_keeps [OF _ tcp_keepsD(2)] split: if_splits)

lemma tcp_enqueue_flags_keeps [keeps]:
  assumes "tcp_enqueue_flags pcb flags s = Some (e, s')" "tcp_keeps w env pcb"
  shows "view w s' = view w s"
  using assms(1) by (auto simp: tcp_enqueue_flags_def run upd_tcp_keeps [OF _ assms(2)] put_tcp_keeps [OF assms(2)]
      if_distrib [of tp_state])

lemma tcp_output_alloc_header_keeps [keeps]:
  assumes "tcp_output_alloc_header pcb optlen datalen seqno s = Some (p, s')" "tcp_keeps w env pcb"
  shows "view w s' = view w s"
  using assms(1) by (auto simp: tcp_output_alloc_header_def run put_tcp_keeps [OF assms(2)] if_distrib [of tp_state])

lemma tcp_output_control_segment_keeps [keeps]:
  assumes "tcp_output_control_segment env q p src dst s = Some (e, s')" "tcp_keeps w env pcb"
  shows "view w s' = view w s"
  using assms(1) by (auto simp: tcp_output_control_segment_def run dest!: ip_output_if_keeps [OF _ assms(2)])

lemma tcp_rst_keeps [keeps]:
  assumes "tcp_rst env q seqno ackno lip rip lp rp s = Some s'" "tcp_keeps w env pcb"
  shows "view w s' = view w s"
  using assms(1) by (auto simp: tcp_rst_def run dest!: tcp_output_control_segment_keeps [OF _ assms(2)])

lemma tcp_send_empty_ack_keeps [keeps]:
  assumes "tcp_send_empty_ack env pcb s = Some (e, s')" "tcp_keeps w env pcb"
  shows "view w s' = view w s"
  using assms(1) by (auto simp: tcp_send_empty_ack_def run upd_tcp_keeps [OF _ assms(2)]
      dest!: tcp_output_control_segment_keeps [OF _ assms(2)] tcp_output_alloc_header_keeps [OF _ assms(2)])

lemma tcp_output_segment_fields_keeps [keeps]:
  assumes "tcp_output_segment_fields env seg pcb netif s = Some s'" "tcp_keeps w env pcb"
  shows "view w s' = view w s"
  using assms(1) by (auto simp: tcp_output_segment_fields_def run put_tcp_keeps [OF assms(2)] if_distrib [of tp_state])

lemma tcp_output_segment_keeps [keeps]:
  assumes "tcp_output_segment env seg pcb netif s = Some (e, s')" "tcp_keeps w env pcb"
  shows "view w s' = view w s"
  using assms(1) by (auto simp: tcp_output_segment_def run
      dest!: ip_output_if_keeps [OF _ assms(2)] tcp_output_segment_fields_keeps [OF _ assms(2)])

lemma tcp_segment_sent_keeps [keeps]:
  assumes "tcp_segment_sent seg pcb s = Some s'" "tcp_keeps w env pcb"
  shows "view w s' = view w s"
  using assms(1) by (auto simp: tcp_segment_sent_def run put_tcp_keeps [OF assms(2)] if_distrib [of tp_state])

lemma tcp_output_loop_keeps [keeps]:
  assumes "tcp_output_loop env pcb netif wnd s = Some r" "tcp_keeps w env pcb"
  shows "view w (snd r) = view w s"
proof -
  have "tcp_keeps w env pcb \<longrightarrow> view w (snd r) = view w s"
  proof (rule tcp_output_loop.raw_induct [where
      P = "\<lambda>env pcb netif wnd s r. tcp_keeps w env pcb \<longrightarrow> view w (snd r) = view w s", OF _ assms(1)],
      goal_cases)
    case (1 f env pcb netif wnd s r)
    show ?case
    proof
      assume k: "tcp_keeps w env pcb"
      from 1(2) show "view w (snd r) = view w s"
        by (auto simp: run upd_tcp_keeps [OF _ k]
            dest!: 1(1) [THEN mp, OF _ k] tcp_output_segment_keeps [OF _ k] tcp_segment_sent_keeps [OF _ k])
    qed
  qed
  then show ?thesis using assms(2) by simp
qed

lemma tcp_output_done_keeps [keeps]:
  assumes "tcp_output_done pcb s = Some (e, s')" "tcp_keeps w env pcb"
  shows "view w s' = view w s"
  using assms(1) by (auto simp: tcp_output_done_def upd_tcp_keeps [OF _ assms(2)] simp: run)


lemma tcp_start_persist_state [simp]: "tp_state (tcp_start_persist wnd b) = tp_state b"
  by (simp add: tcp_start_persist_def)

lemma tcp_output_keeps [keeps]:
  assumes "tcp_output env pcb s = Some (e, s')" "tcp_keeps w env pcb"
  shows "view w s' = view w s"
  using assms(1) by (auto simp: tcp_output_def run upd_tcp_keeps [OF _ assms(2)] put_tcp_keeps [OF assms(2)]
      if_distrib [of tp_state]
      dest!: tcp_send_empty_ack_keeps [OF _ assms(2)] tcp_output_done_keeps [OF _ assms(2)]
        tcp_output_loop_keeps [OF _ assms(2)])

lemma tcp_rexmit_rto_prepare_keeps [keeps]:
  assumes "tcp_rexmit_rto_prepare pcb s = Some (e, s')" "tcp_keeps w env pcb"
  shows "view w s' = view w s"
  using assms(1) by (auto simp: tcp_rexmit_rto_prepare_def run put_tcp_keeps [OF assms(2)])

lemma tcp_rexmit_rto_commit_keeps [keeps]:
  assumes "tcp_rexmit_rto_commit env pcb s = Some s'" "tcp_keeps w env pcb"
  shows "view w s' = view w s"
  using assms(1) by (auto simp: tcp_rexmit_rto_commit_def run upd_tcp_keeps [OF _ assms(2)]
      dest!: tcp_output_keeps [OF _ assms(2)])

lemma tcp_rexmit_rto_keeps [keeps]:
  assumes "tcp_rexmit_rto env pcb s = Some s'" "tcp_keeps w env pcb"
  shows "view w s' = view w s"
  using assms(1) by (auto simp: tcp_rexmit_rto_def run
      dest!: tcp_rexmit_rto_prepare_keeps [OF _ assms(2)] tcp_rexmit_rto_commit_keeps [OF _ assms(2)])

lemma tcp_rexmit_keeps [keeps]:
  assumes "tcp_rexmit pcb s = Some (e, s')" "tcp_keeps w env pcb"
  shows "view w s' = view w s"
  using assms(1) by (auto simp: tcp_rexmit_def run put_tcp_keeps [OF assms(2)] if_distrib [of tp_state])

lemma tcp_rexmit_fast_keeps [keeps]:
  assumes "tcp_rexmit_fast pcb s = Some s'" "tcp_keeps w env pcb"
  shows "view w s' = view w s"
  using assms(1) by (auto simp: tcp_rexmit_fast_def run upd_tcp_keeps [OF _ assms(2)]
      dest!: tcp_rexmit_keeps [OF _ assms(2)])

section \<open>Acknowledgements\<close>

lemma tcp_get_next_optbyte_mem [simp]: "tcp_get_next_optbyte s = Some (x, s') \<Longrightarrow> same_pcbs s s'"
  by (auto simp: tcp_get_next_optbyte_def run)

lemma tcp_parseopt_loop_keeps:
  assumes "tcp_parseopt_loop pcb s = Some s'" "tcp_keeps w env pcb"
  shows "view w s' = view w s"
proof -
  have "tcp_keeps w env pcb \<longrightarrow> view w s' = view w s"
  proof (rule tcp_parseopt_loop.raw_induct [where
      P = "\<lambda>pcb s s'. tcp_keeps w env pcb \<longrightarrow> view w s' = view w s", OF _ assms(1)], goal_cases)
    case (1 f pcb s s')
    show ?case
    proof
      assume k: "tcp_keeps w env pcb"
      from 1(2) show "view w s' = view w s"
        by (auto simp: run upd_tcp_keeps [OF _ k] dest!: 1(1) [THEN mp, OF _ k])
    qed
  qed
  then show ?thesis using assms(2) by simp
qed

lemma tcp_parseopt_keeps [keeps]:
  assumes "tcp_parseopt pcb s = Some s'" "tcp_keeps w env pcb"
  shows "view w s' = view w s"
  using assms(1) by (auto simp: tcp_parseopt_def run dest!: tcp_parseopt_loop_keeps [OF _ assms(2)])

lemma tcp_receive_dupack_keeps [keeps]:
  assumes "tcp_receive_dupack pcb edge s = Some s'" "tcp_keeps w env pcb"
  shows "view w s' = view w s"
  using assms(1) by (auto simp: tcp_receive_dupack_def run put_tcp_keeps [OF assms(2)] if_distrib [of tp_state]
      dest!: tcp_rexmit_fast_keeps [OF _ assms(2)])

lemma tcp_free_acked_segments_keeps [keeps]:
  assumes "tcp_free_acked_segments pcb segs other s = Some (r, s')" "tcp_keeps w env pcb"
  shows "view w s' = view w s"
  using assms(1) by (induction segs arbitrary: s) (auto simp: run put_tcp_keeps [OF assms(2)])

lemma tcp_receive_acked_state [simp]: "tp_state (tcp_receive_acked ackno b) = tp_state b"
  by (simp add: tcp_receive_acked_def tcp_receive_cwnd_def Let_def)

lemma tcp_receive_new_ack_keeps [keeps]:
  assumes "tcp_receive_new_ack env pcb s = Some s'" "tcp_keeps w env pcb"
  shows "view w s' = view w s"
  using assms(1) by (auto simp: tcp_receive_new_ack_def run upd_tcp_keeps [OF _ assms(2)]
      put_tcp_keeps [OF assms(2)] tcp_keepsD(4) [OF assms(2)]
      dest!: tcp_free_acked_segments_keeps [OF _ assms(2)])

lemma tcp_receive_rtt_state [simp]: "tp_state (tcp_receive_rtt t a b) = tp_state b"
  by (simp add: tcp_receive_rtt_def Let_def)

lemma tcp_receive_wnd_state [simp]: "tp_state (tcp_receive_wnd sq a wd b) = tp_state b"
  by (simp add: tcp_receive_wnd_def)

lemma tcp_receive_ack_keeps [keeps]:
  assumes "tcp_receive_ack env pcb s = Some s'" "tcp_keeps w env pcb"
  shows "view w s' = view w s"
  using assms(1) by (auto simp: tcp_receive_ack_def run upd_tcp_keeps [OF _ assms(2)]
      put_tcp_keeps [OF assms(2)]
      dest!: tcp_receive_dupack_keeps [OF _ assms(2)] tcp_receive_new_ack_keeps [OF _ assms(2)]
        tcp_send_empty_ack_keeps [OF _ assms(2)])


section \<open>Data\<close>

definition got_fin :: "'a tcp_state_scheme \<Rightarrow> bool" where
  "got_fin s \<longleftrightarrow> ti_recv_flags s AND TF_GOT_FIN \<noteq> 0"

text \<open>
  The segment has been worked into one PCB: the others are as they were, its state has changed at
  most from ESTABLISHED to CLOSE-WAIT, and that with a FIN, which is then recorded.
\<close>

definition pcb_state :: "'a tcp_state_scheme \<Rightarrow> nat \<Rightarrow> tcp_pstate option" where
  "pcb_state s p = map_option tp_state (tcp_mem s p)"

definition other_pcbs :: "nat \<Rightarrow> 'a tcp_state_scheme \<Rightarrow> nat \<Rightarrow> tcp_pcb option" where
  "other_pcbs pcb s = (tcp_mem s)(pcb := None)"

definition moved :: "nat \<Rightarrow> 'a tcp_state_scheme \<Rightarrow> 'a tcp_state_scheme \<Rightarrow> bool" where
  "moved pcb s s' \<longleftrightarrow> other_pcbs pcb s' = other_pcbs pcb s \<and>
     ti_flags s' = ti_flags s \<and> ti_ackno s' = ti_ackno s \<and>
     (ti_recv_flags s' = ti_recv_flags s \<or> ti_recv_flags s' = ti_recv_flags s OR TF_GOT_FIN) \<and>
     (pcb_state s' pcb = pcb_state s pcb \<or>
      pcb_state s pcb = Some ESTABLISHED \<and> pcb_state s' pcb = Some CLOSE_WAIT \<and> got_fin s')"

lemma got_fin_or [simp]: "(x OR TF_GOT_FIN) AND TF_GOT_FIN \<noteq> 0"
proof -
  have "(x OR TF_GOT_FIN) AND TF_GOT_FIN = TF_GOT_FIN" by (rule bit_word_eqI) (auto simp: bit_simps)
  then show ?thesis by (simp add: TF_GOT_FIN_def)
qed

lemma moved_refl [simp]: "moved pcb s s"
  by (simp add: moved_def)

lemma TF_GOT_FIN_nz [simp]: "TF_GOT_FIN \<noteq> 0"
  by (simp add: TF_GOT_FIN_def)

lemma got_fin_mono: "x AND TF_GOT_FIN \<noteq> 0 \<Longrightarrow> y = x \<or> y = x OR TF_GOT_FIN \<Longrightarrow> y AND TF_GOT_FIN \<noteq> 0"
  using got_fin_or by blast

lemma moved_trans:
  assumes "moved pcb s s1" "moved pcb s1 s2"
  shows "moved pcb s s2"
proof -
  note [simp] = or.assoc
  have "ti_recv_flags s1 = ti_recv_flags s \<or> ti_recv_flags s1 = ti_recv_flags s OR TF_GOT_FIN"
    "ti_recv_flags s2 = ti_recv_flags s1 \<or> ti_recv_flags s2 = ti_recv_flags s1 OR TF_GOT_FIN"
    using assms unfolding moved_def by blast+
  then have "ti_recv_flags s2 = ti_recv_flags s \<or> ti_recv_flags s2 = ti_recv_flags s OR TF_GOT_FIN"
    by (elim disjE) simp_all
  moreover have f: "got_fin s1 \<Longrightarrow> got_fin s2"
    using assms(2) got_fin_mono unfolding moved_def got_fin_def by blast
  have "pcb_state s1 pcb = pcb_state s pcb \<or>
      pcb_state s pcb = Some ESTABLISHED \<and> pcb_state s1 pcb = Some CLOSE_WAIT \<and> got_fin s1"
    "pcb_state s2 pcb = pcb_state s1 pcb \<or>
      pcb_state s1 pcb = Some ESTABLISHED \<and> pcb_state s2 pcb = Some CLOSE_WAIT \<and> got_fin s2"
    using assms unfolding moved_def by blast+
  then have "pcb_state s2 pcb = pcb_state s pcb \<or>
      pcb_state s pcb = Some ESTABLISHED \<and> pcb_state s2 pcb = Some CLOSE_WAIT \<and> got_fin s2"
    using f by (elim disjE conjE) simp_all
  moreover have "other_pcbs pcb s2 = other_pcbs pcb s" "ti_flags s2 = ti_flags s" "ti_ackno s2 = ti_ackno s"
    using assms unfolding moved_def by simp_all
  ultimately show ?thesis unfolding moved_def by blast
qed

lemma moved_same: "same_pcbs s s' \<Longrightarrow> moved pcb s s'"
  by (simp add: moved_def pcb_state_def other_pcbs_def)

lemma moved_put: "same_pcbs s s1 \<Longrightarrow> tcp_mem s pcb = Some b \<Longrightarrow> tp_state b' = tp_state b \<Longrightarrow> moved pcb s (put_tcp pcb b' s1)"
  by (simp add: moved_def pcb_state_def put_tcp_def other_pcbs_def)

lemma moved_then_same: "moved pcb s s1 \<Longrightarrow> same_pcbs s1 s2 \<Longrightarrow> moved pcb s s2"
  by (blast intro: moved_trans moved_same)

lemma moved_fin: "moved pcb s s1 \<Longrightarrow> same_pcbs (s1\<lparr>ti_recv_flags := ti_recv_flags s1 OR TF_GOT_FIN\<rparr>) s2 \<Longrightarrow> moved pcb s s2"
  by (erule moved_trans) (simp add: moved_def pcb_state_def other_pcbs_def)

lemma moved_close_wait:
  "same_pcbs (s\<lparr>ti_recv_flags := ti_recv_flags s OR TF_GOT_FIN\<rparr>) s1 \<Longrightarrow> tcp_mem s pcb = Some b \<Longrightarrow>
   tp_state b = ESTABLISHED \<Longrightarrow> tp_state b' = CLOSE_WAIT \<Longrightarrow> moved pcb s (put_tcp pcb b' s1)"
  by (simp add: moved_def pcb_state_def other_pcbs_def put_tcp_def got_fin_def)

lemma moved_upd: "upd_tcp pcb f s = Some s' \<Longrightarrow> (\<And>b. tp_state (f b) = tp_state b) \<Longrightarrow> moved pcb s s'"
  by (auto simp: upd_tcp_def run moved_put)

lemma tcp_trim_front_same [simp]: "tcp_trim_front nxt s = Some s' \<Longrightarrow> same_pcbs s s'"
  by (auto simp: tcp_trim_front_def run)

lemma tcp_receive_trim_moved: "tcp_receive_trim pcb s = Some s' \<Longrightarrow> moved pcb s s'"
  by (auto simp: tcp_receive_trim_def run intro: moved_same moved_upd)

lemma tcp_trim_inseg_same [simp]: "tcp_trim_inseg len s = Some s' \<Longrightarrow> same_pcbs s s'"
  by (auto simp: tcp_trim_inseg_def run)

lemma tcp_trim_to_wnd_same: "tcp_trim_to_wnd pcb s = Some s' \<Longrightarrow> same_pcbs s s'"
  by (auto simp: tcp_trim_to_wnd_def run)

lemma tcp_drop_covered_same [simp]: "tcp_drop_covered segs s = Some (r, s') \<Longrightarrow> same_pcbs s s'"
  by (induction segs arbitrary: s) (auto simp: run)

lemma tcp_receive_ooseq_overlap_moved: "tcp_receive_ooseq_overlap pcb s = Some s' \<Longrightarrow> moved pcb s s'"
  by (auto simp: tcp_receive_ooseq_overlap_def run upd_tcp_def intro!: moved_put)

lemma tcp_advance_rcv_state: "tcp_advance_rcv nxt n b = Some b' \<Longrightarrow> tp_state b' = tp_state b"
  by (auto simp: tcp_advance_rcv_def tcp_update_rcv_ann_wnd_def run)

lemma put_tcp_sel [simp]: "ti_flags (put_tcp p b s) = ti_flags s" "ti_ackno (put_tcp p b s) = ti_ackno s"
  "ti_recv_flags (put_tcp p b s) = ti_recv_flags s" "ip_heap (put_tcp p b s) = ip_heap s"
  "ti_inseg (put_tcp p b s) = ti_inseg s" "tcp_mem (put_tcp p b s) p = Some b"
  by (simp_all add: put_tcp_def)

lemma tcp_receive_inseg_moved:
  assumes "tcp_receive_inseg pcb s = Some s'"
  shows "moved pcb s s'"
proof -
  obtain b b' fl and pb :: pbuf where b: "tcp_mem s pcb = Some b"
    and b': "tcp_advance_rcv (ti_seqno s + ucast (ti_tcplen s)) (ti_tcplen s) b = Some b'"
    and r: "Some (let s1 = (if pb_tot_len pb > 0 then (put_tcp pcb b' s)\<lparr>ti_recv_data := sg_p (ti_inseg (put_tcp pcb b' s)),
          ti_inseg := (ti_inseg (put_tcp pcb b' s))\<lparr>sg_p := 0\<rparr>\<rparr> else put_tcp pcb b' s)
        in if fl AND TCP_FIN \<noteq> 0 then s1\<lparr>ti_recv_flags := ti_recv_flags s1 OR TF_GOT_FIN\<rparr> else s1) = Some s'"
    using assms unfolding tcp_receive_inseg_def bind_eq_Some_conv Let_def by (elim exE conjE) (rule that [unfolded Let_def])
  have s': "same_pcbs (put_tcp pcb b' s) s' \<or>
      same_pcbs ((put_tcp pcb b' s)\<lparr>ti_recv_flags := ti_recv_flags (put_tcp pcb b' s) OR TF_GOT_FIN\<rparr>) s'"
    using r [symmetric] unfolding option.inject Let_def by (cases "fl AND TCP_FIN = 0"; cases "pb_tot_len pb > 0"; simp)
  have "moved pcb s (put_tcp pcb b' s)"
    by (rule moved_put [OF _ b]) (simp_all add: tcp_advance_rcv_state [OF b'])
  then show ?thesis using s' by (blast intro: moved_then_same moved_fin)
qed

lemma tcp_take_ooseq_data_same: "tcp_take_ooseq_data cseg s = Some (cseg', s') \<Longrightarrow> same_pcbs s s'"
  by (auto simp: tcp_take_ooseq_data_def run)

lemma tcp_dequeue_ooseq_moved:
  assumes "tcp_dequeue_ooseq pcb cseg segs x s = Some s'"
  shows "moved pcb s s'"
proof -
  obtain n b b' fl s1 cseg' where b: "tcp_mem s pcb = Some b"
    and b': "tcp_advance_rcv (tp_rcv_nxt b + n) (ucast n) b = Some b'"
    and t: "tcp_take_ooseq_data cseg (s\<lparr>ti_seqno := x\<rparr>) = Some (cseg', s1)"
    and s': "tcp_seg_free cseg' (put_tcp pcb
        ((if fl AND TCP_FIN \<noteq> 0 \<and> tp_state b' = ESTABLISHED then b'\<lparr>tp_state := CLOSE_WAIT\<rparr> else b')\<lparr>tp_ooseq := segs\<rparr>)
        (if fl AND TCP_FIN \<noteq> 0 then s1\<lparr>ti_recv_flags := ti_recv_flags s1 OR TF_GOT_FIN\<rparr> else s1)) = Some s'"
    using assms by (simp only: tcp_dequeue_ooseq_def run lwip_assert_Some) (elim exE conjE, rule that, simp_all)
  have s1: "same_pcbs s s1" using tcp_take_ooseq_data_same [OF t] by simp
  note st = tcp_advance_rcv_state [OF b']
  show ?thesis
  proof (cases "fl AND TCP_FIN \<noteq> 0")
    case True
    show ?thesis
    proof (cases "tp_state b = ESTABLISHED")
      case closed: True
      have "moved pcb s (put_tcp pcb (b'\<lparr>tp_state := CLOSE_WAIT, tp_ooseq := segs\<rparr>)
          (s1\<lparr>ti_recv_flags := ti_recv_flags s1 OR TF_GOT_FIN\<rparr>))"
        using s1 by (intro moved_close_wait [OF _ b closed]) simp_all
      then show ?thesis using s' True closed st by (auto intro: moved_then_same)
    next
      case False
      have "moved pcb (s\<lparr>ti_recv_flags := ti_recv_flags s OR TF_GOT_FIN\<rparr>) (put_tcp pcb (b'\<lparr>tp_ooseq := segs\<rparr>)
          (s1\<lparr>ti_recv_flags := ti_recv_flags s1 OR TF_GOT_FIN\<rparr>))"
        using s1 b by (intro moved_put [of _ _ _ b]) (simp_all add: st)
      then have "moved pcb s (put_tcp pcb (b'\<lparr>tp_ooseq := segs\<rparr>)
          (s1\<lparr>ti_recv_flags := ti_recv_flags s1 OR TF_GOT_FIN\<rparr>))"
        by (rule moved_trans [rotated]) (rule moved_fin [OF moved_refl], simp)
      then show ?thesis using s' True False st by (auto intro: moved_then_same)
    qed
  next
    case False
    have "moved pcb s (put_tcp pcb (b'\<lparr>tp_ooseq := segs\<rparr>) s1)"
      using s1 b by (intro moved_put [of _ _ _ b]) (simp_all add: st)
    then show ?thesis using s' False by (auto intro: moved_then_same)
  qed
qed

lemma tcp_dequeue_loop_moved: "tcp_dequeue_loop pcb segs s = Some s' \<Longrightarrow> moved pcb s s'"
  by (induction segs arbitrary: s) (auto simp: run intro: moved_trans tcp_dequeue_ooseq_moved)

lemma oos_drop_covered_same [simp]: "oos_drop_covered cseg segs s = Some (r, s') \<Longrightarrow> same_pcbs s s'"
  by (induction segs arbitrary: s) (auto simp: run)

lemma tcp_oos_insert_segment_same [simp]: "tcp_oos_insert_segment cseg segs s = Some (r, s') \<Longrightarrow> same_pcbs s s'"
  by (auto simp: tcp_oos_insert_segment_def run)

lemma oos_trim_same [simp]: "oos_trim_tail seg x s = Some (r, s') \<Longrightarrow> same_pcbs s s'"
  "oos_trim_wnd pcb seg s = Some (r, s') \<Longrightarrow> same_pcbs s s'"
  by (auto simp: oos_trim_tail_def oos_trim_wnd_def run)

lemma oos_append_same [simp]: "oos_append pcb seg x s = Some (r, s') \<Longrightarrow> same_pcbs s s'"
  by (auto simp: oos_append_def run)

lemma oos_walk_same: "oos_walk pcb prev segs s = Some (r, s') \<Longrightarrow> same_pcbs s s'"
  by (induction segs arbitrary: prev s r) (auto simp: run)

end
