(* ===== verification/Lwip_Tcp_State.thy ===== *)
theory Lwip_Tcp_State
  imports Lwip_Tcp_Frame
begin

text \<open>
  The state machine of a connection against RFC 793. A segment that \<^verbatim>\<open>tcp_receive\<close> works into a
  connection leaves every other PCB as it is, and \<^verbatim>\<open>tcp_process\<close> changes the state of its PCB
  only along the edges of the RFC's diagram whose events the segment carries.
\<close>

section \<open>One PCB against the others\<close>

definition conn_view ::
  "nat \<Rightarrow> ((nat \<Rightarrow> tcp_pcb option) \<times> tcp_pstate option \<times> u8 \<times> u32 \<times> u8) tcp_view" where
  "conn_view pcb m f a r = (m(pcb := None), map_option tp_state (m pcb), f, a, r)"

lemma conn_view_moved: "view (conn_view pcb) s' = view (conn_view pcb) s \<Longrightarrow> moved pcb s s'"
  by (simp add: conn_view_def moved_def other_pcbs_def pcb_state_def)

lemma moved_other: "moved pcb s s' \<Longrightarrow> p \<noteq> pcb \<Longrightarrow> tcp_mem s' p = tcp_mem s p"
  by (metis moved_def other_pcbs_def fun_upd_other)

lemma moved_other_state: "moved pcb s s' \<Longrightarrow> p \<noteq> pcb \<Longrightarrow> pcb_state s' p = pcb_state s p"
  by (simp add: moved_other pcb_state_def)

text \<open>The functions below TCP do not touch PCBs.\<close>

definition tcp_lower_quiet :: "'a tcp_state_scheme tcp_env \<Rightarrow> nat \<Rightarrow> bool" where
  "tcp_lower_quiet env pcb \<longleftrightarrow> ip_keeps (\<lambda>s. view (conn_view pcb) s) (te_ip env) \<and>
     (\<forall>p src dest ttl tos proto n s e s'. te_output6 env p src dest ttl tos proto n s = Some (e, s') \<longrightarrow>
        view (conn_view pcb) s' = view (conn_view pcb) s) \<and>
     (\<forall>a s. view (conn_view pcb) (te_nd6_hint env a s) = view (conn_view pcb) s)"

lemma tcp_lower_quiet_keeps: "tcp_lower_quiet env pcb \<Longrightarrow> tcp_keeps (conn_view pcb) env pcb"
  by (simp add: tcp_lower_quiet_def tcp_keeps_def conn_view_def)

lemma nd6_hint_moved: "tcp_lower_quiet env pcb \<Longrightarrow> moved pcb s (te_nd6_hint env a s)"
  by (rule conn_view_moved) (simp add: tcp_lower_quiet_def)

lemma tcp_send_empty_ack_moved:
  "tcp_send_empty_ack env pcb s = Some (e, s') \<Longrightarrow> tcp_lower_quiet env pcb \<Longrightarrow> moved pcb s s'"
  by (rule conn_view_moved) (blast intro: tcp_send_empty_ack_keeps tcp_lower_quiet_keeps)

lemma tcp_receive_ack_moved:
  "tcp_receive_ack env pcb s = Some s' \<Longrightarrow> tcp_lower_quiet env pcb \<Longrightarrow> moved pcb s s'"
  by (rule conn_view_moved) (blast intro: tcp_receive_ack_keeps tcp_lower_quiet_keeps)

lemma moved_after: "moved pcb s1 s2 \<Longrightarrow> moved pcb s s1 \<Longrightarrow> moved pcb s s2"
  by (rule moved_trans)

lemma moved_before: "same_pcbs s s1 \<Longrightarrow> moved pcb s1 s2 \<Longrightarrow> moved pcb s s2"
  by (blast intro: moved_trans moved_same)

lemma tcp_ack_state [simp]: "tp_state (tcp_ack b) = tp_state b" "tp_state (tcp_ack_now b) = tp_state b"
  by (simp_all add: tcp_ack_def tcp_ack_now_def)

lemma upd_ooseq_moved: "upd_tcp pcb (\<lambda>b. b\<lparr>tp_ooseq := q\<rparr>) s = Some s' \<Longrightarrow> moved pcb s s'"
  by (erule moved_upd) simp

lemma upd_ack_moved: "upd_tcp pcb tcp_ack s = Some s' \<Longrightarrow> moved pcb s s'"
  "upd_tcp pcb tcp_ack_now s = Some s' \<Longrightarrow> moved pcb s s'"
  by (erule moved_upd, simp)+

lemma tcp_seg_copy_same: "tcp_seg_copy seg s = Some (c, s') \<Longrightarrow> same_pcbs s s'"
  by simp

lemma tcp_receive_in_order_moved:
  assumes "tcp_receive_in_order env pcb s = Some s'" "tcp_lower_quiet env pcb"
  shows "moved pcb s s'"
proof -
  obtain n s1 s2 s3 segs s4 s5 where s1: "tcp_trim_to_wnd pcb (s\<lparr>ti_tcplen := n\<rparr>) = Some s1"
    and s2: "tcp_receive_ooseq_overlap pcb s1 = Some s2" and s3: "tcp_receive_inseg pcb s2 = Some s3"
    and s4: "tcp_dequeue_loop pcb segs s3 = Some s4" and s5: "upd_tcp pcb tcp_ack s4 = Some s5"
    and s': "s' = s5 \<or> (\<exists>a. s' = te_nd6_hint env a s5)"
    using assms(1) by (simp only: tcp_receive_in_order_def run) (elim exE conjE, rule that, auto split: if_splits)
  have "moved pcb s5 s'" using s' nd6_hint_moved [OF assms(2)] by auto
  moreover have "moved pcb s s1" using tcp_trim_to_wnd_same [OF s1] by (intro moved_same) simp
  ultimately show ?thesis
    using tcp_receive_ooseq_overlap_moved [OF s2] tcp_receive_inseg_moved [OF s3] tcp_dequeue_loop_moved [OF s4]
      upd_ack_moved(1) [OF s5] by (blast intro: moved_trans)
qed

lemma tcp_receive_out_of_order_moved:
  assumes "tcp_receive_out_of_order env pcb s = Some s'" "tcp_lower_quiet env pcb"
  shows "moved pcb s s'"
proof -
  obtain q s1 s2 e where s1: "same_pcbs s s1"
    and s2: "upd_tcp pcb (\<lambda>b. b\<lparr>tp_ooseq := q\<rparr>) s1 = Some s2" and s': "tcp_send_empty_ack env pcb s2 = Some (e, s')"
    using assms(1) unfolding tcp_receive_out_of_order_def run
    by (elim exE conjE disjE) (auto dest: oos_walk_same tcp_seg_copy_same)
  show ?thesis
    using moved_same [OF s1] upd_ooseq_moved [OF s2] tcp_send_empty_ack_moved [OF s' assms(2)]
    by (blast intro: moved_trans)
qed

lemma tcp_receive_data_moved:
  assumes "tcp_receive_data env pcb s = Some s'" "tcp_lower_quiet env pcb"
  shows "moved pcb s s'"
  using assms by (auto simp: tcp_receive_data_def run dest!: tcp_receive_trim_moved
      tcp_receive_in_order_moved tcp_receive_out_of_order_moved tcp_send_empty_ack_moved intro: moved_trans)

lemma tcp_receive_moved:
  assumes "tcp_receive env pcb s = Some s'" "tcp_lower_quiet env pcb"
  shows "moved pcb s s'"
proof -
  obtain s1 where s1: "s1 = s \<or> tcp_receive_ack env pcb s = Some s1"
    and s': "tcp_receive_data env pcb s1 = Some s' \<or> upd_tcp pcb tcp_ack_now s1 = Some s' \<or> s' = s1"
    using assms(1) by (auto simp: tcp_receive_def run)
  have "moved pcb s s1" using s1 tcp_receive_ack_moved [OF _ assms(2)] by auto
  moreover have "moved pcb s1 s'" using s' tcp_receive_data_moved [OF _ assms(2)] upd_ack_moved(2) by auto
  ultimately show ?thesis by (rule moved_trans)
qed

section \<open>The diagram of RFC 793\<close>

text \<open>
  What a segment brings: the SYN-ACK to our SYN, an acceptable acknowledgement of our SYN-ACK, a
  FIN in order, and the acknowledgement of all that was sent, our FIN included.
\<close>

datatype tcp_event = Ev_syn_ack | Ev_ack | Ev_fin | Ev_fin_acked

inductive rfc793 :: "tcp_event \<Rightarrow> tcp_pstate \<Rightarrow> tcp_pstate \<Rightarrow> bool" where
  connect: "rfc793 Ev_syn_ack SYN_SENT ESTABLISHED"
| accept: "rfc793 Ev_ack SYN_RCVD ESTABLISHED"
| peer_closes: "rfc793 Ev_fin ESTABLISHED CLOSE_WAIT"
| simultaneous: "rfc793 Ev_fin FIN_WAIT_1 CLOSING"
| half_closed: "rfc793 Ev_fin_acked FIN_WAIT_1 FIN_WAIT_2"
| closed: "rfc793 Ev_fin FIN_WAIT_2 TIME_WAIT"
| closed_both: "rfc793 Ev_fin_acked CLOSING TIME_WAIT"

inductive rfc793_path :: "tcp_event set \<Rightarrow> tcp_pstate \<Rightarrow> tcp_pstate \<Rightarrow> bool" for E where
  stay [intro, simp]: "rfc793_path E q q"
| edge: "rfc793_path E q r \<Longrightarrow> e \<in> E \<Longrightarrow> rfc793 e r t \<Longrightarrow> rfc793_path E q t"

inductive_cases rfc793_pathE: "rfc793_path E q r"

lemma rfc793_path_trans: "rfc793_path E r t \<Longrightarrow> rfc793_path E q r \<Longrightarrow> rfc793_path E q t"
  by (induction rule: rfc793_path.induct) (auto intro: edge)

lemma rfc793_path_mono: "rfc793_path E q r \<Longrightarrow> E \<subseteq> F \<Longrightarrow> rfc793_path F q r"
  by (induction rule: rfc793_path.induct) (auto intro: edge)

lemma rfc793_path_edge: "rfc793 e q r \<Longrightarrow> e \<in> E \<Longrightarrow> rfc793_path E q r"
  by (blast intro: edge)

text \<open>The states of all PCBs, and what was found in the segment.\<close>

definition same_states :: "'a tcp_state_scheme \<Rightarrow> 'a tcp_state_scheme \<Rightarrow> bool" where
  "same_states s s' \<longleftrightarrow> pcb_state s' = pcb_state s \<and> ti_flags s' = ti_flags s \<and> ti_ackno s' = ti_ackno s \<and>
     ti_recv_flags s' = ti_recv_flags s"

definition fin_event :: "'a tcp_state_scheme \<Rightarrow> tcp_event set" where
  "fin_event s = (if got_fin s then {Ev_fin} else {})"

text \<open>The state of \<^verbatim>\<open>pcb\<close> follows the diagram; those of the other PCBs stay.\<close>

definition goes :: "nat \<Rightarrow> tcp_event set \<Rightarrow> 'a tcp_state_scheme \<Rightarrow> 'a tcp_state_scheme \<Rightarrow> bool" where
  "goes pcb E s s' \<longleftrightarrow> (\<forall>p. p \<noteq> pcb \<longrightarrow> pcb_state s' p = pcb_state s p) \<and>
     ti_flags s' = ti_flags s \<and> ti_ackno s' = ti_ackno s \<and> (got_fin s \<longrightarrow> got_fin s') \<and>
     (\<forall>q. pcb_state s pcb = Some q \<longrightarrow> (\<exists>r. pcb_state s' pcb = Some r \<and> rfc793_path (E \<union> fin_event s') q r))"

lemma goesD:
  "goes pcb E s s' \<Longrightarrow> pcb_state s pcb = Some q \<Longrightarrow>
   \<exists>r. pcb_state s' pcb = Some r \<and> rfc793_path (E \<union> fin_event s') q r"
  by (simp add: goes_def)

lemma goes_trans: "goes pcb E s s1 \<Longrightarrow> goes pcb F s1 s2 \<Longrightarrow> goes pcb (E \<union> F) s s2"
proof -
  assume 1: "goes pcb E s s1" and 2: "goes pcb F s1 s2"
  have sub: "E \<union> fin_event s1 \<subseteq> E \<union> F \<union> fin_event s2" "F \<union> fin_event s2 \<subseteq> E \<union> F \<union> fin_event s2"
    using 2 by (auto simp: goes_def fin_event_def)
  have "\<exists>t. pcb_state s2 pcb = Some t \<and> rfc793_path (E \<union> F \<union> fin_event s2) q t" if q: "pcb_state s pcb = Some q" for q
  proof -
    obtain r where r: "pcb_state s1 pcb = Some r" "rfc793_path (E \<union> fin_event s1) q r"
      using goesD [OF 1 q] by blast
    obtain t where t: "pcb_state s2 pcb = Some t" "rfc793_path (F \<union> fin_event s2) r t"
      using goesD [OF 2 r(1)] by blast
    show ?thesis using t(1) rfc793_path_trans [OF rfc793_path_mono [OF t(2) sub(2)] rfc793_path_mono [OF r(2) sub(1)]]
      by blast
  qed
  moreover have "pcb_state s2 p = pcb_state s p" if "p \<noteq> pcb" for p using 1 2 that by (simp add: goes_def)
  moreover have "ti_flags s2 = ti_flags s" "ti_ackno s2 = ti_ackno s" "got_fin s \<longrightarrow> got_fin s2"
    using 1 2 by (simp_all add: goes_def)
  ultimately show ?thesis unfolding goes_def by blast
qed

lemma goes_trans0: "goes pcb E s s1 \<Longrightarrow> goes pcb {} s1 s2 \<Longrightarrow> goes pcb E s s2"
  "goes pcb {} s s1 \<Longrightarrow> goes pcb E s1 s2 \<Longrightarrow> goes pcb E s s2"
  using goes_trans [of pcb E s s1 "{}" s2] goes_trans [of pcb "{}" s s1 E s2] by simp_all

lemma goes_same: "same_states s s' \<Longrightarrow> goes pcb {} s s'"
  by (auto simp: goes_def same_states_def got_fin_def)

lemma same_pcbs_states: "same_pcbs s s' \<Longrightarrow> same_states s s'"
  by (simp add: same_states_def pcb_state_def fun_eq_iff)

lemma conn_view_states:
  assumes "view (conn_view pcb) s' = view (conn_view pcb) s"
  shows "same_states s s'"
proof -
  have "pcb_state s' p = pcb_state s p" for p
    using assms moved_other [OF conn_view_moved [OF assms], of p]
    by (cases "p = pcb") (simp_all add: conn_view_def pcb_state_def)
  then show ?thesis using assms by (auto simp: same_states_def conn_view_def)
qed

lemma pcb_state_put [simp]: "pcb_state (put_tcp p b s) = (pcb_state s)(p \<mapsto> tp_state b)"
  by (auto simp: pcb_state_def put_tcp_def)

lemma got_fin_put [simp]: "got_fin (put_tcp p b s) = got_fin s"
  by (simp add: got_fin_def)

lemma fin_event_put [simp]: "fin_event (put_tcp p b s) = fin_event s"
  by (simp add: fin_event_def)

lemma same_states_put: "tcp_mem s pcb = Some b \<Longrightarrow> tp_state b' = tp_state b \<Longrightarrow> same_states s (put_tcp pcb b' s)"
  by (auto simp: same_states_def pcb_state_def put_tcp_def)

lemma goes_put: "tcp_mem s pcb = Some b \<Longrightarrow> tp_state b' = tp_state b \<Longrightarrow> goes pcb {} s (put_tcp pcb b' s)"
  by (rule goes_same) (rule same_states_put)

lemma goes_edge:
  "tcp_mem s pcb = Some b \<Longrightarrow> rfc793_path (E \<union> fin_event s) (tp_state b) (tp_state b') \<Longrightarrow> goes pcb E s (put_tcp pcb b' s)"
  by (auto simp: goes_def pcb_state_def)

lemma goes_upd: "upd_tcp pcb f s = Some s' \<Longrightarrow> (\<And>b. tp_state (f b) = tp_state b) \<Longrightarrow> goes pcb {} s s'"
  by (auto simp: upd_tcp_def run intro: goes_put)

lemma peer_closes_path [simp]: "rfc793_path {Ev_fin} ESTABLISHED CLOSE_WAIT"
  by (rule rfc793_path_edge [OF peer_closes]) simp

lemma goes_moved: "moved pcb s s' \<Longrightarrow> goes pcb {} s s'"
  unfolding goes_def by (auto simp: moved_other_state) (auto simp: moved_def fin_event_def got_fin_def)

text \<open>The steps of a run, one at a time; of a local definition of a PCB only its state is kept.\<close>

lemma bindE: "m \<bind> f = Some z \<Longrightarrow> (\<And>x. m = Some x \<Longrightarrow> f x = Some z \<Longrightarrow> P) \<Longrightarrow> P"
  by (auto simp: bind_eq_Some_conv)

lemma bind_pairE:
  "m \<bind> (\<lambda>(a, b). f a b) = Some z \<Longrightarrow> (\<And>a b. m = Some (a, b) \<Longrightarrow> f a b = Some z \<Longrightarrow> P) \<Longrightarrow> P"
  by (auto simp: bind_eq_Some_conv)

lemma let_pcbE:
  "Let (x :: tcp_pcb) f = Some z \<Longrightarrow> (\<And>y. tp_state y = tp_state x \<Longrightarrow> f y = Some z \<Longrightarrow> P) \<Longrightarrow> P"
  by simp

lemma let_stateE:
  "Let (x :: 'a tcp_state_scheme) f = Some z \<Longrightarrow> (\<And>y. y = x \<Longrightarrow> f y = Some z \<Longrightarrow> P) \<Longrightarrow> P"
  by simp

lemmas stepE = bind_pairE bindE let_pcbE let_stateE

section \<open>Operations that change no state\<close>

text \<open>The calls of a connection that is received: those that return \<open>ERR_ABRT\<close> may do anything.\<close>

definition tcp_calls_quiet :: "'a tcp_state_scheme tcp_env \<Rightarrow> bool" where
  "tcp_calls_quiet env \<longleftrightarrow> (\<forall>s s'. te_timer_needed env s = Some s' \<longrightarrow> same_pcbs s s') \<and>
     (\<forall>f arg pcb err s s'. te_accept env f arg pcb err s = Some (ERR_OK, s') \<longrightarrow> same_states s s') \<and>
     (\<forall>f arg pcb err s e s'. te_connected env f arg pcb err s = Some (e, s') \<longrightarrow> e \<noteq> ERR_ABRT \<longrightarrow> same_states s s')"

definition tcp_quiet :: "'a tcp_state_scheme tcp_env \<Rightarrow> nat \<Rightarrow> bool" where
  "tcp_quiet env pcb \<longleftrightarrow> tcp_lower_quiet env pcb \<and> tcp_calls_quiet env"

lemma tcp_quiet_keeps: "tcp_quiet env pcb \<Longrightarrow> tcp_keeps (conn_view pcb) env pcb"
  by (simp add: tcp_quiet_def tcp_lower_quiet_keeps)

lemma goes_view: "view (conn_view pcb) s' = view (conn_view pcb) s \<Longrightarrow> goes pcb {} s s'"
  by (rule goes_same) (rule conn_view_states)

lemma tcp_receive_goes: "tcp_receive env pcb s = Some s' \<Longrightarrow> tcp_quiet env pcb \<Longrightarrow> goes pcb {} s s'"
  by (simp add: tcp_quiet_def goes_moved tcp_receive_moved)

lemma tcp_rst_input_goes: "tcp_rst_input env pcb s = Some s' \<Longrightarrow> tcp_quiet env pcb \<Longrightarrow> goes pcb {} s s'"
  by (rule goes_view) (auto simp: tcp_rst_input_def run intro: tcp_rst_keeps tcp_quiet_keeps)

lemma tcp_rexmit_rto_goes: "tcp_rexmit_rto env pcb s = Some s' \<Longrightarrow> tcp_quiet env pcb \<Longrightarrow> goes pcb {} s s'"
  by (rule goes_view) (auto intro: tcp_rexmit_rto_keeps tcp_quiet_keeps)

lemma tcp_rexmit_goes:
  fixes env :: "'a tcp_state_scheme tcp_env"
  shows "tcp_rexmit pcb (s :: 'a tcp_state_scheme) = Some (e, s') \<Longrightarrow> tcp_quiet env pcb \<Longrightarrow> goes pcb {} s s'"
  by (rule goes_view) (auto intro: tcp_rexmit_keeps tcp_quiet_keeps)

text \<open>The numbers of a PCB: what moving it between the lists leaves.\<close>

definition pcb_nums :: "'a tcp_state_scheme \<Rightarrow> nat \<Rightarrow> (tcp_pstate \<times> u32 \<times> tcp_seg list) option" where
  "pcb_nums s p = map_option (\<lambda>b. (tp_state b, tp_snd_nxt b, tp_unsent b)) (tcp_mem s p)"

definition same_nums :: "'a tcp_state_scheme \<Rightarrow> 'a tcp_state_scheme \<Rightarrow> bool" where
  "same_nums s s' \<longleftrightarrow> pcb_nums s' = pcb_nums s \<and> ti_flags s' = ti_flags s \<and> ti_ackno s' = ti_ackno s \<and>
     ti_recv_flags s' = ti_recv_flags s"

lemma same_nums_trans: "same_nums s s1 \<Longrightarrow> same_nums s1 s2 \<Longrightarrow> same_nums s s2"
  by (simp add: same_nums_def)

lemma same_nums_states: "same_nums s s' \<Longrightarrow> same_states s s'"
proof -
  have s: "pcb_state t = (\<lambda>p. map_option fst (pcb_nums t p))" for t :: "'a tcp_state_scheme"
    by (auto simp: fun_eq_iff pcb_nums_def pcb_state_def option.map_comp comp_def)
  show "same_nums s s' \<Longrightarrow> same_states s s'" by (simp add: same_nums_def same_states_def s)
qed

lemma same_pcbs_nums: "same_pcbs s s' \<Longrightarrow> same_nums s s'"
  by (simp add: same_nums_def pcb_nums_def fun_eq_iff)

lemma same_nums_upd:
  "upd_tcp p f s = Some s' \<Longrightarrow> (\<And>b. (tp_state (f b), tp_snd_nxt (f b), tp_unsent (f b)) = (tp_state b, tp_snd_nxt b, tp_unsent b)) \<Longrightarrow>
   same_nums s s'"
  by (auto simp: upd_tcp_def run same_nums_def pcb_nums_def put_tcp_def fun_eq_iff)

lemma set_tcp_list_same [simp]: "same_pcbs s (set_tcp_list l p s)"
  by (cases l) (simp_all add: set_tcp_list_def)

lemma same_nums_list: "same_nums s (set_tcp_list l p s)"
  by (rule same_pcbs_nums) simp

lemma same_nums_changed: "same_nums s s' \<Longrightarrow> same_nums s (s'\<lparr>tcp_active_pcbs_changed := c\<rparr>)"
  by (simp add: same_nums_def pcb_nums_def fun_eq_iff)

lemma same_nums_refl [simp]: "same_nums s s"
  by (simp add: same_nums_def)

lemma upd_next_nums: "upd_tcp p (\<lambda>b. b\<lparr>tp_next := n\<rparr>) s = Some s' \<Longrightarrow> same_nums s s'"
  by (erule same_nums_upd) simp

lemma TCP_RMV_nums:
  assumes "TCP_RMV l p s = Some s'"
  shows "same_nums s s'"
proof -
  obtain s1 where s1: "same_nums s s1" and s': "upd_tcp p (\<lambda>b. b\<lparr>tp_next := 0\<rparr>) s1 = Some s'"
    using assms unfolding TCP_RMV_def run
    by (elim exE conjE disjE) (auto intro: same_nums_list upd_next_nums same_nums_refl)
  show ?thesis using s1 upd_next_nums [OF s'] by (rule same_nums_trans)
qed

lemma TCP_RMV_ACTIVE_nums: "TCP_RMV_ACTIVE p s = Some s' \<Longrightarrow> same_nums s s'"
  by (auto simp: TCP_RMV_ACTIVE_def run intro: same_nums_changed dest!: TCP_RMV_nums)

lemma TCP_REG_nums: "TCP_REG env l p s = Some s' \<Longrightarrow> tcp_calls_quiet env \<Longrightarrow> same_nums s s'"
proof -
  assume "TCP_REG env l p s = Some s'" and q: "tcp_calls_quiet env"
  then obtain s1 where s1: "upd_tcp p (\<lambda>b. b\<lparr>tp_next := tcp_list_head l s\<rparr>) s = Some s1"
    and s': "te_timer_needed env (set_tcp_list l p s1) = Some s'" by (auto simp: TCP_REG_def run)
  have "same_pcbs (set_tcp_list l p s1) s'" using q s' by (simp add: tcp_calls_quiet_def)
  then have "same_nums s1 s'" by (intro same_pcbs_nums) simp
  with upd_next_nums [OF s1] show ?thesis by (rule same_nums_trans)
qed

text \<open>Purging a PCB that is alive empties its queues.\<close>

lemma upd_tcp_mem: "upd_tcp p f s = Some s' \<longleftrightarrow> (\<exists>b. tcp_mem s p = Some b \<and> s' = put_tcp p (f b) s)"
  by (auto simp: upd_tcp_def run)

lemma same_pcbs_put: "same_pcbs s s1 \<Longrightarrow> same_pcbs (put_tcp p b s) (put_tcp p b s1)"
  by (simp add: put_tcp_def)

text \<open>All fields that purging leaves: \<open>b'\<close> differs from \<open>b\<close> in its queues only.\<close>

definition purged :: "tcp_pcb \<Rightarrow> tcp_pcb \<Rightarrow> bool" where
  "purged b b' \<longleftrightarrow> tp_state b' = tp_state b \<and> tp_snd_nxt b' = tp_snd_nxt b"

definition to_pcb :: "nat \<Rightarrow> tcp_pcb \<Rightarrow> 'a tcp_state_scheme \<Rightarrow> 'a tcp_state_scheme \<Rightarrow> bool" where
  "to_pcb pcb b s s' \<longleftrightarrow> (\<exists>b'. same_pcbs (put_tcp pcb b' s) s' \<and> purged b b')"

lemma to_pcb_start: "tcp_mem s pcb = Some b \<Longrightarrow> to_pcb pcb b s s"
  unfolding to_pcb_def purged_def by (intro exI [of _ b]) (auto simp: put_tcp_def)

lemma to_pcb_same: "to_pcb pcb b s s1 \<Longrightarrow> same_pcbs s1 s2 \<Longrightarrow> to_pcb pcb b s s2"
  unfolding to_pcb_def by auto

lemma to_pcb_upd:
  "to_pcb pcb b s s1 \<Longrightarrow> upd_tcp pcb f s1 = Some s2 \<Longrightarrow> (\<And>b. purged b (f b)) \<Longrightarrow> to_pcb pcb b s s2"
  unfolding to_pcb_def upd_tcp_mem purged_def by (elim exE conjE) (auto simp: put_tcp_def)

lemma purged_queue: "purged b (b\<lparr>tp_refused_data := 0\<rparr>)" "purged b (b\<lparr>tp_ooseq := []\<rparr>)"
  by (simp_all add: purged_def)

lemma tcp_pcb_purge_mem:
  assumes "tcp_pcb_purge pcb s = Some s'" "tcp_mem s pcb = Some b" "tp_state b > LISTEN" "tp_state b \<noteq> TIME_WAIT"
  shows "\<exists>b'. same_pcbs (put_tcp pcb b' s) s' \<and> tp_state b' = tp_state b \<and> tp_snd_nxt b' = tp_snd_nxt b \<and> tp_unsent b' = []"
proof -
  have alive: "(tp_state b \<noteq> CLOSED \<and> tp_state b \<noteq> TIME_WAIT \<and> tp_state b \<noteq> LISTEN) = True"
    using assms(3,4) by (auto simp: less_tcp_pstate_def)
  obtain s1 s2 s3 s4 where
    2: "tcp_free_ooseq pcb s1 = Some s2" and 3: "tcp_segs_free (tp_unsent b) s2 = Some s3"
    and 4: "tcp_segs_free (tp_unacked b) s3 = Some s4"
    and 5: "upd_tcp pcb (\<lambda>b. b\<lparr>tp_rtime := - 1, tp_unsent := [], tp_unacked := [], tp_unsent_oversize := 0\<rparr>) s4 = Some s'"
    and 1: "s1 = s \<or> (\<exists>s0. tcp_free_pbuf (tp_refused_data b) s = Some s0 \<and>
          upd_tcp pcb (\<lambda>b. b\<lparr>tp_refused_data := 0\<rparr>) s0 = Some s1)"
    using assms(1) unfolding tcp_pcb_purge_def
    by (simp only: run assms(2) option.inject alive simp_thms ex_simps) (elim exE conjE, rule that, assumption+, blast)
  have "to_pcb pcb b s s1" using 1 to_pcb_start [OF assms(2)]
    by (elim disjE exE conjE) (simp, metis (no_types, lifting) to_pcb_upd to_pcb_same tcp_free_pbuf_mem purged_queue(1))
  then have "to_pcb pcb b s s2" using 2
    unfolding tcp_free_ooseq_def bind_eq_Some_conv if_eq_Some
    by (elim disjE exE conjE) (metis (no_types, lifting) to_pcb_upd to_pcb_same tcp_segs_free_mem purged_queue(2), simp)
  then have "to_pcb pcb b s s4" using tcp_segs_free_mem [OF 3] tcp_segs_free_mem [OF 4] by (meson to_pcb_same)
  then show ?thesis using 5 unfolding to_pcb_def upd_tcp_mem purged_def by (elim exE conjE) (auto simp: put_tcp_def)
qed

lemma tcp_enter_time_wait_goes:
  assumes "tcp_enter_time_wait env pcb s = Some s'" "tcp_quiet env pcb" "tcp_mem s pcb = Some b"
    "tp_state b > LISTEN" "tp_state b \<noteq> TIME_WAIT" "rfc793_path (E \<union> fin_event s) (tp_state b) TIME_WAIT"
  shows "goes pcb E s s'" "\<exists>b'. tcp_mem s' pcb = Some b' \<and> tp_snd_nxt b' = tp_snd_nxt b \<and> tp_unsent b' = []"
proof -
  obtain s1 s2 s3 where s1: "tcp_pcb_purge pcb s = Some s1" and s2: "TCP_RMV_ACTIVE pcb s1 = Some s2"
    and s3: "upd_tcp pcb (\<lambda>b. b\<lparr>tp_state := TIME_WAIT\<rparr>) s2 = Some s3" and s': "TCP_REG env L_tw pcb s3 = Some s'"
    using assms(1) by (auto simp: tcp_enter_time_wait_def run)
  obtain b1 where b1: "same_pcbs (put_tcp pcb b1 s) s1" "tp_state b1 = tp_state b" "tp_snd_nxt b1 = tp_snd_nxt b"
      "tp_unsent b1 = []"
    using tcp_pcb_purge_mem [OF s1 assms(3-5)] by blast
  have n2: "same_nums s1 s2" by (rule TCP_RMV_ACTIVE_nums [OF s2])
  have n': "same_nums s3 s'" using TCP_REG_nums [OF s'] assms(2) by (simp add: tcp_quiet_def)
  have "pcb_nums s2 pcb = Some (tp_state b, tp_snd_nxt b, [])"
    using n2 b1 by (simp add: same_nums_def pcb_nums_def)
  then obtain b2 where b2: "tcp_mem s2 pcb = Some b2" "tp_snd_nxt b2 = tp_snd_nxt b" "tp_unsent b2 = []" "tp_state b2 = tp_state b"
    by (auto simp: pcb_nums_def)
  have s3': "s3 = put_tcp pcb (b2\<lparr>tp_state := TIME_WAIT\<rparr>) s2" using s3 b2(1) by (simp add: upd_tcp_def)
  have "goes pcb {} s s1" using b1(1) goes_put [OF assms(3) b1(2)] goes_trans0(1) goes_same [OF same_pcbs_states] by blast
  moreover have g2: "goes pcb {} s1 s2" by (rule goes_same [OF same_nums_states [OF n2]])
  moreover have "goes pcb E s2 s3" unfolding s3'
    using assms(6) b1(1) n2 by (intro goes_edge [OF b2(1)]) (simp add: b2 fin_event_def got_fin_def same_nums_def)
  moreover have "goes pcb {} s3 s'" by (rule goes_same [OF same_nums_states [OF n']])
  ultimately show "goes pcb E s s'" by (meson goes_trans0)
  have "pcb_nums s' pcb = Some (TIME_WAIT, tp_snd_nxt b, [])"
    using n' b2 by (simp add: same_nums_def pcb_nums_def s3')
  then show "\<exists>b'. tcp_mem s' pcb = Some b' \<and> tp_snd_nxt b' = tp_snd_nxt b \<and> tp_unsent b' = []"
    by (auto simp: pcb_nums_def)
qed

end
