(* ===== verification/Lwip_Tcp_Process.thy ===== *)
theory Lwip_Tcp_Process
  imports Lwip_Tcp_State Lwip_Tcp_Wnd
begin

text \<open>
  The refinement of the diagram of RFC 793 by \<^verbatim>\<open>tcp_process\<close>, and the acceptance of resets.
\<close>

section \<open>Processing a segment\<close>

text \<open>The events a segment with these fields brings to a PCB.\<close>

definition syn_events :: "'a tcp_state_scheme \<Rightarrow> tcp_pcb \<Rightarrow> tcp_event set" where
  "syn_events s b =
     (if ti_flags s AND TCP_ACK \<noteq> 0 \<and> ti_flags s AND TCP_SYN \<noteq> 0 \<and> ti_ackno s = tp_lastack b + 1 then {Ev_syn_ack} else {}) \<union>
     (if ti_flags s AND TCP_ACK \<noteq> 0 \<and> TCP_SEQ_BETWEEN (ti_ackno s) (tp_lastack b + 1) (tp_snd_nxt b) then {Ev_ack} else {})"

text \<open>Our FIN is acknowledged when an acknowledgement covers all that was sent and nothing is left to send.\<close>

definition fin_acked_event :: "'a tcp_state_scheme \<Rightarrow> tcp_pcb \<Rightarrow> tcp_event set" where
  "fin_acked_event s b =
     (if ti_flags s AND TCP_ACK \<noteq> 0 \<and> ti_ackno s = tp_snd_nxt b \<and> tp_unsent b = [] then {Ev_fin_acked} else {})"

lemma fin_acked_event_eq: "fin_acked_event s b = (if tcp_fin_acked b s then {Ev_fin_acked} else {})"
  by (simp add: fin_acked_event_def tcp_fin_acked_def)

lemma rseg_state:
  "(case tp_unacked b of
      [] \<Rightarrow> (case tp_unsent b of [] \<Rightarrow> None | rseg # segs \<Rightarrow> Some (rseg, b\<lparr>tp_unsent := segs\<rparr>))
    | rseg # segs \<Rightarrow> Some (rseg, b\<lparr>tp_unacked := segs\<rparr>)) = Some (r, b') \<Longrightarrow> tp_state b' = tp_state b"
  by (auto split: list.splits)

lemma rtime_state: "tp_state (if c then b\<lparr>tp_rtime := x\<rparr> else b\<lparr>tp_rtime := y, tp_nrtx := z\<rparr>) = tp_state b"
  by simp

lemma connected_tail:
  "(if e = ERR_ABRT then Some (ERR_ABRT, s) else upd_tcp pcb f s \<bind> (\<lambda>s. Some (ERR_OK, s))) = Some (err, s') \<Longrightarrow>
   if e = ERR_ABRT then err = ERR_ABRT else upd_tcp pcb f s = Some s'"
  by (cases "upd_tcp pcb f s") (auto split: if_splits)

lemma tcp_syn_sent_established_run:
  assumes "tcp_syn_sent_established env pcb s = Some (err, s')"
  obtains b1 s1 e s2 rseg where "TCP_EVENT_CONNECTED env pcb ERR_OK (put_tcp pcb b1 s1) = Some (e, s2)"
    "tcp_seg_free rseg s = Some s1" "tp_state b1 = ESTABLISHED"
    "if e = ERR_ABRT then err = ERR_ABRT else upd_tcp pcb tcp_ack_now s2 = Some s'"
  using assms unfolding tcp_syn_sent_established_def
  by (elim stepE) ((drule rseg_state connected_tail)+, rule that, assumption, assumption,
    simp (no_asm_simp) add: rtime_state, assumption)

lemma tcp_syn_sent_established_goes:
  assumes "tcp_syn_sent_established env pcb s = Some (err, s')" "tcp_quiet env pcb" "err \<noteq> ERR_ABRT"
    "tcp_mem s pcb = Some b" "tp_state b = SYN_SENT" "Ev_syn_ack \<in> E"
  shows "goes pcb E s s'"
proof -
  obtain b1 s1 s2 e rseg where s2: "TCP_EVENT_CONNECTED env pcb ERR_OK (put_tcp pcb b1 s1) = Some (e, s2)"
    and seg: "tcp_seg_free rseg s = Some s1" and b1: "tp_state b1 = ESTABLISHED"
    and s': "if e = ERR_ABRT then err = ERR_ABRT else upd_tcp pcb tcp_ack_now s2 = Some s'"
    by (rule tcp_syn_sent_established_run [OF assms(1)]) (rule that)
  note s1 = tcp_seg_free_mem [OF seg]
  have e: "e \<noteq> ERR_ABRT" and s': "upd_tcp pcb tcp_ack_now s2 = Some s'" using s' assms(3) by (auto split: if_splits)
  have g1: "goes pcb E s1 (put_tcp pcb b1 s1)"
    using assms(4-6) s1 b1 by (intro goes_edge) (auto intro!: rfc793_path_edge [OF connect])
  have g2: "same_states (put_tcp pcb b1 s1) s2"
    using s2 e assms(2)
    by (auto simp: TCP_EVENT_CONNECTED_def tcp_quiet_def tcp_calls_quiet_def same_states_def run split: tcp_fn.splits)
  have g3: "goes pcb {} s2 s'" by (rule goes_upd [OF s']) simp
  have "goes pcb E s1 s'" by (rule goes_trans0(1) [OF g1 goes_trans0(1) [OF goes_same [OF g2] g3]])
  then show ?thesis by (rule goes_trans0(2) [OF goes_same [OF same_pcbs_states [OF s1]]])
qed

lemma goes_mono: "goes pcb E s s' \<Longrightarrow> E \<subseteq> F \<Longrightarrow> goes pcb F s s'"
  unfolding goes_def by (meson Un_mono rfc793_path_mono subset_refl)

lemma goes_none: "goes pcb {} s s' \<Longrightarrow> goes pcb E s s'"
  by (erule goes_mono) simp

text \<open>An established connection is left only by the peer's FIN.\<close>

lemma established_path: "rfc793_path E q r \<Longrightarrow> q = ESTABLISHED \<or> q = CLOSE_WAIT \<Longrightarrow> r = ESTABLISHED \<or> r = CLOSE_WAIT"
  by (induction rule: rfc793_path.induct) (auto elim: rfc793.cases)

lemma goes_established:
  assumes "goes pcb E s s'" "pcb_state s pcb = Some ESTABLISHED" "tcp_mem s' pcb = Some b"
  shows "tp_state b = ESTABLISHED \<or> tp_state b = CLOSE_WAIT"
  using goesD [OF assms(1,2)] assms(3) by (auto simp: pcb_state_def dest: established_path)

lemma tcp_process_syn_sent_goes:
  assumes "tcp_process_syn_sent env pcb s = Some (err, s')" "tcp_quiet env pcb" "err \<noteq> ERR_ABRT"
    "tcp_mem s pcb = Some b" "tp_state b = SYN_SENT"
  shows "goes pcb (syn_events s b) s s'"
proof (cases "ti_flags s AND TCP_ACK \<noteq> 0 \<and> ti_flags s AND TCP_SYN \<noteq> 0 \<and> ti_ackno s = tp_lastack b + 1")
  case True
  then show ?thesis using assms
    by (intro tcp_syn_sent_established_goes [of env]) (auto simp: tcp_process_syn_sent_def syn_events_def)
next
  case False
  have "goes pcb {} s s'"
  proof (cases "ti_flags s AND TCP_ACK \<noteq> 0")
    case True
    then obtain s1 b1 where s1: "tcp_rst_input env pcb s = Some s1" and b1: "tcp_mem s1 pcb = Some b1"
      and s': "s' = s1 \<or> tcp_rexmit_rto env pcb (put_tcp pcb (b1\<lparr>tp_rtime := 0\<rparr>) s1) = Some s'"
      using assms(1,4) False by (auto simp: tcp_process_syn_sent_def run)
    have "goes pcb {} s1 (put_tcp pcb (b1\<lparr>tp_rtime := 0\<rparr>) s1)" by (rule goes_put [OF b1]) simp
    then show ?thesis
      using s' tcp_rst_input_goes [OF s1 assms(2)] tcp_rexmit_rto_goes [OF _ assms(2)] by (metis goes_trans0(1))
  next
    case no_ack: False
    then show ?thesis using assms(1,4) by (auto simp: tcp_process_syn_sent_def goes_same same_states_def)
  qed
  then show ?thesis by (rule goes_none)
qed

lemma tcp_syn_rcvd_accept_goes:
  assumes "tcp_syn_rcvd_accept env pcb s = Some (ERR_OK, s')" "tcp_quiet env pcb"
    "tcp_mem s pcb = Some b" "tp_state b = SYN_RCVD" "Ev_ack \<in> E"
  shows "goes pcb E s s'" "pcb_state s' pcb = Some ESTABLISHED"
proof -
  let ?s = "put_tcp pcb (b\<lparr>tp_state := ESTABLISHED\<rparr>) s"
  have same: "same_states ?s s'"
  proof -
    obtain l where acc: "TCP_EVENT_ACCEPT env (tp_listener b) pcb (tp_callback_arg b) ERR_OK ?s = Some (ERR_OK, s')"
      and mem: "tcp_mem ?s (tp_listener b) = Some l" and fn: "tp_accept l \<noteq> FnNull"
      using assms(1,3) by (auto simp: tcp_syn_rcvd_accept_def run)
    show ?thesis using acc mem fn assms(2)
      by (cases "tp_accept l") (auto simp: TCP_EVENT_ACCEPT_def tcp_accept_null_def tcp_quiet_def tcp_calls_quiet_def
          bind_eq_Some_conv)
  qed
  then show "pcb_state s' pcb = Some ESTABLISHED" by (simp add: same_states_def)
  have "goes pcb E s ?s"
    using assms(3-5) by (intro goes_edge) (auto intro!: rfc793_path_edge [OF accept])
  then show "goes pcb E s s'" using same by (meson goes_trans0 goes_same)
qed

lemma tcp_process_syn_rcvd_goes:
  assumes "tcp_process_syn_rcvd env pcb s = Some (err, s')" "tcp_quiet env pcb" "err \<noteq> ERR_ABRT"
    "tcp_mem s pcb = Some b" "tp_state b = SYN_RCVD"
  shows "goes pcb (syn_events s b) s s'"
proof (cases "ti_flags s AND TCP_ACK \<noteq> 0 \<and> TCP_SEQ_BETWEEN (ti_ackno s) (tp_lastack b + 1) (tp_snd_nxt b)")
  case True
  then have step: "tcp_process_syn_rcvd env pcb s = do {
      (err, s) \<leftarrow> tcp_syn_rcvd_accept env pcb s;
      if err \<noteq> ERR_OK then do {
        s \<leftarrow> (if err \<noteq> ERR_ABRT then tcp_abort env pcb s else Some s);
        Some (ERR_ABRT, s)
      } else do {
        s \<leftarrow> tcp_receive env pcb s;
        let s = (if ti_recv_acked s \<noteq> 0 then s\<lparr>ti_recv_acked := ti_recv_acked s - 1\<rparr> else s);
        s \<leftarrow> upd_tcp pcb (\<lambda>b. b\<lparr>tp_cwnd := LWIP_TCP_CALC_INITIAL_CWND (tp_mss b)\<rparr>) s;
        s \<leftarrow> (if got_fin s then upd_tcp pcb (\<lambda>b. (tcp_ack_now b)\<lparr>tp_state := CLOSE_WAIT\<rparr>) s else Some s);
        Some (ERR_OK, s)
      }
    }" by (simp only: tcp_process_syn_rcvd_def assms(4) bind.bind_lunit if_True simp_thms got_fin_def)
  obtain e s1 where s1: "tcp_syn_rcvd_accept env pcb s = Some (e, s1)"
    and rest: "(if e \<noteq> ERR_OK then do {
        s \<leftarrow> (if e \<noteq> ERR_ABRT then tcp_abort env pcb s1 else Some s1);
        Some (ERR_ABRT, s)
      } else do {
        s \<leftarrow> tcp_receive env pcb s1;
        let s = (if ti_recv_acked s \<noteq> 0 then s\<lparr>ti_recv_acked := ti_recv_acked s - 1\<rparr> else s);
        s \<leftarrow> upd_tcp pcb (\<lambda>b. b\<lparr>tp_cwnd := LWIP_TCP_CALC_INITIAL_CWND (tp_mss b)\<rparr>) s;
        s \<leftarrow> (if got_fin s then upd_tcp pcb (\<lambda>b. (tcp_ack_now b)\<lparr>tp_state := CLOSE_WAIT\<rparr>) s else Some s);
        Some (ERR_OK, s)
      }) = Some (err, s')" by (rule bind_pairE [OF assms(1) [unfolded step]]) (rule that)
  then have e: "e = ERR_OK" using assms(3) by (auto simp: bind_eq_Some_conv split: if_splits)
  note s1 = s1 [unfolded e]
  from rest obtain s2 s4 where s2: "tcp_receive env pcb s1 = Some s2"
    and s4: "upd_tcp pcb (\<lambda>b. b\<lparr>tp_cwnd := LWIP_TCP_CALC_INITIAL_CWND (tp_mss b)\<rparr>)
      (if ti_recv_acked s2 \<noteq> 0 then s2\<lparr>ti_recv_acked := ti_recv_acked s2 - 1\<rparr> else s2) = Some s4"
    and s': "(if got_fin s4 then upd_tcp pcb (\<lambda>b. (tcp_ack_now b)\<lparr>tp_state := CLOSE_WAIT\<rparr>) s4 else Some s4) = Some s'"
    by (simp only: e simp_thms if_False) (elim stepE, rule that, assumption, simp, simp add: got_fin_def)
  let ?s3 = "if ti_recv_acked s2 \<noteq> 0 then s2\<lparr>ti_recv_acked := ti_recv_acked s2 - 1\<rparr> else s2"
  have e1: "pcb_state s1 pcb = Some ESTABLISHED"
    using True assms(4,5) by (intro tcp_syn_rcvd_accept_goes(2) [OF s1 assms(2), where E = UNIV]) auto
  have g1: "goes pcb (syn_events s b) s s1"
    using True assms(4,5) by (intro tcp_syn_rcvd_accept_goes(1) [OF s1 assms(2)]) (auto simp: syn_events_def)
  have g2: "goes pcb {} s1 s2" by (rule tcp_receive_goes [OF s2 assms(2)])
  have g3: "goes pcb {} s2 ?s3" by (rule goes_same [OF same_pcbs_states]) simp
  have g4: "goes pcb {} ?s3 s4" by (rule goes_upd [OF s4]) simp
  have g: "goes pcb (syn_events s b) s s4" and g14: "goes pcb {} s1 s4"
    using g1 g2 g3 g4 by (meson goes_trans0)+
  show ?thesis
  proof (cases "got_fin s4")
    case True
    then obtain b4 where b4: "tcp_mem s4 pcb = Some b4" and s'': "s' = put_tcp pcb ((tcp_ack_now b4)\<lparr>tp_state := CLOSE_WAIT\<rparr>) s4"
      using s' by (auto simp: upd_tcp_def run)
    have "tp_state b4 = ESTABLISHED \<or> tp_state b4 = CLOSE_WAIT" by (rule goes_established [OF g14 e1 b4])
    then have "goes pcb {} s4 s'" unfolding s'' using True
      by (intro goes_edge [OF b4]) (auto simp: fin_event_def)
    then show ?thesis using g by (rule goes_trans0(1) [rotated])
  next
    case False
    then show ?thesis using g s' by simp
  qed
next
  case False
  have "goes pcb {} s s'"
    using assms(1,4) False
    by (auto simp: tcp_process_syn_rcvd_def run goes_same same_states_def
        intro: tcp_rst_input_goes [OF _ assms(2)] tcp_rexmit_goes [OF _ assms(2)])
  then show ?thesis by (rule goes_none)
qed

text \<open>The states that receive data.\<close>

lemma goes_close_wait:
  assumes "tcp_mem s pcb = Some b" "tp_state b = ESTABLISHED \<or> tp_state b = CLOSE_WAIT" "got_fin s" "tp_state b' = CLOSE_WAIT"
  shows "goes pcb E s (put_tcp pcb b' s)"
  by (rule goes_none, rule goes_edge [OF assms(1)]) (use assms in \<open>auto simp: fin_event_def\<close>)

lemma tcp_fin_acked_moved:
  "tcp_fin_acked b s \<Longrightarrow> goes pcb E s s' \<Longrightarrow> tp_snd_nxt b' = tp_snd_nxt b \<Longrightarrow> tp_unsent b' = [] \<Longrightarrow> tcp_fin_acked b' s'"
  by (simp add: tcp_fin_acked_def goes_def)

lemma tcp_process_time_wait:
  assumes "tcp_enter_time_wait env pcb s = Some s'" "tcp_quiet env pcb" "tcp_mem s pcb = Some b"
    "tp_state b > LISTEN" "tp_state b \<noteq> TIME_WAIT" "tcp_fin_acked b s \<and> Ev_fin_acked \<in> E \<or> E = {}"
    "rfc793_path (E \<union> fin_event s) (tp_state b) TIME_WAIT" "E \<subseteq> {Ev_fin_acked}"
  shows "\<exists>b'. tcp_mem s' pcb = Some b' \<and> goes pcb (fin_acked_event s' b') s s'"
proof -
  have g: "goes pcb E s s'" by (rule tcp_enter_time_wait_goes(1) [OF assms(1-5,7)])
  obtain b' where b': "tcp_mem s' pcb = Some b'" "tp_snd_nxt b' = tp_snd_nxt b" "tp_unsent b' = []"
    using tcp_enter_time_wait_goes(2) [OF assms(1-5,7)] by blast
  have "E \<subseteq> fin_acked_event s' b'"
    using assms(6,8) tcp_fin_acked_moved [OF _ g b'(2,3)] by (auto simp: fin_acked_event_eq)
  then show ?thesis using goes_mono [OF g] b'(1) by blast
qed

lemma tcp_fin_acked_ack [simp]: "tcp_fin_acked (tcp_ack_now b) (put_tcp pcb c s) = tcp_fin_acked b s"
  by (simp add: tcp_fin_acked_def tcp_ack_now_def tcp_set_flags_def)

lemma tcp_process_received_goes:
  assumes "tcp_process_received env pcb q s = Some s'" "tcp_quiet env pcb" "tcp_mem s pcb = Some b"
    "tp_state b = q \<or> q = ESTABLISHED \<and> tp_state b = CLOSE_WAIT"
    "q \<in> {ESTABLISHED, FIN_WAIT_1, FIN_WAIT_2, CLOSE_WAIT, CLOSING, LAST_ACK}"
  shows "\<exists>b'. tcp_mem s' pcb = Some b' \<and> goes pcb (fin_acked_event s' b') s s'"
proof (cases "s' = s")
  case True
  then show ?thesis using assms(3) by (intro exI [of _ b]) (simp add: goes_none goes_same same_states_def)
next
  case changed: False
  note fin = tcp_process_time_wait [OF _ assms(2)]
  let ?b = "tcp_ack_now b"
  have ack: "goes pcb {} s (put_tcp pcb ?b s)" by (rule goes_put [OF assms(3)]) simp
  have from_ack: "\<exists>b'. tcp_mem s' pcb = Some b' \<and> goes pcb (fin_acked_event s' b') s s'"
    if "\<exists>b'. tcp_mem s' pcb = Some b' \<and> goes pcb (fin_acked_event s' b') (put_tcp pcb ?b s) s'"
    using that goes_trans0(2) [OF ack] by blast
  consider "q = ESTABLISHED \<or> q = CLOSE_WAIT" | "q = FIN_WAIT_1" | "q = FIN_WAIT_2" | "q = CLOSING" | "q = LAST_ACK"
    using assms(5) by blast
  then show ?thesis
  proof cases
    case 1
    then have "got_fin s" "s' = put_tcp pcb (?b\<lparr>tp_state := CLOSE_WAIT\<rparr>) s"
      using assms(1,3) changed by (auto simp: tcp_process_received_def got_fin_def split: if_splits)
    then show ?thesis using 1 assms(3,4) by (auto intro!: goes_close_wait)
  next
    case 2
    then have st: "tp_state b = FIN_WAIT_1" using assms(4) by simp
    consider (both) "got_fin s" "tcp_fin_acked b s" "tcp_enter_time_wait env pcb (put_tcp pcb ?b s) = Some s'"
      | (fin) "got_fin s" "s' = put_tcp pcb (?b\<lparr>tp_state := CLOSING\<rparr>) s"
      | (acked) "tcp_fin_acked b s" "s' = put_tcp pcb (b\<lparr>tp_state := FIN_WAIT_2\<rparr>) s"
      using assms(1,3) 2 changed by (auto simp: tcp_process_received_def got_fin_def split: if_splits)
    then show ?thesis
    proof cases
      case both
      have "rfc793_path {Ev_fin_acked, Ev_fin} FIN_WAIT_1 TIME_WAIT"
        by (rule edge [OF rfc793_path_edge [OF half_closed] _ closed]) simp_all
      then show ?thesis
        using fin [OF both(3), of ?b "{Ev_fin_acked}"] both(1,2) st
        by (intro from_ack) (simp add: fin_event_def insert_commute)
    next
      case fin
      then show ?thesis using assms(3) st
        by (auto intro!: goes_edge rfc793_path_edge [OF simultaneous] simp: fin_event_def)
    next
      case acked
      then show ?thesis using assms(3) st
        by (auto intro!: goes_edge rfc793_path_edge [OF half_closed] simp: fin_acked_event_eq tcp_fin_acked_def)
    qed
  next
    case 3
    then have "got_fin s" and w: "tcp_enter_time_wait env pcb (put_tcp pcb ?b s) = Some s'" and st: "tp_state b = FIN_WAIT_2"
      using assms(1,3,4) changed by (auto simp: tcp_process_received_def got_fin_def split: if_splits)
    then show ?thesis
      using fin [OF w, of ?b "{}"] by (intro from_ack) (simp add: fin_event_def rfc793_path_edge [OF closed])
  next
    case 4
    then have "tcp_fin_acked b s" and w: "tcp_enter_time_wait env pcb s = Some s'" and st: "tp_state b = CLOSING"
      using assms(1,3,4) changed by (auto simp: tcp_process_received_def split: if_splits)
    then show ?thesis
      using fin [OF w assms(3), of "{Ev_fin_acked}"] by (auto intro: rfc793_path_edge [OF closed_both])
  next
    case 5
    then have s': "s' = s\<lparr>ti_recv_flags := ti_recv_flags s OR TF_CLOSED\<rparr>"
      using assms(1,3) changed by (auto simp: tcp_process_received_def split: if_splits)
    have "pcb_state s' = pcb_state s" by (simp add: s' pcb_state_def fun_eq_iff)
    moreover have "got_fin s \<longrightarrow> got_fin s'"
      by (simp add: s' got_fin_def bit.conj_disj_distrib2 or_eq_0_iff)
    ultimately show ?thesis using assms(3) by (intro exI [of _ b]) (simp add: goes_def s')
  qed
qed

text \<open>The options change the segment size only.\<close>

definition mss_only :: "nat \<Rightarrow> 'a tcp_state_scheme \<Rightarrow> 'a tcp_state_scheme \<Rightarrow> bool" where
  "mss_only pcb s s' \<longleftrightarrow> ti_flags s' = ti_flags s \<and> ti_ackno s' = ti_ackno s \<and> ti_recv_flags s' = ti_recv_flags s \<and>
     (tcp_mem s' = tcp_mem s \<or> (\<exists>b m. tcp_mem s pcb = Some b \<and> tcp_mem s' = (tcp_mem s)(pcb \<mapsto> b\<lparr>tp_mss := m\<rparr>)))"

lemma mss_only_trans: "mss_only pcb s s1 \<Longrightarrow> mss_only pcb s1 s2 \<Longrightarrow> mss_only pcb s s2"
  unfolding mss_only_def by (elim conjE disjE exE) auto

lemma mss_only_same: "same_pcbs s s' \<Longrightarrow> mss_only pcb s s'"
  by (simp add: mss_only_def)

lemma mss_only_upd: "upd_tcp pcb (\<lambda>b. b\<lparr>tp_mss := m\<rparr>) s = Some s' \<Longrightarrow> mss_only pcb s s'"
  by (auto simp: upd_tcp_mem mss_only_def put_tcp_def)

lemma tcp_get_next_optbyte_mss: "tcp_get_next_optbyte s = Some (x, s') \<Longrightarrow> mss_only pcb s s'"
  by (rule mss_only_same) (rule tcp_get_next_optbyte_mem)

lemma tcp_parseopt_loop_mss:
  assumes "tcp_parseopt_loop pcb s = Some s'"
  shows "mss_only pcb s s'"
proof (rule tcp_parseopt_loop.raw_induct [OF _ assms, of mss_only], goal_cases)
  case (1 f pcb s s')
  note rec = 1(1)
  have opt: "mss_only pcb t s'" if "f pcb (t\<lparr>ti_optidx := i\<rparr>) = Some s'" for t i
    using rec [OF that] by (simp add: mss_only_def)
  from 1(2) show ?case
    by (auto simp: run intro: mss_only_same dest!: rec opt tcp_get_next_optbyte_mss [of _ _ _ pcb] mss_only_upd
        intro: mss_only_trans) (meson mss_only_trans)
qed

lemma tcp_parseopt_mss: "tcp_parseopt pcb s = Some s' \<Longrightarrow> mss_only pcb s s'"
  by (auto simp: tcp_parseopt_def run mss_only_def dest!: tcp_parseopt_loop_mss)

lemma mss_only_goes:
  assumes "mss_only pcb s s'" "tcp_mem s pcb = Some b"
  shows "goes pcb {} s s'" "\<exists>b'. tcp_mem s' pcb = Some b' \<and> tp_state b' = tp_state b \<and> syn_events s' b' = syn_events s b"
proof -
  show "\<exists>b'. tcp_mem s' pcb = Some b' \<and> tp_state b' = tp_state b \<and> syn_events s' b' = syn_events s b"
    using assms unfolding mss_only_def by (elim conjE disjE exE) (auto simp: syn_events_def)
  have "pcb_state s' p = pcb_state s p" for p
    using assms(1) unfolding mss_only_def by (elim conjE disjE exE) (auto simp: pcb_state_def)
  then show "goes pcb {} s s'" using assms(1) by (intro goes_same) (auto simp: same_states_def mss_only_def)
qed

lemma tcp_process_state_goes:
  assumes "tcp_process_state env pcb s = Some (err, s')" "tcp_quiet env pcb" "err \<noteq> ERR_ABRT" "tcp_mem s pcb = Some b"
  shows "\<exists>b'. tcp_mem s' pcb = Some b' \<and> goes pcb (syn_events s b \<union> fin_acked_event s' b') s s'"
proof -
  have start: "\<exists>b'. tcp_mem s' pcb = Some b' \<and> goes pcb (syn_events s b \<union> fin_acked_event s' b') s s'"
    if g: "goes pcb E s s'" and E: "E \<subseteq> syn_events s b" for E
  proof -
    obtain b' where "tcp_mem s' pcb = Some b'"
      using goesD [OF g, of "tp_state b"] assms(4) by (auto simp: pcb_state_def)
    then show ?thesis using goes_mono [OF g] E by blast
  qed
  let ?data = "{ESTABLISHED, FIN_WAIT_1, FIN_WAIT_2, CLOSE_WAIT, CLOSING, LAST_ACK}"
  consider "tp_state b = SYN_SENT" | "tp_state b = SYN_RCVD" | "tp_state b \<in> {CLOSED, LISTEN, TIME_WAIT}"
    | (data) "tp_state b \<in> ?data" by (cases "tp_state b") auto
  then show ?thesis
  proof cases
    case 1
    then show ?thesis using assms(1,4) by (intro start [OF tcp_process_syn_sent_goes [OF _ assms(2-4)]]) (simp_all add: tcp_process_state_def)
  next
    case 2
    then show ?thesis using assms(1,4) by (intro start [OF tcp_process_syn_rcvd_goes [OF _ assms(2-4)]]) (simp_all add: tcp_process_state_def)
  next
    case 3
    then have "s' = s" using assms(1,4) by (auto simp: tcp_process_state_def)
    then show ?thesis by (intro start [OF goes_same]) (simp_all add: same_states_def)
  next
    case data
    obtain s1 where s1: "tcp_receive env pcb s = Some s1" and r: "tcp_process_received env pcb (tp_state b) s1 = Some s'"
      using assms(1,4) data by (cases "tp_state b") (auto simp: tcp_process_state_def bind_eq_Some_conv)
    have m: "moved pcb s s1" using tcp_receive_moved [OF s1] assms(2) by (simp add: tcp_quiet_def)
    obtain b1 where b1: "tcp_mem s1 pcb = Some b1" "tp_state b1 = tp_state b \<or> tp_state b = ESTABLISHED \<and> tp_state b1 = CLOSE_WAIT"
      using m assms(4) by (auto simp: moved_def pcb_state_def)
    obtain b' where "tcp_mem s' pcb = Some b'" "goes pcb (fin_acked_event s' b') s1 s'"
      using tcp_process_received_goes [OF r assms(2) b1 data] by blast
    then show ?thesis using goes_trans0(2) [OF goes_moved [OF m]] goes_mono by blast
  qed
qed

lemma tcp_process_goes:
  assumes "tcp_process env pcb s = Some (err, s')" "tcp_quiet env pcb" "err \<noteq> ERR_ABRT" "tcp_mem s pcb = Some b"
  shows "\<exists>b'. tcp_mem s' pcb = Some b' \<and> goes pcb (syn_events s b \<union> fin_acked_event s' b') s s'"
proof -
  have start: "\<exists>b'. tcp_mem s' pcb = Some b' \<and> goes pcb (syn_events s b \<union> fin_acked_event s' b') s s'"
    if g: "goes pcb {} s s'"
    using goesD [OF g, of "tp_state b"] assms(4) goes_none [OF g] by (auto simp: pcb_state_def)
  consider (rst) "ti_flags s AND TCP_RST \<noteq> 0" "tcp_process_rst pcb s = Some (err, s')"
    | (syn) "s' = put_tcp pcb (tcp_ack_now b) s"
    | (state) s1 b1 where "tp_state b1 = tp_state b" "syn_events s b1 = syn_events s b"
        "tcp_parseopt pcb (put_tcp pcb b1 s) = Some s1" "tcp_process_state env pcb s1 = Some (err, s')"
  proof (cases "ti_flags s AND TCP_RST \<noteq> 0")
    case True
    then show ?thesis using assms(1) by (intro rst) (simp_all add: tcp_process_def bind_eq_Some_conv)
  next
    case no_rst: False
    show ?thesis
    proof (cases "ti_flags s AND TCP_SYN \<noteq> 0 \<and> tp_state b \<noteq> SYN_SENT \<and> tp_state b \<noteq> SYN_RCVD")
      case True
      then show ?thesis using assms(1,4) no_rst by (intro syn) (simp add: tcp_process_def bind_eq_Some_conv)
    next
      case False
      let ?b = "if tp_flags b AND TF_RXCLOSED = 0 then b\<lparr>tp_tmr := tcp_ticks s\<rparr> else b"
      have "\<exists>s1. tcp_parseopt pcb (put_tcp pcb (?b\<lparr>tp_keep_cnt_sent := 0, tp_persist_probe := 0\<rparr>) s) = Some s1 \<and>
          tcp_process_state env pcb s1 = Some (err, s')"
        using assms(1,4) no_rst False by (simp add: tcp_process_def bind_eq_Some_conv Let_def)
      then show ?thesis by (elim exE conjE, intro state) (simp_all add: syn_events_def)
    qed
  qed
  then show ?thesis
  proof cases
    case rst
    have "s' = s \<or> s' = put_tcp pcb (tcp_ack_now b) s \<or>
        s' = put_tcp pcb (tcp_clear_flags TF_ACK_DELAY b) (s\<lparr>ti_recv_flags := ti_recv_flags s OR TF_RESET\<rparr>)"
      using rst(2) assms(4) by (auto simp: tcp_process_rst_def bind_eq_Some_conv split: if_splits)
    moreover have "goes pcb {} s (put_tcp pcb (tcp_clear_flags TF_ACK_DELAY b) (s\<lparr>ti_recv_flags := ti_recv_flags s OR TF_RESET\<rparr>))"
      using assms(4) by (auto simp: goes_def pcb_state_def put_tcp_def got_fin_def bit.conj_disj_distrib2 or_eq_0_iff)
    ultimately have "goes pcb {} s s'"
      using goes_put [OF assms(4), of "tcp_ack_now b"] by (auto simp: goes_same same_states_def)
    then show ?thesis by (rule start)
  next
    case syn
    then show ?thesis using goes_put [OF assms(4), of "tcp_ack_now b"] by (intro start) simp
  next
    case state
    let ?s = "put_tcp pcb b1 s"
    have m: "mss_only pcb ?s s1" by (rule tcp_parseopt_mss [OF state(3)])
    have mem: "tcp_mem ?s pcb = Some b1" by simp
    obtain b2 where b2: "tcp_mem s1 pcb = Some b2" "syn_events s1 b2 = syn_events s b"
      using mss_only_goes(2) [OF m mem] state(2) by (auto simp: syn_events_def)
    have "goes pcb {} s s1"
      by (rule goes_trans0(1) [OF goes_put [OF assms(4) state(1)] mss_only_goes(1) [OF m mem]])
    then show ?thesis
      using tcp_process_state_goes [OF state(4) assms(2,3) b2(1)] b2(2) goes_trans0(2) by metis
  qed
qed

text \<open>C1: The state machine of RFC 793. When the functions outside TCP leave the PCBs alone (the calls
  of the application may abort the connection: then \<^verbatim>\<open>tcp_process\<close> returns \<open>ERR_ABRT\<close>),
  \<^verbatim>\<open>tcp_process\<close> changes the state of its PCB only along a path of the diagram of RFC 793 whose
  events the segment carries: a SYN-ACK for our SYN, an acceptable acknowledgement of our SYN-ACK,
  a FIN that was received in order, or the acknowledgement of everything sent with nothing left to
  send. The states of all other PCBs stay as they are.\<close>

theorem tcp_process_refines_rfc793:
  assumes "tcp_process env pcb s = Some (err, s')" "tcp_quiet env pcb" "err \<noteq> ERR_ABRT" "tcp_mem s pcb = Some b"
  shows "\<exists>b'. tcp_mem s' pcb = Some b' \<and>
    rfc793_path (syn_events s b \<union> fin_acked_event s' b' \<union> fin_event s') (tp_state b) (tp_state b') \<and>
    (\<forall>p. p \<noteq> pcb \<longrightarrow> pcb_state s' p = pcb_state s p)"
proof -
  obtain b' where b': "tcp_mem s' pcb = Some b'" and g: "goes pcb (syn_events s b \<union> fin_acked_event s' b') s s'"
    using tcp_process_goes [OF assms] by blast
  have "rfc793_path (syn_events s b \<union> fin_acked_event s' b' \<union> fin_event s') (tp_state b) (tp_state b')"
    using goesD [OF g, of "tp_state b"] b' assms(4) by (simp add: pcb_state_def)
  moreover have "\<forall>p. p \<noteq> pcb \<longrightarrow> pcb_state s' p = pcb_state s p" using g by (simp add: goes_def)
  ultimately show ?thesis using b' by blast
qed

text \<open>C4: A segment received into one connection changes no other: whatever \<^verbatim>\<open>tcp_receive\<close> does with
  acknowledgements, retransmissions, data in order and out of order, the other PCBs stay
  identical, and the connection's own state changes at most from ESTABLISHED to CLOSE-WAIT, on a
  FIN that is then reported in \<^verbatim>\<open>recv_flags\<close>.\<close>

theorem tcp_receive_touches_one_pcb:
  assumes "tcp_receive env pcb s = Some s'" "tcp_lower_quiet env pcb"
  shows "(\<forall>p. p \<noteq> pcb \<longrightarrow> tcp_mem s' p = tcp_mem s p) \<and>
    (pcb_state s' pcb = pcb_state s pcb \<or>
     pcb_state s pcb = Some ESTABLISHED \<and> pcb_state s' pcb = Some CLOSE_WAIT \<and> got_fin s')"
  using tcp_receive_moved [OF assms] moved_other [OF tcp_receive_moved [OF assms]] by (auto simp: moved_def)

lemma seq_between_window: "TCP_SEQ_BETWEEN a b (b + ucast (w :: u16)) \<longleftrightarrow> unat (a - b) \<le> unat w"
proof -
  let ?d = "a - b"
  have w: "unat (ucast w :: u32) = unat w" "unat w < 65536" by (simp_all add: unat_ucast_16_32)
  have e: "a - (b + ucast w) = ?d - ucast w" by simp
  have d: "unat (?d - ucast w) = (if unat w \<le> unat ?d then unat ?d - unat w else unat ?d + 4294967296 - unat w)"
    using unat_minus [of ?d "ucast w"] w(1) by simp
  have key: "0 \<le> (if n < 2147483648 then int n else int n - 4294967296) \<and>
      (if (if m \<le> n then n - m else n + 4294967296 - m) < 2147483648 then int (if m \<le> n then n - m else n + 4294967296 - m)
       else int (if m \<le> n then n - m else n + 4294967296 - m) - 4294967296) \<le> 0 \<longleftrightarrow> n \<le> m"
    if "n < 4294967296" "m < 65536" for n m :: nat
    using that by auto
  have "unat ?d < 4294967296" by (rule unat_u32_less)
  then show ?thesis
    unfolding TCP_SEQ_BETWEEN_def TCP_SEQ_GEQ_def TCP_SEQ_LEQ_def e sint_u32 d by (rule key [OF _ w(2)])
qed

text \<open>C3: The acceptance of resets (RFC 5961). A RST resets a connection exactly when its sequence number
  is the next one expected, or, in SYN-SENT, when it acknowledges our SYN. Outside SYN-SENT, any other
  RST from \<^verbatim>\<open>rcv_nxt\<close> up to and including \<^verbatim>\<open>rcv_nxt + rcv_wnd\<close> only makes the connection send an
  acknowledgement; the upper bound is the first number behind the window, one more than RFC 5961
  and the test for data segments (\<^verbatim>\<open>tcp_in.c:1474\<close>) allow. Every remaining RST changes nothing.\<close>

theorem tcp_process_rst_acceptance:
  assumes "pcb \<noteq> 0" "ti_flags s AND TCP_RST \<noteq> 0" "tcp_mem s pcb = Some b" "tp_state b \<noteq> CLOSED"
  shows "tcp_process env pcb s = Some
    (if (if tp_state b = SYN_SENT then ti_ackno s = tp_snd_nxt b else ti_seqno s = tp_rcv_nxt b)
     then (ERR_RST, s\<lparr>tcp_mem := (tcp_mem s)(pcb \<mapsto> tcp_clear_flags TF_ACK_DELAY b),
                      ti_recv_flags := ti_recv_flags s OR TF_RESET\<rparr>)
     else if tp_state b \<noteq> SYN_SENT \<and> unat (ti_seqno s - tp_rcv_nxt b) \<le> unat (tp_rcv_wnd b)
     then (ERR_OK, s\<lparr>tcp_mem := (tcp_mem s)(pcb \<mapsto> tcp_ack_now b)\<rparr>)
     else (ERR_OK, s))"
  using assms by (auto simp: tcp_process_def tcp_process_rst_def seq_between_window put_tcp_def)


section \<open>An example\<close>

text \<open>The acknowledgement of our FIN, for a connection that we have closed.\<close>

definition demo_closing :: tcp_state where
  "demo_closing = demo_tcp\<lparr>tcp_mem := [5 \<mapsto> demo_conn\<lparr>tp_state := FIN_WAIT_1\<rparr>], ti_flags := TCP_ACK, ti_tcplen := 0\<rparr>"

definition demo_fin_wait :: tcp_pcb where
  "demo_fin_wait = demo_conn\<lparr>tp_state := FIN_WAIT_1\<rparr>"

lemma demo_closing_sel:
  "ti_flags demo_closing = TCP_ACK" "ti_tcplen demo_closing = 0" "ti_ackno demo_closing = 5000"
  "ti_seqno demo_closing = 1000" "ti_tcphdr demo_closing = VPtr 1 24" "ip_heap demo_closing = demo_tcp_heap"
  "tcp_mem demo_closing = [5 \<mapsto> demo_fin_wait]" "ti_optlen demo_closing = 0" "ti_recv_flags demo_closing = 0"
  by (simp_all add: demo_closing_def demo_tcp_def demo_fin_wait_def)

lemma demo_fin_wait_sel:
  "tp_state demo_fin_wait = FIN_WAIT_1" "tp_lastack demo_fin_wait = 5000" "tp_snd_nxt demo_fin_wait = 5000"
  "tp_rcv_nxt demo_fin_wait = 1000" "tp_rcv_wnd demo_fin_wait = 32768" "tp_unsent demo_fin_wait = []"
  "tp_rtime demo_fin_wait = - 1" "tp_flags demo_fin_wait = 0" "tp_rttest demo_fin_wait = 0"
  by (simp_all add: demo_fin_wait_def demo_conn_def TCP_WND_def tcp_pcb_zero_def)

lemma demo_tcp_wnd: "hdr16 demo_tcp_heap (VPtr (Suc 0) 24) 14 = Some 8192"
  by (simp add: hdr16_def mem_read_def demo_tcp_heap_def demo_tcphdr_def) code_simp

lemma tcp_receive_wnd_fields [simp]:
  "tp_lastack (tcp_receive_wnd sq a w b) = tp_lastack b" "tp_snd_nxt (tcp_receive_wnd sq a w b) = tp_snd_nxt b"
  "tp_rtime (tcp_receive_wnd sq a w b) = tp_rtime b" "tp_rttest (tcp_receive_wnd sq a w b) = tp_rttest b"
  "tp_rcv_nxt (tcp_receive_wnd sq a w b) = tp_rcv_nxt b" "tp_rcv_wnd (tcp_receive_wnd sq a w b) = tp_rcv_wnd b"
  "tp_unsent (tcp_receive_wnd sq a w b) = tp_unsent b"
  by (simp_all add: tcp_receive_wnd_def)

text \<open>A segment without data that acknowledges nothing new updates the window.\<close>

lemma tcp_receive_old_ack:
  assumes "pcb \<noteq> 0" "tcp_mem s pcb = Some b" "tp_state b \<ge> ESTABLISHED" "ti_flags s AND TCP_ACK \<noteq> 0"
    "ti_ackno s = tp_lastack b" "hdr16 (ip_heap s) (ti_tcphdr s) 14 = Some w" "ti_tcplen s = 0"
    "TCP_SEQ_BETWEEN (ti_seqno s) (tp_rcv_nxt b) (tp_rcv_nxt b + ucast (tp_rcv_wnd b) - 1)"
    "tp_rtime b = - 1" "tp_rttest b = 0"
  shows "tcp_receive env pcb s =
    Some (put_tcp pcb ((tcp_receive_wnd (ti_seqno s) (ti_ackno s) w b)\<lparr>tp_dupacks := 0\<rparr>) s)"
proof -
  have "tcp_receive_ack env pcb s = Some (put_tcp pcb ((tcp_receive_wnd (ti_seqno s) (ti_ackno s) w b)\<lparr>tp_dupacks := 0\<rparr>) s)"
    using assms by (simp add: tcp_receive_ack_def tcp_receive_dupack_def tcp_found_dupack_def upd_tcp_def
        tcp_receive_rtt_def put_tcp_def Let_def)
  then show ?thesis using assms by (simp add: tcp_receive_def put_tcp_def)
qed

lemma demo_closing_seq: "TCP_SEQ_BETWEEN 1000 1000 33767"
  by code_simp

lemma demo_closing_receive:
  assumes "b = demo_fin_wait \<or> (\<exists>t. b = demo_fin_wait\<lparr>tp_tmr := t, tp_keep_cnt_sent := 0, tp_persist_probe := 0\<rparr>)"
  shows "tcp_receive demo_tcp_env 5 (put_tcp 5 b demo_closing) =
    Some (put_tcp 5 ((tcp_receive_wnd 1000 5000 8192 b)\<lparr>tp_dupacks := 0\<rparr>) demo_closing)"
proof -
  have "tcp_receive demo_tcp_env 5 (put_tcp 5 b demo_closing) =
      Some (put_tcp 5 ((tcp_receive_wnd 1000 5000 8192 b)\<lparr>tp_dupacks := 0\<rparr>) (put_tcp 5 b demo_closing))"
    using assms tcp_receive_old_ack [of 5 "put_tcp 5 b demo_closing" b 8192 demo_tcp_env]
    by (auto simp: put_tcp_def demo_closing_sel demo_fin_wait_sel demo_tcp_wnd demo_closing_seq TCP_ACK_def)
  then show ?thesis by (simp add: put_tcp_def)
qed

lemma demo_tcp_quiet: "tcp_quiet demo_tcp_env pcb"
  by (auto simp: tcp_quiet_def tcp_lower_quiet_def tcp_calls_quiet_def ip_keeps_def demo_tcp_env_def demo_env_def
      same_states_def)

lemma demo_closing_process:
  "\<exists>b. tcp_process demo_tcp_env 5 demo_closing = Some (ERR_OK, put_tcp 5 b demo_closing) \<and> tp_state b = FIN_WAIT_2"
proof -
  let ?b = "demo_fin_wait\<lparr>tp_tmr := tcp_ticks demo_closing, tp_keep_cnt_sent := 0, tp_persist_probe := 0\<rparr>"
  let ?r = "(tcp_receive_wnd 1000 5000 8192 ?b)\<lparr>tp_dupacks := 0\<rparr>"
  have "tcp_process demo_tcp_env 5 demo_closing = tcp_process_state demo_tcp_env 5 (put_tcp 5 ?b demo_closing)"
    by (simp add: tcp_process_def demo_closing_sel demo_fin_wait_sel tcp_parseopt_def put_tcp_def
        TCP_ACK_def TCP_RST_def TCP_SYN_def Let_def)
  also have "\<dots> = do { s \<leftarrow> tcp_process_received demo_tcp_env 5 FIN_WAIT_1 (put_tcp 5 ?r demo_closing); Some (ERR_OK, s) }"
    using demo_closing_receive [of ?b, OF disjI2, OF exI, OF refl]
    by (simp add: tcp_process_state_def demo_fin_wait_sel)
  also have "\<dots> = Some (ERR_OK, put_tcp 5 (?r\<lparr>tp_state := FIN_WAIT_2\<rparr>) demo_closing)"
    by (simp add: tcp_process_received_def tcp_fin_acked_def demo_closing_sel demo_fin_wait_sel TCP_ACK_def put_tcp_def)
  finally show ?thesis by (intro exI [of _ "?r\<lparr>tp_state := FIN_WAIT_2\<rparr>"]) simp
qed

theorem tcp_process_refines_rfc793_witness:
  "\<exists>s' b'. tcp_process demo_tcp_env 5 demo_closing = Some (ERR_OK, s') \<and> tcp_mem s' 5 = Some b' \<and>
     tp_state b' = FIN_WAIT_2 \<and>
     rfc793_path (syn_events demo_closing demo_fin_wait \<union> fin_acked_event s' b' \<union> fin_event s') FIN_WAIT_1 FIN_WAIT_2"
proof -
  obtain b where b: "tcp_process demo_tcp_env 5 demo_closing = Some (ERR_OK, put_tcp 5 b demo_closing)" "tp_state b = FIN_WAIT_2"
    using demo_closing_process by blast
  have "tcp_mem demo_closing 5 = Some demo_fin_wait" by (simp add: demo_closing_sel)
  from tcp_process_refines_rfc793 [OF b(1) demo_tcp_quiet _ this] b show ?thesis
    by (intro exI [of _ "put_tcp 5 b demo_closing"] exI [of _ b]) (simp add: demo_fin_wait_sel)
qed

theorem tcp_receive_touches_one_pcb_witness:
  "\<exists>s'. tcp_receive demo_tcp_env 5 (put_tcp 5 demo_fin_wait demo_closing) = Some s' \<and> tcp_mem s' 6 = None"
proof -
  have r: "tcp_receive demo_tcp_env 5 (put_tcp 5 demo_fin_wait demo_closing) =
      Some (put_tcp 5 ((tcp_receive_wnd 1000 5000 8192 demo_fin_wait)\<lparr>tp_dupacks := 0\<rparr>) demo_closing)"
    by (rule demo_closing_receive) simp
  have quiet: "tcp_lower_quiet (demo_tcp_env :: tcp_state tcp_env) 5"
    using demo_tcp_quiet [where pcb = 5 and ?'a = unit] by (simp add: tcp_quiet_def)
  have one: "(6 :: nat) \<noteq> 5" by simp
  have "tcp_mem (put_tcp 5 ((tcp_receive_wnd 1000 5000 8192 demo_fin_wait)\<lparr>tp_dupacks := 0\<rparr>) demo_closing) 6 =
      tcp_mem (put_tcp 5 demo_fin_wait demo_closing) 6"
    by (rule tcp_receive_touches_one_pcb [OF r quiet, THEN conjunct1, THEN spec, THEN mp, OF one])
  also have "\<dots> = None" by (simp add: put_tcp_def demo_closing_sel)
  finally show ?thesis by (intro exI conjI) (rule r)
qed

text \<open>A blind reset, in the window but not at its edge, only provokes an acknowledgement.\<close>

theorem tcp_process_rst_acceptance_witness:
  "tcp_process demo_tcp_env 5 (demo_tcp\<lparr>ti_flags := TCP_RST, ti_seqno := 1001\<rparr>) =
     Some (ERR_OK, demo_tcp\<lparr>ti_flags := TCP_RST, ti_seqno := 1001, tcp_mem := [5 \<mapsto> tcp_ack_now demo_conn]\<rparr>)"
  using tcp_process_rst_acceptance [of 5 "demo_tcp\<lparr>ti_flags := TCP_RST, ti_seqno := 1001\<rparr>" demo_conn demo_tcp_env]
  by (simp add: demo_tcp_def demo_conn_def tcp_pcb_zero_def TCP_RST_def TCP_WND_def)

end
