(* ===== verification/Lwip_Tcp_Tw.thy ===== *)
theory Lwip_Tcp_Tw
  imports Lwip_Tcp_Demo
begin

text \<open>
  The end of a connection: the PCBs in TIME_WAIT, which \<^verbatim>\<open>tcp_slowtmr\<close> (\<^verbatim>\<open>core/tcp.c\<close>) frees when
  twice the maximum segment lifetime has passed and not before.
\<close>

interpretation tcp_pcbs: linked tp_next "\<lambda>q b. b\<lparr>tp_next := q\<rparr>"
  by unfold_locales simp

section \<open>One round\<close>

text \<open>
  The TIME_WAIT list of \<open>t\<close> is \<open>bs\<close>, and \<open>t\<close> differs from \<open>s\<close> in that list only: its PCBs are those
  of \<open>s\<close> but for their links, and what was in the list \<open>as\<close> and is not in \<open>bs\<close> has been freed.
\<close>

definition tw_list :: "nat list \<Rightarrow> 'a tcp_state_scheme \<Rightarrow> bool" where
  "tw_list as s = (node_list (tcp_mem s) tp_next (tcp_tw_pcbs s) as \<and>
     (\<forall>a\<in>set as. \<exists>b. tcp_mem s a = Some b \<and> tp_state b = TIME_WAIT))"

definition unlinked :: "'a tcp_state_scheme \<Rightarrow> nat \<Rightarrow> tcp_pcb option" where
  "unlinked s a = map_option (\<lambda>b. b\<lparr>tp_next := 0\<rparr>) (tcp_mem s a)"

definition tw_kept :: "nat list \<Rightarrow> nat list \<Rightarrow> 'a tcp_state_scheme \<Rightarrow> 'a tcp_state_scheme \<Rightarrow> bool" where
  "tw_kept as bs s t = (tw_list bs t \<and>
     (\<forall>a. unlinked t a = (if a \<in> set as \<and> a \<notin> set bs then None else unlinked s a)) \<and>
     t = s\<lparr>tcp_mem := tcp_mem t, tcp_tw_pcbs := tcp_tw_pcbs t\<rparr>)"

definition tw_age :: "'a tcp_state_scheme \<Rightarrow> nat \<Rightarrow> nat" where
  "tw_age s a = unat (tcp_ticks s - tp_tmr (the (tcp_mem s a)))"

lemma unlinked_tmr: "unlinked t a = unlinked s a \<Longrightarrow> map_option tp_tmr (tcp_mem t a) = map_option tp_tmr (tcp_mem s a)"
  unfolding unlinked_def by (cases "tcp_mem t a"; cases "tcp_mem s a") (auto dest: arg_cong [where f = tp_tmr])

lemma unlinked_state: "unlinked t a = unlinked s a \<Longrightarrow> map_option tp_state (tcp_mem t a) = map_option tp_state (tcp_mem s a)"
  unfolding unlinked_def by (cases "tcp_mem t a"; cases "tcp_mem s a") (auto dest: arg_cong [where f = tp_state])

lemma expired: "tcp_ticks s - tp_tmr b > 2 * TCP_MSL div TCP_SLOW_INTERVAL \<longleftrightarrow> unat (tcp_ticks s - tp_tmr b) > 240"
  by (simp add: TCP_MSL_def TCP_SLOW_INTERVAL_def word_less_nat_alt)

text \<open>Removing one PCB.\<close>

definition slow_tw_remove :: "nat \<Rightarrow> nat \<Rightarrow> 'a tcp_state_scheme \<Rightarrow> 'a tcp_state_scheme option" where
  "slow_tw_remove prev pcb s =
     do { s \<leftarrow> tcp_pcb_purge pcb s; s \<leftarrow> slow_unlink L_tw prev pcb s; tcp_free pcb s }"

lemma slow_tw_remove:
  assumes "tw_list (ks @ a # rs) s" "prev = (if ks = [] then 0 else last ks)"
  obtains t where "slow_tw_remove prev a s = Some t" "tw_kept (ks @ a # rs) (ks @ rs) s t"
    "\<And>r. r \<in> set rs \<Longrightarrow> tcp_mem t r = tcp_mem s r"
proof -
  have l: "node_list (tcp_mem s) tp_next (tcp_tw_pcbs s) (ks @ a # rs)" using assms(1) by (simp add: tw_list_def)
  have d: "distinct (ks @ a # rs)" by (rule node_list_distinct [OF l])
  obtain b where b: "tcp_mem s a = Some b" "tp_state b = TIME_WAIT" using assms(1) by (auto simp: tw_list_def)
  have "a \<noteq> 0" using nodes_not_0 [OF l] by auto
  then have purge: "tcp_pcb_purge a s = Some s" using b by (simp add: tcp_pcb_purge_def lwip_assert_def)
  show thesis
  proof (cases ks rule: rev_cases)
    case Nil
    with l b have h: "tcp_tw_pcbs s = a" "node_list (tcp_mem s) tp_next (tp_next b) rs" by simp_all
    let ?t = "s\<lparr>tcp_mem := (tcp_mem s)(a := None), tcp_tw_pcbs := tp_next b\<rparr>"
    have "slow_tw_remove prev a s = Some ?t"
      using assms(2) Nil b h purge
      by (simp add: slow_tw_remove_def slow_unlink_def tcp_free_def tcp_list_head_def set_tcp_list_def lwip_assert_def)
    moreover have "tw_kept (ks @ a # rs) (ks @ rs) s ?t"
      using Nil h d assms(1) by (auto simp: tw_kept_def tw_list_def unlinked_def)
    moreover have "tcp_mem ?t r = tcp_mem s r" if "r \<in> set rs" for r using that d by auto
    ultimately show thesis by (rule that)
  next
    case (snoc xs y)
    have y: "y \<noteq> 0" "y \<noteq> a" "y \<notin> set rs" "y \<notin> set xs" "a \<notin> set xs" using nodes_not_0 [OF l] d snoc by auto
    obtain c where c: "tcp_mem s y = Some c" "tp_state c = TIME_WAIT" using assms(1) snoc by (auto simp: tw_list_def)
    have h: "tcp_tw_pcbs s \<noteq> a" using l snoc d by (cases xs) auto
    let ?m = "(tcp_mem s)(y := Some (c\<lparr>tp_next := tp_next b\<rparr>))"
    let ?t = "s\<lparr>tcp_mem := ?m(a := None)\<rparr>"
    have "node_list ?m tp_next (tcp_tw_pcbs s) (xs @ y # rs)"
      using tcp_pcbs.unlink [of "tcp_mem s" "tcp_tw_pcbs s" xs y a rs c b] l c b snoc by simp
    then have n: "node_list (?m(a := None)) tp_next (tcp_tw_pcbs s) (xs @ y # rs)"
      using d snoc by (subst nodes_upd_other) auto
    have "slow_tw_remove prev a s = Some ?t"
      using assms(2) snoc b c y h purge
      by (simp add: slow_tw_remove_def slow_unlink_def tcp_free_def tcp_list_head_def upd_tcp_def put_tcp_def lwip_assert_def)
    moreover have "tw_kept (ks @ a # rs) (ks @ rs) s ?t"
      using n snoc y c d assms(1) by (auto simp: tw_kept_def tw_list_def unlinked_def)
    moreover have "tcp_mem ?t r = tcp_mem s r" if "r \<in> set rs" for r using that d y by auto
    ultimately show thesis by (rule that)
  qed
qed

lemma tw_kept_refl: "tw_list as s \<Longrightarrow> tw_kept as as s s"
  by (simp add: tw_kept_def)

lemma tw_kept_trans:
  assumes "tw_kept as bs s t" "tw_kept bs cs t u" "set cs \<subseteq> set bs" "set bs \<subseteq> set as"
  shows "tw_kept as cs s u"
proof -
  have "unlinked u a = (if a \<in> set as \<and> a \<notin> set cs then None else unlinked s a)" for a
    using assms by (cases "a \<in> set bs"; cases "a \<in> set cs") (auto simp: tw_kept_def)
  moreover have "u = s\<lparr>tcp_mem := tcp_mem u, tcp_tw_pcbs := tcp_tw_pcbs u\<rparr>"
  proof -
    have "u = t\<lparr>tcp_mem := tcp_mem u, tcp_tw_pcbs := tcp_tw_pcbs u\<rparr>" using assms(2) by (simp add: tw_kept_def)
    also have "t = s\<lparr>tcp_mem := tcp_mem t, tcp_tw_pcbs := tcp_tw_pcbs t\<rparr>" using assms(1) by (simp add: tw_kept_def)
    finally show ?thesis by simp
  qed
  ultimately show ?thesis using assms(2) by (simp add: tw_kept_def)
qed

lemma tw_kept_other:
  assumes "tw_kept as bs s t"
  shows "tcp_ticks t = tcp_ticks s" "tcp_active_pcbs t = tcp_active_pcbs s" "tcp_timer_ctr t = tcp_timer_ctr s"
proof -
  have t: "t = s\<lparr>tcp_mem := tcp_mem t, tcp_tw_pcbs := tcp_tw_pcbs t\<rparr>" using assms by (simp add: tw_kept_def)
  show "tcp_ticks t = tcp_ticks s" "tcp_active_pcbs t = tcp_active_pcbs s" "tcp_timer_ctr t = tcp_timer_ctr s"
    by (subst t, simp)+
qed

lemma slow_tw_loop_from:
  assumes "tw_list (ks @ rs) s" "node_list (tcp_mem s) tp_next pcb rs" "prev = (if ks = [] then 0 else last ks)"
  shows "\<exists>t. slow_tw_loop prev pcb s = Some t \<and> tw_kept (ks @ rs) (ks @ filter (\<lambda>a. tw_age s a \<le> 240) rs) s t"
  using assms
proof (induction rs arbitrary: s ks pcb prev)
  case Nil
  then show ?case by (subst slow_tw_loop.simps) (simp add: tw_kept_refl)
next
  case (Cons a rs)
  from Cons.prems(2) obtain b where b: "pcb = a" "a \<noteq> 0" "tcp_mem s a = Some b" "node_list (tcp_mem s) tp_next (tp_next b) rs"
    by (auto split: option.splits)
  have tw: "tp_state b = TIME_WAIT" using Cons.prems(1) b(3) by (auto simp: tw_list_def)
  show ?case
  proof (cases "tw_age s a \<le> 240")
    case True
    then have old: "\<not> tcp_ticks s - tp_tmr b > 2 * TCP_MSL div TCP_SLOW_INTERVAL" unfolding expired by (simp add: tw_age_def b(3))
    show ?thesis
      using Cons.IH [of "ks @ [a]" s "tp_next b" a] Cons.prems(1) b(4) True
      by (subst slow_tw_loop.simps) (simp add: b(1-3) tw old lwip_assert_def)
  next
    case False
    then have old: "tcp_ticks s - tp_tmr b > 2 * TCP_MSL div TCP_SLOW_INTERVAL" unfolding expired by (simp add: tw_age_def b(3))
    obtain t where t: "slow_tw_remove prev a s = Some t" "tw_kept (ks @ a # rs) (ks @ rs) s t"
      "\<And>r. r \<in> set rs \<Longrightarrow> tcp_mem t r = tcp_mem s r"
      using slow_tw_remove [OF Cons.prems(1,3)] by blast
    have nl: "node_list (tcp_mem t) tp_next (tp_next b) rs"
      using b(4) by (subst nodes_cong [where mem' = "tcp_mem s"]) (simp_all add: t(3))
    have "tw_age t r = tw_age s r" if "r \<in> set rs" for r
      using tw_kept_other [OF t(2)] t(3) that by (simp add: tw_age_def)
    then have f: "filter (\<lambda>a. tw_age t a \<le> 240) rs = filter (\<lambda>a. tw_age s a \<le> 240) rs" by (simp cong: filter_cong)
    have "tw_list (ks @ rs) t" using t(2) by (simp add: tw_kept_def)
    then obtain u where u: "slow_tw_loop prev (tp_next b) t = Some u"
      "tw_kept (ks @ rs) (ks @ filter (\<lambda>a. tw_age s a \<le> 240) rs) t u"
      using Cons.IH [of ks t "tp_next b" prev] nl Cons.prems(3) f by auto
    have "slow_tw_loop prev pcb s = do { t \<leftarrow> slow_tw_remove prev a s; slow_tw_loop prev (tp_next b) t }"
      by (subst slow_tw_loop.simps) (simp add: b(1-3) tw old slow_tw_remove_def lwip_assert_def)
    then have "slow_tw_loop prev pcb s = Some u" using t(1) u(1) by simp
    moreover have "tw_kept (ks @ a # rs) (ks @ filter (\<lambda>a. tw_age s a \<le> 240) rs) s u"
      by (rule tw_kept_trans [OF t(2) u(2)]) auto
    ultimately show ?thesis using False by simp
  qed
qed

lemma slow_tw_loop_list:
  assumes "tw_list as s"
  shows "\<exists>t. slow_tw_loop 0 (tcp_tw_pcbs s) s = Some t \<and> tw_kept as (filter (\<lambda>a. tw_age s a \<le> 240) as) s t"
  using slow_tw_loop_from [of "[]" as s "tcp_tw_pcbs s" 0] assms by (simp add: tw_list_def)

section \<open>Many rounds\<close>

primrec slow_ticks :: "'a tcp_state_scheme tcp_env \<Rightarrow> nat \<Rightarrow> 'a tcp_state_scheme \<Rightarrow> 'a tcp_state_scheme option" where
  "slow_ticks env 0 s = Some s"
| "slow_ticks env (Suc n) s = do { s \<leftarrow> slow_ticks env n s; tcp_slowtmr env s }"

definition ticked :: "nat \<Rightarrow> 'a tcp_state_scheme \<Rightarrow> 'a tcp_state_scheme" where
  "ticked n s = s\<lparr>tcp_ticks := tcp_ticks s + of_nat n, tcp_timer_ctr := tcp_timer_ctr s + of_nat n\<rparr>"

lemma ticked_0: "ticked 0 s = s" by (simp add: ticked_def)

lemma tw_list_ticked [simp]: "tw_list as (ticked n s) = tw_list as s"
  by (simp add: tw_list_def ticked_def)

lemma unlinked_ticked [simp]: "unlinked (ticked n s) = unlinked s"
  by (simp add: unlinked_def fun_eq_iff ticked_def)

lemma tw_kept_ticked:
  assumes "tw_kept as bs (ticked n s) t"
  shows "tw_kept as bs (ticked (Suc n) s) (ticked 1 t)"
proof -
  have t: "t = (ticked n s)\<lparr>tcp_mem := tcp_mem t, tcp_tw_pcbs := tcp_tw_pcbs t\<rparr>" using assms by (simp add: tw_kept_def)
  have "ticked 1 t = (ticked (Suc n) s)\<lparr>tcp_mem := tcp_mem (ticked 1 t), tcp_tw_pcbs := tcp_tw_pcbs (ticked 1 t)\<rparr>"
    by (subst (1) t) (simp add: ticked_def)
  then show ?thesis using assms by (simp add: tw_kept_def)
qed

lemma slowtmr_idle:
  assumes "tcp_active_pcbs s = 0"
  shows "tcp_slowtmr env s = slow_tw_loop 0 (tcp_tw_pcbs (ticked 1 s)) (ticked 1 s)"
  using assms by (subst tcp_slowtmr_def, subst slow_active_loop.simps) (simp add: ticked_def Let_def)

lemma tw_kept_age:
  assumes "tw_kept as bs (ticked n s) t" "a \<in> set bs" "a \<in> set as" "tw_age s a \<le> 240" "n \<le> 240"
  shows "tw_age (ticked 1 t) a = tw_age s a + Suc n"
proof -
  have "map_option tp_tmr (tcp_mem t a) = map_option tp_tmr (tcp_mem s a)"
    using assms(1-3) by (intro unlinked_tmr) (simp add: tw_kept_def)
  moreover obtain b where "tcp_mem t a = Some b" using assms(1,2) by (auto simp: tw_kept_def tw_list_def)
  ultimately have "tp_tmr (the (tcp_mem t a)) = tp_tmr (the (tcp_mem s a))" by (cases "tcp_mem s a") auto
  moreover have "tcp_ticks t = tcp_ticks s + of_nat n" using tw_kept_other [OF assms(1)] by (simp add: ticked_def)
  ultimately have "tw_age (ticked 1 t) a = unat ((tcp_ticks s - tp_tmr (the (tcp_mem s a))) + of_nat (Suc n))"
    by (simp add: tw_age_def ticked_def algebra_simps)
  also have "\<dots> = tw_age s a + Suc n"
    using assms(4,5) by (simp add: tw_age_def unat_word_ariths(1) unat_of_nat take_bit_eq_mod del: of_nat_Suc)
  finally show ?thesis .
qed

text \<open>C5: On a host without active connections every connection in TIME_WAIT is freed by the slow
  timer, and exactly when its age has passed 240 ticks, twice the maximum segment lifetime: after \<open>n\<close>
  ticks the list holds, in the old order, the PCBs whose age was at most \<open>240 - n\<close>, the others have been
  freed and nothing else has changed; after 241 ticks none is left. The timer neither fails nor loops.\<close>

theorem tcp_slowtmr_time_wait:
  assumes "tw_list as s" "tcp_active_pcbs s = 0" "\<forall>a\<in>set as. tw_age s a \<le> 240"
  shows "\<exists>t. slow_ticks env n s = Some t \<and> tw_kept as (filter (\<lambda>a. tw_age s a + n \<le> 240) as) (ticked n s) t \<and>
    (n > 240 \<longrightarrow> tcp_tw_pcbs t = 0 \<and> (\<forall>a\<in>set as. tcp_mem t a = None))"
proof -
  have "\<exists>t. slow_ticks env n s = Some t \<and> tw_kept as (filter (\<lambda>a. tw_age s a + n \<le> 240) as) (ticked n s) t"
  proof (induction n)
    case 0
    have "filter (\<lambda>a. tw_age s a + 0 \<le> 240) as = as" using assms(3) by simp
    then show ?case using assms(1) by (simp add: ticked_0 tw_kept_refl)
  next
    case (Suc n)
    let ?bs = "filter (\<lambda>a. tw_age s a + n \<le> 240) as"
    obtain t where t: "slow_ticks env n s = Some t" "tw_kept as ?bs (ticked n s) t" using Suc.IH by blast
    have idle: "tcp_active_pcbs t = 0" using tw_kept_other [OF t(2)] assms(2) by (simp add: ticked_def)
    have "tw_list ?bs (ticked 1 t)" using t(2) by (simp add: tw_kept_def)
    then obtain u where u: "slow_tw_loop 0 (tcp_tw_pcbs (ticked 1 t)) (ticked 1 t) = Some u"
      "tw_kept ?bs (filter (\<lambda>a. tw_age (ticked 1 t) a \<le> 240) ?bs) (ticked 1 t) u"
      using slow_tw_loop_list by blast
    have "tw_age (ticked 1 t) a \<le> 240 \<longleftrightarrow> tw_age s a + Suc n \<le> 240" if "a \<in> set ?bs" for a
      using tw_kept_age [OF t(2) that] that assms(3) by simp
    then have "filter (\<lambda>a. tw_age (ticked 1 t) a \<le> 240) ?bs = filter (\<lambda>a. tw_age s a + Suc n \<le> 240) ?bs"
      by (rule filter_cong [OF refl])
    also have "\<dots> = filter (\<lambda>a. tw_age s a + Suc n \<le> 240) as" by (auto simp: filter_filter intro: filter_cong)
    finally have f: "filter (\<lambda>a. tw_age (ticked 1 t) a \<le> 240) ?bs = filter (\<lambda>a. tw_age s a + Suc n \<le> 240) as" .
    have "tw_kept as (filter (\<lambda>a. tw_age s a + Suc n \<le> 240) as) (ticked (Suc n) s) u"
      by (rule tw_kept_trans [OF tw_kept_ticked [OF t(2)] u(2) [unfolded f]]) auto
    moreover have "slow_ticks env (Suc n) s = Some u" using t(1) u(1) by (simp add: slowtmr_idle [OF idle])
    ultimately show ?case by blast
  qed
  then obtain t where t: "slow_ticks env n s = Some t" "tw_kept as (filter (\<lambda>a. tw_age s a + n \<le> 240) as) (ticked n s) t"
    by blast
  have "tcp_tw_pcbs t = 0 \<and> (\<forall>a\<in>set as. tcp_mem t a = None)" if "n > 240"
  proof -
    have "filter (\<lambda>a. tw_age s a + n \<le> 240) as = []" using that by simp
    then have "tw_list [] t" "\<forall>a\<in>set as. unlinked t a = None" using t(2) by (simp_all add: tw_kept_def)
    then show ?thesis by (simp add: tw_list_def unlinked_def)
  qed
  with t show ?thesis by blast
qed

text \<open>A host with two connections that were closed 240 and 10 ticks ago.\<close>

definition demo_tw :: tcp_state where
  "demo_tw = demo_tcp\<lparr>tcp_active_pcbs := 0, tcp_tw_pcbs := 5, tcp_ticks := 1000,
     tcp_mem := [5 \<mapsto> demo_conn\<lparr>tp_state := TIME_WAIT, tp_tmr := 990, tp_next := 6\<rparr>,
       6 \<mapsto> demo_conn\<lparr>tp_state := TIME_WAIT, tp_tmr := 760\<rparr>]\<rparr>"

theorem tcp_slowtmr_time_wait_witness:
  "\<exists>t. slow_ticks demo_tcp_env 1 demo_tw = Some t \<and> tw_kept [5, 6] [5] (ticked 1 demo_tw) t"
proof -
  have age: "tw_age demo_tw 5 = 10" "tw_age demo_tw 6 = 240" by (simp_all add: tw_age_def demo_tw_def)
  have l: "tw_list [5, 6] demo_tw" by (simp add: tw_list_def demo_tw_def demo_conn_def tcp_pcb_zero_def)
  have "tcp_active_pcbs demo_tw = 0" by (simp add: demo_tw_def)
  then have "\<exists>t. slow_ticks demo_tcp_env 1 demo_tw = Some t \<and>
      tw_kept [5, 6] (filter (\<lambda>a. tw_age demo_tw a + 1 \<le> 240) [5, 6]) (ticked 1 demo_tw) t \<and>
      ((1 :: nat) > 240 \<longrightarrow> tcp_tw_pcbs t = 0 \<and> (\<forall>a\<in>set [5, 6]. tcp_mem t a = None))"
    by (intro tcp_slowtmr_time_wait l) (simp_all add: age)
  moreover have "filter (\<lambda>a. tw_age demo_tw a + 1 \<le> 240) [5, 6] = [5]" by (simp add: age)
  ultimately show ?thesis by auto
qed

end
