(* ===== verification/Lwip_Icmp.thy ===== *)
theory Lwip_Icmp
  imports Lwip_Reass
begin

text \<open>
  ICMP (\<^verbatim>\<open>core/ipv4/icmp.c\<close>): the answer to an echo request, which reuses the packet of the
  request when there is room for the link header in front of it, and the error messages
  \<^verbatim>\<open>icmp_dest_unreach\<close> and \<^verbatim>\<open>icmp_time_exceeded\<close>. Incoming checksums are not checked and pings to
  broadcast and multicast addresses are not answered; the counters are not modelled.
\<close>

definition ICMP_ER :: u8 where "ICMP_ER = 0"
definition ICMP_DUR :: u8 where "ICMP_DUR = 3"
definition ICMP_ECHO :: u8 where "ICMP_ECHO = 8"
definition ICMP_TE :: u8 where "ICMP_TE = 11"
definition ICMP_TTL :: u8 where "ICMP_TTL = 255"
definition ICMP_DEST_UNREACH_DATASIZE :: nat where "ICMP_DEST_UNREACH_DATASIZE = 8"

text \<open>\<^verbatim>\<open>sizeof(struct icmp_echo_hdr)\<close>: type, code, checksum, identifier and sequence number\<close>

definition ICMP_HLEN :: nat where "ICMP_HLEN = 8"
definition PBUF_LINK_HLEN :: nat where "PBUF_LINK_HLEN = 14"

section \<open>Echo\<close>

text \<open>The checksum of the reply is adjusted, not computed again.\<close>

definition icmp_echo_chksum :: "u16 \<Rightarrow> u16" where
  "icmp_echo_chksum chksum =
     (if chksum > lwip_htons (0xffff - push_bit 8 (ucast ICMP_ECHO))
      then chksum + lwip_htons (push_bit 8 (ucast ICMP_ECHO)) + 1
      else chksum + lwip_htons (push_bit 8 (ucast ICMP_ECHO)))"

text \<open>
  A packet with the contents of \<^verbatim>\<open>p\<close> and room for the headers: \<^verbatim>\<open>p\<close> itself, or a copy; then \<^verbatim>\<open>p\<close>
  is freed. \<^term>\<open>None\<close> stands for the jump to \<^verbatim>\<open>icmperr\<close>.
\<close>

definition icmp_echo_copy :: "heap \<Rightarrow> vptr \<Rightarrow> u16 \<Rightarrow> nat \<Rightarrow> (nat option \<times> heap) option" where
  "icmp_echo_copy h iphdr_in hlen p =
     do {
       b \<leftarrow> pbufs h p;
       let alloc_len = pb_tot_len b + hlen;
       if alloc_len < pb_tot_len b then Some (None, h)
       else do {
         (r, h) \<leftarrow> pbuf_alloc h PBUF_LINK alloc_len PBUF_RAM;
         if r = 0 then Some (None, h)
         else do {
           rb \<leftarrow> pbufs h r;
           if unat (pb_len rb) < unat hlen + ICMP_HLEN then do { (c, h) \<leftarrow> pbuf_free h r; Some (None, h) }
           else do {
             hdr \<leftarrow> mem_read h iphdr_in 0 (unat hlen);
             h \<leftarrow> mem_write h (pb_payload rb) 0 hdr;
             (x, h) \<leftarrow> pbuf_remove_header h r (unat hlen);
             lwip_assert (x = 0);
             (e, h) \<leftarrow> pbuf_copy h r p;
             if e \<noteq> ERR_OK then do { (c, h) \<leftarrow> pbuf_free h r; Some (None, h) }
             else do { (c, h) \<leftarrow> pbuf_free h p; Some (Some r, h) }
           }
         }
       }
     }"

definition icmp_echo_room :: "heap \<Rightarrow> vptr \<Rightarrow> u16 \<Rightarrow> nat \<Rightarrow> (nat option \<times> heap) option" where
  "icmp_echo_room h iphdr_in hlen p =
     do {
       (x, h) \<leftarrow> pbuf_add_header h p (unat hlen + PBUF_LINK_HLEN);
       if x \<noteq> 0 then icmp_echo_copy h iphdr_in hlen p
       else do {
         (x, h) \<leftarrow> pbuf_remove_header h p (unat hlen + PBUF_LINK_HLEN);
         lwip_assert (x = 0);
         Some (Some p, h)
       }
     }"

text \<open>The request in \<^verbatim>\<open>p\<close> becomes the reply and is sent.\<close>

definition icmp_echo_reply ::
  "'a ip_state_scheme ip_env \<Rightarrow> nat \<Rightarrow> u32 \<Rightarrow> u16 \<Rightarrow> netif \<Rightarrow> 'a ip_state_scheme \<Rightarrow> 'a ip_state_scheme option" where
  "icmp_echo_reply env p src hlen inp s =
     do {
       iecho \<leftarrow> payload_of (ip_heap s) p;
       (x, h) \<leftarrow> pbuf_add_header (ip_heap s) p (unat hlen);
       if x \<noteq> 0 then Some (s\<lparr>ip_heap := h\<rparr>)
       else do {
         iphdr \<leftarrow> payload_of h p;
         h \<leftarrow> mem_write h iphdr 12 (u32_bytes src);
         h \<leftarrow> mem_write h iphdr 16 (u32_bytes (ip_2_ip4 (current_iphdr_src (ip_data s))));
         h \<leftarrow> mem_write h iecho 0 [ICMP_ER];
         c \<leftarrow> mem_read h iecho 2 2;
         h \<leftarrow> mem_write h iecho 2 (store16 (icmp_echo_chksum (ldf16 c 0)));
         h \<leftarrow> mem_write h iphdr 8 [ICMP_TTL];
         h \<leftarrow> mem_write h iphdr 10 (store16 0);
         hdr \<leftarrow> mem_read h iphdr 0 (unat hlen);
         h \<leftarrow> mem_write h iphdr 10 (store16 (inet_chksum LWIP_CHKSUM (vptr_address h iphdr) hdr));
         (ret, s) \<leftarrow> ip4_output_if env p (Some src) None ICMP_TTL 0 IP_PROTO_ICMP inp (s\<lparr>ip_heap := h\<rparr>);
         Some s
       }
     }"

definition icmp_free :: "nat \<Rightarrow> 'a ip_state_scheme \<Rightarrow> 'a ip_state_scheme option" where
  "icmp_free p s = do { (c, h) \<leftarrow> pbuf_free (ip_heap s) p; Some (s\<lparr>ip_heap := h\<rparr>) }"

text \<open>Is an echo request to this address answered? \<^verbatim>\<open>ip_current_netif\<close> is looked at for unicast only.\<close>

definition icmp_echo_ignored :: "'a ip_state_scheme \<Rightarrow> bool option" where
  "icmp_echo_ignored s =
     (let dest = ip_2_ip4 (current_iphdr_dest (ip_data s)) in
      if ip4_addr_ismulticast dest then Some True
      else do { netif \<leftarrow> current_netif (ip_data s); Some (ip4_addr_isbroadcast_u32 dest netif) })"

definition icmp_echo_input ::
  "'a ip_state_scheme ip_env \<Rightarrow> nat \<Rightarrow> u16 \<Rightarrow> netif \<Rightarrow> 'a ip_state_scheme \<Rightarrow> 'a ip_state_scheme option" where
  "icmp_echo_input env p hlen inp s =
     do {
       ignored \<leftarrow> icmp_echo_ignored s;
       b \<leftarrow> pbufs (ip_heap s) p;
       if ignored \<or> unat (pb_tot_len b) < ICMP_HLEN then icmp_free p s
       else do {
         (q, h) \<leftarrow> icmp_echo_room (ip_heap s) (current_ip4_header (ip_data s)) hlen p;
         (case q of
            None \<Rightarrow> icmp_free p (s\<lparr>ip_heap := h\<rparr>)
          | Some q \<Rightarrow> do {
              s \<leftarrow> icmp_echo_reply env q (ip_2_ip4 (current_iphdr_dest (ip_data s))) hlen inp (s\<lparr>ip_heap := h\<rparr>);
              icmp_free q s
            })
       }
     }"

text \<open>All other messages are dropped.\<close>

definition icmp_input ::
  "'a ip_state_scheme ip_env \<Rightarrow> nat \<Rightarrow> netif \<Rightarrow> 'a ip_state_scheme \<Rightarrow> 'a ip_state_scheme option" where
  "icmp_input env p inp s =
     do {
       v \<leftarrow> mem_read (ip_heap s) (current_ip4_header (ip_data s)) 0 1;
       let hlen = (ucast (IPH_HL_BYTES v) :: u16);
       b \<leftarrow> pbufs (ip_heap s) p;
       if unat hlen < IP_HLEN \<or> pb_len b < 4 then icmp_free p s
       else do {
         bs \<leftarrow> mem_read (ip_heap s) (pb_payload b) 0 2;
         if hd bs = ICMP_ECHO then icmp_echo_input env p hlen inp s else icmp_free p s
       }
     }"

section \<open>Error messages\<close>

text \<open>
  The message quotes the header of the packet in \<^verbatim>\<open>p\<close> and eight bytes behind it, whether the packet
  has them or not, and goes to its source.
\<close>

definition icmp_send_response ::
  "'a ip_state_scheme ip_env \<Rightarrow> nat \<Rightarrow> u8 \<Rightarrow> u8 \<Rightarrow> 'a ip_state_scheme \<Rightarrow> 'a ip_state_scheme option" where
  "icmp_send_response env p type code s =
     do {
       (q, h) \<leftarrow> pbuf_alloc (ip_heap s) PBUF_IP (of_nat (ICMP_HLEN + IP_HLEN + ICMP_DEST_UNREACH_DATASIZE)) PBUF_RAM;
       if q = 0 then Some (s\<lparr>ip_heap := h\<rparr>)
       else do {
         qb \<leftarrow> pbufs h q;
         lwip_assert (unat (pb_len qb) \<ge> ICMP_HLEN + IP_HLEN + ICMP_DEST_UNREACH_DATASIZE);
         iphdr \<leftarrow> payload_of h p;
         let icmphdr = pb_payload qb;
         h \<leftarrow> mem_write h icmphdr 0 [type, code];
         h \<leftarrow> mem_write h icmphdr 4 (store16 0 @ store16 0);
         orig \<leftarrow> mem_read h iphdr 0 (IP_HLEN + ICMP_DEST_UNREACH_DATASIZE);
         h \<leftarrow> mem_write h icmphdr ICMP_HLEN orig;
         src \<leftarrow> mem_read h iphdr 12 4;
         let iphdr_src = ldf32 src 0;
         s \<leftarrow> (case ip4_route iphdr_src s of
             None \<Rightarrow> Some (s\<lparr>ip_heap := h\<rparr>)
           | Some netif \<Rightarrow> do {
               h \<leftarrow> mem_write h icmphdr 2 (store16 0);
               msg \<leftarrow> mem_read h icmphdr 0 (unat (pb_len qb));
               h \<leftarrow> mem_write h icmphdr 2 (store16 (inet_chksum LWIP_CHKSUM (vptr_address h icmphdr) msg));
               (e, s) \<leftarrow> ip4_output_if env q None (Some iphdr_src) ICMP_TTL 0 IP_PROTO_ICMP netif (s\<lparr>ip_heap := h\<rparr>);
               Some s
             });
         icmp_free q s
       }
     }"

definition icmp_dest_unreach ::
  "'a ip_state_scheme ip_env \<Rightarrow> nat \<Rightarrow> u8 \<Rightarrow> 'a ip_state_scheme \<Rightarrow> 'a ip_state_scheme option" where
  "icmp_dest_unreach env p t s = icmp_send_response env p ICMP_DUR t s"

definition icmp_time_exceeded ::
  "'a ip_state_scheme ip_env \<Rightarrow> nat \<Rightarrow> u8 \<Rightarrow> 'a ip_state_scheme \<Rightarrow> 'a ip_state_scheme option" where
  "icmp_time_exceeded env p t s = icmp_send_response env p ICMP_TE t s"

end
