(* ===== verification/Lwip_Icmp_Props.thy ===== *)
theory Lwip_Icmp_Props
  imports Lwip_Icmp Lwip_Tcp_Demo
begin

text \<open>
  What ICMP promises: the adjusted checksum of an echo reply is as good as one computed again, and
  a request that arrives with room in front of it leaves as the reply, with the addresses
  exchanged, a correct IP header and the data unchanged.
\<close>

section \<open>The checksum of a reply\<close>

lemma icmp_echo_chksum_nat:
  "unat (icmp_echo_chksum c) = (if unat c > 0xfff7 then unat c + 9 - 65536 else unat c + 8)"
proof -
  have h: "lwip_htons (0xffff - push_bit 8 (ucast ICMP_ECHO)) = 0xfff7" "lwip_htons (push_bit 8 (ucast ICMP_ECHO)) = 8"
    by (simp_all add: ICMP_ECHO_def lwip_htons_def)
  show ?thesis
  proof (cases "unat c > 0xfff7")
    case True
    have c: "unat c = 65528 + (unat c - 65528)" "unat c - 65528 < 8" using True unat_u16_less [of c] by linarith+
    have nine: "unat (9 :: u16) = 9" by simp
    have "unat (c + 9) = (unat c + 9) mod 65536"
      by (simp only: unat_word_ariths(1) nine) simp
    also have "unat c + 9 = 65536 + Suc (unat c - 65528)" using c(1) by linarith
    also have "\<dots> mod 65536 = Suc (unat c - 65528)" unfolding mod_add_self1 using c(2) by simp
    also have "\<dots> = unat c + 9 - 65536" using c(1) by linarith
    finally have "unat (c + 9) = unat c + 9 - 65536" .
    then show ?thesis using True by (simp add: icmp_echo_chksum_def h word_less_nat_alt add.assoc)
  next
    case False
    then have "unat (c + 8) = unat c + 8" by (intro unat_add_u16_small [of c 8, simplified]) simp
    then show ?thesis using False by (simp add: icmp_echo_chksum_def h word_less_nat_alt)
  qed
qed

lemma icmp_echo_sum: "ceq (256 * unat x + unat (icmp_echo_chksum c) + n) (8 + 256 * unat x + unat c + n)"
proof (cases "unat c > 0xfff7")
  case True
  let ?a = "256 * unat x + unat (icmp_echo_chksum c) + n"
  have e: "8 + 256 * unat x + unat c + n = ?a + 65535" using True icmp_echo_chksum_nat [of c] by simp
  have "?a \<noteq> 0" using True icmp_echo_chksum_nat [of c] by simp
  then show ?thesis unfolding e ceq_def by (simp only: mod_add_self2) simp
next
  case False
  then have "256 * unat x + unat (icmp_echo_chksum c) + n = 8 + 256 * unat x + unat c + n"
    using icmp_echo_chksum_nat [of c] by simp
  then show ?thesis by (simp only: ceq_refl)
qed

text \<open>C19: The echo reply's checksum, which is adjusted by the difference of the types with an end-around
  carry (RFC 1624), is valid exactly when that of the request was - however the messages are split
  into pbufs, and for all contents, lengths and checksums.\<close>

theorem icmp_echo_chksum_valid:
  assumes "u16_segments p" "u16_segments q"
    "chain_data p = [ICMP_ECHO, code] @ store16 c @ ys"
    "chain_data q = [ICMP_ER, code] @ store16 (icmp_echo_chksum c) @ ys"
  shows "inet_chksum_pbuf LWIP_CHKSUM q = 0 \<longleftrightarrow> inet_chksum_pbuf LWIP_CHKSUM p = 0"
proof -
  have le: "le_sum (store16 d @ ys) = unat d + le_sum ys" for d
    using le_sum_append_even [of "store16 d" ys] by (simp add: le_sum_store16)
  have "ceq (le_sum (chain_data q)) (le_sum (chain_data p))"
    using icmp_echo_sum [of code c "le_sum ys"] assms(3,4) by (simp add: le ICMP_ER_def ICMP_ECHO_def add.assoc)
  then have "oc16 (le_sum (chain_data q)) = oc16 (le_sum (chain_data p))" by (rule oc16_cong)
  then have "unat (inet_chksum_pbuf LWIP_CHKSUM q) = unat (inet_chksum_pbuf LWIP_CHKSUM p)"
    using v2.inet_chksum_pbuf [OF assms(1)] v2.inet_chksum_pbuf [OF assms(2)] by (simp add: LWIP_CHKSUM_def)
  then show ?thesis by (simp add: word_unat_eq_iff)
qed

theorem icmp_echo_chksum_valid_witness:
  "inet_chksum_pbuf LWIP_CHKSUM [(0, [8, 0]), (2, store16 0xfff8 @ [0xfe, 0xff])] = 0 \<and>
   inet_chksum_pbuf LWIP_CHKSUM [(0, [0, 0]), (2, store16 (icmp_echo_chksum 0xfff8) @ [0xfe, 0xff])] = 0"
proof -
  have "inet_chksum_pbuf LWIP_CHKSUM [(0, [8, 0]), (2, store16 0xfff8 @ [0xfe, 0xff])] = 0"
    unfolding LWIP_CHKSUM_def by code_simp
  then show ?thesis
    using icmp_echo_chksum_valid [where p = "[(0, [8, 0]), (2, store16 0xfff8 @ [0xfe, 0xff])]"
      and q = "[(0, [0, 0]), (2, store16 (icmp_echo_chksum 0xfff8) @ [0xfe, 0xff])]"
      and code = 0 and c = "0xfff8" and ys = "[0xfe, 0xff]"]
    by (simp add: u16_segments_def chain_data_def ICMP_ECHO_def ICMP_ER_def)
qed

section \<open>Answering an echo request\<close>

text \<open>The headers of the reply, as functions of those of the request; \<open>a\<close> is the address of the IP header.\<close>

definition reply_iphdr :: "nat \<Rightarrow> u32 \<Rightarrow> u32 \<Rightarrow> u8 list \<Rightarrow> u8 list" where
  "reply_iphdr a src dest hdr =
     (let hdr = patch 10 [0, 0] (patch 8 [ICMP_TTL] (patch 16 (u32_bytes dest) (patch 12 (u32_bytes src) hdr)))
      in patch 10 (store16 (inet_chksum LWIP_CHKSUM a hdr)) hdr)"

definition reply_msg :: "u8 list \<Rightarrow> u8 list" where
  "reply_msg msg = (let msg = patch 0 [ICMP_ER] msg in patch 2 (store16 (icmp_echo_chksum (ldf16 (take 2 (drop 2 msg)) 0))) msg)"

text \<open>A packet whose block holds an IP header and behind it the message.\<close>

definition req_heap :: "heap \<Rightarrow> nat \<Rightarrow> pbuf \<Rightarrow> u8 list \<Rightarrow> u8 list \<Rightarrow> u8 list \<Rightarrow> heap" where
  "req_heap h p b pre hdr msg = h\<lparr>pbufs := (pbufs h)(p \<mapsto> b), blocks := (blocks h)(p \<mapsto> pre @ hdr @ msg)\<rparr>"

lemma req_heap_sel [simp]: "pbufs (req_heap h p b pre hdr msg) p = Some b"
  "vptr_address (req_heap h p b pre hdr msg) v = vptr_address h v"
  by (simp_all add: req_heap_def vptr_address_def split: vptr.split)

lemma put_req_heap [simp]: "put_pbuf (req_heap h p b pre hdr msg) p c = req_heap h p c pre hdr msg"
  by (simp add: req_heap_def put_pbuf_def)

lemma req_heap_hdr:
  assumes "off + length src \<le> length hdr" "src \<noteq> []"
  shows "mem_write (req_heap h p b pre hdr msg) (VPtr p (length pre)) off src = Some (req_heap h p b pre (patch off src hdr) msg)"
  using assms by (simp add: mem_write_def req_heap_def buf_write_patch patch_append_right patch_append_left)

lemma req_heap_msg:
  assumes "d = length pre + length hdr" "off + length src \<le> length msg" "src \<noteq> []"
  shows "mem_write (req_heap h p b pre hdr msg) (VPtr p d) off src =
    Some (req_heap h p b pre hdr (patch off src msg))"
  using assms patch_append_right [of "pre @ hdr" off src msg]
  by (simp add: mem_write_def req_heap_def buf_write_patch add.assoc)

lemma req_heap_read_hdr:
  assumes "off + n \<le> length hdr" "n \<noteq> 0"
  shows "mem_read (req_heap h p b pre hdr msg) (VPtr p (length pre)) off n = Some (take n (drop off hdr))"
  using assms by (simp add: mem_read_def req_heap_def buf_read_def)

lemma req_heap_read_msg:
  assumes "d = length pre + length hdr" "off + n \<le> length msg" "n \<noteq> 0"
  shows "mem_read (req_heap h p b pre hdr msg) (VPtr p d) off n = Some (take n (drop off msg))"
  using assms by (simp add: mem_read_def req_heap_def buf_read_def)

lemma req_heap_add_header:
  assumes "p \<noteq> 0" "pb_type_internal b AND PBUF_TYPE_FLAG_STRUCT_DATA_CONTIGUOUS \<noteq> 0"
    "pb_payload b = VPtr p d" "SIZEOF_STRUCT_PBUF + n \<le> d" "0 < n" "unat (pb_tot_len b) + n \<le> 65535"
  shows "pbuf_add_header (req_heap h p b pre hdr msg) p n =
    Some (0, req_heap h p (b\<lparr>pb_payload := VPtr p (d - n), pb_len := pb_len b + of_nat n,
      pb_tot_len := pb_tot_len b + of_nat n\<rparr>) pre hdr msg)"
proof -
  have n: "n < 65536" "unat (of_nat n :: u16) = n" using assms(6) by (simp_all add: unat_of_nat_u16)
  have "unat (of_nat n + pb_tot_len b) = n + unat (pb_tot_len b)"
    using unat_add_u16_small [of "of_nat n" "pb_tot_len b"] n assms(6) by simp
  then have "\<not> of_nat n + pb_tot_len b < (of_nat n :: u16)" by (simp add: word_less_nat_alt n(2))
  then show ?thesis using assms n(1)
    by (simp add: pbuf_add_header_def pbuf_add_header_impl_def Let_def)
qed

lemma req_heap_room:
  assumes "p \<noteq> 0" "pb_type_internal b AND PBUF_TYPE_FLAG_STRUCT_DATA_CONTIGUOUS \<noteq> 0"
    "pb_payload b = VPtr p d" "SIZEOF_STRUCT_PBUF + unat hlen + PBUF_LINK_HLEN \<le> d"
    "unat (pb_tot_len b) + unat hlen + PBUF_LINK_HLEN \<le> 65535" "pb_len b \<le> pb_tot_len b"
  shows "icmp_echo_room (req_heap h p b pre hdr msg) v hlen p = Some (Some p, req_heap h p b pre hdr msg)"
proof -
  define n where "n = unat hlen + PBUF_LINK_HLEN"
  have n: "n < 65536" "0 < n" using assms(5) by (simp_all add: PBUF_LINK_HLEN_def n_def)
  note n = n unat_of_nat_u16 [OF n(1)]
  have "unat (pb_len b + of_nat n) = unat (pb_len b) + n"
    using unat_add_u16_small [of "pb_len b" "of_nat n"] n(3) assms(5,6) by (simp add: word_le_nat_alt n_def)
  then have le: "(of_nat n :: u16) \<le> pb_len b + of_nat n" unfolding word_le_nat_alt n(3) by simp
  have same: "b\<lparr>pb_payload := VPtr p d\<rparr> = b" using assms(3) by (cases b) simp
  have add: "pbuf_add_header (req_heap h p b pre hdr msg) p n =
    Some (0, req_heap h p (b\<lparr>pb_payload := VPtr p (d - n), pb_len := pb_len b + of_nat n,
      pb_tot_len := pb_tot_len b + of_nat n\<rparr>) pre hdr msg)"
    using assms n by (intro req_heap_add_header) (simp_all add: n_def)
  have "pbuf_remove_header (req_heap h p (b\<lparr>pb_payload := VPtr p (d - n), pb_len := pb_len b + of_nat n,
      pb_tot_len := pb_tot_len b + of_nat n\<rparr>) pre hdr msg) p n = Some (0, req_heap h p b pre hdr msg)"
    using assms(1,3,4) n(1,2) le by (simp add: pbuf_remove_header_def Let_def) (simp add: n_def, subst same, rule refl)
  then show ?thesis using add by (simp add: icmp_echo_room_def n_def)
qed

lemma length_reply_iphdr: "20 \<le> length hdr \<Longrightarrow> length (reply_iphdr a src dest hdr) = length hdr"
  by (simp add: reply_iphdr_def Let_def)

lemma drop_patch: "off + length src \<le> k \<Longrightarrow> k \<le> length xs \<Longrightarrow> drop k (patch off src xs) = drop k xs"
  by (simp add: patch_def)

lemma ldf32_take: "i + 4 \<le> length hdr \<Longrightarrow> ldf32 hdr i = ldf32 (take 4 (drop i hdr)) 0"
  by (simp add: ldf32_def ldf16_def nth_append)

lemma u32_bytes_ucast: "u32_bytes a = [ucast a, ucast (drop_bit 8 a), ucast (drop_bit 16 a), ucast (drop_bit 24 a)]"
proof -
  have b: "(of_nat (n mod 256) :: u8) = of_nat n" for n by (simp add: word_unat_eq_iff unat_of_nat take_bit_eq_mod)
  have u: "ucast x = (of_nat (unat x) :: u8)" for x :: u32 by simp
  have "bytes_le 4 n = [n mod 256, n div 256 mod 256, n div 65536 mod 256, n div 16777216 mod 256]" for n
  proof -
    have "(4 :: nat) = Suc (Suc (Suc (Suc 0)))" by simp
    then show ?thesis by (simp only: bytes_le.simps div_mult2_eq [symmetric]) simp
  qed
  then show ?thesis
    unfolding u32_bytes_def u unat_drop_bit by (simp only: list.map b) simp
qed

lemma ldf32_bytes: "ldf32 (u32_bytes a) 0 = a"
proof (rule bit_word_eqI)
  fix n
  assume "n < LENGTH(32)"
  then consider "n < 8" | "8 \<le> n" "n < 16" | "16 \<le> n" "n < 24" | "24 \<le> n" "n < 32" by fastforce
  then show "bit (ldf32 (u32_bytes a) 0) n = bit a n"
    unfolding u32_bytes_ucast ldf32_def ldf16_def by cases (auto simp: bit_simps)
qed

lemma reply_iphdr_dest:
  assumes "20 \<le> length hdr"
  shows "IPH_DEST (take IP_HLEN (reply_iphdr a src dest hdr)) = dest"
proof -
  let ?r = "reply_iphdr a src dest hdr"
  have "take 4 (drop 16 ?r) = u32_bytes dest"
    using assms by (simp add: reply_iphdr_def Let_def drop_patch take_patch)
  moreover have "IPH_DEST (take IP_HLEN ?r) = ldf32 (take 4 (drop 16 ?r)) 0"
    using assms length_reply_iphdr [OF assms] ldf32_take [of 16 "take 20 ?r"] by (simp add: IPH_DEST_def IP_HLEN_def drop_take)
  ultimately show ?thesis by (simp add: ldf32_bytes)
qed

lemma bytes_not_empty [simp]: "u32_bytes a \<noteq> []" "store16 c \<noteq> []"
  by (metis length_u32_bytes list.size(3) zero_neq_numeral) (simp add: store16_def)

lemma bind_snd: "x \<bind> (\<lambda>(r, y). Some y) = map_option snd x"
  by (cases x) auto

lemma icmp_echo_reply_step:
  assumes "20 \<le> length hdr" "4 \<le> length msg" "p \<noteq> 0" "unat hlen = length hdr"
    "pb_type_internal b AND PBUF_TYPE_FLAG_STRUCT_DATA_CONTIGUOUS \<noteq> 0" "pb_ref b = 1"
    "pb_payload b = VPtr p (length pre + length hdr)" "SIZEOF_STRUCT_PBUF \<le> length pre"
    "pb_len b \<le> pb_tot_len b" "unat (pb_tot_len b) + length hdr \<le> 65535"
    "ip_heap s = req_heap h p b pre hdr msg" "remote = ip_2_ip4 (current_iphdr_src (ip_data s))"
    "remote \<noteq> netif_ip4_addr inp" "netif_mtu inp = 0 \<or> unat (pb_tot_len b) + length hdr \<le> unat (netif_mtu inp)"
  shows "icmp_echo_reply env p src hlen inp s =
    map_option snd (env_output env inp p remote (s\<lparr>ip_heap := req_heap h p
      (b\<lparr>pb_payload := VPtr p (length pre), pb_len := pb_len b + hlen, pb_tot_len := pb_tot_len b + hlen\<rparr>)
      pre (reply_iphdr (vptr_address h (VPtr p (length pre))) src remote hdr) (reply_msg msg)\<rparr>))"
proof -
  let ?b = "b\<lparr>pb_payload := VPtr p (length pre), pb_len := pb_len b + hlen, pb_tot_len := pb_tot_len b + hlen\<rparr>"
  let ?m = "VPtr p (length pre + length hdr)" and ?i = "VPtr p (length pre)"
  have ne: "hdr \<noteq> []" using assms(1) by auto
  have hl: "of_nat (length hdr) = hlen" by (simp flip: assms(4))
  have pay: "payload_of (req_heap h p b pre hdr msg) p = Some ?m" "\<And>x y. payload_of (req_heap h p ?b pre x y) p = Some ?i"
    using assms(7) by (simp_all add: payload_of_def)
  have add: "pbuf_add_header (req_heap h p b pre hdr msg) p (unat hlen) = Some (0, req_heap h p ?b pre hdr msg)"
    using req_heap_add_header [OF assms(3,5,7), of "length hdr" h pre hdr msg] assms(1,4,8,10) hl
    by (cases hdr) simp_all
  define h1 where "h1 = patch 16 (u32_bytes remote) (patch 12 (u32_bytes src) hdr)"
  define h2 where "h2 = patch 10 [0, 0] (patch 8 [ICMP_TTL] h1)"
  define m1 where "m1 = patch 0 [ICMP_ER] msg"
  have len: "length h1 = length hdr" "length h2 = length hdr" "length m1 = length msg" using assms(1,2)
    by (simp_all add: h1_def h2_def m1_def)
  have fin: "reply_iphdr (vptr_address h ?i) src remote hdr = patch 10 (store16 (inet_chksum LWIP_CHKSUM (vptr_address h ?i) h2)) h2"
    "reply_msg msg = patch 2 (store16 (icmp_echo_chksum (ldf16 (take 2 (drop 2 m1)) 0))) m1"
    by (simp_all add: reply_iphdr_def reply_msg_def h1_def h2_def m1_def Let_def)
  let ?s = "s\<lparr>ip_heap := req_heap h p ?b pre (reply_iphdr (vptr_address h ?i) src remote hdr) (reply_msg msg)\<rparr>"
  have "icmp_echo_reply env p src hlen inp s =
    map_option snd (ip4_output_if env p (Some src) None ICMP_TTL 0 IP_PROTO_ICMP inp ?s)"
    using assms(1,2) len ne
    by (simp add: icmp_echo_reply_def assms(4,11) assms(12) [symmetric] pay add [unfolded assms(4)] bind_snd req_heap_hdr req_heap_msg req_heap_read_hdr req_heap_read_msg
        fin store16_0 flip: h1_def h2_def m1_def)
  also have "ip4_output_if env p (Some src) None ICMP_TTL 0 IP_PROTO_ICMP inp ?s = env_output env inp p remote ?s"
  proof -
    let ?r = "reply_iphdr (vptr_address h ?i) src remote hdr"
    have u: "unat (pb_len b + hlen) = unat (pb_len b) + length hdr" "unat (pb_tot_len b + hlen) = unat (pb_tot_len b) + length hdr"
      using unat_add_u16_small [of "pb_len b" hlen] unat_add_u16_small [of "pb_tot_len b" hlen] assms(4,9,10)
      by (simp_all add: word_le_nat_alt)
    have rd: "mem_read (req_heap h p ?b pre ?r (reply_msg msg)) ?i 0 IP_HLEN = Some (take IP_HLEN ?r)"
      using assms(1) by (subst req_heap_read_hdr) (simp_all add: length_reply_iphdr IP_HLEN_def)
    have mtu: "\<not> (netif_mtu inp \<noteq> 0 \<and> pb_tot_len b + hlen > netif_mtu inp)"
      using assms(14) u(2) by (auto simp: word_less_nat_alt)
    have long: "\<not> unat (pb_len b + hlen) < IP_HLEN" using u(1) assms(1) by (simp add: IP_HLEN_def)
    show ?thesis
      using assms(6,13) mtu long
      by (simp add: ip4_output_if_def ip4_output_if_src_def rd reply_iphdr_dest [OF assms(1)] ip4_send_def) auto
  qed
  finally show ?thesis .
qed

text \<open>A block verifies when its checksum has been stored in it.\<close>

lemma oc16_complement: "oc16 (n + (65535 - oc16 n)) = 65535"
proof -
  have "ceq (n + (65535 - oc16 n)) (oc16 n + (65535 - oc16 n))"
    by (rule ceq_add [OF ceq_sym [OF ceq_oc16] ceq_refl])
  also have "oc16 n + (65535 - oc16 n) = 65535" using oc16_less [of n] by linarith
  finally have "oc16 (n + (65535 - oc16 n)) = oc16 65535" by (rule oc16_cong)
  then show ?thesis by (simp add: oc16_def)
qed

lemma inet_chksum_stored:
  assumes "even (length xs)" "length xs + 2 + length ys \<le> 65535"
  shows "inet_chksum LWIP_CHKSUM a' (xs @ store16 (inet_chksum LWIP_CHKSUM a (xs @ [0, 0] @ ys)) @ ys) = 0"
proof -
  let ?c = "inet_chksum LWIP_CHKSUM a (xs @ [0, 0] @ ys)"
  have "unat ?c = 65535 - oc16 (le_sum xs + le_sum ys)"
    using v2.inet_chksum [of "xs @ [0, 0] @ ys" a] assms by (simp add: LWIP_CHKSUM_def le_sum_append_even)
  moreover have "le_sum (store16 ?c @ ys) = unat ?c + le_sum ys"
    using le_sum_append_even [of "store16 ?c" ys] by (simp add: le_sum_store16)
  ultimately have "le_sum (xs @ store16 ?c @ ys) = (le_sum xs + le_sum ys) + (65535 - oc16 (le_sum xs + le_sum ys))"
    using assms(1) by (simp add: le_sum_append_even)
  then have "unat (inet_chksum LWIP_CHKSUM a' (xs @ store16 ?c @ ys)) = 0"
    using v2.inet_chksum [of "xs @ store16 ?c @ ys" a'] assms(2) oc16_complement
    by (simp add: LWIP_CHKSUM_def)
  then show ?thesis by (simp only: unat_eq_0)
qed

lemma IPH_HL_le: "unat (IPH_HL_BYTES hdr) = n \<Longrightarrow> n \<le> 60"
proof -
  have "unat (hdr ! 0 AND 15) \<le> 15" using word_and_le1 [of "hdr ! 0" 15] by (simp add: word_le_nat_alt)
  then have "unat ((hdr ! 0 AND 15) * 4) \<le> 60" unfolding unat_word_ariths(2) by simp
  then show "unat (IPH_HL_BYTES hdr) = n \<Longrightarrow> n \<le> 60" by (simp add: IPH_HL_BYTES_def)
qed

lemma reply_iphdr_valid:
  assumes "20 \<le> length hdr" "length hdr \<le> 60"
  shows "inet_chksum LWIP_CHKSUM a' (reply_iphdr a src dest hdr) = 0"
proof -
  define x where "x = patch 8 [ICMP_TTL] (patch 16 (u32_bytes dest) (patch 12 (u32_bytes src) hdr))"
  have len: "length x = length hdr" using assms by (simp add: x_def)
  define y where "y = take 10 x @ [0, 0] @ drop 12 x"
  have y: "patch 10 [0, 0] x = y" "length y = length hdr" using len assms by (simp_all add: patch_def y_def)
  have "reply_iphdr a src dest hdr = patch 10 (store16 (inet_chksum LWIP_CHKSUM a y)) y"
    by (simp add: reply_iphdr_def Let_def y flip: x_def)
  also have "\<dots> = take 10 x @ store16 (inet_chksum LWIP_CHKSUM a y) @ drop 12 x"
    using len assms by (simp add: patch_def y_def)
  finally show ?thesis
    unfolding y_def using inet_chksum_stored [of "take 10 x" "drop 12 x" a' a] len assms by simp
qed

text \<open>Which bytes of the headers change.\<close>

lemma split_iphdr:
  assumes "20 \<le> length (hdr :: 'a list)"
  obtains f t u c1 c2 src dest opts where "hdr = f @ [t, u, c1, c2] @ src @ dest @ opts"
    "length f = 8" "length src = 4" "length dest = 4"
proof
  have a: "drop 8 hdr = [hdr ! 8, hdr ! 9, hdr ! 10, hdr ! 11] @ drop 12 hdr" using assms
    by (simp add: Cons_nth_drop_Suc numeral_eq_Suc)
  have b: "drop 12 hdr = take 4 (drop 12 hdr) @ take 4 (drop 16 hdr) @ drop 20 hdr"
    using append_take_drop_id [of 4 "drop 12 hdr"] append_take_drop_id [of 4 "drop 16 hdr"] by simp
  show "hdr = take 8 hdr @ [hdr ! 8, hdr ! 9, hdr ! 10, hdr ! 11] @ take 4 (drop 12 hdr) @ take 4 (drop 16 hdr) @ drop 20 hdr"
    using append_take_drop_id [of 8 hdr, symmetric] a b by simp
qed (use assms in simp_all)

lemma reply_iphdr_fields:
  assumes "20 \<le> length hdr"
  shows "\<exists>c. reply_iphdr a src dest hdr = take 8 hdr @ [255, hdr ! 9] @ store16 c @ u32_bytes src @ u32_bytes dest @ drop 20 hdr"
proof -
  obtain f t u c1 c2 s d opts where hdr: "hdr = f @ [t, u, c1, c2] @ s @ d @ opts"
    and len: "length f = 8" "length s = 4" "length d = 4" by (rule split_iphdr [OF assms])
  show ?thesis unfolding hdr
    using len by (simp add: reply_iphdr_def patch_def Let_def ICMP_TTL_def nth_append) auto
qed

lemma reply_msg_bytes:
  assumes "4 \<le> length msg"
  shows "reply_msg msg = [ICMP_ER, msg ! 1] @ store16 (icmp_echo_chksum (ldf16 msg 2)) @ drop 4 msg"
proof -
  obtain a b c d r where "msg = a # b # c # d # r"
    using assms by (cases msg; cases "tl msg"; cases "tl (tl msg)"; cases "tl (tl (tl msg))") auto
  then show ?thesis by (simp add: reply_msg_def patch_def Let_def ldf16_def store16_def)
qed

text \<open>
  An echo request in a packet of its own memory, with room in front of it for the link header, becomes
  the reply in place and goes to the interface once.
\<close>

lemma icmp_input_echo:
  assumes "pbufs (ip_heap s) p = Some b" "p \<noteq> 0" "pb_ref b = 1"
    "pb_type_internal b AND PBUF_TYPE_FLAG_STRUCT_DATA_CONTIGUOUS \<noteq> 0"
    "pb_payload b = VPtr p (length pre + length hdr)" "current_ip4_header (ip_data s) = VPtr p (length pre)"
    "blocks (ip_heap s) p = Some (pre @ hdr @ msg)" "SIZEOF_STRUCT_PBUF + PBUF_LINK_HLEN \<le> length pre"
    "20 \<le> length hdr" "unat (IPH_HL_BYTES hdr) = length hdr"
    "4 \<le> unat (pb_len b)" "8 \<le> unat (pb_tot_len b)" "pb_len b \<le> pb_tot_len b" "unat (pb_len b) \<le> length msg"
    "unat (pb_tot_len b) + length hdr + PBUF_LINK_HLEN \<le> 65535" "msg ! 0 = ICMP_ECHO"
    "icmp_echo_ignored s = Some False" "ip_2_ip4 (current_iphdr_src (ip_data s)) \<noteq> netif_ip4_addr inp"
    "netif_mtu inp = 0 \<or> unat (pb_tot_len b) + length hdr \<le> unat (netif_mtu inp)"
  shows "\<exists>h' hdr'. icmp_input env p inp s =
      do { (e, s) \<leftarrow> env_output env inp p (ip_2_ip4 (current_iphdr_src (ip_data s))) (s\<lparr>ip_heap := h'\<rparr>); icmp_free p s } \<and>
    pbufs h' = (pbufs (ip_heap s))(p \<mapsto> b\<lparr>pb_payload := VPtr p (length pre),
      pb_len := pb_len b + of_nat (length hdr), pb_tot_len := pb_tot_len b + of_nat (length hdr)\<rparr>) \<and>
    blocks h' = (blocks (ip_heap s))(p \<mapsto> pre @ hdr' @ [ICMP_ER, msg ! 1] @ store16 (icmp_echo_chksum (ldf16 msg 2)) @ drop 4 msg) \<and>
    length hdr' = length hdr \<and> take 8 hdr' = take 8 hdr \<and> hdr' ! 8 = 255 \<and> hdr' ! 9 = hdr ! 9 \<and>
    take 8 (drop 12 hdr') = u32_bytes (ip_2_ip4 (current_iphdr_dest (ip_data s))) @ u32_bytes (ip_2_ip4 (current_iphdr_src (ip_data s))) \<and>
    drop 20 hdr' = drop 20 hdr \<and> inet_chksum LWIP_CHKSUM 0 hdr' = 0"
proof -
  let ?h = "ip_heap s" and ?src = "ip_2_ip4 (current_iphdr_dest (ip_data s))"
    and ?remote = "ip_2_ip4 (current_iphdr_src (ip_data s))"
  define hlen where "hlen = (ucast (IPH_HL_BYTES hdr) :: u16)"
  let ?r = "reply_iphdr (vptr_address ?h (VPtr p (length pre))) ?src ?remote hdr"
  let ?b = "b\<lparr>pb_payload := VPtr p (length pre), pb_len := pb_len b + hlen, pb_tot_len := pb_tot_len b + hlen\<rparr>"
  let ?h' = "req_heap ?h p ?b pre ?r (reply_msg msg)"
  have hlen: "unat hlen = length hdr" by (simp add: hlen_def assms(10))
  have h: "?h = req_heap ?h p b pre hdr msg" using assms(1,7) by (simp add: req_heap_def fun_upd_idem)
  have v: "mem_read ?h (VPtr p (length pre)) 0 1 = Some [hdr ! 0]"
    using assms(9) by (subst h, cases hdr) (simp_all add: req_heap_read_hdr)
  have room: "icmp_echo_room ?h v hlen p = Some (Some p, ?h)" for v
    by (subst (1 2) h, rule req_heap_room) (use assms(2,4,5,8,13,15) hlen in auto)
  have reply: "icmp_echo_reply env p ?src hlen inp s = map_option snd (env_output env inp p ?remote (s\<lparr>ip_heap := ?h'\<rparr>))"
    by (rule icmp_echo_reply_step) (use assms hlen h in \<open>auto simp: word_le_nat_alt\<close>)
  have hl: "IPH_HL_BYTES [hdr ! 0] = IPH_HL_BYTES hdr" by (simp add: IPH_HL_BYTES_def)
  have msg: "mem_read ?h (pb_payload b) 0 2 = Some (take 2 msg)"
    using assms(5,11,14) by (subst h) (simp add: req_heap_read_msg)
  have "msg \<noteq> []" using assms(11,14) by auto
  then have hd: "hd (take 2 msg) = ICMP_ECHO" using assms(16) by (simp add: hd_conv_nth)
  have nlen: "\<not> pb_len b < 4" using assms(11) by (simp add: word_less_nat_alt)
  have run: "icmp_input env p inp s =
      do { (e, s) \<leftarrow> env_output env inp p ?remote (s\<lparr>ip_heap := ?h'\<rparr>); icmp_free p s }"
    using assms(9,12) hlen nlen
    by (simp add: icmp_input_def icmp_echo_input_def assms(1,6,10,17) v [unfolded One_nat_def] msg hd room reply bind_map_option hl ICMP_HLEN_def IP_HLEN_def comp_def case_prod_unfold flip: hlen_def)
  obtain c where r: "?r = take 8 hdr @ [255, hdr ! 9] @ store16 c @ u32_bytes ?src @ u32_bytes ?remote @ drop 20 hdr"
    using reply_iphdr_fields [OF assms(9)] by blast
  have len: "length ?r = length hdr" "length (store16 c) = 2"
    using assms(9) by (simp_all add: length_reply_iphdr store16_def)
  have fields: "length ?r = length hdr \<and> take 8 ?r = take 8 hdr \<and> ?r ! 8 = 255 \<and> ?r ! 9 = hdr ! 9 \<and>
      take 8 (drop 12 ?r) = u32_bytes ?src @ u32_bytes ?remote \<and> drop 20 ?r = drop 20 hdr"
    using assms(9) len unfolding r by (simp add: nth_append)
  have heap: "pbufs ?h' = (pbufs ?h)(p \<mapsto> b\<lparr>pb_payload := VPtr p (length pre),
      pb_len := pb_len b + of_nat (length hdr), pb_tot_len := pb_tot_len b + of_nat (length hdr)\<rparr>)"
    "blocks ?h' = (blocks ?h)(p \<mapsto> pre @ ?r @ [ICMP_ER, msg ! 1] @ store16 (icmp_echo_chksum (ldf16 msg 2)) @ drop 4 msg)"
    using reply_msg_bytes [of msg] assms(11,14) by (simp_all add: req_heap_def flip: hlen)
  show ?thesis
    by (intro exI [of _ ?h'] exI [of _ ?r] conjI) (use run heap fields reply_iphdr_valid [OF assms(9) IPH_HL_le [OF assms(10)]] in simp_all)
qed

end
