(* ===== verification/Lwip_Stack.thy ===== *)
theory Lwip_Stack
  imports Lwip_Icmp_Props Lwip_Ip4_Input
begin

text \<open>
  The modules put together: the functions of the environment of IP that are modelled in this
  development, and a packet on its way through IP and ICMP.
\<close>

section \<open>Composition\<close>

text \<open>The environment in which IP calls ICMP and TCP.\<close>

definition icmp_env :: "'a ip_state_scheme ip_env \<Rightarrow> 'a ip_state_scheme ip_env" where
  "icmp_env env = env\<lparr>env_icmp_input := icmp_input env, env_dest_unreach := icmp_dest_unreach env,
     env_time_exceeded := icmp_time_exceeded env\<rparr>"

definition lwip_env :: "'a tcp_state_scheme tcp_env \<Rightarrow> 'a tcp_state_scheme ip_env" where
  "lwip_env env = (icmp_env (te_ip env))\<lparr>env_tcp_input := tcp_input (env\<lparr>te_ip := icmp_env (te_ip env)\<rparr>)\<rparr>"

section \<open>A ping\<close>

lemma iph_take [simp]:
  "1 \<le> n \<Longrightarrow> IPH_V (take n hdr) = IPH_V hdr" "1 \<le> n \<Longrightarrow> IPH_HL_BYTES (take n hdr) = IPH_HL_BYTES hdr"
  "4 \<le> n \<Longrightarrow> IPH_LEN (take n hdr) = IPH_LEN hdr" "8 \<le> n \<Longrightarrow> IPH_OFFSET (take n hdr) = IPH_OFFSET hdr"
  "16 \<le> n \<Longrightarrow> IPH_SRC (take n hdr) = IPH_SRC hdr" "20 \<le> n \<Longrightarrow> IPH_DEST (take n hdr) = IPH_DEST hdr"
  by (simp_all add: IPH_V_def IPH_HL_BYTES_def IPH_LEN_def IPH_OFFSET_def IPH_SRC_def IPH_DEST_def ldf32_def ldf16_def)

lemma copy_from_ip4 [simp]: "ip_2_ip4 (ip_addr_copy_from_ip4 a x) = x"
  by (simp add: ip_2_ip4_def ip_addr_copy_from_ip4_def ip_clear_no4_def)

text \<open>What IP leaves in the globals for the upper layers.\<close>

definition ip4_globals :: "netif \<Rightarrow> vptr \<Rightarrow> u8 list \<Rightarrow> ip_globals \<Rightarrow> ip_globals" where
  "ip4_globals inp iphdr hdr g = g\<lparr>
     current_iphdr_dest := ip_addr_copy_from_ip4 (current_iphdr_dest g) (IPH_DEST hdr),
     current_iphdr_src := ip_addr_copy_from_ip4 (current_iphdr_src g) (IPH_SRC hdr),
     current_netif := Some inp, current_input_netif := Some inp, current_ip4_header := iphdr,
     current_ip_header_tot_len := ucast (IPH_HL_BYTES hdr)\<rparr>"

text \<open>An unfragmented ICMP packet of the right length that nobody else wants goes to ICMP, whatever its
  destination address is: with \<^verbatim>\<open>TUN2SOCKS\<close> the interface accepts everything.\<close>

lemma ip4_input_icmp:
  assumes "ip_heap s = req_heap h p b pre hdr msg" "p \<noteq> 0" "pb_payload b = VPtr p (length pre)"
    "20 \<le> length hdr" "IPH_V hdr = 4" "unat (IPH_HL_BYTES hdr) = length hdr" "IPH_PROTO hdr = IP_PROTO_ICMP"
    "lwip_htons (IPH_LEN hdr) = pb_tot_len b" "IPH_OFFSET hdr AND lwip_htons (IP_OFFMASK OR IP_MF) = 0"
    "length hdr \<le> unat (pb_len b)" "pb_len b \<le> pb_tot_len b"
    "\<not> ip4_addr_isbroadcast_u32 (IPH_SRC hdr) inp" "\<not> ip4_addr_ismulticast (IPH_SRC hdr)" "\<not> ip4_addr_ismulticast (IPH_DEST hdr)"
    "\<And>t. env_raw_input env p inp t = Some (0, t)"
  shows "ip4_input env m p inp s = do {
      s \<leftarrow> env_icmp_input env p inp (s\<lparr>ip_data := ip4_globals inp (VPtr p (length pre)) hdr (ip_data s),
        ip_heap := req_heap h p (b\<lparr>pb_payload := VPtr p (length pre + length hdr),
          pb_len := pb_len b - of_nat (length hdr), pb_tot_len := pb_tot_len b - of_nat (length hdr)\<rparr>) pre hdr msg\<rparr>);
      Some (ERR_OK, ip4_input_done s) }"
proof -
  let ?i = "VPtr p (length pre)"
  define hlen where "hlen = (ucast (IPH_HL_BYTES hdr) :: u16)"
  have hlen: "unat hlen = length hdr" "of_nat (length hdr) = hlen" by (simp_all add: hlen_def assms(6) flip: assms(6))
  have pay: "payload_of (req_heap h p b pre hdr msg) p = Some ?i" using assms(3) by (simp add: payload_of_def)
  have rd: "mem_read (req_heap h p c pre hdr msg) ?i 0 n = Some (take n hdr)" if "n \<noteq> 0" "n \<le> 20" for c n
    using req_heap_read_hdr [of 0 n hdr h p c pre msg] that assms(4) by simp
  have proto: "mem_read (req_heap h p c pre hdr msg) ?i 9 1 = Some [IP_PROTO_ICMP]" for c
    using assms(4) by (subst req_heap_read_hdr) (simp_all add: IPH_PROTO_def take_Suc_conv_app_nth flip: assms(7))
  have rm: "pbuf_remove_header (req_heap h p b pre hdr msg) p (unat hlen) = Some (0, req_heap h p (b\<lparr>pb_payload := VPtr p (length pre + length hdr),
          pb_len := pb_len b - of_nat (length hdr), pb_tot_len := pb_tot_len b - of_nat (length hdr)\<rparr>) pre hdr msg)"
    using assms(2,3,4,10) hlen unat_u16_less [of hlen] by (cases hdr) (simp_all add: pbuf_remove_header_def word_le_nat_alt Let_def)
  note protos = IP_PROTO_UDP_def IP_PROTO_TCP_def IP_PROTO_ICMP_def
  have le: "\<not> hlen > pb_len b" "\<not> unat hlen < IP_HLEN" using assms(4,10) hlen by (simp_all add: word_le_nat_alt not_less IP_HLEN_def)
  have nf: "ip4_input_netif inp t = Some inp" if "ip_2_ip4 (current_iphdr_dest (ip_data t)) = IPH_DEST hdr" for t :: "'a reass_state_scheme"
    using assms(14) that by (simp add: ip4_input_netif_def ip4_input_accept_def TUN2SOCKS_def)
  show ?thesis
    using assms(2,4,12,13) le
    by (simp add: ip4_input_def assms(1,5,6,8,9,15) pay rd proto [unfolded One_nat_def] nf rm Let_def ip4_deliver_def IP_HLEN_def protos
      RAW_INPUT_EATEN_def ip4_globals_def flip: hlen_def)
qed

text \<open>C14: A ping to any address that is not a broadcast or multicast address is answered by the stack itself,
  through \<^verbatim>\<open>ip4_input\<close> and ICMP: exactly one packet goes back to the sender, in the memory of the
  request, from the address that was asked for, with the time to live 255, a valid header checksum, the
  adjusted ICMP checksum and all other bytes - identifier, sequence number, data, IP options - as they
  came; then the packet is freed.\<close>

theorem ip4_input_answers_ping:
  assumes "pbufs (ip_heap s) p = Some b" "p \<noteq> 0" "pb_ref b = 1"
    "pb_type_internal b AND PBUF_TYPE_FLAG_STRUCT_DATA_CONTIGUOUS \<noteq> 0"
    "pb_payload b = VPtr p (length pre)" "blocks (ip_heap s) p = Some (pre @ hdr @ msg)"
    "SIZEOF_STRUCT_PBUF + PBUF_LINK_HLEN \<le> length pre"
    "20 \<le> length hdr" "IPH_V hdr = 4" "unat (IPH_HL_BYTES hdr) = length hdr" "IPH_PROTO hdr = IP_PROTO_ICMP"
    "lwip_htons (IPH_LEN hdr) = pb_tot_len b" "IPH_OFFSET hdr AND lwip_htons (IP_OFFMASK OR IP_MF) = 0"
    "length hdr + 4 \<le> unat (pb_len b)" "length hdr + 8 \<le> unat (pb_tot_len b)" "pb_len b \<le> pb_tot_len b"
    "unat (pb_len b) \<le> length hdr + length msg" "unat (pb_tot_len b) + PBUF_LINK_HLEN \<le> 65535" "msg ! 0 = ICMP_ECHO"
    "\<not> ip4_addr_isbroadcast_u32 (IPH_SRC hdr) inp" "\<not> ip4_addr_ismulticast (IPH_SRC hdr)"
    "\<not> ip4_addr_isbroadcast_u32 (IPH_DEST hdr) inp" "\<not> ip4_addr_ismulticast (IPH_DEST hdr)"
    "IPH_SRC hdr \<noteq> netif_ip4_addr inp" "netif_mtu inp = 0 \<or> pb_tot_len b \<le> netif_mtu inp"
    "\<And>t. env_raw_input (te_ip env) p inp t = Some (0, t)"
  shows "\<exists>h' hdr' g. ip4_input (lwip_env env) m p inp s = do {
      (e, t) \<leftarrow> env_output (te_ip env) inp p (IPH_SRC hdr) (s\<lparr>ip_data := g, ip_heap := h'\<rparr>);
      t \<leftarrow> icmp_free p t;
      Some (ERR_OK, ip4_input_done t) } \<and>
    pbufs h' = pbufs (ip_heap s) \<and>
    blocks h' = (blocks (ip_heap s))(p \<mapsto> pre @ hdr' @ [ICMP_ER, msg ! 1] @ store16 (icmp_echo_chksum (ldf16 msg 2)) @ drop 4 msg) \<and>
    length hdr' = length hdr \<and> take 8 hdr' = take 8 hdr \<and> hdr' ! 8 = 255 \<and> hdr' ! 9 = hdr ! 9 \<and>
    IPH_SRC hdr' = IPH_DEST hdr \<and> IPH_DEST hdr' = IPH_SRC hdr \<and>
    drop 20 hdr' = drop 20 hdr \<and> inet_chksum LWIP_CHKSUM 0 hdr' = 0"
proof -
  let ?n = "of_nat (length hdr) :: u16"
  let ?b = "b\<lparr>pb_payload := VPtr p (length pre + length hdr), pb_len := pb_len b - ?n, pb_tot_len := pb_tot_len b - ?n\<rparr>"
  let ?g = "ip4_globals inp (VPtr p (length pre)) hdr (ip_data s)"
  let ?t = "s\<lparr>ip_data := ?g, ip_heap := req_heap (ip_heap s) p ?b pre hdr msg\<rparr>"
  have n: "unat ?n = length hdr" using assms(14) unat_u16_less [of "pb_len b"] by (intro unat_of_nat_u16) linarith
  have le: "?n \<le> pb_len b" "?n \<le> pb_tot_len b" using assms(14,15) unfolding word_le_nat_alt n by linarith+
  have u: "unat (pb_len b - ?n) = unat (pb_len b) - length hdr" "unat (pb_tot_len b - ?n) = unat (pb_tot_len b) - length hdr"
    using unat_sub [OF le(1)] unat_sub [OF le(2)] unfolding n by simp_all
  have "ip_heap s = req_heap (ip_heap s) p b pre hdr msg" using assms(1,6) by (simp add: req_heap_def fun_upd_idem)
  then have ip: "ip4_input (lwip_env env) m p inp s = do { t \<leftarrow> icmp_input (te_ip env) p inp ?t; Some (ERR_OK, ip4_input_done t) }"
    by (subst ip4_input_icmp [where b = b and pre = pre and hdr = hdr and msg = msg])
      (use assms in \<open>simp_all add: lwip_env_def icmp_env_def\<close>)
  have src: "ip_2_ip4 (current_iphdr_src (ip_data ?t)) = IPH_SRC hdr" "ip_2_ip4 (current_iphdr_dest (ip_data ?t)) = IPH_DEST hdr"
    "current_netif (ip_data ?t) = Some inp" by (simp_all add: ip4_globals_def)
  obtain h' hdr' where icmp: "icmp_input (te_ip env) p inp ?t =
      do { (e, s) \<leftarrow> env_output (te_ip env) inp p (IPH_SRC hdr) (?t\<lparr>ip_heap := h'\<rparr>); icmp_free p s }"
    and h': "pbufs h' = (pbufs (ip_heap s))(p \<mapsto> b)"
      "blocks h' = (blocks (ip_heap s))(p \<mapsto> pre @ hdr' @ [ICMP_ER, msg ! 1] @ store16 (icmp_echo_chksum (ldf16 msg 2)) @ drop 4 msg)"
    and hdr': "length hdr' = length hdr" "take 8 hdr' = take 8 hdr" "hdr' ! 8 = 255" "hdr' ! 9 = hdr ! 9"
      "take 8 (drop 12 hdr') = u32_bytes (IPH_DEST hdr) @ u32_bytes (IPH_SRC hdr)" "drop 20 hdr' = drop 20 hdr"
      "inet_chksum LWIP_CHKSUM 0 hdr' = 0"
  proof -
    have b: "pbufs (ip_heap ?t) p = Some ?b" "pb_ref ?b = 1" "pb_type_internal ?b AND PBUF_TYPE_FLAG_STRUCT_DATA_CONTIGUOUS \<noteq> 0"
      "pb_payload ?b = VPtr p (length pre + length hdr)" "4 \<le> unat (pb_len ?b)" "8 \<le> unat (pb_tot_len ?b)"
      "pb_len ?b \<le> pb_tot_len ?b" "unat (pb_len ?b) \<le> length msg"
      "unat (pb_tot_len ?b) + length hdr + PBUF_LINK_HLEN \<le> 65535"
      "netif_mtu inp = 0 \<or> unat (pb_tot_len ?b) + length hdr \<le> unat (netif_mtu inp)"
      using assms(3,4,14-18,25) u by (simp_all add: word_le_nat_alt)
    have t: "current_ip4_header (ip_data ?t) = VPtr p (length pre)" "blocks (ip_heap ?t) p = Some (pre @ hdr @ msg)"
      by (simp_all add: ip4_globals_def req_heap_def)
    have ignored: "icmp_echo_ignored ?t = Some False" using assms(22,23) unfolding icmp_echo_ignored_def Let_def src by simp
    have out: "ip_2_ip4 (current_iphdr_src (ip_data ?t)) \<noteq> netif_ip4_addr inp" unfolding src by (rule assms(24))
    have same: "?b\<lparr>pb_payload := VPtr p (length pre), pb_len := pb_len ?b + ?n, pb_tot_len := pb_tot_len ?b + ?n\<rparr> = b"
      using assms(5) by (cases b) simp
    show thesis
      using icmp_input_echo [OF b(1) assms(2) b(2-4) t assms(7,8,10) b(5-9) assms(19) ignored out b(10), of "te_ip env"]
      unfolding same src by (elim exE conjE) (rule that; simp add: req_heap_def)
  qed
  have f: "take 4 (drop 12 hdr') = u32_bytes (IPH_DEST hdr)" "take 4 (drop 16 hdr') = u32_bytes (IPH_SRC hdr)"
    using arg_cong [OF hdr'(5), of "take 4"] arg_cong [OF hdr'(5), of "drop 4"] by (simp_all add: drop_take)
  have "IPH_SRC hdr' = IPH_DEST hdr" "IPH_DEST hdr' = IPH_SRC hdr"
    using assms(8) hdr'(1) ldf32_take [of 12 hdr'] ldf32_take [of 16 hdr'] by (simp_all add: f ldf32_bytes IPH_SRC_def IPH_DEST_def)
  moreover have "pbufs h' = pbufs (ip_heap s)" using h'(1) assms(1) by (simp add: fun_upd_idem)
  moreover have "ip4_input (lwip_env env) m p inp s = do {
      (e, t) \<leftarrow> env_output (te_ip env) inp p (IPH_SRC hdr) (s\<lparr>ip_data := ?g, ip_heap := h'\<rparr>);
      t \<leftarrow> icmp_free p t;
      Some (ERR_OK, ip4_input_done t) }"
    unfolding ip icmp by (simp add: case_prod_unfold)
  ultimately show ?thesis
    using h'(2) hdr'(1-4,6,7) by (intro exI [of _ h'] exI [of _ hdr'] exI [of _ ?g] conjI)
qed

text \<open>A ping with two bytes of data from 10.0.0.1 to 10.0.0.2, which is no address of the host.\<close>

definition demo_ping_hdr :: "u8 list" where
  "demo_ping_hdr = [0x45, 0, 0, 30, 0, 1, 0, 0, 64, 1, 0, 0, 10, 0, 0, 1, 10, 0, 0, 2]"

definition demo_ping_msg :: "u8 list" where
  "demo_ping_msg = [8, 0, 0xf7, 0xfd, 0, 1, 0, 1, 0, 0]"

definition demo_ping_pbuf :: pbuf where
  "demo_ping_pbuf = demo_seg_pbuf\<lparr>pb_payload := VPtr 1 38, pb_tot_len := 30, pb_len := 30\<rparr>"

definition demo_ping :: tcp_state where
  "demo_ping = demo_tcp\<lparr>ip_heap := demo_tcp_heap\<lparr>pbufs := [1 \<mapsto> demo_ping_pbuf],
       blocks := [1 \<mapsto> replicate 38 0 @ demo_ping_hdr @ demo_ping_msg]\<rparr>\<rparr>"

lemma demo_ping_simps:
  "pbufs (ip_heap demo_ping) 1 = Some demo_ping_pbuf" "pb_ref demo_ping_pbuf = 1"
  "pb_type_internal demo_ping_pbuf AND PBUF_TYPE_FLAG_STRUCT_DATA_CONTIGUOUS \<noteq> 0"
  "pb_payload demo_ping_pbuf = VPtr 1 (length (replicate 38 (0 :: u8)))"
  "blocks (ip_heap demo_ping) 1 = Some (replicate 38 0 @ demo_ping_hdr @ demo_ping_msg)"
  "pb_len demo_ping_pbuf = 30" "pb_tot_len demo_ping_pbuf = 30" "length demo_ping_hdr = 20" "length demo_ping_msg = 10"
  "IPH_V demo_ping_hdr = 4" "IPH_HL_BYTES demo_ping_hdr = 20" "IPH_PROTO demo_ping_hdr = IP_PROTO_ICMP"
  "lwip_htons (IPH_LEN demo_ping_hdr) = 30" "IPH_OFFSET demo_ping_hdr = 0" "demo_ping_msg ! 0 = ICMP_ECHO"
  "IPH_SRC demo_ping_hdr = 0x0100000a" "IPH_DEST demo_ping_hdr = 0x0200000a"
  by (simp_all add: demo_ping_def demo_ping_pbuf_def demo_seg_pbuf_def demo_ping_hdr_def demo_ping_msg_def
    PBUF_TYPE_FLAG_STRUCT_DATA_CONTIGUOUS_def IPH_V_def IPH_HL_BYTES_def IPH_PROTO_def IP_PROTO_ICMP_def IPH_LEN_def
    IPH_OFFSET_def IPH_SRC_def IPH_DEST_def ldf32_def ldf16_def lwip_htons_def ICMP_ECHO_def)

lemma demo_ping_addr: "\<not> ip4_addr_isbroadcast_u32 0x0100000a demo_netif" "\<not> ip4_addr_ismulticast 0x0100000a"
  "\<not> ip4_addr_isbroadcast_u32 0x0200000a demo_netif" "\<not> ip4_addr_ismulticast 0x0200000a"
  "0x0100000a \<noteq> netif_ip4_addr demo_netif"
  unfolding demo_netif_def by code_simp+

lemma demo_ping_chksum: "store16 (icmp_echo_chksum (ldf16 demo_ping_msg 2)) = [0xff, 0xfd]"
  by (simp add: icmp_echo_chksum_def demo_ping_msg_def ldf16_def ICMP_ECHO_def lwip_htons_def store16_def)

theorem ip4_input_answers_ping_witness:
  "\<exists>h' hdr' g. ip4_input (lwip_env demo_tcp_env) (\<lambda>_ _. False) 1 demo_netif demo_ping =
      do { t \<leftarrow> icmp_free 1 (demo_ping\<lparr>ip_data := g, ip_heap := h'\<rparr>); Some (ERR_OK, ip4_input_done t) } \<and>
    blocks h' 1 = Some (replicate 38 0 @ hdr' @ [0, 0, 0xff, 0xfd, 0, 1, 0, 1, 0, 0]) \<and>
    IPH_SRC hdr' = 0x0200000a \<and> IPH_DEST hdr' = 0x0100000a \<and> inet_chksum LWIP_CHKSUM 0 hdr' = 0"
proof -
  note d = demo_ping_simps
  have len: "SIZEOF_STRUCT_PBUF + PBUF_LINK_HLEN \<le> length (replicate 38 (0 :: u8))" "20 \<le> length demo_ping_hdr"
    "unat (IPH_HL_BYTES demo_ping_hdr) = length demo_ping_hdr" "lwip_htons (IPH_LEN demo_ping_hdr) = pb_tot_len demo_ping_pbuf"
    "IPH_OFFSET demo_ping_hdr AND lwip_htons (IP_OFFMASK OR IP_MF) = 0"
    "length demo_ping_hdr + 4 \<le> unat (pb_len demo_ping_pbuf)" "length demo_ping_hdr + 8 \<le> unat (pb_tot_len demo_ping_pbuf)"
    "pb_len demo_ping_pbuf \<le> pb_tot_len demo_ping_pbuf" "unat (pb_len demo_ping_pbuf) \<le> length demo_ping_hdr + length demo_ping_msg"
    "unat (pb_tot_len demo_ping_pbuf) + PBUF_LINK_HLEN \<le> 65535"
    "netif_mtu demo_netif = 0 \<or> pb_tot_len demo_ping_pbuf \<le> netif_mtu demo_netif"
    by (simp_all add: d SIZEOF_STRUCT_PBUF_def PBUF_LINK_HLEN_def demo_netif_def)
  have raw: "env_raw_input (te_ip demo_tcp_env) 1 demo_netif t = Some (0, t)" for t :: tcp_state
    by (simp add: demo_tcp_env_def demo_env_def)
  have send: "env_output (te_ip demo_tcp_env) inp q x t \<bind> (\<lambda>(e, t). f t) = f t" for inp q x and t :: tcp_state and f :: "tcp_state \<Rightarrow> 'r option"
    by (simp add: demo_tcp_env_def demo_env_def)
  obtain h' hdr' g where "ip4_input (lwip_env demo_tcp_env) (\<lambda>_ _. False) 1 demo_netif demo_ping =
      do { t \<leftarrow> icmp_free 1 (demo_ping\<lparr>ip_data := g, ip_heap := h'\<rparr>); Some (ERR_OK, ip4_input_done t) }"
    "blocks h' = (blocks (ip_heap demo_ping))(1 \<mapsto> replicate 38 0 @ hdr' @ [ICMP_ER, demo_ping_msg ! 1] @ [0xff, 0xfd] @ drop 4 demo_ping_msg)"
    "IPH_SRC hdr' = 0x0200000a" "IPH_DEST hdr' = 0x0100000a" "inet_chksum LWIP_CHKSUM 0 hdr' = 0"
    using ip4_input_answers_ping [OF d(1) one_neq_zero d(2-5) len(1,2) d(10) len(3) d(12) len(4-10) d(15)
      demo_ping_addr [folded d(16,17)] len(11) raw, of "\<lambda>_ _. False"]
    unfolding d(16,17) demo_ping_chksum send by (elim exE conjE) (rule that)
  then show ?thesis by (intro exI [of _ h'] exI [of _ hdr'] exI [of _ g]) (simp add: ICMP_ER_def demo_ping_msg_def)
qed

end
