(* ===== verification/Lwip_Ip6_Output.thy ===== *)
theory Lwip_Ip6_Output
  imports Lwip_Reass
begin

text \<open>
  Sending IPv6 packets: the tests on addresses of \<^verbatim>\<open>include/lwip/ip6_addr.h\<close> that IPv6 needs, the
  choice of a source address and the header (\<^verbatim>\<open>core/ipv6/ip6.c\<close>), and the fragmentation
  (\<^verbatim>\<open>ip6_frag\<close> of \<^verbatim>\<open>core/ipv6/ip6_frag.c\<close>). The arrays of the addresses of an interface and of their
  states are lists.
\<close>

section \<open>Addresses\<close>

definition IP6_ADDR_ANY6 :: ip6_addr_t where
  "IP6_ADDR_ANY6 = \<lparr>ip6_a0 = 0, ip6_a1 = 0, ip6_a2 = 0, ip6_a3 = 0, ip6_zone = 0\<rparr>"

definition ip6_addr_netcmp_zoneless :: "ip6_addr_t \<Rightarrow> ip6_addr_t \<Rightarrow> bool" where
  "ip6_addr_netcmp_zoneless a b = (ip6_a0 a = ip6_a0 b \<and> ip6_a1 a = ip6_a1 b)"

definition ip6_addr_nethostcmp :: "ip6_addr_t \<Rightarrow> ip6_addr_t \<Rightarrow> bool" where
  "ip6_addr_nethostcmp a b = (ip6_a2 a = ip6_a2 b \<and> ip6_a3 a = ip6_a3 b)"

definition ip6_addr_isloopback :: "ip6_addr_t \<Rightarrow> bool" where
  "ip6_addr_isloopback a = (ip6_a0 a = 0 \<and> ip6_a1 a = 0 \<and> ip6_a2 a = 0 \<and> ip6_a3 a = lwip_htonl 1)"

definition ip6_addr_isglobal :: "ip6_addr_t \<Rightarrow> bool" where
  "ip6_addr_isglobal a = (ip6_a0 a AND lwip_htonl 0xe0000000 = lwip_htonl 0x20000000)"

definition ip6_addr_issitelocal :: "ip6_addr_t \<Rightarrow> bool" where
  "ip6_addr_issitelocal a = (ip6_a0 a AND lwip_htonl 0xffc00000 = lwip_htonl 0xfec00000)"

definition ip6_addr_isuniquelocal :: "ip6_addr_t \<Rightarrow> bool" where
  "ip6_addr_isuniquelocal a = (ip6_a0 a AND lwip_htonl 0xfe000000 = lwip_htonl 0xfc000000)"

definition ip6_addr_multicast_scope :: "ip6_addr_t \<Rightarrow> int" where
  "ip6_addr_multicast_scope a = uint (drop_bit 16 (lwip_htonl (ip6_a0 a)) AND 0xf)"

definition ip6_addr_isallnodes_iflocal :: "ip6_addr_t \<Rightarrow> bool" where
  "ip6_addr_isallnodes_iflocal a =
     (ip6_a0 a = lwip_htonl 0xff010000 \<and> ip6_a1 a = 0 \<and> ip6_a2 a = 0 \<and> ip6_a3 a = lwip_htonl 1)"

definition ip6_addr_isallnodes_linklocal :: "ip6_addr_t \<Rightarrow> bool" where
  "ip6_addr_isallnodes_linklocal a =
     (ip6_a0 a = lwip_htonl 0xff020000 \<and> ip6_a1 a = 0 \<and> ip6_a2 a = 0 \<and> ip6_a3 a = lwip_htonl 1)"

definition ip6_addr_issolicitednode :: "ip6_addr_t \<Rightarrow> bool" where
  "ip6_addr_issolicitednode a =
     (ip6_a0 a = lwip_htonl 0xff020000 \<and> ip6_a2 a = lwip_htonl 1 \<and>
      ip6_a3 a AND lwip_htonl 0xff000000 = lwip_htonl 0xff000000)"

definition ip6_addr_cmp_solicitednode :: "ip6_addr_t \<Rightarrow> ip6_addr_t \<Rightarrow> bool" where
  "ip6_addr_cmp_solicitednode a sn_addr =
     (ip6_a0 a = lwip_htonl 0xff020000 \<and> ip6_a1 a = 0 \<and> ip6_a2 a = lwip_htonl 1 \<and>
      ip6_a3 a = lwip_htonl 0xff000000 OR ip6_a3 sn_addr)"

definition ip6_addr_isvalid :: "u8 \<Rightarrow> bool" where
  "ip6_addr_isvalid addr_state = (addr_state AND 0x10 \<noteq> 0)"

definition ip6_addr_ispreferred :: "u8 \<Rightarrow> bool" where
  "ip6_addr_ispreferred addr_state = (addr_state = 0x30)"

text \<open>Addresses in packets carry no zone.\<close>

definition ip6_addr_from_packed :: "u8 list \<Rightarrow> nat \<Rightarrow> ip6_addr_t" where
  "ip6_addr_from_packed hdr i =
     \<lparr>ip6_a0 = ldf32 hdr i, ip6_a1 = ldf32 hdr (i + 4), ip6_a2 = ldf32 hdr (i + 8),
      ip6_a3 = ldf32 hdr (i + 12), ip6_zone = 0\<rparr>"

definition ip6_addr_packed :: "ip6_addr_t \<Rightarrow> u8 list" where
  "ip6_addr_packed a = concat (map u32_bytes (ip6_words a))"

definition IP6_HLEN :: nat where "IP6_HLEN = 40"
definition IP6_FRAG_HLEN :: nat where "IP6_FRAG_HLEN = 8"
definition IP6_FRAG_OFFSET_MASK :: u16 where "IP6_FRAG_OFFSET_MASK = 0xfff8"
definition IP6_FRAG_MORE_FLAG :: u16 where "IP6_FRAG_MORE_FLAG = 0x0001"
definition IP6_NEXTH_HOPBYHOP :: u8 where "IP6_NEXTH_HOPBYHOP = 0"
definition IP6_NEXTH_TCP :: u8 where "IP6_NEXTH_TCP = 6"
definition IP6_NEXTH_UDP :: u8 where "IP6_NEXTH_UDP = 17"
definition IP6_NEXTH_ROUTING :: u8 where "IP6_NEXTH_ROUTING = 43"
definition IP6_NEXTH_FRAGMENT :: u8 where "IP6_NEXTH_FRAGMENT = 44"
definition IP6_NEXTH_ICMP6 :: u8 where "IP6_NEXTH_ICMP6 = 58"
definition IP6_NEXTH_NONE :: u8 where "IP6_NEXTH_NONE = 59"
definition IP6_NEXTH_DESTOPTS :: u8 where "IP6_NEXTH_DESTOPTS = 60"

definition IP6H_V :: "u8 list \<Rightarrow> u32" where "IP6H_V hdr = drop_bit 28 (lwip_htonl (ldf32 hdr 0)) AND 0x0f"
definition IP6H_PLEN :: "u8 list \<Rightarrow> u16" where "IP6H_PLEN hdr = lwip_htons (ldf16 hdr 4)"
definition IP6H_NEXTH :: "u8 list \<Rightarrow> u8" where "IP6H_NEXTH hdr = hdr ! 6"

text \<open>
  The functions IPv6 calls in the driver and in the modules for neighbours and fragments, beside
  those of \<^verbatim>\<open>ip_env\<close>: \<^verbatim>\<open>netif->output_ip6\<close>, \<^verbatim>\<open>nd6_get_destination_mtu\<close>, \<^verbatim>\<open>nd6_input\<close> and \<^verbatim>\<open>ip6_reass\<close>,
  whose result is NULL or the packet.
\<close>

record 's ip6_env =
  e6_ip :: "'s ip_env"
  e6_output :: "netif \<Rightarrow> nat \<Rightarrow> ip6_addr_t \<Rightarrow> 's \<Rightarrow> (err_t \<times> 's) option"
  e6_nd6_mtu :: "ip6_addr_t \<Rightarrow> netif \<Rightarrow> 's \<Rightarrow> u16"
  e6_nd6_input :: "nat \<Rightarrow> netif \<Rightarrow> 's \<Rightarrow> 's option"
  e6_reass :: "nat \<Rightarrow> 's \<Rightarrow> (nat \<times> 's) option"

section \<open>The source address\<close>

definition SCOPE_RESERVED :: int where "SCOPE_RESERVED = 0x0"
definition SCOPE_LINK_LOCAL :: int where "SCOPE_LINK_LOCAL = 0x2"
definition SCOPE_SITE_LOCAL :: int where "SCOPE_SITE_LOCAL = 0x5"
definition SCOPE_ORGANIZATION_LOCAL :: int where "SCOPE_ORGANIZATION_LOCAL = 0x8"
definition SCOPE_GLOBAL :: int where "SCOPE_GLOBAL = 0xe"
definition SCOPE_RESERVEDF :: int where "SCOPE_RESERVEDF = 0xf"

definition select_dest_scope :: "ip6_addr_t \<Rightarrow> int" where
  "select_dest_scope dest =
     (if ip6_addr_isglobal dest then SCOPE_GLOBAL
      else if ip6_addr_islinklocal dest \<or> ip6_addr_isloopback dest then SCOPE_LINK_LOCAL
      else if ip6_addr_isuniquelocal dest then SCOPE_ORGANIZATION_LOCAL
      else if ip6_addr_ismulticast dest then ip6_addr_multicast_scope dest
      else if ip6_addr_issitelocal dest then SCOPE_SITE_LOCAL
      else SCOPE_GLOBAL)"

definition select_cand_scope :: "ip6_addr_t \<Rightarrow> int" where
  "select_cand_scope a =
     (if ip6_addr_isglobal a then SCOPE_GLOBAL
      else if ip6_addr_islinklocal a then SCOPE_LINK_LOCAL
      else if ip6_addr_isuniquelocal a then SCOPE_ORGANIZATION_LOCAL
      else if ip6_addr_issitelocal a then SCOPE_SITE_LOCAL
      else SCOPE_RESERVEDF)"

text \<open>The best candidate so far, with its scope, whether it is preferred, and its common bits (0 or 1).\<close>

record select_best =
  best_addr :: "ip_addr_t option"
  best_scope :: int
  best_pref :: nat
  best_bits :: nat

definition select_wins :: "int \<Rightarrow> int \<Rightarrow> nat \<Rightarrow> nat \<Rightarrow> select_best \<Rightarrow> bool" where
  "select_wins dest_scope cand_scope cand_pref cand_bits b =
     (best_addr b = None \<or>
      (cand_scope < best_scope b \<and> cand_scope \<ge> dest_scope) \<or>
      (cand_scope > best_scope b \<and> best_scope b < dest_scope) \<or>
      (cand_scope = best_scope b \<and>
        (cand_pref > best_pref b \<or> (cand_pref = best_pref b \<and> cand_bits > best_bits b))))"

fun select_loop :: "ip6_addr_t \<Rightarrow> int \<Rightarrow> (ip_addr_t \<times> u8) list \<Rightarrow> select_best \<Rightarrow> ip_addr_t option" where
  "select_loop dest dest_scope [] b = best_addr b"
| "select_loop dest dest_scope ((a, st) # as) b =
     (if \<not> ip6_addr_isvalid st then select_loop dest dest_scope as b
      else let cand_addr = ip_2_ip6 a;
               cand_scope = select_cand_scope cand_addr;
               cand_pref = (if ip6_addr_ispreferred st then 1 else 0);
               cand_bits = (if ip6_addr_netcmp_zoneless cand_addr dest then 1 else 0)
        in if cand_bits \<noteq> 0 \<and> ip6_addr_nethostcmp cand_addr dest then Some a
           else if select_wins dest_scope cand_scope cand_pref cand_bits b
           then select_loop dest dest_scope as
                  \<lparr>best_addr = Some a, best_scope = cand_scope, best_pref = cand_pref, best_bits = cand_bits\<rparr>
           else select_loop dest dest_scope as b)"

definition ip6_select_source_address :: "netif \<Rightarrow> ip6_addr_t \<Rightarrow> ip_addr_t option" where
  "ip6_select_source_address netif dest =
     select_loop dest (select_dest_scope dest) (zip (netif_ip6_addr netif) (netif_ip6_addr_state netif))
       \<lparr>best_addr = None, best_scope = SCOPE_RESERVED, best_pref = 0, best_bits = 0\<rparr>"

section \<open>Fragmentation\<close>

text \<open>
  The packet \<^verbatim>\<open>p\<close> itself is moved forward by the bytes that have been sent, and the chain of
  references is built from there as for IPv4.
\<close>

definition frag6_advance :: "heap \<Rightarrow> nat \<Rightarrow> u16 \<Rightarrow> heap option" where
  "frag6_advance h p poff =
     do {
       b \<leftarrow> pbufs h p;
       Some (put_pbuf h p (b\<lparr>pb_payload := vptr_add (pb_payload b) (unat poff), pb_len := pb_len b - poff,
         pb_tot_len := pb_tot_len b - poff\<rparr>))
     }"

definition frag6_headers :: "u8 list \<Rightarrow> u16 \<Rightarrow> u16 \<Rightarrow> bool \<Rightarrow> u32 \<Rightarrow> u8 list" where
  "frag6_headers hdr cop fragment_offset is_last ident =
     take 4 hdr @ store16 (lwip_htons (cop + of_nat IP6_FRAG_HLEN)) @ [IP6_NEXTH_FRAGMENT] @ drop 7 hdr @
     [IP6H_NEXTH hdr, 0] @
     store16 (lwip_htons ((fragment_offset AND IP6_FRAG_OFFSET_MASK) OR (if is_last then 0 else IP6_FRAG_MORE_FLAG))) @
     u32_bytes (lwip_htonl ident)"

partial_function (option) frag6_loop ::
  "'a ip_state_scheme ip6_env \<Rightarrow> netif \<Rightarrow> ip6_addr_t \<Rightarrow> vptr \<Rightarrow> u16 \<Rightarrow> nat \<Rightarrow> u16 \<Rightarrow> u16 \<Rightarrow> u16 \<Rightarrow>
   'a ip_state_scheme \<Rightarrow> (err_t \<times> 'a ip_state_scheme) option" where
  "frag6_loop env netif dest original_ip6hdr nfb p poff left fragment_offset s =
     (if left = 0 then Some (ERR_OK, s)
      else do {
        let is_last = (left \<le> nfb);
        let cop = (if is_last then left else nfb);
        (rambuf, h) \<leftarrow> pbuf_alloc (ip_heap s) PBUF_LINK (of_nat (IP6_HLEN + IP6_FRAG_HLEN)) PBUF_RAM;
        if rambuf = 0 then Some (ERR_MEM, s\<lparr>ip_heap := h\<rparr>)
        else do {
          b \<leftarrow> pbufs h p;
          lwip_assert (unat (pb_len b) \<ge> IP6_HLEN);
          r \<leftarrow> pbufs h rambuf;
          hdr \<leftarrow> mem_read h original_ip6hdr 0 IP6_HLEN;
          h \<leftarrow> mem_write h (pb_payload r) 0 hdr;
          h \<leftarrow> frag6_advance h p poff;
          res \<leftarrow> frag_refs h rambuf p 0 cop 0;
          (case res of
             Inl h \<Rightarrow> Some (ERR_MEM, s\<lparr>ip_heap := h\<rparr>)
           | Inr (p, x, newpbuflen, h) \<Rightarrow> do {
               hdr \<leftarrow> mem_read h original_ip6hdr 0 IP6_HLEN;
               h \<leftarrow> mem_write h (pb_payload r) 0 (frag6_headers hdr cop fragment_offset is_last (ip6_identification s));
               (e, s) \<leftarrow> e6_output env netif rambuf dest (s\<lparr>ip_heap := h\<rparr>);
               (c, h) \<leftarrow> pbuf_free (ip_heap s) rambuf;
               frag6_loop env netif dest original_ip6hdr nfb p newpbuflen (left - cop) (fragment_offset + cop)
                 (s\<lparr>ip_heap := h\<rparr>)
             })
        }
      })"

definition ip6_frag ::
  "'a ip_state_scheme ip6_env \<Rightarrow> nat \<Rightarrow> netif \<Rightarrow> ip6_addr_t \<Rightarrow> 'a ip_state_scheme \<Rightarrow>
   (err_t \<times> 'a ip_state_scheme) option" where
  "ip6_frag env p netif dest s =
     do {
       let mtu = e6_nd6_mtu env dest netif s;
       let nfb = (mtu - of_nat (IP6_HLEN + IP6_FRAG_HLEN)) AND IP6_FRAG_OFFSET_MASK;
       let s = s\<lparr>ip6_identification := ip6_identification s + 1\<rparr>;
       b \<leftarrow> pbufs (ip_heap s) p;
       lwip_assert (unat (pb_tot_len b) \<ge> IP6_HLEN);
       frag6_loop env netif dest (pb_payload b) nfb p (of_nat IP6_HLEN) (pb_tot_len b - of_nat IP6_HLEN) 0 s
     }"

section \<open>Output\<close>

definition ip6_hdr :: "u8 \<Rightarrow> u8 \<Rightarrow> u8 \<Rightarrow> u16 \<Rightarrow> ip6_addr_t \<Rightarrow> ip6_addr_t \<Rightarrow> u8 list" where
  "ip6_hdr hl tc nexth plen src dest =
     u32_bytes (lwip_htonl (push_bit 28 6 OR push_bit 20 (ucast tc) OR 0)) @ store16 (lwip_htons plen) @ [nexth, hl]
       @ ip6_addr_packed src @ ip6_addr_packed dest"

text \<open>The end of \<^verbatim>\<open>ip6_output_if_src\<close>: packets to a valid address of the interface are looped back.\<close>

definition ip6_send ::
  "'a ip_state_scheme ip6_env \<Rightarrow> nat \<Rightarrow> ip6_addr_t \<Rightarrow> netif \<Rightarrow> 'a ip_state_scheme \<Rightarrow>
   (err_t \<times> 'a ip_state_scheme) option" where
  "ip6_send env p dest netif s =
     (if \<exists>(a, st) \<in> set (zip (netif_ip6_addr netif) (netif_ip6_addr_state netif)).
           ip6_addr_isvalid st \<and> ip6_addr_cmp dest (ip_2_ip6 a)
      then env_loop_output (e6_ip env) netif p s
      else do {
        b \<leftarrow> pbufs (ip_heap s) p;
        if netif_mtu6 netif \<noteq> 0 \<and> pb_tot_len b > e6_nd6_mtu env dest netif s then ip6_frag env p netif dest s
        else e6_output env netif p dest s
      })"

text \<open>A NULL destination (\<^verbatim>\<open>LWIP_IP_HDRINCL\<close>) stands for a packet that already has its header.\<close>

definition ip6_output_if_src ::
  "'a ip_state_scheme ip6_env \<Rightarrow> nat \<Rightarrow> ip6_addr_t option \<Rightarrow> ip6_addr_t option \<Rightarrow> u8 \<Rightarrow> u8 \<Rightarrow> u8 \<Rightarrow> netif \<Rightarrow>
   'a ip_state_scheme \<Rightarrow> (err_t \<times> 'a ip_state_scheme) option" where
  "ip6_output_if_src env p src dest hl tc nexth netif s =
     do {
       b \<leftarrow> pbufs (ip_heap s) p;
       lwip_assert (pb_ref b = 1);
       (case dest of
          Some dest \<Rightarrow> do {
            let dest = (if ip6_addr_lacks_zone dest IP6_UNKNOWN then ip6_addr_assign_zone dest IP6_UNKNOWN netif else dest);
            (r, h) \<leftarrow> pbuf_add_header (ip_heap s) p IP6_HLEN;
            if r \<noteq> 0 then Some (ERR_BUF, s\<lparr>ip_heap := h\<rparr>)
            else do {
              b \<leftarrow> pbufs h p;
              lwip_assert (unat (pb_len b) \<ge> IP6_HLEN);
              let src = (case src of None \<Rightarrow> IP6_ADDR_ANY6 | Some a \<Rightarrow> a);
              h \<leftarrow> mem_write h (pb_payload b) 0 (ip6_hdr hl tc nexth (pb_tot_len b - of_nat IP6_HLEN) src dest);
              ip6_send env p dest netif (s\<lparr>ip_heap := h\<rparr>)
            }
          }
        | None \<Rightarrow> do {
            hdr \<leftarrow> mem_read (ip_heap s) (pb_payload b) 0 IP6_HLEN;
            ip6_send env p (ip6_addr_assign_zone (ip6_addr_from_packed hdr 24) IP6_UNKNOWN netif) netif s
          })
     }"

definition ip6_output_if ::
  "'a ip_state_scheme ip6_env \<Rightarrow> nat \<Rightarrow> ip6_addr_t option \<Rightarrow> ip6_addr_t option \<Rightarrow> u8 \<Rightarrow> u8 \<Rightarrow> u8 \<Rightarrow> netif \<Rightarrow>
   'a ip_state_scheme \<Rightarrow> (err_t \<times> 'a ip_state_scheme) option" where
  "ip6_output_if env p src dest hl tc nexth netif s =
     (case (src, dest) of
        (Some a, Some d) \<Rightarrow>
          (if ip6_addr_isany_val a then
             (case map_option ip_2_ip6 (ip6_select_source_address netif d) of
                None \<Rightarrow> Some (ERR_RTE, s)
              | Some src_used \<Rightarrow>
                  if ip6_addr_isany_val src_used then Some (ERR_RTE, s)
                  else ip6_output_if_src env p (Some src_used) dest hl tc nexth netif s)
           else ip6_output_if_src env p src dest hl tc nexth netif s)
      | _ \<Rightarrow> ip6_output_if_src env p src dest hl tc nexth netif s)"

definition ip6_output ::
  "'a ip_state_scheme ip6_env \<Rightarrow> nat \<Rightarrow> ip6_addr_t \<Rightarrow> ip6_addr_t option \<Rightarrow> u8 \<Rightarrow> u8 \<Rightarrow> u8 \<Rightarrow>
   'a ip_state_scheme \<Rightarrow> (err_t \<times> 'a ip_state_scheme) option" where
  "ip6_output env p src dest hl tc nexth s =
     do {
       b \<leftarrow> pbufs (ip_heap s) p;
       lwip_assert (pb_ref b = 1);
       netif \<leftarrow> (case dest of
           Some d \<Rightarrow> Some (ip6_route src d s)
         | None \<Rightarrow> do {
             hdr \<leftarrow> mem_read (ip_heap s) (pb_payload b) 0 IP6_HLEN;
             Some (ip6_route (ip6_addr_from_packed hdr 8) (ip6_addr_from_packed hdr 24) s)
           });
       (case netif of
          None \<Rightarrow> Some (ERR_RTE, s)
        | Some netif \<Rightarrow> ip6_output_if env p (Some src) dest hl tc nexth netif s)
     }"

end
