(* ===== verification/Lwip_Icmp6.thy ===== *)
theory Lwip_Icmp6
  imports Lwip_Ip6_Output
begin

text \<open>
  ICMPv6 (\<^verbatim>\<open>core/ipv6/icmp6.c\<close>): echo replies, which are built in a new packet, and the error messages.
  Incoming checksums are not checked, multicast pings are not answered, MLD is compiled out, and
  messages of neighbour discovery go to \<^verbatim>\<open>nd6_input\<close>. The counters are not modelled.
\<close>

definition ICMP6_TYPE_DUR :: u8 where "ICMP6_TYPE_DUR = 1"
definition ICMP6_TYPE_PTB :: u8 where "ICMP6_TYPE_PTB = 2"
definition ICMP6_TYPE_TE :: u8 where "ICMP6_TYPE_TE = 3"
definition ICMP6_TYPE_PP :: u8 where "ICMP6_TYPE_PP = 4"
definition ICMP6_TYPE_EREQ :: u8 where "ICMP6_TYPE_EREQ = 128"
definition ICMP6_TYPE_EREP :: u8 where "ICMP6_TYPE_EREP = 129"
definition ICMP6_TYPE_RA :: u8 where "ICMP6_TYPE_RA = 134"
definition ICMP6_TYPE_NS :: u8 where "ICMP6_TYPE_NS = 135"
definition ICMP6_TYPE_NA :: u8 where "ICMP6_TYPE_NA = 136"
definition ICMP6_TYPE_RD :: u8 where "ICMP6_TYPE_RD = 137"
definition ICMP6_PP_FIELD :: u8 where "ICMP6_PP_FIELD = 0"
definition ICMP6_PP_HEADER :: u8 where "ICMP6_PP_HEADER = 1"
definition ICMP6_PP_OPTION :: u8 where "ICMP6_PP_OPTION = 2"
definition SIZEOF_ICMP6_HDR :: nat where "SIZEOF_ICMP6_HDR = 8"
definition LWIP_ICMP6_DATASIZE :: nat where "LWIP_ICMP6_DATASIZE = 8"
definition LWIP_ICMP6_HL :: u8 where "LWIP_ICMP6_HL = 255"

definition icmp6_free :: "nat \<Rightarrow> 'a ip_state_scheme \<Rightarrow> 'a ip_state_scheme option" where
  "icmp6_free p s = do { (c, h) \<leftarrow> pbuf_free (ip_heap s) p; Some (s\<lparr>ip_heap := h\<rparr>) }"

section \<open>Error messages\<close>

text \<open>The message quotes 48 bytes from the payload of \<^verbatim>\<open>p\<close>.\<close>

definition icmp6_send_response_with_addrs_and_netif ::
  "'a ip_state_scheme ip6_env \<Rightarrow> nat \<Rightarrow> u8 \<Rightarrow> u32 \<Rightarrow> u8 \<Rightarrow> ip6_addr_t \<Rightarrow> ip6_addr_t \<Rightarrow> netif \<Rightarrow>
   'a ip_state_scheme \<Rightarrow> 'a ip_state_scheme option" where
  "icmp6_send_response_with_addrs_and_netif env p code data type reply_src reply_dest netif s =
     do {
       (q, h) \<leftarrow> pbuf_alloc (ip_heap s) PBUF_IP (of_nat (SIZEOF_ICMP6_HDR + IP6_HLEN + LWIP_ICMP6_DATASIZE)) PBUF_RAM;
       if q = 0 then Some (s\<lparr>ip_heap := h\<rparr>)
       else do {
         qb \<leftarrow> pbufs h q;
         lwip_assert (unat (pb_len qb) \<ge> SIZEOF_ICMP6_HDR + IP6_HLEN + LWIP_ICMP6_DATASIZE);
         let icmp6hdr = pb_payload qb;
         h \<leftarrow> mem_write h icmp6hdr 0 [type, code];
         h \<leftarrow> mem_write h icmp6hdr 4 (u32_bytes (lwip_htonl data));
         pb \<leftarrow> pbufs h p;
         orig \<leftarrow> mem_read h (pb_payload pb) 0 (IP6_HLEN + LWIP_ICMP6_DATASIZE);
         h \<leftarrow> mem_write h icmp6hdr SIZEOF_ICMP6_HDR orig;
         h \<leftarrow> mem_write h icmp6hdr 2 (store16 0);
         segs \<leftarrow> pbuf_segments h q;
         h \<leftarrow> mem_write h icmp6hdr 2
           (store16 (ip6_chksum_pseudo LWIP_CHKSUM segs IP6_NEXTH_ICMP6 (pb_tot_len qb) reply_src reply_dest));
         (e, s) \<leftarrow> ip6_output_if env q (Some reply_src) (Some reply_dest) LWIP_ICMP6_HL 0 IP6_NEXTH_ICMP6 netif
           (s\<lparr>ip_heap := h\<rparr>);
         icmp6_free q s
       }
     }"

definition icmp6_send_response ::
  "'a ip_state_scheme ip6_env \<Rightarrow> nat \<Rightarrow> u8 \<Rightarrow> u32 \<Rightarrow> u8 \<Rightarrow> 'a ip_state_scheme \<Rightarrow> 'a ip_state_scheme option" where
  "icmp6_send_response env p code data type s =
     do {
       netif \<leftarrow> current_netif (ip_data s);
       let reply_dest = ip_2_ip6 (current_iphdr_src (ip_data s));
       (case map_option ip_2_ip6 (ip6_select_source_address netif reply_dest) of
          None \<Rightarrow> Some s
        | Some reply_src \<Rightarrow>
            icmp6_send_response_with_addrs_and_netif env p code data type reply_src reply_dest netif s)
     }"

definition icmp6_send_response_with_addrs ::
  "'a ip_state_scheme ip6_env \<Rightarrow> nat \<Rightarrow> u8 \<Rightarrow> u32 \<Rightarrow> u8 \<Rightarrow> ip6_addr_t \<Rightarrow> ip6_addr_t \<Rightarrow>
   'a ip_state_scheme \<Rightarrow> 'a ip_state_scheme option" where
  "icmp6_send_response_with_addrs env p code data type src_addr dest_addr s =
     (let reply_dest = src_addr; reply_src = dest_addr in
      case ip6_route reply_src reply_dest s of
        None \<Rightarrow> Some s
      | Some netif \<Rightarrow>
          icmp6_send_response_with_addrs_and_netif env p code data type reply_src reply_dest netif s)"

definition icmp6_dest_unreach ::
  "'a ip_state_scheme ip6_env \<Rightarrow> nat \<Rightarrow> u8 \<Rightarrow> 'a ip_state_scheme \<Rightarrow> 'a ip_state_scheme option" where
  "icmp6_dest_unreach env p c s = icmp6_send_response env p c 0 ICMP6_TYPE_DUR s"

definition icmp6_packet_too_big ::
  "'a ip_state_scheme ip6_env \<Rightarrow> nat \<Rightarrow> u32 \<Rightarrow> 'a ip_state_scheme \<Rightarrow> 'a ip_state_scheme option" where
  "icmp6_packet_too_big env p mtu s = icmp6_send_response env p 0 mtu ICMP6_TYPE_PTB s"

definition icmp6_time_exceeded ::
  "'a ip_state_scheme ip6_env \<Rightarrow> nat \<Rightarrow> u8 \<Rightarrow> 'a ip_state_scheme \<Rightarrow> 'a ip_state_scheme option" where
  "icmp6_time_exceeded env p c s = icmp6_send_response env p c 0 ICMP6_TYPE_TE s"

definition icmp6_time_exceeded_with_addrs ::
  "'a ip_state_scheme ip6_env \<Rightarrow> nat \<Rightarrow> u8 \<Rightarrow> ip6_addr_t \<Rightarrow> ip6_addr_t \<Rightarrow>
   'a ip_state_scheme \<Rightarrow> 'a ip_state_scheme option" where
  "icmp6_time_exceeded_with_addrs env p c src_addr dest_addr s =
     icmp6_send_response_with_addrs env p c 0 ICMP6_TYPE_TE src_addr dest_addr s"

text \<open>The offset of the faulty field, which is defined for pointers into one block.\<close>

definition vptr_diff :: "vptr \<Rightarrow> vptr \<Rightarrow> int option" where
  "vptr_diff v w = (case (v, w) of
       (VPtr b d, VPtr c e) \<Rightarrow> if b = c then Some (int d - int e) else None
     | _ \<Rightarrow> None)"

definition icmp6_param_problem ::
  "'a ip_state_scheme ip6_env \<Rightarrow> nat \<Rightarrow> u8 \<Rightarrow> vptr \<Rightarrow> 'a ip_state_scheme \<Rightarrow> 'a ip_state_scheme option" where
  "icmp6_param_problem env p c ptr s =
     do {
       d \<leftarrow> vptr_diff ptr (current_ip6_header (ip_data s));
       icmp6_send_response env p c (of_int d) ICMP6_TYPE_PP s
     }"

section \<open>Input\<close>

definition icmp6_echo_reply ::
  "'a ip_state_scheme ip6_env \<Rightarrow> nat \<Rightarrow> netif \<Rightarrow> 'a ip_state_scheme \<Rightarrow> 'a ip_state_scheme option" where
  "icmp6_echo_reply env r inp s =
     do {
       rb \<leftarrow> pbufs (ip_heap s) r;
       let reply_src = ip_2_ip6 (current_iphdr_dest (ip_data s));
       let reply_dest = ip_2_ip6 (current_iphdr_src (ip_data s));
       h \<leftarrow> mem_write (ip_heap s) (pb_payload rb) 0 [ICMP6_TYPE_EREP];
       h \<leftarrow> mem_write h (pb_payload rb) 2 (store16 0);
       segs \<leftarrow> pbuf_segments h r;
       h \<leftarrow> mem_write h (pb_payload rb) 2
         (store16 (ip6_chksum_pseudo LWIP_CHKSUM segs IP6_NEXTH_ICMP6 (pb_tot_len rb) reply_src reply_dest));
       (e, s) \<leftarrow> ip6_output_if env r (Some reply_src) (Some reply_dest) LWIP_ICMP6_HL 0 IP6_NEXTH_ICMP6 inp
         (s\<lparr>ip_heap := h\<rparr>);
       icmp6_free r s
     }"

definition icmp6_echo_input ::
  "'a ip_state_scheme ip6_env \<Rightarrow> nat \<Rightarrow> netif \<Rightarrow> 'a ip_state_scheme \<Rightarrow> 'a ip_state_scheme option" where
  "icmp6_echo_input env p inp s =
     (if ip6_addr_ismulticast (ip_2_ip6 (current_iphdr_dest (ip_data s))) then icmp6_free p s
      else do {
        b \<leftarrow> pbufs (ip_heap s) p;
        (r, h) \<leftarrow> pbuf_alloc (ip_heap s) PBUF_IP (pb_tot_len b) PBUF_RAM;
        if r = 0 then icmp6_free p (s\<lparr>ip_heap := h\<rparr>)
        else do {
          (e, h) \<leftarrow> pbuf_copy h r p;
          let s = s\<lparr>ip_heap := h\<rparr>;
          if e \<noteq> ERR_OK then do { s \<leftarrow> icmp6_free p s; icmp6_free r s }
          else do { s \<leftarrow> icmp6_echo_reply env r inp s; icmp6_free p s }
        }
      })"

definition icmp6_input ::
  "'a ip_state_scheme ip6_env \<Rightarrow> nat \<Rightarrow> netif \<Rightarrow> 'a ip_state_scheme \<Rightarrow> 'a ip_state_scheme option" where
  "icmp6_input env p inp s =
     do {
       b \<leftarrow> pbufs (ip_heap s) p;
       if unat (pb_len b) < SIZEOF_ICMP6_HDR then icmp6_free p s
       else do {
         bs \<leftarrow> mem_read (ip_heap s) (pb_payload b) 0 1;
         let type = hd bs;
         if type = ICMP6_TYPE_NA \<or> type = ICMP6_TYPE_NS \<or> type = ICMP6_TYPE_RA \<or> type = ICMP6_TYPE_RD \<or> type = ICMP6_TYPE_PTB
         then e6_nd6_input env p inp s
         else if type = ICMP6_TYPE_EREQ then icmp6_echo_input env p inp s
         else icmp6_free p s
       }
     }"

end
