(* ===== verification/Lwip_Ip6_Input.thy ===== *)
theory Lwip_Ip6_Input
  imports Lwip_Icmp6 Lwip_Ip4_Input
begin

text \<open>
  Receiving IPv6 packets (\<^verbatim>\<open>ip6_input\<close> of \<^verbatim>\<open>core/ipv6/ip6.c\<close>): header checks, the choice of the interface,
  the chain of extension headers with their options, and the dispatch to the protocols. No
  forwarding, no MLD; raw PCBs, TCP and the reassembly are functions of the environment.
\<close>

definition IP6_PAD1_OPTION :: u8 where "IP6_PAD1_OPTION = 0"
definition IP6_PADN_OPTION :: u8 where "IP6_PADN_OPTION = 1"
definition IP6_ROUTER_ALERT_OPTION :: u8 where "IP6_ROUTER_ALERT_OPTION = 5"
definition IP6_JUMBO_OPTION :: u8 where "IP6_JUMBO_OPTION = 194"
definition IP6_HOME_ADDRESS_OPTION :: u8 where "IP6_HOME_ADDRESS_OPTION = 201"
definition IP6_OPT_HLEN :: nat where "IP6_OPT_HLEN = 2"
definition IP6_ROUT_TYPE2 :: u8 where "IP6_ROUT_TYPE2 = 2"
definition IP6_ROUT_RPL :: u8 where "IP6_ROUT_RPL = 3"

section \<open>The interface\<close>

text \<open>With \<^verbatim>\<open>TUN2SOCKS\<close> every interface accepts every packet.\<close>

definition ip6_input_accept :: "netif \<Rightarrow> 'a ip_state_scheme \<Rightarrow> bool" where
  "ip6_input_accept netif s =
     (if TUN2SOCKS then True
      else netif_is_up netif \<and>
        (\<exists>(a, st) \<in> set (zip (netif_ip6_addr netif) (netif_ip6_addr_state netif)).
           ip6_addr_isvalid st \<and> ip6_addr_cmp (ip_2_ip6 (current_iphdr_dest (ip_data s))) (ip_2_ip6 a)))"

definition ip6_input_netif :: "netif \<Rightarrow> 'a ip_state_scheme \<Rightarrow> netif option" where
  "ip6_input_netif inp s =
     (let dest = ip_2_ip6 (current_iphdr_dest (ip_data s)); src = ip_2_ip6 (current_iphdr_src (ip_data s)) in
      if ip6_addr_ismulticast dest then
        (if ip6_addr_isallnodes_iflocal dest \<or> ip6_addr_isallnodes_linklocal dest then Some inp
         else if ip6_addr_issolicitednode dest then
           (if \<exists>(a, st) \<in> set (zip (netif_ip6_addr inp) (netif_ip6_addr_state inp)).
                 ip6_addr_isvalid st \<and> ip6_addr_cmp_solicitednode dest (ip_2_ip6 a)
            then Some inp else None)
         else None)
      else if ip6_input_accept inp s then Some inp
      else if ip6_addr_islinklocal dest \<or> ip6_addr_islinklocal src then None
      else if ip6_addr_isloopback dest \<or> ip6_addr_isloopback src then None
      else find (\<lambda>netif. netif_num netif \<noteq> netif_num inp \<and> ip6_input_accept netif s) (netif_list s))"

section \<open>Extension headers\<close>

text \<open>
  The walk over the options of a header of \<^verbatim>\<open>hlen\<close> bytes at \<^verbatim>\<open>hdr\<close>. The result is the first option
  that is not known and must not be skipped, with its action (1, 2 or 3) and its place.
\<close>

definition ip6_opt_known :: "bool \<Rightarrow> u8 \<Rightarrow> bool" where
  "ip6_opt_known destopts t =
     (t = IP6_PADN_OPTION \<or> t = IP6_ROUTER_ALERT_OPTION \<or> t = IP6_JUMBO_OPTION \<or>
      (destopts \<and> t = IP6_HOME_ADDRESS_OPTION))"

partial_function (option) ip6_options ::
  "heap \<Rightarrow> vptr \<Rightarrow> bool \<Rightarrow> nat \<Rightarrow> nat \<Rightarrow> (u8 \<times> nat) option option" where
  "ip6_options h hdr destopts hlen opt_offset =
     (if \<not> opt_offset < hlen then Some None
      else do {
        t \<leftarrow> mem_read h hdr opt_offset 1;
        let opt_type = hd t;
        let action = drop_bit 6 opt_type AND 0x3;
        if opt_type = IP6_PAD1_OPTION then ip6_options h hdr destopts hlen (opt_offset + IP6_OPT_HLEN - 1)
        else if ip6_opt_known destopts opt_type \<or> action = 0 then do {
          l \<leftarrow> mem_read h hdr (opt_offset + 1) 1;
          ip6_options h hdr destopts hlen (opt_offset + IP6_OPT_HLEN + unat (hd l))
        } else Some (Some (action, opt_offset))
      })"

text \<open>
  One extension header. \<^term>\<open>Inl s\<close> stands for the jump to \<^verbatim>\<open>ip6_input_cleanup\<close>; otherwise the result
  holds \<^verbatim>\<open>p\<close>, \<^verbatim>\<open>ip6hdr\<close>, \<^verbatim>\<open>nexth\<close> and \<^verbatim>\<open>hlen_tot\<close>. \<^verbatim>\<open>nexth\<close> is a pointer, read when it is looked at.
\<close>

type_synonym 's ip6_step = "('s + nat \<times> vptr \<times> vptr \<times> u16 \<times> 's) option"

definition ip6_input_drop :: "nat \<Rightarrow> 'a ip_state_scheme \<Rightarrow> 'a ip_state_scheme ip6_step" where
  "ip6_input_drop p s = do { s \<leftarrow> icmp6_free p s; Some (Inl s) }"

definition ip6_input_problem ::
  "'a ip_state_scheme ip6_env \<Rightarrow> nat \<Rightarrow> u8 \<Rightarrow> vptr \<Rightarrow> 'a ip_state_scheme \<Rightarrow> 'a ip_state_scheme ip6_step" where
  "ip6_input_problem env p c ptr s = do { s \<leftarrow> icmp6_param_problem env p c ptr s; ip6_input_drop p s }"

definition ip6_input_skip ::
  "nat \<Rightarrow> vptr \<Rightarrow> vptr \<Rightarrow> u16 \<Rightarrow> u16 \<Rightarrow> 'a ip_state_scheme \<Rightarrow> 'a ip_state_scheme ip6_step" where
  "ip6_input_skip p ip6hdr nexth hlen hlen_tot s =
     do { (x, h) \<leftarrow> pbuf_remove_header (ip_heap s) p (unat hlen); Some (Inr (p, ip6hdr, nexth, hlen_tot, s\<lparr>ip_heap := h\<rparr>)) }"

text \<open>Hop-by-hop and destination options\<close>

definition ip6_input_options ::
  "'a ip_state_scheme ip6_env \<Rightarrow> bool \<Rightarrow> nat \<Rightarrow> vptr \<Rightarrow> u16 \<Rightarrow> 'a ip_state_scheme \<Rightarrow> 'a ip_state_scheme ip6_step" where
  "ip6_input_options env destopts p ip6hdr hlen_tot s =
     do {
       b \<leftarrow> pbufs (ip_heap s) p;
       let hdr = pb_payload b;
       l \<leftarrow> mem_read (ip_heap s) hdr 1 1;
       let hlen = 8 * (1 + (ucast (hd l) :: u16));
       if pb_len b < 8 \<or> hlen > pb_len b then ip6_input_drop p s
       else do {
         bad \<leftarrow> ip6_options (ip_heap s) hdr destopts (unat hlen) 2;
         (case bad of
            None \<Rightarrow> ip6_input_skip p ip6hdr hdr hlen (hlen_tot + hlen) s
          | Some (action, off) \<Rightarrow>
              if action = 1 then ip6_input_drop p s
              else if action = 2 \<or> \<not> ip6_addr_ismulticast (ip_2_ip6 (current_iphdr_dest (ip_data s)))
              then ip6_input_problem env p ICMP6_PP_OPTION (vptr_add hdr off) s
              else ip6_input_drop p s)
       }
     }"

definition ip6_input_routing ::
  "'a ip_state_scheme ip6_env \<Rightarrow> nat \<Rightarrow> vptr \<Rightarrow> u16 \<Rightarrow> 'a ip_state_scheme \<Rightarrow> 'a ip_state_scheme ip6_step" where
  "ip6_input_routing env p ip6hdr hlen_tot s =
     do {
       b \<leftarrow> pbufs (ip_heap s) p;
       let rout_hdr = pb_payload b;
       l \<leftarrow> mem_read (ip_heap s) rout_hdr 1 1;
       let hlen = 8 * (1 + (ucast (hd l) :: u16));
       if pb_len b < 8 \<or> hlen > pb_len b then ip6_input_drop p s
       else do {
         r \<leftarrow> mem_read (ip_heap s) rout_hdr 2 2;
         if r ! 1 \<noteq> 0 \<and> hd l AND 0x1 \<noteq> 0 then ip6_input_problem env p ICMP6_PP_FIELD (vptr_add rout_hdr 1) s
         else if r ! 1 \<noteq> 0 \<and> r ! 0 \<noteq> IP6_ROUT_TYPE2 \<and> r ! 0 \<noteq> IP6_ROUT_RPL
         then ip6_input_problem env p ICMP6_PP_FIELD (vptr_add rout_hdr 2) s
         else ip6_input_skip p ip6hdr rout_hdr hlen (hlen_tot + hlen) s
       }
     }"

definition ip6_input_fragment ::
  "'a ip_state_scheme ip6_env \<Rightarrow> nat \<Rightarrow> vptr \<Rightarrow> u16 \<Rightarrow> 'a ip_state_scheme \<Rightarrow> 'a ip_state_scheme ip6_step" where
  "ip6_input_fragment env p ip6hdr hlen_tot s =
     do {
       b \<leftarrow> pbufs (ip_heap s) p;
       let frag_hdr = pb_payload b;
       let hlen = (8 :: u16);
       if hlen > pb_len b then ip6_input_drop p s
       else do {
         let hlen_tot = hlen_tot + hlen;
         f \<leftarrow> mem_read (ip_heap s) frag_hdr 2 2;
         v \<leftarrow> mem_read (ip_heap s) ip6hdr 0 6;
         if lwip_htons (ldf16 f 0) AND 0x1 \<noteq> 0 \<and> IP6H_PLEN v AND 0x7 \<noteq> 0
         then ip6_input_problem env p ICMP6_PP_FIELD (vptr_add ip6hdr 4) s
         else if ldf16 f 0 AND lwip_htons (IP6_FRAG_OFFSET_MASK OR IP6_FRAG_MORE_FLAG) = 0
         then ip6_input_skip p ip6hdr frag_hdr hlen hlen_tot s
         else do {
           (p, s) \<leftarrow> e6_reass env p (s\<lparr>ip_data := (ip_data s)\<lparr>current_ip_header_tot_len := hlen_tot\<rparr>\<rparr>);
           if p = 0 then Some (Inl s)
           else do {
             ip6hdr \<leftarrow> payload_of (ip_heap s) p;
             ip6_input_skip p ip6hdr (vptr_add ip6hdr 6) (of_nat IP6_HLEN) (of_nat IP6_HLEN) s
           }
         }
       }
     }"

partial_function (option) ip6_headers ::
  "'a ip_state_scheme ip6_env \<Rightarrow> nat \<Rightarrow> vptr \<Rightarrow> vptr \<Rightarrow> u16 \<Rightarrow> 'a ip_state_scheme \<Rightarrow> 'a ip_state_scheme ip6_step" where
  "ip6_headers env p ip6hdr nexth hlen_tot s =
     do {
       n \<leftarrow> mem_read (ip_heap s) nexth 0 1;
       r \<leftarrow> (if hd n = IP6_NEXTH_HOPBYHOP then map_option Some (ip6_input_options env False p ip6hdr hlen_tot s)
             else if hd n = IP6_NEXTH_DESTOPTS then map_option Some (ip6_input_options env True p ip6hdr hlen_tot s)
             else if hd n = IP6_NEXTH_ROUTING then map_option Some (ip6_input_routing env p ip6hdr hlen_tot s)
             else if hd n = IP6_NEXTH_FRAGMENT then map_option Some (ip6_input_fragment env p ip6hdr hlen_tot s)
             else Some None);
       (case r of
          None \<Rightarrow> Some (Inr (p, ip6hdr, nexth, hlen_tot, s))
        | Some (Inl s) \<Rightarrow> Some (Inl s)
        | Some (Inr (p, ip6hdr, nexth, hlen_tot, s)) \<Rightarrow> do {
            n \<leftarrow> mem_read (ip_heap s) nexth 0 1;
            if hd n = IP6_NEXTH_HOPBYHOP then ip6_input_problem env p ICMP6_PP_HEADER nexth s
            else ip6_headers env p ip6hdr nexth hlen_tot s
          })
     }"

section \<open>Dispatch\<close>

definition ip6_deliver ::
  "'a reass_state_scheme ip6_env \<Rightarrow> (netif \<Rightarrow> ip6_addr_t \<Rightarrow> bool) \<Rightarrow> nat \<Rightarrow> netif \<Rightarrow> vptr \<Rightarrow> vptr \<Rightarrow> u16 \<Rightarrow>
   'a reass_state_scheme \<Rightarrow> 'a reass_state_scheme option" where
  "ip6_deliver env ip6_match p inp ip6hdr nexth hlen_tot s =
     do {
       let s = s\<lparr>ip_data := (ip_data s)\<lparr>current_ip_header_tot_len := hlen_tot\<rparr>\<rparr>;
       (x, h) \<leftarrow> pbuf_add_header_force (ip_heap s) p (unat hlen_tot);
       (raw_status, s) \<leftarrow> env_raw_input (e6_ip env) p inp (s\<lparr>ip_heap := h\<rparr>);
       if raw_status \<noteq> RAW_INPUT_EATEN then do {
         (x, h) \<leftarrow> pbuf_remove_header (ip_heap s) p (unat hlen_tot);
         let s = s\<lparr>ip_heap := h\<rparr>;
         n \<leftarrow> mem_read h nexth 0 1;
         if hd n = IP6_NEXTH_NONE then icmp6_free p s
         else if hd n = IP6_NEXTH_UDP then udp_input (e6_ip env) ip6_match p inp s
         else if hd n = IP6_NEXTH_TCP then env_tcp_input (e6_ip env) p inp s
         else if hd n = IP6_NEXTH_ICMP6 then icmp6_input env p inp s
         else do {
           s \<leftarrow> (if raw_status = RAW_INPUT_DELIVERED then Some s
                 else do {
                   (x, h) \<leftarrow> pbuf_add_header_force (ip_heap s) p (unat hlen_tot);
                   let s = s\<lparr>ip_heap := h\<rparr>;
                   v \<leftarrow> mem_read h ip6hdr 0 7;
                   if \<not> ip6_addr_ismulticast (ip_2_ip6 (current_iphdr_dest (ip_data s))) \<and> IP6H_NEXTH v \<noteq> IP6_NEXTH_ICMP6
                   then icmp6_param_problem env p ICMP6_PP_HEADER nexth s
                   else Some s
                 });
           icmp6_free p s
         }
       } else Some s
     }"

definition ip6_set_zero :: "ip_addr_t \<Rightarrow> ip_addr_t" where
  "ip6_set_zero a = a\<lparr>u_addr := ip6_addr_set_zero (u_addr a)\<rparr>"

definition ip6_input_done :: "'a ip_state_scheme \<Rightarrow> 'a ip_state_scheme" where
  "ip6_input_done s =
     s\<lparr>ip_data := (ip_data s)\<lparr>current_netif := None, current_input_netif := None, current_ip6_header := VNull,
        current_ip_header_tot_len := 0, current_iphdr_src := ip6_set_zero (current_iphdr_src (ip_data s)),
        current_iphdr_dest := ip6_set_zero (current_iphdr_dest (ip_data s))\<rparr>\<rparr>"

text \<open>From the check of the source address on, with the globals set\<close>

definition ip6_input_for_us ::
  "'a reass_state_scheme ip6_env \<Rightarrow> (netif \<Rightarrow> ip6_addr_t \<Rightarrow> bool) \<Rightarrow> nat \<Rightarrow> netif \<Rightarrow> vptr \<Rightarrow>
   'a reass_state_scheme \<Rightarrow> 'a reass_state_scheme option" where
  "ip6_input_for_us env ip6_match p inp ip6hdr s =
     (let dest = ip_2_ip6 (current_iphdr_dest (ip_data s)); src = ip_2_ip6 (current_iphdr_src (ip_data s)) in
      case ip6_input_netif inp s of
        None \<Rightarrow> icmp6_free p s
      | Some netif \<Rightarrow>
          if ip6_addr_isany_val src \<and> \<not> ip6_addr_issolicitednode dest then icmp6_free p s
          else do {
            let s = s\<lparr>ip_data := (ip_data s)\<lparr>current_netif := Some netif\<rparr>\<rparr>;
            (x, h) \<leftarrow> pbuf_remove_header (ip_heap s) p IP6_HLEN;
            r \<leftarrow> ip6_headers env p ip6hdr (vptr_add ip6hdr 6) (of_nat IP6_HLEN) (s\<lparr>ip_heap := h\<rparr>);
            (case r of
               Inl s \<Rightarrow> Some s
             | Inr (p, ip6hdr, nexth, hlen_tot, s) \<Rightarrow> ip6_deliver env ip6_match p inp ip6hdr nexth hlen_tot s)
          })"

definition ip6_addr_set_packed :: "ip_addr_t \<Rightarrow> u8 list \<Rightarrow> nat \<Rightarrow> ip_addr_t" where
  "ip6_addr_set_packed a hdr i = a\<lparr>u_addr := ip6_addr_from_packed hdr i, ip_type := IPADDR_TYPE_V6\<rparr>"

definition ip6_input ::
  "'a reass_state_scheme ip6_env \<Rightarrow> (netif \<Rightarrow> ip6_addr_t \<Rightarrow> bool) \<Rightarrow> nat \<Rightarrow> netif \<Rightarrow>
   'a reass_state_scheme \<Rightarrow> (err_t \<times> 'a reass_state_scheme) option" where
  "ip6_input env ip6_match p inp s =
     do {
       ip6hdr \<leftarrow> payload_of (ip_heap s) p;
       v \<leftarrow> mem_read (ip_heap s) ip6hdr 0 4;
       if IP6H_V v \<noteq> 6 then do { s \<leftarrow> icmp6_free p s; Some (ERR_OK, s) }
       else do {
         b \<leftarrow> pbufs (ip_heap s) p;
         v \<leftarrow> mem_read (ip_heap s) ip6hdr 0 6;
         if IP6_HLEN > unat (pb_len b) \<or> int (unat (IP6H_PLEN v)) > int (unat (pb_tot_len b)) - int IP6_HLEN
         then do { s \<leftarrow> icmp6_free p s; Some (ERR_OK, s) }
         else do {
           v \<leftarrow> mem_read (ip_heap s) ip6hdr 0 IP6_HLEN;
           h \<leftarrow> pbuf_realloc (ip_heap s) p (of_nat IP6_HLEN + IP6H_PLEN v);
           let g = (ip_data s)\<lparr>
             current_iphdr_dest := ip6_addr_set_packed (current_iphdr_dest (ip_data s)) v 24,
             current_iphdr_src := ip6_addr_set_packed (current_iphdr_src (ip_data s)) v 8\<rparr>;
           let s = s\<lparr>ip_heap := h, ip_data := g\<rparr>;
           let dest = ip_2_ip6 (current_iphdr_dest g);
           let src = ip_2_ip6 (current_iphdr_src g);
           if ip6_addr_isipv4mappedipv6 dest \<or> ip6_addr_isipv4mappedipv6 src \<or> ip6_addr_ismulticast src
           then do { s \<leftarrow> icmp6_free p s; Some (ERR_OK, s) }
           else do {
             let g = g\<lparr>
               current_iphdr_dest := (current_iphdr_dest g)\<lparr>u_addr := ip6_addr_assign_zone dest IP6_UNKNOWN inp\<rparr>,
               current_iphdr_src := (current_iphdr_src g)\<lparr>u_addr := ip6_addr_assign_zone src IP6_UNICAST inp\<rparr>,
               current_ip6_header := ip6hdr, current_netif := Some inp, current_input_netif := Some inp\<rparr>;
             s \<leftarrow> ip6_input_for_us env ip6_match p inp ip6hdr (s\<lparr>ip_data := g\<rparr>);
             Some (ERR_OK, ip6_input_done s)
           }
         }
       }
     }"

end
