(* ===== verification/Lwip_Ip6_Props.thy ===== *)
theory Lwip_Ip6_Props
  imports Lwip_Ip6_Input Lwip_Stack
begin

text \<open>
  What IPv6 promises: the source address chosen for a destination, the header that is written and
  read back, the walk over the options of an extension header, and the replies to echo requests.
\<close>

section \<open>The source address\<close>

type_synonym source_cand = "ip_addr_t \<times> u8"
text \<open>
  The specification is written on the number an address starts with, as RFC 4291, RFC 4193 and
  RFC 6724 give the prefixes: \<^term>\<open>ip6_prefix net len a\<close> says that the first \<open>len\<close> bits of \<open>a\<close> are
  those of \<open>net\<close>.
\<close>

definition ip6_prefix :: "nat \<Rightarrow> nat \<Rightarrow> ip6_addr_t \<Rightarrow> bool" where
  "ip6_prefix net len a = (unat (lwip_htonl (ip6_a0 a)) div 2 ^ (32 - len) = net div 2 ^ (32 - len))"

definition ip6_number :: "ip6_addr_t \<Rightarrow> nat" where
  "ip6_number a = unat (lwip_htonl (ip6_a0 a)) * 2 ^ 96 + unat (lwip_htonl (ip6_a1 a)) * 2 ^ 64 +
     unat (lwip_htonl (ip6_a2 a)) * 2 ^ 32 + unat (lwip_htonl (ip6_a3 a))"

text \<open>
  The scope of a destination (RFC 6724, 3.1): a multicast address names it, link-local addresses and
  ::1 have link-local scope 2, site-local ones 5, the others are global, 14. For unique local
  addresses RFC 6724 says global; lwIP deliberately deviates from it (the comment before
  \<^verbatim>\<open>ip6_select_source_address\<close>) and takes 8.
\<close>

definition rfc6724_dest_scope :: "ip6_addr_t \<Rightarrow> int" where
  "rfc6724_dest_scope a =
     (if ip6_prefix 0xff000000 8 a then int (unat (lwip_htonl (ip6_a0 a)) div 2 ^ 16 mod 16)
      else if ip6_prefix 0xfe800000 10 a \<or> ip6_number a = 1 then 2
      else if ip6_prefix 0xfec00000 10 a then 5
      else if ip6_prefix 0xfc000000 7 a then 8
      else 14)"

text \<open>An interface's own address outside 2000::/3 that is none of these is the last choice.\<close>

definition source_scope :: "ip6_addr_t \<Rightarrow> int" where
  "source_scope a =
     (if ip6_prefix 0xfe800000 10 a then 2
      else if ip6_prefix 0xfec00000 10 a then 5
      else if ip6_prefix 0xfc000000 7 a then 8
      else if ip6_prefix 0x20000000 3 a then 14
      else 15)"

definition cand_scope :: "source_cand \<Rightarrow> int" where
  "cand_scope c = source_scope (ip_2_ip6 (fst c))"

text \<open>
  Rules 2, 3 and 8 of RFC 6724, section 5: an appropriate scope, then an address that is not
  deprecated, then the longer common prefix - of which lwIP looks at the first 64 bits only.
\<close>

definition rfc6724_prefers :: "ip6_addr_t \<Rightarrow> source_cand \<Rightarrow> source_cand \<Rightarrow> bool" where
  "rfc6724_prefers dest a b =
     (let d = rfc6724_dest_scope dest;
          preferred = (\<lambda>c. snd c = 0x30);
          same_net = (\<lambda>c. ip6_number (ip_2_ip6 (fst c)) div 2 ^ 64 = ip6_number dest div 2 ^ 64)
      in if cand_scope a < cand_scope b then cand_scope a \<ge> d
         else if cand_scope b < cand_scope a then cand_scope b < d
         else if preferred a \<noteq> preferred b then preferred a
         else same_net a \<and> \<not> same_net b)"

text \<open>Rule 1: the destination itself.\<close>

definition is_dest :: "ip6_addr_t \<Rightarrow> source_cand \<Rightarrow> bool" where
  "is_dest dest c = (ip6_number (ip_2_ip6 (fst c)) = ip6_number dest)"

subsection \<open>The code's tests\<close>

lemma bit_lwip_htonl: "bit (lwip_htonl n) i \<longleftrightarrow> i < 32 \<and> bit n (24 - 8 * (i div 8) + i mod 8)"
proof (cases "i < 32")
  case True
  then have "i \<in> {0..<32}" by simp
  then have "i \<in> set [0..<32]" by simp
  then show ?thesis
    by (simp add: upt_rec del: upt_Suc) (elim disjE; simp add: lwip_htonl_def bit_simps; (simp add: numeral_eq_Suc)?)
qed (auto dest: bit_imp_le_length)

lemma lwip_htonl_and: "lwip_htonl (x AND y) = lwip_htonl x AND lwip_htonl y"
  by (rule bit_word_eqI) (simp add: bit_lwip_htonl bit_and_iff)

lemma word_prefix:
  assumes "k < 32"
  shows "(w :: u32) AND NOT (mask k) = push_bit k (drop_bit k v) \<longleftrightarrow> unat w div 2 ^ k = unat v div 2 ^ k"
proof -
  have "w AND NOT (mask k) = push_bit k (drop_bit k w)"
    by (rule bit_word_eqI) (auto simp: bit_simps)
  moreover have "push_bit k (drop_bit k w) = push_bit k (drop_bit k v) \<longleftrightarrow> drop_bit k w = drop_bit k v"
  proof
    have "drop_bit k (push_bit k (drop_bit k x)) = drop_bit k x" for x :: u32
      by (rule bit_word_eqI) (auto simp: bit_simps dest: bit_imp_le_length)
    then show "push_bit k (drop_bit k w) = push_bit k (drop_bit k v) \<Longrightarrow> drop_bit k w = drop_bit k v"
      by metis
  qed simp
  ultimately show ?thesis by (simp only: word_unat_eq_iff [of "drop_bit k w"] unat_drop_bit)
qed

lemma masked_prefix:
  assumes "k < 32" "m = NOT (mask k)" "v = push_bit k (drop_bit k v)"
  shows "(w AND lwip_htonl m = lwip_htonl v) \<longleftrightarrow> unat (lwip_htonl w) div 2 ^ k = unat v div 2 ^ k"
proof -
  have "(w AND lwip_htonl m = lwip_htonl v) \<longleftrightarrow> lwip_htonl (w AND lwip_htonl m) = v"
    by (metis lwip_htonl_htonl)
  then show ?thesis using word_prefix [OF assms(1), of "lwip_htonl w" v] assms(2,3) by (simp add: lwip_htonl_and)
qed

lemma prefixes:
  "ip6_addr_isglobal a = ip6_prefix 0x20000000 3 a"
  "ip6_addr_islinklocal a = ip6_prefix 0xfe800000 10 a"
  "ip6_addr_issitelocal a = ip6_prefix 0xfec00000 10 a"
  "ip6_addr_isuniquelocal a = ip6_prefix 0xfc000000 7 a"
  "ip6_addr_ismulticast a = ip6_prefix 0xff000000 8 a"
  unfolding ip6_prefix_def ip6_addr_isglobal_def ip6_addr_islinklocal_def ip6_addr_issitelocal_def
    ip6_addr_isuniquelocal_def ip6_addr_ismulticast_def
  by (subst masked_prefix [where k = 29], simp, simp add: mask_eq_exp_minus_1, simp, simp)
     (subst masked_prefix [where k = 22], simp, simp add: mask_eq_exp_minus_1, simp, simp,
      subst masked_prefix [where k = 22], simp, simp add: mask_eq_exp_minus_1, simp, simp,
      subst masked_prefix [where k = 25], simp, simp add: mask_eq_exp_minus_1, simp, simp,
      subst masked_prefix [where k = 24], simp, simp add: mask_eq_exp_minus_1, simp, simp)

lemma htonl_inject: "unat (lwip_htonl x) = unat (lwip_htonl y) \<longleftrightarrow> x = y"
  by (metis lwip_htonl_htonl word_unat_eq_iff)

lemma number_split:
  "ip6_number a = unat (lwip_htonl (ip6_a2 a)) * 2 ^ 32 + unat (lwip_htonl (ip6_a3 a)) +
     (unat (lwip_htonl (ip6_a0 a)) * 2 ^ 32 + unat (lwip_htonl (ip6_a1 a))) * 2 ^ 64"
  "unat (lwip_htonl (ip6_a2 a)) * 2 ^ 32 + unat (lwip_htonl (ip6_a3 a)) < 2 ^ 64"
proof -
  have "unat (lwip_htonl (ip6_a2 a)) < 4294967296" "unat (lwip_htonl (ip6_a3 a)) < 4294967296" by (rule unat_u32_less)+
  then have "unat (lwip_htonl (ip6_a2 a)) * 4294967296 + unat (lwip_htonl (ip6_a3 a)) < 18446744073709551616"
    by linarith
  then show "unat (lwip_htonl (ip6_a2 a)) * 2 ^ 32 + unat (lwip_htonl (ip6_a3 a)) < 2 ^ 64" by simp
qed (simp add: ip6_number_def)

lemma number_div: "ip6_number a div 2 ^ 64 = unat (lwip_htonl (ip6_a0 a)) * 2 ^ 32 + unat (lwip_htonl (ip6_a1 a))"
  and number_mod: "ip6_number a mod 2 ^ 64 = unat (lwip_htonl (ip6_a2 a)) * 2 ^ 32 + unat (lwip_htonl (ip6_a3 a))"
proof -
  have nm: "(x + k * 2 ^ 64) div 2 ^ 64 = k" "(x + k * 2 ^ 64) mod 2 ^ 64 = x" if "x < 2 ^ 64" for x k :: nat
    using that by simp_all
  show "ip6_number a div 2 ^ 64 = unat (lwip_htonl (ip6_a0 a)) * 2 ^ 32 + unat (lwip_htonl (ip6_a1 a))"
    "ip6_number a mod 2 ^ 64 = unat (lwip_htonl (ip6_a2 a)) * 2 ^ 32 + unat (lwip_htonl (ip6_a3 a))"
    using nm [OF number_split(2) [of a]] number_split(1) [of a] by metis+
qed

lemma pair_number:
  assumes "b < 4294967296" "d < 4294967296"
  shows "(a :: nat) * 2 ^ 32 + b = c * 2 ^ 32 + d \<longleftrightarrow> a = c \<and> b = d"
proof -
  have "(x * 2 ^ 32 + y) div 2 ^ 32 = x" "(x * 2 ^ 32 + y) mod 2 ^ 32 = y" if "y < 4294967296" for x y :: nat
    using that by simp_all
  then show ?thesis using assms by metis
qed

lemma netcmp_number: "ip6_addr_netcmp_zoneless a b \<longleftrightarrow> ip6_number a div 2 ^ 64 = ip6_number b div 2 ^ 64"
  unfolding number_div pair_number [OF unat_u32_less unat_u32_less] htonl_inject ip6_addr_netcmp_zoneless_def ..

lemma hostcmp_number: "ip6_addr_nethostcmp a b \<longleftrightarrow> ip6_number a mod 2 ^ 64 = ip6_number b mod 2 ^ 64"
  unfolding number_mod pair_number [OF unat_u32_less unat_u32_less] htonl_inject ip6_addr_nethostcmp_def ..

lemma dest_number: "ip6_addr_netcmp_zoneless a b \<and> ip6_addr_nethostcmp a b \<longleftrightarrow> ip6_number a = ip6_number b"
  unfolding netcmp_number hostcmp_number by (metis div_mult_mod_eq)

lemma loopback_number: "ip6_addr_isloopback a \<longleftrightarrow> ip6_number a = 1"
proof -
  let ?l = "\<lparr>ip6_a0 = 0, ip6_a1 = 0, ip6_a2 = 0, ip6_a3 = lwip_htonl 1, ip6_zone = 0\<rparr>"
  have "lwip_htonl 0 = 0" by code_simp
  then have "ip6_number ?l = 1" by (simp add: ip6_number_def lwip_htonl_htonl)
  then show ?thesis using dest_number [of a ?l]
    by (simp add: ip6_addr_isloopback_def ip6_addr_netcmp_zoneless_def ip6_addr_nethostcmp_def)
qed

text \<open>The prefixes exclude each other, so that the order of the tests does not matter.\<close>

lemma prefix_excl:
  assumes "ip6_prefix n l a" "l \<le> l'" "l' \<le> 32" "n div 2 ^ (32 - l) \<noteq> n' div 2 ^ (32 - l)"
  shows "\<not> ip6_prefix n' l' a"
proof -
  have "2 ^ (32 - l) = (2 :: nat) ^ (32 - l') * 2 ^ (l' - l)" using assms(2,3) by (simp flip: power_add)
  then show ?thesis using assms(1,4) unfolding ip6_prefix_def by (metis div_mult2_eq)
qed

lemma excl:
  "ip6_prefix 0x20000000 3 a \<Longrightarrow> \<not> ip6_prefix 0xfe800000 10 a \<and> \<not> ip6_prefix 0xfec00000 10 a \<and>
     \<not> ip6_prefix 0xfc000000 7 a \<and> \<not> ip6_prefix 0xff000000 8 a"
  "ip6_prefix 0xfc000000 7 a \<Longrightarrow> \<not> ip6_prefix 0xfe800000 10 a \<and> \<not> ip6_prefix 0xfec00000 10 a \<and>
     \<not> ip6_prefix 0xff000000 8 a"
  "ip6_prefix 0xff000000 8 a \<Longrightarrow> \<not> ip6_prefix 0xfe800000 10 a \<and> \<not> ip6_prefix 0xfec00000 10 a"
  "ip6_prefix 0xfe800000 10 a \<Longrightarrow> \<not> ip6_prefix 0xfec00000 10 a"
  by ((intro conjI)?; erule prefix_excl; simp)+

lemma number_prefix: "ip6_number a = 1 \<Longrightarrow> unat (lwip_htonl (ip6_a0 a)) = 0"
  by (simp add: ip6_number_def)

lemma multicast_scope: "ip6_addr_multicast_scope a = int (unat (lwip_htonl (ip6_a0 a)) div 2 ^ 16 mod 16)"
proof -
  have m: "(0xf :: u32) = mask 4" by (simp add: mask_eq_exp_minus_1)
  have "uint (take_bit 4 (drop_bit 16 (x :: u32))) = uint x div 2 ^ 16 mod 2 ^ 4" for x
    by (simp add: unsigned_take_bit_eq unsigned_drop_bit_eq take_bit_eq_mod drop_bit_eq_div uint_div uint_mod)
  then show ?thesis
    unfolding ip6_addr_multicast_scope_def m take_bit_eq_mask [symmetric] by (simp add: zdiv_int zmod_int)
qed

lemma scopes: "select_dest_scope a = rfc6724_dest_scope a" "select_cand_scope a = source_scope a"
proof -
  have l: "ip6_number a = 1 \<Longrightarrow> \<not> ip6_prefix 0xff000000 8 a \<and> \<not> ip6_prefix 0x20000000 3 a"
    by (simp add: ip6_prefix_def number_prefix)
  show "select_dest_scope a = rfc6724_dest_scope a" "select_cand_scope a = source_scope a"
    using excl [of a] l
    unfolding select_dest_scope_def select_cand_scope_def rfc6724_dest_scope_def source_scope_def prefixes
      loopback_number multicast_scope
    by (auto simp: SCOPE_GLOBAL_def SCOPE_LINK_LOCAL_def SCOPE_ORGANIZATION_LOCAL_def SCOPE_SITE_LOCAL_def
        SCOPE_RESERVEDF_def)
qed

subsection \<open>The choice\<close>

text \<open>The preference as a rank, which makes it a strict weak order.\<close>

definition scope_rank :: "int \<Rightarrow> int \<Rightarrow> int" where
  "scope_rank d s = (if s \<ge> d then 100 - s else s)"

definition source_rank :: "ip6_addr_t \<Rightarrow> source_cand \<Rightarrow> int" where
  "source_rank dest c =
     4 * scope_rank (rfc6724_dest_scope dest) (cand_scope c) + (if ip6_addr_ispreferred (snd c) then 2 else 0) +
     (if ip6_addr_netcmp_zoneless (ip_2_ip6 (fst c)) dest then 1 else 0)"

lemma cand_scope_range: "0 \<le> source_scope a" "source_scope a \<le> 15"
  by (simp_all add: source_scope_def)

lemma rfc6724_prefers_rank: "rfc6724_prefers dest a b \<longleftrightarrow> source_rank dest b < source_rank dest a"
  using cand_scope_range [of "ip_2_ip6 (fst a)"] cand_scope_range [of "ip_2_ip6 (fst b)"]
  by (auto simp: rfc6724_prefers_def source_rank_def scope_rank_def cand_scope_def Let_def
      ip6_addr_ispreferred_def netcmp_number)

text \<open>The record of the best candidate describes the pair it was taken from.\<close>

definition best_of :: "ip6_addr_t \<Rightarrow> source_cand option \<Rightarrow> select_best" where
  "best_of dest c = (case c of
     None \<Rightarrow> \<lparr>best_addr = None, best_scope = SCOPE_RESERVED, best_pref = 0, best_bits = 0\<rparr>
   | Some c \<Rightarrow> \<lparr>best_addr = Some (fst c), best_scope = cand_scope c,
       best_pref = (if ip6_addr_ispreferred (snd c) then 1 else 0),
       best_bits = (if ip6_addr_netcmp_zoneless (ip_2_ip6 (fst c)) dest then 1 else 0)\<rparr>)"

lemma select_wins_prefers:
  "select_wins (rfc6724_dest_scope dest) (cand_scope c) (if ip6_addr_ispreferred (snd c) then 1 else 0)
     (if ip6_addr_netcmp_zoneless (ip_2_ip6 (fst c)) dest then 1 else 0) (best_of dest (Some b)) = rfc6724_prefers dest c b"
  by (auto simp: select_wins_def best_of_def rfc6724_prefers_def Let_def ip6_addr_ispreferred_def netcmp_number)

definition next_best :: "ip6_addr_t \<Rightarrow> source_cand option \<Rightarrow> source_cand \<Rightarrow> source_cand" where
  "next_best dest b c = (case b of None \<Rightarrow> c | Some b \<Rightarrow> if rfc6724_prefers dest c b then c else b)"

lemma is_dest_code:
  "is_dest dest c \<longleftrightarrow> ip6_addr_netcmp_zoneless (ip_2_ip6 (fst c)) dest \<and> ip6_addr_nethostcmp (ip_2_ip6 (fst c)) dest"
  unfolding is_dest_def dest_number ..

lemma select_loop_Cons:
  "select_loop dest (rfc6724_dest_scope dest) (c # cs) (best_of dest b) =
     (if \<not> ip6_addr_isvalid (snd c) then select_loop dest (rfc6724_dest_scope dest) cs (best_of dest b)
      else if is_dest dest c then Some (fst c)
      else select_loop dest (rfc6724_dest_scope dest) cs (best_of dest (Some (next_best dest b c))))"
proof (cases b)
  case None
  then show ?thesis
    by (cases c) (auto simp: best_of_def next_best_def select_wins_def is_dest_code cand_scope_def Let_def scopes)
next
  case (Some b')
  then show ?thesis using select_wins_prefers [of dest c b']
    by (cases c) (auto simp: best_of_def next_best_def is_dest_code cand_scope_def Let_def scopes)
qed

lemma next_best_max:
  assumes "\<And>x. b = Some x \<Longrightarrow> \<forall>y \<in> S. \<not> rfc6724_prefers dest y x" "b = None \<Longrightarrow> S = {}"
  shows "\<forall>y \<in> insert c S. \<not> rfc6724_prefers dest y (next_best dest b c)"
proof (cases b)
  case None
  then show ?thesis using assms(2) by (simp add: next_best_def rfc6724_prefers_rank)
next
  case (Some x)
  then have "\<forall>y \<in> S. source_rank dest y \<le> source_rank dest x"
    using assms(1) by (simp add: rfc6724_prefers_rank not_less)
  then show ?thesis using Some by (auto simp: next_best_def rfc6724_prefers_rank not_less)
qed

text \<open>\<open>S\<close> are the candidates passed already.\<close>

lemma select_loop_best:
  assumes "\<And>x. b = Some x \<Longrightarrow> x \<in> S \<and> (\<forall>y \<in> S. \<not> rfc6724_prefers dest y x)" "b = None \<Longrightarrow> S = {}"
    and "\<forall>c \<in> set cs. ip6_addr_isvalid (snd c) \<longrightarrow> \<not> is_dest dest c"
  shows "(select_loop dest (rfc6724_dest_scope dest) cs (best_of dest b) = None \<and>
      S \<union> {c \<in> set cs. ip6_addr_isvalid (snd c)} = {}) \<or>
    (\<exists>x \<in> S \<union> {c \<in> set cs. ip6_addr_isvalid (snd c)}.
      select_loop dest (rfc6724_dest_scope dest) cs (best_of dest b) = Some (fst x) \<and>
      (\<forall>y \<in> S \<union> {c \<in> set cs. ip6_addr_isvalid (snd c)}. \<not> rfc6724_prefers dest y x))"
  using assms
proof (induction cs arbitrary: b S)
  case Nil
  then show ?case by (cases b) (auto simp: best_of_def)
next
  case (Cons c cs)
  show ?case
  proof (cases "ip6_addr_isvalid (snd c)")
    case False
    have "{x \<in> set (c # cs). ip6_addr_isvalid (snd x)} = {x \<in> set cs. ip6_addr_isvalid (snd x)}" using False by auto
    then show ?thesis using Cons.IH [of b S] Cons.prems False by (simp add: select_loop_Cons)
  next
    case True
    have eq: "S \<union> {x \<in> set (c # cs). ip6_addr_isvalid (snd x)} =
      insert c S \<union> {x \<in> set cs. ip6_addr_isvalid (snd x)}" using True by auto
    have "next_best dest b c \<in> insert c S"
      using Cons.prems(1) by (cases b) (auto simp: next_best_def)
    then show ?thesis
      using Cons.IH [of "Some (next_best dest b c)" "insert c S"] Cons.prems next_best_max [of b S dest c] True
      unfolding eq by (simp add: select_loop_Cons)
  qed
qed

lemma select_loop_dest:
  assumes "\<exists>c \<in> set cs. ip6_addr_isvalid (snd c) \<and> is_dest dest c"
  shows "\<exists>c \<in> set cs. ip6_addr_isvalid (snd c) \<and> is_dest dest c \<and>
    select_loop dest (rfc6724_dest_scope dest) cs (best_of dest b) = Some (fst c)"
  using assms
proof (induction cs arbitrary: b)
  case (Cons c cs)
  then show ?case by (cases "ip6_addr_isvalid (snd c) \<and> is_dest dest c") (auto simp: select_loop_Cons)
qed simp


text \<open>Three addresses: a link-local one, a deprecated and a preferred global one.\<close>

definition demo_ip6 :: "u32 \<Rightarrow> u32 \<Rightarrow> ip_addr_t" where
  "demo_ip6 w x = \<lparr>u_addr = \<lparr>ip6_a0 = w, ip6_a1 = 0, ip6_a2 = 0, ip6_a3 = x, ip6_zone = 0\<rparr>, ip_type = IPADDR_TYPE_V6\<rparr>"

definition demo_netif6 :: netif where
  "demo_netif6 = demo_netif\<lparr>netif_ip6_addr := [demo_ip6 0x80fe 1, demo_ip6 0xb80d0120 1, demo_ip6 0xb80d0120 2],
     netif_ip6_addr_state := [0x30, 0x10, 0x30]\<rparr>"

definition demo_dest6 :: ip6_addr_t where
  "demo_dest6 = ip_2_ip6 (demo_ip6 0x60480120 7)"

lemma demo_ip6_valid:
  "{c \<in> set (zip (netif_ip6_addr demo_netif6) (netif_ip6_addr_state demo_netif6)). ip6_addr_isvalid (snd c)} =
    {(demo_ip6 0x80fe 1, 0x30), (demo_ip6 0xb80d0120 1, 0x10), (demo_ip6 0xb80d0120 2, 0x30)}"
  by (auto simp: demo_netif6_def ip6_addr_isvalid_def)

lemma demo_ip6_not_dest: "\<not> is_dest demo_dest6 (demo_ip6 w x, st) \<longleftrightarrow> w \<noteq> 0x60480120 \<or> x \<noteq> 7"
  by (auto simp: is_dest_code demo_dest6_def demo_ip6_def ip_2_ip6_def ip6_addr_netcmp_zoneless_def ip6_addr_nethostcmp_def)


section \<open>The header\<close>

lemma ldf32_append: "i = length xs \<Longrightarrow> ldf32 (xs @ u32_bytes a @ ys) i = a"
  using ldf32_take [of i "xs @ u32_bytes a @ ys"] by (simp add: ldf32_bytes)

lemma ldf16_append: "i = length xs \<Longrightarrow> ldf16 (xs @ store16 a @ ys) i = a"
  by (simp add: ldf16_def store16_def nth_append) (intro bit_word_eqI; auto simp: bit_simps dest: bit_imp_le_length)

lemma ip6_addr_from_packed_append:
  assumes "i = length xs"
  shows "ip6_addr_from_packed (xs @ ip6_addr_packed a @ ys) i = a\<lparr>ip6_zone := 0\<rparr>"
proof -
  have l: "ldf32 (xs @ u32_bytes w @ u32_bytes x @ u32_bytes y @ u32_bytes z @ ys) i = w"
    "ldf32 (xs @ u32_bytes w @ u32_bytes x @ u32_bytes y @ u32_bytes z @ ys) (i + 4) = x"
    "ldf32 (xs @ u32_bytes w @ u32_bytes x @ u32_bytes y @ u32_bytes z @ ys) (i + 8) = y"
    "ldf32 (xs @ u32_bytes w @ u32_bytes x @ u32_bytes y @ u32_bytes z @ ys) (i + 12) = z" for w x y z
    using ldf32_append [of i xs w] ldf32_append [of "i + 4" "xs @ u32_bytes w" x]
      ldf32_append [of "i + 8" "xs @ u32_bytes w @ u32_bytes x" y]
      ldf32_append [of "i + 12" "xs @ u32_bytes w @ u32_bytes x @ u32_bytes y" z] assms by simp_all
  show ?thesis by (simp add: ip6_addr_from_packed_def ip6_addr_packed_def ip6_words_def l)
qed

lemma ip6_version_word: "drop_bit 28 (push_bit 28 6 OR push_bit 20 (ucast (tc :: u8)) OR 0 :: u32) AND 0x0f = 6"
proof -
  have "bit (drop_bit 28 (push_bit 20 (ucast tc :: u32))) n = False" for n
    by (auto simp: bit_simps dest: bit_imp_le_length)
  then have "drop_bit 28 (push_bit 20 (ucast tc :: u32)) = 0" by (intro bit_word_eqI) simp
  then show ?thesis by (simp add: drop_bit_or)
qed

text \<open>The header that \<^verbatim>\<open>ip6_output_if_src\<close> writes is read by \<^verbatim>\<open>ip6_input\<close> with the same version,
  payload length, next header and addresses, the latter without their zones.\<close>

lemma ip6_hdr_roundtrip:
  "length (ip6_hdr hl tc nexth plen src dest) = IP6_HLEN \<and>
   IP6H_V (ip6_hdr hl tc nexth plen src dest) = 6 \<and>
   IP6H_PLEN (ip6_hdr hl tc nexth plen src dest) = plen \<and>
   IP6H_NEXTH (ip6_hdr hl tc nexth plen src dest) = nexth \<and>
   ip6_addr_from_packed (ip6_hdr hl tc nexth plen src dest) 8 = src\<lparr>ip6_zone := 0\<rparr> \<and>
   ip6_addr_from_packed (ip6_hdr hl tc nexth plen src dest) 24 = dest\<lparr>ip6_zone := 0\<rparr>"
proof -
  let ?v = "u32_bytes (lwip_htonl (push_bit 28 6 OR push_bit 20 (ucast tc) OR 0))"
  have len: "length (ip6_addr_packed a) = 16" for a
    by (simp add: ip6_addr_packed_def ip6_words_def)
  have "ldf32 (ip6_hdr hl tc nexth plen src dest) 0 = lwip_htonl (push_bit 28 6 OR push_bit 20 (ucast tc) OR 0)"
    using ldf32_append [of 0 "[]"] by (simp add: ip6_hdr_def)
  moreover have "ldf16 (ip6_hdr hl tc nexth plen src dest) 4 = lwip_htons plen"
    using ldf16_append [of 4 ?v] by (simp add: ip6_hdr_def)
  moreover have "ip6_addr_from_packed (ip6_hdr hl tc nexth plen src dest) 8 = src\<lparr>ip6_zone := 0\<rparr>"
    using ip6_addr_from_packed_append [of 8 "?v @ store16 (lwip_htons plen) @ [nexth, hl]" src "ip6_addr_packed dest"]
    by (simp add: ip6_hdr_def)
  moreover have "ip6_addr_from_packed (ip6_hdr hl tc nexth plen src dest) 24 = dest\<lparr>ip6_zone := 0\<rparr>"
    using ip6_addr_from_packed_append [of 24 "?v @ store16 (lwip_htons plen) @ [nexth, hl] @ ip6_addr_packed src" dest "[]"] len
    by (simp add: ip6_hdr_def)
  ultimately show ?thesis
    using len ip6_version_word
    by (simp add: ip6_hdr_def IP6H_V_def IP6H_PLEN_def IP6H_NEXTH_def IP6_HLEN_def nth_append)
qed

section \<open>Options\<close>

lemma mem_read_1:
  assumes "mem_read h v 0 n = Some bs" "i < n"
  shows "mem_read h v i 1 = Some [bs ! i]"
  using assms
  by (auto simp: mem_read_def buf_read_def bind_eq_Some_conv take_Suc_conv_app_nth hd_drop_conv_nth take_Suc
      split: vptr.splits if_splits)

lemma opt_action: "drop_bit 6 (t :: u8) AND 3 = drop_bit 6 t"
proof -
  have "drop_bit 6 t = take_bit 2 (drop_bit 6 t)"
    by (intro bit_word_eqI) (auto simp: bit_simps dest: bit_imp_le_length)
  then show ?thesis by (simp add: take_bit_eq_mask mask_eq_exp_minus_1)
qed

text \<open>C17: The walk over the options of an extension header of \<open>hlen\<close> bytes ends for all contents,
  provided one byte behind the header can be read; it stops only at an option inside the header
  whose type is not known and whose upper two bits, the action, are not 0.\<close>

theorem ip6_options_end:
  assumes "mem_read h hdr 0 (hlen + 1) = Some bs"
  shows "\<exists>r. ip6_options h hdr destopts hlen off = Some r \<and>
    (case r of None \<Rightarrow> True
     | Some (action, i) \<Rightarrow> off \<le> i \<and> i < hlen \<and> action = drop_bit 6 (bs ! i) \<and> action \<noteq> 0 \<and>
         \<not> ip6_opt_known destopts (bs ! i))"
proof (induction "hlen - off" arbitrary: off rule: less_induct)
  case less
  show ?case
  proof (cases "off < hlen")
    case False
    then show ?thesis by (subst ip6_options.simps) simp
  next
    case True
    let ?t = "bs ! off"
    have t: "mem_read h hdr off 1 = Some [?t]" "mem_read h hdr (off + 1) 1 = Some [bs ! (off + 1)]"
      using True by (intro mem_read_1 [OF assms]; simp)+
    have act: "drop_bit 6 ?t AND 3 = drop_bit 6 ?t"
      by (rule opt_action)
    let ?P = "\<lambda>off r. case r of None \<Rightarrow> True
     | Some (action, i) \<Rightarrow> off \<le> i \<and> i < hlen \<and> action = drop_bit 6 (bs ! i) \<and> action \<noteq> 0 \<and>
         \<not> ip6_opt_known destopts (bs ! i)"
    have rec: "\<exists>r. ip6_options h hdr destopts hlen (off + k) = Some r \<and> ?P off r" if k: "k > 0" for k
    proof -
      have "off < off + k" using k by simp
      from less [OF diff_less_mono2 [OF this True]]
      obtain r where "ip6_options h hdr destopts hlen (off + k) = Some r" "?P (off + k) r" by (elim exE conjE)
      then show ?thesis by (intro exI [of _ r]) (auto split: option.split)
    qed
    consider "?t = IP6_PAD1_OPTION" | "?t \<noteq> IP6_PAD1_OPTION" "ip6_opt_known destopts ?t \<or> drop_bit 6 ?t = 0"
      | "?t \<noteq> IP6_PAD1_OPTION" "\<not> ip6_opt_known destopts ?t" "drop_bit 6 ?t \<noteq> 0" by blast
    then show ?thesis
    proof cases
      case 1
      then show ?thesis using rec [of 1] t True by (subst ip6_options.simps) (simp add: IP6_OPT_HLEN_def)
    next
      case 2
      then show ?thesis using rec [of "2 + unat (bs ! (off + 1))"] t True
        by (subst ip6_options.simps) (simp add: IP6_OPT_HLEN_def act add.assoc)
    next
      case 3
      then show ?thesis using t True by (subst ip6_options.simps) (simp add: act)
    qed
  qed
qed

theorem ip6_options_end_witness:
  "mem_read demo_dgram (VPtr 3 24) 0 (8 + 1) = Some [0, 53, 4, 0, 0, 11, 0, 0, 10] \<and>
   (\<exists>r. ip6_options demo_dgram (VPtr 3 24) False 8 2 = Some r)"
proof -
  have m: "mem_read demo_dgram (VPtr 3 24) 0 (8 + 1) = Some [0, 53, 4, 0, 0, 11, 0, 0, 10]"
    by (simp add: demo_dgram_def mem_read_def buf_read_def)
  then show ?thesis using ip6_options_end [OF m, of False 2] by blast
qed

text \<open>The byte behind the header is read when the last byte is the type of an option that is skipped.\<close>

lemma ip6_options_overread:
  assumes "blocks h b = Some (pre @ hdr)" "hdr \<noteq> []" "last hdr \<noteq> IP6_PAD1_OPTION"
    "ip6_opt_known destopts (last hdr) \<or> drop_bit 6 (last hdr) = 0"
  shows "ip6_options h (VPtr b (length pre)) destopts (length hdr) (length hdr - 1) = None"
proof -
  obtain xs x where x: "hdr = xs @ [x]" using assms(2) by (metis append_butlast_last_id)
  then show ?thesis
    using assms by (subst ip6_options.simps) (simp add: mem_read_def buf_read_def opt_action)
qed

section \<open>Echo requests\<close>

text \<open>A new pbuf with \<open>n\<close> bytes in front of its payload\<close>

definition new_ram :: "heap \<Rightarrow> nat \<Rightarrow> nat \<Rightarrow> bool" where
  "new_ram h q n = (\<exists>b. pbufs h q = Some b \<and> pb_payload b = VPtr q (SIZEOF_STRUCT_PBUF + n) \<and> pb_ref b = 1 \<and>
     pb_type_internal b AND PBUF_TYPE_FLAG_STRUCT_DATA_CONTIGUOUS \<noteq> 0)"

lemma alloc_new_ram:
  assumes "pbuf_alloc h layer len PBUF_RAM = Some (q, h')" "q \<noteq> 0"
  shows "new_ram h' q (unat (layer_offset layer))"
  using assms by (auto simp: pbuf_alloc_def mem_malloc_def Let_def new_ram_def pbuf_init_alloced_pbuf_def type_u8_def
      PBUF_TYPE_FLAG_STRUCT_DATA_CONTIGUOUS_def split: if_splits)

lemma stored_verifies:
  assumes "even (length xs)" "unat c = 65535 - oc16 (le_sum (xs @ [0, 0] @ ys))"
  shows "oc16 (le_sum (xs @ store16 c @ ys)) = 65535"
  using oc16_complement [of "le_sum xs + le_sum ys"] assms
  by (simp add: le_sum_append_even le_sum_store16 ac_simps)

lemma icmp6_input_echo_step:
  assumes pkt: "packet (ip_heap s) p as" "p \<noteq> 0" "nonempty (ip_heap s) as"
    and b: "pbufs (ip_heap s) p = Some b" "8 \<le> unat (pb_len b)"
    and msg: "content (ip_heap s) as = [ICMP6_TYPE_EREQ, code, c1, c2] @ data"
    and small: "length data + 58 < 65536"
    and dest: "\<not> ip6_addr_ismulticast (ip_2_ip6 (current_iphdr_dest (ip_data s)))"
    and fresh: "fresh (ip_heap s)" "malloc_ok (ip_heap s) (nxt_addr (ip_heap s))"
    and old: "\<forall>x \<in> set as. pblock (ip_heap s) x < nxt_addr (ip_heap s)"
  defines "q \<equiv> nxt_addr (ip_heap s)"
  shows "\<exists>h1 h2. icmp6_input env p inp s =
      do { s \<leftarrow> icmp6_echo_reply env q inp (s\<lparr>ip_heap := h2\<rparr>); icmp6_free p s } \<and>
    allocated (ip_heap s) h1 q [q] (4 + length data) \<and> same_shape h1 h2 \<and> new_ram h1 q 54 \<and>
    content h2 [q] = [ICMP6_TYPE_EREQ, code, c1, c2] @ data \<and> packet h2 p as \<and>
    (\<forall>x \<in> set as. pblock h2 x \<noteq> q) \<and> content h2 as = content (ip_heap s) as"
proof -
  let ?h = "ip_heap s"
  obtain bs where bs: "as = p # bs" "unat (pb_tot_len b) = 4 + length data" "readable ?h p"
    "length (pdata ?h p) = unat (pb_len b)"
  proof -
    obtain b' bs where "as = p # bs" "pbufs ?h p = Some b'" "readable ?h p" "length (pdata ?h p) = unat (pb_len b')"
      "unat (pb_tot_len b') = unat (pb_len b') + length (content ?h bs)"
      by (rule packet_nonzero [OF pkt(1,2)])
    moreover have "length (content ?h as) = 4 + length data" unfolding msg by simp
    ultimately show thesis using b(1) by (intro that) simp_all
  qed
  have sm: "unat (layer_offset PBUF_IP + pb_tot_len b) = 54 + unat (pb_tot_len b)"
    using unat_add_u16_small [of "54" "pb_tot_len b"] small bs(2) by (simp add: layer_offset_def)
  have q: "q \<noteq> 0" using fresh(1) by (simp add: fresh_def q_def)
  obtain h1 where al: "pbuf_alloc ?h PBUF_IP (pb_tot_len b) PBUF_RAM = Some (q, h1)"
    using fresh(2) q sm unfolding q_def
    by (simp add: pbuf_alloc_def mem_malloc_def Let_def SIZEOF_STRUCT_PBUF_def word_less_nat_alt)
  have nr: "new_ram h1 q 54" using alloc_new_ram [OF al q] by (simp add: layer_offset_def)
  have a: "allocated ?h h1 q [q] (4 + length data)" using alloc_ram [OF fresh(1) al q] bs(2) by simp
  have qn: "q \<notin> set as"
  proof
    assume "q \<in> set as"
    then obtain c where "pbufs ?h q = Some c" using pkt(1) chain_present unfolding packet_def by blast
    then show False using fresh(1) by (simp add: fresh_def q_def)
  qed
  have same: "pbufs h1 x = pbufs ?h x" "blocks h1 x = blocks ?h x" if "x \<noteq> q" for x
    using a that by (simp_all add: allocated_def unchanged_def)
  have ag: "agree ?h h1 x" if x: "x \<in> set as" for x
  proof -
    have "x \<noteq> q" "pblock ?h x \<noteq> q" using x qn old unfolding q_def by (metis, metis less_irrefl)
    then show ?thesis using same by (simp add: agree_def)
  qed
  have pkt1: "packet h1 p as" "content h1 as = content ?h as" using agree_packet [OF ag pkt(1)] by simp_all
  have qpkt: "packet h1 q [q]" "length (content h1 [q]) = 4 + length data" "pblock h1 q = q"
    using a by (simp_all add: allocated_def new_pbuf_def)
  have pd: "pdata h1 x = pdata ?h x" if "x \<in> set as" for x
    using agree_D(1) [OF ag [OF that]] by (simp add: same_data_D)
  have ne: "nonempty h1 as" using pkt(3) pd by (simp add: nonempty_def list_all_iff)
  have blk: "pblock h1 x \<noteq> q" if x: "x \<in> set as" for x
  proof -
    have "x \<noteq> q" using x qn by metis
    then have "pblock h1 x = pblock ?h x" using same by (simp add: pblock_def)
    then show ?thesis using old x unfolding q_def by (metis less_irrefl)
  qed
  have qne: "nonempty h1 [q]" using qpkt(2) by auto
  have "\<forall>t \<in> set [q]. \<forall>f \<in> set as. pblock h1 t \<noteq> pblock h1 f" using blk qpkt(3) by fastforce
  from pbuf_copy_packet [OF qpkt(1) pkt1(1) q pkt(2) qne ne _ this]
  obtain h2 where h2: "pbuf_copy h1 q p = Some (ERR_OK, h2)" "same_shape h1 h2"
    "content h2 [q] = patch 0 (content h1 as) (content h1 [q])"
    "\<forall>x. pblock h1 x \<notin> pblock h1 ` set [q] \<longrightarrow> pdata h2 x = pdata h1 x"
    using msg qpkt(2) pkt1(2) by (auto simp: separate_def)
  have c2: "content h2 [q] = [ICMP6_TYPE_EREQ, code, c1, c2] @ data"
    unfolding h2(3) pkt1(2) msg using qpkt(2) by (simp add: patch_def)
  have ty: "mem_read ?h (pb_payload b) 0 1 = Some [ICMP6_TYPE_EREQ]"
  proof -
    have "mem_read ?h (pb_payload b) 0 1 = Some (take 1 (drop 0 (pdata ?h p)))"
      by (rule mem_read_pdata [OF bs(3) b(1)]) (use b(2) in simp)
    moreover have "pdata ?h p @ content ?h bs = ICMP6_TYPE_EREQ # code # c1 # c2 # data" using msg bs(1) by simp
    then have "take 1 (pdata ?h p) = [ICMP6_TYPE_EREQ]" using bs(4) b(2) by (cases "pdata ?h p") auto
    ultimately show ?thesis by simp
  qed
  have run: "icmp6_input env p inp s =
      do { s \<leftarrow> icmp6_echo_reply env q inp (s\<lparr>ip_heap := h2\<rparr>); icmp6_free p s }"
    using b ty dest al q h2(1)
    by (simp add: icmp6_input_def SIZEOF_ICMP6_HDR_def ICMP6_TYPE_NA_def ICMP6_TYPE_NS_def ICMP6_TYPE_RA_def
        ICMP6_TYPE_RD_def ICMP6_TYPE_PTB_def ICMP6_TYPE_EREQ_def icmp6_echo_input_def)
  have "content h2 as = content h1 as" using h2(4) blk qpkt(3) by (intro content_other) auto
  then show ?thesis
    using run a nr h2(2) c2 same_shape_packet [OF h2(2) pkt1(1)] blk pkt1(2)
    by (intro exI [of _ h1] exI [of _ h2]) (simp add: same_shape_pblock [OF h2(2)])
qed

text \<open>An ICMPv6 echo request to a unicast address is answered with a new packet of the same length
  and data, with the type of a reply and a checksum that verifies together with the pseudo header of
  the exchanged addresses; it is sent from the address the request was sent to, the request itself is
  unchanged, and both packets are freed afterwards.\<close>

lemma icmp6_input_echo:
  assumes pkt: "packet (ip_heap s) p as" "p \<noteq> 0" "nonempty (ip_heap s) as"
    and b: "pbufs (ip_heap s) p = Some b" "8 \<le> unat (pb_len b)"
    and msg: "content (ip_heap s) as = [ICMP6_TYPE_EREQ, code, c1, c2] @ data"
    and small: "length data + 58 < 65536"
    and dest: "\<not> ip6_addr_ismulticast (ip_2_ip6 (current_iphdr_dest (ip_data s)))"
    and fresh: "fresh (ip_heap s)" "malloc_ok (ip_heap s) (nxt_addr (ip_heap s))"
    and old: "\<forall>x \<in> set as. pblock (ip_heap s) x < nxt_addr (ip_heap s)"
  defines "q \<equiv> nxt_addr (ip_heap s)"
  defines "me \<equiv> ip_2_ip6 (current_iphdr_dest (ip_data s))"
  defines "peer \<equiv> ip_2_ip6 (current_iphdr_src (ip_data s))"
  shows "\<exists>h' c. icmp6_input env p inp s =
      do {
        (err, s') \<leftarrow> ip6_output_if env q (Some me) (Some peer) 255 0 IP6_NEXTH_ICMP6 inp (s\<lparr>ip_heap := h'\<rparr>);
        s' \<leftarrow> icmp6_free q s';
        icmp6_free p s'
      } \<and> new_ram h' q 54 \<and> packet h' q [q] \<and> packet h' p as \<and> content h' as = content (ip_heap s) as \<and>
    content h' [q] = [ICMP6_TYPE_EREP, code] @ store16 c @ data \<and>
    oc16 (le_sum (pseudo_header (ip6_words me) (ip6_words peer) IP6_NEXTH_ICMP6 (of_nat (4 + length data))
      @ content h' [q])) = 65535"
proof -
  obtain h1 h2 where run: "icmp6_input env p inp s =
      do { s \<leftarrow> icmp6_echo_reply env q inp (s\<lparr>ip_heap := h2\<rparr>); icmp6_free p s }"
    and h: "allocated (ip_heap s) h1 q [q] (4 + length data)" "same_shape h1 h2" "new_ram h1 q 54"
      "content h2 [q] = [ICMP6_TYPE_EREQ, code, c1, c2] @ data" "packet h2 p as"
      "\<forall>x \<in> set as. pblock h2 x \<noteq> q" "content h2 as = content (ip_heap s) as"
    using icmp6_input_echo_step [OF pkt b msg small dest fresh old] unfolding q_def by blast
  have q: "q \<noteq> 0" using fresh(1) by (simp add: fresh_def q_def)
  have pq: "packet h2 q [q]" "pblock h2 q = q"
    using h(1) by (simp_all add: allocated_def new_pbuf_def same_shape_packet [OF h(2)] same_shape_pblock [OF h(2)])
  obtain qb where qb: "pbufs h2 q = Some qb" "length (pdata h2 q) = unat (pb_len qb)"
    "unat (pb_tot_len qb) = unat (pb_len qb)"
    using packet_nonzero [OF pq(1) q] by auto
  have pd: "pdata h2 q = [ICMP6_TYPE_EREQ, code, c1, c2] @ data" using h(4) by simp
  then have len: "unat (pb_len qb) = 4 + length data" using qb(2) by simp
  have tl: "pb_tot_len qb = of_nat (4 + length data)"
    using qb(3) len small unat_of_nat_u16 [of "4 + length data"] by (simp only: word_unat_eq_iff)
  have other: "content g' as = content g as"
    if g: "mem_write g (pb_payload qb) off src = Some g'" "packet g q [q]" "pbufs g q = Some qb" "pblock g = pblock h2"
      "off + length src \<le> unat (pb_len qb)" for g g' off src
  proof -
    have rd: "readable g q" using g(2) by (rule packet_Cons)
    obtain g'' where "mem_write g (pb_payload qb) off src = Some g''"
      "\<And>c. pblock g c \<noteq> pblock g q \<Longrightarrow> pdata g'' c = pdata g c"
      using mem_write_pdata [OF rd g(3,5)] by blast
    then show ?thesis using g(1,4) h(6) pq(2) by (intro content_other) auto
  qed
  have wr: "\<exists>g'. mem_write g (pb_payload qb) off src = Some g' \<and> same_shape g g' \<and> packet g' q [q] \<and>
      pdata g' q = patch off src (pdata g q) \<and> pbufs g' q = Some qb \<and> pblock g' = pblock h2 \<and>
      packet g' p as \<and> content g' as = content g as"
    if g: "packet g q [q]" "pbufs g q = Some qb" "pblock g = pblock h2" "packet g p as"
      "off + length src \<le> unat (pb_len qb)" for g off src
  proof -
    obtain g' where g': "mem_write g (pb_payload qb) off src = Some g'" "same_shape g g'"
      "packet g' q [q]" "pdata g' q = patch off src (pdata g q)" "pbufs g' q = Some qb"
      by (rule write_first_pbuf [of g q "[]" qb off src]) (use g in simp_all)
    then show ?thesis
      using other [OF g'(1) g(1-3,5)] same_shape_packet [OF g'(2) g(4)] same_shape_pblock [OF g'(2)] g(3)
      by (intro exI [of _ g'] conjI) simp_all
  qed
  obtain h3 where h3: "mem_write h2 (pb_payload qb) 0 [ICMP6_TYPE_EREP] = Some h3" "packet h3 q [q]"
    "pdata h3 q = patch 0 [ICMP6_TYPE_EREP] (pdata h2 q)" "pbufs h3 q = Some qb" "pblock h3 = pblock h2" "packet h3 p as"
    "content h3 as = content h2 as"
    using wr [OF pq(1) qb(1) refl h(5), of 0 "[ICMP6_TYPE_EREP]"] len by auto
  obtain h4 where h4: "mem_write h3 (pb_payload qb) 2 (store16 0) = Some h4" "packet h4 q [q]"
    "pdata h4 q = patch 2 (store16 0) (pdata h3 q)" "pbufs h4 q = Some qb" "pblock h4 = pblock h2" "packet h4 p as"
    "content h4 as = content h3 as"
    using wr [OF h3(2,4,5,6), of 2 "store16 0"] len by auto
  obtain segs where segs: "pbuf_segments h4 q = Some segs" "chain_data segs = content h4 [q]" "u16_segments segs"
    by (rule pbuf_segments_packet [OF h4(2)])
  define c where "c = ip6_chksum_pseudo LWIP_CHKSUM segs IP6_NEXTH_ICMP6 (pb_tot_len qb) me peer"
  let ?ph = "pseudo_header (ip6_words me) (ip6_words peer) IP6_NEXTH_ICMP6 (of_nat (4 + length data))"
  have p4: "pdata h4 q = [ICMP6_TYPE_EREP, code] @ [0, 0] @ data"
    unfolding h4(3) h3(3) pd by (simp add: patch_def store16_0)
  have c: "unat c = 65535 - oc16 (le_sum ((?ph @ [ICMP6_TYPE_EREP, code]) @ [0, 0] @ data))"
    using v2.ip6_chksum_pseudo [OF segs(3), of IP6_NEXTH_ICMP6 "pb_tot_len qb" me peer] segs(2) p4
    unfolding c_def tl LWIP_CHKSUM_def by simp
  obtain h5 where h5: "mem_write h4 (pb_payload qb) 2 (store16 c) = Some h5" "packet h5 q [q]"
    "pdata h5 q = patch 2 (store16 c) (pdata h4 q)" "packet h5 p as" "content h5 as = content h4 as"
    "pbufs h5 q = Some qb"
    using wr [OF h4(2,4,5,6), of 2 "store16 c"] len by auto
  have p5: "pdata h5 q = [ICMP6_TYPE_EREP, code] @ store16 c @ data"
    unfolding h5(3) p4 by (simp add: patch_def)
  have v: "oc16 (le_sum ((?ph @ [ICMP6_TYPE_EREP, code]) @ store16 c @ data)) = 65535"
    by (rule stored_verifies [OF _ c]) (simp add: even_pseudo_header)
  have nr: "new_ram h5 q 54" using h(3) h5(6) qb(1) same_shape_pbufs [OF h(2)] by (simp add: new_ram_def)
  have "icmp6_echo_reply env q inp (s\<lparr>ip_heap := h2\<rparr>) =
    do {
      (err, s') \<leftarrow> ip6_output_if env q (Some me) (Some peer) 255 0 IP6_NEXTH_ICMP6 inp (s\<lparr>ip_heap := h5\<rparr>);
      icmp6_free q s'
    }"
    using qb(1) h3(1) h4(1) segs(1) h5(1)
    by (simp add: icmp6_echo_reply_def me_def peer_def c_def LWIP_ICMP6_HL_def)
  then show ?thesis
    using run nr h5 h4(7) h3(7) h(7) p5 v by (intro exI [of _ h5] exI [of _ c]) (simp add: bind_assoc split_def)
qed

end
