(* ===== verification/Lwip_Ip6_Ping.thy ===== *)
theory Lwip_Ip6_Ping
  imports Lwip_Ip6_Props
begin

text \<open>
  An IPv6 ping on its way through the stack: the header that is put in front of a new packet, the
  packet handed from \<^verbatim>\<open>ip6_input\<close> to ICMPv6, and both together.
\<close>

section \<open>Output\<close>

lemma req_heap_packet:
  assumes "q \<noteq> 0" "pb_next b = 0" "pb_payload b = VPtr q (length pre)" "unat (pb_len b) = length hdr + n" "n \<le> length msg"
    "pb_tot_len b = pb_len b" "hdr \<noteq> []"
  shows "packet (req_heap h q b pre hdr msg) q [q]" "content (req_heap h q b pre hdr msg) [q] = hdr @ take n msg"
proof -
  have "mem_read (req_heap h q b pre hdr msg) (pb_payload b) 0 (unat (pb_len b)) = Some (hdr @ take n msg)"
    using assms by (simp add: mem_read_def req_heap_def buf_read_def)
  then have "pdata (req_heap h q b pre hdr msg) q = hdr @ take n msg" "readable (req_heap h q b pre hdr msg) q"
    by (simp_all add: pdata_def readable_def)
  then show "packet (req_heap h q b pre hdr msg) q [q]" "content (req_heap h q b pre hdr msg) [q] = hdr @ take n msg"
    using assms by (simp_all add: packet_def)
qed

text \<open>A new pbuf as a block with room for the header in front of its data\<close>

lemma new_ram_block:
  assumes "new_ram h q 54" "packet h q [q]" "content h [q] \<noteq> []"
  obtains b pre hdr msg where "h = req_heap h q b pre hdr msg" "pbufs h q = Some b" "length pre = 38" "length hdr = 40"
    "pb_payload b = VPtr q 78" "pb_next b = 0" "pb_ref b = 1" "pb_type_internal b AND PBUF_TYPE_FLAG_STRUCT_DATA_CONTIGUOUS \<noteq> 0"
    "pb_tot_len b = pb_len b" "unat (pb_len b) \<le> length msg" "content h [q] = take (unat (pb_len b)) msg"
proof -
  obtain b where b: "pbufs h q = Some b" "pb_payload b = VPtr q 78" "pb_ref b = 1"
    "pb_type_internal b AND PBUF_TYPE_FLAG_STRUCT_DATA_CONTIGUOUS \<noteq> 0"
    using assms(1) by (auto simp: new_ram_def SIZEOF_STRUCT_PBUF_def)
  have p: "pb_next b = 0" "readable h q" "length (pdata h q) = unat (pb_len b)" "pb_tot_len b = pb_len b"
    using assms(2) b(1) length_pdata [of h q b] by (simp_all add: packet_def word_unat_eq_iff)
  then have len: "unat (pb_len b) \<noteq> 0" using assms(3) by (metis content_Cons content_Nil append_Nil2 length_0_conv)
  then obtain bs where bs: "blocks h q = Some bs" "78 + unat (pb_len b) \<le> length bs"
    using p(2) b(1,2) by (auto simp: readable_def mem_read_def buf_read_def bind_eq_Some_conv split: if_splits)
  have split: "bs = take 38 bs @ take 40 (drop 38 bs) @ drop 78 bs"
    using append_take_drop_id [of 40 "drop 38 bs"] append_take_drop_id [of 38 bs] by simp
  have "h = req_heap h q b (take 38 bs) (take 40 (drop 38 bs)) (drop 78 bs)"
    unfolding req_heap_def using split bs(1) b(1) by (simp add: fun_upd_idem)
  moreover have "content h [q] = take (unat (pb_len b)) (drop 78 bs)"
    using b(1,2) bs len by (simp add: pdata_def mem_read_def buf_read_def)
  ultimately show thesis
    using that [of b "take 38 bs" "take 40 (drop 38 bs)" "drop 78 bs"] b p bs by simp
qed

lemma ip6_output_new:
  assumes "new_ram (ip_heap s) q 54" "packet (ip_heap s) q [q]" "content (ip_heap s) [q] \<noteq> []"
    "length (content (ip_heap s) [q]) + 40 \<le> 65535" "\<not> ip6_addr_isany_val src"
    "ip6_addr_lacks_zone dest IP6_UNKNOWN \<Longrightarrow> ip6_addr_assign_zone dest IP6_UNKNOWN netif = dest"
    "\<not> (\<exists>(a, st) \<in> set (zip (netif_ip6_addr netif) (netif_ip6_addr_state netif)).
           ip6_addr_isvalid st \<and> ip6_addr_cmp dest (ip_2_ip6 a))"
    "\<And>t. netif_mtu6 netif = 0 \<or> length (content (ip_heap s) [q]) + 40 \<le> unat (e6_nd6_mtu env dest netif t)"
  shows "\<exists>h'. ip6_output_if env q (Some src) (Some dest) hl tc nexth netif s = e6_output env netif q dest (s\<lparr>ip_heap := h'\<rparr>) \<and>
    packet h' q [q] \<and>
    content h' [q] = ip6_hdr hl tc nexth (of_nat (length (content (ip_heap s) [q]))) src dest @ content (ip_heap s) [q]"
proof -
  let ?h = "ip_heap s"
  obtain b pre hdr msg where h: "?h = req_heap ?h q b pre hdr msg"
    and b: "pbufs ?h q = Some b" "length pre = 38" "length hdr = 40"
    "pb_payload b = VPtr q 78" "pb_next b = 0" "pb_ref b = 1" "pb_type_internal b AND PBUF_TYPE_FLAG_STRUCT_DATA_CONTIGUOUS \<noteq> 0"
    "pb_tot_len b = pb_len b" "unat (pb_len b) \<le> length msg" "content ?h [q] = take (unat (pb_len b)) msg"
    by (rule new_ram_block [OF assms(1-3)])
  have q: "q \<noteq> 0" using assms(2) by (auto simp: packet_def)
  have n: "length (content ?h [q]) = unat (pb_len b)" using b(9,10) by simp
  let ?b = "b\<lparr>pb_payload := VPtr q 38, pb_len := pb_len b + 40, pb_tot_len := pb_len b + 40\<rparr>"
  have add: "pbuf_add_header ?h q IP6_HLEN = Some (0, req_heap ?h q ?b pre hdr msg)"
    using req_heap_add_header [OF q b(7,4), of 40 ?h pre hdr msg] assms(4) b(8) n
    by (simp add: IP6_HLEN_def SIZEOF_STRUCT_PBUF_def flip: h)
  let ?hdr = "ip6_hdr hl tc nexth (pb_len b) src dest"
  have lh: "length ?hdr = 40" by (simp add: ip6_hdr_def ip6_addr_packed_def ip6_words_def)
  have "mem_write (req_heap ?h q ?b pre hdr msg) (VPtr q (length pre)) 0 ?hdr = Some (req_heap ?h q ?b pre (patch 0 ?hdr hdr) msg)"
    by (rule req_heap_hdr) (use lh b(3) in auto)
  moreover have "patch 0 ?hdr hdr = ?hdr" using lh b(3) by (simp add: patch_def)
  ultimately have wr: "mem_write (req_heap ?h q ?b pre hdr msg) (VPtr q 38) 0 ?hdr = Some (req_heap ?h q ?b pre ?hdr msg)"
    by (simp add: b(2))
  have u: "unat (pb_len b + 40) = unat (pb_len b) + 40"
    using unat_add_u16_small [of "pb_len b" 40] assms(4) n by simp
  have mtu: "\<not> (netif_mtu6 netif \<noteq> 0 \<and> pb_len b + 40 > e6_nd6_mtu env dest netif t)" for t
    using assms(8) [of t] u n by (auto simp: word_less_nat_alt)
  have "(of_nat (length (content ?h [q])) :: u16) = pb_len b" unfolding n by simp
  moreover have "packet (req_heap ?h q ?b pre ?hdr msg) q [q]"
    "content (req_heap ?h q ?b pre ?hdr msg) [q] = ?hdr @ content ?h [q]"
    using req_heap_packet [of q ?b pre ?hdr "unat (pb_len b)" msg ?h] q b lh u by (auto simp flip: length_0_conv)
  moreover have "ip6_output_if env q (Some src) (Some dest) hl tc nexth netif s =
    e6_output env netif q dest (s\<lparr>ip_heap := req_heap ?h q ?b pre ?hdr msg\<rparr>)"
  proof -
    have z: "(if ip6_addr_lacks_zone dest IP6_UNKNOWN then ip6_addr_assign_zone dest IP6_UNKNOWN netif else dest) = dest" using assms(6) by simp
    have "IP6_HLEN \<le> unat (pb_len b + 40)" using u by (simp add: IP6_HLEN_def)
    then have "ip6_output_if env q (Some src) (Some dest) hl tc nexth netif s =
      ip6_send env q dest netif (s\<lparr>ip_heap := req_heap ?h q ?b pre ?hdr msg\<rparr>)"
      using assms(5) b(1,6) add wr
      by (simp add: ip6_output_if_def ip6_output_if_src_def z Let_def) (simp add: IP6_HLEN_def wr)
    then show ?thesis using assms(7) mtu by (simp add: ip6_send_def)
  qed
  ultimately show ?thesis by (intro exI [of _ "req_heap ?h q ?b pre ?hdr msg"] conjI) (simp_all only:)
qed

section \<open>Input\<close>

text \<open>The addresses of a header with the zones of the interface, and what IP leaves in the globals.\<close>

definition ip6_dest_of :: "netif \<Rightarrow> u8 list \<Rightarrow> ip6_addr_t" where
  "ip6_dest_of inp hdr = ip6_addr_assign_zone (ip6_addr_from_packed hdr 24) IP6_UNKNOWN inp"

definition ip6_src_of :: "netif \<Rightarrow> u8 list \<Rightarrow> ip6_addr_t" where
  "ip6_src_of inp hdr = ip6_addr_assign_zone (ip6_addr_from_packed hdr 8) IP6_UNICAST inp"

definition ip6_globals :: "netif \<Rightarrow> vptr \<Rightarrow> u8 list \<Rightarrow> ip_globals \<Rightarrow> ip_globals" where
  "ip6_globals inp ip6hdr hdr g = g\<lparr>
     current_iphdr_dest := (current_iphdr_dest g)\<lparr>ip_type := IPADDR_TYPE_V6, u_addr := ip6_dest_of inp hdr\<rparr>,
     current_iphdr_src := (current_iphdr_src g)\<lparr>ip_type := IPADDR_TYPE_V6, u_addr := ip6_src_of inp hdr\<rparr>,
     current_ip6_header := ip6hdr, current_input_netif := Some inp, current_netif := Some inp,
     current_ip_header_tot_len := 40\<rparr>"

lemma ip6h_take [simp]:
  "4 \<le> n \<Longrightarrow> IP6H_V (take n hdr) = IP6H_V hdr" "6 \<le> n \<Longrightarrow> IP6H_PLEN (take n hdr) = IP6H_PLEN hdr"
  "40 \<le> n \<Longrightarrow> ip6_addr_from_packed (take n hdr) 8 = ip6_addr_from_packed hdr 8"
  "40 \<le> n \<Longrightarrow> ip6_addr_from_packed (take n hdr) 24 = ip6_addr_from_packed hdr 24"
  by (simp_all add: IP6H_V_def IP6H_PLEN_def ip6_addr_from_packed_def ldf32_def ldf16_def)

lemma ip6h_append [simp]:
  "length hdr = 40 \<Longrightarrow> IP6H_V (hdr @ msg) = IP6H_V hdr" "length hdr = 40 \<Longrightarrow> IP6H_PLEN (hdr @ msg) = IP6H_PLEN hdr"
  by (simp_all add: IP6H_V_def IP6H_PLEN_def ldf32_def ldf16_def nth_append)

lemma mem_read_put_pbuf: "mem_read (put_pbuf h p b) v off n = mem_read h v off n"
  by (cases v) (simp_all add: mem_read_def put_pbuf_def)

lemma pbuf_add_header_force_contiguous:
  assumes "pbufs h p = Some b" "pb_type_internal b AND PBUF_TYPE_FLAG_STRUCT_DATA_CONTIGUOUS \<noteq> 0"
  shows "pbuf_add_header_force h p n = pbuf_add_header h p n"
  using assms by (simp add: pbuf_add_header_def pbuf_add_header_force_def pbuf_add_header_impl_def)

text \<open>An ICMPv6 packet without extension headers that no raw PCB wants goes to ICMPv6.\<close>

lemma ip6_input_icmp6:
  assumes pkt: "packet (ip_heap s) p as" "p \<noteq> 0" "pbufs (ip_heap s) p = Some b"
    and room: "pb_payload b = VPtr p d" "SIZEOF_STRUCT_PBUF \<le> d"
      "pb_type_internal b AND PBUF_TYPE_FLAG_STRUCT_DATA_CONTIGUOUS \<noteq> 0"
    and len: "40 \<le> unat (pb_len b)" "content (ip_heap s) as = hdr @ msg" "length hdr = 40"
    and hdr: "IP6H_V hdr = 6" "IP6H_NEXTH hdr = IP6_NEXTH_ICMP6" "unat (IP6H_PLEN hdr) = length msg"
    and dest: "\<not> ip6_addr_isipv4mappedipv6 (ip6_dest_of inp hdr)" "\<not> ip6_addr_ismulticast (ip6_dest_of inp hdr)"
    and src: "\<not> ip6_addr_isipv4mappedipv6 (ip6_src_of inp hdr)" "\<not> ip6_addr_ismulticast (ip6_src_of inp hdr)"
      "\<not> ip6_addr_isany_val (ip6_src_of inp hdr)"
    and raw: "\<And>t. env_raw_input (e6_ip env) p inp t = Some (0, t)"
  shows "\<exists>b'. ip6_input env m p inp s = do {
      t \<leftarrow> icmp6_input env p inp (s\<lparr>ip_data := ip6_globals inp (VPtr p d) hdr (ip_data s), ip_heap := put_pbuf (ip_heap s) p b'\<rparr>);
      Some (ERR_OK, ip6_input_done t) } \<and>
    packet (put_pbuf (ip_heap s) p b') p as \<and> content (put_pbuf (ip_heap s) p b') as = msg \<and>
    unat (pb_len b') = unat (pb_len b) - 40 \<and> pb_payload b' = VPtr p (d + 40)"
proof -
  let ?h = "ip_heap s"
  let ?v = "VPtr p d"
  define b' where "b' = b\<lparr>pb_payload := VPtr p (d + 40), pb_len := pb_len b - 40, pb_tot_len := pb_tot_len b - 40\<rparr>"
  obtain bs where bs: "as = p # bs" "readable ?h p" "length (pdata ?h p) = unat (pb_len b)" "unat (pb_tot_len b) = length (content ?h as)"
  proof -
    obtain b0 bs where "as = p # bs" "pbufs ?h p = Some b0" "readable ?h p" "length (pdata ?h p) = unat (pb_len b0)"
      "unat (pb_tot_len b0) = unat (pb_len b0) + length (content ?h bs)"
      by (rule packet_nonzero [OF pkt(1,2)])
    then show thesis using pkt(3) by (intro that) simp_all
  qed
  have tot: "unat (pb_tot_len b) = 40 + length msg" using bs(4) len by simp
  have le: "pb_len b \<le> pb_tot_len b" using bs(1,3,4) by (simp add: word_le_nat_alt)
  have hp: "take 40 (pdata ?h p) = hdr"
    using arg_cong [OF len(2), of "take 40"] bs(1,3) len(1,3) by simp
  have rd: "mem_read ?h ?v off n = Some (take n (drop off hdr))" if "off + n \<le> 40" for off n
  proof -
    have "mem_read ?h (pb_payload b) off n = Some (take n (drop off (pdata ?h p)))"
      by (rule mem_read_pdata [OF bs(2) pkt(3)]) (use that len(1) in simp)
    moreover have "take n (drop off (pdata ?h p)) = take n (drop off (take 40 (pdata ?h p)))"
      using that by (simp add: drop_take min_def)
    ultimately show ?thesis using room(1) hp by simp
  qed
  have rd': "mem_read (put_pbuf ?h p x) ?v off n = Some (take n (drop off hdr))" if "off + n \<le> 40" for off n x
    using rd [OF that] by (simp only: mem_read_put_pbuf)
  have nx: "mem_read (put_pbuf ?h p x) (VPtr p (d + 6)) 0 1 = Some [IP6_NEXTH_ICMP6]" for x
  proof -
    have "mem_read (put_pbuf ?h p x) (VPtr p (d + 6)) 0 1 = mem_read (put_pbuf ?h p x) ?v 6 1"
      by (simp add: mem_read_def)
    also have "\<dots> = Some [hdr ! 6]" using rd' [of 6 1 x] len(3) by (simp add: take_Suc_conv_app_nth hd_drop_conv_nth take_Suc)
    finally show ?thesis using hdr(2) by (simp add: IP6H_NEXTH_def)
  qed
  have same: "put_pbuf ?h p b = ?h" using pkt(3) by (rule put_pbuf_same)
  have rem: "pbuf_remove_header ?h p 40 = Some (0, put_pbuf ?h p b')"
    using pkt(2,3) room(1) len(1) by (simp add: pbuf_remove_header_def b'_def word_le_nat_alt Let_def)
  have pk': "packet (put_pbuf ?h p b') p as" "content (put_pbuf ?h p b') as = msg"
    using pbuf_remove_header_packet [OF pkt, of 40] len rem by auto
  have add: "pbuf_add_header_force (put_pbuf ?h p b') p 40 = Some (0, ?h)"
  proof -
    have "pbuf_add_header (put_pbuf ?h p b') p 40 = Some (0, ?h)"
      using pbuf_add_header_remove [OF pkt(3,2) room len(1) le] rem by auto
    then show ?thesis using room(3)
      by (subst pbuf_add_header_force_contiguous [where b = b']) (simp_all add: b'_def)
  qed
  let ?g = "ip6_globals inp ?v hdr (ip_data s)"
  have l40: "unat (40 + IP6H_PLEN hdr) = 40 + length msg"
    using unat_add_u16_small [of 40 "IP6H_PLEN hdr"] hdr(3) tot unat_u16_less [of "pb_tot_len b"] by simp
  then have re: "pbuf_realloc ?h p (40 + IP6H_PLEN hdr) = Some ?h"
    using pkt(2,3) tot by (simp add: pbuf_realloc_def word_le_nat_alt)
  note protos = IP6_NEXTH_ICMP6_def IP6_NEXTH_NONE_def IP6_NEXTH_UDP_def IP6_NEXTH_TCP_def IP6_NEXTH_HOPBYHOP_def
    IP6_NEXTH_DESTOPTS_def IP6_NEXTH_ROUTING_def IP6_NEXTH_FRAGMENT_def
  have deliver: "ip6_deliver env m p inp ?v (VPtr p (d + 6)) 40 (t\<lparr>ip_heap := put_pbuf ?h p b'\<rparr>) =
      icmp6_input env p inp (t\<lparr>ip_data := (ip_data t)\<lparr>current_ip_header_tot_len := 40\<rparr>, ip_heap := put_pbuf ?h p b'\<rparr>)" for t
    using nx [of b'] add rem raw by (simp add: ip6_deliver_def RAW_INPUT_EATEN_def protos)
  have headers: "ip6_headers env p ?v (VPtr p (d + 6)) 40 (t\<lparr>ip_heap := put_pbuf ?h p b'\<rparr>) =
      Some (Inr (p, ?v, VPtr p (d + 6), 40, t\<lparr>ip_heap := put_pbuf ?h p b'\<rparr>))" for t :: "'a reass_state_scheme"
    using nx [of b'] by (subst ip6_headers.simps) (simp add: protos)
  have pay: "payload_of ?h p = Some ?v" using pkt(3) room(1) by (simp add: payload_of_def)
  have nf: "ip6_input_netif inp t = Some inp" if "ip_2_ip6 (current_iphdr_dest (ip_data t)) = ip6_dest_of inp hdr"
    for t :: "'a reass_state_scheme"
    using dest(2) that by (simp add: ip6_input_netif_def ip6_input_accept_def TUN2SOCKS_def)
  have raw_addr: "ip6_addr_isipv4mappedipv6 (ip6_addr_assign_zone a type inp) = ip6_addr_isipv4mappedipv6 a"
    "ip6_addr_ismulticast (ip6_addr_assign_zone a type inp) = ip6_addr_ismulticast a" for a type
    by (simp_all add: ip6_addr_isipv4mappedipv6_def ip6_addr_assign_zone_def ip6_addr_ismulticast_def)
  have rd40: "mem_read ?h ?v 0 n = Some (take n hdr)" if "n \<le> 40" for n using rd [of 0 n] that by simp
  have fit: "\<not> 40 > unat (pb_len b)" "\<not> int (unat (IP6H_PLEN hdr)) > int (unat (pb_tot_len b)) - 40" using len(1) hdr(3) tot by simp_all
  have ok: "\<not> (ip6_addr_isipv4mappedipv6 (ip6_addr_from_packed hdr 24) \<or> ip6_addr_isipv4mappedipv6 (ip6_addr_from_packed hdr 8) \<or>
      ip6_addr_ismulticast (ip6_addr_from_packed hdr 8))"
    using dest(1) src(1,2) by (simp add: ip6_dest_of_def ip6_src_of_def raw_addr)
  have us: "ip6_input_for_us env m p inp ?v t =
      icmp6_input env p inp (t\<lparr>ip_data := (ip_data t)\<lparr>current_netif := Some inp, current_ip_header_tot_len := 40\<rparr>, ip_heap := put_pbuf ?h p b'\<rparr>)"
    if t: "ip_heap t = ?h" "ip_2_ip6 (current_iphdr_dest (ip_data t)) = ip6_dest_of inp hdr"
      "ip_2_ip6 (current_iphdr_src (ip_data t)) = ip6_src_of inp hdr" for t :: "'a reass_state_scheme"
    using src(3) rem headers deliver
    by (simp add: ip6_input_for_us_def nf [OF t(2)] t Let_def IP6_HLEN_def Lwip_Ip4_Output.vptr_add_def)
  have "ip6_input env m p inp s = do {
      t \<leftarrow> icmp6_input env p inp (s\<lparr>ip_data := ?g, ip_heap := put_pbuf ?h p b'\<rparr>);
      Some (ERR_OK, ip6_input_done t) }"
    using pkt(3) fit ok hdr(1) re
    by (simp add: ip6_input_def pay rd40 IP6_HLEN_def ip6_addr_set_packed_def ip_2_ip6_def us Let_def
        ip6_globals_def ip6_dest_of_def ip6_src_of_def)
  moreover have "unat (pb_len b') = unat (pb_len b) - 40" "pb_payload b' = VPtr p (d + 40)"
    using len(1) unat_sub [of 40 "pb_len b"] by (simp_all add: b'_def word_le_nat_alt)
  ultimately show ?thesis using pk' by (intro exI [of _ b']) simp
qed

section \<open>A ping\<close>

text \<open>The source of a packet has the zone that sending to it would assign.\<close>

lemma ip6_src_zoned:
  assumes "\<not> ip6_addr_ismulticast (ip6_src_of inp hdr)" "ip6_addr_lacks_zone (ip6_src_of inp hdr) IP6_UNKNOWN"
  shows "ip6_addr_assign_zone (ip6_src_of inp hdr) IP6_UNKNOWN inp = ip6_src_of inp hdr"
proof -
  let ?a = "ip6_addr_from_packed hdr 8"
  have mc: "ip6_addr_ismulticast a" if "ip6_addr_ismulticast_iflocal a \<or> ip6_addr_ismulticast_linklocal a" for a
  proof -
    have "lwip_htonl 0xff8f0000 = (0x8fff :: u32)" "lwip_htonl 0xff010000 = (0x1ff :: u32)" "lwip_htonl 0xff020000 = (0x2ff :: u32)"
      "lwip_htonl 0xff000000 = (0xff :: u32)" by code_simp+
    note h = this
    have "ip6_a0 a AND 0x8fff = 0x1ff \<or> ip6_a0 a AND 0x8fff = 0x2ff"
      using that unfolding ip6_addr_ismulticast_iflocal_def ip6_addr_ismulticast_linklocal_def h .
    then have "(ip6_a0 a AND 0x8fff) AND 0xff = 0xff" by (elim disjE) (simp only:, simp)+
    then show ?thesis unfolding ip6_addr_ismulticast_def h by (simp add: ac_simps)
  qed
  have z: "ip6_addr_ismulticast (a\<lparr>ip6_zone := n\<rparr>) = ip6_addr_ismulticast a"
    "ip6_addr_islinklocal (a\<lparr>ip6_zone := n\<rparr>) = ip6_addr_islinklocal a" for a n
    by (simp_all add: ip6_addr_ismulticast_def ip6_addr_islinklocal_def)
  have sc: "ip6_addr_has_scope (ip6_src_of inp hdr) IP6_UNKNOWN" using assms(2) by (simp add: ip6_addr_lacks_zone_def)
  then have "ip6_addr_islinklocal (ip6_src_of inp hdr)" using assms(1) mc unfolding ip6_addr_has_scope_def by blast
  then have "ip6_addr_islinklocal ?a" by (simp add: ip6_src_of_def ip6_addr_assign_zone_def z)
  then have "ip6_addr_has_scope ?a IP6_UNICAST" by (simp add: ip6_addr_has_scope_def)
  then show ?thesis using sc by (simp add: ip6_addr_assign_zone_def ip6_src_of_def)
qed

lemma fresh_put_pbuf:
  assumes "fresh h" "pbufs h p = Some b"
  shows "fresh (put_pbuf h p c)"
  using assms by (auto simp: fresh_def put_pbuf_def)

text \<open>C15: An IPv6 ping to any unicast address is answered by the stack itself, through \<^verbatim>\<open>ip6_input\<close>, ICMPv6 and the
  output: exactly one new packet goes to the sender. Its header has the address that was asked for as
  the source, the hop limit 255 and the right length; its message has the data of the request and a
  checksum that verifies together with the pseudo header. Then both packets are freed.\<close>

theorem ip6_input_answers_ping:
  assumes pkt: "packet (ip_heap s) p as" "p \<noteq> 0" "pbufs (ip_heap s) p = Some b" "nonempty (ip_heap s) as"
    and room: "pb_payload b = VPtr p d" "SIZEOF_STRUCT_PBUF \<le> d"
      "pb_type_internal b AND PBUF_TYPE_FLAG_STRUCT_DATA_CONTIGUOUS \<noteq> 0"
    and msg: "content (ip_heap s) as = hdr @ [ICMP6_TYPE_EREQ, code, c1, c2] @ data"
    and len: "48 \<le> unat (pb_len b)" "length hdr = 40" "length data + 58 < 65536"
    and hdr: "IP6H_V hdr = 6" "IP6H_NEXTH hdr = IP6_NEXTH_ICMP6" "unat (IP6H_PLEN hdr) = 4 + length data"
    and dest: "\<not> ip6_addr_isipv4mappedipv6 (ip6_dest_of inp hdr)" "\<not> ip6_addr_ismulticast (ip6_dest_of inp hdr)"
      "\<not> ip6_addr_isany_val (ip6_dest_of inp hdr)"
    and src: "\<not> ip6_addr_isipv4mappedipv6 (ip6_src_of inp hdr)" "\<not> ip6_addr_ismulticast (ip6_src_of inp hdr)"
      "\<not> ip6_addr_isany_val (ip6_src_of inp hdr)"
    and remote: "\<not> (\<exists>(a, st) \<in> set (zip (netif_ip6_addr inp) (netif_ip6_addr_state inp)).
           ip6_addr_isvalid st \<and> ip6_addr_cmp (ip6_src_of inp hdr) (ip_2_ip6 a))"
    and mtu: "\<And>t. netif_mtu6 inp = 0 \<or> length data + 44 \<le> unat (e6_nd6_mtu env (ip6_src_of inp hdr) inp t)"
    and fresh: "fresh (ip_heap s)" "malloc_ok (ip_heap s) (nxt_addr (ip_heap s))"
    and old: "\<forall>x \<in> set as. pblock (ip_heap s) x < nxt_addr (ip_heap s)"
    and raw: "\<And>t. env_raw_input (e6_ip env) p inp t = Some (0, t)"
  shows "\<exists>h' g c. ip6_input env m p inp s = do {
      (e, t) \<leftarrow> e6_output env inp (nxt_addr (ip_heap s)) (ip6_src_of inp hdr) (s\<lparr>ip_data := g, ip_heap := h'\<rparr>);
      t \<leftarrow> icmp6_free (nxt_addr (ip_heap s)) t;
      t \<leftarrow> icmp6_free p t;
      Some (ERR_OK, ip6_input_done t) } \<and>
    packet h' (nxt_addr (ip_heap s)) [nxt_addr (ip_heap s)] \<and>
    content h' [nxt_addr (ip_heap s)] =
      ip6_hdr 255 0 IP6_NEXTH_ICMP6 (of_nat (4 + length data)) (ip6_dest_of inp hdr) (ip6_src_of inp hdr) @
      [ICMP6_TYPE_EREP, code] @ store16 c @ data \<and>
    oc16 (le_sum (pseudo_header (ip6_words (ip6_dest_of inp hdr)) (ip6_words (ip6_src_of inp hdr)) IP6_NEXTH_ICMP6
      (of_nat (4 + length data)) @ [ICMP6_TYPE_EREP, code] @ store16 c @ data)) = 65535"
proof -
  let ?h = "ip_heap s" and ?me = "ip6_dest_of inp hdr" and ?peer = "ip6_src_of inp hdr"
  let ?q = "nxt_addr ?h" and ?g = "ip6_globals inp (VPtr p d) hdr (ip_data s)"
  have l: "40 \<le> unat (pb_len b)" "unat (IP6H_PLEN hdr) = length ([ICMP6_TYPE_EREQ, code, c1, c2] @ data)"
    using len(1) hdr(3) by simp_all
  obtain b' where run: "ip6_input env m p inp s = do {
      t \<leftarrow> icmp6_input env p inp (s\<lparr>ip_data := ?g, ip_heap := put_pbuf ?h p b'\<rparr>);
      Some (ERR_OK, ip6_input_done t) }"
    and b': "packet (put_pbuf ?h p b') p as" "content (put_pbuf ?h p b') as = [ICMP6_TYPE_EREQ, code, c1, c2] @ data"
      "unat (pb_len b') = unat (pb_len b) - 40" "pb_payload b' = VPtr p (d + 40)"
    using ip6_input_icmp6 [OF pkt(1-3) room l(1) msg len(2) hdr(1,2) l(2) dest(1,2) src raw] by blast
  let ?t = "s\<lparr>ip_data := ?g, ip_heap := put_pbuf ?h p b'\<rparr>"
  obtain bs where bs: "as = p # bs" by (rule packet_nonzero [OF pkt(1,2)])
  have np: "p \<notin> set bs" using packet_distinct [OF pkt(1)] bs by simp
  have pd: "pdata (put_pbuf ?h p b') x = pdata ?h x" "pblock (put_pbuf ?h p b') x = pblock ?h x" if "x \<noteq> p" for x
    using that by (simp_all add: pdata_def pblock_def mem_read_put_pbuf split: option.split)
  have "length (pdata (put_pbuf ?h p b') p) = unat (pb_len b')"
  proof -
    obtain b0 where "pbufs (put_pbuf ?h p b') p = Some b0" "length (pdata (put_pbuf ?h p b') p) = unat (pb_len b0)"
      by (rule packet_nonzero [OF b'(1) pkt(2)])
    then show ?thesis by simp
  qed
  then have "pdata (put_pbuf ?h p b') p \<noteq> []" using b'(3) len(1) by auto
  moreover have "nonempty (put_pbuf ?h p b') bs"
    using pkt(4) np pd unfolding bs nonempty_def list_all_iff by (metis list.set_intros(2))
  ultimately have ne: "nonempty (ip_heap ?t) as" unfolding bs by simp
  have bk: "\<forall>x \<in> set as. pblock (ip_heap ?t) x < nxt_addr (ip_heap ?t)"
    using old np pd(2) b'(4) pkt(3) room(1) unfolding bs by (auto simp: pblock_def)
  have addr: "ip_2_ip6 (current_iphdr_dest (ip_data ?t)) = ?me" "ip_2_ip6 (current_iphdr_src (ip_data ?t)) = ?peer"
    by (simp_all add: ip6_globals_def ip_2_ip6_def)
  have hp: "pbufs (ip_heap ?t) p = Some b'" "8 \<le> unat (pb_len b')" "packet (ip_heap ?t) p as"
    "content (ip_heap ?t) as = [ICMP6_TYPE_EREQ, code, c1, c2] @ data" "fresh (ip_heap ?t)"
    "malloc_ok (ip_heap ?t) (nxt_addr (ip_heap ?t))" "nxt_addr (ip_heap ?t) = ?q"
    using b' len(1) fresh fresh_put_pbuf [OF fresh(1) pkt(3)] by (simp_all add: put_pbuf_def)
  have nm: "\<not> ip6_addr_ismulticast (ip_2_ip6 (current_iphdr_dest (ip_data ?t)))" unfolding addr(1) by (rule dest(2))
  let ?n = "of_nat (4 + length data) :: u16"
  obtain h1 c where icmp: "icmp6_input env p inp ?t =
      do {
        (e, t) \<leftarrow> ip6_output_if env ?q (Some ?me) (Some ?peer) 255 0 IP6_NEXTH_ICMP6 inp (?t\<lparr>ip_heap := h1\<rparr>);
        t \<leftarrow> icmp6_free ?q t;
        icmp6_free p t
      }" and h1: "new_ram h1 ?q 54" "packet h1 ?q [?q]" "content h1 [?q] = [ICMP6_TYPE_EREP, code] @ store16 c @ data"
      "oc16 (le_sum (pseudo_header (ip6_words ?me) (ip6_words ?peer) IP6_NEXTH_ICMP6 ?n @ content h1 [?q])) = 65535"
    using icmp6_input_echo [OF hp(3) pkt(2) ne hp(1,2,4) len(3) nm hp(5,6) bk, of env inp] unfolding hp(7) addr
    by (elim exE conjE) (rule that)
  have cl: "length (content h1 [?q]) = 4 + length data" unfolding h1(3) by simp
  have cne: "content h1 [?q] \<noteq> []" unfolding h1(3) by simp
  let ?u = "?t\<lparr>ip_heap := h1\<rparr>"
  have u: "new_ram (ip_heap ?u) ?q 54" "packet (ip_heap ?u) ?q [?q]" "content (ip_heap ?u) [?q] \<noteq> []"
    "length (content (ip_heap ?u) [?q]) + 40 \<le> 65535" using h1(1,2) cne cl len(3) by (simp_all del: content_Cons)
  have mtu': "netif_mtu6 inp = 0 \<or> length (content (ip_heap ?u) [?q]) + 40 \<le> unat (e6_nd6_mtu env ?peer inp t)" for t
    using mtu [of t] cl by (simp del: content_Cons add: add.commute)
  obtain h2 where out: "ip6_output_if env ?q (Some ?me) (Some ?peer) 255 0 IP6_NEXTH_ICMP6 inp ?u =
      e6_output env inp ?q ?peer (?u\<lparr>ip_heap := h2\<rparr>)"
    and h2: "packet h2 ?q [?q]"
      "content h2 [?q] = ip6_hdr 255 0 IP6_NEXTH_ICMP6 (of_nat (length (content (ip_heap ?u) [?q]))) ?me ?peer @ content (ip_heap ?u) [?q]"
    using ip6_output_new [OF u dest(3) ip6_src_zoned [OF src(2)] remote mtu', of 255 0 IP6_NEXTH_ICMP6] by blast
  have c2: "content h2 [?q] = ip6_hdr 255 0 IP6_NEXTH_ICMP6 ?n ?me ?peer @ [ICMP6_TYPE_EREP, code] @ store16 c @ data"
    using h2(2) unfolding ip_state.select_convs ip_state.update_convs cl h1(3) by (simp del: content_Cons add: cl h1(3))
  have "ip6_input env m p inp s = do {
      (e, t) \<leftarrow> e6_output env inp ?q ?peer (s\<lparr>ip_data := ?g, ip_heap := h2\<rparr>);
      t \<leftarrow> icmp6_free ?q t;
      t \<leftarrow> icmp6_free p t;
      Some (ERR_OK, ip6_input_done t) }"
    unfolding run icmp out by (simp add: case_prod_unfold)
  then show ?thesis using h2(1) c2 h1(4) unfolding h1(3) by (intro exI [of _ h2] exI [of _ ?g] exI [of _ c] conjI)
qed

text \<open>A ping of twelve bytes in one pbuf, from 2001:4860::700:0 to 2001:db8::200:0.\<close>

definition demo_hdr6 :: "u8 list" where
  "demo_hdr6 = [0x60, 0, 0, 0, 0, 12, 58, 64, 0x20, 1, 0x48, 0x60, 0, 0, 0, 0, 0, 0, 0, 0, 7, 0, 0, 0,
     0x20, 1, 0xd, 0xb8, 0, 0, 0, 0, 0, 0, 0, 0, 2, 0, 0, 0]"

definition demo_pbuf6 :: pbuf where
  "demo_pbuf6 = \<lparr>pb_next = 0, pb_payload = VPtr 3 24, pb_tot_len = 52, pb_len = 52,
     pb_type_internal = 0x80, pb_flags = 0, pb_ref = 1, pb_if_idx = 0, pb_custom = None\<rparr>"

definition demo_echo6 :: heap where
  "demo_echo6 = demo_dgram\<lparr>pbufs := [3 \<mapsto> demo_pbuf6],
     blocks := [3 \<mapsto> replicate 24 0 @ demo_hdr6 @ [128, 0, 7, 9, 0, 1, 0, 2, 10, 20, 30, 40]]\<rparr>"

definition demo_host6 :: tcp_state where
  "demo_host6 = demo_tcp\<lparr>ip_heap := demo_echo6\<rparr>"

definition demo_env6 :: "'s ip6_env" where
  "demo_env6 = \<lparr>e6_ip = demo_env, e6_output = \<lambda>_ _ _ s. Some (ERR_OK, s), e6_nd6_mtu = \<lambda>_ _ _. 1500,
     e6_nd6_input = \<lambda>_ _. Some, e6_reass = \<lambda>p s. Some (p, s)\<rparr>"

lemma demo_hdr6_simps: "length demo_hdr6 = 40" "IP6H_V demo_hdr6 = 6" "IP6H_NEXTH demo_hdr6 = IP6_NEXTH_ICMP6"
  "unat (IP6H_PLEN demo_hdr6) = 4 + length [0 :: u8, 1, 0, 2, 10, 20, 30, 40]"
  "ip6_dest_of demo_netif6 demo_hdr6 = u_addr (demo_ip6 0xb80d0120 2)"
  "ip6_src_of demo_netif6 demo_hdr6 = u_addr (demo_ip6 0x60480120 7)"
  by (simp add: demo_hdr6_def, code_simp, simp add: demo_hdr6_def IP6H_NEXTH_def IP6_NEXTH_ICMP6_def, code_simp+)

lemma demo_hdr6_addr: "\<not> ip6_addr_isipv4mappedipv6 (u_addr (demo_ip6 0xb80d0120 2))"
  "\<not> ip6_addr_ismulticast (u_addr (demo_ip6 0xb80d0120 2))" "\<not> ip6_addr_isany_val (u_addr (demo_ip6 0xb80d0120 2))"
  "\<not> ip6_addr_isipv4mappedipv6 (u_addr (demo_ip6 0x60480120 7))" "\<not> ip6_addr_ismulticast (u_addr (demo_ip6 0x60480120 7))"
  "\<not> ip6_addr_isany_val (u_addr (demo_ip6 0x60480120 7))"
  by code_simp+

lemma demo_echo6_facts: "packet demo_echo6 3 [3]" "nonempty demo_echo6 [3]" "fresh demo_echo6" "nxt_addr demo_echo6 = 4"
  "malloc_ok demo_echo6 a" "pblock demo_echo6 3 = 3" "pbufs demo_echo6 3 = Some demo_pbuf6"
  "content demo_echo6 [3] = demo_hdr6 @ [ICMP6_TYPE_EREQ, 0, 7, 9] @ [0, 1, 0, 2, 10, 20, 30, 40]"
  by (simp_all add: packet_def demo_echo6_def demo_dgram_def pdata_def readable_def mem_read_def buf_read_def fresh_def
      pblock_def demo_pbuf6_def demo_hdr6_def ICMP6_TYPE_EREQ_def)

theorem ip6_input_answers_ping_witness:
  "\<exists>h' g c. ip6_input demo_env6 (\<lambda>_ _. False) 3 demo_netif6 demo_host6 = do {
      t \<leftarrow> icmp6_free 4 (demo_host6\<lparr>ip_data := g, ip_heap := h'\<rparr>);
      t \<leftarrow> icmp6_free 3 t;
      Some (ERR_OK, ip6_input_done t) } \<and>
    content h' [4] = ip6_hdr 255 0 IP6_NEXTH_ICMP6 12 (u_addr (demo_ip6 0xb80d0120 2)) (u_addr (demo_ip6 0x60480120 7)) @
      [129, 0] @ store16 c @ [0, 1, 0, 2, 10, 20, 30, 40]"
proof -
  note f = demo_echo6_facts and d = demo_hdr6_simps
  have h: "ip_heap demo_host6 = demo_echo6" by (simp add: demo_host6_def)
  have b: "pb_payload demo_pbuf6 = VPtr 3 24" "SIZEOF_STRUCT_PBUF \<le> 24"
    "pb_type_internal demo_pbuf6 AND PBUF_TYPE_FLAG_STRUCT_DATA_CONTIGUOUS \<noteq> 0" "48 \<le> unat (pb_len demo_pbuf6)"
    by (simp_all add: demo_pbuf6_def SIZEOF_STRUCT_PBUF_def PBUF_TYPE_FLAG_STRUCT_DATA_CONTIGUOUS_def)
  have len: "length [0 :: u8, 1, 0, 2, 10, 20, 30, 40] + 58 < 65536" by simp
  have remote: "\<not> (\<exists>(a, st) \<in> set (zip (netif_ip6_addr demo_netif6) (netif_ip6_addr_state demo_netif6)).
      ip6_addr_isvalid st \<and> ip6_addr_cmp (u_addr (demo_ip6 0x60480120 7)) (ip_2_ip6 a))"
    by code_simp
  have mtu: "netif_mtu6 demo_netif6 = 0 \<or>
      length [0 :: u8, 1, 0, 2, 10, 20, 30, 40] + 44 \<le> unat (e6_nd6_mtu demo_env6 (u_addr (demo_ip6 0x60480120 7)) demo_netif6 t)"
    for t :: tcp_state by (simp add: demo_env6_def)
  have raw: "env_raw_input (e6_ip demo_env6) 3 demo_netif6 t = Some (0, t)" for t :: tcp_state
    by (simp add: demo_env6_def demo_env_def)
  have old: "\<forall>x \<in> set [3]. pblock demo_echo6 x < nxt_addr demo_echo6" using f(4,6) by simp
  have ok: "malloc_ok demo_echo6 (nxt_addr demo_echo6)" by (rule f(5))
  have send: "e6_output demo_env6 inp q x t \<bind> (\<lambda>(e, t). k t) = k t" for inp q x and t :: tcp_state and k :: "tcp_state \<Rightarrow> 'r option"
    by (simp add: demo_env6_def)
  have three: "(3 :: nat) \<noteq> 0" by simp
  note prem = f(1)[folded h] three f(7)[folded h] f(2)[folded h] b(1-3) f(8)[folded h] b(4) d(1) len d(2-4)
    demo_hdr6_addr [folded d(5,6)] remote [folded d(6)] mtu [folded d(6)] f(3)[folded h] ok [folded h] old [folded h] raw
  obtain h' g c where "ip6_input demo_env6 (\<lambda>_ _. False) 3 demo_netif6 demo_host6 = do {
      t \<leftarrow> icmp6_free 4 (demo_host6\<lparr>ip_data := g, ip_heap := h'\<rparr>);
      t \<leftarrow> icmp6_free 3 t;
      Some (ERR_OK, ip6_input_done t) }"
    "content h' [4] = ip6_hdr 255 0 IP6_NEXTH_ICMP6 (of_nat (4 + length [0 :: u8, 1, 0, 2, 10, 20, 30, 40]))
      (u_addr (demo_ip6 0xb80d0120 2)) (u_addr (demo_ip6 0x60480120 7)) @
      [ICMP6_TYPE_EREP, 0] @ store16 c @ [0, 1, 0, 2, 10, 20, 30, 40]"
    using ip6_input_answers_ping [OF prem, of "\<lambda>_ _. False"]
    unfolding h f(4) d(5,6) send by (elim exE conjE) (rule that)
  then show ?thesis by (intro exI [of _ h'] exI [of _ g] exI [of _ c]) (simp add: ICMP6_TYPE_EREP_def)
qed

end
