(* ===== verification/Lwip_Ip6_Reass.thy ===== *)
theory Lwip_Ip6_Reass
  imports Lwip_Icmp6 Lwip_Tcp
begin

text \<open>
  Reassembly of IPv6 fragments (\<^verbatim>\<open>core/ipv6/ip6_frag.c\<close>, \<^verbatim>\<open>IPV6_FRAG_COPYHEADER\<close>): as for IPv4 the
  fragments of a datagram are linked through a helper struct in their own memory, which here replaces
  the fragment header and the four bytes before it. Overlap is checked and the oldest datagram is
  freed when there is no room.
\<close>

section \<open>State\<close>

record ip6_reassdata =
  r6_next :: nat
  r6_p :: nat
  r6_iphdr :: vptr
  r6_src :: ip6_addr_t
  r6_dest :: ip6_addr_t
  r6_orig_hdr :: "u8 list"
  r6_identification :: u32
  r6_datagram_len :: u16
  r6_nexth :: u8
  r6_timer :: u8
  r6_src_zone :: u8
  r6_dest_zone :: u8

text \<open>The copies of packed addresses are addresses without a zone.\<close>

record reass6_state = tcp_state +
  r6_mem :: "nat \<Rightarrow> ip6_reassdata option"
  reassdatagrams6 :: nat
  ip6_reass_pbufcount :: u16
  r6_nxt :: nat
  r6_malloc_ok :: "nat \<Rightarrow> bool"

definition put_r6 :: "nat \<Rightarrow> ip6_reassdata \<Rightarrow> 'a reass6_state_scheme \<Rightarrow> 'a reass6_state_scheme" where
  "put_r6 r d s = s\<lparr>r6_mem := (r6_mem s)(r := Some d)\<rparr>"

definition IPV6_REASS_MAXAGE :: u8 where "IPV6_REASS_MAXAGE = 60"
definition IPV6_FRAG_REQROOM :: nat where "IPV6_FRAG_REQROOM = 4"
definition ICMP6_TE_FRAG :: u8 where "ICMP6_TE_FRAG = 1"

definition ip6_addr_cmp_packed :: "ip6_addr_t \<Rightarrow> ip6_addr_t \<Rightarrow> u8 \<Rightarrow> bool" where
  "ip6_addr_cmp_packed a p zone_idx =
     (ip6_a0 a = ip6_a0 p \<and> ip6_a1 a = ip6_a1 p \<and> ip6_a2 a = ip6_a2 p \<and> ip6_a3 a = ip6_a3 p \<and> ip6_zone a = zone_idx)"

section \<open>Removing datagrams\<close>

text \<open>\<^verbatim>\<open>prev\<close> of a datagram in the list, 0 if it has none.\<close>

definition reass6_prev :: "nat \<Rightarrow> 'a reass6_state_scheme \<Rightarrow> nat option" where
  "reass6_prev ipr s = find_node (r6_mem s) r6_next (\<lambda>a b. r6_next b = ipr) (reassdatagrams6 s)"

definition reass6_unlink :: "nat \<Rightarrow> 'a reass6_state_scheme \<Rightarrow> 'a reass6_state_scheme option" where
  "reass6_unlink ipr s =
     do {
       d \<leftarrow> r6_mem s ipr;
       s \<leftarrow> (if ipr = reassdatagrams6 s then Some (s\<lparr>reassdatagrams6 := r6_next d\<rparr>)
             else do {
               prev \<leftarrow> reass6_prev ipr s;
               if prev \<noteq> 0 then do { e \<leftarrow> r6_mem s prev; Some (put_r6 prev (e\<lparr>r6_next := r6_next d\<rparr>) s) }
               else Some s
             });
       Some (s\<lparr>r6_mem := (r6_mem s)(ipr := None)\<rparr>)
     }"

text \<open>The message for a datagram whose first fragment \<^verbatim>\<open>p\<close> has arrived; \<^verbatim>\<open>MEMCPY\<close> copies the size of a
  pointer, not that of the helper.\<close>

definition reass6_time_exceeded ::
  "'a reass6_state_scheme ip6_env \<Rightarrow> nat \<Rightarrow> nat \<Rightarrow> vptr \<Rightarrow> 'a reass6_state_scheme \<Rightarrow> (u16 \<times> 'a reass6_state_scheme) option" where
  "reass6_time_exceeded env ipr p iprh s =
     do {
       n \<leftarrow> iprh_next_pbuf (ip_heap s) iprh;
       d \<leftarrow> r6_mem s ipr;
       let s = put_r6 ipr (d\<lparr>r6_p := n\<rparr>) s;
       h \<leftarrow> mem_write (ip_heap s) iprh 0 (take 8 (r6_orig_hdr d));
       diff \<leftarrow> vptr_diff iprh (r6_iphdr d);
       (e, h) \<leftarrow> pbuf_header_force h p (of_int diff);
       lwip_assert (e = 0);
       let src_addr = (r6_src d)\<lparr>ip6_zone := r6_src_zone d\<rparr>;
       let dest_addr = (r6_dest d)\<lparr>ip6_zone := r6_dest_zone d\<rparr>;
       s \<leftarrow> icmp6_time_exceeded_with_addrs env p ICMP6_TE_FRAG src_addr dest_addr (s\<lparr>ip_heap := h\<rparr>);
       clen \<leftarrow> pbuf_clen (ip_heap s) p;
       s \<leftarrow> icmp6_free p s;
       Some (clen, s)
     }"

definition ip6_reass_free_complete_datagram ::
  "'a reass6_state_scheme ip6_env \<Rightarrow> nat \<Rightarrow> 'a reass6_state_scheme \<Rightarrow> 'a reass6_state_scheme option" where
  "ip6_reass_free_complete_datagram env ipr s =
     do {
       d \<leftarrow> r6_mem s ipr;
       iprh \<leftarrow> payload_of (ip_heap s) (r6_p d);
       start \<leftarrow> iprh_start (ip_heap s) iprh;
       (pbufs_freed, s) \<leftarrow> (if start = 0 then reass6_time_exceeded env ipr (r6_p d) iprh s else Some (0, s));
       d \<leftarrow> r6_mem s ipr;
       (pbufs_freed, h) \<leftarrow> free_fragments (ip_heap s) (r6_p d) pbufs_freed;
       s \<leftarrow> reass6_unlink ipr (s\<lparr>ip_heap := h\<rparr>);
       lwip_assert (ip6_reass_pbufcount s \<ge> pbufs_freed);
       Some (s\<lparr>ip6_reass_pbufcount := ip6_reass_pbufcount s - pbufs_freed\<rparr>)
     }"

partial_function (option) reass6_tmr_loop ::
  "'a reass6_state_scheme ip6_env \<Rightarrow> nat \<Rightarrow> 'a reass6_state_scheme \<Rightarrow> 'a reass6_state_scheme option" where
  "reass6_tmr_loop env r s =
     (if r = 0 then Some s
      else do {
        d \<leftarrow> r6_mem s r;
        if r6_timer d > 0 then reass6_tmr_loop env (r6_next d) (put_r6 r (d\<lparr>r6_timer := r6_timer d - 1\<rparr>) s)
        else do { s \<leftarrow> ip6_reass_free_complete_datagram env r s; reass6_tmr_loop env (r6_next d) s }
      })"

definition ip6_reass_tmr ::
  "'a reass6_state_scheme ip6_env \<Rightarrow> 'a reass6_state_scheme \<Rightarrow> 'a reass6_state_scheme option" where
  "ip6_reass_tmr env s = reass6_tmr_loop env (reassdatagrams6 s) s"

partial_function (option) oldest6_loop :: "'a reass6_state_scheme \<Rightarrow> nat \<Rightarrow> nat \<Rightarrow> nat \<Rightarrow> nat option" where
  "oldest6_loop s ipr r oldest =
     (if r = 0 then Some oldest
      else do {
        d \<leftarrow> r6_mem s r;
        o' \<leftarrow> r6_mem s oldest;
        oldest6_loop s ipr (r6_next d) (if r \<noteq> ipr \<and> r6_timer d \<le> r6_timer o' then r else oldest)
      })"

text \<open>\<^verbatim>\<open>ipr\<close> may be NULL; the function then returns when the list is empty.\<close>

partial_function (option) ip6_reass_remove_oldest_datagram ::
  "'a reass6_state_scheme ip6_env \<Rightarrow> nat \<Rightarrow> nat \<Rightarrow> 'a reass6_state_scheme \<Rightarrow> 'a reass6_state_scheme option" where
  "ip6_reass_remove_oldest_datagram env ipr pbufs_needed s =
     do {
       oldest \<leftarrow> oldest6_loop s ipr (reassdatagrams6 s) (reassdatagrams6 s);
       if oldest = ipr then Some s
       else do {
         s \<leftarrow> (if oldest \<noteq> 0 then ip6_reass_free_complete_datagram env oldest s else Some s);
         if unat (ip6_reass_pbufcount s) + pbufs_needed > IP_REASS_MAX_PBUFS \<and> reassdatagrams6 s \<noteq> 0
         then ip6_reass_remove_oldest_datagram env ipr pbufs_needed s
         else Some s
       }
     }"

section \<open>The datagram of a fragment\<close>

definition memp_malloc_reassdata6 :: "'a reass6_state_scheme \<Rightarrow> nat \<times> 'a reass6_state_scheme" where
  "memp_malloc_reassdata6 s =
     (if r6_malloc_ok s (r6_nxt s) then (r6_nxt s, s\<lparr>r6_nxt := r6_nxt s + 1\<rparr>) else (0, s\<lparr>r6_nxt := r6_nxt s + 1\<rparr>))"

text \<open>The search for the datagram, with its predecessor in the list (the last node if there is none).\<close>

partial_function (option) reass6_find ::
  "'a reass6_state_scheme \<Rightarrow> u32 \<Rightarrow> nat \<Rightarrow> nat \<Rightarrow> (nat \<times> nat) option" where
  "reass6_find s ident ipr ipr_prev =
     (if ipr = 0 then Some (0, ipr_prev)
      else do {
        d \<leftarrow> r6_mem s ipr;
        if ident = r6_identification d
           \<and> ip6_addr_cmp_packed (ip_2_ip6 (current_iphdr_src (ip_data s))) (r6_src d) (r6_src_zone d)
           \<and> ip6_addr_cmp_packed (ip_2_ip6 (current_iphdr_dest (ip_data s))) (r6_dest d) (r6_dest_zone d)
        then Some (ipr, ipr_prev)
        else reass6_find s ident (r6_next d) ipr
      })"

definition reass6_new ::
  "'a reass6_state_scheme ip6_env \<Rightarrow> u8 list \<Rightarrow> nat \<Rightarrow> nat \<Rightarrow> 'a reass6_state_scheme \<Rightarrow>
   (nat \<times> nat \<times> 'a reass6_state_scheme) option" where
  "reass6_new env frag_hdr clen ipr_prev s =
     do {
       let (ipr, s) = memp_malloc_reassdata6 s;
       (ipr, ipr_prev, s) \<leftarrow> (if ipr = 0 then do {
           s \<leftarrow> ip6_reass_remove_oldest_datagram env 0 clen s;
           let (ipr, s) = memp_malloc_reassdata6 s;
           if ipr \<noteq> 0 then do { prev \<leftarrow> reass6_prev ipr s; Some (ipr, prev, s) } else Some (0, ipr_prev, s)
         } else Some (ipr, ipr_prev, s));
       if ipr = 0 then Some (0, ipr_prev, s)
       else do {
         hdr \<leftarrow> mem_read (ip_heap s) (current_ip6_header (ip_data s)) 0 IP6_HLEN;
         let d = \<lparr>r6_next = reassdatagrams6 s, r6_p = 0, r6_iphdr = current_ip6_header (ip_data s),
              r6_src = ip6_addr_from_packed hdr 8, r6_dest = ip6_addr_from_packed hdr 24,
              r6_orig_hdr = replicate 16 0, r6_identification = ldf32 frag_hdr 4, r6_datagram_len = 0,
              r6_nexth = frag_hdr ! 0, r6_timer = IPV6_REASS_MAXAGE,
              r6_src_zone = ip6_zone (ip_2_ip6 (current_iphdr_src (ip_data s))),
              r6_dest_zone = ip6_zone (ip_2_ip6 (current_iphdr_dest (ip_data s)))\<rparr>;
         Some (ipr, ipr_prev, (put_r6 ipr d s)\<lparr>reassdatagrams6 := ipr\<rparr>)
       }
     }"

definition reass6_make_room ::
  "'a reass6_state_scheme ip6_env \<Rightarrow> nat \<Rightarrow> nat \<Rightarrow> nat \<Rightarrow> 'a reass6_state_scheme \<Rightarrow>
   (bool \<times> nat \<times> 'a reass6_state_scheme) option" where
  "reass6_make_room env ipr clen ipr_prev s =
     (if unat (ip6_reass_pbufcount s) + clen > IP_REASS_MAX_PBUFS then do {
        s \<leftarrow> ip6_reass_remove_oldest_datagram env ipr clen s;
        if unat (ip6_reass_pbufcount s) + clen \<le> IP_REASS_MAX_PBUFS then do {
          prev \<leftarrow> reass6_prev ipr s;
          Some (True, prev, s)
        } else Some (False, ipr_prev, s)
      } else Some (True, ipr_prev, s))"

section \<open>The place of a fragment\<close>

text \<open>
  The walk from fragment \<^verbatim>\<open>q\<close> on; \<^term>\<open>None\<close> inside stands for the jump to \<^verbatim>\<open>nullreturn\<close>. The result is
  \<^verbatim>\<open>next_pbuf\<close>, \<^verbatim>\<open>valid\<close>, the new \<^verbatim>\<open>ipr->p\<close> and the memory.
\<close>

partial_function (option) place6_loop ::
  "heap \<Rightarrow> nat \<Rightarrow> u16 \<Rightarrow> u16 \<Rightarrow> nat \<Rightarrow> nat \<Rightarrow> vptr option \<Rightarrow> bool \<Rightarrow> (nat \<times> bool \<times> nat \<times> heap) option option" where
  "place6_loop h p start end' ipr_p q iprh_prev valid =
     (if q = 0 then
        (case iprh_prev of
           Some pv \<Rightarrow> do {
             p_end \<leftarrow> iprh_end h pv;
             lwip_assert (p_end \<le> start);
             h \<leftarrow> set_iprh_next_pbuf h pv p;
             Some (Some (0, valid \<and> p_end = start, ipr_p, h))
           }
         | None \<Rightarrow> do { lwip_assert (ipr_p = 0); Some (Some (0, valid, p, h)) })
      else do {
        t \<leftarrow> payload_of h q;
        t_start \<leftarrow> iprh_start h t;
        t_end \<leftarrow> iprh_end h t;
        if start < t_start then
          (if end' > t_start then Some None
           else (case iprh_prev of
               Some pv \<Rightarrow> do {
                 p_end \<leftarrow> iprh_end h pv;
                 if start < p_end then Some None
                 else do { h \<leftarrow> set_iprh_next_pbuf h pv p; Some (Some (q, valid, ipr_p, h)) }
               }
             | None \<Rightarrow> Some (Some (q, valid, p, h))))
        else if start = t_start then Some None
        else if start < t_end then Some None
        else do {
          valid \<leftarrow> (case iprh_prev of
              Some pv \<Rightarrow> do { p_end \<leftarrow> iprh_end h pv; Some (valid \<and> p_end = t_start) }
            | None \<Rightarrow> Some valid);
          n \<leftarrow> iprh_next_pbuf h t;
          place6_loop h p start end' ipr_p n (Some t) valid
        }
      })"

text \<open>The tests for completeness after the helper \<^verbatim>\<open>iprh\<close> of the new fragment has been written.\<close>

definition reass6_complete :: "heap \<Rightarrow> vptr \<Rightarrow> nat \<Rightarrow> u16 \<Rightarrow> bool \<Rightarrow> bool option" where
  "reass6_complete h iprh ipr_p datagram_len valid =
     do {
       fv \<leftarrow> payload_of h ipr_p;
       fstart \<leftarrow> iprh_start h fv;
       let valid = (valid \<and> fstart = 0 \<and> datagram_len \<noteq> 0);
       q \<leftarrow> iprh_next_pbuf h iprh;
       if valid then do { (valid, lv) \<leftarrow> holes_loop h iprh q; Some valid } else Some False
     }"

section \<open>The complete datagram\<close>

partial_function (option) reass6_chain :: "heap \<Rightarrow> nat \<Rightarrow> vptr \<Rightarrow> heap option" where
  "reass6_chain h p iprh =
     do {
       n \<leftarrow> iprh_next_pbuf h iprh;
       if n = 0 then Some h
       else do {
         t \<leftarrow> payload_of h n;
         (x, h) \<leftarrow> pbuf_remove_header h n IP6_FRAG_HLEN;
         (e, h) \<leftarrow> pbuf_remove_header h n IPV6_FRAG_REQROOM;
         lwip_assert (e = 0);
         h \<leftarrow> pbuf_cat h p n;
         reass6_chain h p t
       }
     }"

text \<open>The walk over the headers to the one that announces the fragment header\<close>

partial_function (option) reass6_nexth :: "heap \<Rightarrow> vptr \<Rightarrow> vptr option" where
  "reass6_nexth h ptr =
     do {
       n \<leftarrow> mem_read h ptr 0 1;
       if hd n = IP6_NEXTH_FRAGMENT then Some ptr
       else do { l \<leftarrow> mem_read h ptr 1 1; reass6_nexth h (vptr_add ptr (8 * (1 + unat (hd l)))) }
     }"

text \<open>The headers before the fragment header move up over it; the result is the place of the IPv6 header.\<close>

definition reass6_headers :: "nat \<Rightarrow> ip6_reassdata \<Rightarrow> heap \<Rightarrow> (vptr \<times> heap) option" where
  "reass6_headers p d h =
     do {
       v \<leftarrow> payload_of h p;
       h \<leftarrow> mem_write h v 0 (take IPV6_FRAG_REQROOM (r6_orig_hdr d));
       (e, h) \<leftarrow> pbuf_remove_header h p IPV6_FRAG_REQROOM;
       lwip_assert (e = 0);
       v \<leftarrow> payload_of h p;
       diff \<leftarrow> vptr_diff v (r6_iphdr d);
       lwip_assert (diff \<ge> 0);
       hdrs \<leftarrow> mem_read h (r6_iphdr d) 0 (nat diff);
       h \<leftarrow> mem_write h (r6_iphdr d) IP6_FRAG_HLEN hdrs;
       let iphdr_ptr = vptr_add (r6_iphdr d) IP6_FRAG_HLEN;
       diff \<leftarrow> vptr_diff v iphdr_ptr;
       let datagram_len = (of_int (int (unat (r6_datagram_len d)) + diff - int IP6_HLEN) :: u16);
       h \<leftarrow> mem_write h iphdr_ptr 4 (store16 (lwip_htons datagram_len));
       n \<leftarrow> mem_read h iphdr_ptr 6 1;
       ptr \<leftarrow> (if hd n = IP6_NEXTH_FRAGMENT then Some (vptr_add iphdr_ptr 6)
               else reass6_nexth h (vptr_add iphdr_ptr IP6_HLEN));
       h \<leftarrow> mem_write h ptr 0 [r6_nexth d];
       Some (iphdr_ptr, h)
     }"

definition reass6_finish ::
  "nat \<Rightarrow> nat \<Rightarrow> 'a reass6_state_scheme \<Rightarrow> (nat \<times> 'a reass6_state_scheme) option" where
  "reass6_finish ipr ipr_prev s =
     do {
       d \<leftarrow> r6_mem s ipr;
       let p = r6_p d;
       v \<leftarrow> payload_of (ip_heap s) p;
       h \<leftarrow> reass6_chain (ip_heap s) p v;
       (iphdr_ptr, h) \<leftarrow> reass6_headers p d h;
       s \<leftarrow> (if reassdatagrams6 s = ipr then Some (s\<lparr>reassdatagrams6 := r6_next d\<rparr>)
             else do {
               lwip_assert (ipr_prev \<noteq> 0);
               e \<leftarrow> r6_mem s ipr_prev;
               Some (put_r6 ipr_prev (e\<lparr>r6_next := r6_next d\<rparr>) s)
             });
       let s = s\<lparr>r6_mem := (r6_mem s)(ipr := None)\<rparr>;
       clen \<leftarrow> pbuf_clen h p;
       lwip_assert (ip6_reass_pbufcount s \<ge> clen);
       let s = s\<lparr>ip6_reass_pbufcount := ip6_reass_pbufcount s - clen\<rparr>;
       v \<leftarrow> payload_of h p;
       diff \<leftarrow> vptr_diff v iphdr_ptr;
       (e, h) \<leftarrow> pbuf_header_force h p (of_int diff);
       lwip_assert (e = 0);
       Some (p, s\<lparr>ip_heap := h\<rparr>)
     }"

section \<open>Reassembly\<close>

definition reass6_nullreturn :: "nat \<Rightarrow> 'a reass6_state_scheme \<Rightarrow> (nat \<times> 'a reass6_state_scheme) option" where
  "reass6_nullreturn p s = do { s \<leftarrow> icmp6_free p s; Some (0, s) }"

text \<open>The length of the fragment from the headers: \<^term>\<open>None\<close> inside if it is not possible.\<close>

definition reass6_len :: "nat \<Rightarrow> 'a reass6_state_scheme \<Rightarrow> u16 option option" where
  "reass6_len p s =
     do {
       v \<leftarrow> payload_of (ip_heap s) p;
       plen \<leftarrow> mem_read (ip_heap s) (current_ip6_header (ip_data s)) 4 2;
       let len = lwip_htons (ldf16 plen 0);
       hdrdiff \<leftarrow> vptr_diff v (current_ip6_header (ip_data s));
       lwip_assert (hdrdiff \<le> 0xFFFF);
       lwip_assert (hdrdiff \<ge> int IP6_HLEN);
       let hdrdiff = hdrdiff - int IP6_HLEN + int IP6_FRAG_HLEN;
       if hdrdiff > int (unat len) then Some None else Some (Some (len - of_int hdrdiff))
     }"

text \<open>
  The insertion of the fragment with the offset field \<^verbatim>\<open>offset\<close>: whether the datagram is then taken to
  be complete, or \<^term>\<open>None\<close> for the jump to \<^verbatim>\<open>nullreturn\<close>.
\<close>

definition reass6_insert ::
  "nat \<Rightarrow> nat \<Rightarrow> u16 \<Rightarrow> u16 \<Rightarrow> u16 \<Rightarrow> 'a reass6_state_scheme \<Rightarrow> (bool option \<times> 'a reass6_state_scheme) option" where
  "reass6_insert ipr p offset len clen s =
     do {
       let start = offset AND IP6_FRAG_OFFSET_MASK;
       (e, h) \<leftarrow> pbuf_header_force (ip_heap s) p (of_nat IPV6_FRAG_REQROOM);
       lwip_assert (e = 0);
       iprh \<leftarrow> payload_of h p;
       let end' = start + len;
       d \<leftarrow> r6_mem s ipr;
       res \<leftarrow> place6_loop h p start end' (r6_p d) (r6_p d) None True;
       (case res of
          None \<Rightarrow> Some (None, s\<lparr>ip_heap := h\<rparr>)
        | Some (next_pbuf, valid, ipr_p, h) \<Rightarrow> do {
            let d = d\<lparr>r6_p := ipr_p\<rparr>;
            let s = s\<lparr>ip6_reass_pbufcount := ip6_reass_pbufcount s + clen\<rparr>;
            orig \<leftarrow> mem_read h iprh 0 12;
            let d = (if start = 0 then d\<lparr>r6_iphdr := current_ip6_header (ip_data s),
                       r6_orig_hdr := orig @ drop 12 (r6_orig_hdr d)\<rparr> else d);
            h \<leftarrow> mem_write h iprh 0 (store_ptr next_pbuf @ store16 start @ store16 end');
            let d = (if offset AND IP6_FRAG_MORE_FLAG = 0 then d\<lparr>r6_datagram_len := end'\<rparr> else d);
            let s = put_r6 ipr d (s\<lparr>ip_heap := h\<rparr>);
            valid \<leftarrow> reass6_complete h iprh ipr_p (r6_datagram_len d) valid;
            Some (Some valid, s)
          })
     }"

definition reass6_enter ::
  "nat \<Rightarrow> nat \<Rightarrow> nat \<Rightarrow> u16 \<Rightarrow> u16 \<Rightarrow> u16 \<Rightarrow> 'a reass6_state_scheme \<Rightarrow> (nat \<times> 'a reass6_state_scheme) option" where
  "reass6_enter ipr ipr_prev p offset len clen s =
     do {
       (res, s) \<leftarrow> reass6_insert ipr p offset len clen s;
       (case res of
          None \<Rightarrow> reass6_nullreturn p s
        | Some valid \<Rightarrow> if valid then reass6_finish ipr ipr_prev s else Some (0, s))
     }"

definition ip6_reass ::
  "'a reass6_state_scheme ip6_env \<Rightarrow> nat \<Rightarrow> 'a reass6_state_scheme \<Rightarrow> (nat \<times> 'a reass6_state_scheme) option" where
  "ip6_reass env p s =
     do {
       b \<leftarrow> pbufs (ip_heap s) p;
       lwip_assert (unat (pb_len b) \<ge> IP6_FRAG_HLEN);
       frag_hdr \<leftarrow> mem_read (ip_heap s) (pb_payload b) 0 IP6_FRAG_HLEN;
       clen \<leftarrow> pbuf_clen (ip_heap s) p;
       let offset = lwip_htons (ldf16 frag_hdr 2);
       l \<leftarrow> reass6_len p s;
       (case l of
          None \<Rightarrow> reass6_nullreturn p s
        | Some len \<Rightarrow>
            if int (unat (offset AND IP6_FRAG_OFFSET_MASK)) > 0xFFFF - int (unat len) then reass6_nullreturn p s
            else do {
              (ipr, ipr_prev) \<leftarrow> reass6_find s (ldf32 frag_hdr 4) (reassdatagrams6 s) 0;
              (ipr, ipr_prev, s) \<leftarrow> (if ipr = 0 then reass6_new env frag_hdr (unat clen) ipr_prev s
                 else Some (ipr, ipr_prev, s));
              if ipr = 0 then reass6_nullreturn p s
              else do {
                (ok, ipr_prev, s) \<leftarrow> reass6_make_room env ipr (unat clen) ipr_prev s;
                if \<not> ok then reass6_nullreturn p s
                else reass6_enter ipr ipr_prev p offset len clen s
              }
            })
     }"

text \<open>The environment in which \<^verbatim>\<open>ip6_input\<close> calls it.\<close>

definition reass6_env :: "'a reass6_state_scheme ip6_env \<Rightarrow> 'a reass6_state_scheme ip6_env" where
  "reass6_env env = env\<lparr>e6_reass := ip6_reass env\<rparr>"

end
