(* ===== verification/Lwip_Ip6_Reass_Props.thy ===== *)
theory Lwip_Ip6_Reass_Props
  imports Lwip_Ip6_Reass Lwip_Reass_Done Lwip_Tcp_Demo
begin

text \<open>
  What the reassembly of IPv6 fragments does: adding a fragment is insertion into a sorted list
  of fragments without overlaps, as for IPv4, but the test for completeness leaves out the hole
  before a fragment that is not the last one; and a datagram whose first fragment is refused for
  its number of pbufs stays behind empty and aborts the program when it times out.
\<close>

section \<open>Room for the helper\<close>

lemma mem_read_pbufs_update [simp]: "mem_read (h\<lparr>pbufs := f\<rparr>) v off n = mem_read h v off n"
  by (cases v) (simp_all add: mem_read_def)

lemma header_force_room:
  assumes x: "pbufs h x = Some b" "x \<noteq> 0" "readable h x" "1 \<le> unat (pb_len b)"
    and room: "pb_payload b = VPtr x d" "SIZEOF_STRUCT_PBUF + 4 \<le> d"
      "pb_type_internal b AND PBUF_TYPE_FLAG_STRUCT_DATA_CONTIGUOUS \<noteq> 0"
    and len: "pb_len b \<le> pb_tot_len b" "unat (pb_tot_len b) + 4 < 65536"
  obtains h1 where "pbuf_header_force h x (of_nat IPV6_FRAG_REQROOM) = Some (0, h1)"
    "readable h1 x" "drop 4 (pdata h1 x) = pdata h x" "length (pdata h1 x) = length (pdata h x) + 4"
    "pblock h1 = pblock h" "payload_of h1 x = Some (VPtr x (d - 4))"
    "\<And>c. c \<noteq> x \<Longrightarrow> payload_of h1 c = payload_of h c \<and> readable h1 c = readable h c \<and> pdata h1 c = pdata h c"
proof -
  let ?b = "b\<lparr>pb_payload := VPtr x (d - 4), pb_len := pb_len b + 4, pb_tot_len := pb_tot_len b + 4\<rparr>"
  let ?h = "put_pbuf h x ?b"
  have tot: "unat (4 + pb_tot_len b) = 4 + unat (pb_tot_len b)"
    using len(2) by (simp add: unat_word_ariths)
  have "\<not> 4 + pb_tot_len b < 4" using tot by (simp add: word_less_nat_alt)
  then have run: "pbuf_header_force h x (of_nat IPV6_FRAG_REQROOM) = Some (0, ?h)"
    using x(1,2) room
    by (simp add: pbuf_header_force_def pbuf_header_impl_def pbuf_add_header_impl_def IPV6_FRAG_REQROOM_def Let_def)
  have "unat (pb_len b) + 4 < 65536" using len by (simp add: word_le_nat_alt)
  then have l: "unat (pb_len b + 4) = unat (pb_len b) + 4" by (simp add: unat_word_ariths)
  have "mem_read h (VPtr x d) 0 (unat (pb_len b)) \<noteq> None" using x(1,3) room(1) by (simp add: readable_def)
  then obtain bs where bs: "blocks h x = Some bs" "d + unat (pb_len b) \<le> length bs"
    using x(4) by (cases "blocks h x") (auto simp: mem_read_def buf_read_def split: if_splits)
  have d: "4 \<le> d" using room(2) by (simp add: SIZEOF_STRUCT_PBUF_def)
  have pd: "pdata h x = take (unat (pb_len b)) (drop d bs)"
    using x(1,4) room(1) bs by (simp add: pdata_def mem_read_def buf_read_def)
  have m: "mem_read ?h (VPtr x (d - 4)) 0 (unat (pb_len b + 4)) = Some (take (unat (pb_len b) + 4) (drop (d - 4) bs))"
    using bs d unfolding l by (simp add: mem_read_def buf_read_def put_pbuf_def)
  have "readable ?h x" using m by (simp add: readable_def put_pbuf_def)
  moreover have "pdata ?h x = take (unat (pb_len b) + 4) (drop (d - 4) bs)" using m by (simp add: pdata_def put_pbuf_def)
  moreover have "drop 4 (take (unat (pb_len b) + 4) (drop (d - 4) bs)) = pdata h x"
    using d pd by (simp add: drop_take)
  moreover have "length (take (unat (pb_len b) + 4) (drop (d - 4) bs)) = length (pdata h x) + 4"
    using d bs(2) pd by simp
  moreover have "pblock ?h = pblock h" using x(1) room(1) by (simp add: fun_eq_iff pblock_def put_pbuf_def)
  moreover have "payload_of ?h x = Some (VPtr x (d - 4))" by (simp add: payload_of_def put_pbuf_def)
  moreover have "payload_of ?h c = payload_of h c \<and> readable ?h c = readable h c \<and> pdata ?h c = pdata h c" if "c \<noteq> x" for c
    using that by (cases "pbufs h c") (simp_all add: payload_of_def readable_def pdata_def put_pbuf_def)
  ultimately show thesis by (intro that [OF run]) auto
qed

lemma frag_seg_away:
  assumes "\<And>c. c \<in> fst ` set fs \<Longrightarrow> readable h' c = readable h c \<and> pdata h' c = pdata h c"
  shows "frag_seg h' p fs q = frag_seg h p fs q"
  using assms
proof (induction fs arbitrary: p)
  case (Cons f fs)
  obtain a s e where [simp]: "f = (a, s, e)" by (cases f)
  have "frag h' a n s e = frag h a n s e" for n
    using Cons.prems [of a] by (simp add: frag_def)
  moreover have "frag_seg h' n fs q = frag_seg h n fs q" for n
    by (rule Cons.IH) (simp add: Cons.prems)
  ultimately show ?case by simp
qed simp

section \<open>The walk to the place of a fragment\<close>

lemma place_walk:
  assumes "frag_seg h q pre r" "\<forall>f \<in> set pre. below st f" "prev_end h prev pe"
  shows "\<exists>prev'. place6_loop h x st en P q prev valid
      = place6_loop h x st en P r prev' (valid \<and> contig pe pre) \<and>
    prev_end h prev' (last_end pe pre) \<and>
    prev' = (if pre = [] then prev else payload_of h (fst (last pre)))"
  using assms
proof (induction pre arbitrary: q prev pe valid)
  case (Cons f pre)
  obtain a s e where [simp]: "f = (a, s, e)" by (cases f)
  obtain n where n: "q = a" "a \<noteq> 0" "frag h a n s e" "frag_seg h n pre r" using Cons.prems(1) by auto
  obtain b w where w: "payload_of h a = Some w" "iprh_next_pbuf h w = Some n" "iprh_start h w = Some s"
    "iprh_end h w = Some e"
    by (rule frag_at [OF n(3)])
  have lt: "s < st" "e \<le> st" using Cons.prems(2) by (simp_all add: below_def)
  then have "\<not> st < s" "st \<noteq> s" "\<not> st < e" by auto
  then have step: "place6_loop h x st en P q prev valid
      = place6_loop h x st en P n (Some w) (valid \<and> (case pe of None \<Rightarrow> True | Some x \<Rightarrow> x = s))"
    using n(1,2) w Cons.prems(3)
    by (subst place6_loop.simps) (auto simp: prev_end_def split: option.splits)
  have "prev_end h (Some w) (Some e)" using w(4) by (simp add: prev_end_def)
  from Cons.IH [OF n(4) _ this, of "valid \<and> (case pe of None \<Rightarrow> True | Some x \<Rightarrow> x = s)"] Cons.prems(2)
  obtain prev' where "place6_loop h x st en P n (Some w) (valid \<and> (case pe of None \<Rightarrow> True | Some x \<Rightarrow> x = s))
      = place6_loop h x st en P r prev' ((valid \<and> (case pe of None \<Rightarrow> True | Some x \<Rightarrow> x = s)) \<and> contig (Some e) pre)"
    "prev_end h prev' (last_end (Some e) pre)" "prev' = (if pre = [] then Some w else payload_of h (fst (last pre)))"
    by auto
  then show ?case using step w(1) by (intro exI [of _ prev']) (auto simp: conj_assoc)
qed auto

lemma place_split:
  assumes fs: "frag_seg h p fs 0"
  obtains pre post r prev where "fs = pre @ post" "\<forall>f \<in> set pre. below st f" "post = [] \<or> \<not> below st (hd post)"
    "frag_seg h p pre r" "frag_seg h r post 0"
    "place6_loop h x st en p p None True = place6_loop h x st en p r prev (contig None pre)"
    "prev = (if pre = [] then None else payload_of h (fst (last pre)))"
    "pre \<noteq> [] \<longrightarrow> (\<exists>pv. prev = Some pv \<and> iprh_end h pv = Some (frag_end (last pre)) \<and> frag_end (last pre) \<le> st)"
proof -
  obtain pre post where split: "fs = pre @ post" "\<forall>f \<in> set pre. below st f" "post = [] \<or> \<not> below st (hd post)"
    by (rule split_frags [of fs st])
  obtain r where r: "frag_seg h p pre r" "frag_seg h r post 0"
    using fs(1) split(1) by (auto simp: frag_seg_append)
  have "prev_end h None None" by (simp add: prev_end_def)
  from place_walk [OF r(1) split(2) this, of x en p True] obtain prev where walk:
    "place6_loop h x st en p p None True = place6_loop h x st en p r prev (contig None pre)"
    "prev_end h prev (last_end None pre)" "prev = (if pre = [] then None else payload_of h (fst (last pre)))"
    by auto
  have "frag_end (last pre) \<le> st" if "pre \<noteq> []"
    using split(2) last_in_set [OF that] by (fastforce simp: below_def frag_end_def)
  then have "pre \<noteq> [] \<longrightarrow> (\<exists>pv. prev = Some pv \<and> iprh_end h pv = Some (frag_end (last pre)) \<and> frag_end (last pre) \<le> st)"
    using walk(2) by (cases prev) (auto simp: prev_end_def last_end_def split: if_splits)
  then show thesis by (intro that [OF split r walk(1,3)])
qed

lemma place_drops:
  assumes fs: "frag_seg h p fs 0" "sorted_frags fs" and bad: "\<not> (\<forall>f \<in> set fs. fits st en f)"
  shows "place6_loop h x st en p p None True = Some None"
proof -
  obtain pre post r prev where split: "fs = pre @ post" "\<forall>f \<in> set pre. below st f" "post = [] \<or> \<not> below st (hd post)"
    and r: "frag_seg h p pre r" "frag_seg h r post 0"
    and walk: "place6_loop h x st en p p None True = place6_loop h x st en p r prev (contig None pre)"
    by (rule place_split [OF fs(1), of st x en])
  have "post \<noteq> []" using bad split by (auto simp: fits_def)
  then obtain b t u post' where post: "post = (b, t, u) # post'" by (cases post) auto
  have "\<not> above st en (b, t, u)"
  proof
    assume a: "above st en (b, t, u)"
    have "sorted_frags ((b, t, u) # post')" using fs(2) split(1) post by (simp add: sorted_frags_append)
    then have "\<forall>f \<in> set post. above st en f" using a sorted_above [of "(b, t, u)" post'] post by auto
    then show False using bad split(1,2) by (auto simp: fits_def)
  qed
  then have c: "\<not> (st < t \<and> en \<le> t)" "\<not> (t < st \<and> u \<le> st)"
    using split(3) post by (simp_all add: above_def below_def)
  obtain n where n: "r = b" "b \<noteq> 0" "frag h b n t u" using r(2) post by auto
  obtain w where w: "payload_of h b = Some w" "iprh_start h w = Some t" "iprh_end h w = Some u"
    by (rule frag_at [OF n(3)])
  have "st < t \<and> en > t \<or> \<not> st < t \<and> (st = t \<or> st < u)" using c by auto
  then show ?thesis using walk n(1,2) w by (subst walk, subst place6_loop.simps) auto
qed

text \<open>
  The new fragment is linked behind the fragments before it. The flag \<^verbatim>\<open>valid\<close> says that these have
  no hole between them, and, if the new one is the last, that it follows them without one.
\<close>

lemma place_fits:
  assumes fs: "frag_seg h p fs 0" "sorted_frags fs" and x: "x \<noteq> 0" "ptr_ok x"
    and sep: "separate h (x # map fst fs)" and fit: "\<forall>f \<in> set fs. fits st en f"
  obtains p' h' r pre post where
    "place6_loop h x st en p p None True = Some (Some (r, contig None (pre @ (if post = [] then [(x, st, en)] else [])), p', h'))"
    "fs = pre @ post" "\<forall>f \<in> set pre. below st f" "\<forall>f \<in> set post. above st en f"
    "same_shape h h'" "frag_seg h' p' pre x" "frag_seg h' r post 0"
    "\<And>c. c \<in> insert x (fst ` set fs) \<Longrightarrow> drop 12 (pdata h' c) = drop 12 (pdata h c)"
    "\<And>c. pblock h c \<notin> pblock h ` fst ` set fs \<Longrightarrow> pdata h' c = pdata h c"
proof -
  obtain pre post r prev where split: "fs = pre @ post" "\<forall>f \<in> set pre. below st f" "post = [] \<or> \<not> below st (hd post)"
    and r: "frag_seg h p pre r" "frag_seg h r post 0"
    and walk: "place6_loop h x st en p p None True = place6_loop h x st en p r prev (contig None pre)"
      "prev = (if pre = [] then None else payload_of h (fst (last pre)))"
    and prev: "pre \<noteq> [] \<longrightarrow> (\<exists>pv. prev = Some pv \<and> iprh_end h pv = Some (frag_end (last pre)) \<and> frag_end (last pre) \<le> st)"
    by (rule place_split [OF fs(1), of st x en])
  have ab: "\<forall>f \<in> set post. above st en f"
  proof (cases post)
    case (Cons f post')
    then have "above st en f" using split(1,3) fit by (auto simp: fits_def)
    moreover have "sorted_frags (f # post')" using fs(2) split(1) Cons by (simp add: sorted_frags_append)
    ultimately show ?thesis using sorted_above [of f post'] Cons by auto
  qed simp
  have hole: "contig None (pre @ [(x, st, en)]) = (contig None pre \<and> (pre = [] \<or> frag_end (last pre) = st))"
    by (simp add: contig_append last_end_def)
  define ok where "ok = contig None (pre @ (if post = [] then [(x, st, en)] else []))"
  have stop: "place6_loop h x st en p r prev (contig None pre) =
      (case prev of None \<Rightarrow> Some (Some (r, ok, x, h))
       | Some pv \<Rightarrow> do { h \<leftarrow> set_iprh_next_pbuf h pv x; Some (Some (r, ok, p, h)) })"
  proof (cases post)
    case Nil
    then have "r = 0" "prev = None \<longrightarrow> p = 0" using r prev by (auto split: if_splits)
    then show ?thesis using prev Nil walk(2) hole unfolding ok_def
      by (subst place6_loop.simps) (cases "pre = []"; auto split: option.split)
  next
    case (Cons f post')
    obtain b t u where f: "f = (b, t, u)" by (cases f)
    obtain n where n: "r = b" "b \<noteq> 0" "frag h b n t u" using r(2) Cons f by auto
    obtain w where w: "payload_of h b = Some w" "iprh_start h w = Some t" "iprh_end h w = Some u"
      by (rule frag_at [OF n(3)])
    have lt: "st < t" "\<not> t < en" using ab Cons f by (auto simp: above_def)
    have "\<not> st < frag_end (last pre)" if "pre \<noteq> []" using prev that by auto
    then show ?thesis using n(1,2) w lt prev walk(2) Cons unfolding ok_def
      by (subst place6_loop.simps) (cases "pre = []"; auto split: option.split)
  qed
  show thesis
  proof (cases "pre = []")
    case True
    have "place6_loop h x st en p p None True = Some (Some (r, ok, x, h))" using walk stop True by simp
    then show ?thesis using True r(2) split ab unfolding ok_def by (intro that) auto
  next
    case False
    obtain pv where pv: "prev = Some pv" using prev False by blast
    obtain ys a s e where last: "pre = ys @ [(a, s, e)]" using last_triple [OF False] by blast
    have at: "payload_of h a = Some pv" using walk(2) pv last by simp
    have "separate h (x # map fst ys @ a # map fst post)" using sep split(1) last by simp
    then have sep1: "separate h (map fst ys @ a # map fst post)" and
      sep2: "separate h ((x # map fst ys) @ a # map fst post)" by (simp_all add: separate_def)
    obtain h' where h': "set_iprh_next_pbuf h pv x = Some h'" "same_shape h h'" "frag_seg h' p (ys @ [(a, s, e)]) x"
      "drop 12 (pdata h' a) = drop 12 (pdata h a)" "\<And>c. pblock h c \<noteq> pblock h a \<Longrightarrow> pdata h' c = pdata h c"
      by (rule relink [OF r(1) [unfolded last] at x(2) sep1]) blast
    have same: "pdata h' c = pdata h c" if "c = x \<or> c \<in> fst ` set ys \<or> c \<in> fst ` set post" for c
      using that by (intro h'(5) separate_ne [OF sep2]) auto
    have "frag_seg h' r post 0" using frag_seg_other [OF h'(2) same] r(2) by simp
    moreover have "drop 12 (pdata h' c) = drop 12 (pdata h c)" if c: "c \<in> insert x (fst ` set fs)" for c
    proof (cases "c = a")
      case False
      then have "c = x \<or> c \<in> fst ` set ys \<or> c \<in> fst ` set post" using c last split(1) by auto
      then show ?thesis by (simp add: same)
    qed (simp add: h'(4))
    moreover have "pdata h' c = pdata h c" if "pblock h c \<notin> pblock h ` fst ` set fs" for c
      using that last split(1) by (intro h'(5)) auto
    moreover have "place6_loop h x st en p p None True = Some (Some (r, ok, p, h'))"
      unfolding walk(1) stop unfolding pv using h'(1) by simp
    ultimately show ?thesis
      using that [of r pre post p h'] split ab h'(2,3) last unfolding ok_def by blast
  qed
qed

section \<open>The test for completeness\<close>

text \<open>
  What is tested after \<open>x\<close> has been put among \<open>fs\<close>: the first fragment is there, and there are no
  holes before the predecessor of \<open>x\<close> and none behind \<open>x\<close>. The hole between the two counts only if \<open>x\<close>
  is the last.
\<close>

definition tested :: "fragment \<Rightarrow> fragment list \<Rightarrow> bool" where
  "tested x fs =
     (let pre = filter (\<lambda>f. frag_start f < frag_start x) fs; post = filter (\<lambda>f. frag_start x < frag_start f) fs
      in frag_start (hd (pre @ [x])) = 0 \<and> contig None pre \<and> contig None (x # post) \<and>
         (post = [] \<longrightarrow> contig None (pre @ [x])))"

lemma place_write:
  assumes x: "x \<noteq> 0" "pbufs h x = Some b" "readable h x" "20 \<le> length (pdata h x)" "ptr_ok r"
    and seg: "frag_seg h p pre x" "frag_seg h r post 0" and sep: "separate h (x # map fst (pre @ post))"
  obtains h' where "mem_write h (pb_payload b) 0 (store_ptr r @ store16 st @ store16 en) = Some h'" "same_shape h h'"
    "frag_seg h' p (pre @ (x, st, en) # post) 0" "iprh_next_pbuf h' (pb_payload b) = Some r"
    "iprh_end h' (pb_payload b) = Some en" "frag_seg h' r post 0"
    "drop 12 (pdata h' x) = drop 12 (pdata h x)" "\<And>c. pblock h c \<noteq> pblock h x \<Longrightarrow> pdata h' c = pdata h c"
proof -
  have len: "unat (pb_len b) = length (pdata h x)" by (rule length_pdata [OF x(3,2), symmetric])
  let ?w = "store_ptr r @ store16 st @ store16 en"
  have l12: "length ?w = 12" by (simp add: store16_def)
  obtain h' where h': "mem_write h (pb_payload b) 0 ?w = Some h'" "same_shape h h'"
    "pdata h' x = patch 0 ?w (pdata h x)" "\<And>c. pblock h c \<noteq> pblock h x \<Longrightarrow> pdata h' c = pdata h c"
    using mem_write_pdata [OF x(3,2), of 0 ?w] x(4) len l12 by auto
  have p: "pdata h' x = ?w @ drop 12 (pdata h x)" using h'(3) l12 by (simp add: patch_def)
  have fx: "frag h' x r st en" using p l12 x(3-5) by (simp add: frag_def same_shape_readable [OF h'(2)])
  have "separate h ([] @ x # map fst (pre @ post))" using sep by simp
  note ne = separate_ne [OF this]
  have same: "pdata h' c = pdata h c" if "c \<in> fst ` set (pre @ post)" for c
    using that by (intro h'(4) ne) auto
  have other: "frag_seg h' p fs q = frag_seg h p fs q" if "set fs \<subseteq> set (pre @ post)" for p fs q
    by (rule frag_seg_other [OF h'(2) same]) (use that in auto)
  have segs: "frag_seg h' p pre x" "frag_seg h' r post 0"
    using seg other [of pre p x] other [of post r 0] by simp_all
  have pl: "payload_of h' x = Some (pb_payload b)" using x(2) by (simp add: payload_of_def same_shape_pbufs [OF h'(2)])
  have "iprh_next_pbuf h' (pb_payload b) = Some r" "iprh_end h' (pb_payload b) = Some en"
    using frag_at [OF fx] pl by (metis option.inject)+
  moreover have "frag_seg h' p (pre @ (x, st, en) # post) 0"
    using segs fx x(1) by (auto simp: frag_seg_append)
  moreover have "drop 12 (pdata h' x) = drop 12 (pdata h x)" using p l12 by simp
  ultimately show thesis using segs(2) by (intro that [OF h'(1,2)]) (auto simp: h'(4))
qed

lemma complete6:
  assumes seg: "frag_seg h p (pre @ (x, st, en) # post) 0" "frag_seg h r post 0"
    and v: "iprh_next_pbuf h v = Some r" "iprh_end h v = Some en"
    and split: "\<forall>f \<in> set pre. below st f" "\<forall>f \<in> set post. above st en f"
  shows "reass6_complete h v p dlen (contig None (pre @ (if post = [] then [(x, st, en)] else []))) =
    Some (dlen \<noteq> 0 \<and> tested (x, st, en) (pre @ post))"
proof -
  have pre: "filter (\<lambda>f. frag_start f < st) pre = pre" "filter (\<lambda>f. st < frag_start f) pre = []"
    using split(1) by (auto simp: filter_id_conv filter_empty_conv below_def frag_start_def)
  have post: "filter (\<lambda>f. frag_start f < st) post = []" "filter (\<lambda>f. st < frag_start f) post = post"
    using split(2) by (auto simp: filter_id_conv filter_empty_conv above_def frag_start_def)
  have t: "tested (x, st, en) (pre @ post) \<longleftrightarrow> frag_start (hd (pre @ [(x, st, en)])) = 0 \<and>
      contig None (pre @ (if post = [] then [(x, st, en)] else [])) \<and> contig (Some en) post"
    by (auto simp: tested_def frag_start_def [of "(x, st, en)"] pre post Let_def contig_append)
  obtain a s e fs' where fs: "pre @ (x, st, en) # post = (a, s, e) # fs'" by (cases "pre @ (x, st, en) # post") auto
  have "hd (pre @ (x, st, en) # post) = hd (pre @ [(x, st, en)])" by (cases pre) auto
  then have s: "frag_start (hd (pre @ [(x, st, en)])) = s" unfolding fs by (metis frag_start_def fst_conv list.sel(1) snd_conv)
  obtain n where n: "p = a" "frag h a n s e" using seg(1) unfolding fs by auto
  obtain w where w: "payload_of h p = Some w" "iprh_start h w = Some s" using n(1) by (auto intro: frag_at [OF n(2)])
  obtain lv where "holes_loop h v r = Some (contig (Some en) post, lv)"
    using holes_loop [OF seg(2) v(2,1)] by blast
  then show ?thesis using w v(1) s by (auto simp: reass6_complete_def t)
qed

section \<open>Insertion\<close>

text \<open>A pbuf at its fragment header, with at least eight bytes of data and room for the helper in its own memory.\<close>

definition fragment_pbuf :: "heap \<Rightarrow> nat \<Rightarrow> bool" where
  "fragment_pbuf h x =
     (x \<noteq> 0 \<and> ptr_ok x \<and> readable h x \<and> 16 \<le> length (pdata h x) \<and>
      (\<exists>b d. pbufs h x = Some b \<and> pb_payload b = VPtr x d \<and> SIZEOF_STRUCT_PBUF + 4 \<le> d \<and>
         pb_type_internal b AND PBUF_TYPE_FLAG_STRUCT_DATA_CONTIGUOUS \<noteq> 0 \<and>
         pb_len b \<le> pb_tot_len b \<and> unat (pb_tot_len b) + 4 < 65536))"

lemma insort_split:
  assumes "\<forall>f \<in> set pre. below st f" "\<forall>f \<in> set post. above st en f"
  shows "insort_key frag_start (x, st, en) (pre @ post) = pre @ (x, st, en) # post"
proof (rule insort_between)
  show "\<forall>f \<in> set pre. frag_start f < frag_start (x, st, en)"
    using assms(1) by (auto simp: below_def frag_start_def)
  show "post = [] \<or> frag_start (x, st, en) < frag_start (hd post)"
    using assms(2) by (cases post) (auto simp: above_def frag_start_def)
qed

text \<open>
  The test passes for a datagram that is covered, and for one with a hole directly before the new
  fragment if that is put before another one.
\<close>

definition hole_before :: "fragment \<Rightarrow> fragment list \<Rightarrow> bool" where
  "hole_before f fs = (\<exists>pre post. fs = pre @ f # post \<and> post \<noteq> [] \<and> complete pre \<and>
     frag_end (last pre) < frag_start f \<and> contig None (f # post))"

lemma tested_complete:
  assumes "\<forall>f \<in> set pre. below st f" "\<forall>f \<in> set post. above st en f"
  shows "tested (x, st, en) (pre @ post) \<longleftrightarrow>
    complete (pre @ (x, st, en) # post) \<or> hole_before (x, st, en) (pre @ (x, st, en) # post)"
proof -
  have pre: "filter (\<lambda>f. frag_start f < st) pre = pre" "filter (\<lambda>f. st < frag_start f) pre = []"
    using assms(1) by (auto simp: filter_id_conv filter_empty_conv below_def frag_start_def)
  have post: "filter (\<lambda>f. frag_start f < st) post = []" "filter (\<lambda>f. st < frag_start f) post = post"
    using assms(2) by (auto simp: filter_id_conv filter_empty_conv above_def frag_start_def)
  have t: "tested (x, st, en) (pre @ post) \<longleftrightarrow> frag_start (hd (pre @ [(x, st, en)])) = 0 \<and>
      contig None pre \<and> contig (Some en) post \<and> (post = [] \<longrightarrow> contig None (pre @ [(x, st, en)]))"
    by (auto simp: tested_def frag_start_def [of "(x, st, en)"] pre post Let_def)
  have c: "complete fs = (fs \<noteq> [] \<and> frag_start (hd fs) = 0 \<and> contig None fs)" for fs
    by (cases fs) (auto simp: complete_def frag_start_def)
  have hd: "hd (pre @ (x, st, en) # post) = hd (pre @ [(x, st, en)])" by (cases pre) auto
  have app: "contig None (pre @ (x, st, en) # post) = (contig None (pre @ [(x, st, en)]) \<and> contig (Some en) post)"
    using contig_append [of None "pre @ [(x, st, en)]" post] by (simp add: last_end_def frag_end_def)
  have "(x, st, en) \<notin> set pre" "(x, st, en) \<notin> set post"
    using assms by (auto simp: below_def above_def)
  then have split: "pre @ (x, st, en) # post = as @ (x, st, en) # bs \<longleftrightarrow> pre = as \<and> post = bs" for as bs
    by (rule append_Cons_eq_iff)
  have h: "hole_before (x, st, en) (pre @ (x, st, en) # post) \<longleftrightarrow>
      post \<noteq> [] \<and> complete pre \<and> frag_end (last pre) < st \<and> contig (Some en) post"
    unfolding hole_before_def split by (auto simp: frag_start_def)
  have le: "frag_end (last pre) \<le> st" if "pre \<noteq> []"
    using assms(1) last_in_set [OF that] by (auto simp: below_def frag_end_def)
  have one: "contig None (pre @ [(x, st, en)]) \<longleftrightarrow> contig None pre \<and> (pre \<noteq> [] \<longrightarrow> frag_end (last pre) = st)"
    by (simp add: contig_append last_end_def)
  show ?thesis
    using le unfolding t h c hd app one by (cases "pre = []") (auto simp: frag_start_def)
qed

text \<open>The record of the datagram after the insertion\<close>

definition inserted6 :: "nat \<Rightarrow> u8 list \<Rightarrow> vptr \<Rightarrow> u16 \<Rightarrow> u16 \<Rightarrow> ip6_reassdata \<Rightarrow> ip6_reassdata" where
  "inserted6 p' orig v offset en d =
     (let d = d\<lparr>r6_p := p'\<rparr>;
          d = (if offset AND IP6_FRAG_OFFSET_MASK = 0 then d\<lparr>r6_iphdr := v, r6_orig_hdr := orig @ drop 12 (r6_orig_hdr d)\<rparr> else d)
      in if offset AND IP6_FRAG_MORE_FLAG = 0 then d\<lparr>r6_datagram_len := en\<rparr> else d)"

lemma reass6_insert_run:
  assumes d: "r6_mem s ipr = Some d" and fs: "frag_seg (ip_heap s) (r6_p d) fs 0" "sorted_frags fs"
    and x: "fragment_pbuf (ip_heap s) x" and ptrs: "\<forall>f \<in> set fs. ptr_ok (fst f)"
    and sep: "separate (ip_heap s) (x # map fst fs)" and st: "st = offset AND IP6_FRAG_OFFSET_MASK" "en = st + len"
  shows "if \<forall>f \<in> set fs. fits st en f then
       \<exists>pre post h' p' orig. fs = pre @ post \<and> (\<forall>f \<in> set pre. below st f) \<and> (\<forall>f \<in> set post. above st en f) \<and>
         reass6_insert ipr x offset len clen s =
           (let d' = inserted6 p' orig (current_ip6_header (ip_data s)) offset en d
            in Some (Some (r6_datagram_len d' \<noteq> 0 \<and> tested (x, st, en) fs),
               put_r6 ipr d' (s\<lparr>ip6_reass_pbufcount := ip6_reass_pbufcount s + clen, ip_heap := h'\<rparr>))) \<and>
         frag_seg h' p' (pre @ (x, st, en) # post) 0 \<and> drop 4 orig = take 8 (pdata (ip_heap s) x) \<and>
         (\<forall>c \<in> fst ` set fs. drop 12 (pdata h' c) = drop 12 (pdata (ip_heap s) c)) \<and>
         drop 12 (pdata h' x) = drop 8 (pdata (ip_heap s) x)
     else \<exists>h'. reass6_insert ipr x offset len clen s = Some (None, s\<lparr>ip_heap := h'\<rparr>) \<and>
         frag_seg h' (r6_p d) fs 0 \<and> (\<forall>c. c \<noteq> x \<longrightarrow> pdata h' c = pdata (ip_heap s) c)"
proof -
  let ?h = "ip_heap s"
  obtain b0 o0 where b0: "x \<noteq> 0" "ptr_ok x" "readable ?h x" "16 \<le> length (pdata ?h x)" "pbufs ?h x = Some b0"
    "pb_payload b0 = VPtr x o0" "SIZEOF_STRUCT_PBUF + 4 \<le> o0"
    "pb_type_internal b0 AND PBUF_TYPE_FLAG_STRUCT_DATA_CONTIGUOUS \<noteq> 0"
    "pb_len b0 \<le> pb_tot_len b0" "unat (pb_tot_len b0) + 4 < 65536"
    using x unfolding fragment_pbuf_def by blast
  have "1 \<le> unat (pb_len b0)" using length_pdata [OF b0(3,5)] b0(4) by simp
  then obtain h1 where h1: "pbuf_header_force ?h x (of_nat IPV6_FRAG_REQROOM) = Some (0, h1)"
    "readable h1 x" "drop 4 (pdata h1 x) = pdata ?h x" "length (pdata h1 x) = length (pdata ?h x) + 4"
    "pblock h1 = pblock ?h" "payload_of h1 x = Some (VPtr x (o0 - 4))"
    "\<And>c. c \<noteq> x \<Longrightarrow> payload_of h1 c = payload_of ?h c \<and> readable h1 c = readable ?h c \<and> pdata h1 c = pdata ?h c"
    using header_force_room [OF b0(5,1,3) _ b0(6-10)] by metis
  have nx: "x \<notin> fst ` set fs" using sep by (auto simp: separate_def)
  have "readable h1 c = readable ?h c \<and> pdata h1 c = pdata ?h c" if "c \<in> fst ` set fs" for c
    using that nx h1(7) [of c] by auto
  then have seg1: "frag_seg h1 (r6_p d) fs 0" using fs(1) frag_seg_away [of fs h1 ?h] by simp
  have sep1: "separate h1 (x # map fst fs)" using sep h1(5) by (simp add: separate_def)
  let ?place = "place6_loop h1 x st en (r6_p d) (r6_p d) None True"
  show ?thesis
  proof (cases "\<forall>f \<in> set fs. fits st en f")
    case False
    have "?place = Some None" by (rule place_drops [OF seg1 fs(2) False])
    then have "reass6_insert ipr x offset len clen s = Some (None, s\<lparr>ip_heap := h1\<rparr>)"
      using h1(1,6) d st by (simp add: reass6_insert_def Let_def)
    then show ?thesis using False seg1 h1(7) by auto
  next
    case True
    obtain p' h2 r pre post where pl:
      "?place = Some (Some (r, contig None (pre @ (if post = [] then [(x, st, en)] else [])), p', h2))"
      "fs = pre @ post" "\<forall>f \<in> set pre. below st f" "\<forall>f \<in> set post. above st en f"
      "same_shape h1 h2" "frag_seg h2 p' pre x" "frag_seg h2 r post 0"
      "\<And>c. c \<in> insert x (fst ` set fs) \<Longrightarrow> drop 12 (pdata h2 c) = drop 12 (pdata h1 c)"
      "\<And>c. pblock h1 c \<notin> pblock h1 ` fst ` set fs \<Longrightarrow> pdata h2 c = pdata h1 c"
      by (rule place_fits [OF seg1 fs(2) b0(1,2) sep1 True]) blast
    have "pblock h1 x \<notin> pblock h1 ` fst ` set fs" using sep1 by (simp add: separate_def image_image)
    then have px: "pdata h2 x = pdata h1 x" by (rule pl(9))
    have rx: "readable h2 x" using h1(2) by (simp add: same_shape_readable [OF pl(5)])
    obtain b where b: "pbufs h2 x = Some b" "pb_payload b = VPtr x (o0 - 4)"
      using h1(6) by (auto simp: payload_of_def same_shape_pbufs [OF pl(5)] split: option.splits)
    have lb: "unat (pb_len b) = length (pdata ?h x) + 4" using length_pdata [OF rx b(1)] px h1(4) by simp
    have orig: "mem_read h2 (pb_payload b) 0 12 = Some (take 12 (pdata h1 x))"
      using mem_read_pdata [OF rx b(1), of 0 12] lb b0(4) px by simp
    have pr: "ptr_ok r"
      using pl(2,7) ptrs by (cases post) (auto simp: ptr_ok_def)
    have l2: "20 \<le> length (pdata h2 x)" using px h1(4) b0(4) by simp
    have sep2: "separate h2 (x # map fst (pre @ post))"
      using sep1 pl(2) by (simp add: same_shape_separate [OF pl(5)])
    obtain h3 where h3: "mem_write h2 (pb_payload b) 0 (store_ptr r @ store16 st @ store16 en) = Some h3" "same_shape h2 h3"
      "frag_seg h3 p' (pre @ (x, st, en) # post) 0" "iprh_next_pbuf h3 (pb_payload b) = Some r"
      "iprh_end h3 (pb_payload b) = Some en" "frag_seg h3 r post 0"
      "drop 12 (pdata h3 x) = drop 12 (pdata h2 x)" "\<And>c. pblock h2 c \<noteq> pblock h2 x \<Longrightarrow> pdata h3 c = pdata h2 c"
      by (rule place_write [OF b0(1) b(1) rx l2 pr pl(6,7) sep2, of st en]) blast
    note comp = complete6 [OF h3(3,6,4,5) pl(3,4), folded pl(2)]
    let ?o = "take 12 (pdata h1 x)"
    let ?d = "inserted6 p' ?o (current_ip6_header (ip_data s)) offset en d"
    have run: "reass6_insert ipr x offset len clen s =
        Some (Some (r6_datagram_len ?d \<noteq> 0 \<and> tested (x, st, en) fs),
          put_r6 ipr ?d (s\<lparr>ip6_reass_pbufcount := ip6_reass_pbufcount s + clen, ip_heap := h3\<rparr>))"
      using h1(1,6) d pl(1) orig h3(1) comp b(2)
      unfolding reass6_insert_def inserted6_def Let_def st(1) [symmetric] st(2) [symmetric] by simp
    have "drop 4 ?o = take 8 (pdata ?h x)" using h1(3) by (simp flip: h1(3) add: drop_take)
    moreover have "drop 12 (pdata h3 x) = drop 8 (pdata ?h x)"
      using h3(7) px h1(3) by (simp flip: h1(3))
    moreover have "drop 12 (pdata h3 c) = drop 12 (pdata ?h c)" if c: "c \<in> fst ` set fs" for c
    proof -
      have "separate h2 ([] @ x # map fst (pre @ post))" using sep2 by simp
      from separate_ne [OF this, of c] have "pblock h2 c \<noteq> pblock h2 x" using c pl(2) by auto
      moreover have "c \<noteq> x" using c nx by auto
      ultimately show ?thesis using h3(8) pl(8) [of c] c h1(7) [of c] by simp
    qed
    ultimately show ?thesis
      using True run pl(2-4) h3(3) by (simp add: Let_def) blast
  qed
qed

section \<open>Reassembly\<close>

lemma ip6_reass_step:
  assumes x: "fragment_pbuf (ip_heap s) x" and hdr: "hdr = take 8 (pdata (ip_heap s) x)"
    and find: "reass6_find s (ldf32 hdr 4) (reassdatagrams6 s) 0 = Some (ipr, prev)" "ipr \<noteq> 0"
    and len: "pbuf_clen (ip_heap s) x = Some clen" "reass6_len x s = Some (Some len)"
    and st: "unat (lwip_htons (ldf16 hdr 2) AND IP6_FRAG_OFFSET_MASK) + unat len \<le> 0xFFFF"
    and room: "unat (ip6_reass_pbufcount s) + unat clen \<le> IP_REASS_MAX_PBUFS"
  shows "ip6_reass env x s = reass6_enter ipr prev x (lwip_htons (ldf16 hdr 2)) len clen s"
proof -
  obtain b where b: "readable (ip_heap s) x" "pbufs (ip_heap s) x = Some b" "16 \<le> length (pdata (ip_heap s) x)"
    using x by (auto simp: fragment_pbuf_def)
  have l: "length (pdata (ip_heap s) x) = unat (pb_len b)" by (rule length_pdata [OF b(1,2)])
  have "mem_read (ip_heap s) (pb_payload b) 0 8 = Some hdr"
    using mem_read_pdata [OF b(1,2), of 0 8] b(3) l hdr by simp
  moreover have "\<not> 0xFFFF - int (unat len) < int (unat (lwip_htons (ldf16 hdr 2) AND IP6_FRAG_OFFSET_MASK))"
    using st by linarith
  ultimately show ?thesis
    using b l find len room unfolding ip6_reass_def reass6_make_room_def
    by (simp add: IP6_FRAG_HLEN_def Let_def del: int_nat_eq)
qed

text \<open>C18: A fragment of a known datagram, with room for its pbufs, is inserted into the fragments
  of the datagram, which stay sorted by offset and free of overlaps, with their payloads unchanged;
  it is freed when it overlaps another one. When the last fragment has been seen, the datagram is
  completed (\<^verbatim>\<open>reass6_finish\<close>) exactly if its fragments cover it from offset 0 without a hole, or - which is a bug - with
  the only hole directly before the new fragment, if that is not put at the end.\<close>

theorem ip6_reass_correct:
  fixes st en :: u16
  assumes d: "r6_mem s ipr = Some d" "ipr \<noteq> 0"
    and fs: "frag_seg (ip_heap s) (r6_p d) fs 0" "sorted_frags fs" "\<forall>f \<in> set fs. ptr_ok (fst f)"
    and x: "fragment_pbuf (ip_heap s) x" and sep: "separate (ip_heap s) (x # map fst fs)"
  defines "hdr \<equiv> take 8 (pdata (ip_heap s) x)"
  defines "offset \<equiv> lwip_htons (ldf16 hdr 2)"
  defines "fs' \<equiv> insort_key frag_start (x, st, en) fs"
  assumes find: "reass6_find s (ldf32 hdr 4) (reassdatagrams6 s) 0 = Some (ipr, prev)"
    and len: "pbuf_clen (ip_heap s) x = Some clen" "reass6_len x s = Some (Some len)"
    and st: "st = offset AND IP6_FRAG_OFFSET_MASK" "en = st + len" "unat st + unat len \<le> 0xFFFF"
    and room: "unat (ip6_reass_pbufcount s) + unat clen \<le> IP_REASS_MAX_PBUFS"
  shows "if \<forall>f \<in> set fs. fits st en f then
      \<exists>d' s'. ip6_reass env x s =
          (if r6_datagram_len d' \<noteq> 0 \<and> (complete fs' \<or> hole_before (x, st, en) fs') then reass6_finish ipr prev s'
           else Some (0, s')) \<and>
        r6_mem s' = (r6_mem s)(ipr \<mapsto> d') \<and> ip6_reass_pbufcount s' = ip6_reass_pbufcount s + clen \<and>
        r6_datagram_len d' = (if offset AND IP6_FRAG_MORE_FLAG = 0 then en else r6_datagram_len d) \<and>
        frag_seg (ip_heap s') (r6_p d') fs' 0 \<and> sorted_frags fs' \<and>
        (\<forall>c \<in> fst ` set fs. drop 12 (pdata (ip_heap s') c) = drop 12 (pdata (ip_heap s) c)) \<and>
        drop 12 (pdata (ip_heap s') x) = drop 8 (pdata (ip_heap s) x)
    else \<exists>h'. ip6_reass env x s = reass6_nullreturn x (s\<lparr>ip_heap := h'\<rparr>) \<and>
        frag_seg h' (r6_p d) fs 0 \<and> (\<forall>c. c \<noteq> x \<longrightarrow> pdata h' c = pdata (ip_heap s) c)"
proof -
  note step = ip6_reass_step [OF x hdr_def [THEN meta_eq_to_obj_eq] find d(2) len st(3) [unfolded st(1) offset_def] room,
    of env, folded offset_def]
  note ins = reass6_insert_run [OF d(1) fs(1,2) x fs(3) sep st(1,2), of clen]
  have "st \<le> en" using st(2,3) by (simp add: word_le_nat_alt unat_word_ariths)
  show ?thesis
  proof (cases "\<forall>f \<in> set fs. fits st en f")
    case False
    obtain h' where "reass6_insert ipr x offset len clen s = Some (None, s\<lparr>ip_heap := h'\<rparr>)"
      "frag_seg h' (r6_p d) fs 0" "\<forall>c. c \<noteq> x \<longrightarrow> pdata h' c = pdata (ip_heap s) c"
      using ins unfolding if_not_P [OF False] by (elim exE conjE) (rule that)
    then show ?thesis unfolding if_not_P [OF False]
      by (intro exI [of _ h']) (simp add: step reass6_enter_def)
  next
    case True
    obtain pre post h' p' orig where r: "fs = pre @ post" "\<forall>f \<in> set pre. below st f" "\<forall>f \<in> set post. above st en f"
      "reass6_insert ipr x offset len clen s =
         (let d' = inserted6 p' orig (current_ip6_header (ip_data s)) offset en d
          in Some (Some (r6_datagram_len d' \<noteq> 0 \<and> tested (x, st, en) fs),
             put_r6 ipr d' (s\<lparr>ip6_reass_pbufcount := ip6_reass_pbufcount s + clen, ip_heap := h'\<rparr>)))"
      "frag_seg h' p' (pre @ (x, st, en) # post) 0"
      "\<forall>c \<in> fst ` set fs. drop 12 (pdata h' c) = drop 12 (pdata (ip_heap s) c)"
      "drop 12 (pdata h' x) = drop 8 (pdata (ip_heap s) x)"
      using ins unfolding if_P [OF True] by (elim exE conjE) (rule that)
    let ?d = "inserted6 p' orig (current_ip6_header (ip_data s)) offset en d"
    let ?s = "put_r6 ipr ?d (s\<lparr>ip6_reass_pbufcount := ip6_reass_pbufcount s + clen, ip_heap := h'\<rparr>)"
    have fs': "fs' = pre @ (x, st, en) # post" unfolding fs'_def r(1) by (rule insort_split [OF r(2,3)])
    have "sorted_frags fs'" unfolding fs'_def by (rule sorted_frags_insert [OF fs(2) True \<open>st \<le> en\<close>])
    moreover have "ip6_reass env x s =
        (if r6_datagram_len ?d \<noteq> 0 \<and> (complete fs' \<or> hole_before (x, st, en) fs') then reass6_finish ipr prev ?s
         else Some (0, ?s))"
      unfolding step reass6_enter_def r(4) tested_complete [OF r(2,3), of x, folded r(1) fs', symmetric]
      by (simp add: Let_def)
    moreover have "r6_datagram_len ?d = (if offset AND IP6_FRAG_MORE_FLAG = 0 then en else r6_datagram_len d)" "r6_p ?d = p'"
      by (simp_all add: inserted6_def Let_def)
    moreover have "r6_mem ?s = (r6_mem s)(ipr \<mapsto> ?d)" "ip6_reass_pbufcount ?s = ip6_reass_pbufcount s + clen" "ip_heap ?s = h'"
      by (simp_all add: put_r6_def)
    ultimately show ?thesis unfolding if_P [OF True]
      by (intro exI [of _ ?d] exI [of _ ?s] conjI) (use r(5-7) fs' in auto)
  qed
qed

section \<open>An instance\<close>

text \<open>
  A datagram with the fragments from 0 to 8 and from 24 to 32, the latter the last one; the fragment
  from 16 to 24 arrives. The bytes from 8 to 16 are missing, but the datagram is completed.
\<close>

definition demo_frag6 :: "nat \<Rightarrow> nat \<Rightarrow> u16 \<Rightarrow> pbuf" where
  "demo_frag6 a off len = \<lparr>pb_next = 0, pb_payload = VPtr a off, pb_tot_len = len, pb_len = len,
     pb_type_internal = 0x80, pb_flags = 0, pb_ref = 1, pb_if_idx = 0, pb_custom = None\<rparr>"

definition demo_reass6_heap :: heap where
  "demo_reass6_heap = demo_tcp_heap\<lparr>
     pbufs := [1 \<mapsto> demo_frag6 1 60 20, 2 \<mapsto> demo_frag6 2 64 16, 3 \<mapsto> demo_frag6 3 60 20],
     blocks := [1 \<mapsto> replicate 60 0 @ [3, 0, 0, 0, 0, 0, 0, 0, 0, 0, 8, 0] @ [1, 2, 3, 4, 5, 6, 7, 8],
       2 \<mapsto> replicate 28 0 @ [0, 16] @ replicate 34 0 @ [17, 0, 0, 0x11, 0, 0, 0, 7] @ [17, 18, 19, 20, 21, 22, 23, 24],
       3 \<mapsto> replicate 60 0 @ [0, 0, 0, 0, 0, 0, 0, 0, 24, 0, 32, 0] @ [25, 26, 27, 28, 29, 30, 31, 32]]\<rparr>"

definition demo_addr6 :: ip6_addr_t where
  "demo_addr6 = \<lparr>ip6_a0 = 0, ip6_a1 = 0, ip6_a2 = 0, ip6_a3 = 0x1000000, ip6_zone = 0\<rparr>"

definition demo_r6 :: ip6_reassdata where
  "demo_r6 = \<lparr>r6_next = 0, r6_p = 1, r6_iphdr = VPtr 1 24, r6_src = demo_addr6, r6_dest = demo_addr6,
     r6_orig_hdr = replicate 16 0, r6_identification = 0x7000000, r6_datagram_len = 32, r6_nexth = 17,
     r6_timer = 60, r6_src_zone = 0, r6_dest_zone = 0\<rparr>"

definition demo_reass6 :: reass6_state where
  "demo_reass6 = tcp_state.extend
     (demo_tcp\<lparr>ip_heap := demo_reass6_heap, ip_data := (ip_data demo_tcp)\<lparr>current_ip6_header := VPtr 2 24,
        current_iphdr_src := \<lparr>u_addr = demo_addr6, ip_type = IPADDR_TYPE_V6\<rparr>,
        current_iphdr_dest := \<lparr>u_addr = demo_addr6, ip_type = IPADDR_TYPE_V6\<rparr>\<rparr>\<rparr>)
     \<lparr>r6_mem = [1 \<mapsto> demo_r6], reassdatagrams6 = 1, ip6_reass_pbufcount = 2, r6_nxt = 2, r6_malloc_ok = \<lambda>_. True\<rparr>"

lemma demo_reass6_fields: "ip_heap demo_reass6 = demo_reass6_heap" "r6_mem demo_reass6 = [1 \<mapsto> demo_r6]"
  "reassdatagrams6 demo_reass6 = 1" "ip6_reass_pbufcount demo_reass6 = 2"
  "current_ip6_header (ip_data demo_reass6) = VPtr 2 24"
  "ip_2_ip6 (current_iphdr_src (ip_data demo_reass6)) = demo_addr6"
  "ip_2_ip6 (current_iphdr_dest (ip_data demo_reass6)) = demo_addr6"
  by (simp_all add: demo_reass6_def tcp_state.defs ip_2_ip6_def)

lemma demo_reass6_pbufs: "pbufs demo_reass6_heap 1 = Some (demo_frag6 1 60 20)"
  "pbufs demo_reass6_heap 2 = Some (demo_frag6 2 64 16)" "pbufs demo_reass6_heap 3 = Some (demo_frag6 3 60 20)"
  by (simp_all add: demo_reass6_heap_def)

lemma demo_reass6_pdata:
  "pdata demo_reass6_heap 1 = [3, 0, 0, 0, 0, 0, 0, 0, 0, 0, 8, 0] @ [1, 2, 3, 4, 5, 6, 7, 8]"
  "pdata demo_reass6_heap 2 = [17, 0, 0, 0x11, 0, 0, 0, 7] @ [17, 18, 19, 20, 21, 22, 23, 24]"
  "pdata demo_reass6_heap 3 = [0, 0, 0, 0, 0, 0, 0, 0, 24, 0, 32, 0] @ [25, 26, 27, 28, 29, 30, 31, 32]"
  by (simp_all add: demo_reass6_heap_def demo_frag6_def pdata_def mem_read_def buf_read_def)

lemma demo_reass6_readable: "readable demo_reass6_heap 1" "readable demo_reass6_heap 2" "readable demo_reass6_heap 3"
  by (simp_all add: demo_reass6_heap_def demo_frag6_def readable_def mem_read_def buf_read_def)

lemma demo_reass6_pblock: "pblock demo_reass6_heap 1 = 1" "pblock demo_reass6_heap 2 = 2" "pblock demo_reass6_heap 3 = 3"
  using demo_reass6_pbufs by (simp_all add: pblock_def demo_frag6_def)

lemma demo_reass6_frag: "frag demo_reass6_heap 1 3 0 8" "frag demo_reass6_heap 3 0 24 32"
  using demo_reass6_readable
  by (simp_all add: frag_def demo_reass6_pdata [simplified] ptr_ok_def store_ptr_def store16_def upt_rec)

lemma demo_reass6_new: "fragment_pbuf demo_reass6_heap 2" "pbuf_clen demo_reass6_heap 2 = Some 1"
proof -
  show "fragment_pbuf demo_reass6_heap 2"
    using demo_reass6_readable demo_reass6_pbufs
    by (simp add: fragment_pbuf_def demo_reass6_pdata [simplified] ptr_ok_def demo_frag6_def SIZEOF_STRUCT_PBUF_def
        PBUF_TYPE_FLAG_STRUCT_DATA_CONTIGUOUS_def)
  have "chain demo_reass6_heap 2 [2]" using demo_reass6_pbufs(2) by (simp add: demo_frag6_def)
  then show "pbuf_clen demo_reass6_heap 2 = Some 1" using pbuf_clen_chain by fastforce
qed

lemma demo_reass6_hdr:
  "lwip_htons (ldf16 (take 8 (pdata demo_reass6_heap 2)) 2) = 0x11" "ldf32 (take 8 (pdata demo_reass6_heap 2)) 4 = 0x7000000"
  by (simp_all add: demo_reass6_pdata ldf16_def ldf32_def lwip_htons_def)

lemma demo_reass6_len: "reass6_len 2 demo_reass6 = Some (Some 8)"
  using demo_reass6_pbufs(2)
  by (simp add: reass6_len_def demo_reass6_fields payload_of_def vptr_diff_def demo_frag6_def)
    (simp add: demo_reass6_heap_def mem_read_def buf_read_def ldf16_def lwip_htons_def IP6_HLEN_def IP6_FRAG_HLEN_def)

lemma demo_reass6_find: "reass6_find demo_reass6 0x7000000 1 0 = Some (1, 0)"
  by (subst reass6_find.simps) (simp add: demo_reass6_fields demo_r6_def ip6_addr_cmp_packed_def demo_addr6_def)

theorem ip6_reass_correct_witness:
  "\<forall>env. \<exists>d' s'. ip6_reass env 2 demo_reass6 = reass6_finish 1 0 s' \<and> r6_mem s' = [1 \<mapsto> d'] \<and>
    r6_datagram_len d' = 32 \<and> frag_seg (ip_heap s') (r6_p d') [(1, 0, 8), (2, 16, 24), (3, 24, 32)] 0"
proof
  fix env :: "reass6_state ip6_env"
  let ?fs = "[(1, 0, 8), (3, 24, 32)] :: fragment list"
  have seg: "frag_seg demo_reass6_heap (r6_p demo_r6) ?fs 0" using demo_reass6_frag by (auto simp: demo_r6_def)
  have sorted: "sorted_frags ?fs" by (simp add: sorted_frags_def frag_start_def frag_end_def)
  have ptrs: "\<forall>f \<in> set ?fs. ptr_ok (fst f)" by (simp add: ptr_ok_def)
  have sep: "separate demo_reass6_heap (2 # map fst ?fs)" by (simp add: separate_def demo_reass6_pblock [simplified])
  have fit: "\<forall>f \<in> set ?fs. fits 16 24 f" by (simp add: fits_def below_def above_def)
  have ins: "insort_key frag_start (2, 16, 24) ?fs = [(1, 0, 8), (2, 16, 24), (3, 24, 32)]" by (simp add: frag_start_def)
  have test: "hole_before (2, 16, 24) [(1, 0, 8), (2, 16, 24), (3, 24, 32)]"
    unfolding hole_before_def
    by (intro exI [of _ "[(1, 0, 8)]"] exI [of _ "[(3, 24, 32)]"]) (simp add: complete_def frag_start_def frag_end_def)
  have at: "r6_mem demo_reass6 1 = Some demo_r6" by (simp add: demo_reass6_fields)
  have st: "(16 :: u16) = 0x11 AND IP6_FRAG_OFFSET_MASK" "(24 :: u16) = 16 + 8" "unat (16 :: u16) + unat (8 :: u16) \<le> 0xFFFF"
    by (simp_all add: IP6_FRAG_OFFSET_MASK_def)
  note r = ip6_reass_correct [OF at, where x = 2 and st = 16 and en = 24 and len = 8 and clen = 1 and fs = ?fs and env = env
      and prev = 0, unfolded demo_reass6_fields demo_reass6_hdr ins,
      OF _ seg sorted ptrs demo_reass6_new(1) sep demo_reass6_find demo_reass6_new(2) demo_reass6_len st]
  show "\<exists>d' s'. ip6_reass env 2 demo_reass6 = reass6_finish 1 0 s' \<and> r6_mem s' = [1 \<mapsto> d'] \<and>
    r6_datagram_len d' = 32 \<and> frag_seg (ip_heap s') (r6_p d') [(1, 0, 8), (2, 16, 24), (3, 24, 32)] 0"
    using r fit test by (simp add: IP_REASS_MAX_PBUFS_def IP6_FRAG_MORE_FLAG_def demo_r6_def) (elim ex_forward; simp)
qed

section \<open>A first fragment with too many pbufs\<close>

text \<open>\<^verbatim>\<open>n\<close> calls of the timer, \<^term>\<open>None\<close> when one of them does not return.\<close>

definition reass6_ticks ::
  "'a reass6_state_scheme ip6_env \<Rightarrow> nat \<Rightarrow> 'a reass6_state_scheme \<Rightarrow> 'a reass6_state_scheme option" where
  "reass6_ticks env n s = ((\<lambda>t. t \<bind> ip6_reass_tmr env) ^^ n) (Some s)"

lemma tmr_waits:
  assumes "r6_mem s r = Some d" "reassdatagrams6 s = r" "r \<noteq> 0" "r6_next d = 0" "0 < r6_timer d"
  shows "ip6_reass_tmr env s = Some (put_r6 r (d\<lparr>r6_timer := r6_timer d - 1\<rparr>) s)"
  using assms
  by (simp add: ip6_reass_tmr_def reass6_tmr_loop.simps [of env r] reass6_tmr_loop.simps [of env 0])

lemma tmr_aborts:
  assumes "r6_mem s r = Some d" "reassdatagrams6 s = r" "r \<noteq> 0" "r6_timer d = 0" "r6_p d = 0" "pbufs (ip_heap s) 0 = None"
  shows "ip6_reass_tmr env s = None"
  using assms
  by (simp add: ip6_reass_tmr_def reass6_tmr_loop.simps [of env r] ip6_reass_free_complete_datagram_def payload_of_def)

lemma empty_datagram_ticks:
  assumes d: "r6_mem s r = Some d" "reassdatagrams6 s = r" "r \<noteq> 0" "r6_next d = 0" "r6_p d = 0"
    and heap: "pbufs (ip_heap s) 0 = None"
  shows "reass6_ticks env n s = None \<longleftrightarrow> unat (r6_timer d) < n"
proof -
  have waits: "reass6_ticks env n s = Some (put_r6 r (d\<lparr>r6_timer := r6_timer d - of_nat n\<rparr>) s)"
    if "n \<le> unat (r6_timer d)" for n
    using that
  proof (induction n)
    case 0
    then show ?case using d(1) by (simp add: reass6_ticks_def put_r6_def fun_upd_idem)
  next
    case (Suc n)
    let ?d = "d\<lparr>r6_timer := r6_timer d - of_nat n\<rparr>"
    have "n < 256" using Suc.prems unat_u8_less [of "r6_timer d"] by linarith
    then have "unat (of_nat n :: u8) = n" by (simp add: unat_of_nat)
    then have "0 < r6_timer ?d" using Suc.prems by (simp add: word_less_nat_alt unat_sub word_le_nat_alt)
    then have "ip6_reass_tmr env (put_r6 r ?d s) = Some (put_r6 r (?d\<lparr>r6_timer := r6_timer ?d - 1\<rparr>) (put_r6 r ?d s))"
      using d by (intro tmr_waits) (simp_all add: put_r6_def)
    then show ?case using Suc by (simp add: reass6_ticks_def put_r6_def algebra_simps)
  qed
  have "reass6_ticks env (Suc (unat (r6_timer d)) + k) s = None" for k
  proof (induction k)
    case 0
    let ?d = "d\<lparr>r6_timer := r6_timer d - of_nat (unat (r6_timer d))\<rparr>"
    have "ip6_reass_tmr env (put_r6 r ?d s) = None"
      using d heap by (intro tmr_aborts [where d = ?d]) (simp_all add: put_r6_def)
    then show ?case using waits [of "unat (r6_timer d)"] by (simp add: reass6_ticks_def)
  qed (simp add: reass6_ticks_def)
  note stops = this
  show ?thesis
  proof (cases "n \<le> unat (r6_timer d)")
    case True
    then show ?thesis using waits [OF True] by simp
  next
    case False
    then obtain k where "n = Suc (unat (r6_timer d)) + k" using less_iff_Suc_add [of "unat (r6_timer d)" n] by auto
    then show ?thesis using stops [of k] False by simp
  qed
qed

text \<open>C12: When no datagram waits and a fragment of a new one, with valid headers, has more pbufs than
  may be queued, the fragment is freed and NULL is returned, but its datagram stays in the list with a
  NULL pointer for its fragments; the timer then returns 60 times and aborts on that pointer at the
  next call.\<close>

theorem ip6_reass_empty_datagram_aborts:
  assumes none: "reassdatagrams6 s = 0" "r6_malloc_ok s (r6_nxt s)" "r6_nxt s \<noteq> 0"
    and x: "packet (ip_heap s) x as" "list_all (owned (ip_heap s)) as" "x \<noteq> 0" "pbufs (ip_heap s) 0 = None"
    and frag: "8 \<le> length (pdata (ip_heap s) x)" "reass6_len x s = Some (Some len)"
      "mem_read (ip_heap s) (current_ip6_header (ip_data s)) 0 IP6_HLEN \<noteq> None"
      "unat (lwip_htons (ldf16 (pdata (ip_heap s) x) 2) AND IP6_FRAG_OFFSET_MASK) + unat len \<le> 0xFFFF"
    and many: "IP_REASS_MAX_PBUFS < unat (ip6_reass_pbufcount s) + length as" "length as < 65536"
  shows "\<exists>s'. ip6_reass env x s = Some (0, s') \<and> ip_heap s' = release (ip_heap s) as \<and>
    reassdatagrams6 s' = r6_nxt s \<and> map_option r6_p (r6_mem s' (r6_nxt s)) = Some 0 \<and>
    (\<forall>n. reass6_ticks env n s' = None \<longleftrightarrow> 60 < n)"
proof -
  let ?h = "ip_heap s"
  let ?frag = "take 8 (pdata ?h x)"
  let ?r = "r6_nxt s"
  obtain b xs where b: "pbufs ?h x = Some b" "readable ?h x"
    by (rule packet_nonzero [OF x(1,3)]) blast
  have l: "length (pdata ?h x) = unat (pb_len b)" by (rule length_pdata [OF b(2,1)])
  have rd: "mem_read ?h (pb_payload b) 0 8 = Some ?frag" using mem_read_pdata [OF b(2,1), of 0 8] frag(1) l by simp
  obtain hdr where hdr: "mem_read ?h (current_ip6_header (ip_data s)) 0 IP6_HLEN = Some hdr" using frag(3) by auto
  have chain: "chain ?h x as" using x(1) by (simp add: packet_def)
  have clen: "pbuf_clen ?h x = Some (of_nat (length as))" by (rule pbuf_clen_chain [OF chain])
  have un: "unat (of_nat (length as) :: u16) = length as" by (rule unat_of_nat_u16 [OF many(2)])
  have free: "pbuf_free ?h x = Some (of_nat (length (sole ?h as)), release ?h as)"
    by (rule pbuf_free_release [OF chain x(2,3)])
  have find: "reass6_find s i 0 0 = Some (0, 0)" for i by (simp add: reass6_find.simps)
  obtain d s1 where new: "reass6_new env ?frag (length as) 0 s = Some (?r, 0, s1)"
    and s1: "r6_mem s1 ?r = Some d" "reassdatagrams6 s1 = ?r" "ip_heap s1 = ?h" "ip6_reass_pbufcount s1 = ip6_reass_pbufcount s"
    and d: "r6_next d = 0" "r6_p d = 0" "r6_timer d = 60"
    using none hdr by (simp add: reass6_new_def memp_malloc_reassdata6_def Let_def put_r6_def IPV6_REASS_MAXAGE_def)
  have "oldest6_loop s1 ?r ?r ?r = Some ?r"
    using none(3) s1 d by (simp add: oldest6_loop.simps [of s1 ?r ?r] oldest6_loop.simps [of s1 ?r 0])
  then have "ip6_reass_remove_oldest_datagram env ?r n s1 = Some s1" for n
    using s1(2) by (subst ip6_reass_remove_oldest_datagram.simps) simp
  then have room: "reass6_make_room env ?r (length as) 0 s1 = Some (False, 0, s1)"
    using many(1) s1(4) by (simp add: reass6_make_room_def)
  have "\<not> 0xFFFF - int (unat len) < int (unat (lwip_htons (ldf16 ?frag 2) AND IP6_FRAG_OFFSET_MASK))"
  proof -
    have "ldf16 ?frag 2 = ldf16 (pdata ?h x) 2" using frag(1) by (simp add: ldf16_def)
    moreover have "\<not> 0xFFFF - int (unat len) < int (unat (lwip_htons (ldf16 (pdata ?h x) 2) AND IP6_FRAG_OFFSET_MASK))"
      using frag(4) by linarith
    ultimately show ?thesis by (simp only: not_False_eq_True)
  qed
  then have "ip6_reass env x s = reass6_nullreturn x s1"
    using b l rd clen frag(1,2) find new room un none(1,3)
    by (simp add: ip6_reass_def IP6_FRAG_HLEN_def Let_def del: int_nat_eq)
  then have run: "ip6_reass env x s = Some (0, s1\<lparr>ip_heap := release ?h as\<rparr>)"
    using free s1(3) by (simp add: reass6_nullreturn_def icmp6_free_def)
  have "pbufs (ip_heap (s1\<lparr>ip_heap := release ?h as\<rparr>)) 0 = None" using x(4) by (simp add: release_def)
  then have "reass6_ticks env n (s1\<lparr>ip_heap := release ?h as\<rparr>) = None \<longleftrightarrow> unat (r6_timer d) < n" for n
    using s1 d none(3) by (intro empty_datagram_ticks) simp_all
  then show ?thesis using run s1(1,2) d(2,3) by auto
qed

text \<open>A first fragment of 88 bytes in eleven pbufs; no datagram waits.\<close>

definition demo_many_pbuf :: "nat \<Rightarrow> pbuf" where
  "demo_many_pbuf a = \<lparr>pb_next = (if a = 11 then 0 else a + 1), pb_payload = VPtr a 64,
     pb_tot_len = (if a = 1 then 96 else of_nat (8 * (12 - a))), pb_len = (if a = 1 then 16 else 8),
     pb_type_internal = 0x80, pb_flags = 0, pb_ref = 1, pb_if_idx = 0, pb_custom = None\<rparr>"

definition demo_many_heap :: heap where
  "demo_many_heap = demo_tcp_heap\<lparr>
     pbufs := (\<lambda>a. if a \<in> {1..11} then Some (demo_many_pbuf a) else None),
     blocks := (\<lambda>a. Some (if a = 1 then replicate 28 0 @ [0, 96] @ replicate 34 0 @ [17, 0, 0, 1, 0, 0, 0, 7] @ replicate 8 1
       else replicate 64 0 @ replicate 8 1))\<rparr>"

definition demo_many :: reass6_state where
  "demo_many = tcp_state.extend
     (demo_tcp\<lparr>ip_heap := demo_many_heap, ip_data := (ip_data demo_tcp)\<lparr>current_ip6_header := VPtr 1 24,
        current_iphdr_src := \<lparr>u_addr = demo_addr6, ip_type = IPADDR_TYPE_V6\<rparr>,
        current_iphdr_dest := \<lparr>u_addr = demo_addr6, ip_type = IPADDR_TYPE_V6\<rparr>\<rparr>\<rparr>)
     \<lparr>r6_mem = Map.empty, reassdatagrams6 = 0, ip6_reass_pbufcount = 0, r6_nxt = 2, r6_malloc_ok = \<lambda>_. True\<rparr>"

lemma demo_many_fields: "ip_heap demo_many = demo_many_heap" "reassdatagrams6 demo_many = 0"
  "ip6_reass_pbufcount demo_many = 0" "r6_nxt demo_many = 2" "r6_malloc_ok demo_many = (\<lambda>_. True)"
  "current_ip6_header (ip_data demo_many) = VPtr 1 24"
  by (simp_all add: demo_many_def tcp_state.defs)

lemma demo_many_pbufs: "pbufs demo_many_heap a = (if a \<in> {1..11} then Some (demo_many_pbuf a) else None)"
  by (simp add: demo_many_heap_def)

lemma demo_many_packet: "packet demo_many_heap 1 [1..<12]" "list_all (owned demo_many_heap) [1..<12]"
proof -
  have "chain demo_many_heap 1 [1..<12]" by (simp add: upt_rec demo_many_pbufs demo_many_pbuf_def)
  moreover have rd: "\<forall>a \<in> set [1..<12]. readable demo_many_heap a"
    by (simp add: readable_def demo_many_pbufs demo_many_pbuf_def demo_many_heap_def mem_read_def buf_read_def)
  moreover have "length (pdata demo_many_heap a) = (if a = 1 then 16 else 8)" if "1 \<le> a" "a \<le> 11" for a
    using that
    by (simp add: pdata_def demo_many_pbufs demo_many_pbuf_def demo_many_heap_def mem_read_def buf_read_def)
  then have "totals demo_many_heap [1..<12]" by (simp add: upt_rec demo_many_pbufs demo_many_pbuf_def)
  ultimately show "packet demo_many_heap 1 [1..<12]" by (simp add: packet_def list_all_iff)
  show "list_all (owned demo_many_heap) [1..<12]"
    by (simp add: list_all_iff owned_def demo_many_pbufs demo_many_pbuf_def pbuf_get_allocsrc_def PBUF_FLAG_IS_CUSTOM_def
        PBUF_TYPE_ALLOC_SRC_MASK_def)
qed

lemma demo_many_pdata: "pdata demo_many_heap 1 = [17, 0, 0, 1, 0, 0, 0, 7] @ replicate 8 1"
  by (simp add: pdata_def demo_many_pbufs demo_many_pbuf_def demo_many_heap_def mem_read_def buf_read_def)

lemma demo_many_len: "reass6_len 1 demo_many = Some (Some 88)"
  by (simp add: reass6_len_def demo_many_fields payload_of_def vptr_diff_def demo_many_pbufs demo_many_pbuf_def)
    (simp add: demo_many_heap_def mem_read_def buf_read_def ldf16_def lwip_htons_def IP6_HLEN_def IP6_FRAG_HLEN_def)

lemma demo_many_hdr: "mem_read demo_many_heap (VPtr 1 24) 0 IP6_HLEN \<noteq> None"
  by (simp add: demo_many_heap_def mem_read_def buf_read_def IP6_HLEN_def)

theorem ip6_reass_empty_datagram_aborts_witness:
  "\<forall>env. \<exists>s'. ip6_reass env 1 demo_many = Some (0, s') \<and> reass6_ticks env 60 s' \<noteq> None \<and> reass6_ticks env 61 s' = None"
proof
  fix env :: "reass6_state ip6_env"
  have "unat (lwip_htons (ldf16 (pdata demo_many_heap 1) 2) AND IP6_FRAG_OFFSET_MASK) + unat (88 :: u16) \<le> 0xFFFF"
    by (simp add: demo_many_pdata [simplified] ldf16_def lwip_htons_def IP6_FRAG_OFFSET_MASK_def)
  then show "\<exists>s'. ip6_reass env 1 demo_many = Some (0, s') \<and> reass6_ticks env 60 s' \<noteq> None \<and> reass6_ticks env 61 s' = None"
    using ip6_reass_empty_datagram_aborts [of demo_many 1 "[1..<12]" 88 env, unfolded demo_many_fields]
      demo_many_packet demo_many_pdata [simplified] demo_many_len demo_many_hdr demo_many_pbufs [of 0]
    by (simp add: IP_REASS_MAX_PBUFS_def) (elim ex_forward; simp flip: not_None_eq)
qed

end
