(* ===== verification/Lwip_Udp_Reach.thy ===== *)
theory Lwip_Udp_Reach
  imports Lwip_Tcp_Frame
begin

text \<open>
  All histories of UDP: every function of \<^verbatim>\<open>udp.c\<close> is a step, those that send and receive as well
  as those of the application interface and the change of an interface's address. The states they
  lead to from the initial one keep the invariant of the PCB list.
\<close>

section \<open>Sending and receiving\<close>

text \<open>What the invariant looks at.\<close>

definition udp_view :: "'a udp_state_scheme \<Rightarrow> (nat \<Rightarrow> udp_pcb option) \<times> nat \<times> u16 \<times> nat" where
  "udp_view s = (udp_mem s, udp_pcbs s, udp_port s, udp_nxt s)"

lemma udp_view_simps [simp]: "udp_view (s\<lparr>ip_heap := h\<rparr>) = udp_view s" "udp_view (s\<lparr>ip_id := i\<rparr>) = udp_view s"
  by (simp_all add: udp_view_def)

lemma udp_wf_view: "udp_view s' = udp_view s \<Longrightarrow> udp_wf s' as = udp_wf s as"
  by (simp add: udp_view_def udp_wf_def upcb_def)

text \<open>
  The functions outside UDP leave its PCBs alone. A receive function that calls UDP is covered too:
  \<^verbatim>\<open>udp_input\<close> does nothing after it, so its calls are steps that follow.
\<close>

definition udp_quiet :: "'a udp_state_scheme ip_env \<Rightarrow> bool" where
  "udp_quiet env \<longleftrightarrow> ip_keeps udp_view env \<and>
     (\<forall>p src dest ttl tos proto n s e s'. env_output6 env p src dest ttl tos proto n s = Some (e, s') \<longrightarrow> udp_view s' = udp_view s) \<and>
     (\<forall>p c s s'. env_dest_unreach env p c s = Some s' \<longrightarrow> udp_view s' = udp_view s) \<and>
     (\<forall>p c s s'. env_dest_unreach6 env p c s = Some s' \<longrightarrow> udp_view s' = udp_view s) \<and>
     (\<forall>f a pcb p src sp dest dp s s'. env_udp_recv env f a pcb p src sp dest dp s = Some s' \<longrightarrow> udp_view s' = udp_view s)"

lemma ip_output_if_src_view:
  assumes "ip_output_if_src env p src dest ttl tos proto netif s = Some (e, s')" "udp_quiet env"
  shows "udp_view s' = udp_view s"
proof (cases "IP_IS_V6 dest")
  case True
  then show ?thesis using assms by (simp add: ip_output_if_src_def udp_quiet_def)
next
  case False
  then have r: "ip4_output_if_src env p (Some (ip_2_ip4 src)) (Some (ip_2_ip4 dest)) ttl tos proto netif s = Some (e, s')"
    using assms(1) by (simp add: ip_output_if_src_def)
  have k: "ip_keeps udp_view env" using assms(2) by (simp add: udp_quiet_def)
  from r show ?thesis
    by (auto simp: ip4_output_if_src_def Let_def ip_keeps_simps [OF k]
        split: if_splits bind_splits option.splits prod.splits dest!: ip4_send_keeps [OF _ k])
qed

lemma udp_free_pbuf_view: "udp_free_pbuf p s = Some s' \<Longrightarrow> udp_view s' = udp_view s"
  by (auto simp: udp_free_pbuf_def split: bind_splits)

lemma udp_sendto_if_src_chksum_wf:
  assumes "udp_sendto_if_src_chksum env pcb p dst_ip dst_port netif have_chksum chksum src_ip src_port s = Some (e, s')"
    and "udp_quiet env" "udp_wf s as"
  shows "\<exists>as'. udp_wf s' as'"
proof -
  obtain b where b: "udp_mem s pcb = Some b"
    using assms(1) by (auto simp: udp_sendto_if_src_chksum_def split: bind_splits)
  show ?thesis
  proof (cases "IP_ADDR_PCB_VERSION_MATCH b src_ip \<and> IP_ADDR_PCB_VERSION_MATCH b dst_ip")
    case False
    then have "s' = s" using assms(1) b by (auto simp: udp_sendto_if_src_chksum_def split: bind_splits)
    then show ?thesis using assms(3) by blast
  next
    case True
    obtain err s1 where s1: "(if up_local_port b = 0 then udp_bind pcb (Some (up_local_ip b)) (up_local_port b) s
        else Some (ERR_OK, s)) = Some (err, s1)"
      using assms(1) b True by (auto simp: udp_sendto_if_src_chksum_def split: bind_splits if_splits)
    have wf1: "\<exists>as'. udp_wf s1 as'"
      using s1 assms(3) udp_bind_ok [OF assms(3) b, of "Some (up_local_ip b)" "up_local_port b"] by (auto split: if_splits)
    have "udp_view s' = udp_view s1"
      using assms(1) b True s1
      by (auto simp: udp_sendto_if_src_chksum_def Let_def split: bind_splits if_splits sum.splits prod.splits
          dest!: ip_output_if_src_view [OF _ assms(2)] udp_free_pbuf_view)
    then show ?thesis using wf1 udp_wf_view by blast
  qed
qed

lemma udp_deliver_view:
  assumes "udp_deliver env m p pcb inp broadcast src dest s = Some s'" "udp_quiet env"
  shows "udp_view s' = udp_view s"
proof -
  have q: "env_udp_recv env f a c p x sp y dp t = Some t' \<Longrightarrow> udp_view t' = udp_view t"
    "env_dest_unreach env p code t = Some t' \<Longrightarrow> udp_view t' = udp_view t"
    "env_dest_unreach6 env p code t = Some t' \<Longrightarrow> udp_view t' = udp_view t" for f a c x sp y dp t t' code
    using assms(2) unfolding udp_quiet_def by blast+
  show ?thesis
    using assms(1) unfolding udp_deliver_def Let_def
    by (auto split: bind_splits if_splits option.splits prod.splits dest!: udp_free_pbuf_view q)
qed

lemma udp_input_view:
  assumes "udp_input env m p inp s = Some s'" "udp_quiet env"
  shows "udp_view s' = udp_view s"
proof -
  have "udp_input_search TUN2SOCKS inp bc src dest pcb 0 0 s = Some (pcb, 0, s)" for bc src dest pcb
    by (subst udp_input_search.simps) (simp add: TUN2SOCKS_def)
  then show ?thesis
    using assms(1) unfolding udp_input_def Let_def
    by (auto split: bind_splits if_splits dest!: udp_free_pbuf_view udp_deliver_view [OF _ assms(2)])
qed

section \<open>The other steps\<close>

lemma udp_new_ip_type_wf:
  assumes "udp_new_ip_type type s = Some (pcb, s')" "udp_wf s as"
  shows "udp_wf s' as"
proof (cases "udp_malloc_ok s (udp_nxt s)")
  case False
  then show ?thesis using assms udp_new_wf [OF assms(2)] by (auto simp: udp_new_ip_type_def udp_new_def Let_def)
next
  case True
  let ?s = "snd (udp_new s)"
  have wf: "udp_wf ?s as" by (rule udp_new_wf [OF assms(2)])
  have a: "fst (udp_new s) = udp_nxt s" "udp_nxt s \<noteq> 0" "udp_mem s (udp_nxt s) = None"
    using True assms(2) by (auto simp: udp_new_def udp_wf_def Let_def)
  obtain b where b: "udp_mem ?s (udp_nxt s) = Some b" "up_local_port b = 0"
    using True by (simp add: udp_new_def Let_def)
  have out: "udp_nxt s \<notin> set as"
    using nodes_present [OF udp_wf_nodes [OF assms(2)]] a(3) by fastforce
  have "s' = put_udp (udp_nxt s) (b\<lparr>up_local_ip := (up_local_ip b)\<lparr>ip_type := type\<rparr>,
      up_remote_ip := (up_remote_ip b)\<lparr>ip_type := type\<rparr>\<rparr>) ?s"
    using assms(1) a b by (auto simp: udp_new_ip_type_def Let_def split: prod.splits)
  then show ?thesis
    using wf out b a udp_wf_present(2) [OF wf b(1)] unfolding udp_wf_def by (auto split: if_splits)
qed

text \<open>The walk that gives the PCBs of an interface's old address the new one\<close>

definition readdressed :: "ip_addr_t \<Rightarrow> ip_addr_t \<Rightarrow> udp_pcb \<Rightarrow> udp_pcb" where
  "readdressed old_addr new_addr b =
     (if ip_addr_cmp (up_local_ip b) old_addr then b\<lparr>up_local_ip := ip_addr_set (up_local_ip b) new_addr\<rparr> else b)"

lemma readdressed_simps [simp]: "up_next (readdressed x y b) = up_next b" "up_local_port (readdressed x y b) = up_local_port b"
  by (simp_all add: readdressed_def)

lemma udp_readdress_list:
  assumes "node_list mem up_next p as"
  shows "udp_readdress mem x y p = Some (\<lambda>a. if a \<in> set as then map_option (readdressed x y) (mem a) else mem a)"
  using assms
proof (induction as arbitrary: p mem)
  case Nil
  then show ?case by (simp add: udp_readdress.simps)
next
  case (Cons a as)
  then obtain b where b: "mem a = Some b" "node_list mem up_next (up_next b) as" "p = a" "a \<noteq> 0"
    by (auto split: option.splits)
  have out: "a \<notin> set as" using node_list_distinct [OF Cons.prems] by simp
  let ?mem = "mem(a \<mapsto> readdressed x y b)"
  have "udp_readdress mem x y p = udp_readdress ?mem x y (up_next b)"
    using b by (subst udp_readdress.simps) (simp add: readdressed_def cong: if_cong)
  also have "\<dots> = Some (\<lambda>c. if c \<in> set as then map_option (readdressed x y) (?mem c) else ?mem c)"
    by (rule Cons.IH [where mem = ?mem]) (simp only: nodes_upd_other [OF out] b(2))
  finally show ?case using b(1) out by (auto simp: fun_eq_iff)
qed

lemma ip_addr_cmp_set_eq: "ip_addr_cmp (ip_addr_set d x) z = ip_addr_cmp x z" "ip_addr_cmp z (ip_addr_set d x) = ip_addr_cmp z x"
  by (blast intro: ip_addr_cmp_trans ip_addr_cmp_sym ip_addr_cmp_set)+

lemma udp_addr_changed_wf:
  assumes "udp_netif_ip_addr_changed old_addr new_addr s = Some s'" "udp_wf s as"
    and free: "\<And>x a b. new_addr = Some x \<Longrightarrow> udp_mem s a = Some b \<Longrightarrow> up_local_port b \<noteq> 0 \<Longrightarrow> \<not> ip_addr_cmp (up_local_ip b) x"
  shows "udp_wf s' as"
proof (cases "s' = s")
  case False
  obtain x y where xy: "old_addr = Some x" "new_addr = Some y" "\<not> ip_addr_isany x" "\<not> ip_addr_isany y"
    using assms(1) False by (auto simp: udp_netif_ip_addr_changed_def split: option.splits if_splits)
  note nodes = udp_wf_nodes [OF assms(2)]
  let ?mem = "\<lambda>a. if a \<in> set as then map_option (readdressed x y) (udp_mem s a) else udp_mem s a"
  have s': "s' = s\<lparr>udp_mem := ?mem\<rparr>"
    using assms(1) xy udp_readdress_list [OF nodes, of x y] by (simp add: udp_netif_ip_addr_changed_def)
  have u: "upcb s' a = readdressed x y (upcb s a)" if "a \<in> set as" for a
    using nodes_present [OF nodes that] that by (auto simp: s' upcb_def)
  have nodes': "udp_nodes s' as"
    using nodes by (subst nodes_cong [where mem' = "udp_mem s"]) (auto simp: s' option.map_comp comp_def)
  have port: "up_local_port (upcb s a) \<noteq> 0 \<and> \<not> ip_addr_cmp (up_local_ip (upcb s a)) y" if mem: "a \<in> set as" for a
  proof -
    obtain b where "udp_mem s a = Some b" using nodes_present [OF nodes mem] by blast
    then show ?thesis using assms(2) mem free [OF xy(2)] by (auto simp: udp_wf_def upcb_def)
  qed
  have apart: "\<not> udp_overlap (up_local_ip (upcb s' a)) (up_local_ip (upcb s' c))"
    if ac: "a \<in> set as" "c \<in> set as" "a \<noteq> c" "up_local_port (upcb s' a) = up_local_port (upcb s' c)" for a c
  proof -
    have old: "\<not> udp_overlap (up_local_ip (upcb s a)) (up_local_ip (upcb s c))"
      using assms(2) ac u [OF ac(1)] u [OF ac(2)] by (simp add: udp_wf_def)
    have "\<not> ip_addr_cmp y (up_local_ip (upcb s a))" "\<not> ip_addr_cmp y (up_local_ip (upcb s c))"
      "\<not> ip_addr_cmp (up_local_ip (upcb s a)) y" "\<not> ip_addr_cmp (up_local_ip (upcb s c)) y"
      using port [OF ac(1)] port [OF ac(2)] ip_addr_cmp_sym by blast+
    moreover have "\<not> (ip_addr_cmp (up_local_ip (upcb s a)) x \<and> ip_addr_cmp (up_local_ip (upcb s c)) x)"
      using old ip_addr_cmp_sym ip_addr_cmp_trans unfolding udp_overlap_def by blast
    ultimately show ?thesis
      using old xy(4) unfolding u [OF ac(1)] u [OF ac(2)] readdressed_def
      by (auto simp: udp_overlap_def ip_addr_cmp_set_eq)
  qed
  show ?thesis
    using assms(2) nodes' apart unfolding udp_wf_def by (auto simp: s')
qed (use assms(2) in simp)

section \<open>Histories\<close>

text \<open>
  The functions of \<^verbatim>\<open>udp.c\<close>. The address of an interface may change to one that no bound PCB has
  yet: without this the code would bind two PCBs to one address and port.
\<close>

inductive udp_step :: "'a udp_state_scheme \<Rightarrow> 'a udp_state_scheme \<Rightarrow> bool" where
  step_new: "udp_step s (snd (udp_new s))"
| step_new_ip_type: "udp_new_ip_type type s = Some (pcb, s') \<Longrightarrow> udp_step s s'"
| step_bind: "udp_mem s pcb \<noteq> None \<Longrightarrow> udp_bind pcb ip port s = Some (e, s') \<Longrightarrow> udp_step s s'"
| step_bind_netif: "udp_mem s pcb \<noteq> None \<Longrightarrow> udp_bind_netif pcb netif s = Some s' \<Longrightarrow> udp_step s s'"
| step_connect: "udp_mem s pcb \<noteq> None \<Longrightarrow> udp_connect pcb ip' port s = Some (e, s') \<Longrightarrow> udp_step s s'"
| step_disconnect: "udp_mem s pcb \<noteq> None \<Longrightarrow> udp_disconnect pcb s = Some s' \<Longrightarrow> udp_step s s'"
| step_recv: "udp_mem s pcb \<noteq> None \<Longrightarrow> udp_recv pcb f arg s = Some s' \<Longrightarrow> udp_step s s'"
| step_remove: "udp_mem s pcb \<noteq> None \<Longrightarrow> udp_remove pcb s = Some s' \<Longrightarrow> udp_step s s'"
| step_input: "udp_quiet env \<Longrightarrow> udp_input env m p inp s = Some s' \<Longrightarrow> udp_step s s'"
| step_send: "udp_send pcb p s = Some (e, s') \<Longrightarrow> udp_step s s'"
| step_send_chksum: "udp_send_chksum pcb p have_chksum chksum s = Some (e, s') \<Longrightarrow> udp_step s s'"
| step_sendto: "udp_quiet env \<Longrightarrow> udp_sendto env pcb p dst_ip dst_port src_ip src_port s = Some (e, s') \<Longrightarrow> udp_step s s'"
| step_sendto_chksum:
    "udp_quiet env \<Longrightarrow> udp_sendto_chksum env pcb p dst_ip dst_port have_chksum chksum src_ip src_port s = Some (e, s') \<Longrightarrow>
     udp_step s s'"
| step_sendto_if:
    "udp_quiet env \<Longrightarrow> udp_sendto_if env pcb p dst_ip dst_port n src_ip src_port s = Some (e, s') \<Longrightarrow> udp_step s s'"
| step_sendto_if_chksum:
    "udp_quiet env \<Longrightarrow> udp_sendto_if_chksum env pcb p dst_ip dst_port n have_chksum chksum src_ip src_port s = Some (e, s') \<Longrightarrow>
     udp_step s s'"
| step_sendto_if_src:
    "udp_quiet env \<Longrightarrow> udp_sendto_if_src env pcb p dst_ip dst_port n src_ip src_port s = Some (e, s') \<Longrightarrow> udp_step s s'"
| step_sendto_if_src_chksum:
    "udp_quiet env \<Longrightarrow> udp_sendto_if_src_chksum env pcb p dst_ip dst_port n have_chksum chksum src_ip src_port s = Some (e, s') \<Longrightarrow>
     udp_step s s'"
| step_addr_changed:
    "(\<forall>x a b. new_addr = Some x \<and> udp_mem s a = Some b \<and> up_local_port b \<noteq> 0 \<longrightarrow> \<not> ip_addr_cmp (up_local_ip b) x) \<Longrightarrow>
     udp_netif_ip_addr_changed old_addr new_addr s = Some s' \<Longrightarrow> udp_step s s'"

definition udp_initial :: "'a udp_state_scheme \<Rightarrow> bool" where
  "udp_initial s = ((\<exists>rand s0. s = udp_init rand s0) \<and> udp_pcbs s = 0 \<and> udp_mem s = (\<lambda>_. None) \<and> 0 < udp_nxt s)"

inductive udp_reachable :: "'a udp_state_scheme \<Rightarrow> bool" where
  reach_init: "udp_initial s \<Longrightarrow> udp_reachable s"
| reach_step: "udp_reachable s \<Longrightarrow> udp_step s s' \<Longrightarrow> udp_reachable s'"

lemma local_port_range: "49152 \<le> unat (UDP_ENSURE_LOCAL_PORT_RANGE p)"
proof -
  have "p AND NOT UDP_LOCAL_PORT_RANGE_START = take_bit 14 p"
    by (rule bit_word_eqI)
      (auto simp: UDP_LOCAL_PORT_RANGE_START_def bit_simps less_Suc_eq numeral_eq_Suc)
  then have "unat (p AND NOT UDP_LOCAL_PORT_RANGE_START) < 16384"
    using take_bit_nat_less_exp [of 14 "unat p"] by (simp add: unsigned_take_bit_eq)
  then show ?thesis
    unfolding UDP_ENSURE_LOCAL_PORT_RANGE_def
    by (subst unat_add_u16_small) (simp_all add: UDP_LOCAL_PORT_RANGE_START_def)
qed

lemma udp_sendto_wf:
  assumes "udp_quiet env" "udp_wf s as"
  shows "udp_sendto_if_chksum env pcb p dst_ip dst_port n have_chksum chksum src_ip src_port s = Some (e, s') \<Longrightarrow> \<exists>as'. udp_wf s' as'"
    and "udp_sendto_chksum env pcb p dst_ip dst_port have_chksum chksum src_ip src_port s = Some (e, s') \<Longrightarrow> \<exists>as'. udp_wf s' as'"
proof -
  note w = udp_sendto_if_src_chksum_wf [OF _ assms]
  show c: "udp_sendto_if_chksum env pcb p dst_ip dst_port n have_chksum chksum src_ip src_port s = Some (e, s') \<Longrightarrow> \<exists>as'. udp_wf s' as'" for n
    using assms(2) by (auto simp: udp_sendto_if_chksum_def split: bind_splits if_splits dest: w)
  show "udp_sendto_chksum env pcb p dst_ip dst_port have_chksum chksum src_ip src_port s = Some (e, s') \<Longrightarrow> \<exists>as'. udp_wf s' as'"
    using assms(2) by (auto simp: udp_sendto_chksum_def split: bind_splits if_splits option.splits dest: c)
qed

lemma udp_step_wf:
  assumes "udp_step s s'" "udp_wf s as"
  shows "\<exists>as'. udp_wf s' as'"
  using assms(1)
proof cases
  case step_new
  then show ?thesis using udp_new_wf [OF assms(2)] by blast
next
  case (step_new_ip_type type pcb)
  then show ?thesis using udp_new_ip_type_wf [OF _ assms(2)] by blast
next
  case (step_bind pcb ip port e)
  then obtain b where "udp_mem s pcb = Some b" by blast
  from udp_bind_ok [OF assms(2) this, of ip port] step_bind(2)
  show ?thesis by (auto split: if_splits)
next
  case (step_bind_netif pcb netif)
  then obtain b where b: "udp_mem s pcb = Some b" by blast
  then have "udp_wf (put_udp pcb (b\<lparr>up_netif_idx := x\<rparr>) s) as" for x
    by (rule udp_wf_put [OF assms(2)]) simp_all
  then show ?thesis using step_bind_netif(2) b by (auto simp: udp_bind_netif_def)
next
  case (step_connect pcb ip' port e)
  then obtain b where "udp_mem s pcb = Some b" by blast
  from udp_connect_wf [OF assms(2) this, of ip' port] step_connect(2) show ?thesis by auto
next
  case (step_disconnect pcb)
  then obtain b where b: "udp_mem s pcb = Some b" by blast
  then have "udp_wf (put_udp pcb (b\<lparr>up_remote_ip := x, up_remote_port := y, up_netif_idx := z, up_flags := w\<rparr>) s) as" for x y z w
    by (rule udp_wf_put [OF assms(2)]) simp_all
  then show ?thesis
    using step_disconnect(2) b udp_wf_present(1) [OF assms(2) b] by (auto simp: udp_disconnect_def Let_def intro!: exI [of _ as] split: if_splits)
next
  case (step_recv pcb f arg)
  then obtain b where b: "udp_mem s pcb = Some b" by blast
  then have "udp_wf (put_udp pcb (b\<lparr>up_recv := f, up_recv_arg := arg\<rparr>) s) as"
    by (rule udp_wf_put [OF assms(2)]) simp_all
  then show ?thesis
    using step_recv(2) b udp_wf_present(1) [OF assms(2) b] by (auto simp: udp_recv_def split: if_splits)
next
  case (step_remove pcb)
  then obtain b where "udp_mem s pcb = Some b" by blast
  from udp_remove_ok [OF assms(2) this] step_remove(2) show ?thesis by auto
next
  case (step_input env m p inp)
  then show ?thesis using udp_input_view [of env m p inp s s'] udp_wf_view assms(2) by blast
next
  case (step_send pcb p e)
  then have "s' = s" by (auto simp: udp_send_def split: bind_splits if_splits)
  then show ?thesis using assms(2) by blast
next
  case (step_send_chksum pcb p have_chksum chksum e)
  then have "s' = s" by (auto simp: udp_send_chksum_def split: bind_splits if_splits)
  then show ?thesis using assms(2) by blast
next
  case step_sendto
  then show ?thesis using udp_sendto_wf(2) [OF _ assms(2)] unfolding udp_sendto_def by blast
next
  case step_sendto_chksum
  then show ?thesis using udp_sendto_wf(2) [OF _ assms(2)] by blast
next
  case step_sendto_if
  then show ?thesis using udp_sendto_wf(1) [OF _ assms(2)] unfolding udp_sendto_if_def by blast
next
  case step_sendto_if_chksum
  then show ?thesis using udp_sendto_wf(1) [OF _ assms(2)] by blast
next
  case step_sendto_if_src
  then show ?thesis using udp_sendto_if_src_chksum_wf [OF _ _ assms(2)] unfolding udp_sendto_if_src_def by blast
next
  case step_sendto_if_src_chksum
  then show ?thesis using udp_sendto_if_src_chksum_wf [OF _ _ assms(2)] by blast
next
  case (step_addr_changed new_addr old_addr)
  then show ?thesis using udp_addr_changed_wf [OF step_addr_changed(2) assms(2)] by blast
qed

text \<open>C23: In every state that the functions of \<^verbatim>\<open>udp.c\<close> lead to from the initial one - creating,
  binding, connecting and removing PCBs, sending, receiving, and the change of an interface's address
  to one that no bound PCB has - the PCB list is well formed and contains exactly the PCBs with a
  local port, and no two PCBs share a port with overlapping addresses. The functions below UDP and
  the receive functions may do anything but change UDP's PCBs behind its back.\<close>

theorem udp_reachable_wf:
  assumes "udp_reachable s"
  shows "\<exists>as. udp_wf s as"
  using assms
proof (induction rule: udp_reachable.induct)
  case (reach_init s)
  then have "udp_wf s []"
    using local_port_range by (auto simp: udp_initial_def udp_wf_def udp_init_def)
  then show ?case by blast
next
  case (reach_step s s')
  then show ?case using udp_step_wf by blast
qed

theorem udp_reachable_wf_witness: "\<exists>as. udp_wf (snd (udp_new demo_udp)) as"
proof (rule udp_reachable_wf)
  have "demo_udp = udp_init 0 demo_udp"
    by (simp add: demo_udp_def udp_init_def UDP_ENSURE_LOCAL_PORT_RANGE_def UDP_LOCAL_PORT_RANGE_START_def)
  then have "udp_initial demo_udp" unfolding udp_initial_def by (auto simp: demo_udp_def)
  then have "udp_reachable demo_udp" by (rule reach_init)
  then show "udp_reachable (snd (udp_new demo_udp))" by (rule reach_step) (rule udp_step.step_new)
qed

end
