(* ===== verification/Spec2Isabelle.thy ===== *)
theory Spec2Isabelle
  imports Lwip_Chksum Lwip_Pbuf_Data Lwip_Pbuf_Chain Lwip_Ip6_Addr Lwip_Timeouts Lwip_Udp_Props Lwip_Reass_Done Lwip_Ip4_Input Lwip_Tcp_Tmr Lwip_Tcp_Opt Lwip_Tcp_Wnd Lwip_Tcp_Process Lwip_Tcp_Tw Lwip_Stack Lwip_Ip6_Ping Lwip_Ip6_Reass_Props Lwip_Udp_Reach
begin

text \<open>
  The TCP/IP stack of go-tun2socks. The program turns the IP packets of a TUN device into connections
  and datagrams that a Go handler forwards to a proxy. The work in between is done by a copy of lwIP in
  C (\<^verbatim>\<open>src/core/c\<close>), with the switch \<^verbatim>\<open>TUN2SOCKS\<close>: the only interface accepts packets to any address,
  so that the listening PCB of TCP and the bound PCB of UDP see all traffic. This development models that
  C code in the configuration of \<^verbatim>\<open>core/c/custom/lwipopts.h\<close> and states what makes it correct. File names
  without a directory are those of \<^verbatim>\<open>src/core/c/core\<close>, its \<^verbatim>\<open>ipv4\<close> and \<^verbatim>\<open>ipv6\<close> directories.

  The way of a packet. The Go function \<^verbatim>\<open>Write\<close> puts a packet into a pbuf and calls the input function of
  the interface, which is \<^verbatim>\<open>ip4_input\<close> or \<^verbatim>\<open>ip6_input\<close>. It checks the header, collects fragments, skips
  extension headers and calls \<^verbatim>\<open>udp_input\<close>, \<^verbatim>\<open>tcp_input\<close>, \<^verbatim>\<open>icmp_input\<close> or \<^verbatim>\<open>icmp6_input\<close>, which find the control block (PCB) and call the functions
  that the Go side has installed. The Go side answers with \<^verbatim>\<open>udp_sendto\<close>, \<^verbatim>\<open>tcp_write\<close>, \<^verbatim>\<open>tcp_recved\<close> and
  \<^verbatim>\<open>tcp_close\<close>, which end in \<^verbatim>\<open>ip4_output_if\<close> or \<^verbatim>\<open>ip6_output_if\<close> and the output function of the interface. Every 250 ms it
  calls \<^verbatim>\<open>sys_check_timeouts\<close>, which runs the timers of TCP and of the reassembly. One lock of the Go side
  guards all calls, so that the model is sequential.

  How the code is modelled.
    \<^item> Integers keep their width (\<^verbatim>\<open>u8\<close>, \<^verbatim>\<open>u16\<close>, \<^verbatim>\<open>u32\<close> are words; sums wrap around). The host is
      little-endian, so \<^verbatim>\<open>lwip_htons\<close> and \<^verbatim>\<open>lwip_htonl\<close> swap.
    \<^item> An operation returns an option. \<^term>\<open>None\<close> stands for a failed \<^verbatim>\<open>LWIP_ASSERT\<close>, which aborts the
      process, for an access to memory that is not there, and for a loop that does not end. Errors that the
      code reports are values (\<^verbatim>\<open>err_t\<close>, NULL as 0) and branches of the model.
    \<^item> Structures are records; pointers to them are numbers, and a store maps the number to the record
      (\<^verbatim>\<open>heap\<close> for pbufs and their bytes, \<^verbatim>\<open>udp_mem\<close>, \<^verbatim>\<open>rd_mem\<close>, \<^verbatim>\<open>tcp_mem\<close> and \<^verbatim>\<open>r6_mem\<close> for the blocks of the
      protocols). Each block keeps its \<^verbatim>\<open>next\<close> pointer. The global variables of a file are fields of a state
      record: \<^verbatim>\<open>ip_state\<close>, extended by \<^verbatim>\<open>udp_state\<close>, \<^verbatim>\<open>reass_state\<close>, \<^verbatim>\<open>tcp_state\<close> and \<^verbatim>\<open>reass6_state\<close>, so that one state
      passes through all layers. \<^verbatim>\<open>malloc\<close> fails where the state says so.
    \<^item> The segments on the queues of a TCP connection are lists in the PCB rather than linked records.
    \<^item> Loops over linked structures are \<^verbatim>\<open>partial_function (option)\<close>: a theorem that gives a result also
      says that the loop ends. Loops over data are structural. No definition has fuel.
    \<^item> Functions called through a pointer or in a module that is not modelled are fields of a record that the
      operations take as an argument: \<^verbatim>\<open>ip_env\<close> (the driver, raw PCBs, the receive functions of UDP, and what
      lies in theories that import this one), \<^verbatim>\<open>ip6_env\<close> (the driver and neighbour discovery), \<^verbatim>\<open>tcp_env\<close> (the callbacks of a TCP application) and \<^verbatim>\<open>callbacks\<close> (the timer functions). Each may
      change the whole state. \<^verbatim>\<open>Lwip_Stack\<close> fills in those that this development models.

  The theories, in the order of the code.
    \<^item> \<^verbatim>\<open>Lwip_Prelude\<close>: types, assertions, lemmas on words, byte lists and decimal texts. \<^verbatim>\<open>Lwip_List\<close>: linked
      lists, with the locale \<^verbatim>\<open>linked\<close> for any block that has a \<^verbatim>\<open>next\<close> field, interpreted on UDP PCBs, TCP
      PCBs and the datagrams under reassembly. \<^verbatim>\<open>Lwip_Seq\<close>: comparisons of numbers that wrap around, with the
      locale \<^verbatim>\<open>window_order\<close>, interpreted on the clock of the timers and on sequence numbers.
    \<^item> \<^verbatim>\<open>Lwip_Def\<close> (\<^verbatim>\<open>def.c\<close>), \<^verbatim>\<open>Lwip_Ip_Addr\<close>, \<^verbatim>\<open>Lwip_Ip4_Addr\<close>, \<^verbatim>\<open>Lwip_Ip6_Addr\<close> (\<^verbatim>\<open>ip4_addr.c\<close>, \<^verbatim>\<open>ip6_addr.c\<close> and
      their headers): texts and tests of addresses.
    \<^item> \<^verbatim>\<open>Lwip_Chksum\<close> (\<^verbatim>\<open>inet_chksum.c\<close>): the three checksum algorithms and the sums over chains and pseudo
      headers. The locale \<^verbatim>\<open>lwip_chksum\<close> states what the stack needs of an algorithm, and is interpreted on all
      three; the specification is the one's complement sum of 16-bit words.
    \<^item> \<^verbatim>\<open>Lwip_Heap\<close>, \<^verbatim>\<open>Lwip_Pbuf\<close> (\<^verbatim>\<open>pbuf.c\<close>) and, for its properties, \<^verbatim>\<open>Lwip_Pbuf_Data\<close> (reading and writing),
      \<^verbatim>\<open>Lwip_Pbuf_Chain\<close> (freeing, joining, cutting), \<^verbatim>\<open>Lwip_Pbuf_Alloc\<close> and \<^verbatim>\<open>Lwip_Pbuf_Props\<close>. The abstraction
      of a packet is \<^verbatim>\<open>content\<close>, the bytes its chain carries; \<^verbatim>\<open>packet\<close> is its well-formedness.
    \<^item> \<^verbatim>\<open>Lwip_Timeouts\<close> (\<^verbatim>\<open>timeouts.c\<close>): the sorted list of timeouts and the cyclic timers.
    \<^item> \<^verbatim>\<open>Lwip_Ip\<close>, \<^verbatim>\<open>Lwip_Ip4_Output\<close>, \<^verbatim>\<open>Lwip_Ip4_Input\<close> (\<^verbatim>\<open>ip4.c\<close> and \<^verbatim>\<open>ip4_frag\<close>) and \<^verbatim>\<open>Lwip_Reass\<close> (the reassembly
      of \<^verbatim>\<open>ip4_frag.c\<close>), whose properties are in \<^verbatim>\<open>Lwip_Reass_Props\<close> and \<^verbatim>\<open>Lwip_Reass_Done\<close>.
    \<^item> \<^verbatim>\<open>Lwip_Icmp\<close> and \<^verbatim>\<open>Lwip_Icmp_Props\<close> (\<^verbatim>\<open>icmp.c\<close>), \<^verbatim>\<open>Lwip_Stack\<close>: a ping through IP and ICMP.
    \<^item> \<^verbatim>\<open>Lwip_Ip6_Output\<close>, \<^verbatim>\<open>Lwip_Ip6_Input\<close> (\<^verbatim>\<open>ip6.c\<close> and \<^verbatim>\<open>ip6_frag\<close>), \<^verbatim>\<open>Lwip_Icmp6\<close> (\<^verbatim>\<open>icmp6.c\<close>), and their
      properties \<^verbatim>\<open>Lwip_Ip6_Props\<close> and \<^verbatim>\<open>Lwip_Ip6_Ping\<close>. \<^verbatim>\<open>Lwip_Ip6_Reass\<close> and \<^verbatim>\<open>Lwip_Ip6_Reass_Props\<close>: the
      reassembly of \<^verbatim>\<open>ip6_frag.c\<close>; \<^verbatim>\<open>reass6_env\<close> is the environment in which \<^verbatim>\<open>ip6_input\<close> calls it.
    \<^item> \<^verbatim>\<open>Lwip_Udp\<close> (PCBs), \<^verbatim>\<open>Lwip_Udp_Io\<close> (datagrams), \<^verbatim>\<open>Lwip_Udp_List\<close>, \<^verbatim>\<open>Lwip_Udp_Props\<close> and \<^verbatim>\<open>Lwip_Udp_Reach\<close>
      (all histories) (\<^verbatim>\<open>udp.c\<close>).
    \<^item> \<^verbatim>\<open>Lwip_Tcp\<close> (data, \<^verbatim>\<open>tcp.h\<close>, \<^verbatim>\<open>tcp_priv.h\<close>), \<^verbatim>\<open>Lwip_Tcp_Out\<close> and \<^verbatim>\<open>Lwip_Tcp_Write\<close> (\<^verbatim>\<open>tcp_out.c\<close>), \<^verbatim>\<open>Lwip_Tcp_Pcb\<close> and
      \<^verbatim>\<open>Lwip_Tcp_Tmr\<close> (\<^verbatim>\<open>tcp.c\<close>), \<^verbatim>\<open>Lwip_Tcp_Receive\<close> and \<^verbatim>\<open>Lwip_Tcp_In\<close> (\<^verbatim>\<open>tcp_in.c\<close>).
    \<^item> Properties of TCP: \<^verbatim>\<open>Lwip_Tcp_Opt\<close> (the option parser), \<^verbatim>\<open>Lwip_Tcp_Wnd\<close> (the receive window),
      \<^verbatim>\<open>Lwip_Tcp_Frame\<close> (what the operations of one connection leave alone), \<^verbatim>\<open>Lwip_Tcp_State\<close> and
      \<^verbatim>\<open>Lwip_Tcp_Process\<close> (the state machine against RFC 793, and resets against RFC 5961), \<^verbatim>\<open>Lwip_Tcp_Tw\<close> (the
      end of connections). \<^verbatim>\<open>Lwip_Tcp_Demo\<close> is the host of the witnesses.

  What the lemmas show.
    \<^item> TCP: a step of \<^verbatim>\<open>tcp_process\<close> is a path in the state diagram of RFC 793 labelled by what the segment
      carries, and changes no other connection; resets are accepted at the expected sequence number only; the
      announced window never shrinks; the option parser is safe for all bytes when the byte behind
      them can be read; PCBs in TIME_WAIT are freed
      after exactly twice the segment lifetime. Application callbacks are assumed not to change the states of
      PCBs in the first of these (\<^verbatim>\<open>tcp_quiet\<close>).
    \<^item> UDP: bindings never conflict in any reachable state, provided that an interface does not take an address
      that a PCB is bound to; a port is found when there is one, datagrams carry
      a correct checksum and reach the first matching PCB with ports and data as they were sent.
    \<^item> IP: the reassembly refines insertion into a sorted list of disjoint ranges, and the completed packet has
      the payloads in order; a ping to any address is answered with a correct packet, by IPv4 and by IPv6; the
      walk over the options of extension headers ends for all bytes; the IPv6 source address is the one
      that the rules 1, 2, 3 and the implemented part of rule 8 of RFC 6724 prefer, with the scopes that lwIP gives
      to addresses; the reassembly of IPv6 inserts fragments in the same way, but may leave a hole.
    \<^item> pbufs: each operation is described by its effect on the contents; reference counts free exactly what is
      unshared; a failed allocation leaks nothing.
    \<^item> Checksums: all algorithms compute the specified sum, for every split of the data into pbufs and every
      alignment.
    \<^item> Timers: the list stays sorted, cyclic timers do not drift, \<^verbatim>\<open>sys_check_timeouts\<close> returns and the timer of
      TCP is queued exactly when it is marked as running.

  Where the code does something else than it should, the theorem says so: \<^verbatim>\<open>ip6addr_ntoa_r\<close> and
  \<^verbatim>\<open>tcp_parseopt\<close> read behind their input, so does the walk over IPv6 options, \<^verbatim>\<open>pbuf_free\<close> counts modulo 256, a partial checksum aborts for long
  data, a RST one number behind the receive window is answered, a UDP PCB created the way the Go side does rejects IPv6, a completed IPv4 datagram may be longer than
  its header says, an IPv6 datagram may be completed with a hole, and one whose first fragment has too many
  pbufs aborts the program a minute later.

  Not modelled: neighbour discovery (\<^verbatim>\<open>nd6.c\<close>), which appears as functions of the environment, and MLD
  (\<^verbatim>\<open>mld6.c\<close>); raw PCBs, of which the program
  creates none; the life cycle of interfaces (\<^verbatim>\<open>netif.c\<close>), which the program runs once at its start; statistics
  and debug output; modules that the configuration leaves out (DHCP, AutoIP, IGMP, ARP, DNS, altcp, the heap and
  the pools of lwIP, for which it uses the C library); the Go side; and the second copy of lwIP in
  \<^verbatim>\<open>src/ipstack\<close>, which no package imports.
\<close>

end
